(* ===== verification/Prelude.thy ===== *)
theory Prelude
  imports Main "HOL-Library.Word" "HOL-Library.Monad_Syntax"
begin

text \<open>
  The vocabulary every component shares: the fixed-width integer types and the
  return codes and bit macros of \<^verbatim>\<open>include/rotary/core.h\<close>, the spinlock of
  \<^verbatim>\<open>arch/x86/kernel/sync.c\<close>, and the generic facts on options, lists and words the
  component proofs use.

  Convention for execution. An operation that reads or writes through a pointer
  returns an option: \<^term>\<open>None\<close> says that the C function does not return normally,
  because it dereferences NULL or an index outside an array, or because it spins
  forever on a lock or in a loop. Failures the code reports itself (\<^verbatim>\<open>E_ERROR\<close>, a
  NULL result) are ordinary values inside \<^term>\<open>Some\<close>.
\<close>

unbundle bit_operations_syntax

section \<open>Automation\<close>

named_theorems rotary_const \<open>constants of the headers, to be unfolded\<close>
named_theorems rotary_macro \<open>function-like macros of the headers\<close>

section \<open>Integer types\<close>

type_synonym u8 = "8 word"
type_synonym u16 = "16 word"
type_synonym u32 = "32 word"
type_synonym u64 = "64 word"
type_synonym i32 = "32 word" \<comment> \<open>read with \<^term>\<open>sint\<close>\<close>

section \<open>Return codes and bit macros (core.h)\<close>

definition E_SUCCESS :: i32 where
  [rotary_const]: "E_SUCCESS = 0"

definition E_ERROR :: i32 where
  [rotary_const]: "E_ERROR = - 1"

definition SUCCESS :: "i32 \<Rightarrow> bool" where
  [rotary_macro]: "SUCCESS value = (0 \<le> sint value)"

definition SET_BIT :: "u32 \<Rightarrow> u32 \<Rightarrow> u32" where
  [rotary_macro]: "SET_BIT flags b = flags OR b"

definition CLEAR_BIT :: "u32 \<Rightarrow> u32 \<Rightarrow> u32" where
  [rotary_macro]: "CLEAR_BIT flags b = flags AND (NOT b)"

definition TEST_BIT :: "u32 \<Rightarrow> u32 \<Rightarrow> bool" where
  [rotary_macro]: "TEST_BIT flags b = (flags AND b \<noteq> 0)"

lemma E_ERROR_neq_SUCCESS [simp]: "E_ERROR \<noteq> E_SUCCESS" "E_SUCCESS \<noteq> E_ERROR"
  by (simp_all add: rotary_const)

lemma SUCCESS_simps [simp]: "SUCCESS E_SUCCESS" "\<not> SUCCESS E_ERROR"
  by (simp_all add: rotary_const rotary_macro)

text \<open>
  \<^verbatim>\<open>PANIC\<close> stops the kernel for good; a function that may call it returns an outcome.
\<close>

datatype 'a outcome = Returned 'a | Panic

section \<open>Spinlocks (sync.c)\<close>

text \<open>
  An \<^verbatim>\<open>atomic_flag\<close> is a bool. The test-and-set of \<^verbatim>\<open>lock\<close> on a flag that is
  already set never leaves its loop when nothing else runs, so acquiring a held lock
  is \<^term>\<open>None\<close>.
\<close>

definition lock :: "bool \<Rightarrow> bool option" where
  "lock flag = (if flag then None else Some True)"

definition unlock :: "bool \<Rightarrow> bool" where
  "unlock flag = False"

lemma lock_simps [simp]: "lock False = Some True" "lock True = None" "unlock b = False"
  by (simp_all add: lock_def unlock_def)

section \<open>Options\<close>

lemma bind_eq_SomeE:
  assumes "m \<bind> f = Some y"
  obtains x where "m = Some x" "f x = Some y"
  using assms by (cases m) auto

section \<open>Loops over an index range that return at the first hit\<close>

lemma find_upt_SomeD: "find P [0..<n] = Some i \<Longrightarrow> i < n \<and> P i \<and> (\<forall>j<i. \<not> P j)"
  by (auto simp: find_Some_iff)

lemma find_upt_None: "find P [0..<n] = None \<longleftrightarrow> (\<forall>i<n. \<not> P i)"
  by (auto simp: find_None_iff)

lemma find_SomeD: "find P xs = Some x \<Longrightarrow> x \<in> set xs \<and> P x"
  by (auto simp: find_Some_iff)

section \<open>Words\<close>

lemma unat_u32_less: "unat (a :: u32) < 2 ^ 32"
  using unsigned_less [of a, where ?'a = nat] by simp

lemma unat_power2: "n < 32 \<Longrightarrow> unat (2 ^ n :: u32) = 2 ^ n"
  by transfer simp

lemma unat_eqI: "unat (a :: u32) = unat b \<Longrightarrow> a = b"
  by (simp add: word_unat_eq_iff)

lemma unat_le_imp_of_nat: "n < 2 ^ 32 \<Longrightarrow> unat (of_nat n :: u32) = n"
  by (simp add: unat_of_nat take_bit_nat_eq_self)

lemma unat_xor: "unat ((a :: u32) XOR b) = unat a XOR unat b"
  by (simp add: unsigned_xor_eq)

lemma unat_and: "unat ((a :: u32) AND b) = unat a AND unat b"
  by (simp add: unsigned_and_eq)

lemma unat_add_small: "unat (a :: u32) + unat b < 2 ^ 32 \<Longrightarrow> unat (a + b) = unat a + unat b"
  by (simp add: unat_word_ariths)

lemma unat_sub_small: "unat (b :: u32) \<le> unat a \<Longrightarrow> unat (a - b) = unat a - unat b"
  by (simp add: unat_sub word_le_nat_alt)

end
