(* ===== verification/KString.thy ===== *)
theory KString
  imports Prelude
begin

text \<open>
  String and memory operations, \<^verbatim>\<open>kernel/core/string.c\<close>, on a byte memory: a function from
  32-bit addresses to bytes. Address arithmetic wraps as the code's does. The loops that look
  for a terminating NUL are partial: \<^term>\<open>None\<close> is a walk that never meets one. The address of
  a local array is an argument of the function that has it.
\<close>

type_synonym mem = "u32 \<Rightarrow> u8"

definition MAX_STRING_LEN :: nat where [rotary_const]: "MAX_STRING_LEN = 512"

section \<open>Blocks of bytes\<close>

primrec memset_loop :: "nat \<Rightarrow> u32 \<Rightarrow> u8 \<Rightarrow> mem \<Rightarrow> mem" where
  "memset_loop 0 ptr v m = m"
| "memset_loop (Suc n) ptr v m = memset_loop n (ptr + 1) v (m(ptr := v))"

definition memset :: "u32 \<Rightarrow> i32 \<Rightarrow> u32 \<Rightarrow> mem \<Rightarrow> u32 \<times> mem" where
  "memset dest v n m = (dest, memset_loop (unat n) dest (ucast v) m)"

primrec memcpy_loop :: "nat \<Rightarrow> u32 \<Rightarrow> u32 \<Rightarrow> mem \<Rightarrow> mem" where
  "memcpy_loop 0 d s m = m"
| "memcpy_loop (Suc n) d s m = memcpy_loop n (d + 1) (s + 1) (m(d := m s))"

definition memcpy :: "u32 \<Rightarrow> u32 \<Rightarrow> u32 \<Rightarrow> mem \<Rightarrow> u32 \<times> mem" where
  "memcpy dest src n m = (dest, memcpy_loop (unat n) dest src m)"

section \<open>Strings\<close>

function strlen_loop :: "nat \<Rightarrow> mem \<Rightarrow> u32 \<Rightarrow> nat" where
  "strlen_loop i m string =
     (if i < MAX_STRING_LEN \<and> m (string + of_nat i) \<noteq> 0 then strlen_loop (Suc i) m string else i)"
  by pat_completeness auto
termination
  by (relation "measure (\<lambda>(i, m, p). MAX_STRING_LEN - i)") auto

declare strlen_loop.simps [simp del]

definition strlen :: "mem \<Rightarrow> u32 \<Rightarrow> u32" where
  "strlen m string = of_nat (strlen_loop 0 m string)"

partial_function (option) strcmp :: "mem \<Rightarrow> u32 \<Rightarrow> u32 \<Rightarrow> i32 option" where
  "strcmp m s1 s2 =
     (if m s1 \<noteq> 0 \<and> m s1 = m s2 then strcmp m (s1 + 1) (s2 + 1)
      else Some (ucast (m s1) - ucast (m s2)))"

partial_function (option) strcpy_loop :: "u32 \<Rightarrow> u32 \<Rightarrow> mem \<Rightarrow> mem option" where
  "strcpy_loop d s m =
     (let c = m s; m' = m(d := c) in if c \<noteq> 0 then strcpy_loop (d + 1) (s + 1) m' else Some m')"

definition strcpy :: "u32 \<Rightarrow> u32 \<Rightarrow> mem \<Rightarrow> (u32 \<times> mem) option" where
  "strcpy dest src m = do { m' \<leftarrow> strcpy_loop dest src m; Some (dest, m') }"

function strncpy_copy :: "nat \<Rightarrow> nat \<Rightarrow> u32 \<Rightarrow> u32 \<Rightarrow> mem \<Rightarrow> nat \<times> mem" where
  "strncpy_copy i n dest src m =
     (if i < n \<and> m (src + of_nat i) \<noteq> 0
      then strncpy_copy (Suc i) n dest src (m(dest + of_nat i := m (src + of_nat i)))
      else (i, m))"
  by pat_completeness auto
termination
  by (relation "measure (\<lambda>(i, n, d, s, m). n - i)") auto

declare strncpy_copy.simps [simp del]

definition strncpy :: "u32 \<Rightarrow> u32 \<Rightarrow> u32 \<Rightarrow> mem \<Rightarrow> u32 \<times> mem" where
  "strncpy dest src n m =
     (let (i, m') = strncpy_copy 0 (unat n) dest src m
      in (dest, memset_loop (unat n - i) (dest + of_nat i) 0 m'))"

partial_function (option) strcat_loop :: "u32 \<Rightarrow> u32 \<Rightarrow> mem \<Rightarrow> (u32 \<times> mem) option" where
  "strcat_loop d s m =
     (if m s \<noteq> 0 then strcat_loop (d + 1) (s + 1) (m(d := m s)) else Some (d, m))"

definition strcat :: "u32 \<Rightarrow> u32 \<Rightarrow> mem \<Rightarrow> (u32 \<times> mem) option" where
  "strcat str1 str2 m = do {
     (d, m') \<leftarrow> strcat_loop (str1 + strlen m str1) str2 m;
     Some (str1, m'(d := 0))
   }"

text \<open>The swapping loop of \<^verbatim>\<open>reverse\<close>, \<^verbatim>\<open>int_to_str\<close> and \<^verbatim>\<open>uint_to_str\<close>; the indexes are C ints.\<close>

function reverse_loop :: "u32 \<Rightarrow> int \<Rightarrow> int \<Rightarrow> mem \<Rightarrow> mem" where
  "reverse_loop str start stop m =
     (if start < stop
      then (let a = str + of_int start; b = str + of_int stop; temp = m a;
                m1 = m(a := m b); m2 = m1(b := temp)
            in reverse_loop str (start + 1) (stop - 1) m2)
      else m)"
  by pat_completeness auto
termination
  by (relation "measure (\<lambda>(str, start, stop, m). nat (stop - start))") auto

declare reverse_loop.simps [simp del]

definition reverse :: "u32 \<Rightarrow> i32 \<Rightarrow> mem \<Rightarrow> mem" where
  "reverse str len m = reverse_loop str 0 (sint len - 1) m"

section \<open>Numbers\<close>

text \<open>C division truncates towards zero.\<close>

definition c_div :: "int \<Rightarrow> int \<Rightarrow> int" where
  "c_div a b = sgn a * sgn b * (\<bar>a\<bar> div \<bar>b\<bar>)"

definition c_mod :: "int \<Rightarrow> int \<Rightarrow> int" where
  "c_mod a b = a - b * c_div a b"

lemma c_div_shrinks: "v \<noteq> 0 \<Longrightarrow> nat \<bar>c_div v 10\<bar> < nat \<bar>v\<bar>"
  by (auto simp: c_div_def abs_mult)

text \<open>The digit loop: least significant first. It returns the next index.\<close>

function digits_loop :: "int \<Rightarrow> nat \<Rightarrow> u32 \<Rightarrow> mem \<Rightarrow> nat \<times> mem" where
  "digits_loop v i dest m =
     (if v \<noteq> 0 then digits_loop (c_div v 10) (Suc i) dest (m(dest + of_nat i := of_int (c_mod v 10 + 48)))
      else (i, m))"
  by pat_completeness auto
termination
  by (relation "measure (\<lambda>(v, i, d, m). nat \<bar>v\<bar>)") (auto dest: c_div_shrinks)

declare digits_loop.simps [simp del]

definition int_to_str :: "i32 \<Rightarrow> u32 \<Rightarrow> mem \<Rightarrow> mem" where
  "int_to_str num dest m =
     (if num = 0 then m(dest := 48, dest + 1 := 0)
      else
        (let isNegative = sint num < 0;
             num1 = (if isNegative then - num else num);
             (i1, m1) = digits_loop (sint num1) 0 dest m;
             (i2, m2) = (if isNegative then (Suc i1, m1(dest + of_nat i1 := 45)) else (i1, m1));
             m3 = m2(dest + of_nat i2 := 0)
         in reverse_loop dest 0 (int i2 - 1) m3))"

definition uint_to_str :: "u32 \<Rightarrow> u32 \<Rightarrow> mem \<Rightarrow> mem" where
  "uint_to_str num dest m =
     (if num = 0 then m(dest := 48, dest + 1 := 0)
      else
        (let (i, m1) = digits_loop (uint num) 0 dest m;
             m2 = m1(dest + of_nat i := 0)
         in reverse_loop dest 0 (int i - 1) m2))"

text \<open>The eight nibbles from the top, leading zeroes skipped.\<close>

definition hex_digits :: "u8 list" where
  "hex_digits = [48, 49, 50, 51, 52, 53, 54, 55, 56, 57, 97, 98, 99, 100, 101, 102]"

fun hex_loop :: "nat \<Rightarrow> u32 \<Rightarrow> nat \<Rightarrow> bool \<Rightarrow> u32 \<Rightarrow> mem \<Rightarrow> nat \<times> mem" where
  "hex_loop 0 num i leading temp m = (i, m)"
| "hex_loop (Suc j) num i leading temp m =
     (let digit = hex_digits ! unat (drop_bit (j * 4) num AND 0xF)
      in if digit \<noteq> 48 \<or> \<not> leading
         then hex_loop j num (Suc i) False temp (m(temp + of_nat i := digit))
         else hex_loop j num i leading temp m)"

definition int_to_hex_str :: "u32 \<Rightarrow> u32 \<Rightarrow> u32 \<Rightarrow> mem \<Rightarrow> mem option" where
  "int_to_hex_str temp num dest m =
     (if num = 0 then Some (m(dest := 48, dest + 1 := 0))
      else do {
        let (i, m1) = hex_loop 8 num 0 True temp m;
        (_, m2) \<leftarrow> strcpy dest temp (m1(temp + of_nat i := 0));
        Some m2
      })"

function itoa_loop :: "nat \<Rightarrow> nat \<Rightarrow> nat \<Rightarrow> u32 \<Rightarrow> mem \<Rightarrow> nat \<times> mem" where
  "itoa_loop divisor num i dec_string m =
     (if divisor > 0
      then (let digit = num div divisor;
                (i', m') = (if digit \<noteq> 0 \<or> i > 0 then (Suc i, m(dec_string + of_nat i := of_nat (digit + 48))) else (i, m))
            in itoa_loop (divisor div 10) (num mod divisor) i' dec_string m')
      else (i, m))"
  by pat_completeness auto
termination
  by (relation "measure (\<lambda>(d, n, i, p, m). d)") auto

declare itoa_loop.simps [simp del]

definition itoa :: "u32 \<Rightarrow> u32 \<Rightarrow> mem \<Rightarrow> mem" where
  "itoa num dec_string m =
     (if num = 0 then m(dec_string := 48, dec_string + 1 := 0)
      else (let (i, m') = itoa_loop 1000000000 (unat num) 0 dec_string m
            in m'(dec_string + of_nat i := 0)))"

partial_function (option) atoi_loop :: "mem \<Rightarrow> u32 \<Rightarrow> i32 \<Rightarrow> i32 option" where
  "atoi_loop m str res =
     (if m str \<noteq> 0 then atoi_loop m (str + 1) (res * 10 + (scast (m str) - 48)) else Some res)"

definition atoi :: "mem \<Rightarrow> u32 \<Rightarrow> i32 option" where
  "atoi m str = do {
     let (sign, i) = (if m str = 45 then (- 1, 1) else if m str = 43 then (1, 1) else (1, 0));
     res \<leftarrow> atoi_loop m (str + i) 0;
     Some (sign * res)
   }"

partial_function (option) log2_loop :: "u32 \<Rightarrow> u32 \<Rightarrow> u32 option" where
  "log2_loop n result =
     (let n' = drop_bit 1 n in if n' \<noteq> 0 then log2_loop n' (result + 1) else Some result)"

definition log2 :: "u32 \<Rightarrow> u32 option" where
  "log2 n = log2_loop n 0"

end
