(* ===== verification/KString_Props.thy ===== *)
theory KString_Props
  imports KString
begin

text \<open>
  What the string functions compute. The contents a function leaves in memory are stated with
  \<open>store m p xs\<close>: memory \<open>m\<close> with the bytes \<open>xs\<close> at address \<open>p\<close> (addresses wrap), and its inputs
  with \<open>cstr m p s\<close>: the NUL-terminated string \<open>s\<close> lies at \<open>p\<close>.
\<close>

section \<open>Bytes in memory\<close>

definition store :: "mem \<Rightarrow> u32 \<Rightarrow> u8 list \<Rightarrow> mem" where
  "store m p xs = (\<lambda>a. if unat (a - p) < length xs then xs ! unat (a - p) else m a)"

definition cstr :: "mem \<Rightarrow> u32 \<Rightarrow> u8 list \<Rightarrow> bool" where
  "cstr m p s \<longleftrightarrow> length s < 2 ^ 32 \<and> (\<forall>i<length s. m (p + of_nat i) = s ! i \<and> s ! i \<noteq> 0) \<and>
     m (p + of_nat (length s)) = 0"

definition region :: "u32 \<Rightarrow> nat \<Rightarrow> u32 set" where
  "region p n = {a. unat (a - p) < n}"

lemma unat_offset: "i < 2 ^ 32 \<Longrightarrow> unat (p + of_nat i - p :: u32) = i"
  by (simp add: unat_le_imp_of_nat)

lemma unat_add1_le: "unat (w + 1 :: u32) \<le> unat w + 1"
  by (simp add: unat_word_ariths)

lemma store_Nil [simp]: "store m p [] = m"
  by (simp add: store_def)

lemma store_at: "i < length xs \<Longrightarrow> length xs \<le> 2 ^ 32 \<Longrightarrow> store m p xs (p + of_nat i) = xs ! i"
  by (simp add: store_def unat_le_imp_of_nat)

lemma store_upd:
  assumes "i < 2 ^ 32"
  shows "(store m p xs)(p + of_nat i := x) =
    (if i < length xs then store m p (xs[i := x]) else if i = length xs then store m p (xs @ [x])
     else (store m p xs)(p + of_nat i := x))"
proof -
  have "unat (a - p) = i \<longleftrightarrow> a = p + of_nat i" for a
  proof
    assume "unat (a - p) = i"
    then have "of_nat i = a - p" by auto
    then show "a = p + of_nat i" by simp
  qed (use assms in \<open>simp add: unat_le_imp_of_nat\<close>)
  then show ?thesis
    using assms by (auto simp: store_def nth_list_update nth_append fun_eq_iff less_Suc_eq unat_le_imp_of_nat)
qed

lemma store_snoc: "length xs < 2 ^ 32 \<Longrightarrow> (store m p xs)(p + of_nat (length xs) := x) = store m p (xs @ [x])"
  by (simp add: store_upd)

lemma store_snoc_next:
  "length xs < 2 ^ 32 \<Longrightarrow> q = p + of_nat (length xs) \<Longrightarrow> (store m p xs)(q := x) = store m p (xs @ [x])"
  by (simp add: store_snoc)

lemma store_outside: "a \<notin> region p (length xs) \<Longrightarrow> store m p xs a = m a"
  by (simp add: store_def region_def)

lemma region_mono: "a \<in> region p n \<Longrightarrow> n \<le> k \<Longrightarrow> a \<in> region p k"
  by (simp add: region_def)

lemma region_at: "i < n \<Longrightarrow> n \<le> 2 ^ 32 \<Longrightarrow> p + of_nat i \<in> region p n"
  by (simp add: region_def unat_le_imp_of_nat)

lemma cstr_store: "length s < 2 ^ 32 \<Longrightarrow> 0 \<notin> set s \<Longrightarrow> cstr (store m p (s @ [0])) p s"
  by (auto simp: cstr_def store_at nth_append dest: nth_mem)

lemma cstr_frame:
  assumes "cstr m q s" and "region q (Suc (length s)) \<inter> region p (length xs) = {}"
  shows "cstr (store m p xs) q s"
proof -
  have "store m p xs (q + of_nat i) = m (q + of_nat i)" if "i \<le> length s" for i
  proof (rule store_outside)
    have "q + of_nat i \<in> region q (Suc (length s))" using assms(1) that by (intro region_at) (simp_all add: cstr_def)
    then show "q + of_nat i \<notin> region p (length xs)" using assms(2) by blast
  qed
  with assms(1) show ?thesis by (simp add: cstr_def)
qed

lemma region_apart:
  assumes "unat p + n \<le> unat q" and "unat q + k \<le> 2 ^ 32"
  shows "region p n \<inter> region q k = {}"
proof -
  have "unat q \<le> unat a" if "unat (a - q) < k" for a
  proof (rule ccontr)
    assume "\<not> unat q \<le> unat a"
    then have "unat (a - q) = 2 ^ 32 + unat a - unat q" using unat_sub_if' [of a q] by (simp split: if_splits)
    with that assms(2) show False by simp
  qed
  moreover have "unat a < unat p + n" if "unat (a - p) < n" for a
    using that unat_sub_if' [of a p] by (simp split: if_splits)
  ultimately show ?thesis using assms(1) by (fastforce simp: region_def)
qed

section \<open>memset and memcpy\<close>

lemma memset_loop_store:
  "length xs + n \<le> 2 ^ 32 \<Longrightarrow>
     memset_loop n (p + of_nat (length xs)) v (store m p xs) = store m p (xs @ replicate n v)"
proof (induction n arbitrary: xs)
  case (Suc n)
  have "memset_loop n (p + of_nat (length (xs @ [v]))) v (store m p (xs @ [v])) =
      store m p ((xs @ [v]) @ replicate n v)"
    using Suc.prems by (intro Suc.IH) simp
  then show ?case using Suc.prems by (simp add: store_snoc ac_simps)
qed simp

lemma memset_store: "memset p v n m = (p, store m p (replicate (unat n) (ucast v)))"
  using memset_loop_store [of "[]" "unat n" p "ucast v" m] unat_u32_less [of n] by (simp add: memset_def)

lemma memcpy_loop_store:
  assumes "length xs + n \<le> 2 ^ 32"
    and "\<And>i. i < length xs + n \<Longrightarrow> q + of_nat i \<notin> region p (length xs + n)"
  shows "memcpy_loop n (p + of_nat (length xs)) (q + of_nat (length xs)) (store m p xs) =
    store m p (xs @ map (\<lambda>i. m (q + of_nat i)) [length xs..<length xs + n])"
  using assms
proof (induction n arbitrary: xs)
  case (Suc n)
  let ?c = "m (q + of_nat (length xs))"
  have "store m p xs (q + of_nat (length xs)) = ?c"
    using Suc.prems(2) [of "length xs"] region_mono [of _ p "length xs" "length xs + Suc n"]
    by (intro store_outside) auto
  moreover have "memcpy_loop n (p + of_nat (length (xs @ [?c]))) (q + of_nat (length (xs @ [?c]))) (store m p (xs @ [?c])) =
      store m p ((xs @ [?c]) @ map (\<lambda>i. m (q + of_nat i)) [length (xs @ [?c])..<length (xs @ [?c]) + n])"
    using Suc.prems by (intro Suc.IH) (auto simp del: of_nat_add)
  ultimately show ?case using Suc.prems by (simp add: store_snoc ac_simps upt_conv_Cons del: upt_Suc)
qed simp

section \<open>strlen, strcmp, strcpy\<close>

lemma strlen_loop_at:
  assumes "cstr m p s"
  shows "i \<le> min (length s) MAX_STRING_LEN \<Longrightarrow> strlen_loop i m p = min (length s) MAX_STRING_LEN"
proof (induction "min (length s) MAX_STRING_LEN - i" arbitrary: i)
  case 0
  then show ?case using assms by (subst strlen_loop.simps) (auto simp: cstr_def min_def split: if_splits)
next
  case (Suc d)
  then have "i < length s" "i < MAX_STRING_LEN" by linarith+
  moreover from this assms have "strlen_loop i m p = strlen_loop (Suc i) m p" by (subst strlen_loop.simps) (simp add: cstr_def)
  moreover have "strlen_loop (Suc i) m p = min (length s) MAX_STRING_LEN"
    using Suc.hyps(2) \<open>i < length s\<close> \<open>i < MAX_STRING_LEN\<close> by (intro Suc.hyps(1)) linarith+
  ultimately show ?case by simp
qed

lemma strlen_at: "cstr m p s \<Longrightarrow> strlen m p = of_nat (min (length s) MAX_STRING_LEN)"
  using strlen_loop_at [of m p s 0] by (simp add: strlen_def)

lemma cstr_Cons:
  assumes "cstr m p (c # s)"
  shows "m p = c" and "c \<noteq> 0" and "cstr m (p + 1) s"
proof -
  have h: "\<And>i. i < Suc (length s) \<Longrightarrow> m (p + of_nat i) = (c # s) ! i \<and> (c # s) ! i \<noteq> 0"
    and t: "m (p + of_nat (Suc (length s))) = 0" and l: "Suc (length s) < 2 ^ 32"
    using assms by (simp_all add: cstr_def)
  from h [of 0] show "m p = c" "c \<noteq> 0" by simp_all
  have "m (p + 1 + of_nat i) = s ! i \<and> s ! i \<noteq> 0" if "i < length s" for i
    using h [of "Suc i"] that by (simp add: add.assoc)
  with t l show "cstr m (p + 1) s" by (simp add: cstr_def add.assoc)
qed

lemma cstr_Nil: "cstr m p [] \<Longrightarrow> m p = 0"
  by (simp add: cstr_def)

lemma ucast8_inj [simp]: "(ucast (a :: u8) :: i32) = ucast b \<longleftrightarrow> a = b" "(ucast (a :: u8) :: i32) = 0 \<longleftrightarrow> a = 0"
proof -
  have u: "unat (ucast (x :: u8) :: i32) = unat x" for x
    using unsigned_less [of x, where ?'a = nat] by (simp add: unsigned_ucast_eq take_bit_nat_eq_self)
  show "(ucast a :: i32) = ucast b \<longleftrightarrow> a = b" by (metis u word_unat_eq_iff)
  show "(ucast a :: i32) = 0 \<longleftrightarrow> a = 0" by (metis u word_unat_eq_iff unsigned_0)
qed

lemma strcmp_run:
  assumes "cstr m p s" and "cstr m q t"
  shows "\<exists>r. strcmp m p q = Some r \<and> (r = 0 \<longleftrightarrow> s = t)"
  using assms
proof (induction s arbitrary: p q t)
  case Nil
  have z: "m p = 0" using Nil(1) by (rule cstr_Nil)
  have "(0 :: i32) - ucast (m q) = 0 \<longleftrightarrow> t = []"
    using Nil(2) cstr_Nil [of m q] cstr_Cons(1,2) [of m q] by (cases t) auto
  with z show ?case by (subst strcmp.simps) auto
next
  case (Cons c s)
  note c = cstr_Cons [OF Cons.prems(1)]
  show ?case
  proof (cases "m q = c")
    case True
    with c(2) Cons.prems(2) obtain t' where t: "t = c # t'" by (cases t) (auto dest: cstr_Nil cstr_Cons)
    with True c Cons.IH [OF c(3) cstr_Cons(3) [OF Cons.prems(2) [unfolded t]]] show ?thesis
      by (subst strcmp.simps) auto
  next
    case False
    then have "strcmp m p q = Some (ucast c - ucast (m q))" using c by (subst strcmp.simps) simp
    moreover have "(ucast c :: i32) - ucast (m q) \<noteq> 0" using False by simp
    moreover have "c # s \<noteq> t" using False Cons.prems(2) by (auto dest: cstr_Cons)
    ultimately show ?thesis by auto
  qed
qed

lemma strcpy_loop_store:
  assumes "cstr m (q + of_nat (length xs)) s" and "length xs + length s < 2 ^ 32"
    and "region (q + of_nat (length xs)) (Suc (length s)) \<inter> region p (length xs + Suc (length s)) = {}"
  shows "strcpy_loop (p + of_nat (length xs)) (q + of_nat (length xs)) (store m p xs) = Some (store m p (xs @ s @ [0]))"
  using assms
proof (induction s arbitrary: xs)
  case Nil
  have "q + of_nat (length xs) \<in> region (q + of_nat (length xs)) (Suc 0)" by (simp add: region_def)
  then have "q + of_nat (length xs) \<notin> region p (length xs)"
    using Nil.prems(3) region_mono [of _ p "length xs" "length xs + Suc 0"] by auto
  then have "store m p xs (q + of_nat (length xs)) = 0"
    using Nil.prems(1) by (simp add: store_outside cstr_Nil)
  then show ?case using Nil.prems(2) by (subst strcpy_loop.simps) (simp add: store_snoc)
next
  case (Cons c s)
  let ?q = "q + of_nat (length xs)"
  note c = cstr_Cons [OF Cons.prems(1)]
  have reg: "region (?q + 1) (Suc (length s)) \<subseteq> region ?q (Suc (length (c # s)))"
  proof
    fix a assume "a \<in> region (?q + 1) (Suc (length s))"
    then have "unat (a - ?q - 1) < Suc (length s)" by (simp add: region_def algebra_simps)
    moreover have "unat (a - ?q) \<le> unat (a - ?q - 1) + 1"
      using unat_add1_le [of "a - ?q - 1"] by simp
    ultimately show "a \<in> region ?q (Suc (length (c # s)))" by (simp add: region_def)
  qed
  have "?q \<in> region ?q (Suc (length (c # s)))" by (simp add: region_def)
  then have "?q \<notin> region p (length xs)"
    using Cons.prems(3) region_mono [of _ p "length xs" "length xs + Suc (length (c # s))"] by auto
  then have rd: "store m p xs ?q = c" using c by (simp add: store_outside)
  have "strcpy_loop (p + of_nat (length (xs @ [c]))) (q + of_nat (length (xs @ [c]))) (store m p (xs @ [c])) =
      Some (store m p ((xs @ [c]) @ s @ [0]))"
  proof (rule Cons.IH)
    have eq: "q + of_nat (length (xs @ [c])) = ?q + 1" by (simp add: ac_simps)
    show "cstr m (q + of_nat (length (xs @ [c]))) s" unfolding eq by (rule c(3))
    show "region (q + of_nat (length (xs @ [c]))) (Suc (length s)) \<inter> region p (length (xs @ [c]) + Suc (length s)) = {}"
      using Cons.prems(3) reg unfolding eq by auto
  qed (use Cons.prems(2) in simp)
  then show ?case using rd c(2) Cons.prems(2) by (subst strcpy_loop.simps) (simp add: store_snoc ac_simps)
qed

lemma strcpy_store:
  assumes "cstr m q s" and "region q (Suc (length s)) \<inter> region p (Suc (length s)) = {}"
  shows "strcpy p q m = Some (p, store m p (s @ [0]))"
  using strcpy_loop_store [of m q "[]" s p] assms by (simp add: strcpy_def cstr_def)

section \<open>Numbers in a base\<close>

text \<open>
  \<open>rdigits b n\<close>: the digits of \<open>n\<close> in base \<open>b\<close> without leading zeroes, least significant first.
  \<open>fdigits b k n\<close>: its last \<open>k\<close> digits, most significant first.
\<close>

fun rdigits :: "nat \<Rightarrow> nat \<Rightarrow> nat list" where
  "rdigits b n = (if n = 0 \<or> b < 2 then [] else n mod b # rdigits b (n div b))"

declare rdigits.simps [simp del]

primrec fdigits :: "nat \<Rightarrow> nat \<Rightarrow> nat \<Rightarrow> nat list" where
  "fdigits b 0 n = []"
| "fdigits b (Suc k) n = fdigits b k (n div b) @ [n mod b]"

definition digit_char :: "nat \<Rightarrow> u8" where
  "digit_char d = of_nat (d + 48)"

text \<open>Decimal and hexadecimal notation.\<close>

definition decimal :: "int \<Rightarrow> u8 list" where
  "decimal v = (if v = 0 then [48] else
     if v < 0 then 45 # map digit_char (rev (rdigits 10 (nat (- v))))
     else map digit_char (rev (rdigits 10 (nat v))))"

definition hexadecimal :: "nat \<Rightarrow> u8 list" where
  "hexadecimal n = (if n = 0 then [48] else map ((!) hex_digits) (rev (rdigits 16 n)))"

lemma rdigits_0 [simp]: "rdigits b 0 = []"
  by (simp add: rdigits.simps)

lemma rdigits_pos: "0 < n \<Longrightarrow> 2 \<le> b \<Longrightarrow> rdigits b n = n mod b # rdigits b (n div b)"
  by (subst rdigits.simps) simp

lemma rdigits_bound: "d \<in> set (rdigits b n) \<Longrightarrow> d < b"
proof (induction b n rule: rdigits.induct)
  case (1 b n)
  then show ?case by (subst (asm) rdigits.simps) (auto split: if_splits)
qed

lemma rdigits_length: "n < b ^ k \<Longrightarrow> length (rdigits b n) \<le> k"
proof (induction k arbitrary: n)
  case (Suc k)
  then show ?case by (subst rdigits.simps) (auto simp: less_mult_imp_div_less mult.commute)
qed simp

lemma rdigits_value: "2 \<le> b \<Longrightarrow> foldl (\<lambda>r d. r * b + d) 0 (rev (rdigits b n)) = n"
proof (induction b n rule: rdigits.induct)
  case (1 b n)
  then show ?case by (cases "n = 0") (simp_all add: rdigits_pos)
qed

lemma fdigits_Cons: "2 \<le> b \<Longrightarrow> n < b ^ Suc k \<Longrightarrow> fdigits b (Suc k) n = n div b ^ k # fdigits b k (n mod b ^ k)"
proof (induction k arbitrary: n)
  case (Suc k)
  have "n div b < b ^ Suc k" using Suc.prems by (simp add: less_mult_imp_div_less mult.commute)
  then have "fdigits b (Suc k) (n div b) = n div b div b ^ k # fdigits b k (n div b mod b ^ k)"
    using Suc by blast
  moreover have "n mod b ^ Suc k div b = n div b mod b ^ k" "n mod b ^ Suc k mod b = n mod b"
    using Suc.prems(1) by (simp_all add: mod_mult2_eq mod_mult_mult1)
  ultimately show ?case by (simp add: div_mult2_eq)
qed simp

lemma rdigits_fdigits:
  assumes "2 \<le> b"
  shows "b ^ k \<le> n \<Longrightarrow> n < b ^ Suc k \<Longrightarrow> rev (rdigits b n) = fdigits b (Suc k) n"
proof (induction k arbitrary: n)
  case 0
  then show ?case using assms by (simp add: rdigits_pos)
next
  case (Suc k)
  have "b ^ k \<le> n div b" "n div b < b ^ Suc k"
    using Suc.prems assms by (simp_all add: less_mult_imp_div_less mult.commute less_eq_div_iff_mult_less_eq)
  moreover have "0 < n" using Suc.prems(1) assms by (metis gr0I leD le_zero_eq not_numeral_le_zero power_not_zero)
  ultimately show ?case using Suc.IH assms by (simp add: rdigits_pos)
qed

lemma digit_char_less: "d < 10 \<Longrightarrow> unat (digit_char d) = d + 48"
  by (simp add: digit_char_def unat_of_nat take_bit_nat_eq_self del: of_nat_add)

lemma digit_char_sign: "d < 10 \<Longrightarrow> digit_char d \<noteq> 45 \<and> digit_char d \<noteq> 43 \<and> digit_char d \<noteq> 0"
  using digit_char_less [of d] by auto

lemma decimal_nonzero: "0 \<notin> set (decimal v)"
proof -
  have "digit_char d \<noteq> 0" if "d \<in> set (rdigits 10 n)" for d n
    using digit_char_sign rdigits_bound [OF that] by blast
  then show ?thesis by (auto simp: decimal_def)
qed

lemma decimal_length: "- (10 ^ 10) < v \<Longrightarrow> v < 10 ^ 10 \<Longrightarrow> length (decimal v) \<le> 11"
  using rdigits_length [of "nat v" 10 10] rdigits_length [of "nat (- v)" 10 10]
  by (auto simp: decimal_def nat_less_iff)

lemma digits_loop_store:
  assumes "length xs + length (rdigits 10 n) < 2 ^ 32"
  shows "digits_loop (int n) (length xs) p (store m p xs) =
    (length xs + length (rdigits 10 n), store m p (xs @ map digit_char (rdigits 10 n)))"
  using assms
proof (induction n arbitrary: xs rule: less_induct)
  case (less n)
  show ?case
  proof (cases "n = 0")
    case True
    then show ?thesis by (simp add: digits_loop.simps)
  next
    case False
    have d: "c_div (int n) 10 = int (n div 10)" using False by (simp add: c_div_def zdiv_int)
    have m: "c_mod (int n) 10 = int (n mod 10)" unfolding c_mod_def d by (simp add: zmod_int zdiv_int minus_mult_div_eq_mod)
    let ?d = "digit_char (n mod 10)"
    have rd: "rdigits 10 n = n mod 10 # rdigits 10 (n div 10)" using False by (simp add: rdigits_pos)
    have "(of_int (c_mod (int n) 10 + 48) :: u8) = ?d" unfolding m digit_char_def by simp
    moreover have "digits_loop (int (n div 10)) (length (xs @ [?d])) p (store m p (xs @ [?d])) =
        (length (xs @ [?d]) + length (rdigits 10 (n div 10)),
         store m p ((xs @ [?d]) @ map digit_char (rdigits 10 (n div 10))))"
      using False less(2) unfolding rd by (intro less(1)) auto
    ultimately show ?thesis using False less(2) unfolding rd
      by (subst digits_loop.simps) (simp add: d store_snoc del: of_int_add)
  qed
qed

lemma reverse_loop_store:
  assumes "length (us @ xs @ vs) \<le> 2 ^ 32"
  shows "reverse_loop p (int (length us)) (int (length us + length xs) - 1) (store m p (us @ xs @ vs)) =
    store m p (us @ rev xs @ vs)"
  using assms
proof (induction "length xs" arbitrary: us xs vs rule: less_induct)
  case less
  show ?case
  proof (cases "length xs < 2")
    case True
    then have "rev xs = xs" by (cases xs; cases "tl xs") auto
    with True show ?thesis by (subst reverse_loop.simps) simp
  next
    case False
    then obtain x ys y where xs: "xs = x # ys @ [y]"
      by (metis One_nat_def Suc_1 length_0_conv length_Suc_conv_rev less_Suc0 less_Suc_eq list.exhaust append_butlast_last_id append_Cons append_Nil length_append_singleton length_Cons list.size(3) rev_exhaust zero_less_Suc)
    let ?a = "length us" and ?b = "length us + Suc (length ys)"
    have ra: "store m p (us @ xs @ vs) (p + of_nat ?a) = x" and rb: "store m p (us @ xs @ vs) (p + of_nat ?b) = y"
      using less.prems by (simp_all add: store_at xs nth_append del: of_nat_add of_nat_Suc)
    have w: "(store m p (us @ xs @ vs))(p + of_nat ?a := y, p + of_nat ?b := x) = store m p ((us @ [y]) @ ys @ [x] @ vs)"
      using less.prems by (simp add: store_upd xs list_update_append nth_append del: of_nat_add of_nat_Suc)
    have "reverse_loop p (int (length (us @ [y]))) (int (length (us @ [y]) + length ys) - 1) (store m p ((us @ [y]) @ ys @ ([x] @ vs))) =
        store m p ((us @ [y]) @ rev ys @ ([x] @ vs))"
      using less.prems by (intro less.hyps) (auto simp: xs)
    moreover have "reverse_loop p (int ?a) (int (?a + length xs) - 1) (store m p (us @ xs @ vs)) =
        reverse_loop p (int ?a + 1) (int (?a + length xs) - 2) (store m p ((us @ [y]) @ ys @ [x] @ vs))"
    proof -
      have b: "int (?a + length xs) - 1 = int ?b" by (simp add: xs)
      have "reverse_loop p (int ?a) (int ?b) (store m p (us @ xs @ vs)) =
          reverse_loop p (int ?a + 1) (int ?b - 1)
            ((store m p (us @ xs @ vs))(p + of_nat ?a := y, p + of_nat ?b := x))"
        by (subst reverse_loop.simps) (simp add: Let_def ra [simplified] rb [simplified])
      then show ?thesis unfolding w b [symmetric] by simp
    qed
    ultimately show ?thesis by (simp add: xs ac_simps)
  qed
qed

lemma store_two: "m(p := x, p + 1 := y) = store m p [x, y]"
  using store_snoc [of "[]" m p x] store_snoc [of "[x]" m p y] by simp

lemma reverse_all: "length xs + length vs \<le> 2 ^ 32 \<Longrightarrow>
    reverse_loop p 0 (int (length xs) - 1) (store m p (xs @ vs)) = store m p (rev xs @ vs)"
  using reverse_loop_store [of "[]" xs vs p m] by simp

lemma uint_to_str_store: "uint_to_str num p m = store m p (decimal (uint num) @ [0])"
proof (cases "num = 0")
  case True
  then show ?thesis by (simp add: uint_to_str_def decimal_def store_two)
next
  case False
  let ?r = "map digit_char (rdigits 10 (unat num))"
  have len: "length ?r \<le> 10"
    using rdigits_length [of "unat num" 10 10] unat_u32_less [of num] by simp
  have d: "digits_loop (uint num) 0 p m = (length ?r, store m p ?r)"
    using digits_loop_store [of "[]" "unat num" p m] len by simp
  have n: "uint num > 0" "nat (uint num) = unat num" using False by (simp_all add: word_neq_0_conv word_less_def)
  have "uint_to_str num p m = reverse_loop p 0 (int (length ?r) - 1) (store m p (?r @ [0]))"
    using False len by (simp add: uint_to_str_def d store_snoc_next [of ?r])
  also have "\<dots> = store m p (rev ?r @ [0])" using len by (intro reverse_all) simp
  finally show ?thesis using n by (simp add: decimal_def rev_map)
qed

lemma int_to_str_store:
  assumes "sint num \<noteq> - (2 ^ 31)"
  shows "int_to_str num p m = store m p (decimal (sint num) @ [0])"
proof (cases "num = 0")
  case True
  then show ?thesis by (simp add: int_to_str_def decimal_def store_two)
next
  case False
  define a where "a = nat \<bar>sint num\<bar>"
  have rng: "- (2 ^ 31) \<le> sint num" "sint num < 2 ^ 31"
    using sint_ge [of num] sint_lt [of num] by simp_all
  have num1: "sint (if sint num < 0 then - num else num) = int a"
    using assms rng by (auto simp: a_def sint_word_ariths signed_take_bit_int_eq_self)
  let ?r = "map digit_char (rdigits 10 a)"
  have len: "length ?r \<le> 10" using rdigits_length [of a 10 10] rng by (simp add: a_def nat_less_iff)
  have d: "digits_loop (int a) 0 p m = (length ?r, store m p ?r)"
    using digits_loop_store [of "[]" a p m] len by simp
  show ?thesis
  proof (cases "sint num < 0")
    case True
    let ?s = "?r @ [45]"
    have "int_to_str num p m = reverse_loop p 0 (int (length ?s) - 1) (store m p (?s @ [0]))"
      using False True len num1
      by (simp add: int_to_str_def d store_snoc_next [of ?r] store_snoc_next [of ?s])
    also have "\<dots> = store m p (rev ?s @ [0])" using len by (intro reverse_all) simp
    finally show ?thesis using True by (simp add: decimal_def a_def rev_map)
  next
    case neg: False
    have "int_to_str num p m = reverse_loop p 0 (int (length ?r) - 1) (store m p (?r @ [0]))"
      using False neg len num1 by (simp add: int_to_str_def d store_snoc_next [of ?r])
    also have "\<dots> = store m p (rev ?r @ [0])" using len by (intro reverse_all) simp
    finally show ?thesis using neg False by (simp add: decimal_def a_def rev_map signed_eq_0_iff)
  qed
qed

text \<open>\<open>itoa\<close> and \<open>int_to_hex_str\<close> go from the top digit down.\<close>

lemma itoa_loop_store:
  assumes "length xs + k \<le> 2 ^ 31" and "n < 10 ^ k"
  shows "itoa_loop (if k = 0 then 0 else 10 ^ (k - 1)) n (length xs) p (store m p xs) =
    (let ys = xs @ map digit_char (if xs = [] then rev (rdigits 10 n) else fdigits 10 k n)
     in (length ys, store m p ys))"
  using assms
proof (induction k arbitrary: xs n)
  case 0
  then show ?case by (simp add: itoa_loop.simps)
next
  case (Suc k)
  let ?q = "n div 10 ^ k" and ?r = "n mod 10 ^ k"
  have step: "(if k = 0 then 0 else 10 ^ (k - 1)) = (10 ^ k div 10 :: nat)"
    by (cases k) simp_all
  have r: "?r < 10 ^ k" by simp
  show ?case
  proof (cases "?q \<noteq> 0 \<or> xs \<noteq> []")
    case True
    let ?ys = "xs @ [digit_char ?q]"
    have "itoa_loop (10 ^ k) n (length xs) p (store m p xs) =
        itoa_loop (10 ^ k div 10) ?r (length ?ys) p (store m p ?ys)"
      using True Suc.prems(1)
      by (subst itoa_loop.simps) (auto simp: Let_def store_snoc digit_char_def)
    also have "\<dots> = (let zs = ?ys @ map digit_char (fdigits 10 k ?r) in (length zs, store m p zs))"
      using Suc.IH [of ?ys ?r] Suc.prems(1) r unfolding step by simp
    moreover have "(if xs = [] then rev (rdigits 10 n) else fdigits 10 (Suc k) n) = ?q # fdigits 10 k ?r"
      using True Suc.prems(2) fdigits_Cons [of 10 n k] rdigits_fdigits [of 10 k n]
      by (auto simp: div_eq_0_iff not_less)
    ultimately show ?thesis by (simp add: Let_def)
  next
    case False
    then have "n < 10 ^ k" "?r = n" by (simp_all add: div_eq_0_iff)
    with False Suc.IH [of "[]" n] Suc.prems(1) show ?thesis
      unfolding step by (subst itoa_loop.simps) simp
  qed
qed

lemma itoa_store: "itoa num p m = store m p (decimal (uint num) @ [0])"
proof (cases "num = 0")
  case True
  then show ?thesis by (simp add: itoa_def decimal_def store_two)
next
  case False
  let ?r = "map digit_char (rev (rdigits 10 (unat num)))"
  have len: "length ?r \<le> 10"
    using rdigits_length [of "unat num" 10 10] unat_u32_less [of num] by simp
  have "itoa_loop 1000000000 (unat num) 0 p m = (length ?r, store m p ?r)"
    using itoa_loop_store [of "[]" 10 "unat num" p m] unat_u32_less [of num] by simp
  moreover have "uint num > 0" "nat (uint num) = unat num"
    using False by (simp_all add: word_neq_0_conv word_less_def)
  ultimately show ?thesis using False len
    by (simp add: itoa_def decimal_def store_snoc_next [of ?r])
qed

lemma nibble: "unat (drop_bit (j * 4) (num :: u32) AND 0xF) = unat num div 16 ^ j mod 16"
proof -
  have p: "(2::nat) ^ (j * 4) = 16 ^ j" by (simp add: power_mult mult.commute [of j])
  have "drop_bit (j * 4) num AND 0xF = take_bit 4 (drop_bit (j * 4) num)"
    unfolding take_bit_eq_mask by (simp add: mask_eq_exp_minus_1)
  then have "unat (drop_bit (j * 4) num AND 0xF) = take_bit 4 (drop_bit (j * 4) (unat num))"
    by (simp only: unsigned_take_bit_eq unsigned_drop_bit_eq)
      (simp add: take_bit_nat_eq_self [OF unat_u32_less [of num], simplified])
  also have "\<dots> = unat num div 16 ^ j mod 16" by (simp add: take_bit_eq_mod drop_bit_eq_div p)
  finally show ?thesis .
qed

lemma hex_digits_table: "\<forall>d<16. (hex_digits ! d = 48 \<longleftrightarrow> d = 0) \<and> hex_digits ! d \<noteq> 0"
proof -
  have "\<forall>d\<in>set [0..<16]. (hex_digits ! d = 48 \<longleftrightarrow> d = 0) \<and> hex_digits ! d \<noteq> 0" by code_simp
  then show ?thesis by simp
qed

lemma hex_digits_zero: "d < 16 \<Longrightarrow> hex_digits ! d = 48 \<longleftrightarrow> d = 0"
  using hex_digits_table by simp

lemma hex_loop_store:
  assumes "length xs + k < 2 ^ 31" and "n = unat num mod 16 ^ k"
  shows "hex_loop k num (length xs) (xs = []) p (store m p xs) =
    (let ys = xs @ map ((!) hex_digits) (if xs = [] then rev (rdigits 16 n) else fdigits 16 k n)
     in (length ys, store m p ys))"
  using assms
proof (induction k arbitrary: xs n)
  case (Suc k)
  let ?q = "n div 16 ^ k" and ?r = "n mod 16 ^ k"
  have n: "n < 16 ^ Suc k" using Suc.prems(2) by simp
  have q: "unat (drop_bit (k * 4) num AND 0xF) = ?q"
    unfolding nibble Suc.prems(2) by (simp add: mod_mult2_eq mult.commute [of 16])
  have r: "?r = unat num mod 16 ^ k" unfolding Suc.prems(2) by (simp add: mod_mult2_eq mult.commute [of 16])
  have q16: "?q < 16" using n by (simp add: less_mult_imp_div_less mult.commute)
  show ?case
  proof (cases "?q \<noteq> 0 \<or> xs \<noteq> []")
    case True
    let ?ys = "xs @ [hex_digits ! ?q]"
    have "hex_loop (Suc k) num (length xs) (xs = []) p (store m p xs) =
        hex_loop k num (length ?ys) (?ys = []) p (store m p ?ys)"
      using True Suc.prems(1) hex_digits_zero [OF q16] by (auto simp: q store_snoc Let_def)
    also have "\<dots> = (let zs = ?ys @ map ((!) hex_digits) (fdigits 16 k ?r) in (length zs, store m p zs))"
      using Suc.IH [of ?ys ?r] Suc.prems(1) r by simp
    moreover have "(if xs = [] then rev (rdigits 16 n) else fdigits 16 (Suc k) n) = ?q # fdigits 16 k ?r"
      using True n fdigits_Cons [of 16 n k] rdigits_fdigits [of 16 k n]
      by (auto simp: div_eq_0_iff not_less)
    ultimately show ?thesis by (simp add: Let_def)
  next
    case False
    then have "n < 16 ^ k" "?r = n" by (simp_all add: div_eq_0_iff)
    with False Suc.IH [of "[]" n] Suc.prems(1) r show ?thesis
      using hex_digits_zero [OF q16] by (simp add: q Let_def)
  qed
qed simp

lemma hexadecimal_props: "length (hexadecimal (unat (num :: u32))) \<le> 8" "0 \<notin> set (hexadecimal n)"
proof -
  show "length (hexadecimal (unat num)) \<le> 8"
    using rdigits_length [of "unat num" 16 8] unat_u32_less [of num] by (simp add: hexadecimal_def)
  have "hex_digits ! d \<noteq> 0" if "d < 16" for d
    using that hex_digits_table by simp
  then show "0 \<notin> set (hexadecimal n)" by (auto simp: hexadecimal_def dest!: rdigits_bound)
qed

lemma int_to_hex_str_store:
  assumes "num \<noteq> 0" and "region temp 9 \<inter> region p 9 = {}"
  shows "int_to_hex_str temp num p m =
    Some (store (store m temp (hexadecimal (unat num) @ [0])) p (hexadecimal (unat num) @ [0]))"
proof -
  let ?h = "hexadecimal (unat num)"
  have h: "?h = map ((!) hex_digits) (rev (rdigits 16 (unat num)))"
    using assms(1) by (simp add: hexadecimal_def unat_eq_zero)
  have len: "length ?h \<le> 8" by (rule hexadecimal_props)
  have "hex_loop 8 num 0 True temp m = (length ?h, store m temp ?h)"
    using hex_loop_store [of "[]" 8 "unat num" num temp m] unat_u32_less [of num] by (simp add: h)
  moreover have "strcpy p temp (store m temp (?h @ [0])) = Some (p, store (store m temp (?h @ [0])) p (?h @ [0]))"
  proof (rule strcpy_store)
    show "cstr (store m temp (?h @ [0])) temp ?h" using len hexadecimal_props(2) by (intro cstr_store) simp_all
    show "region temp (Suc (length ?h)) \<inter> region p (Suc (length ?h)) = {}"
      using assms(2) len region_mono [of _ temp "Suc (length ?h)" 9] region_mono [of _ p "Suc (length ?h)" 9] by auto
  qed
  ultimately show ?thesis using assms(1) len by (simp add: int_to_hex_str_def store_snoc)
qed

section \<open>atoi\<close>

lemma atoi_loop_at:
  "cstr m p s \<Longrightarrow> atoi_loop m p r = Some (foldl (\<lambda>r c. r * 10 + (scast c - 48)) r s)"
proof (induction s arbitrary: p r)
  case Nil
  then show ?case by (subst atoi_loop.simps) (simp add: cstr_Nil)
next
  case (Cons c s)
  note c = cstr_Cons [OF Cons.prems]
  show ?case using c Cons.IH [OF c(3)] by (subst atoi_loop.simps) simp
qed

lemma scast_digit: "d < 10 \<Longrightarrow> (scast (digit_char d) - 48 :: i32) = of_nat d"
  by (auto simp: digit_char_def less_Suc_eq numeral_eq_Suc)

lemma foldl_digits:
  "(\<forall>d\<in>set ds. d < 10) \<Longrightarrow>
     foldl (\<lambda>r c. r * 10 + (scast c - 48)) (of_nat r :: i32) (map digit_char ds) =
     of_nat (foldl (\<lambda>r d. r * 10 + d) r ds)"
proof (induction ds arbitrary: r)
  case (Cons d ds)
  then show ?case using Cons.IH [of "r * 10 + d"] by (simp add: scast_digit)
qed simp

lemma atoi_digits:
  assumes "cstr m p (map digit_char (rev (rdigits 10 n)))"
  shows "atoi_loop m p 0 = Some (of_nat n)"
  using atoi_loop_at [OF assms, of 0] foldl_digits [of "rev (rdigits 10 n)" 0] rdigits_value [of 10 n]
  by (auto dest: rdigits_bound)

lemma atoi_decimal:
  assumes "cstr m p (decimal v)"
  shows "atoi m p = Some (of_int v)"
proof (cases "v < 0")
  case True
  then have s: "decimal v = 45 # map digit_char (rev (rdigits 10 (nat (- v))))" by (simp add: decimal_def)
  have "cstr m (p + 1) (map digit_char (rev (rdigits 10 (nat (- v)))))" "m p = 45"
    using cstr_Cons [OF assms [unfolded s]] by blast+
  with atoi_digits [of m "p + 1" "nat (- v)"] True show ?thesis by (simp add: atoi_def)
next
  case False
  show ?thesis
  proof (cases "v = 0")
    case True
    then have c: "cstr m p [48]" using assms by (simp add: decimal_def)
    with cstr_Cons(1) [OF c] atoi_loop_at [OF c, of 0] True show ?thesis by (simp add: atoi_def)
  next
    case nz: False
    then have s: "decimal v = map digit_char (rev (rdigits 10 (nat v)))" using False by (simp add: decimal_def)
    have "decimal v \<noteq> []" unfolding s using nz False by (simp add: rdigits_pos)
    then obtain c t where ct: "decimal v = c # t" by (meson neq_Nil_conv)
    have "c \<in> set (decimal v)" unfolding ct by simp
    then have "c \<noteq> 45" "c \<noteq> 43" unfolding s using digit_char_sign rdigits_bound by auto
    moreover have "m p = c" using cstr_Cons(1) [OF assms [unfolded ct]] .
    ultimately show ?thesis
      using atoi_digits [of m p "nat v"] assms s False by (simp add: atoi_def)
  qed
qed

section \<open>strcat, strncpy and log2\<close>

lemma strcpy_loop_strcat:
  "strcpy_loop d s m = Some r \<Longrightarrow> \<exists>d' m'. strcat_loop d s m = Some (d', m') \<and> r = m'(d' := 0)"
proof (erule strcpy_loop.raw_induct [rotated])
  fix rec d s m r
  assume "\<And>d s m r. rec d s m = Some r \<Longrightarrow> \<exists>d' m'. strcat_loop d s m = Some (d', m') \<and> r = m'(d' := 0)"
    and "(let c = m s; m' = m(d := c) in if c \<noteq> 0 then rec (d + 1) (s + 1) m' else Some m') = Some r"
  then show "\<exists>d' m'. strcat_loop d s m = Some (d', m') \<and> r = m'(d' := 0)"
    by (subst strcat_loop.simps) (auto simp: Let_def simp del: fun_upd_apply split: if_splits)
qed

lemma strcat_store:
  assumes "cstr m p s" and "cstr m q t" and "length s \<le> MAX_STRING_LEN" and "length t < 2 ^ 31"
    and "region q (Suc (length t)) \<inter> region p (length s + Suc (length t)) = {}"
  shows "strcat p q m = Some (p, store m p (s @ t @ [0]))"
proof -
  let ?q = "q - of_nat (length s)"
  have id: "store m p s = m"
  proof
    fix a show "store m p s a = m a"
    proof (cases "unat (a - p) < length s")
      case True
      then have "m (p + of_nat (unat (a - p))) = s ! unat (a - p)" using assms(1) unfolding cstr_def by blast
      with True show ?thesis by (simp add: store_def)
    qed (simp add: store_def)
  qed
  have "strcpy_loop (p + of_nat (length s)) (?q + of_nat (length s)) (store m p s) = Some (store m p (s @ t @ [0]))"
    using assms by (intro strcpy_loop_store) (simp_all add: MAX_STRING_LEN_def)
  then have "strcpy_loop (p + strlen m p) q m = Some (store m p (s @ t @ [0]))"
    using id strlen_at [OF assms(1)] assms(3) by (simp add: min_absorb1)
  from strcpy_loop_strcat [OF this] show ?thesis by (auto simp: strcat_def)
qed

lemma strncpy_copy_store:
  assumes "cstr m q s" and "n < 2 ^ 32"
    and "region q (Suc (length s)) \<inter> region p n = {}"
  shows "i \<le> length s \<Longrightarrow> i \<le> n \<Longrightarrow>
    strncpy_copy i n p q (store m p (take i s)) = (min n (length s), store m p (take n s))"
proof (induction "n - i" arbitrary: i)
  case 0
  then show ?case by (subst strncpy_copy.simps) simp
next
  case (Suc d)
  then have i: "i < n" by linarith
  have "q + of_nat i \<in> region q (Suc (length s))"
    using assms(1) Suc.prems by (intro region_at) (simp_all add: cstr_def)
  then have "q + of_nat i \<notin> region p (length (take i s))"
    using assms(3) i region_mono [of _ p "length (take i s)" n] by auto
  then have rd: "store m p (take i s) (q + of_nat i) = m (q + of_nat i)" by (rule store_outside)
  show ?case
  proof (cases "i < length s")
    case True
    then have c: "m (q + of_nat i) = s ! i" "s ! i \<noteq> 0" using assms(1) by (auto simp: cstr_def)
    have "(store m p (take i s))(p + of_nat i := s ! i) = store m p (take (Suc i) s)"
      using True i assms(2) by (simp add: store_snoc_next take_Suc_conv_app_nth)
    moreover have "strncpy_copy (Suc i) n p q (store m p (take (Suc i) s)) = (min n (length s), store m p (take n s))"
      using Suc.hyps(2) True i by (intro Suc.hyps(1)) auto
    ultimately show ?thesis using i c rd by (subst strncpy_copy.simps) simp
  next
    case False
    with Suc.prems have "i = length s" by simp
    then show ?thesis using i rd assms(1) by (subst strncpy_copy.simps) (simp add: cstr_def)
  qed
qed

lemma strncpy_store:
  assumes "cstr m q s" and "region q (Suc (length s)) \<inter> region p (unat n) = {}"
  shows "strncpy p q n m = (p, store m p (take (unat n) s @ replicate (unat n - length s) 0))"
proof -
  have "strncpy_copy 0 (unat n) p q m = (min (unat n) (length s), store m p (take (unat n) s))"
    using strncpy_copy_store [OF assms(1) unat_u32_less assms(2), of 0] by simp
  moreover have "memset_loop (unat n - length s) (p + of_nat (length (take (unat n) s))) 0 (store m p (take (unat n) s)) =
      store m p (take (unat n) s @ replicate (unat n - length s) 0)"
    using unat_u32_less [of n] by (intro memset_loop_store) (simp add: min_def)
  moreover have "unat n - min (length s) (unat n) = unat n - length s" by (simp add: min_def)
  ultimately show ?thesis by (simp add: strncpy_def min.commute)
qed

lemma unat_drop1: "unat (drop_bit 1 (n :: u32)) = unat n div 2"
  by (simp add: unsigned_drop_bit_eq take_bit_nat_eq_self [OF unat_u32_less [of n], simplified])
    (simp add: drop_bit_eq_div)

lemma log2_loop_at:
  assumes "2 ^ k \<le> unat n" and "unat n < 2 ^ Suc k"
  shows "log2_loop n r = Some (r + of_nat k)"
  using assms
proof (induction k arbitrary: n r)
  case 0
  then have "drop_bit 1 n = 0" unfolding word_unat_eq_iff unat_drop1 by simp
  then show ?case by (subst log2_loop.simps) simp
next
  case (Suc k)
  have "log2_loop (drop_bit 1 n) (r + 1) = Some (r + 1 + of_nat k)"
    using Suc.prems by (intro Suc.IH) (simp_all add: unat_drop1 [simplified])
  moreover have "(2 :: nat) * 1 \<le> 2 * 2 ^ k" by (intro mult_le_mono2) simp
  then have "2 \<le> unat n" using Suc.prems(1) unfolding power_Suc mult_1_right by (rule order_trans)
  then have "drop_bit 1 n \<noteq> 0" by (auto simp: word_unat_eq_iff unat_drop1 [simplified])
  ultimately show ?case by (subst log2_loop.simps) (simp add: ac_simps)
qed

section \<open>Properties\<close>

text \<open>
  \<^verbatim>\<open>strcpy\<close> of a string to a place apart from it returns the destination; afterwards both
  places hold the string, \<^verbatim>\<open>strcmp\<close> reports them equal, and no other byte has changed.
\<close>
lemma strcpy_copies:
  assumes "cstr m src s" and "region src (Suc (length s)) \<inter> region dest (Suc (length s)) = {}"
  shows "\<exists>m'. strcpy dest src m = Some (dest, m') \<and> cstr m' src s \<and> cstr m' dest s \<and>
    strcmp m' dest src = Some 0 \<and> (\<forall>a. a \<notin> region dest (Suc (length s)) \<longrightarrow> m' a = m a)"
proof -
  let ?m = "store m dest (s @ [0])"
  have s: "length s < 2 ^ 32" "0 \<notin> set s" using assms(1) by (auto simp: cstr_def in_set_conv_nth)
  have "cstr ?m src s" using assms by (intro cstr_frame) simp_all
  moreover have "cstr ?m dest s" using s by (rule cstr_store)
  moreover from calculation obtain r where "strcmp ?m dest src = Some r" "r = 0" using strcmp_run by blast
  moreover have "?m a = m a" if "a \<notin> region dest (Suc (length s))" for a using that by (simp add: store_outside)
  ultimately show ?thesis using strcpy_store [OF assms] by auto
qed

text \<open>At the string \<^verbatim>\<open>ab\<close>.\<close>
lemma strcpy_copies_witness:
  "\<exists>m'. strcpy 200 100 (store (\<lambda>_. 7) 100 [97, 98, 0]) = Some (200, m') \<and> cstr m' 100 [97, 98] \<and>
     cstr m' 200 [97, 98] \<and> strcmp m' 200 100 = Some 0 \<and>
     (\<forall>a. a \<notin> region 200 3 \<longrightarrow> m' a = store (\<lambda>_. 7) 100 [97, 98, 0] a)"
proof -
  have "cstr (store (\<lambda>_. 7) 100 ([97, 98] @ [0])) 100 [97, 98]" by (rule cstr_store) simp_all
  then show ?thesis
    using strcpy_copies [of "store (\<lambda>_. 7) 100 [97, 98, 0]" 100 "[97, 98]" 200] region_apart [of 100 3 200 3]
    by (simp add: numeral_3_eq_3)
qed

text \<open>
  \<^verbatim>\<open>strcat\<close> appends: when the first string has at most 512 characters and the second lies
  apart from the result, the result is the concatenation. (Beyond 512 characters \<^verbatim>\<open>strlen\<close> stops
  counting, so the second string would be written into the middle of the first.)
\<close>
lemma strcat_appends:
  assumes "cstr m str1 s" and "cstr m str2 t" and "length s \<le> MAX_STRING_LEN" and "length t < 2 ^ 31"
    and "region str2 (Suc (length t)) \<inter> region str1 (length s + Suc (length t)) = {}"
  shows "strlen m str1 = of_nat (length s) \<and>
    (\<exists>m'. strcat str1 str2 m = Some (str1, m') \<and> cstr m' str1 (s @ t) \<and>
      (\<forall>a. a \<notin> region str1 (length s + Suc (length t)) \<longrightarrow> m' a = m a))"
proof -
  have "0 \<notin> set (s @ t)" using assms(1,2) by (auto simp: cstr_def in_set_conv_nth)
  moreover have "length (s @ t) < 2 ^ 32" using assms(3,4) by (simp add: MAX_STRING_LEN_def)
  ultimately have "cstr (store m str1 ((s @ t) @ [0])) str1 (s @ t)" by (intro cstr_store)
  moreover have "store m str1 ((s @ t) @ [0]) a = m a" if "a \<notin> region str1 (length s + Suc (length t))" for a
    using that by (intro store_outside) simp
  ultimately show ?thesis using strcat_store [OF assms] strlen_at [OF assms(1)] assms(3) by (simp add: min_absorb1)
qed

text \<open>At \<^verbatim>\<open>a\<close> and \<^verbatim>\<open>b\<close>.\<close>
lemma strcat_appends_witness:
  "strlen (store (store (\<lambda>_. 7) 100 [97, 0]) 200 [98, 0]) 100 = of_nat (length [97 :: u8]) \<and>
   (\<exists>m'. strcat 100 200 (store (store (\<lambda>_. 7) 100 [97, 0]) 200 [98, 0]) = Some (100, m') \<and>
      cstr m' 100 ([97] @ [98]) \<and>
      (\<forall>a. a \<notin> region 100 (length [97 :: u8] + Suc (length [98 :: u8])) \<longrightarrow>
         m' a = store (store (\<lambda>_. 7) 100 [97, 0]) 200 [98, 0] a))"
proof -
  have "cstr (store (store (\<lambda>_. 7) 100 ([97] @ [0])) 200 [98, 0]) 100 [97]"
    by (intro cstr_frame cstr_store) (simp_all add: region_apart)
  moreover have "cstr (store (store (\<lambda>_. 7) 100 [97, 0]) 200 ([98] @ [0])) 200 [98]" by (rule cstr_store) simp_all
  moreover have "region 200 (Suc (length [98 :: u8])) \<inter> region 100 (length [97 :: u8] + Suc (length [98 :: u8])) = {}"
    by (subst Int_commute, rule region_apart) simp_all
  ultimately show ?thesis by (intro strcat_appends) (simp_all add: MAX_STRING_LEN_def)
qed

text \<open>
  C28: Round trip of numbers: the text \<^verbatim>\<open>int_to_str\<close> writes is the decimal notation, and \<^verbatim>\<open>atoi\<close>
  reads it back to the same number, for every 32-bit integer but the least.
\<close>
theorem int_to_str_atoi:
  assumes "sint num \<noteq> - (2 ^ 31)"
  shows "cstr (int_to_str num dest m) dest (decimal (sint num)) \<and> atoi (int_to_str num dest m) dest = Some num"
proof -
  have "cstr (int_to_str num dest m) dest (decimal (sint num))"
    unfolding int_to_str_store [OF assms] using sint_ge [of num] sint_lt [of num] decimal_length [of "sint num"]
    by (intro cstr_store decimal_nonzero) simp
  then show ?thesis using atoi_decimal by auto
qed

text \<open>At \<open>- 12\<close>.\<close>
theorem int_to_str_atoi_witness:
  "cstr (int_to_str (- 12) 100 (\<lambda>_. 7)) 100 (decimal (sint (- 12 :: i32))) \<and>
   atoi (int_to_str (- 12) 100 (\<lambda>_. 7)) 100 = Some (- 12)"
  by (rule int_to_str_atoi) simp

text \<open>
  \<^verbatim>\<open>itoa\<close>, which divides from the top digit down, and \<^verbatim>\<open>uint_to_str\<close>, which divides from
  the bottom up and reverses, leave the same memory for every number, and write the decimal
  notation.
\<close>
lemma itoa_uint_to_str:
  "itoa num dest m = uint_to_str num dest m \<and> uint_to_str num dest m = store m dest (decimal (uint num) @ [0])"
  by (simp add: itoa_store uint_to_str_store)

text \<open>
  \<^verbatim>\<open>log2\<close> returns the position of the highest set bit, and 0 for 0.
\<close>
lemma log2_floor:
  "\<exists>r. log2 n = Some (of_nat r) \<and> (if n = 0 then r = 0 else 2 ^ r \<le> unat n \<and> unat n < 2 ^ Suc r)"
proof (cases "n = 0")
  case True
  then show ?thesis by (simp add: log2_def log2_loop.simps [of 0])
next
  case False
  then have "1 \<le> unat n" by (simp add: unat_gt_0 Suc_leI)
  then obtain k where "2 ^ k \<le> unat n" "unat n < 2 ^ Suc k" using ex_power_ivl1 [of 2 "unat n"] by auto
  with log2_loop_at [of k n 0] False show ?thesis by (auto simp: log2_def)
qed

end
