(* ===== verification/KPrintf.thy ===== *)
theory KPrintf
  imports KString_Props
begin

text \<open>
  Formatted output of \<^verbatim>\<open>kernel/core/string.c\<close>: \<^verbatim>\<open>sprintf\<close> and \<^verbatim>\<open>format_size\<close>. The variable
  arguments are the words on the stack, taken from the front by \<^verbatim>\<open>va_arg\<close>; taking one when there
  is none left is undefined (\<^term>\<open>None\<close>). The addresses of the local arrays \<^verbatim>\<open>num\<close> and of
  \<^verbatim>\<open>int_to_hex_str\<close>'s \<^verbatim>\<open>temp\<close> are arguments.
\<close>

section \<open>The formatter\<close>

primrec fill_loop :: "nat \<Rightarrow> u32 \<Rightarrow> u32 \<Rightarrow> u8 \<Rightarrow> mem \<Rightarrow> u32 \<times> mem" where
  "fill_loop 0 dest_buf dest_index c m = (dest_index, m)"
| "fill_loop (Suc n) dest_buf dest_index c m = fill_loop n dest_buf (dest_index + 1) c (m(dest_buf + dest_index := c))"

definition fill_buffer :: "u32 \<Rightarrow> u32 \<Rightarrow> u8 \<Rightarrow> i32 \<Rightarrow> mem \<Rightarrow> u32 \<times> mem" where
  "fill_buffer dest_buf dest_index c count = fill_loop (nat (sint count)) dest_buf dest_index c"

text \<open>The loop that copies literal text, \<^verbatim>\<open>while (processed < index)\<close>.\<close>

function copy_literal :: "u32 \<Rightarrow> u32 \<Rightarrow> u32 \<Rightarrow> u32 \<Rightarrow> u32 \<Rightarrow> mem \<Rightarrow> u32 \<times> u32 \<times> mem" where
  "copy_literal dest_buf format_str index processed dest_index m =
     (if processed < index
      then copy_literal dest_buf format_str index (processed + 1) (dest_index + 1)
             (m(dest_buf + dest_index := m (format_str + processed)))
      else (processed, dest_index, m))"
  by pat_completeness auto
termination
proof (relation "measure (\<lambda>(d, f, index, processed, di, m). unat index - unat processed)")
  fix dest_buf format_str index processed dest_index :: u32 and m :: mem
  assume "processed < index"
  then have "unat processed < unat index" by (simp add: word_less_nat_alt)
  moreover from this have "unat (processed + 1) = unat processed + 1"
    using unat_add_small [of processed 1] unat_u32_less [of index] by simp
  ultimately show "((dest_buf, format_str, index, processed + 1, dest_index + 1, m(dest_buf + dest_index := m (format_str + processed))),
      dest_buf, format_str, index, processed, dest_index, m)
    \<in> measure (\<lambda>(d, f, index, processed, di, m). unat index - unat processed)" by simp
qed simp

declare copy_literal.simps [simp del]

text \<open>The digits after the percent sign.\<close>

partial_function (option) parse_padding :: "mem \<Rightarrow> u32 \<Rightarrow> u32 \<Rightarrow> i32 \<Rightarrow> (u32 \<times> i32) option" where
  "parse_padding m format_str index padding =
     (let c = m (format_str + index) in
      if 48 \<le> sint c \<and> sint c \<le> 57
      then parse_padding m format_str (index + 1) (padding * 10 + (scast c - 48))
      else Some (index, padding))"

text \<open>The loop that copies the converted argument.\<close>

partial_function (option) put_str :: "u32 \<Rightarrow> u32 \<Rightarrow> u32 \<Rightarrow> mem \<Rightarrow> (u32 \<times> mem) option" where
  "put_str dest_buf dest_index str_arg m =
     (if m str_arg \<noteq> 0
      then put_str dest_buf (dest_index + 1) (str_arg + 1) (m(dest_buf + dest_index := m str_arg))
      else Some (dest_index, m))"

definition put_padded :: "u32 \<Rightarrow> u32 \<Rightarrow> u32 \<Rightarrow> i32 \<Rightarrow> mem \<Rightarrow> (u32 \<times> mem) option" where
  "put_padded dest_buf dest_index str_arg padding m =
     (let len = strlen m str_arg;
          (di, m') = (if sint padding > sint len then fill_buffer dest_buf dest_index 48 (padding - len) m
                      else (dest_index, m))
      in put_str dest_buf di str_arg m')"

text \<open>The switch over the conversion character; it returns the index, the arguments left and memory.\<close>

definition convert :: "u32 \<Rightarrow> u32 \<Rightarrow> u8 \<Rightarrow> i32 \<Rightarrow> u32 \<Rightarrow> u32 \<Rightarrow> u32 list \<Rightarrow> mem \<Rightarrow> (u32 \<times> u32 list \<times> mem) option" where
  "convert num temp c padding dest_buf dest_index args m =
     (if c \<in> {115, 100, 117, 120, 99} then
        (case args of
           [] \<Rightarrow> None
         | arg # rest \<Rightarrow>
             if c = 115 then do {
               (di, m') \<leftarrow> put_padded dest_buf dest_index arg padding m;
               Some (di, rest, m')
             } else if c = 100 then do {
               (di, m') \<leftarrow> put_padded dest_buf dest_index num padding (int_to_str arg num m);
               Some (di, rest, m')
             } else if c = 117 then do {
               (di, m') \<leftarrow> put_padded dest_buf dest_index num padding (uint_to_str arg num m);
               Some (di, rest, m')
             } else if c = 120 then do {
               m1 \<leftarrow> int_to_hex_str temp arg num m;
               (di, m') \<leftarrow> put_padded dest_buf dest_index num padding m1;
               Some (di, rest, m')
             } else
               (let (di, m') = (if sint padding > 1 then fill_buffer dest_buf dest_index 48 (padding - 1) m
                                else (dest_index, m))
                in Some (di + 1, rest, m'(dest_buf + di := ucast arg))))
      else Some (dest_index + 1, args, m(dest_buf + dest_index := c)))"

partial_function (option) sprintf_loop ::
    "u32 \<Rightarrow> u32 \<Rightarrow> u32 \<Rightarrow> u32 \<Rightarrow> u32 \<Rightarrow> u32 \<Rightarrow> u32 \<Rightarrow> u32 list \<Rightarrow> mem \<Rightarrow> (u32 \<times> u32 \<times> u32 \<times> mem) option" where
  "sprintf_loop num temp dest_buf format_str index processed dest_index args m =
     (let c = m (format_str + index) in
      if c = 0 then Some (index, processed, dest_index, m)
      else if c = 37 then
        (let m1 = snd (memset num 0 32 m);
             (processed1, di1, m2) = copy_literal dest_buf format_str index processed dest_index m1
         in do {
           (index1, padding) \<leftarrow> parse_padding m2 format_str (index + 1) 0;
           (di2, args1, m3) \<leftarrow> convert num temp (m2 (format_str + index1)) padding dest_buf di1 args m2;
           sprintf_loop num temp dest_buf format_str (index1 + 1) (index1 + 1) di2 args1 m3
         })
      else sprintf_loop num temp dest_buf format_str (index + 1) processed dest_index args m)"

definition sprintf :: "u32 \<Rightarrow> u32 \<Rightarrow> u32 \<Rightarrow> u32 \<Rightarrow> u32 list \<Rightarrow> mem \<Rightarrow> (i32 \<times> mem) option" where
  "sprintf num temp dest_buf format_str args m = do {
     (index, processed, dest_index, m1) \<leftarrow> sprintf_loop num temp dest_buf format_str 0 0 0 args m;
     let (processed1, di, m2) = copy_literal dest_buf format_str index processed dest_index m1;
     Some (di, m2(dest_buf + di := 0))
   }"

section \<open>Sizes with a unit\<close>

text \<open>The suffix strings lie at the addresses \<open>suffixes\<close>.\<close>

fun size_loop :: "nat \<Rightarrow> u32 \<Rightarrow> nat \<Rightarrow> u32 \<times> nat" where
  "size_loop 0 bytes suffix_index = (bytes, suffix_index)"
| "size_loop (Suc n) bytes suffix_index =
     (if bytes \<ge> 1024 then size_loop n (bytes div 1024) (Suc suffix_index) else (bytes, suffix_index))"

definition format_size :: "u32 list \<Rightarrow> u32 \<Rightarrow> u32 \<Rightarrow> mem \<Rightarrow> mem option" where
  "format_size suffixes bytes dest m =
     (let base = 1024;
          (whole_part, suffix_index) = size_loop 4 bytes 0;
          fraction_part = ((whole_part * 1024) mod base) * 10 div base;
          m1 = int_to_str whole_part dest m;
          len = strlen m1 dest;
          (len2, m2) = (if fraction_part > 0
                        then (len + 2, m1(dest + len := 46, dest + (len + 1) := 48 + ucast fraction_part))
                        else (len, m1));
          m3 = m2(dest + len2 := 0)
      in do {
        (_, m4) \<leftarrow> strcat dest (suffixes ! suffix_index) m3;
        Some m4
      })"

section \<open>What a format string means\<close>

text \<open>
  An argument is a string with its address or a number. \<open>render\<close> is the text a format produces;
  it is \<^term>\<open>None\<close> for a format that ends after a percent sign, lacks an argument, has one of
  the wrong kind, or prints the least integer with \<^verbatim>\<open>d\<close>.
\<close>

datatype farg = Str u32 "u8 list" | Num u32

primrec raw :: "farg \<Rightarrow> u32" where
  "raw (Str a s) = a"
| "raw (Num v) = v"

definition conversion :: "u8 \<Rightarrow> bool" where
  "conversion c \<longleftrightarrow> c \<in> {115, 100, 117, 120, 99}"

definition is_digit :: "u8 \<Rightarrow> bool" where
  "is_digit c \<longleftrightarrow> 48 \<le> sint c \<and> sint c \<le> 57"

definition padding_of :: "u8 list \<Rightarrow> nat" where
  "padding_of ds = foldl (\<lambda>r c. r * 10 + nat (sint c - 48)) 0 ds"

definition pad :: "nat \<Rightarrow> u8 list \<Rightarrow> u8 list" where
  "pad n t = replicate (n - length t) 48 @ t"

fun text_of :: "u8 \<Rightarrow> farg \<Rightarrow> u8 list option" where
  "text_of c (Str a s) = (if c = 115 then Some s else None)"
| "text_of c (Num v) =
     (if c = 100 \<and> sint v \<noteq> - (2 ^ 31) then Some (decimal (sint v))
      else if c = 117 then Some (decimal (uint v))
      else if c = 120 then Some (hexadecimal (unat v))
      else if c = 99 then Some [ucast v] else None)"

function render :: "u8 list \<Rightarrow> farg list \<Rightarrow> u8 list option" where
  "render [] args = Some []"
| "render (c # cs) args =
     (if c \<noteq> 37 then map_option ((#) c) (render cs args)
      else (case dropWhile is_digit cs of
          [] \<Rightarrow> None
        | f # cs' \<Rightarrow>
            if conversion f then
              (case args of
                 [] \<Rightarrow> None
               | a # as \<Rightarrow> do {
                   t \<leftarrow> text_of f a;
                   r \<leftarrow> render cs' as;
                   Some (pad (padding_of (takeWhile is_digit cs)) t @ r)
                 })
            else map_option ((#) f) (render cs' args)))"
  by pat_completeness auto
termination
proof (relation "measure (length \<circ> fst)")
  fix c :: u8 and cs args f cs' a as
  assume "dropWhile is_digit cs = f # cs'"
  then have "length cs' < length cs" using length_dropWhile_le [of is_digit cs] by simp
  then show "((cs', args), c # cs, args) \<in> measure (length \<circ> fst)"
    and "((cs', as), c # cs, args) \<in> measure (length \<circ> fst)" by simp_all
qed simp_all

lemma length_pad [simp]: "length (pad n t) = max n (length t)"
  by (simp add: pad_def)

section \<open>Writing at the end of the output\<close>

lemma store_append:
  assumes "length xs + length ys \<le> 2 ^ 32"
  shows "store (store m p xs) (p + of_nat (length xs)) ys = store m p (xs @ ys)"
  using assms
proof (induction ys rule: rev_induct)
  case (snoc y ys)
  have "store m' q (ys @ [y]) = (store m' q ys)(q + of_nat (length ys) := y)" for m' q
    using snoc.prems by (simp add: store_snoc)
  moreover have "store m p (xs @ ys @ [y]) = (store m p (xs @ ys))(p + of_nat (length (xs @ ys)) := y)"
    using snoc.prems store_snoc [of "xs @ ys" m p y] by simp
  ultimately show ?case using snoc by (simp add: ac_simps)
qed simp

lemma store_Cons: "length ys < 2 ^ 32 \<Longrightarrow> store (m(p := y)) (p + 1) ys = store m p (y # ys)"
  using store_append [of "[y]" ys m p] store_snoc [of "[]" m p y] by simp

lemma region_shift: "region (p + of_nat k) n \<subseteq> region p (k + n)"
proof
  fix a assume "a \<in> region (p + of_nat k) n"
  then have "unat (a - p - of_nat k) < n" by (simp add: region_def diff_diff_eq)
  moreover have "unat (a - p) \<le> unat (a - p - of_nat k) + unat (of_nat k :: u32)"
    using unat_word_ariths(1) [of "a - p - of_nat k" "of_nat k"] by (simp add: diff_diff_eq)
  moreover have "unat (of_nat k :: u32) \<le> k" by (simp add: unat_of_nat take_bit_nat_less_eq_self)
  ultimately show "a \<in> region p (k + n)" by (simp add: region_def)
qed

lemma fill_loop_store:
  "n \<le> 2 ^ 32 \<Longrightarrow> fill_loop n d di c m = (di + of_nat n, store m (d + di) (replicate n c))"
proof (induction n arbitrary: di m)
  case (Suc n)
  then show ?case by (simp add: store_Cons add.assoc [symmetric] add.commute [of 1])
qed simp

lemma copy_literal_store:
  assumes "\<And>j. p \<le> j \<Longrightarrow> j < i \<Longrightarrow> fs + of_nat j \<notin> region (d + di) (i - p) \<and> m (fs + of_nat j) = f ! j"
    and "p \<le> i" and "i < 2 ^ 32" and "i \<le> length f"
  shows "copy_literal d fs (of_nat i) (of_nat p) di m =
    (of_nat i, di + of_nat (i - p), store m (d + di) (drop p (take i f)))"
  using assms
proof (induction "i - p" arbitrary: p di m)
  case 0
  then show ?case by (subst copy_literal.simps) simp
next
  case (Suc k)
  then have pi: "p < i" by simp
  then have less: "(of_nat p :: u32) < of_nat i"
    using Suc.prems(3) by (simp add: word_less_nat_alt unat_le_imp_of_nat)
  let ?m = "m(d + di := f ! p)"
  have "copy_literal d fs (of_nat i) (of_nat (Suc p)) (di + 1) ?m =
      (of_nat i, di + 1 + of_nat (i - Suc p), store ?m (d + (di + 1)) (drop (Suc p) (take i f)))"
  proof (rule Suc.hyps(1))
    fix j assume j: "Suc p \<le> j" "j < i"
    have "region (d + (di + 1)) (i - Suc p) \<subseteq> region (d + di) (i - p)"
      using region_shift [of "d + di" 1 "i - Suc p"] pi by (simp add: add.assoc Suc_diff_Suc)
    moreover have "fs + of_nat j \<notin> region (d + di) (i - p)" "m (fs + of_nat j) = f ! j" using Suc.prems(1) [of j] j by simp_all
    moreover from this have "fs + of_nat j \<noteq> d + di" using pi by (auto simp: region_def)
    ultimately show "fs + of_nat j \<notin> region (d + (di + 1)) (i - Suc p) \<and> ?m (fs + of_nat j) = f ! j" by auto
  qed (use Suc in simp_all)
  moreover have "drop p (take i f) = f ! p # drop (Suc p) (take i f)"
    using pi Suc.prems(4) by (simp add: Cons_nth_drop_Suc [symmetric])
  moreover have "m (fs + of_nat p) = f ! p" using Suc.prems(1) [of p] pi by simp
  ultimately show ?case using less pi Suc.prems(3)
    by (subst copy_literal.simps) (simp add: store_Cons add.assoc [symmetric] add.commute [of 1] of_nat_diff)
qed

lemma put_str_store:
  assumes "cstr m q s" and "region q (Suc (length s)) \<inter> region (d + di) (length s) = {}"
  shows "put_str d di q m = Some (di + of_nat (length s), store m (d + di) s)"
  using assms
proof (induction s arbitrary: q di m)
  case Nil
  then show ?case by (subst put_str.simps) (simp add: cstr_Nil)
next
  case (Cons c s)
  note c = cstr_Cons [OF Cons.prems(1)]
  have sub: "region (q + 1) (Suc (length s)) \<subseteq> region q (Suc (length (c # s)))"
    "region (d + (di + 1)) (length s) \<subseteq> region (d + di) (length (c # s))"
    using region_shift [of q 1 "Suc (length s)"] region_shift [of "d + di" 1 "length s"] by (simp_all add: add.assoc)
  have dj: "region (q + 1) (Suc (length s)) \<inter> region (d + di) (length [c]) = {}"
    using Cons.prems(2) sub(1) region_mono [of _ "d + di" 1 "length (c # s)"] by auto
  have m1: "m(d + di := c) = store m (d + di) [c]" using store_snoc [of "[]" m "d + di" c] by simp
  have "put_str d (di + 1) (q + 1) (m(d + di := c)) =
      Some (di + 1 + of_nat (length s), store (m(d + di := c)) (d + (di + 1)) s)"
  proof (rule Cons.IH)
    show "cstr (m(d + di := c)) (q + 1) s" unfolding m1 using c(3) dj by (rule cstr_frame)
    show "region (q + 1) (Suc (length s)) \<inter> region (d + (di + 1)) (length s) = {}"
      using Cons.prems(2) sub by blast
  qed
  moreover have "length s < 2 ^ 32" using c(3) by (simp add: cstr_def)
  ultimately show ?case using c
    by (subst put_str.simps) (simp add: store_Cons add.assoc [symmetric] add.commute [of 1])
qed

lemma put_padded_store:
  assumes "cstr m q t" and "length t \<le> MAX_STRING_LEN" and "n < 2 ^ 31"
    and "region q (Suc (length t)) \<inter> region (d + di) (max n (length t)) = {}"
  shows "put_padded d di q (of_nat n) m = Some (di + of_nat (max n (length t)), store m (d + di) (pad n t))"
proof -
  have len: "strlen m q = of_nat (length t)" using strlen_at [OF assms(1)] assms(2) by (simp add: min_absorb1)
  have sn: "sint (of_nat k :: i32) = int k" if "k < 2 ^ 31" for k
    using that by (simp add: signed_of_nat signed_take_bit_int_eq_self)
  have t: "length t < 2 ^ 31" using assms(2) by (simp add: MAX_STRING_LEN_def)
  have cond: "sint (of_nat n :: i32) > sint (of_nat (length t) :: i32) \<longleftrightarrow> length t < n"
    using sn [OF t] sn [OF assms(3)] by simp
  show ?thesis
  proof (cases "length t < n")
    case True
    let ?z = "replicate (n - length t) (48 :: u8)"
    have "nat (sint (of_nat n - of_nat (length t) :: i32)) = n - length t"
      using sn [of "n - length t"] assms(3) True by (simp add: of_nat_diff)
    then have fb: "fill_buffer d di 48 (of_nat n - of_nat (length t)) m =
        (di + of_nat (n - length t), store m (d + di) ?z)"
      using assms(3) by (simp add: fill_buffer_def fill_loop_store)
    have sub: "region (d + (di + of_nat (n - length t))) (length t) \<subseteq> region (d + di) (max n (length t))"
      using region_shift [of "d + di" "n - length t" "length t"] True by (simp add: add.assoc)
    have "cstr (store m (d + di) ?z) q t"
      using assms(1,4) region_mono [of _ "d + di" "length ?z" "max n (length t)"] by (intro cstr_frame) auto
    then have "put_str d (di + of_nat (n - length t)) q (store m (d + di) ?z) =
        Some (di + of_nat (n - length t) + of_nat (length t), store (store m (d + di) ?z) (d + (di + of_nat (n - length t))) t)"
      using assms(4) sub by (intro put_str_store) auto
    moreover have "store (store m (d + di) ?z) (d + (di + of_nat (n - length t))) t = store m (d + di) (?z @ t)"
      using store_append [of ?z t m "d + di"] True assms(3) by (simp add: add.assoc)
    ultimately show ?thesis using True cond fb len by (simp add: put_padded_def pad_def of_nat_diff max_def)
  next
    case False
    then have "put_str d di q m = Some (di + of_nat (length t), store m (d + di) t)"
      using assms(1,4) by (intro put_str_store) (simp_all add: max_def)
    then show ?thesis using False cond len by (simp add: put_padded_def pad_def max_def)
  qed
qed

lemma parse_padding_at:
  assumes "\<And>j. j < length ds \<Longrightarrow> m (fs + i + of_nat j) = ds ! j" and "\<forall>c\<in>set ds. is_digit c"
    and "\<not> is_digit (m (fs + i + of_nat (length ds)))"
  shows "parse_padding m fs i (of_nat r) =
    Some (i + of_nat (length ds), of_nat (foldl (\<lambda>r c. r * 10 + nat (sint c - 48)) r ds))"
  using assms
proof (induction ds arbitrary: i r)
  case Nil
  then show ?case by (subst parse_padding.simps) (auto simp: Let_def is_digit_def)
next
  case (Cons c ds)
  have c: "m (fs + i) = c" "48 \<le> sint c" "sint c \<le> 57" using Cons.prems(1) [of 0] Cons.prems(2) by (simp_all add: is_digit_def)
  have "(scast c - 48 :: i32) = of_nat (nat (sint c - 48))" using c(2) by simp
  then have v: "of_nat r * 10 + (scast c - 48 :: i32) = of_nat (r * 10 + nat (sint c - 48))" by simp
  have "parse_padding m fs (i + 1) (of_nat (r * 10 + nat (sint c - 48))) =
      Some (i + 1 + of_nat (length ds), of_nat (foldl (\<lambda>r c. r * 10 + nat (sint c - 48)) (r * 10 + nat (sint c - 48)) ds))"
  proof (rule Cons.IH)
    fix j assume "j < length ds"
    then show "m (fs + (i + 1) + of_nat j) = ds ! j" using Cons.prems(1) [of "Suc j"] by (simp add: ac_simps)
  next
    show "\<not> is_digit (m (fs + (i + 1) + of_nat (length ds)))" using Cons.prems(3) by (simp add: ac_simps)
  qed (use Cons.prems(2) in simp)
  moreover have "parse_padding m fs i (of_nat r) = parse_padding m fs (i + 1) (of_nat (r * 10 + nat (sint c - 48)))"
    unfolding v [symmetric] using c by (subst parse_padding.simps) (simp add: Let_def)
  ultimately show ?case by (simp add: ac_simps)
qed

section \<open>The formatter computes the meaning\<close>

definition agree :: "u32 set \<Rightarrow> mem \<Rightarrow> mem \<Rightarrow> bool" where
  "agree S m m' \<longleftrightarrow> (\<forall>a. a \<notin> S \<longrightarrow> m' a = m a)"

definition scratch :: "u32 \<Rightarrow> u32 \<Rightarrow> u32 set" where
  "scratch num temp = region num 32 \<union> region temp 9"

text \<open>The string arguments, and where everything lies: all apart from each other.\<close>

definition args_at :: "mem \<Rightarrow> u32 \<Rightarrow> u32 \<Rightarrow> u32 \<Rightarrow> nat \<Rightarrow> farg list \<Rightarrow> bool" where
  "args_at m num temp dest n args \<longleftrightarrow>
     (\<forall>a s. Str a s \<in> set args \<longrightarrow> cstr m a s \<and> length s \<le> MAX_STRING_LEN \<and>
        region a (Suc (length s)) \<inter> (scratch num temp \<union> region dest n) = {})"

lemma agree_refl [simp]: "agree S m m"
  by (simp add: agree_def)

lemma agree_trans: "agree S m m1 \<Longrightarrow> agree S m1 m2 \<Longrightarrow> agree S m m2"
  by (simp add: agree_def)

lemma agree_store: "agree S m m' \<Longrightarrow> agree S (store m p xs) (store m' p xs)"
  by (simp add: agree_def store_def)

lemma agree_scratch: "length xs \<le> n \<Longrightarrow> region p n \<subseteq> S \<Longrightarrow> agree S m (store m p xs)"
  using region_mono [of _ p "length xs" n] by (auto simp: agree_def intro!: store_outside)

lemma cstr_agree:
  assumes "cstr m p s" and "agree S m m'" and "region p (Suc (length s)) \<inter> S = {}"
  shows "cstr m' p s"
proof -
  have "m' (p + of_nat i) = m (p + of_nat i)" if "i \<le> length s" for i
    using assms region_at [of i "Suc (length s)" p] that by (auto simp: agree_def cstr_def)
  with assms(1) show ?thesis by (simp add: cstr_def)
qed

lemma decimal_word_length: "length (decimal (sint (v :: i32))) \<le> 11" "length (decimal (uint (w :: u32))) \<le> 11"
proof -
  show "length (decimal (sint v)) \<le> 11" using sint_ge [of v] sint_lt [of v] by (intro decimal_length) simp_all
  show "length (decimal (uint w)) \<le> 11"
    using uint_bounded [of w, simplified] uint_ge_0 [of w]
    by (intro decimal_length; simp only: power_numeral Num.pow.simps Num.sqr.simps Num.mult_num_simps Num.add_num_simps; linarith)
qed

text \<open>A converted number is written to \<open>num\<close> and copied from there.\<close>

lemma convert_number:
  assumes m1: "m1 = store m0 num (t @ [0])" "agree (scratch num temp) m m0"
    and t: "0 \<notin> set t" "length t \<le> 11" "n < 2 ^ 31"
    and apart: "region num 32 \<inter> region (d + di) (max n (length t)) = {}"
  shows "agree (scratch num temp) m m1" and
    "put_padded d di num (of_nat n) m1 = Some (di + of_nat (length (pad n t)), store m1 (d + di) (pad n t))"
proof -
  show "agree (scratch num temp) m m1"
    unfolding m1(1) using t(2) by (intro agree_trans [OF m1(2)] agree_scratch [where n = 32]) (auto simp: scratch_def)
  have "region num (Suc (length t)) \<inter> region (d + di) (max n (length t)) = {}"
    using apart t(2) region_mono [of _ num "Suc (length t)" 32] by auto
  then show "put_padded d di num (of_nat n) m1 = Some (di + of_nat (length (pad n t)), store m1 (d + di) (pad n t))"
    unfolding m1(1) length_pad using t by (intro put_padded_store cstr_store) (simp_all add: MAX_STRING_LEN_def)
qed

lemma sint_of_nat_small: "k < 2 ^ 31 \<Longrightarrow> sint (of_nat k :: i32) = int k"
  by (simp add: signed_of_nat signed_take_bit_int_eq_self)

lemma convert_char:
  assumes "n < 2 ^ 31"
  shows "convert num temp 99 (of_nat n) d di (v # rest) m =
    Some (di + of_nat (length (pad n [ucast v])), rest, store m (d + di) (pad n [ucast v]))"
proof (cases "1 < n")
  case True
  let ?z = "replicate (n - 1) (48 :: u8)"
  have "nat (sint (of_nat n - 1 :: i32)) = n - 1"
    using sint_of_nat_small [of "n - 1"] assms True by (simp add: of_nat_diff)
  then have fb: "fill_buffer d di 48 (of_nat n - 1) m = (di + of_nat (n - 1), store m (d + di) ?z)"
    using assms by (simp add: fill_buffer_def fill_loop_store)
  moreover have "(store m (d + di) ?z)(d + (di + of_nat (n - 1)) := ucast v) = store m (d + di) (?z @ [ucast v])"
    using assms by (intro store_snoc_next) (simp_all add: add.assoc)
  ultimately show ?thesis
    using True sint_of_nat_small [OF assms] by (simp add: convert_def pad_def of_nat_diff)
next
  case False
  then show ?thesis
    using sint_of_nat_small [OF assms] store_snoc_next [of "[]" "d + di" "d + di" m "ucast v"]
    by (simp add: convert_def pad_def max_def)
qed

lemma convert_ok:
  assumes t: "conversion c" "text_of c a = Some t" and n: "n < 2 ^ 31"
    and str: "\<And>x s. a = Str x s \<Longrightarrow> cstr m x s \<and> length s \<le> MAX_STRING_LEN \<and>
        region x (Suc (length s)) \<inter> region (d + di) (max n (length t)) = {}"
    and apart: "region num 32 \<inter> region (d + di) (max n (length t)) = {}" "region temp 9 \<inter> region num 32 = {}"
  shows "\<exists>m1. agree (scratch num temp) m m1 \<and>
    convert num temp c (of_nat n) d di (raw a # rest) m =
      Some (di + of_nat (length (pad n t)), rest, store m1 (d + di) (pad n t))"
proof (cases a)
  case (Str x s)
  with t have "c = 115" "t = s" by (auto split: if_splits)
  with str [OF Str] n have "put_padded d di x (of_nat n) m = Some (di + of_nat (length (pad n t)), store m (d + di) (pad n t))"
    using put_padded_store [of m x t n d di] by simp
  then show ?thesis using Str \<open>c = 115\<close> by (intro exI [of _ m]) (simp add: convert_def)
next
  case (Num v)
  have hex: "\<exists>m0. agree (scratch num temp) m m0 \<and>
      int_to_hex_str temp v num m = Some (store m0 num (hexadecimal (unat v) @ [0]))"
  proof (cases "v = 0")
    case True
    then show ?thesis by (intro exI [of _ m]) (simp add: int_to_hex_str_def hexadecimal_def store_two)
  next
    case False
    have "region temp 9 \<inter> region num 9 = {}" using apart(2) region_mono [of _ num 9 32] by auto
    moreover have "agree (scratch num temp) m (store m temp (hexadecimal (unat v) @ [0]))"
      using hexadecimal_props(1) [of v] by (intro agree_scratch [where n = 9]) (auto simp: scratch_def)
    ultimately show ?thesis using int_to_hex_str_store [OF False] by blast
  qed
  note cn = convert_number [OF refl _ _ _ n apart(1), where m = m and temp = temp]
  consider "c = 100" "t = decimal (sint v)" "sint v \<noteq> - (2 ^ 31)" | "c = 117" "t = decimal (uint v)"
    | "c = 120" "t = hexadecimal (unat v)" | "c = 99" "t = [ucast v]"
    using t Num by (auto split: if_splits)
  then show ?thesis
  proof cases
    case 1
    with cn [where ?m0.0 = m] show ?thesis unfolding Num
      by (intro exI [of _ "store m num (t @ [0])"])
        (simp add: convert_def int_to_str_store decimal_nonzero decimal_word_length)
  next
    case 2
    with cn [where ?m0.0 = m] show ?thesis unfolding Num
      by (intro exI [of _ "store m num (t @ [0])"])
        (simp add: convert_def uint_to_str_store decimal_nonzero decimal_word_length)
  next
    case 3
    obtain m0 where m0: "agree (scratch num temp) m m0"
      "int_to_hex_str temp v num m = Some (store m0 num (t @ [0]))" using hex 3(2) by blast
    have "0 \<notin> set t" "length t \<le> 11" using hexadecimal_props(1) [of v] hexadecimal_props(2) 3(2) by auto
    with cn [where ?m0.0 = m0] m0 3(1) show ?thesis unfolding Num
      by (intro exI [of _ "store m0 num (t @ [0])"]) (simp add: convert_def)
  next
    case 4
    then show ?thesis unfolding Num using convert_char [OF n] by (intro exI [of _ m]) simp
  qed
qed

text \<open>Where everything lies.\<close>

definition layout :: "mem \<Rightarrow> u32 \<Rightarrow> u32 \<Rightarrow> u32 \<Rightarrow> u32 \<Rightarrow> u8 list \<Rightarrow> nat \<Rightarrow> bool" where
  "layout m num temp dest fs f n \<longleftrightarrow> cstr m fs f \<and> n \<le> 2 ^ 31 \<and>
     region fs (Suc (length f)) \<inter> (scratch num temp \<union> region dest n) = {} \<and>
     region dest n \<inter> scratch num temp = {} \<and> region temp 9 \<inter> region num 32 = {}"

definition sprintf_from :: "u32 \<Rightarrow> u32 \<Rightarrow> u32 \<Rightarrow> u32 \<Rightarrow> u32 \<Rightarrow> u32 \<Rightarrow> u32 \<Rightarrow> u32 list \<Rightarrow> mem \<Rightarrow> (i32 \<times> mem) option" where
  "sprintf_from num temp dest fs i p di args m = do {
     (index, processed, dest_index, m1) \<leftarrow> sprintf_loop num temp dest fs i p di args m;
     let (processed1, di, m2) = copy_literal dest fs index processed dest_index m1;
     Some (di, m2(dest + di := 0))
   }"

lemma format_kept:
  assumes "layout m num temp dest fs f n" and "agree (scratch num temp) (store m dest o1) m'" and "length o1 \<le> n"
  shows "cstr m' fs f"
proof -
  have "cstr (store m dest o1) fs f"
    using assms(1,3) region_mono [of _ dest "length o1" n] by (intro cstr_frame) (auto simp: layout_def)
  with assms(1,2) show ?thesis by (intro cstr_agree [of _ fs f "scratch num temp" m']) (auto simp: layout_def)
qed

lemma agree_append:
  assumes "agree S (store m dest o1) m1" and "length o1 + length t \<le> 2 ^ 32"
  shows "agree S (store m dest (o1 @ t)) (store m1 (dest + of_nat (length o1)) t)"
  using agree_store [OF assms(1)] store_append [OF assms(2)] by metis

lemma region_tail:
  assumes "k + l \<le> n" shows "region (dest + of_nat k) l \<subseteq> region dest n"
  using region_shift [of dest k l] region_mono [of _ dest "k + l" n] assms by blast

lemma literal_step:
  assumes lay: "layout m num temp dest fs f n" and ag: "agree (scratch num temp) (store m dest o1) m'"
    and "p \<le> i" "i \<le> length f" "length o1 + (i - p) \<le> n"
  shows "\<exists>m2. copy_literal dest fs (of_nat i) (of_nat p) (of_nat (length o1)) m' =
      (of_nat i, of_nat (length (o1 @ drop p (take i f))), m2) \<and>
    agree (scratch num temp) (store m dest (o1 @ drop p (take i f))) m2"
proof -
  have f: "cstr m' fs f" using format_kept [OF lay ag] assms(5) by simp
  then have fl: "length f < 2 ^ 32" by (simp add: cstr_def)
  let ?lit = "drop p (take i f)"
  have len: "length ?lit = i - p" using assms(3,4) by simp
  have sub: "region (dest + of_nat (length o1)) (i - p) \<subseteq> region dest n" using assms(5) by (rule region_tail)
  have "copy_literal dest fs (of_nat i) (of_nat p) (of_nat (length o1)) m' =
      (of_nat i, of_nat (length o1) + of_nat (i - p), store m' (dest + of_nat (length o1)) ?lit)"
  proof (rule copy_literal_store)
    fix j assume j: "p \<le> j" "j < i"
    have "fs + of_nat j \<in> region fs (Suc (length f))" using j assms(4) fl by (intro region_at) simp_all
    then have "fs + of_nat j \<notin> region dest n" using lay unfolding layout_def by blast
    then show "fs + of_nat j \<notin> region (dest + of_nat (length o1)) (i - p) \<and> m' (fs + of_nat j) = f ! j"
      using sub f j assms(4) by (auto simp: cstr_def)
  qed (use assms fl in simp_all)
  moreover have "n \<le> 2 ^ 31" using lay by (simp add: layout_def)
  moreover have "(of_nat (length o1) + of_nat (i - p) :: u32) = of_nat (length (o1 @ ?lit))"
    unfolding length_append len of_nat_add ..
  ultimately show ?thesis using agree_append [OF ag, of ?lit] len assms(5)
    by (intro exI [of _ "store m' (dest + of_nat (length o1)) ?lit"]) (simp del: length_drop length_append)
qed

lemma finish_step:
  assumes lay: "layout m num temp dest fs f (Suc (length out))" and ag: "agree (scratch num temp) (store m dest o1) m'"
    and "p \<le> length f" "out = o1 @ drop p f"
  shows "\<exists>m''. sprintf_from num temp dest fs (of_nat (length f)) (of_nat p) (of_nat (length o1)) args m' =
      Some (of_nat (length out), m'') \<and> agree (scratch num temp) (store m dest (out @ [0])) m''"
proof -
  have "cstr m' fs f" using format_kept [OF lay ag] assms(4) by simp
  then have "m' (fs + of_nat (length f)) = 0" by (simp add: cstr_def)
  then have lp: "sprintf_loop num temp dest fs (of_nat (length f)) (of_nat p) (of_nat (length o1)) args m' =
      Some (of_nat (length f), of_nat p, of_nat (length o1), m')"
    by (subst sprintf_loop.simps) simp
  obtain m2 where m2: "copy_literal dest fs (of_nat (length f)) (of_nat p) (of_nat (length o1)) m' =
      (of_nat (length f), of_nat (length out), m2)" "agree (scratch num temp) (store m dest out) m2"
    using literal_step [OF lay ag, of p "length f"] assms(3,4) by auto
  have small: "length out < 2 ^ 32" using lay by (simp add: layout_def)
  have "m2(dest + of_nat (length out) := 0) = store m2 (dest + of_nat (length out)) [0]"
    using store_snoc_next [of "[]" "dest + of_nat (length out)" "dest + of_nat (length out)" m2 0] by simp
  moreover have "agree (scratch num temp) (store m dest (out @ [0])) (store m2 (dest + of_nat (length out)) [0])"
    using agree_append [OF m2(2), of "[0]"] small by simp
  ultimately show ?thesis using lp m2(1) by (simp add: sprintf_from_def)
qed

lemma percent_nonzero: "(37 :: u8) \<noteq> 0"
  by simp

text \<open>One conversion: the literal text before it, the padding, the switch.\<close>

lemma percent_step:
  assumes lay: "layout m num temp dest fs f (Suc (length out))" and ag: "agree (scratch num temp) (store m dest o1) m'"
    and i: "p \<le> i" "i < length f" "f ! i = 37" and o: "length o1 + (i - p) \<le> length out"
    and ds: "drop (Suc i) f = ds @ c # cs" "\<forall>x\<in>set ds. is_digit x" "\<not> is_digit c"
    and conv: "\<And>m2. agree (scratch num temp) (store m dest (o1 @ drop p (take i f))) m2 \<Longrightarrow>
      \<exists>m1. agree (scratch num temp) m2 m1 \<and>
        convert num temp c (of_nat (padding_of ds)) dest (of_nat (length (o1 @ drop p (take i f)))) args m2 =
        Some (of_nat (length (o1 @ drop p (take i f))) + of_nat (length t), args',
              store m1 (dest + of_nat (length (o1 @ drop p (take i f)))) t)"
    and t: "length (o1 @ drop p (take i f) @ t) \<le> length out"
  shows "\<exists>m3. agree (scratch num temp) (store m dest (o1 @ drop p (take i f) @ t)) m3 \<and>
    sprintf_from num temp dest fs (of_nat i) (of_nat p) (of_nat (length o1)) args m' =
    sprintf_from num temp dest fs (of_nat (Suc (Suc i) + length ds)) (of_nat (Suc (Suc i) + length ds))
      (of_nat (length (o1 @ drop p (take i f) @ t))) args' m3"
proof -
  let ?S = "scratch num temp" and ?o2 = "o1 @ drop p (take i f)" and ?i1 = "Suc i + length ds"
  have len: "length out < 2 ^ 31" using lay by (simp add: layout_def)
  have fi: "m' (fs + of_nat i) = 37" using format_kept [OF lay ag] o i by (simp add: cstr_def)
  define m1 where "m1 = snd (memset num 0 32 m')"
  have "agree ?S m' m1"
    unfolding m1_def memset_store by (auto intro!: agree_scratch [where n = 32] simp: scratch_def)
  then have ag1: "agree ?S (store m dest o1) m1" using ag agree_trans by blast
  obtain m2 where m2: "copy_literal dest fs (of_nat i) (of_nat p) (of_nat (length o1)) m1 = (of_nat i, of_nat (length ?o2), m2)"
      "agree ?S (store m dest ?o2) m2"
    using literal_step [OF lay ag1, of p i] i o by auto
  have f2: "cstr m2 fs f" using format_kept [OF lay m2(2)] t by simp
  have lf: "length f = Suc ?i1 + length cs" using arg_cong [OF ds(1), of length] i(2) by simp
  have at: "m2 (fs + of_nat (Suc i) + of_nat j) = (ds @ c # cs) ! j" if "j < Suc (length ds)" for j
  proof -
    have "Suc i + j < length f" using that lf by simp
    then have "m2 (fs + of_nat (Suc i + j)) = f ! (Suc i + j)" using f2 unfolding cstr_def by blast
    also have "\<dots> = (ds @ c # cs) ! j" using i(2) unfolding ds(1) [symmetric] by simp
    finally show ?thesis by (simp add: add.assoc)
  qed
  have "parse_padding m2 fs (of_nat (Suc i)) (of_nat 0) = Some (of_nat (Suc i) + of_nat (length ds), of_nat (padding_of ds))"
    unfolding padding_of_def
  proof (rule parse_padding_at)
    fix j assume "j < length ds"
    then show "m2 (fs + of_nat (Suc i) + of_nat j) = ds ! j" using at [of j] by (simp add: nth_append)
  next
    show "\<not> is_digit (m2 (fs + of_nat (Suc i) + of_nat (length ds)))" using at [of "length ds"] ds(3) by simp
  qed (rule ds(2))
  then have pp: "parse_padding m2 fs (of_nat i + 1) 0 = Some (of_nat ?i1, of_nat (padding_of ds))"
    by (simp add: add.commute [of 1])
  have c: "m2 (fs + of_nat ?i1) = c" using at [of "length ds"] by (simp add: add.assoc)
  obtain m3 where m3: "agree ?S m2 m3" "convert num temp c (of_nat (padding_of ds)) dest (of_nat (length ?o2)) args m2 =
      Some (of_nat (length ?o2) + of_nat (length t), args', store m3 (dest + of_nat (length ?o2)) t)"
    using conv [OF m2(2)] by blast
  have "agree ?S (store m dest (?o2 @ t)) (store m3 (dest + of_nat (length ?o2)) t)"
    using agree_append [OF agree_trans [OF m2(2) m3(1)], of t] t len by simp
  moreover have "sprintf_loop num temp dest fs (of_nat i) (of_nat p) (of_nat (length o1)) args m' =
      sprintf_loop num temp dest fs (of_nat (Suc ?i1)) (of_nat (Suc ?i1)) (of_nat (length (?o2 @ t))) args'
        (store m3 (dest + of_nat (length ?o2)) t)"
    using fi percent_nonzero m2(1) pp c m3(2) m1_def
    by (subst sprintf_loop.simps) (simp add: Let_def ac_simps del: length_drop)
  ultimately show ?thesis
    by (intro exI [of _ "store m3 (dest + of_nat (length ?o2)) t"]) (simp add: sprintf_from_def del: length_drop)
qed

lemma args_at_tail: "args_at m num temp dest n (a # args) \<Longrightarrow> args_at m num temp dest n args"
  by (simp add: args_at_def)

lemma arg_kept:
  assumes "args_at m num temp dest n args" and "Str x s \<in> set args"
    and "agree (scratch num temp) (store m dest o1) m'" and "length o1 \<le> n"
  shows "cstr m' x s"
proof -
  have x: "cstr m x s" "region x (Suc (length s)) \<inter> (scratch num temp \<union> region dest n) = {}"
    using assms(1,2) unfolding args_at_def by blast+
  have "cstr (store m dest o1) x s"
    using x assms(4) region_mono [of _ dest "length o1" n] by (intro cstr_frame) auto
  with assms(3) x(2) show ?thesis by (intro cstr_agree [of _ x s "scratch num temp" m']) auto
qed

lemma convert_step:
  assumes lay: "layout m num temp dest fs f (Suc (length out))" and args: "args_at m num temp dest (Suc (length out)) (a # args)"
    and ag: "agree (scratch num temp) (store m dest o2) m2"
    and t: "conversion c" "text_of c a = Some t" and len: "length (o2 @ pad n t) \<le> length out"
  shows "\<exists>m1. agree (scratch num temp) m2 m1 \<and>
    convert num temp c (of_nat n) dest (of_nat (length o2)) (map raw (a # args)) m2 =
      Some (of_nat (length o2) + of_nat (length (pad n t)), map raw args, store m1 (dest + of_nat (length o2)) (pad n t))"
proof -
  have sub: "region (dest + of_nat (length o2)) (max n (length t)) \<subseteq> region dest (Suc (length out))"
    using len by (intro region_tail) simp
  have small: "length out < 2 ^ 31" using lay by (simp add: layout_def)
  have "\<exists>m1. agree (scratch num temp) m2 m1 \<and>
    convert num temp c (of_nat n) dest (of_nat (length o2)) (raw a # map raw args) m2 =
      Some (of_nat (length o2) + of_nat (length (pad n t)), map raw args, store m1 (dest + of_nat (length o2)) (pad n t))"
  proof (rule convert_ok [OF t])
    show "n < 2 ^ 31" using len small by simp
    show "region temp 9 \<inter> region num 32 = {}" using lay by (simp add: layout_def)
    show "region num 32 \<inter> region (dest + of_nat (length o2)) (max n (length t)) = {}"
      using sub lay unfolding layout_def scratch_def by blast
    fix x s assume a: "a = Str x s"
    then have "cstr m2 x s" using arg_kept [OF args _ ag] len by simp
    moreover have "length s \<le> MAX_STRING_LEN" "region x (Suc (length s)) \<inter> region dest (Suc (length out)) = {}"
      using args a unfolding args_at_def by auto
    ultimately show "cstr m2 x s \<and> length s \<le> MAX_STRING_LEN \<and>
        region x (Suc (length s)) \<inter> region (dest + of_nat (length o2)) (max n (length t)) = {}" using sub by blast
  qed
  then show ?thesis by simp
qed

lemma convert_default:
  assumes "\<not> conversion c"
  shows "\<exists>m1. agree S m2 m1 \<and> convert num temp c pd dest di args m2 =
    Some (di + of_nat (length [c]), args, store m1 (dest + di) [c])"
  using assms store_snoc_next [of "[]" "dest + di" "dest + di" m2 c]
  by (intro exI [of _ m2]) (auto simp: convert_def conversion_def)

lemma percent_convert:
  assumes lay: "layout m num temp dest fs f (Suc (length out))" and ag: "agree (scratch num temp) (store m dest o1) m'"
    and i: "p \<le> i" "i < length f" "f ! i = 37"
    and ds: "drop (Suc i) f = ds @ c # cs" "\<forall>x\<in>set ds. is_digit x" "\<not> is_digit c"
    and arg: "args_at m num temp dest (Suc (length out)) (a # as)" "conversion c" "text_of c a = Some t"
    and len: "length (o1 @ drop p (take i f) @ (pad (padding_of ds) t)) \<le> length out"
  shows "\<exists>m3. agree (scratch num temp) (store m dest (o1 @ drop p (take i f) @ (pad (padding_of ds) t))) m3 \<and>
    sprintf_from num temp dest fs (of_nat i) (of_nat p) (of_nat (length o1)) (map raw (a # as)) m' =
    sprintf_from num temp dest fs (of_nat (Suc (Suc i) + length ds)) (of_nat (Suc (Suc i) + length ds))
      (of_nat (length (o1 @ drop p (take i f) @ (pad (padding_of ds) t)))) (map raw as) m3"
proof (rule percent_step [OF lay ag i _ ds _ len])
  show "length o1 + (i - p) \<le> length out" using len i by simp
next
  fix m2 assume "agree (scratch num temp) (store m dest (o1 @ drop p (take i f))) m2"
  then show "\<exists>m1. agree (scratch num temp) m2 m1 \<and>
    convert num temp c (of_nat (padding_of ds)) dest (of_nat (length (o1 @ drop p (take i f)))) (map raw (a # as)) m2 =
    Some (of_nat (length (o1 @ drop p (take i f))) + of_nat (length (pad (padding_of ds) t)), map raw as,
          store m1 (dest + of_nat (length (o1 @ drop p (take i f)))) (pad (padding_of ds) t))"
    by (rule convert_step [OF lay arg(1) _ arg(2,3)]) (use len in simp)
qed

lemma percent_default:
  assumes lay: "layout m num temp dest fs f (Suc (length out))" and ag: "agree (scratch num temp) (store m dest o1) m'"
    and i: "p \<le> i" "i < length f" "f ! i = 37"
    and ds: "drop (Suc i) f = ds @ c # cs" "\<forall>x\<in>set ds. is_digit x" "\<not> is_digit c"
    and "\<not> conversion c"
    and len: "length (o1 @ drop p (take i f) @ [c]) \<le> length out"
  shows "\<exists>m3. agree (scratch num temp) (store m dest (o1 @ drop p (take i f) @ [c])) m3 \<and>
    sprintf_from num temp dest fs (of_nat i) (of_nat p) (of_nat (length o1)) (map raw as) m' =
    sprintf_from num temp dest fs (of_nat (Suc (Suc i) + length ds)) (of_nat (Suc (Suc i) + length ds))
      (of_nat (length (o1 @ drop p (take i f) @ [c]))) (map raw as) m3"
proof (rule percent_step [OF lay ag i _ ds _ len])
  show "length o1 + (i - p) \<le> length out" using len i by simp
next
  fix m2 assume "agree (scratch num temp) (store m dest (o1 @ drop p (take i f))) m2"
  then show "\<exists>m1. agree (scratch num temp) m2 m1 \<and>
    convert num temp c (of_nat (padding_of ds)) dest (of_nat (length (o1 @ drop p (take i f)))) (map raw as) m2 =
    Some (of_nat (length (o1 @ drop p (take i f))) + of_nat (length [c]), map raw as,
          store m1 (dest + of_nat (length (o1 @ drop p (take i f)))) [c])"
    using convert_default [OF assms(9)] by simp
qed

lemma sprintf_from_ok:
  assumes lay: "layout m num temp dest fs f (Suc (length out))"
  shows "render g args = Some r \<Longrightarrow> g = drop i f \<Longrightarrow> p \<le> i \<Longrightarrow> i \<le> length f \<Longrightarrow>
    args_at m num temp dest (Suc (length out)) args \<Longrightarrow> agree (scratch num temp) (store m dest o1) m' \<Longrightarrow>
    out = o1 @ drop p (take i f) @ r \<Longrightarrow>
    \<exists>m''. sprintf_from num temp dest fs (of_nat i) (of_nat p) (of_nat (length o1)) (map raw args) m' =
      Some (of_nat (length out), m'') \<and> agree (scratch num temp) (store m dest (out @ [0])) m''"
proof (induction g args arbitrary: i p o1 m' r rule: render.induct)
  case (1 args)
  then show ?case using finish_step [OF lay 1(6), of p] by simp
next
  case (2 c cs args)
  have "drop i f = c # cs" using 2(5) by simp
  then have i: "i < length f" "f ! i = c" "drop (Suc i) f = cs"
    using drop_all [of f i] tl_drop [of i f] by (simp_all add: nth_via_drop drop_Suc not_le [symmetric]) fastforce+
  show ?case
  proof (cases "c = 37")
    case False
    obtain r' where r: "render cs args = Some r'" "r = c # r'" using 2(4) False by auto
    have "cstr m' fs f" using format_kept [OF lay 2(9)] 2(10) by simp
    then have "m' (fs + of_nat i) = c" "c \<noteq> 0" using i by (auto simp: cstr_def)
    then have "sprintf_from num temp dest fs (of_nat i) (of_nat p) (of_nat (length o1)) (map raw args) m' =
        sprintf_from num temp dest fs (of_nat (Suc i)) (of_nat p) (of_nat (length o1)) (map raw args) m'"
      using False unfolding sprintf_from_def by (subst sprintf_loop.simps) (simp add: add.commute [of 1])
    moreover have "drop p (take (Suc i) f) = drop p (take i f) @ [c]"
      using i 2(6) by (simp add: take_Suc_conv_app_nth)
    ultimately show ?thesis using 2(1) [OF False r(1) i(3) [symmetric], of p o1 m'] 2(6-10) i r by simp
  next
    case True
    obtain x cs' where d: "dropWhile is_digit cs = x # cs'" using 2(4) True by (auto split: list.splits)
    define ds where "ds = takeWhile is_digit cs"
    have cs: "drop (Suc i) f = ds @ x # cs'" unfolding ds_def i(3) d [symmetric] by simp
    have dg: "\<forall>x\<in>set ds. is_digit x" "\<not> is_digit x"
      using d by (auto simp: ds_def dropWhile_eq_Cons_conv dest: set_takeWhileD)
    have rest: "cs' = drop (Suc (Suc i) + length ds) f"
      using arg_cong [OF cs, of "drop (Suc (length ds))"] by (simp add: add.commute)
    have lf: "Suc (Suc i) + length ds \<le> length f" using arg_cong [OF cs, of length] i(1) by simp
    have f37: "f ! i = 37" using i(2) True by simp
    show ?thesis
    proof (cases "conversion x")
      case conv: True
      obtain a as t r' where a: "args = a # as" "text_of x a = Some t" "render cs' as = Some r'" "r = pad (padding_of ds) t @ r'"
        using 2(4) True d conv by (auto simp: ds_def split: list.splits bind_splits)
      let ?t = "pad (padding_of ds) t"
      have len: "length (o1 @ drop p (take i f) @ ?t) \<le> length out" unfolding 2(10) a(4) by simp
      obtain m3 where m3: "agree (scratch num temp) (store m dest (o1 @ drop p (take i f) @ ?t)) m3"
        "sprintf_from num temp dest fs (of_nat i) (of_nat p) (of_nat (length o1)) (map raw args) m' =
          sprintf_from num temp dest fs (of_nat (Suc (Suc i) + length ds)) (of_nat (Suc (Suc i) + length ds))
            (of_nat (length (o1 @ drop p (take i f) @ ?t))) (map raw as) m3"
        using percent_convert [OF lay 2(9) 2(6) i(1) f37 cs dg 2(8) [unfolded a(1)] conv a(2) len] unfolding a(1) by blast
      show ?thesis unfolding m3(2)
        using 2(2) [OF _ d conv a(1,2,3) rest _ lf args_at_tail [OF 2(8) [unfolded a(1)]] m3(1), of "Suc (Suc i) + length ds"]
          True 2(10) a(4) by simp
    next
      case conv: False
      obtain r' where r: "render cs' args = Some r'" "r = x # r'"
        using 2(4) True d conv by auto
      have len: "length (o1 @ drop p (take i f) @ [x]) \<le> length out" unfolding 2(10) r(2) by simp
      obtain m3 where m3: "agree (scratch num temp) (store m dest (o1 @ drop p (take i f) @ [x])) m3"
        "sprintf_from num temp dest fs (of_nat i) (of_nat p) (of_nat (length o1)) (map raw args) m' =
          sprintf_from num temp dest fs (of_nat (Suc (Suc i) + length ds)) (of_nat (Suc (Suc i) + length ds))
            (of_nat (length (o1 @ drop p (take i f) @ [x]))) (map raw args) m3"
        using percent_default [OF lay 2(9) 2(6) i(1) f37 cs dg conv len] by blast
      show ?thesis unfolding m3(2)
        using 2(3) [OF _ d conv r(1) rest _ lf 2(8) m3(1), of "Suc (Suc i) + length ds"]
          True 2(10) r(2) by simp
    qed
  qed
qed

section \<open>Sizes\<close>

text \<open>The number of times \<^verbatim>\<open>format_size\<close> divides: the unit it chooses.\<close>

definition size_unit :: "nat \<Rightarrow> nat" where
  "size_unit n = (if n < 1024 then 0 else if n < 1024 ^ 2 then 1 else if n < 1024 ^ 3 then 2 else 3)"

lemma unat_div1024: "unat (w div 1024 :: u32) = unat w div 1024"
  by (simp add: unat_div)

lemma size_loop_unit:
  "size_loop 4 bytes 0 = (bytes div 1024 ^ size_unit (unat bytes), size_unit (unat bytes)) \<and>
   unat (bytes div 1024 ^ size_unit (unat bytes)) < 1024"
proof -
  have four: "(4 :: nat) = Suc (Suc (Suc (Suc 0)))" by simp
  have le: "1024 \<le> w \<longleftrightarrow> 1024 \<le> unat w" for w :: u32 by (simp add: word_le_nat_alt)
  have u: "unat (bytes div 1024 ^ k) = unat bytes div 1024 ^ k" if "k < 4" for k
  proof -
    from that have "k = 0 \<or> k = 1 \<or> k = 2 \<or> k = 3" by linarith
    then show ?thesis by (elim disjE) (simp_all add: unat_div)
  qed
  have dd: "bytes div 1024 ^ k div 1024 = bytes div 1024 ^ Suc k" if "k < 3" for k
    using that u [of k] u [of "Suc k"] by (simp add: word_unat_eq_iff unat_div div_mult2_eq mult.commute [of 1024])
  show ?thesis using unat_u32_less [of bytes] dd [of 0] dd [of 1] dd [of 2] u [of 1] u [of 2] u [of 3]
    unfolding size_unit_def four by (auto simp: le)
qed

lemma sprintf_run:
  assumes "render f args = Some out"
    and "layout m num temp dest fs f (Suc (length out))" and "args_at m num temp dest (Suc (length out)) args"
  shows "\<exists>m'. sprintf num temp dest fs (map raw args) m = Some (of_nat (length out), m') \<and>
    (\<forall>i\<le>length out. m' (dest + of_nat i) = (out @ [0]) ! i) \<and>
    (\<forall>a. a \<notin> region dest (Suc (length out)) \<union> region num 32 \<union> region temp 9 \<longrightarrow> m' a = m a)"
proof -
  obtain m' where m': "sprintf num temp dest fs (map raw args) m = Some (of_nat (length out), m')"
    "agree (scratch num temp) (store m dest (out @ [0])) m'"
    using sprintf_from_ok [OF assms(2,1), of 0 0 "[]" m] assms(3) by (auto simp: sprintf_from_def sprintf_def)
  have n: "Suc (length out) \<le> 2 ^ 31" and dj: "region dest (Suc (length out)) \<inter> scratch num temp = {}"
    using assms(2) by (simp_all add: layout_def)
  have "m' (dest + of_nat i) = (out @ [0]) ! i" if "i \<le> length out" for i
  proof -
    have "dest + of_nat i \<in> region dest (Suc (length out))" using that n by (intro region_at) simp_all
    then have "m' (dest + of_nat i) = store m dest (out @ [0]) (dest + of_nat i)"
      using dj m'(2) unfolding agree_def by blast
    then show ?thesis using that n by (simp add: store_at)
  qed
  moreover have "m' a = m a" if "a \<notin> region dest (Suc (length out)) \<union> region num 32 \<union> region temp 9" for a
    using that m'(2) by (simp add: agree_def scratch_def store_outside)
  ultimately show ?thesis using m'(1) by blast
qed

text \<open>The same for a buffer of \<open>n\<close> bytes, as callers use it.\<close>

lemma region_subset: "n \<le> k \<Longrightarrow> region p n \<subseteq> region p k"
  using region_mono by blast

lemma agree_mono: "agree S m m' \<Longrightarrow> S \<subseteq> T \<Longrightarrow> agree T m m'"
  by (auto simp: agree_def)

lemma agree_at: "agree S m m' \<Longrightarrow> a \<notin> S \<Longrightarrow> m' a = m a"
  by (simp add: agree_def)

lemma sprintf_buffer:
  assumes "render f args = Some out" "0 \<notin> set out" "length out < n"
    and "layout m num temp dest fs f n" and "args_at m num temp dest n args"
  shows "\<exists>m'. sprintf num temp dest fs (map raw args) m = Some (of_nat (length out), m') \<and> cstr m' dest out \<and>
    agree (region dest n \<union> scratch num temp) m m'"
proof -
  have sub: "region dest (Suc (length out)) \<subseteq> region dest n" using assms(3) by (intro region_subset) simp
  have "layout m num temp dest fs f (Suc (length out))" using assms(3,4) sub unfolding layout_def by auto
  moreover have "args_at m num temp dest (Suc (length out)) args" using assms(5) sub unfolding args_at_def by blast
  ultimately obtain m' where m': "sprintf num temp dest fs (map raw args) m = Some (of_nat (length out), m')"
    "\<And>i. i \<le> length out \<Longrightarrow> m' (dest + of_nat i) = (out @ [0]) ! i"
    "\<And>a. a \<notin> region dest (Suc (length out)) \<union> region num 32 \<union> region temp 9 \<Longrightarrow> m' a = m a"
    using sprintf_run [OF assms(1)] by blast
  have "cstr m' dest out"
    unfolding cstr_def using m'(2) assms(2,3,4) by (auto simp: nth_append layout_def dest: nth_mem)
  moreover have "agree (region dest n \<union> scratch num temp) m m'"
    using m'(3) sub by (auto simp: agree_def scratch_def)
  ultimately show ?thesis using m'(1) by blast
qed

lemma render_plain: "37 \<notin> set f \<Longrightarrow> render f args = Some f"
  by (induction f) auto

section \<open>Properties\<close>

text \<open>
  C27: \<^verbatim>\<open>sprintf\<close> prints what the format string means. Given a format with a meaning and buffers
  that lie apart, it returns the length of the text, leaves the text and a NUL in the
  destination, and changes no other memory than its own local arrays.
\<close>
theorem sprintf_renders:
  assumes "render f args = Some out"
    and "layout m num temp dest fs f (Suc (length out))" and "args_at m num temp dest (Suc (length out)) args"
  shows "\<exists>m'. sprintf num temp dest fs (map raw args) m = Some (of_nat (length out), m') \<and>
    (\<forall>i\<le>length out. m' (dest + of_nat i) = (out @ [0]) ! i) \<and>
    (\<forall>a. a \<notin> region dest (Suc (length out)) \<union> region num 32 \<union> region temp 9 \<longrightarrow> m' a = m a)"
  using assms by (rule sprintf_run)

text \<open>
  \<^verbatim>\<open>format_size\<close> writes the whole number of the largest unit that fits and the suffix of
  that unit, and never a fraction: the digit after the point is always computed as zero.
\<close>
lemma format_size_whole:
  assumes "length suffixes = 5" and "cstr m (suffixes ! size_unit (unat bytes)) suf" and "length suf \<le> 2"
    and "region (suffixes ! size_unit (unat bytes)) (Suc (length suf)) \<inter> region dest 16 = {}"
  shows "format_size suffixes bytes dest m =
    Some (store m dest (decimal (uint (bytes div 1024 ^ size_unit (unat bytes))) @ suf @ [0]))"
proof -
  let ?k = "size_unit (unat bytes)"
  let ?w = "bytes div 1024 ^ ?k"
  have loop: "size_loop 4 bytes 0 = (?w, ?k)" and w: "unat ?w < 1024" using size_loop_unit [of bytes] by blast+
  have sint: "sint ?w = uint ?w" using sint_of_nat_small [of "unat ?w"] w by simp
  have fr: "(?w * 1024) mod 1024 * 10 div 1024 = 0"
  proof -
    have "unat (?w * 1024) = unat ?w * 1024" using w by (simp add: unat_word_ariths)
    then have "unat ((?w * 1024) mod 1024) = 0" by (simp add: unat_mod)
    then show ?thesis by (simp add: unat_eq_zero)
  qed
  let ?d = "decimal (uint ?w)"
  have d: "length ?d \<le> 11" "0 \<notin> set ?d" using decimal_word_length(2) decimal_nonzero by blast+
  have its: "int_to_str ?w dest m = store m dest (?d @ [0])"
  proof -
    have "- (2 ^ 31) < uint ?w" by (rule less_le_trans [OF _ uint_ge_0]) simp
    then have "uint ?w \<noteq> - (2 ^ 31)" by (rule less_imp_neq [THEN not_sym])
    then show ?thesis using int_to_str_store [of ?w dest m] unfolding sint by blast
  qed
  have c: "cstr (store m dest (?d @ [0])) dest ?d" using d by (intro cstr_store) simp_all
  have len: "strlen (store m dest (?d @ [0])) dest = of_nat (length ?d)"
    using strlen_at [OF c] d(1) by (simp add: MAX_STRING_LEN_def min_absorb1)
  have z: "(store m dest (?d @ [0]))(dest + of_nat (length ?d) := 0) = store m dest (?d @ [0])"
    using c by (simp add: cstr_def fun_upd_idem)
  have "cstr (store m dest (?d @ [0])) (suffixes ! ?k) suf"
    using assms(2,4) d(1) region_mono [of _ dest "Suc (length ?d)" 16] by (intro cstr_frame) auto
  then have "strcat dest (suffixes ! ?k) (store m dest (?d @ [0])) =
      Some (dest, store (store m dest (?d @ [0])) dest (?d @ suf @ [0]))"
    using c d(1) assms(3,4) region_mono [of _ dest "length ?d + Suc (length suf)" 16]
    by (intro strcat_store) (auto simp: MAX_STRING_LEN_def)
  moreover have "store (store m dest (?d @ [0])) dest (?d @ suf @ [0]) = store m dest (?d @ suf @ [0])"
    by (auto simp: store_def fun_eq_iff)
  ultimately show ?thesis
    by (simp add: format_size_def loop fr its len z)
qed

text \<open>At the format \<^verbatim>\<open>%3d!\<close> and the number 42.\<close>
theorem sprintf_renders_witness:
  "\<exists>m'. sprintf 2000 3000 1000 100 (map raw [Num 42]) (store (\<lambda>_. 7) 100 [37, 51, 100, 33, 0]) =
      Some (of_nat (length [48 :: u8, 52, 50, 33]), m') \<and>
    (\<forall>i\<le>length [48 :: u8, 52, 50, 33]. m' (1000 + of_nat i) = ([48, 52, 50, 33] @ [0]) ! i) \<and>
    (\<forall>a. a \<notin> region 1000 (Suc (length [48 :: u8, 52, 50, 33])) \<union> region 2000 32 \<union> region 3000 9 \<longrightarrow>
       m' a = store (\<lambda>_. 7) 100 [37, 51, 100, 33, 0] a)"
proof (rule sprintf_renders)
  show "render [37, 51, 100, 33] [Num 42] = Some [48, 52, 50, 33]" by code_simp
  show "args_at (store (\<lambda>_. 7) 100 [37, 51, 100, 33, 0]) 2000 3000 1000 (Suc (length [48 :: u8, 52, 50, 33])) [Num 42]"
    by (simp add: args_at_def)
  have "cstr (store (\<lambda>_. 7) 100 ([37, 51, 100, 33] @ [0])) 100 [37, 51, 100, 33]" by (rule cstr_store) simp_all
  moreover have "region 100 5 \<inter> region 1000 5 = {}" "region 100 5 \<inter> region 2000 32 = {}" "region 100 5 \<inter> region 3000 9 = {}"
    "region 1000 5 \<inter> region 2000 32 = {}" "region 1000 5 \<inter> region 3000 9 = {}" "region 2000 32 \<inter> region 3000 9 = {}"
    by (rule region_apart, simp_all)+
  moreover have five: "Suc (length [48 :: u8, 52, 50, 33]) = 5" "Suc (length [37 :: u8, 51, 100, 33]) = 5" by simp_all
  ultimately show "layout (store (\<lambda>_. 7) 100 [37, 51, 100, 33, 0]) 2000 3000 1000 100 [37, 51, 100, 33] (Suc (length [48 :: u8, 52, 50, 33]))"
    unfolding layout_def scratch_def five by (simp add: Int_Un_distrib Int_commute)
qed

text \<open>At 2500 bytes.\<close>
lemma format_size_whole_witness:
  "format_size [100, 110, 120, 130, 140] 2500 1000 (store (\<lambda>_. 7) 110 [75, 66, 0]) =
    Some (store (store (\<lambda>_. 7) 110 [75, 66, 0]) 1000
      (decimal (uint (2500 div 1024 ^ size_unit (unat (2500 :: u32)) :: u32)) @ [75, 66] @ [0]))"
proof (rule format_size_whole)
  have k: "size_unit (unat (2500 :: u32)) = 1" by (simp add: size_unit_def)
  have "cstr (store (\<lambda>_. 7) 110 ([75, 66] @ [0])) 110 [75, 66]" by (rule cstr_store) simp_all
  then show "cstr (store (\<lambda>_. 7) 110 [75, 66, 0]) ([100, 110, 120, 130, 140] ! size_unit (unat (2500 :: u32))) [75, 66]"
    unfolding k by simp
  show "region ([100, 110, 120, 130, 140] ! size_unit (unat (2500 :: u32))) (Suc (length [75 :: u8, 66])) \<inter> region 1000 16 = {}"
    unfolding k by (rule region_apart) simp_all
qed simp_all

end
