(* ===== verification/Vga.thy ===== *)
theory Vga
  imports KString_Props
begin

text \<open>
  Text output to the screen, \<^verbatim>\<open>arch/x86/kernel/vga.c\<close>. The text buffer is a part of the byte
  memory, two bytes for each character; strings are read from the same memory. The cursor, the
  colour and the writes to the ports of the display controller are fields of the state.
  \<open>glyph\<close> is what the screen shows at a position.
\<close>

section \<open>Definitions\<close>

definition VGA_COLOUR_BLACK :: u32 where [rotary_const]: "VGA_COLOUR_BLACK = 0"
definition VGA_COLOUR_GREEN :: u32 where [rotary_const]: "VGA_COLOUR_GREEN = 2"
definition VGA_COLOUR_RED :: u32 where [rotary_const]: "VGA_COLOUR_RED = 4"
definition VGA_COLOUR_WHITE :: u32 where [rotary_const]: "VGA_COLOUR_WHITE = 7"
definition TOP_LINE :: i32 where [rotary_const]: "TOP_LINE = 3"
definition VGA_BUFFER :: u32 where [rotary_const]: "VGA_BUFFER = 0xC00B8000"
definition VGA_WIDTH :: nat where [rotary_const]: "VGA_WIDTH = 80"
definition VGA_HEIGHT :: nat where [rotary_const]: "VGA_HEIGHT = 25"

record vga_state_t =
  cursor_x :: u32
  cursor_y :: u32
  vga_enabled :: u8
  current_fg_colour :: u32
  vmem :: mem
  crtc_log :: "(u16 \<times> u8) list"

definition vga_set_character :: "u8 \<Rightarrow> u8 \<Rightarrow> u8 \<Rightarrow> u32 \<Rightarrow> u32 \<Rightarrow> vga_state_t \<Rightarrow> vga_state_t" where
  "vga_set_character c fg bg x y s =
     (let attrib = push_bit 4 (ucast bg) OR ucast (fg AND 0x0F) :: u16;
          addr = VGA_BUFFER + 2 * (y * 80 + x);
          v = ucast c OR push_bit 8 attrib :: u16
      in s\<lparr>vmem := (vmem s)(addr := ucast v, addr + 1 := ucast (drop_bit 8 v))\<rparr>)"

definition vga_clear_line :: "i32 \<Rightarrow> vga_state_t \<Rightarrow> vga_state_t" where
  "vga_clear_line line s =
     fold (\<lambda>i. vga_set_character 32 (ucast VGA_COLOUR_BLACK) (ucast VGA_COLOUR_BLACK) (of_nat i) line) [0..<80] s"

definition vga_clear_screen :: "u32 \<Rightarrow> vga_state_t \<Rightarrow> vga_state_t" where
  "vga_clear_screen colour s =
     fold (\<lambda>x. fold (\<lambda>y. vga_set_character 32 (ucast VGA_COLOUR_BLACK) (ucast colour) (of_nat x) (of_nat y)) [0..<25]) [0..<80] s"

text \<open>The innermost body of the scrolling loops; the colour byte is a signed \<^verbatim>\<open>char\<close>.\<close>

definition scroll_cell :: "nat \<Rightarrow> nat \<Rightarrow> vga_state_t \<Rightarrow> vga_state_t" where
  "scroll_cell line x s =
     (let addr = VGA_BUFFER + (of_nat line * 160 + of_nat x * 2);
          character = vmem s addr;
          colour = vmem s (addr + 1);
          bg_colour = signed_drop_bit 4 colour;
          fg_colour = colour AND 0x0F
      in vga_set_character character fg_colour bg_colour (of_nat x) (of_nat line - 1) s)"

definition scroll_line :: "nat \<Rightarrow> vga_state_t \<Rightarrow> vga_state_t" where
  "scroll_line line s = vga_clear_line (of_nat line) (fold (scroll_cell line) [0..<VGA_WIDTH] s)"

definition vga_scroll_up :: "i32 \<Rightarrow> i32 \<Rightarrow> vga_state_t \<Rightarrow> vga_state_t" where
  "vga_scroll_up line_count top_line s =
     fold (\<lambda>i. fold scroll_line [unat top_line..<VGA_HEIGHT]) [0..<unat line_count] s"

definition vga_set_cursor :: "u32 \<Rightarrow> u32 \<Rightarrow> vga_state_t \<Rightarrow> vga_state_t" where
  "vga_set_cursor x y s =
     (let position = ucast (y * of_nat VGA_WIDTH + x) :: u16
      in s\<lparr>cursor_x := x, cursor_y := y,
           crtc_log := crtc_log s @ [(0x3D4, 0x0F), (0x3D5, ucast (position AND 0xFF)),
             (0x3D4, 0x0E), (0x3D5, ucast (drop_bit 8 position AND 0xFF))]\<rparr>)"

definition vga_print_char_at_cursor :: "u8 \<Rightarrow> vga_state_t \<Rightarrow> vga_state_t" where
  "vga_print_char_at_cursor tchar s =
     (if tchar = 10 then vga_scroll_up 1 TOP_LINE (s\<lparr>cursor_x := 0\<rparr>)
      else if tchar = 12 then s\<lparr>current_fg_colour := VGA_COLOUR_GREEN\<rparr>
      else if tchar = 13 then s\<lparr>current_fg_colour := VGA_COLOUR_RED\<rparr>
      else if tchar = 11 then s\<lparr>current_fg_colour := VGA_COLOUR_WHITE\<rparr>
      else (let s1 = (if cursor_x s = of_nat VGA_WIDTH then vga_scroll_up 1 TOP_LINE (s\<lparr>cursor_x := 0\<rparr>) else s);
                s2 = vga_set_character tchar (ucast (current_fg_colour s1)) (ucast VGA_COLOUR_BLACK) (cursor_x s1) (cursor_y s1) s1
            in s2\<lparr>cursor_x := cursor_x s2 + 1\<rparr>))"

definition vga_write :: "u32 \<Rightarrow> vga_state_t \<Rightarrow> vga_state_t" where
  "vga_write str s =
     (let string_len = unat (strlen (vmem s) str)
      in fold (\<lambda>i s. vga_print_char_at_cursor (vmem s (str + of_nat i)) s) [0..<string_len] s)"

text \<open>
  The loop of \<^verbatim>\<open>vga_print_string_at_cursor\<close> measures the string before every character; a string
  is at most 512 characters long for \<^verbatim>\<open>strlen\<close>, so the loop ends after as many iterations.
\<close>

function print_string_loop :: "nat \<Rightarrow> u32 \<Rightarrow> vga_state_t \<Rightarrow> vga_state_t" where
  "print_string_loop i str s =
     (if i < unat (strlen (vmem s) str)
      then print_string_loop (Suc i) str (vga_print_char_at_cursor (vmem s (str + of_nat i)) s)
      else s)"
  by pat_completeness auto
termination
  by (relation "measure (\<lambda>(i, str, s). 2 ^ 32 - i)") (auto dest: less_trans [OF _ unat_u32_less])

declare print_string_loop.simps [simp del]

definition vga_print_string_at_cursor :: "u32 \<Rightarrow> vga_state_t \<Rightarrow> vga_state_t" where
  "vga_print_string_at_cursor str s = print_string_loop 0 str s"

definition vga_delete_char_at_cursor :: "vga_state_t \<Rightarrow> vga_state_t" where
  "vga_delete_char_at_cursor s =
     (if cursor_x s = 0 then s
      else (let s1 = vga_set_character 32 (ucast VGA_COLOUR_BLACK) (ucast VGA_COLOUR_BLACK) (cursor_x s - 1) (cursor_y s) s
            in s1\<lparr>cursor_x := cursor_x s1 - 1\<rparr>))"

definition vga_overwrite_line :: "u32 \<Rightarrow> u8 \<Rightarrow> u8 \<Rightarrow> i32 \<Rightarrow> vga_state_t \<Rightarrow> vga_state_t" where
  "vga_overwrite_line str fg bg y s =
     (let s1 = vga_clear_line y s;
          string_len = unat (strlen (vmem s1) str)
      in fold (\<lambda>i s. vga_set_character (vmem s (str + of_nat i)) fg bg (of_nat i) y s) [0..<string_len] s1)"

definition vga_print_line :: "u32 \<Rightarrow> vga_state_t \<Rightarrow> vga_state_t" where
  "vga_print_line str s =
     vga_overwrite_line str (ucast VGA_COLOUR_WHITE) (ucast VGA_COLOUR_BLACK) 24 (vga_scroll_up 1 TOP_LINE s)"

section \<open>Positions\<close>

definition pos :: "nat \<Rightarrow> nat \<Rightarrow> u32" where
  "pos x y = VGA_BUFFER + 2 * (of_nat y * 80 + of_nat x)"

definition screen_region :: "u32 set" where
  "screen_region = region VGA_BUFFER 4000"

text \<open>The character and the colour byte at a position.\<close>

definition glyph :: "vga_state_t \<Rightarrow> nat \<Rightarrow> nat \<Rightarrow> u8 \<times> u8" where
  "glyph s x y = (vmem s (pos x y), vmem s (pos x y + 1))"

definition blank :: "u8 \<times> u8" where
  "blank = (32, 0)"

lemma pos_offset: "pos x y = VGA_BUFFER + of_nat (2 * (80 * y + x))"
  by (simp add: pos_def)

lemma off_pos:
  assumes "x < 80" "y < 25"
  shows "unat (pos x y - VGA_BUFFER) = 2 * (80 * y + x)" "unat (pos x y + 1 - VGA_BUFFER) = 2 * (80 * y + x) + 1"
proof -
  have b: "2 * (80 * y + x) + 1 < 2 ^ 32" using assms by simp
  then show "unat (pos x y - VGA_BUFFER) = 2 * (80 * y + x)" unfolding pos_offset by (intro unat_offset) simp
  have "pos x y + 1 = VGA_BUFFER + of_nat (2 * (80 * y + x) + 1)" by (simp add: pos_offset)
  then show "unat (pos x y + 1 - VGA_BUFFER) = 2 * (80 * y + x) + 1" by (simp only: unat_offset [OF b])
qed

lemma pos_in_screen:
  assumes "x < 80" "y < 25"
  shows "pos x y \<in> screen_region" "pos x y + 1 \<in> screen_region"
  using assms off_pos [OF assms] by (simp_all add: screen_region_def region_def)

lemma pos_eq_iff:
  assumes "x < 80" "y < 25" "x' < 80" "y' < 25"
  shows "pos x y = pos x' y' \<longleftrightarrow> x = x' \<and> y = y'" "pos x y \<noteq> pos x' y' + 1"
proof -
  note o = off_pos [OF assms(1,2)] off_pos [OF assms(3,4)]
  have "(80 * y + x) div 80 = y" "(80 * y + x) mod 80 = x" "(80 * y' + x') div 80 = y'" "(80 * y' + x') mod 80 = x'"
    using assms by simp_all
  then have "80 * y + x = 80 * y' + x' \<Longrightarrow> x = x' \<and> y = y'" by metis
  then show "pos x y = pos x' y' \<longleftrightarrow> x = x' \<and> y = y'" using o(1,3) by (metis mult_left_cancel zero_neq_numeral)
  show "pos x y \<noteq> pos x' y' + 1" using o(1,4) by (metis dvd_triv_left even_plus_one_iff)
qed

section \<open>Characters\<close>

definition colour_byte :: "u8 \<Rightarrow> u8 \<Rightarrow> u8" where
  "colour_byte fg bg = push_bit 4 bg OR (fg AND 0x0F)"

lemma low_nibble: "(0x0F :: u8) = mask 4"
  by (simp add: mask_eq_exp_minus_1)

lemma cell_bytes:
  fixes c fg bg :: u8
  defines "v \<equiv> ucast c OR push_bit 8 (push_bit 4 (ucast bg) OR ucast (fg AND 0x0F)) :: u16"
  shows "ucast v = c" "ucast (drop_bit 8 v) = colour_byte fg bg"
  unfolding v_def colour_byte_def low_nibble
  by (rule bit_word_eqI; auto simp: bit_simps dest: bit_imp_le_length)+

lemma colour_byte_split: "colour_byte (col AND 0x0F) (signed_drop_bit 4 col) = col"
  unfolding colour_byte_def low_nibble by (rule bit_word_eqI) (auto simp: bit_simps)

text \<open>Only the text buffer changes.\<close>

definition screen_only :: "vga_state_t \<Rightarrow> vga_state_t \<Rightarrow> bool" where
  "screen_only s s' \<longleftrightarrow> s' = s\<lparr>vmem := vmem s'\<rparr> \<and> (\<forall>a. a \<notin> screen_region \<longrightarrow> vmem s' a = vmem s a)"

lemma screen_only_refl [simp]: "screen_only s s"
  by (simp add: screen_only_def)

lemma screen_only_trans: "screen_only s t \<Longrightarrow> screen_only t u \<Longrightarrow> screen_only s u"
  unfolding screen_only_def by (cases s; cases t; cases u) auto

lemma screen_only_fold:
  "(\<And>x s. x \<in> set xs \<Longrightarrow> screen_only s (f x s)) \<Longrightarrow> screen_only s (fold f xs s)"
  by (induction xs arbitrary: s) (auto intro: screen_only_trans)

lemma set_character_screen:
  assumes "x < 80" "y < 25"
  shows "screen_only s (vga_set_character c fg bg (of_nat x) (of_nat y) s)"
  using pos_in_screen [OF assms] unfolding screen_only_def
  by (auto simp: vga_set_character_def Let_def pos_def)

lemma glyph_set_character:
  assumes "x < 80" "y < 25" "x' < 80" "y' < 25"
  shows "glyph (vga_set_character c fg bg (of_nat x) (of_nat y) s) x' y' =
    (if x = x' \<and> y = y' then (c, colour_byte fg bg) else glyph s x' y')"
proof -
  have "vmem (vga_set_character c fg bg (of_nat x) (of_nat y) s) = (vmem s)(pos x y := c, pos x y + 1 := colour_byte fg bg)"
    unfolding vga_set_character_def Let_def cell_bytes pos_def by simp
  then show ?thesis using pos_eq_iff [OF assms] pos_eq_iff(2) [OF assms(3,4,1,2)] by (auto simp: glyph_def)
qed

section \<open>Scrolling\<close>

lemma clear_line_screen: "y < 25 \<Longrightarrow> screen_only s (vga_clear_line (of_nat y) s)"
  unfolding vga_clear_line_def by (rule screen_only_fold) (simp add: set_character_screen)

lemma glyph_clear_cells:
  "n \<le> 80 \<Longrightarrow> y < 25 \<Longrightarrow> x' < 80 \<Longrightarrow> y' < 25 \<Longrightarrow>
    glyph (fold (\<lambda>i. vga_set_character 32 0 0 (of_nat i) (of_nat y)) [0..<n] s) x' y' =
      (if y' = y \<and> x' < n then blank else glyph s x' y')"
  by (induction n) (auto simp: glyph_set_character colour_byte_def blank_def less_Suc_eq)

lemma glyph_clear_line:
  "y < 25 \<Longrightarrow> x' < 80 \<Longrightarrow> y' < 25 \<Longrightarrow> glyph (vga_clear_line (of_nat y) s) x' y' = (if y' = y then blank else glyph s x' y')"
  using glyph_clear_cells [of 80 y x' y' s] by (simp add: vga_clear_line_def VGA_COLOUR_BLACK_def)

lemma scroll_cell_eq:
  "x < 80 \<Longrightarrow> scroll_cell (Suc k) x s =
    vga_set_character (fst (glyph s x (Suc k))) (snd (glyph s x (Suc k)) AND 0x0F) (signed_drop_bit 4 (snd (glyph s x (Suc k))))
      (of_nat x) (of_nat k) s"
proof -
  have "VGA_BUFFER + (of_nat (Suc k) * 160 + of_nat x * 2) = pos x (Suc k)" by (simp add: pos_def)
  then show ?thesis by (simp add: scroll_cell_def Let_def glyph_def)
qed

lemma glyph_scroll_cells:
  "n \<le> 80 \<Longrightarrow> Suc k < 25 \<Longrightarrow> x' < 80 \<Longrightarrow> y' < 25 \<Longrightarrow>
    glyph (fold (scroll_cell (Suc k)) [0..<n] s) x' y' = (if y' = k \<and> x' < n then glyph s x' (Suc k) else glyph s x' y')"
proof (induction n arbitrary: x' y')
  case (Suc n)
  let ?t = "fold (scroll_cell (Suc k)) [0..<n] s" and ?g = "glyph s n (Suc k)"
  have "glyph ?t n (Suc k) = ?g" using Suc by simp
  then have "fold (scroll_cell (Suc k)) [0..<Suc n] s =
      vga_set_character (fst ?g) (snd ?g AND 0x0F) (signed_drop_bit 4 (snd ?g)) (of_nat n) (of_nat k) ?t"
    using Suc.prems by (simp add: scroll_cell_eq)
  then show ?case using Suc by (auto simp: glyph_set_character colour_byte_split less_Suc_eq)
qed simp

lemma scroll_line_screen: "Suc k < 25 \<Longrightarrow> screen_only s (scroll_line (Suc k) s)"
  unfolding scroll_line_def
  by (rule screen_only_trans [OF screen_only_fold clear_line_screen])
    (simp_all add: scroll_cell_eq set_character_screen VGA_WIDTH_def)

lemma glyph_scroll_line:
  "Suc k < 25 \<Longrightarrow> x' < 80 \<Longrightarrow> y' < 25 \<Longrightarrow>
    glyph (scroll_line (Suc k) s) x' y' = (if y' = Suc k then blank else if y' = k then glyph s x' (Suc k) else glyph s x' y')"
  unfolding scroll_line_def by (simp only: glyph_clear_line) (simp add: glyph_scroll_cells VGA_WIDTH_def)

lemma glyph_scroll_lines:
  "0 < t \<Longrightarrow> t \<le> n \<Longrightarrow> n \<le> 25 \<Longrightarrow> x' < 80 \<Longrightarrow> y' < 25 \<Longrightarrow>
    glyph (fold scroll_line [t..<n] s) x' y' =
      (if t = n \<or> Suc y' < t \<or> n \<le> y' then glyph s x' y' else if Suc y' = n then blank else glyph s x' (Suc y'))"
proof (induction n arbitrary: y')
  case (Suc n)
  show ?case
  proof (cases "t = Suc n")
    case False
    then obtain k where "t \<le> n" "n = Suc k" using Suc.prems by (cases n) auto
    then show ?thesis using Suc by (auto simp: glyph_scroll_line)
  qed simp
qed simp

lemma scroll_up_screen: "0 < t \<Longrightarrow> t < 25 \<Longrightarrow> screen_only s (vga_scroll_up n (of_nat t) s)"
  unfolding vga_scroll_up_def
proof (rule screen_only_fold, rule screen_only_fold)
  fix l s assume "l \<in> set [unat (of_nat t :: i32)..<VGA_HEIGHT]" and t: "0 < t" "t < 25"
  then have "0 < l" "l < 25" unfolding set_upt by (simp_all add: unat_of_nat VGA_HEIGHT_def)
  then obtain k where "l = Suc k" "Suc k < 25" by (cases l) auto
  then show "screen_only s (scroll_line l s)" by (simp only: scroll_line_screen)
qed

lemma glyph_scroll_up:
  assumes "0 < t" "t < 25" "x < 80" "y < 25"
  shows "glyph (vga_scroll_up 1 (of_nat t) s) x y =
    (if Suc y < t then glyph s x y else if y = 24 then blank else glyph s x (Suc y))"
  using glyph_scroll_lines [of t 25 x y s] assms by (simp add: vga_scroll_up_def VGA_HEIGHT_def unat_of_nat)

section \<open>Printing\<close>

definition cursor_ok :: "vga_state_t \<Rightarrow> bool" where
  "cursor_ok s \<longleftrightarrow> unat (cursor_x s) \<le> 80 \<and> unat (cursor_y s) < 25"

text \<open>What printing may change: the screen, the column and the colour.\<close>

definition prints_to :: "vga_state_t \<Rightarrow> vga_state_t \<Rightarrow> bool" where
  "prints_to s s' \<longleftrightarrow> cursor_ok s' \<and> cursor_y s' = cursor_y s \<and> crtc_log s' = crtc_log s \<and>
     (\<forall>a. a \<notin> screen_region \<longrightarrow> vmem s' a = vmem s a)"

lemma prints_to_refl: "cursor_ok s \<Longrightarrow> prints_to s s"
  by (simp add: prints_to_def)

lemma prints_to_trans: "prints_to s t \<Longrightarrow> prints_to t u \<Longrightarrow> prints_to s u"
  by (auto simp: prints_to_def)

lemma screen_only_fields:
  assumes "screen_only s s'"
  shows "cursor_x s' = cursor_x s" "cursor_y s' = cursor_y s" "crtc_log s' = crtc_log s"
    "current_fg_colour s' = current_fg_colour s" "\<And>a. a \<notin> screen_region \<Longrightarrow> vmem s' a = vmem s a"
proof -
  have "s' = s\<lparr>vmem := vmem s'\<rparr>" using assms by (simp add: screen_only_def)
  then have "\<exists>m. s' = s\<lparr>vmem := m\<rparr>" by blast
  then show "cursor_x s' = cursor_x s" "cursor_y s' = cursor_y s" "crtc_log s' = crtc_log s"
    "current_fg_colour s' = current_fg_colour s" by auto
qed (use assms in \<open>simp add: screen_only_def\<close>)

lemma set_character_at:
  assumes "unat x < 80" "unat y < 25"
  shows "screen_only s (vga_set_character c fg bg x y s)"
  using set_character_screen [OF assms, of s c fg bg] by simp

lemma scroll_from_top: "screen_only s (vga_scroll_up 1 TOP_LINE s)"
  using scroll_up_screen [of 3 s 1] by (simp add: TOP_LINE_def)

text \<open>The state in which a character is stored: at the end of a line the screen is scrolled first.\<close>

definition wrapped :: "vga_state_t \<Rightarrow> vga_state_t" where
  "wrapped s = (if cursor_x s = 80 then vga_scroll_up 1 TOP_LINE (s\<lparr>cursor_x := 0\<rparr>) else s)"

lemma unat_80: "unat (80 :: u32) = 80"
  by simp

lemma wrapped_prints:
  assumes "cursor_ok s"
  shows "prints_to s (wrapped s)" "unat (cursor_x (wrapped s)) < 80" "current_fg_colour (wrapped s) = current_fg_colour s"
proof -
  note f = screen_only_fields [OF scroll_from_top [of "s\<lparr>cursor_x := 0\<rparr>"]]
  have "cursor_x s \<noteq> 80 \<Longrightarrow> unat (cursor_x s) \<noteq> 80" by (metis word_unat_eq_iff unat_80)
  then show "prints_to s (wrapped s)" "unat (cursor_x (wrapped s)) < 80" "current_fg_colour (wrapped s) = current_fg_colour s"
    using assms f by (auto simp: wrapped_def prints_to_def cursor_ok_def)
qed

lemma print_char_prints:
  assumes "cursor_ok s"
  shows "prints_to s (vga_print_char_at_cursor c s)"
proof -
  note f = screen_only_fields [OF scroll_from_top [of "s\<lparr>cursor_x := 0\<rparr>"]]
  note w = wrapped_prints [OF assms]
  have "unat (cursor_y (wrapped s)) < 25" using w(1) by (auto simp: prints_to_def cursor_ok_def)
  note g = screen_only_fields [OF set_character_at [OF w(2) this]]
  have "unat (cursor_x (wrapped s) + 1) \<le> 80" using w(2) unat_add1_le [of "cursor_x (wrapped s)"] by linarith
  then have "prints_to (wrapped s) (let s2 = vga_set_character c fg bg (cursor_x (wrapped s)) (cursor_y (wrapped s)) (wrapped s)
      in s2\<lparr>cursor_x := cursor_x s2 + 1\<rparr>)" for fg bg
    using w(1) g assms by (simp add: Let_def prints_to_def cursor_ok_def)
  from prints_to_trans [OF w(1) this] show ?thesis
    using assms f by (auto simp: vga_print_char_at_cursor_def wrapped_def Let_def VGA_WIDTH_def prints_to_def cursor_ok_def)
qed

lemma prints_to_fold:
  "(\<And>x s. cursor_ok s \<Longrightarrow> prints_to s (f x s)) \<Longrightarrow> cursor_ok s \<Longrightarrow> prints_to s (fold f xs s)"
proof (induction xs arbitrary: s)
  case (Cons x xs)
  have step: "prints_to s (f x s)" using Cons.prems by blast
  then have "cursor_ok (f x s)" by (simp add: prints_to_def)
  then show ?case using prints_to_trans [OF step Cons.IH] Cons.prems(1) by simp
qed (simp add: prints_to_refl)

lemma print_string_prints: "cursor_ok s \<Longrightarrow> prints_to s (print_string_loop i str s)"
proof (induction i str s rule: print_string_loop.induct)
  case (1 i str s)
  have step: "prints_to s (vga_print_char_at_cursor (vmem s (str + of_nat i)) s)" by (rule print_char_prints [OF 1(2)])
  then have "cursor_ok (vga_print_char_at_cursor (vmem s (str + of_nat i)) s)" by (simp add: prints_to_def)
  then show ?case using prints_to_trans [OF step 1(1)] prints_to_refl [OF 1(2)] by (subst print_string_loop.simps) simp
qed

lemma delete_char_prints: "cursor_ok s \<Longrightarrow> prints_to s (vga_delete_char_at_cursor s)"
proof (cases "cursor_x s = 0")
  case True
  then show "cursor_ok s \<Longrightarrow> ?thesis" by (simp add: vga_delete_char_at_cursor_def prints_to_refl)
next
  case False
  assume ok: "cursor_ok s"
  have "unat (cursor_x s) \<noteq> 0" using False by (simp add: unat_eq_zero)
  then have x: "unat (cursor_x s - 1) < 80" using ok by (subst unat_sub_small) (auto simp: cursor_ok_def)
  have "unat (cursor_y s) < 25" using ok by (simp add: cursor_ok_def)
  note g = screen_only_fields [OF set_character_at [OF x this]]
  show ?thesis using False ok g x by (simp add: vga_delete_char_at_cursor_def Let_def prints_to_def cursor_ok_def)
qed

text \<open>The text shown by a sequence of plain characters that fits the line.\<close>

lemma print_char_plain:
  assumes "c \<notin> {10, 11, 12, 13}" "cursor_x s = of_nat x" "x < 80" "cursor_y s = of_nat y" "y < 25" "x' < 80" "y' < 25"
  shows "glyph (vga_print_char_at_cursor c s) x' y' =
      (if x' = x \<and> y' = y then (c, colour_byte (ucast (current_fg_colour s)) 0) else glyph s x' y')"
    and "cursor_x (vga_print_char_at_cursor c s) = of_nat (Suc x)" "cursor_y (vga_print_char_at_cursor c s) = of_nat y"
    and "current_fg_colour (vga_print_char_at_cursor c s) = current_fg_colour s"
proof -
  have "unat (of_nat x :: u32) = x" using assms(3) by (intro unat_le_imp_of_nat) simp
  then have x80: "(of_nat x :: u32) \<noteq> 80" using assms(3) unat_80 by (metis less_irrefl)
  let ?t = "vga_set_character c (ucast (current_fg_colour s)) (ucast VGA_COLOUR_BLACK) (of_nat x) (of_nat y) s"
  have p: "vga_print_char_at_cursor c s = ?t\<lparr>cursor_x := cursor_x ?t + 1\<rparr>"
    using assms(1,2,4) x80 by (simp add: vga_print_char_at_cursor_def Let_def VGA_WIDTH_def)
  note g = screen_only_fields [OF set_character_screen [OF assms(3,5)]]
  have "glyph (?t\<lparr>cursor_x := z\<rparr>) x' y' = glyph ?t x' y'" for z by (simp add: glyph_def)
  then show "glyph (vga_print_char_at_cursor c s) x' y' =
      (if x' = x \<and> y' = y then (c, colour_byte (ucast (current_fg_colour s)) 0) else glyph s x' y')"
    unfolding p using glyph_set_character [OF assms(3,5,6,7)] by (auto simp: VGA_COLOUR_BLACK_def)
  show "cursor_x (vga_print_char_at_cursor c s) = of_nat (Suc x)" "cursor_y (vga_print_char_at_cursor c s) = of_nat y"
    "current_fg_colour (vga_print_char_at_cursor c s) = current_fg_colour s"
    unfolding p using g assms(2,4) by simp_all
qed

definition shows_text :: "u8 list \<Rightarrow> nat \<Rightarrow> nat \<Rightarrow> vga_state_t \<Rightarrow> vga_state_t \<Rightarrow> bool" where
  "shows_text t x y s s' \<longleftrightarrow> cursor_x s' = of_nat (x + length t) \<and> cursor_y s' = of_nat y \<and>
     current_fg_colour s' = current_fg_colour s \<and>
     (\<forall>x'<80. \<forall>y'<25. glyph s' x' y' = (if y' = y \<and> x \<le> x' \<and> x' < x + length t
        then (t ! (x' - x), colour_byte (ucast (current_fg_colour s)) 0) else glyph s x' y'))"

lemma shows_text_snoc:
  assumes "shows_text u x y s s1" and "c \<notin> {10, 11, 12, 13}" and "x + length u < 80" "y < 25"
  shows "shows_text (u @ [c]) x y s (vga_print_char_at_cursor c s1)"
proof -
  have cur: "cursor_x s1 = of_nat (x + length u)" "cursor_y s1 = of_nat y" "current_fg_colour s1 = current_fg_colour s"
    and g: "\<And>x' y'. x' < 80 \<Longrightarrow> y' < 25 \<Longrightarrow> glyph s1 x' y' = (if y' = y \<and> x \<le> x' \<and> x' < x + length u
      then (u ! (x' - x), colour_byte (ucast (current_fg_colour s)) 0) else glyph s x' y')"
    using assms(1) unfolding shows_text_def by blast+
  note q = print_char_plain [OF assms(2) cur(1) assms(3) cur(2) assms(4)]
  have "glyph (vga_print_char_at_cursor c s1) x' y' = (if y' = y \<and> x \<le> x' \<and> x' < x + length (u @ [c])
      then ((u @ [c]) ! (x' - x), colour_byte (ucast (current_fg_colour s)) 0) else glyph s x' y')"
    if "x' < 80" "y' < 25" for x' y'
    using q(1) [OF that] g [OF that] cur(3) by (auto simp: nth_append less_Suc_eq)
  then show ?thesis using q(2-4) [of 0 0] cur(3) by (auto simp: shows_text_def)
qed

lemma write_plain:
  assumes t: "\<forall>i<length t. vmem s (str + of_nat i) = t ! i \<and> str + of_nat i \<notin> screen_region"
    and plain: "set t \<inter> {10, 11, 12, 13} = {}" and fit: "x + length t \<le> 80" "y < 25"
    and cur: "cursor_x s = of_nat x" "cursor_y s = of_nat y" and n: "n \<le> length t"
  shows "shows_text (take n t) x y s (fold (\<lambda>i s. vga_print_char_at_cursor (vmem s (str + of_nat i)) s) [0..<n] s)"
  using n
proof (induction n)
  case 0
  then show ?case using cur by (auto simp: shows_text_def)
next
  case (Suc n)
  let ?s = "fold (\<lambda>i s. vga_print_char_at_cursor (vmem s (str + of_nat i)) s) [0..<n] s"
  have IH: "shows_text (take n t) x y s ?s" using Suc by simp
  have "unat (of_nat x :: u32) = x" "unat (of_nat y :: u32) = y" using fit by (auto intro!: unat_le_imp_of_nat)
  then have "cursor_ok s" using fit cur by (simp add: cursor_ok_def)
  then have "prints_to s ?s" by (intro prints_to_fold print_char_prints)
  then have c: "vmem ?s (str + of_nat n) = t ! n" using t Suc.prems by (simp add: prints_to_def)
  have "t ! n \<in> set t" using Suc.prems by simp
  then have p: "t ! n \<notin> {10, 11, 12, 13}" using plain by blast
  have "take (Suc n) t = take n t @ [t ! n]" using Suc.prems by (simp add: take_Suc_conv_app_nth)
  moreover have "fold (\<lambda>i s. vga_print_char_at_cursor (vmem s (str + of_nat i)) s) [0..<Suc n] s = vga_print_char_at_cursor (t ! n) ?s"
    by (simp add: c)
  ultimately show ?case using shows_text_snoc [OF IH p] Suc.prems fit by simp
qed

lemma write_shows:
  assumes "cstr (vmem s) str t" and "\<forall>i<length t. str + of_nat i \<notin> screen_region"
    and "set t \<inter> {10, 11, 12, 13} = {}" and "x + length t \<le> 80" "y < 25"
    and "cursor_x s = of_nat x" "cursor_y s = of_nat y"
  shows "shows_text t x y s (vga_write str s)"
proof -
  have "length t \<le> MAX_STRING_LEN" using assms(4) by (simp add: MAX_STRING_LEN_def)
  then have "unat (strlen (vmem s) str) = length t"
    using assms(4) by (simp add: strlen_at [OF assms(1)] min_def unat_le_imp_of_nat)
  then show ?thesis
    using write_plain [OF _ assms(3-7), of str "length t"] assms(1,2) by (simp add: vga_write_def cstr_def)
qed

section \<open>Properties\<close>

text \<open>
  Scrolling by one line moves every line from the top line on up by one, blanks the last line of the
  screen and leaves the lines above alone, character and colour alike; no other memory, and
  neither the cursor nor the colour, changes.
\<close>

lemma vga_scroll_up_shifts:
  assumes "0 < t" "t < 25"
  shows "screen_only s (vga_scroll_up 1 (of_nat t) s) \<and>
    (\<forall>x<80. \<forall>y<25. glyph (vga_scroll_up 1 (of_nat t) s) x y =
       (if Suc y < t then glyph s x y else if y = 24 then blank else glyph s x (Suc y)))"
  using scroll_up_screen [OF assms] glyph_scroll_up [OF assms] by blast

text \<open>A screen with an empty bottom line, where the cursor is, and a string in memory.\<close>

definition sample_console :: vga_state_t where
  "sample_console = \<lparr>cursor_x = 0, cursor_y = 24, vga_enabled = 1, current_fg_colour = VGA_COLOUR_WHITE,
     vmem = store (\<lambda>a. 0) 0x1000 [82, 111, 116, 97, 114, 121, 0], crtc_log = []\<rparr>"

lemma vga_scroll_up_shifts_witness:
  "glyph (vga_scroll_up 1 3 sample_console) 5 24 = blank \<and> glyph (vga_scroll_up 1 3 sample_console) 5 0 = glyph sample_console 5 0 \<and>
    screen_only sample_console (vga_scroll_up 1 3 sample_console)"
  using vga_scroll_up_shifts [of 3 sample_console] by simp

text \<open>
  C29: Whatever is printed stays on the screen: from a cursor inside the screen, writing any string,
  with control characters and of any length, in either way, and deleting the last character keep
  the cursor inside the screen and in its line, and no byte outside the 4000 bytes of the text
  buffer changes.
\<close>

theorem vga_output_in_bounds:
  assumes "cursor_ok s"
  shows "prints_to s (vga_write str s) \<and> prints_to s (vga_print_string_at_cursor str s) \<and>
    prints_to s (vga_delete_char_at_cursor s)"
  using assms prints_to_fold [OF print_char_prints] print_string_prints delete_char_prints
  by (simp add: vga_write_def Let_def vga_print_string_at_cursor_def)

theorem vga_output_in_bounds_witness: "prints_to sample_console (vga_write 0x1000 sample_console)"
  using vga_output_in_bounds [of sample_console "0x1000"] by (simp add: sample_console_def cursor_ok_def)

lemma sample_shows: "shows_text [82, 111, 116, 97, 114, 121] 0 24 sample_console (vga_write 0x1000 sample_console)"
proof (rule write_shows)
  show "cstr (vmem sample_console) 0x1000 [82, 111, 116, 97, 114, 121]"
    using cstr_store [of "[82, 111, 116, 97, 114, 121]" "\<lambda>a. 0" "0x1000"] by (simp add: sample_console_def)
  show "\<forall>i<length [82, 111, 116, 97, 114, 121 :: u8]. 0x1000 + of_nat i \<notin> screen_region"
  proof (intro allI impI)
    fix i assume "i < length [82, 111, 116, 97, 114, 121 :: u8]"
    then have "i \<in> {0, 1, 2, 3, 4, 5}" by auto
    then show "0x1000 + of_nat i \<notin> screen_region" by (auto simp: screen_region_def region_def rotary_const)
  qed
qed (simp_all add: sample_console_def)

end
