(* ===== verification/Serial.thy ===== *)
theory Serial
  imports KString_Props
begin

text \<open>
  Serial output: \<^verbatim>\<open>kernel/drivers/tty/serial.c\<close> and the UART driver of
  \<^verbatim>\<open>arch/x86/kernel/serial.c\<close>. The device is an argument: \<open>dev n p\<close> is the byte the \<open>n\<close>-th read
  since start-up finds at port \<open>p\<close>. All accesses to ports, in and out, are recorded in order. The
  loop that waits for the transmitter may not end, which is \<^term>\<open>None\<close>.
\<close>

section \<open>Constants\<close>

definition IO_PORT_SERIAL_COM1 :: u32 where [rotary_const]: "IO_PORT_SERIAL_COM1 = 0x3F8"
definition IO_PORT_SERIAL_COM2 :: u32 where [rotary_const]: "IO_PORT_SERIAL_COM2 = 0x2F8"
definition UART_IER :: u32 where [rotary_const]: "UART_IER = 1"
definition UART_FCR :: u32 where [rotary_const]: "UART_FCR = 2"
definition UART_LCR :: u32 where [rotary_const]: "UART_LCR = 3"
definition UART_MCR :: u32 where [rotary_const]: "UART_MCR = 4"
definition UART_LSR :: u32 where [rotary_const]: "UART_LSR = 5"
definition UART_LSR_TX_HOLDING_EMPTY :: u32 where [rotary_const]: "UART_LSR_TX_HOLDING_EMPTY = 0x20"
definition UART_LCR_DLAB :: u8 where [rotary_const]: "UART_LCR_DLAB = 0x80"
definition UART_LCR_BREAK_DISABLE :: u8 where [rotary_const]: "UART_LCR_BREAK_DISABLE = 0x00"
definition UART_LCR_PARITY_NONE :: u8 where [rotary_const]: "UART_LCR_PARITY_NONE = 0x00"
definition UART_LCR_STOP_BIT_1 :: u8 where [rotary_const]: "UART_LCR_STOP_BIT_1 = 0x00"
definition UART_LCR_WORD_LENGTH_8B :: u8 where [rotary_const]: "UART_LCR_WORD_LENGTH_8B = 0x03"
definition UART_MCR_FORCE_DTR :: u8 where [rotary_const]: "UART_MCR_FORCE_DTR = 0x01"
definition UART_MCR_FORCE_RTS :: u8 where [rotary_const]: "UART_MCR_FORCE_RTS = 0x02"
definition UART_MCR_AUX_OUTPUT_1 :: u8 where [rotary_const]: "UART_MCR_AUX_OUTPUT_1 = 0x04"
definition UART_MCR_AUX_OUTPUT_2 :: u8 where [rotary_const]: "UART_MCR_AUX_OUTPUT_2 = 0x08"
definition UART_MCR_LOOPBACK_MODE :: u8 where [rotary_const]: "UART_MCR_LOOPBACK_MODE = 0x10"
definition UART_FCR_BAUD_38400_HIGH :: u8 where [rotary_const]: "UART_FCR_BAUD_38400_HIGH = 0x00"
definition UART_FCR_BAUD_38400_LOW :: u8 where [rotary_const]: "UART_FCR_BAUD_38400_LOW = 0x03"
definition UART_FCR_FIFO_ENABLE :: u8 where [rotary_const]: "UART_FCR_FIFO_ENABLE = 0x01"
definition UART_FCR_CLEAR_RX_FIFO :: u8 where [rotary_const]: "UART_FCR_CLEAR_RX_FIFO = 0x02"
definition UART_FCR_CLEAR_TX_FIFO :: u8 where [rotary_const]: "UART_FCR_CLEAR_TX_FIFO = 0x04"
definition UART_FCR_INT_TRIG_14B :: u8 where [rotary_const]: "UART_FCR_INT_TRIG_14B = 0xC0"
definition UART_FCR_FIFO64_DISABLE :: u8 where [rotary_const]: "UART_FCR_FIFO64_DISABLE = 0x00"

section \<open>State and operations\<close>

datatype port_event = In u16 u8 | Out u16 u8

record serial_state =
  serial_initialised :: u8
  serial_debug_port :: u32
  port_events :: "port_event list"
  port_reads :: nat

definition uart_out :: "u32 \<Rightarrow> u8 \<Rightarrow> serial_state \<Rightarrow> serial_state" where
  "uart_out port data s = s\<lparr>port_events := port_events s @ [Out (ucast port) data]\<rparr>"

definition uart_in :: "(nat \<Rightarrow> u16 \<Rightarrow> u8) \<Rightarrow> u32 \<Rightarrow> serial_state \<Rightarrow> u8 \<times> serial_state" where
  "uart_in dev port s =
     (let value = dev (port_reads s) (ucast port)
      in (value, s\<lparr>port_events := port_events s @ [In (ucast port) value], port_reads := port_reads s + 1\<rparr>))"

definition serial_set_debug_port :: "u32 \<Rightarrow> serial_state \<Rightarrow> i32 \<times> serial_state" where
  "serial_set_debug_port port_id s = (E_SUCCESS, s\<lparr>serial_debug_port := port_id\<rparr>)"

definition serial_get_debug_port :: "serial_state \<Rightarrow> u32" where
  "serial_get_debug_port s = serial_debug_port s"

definition x86_serial_init_port :: "(nat \<Rightarrow> u16 \<Rightarrow> u8) \<Rightarrow> u32 \<Rightarrow> serial_state \<Rightarrow> i32 \<times> serial_state" where
  "x86_serial_init_port dev port s =
     (let s1 = uart_out (port + UART_IER) 0x00 s;
          s2 = uart_out (port + UART_LCR) UART_LCR_DLAB s1;
          s3 = uart_out (port + 0) UART_FCR_BAUD_38400_LOW s2;
          s4 = uart_out (port + 1) UART_FCR_BAUD_38400_HIGH s3;
          s5 = uart_out (port + UART_LCR)
            (UART_LCR_WORD_LENGTH_8B OR UART_LCR_STOP_BIT_1 OR UART_LCR_PARITY_NONE OR UART_LCR_BREAK_DISABLE) s4;
          s6 = uart_out (port + UART_FCR)
            (UART_FCR_FIFO_ENABLE OR UART_FCR_FIFO64_DISABLE OR UART_FCR_CLEAR_RX_FIFO OR UART_FCR_CLEAR_TX_FIFO OR UART_FCR_INT_TRIG_14B) s5;
          s7 = uart_out (port + UART_MCR) (UART_MCR_FORCE_DTR OR UART_MCR_FORCE_RTS OR UART_MCR_AUX_OUTPUT_2) s6;
          s8 = uart_out (port + UART_MCR)
            (UART_MCR_FORCE_RTS OR UART_MCR_AUX_OUTPUT_1 OR UART_MCR_AUX_OUTPUT_2 OR UART_MCR_LOOPBACK_MODE) s7;
          s9 = uart_out (port + 0) 0xAE s8;
          (echo, s10) = uart_in dev port s9
      in if echo \<noteq> 0xAE then (1, s10)
         else (E_SUCCESS, uart_out (port + UART_MCR)
           (UART_MCR_FORCE_DTR OR UART_MCR_FORCE_RTS OR UART_MCR_AUX_OUTPUT_1 OR UART_MCR_AUX_OUTPUT_2) s10))"

definition x86_serial_is_transmit_empty :: "(nat \<Rightarrow> u16 \<Rightarrow> u8) \<Rightarrow> u32 \<Rightarrow> serial_state \<Rightarrow> i32 \<times> serial_state" where
  "x86_serial_is_transmit_empty dev port s =
     (let (v, s1) = uart_in dev (port + UART_LSR) s;
          thre = ucast v AND UART_LSR_TX_HOLDING_EMPTY
      in if thre = 0x20 then (1, s1) else (0, s1))"

definition arch_serial_init :: "(nat \<Rightarrow> u16 \<Rightarrow> u8) \<Rightarrow> serial_state \<Rightarrow> i32 \<times> serial_state" where
  "arch_serial_init dev s =
     (let s1 = snd (serial_set_debug_port IO_PORT_SERIAL_COM2 s);
          (r1, s2) = x86_serial_init_port dev IO_PORT_SERIAL_COM1 s1
      in if \<not> SUCCESS r1 then (E_ERROR, s2)
         else (let (r2, s3) = x86_serial_init_port dev IO_PORT_SERIAL_COM2 s2
               in if \<not> SUCCESS r2 then (E_ERROR, s3) else (E_SUCCESS, s3)))"

definition serial_init :: "(nat \<Rightarrow> u16 \<Rightarrow> u8) \<Rightarrow> serial_state \<Rightarrow> i32 \<times> serial_state" where
  "serial_init dev s =
     (let (r, s1) = arch_serial_init dev s
      in if \<not> SUCCESS r then (E_ERROR, s1) else (E_SUCCESS, s1\<lparr>serial_initialised := 1\<rparr>))"

partial_function (option) wait_transmit :: "(nat \<Rightarrow> u16 \<Rightarrow> u8) \<Rightarrow> u32 \<Rightarrow> serial_state \<Rightarrow> serial_state option" where
  "wait_transmit dev port s =
     (let (e, s1) = x86_serial_is_transmit_empty dev port s
      in if e = 0 then wait_transmit dev port s1 else Some s1)"

partial_function (option) arch_serial_write_line ::
  "(nat \<Rightarrow> u16 \<Rightarrow> u8) \<Rightarrow> mem \<Rightarrow> u32 \<Rightarrow> u32 \<Rightarrow> serial_state \<Rightarrow> (i32 \<times> serial_state) option" where
  "arch_serial_write_line dev m port line s =
     (if m line \<noteq> 0
      then do {
        s1 \<leftarrow> wait_transmit dev port s;
        arch_serial_write_line dev m port (line + 1) (uart_out port (m line) s1)
      }
      else Some (E_SUCCESS, s))"

definition serial_write_line ::
  "(nat \<Rightarrow> u16 \<Rightarrow> u8) \<Rightarrow> mem \<Rightarrow> u32 \<Rightarrow> u32 \<Rightarrow> serial_state \<Rightarrow> (i32 \<times> serial_state) option" where
  "serial_write_line dev m port line s =
     (if serial_initialised s = 0 then Some (E_ERROR, s)
      else do {
        (r, s1) \<leftarrow> arch_serial_write_line dev m port line s;
        Some (if \<not> SUCCESS r then E_ERROR else E_SUCCESS, s1)
      })"

section \<open>Waiting\<close>

definition ready :: "u8 \<Rightarrow> bool" where
  "ready b = bit b 5"

text \<open>
  \<open>sent p t es\<close>: the accesses \<open>es\<close> send the bytes \<open>t\<close>, each by polling the status register until it
  shows an empty transmitter and then writing the byte at once.
\<close>

primrec sent :: "u32 \<Rightarrow> u8 list \<Rightarrow> port_event list \<Rightarrow> bool" where
  "sent p [] es \<longleftrightarrow> es = []"
| "sent p (c # cs) es \<longleftrightarrow> (\<exists>bs b fs. es = map (In (ucast (p + 5))) bs @ [In (ucast (p + 5)) b, Out (ucast p) c] @ fs \<and>
     (\<forall>b\<in>set bs. \<not> ready b) \<and> ready b \<and> sent p cs fs)"

definition responsive :: "(nat \<Rightarrow> u16 \<Rightarrow> u8) \<Rightarrow> u32 \<Rightarrow> bool" where
  "responsive dev port \<longleftrightarrow> (\<forall>n. \<exists>k\<ge>n. ready (dev k (ucast (port + 5))))"

lemma ready_mask: "(ucast b AND 0x20 = (0x20 :: u32)) = ready b"
proof -
  define m :: u32 where "m = push_bit 5 1"
  have "bit m n \<longleftrightarrow> n = 5" for n unfolding m_def bit_push_bit_iff bit_1_iff by auto
  note bits = this
  have "ucast b AND m = (if bit b 5 then m else 0)"
    by (rule bit_word_eqI) (auto simp: bits bit_and_iff bit_unsigned_iff)
  moreover have "m \<noteq> 0" using bits [of 5] by auto
  ultimately have "(ucast b AND m = m) = bit b 5" by simp
  then show ?thesis by (simp add: ready_def m_def)
qed

lemma transmit_empty:
  "x86_serial_is_transmit_empty dev port s =
     (let b = dev (port_reads s) (ucast (port + 5))
      in (if ready b then 1 else 0,
          s\<lparr>port_events := port_events s @ [In (ucast (port + 5)) b], port_reads := port_reads s + 1\<rparr>))"
  by (simp add: x86_serial_is_transmit_empty_def uart_in_def Let_def rotary_const ready_mask)

text \<open>The state after further accesses.\<close>

definition accessed :: "port_event list \<Rightarrow> serial_state \<Rightarrow> serial_state \<Rightarrow> bool" where
  "accessed es s s' \<longleftrightarrow> (\<exists>n. s' = s\<lparr>port_events := port_events s @ es, port_reads := n\<rparr>)"

lemma accessed_refl: "accessed [] s s"
  unfolding accessed_def by (rule exI [of _ "port_reads s"]) simp

lemma accessed_trans: "accessed es s t \<Longrightarrow> accessed fs t u \<Longrightarrow> accessed (es @ fs) s u"
  by (auto simp: accessed_def)

lemma accessed_out: "accessed [Out (ucast port) c] s (uart_out port c s)"
  unfolding accessed_def uart_out_def by (rule exI [of _ "port_reads s"]) simp

lemma accessed_in: "accessed [In (ucast port) (fst (uart_in dev port s))] s (snd (uart_in dev port s))"
  unfolding accessed_def uart_in_def Let_def by auto

lemma accessed_events: "accessed es s s' \<Longrightarrow> port_events s' = port_events s @ es"
  by (auto simp: accessed_def)

lemma wait_transmit_ready:
  assumes "ready (dev k (ucast (port + 5)))" "port_reads s \<le> k"
  shows "\<exists>bs b s'. wait_transmit dev port s = Some s' \<and> (\<forall>b\<in>set bs. \<not> ready b) \<and> ready b \<and>
    accessed (map (In (ucast (port + 5))) bs @ [In (ucast (port + 5)) b]) s s'"
  using assms(2)
proof (induction "k - port_reads s" arbitrary: s rule: less_induct)
  case less
  let ?b = "dev (port_reads s) (ucast (port + 5))"
  let ?t = "s\<lparr>port_events := port_events s @ [In (ucast (port + 5)) ?b], port_reads := port_reads s + 1\<rparr>"
  have st: "accessed [In (ucast (port + 5)) ?b] s ?t" unfolding accessed_def by blast
  show ?case
  proof (cases "ready ?b")
    case True
    then have "wait_transmit dev port s = Some ?t" by (subst wait_transmit.simps) (simp add: transmit_empty Let_def)
    then show ?thesis using True st by (intro exI [of _ "[]"] exI [of _ ?b] exI [of _ ?t]) simp
  next
    case False
    then have run: "wait_transmit dev port s = wait_transmit dev port ?t"
      by (subst wait_transmit.simps) (simp add: transmit_empty Let_def)
    have "port_reads s \<noteq> k" using assms(1) False by auto
    then have "k - port_reads ?t < k - port_reads s" "port_reads ?t \<le> k" using less.prems by simp_all
    from less.hyps [OF this] obtain bs b s' where
      s': "wait_transmit dev port ?t = Some s'" "\<forall>b\<in>set bs. \<not> ready b" "ready b"
      "accessed (map (In (ucast (port + 5))) bs @ [In (ucast (port + 5)) b]) ?t s'" by blast
    from accessed_trans [OF st s'(4)] show ?thesis using run s'(1-3) False
      by (intro exI [of _ "?b # bs"] exI [of _ b] exI [of _ s']) simp
  qed
qed

lemma write_line_sends:
  assumes "responsive dev port" "cstr m line t"
  shows "\<exists>es s'. arch_serial_write_line dev m port line s = Some (E_SUCCESS, s') \<and> sent port t es \<and> accessed es s s'"
  using assms(2)
proof (induction t arbitrary: line s)
  case Nil
  then show ?case using cstr_Nil accessed_refl by (subst arch_serial_write_line.simps) auto
next
  case (Cons c t)
  note line = cstr_Cons [OF Cons.prems]
  obtain k where "ready (dev k (ucast (port + 5)))" "port_reads s \<le> k" using assms(1) unfolding responsive_def by blast
  from wait_transmit_ready [of dev k port s, OF this] obtain bs b s1 where
    s1: "wait_transmit dev port s = Some s1" "\<forall>b\<in>set bs. \<not> ready b" "ready b"
    "accessed (map (In (ucast (port + 5))) bs @ [In (ucast (port + 5)) b]) s s1" by blast
  from Cons.IH [OF line(3), of "uart_out port c s1"] obtain es s' where
    s': "arch_serial_write_line dev m port (line + 1) (uart_out port c s1) = Some (E_SUCCESS, s')" "sent port t es"
    "accessed es (uart_out port c s1) s'" by blast
  let ?es = "map (In (ucast (port + 5))) bs @ [In (ucast (port + 5)) b, Out (ucast port) c] @ es"
  have "arch_serial_write_line dev m port line s = Some (E_SUCCESS, s')"
    using line(1,2) s1(1) s'(1) by (subst arch_serial_write_line.simps) simp
  moreover have "sent port (c # t) ?es" using s1(2,3) s'(2) by auto
  moreover have "accessed ?es s s'"
    using accessed_trans [OF accessed_trans [OF s1(4) accessed_out [of port c s1]] s'(3)] by simp
  ultimately show ?case by blast
qed

section \<open>Properties\<close>

text \<open>
  \<^verbatim>\<open>serial_write_line\<close> on an initialised port whose transmitter keeps becoming empty returns, with
  success, after sending exactly the bytes of the string in order; before every byte the status
  register is polled until it shows an empty transmitter, and the byte is the next access. Before
  initialisation nothing is sent and the result is an error.
\<close>

lemma serial_write_line_sends:
  assumes "responsive dev port" and "cstr m line t"
  shows "(serial_initialised s \<noteq> 0 \<longrightarrow> (\<exists>es s'. serial_write_line dev m port line s = Some (E_SUCCESS, s') \<and>
      port_events s' = port_events s @ es \<and> sent port t es)) \<and>
    (serial_initialised s = 0 \<longrightarrow> serial_write_line dev m port line s = Some (E_ERROR, s))"
  using write_line_sends [OF assms, of s] accessed_events by (fastforce simp: serial_write_line_def)

text \<open>A device whose transmitter is empty at every third read.\<close>

definition slow_device :: "nat \<Rightarrow> u16 \<Rightarrow> u8" where
  "slow_device n p = (if n mod 3 = 0 then 0x60 else 0)"

lemma slow_device_responsive: "responsive slow_device p"
  unfolding responsive_def
proof
  fix n
  show "\<exists>k\<ge>n. ready (slow_device k (ucast (p + 5)))"
    by (rule exI [of _ "3 * n"]) (simp add: slow_device_def ready_def)
qed

lemma serial_write_line_sends_witness:
  "\<exists>es s'. serial_write_line slow_device (store (\<lambda>a. 0) 0x1000 [111, 107, 0]) 0x2F8 0x1000
      \<lparr>serial_initialised = 1, serial_debug_port = 0x2F8, port_events = [], port_reads = 20\<rparr> = Some (E_SUCCESS, s') \<and>
    port_events s' = es \<and> sent 0x2F8 [111, 107] es"
proof -
  have "cstr (store (\<lambda>a. 0) 0x1000 [111, 107, 0]) 0x1000 [111, 107]"
    using cstr_store [of "[111, 107]" "\<lambda>a. 0" "0x1000"] by simp
  then show ?thesis
    using slow_device_responsive [of "0x2F8"] serial_write_line_sends [of slow_device "0x2F8" "store (\<lambda>a. 0) 0x1000 [111, 107, 0]" "0x1000" "[111, 107]"
      "\<lparr>serial_initialised = 1, serial_debug_port = 0x2F8, port_events = [], port_reads = 20\<rparr>"] by simp
qed

definition later :: "serial_state \<Rightarrow> serial_state \<Rightarrow> bool" where
  "later s s' \<longleftrightarrow> (\<exists>es. accessed es s s')"

lemma later_refl: "later s s"
  using accessed_refl by (auto simp: later_def)

lemma later_out: "later s t \<Longrightarrow> later s (uart_out port c t)"
  using accessed_trans accessed_out unfolding later_def by blast

lemma later_in: "later s t \<Longrightarrow> later s (snd (uart_in dev port t))"
  using accessed_trans accessed_in unfolding later_def by blast

lemma init_port_result:
  "fst (x86_serial_init_port dev port s) \<in> {E_SUCCESS, 1}" "later s (snd (x86_serial_init_port dev port s))"
  by (auto simp: x86_serial_init_port_def Let_def split_def intro!: later_out later_in later_refl)

text \<open>
  \<^verbatim>\<open>serial_init\<close> reports success whatever the ports answer: a port that fails its loopback test makes
  \<^verbatim>\<open>x86_serial_init_port\<close> return 1, which counts as success for the caller; the serial line is
  then used as initialised.
\<close>

lemma serial_init_run:
  "\<exists>s'. serial_init dev s = (E_SUCCESS, s') \<and> serial_initialised s' = 1 \<and> serial_debug_port s' = 0x2F8"
proof -
  let ?s = "s\<lparr>serial_debug_port := 0x2F8\<rparr>"
  obtain r1 s1 where 1: "x86_serial_init_port dev 0x3F8 ?s = (r1, s1)" "r1 \<in> {E_SUCCESS, 1}" "later ?s s1"
    using init_port_result(1) [of dev "0x3F8" ?s] init_port_result(2) [of ?s dev "0x3F8"] by (metis prod.collapse)
  obtain r2 s2 where 2: "x86_serial_init_port dev 0x2F8 s1 = (r2, s2)" "r2 \<in> {E_SUCCESS, 1}" "later s1 s2"
    using init_port_result(1) [of dev "0x2F8" s1] init_port_result(2) [of s1 dev "0x2F8"] by (metis prod.collapse)
  have "SUCCESS r1" "SUCCESS r2" using 1(2) 2(2) by (auto simp: SUCCESS_def rotary_const)
  moreover have "serial_debug_port s2 = 0x2F8" using 1(3) 2(3) by (auto simp: later_def accessed_def)
  ultimately show ?thesis using 1(1) 2(1)
    by (simp add: serial_init_def arch_serial_init_def serial_set_debug_port_def
        IO_PORT_SERIAL_COM1_def IO_PORT_SERIAL_COM2_def)
qed

end
