(* ===== verification/Simulation.thy ===== *)
theory Simulation
  imports Prelude
begin

text \<open>
  Sequences of operations on a state, each of which may fail, and simulation: when every operation that is
  allowed succeeds and follows an abstract operation, so does every allowed sequence.
\<close>

primrec run_ops :: "('l \<Rightarrow> 's \<Rightarrow> 's option) \<Rightarrow> 'l list \<Rightarrow> 's \<Rightarrow> 's option" where
  "run_ops step [] s = Some s"
| "run_ops step (l # ls) s = do { s1 \<leftarrow> step l s; run_ops step ls s1 }"

primrec allowed :: "('a \<Rightarrow> 'l \<Rightarrow> bool) \<Rightarrow> ('l \<Rightarrow> 'a \<Rightarrow> 'a) \<Rightarrow> 'a \<Rightarrow> 'l list \<Rightarrow> bool" where
  "allowed enabled astep a [] \<longleftrightarrow> True"
| "allowed enabled astep a (l # ls) \<longleftrightarrow> enabled a l \<and> allowed enabled astep (astep l a) ls"

lemma run_ops_append: "run_ops step (ls @ ms) s = do { s1 \<leftarrow> run_ops step ls s; run_ops step ms s1 }"
  by (induction ls arbitrary: s) (auto split: Option.bind_splits)

locale simulation =
  fixes step :: "'l \<Rightarrow> 's \<Rightarrow> 's option" and astep :: "'l \<Rightarrow> 'a \<Rightarrow> 'a" and enabled :: "'a \<Rightarrow> 'l \<Rightarrow> bool" and R :: "'a \<Rightarrow> 's \<Rightarrow> bool"
  assumes simulates: "R a s \<Longrightarrow> enabled a l \<Longrightarrow> \<exists>s'. step l s = Some s' \<and> R (astep l a) s'"
begin

lemma run_simulates:
  "R a s \<Longrightarrow> allowed enabled astep a ls \<Longrightarrow> \<exists>s'. run_ops step ls s = Some s' \<and> R (fold astep ls a) s'"
proof (induction ls arbitrary: a s)
  case (Cons l ls)
  then obtain s1 where "step l s = Some s1" "R (astep l a) s1" using simulates by fastforce
  then show ?case using Cons by fastforce
qed simp

end

text \<open>A static condition: every operation is allowed whatever the abstract state.\<close>

lemma allowed_always: "\<forall>l\<in>set ls. P l \<Longrightarrow> allowed (\<lambda>a. P) astep a ls"
  by (induction ls arbitrary: a) auto

end
