(* ===== verification/Console.thy ===== *)
theory Console
  imports KPrintf Vga Serial Simulation
begin

text \<open>
  Kernel messages: the macros of \<^verbatim>\<open>include/rotary/vga.h\<close> and \<^verbatim>\<open>include/rotary/logging.h\<close>, the routing of a
  message to the screen or the serial port (\<^verbatim>\<open>kernel/core/logging.c\<close>) and the panic screen
  (\<^verbatim>\<open>kernel/core/panic.c\<close>). Screen, stack buffers and strings are parts of one byte memory; the
  addresses of the local arrays are a record, those of string literals are arguments.
\<close>

section \<open>State and operations\<close>

record console =
  con_vga :: vga_state_t
  con_serial :: serial_state

text \<open>
  The local arrays: \<^verbatim>\<open>tmp\<close> of \<^verbatim>\<open>printk\<close>, those of \<^verbatim>\<open>_printk\<close>, \<^verbatim>\<open>tmp\<close> of \<^verbatim>\<open>vga_printf\<close>, and the two of
  \<^verbatim>\<open>sprintf\<close>.
\<close>

record printk_frame =
  log_tmp :: u32
  final_message :: u32
  vga_message :: u32
  final_tag :: u32
  vga_tmp :: u32
  fmt_num :: u32
  fmt_temp :: u32

definition LOG_TRACE :: u8 where [rotary_const]: "LOG_TRACE = 0"
definition LOG_DEBUG :: u8 where [rotary_const]: "LOG_DEBUG = 1"
definition LOG_INFO :: u8 where [rotary_const]: "LOG_INFO = 2"

definition vga_printf :: "printk_frame \<Rightarrow> u32 \<Rightarrow> u32 list \<Rightarrow> vga_state_t \<Rightarrow> vga_state_t option" where
  "vga_printf fr fmt_str args s = do {
     let m = snd (memset (vga_tmp fr) 0 512 (vmem s));
     (_, m1) \<leftarrow> sprintf (fmt_num fr) (fmt_temp fr) (vga_tmp fr) fmt_str args m;
     Some (vga_write (vga_tmp fr) (s\<lparr>vmem := m1\<rparr>))
   }"

definition vga_printf_pos :: "printk_frame \<Rightarrow> u32 \<Rightarrow> u32 \<Rightarrow> u32 \<Rightarrow> u32 list \<Rightarrow> vga_state_t \<Rightarrow> vga_state_t option" where
  "vga_printf_pos fr x y fmt_str args s = do {
     let m = snd (memset (vga_tmp fr) 0 512 (vmem s));
     (_, m1) \<leftarrow> sprintf (fmt_num fr) (fmt_temp fr) (vga_tmp fr) fmt_str args m;
     Some (vga_write (vga_tmp fr) (vga_set_cursor x y (s\<lparr>vmem := m1\<rparr>)))
   }"

text \<open>
  The two ways out of \<^verbatim>\<open>_printk\<close>, once the buffers are filled. The formatted message is itself used
  as the format of \<^verbatim>\<open>vga_printf\<close>, and the result of \<^verbatim>\<open>serial_write_line\<close> is dropped.
\<close>

definition printk_deliver :: "(nat \<Rightarrow> u16 \<Rightarrow> u8) \<Rightarrow> printk_frame \<Rightarrow> u8 \<Rightarrow> console \<Rightarrow> console option" where
  "printk_deliver dev fr level c = do {
     v1 \<leftarrow> (if level \<ge> LOG_INFO then vga_printf fr (vga_message fr) [] (con_vga c) else Some (con_vga c));
     s1 \<leftarrow> (if level \<le> LOG_DEBUG then do {
              (_, s1) \<leftarrow> serial_write_line dev (vmem v1) (serial_get_debug_port (con_serial c)) (final_message fr) (con_serial c);
              Some s1
            } else Some (con_serial c));
     Some \<lparr>con_vga = v1, con_serial = s1\<rparr>
   }"

text \<open>\<open>serial_fmt\<close> is the address of the literal \<^verbatim>\<open>"[%s] %s"\<close>.\<close>

definition printk_route ::
  "(nat \<Rightarrow> u16 \<Rightarrow> u8) \<Rightarrow> u32 \<Rightarrow> printk_frame \<Rightarrow> u8 \<Rightarrow> u32 \<Rightarrow> u32 \<Rightarrow> console \<Rightarrow> console option" where
  "printk_route dev serial_fmt fr level tag message c = do {
     let m1 = snd (memset (final_message fr) 0 512 (vmem (con_vga c)));
     let m2 = snd (memset (final_tag fr) 0 16 m1);
     let m3 = snd (memset (vga_message fr) 0 512 m2);
     (_, m4) \<leftarrow> sprintf (fmt_num fr) (fmt_temp fr) (final_message fr) serial_fmt [tag, message] m3;
     let m5 = snd (strncpy (vga_message fr) message (strlen m4 message + 1) m4);
     printk_deliver dev fr level (c\<lparr>con_vga := (con_vga c)\<lparr>vmem := m5\<rparr>\<rparr>)
   }"

text \<open>\<open>file\<close> is the address of the string \<^verbatim>\<open>__FILE__\<close>.\<close>

definition printk ::
  "(nat \<Rightarrow> u16 \<Rightarrow> u8) \<Rightarrow> u32 \<Rightarrow> printk_frame \<Rightarrow> u32 \<Rightarrow> u8 \<Rightarrow> u32 \<Rightarrow> u32 list \<Rightarrow> console \<Rightarrow> console option" where
  "printk dev serial_fmt fr file log_level fmt_str args c = do {
     let m = snd (memset (log_tmp fr) 0 512 (vmem (con_vga c)));
     (_, m1) \<leftarrow> sprintf (fmt_num fr) (fmt_temp fr) (log_tmp fr) fmt_str args m;
     printk_route dev serial_fmt fr log_level file (log_tmp fr) (c\<lparr>con_vga := (con_vga c)\<lparr>vmem := m1\<rparr>\<rparr>)
   }"

definition klog ::
  "(nat \<Rightarrow> u16 \<Rightarrow> u8) \<Rightarrow> u32 \<Rightarrow> printk_frame \<Rightarrow> u32 \<Rightarrow> u32 \<Rightarrow> u32 list \<Rightarrow> console \<Rightarrow> console option" where
  "klog dev serial_fmt fr file fmt_str args c = printk dev serial_fmt fr file LOG_DEBUG fmt_str args c"

text \<open>
  The screen a panic leaves: \<^verbatim>\<open>kernel_panic\<close> draws it and then loops for ever. \<open>lit\<close> gives the
  addresses of the literals: the rule, the title, the two explanations, and the three formats.
\<close>

definition kernel_panic_print_info :: "u32 \<Rightarrow> vga_state_t \<Rightarrow> vga_state_t" where
  "kernel_panic_print_info screen_y s = s"

definition kernel_panic ::
  "printk_frame \<Rightarrow> (nat \<Rightarrow> u32) \<Rightarrow> u32 \<Rightarrow> u32 \<Rightarrow> u32 \<Rightarrow> u8 \<Rightarrow> vga_state_t \<Rightarrow> vga_state_t option" where
  "kernel_panic fr lit message source_file source_func bugcheck s = do {
     let s0 = vga_clear_screen VGA_COLOUR_BLACK s;
     s1 \<leftarrow> vga_printf_pos fr 0 0 (lit 0) [] s0;
     s2 \<leftarrow> vga_printf_pos fr 0 1 (lit 1) [] s1;
     s3 \<leftarrow> vga_printf_pos fr 0 2 (lit 0) [] s2;
     s4 \<leftarrow> vga_printf_pos fr 0 4 (if bugcheck = 0 then lit 2 else lit 3) [] s3;
     s5 \<leftarrow> vga_printf_pos fr 0 6 (lit 4) [message] s4;
     s6 \<leftarrow> vga_printf_pos fr 0 8 (lit 5) [source_file] s5;
     s7 \<leftarrow> vga_printf_pos fr 0 9 (lit 6) [source_func] s6;
     Some (kernel_panic_print_info 10 s7)
   }"

section \<open>Where the buffers lie\<close>

fun apart :: "(u32 \<times> nat) list \<Rightarrow> bool" where
  "apart [] \<longleftrightarrow> True"
| "apart ((p, n) # bs) \<longleftrightarrow> (\<forall>(q, k)\<in>set bs. region p n \<inter> region q k = {}) \<and> apart bs"

definition printk_buffers :: "printk_frame \<Rightarrow> (u32 \<times> nat) list" where
  "printk_buffers fr = [(log_tmp fr, 512), (final_message fr, 512), (vga_message fr, 512), (final_tag fr, 16),
     (vga_tmp fr, 512), (fmt_num fr, 32), (fmt_temp fr, 9), (VGA_BUFFER, 4000)]"

definition frame_ok :: "printk_frame \<Rightarrow> bool" where
  "frame_ok fr \<longleftrightarrow> apart (printk_buffers fr)"

text \<open>A string that no message touches.\<close>

definition untouched :: "printk_frame \<Rightarrow> mem \<Rightarrow> u32 \<Rightarrow> u8 list \<Rightarrow> bool" where
  "untouched fr m p t \<longleftrightarrow> cstr m p t \<and> (\<forall>(q, k)\<in>set (printk_buffers fr). region p (Suc (length t)) \<inter> region q k = {})"

definition args_untouched :: "printk_frame \<Rightarrow> mem \<Rightarrow> farg list \<Rightarrow> bool" where
  "args_untouched fr m args \<longleftrightarrow> (\<forall>a t. Str a t \<in> set args \<longrightarrow> untouched fr m a t \<and> length t \<le> MAX_STRING_LEN)"

lemma frame_okD:
  assumes "frame_ok fr"
  shows "region (fmt_temp fr) 9 \<inter> region (fmt_num fr) 32 = {}"
    "d \<in> {log_tmp fr, final_message fr, vga_message fr, vga_tmp fr} \<Longrightarrow>
       region d 512 \<inter> scratch (fmt_num fr) (fmt_temp fr) = {} \<and> region d 512 \<inter> screen_region = {}"
    "scratch (fmt_num fr) (fmt_temp fr) \<inter> screen_region = {}"
    "region (final_tag fr) 16 \<inter> screen_region = {}"
    "d \<in> {log_tmp fr, final_message fr} \<Longrightarrow> region d 512 \<inter> region (vga_message fr) 512 = {}"
    "region (log_tmp fr) 512 \<inter> region (final_message fr) 512 = {}"
    "d \<in> {log_tmp fr, final_message fr, vga_message fr} \<Longrightarrow> region d 512 \<inter> region (vga_tmp fr) 512 = {}"
    "region (log_tmp fr) 512 \<inter> region (final_tag fr) 16 = {}"
  using assms by (auto simp: frame_ok_def printk_buffers_def scratch_def screen_region_def)

lemma untouchedD:
  assumes "untouched fr m p t"
  shows "cstr m p t"
    "d \<in> {log_tmp fr, final_message fr, vga_message fr, vga_tmp fr} \<Longrightarrow> region p (Suc (length t)) \<inter> region d 512 = {}"
    "region p (Suc (length t)) \<inter> scratch (fmt_num fr) (fmt_temp fr) = {}"
    "region p (Suc (length t)) \<inter> region (final_tag fr) 16 = {}"
  using assms by (auto simp: untouched_def printk_buffers_def scratch_def)

section \<open>Formatting into a cleared buffer\<close>

lemma memset512: "snd (memset p 0 512 m) = store m p (replicate 512 0)"
  by (simp add: memset_store)

lemma agree_memset: "agree (region p 512) m (store m p (replicate 512 0))"
  by (simp add: agree_def store_outside)

lemma layout_cleared:
  "layout m num temp dest fs f 512 \<Longrightarrow> layout (store m dest (replicate 512 0)) num temp dest fs f 512"
  using cstr_agree [OF _ agree_memset, of m fs f dest] unfolding layout_def by auto

lemma sprintf_cleared:
  assumes "render f args = Some out" "0 \<notin> set out" "length out < 512"
    and "layout m num temp dest fs f 512" and "args_at m num temp dest 512 args"
  shows "\<exists>m'. sprintf num temp dest fs (map raw args) (snd (memset dest 0 512 m)) = Some (of_nat (length out), m') \<and>
    cstr m' dest out \<and> agree (region dest 512 \<union> scratch num temp) m m'"
proof -
  let ?m = "store m dest (replicate 512 0)"
  have "args_at ?m num temp dest 512 args"
    using assms(5) cstr_agree [OF _ agree_memset, of m _ _ dest] unfolding args_at_def by blast
  then obtain m' where m': "sprintf num temp dest fs (map raw args) ?m = Some (of_nat (length out), m')" "cstr m' dest out"
    "agree (region dest 512 \<union> scratch num temp) ?m m'"
    using sprintf_buffer [OF assms(1-3) layout_cleared [OF assms(4)]] by blast
  have "agree (region dest 512 \<union> scratch num temp) m m'"
    by (rule agree_trans [OF agree_mono [OF agree_memset] m'(3)]) auto
  then show ?thesis using m'(1,2) by (simp only: memset512) blast
qed

section \<open>Text on the screen\<close>

lemma glyph_agree: "agree S (vmem s) m \<Longrightarrow> S \<inter> screen_region = {} \<Longrightarrow> x < 80 \<Longrightarrow> y < 25 \<Longrightarrow> glyph (s\<lparr>vmem := m\<rparr>) x y = glyph s x y"
  using pos_in_screen [of x y] by (auto simp: glyph_def agree_def)

lemma shows_text_agree:
  assumes "shows_text t x y (s\<lparr>vmem := m\<rparr>) s'" and "agree S (vmem s) m" "S \<inter> screen_region = {}"
  shows "shows_text t x y s s'"
  using assms(1) glyph_agree [OF assms(2,3)] by (simp add: shows_text_def)

text \<open>Plain text that fits on the line of the cursor.\<close>

definition fits :: "u8 list \<Rightarrow> nat \<Rightarrow> nat \<Rightarrow> vga_state_t \<Rightarrow> bool" where
  "fits t x y s \<longleftrightarrow> set t \<inter> {10, 11, 12, 13} = {} \<and> x + length t \<le> 80 \<and> y < 25 \<and>
     cursor_x s = of_nat x \<and> cursor_y s = of_nat y"

lemma fits_cursor: "fits t x y s \<Longrightarrow> cursor_ok s"
  by (auto simp: fits_def cursor_ok_def unat_of_nat)

lemma write_agree: "cursor_ok s \<Longrightarrow> agree screen_region (vmem s) (vmem (vga_write str s))"
  using prints_to_fold [OF print_char_prints, of s "\<lambda>i s. vmem s (str + of_nat i)" "[0..<unat (strlen (vmem s) str)]"]
  by (simp add: vga_write_def Let_def prints_to_def agree_def)

lemma vga_printf_shows:
  assumes "frame_ok fr" and "render f args = Some out" "0 \<notin> set out" and fit: "fits out x y s"
    and "layout (vmem s) (fmt_num fr) (fmt_temp fr) (vga_tmp fr) fs f 512"
    and "args_at (vmem s) (fmt_num fr) (fmt_temp fr) (vga_tmp fr) 512 args"
  shows "\<exists>s'. vga_printf fr fs (map raw args) s = Some s' \<and> shows_text out x y s s' \<and>
    agree (region (vga_tmp fr) 512 \<union> scratch (fmt_num fr) (fmt_temp fr) \<union> screen_region) (vmem s) (vmem s')"
proof -
  let ?S = "region (vga_tmp fr) 512 \<union> scratch (fmt_num fr) (fmt_temp fr)"
  have len: "length out < 512" using fit by (simp add: fits_def)
  obtain m' where m': "sprintf (fmt_num fr) (fmt_temp fr) (vga_tmp fr) fs (map raw args) (snd (memset (vga_tmp fr) 0 512 (vmem s))) =
      Some (of_nat (length out), m')" "cstr m' (vga_tmp fr) out" "agree ?S (vmem s) m'"
    using sprintf_cleared [OF assms(2,3) len assms(5,6)] by blast
  note d = frame_okD [OF assms(1)]
  have out: "vga_tmp fr + of_nat i \<notin> screen_region" if "i < length out" for i
    using region_at [of i 512 "vga_tmp fr"] d(2) [of "vga_tmp fr"] that len by auto
  have "shows_text out x y (s\<lparr>vmem := m'\<rparr>) (vga_write (vga_tmp fr) (s\<lparr>vmem := m'\<rparr>))"
    using fit m'(2) out by (intro write_shows) (simp_all add: fits_def)
  then have "shows_text out x y s (vga_write (vga_tmp fr) (s\<lparr>vmem := m'\<rparr>))"
    by (rule shows_text_agree [OF _ m'(3)]) (use d(2) [of "vga_tmp fr"] d(3) in auto)
  moreover have "agree screen_region m' (vmem (vga_write (vga_tmp fr) (s\<lparr>vmem := m'\<rparr>)))"
    using write_agree [of "s\<lparr>vmem := m'\<rparr>"] fits_cursor [OF fit] by (simp add: cursor_ok_def)
  then have "agree (?S \<union> screen_region) (vmem s) (vmem (vga_write (vga_tmp fr) (s\<lparr>vmem := m'\<rparr>)))"
    by (intro agree_trans [OF agree_mono [OF m'(3)] agree_mono]) blast+
  ultimately show ?thesis using m'(1) by (simp add: vga_printf_def)
qed

section \<open>Routing a message\<close>

definition serial_text :: "u8 list \<Rightarrow> u8 list \<Rightarrow> u8 list" where
  "serial_text tag t = 91 # tag @ [93, 32] @ t"

lemma render_serial_text: "render [91, 37, 115, 93, 32, 37, 115] [Str a tag, Str b t] = Some (serial_text tag t)"
  by (simp add: serial_text_def conversion_def is_digit_def padding_of_def pad_def)

text \<open>Memory once both copies of the message are formatted.\<close>

lemma printk_format:
  assumes "frame_ok fr" and fmt: "untouched fr m sf [91, 37, 115, 93, 32, 37, 115]" and tag: "untouched fr m tg tag" "length tag \<le> MAX_STRING_LEN"
    and msg: "cstr m (log_tmp fr) t" and len: "length (serial_text tag t) < 512"
    and m3: "m3 = snd (memset (vga_message fr) 0 512 (snd (memset (final_tag fr) 0 16 (snd (memset (final_message fr) 0 512 m)))))"
  shows "\<exists>m4. sprintf (fmt_num fr) (fmt_temp fr) (final_message fr) sf [tg, log_tmp fr] m3 = Some (of_nat (length (serial_text tag t)), m4) \<and>
    (\<exists>m5. snd (strncpy (vga_message fr) (log_tmp fr) (strlen m4 (log_tmp fr) + 1) m4) = m5 \<and> cstr m5 (vga_message fr) t \<and>
      cstr m5 (final_message fr) (serial_text tag t) \<and>
      agree (region (final_message fr) 512 \<union> region (final_tag fr) 16 \<union> region (vga_message fr) 512 \<union> scratch (fmt_num fr) (fmt_temp fr)) m m5)"
proof -
  note d = frame_okD [OF assms(1)]
  let ?B = "region (final_message fr) 512 \<union> region (final_tag fr) 16 \<union> region (vga_message fr) 512"
  let ?S = "scratch (fmt_num fr) (fmt_temp fr)"
  have lt: "length t < 512" "length tag < 512" using len by (simp_all add: serial_text_def)
  have tag0: "0 \<notin> set tag" "0 \<notin> set t" using untouchedD(1) [OF tag(1)] msg by (auto simp: cstr_def in_set_conv_nth)
  have a3: "agree ?B m m3" unfolding m3 memset_store by (auto simp: agree_def store_outside)
  have sub: "region (log_tmp fr) (Suc (length t)) \<subseteq> region (log_tmp fr) 512" using lt by (intro region_subset) simp
  have msg3: "cstr m3 (log_tmp fr) t"
    using d(5) [of "log_tmp fr"] d(6,8) sub by (intro cstr_agree [OF msg a3]) auto
  have tag3: "cstr m3 tg tag"
    using untouchedD(2) [OF tag(1), of "final_message fr"] untouchedD(2) [OF tag(1), of "vga_message fr"] untouchedD(4) [OF tag(1)]
    by (intro cstr_agree [OF untouchedD(1) [OF tag(1)] a3]) auto
  have fmt3: "cstr m3 sf [91, 37, 115, 93, 32, 37, 115]"
    using untouchedD(2) [OF fmt, of "final_message fr"] untouchedD(2) [OF fmt, of "vga_message fr"] untouchedD(4) [OF fmt]
    by (intro cstr_agree [OF untouchedD(1) [OF fmt] a3]) auto
  have "layout m3 (fmt_num fr) (fmt_temp fr) (final_message fr) sf [91, 37, 115, 93, 32, 37, 115] 512"
    using fmt3 untouchedD(2,3) [OF fmt] d(1,2) unfolding layout_def by auto
  moreover have "args_at m3 (fmt_num fr) (fmt_temp fr) (final_message fr) 512 [Str tg tag, Str (log_tmp fr) t]"
    using tag3 msg3 tag(2) lt untouchedD(2) [OF tag(1), of "final_message fr"] untouchedD(3) [OF tag(1)]
      d(2) [of "log_tmp fr"] d(6) sub unfolding args_at_def by (auto simp: MAX_STRING_LEN_def)
  moreover have "0 \<notin> set (serial_text tag t)" using tag0 by (auto simp: serial_text_def)
  ultimately obtain m4 where m4: "sprintf (fmt_num fr) (fmt_temp fr) (final_message fr) sf (map raw [Str tg tag, Str (log_tmp fr) t]) m3 =
      Some (of_nat (length (serial_text tag t)), m4)" "cstr m4 (final_message fr) (serial_text tag t)"
    "agree (region (final_message fr) 512 \<union> ?S) m3 m4"
    using sprintf_buffer [OF render_serial_text _ len] by blast
  have msg4: "cstr m4 (log_tmp fr) t"
    using d(2) [of "log_tmp fr"] d(6) sub by (intro cstr_agree [OF msg3 m4(3)]) auto
  then have n: "unat (strlen m4 (log_tmp fr) + 1) = Suc (length t)"
    using lt by (simp add: strlen_at min_absorb1 MAX_STRING_LEN_def unat_word_ariths unat_of_nat)
  have vsub: "region (vga_message fr) (Suc (length t)) \<subseteq> region (vga_message fr) 512" using lt by (intro region_subset) simp
  have dj: "region (log_tmp fr) (Suc (length t)) \<inter> region (vga_message fr) (Suc (length t)) = {}"
    using d(5) [of "log_tmp fr"] sub vsub by blast
  let ?m5 = "store m4 (vga_message fr) (t @ [0])"
  have "snd (strncpy (vga_message fr) (log_tmp fr) (strlen m4 (log_tmp fr) + 1) m4) = ?m5"
    using strncpy_store [OF msg4, of "vga_message fr" "strlen m4 (log_tmp fr) + 1"] dj n by simp
  moreover have "cstr ?m5 (vga_message fr) t" using lt tag0 by (intro cstr_store) simp_all
  moreover have "region (final_message fr) (Suc (length (serial_text tag t))) \<subseteq> region (final_message fr) 512"
    using len by (intro region_subset) simp
  then have "cstr ?m5 (final_message fr) (serial_text tag t)"
    using d(5) [of "final_message fr"] vsub by (intro cstr_frame [OF m4(2)]) auto
  moreover have "agree (?B \<union> ?S) m4 ?m5" using vsub by (auto simp: agree_def intro!: store_outside)
  then have "agree (?B \<union> ?S) m ?m5"
    using agree_trans [OF agree_trans [OF agree_mono [OF a3] agree_mono [OF m4(3)]]] by blast
  ultimately show ?thesis using m4(1) by auto
qed

text \<open>
  A message that can be formatted: buffers and strings lie apart, and the text for the serial port,
  which is the longer one, fits its buffer.
\<close>

definition message_ok :: "printk_frame \<Rightarrow> mem \<Rightarrow> u32 \<Rightarrow> u32 \<Rightarrow> u8 list \<Rightarrow> u32 \<Rightarrow> u8 list \<Rightarrow> farg list \<Rightarrow> u8 list \<Rightarrow> bool" where
  "message_ok fr m sf file tag fs f args out \<longleftrightarrow> frame_ok fr \<and> untouched fr m sf [91, 37, 115, 93, 32, 37, 115] \<and>
     untouched fr m file tag \<and> untouched fr m fs f \<and> args_untouched fr m args \<and>
     render f args = Some out \<and> 0 \<notin> set out \<and> length (serial_text tag out) < 512"

definition written :: "printk_frame \<Rightarrow> u32 set" where
  "written fr = region (log_tmp fr) 512 \<union> region (final_message fr) 512 \<union> region (final_tag fr) 16 \<union>
     region (vga_message fr) 512 \<union> scratch (fmt_num fr) (fmt_temp fr)"

lemma written_screen: "frame_ok fr \<Longrightarrow> written fr \<inter> screen_region = {}"
  using frame_okD(2-4) [of fr] unfolding written_def by blast

lemma layout_untouched:
  assumes "frame_ok fr" "untouched fr m fs f" "d \<in> {log_tmp fr, final_message fr, vga_message fr, vga_tmp fr}"
  shows "layout m (fmt_num fr) (fmt_temp fr) d fs f 512"
  using frame_okD(1) [OF assms(1)] frame_okD(2) [OF assms(1,3)] untouchedD(1,3) [OF assms(2)] untouchedD(2) [OF assms(2,3)]
  unfolding layout_def by auto

lemma layout_message:
  assumes "frame_ok fr" "cstr m (vga_message fr) out" "length out < 512"
  shows "layout m (fmt_num fr) (fmt_temp fr) (vga_tmp fr) (vga_message fr) out 512"
proof -
  have "region (vga_message fr) (Suc (length out)) \<subseteq> region (vga_message fr) 512" using assms(3) by (intro region_subset) simp
  then show ?thesis
    using assms(2) frame_okD(1) [OF assms(1)] frame_okD(2,7) [OF assms(1), of "vga_message fr"] frame_okD(2) [OF assms(1), of "vga_tmp fr"]
    unfolding layout_def by auto
qed

lemma untouched_agree:
  assumes "untouched fr m p t" "agree (region (log_tmp fr) 512 \<union> scratch (fmt_num fr) (fmt_temp fr)) m m'"
  shows "untouched fr m' p t"
  using assms(1) cstr_agree [OF untouchedD(1) [OF assms(1)] assms(2)] untouchedD(2) [OF assms(1), of "log_tmp fr"] untouchedD(3) [OF assms(1)]
  unfolding untouched_def by blast

lemma printk_prepared:
  assumes "message_ok fr (vmem (con_vga c)) sf file tag fs f args out"
  shows "\<exists>m. printk dev sf fr file level fs (map raw args) c = printk_deliver dev fr level (c\<lparr>con_vga := (con_vga c)\<lparr>vmem := m\<rparr>\<rparr>) \<and>
    cstr m (vga_message fr) out \<and> cstr m (final_message fr) (serial_text tag out) \<and> agree (written fr) (vmem (con_vga c)) m"
proof -
  let ?m = "vmem (con_vga c)" and ?S = "scratch (fmt_num fr) (fmt_temp fr)"
  have ok: "frame_ok fr" "untouched fr ?m sf [91, 37, 115, 93, 32, 37, 115]" "untouched fr ?m file tag" "untouched fr ?m fs f"
    "args_untouched fr ?m args" "render f args = Some out" "0 \<notin> set out" "length (serial_text tag out) < 512"
    using assms by (auto simp: message_ok_def)
  have len: "length out < 512" "length tag \<le> MAX_STRING_LEN" using ok(8) by (simp_all add: serial_text_def MAX_STRING_LEN_def)
  have "args_at ?m (fmt_num fr) (fmt_temp fr) (log_tmp fr) 512 args"
    using ok(5) unfolding args_at_def args_untouched_def by (fastforce dest: untouchedD)
  then obtain m1 where m1: "sprintf (fmt_num fr) (fmt_temp fr) (log_tmp fr) fs (map raw args) (snd (memset (log_tmp fr) 0 512 ?m)) =
      Some (of_nat (length out), m1)" "cstr m1 (log_tmp fr) out" "agree (region (log_tmp fr) 512 \<union> ?S) ?m m1"
    using sprintf_cleared [OF ok(6,7) len(1) layout_untouched [OF ok(1,4)]] by blast
  from printk_format [OF ok(1) untouched_agree [OF ok(2) m1(3)] untouched_agree [OF ok(3) m1(3)] len(2) m1(2) ok(8) refl]
  obtain m4 m5 where m5: "sprintf (fmt_num fr) (fmt_temp fr) (final_message fr) sf [file, log_tmp fr]
      (snd (memset (vga_message fr) 0 512 (snd (memset (final_tag fr) 0 16 (snd (memset (final_message fr) 0 512 m1)))))) =
        Some (of_nat (length (serial_text tag out)), m4)"
    "snd (strncpy (vga_message fr) (log_tmp fr) (strlen m4 (log_tmp fr) + 1) m4) = m5" "cstr m5 (vga_message fr) out"
    "cstr m5 (final_message fr) (serial_text tag out)"
    "agree (region (final_message fr) 512 \<union> region (final_tag fr) 16 \<union> region (vga_message fr) 512 \<union> ?S) m1 m5" by blast
  have "printk dev sf fr file level fs (map raw args) c = printk_deliver dev fr level (c\<lparr>con_vga := (con_vga c)\<lparr>vmem := m5\<rparr>\<rparr>)"
    using m1(1) m5(1,2) by (simp add: printk_def printk_route_def)
  moreover have "agree (written fr) ?m m5"
    by (rule agree_trans [OF agree_mono [OF m1(3)] agree_mono [OF m5(5)]]) (auto simp: written_def)
  ultimately show ?thesis using m5(3,4) by blast
qed

section \<open>A format without its argument\<close>

lemma sprintf_loop_plain:
  assumes "cstr m fs f" "37 \<notin> set (take k f)" "k \<le> length f"
  shows "i \<le> k \<Longrightarrow> sprintf_loop num temp dest fs (of_nat i) p di args m = sprintf_loop num temp dest fs (of_nat k) p di args m"
proof (induction "k - i" arbitrary: i)
  case (Suc d)
  then have i: "i < k" by linarith
  then have "f ! i \<in> set (take k f)" using assms(3) by (metis in_set_conv_nth length_take min.absorb2 nth_take)
  then have "m (fs + of_nat i) \<noteq> 0" "m (fs + of_nat i) \<noteq> 37" using assms i by (auto simp: cstr_def)
  then have "sprintf_loop num temp dest fs (of_nat i) p di args m = sprintf_loop num temp dest fs (of_nat (Suc i)) p di args m"
    by (subst sprintf_loop.simps) (simp add: add.commute)
  also have "\<dots> = sprintf_loop num temp dest fs (of_nat k) p di args m" using Suc.hyps(2) i by (intro Suc.hyps(1)) auto
  finally show ?case .
qed simp

lemma conversion_no_digit: "conversion c \<Longrightarrow> \<not> is_digit c"
  by (auto simp: conversion_def is_digit_def)

lemma sprintf_no_argument:
  assumes "layout m num temp dest fs (u @ [37, c] @ v) n" "length u \<le> n" "37 \<notin> set u" "conversion c"
  shows "sprintf num temp dest fs [] m = None"
proof -
  let ?f = "u @ [37, c] @ v" and ?i = "of_nat (length u) :: u32" and ?m1 = "snd (memset num 0 32 m)"
  have f: "cstr m fs ?f" using assms(1) by (simp add: layout_def)
  have at: "m' (fs + ?i) = 37" "m' (fs + (?i + 1)) = c" if "cstr m' fs ?f" for m'
  proof -
    have "\<forall>k<length ?f. m' (fs + of_nat k) = ?f ! k" using that by (simp add: cstr_def)
    from spec [OF this, of "length u"] spec [OF this, of "Suc (length u)"]
    show "m' (fs + ?i) = 37" "m' (fs + (?i + 1)) = c" by (simp_all add: nth_append add.commute)
  qed
  have "agree (scratch num temp) (store m dest []) ?m1"
    by (auto simp: memset_store agree_def scratch_def intro!: store_outside)
  from literal_step [OF assms(1) this, of 0 "length u"] assms(2) obtain m2 where
    m2: "copy_literal dest fs ?i 0 0 ?m1 = (?i, ?i, m2)" "agree (scratch num temp) (store m dest u) m2" by auto
  have "cstr m2 fs ?f" by (rule format_kept [OF assms(1) m2(2) assms(2)])
  note c = at(2) [OF this]
  have pad: "parse_padding m2 fs (?i + 1) 0 = Some (?i + 1, 0)"
    using conversion_no_digit [OF assms(4)] c by (subst parse_padding.simps) (auto simp: is_digit_def)
  have "sprintf_loop num temp dest fs ?i 0 0 [] m = None"
    using at(1) [OF f] m2(1) pad c assms(4) by (subst sprintf_loop.simps) (simp add: convert_def conversion_def)
  moreover have "sprintf_loop num temp dest fs (of_nat 0) 0 0 [] m = sprintf_loop num temp dest fs ?i 0 0 [] m"
    using assms(3) by (intro sprintf_loop_plain [OF f]) simp_all
  ultimately show ?thesis by (simp add: sprintf_def)
qed

section \<open>A sample message\<close>

text \<open>The format \<^verbatim>\<open>CPU %d\<close> and the file name \<^verbatim>\<open>a.c\<close>, and a format \<^verbatim>\<open>%s\<close> with the argument \<^verbatim>\<open>5%d\<close>.\<close>

definition sample_frame :: printk_frame where
  "sample_frame = \<lparr>log_tmp = 0x2000, final_message = 0x2200, vga_message = 0x2400, final_tag = 0x2600, vga_tmp = 0x2610,
     fmt_num = 0x2810, fmt_temp = 0x2830\<rparr>"

definition sample_memory :: mem where
  "sample_memory = store (store (store (store (store (\<lambda>a. 0) 0x1000 ([91, 37, 115, 93, 32, 37, 115] @ [0])) 0x1010 ([97, 46, 99] @ [0]))
     0x1020 ([67, 80, 85, 32, 37, 100] @ [0])) 0x1030 ([37, 115] @ [0])) 0x1040 ([53, 37, 100] @ [0])"

definition sample_messages :: console where
  "sample_messages = \<lparr>con_vga = \<lparr>cursor_x = 10, cursor_y = 24, vga_enabled = 1, current_fg_colour = 7, vmem = sample_memory, crtc_log = []\<rparr>,
     con_serial = \<lparr>serial_initialised = 1, serial_debug_port = 0x2F8, port_events = [], port_reads = 0\<rparr>\<rparr>"

lemma sample_frame_ok: "frame_ok sample_frame"
  unfolding frame_ok_def printk_buffers_def sample_frame_def VGA_BUFFER_def
  by (simp add: region_apart)

lemma sample_strings:
  "cstr sample_memory 0x1000 [91, 37, 115, 93, 32, 37, 115]" "cstr sample_memory 0x1010 [97, 46, 99]"
  "cstr sample_memory 0x1020 [67, 80, 85, 32, 37, 100]" "cstr sample_memory 0x1030 [37, 115]" "cstr sample_memory 0x1040 [53, 37, 100]"
  unfolding sample_memory_def by (intro cstr_frame cstr_store; simp add: region_apart)+

lemma sample_untouched:
  assumes "cstr sample_memory p t" "unat p + Suc (length t) \<le> 0x2000"
  shows "untouched sample_frame sample_memory p t"
  using assms unfolding untouched_def printk_buffers_def sample_frame_def VGA_BUFFER_def
  by (simp add: region_apart)

lemma sample_message_ok:
  "message_ok sample_frame sample_memory 0x1000 0x1010 [97, 46, 99] 0x1020 [67, 80, 85, 32, 37, 100] [Num 3] [67, 80, 85, 32, 51]"
  "message_ok sample_frame sample_memory 0x1000 0x1010 [97, 46, 99] 0x1030 [37, 115] [Str 0x1040 [53, 37, 100]] [53, 37, 100]"
proof -
  have "render [67, 80, 85, 32, 37, 100] [Num 3] = Some [67, 80, 85, 32, 51]" by code_simp
  then show "message_ok sample_frame sample_memory 0x1000 0x1010 [97, 46, 99] 0x1020 [67, 80, 85, 32, 37, 100] [Num 3] [67, 80, 85, 32, 51]"
    unfolding message_ok_def by (simp add: sample_frame_ok sample_strings sample_untouched args_untouched_def serial_text_def)
  have "render [37, 115] [Str 0x1040 [53, 37, 100]] = Some [53, 37, 100]" by code_simp
  then show "message_ok sample_frame sample_memory 0x1000 0x1010 [97, 46, 99] 0x1030 [37, 115] [Str 0x1040 [53, 37, 100]] [53, 37, 100]"
    unfolding message_ok_def by (simp add: sample_frame_ok sample_strings sample_untouched args_untouched_def serial_text_def MAX_STRING_LEN_def)
qed

section \<open>Properties\<close>

text \<open>
  C31: A message of level \<^verbatim>\<open>LOG_INFO\<close> appears on the screen: when the formatted text has no percent sign,
  is plain and fits on the line of the cursor, \<^verbatim>\<open>printk\<close> returns, the text is shown from the cursor
  on and nothing else on the screen changes; nothing is sent to the serial port.
\<close>

theorem printk_shows:
  assumes "message_ok fr (vmem (con_vga c)) sf file tag fs f args out"
    and "37 \<notin> set out" "fits out x y (con_vga c)" "LOG_INFO \<le> level"
  shows "\<exists>c'. printk dev sf fr file level fs (map raw args) c = Some c' \<and>
    shows_text out x y (con_vga c) (con_vga c') \<and> con_serial c' = con_serial c"
proof -
  obtain m where m: "printk dev sf fr file level fs (map raw args) c = printk_deliver dev fr level (c\<lparr>con_vga := (con_vga c)\<lparr>vmem := m\<rparr>\<rparr>)"
    "cstr m (vga_message fr) out" "agree (written fr) (vmem (con_vga c)) m"
    using printk_prepared [OF assms(1)] by blast
  have ok: "frame_ok fr" "0 \<notin> set out" "length out < 512" using assms(1) by (auto simp: message_ok_def serial_text_def)
  have "layout m (fmt_num fr) (fmt_temp fr) (vga_tmp fr) (vga_message fr) out 512" by (rule layout_message [OF ok(1) m(2) ok(3)])
  moreover have "fits out x y ((con_vga c)\<lparr>vmem := m\<rparr>)" using assms(3) by (simp add: fits_def)
  ultimately obtain v where v: "vga_printf fr (vga_message fr) [] ((con_vga c)\<lparr>vmem := m\<rparr>) = Some v"
    "shows_text out x y ((con_vga c)\<lparr>vmem := m\<rparr>) v"
    using vga_printf_shows [OF ok(1) render_plain [OF assms(2), of "[]"] ok(2)] by (fastforce simp: args_at_def)
  have "\<not> level \<le> LOG_DEBUG" using assms(4) by (auto simp: rotary_const word_le_nat_alt)
  then have "printk dev sf fr file level fs (map raw args) c = Some \<lparr>con_vga = v, con_serial = con_serial c\<rparr>"
    using m(1) v(1) assms(4) by (simp add: printk_deliver_def)
  moreover have "shows_text out x y (con_vga c) v"
    by (rule shows_text_agree [OF v(2) m(3)]) (rule written_screen [OF ok(1)])
  ultimately show ?thesis by auto
qed

theorem printk_shows_witness:
  "\<exists>c'. printk slow_device 0x1000 sample_frame 0x1010 LOG_INFO 0x1020 (map raw [Num 3]) sample_messages = Some c' \<and>
    shows_text [67, 80, 85, 32, 51] 10 24 (con_vga sample_messages) (con_vga c') \<and> con_serial c' = con_serial sample_messages"
proof (rule printk_shows)
  show "message_ok sample_frame (vmem (con_vga sample_messages)) 0x1000 0x1010 [97, 46, 99] 0x1020 [67, 80, 85, 32, 37, 100] [Num 3] [67, 80, 85, 32, 51]"
    using sample_message_ok(1) by (simp add: sample_messages_def)
qed (simp_all add: fits_def sample_messages_def)

text \<open>A call of \<^verbatim>\<open>klog\<close>: address and text of the format, arguments, and the text they make.\<close>

record log_message =
  lm_format :: u32
  lm_text :: "u8 list"
  lm_args :: "farg list"
  lm_out :: "u8 list"

definition log_step ::
  "(nat \<Rightarrow> u16 \<Rightarrow> u8) \<Rightarrow> u32 \<Rightarrow> printk_frame \<Rightarrow> u32 \<Rightarrow> log_message \<Rightarrow> console \<Rightarrow> console option" where
  "log_step dev sf fr file l c = klog dev sf fr file (lm_format l) (map raw (lm_args l)) c"

definition log_ok :: "printk_frame \<Rightarrow> mem \<Rightarrow> u32 \<Rightarrow> u32 \<Rightarrow> u8 list \<Rightarrow> log_message \<Rightarrow> bool" where
  "log_ok fr m sf file tag l \<longleftrightarrow> message_ok fr m sf file tag (lm_format l) (lm_text l) (lm_args l) (lm_out l)"

text \<open>\<open>logged c0 t c\<close>: since \<open>c0\<close> the bytes \<open>t\<close> have been sent and nothing else has happened outside the buffers.\<close>

definition logged :: "(nat \<Rightarrow> u16 \<Rightarrow> u8) \<Rightarrow> printk_frame \<Rightarrow> console \<Rightarrow> u8 list \<Rightarrow> console \<Rightarrow> bool" where
  "logged dev fr c0 t c \<longleftrightarrow> serial_initialised (con_serial c) \<noteq> 0 \<and> serial_debug_port (con_serial c) = serial_debug_port (con_serial c0) \<and>
     responsive dev (serial_debug_port (con_serial c0)) \<and>
     (\<exists>es. port_events (con_serial c) = port_events (con_serial c0) @ es \<and> sent (serial_debug_port (con_serial c0)) t es) \<and>
     agree (written fr) (vmem (con_vga c0)) (vmem (con_vga c)) \<and> con_vga c = (con_vga c0)\<lparr>vmem := vmem (con_vga c)\<rparr>"

lemma sent_append: "sent p t es \<Longrightarrow> sent p u fs \<Longrightarrow> sent p (t @ u) (es @ fs)"
proof (induction t arbitrary: es)
  case (Cons c t)
  then obtain bs b gs where "es = map (In (ucast (p + 5))) bs @ [In (ucast (p + 5)) b, Out (ucast p) c] @ gs"
    "\<forall>b\<in>set bs. \<not> ready b" "ready b" "sent p t gs" by auto
  then show ?case using Cons.IH [of gs] Cons.prems(2)
    by (simp only: append_Cons sent.simps) (intro exI [of _ bs] exI [of _ b] exI [of _ "gs @ fs"], simp)
qed simp

lemma untouched_written: "untouched fr m p t \<Longrightarrow> agree (written fr) m m' \<Longrightarrow> untouched fr m' p t"
  using cstr_agree [of m p t "written fr" m'] unfolding untouched_def written_def printk_buffers_def scratch_def
  by (auto simp: Int_Un_distrib)

lemma message_written: "message_ok fr m sf file tag fs f args out \<Longrightarrow> agree (written fr) m m' \<Longrightarrow> message_ok fr m' sf file tag fs f args out"
  unfolding message_ok_def args_untouched_def using untouched_written by blast

lemma klog_run:
  assumes "message_ok fr (vmem (con_vga c)) sf file tag fs f args out"
    and "serial_initialised (con_serial c) \<noteq> 0" "responsive dev (serial_debug_port (con_serial c))"
  shows "\<exists>m s es. klog dev sf fr file fs (map raw args) c = Some \<lparr>con_vga = (con_vga c)\<lparr>vmem := m\<rparr>, con_serial = s\<rparr> \<and>
    accessed es (con_serial c) s \<and> sent (serial_debug_port (con_serial c)) (serial_text tag out) es \<and> agree (written fr) (vmem (con_vga c)) m"
proof -
  obtain m where m: "klog dev sf fr file fs (map raw args) c = printk_deliver dev fr LOG_DEBUG (c\<lparr>con_vga := (con_vga c)\<lparr>vmem := m\<rparr>\<rparr>)"
    "cstr m (final_message fr) (serial_text tag out)" "agree (written fr) (vmem (con_vga c)) m"
    using printk_prepared [OF assms(1)] unfolding klog_def by blast
  obtain es s where s: "arch_serial_write_line dev m (serial_debug_port (con_serial c)) (final_message fr) (con_serial c) = Some (E_SUCCESS, s)"
    "sent (serial_debug_port (con_serial c)) (serial_text tag out) es" "accessed es (con_serial c) s"
    using write_line_sends [OF assms(3) m(2)] by blast
  have "\<not> LOG_INFO \<le> LOG_DEBUG" by (simp add: rotary_const word_le_nat_alt)
  then have "klog dev sf fr file fs (map raw args) c = Some \<lparr>con_vga = (con_vga c)\<lparr>vmem := m\<rparr>, con_serial = s\<rparr>"
    using m(1) s(1) assms(2) by (simp add: printk_deliver_def serial_write_line_def serial_get_debug_port_def)
  then show ?thesis using s(2,3) m(3) by blast
qed

interpretation log: simulation "log_step dev sf fr fname" "\<lambda>l t. t @ serial_text tag (lm_out l)"
  "\<lambda>t. log_ok fr (vmem (con_vga c0)) sf fname tag" "logged dev fr c0" for dev sf fr fname tag c0
proof
  fix t c l
  assume R: "logged dev fr c0 t c" and l: "log_ok fr (vmem (con_vga c0)) sf fname tag l"
  obtain es0 where es0: "port_events (con_serial c) = port_events (con_serial c0) @ es0" "sent (serial_debug_port (con_serial c0)) t es0"
    using R by (auto simp: logged_def)
  have "message_ok fr (vmem (con_vga c)) sf fname tag (lm_format l) (lm_text l) (lm_args l) (lm_out l)"
    using l R message_written by (auto simp: logged_def log_ok_def)
  from klog_run [OF this, of dev] R obtain m s es where
    k: "log_step dev sf fr fname l c = Some \<lparr>con_vga = (con_vga c)\<lparr>vmem := m\<rparr>, con_serial = s\<rparr>" "accessed es (con_serial c) s"
    "sent (serial_debug_port (con_serial c0)) (serial_text tag (lm_out l)) es" "agree (written fr) (vmem (con_vga c)) m"
    by (auto simp: logged_def log_step_def)
  have s: "serial_initialised s = serial_initialised (con_serial c)" "serial_debug_port s = serial_debug_port (con_serial c)"
    "port_events s = port_events (con_serial c) @ es" using k(2) by (auto simp: accessed_def)
  have "(con_vga c)\<lparr>vmem := m\<rparr> = (con_vga c0)\<lparr>vmem := m\<rparr>" using R unfolding logged_def by (metis vga_state_t.surjective vga_state_t.update_convs(5))
  then have "logged dev fr c0 (t @ serial_text tag (lm_out l)) \<lparr>con_vga = (con_vga c)\<lparr>vmem := m\<rparr>, con_serial = s\<rparr>"
    using R s es0 sent_append [OF es0(2) k(3)] agree_trans [OF _ k(4)] unfolding logged_def by auto
  then show "\<exists>c'. log_step dev sf fr fname l c = Some c' \<and> logged dev fr c0 (t @ serial_text tag (lm_out l)) c'" using k(1) by blast
qed

text \<open>
  C32: Debug messages reach the serial port: any sequence of calls of \<^verbatim>\<open>klog\<close> whose messages can be formatted
  returns, and the debug port has then been sent, byte for byte and in order, for every message
  the file name in brackets and the formatted text, when that port keeps becoming ready; the
  screen shows what it showed before and no memory outside the buffers of the calls has changed.
\<close>

theorem klog_sends:
  assumes "\<forall>l\<in>set ls. log_ok fr (vmem (con_vga c)) sf file tag l" and "frame_ok fr"
    and "serial_initialised (con_serial c) \<noteq> 0" and "responsive dev (serial_debug_port (con_serial c))"
  shows "\<exists>c' es. run_ops (log_step dev sf fr file) ls c = Some c' \<and> port_events (con_serial c') = port_events (con_serial c) @ es \<and>
    sent (serial_debug_port (con_serial c)) (concat (map (\<lambda>l. serial_text tag (lm_out l)) ls)) es \<and>
    agree (written fr) (vmem (con_vga c)) (vmem (con_vga c')) \<and> (\<forall>x<80. \<forall>y<25. glyph (con_vga c') x y = glyph (con_vga c) x y)"
proof -
  have "logged dev fr c [] c" using assms(3,4) by (simp add: logged_def)
  from log.run_simulates [OF this allowed_always [OF assms(1)]] obtain c' where
    c': "run_ops (log_step dev sf fr file) ls c = Some c'" "logged dev fr c (fold (\<lambda>l t. t @ serial_text tag (lm_out l)) ls []) c'" by blast
  have "fold (\<lambda>l t. t @ serial_text tag (lm_out l)) ls u = u @ concat (map (\<lambda>l. serial_text tag (lm_out l)) ls)" for u
    by (induction ls arbitrary: u) simp_all
  from this [of "[]"] c'(2) obtain es where es: "port_events (con_serial c') = port_events (con_serial c) @ es"
    "sent (serial_debug_port (con_serial c)) (concat (map (\<lambda>l. serial_text tag (lm_out l)) ls)) es"
    "agree (written fr) (vmem (con_vga c)) (vmem (con_vga c'))" "con_vga c' = (con_vga c)\<lparr>vmem := vmem (con_vga c')\<rparr>"
    by (auto simp: logged_def)
  have "\<forall>x<80. \<forall>y<25. glyph (con_vga c') x y = glyph (con_vga c) x y"
    using glyph_agree [OF es(3) written_screen [OF assms(2)]] es(4) by metis
  then show ?thesis using c'(1) es(1-3) by blast
qed

theorem klog_sends_witness:
  "\<exists>c' es. run_ops (log_step slow_device 0x1000 sample_frame 0x1010)
      [\<lparr>lm_format = 0x1020, lm_text = [67, 80, 85, 32, 37, 100], lm_args = [Num 3], lm_out = [67, 80, 85, 32, 51]\<rparr>,
       \<lparr>lm_format = 0x1030, lm_text = [37, 115], lm_args = [Str 0x1040 [53, 37, 100]], lm_out = [53, 37, 100]\<rparr>] sample_messages = Some c' \<and>
    port_events (con_serial c') = es \<and> sent 0x2F8 [91, 97, 46, 99, 93, 32, 67, 80, 85, 32, 51, 91, 97, 46, 99, 93, 32, 53, 37, 100] es"
proof -
  let ?ls = "[\<lparr>lm_format = 0x1020, lm_text = [67, 80, 85, 32, 37, 100], lm_args = [Num 3], lm_out = [67, 80, 85, 32, 51]\<rparr>,
      \<lparr>lm_format = 0x1030, lm_text = [37, 115], lm_args = [Str 0x1040 [53, 37, 100]], lm_out = [53, 37, 100]\<rparr>]"
  have p: "serial_debug_port (con_serial sample_messages) = 0x2F8" "port_events (con_serial sample_messages) = []"
    "serial_initialised (con_serial sample_messages) \<noteq> 0" by (simp_all add: sample_messages_def)
  have "\<forall>l\<in>set ?ls. log_ok sample_frame (vmem (con_vga sample_messages)) 0x1000 0x1010 [97, 46, 99] l"
    using sample_message_ok by (simp add: log_ok_def sample_messages_def)
  from klog_sends [OF this sample_frame_ok p(3) slow_device_responsive] obtain c' es where
    c': "run_ops (log_step slow_device 0x1000 sample_frame 0x1010) ?ls sample_messages = Some c'" "port_events (con_serial c') = es"
    "sent 0x2F8 (concat (map (\<lambda>l. serial_text [97, 46, 99] (lm_out l)) ?ls)) es" unfolding p by auto
  have "concat (map (\<lambda>l. serial_text [97, 46, 99] (lm_out l)) ?ls) =
      [91, 97, 46, 99, 93, 32, 67, 80, 85, 32, 51, 91, 97, 46, 99, 93, 32, 53, 37, 100]" by (simp add: serial_text_def)
  from c'(3) [unfolded this] c'(1,2) show ?thesis by (intro exI conjI)
qed

text \<open>
  \<^verbatim>\<open>_printk\<close> uses the formatted message as a format once more: a message of level \<^verbatim>\<open>LOG_INFO\<close> whose text
  contains a percent sign followed by a conversion character, such as a file name or user input
  printed with \<^verbatim>\<open>%s\<close>, has no defined outcome, because the conversion has no argument.
\<close>

lemma printk_percent_undefined:
  assumes "message_ok fr (vmem (con_vga c)) sf file tag fs f args out"
    and "out = u @ [37, k] @ v" "37 \<notin> set u" "conversion k" "LOG_INFO \<le> level"
  shows "printk dev sf fr file level fs (map raw args) c = None"
proof -
  obtain m where m: "printk dev sf fr file level fs (map raw args) c = printk_deliver dev fr level (c\<lparr>con_vga := (con_vga c)\<lparr>vmem := m\<rparr>\<rparr>)"
    "cstr m (vga_message fr) out"
    using printk_prepared [OF assms(1)] by blast
  have ok: "frame_ok fr" "length out < 512" using assms(1) by (auto simp: message_ok_def serial_text_def)
  have "layout (snd (memset (vga_tmp fr) 0 512 m)) (fmt_num fr) (fmt_temp fr) (vga_tmp fr) (vga_message fr) (u @ [37, k] @ v) 512"
    using layout_message [OF ok(1) m(2) ok(2)] unfolding memset512 assms(2) by (rule layout_cleared)
  then have "vga_printf fr (vga_message fr) [] ((con_vga c)\<lparr>vmem := m\<rparr>) = None"
    using sprintf_no_argument [OF _ _ assms(3,4)] ok(2) assms(2) by (simp add: vga_printf_def)
  then show ?thesis using m(1) assms(5) by (simp add: printk_deliver_def)
qed

lemma printk_percent_undefined_witness:
  "printk slow_device 0x1000 sample_frame 0x1010 LOG_INFO 0x1030 (map raw [Str 0x1040 [53, 37, 100]]) sample_messages = None"
proof (rule printk_percent_undefined)
  show "message_ok sample_frame (vmem (con_vga sample_messages)) 0x1000 0x1010 [97, 46, 99] 0x1030 [37, 115] [Str 0x1040 [53, 37, 100]] [53, 37, 100]"
    using sample_message_ok(2) by (simp add: sample_messages_def)
  show "[53, 37, 100] = [53] @ [37, 100] @ []" by simp
qed (simp_all add: conversion_def)

end
