(* ===== verification/Ktest.thy ===== *)
theory Ktest
  imports KString_Props
begin

text \<open>
  The kernel's unit test framework, \<^verbatim>\<open>kernel/test/ktest.c\<close>: assertions, which count passes and failures of the
  running test, and the execution of the modules the linker collects. The state the tests work on
  is a type parameter and \<open>mem_of\<close> is its byte memory; the collected modules, with their functions,
  are an argument. Messages are not modelled.
\<close>

section \<open>Assertions\<close>

record ktest_counts =
  pass_count :: u32
  fail_count :: u32

definition ktest_pass :: "ktest_counts \<Rightarrow> ktest_counts" where
  "ktest_pass c = c\<lparr>pass_count := pass_count c + 1\<rparr>"

definition ktest_fail :: "ktest_counts \<Rightarrow> ktest_counts" where
  "ktest_fail c = c\<lparr>fail_count := fail_count c + 1\<rparr>"

definition assert_equal_int :: "i32 \<Rightarrow> i32 \<Rightarrow> ktest_counts \<Rightarrow> ktest_counts" where
  "assert_equal_int expected actual c = (if expected \<noteq> actual then ktest_fail c else ktest_pass c)"

definition assert_equal_uint :: "u32 \<Rightarrow> u32 \<Rightarrow> ktest_counts \<Rightarrow> ktest_counts" where
  "assert_equal_uint expected actual c = (if expected \<noteq> actual then ktest_fail c else ktest_pass c)"

definition assert_equal_ptr :: "u32 \<Rightarrow> u32 \<Rightarrow> ktest_counts \<Rightarrow> ktest_counts" where
  "assert_equal_ptr expected actual c = (if expected \<noteq> actual then ktest_fail c else ktest_pass c)"

definition assert_equal_str :: "mem \<Rightarrow> u32 \<Rightarrow> u32 \<Rightarrow> ktest_counts \<Rightarrow> ktest_counts option" where
  "assert_equal_str m expected actual c = do {
     r \<leftarrow> strcmp m expected actual;
     Some (if r \<noteq> 0 then ktest_fail c else ktest_pass c)
   }"

definition assert_not_equal_int :: "i32 \<Rightarrow> i32 \<Rightarrow> ktest_counts \<Rightarrow> ktest_counts" where
  "assert_not_equal_int expected actual c = (if expected = actual then ktest_fail c else ktest_pass c)"

definition assert_not_equal_uint :: "u32 \<Rightarrow> u32 \<Rightarrow> ktest_counts \<Rightarrow> ktest_counts" where
  "assert_not_equal_uint expected actual c = (if expected = actual then ktest_fail c else ktest_pass c)"

definition assert_not_equal_ptr :: "u32 \<Rightarrow> u32 \<Rightarrow> ktest_counts \<Rightarrow> ktest_counts" where
  "assert_not_equal_ptr expected actual c = (if expected = actual then ktest_fail c else ktest_pass c)"

definition assert_not_equal_str :: "mem \<Rightarrow> u32 \<Rightarrow> u32 \<Rightarrow> ktest_counts \<Rightarrow> ktest_counts option" where
  "assert_not_equal_str m expected actual c = do {
     r \<leftarrow> strcmp m expected actual;
     Some (if r \<noteq> 0 then ktest_fail c else ktest_pass c)
   }"

definition assert_filled :: "mem \<Rightarrow> u32 \<Rightarrow> u32 \<Rightarrow> u8 \<Rightarrow> ktest_counts \<Rightarrow> ktest_counts" where
  "assert_filled m buffer size_arg val c =
     (let c1 = (case find (\<lambda>i. m (buffer + of_nat i) \<noteq> val) [0..<unat size_arg] of None \<Rightarrow> c | Some _ \<Rightarrow> ktest_fail c)
      in ktest_pass c1)"

definition assert_bit_set :: "u32 \<Rightarrow> u32 \<Rightarrow> ktest_counts \<Rightarrow> ktest_counts" where
  "assert_bit_set buffer b c = (if \<not> TEST_BIT buffer b then ktest_fail c else ktest_pass c)"

section \<open>Modules\<close>

record 'k ktest_unit =
  unit_name :: u32
  unit_counts :: ktest_counts
  test_func :: "ktest_counts \<Rightarrow> 'k \<Rightarrow> (ktest_counts \<times> 'k) option"

record 'k ktest_module =
  mod_name :: u32
  module_pre :: "('k \<Rightarrow> 'k option) option"
  module_post :: "('k \<Rightarrow> 'k option) option"
  test_pre :: "('k \<Rightarrow> 'k option) option"
  test_post :: "('k \<Rightarrow> 'k option) option"
  tests :: "'k ktest_unit list"

definition call_hook :: "('k \<Rightarrow> 'k option) option \<Rightarrow> 'k \<Rightarrow> 'k option" where
  "call_hook h k = (case h of None \<Rightarrow> Some k | Some f \<Rightarrow> f k)"

primrec run_units :: "'k ktest_module \<Rightarrow> 'k ktest_unit list \<Rightarrow> 'k \<Rightarrow> ('k ktest_unit list \<times> 'k) option" where
  "run_units md [] k = Some ([], k)"
| "run_units md (u # us) k = do {
     k1 \<leftarrow> call_hook (test_pre md) k;
     (c, k2) \<leftarrow> test_func u (unit_counts u) k1;
     k3 \<leftarrow> call_hook (test_post md) k2;
     (us', k4) \<leftarrow> run_units md us k3;
     Some (u\<lparr>unit_counts := c\<rparr> # us', k4)
   }"

text \<open>The module found is returned as its index in the array; the search goes on from \<open>i\<close>.\<close>

primrec module_search :: "mem \<Rightarrow> u32 \<Rightarrow> nat \<Rightarrow> 'k ktest_module list \<Rightarrow> nat option option" where
  "module_search m name i [] = Some None"
| "module_search m name i (md # mds) = do {
     r \<leftarrow> strcmp m (mod_name md) name;
     (if r = 0 then Some (Some i) else module_search m name (Suc i) mds)
   }"

definition ktest_get_module :: "mem \<Rightarrow> u32 \<Rightarrow> 'k ktest_module list \<Rightarrow> nat option option" where
  "ktest_get_module m name mds = module_search m name 0 mds"

definition ktest_run_module ::
  "('k \<Rightarrow> mem) \<Rightarrow> u32 \<Rightarrow> 'k ktest_module list \<times> 'k \<Rightarrow> ('k ktest_module list \<times> 'k) option" where
  "ktest_run_module mem_of name mk = do {
     found \<leftarrow> ktest_get_module (mem_of (snd mk)) name (fst mk);
     (case found of
        None \<Rightarrow> Some mk
      | Some i \<Rightarrow> do {
          let md = fst mk ! i;
          k1 \<leftarrow> call_hook (module_pre md) (snd mk);
          (us, k2) \<leftarrow> run_units md (tests md) k1;
          k3 \<leftarrow> call_hook (module_post md) k2;
          Some ((fst mk)[i := md\<lparr>tests := us\<rparr>], k3)
        })
   }"

primrec run_modules ::
  "('k \<Rightarrow> mem) \<Rightarrow> nat list \<Rightarrow> 'k ktest_module list \<times> 'k \<Rightarrow> ('k ktest_module list \<times> 'k) option" where
  "run_modules mem_of [] mk = Some mk"
| "run_modules mem_of (i # js) mk = do {
     mk1 \<leftarrow> ktest_run_module mem_of (mod_name (fst mk ! i)) mk;
     run_modules mem_of js mk1
   }"

definition ktest_run_all :: "('k \<Rightarrow> mem) \<Rightarrow> 'k ktest_module list \<times> 'k \<Rightarrow> ('k ktest_module list \<times> 'k) option" where
  "ktest_run_all mem_of mk = run_modules mem_of [0..<length (fst mk)] mk"

section \<open>What the assertions count\<close>

text \<open>\<^verbatim>\<open>assert_not_equal_str\<close> tests the same condition as \<^verbatim>\<open>assert_equal_str\<close>: different strings are a failure.\<close>

lemma assert_not_equal_str_inverted:
  assumes "cstr m p s" and "cstr m q t"
  shows "assert_not_equal_str m p q c = Some (if s = t then ktest_pass c else ktest_fail c)"
  using strcmp_run [OF assms] by (auto simp: assert_not_equal_str_def)

text \<open>\<^verbatim>\<open>_assert_filled\<close> counts a pass in any case, and a failure besides when a byte differs.\<close>

lemma assert_filled_counts:
  "assert_filled m p n b c = (if \<forall>i<unat n. m (p + of_nat i) = b then ktest_pass c else ktest_pass (ktest_fail c))"
proof (cases "find (\<lambda>i. m (p + of_nat i) \<noteq> b) [0..<unat n]")
  case None
  then have "\<forall>i<unat n. m (p + of_nat i) = b" by (auto simp: find_None_iff)
  then show ?thesis using None by (simp add: assert_filled_def)
next
  case (Some i)
  then have "i < unat n" "m (p + of_nat i) \<noteq> b" by (auto simp: find_Some_iff)
  then show ?thesis using Some by (auto simp: assert_filled_def)
qed

text \<open>
  Running all modules: when the names are different strings that the tests leave alone, every module is found
  under its own name, so each runs exactly once, in the order of the array.
\<close>

lemma module_search_own:
  assumes "\<forall>k<length mds. cstr m (mod_name (mds ! k)) (ns ! k)" "length ns = length mds" "distinct ns" "i < length mds"
  shows "module_search m (mod_name (mds ! i)) j mds = Some (Some (j + i))"
  using assms
proof (induction mds arbitrary: i j ns)
  case (Cons md mds)
  then obtain n ns' where ns: "ns = n # ns'" by (cases ns) auto
  have 0: "cstr m (mod_name md) n" using Cons.prems(1) ns by (metis length_greater_0_conv list.discI nth_Cons_0)
  have tl: "\<forall>k<length mds. cstr m (mod_name (mds ! k)) (ns' ! k)" using Cons.prems(1) ns by (metis Suc_less_eq length_Cons nth_Cons_Suc)
  show ?case
  proof (cases i)
    case 0
    then show ?thesis using strcmp_run [OF \<open>cstr m (mod_name md) n\<close> \<open>cstr m (mod_name md) n\<close>] by auto
  next
    case (Suc k)
    then have k: "k < length mds" using Cons.prems(4) by simp
    then have "ns' ! k \<noteq> n" using Cons.prems(2,3) ns by auto
    then obtain r where "strcmp m (mod_name md) (mod_name (mds ! k)) = Some r" "r \<noteq> 0"
      using strcmp_run [OF 0 tl [rule_format, OF k]] by auto
    then show ?thesis using Suc Cons.IH [OF tl _ _ k, of "Suc j"] Cons.prems(2,3) ns by simp
  qed
qed simp

section \<open>A module whose units all pass\<close>

text \<open>\<open>unit_passes pre f n\<close>: after the set-up \<open>pre\<close> the test makes \<open>n\<close> assertions, all of which hold.\<close>

definition unit_passes :: "('k \<Rightarrow> 'k option) \<Rightarrow> (ktest_counts \<Rightarrow> 'k \<Rightarrow> (ktest_counts \<times> 'k) option) \<Rightarrow> nat \<Rightarrow> bool" where
  "unit_passes pre f n \<longleftrightarrow> (\<forall>k c. \<exists>k1 k2. pre k = Some k1 \<and> f c k1 = Some (c\<lparr>pass_count := pass_count c + of_nat n\<rparr>, k2))"

definition passed :: "'k ktest_unit \<Rightarrow> nat \<Rightarrow> 'k ktest_unit" where
  "passed u n = u\<lparr>unit_counts := (unit_counts u)\<lparr>pass_count := pass_count (unit_counts u) + of_nat n\<rparr>\<rparr>"

lemma run_units_pass:
  assumes "test_pre md = Some pre" "test_post md = Some Some"
    and "list_all2 (\<lambda>u. unit_passes pre (test_func u)) us ns"
  shows "\<exists>k'. run_units md us k = Some (map2 passed us ns, k')"
  using assms(3)
proof (induction us ns arbitrary: k rule: list_all2_induct)
  case (Cons u us n ns)
  obtain k1 k2 where "pre k = Some k1"
    "test_func u (unit_counts u) k1 = Some ((unit_counts u)\<lparr>pass_count := pass_count (unit_counts u) + of_nat n\<rparr>, k2)"
    using Cons.hyps(1) unfolding unit_passes_def by blast
  moreover obtain k3 where "run_units md us k2 = Some (map2 passed us ns, k3)" using Cons.IH by blast
  ultimately show ?case by (simp add: assms(1,2) call_hook_def passed_def)
qed simp

lemma run_module_pass:
  assumes "module_pre md = Some Some" "module_post md = Some Some" "test_pre md = Some pre" "test_post md = Some Some"
    and "list_all2 (\<lambda>u. unit_passes pre (test_func u)) (tests md) ns" and "cstr m (mod_name md) t"
  shows "\<exists>k'. ktest_run_module (\<lambda>_. m) (mod_name md) ([md], k) = Some ([md\<lparr>tests := map2 passed (tests md) ns\<rparr>], k')"
proof -
  have "strcmp m (mod_name md) (mod_name md) = Some 0" using strcmp_run [OF assms(6,6)] by auto
  then have "ktest_get_module m (mod_name md) [md] = Some (Some 0)" by (simp add: ktest_get_module_def)
  moreover obtain k' where "run_units md (tests md) k = Some (map2 passed (tests md) ns, k')"
    using run_units_pass [OF assms(3,4,5)] by blast
  ultimately show ?thesis using assms(1,2) by (simp add: ktest_run_module_def call_hook_def)
qed

end
