(* ===== verification/Bootmem.thy ===== *)
theory Bootmem
  imports Arch_Paging
begin

text \<open>
  The early boot allocator, \<^verbatim>\<open>kernel/mm/bootmem.c\<close>: the table of memory regions, adding a
  region around the kernel image, and bump allocation out of the regions. The last step
  of its life, handing the unallocated pages to the buddy allocator
  (\<^verbatim>\<open>bootmem_mark_free\<close>), is in the theory \<open>Palloc_Init\<close>.

  The addresses of the linker symbols \<^verbatim>\<open>KERNEL_PHYS_START\<close> and \<^verbatim>\<open>KERNEL_PHYS_END\<close> are a
  parameter of the operations that use them.
\<close>

section \<open>State\<close>

record kernel_image =
  KERNEL_PHYS_START :: u32
  KERNEL_PHYS_END :: u32

record mem_region =
  start_addr :: u32
  end_addr :: u32
  orig_start_addr :: u32
  region_type :: u32

record bootmem =
  mem_regions :: "mem_region list"
  highest_pfn :: u32
  region_count :: u32

definition MAX_MEM_REGIONS :: nat where [rotary_const]: "MAX_MEM_REGIONS = 16"
definition MEM_REGION_RESERVED :: u32 where [rotary_const]: "MEM_REGION_RESERVED = 0"
definition MEM_REGION_AVAILABLE :: u32 where [rotary_const]: "MEM_REGION_AVAILABLE = 1"
definition BM_NO_ALIGN :: u32 where [rotary_const]: "BM_NO_ALIGN = 1"

definition empty_region :: mem_region where
  "empty_region = \<lparr>start_addr = 0, end_addr = 0, orig_start_addr = 0, region_type = 0\<rparr>"

text \<open>The page-frame macros of \<^verbatim>\<open>palloc.h\<close>.\<close>

definition PFN_TO_PA :: "u32 \<Rightarrow> u32" where
  [rotary_macro]: "PFN_TO_PA pfn = pfn * PAGE_SIZE"

definition PA_TO_PFN :: "u32 \<Rightarrow> u32" where
  [rotary_macro]: "PA_TO_PFN pa = drop_bit 12 pa"

section \<open>Operations\<close>

definition bootmem_reset :: "bootmem \<Rightarrow> bootmem" where
  "bootmem_reset s =
     s\<lparr>mem_regions := replicate MAX_MEM_REGIONS empty_region, highest_pfn := 0, region_count := 0\<rparr>"

definition bootmem_highest_pfn :: "bootmem \<Rightarrow> u32" where
  "bootmem_highest_pfn s = highest_pfn s"

text \<open>The tail of \<^verbatim>\<open>bootmem_add_mem_region\<close>: raise the highest frame number, then take the first free slot.\<close>

definition add_region_record :: "u32 \<Rightarrow> u32 \<Rightarrow> u32 \<Rightarrow> bootmem \<Rightarrow> i32 \<times> bootmem" where
  "add_region_record start stop type s =
     (let pfn = PA_TO_PFN stop;
          s1 = (if pfn > highest_pfn s then s\<lparr>highest_pfn := pfn\<rparr> else s)
      in case find (\<lambda>i. start_addr (mem_regions s1 ! i) = 0) [0..<MAX_MEM_REGIONS] of
           Some i \<Rightarrow> (E_SUCCESS,
             s1\<lparr>mem_regions := (mem_regions s1)[i :=
                  \<lparr>start_addr = start, end_addr = stop, orig_start_addr = start, region_type = type\<rparr>],
                region_count := region_count s1 + 1\<rparr>)
         | None \<Rightarrow> (E_ERROR, s1))"

text \<open>
  The whole function. A region that surrounds the kernel is added as two regions by two
  recursive calls, whose results the code drops.
\<close>

partial_function (option) bootmem_add_mem_region ::
  "kernel_image \<Rightarrow> u32 \<Rightarrow> u32 \<Rightarrow> u32 \<Rightarrow> bootmem \<Rightarrow> (i32 \<times> bootmem) option" where
  "bootmem_add_mem_region k start0 end0 type s =
     (let start = PAGE_ALIGN start0;
          stop = PAGE_ALIGN_DOWN end0;
          kernel_start = PAGE_ALIGN (KERNEL_PHYS_START k);
          kernel_end = PAGE_ALIGN (KERNEL_PHYS_END k)
      in if region_count s = of_nat MAX_MEM_REGIONS then Some (E_ERROR, s)
         else if start \<ge> kernel_start \<and> stop < kernel_end then Some (E_ERROR, s)
         else if type \<noteq> MEM_REGION_RESERVED \<and> type \<noteq> MEM_REGION_AVAILABLE then Some (E_ERROR, s)
         else if start > stop then Some (E_ERROR, s)
         else if start = stop \<or> stop - start < PAGE_SIZE then Some (E_ERROR, s)
         else if start < kernel_start \<and> stop > kernel_end then do {
           r1 \<leftarrow> bootmem_add_mem_region k start kernel_start type s;
           r2 \<leftarrow> bootmem_add_mem_region k kernel_end stop type (snd r1);
           Some (E_SUCCESS, snd r2)
         }
         else if start < kernel_start \<and> stop > kernel_start then
           Some (add_region_record start kernel_start type s)
         else if start < kernel_end \<and> stop > kernel_end then
           Some (add_region_record kernel_end stop type s)
         else Some (add_region_record start stop type s))"

text \<open>The test the allocation loop makes for region \<open>r\<close>, and the whole function; address 0 is NULL.\<close>

definition region_fits :: "u32 \<Rightarrow> u32 \<Rightarrow> mem_region \<Rightarrow> bool" where
  "region_fits sz alignment r =
     (region_type r = MEM_REGION_AVAILABLE \<and>
      (let aligned_start = ALIGN (start_addr r) alignment
       in \<not> aligned_start \<ge> end_addr r \<and> end_addr r - aligned_start \<ge> sz))"

definition bootmem_alloc :: "u32 \<Rightarrow> u32 \<Rightarrow> bootmem \<Rightarrow> u32 \<times> bootmem" where
  "bootmem_alloc sz alignment s =
     (case find (\<lambda>i. region_fits sz alignment (mem_regions s ! i)) [0..<MAX_MEM_REGIONS] of
        Some i \<Rightarrow>
          (let aligned_start = ALIGN (start_addr (mem_regions s ! i)) alignment
           in (PHY_TO_VIR aligned_start,
               s\<lparr>mem_regions := (mem_regions s)[i :=
                    (mem_regions s ! i)\<lparr>start_addr := aligned_start + sz\<rparr>]\<rparr>))
      | None \<Rightarrow> (0, s))"

section \<open>Well-formed region tables\<close>

definition available :: "mem_region \<Rightarrow> bool" where
  "available r \<longleftrightarrow> region_type r = MEM_REGION_AVAILABLE"

definition region_span :: "mem_region \<Rightarrow> nat set" where
  "region_span r = {unat (start_addr r) ..< unat (end_addr r)}"

text \<open>The physical addresses a later allocation could still return.\<close>

definition free_space :: "bootmem \<Rightarrow> nat set" where
  "free_space s = (\<Union>r \<in> {r \<in> set (mem_regions s). available r}. region_span r)"

text \<open>
  The table has its fixed length, the bounds of every region are in order, the available
  regions lie in the linearly mapped low memory and do not overlap.
\<close>

definition region_ok :: "mem_region \<Rightarrow> bool" where
  "region_ok r \<longleftrightarrow> start_addr r \<le> end_addr r \<and> (available r \<longrightarrow> end_addr r \<le> LOWMEM_PLIMIT)"

definition bootmem_wf :: "bootmem \<Rightarrow> bool" where
  "bootmem_wf s \<longleftrightarrow> length (mem_regions s) = MAX_MEM_REGIONS \<and>
     (\<forall>i<MAX_MEM_REGIONS. region_ok (mem_regions s ! i)) \<and>
     (\<forall>i<MAX_MEM_REGIONS. \<forall>j<MAX_MEM_REGIONS. i \<noteq> j \<longrightarrow>
        available (mem_regions s ! i) \<longrightarrow> available (mem_regions s ! j) \<longrightarrow>
        region_span (mem_regions s ! i) \<inter> region_span (mem_regions s ! j) = {})"

lemma bootmem_wfD:
  assumes "bootmem_wf s"
  shows "length (mem_regions s) = 16" and "\<And>i. i < 16 \<Longrightarrow> region_ok (mem_regions s ! i)"
    and "\<And>i j. i < 16 \<Longrightarrow> j < 16 \<Longrightarrow> i \<noteq> j \<Longrightarrow> available (mem_regions s ! i) \<Longrightarrow>
      available (mem_regions s ! j) \<Longrightarrow>
      region_span (mem_regions s ! i) \<inter> region_span (mem_regions s ! j) = {}"
  using assms by (auto simp: bootmem_wf_def rotary_const)

lemma free_space_nth:
  "bootmem_wf s \<Longrightarrow>
   x \<in> free_space s \<longleftrightarrow> (\<exists>i<16. available (mem_regions s ! i) \<and> x \<in> region_span (mem_regions s ! i))"
  by (fastforce simp: free_space_def in_set_conv_nth bootmem_wfD(1))

lemma bootmem_reset_wf: "bootmem_wf (bootmem_reset s)"
  by (simp add: bootmem_wf_def bootmem_reset_def region_ok_def available_def empty_region_def rotary_const)

section \<open>Allocation\<close>

lemma region_fits_iff:
  assumes "region_ok r" and "available r" and "n < 32"
  defines "a \<equiv> unat (ALIGN (start_addr r) (2 ^ n))"
  shows "region_fits sz (2 ^ n) r \<longleftrightarrow> a < unat (end_addr r) \<and> a + unat sz \<le> unat (end_addr r)"
    and "2 ^ n dvd a" and "unat (start_addr r) \<le> a"
    and "\<And>b. unat (start_addr r) \<le> b \<Longrightarrow> 2 ^ n dvd b \<Longrightarrow> a \<le> b"
proof -
  have e: "unat (end_addr r) \<le> 2 ^ 30" and se: "unat (start_addr r) \<le> unat (end_addr r)"
    using assms(1,2) by (auto simp: region_ok_def rotary_const word_le_nat_alt)
  have "(2 ^ n :: nat) \<le> 2 ^ 31" using \<open>n < 32\<close> by (intro power_increasing) auto
  with e se have nowrap: "unat (start_addr r) + (2 ^ n - 1) < 2 ^ 32" by simp
  note A = ALIGN_correct [OF \<open>n < 32\<close> nowrap, folded a_def]
  show "2 ^ n dvd a" "unat (start_addr r) \<le> a" by (rule A(1), rule A(2))
  show "a \<le> b" if "unat (start_addr r) \<le> b" "2 ^ n dvd b" for b
  proof (rule ccontr)
    assume "\<not> a \<le> b"
    with that A(3) have "a - b < 2 ^ n" "0 < a - b" by linarith+
    moreover have "2 ^ n dvd a - b" using A(1) that(2) by (rule dvd_diff_nat)
    ultimately show False using dvd_imp_le by fastforce
  qed
  have "region_fits sz (2 ^ n) r \<longleftrightarrow>
      a < unat (end_addr r) \<and> unat sz \<le> unat (end_addr r - ALIGN (start_addr r) (2 ^ n))"
    using assms(2) by (auto simp: region_fits_def available_def a_def word_le_nat_alt Let_def)
  also have "\<dots> \<longleftrightarrow> a < unat (end_addr r) \<and> a + unat sz \<le> unat (end_addr r)"
    by (auto simp: a_def unat_sub_small)
  finally show "region_fits sz (2 ^ n) r \<longleftrightarrow> a < unat (end_addr r) \<and> a + unat sz \<le> unat (end_addr r)" .
qed

lemma bootmem_alloc_cases:
  assumes "bootmem_wf s" and "n < 32"
  obtains (null) "bootmem_alloc sz (2 ^ n) s = (0, s)"
      and "\<And>i. i < 16 \<Longrightarrow> \<not> region_fits sz (2 ^ n) (mem_regions s ! i)"
    | (issued) i a where "i < 16" and "a = ALIGN (start_addr (mem_regions s ! i)) (2 ^ n)"
      and "available (mem_regions s ! i)" and "region_fits sz (2 ^ n) (mem_regions s ! i)"
      and "bootmem_alloc sz (2 ^ n) s =
        (PHY_TO_VIR a, s\<lparr>mem_regions := (mem_regions s)[i := (mem_regions s ! i)\<lparr>start_addr := a + sz\<rparr>]\<rparr>)"
proof (cases "find (\<lambda>i. region_fits sz (2 ^ n) (mem_regions s ! i)) [0..<MAX_MEM_REGIONS]")
  case None
  then have "\<And>i. i < 16 \<Longrightarrow> \<not> region_fits sz (2 ^ n) (mem_regions s ! i)"
    by (simp add: find_upt_None rotary_const)
  with None null show thesis by (simp add: bootmem_alloc_def)
next
  case (Some i)
  with find_upt_SomeD [OF Some] issued show thesis
    by (auto simp: bootmem_alloc_def region_fits_def available_def rotary_const Let_def)
qed

text \<open>
  Replacing region \<open>i\<close> by a suffix of itself keeps the table well-formed, and the space
  that is given up is no longer free.
\<close>

lemma shrink_region:
  assumes wf: "bootmem_wf s" and i: "i < 16" "available (mem_regions s ! i)"
    and m: "start_addr (mem_regions s ! i) \<le> m" "m \<le> end_addr (mem_regions s ! i)"
  defines "s' \<equiv> s\<lparr>mem_regions := (mem_regions s)[i := (mem_regions s ! i)\<lparr>start_addr := m\<rparr>]\<rparr>"
  shows "bootmem_wf s'"
    and "free_space s' = free_space s - {unat (start_addr (mem_regions s ! i)) ..< unat m}"
proof -
  let ?r = "mem_regions s ! i" and ?r' = "(mem_regions s ! i)\<lparr>start_addr := m\<rparr>"
  note D = bootmem_wfD [OF wf]
  have sub: "region_span ?r' \<subseteq> region_span ?r"
    using m by (auto simp: region_span_def word_le_nat_alt)
  have cut: "region_span ?r' = region_span ?r - {unat (start_addr ?r) ..< unat m}"
    using m by (auto simp: region_span_def word_le_nat_alt)
  have nth: "mem_regions s' ! j = (if j = i then ?r' else mem_regions s ! j)" if "j < 16" for j
    using that D(1) by (simp add: s'_def nth_list_update)
  have av: "available ?r'" and ok: "region_ok ?r'"
    using i m D(2) [OF i(1)] by (auto simp: available_def region_ok_def)
  have len: "length (mem_regions s') = 16" using D(1) by (simp add: s'_def)
  show wf': "bootmem_wf s'"
    unfolding bootmem_wf_def MAX_MEM_REGIONS_def
  proof (intro conjI allI impI)
    show "length (mem_regions s') = 16" by (rule len)
    show "region_ok (mem_regions s' ! j)" if "j < 16" for j
      using that ok D(2) by (simp add: nth)
    show "region_span (mem_regions s' ! j) \<inter> region_span (mem_regions s' ! l) = {}"
      if "j < 16" "l < 16" "j \<noteq> l" "available (mem_regions s' ! j)" "available (mem_regions s' ! l)" for j l
      using that D(3) [of j l] i sub av by (fastforce simp: nth split: if_splits)
  qed
  have "x \<in> free_space s' \<longleftrightarrow> x \<in> free_space s \<and> x \<notin> {unat (start_addr ?r) ..< unat m}" for x
  proof -
    have "{unat (start_addr ?r) ..< unat m} \<subseteq> region_span ?r"
      using m by (auto simp: region_span_def word_le_nat_alt)
    then have other: "x \<notin> {unat (start_addr ?r) ..< unat m}"
      if "x \<in> region_span (mem_regions s ! j)" "j < 16" "j \<noteq> i" "available (mem_regions s ! j)" for j
      using that D(3) [of j i] i by blast
    show ?thesis
      unfolding free_space_nth [OF wf] free_space_nth [OF wf']
      using other i cut av by (auto simp: nth split: if_splits)
  qed
  then show "free_space s' = free_space s - {unat (start_addr ?r) ..< unat m}" by blast
qed

lemma bootmem_alloc_spec:
  assumes wf: "bootmem_wf s" and n: "n < 32"
    and run: "bootmem_alloc sz (2 ^ n) s = (va, s')" and nonnull: "va \<noteq> 0"
  defines "pa \<equiv> unat (VIR_TO_PHY va)"
  shows "bootmem_wf s'" and "2 ^ n dvd pa" and "{pa ..< pa + unat sz} \<subseteq> free_space s"
    and "free_space s' \<subseteq> free_space s - {pa ..< pa + unat sz}"
    and "highest_pfn s' = highest_pfn s" "region_count s' = region_count s"
    and "va = PHY_TO_VIR (VIR_TO_PHY va)" "pa < 2 ^ 30"
proof -
  obtain i a where issued: "i < 16" "a = ALIGN (start_addr (mem_regions s ! i)) (2 ^ n)"
      "available (mem_regions s ! i)" "region_fits sz (2 ^ n) (mem_regions s ! i)"
      "bootmem_alloc sz (2 ^ n) s =
        (PHY_TO_VIR a, s\<lparr>mem_regions := (mem_regions s)[i := (mem_regions s ! i)\<lparr>start_addr := a + sz\<rparr>]\<rparr>)"
    using run nonnull by (cases rule: bootmem_alloc_cases [OF wf n, of sz]) auto
  let ?r = "mem_regions s ! i"
  from run issued have va: "va = PHY_TO_VIR a"
    and s': "s' = s\<lparr>mem_regions := (mem_regions s)[i := ?r\<lparr>start_addr := a + sz\<rparr>]\<rparr>" by auto
  have ok: "region_ok ?r" using bootmem_wfD(2) [OF wf issued(1)] .
  note F = region_fits_iff [OF ok issued(3) n, folded issued(2)]
  have pa: "pa = unat a" by (simp add: pa_def va)
  have fit: "unat a < unat (end_addr ?r)" "unat a + unat sz \<le> unat (end_addr ?r)"
    using F(1) issued(4) by auto
  have "unat (end_addr ?r) \<le> 2 ^ 30"
    using ok issued(3) by (auto simp: region_ok_def rotary_const word_le_nat_alt)
  with fit show "pa < 2 ^ 30" using pa by simp
  have sum: "unat (a + sz) = unat a + unat sz"
    using fit unat_u32_less [of "end_addr ?r"] by (intro unat_add_small) linarith
  have m: "start_addr ?r \<le> a + sz" "a + sz \<le> end_addr ?r"
    using F(3) fit by (auto simp: word_le_nat_alt sum)
  note S = shrink_region [OF wf issued(1,3) m, folded s']
  show "bootmem_wf s'" by (rule S(1))
  show "2 ^ n dvd pa" using F(2) pa by simp
  have "{pa ..< pa + unat sz} \<subseteq> region_span ?r"
    using F(3) fit pa by (auto simp: region_span_def)
  then show "{pa ..< pa + unat sz} \<subseteq> free_space s"
    using issued(1,3) unfolding subset_iff free_space_nth [OF wf] by blast
  show "free_space s' \<subseteq> free_space s - {pa ..< pa + unat sz}"
    using S(2) F(3) pa by (auto simp: sum)
  show "highest_pfn s' = highest_pfn s" "region_count s' = region_count s"
    and "va = PHY_TO_VIR (VIR_TO_PHY va)" by (simp_all add: s')
qed

lemma bootmem_alloc_null:
  assumes wf: "bootmem_wf s" and n: "n < 32"
  shows "fst (bootmem_alloc sz (2 ^ n) s) = 0 \<longleftrightarrow>
    (\<forall>r \<in> set (mem_regions s). available r \<longrightarrow>
       \<not> (\<exists>b. 2 ^ n dvd b \<and> unat (start_addr r) \<le> b \<and> b < unat (end_addr r) \<and> b + unat sz \<le> unat (end_addr r)))"
  using wf n
proof (cases rule: bootmem_alloc_cases [where sz = sz])
  case null
  have "\<not> (\<exists>b. 2 ^ n dvd b \<and> unat (start_addr r) \<le> b \<and> b < unat (end_addr r) \<and> b + unat sz \<le> unat (end_addr r))"
    if "r \<in> set (mem_regions s)" "available r" for r
  proof -
    from that(1) obtain i where i: "i < 16" "r = mem_regions s ! i"
      using bootmem_wfD(1) [OF wf] by (auto simp: in_set_conv_nth)
    then have ok: "region_ok r" and "\<not> region_fits sz (2 ^ n) r"
      using null(2) bootmem_wfD(2) [OF wf] by auto
    note F = region_fits_iff [OF ok that(2) n]
    show ?thesis
    proof
      assume "\<exists>b. 2 ^ n dvd b \<and> unat (start_addr r) \<le> b \<and> b < unat (end_addr r) \<and> b + unat sz \<le> unat (end_addr r)"
      then obtain b where "2 ^ n dvd b" "unat (start_addr r) \<le> b" "b < unat (end_addr r)" "b + unat sz \<le> unat (end_addr r)"
        by blast
      with F(4) [of b] have "region_fits sz (2 ^ n) r" unfolding F(1) by linarith
      with \<open>\<not> region_fits sz (2 ^ n) r\<close> show False ..
    qed
  qed
  with null show ?thesis by auto
next
  case (issued i a)
  let ?r = "mem_regions s ! i"
  have ok: "region_ok ?r" using bootmem_wfD(2) [OF wf issued(1)] .
  note F = region_fits_iff [OF ok issued(3) n, folded issued(2)]
  have "unat a < 2 ^ 30"
    using F(1) issued(3,4) ok by (auto simp: region_ok_def rotary_const word_le_nat_alt)
  then have "PHY_TO_VIR a \<noteq> 0"
    by (auto simp: rotary_macro rotary_const word_unat_eq_iff unat_word_ariths)
  moreover have "?r \<in> set (mem_regions s)" using issued(1) bootmem_wfD(1) [OF wf] by simp
  ultimately show ?thesis using issued F by auto
qed

section \<open>Adding regions\<close>

definition kernel_start :: "kernel_image \<Rightarrow> u32" where
  "kernel_start k = PAGE_ALIGN (KERNEL_PHYS_START k)"

definition kernel_end :: "kernel_image \<Rightarrow> u32" where
  "kernel_end k = PAGE_ALIGN (KERNEL_PHYS_END k)"

definition kernel_span :: "kernel_image \<Rightarrow> nat set" where
  "kernel_span k = {unat (kernel_start k) ..< unat (kernel_end k)}"

text \<open>The linker script puts the end of the image after its start.\<close>

definition kernel_ok :: "kernel_image \<Rightarrow> bool" where
  "kernel_ok k \<longleftrightarrow> kernel_start k \<le> kernel_end k"

definition avoids_kernel :: "kernel_image \<Rightarrow> bootmem \<Rightarrow> bool" where
  "avoids_kernel k s \<longleftrightarrow> (\<forall>r \<in> set (mem_regions s). region_span r \<inter> kernel_span k = {})"

text \<open>The used slots are the first \<^const>\<open>region_count\<close> ones.\<close>

definition slots_prefix :: "bootmem \<Rightarrow> bool" where
  "slots_prefix s \<longleftrightarrow> length (mem_regions s) = MAX_MEM_REGIONS \<and> unat (region_count s) \<le> MAX_MEM_REGIONS \<and>
     (\<forall>i<MAX_MEM_REGIONS. start_addr (mem_regions s ! i) \<noteq> 0 \<longleftrightarrow> i < unat (region_count s))"

text \<open>No registered region ends beyond the highest frame number.\<close>

definition pfn_bounded :: "bootmem \<Rightarrow> bool" where
  "pfn_bounded s \<longleftrightarrow> (\<forall>r \<in> set (mem_regions s). PA_TO_PFN (end_addr r) \<le> highest_pfn s)"

lemma kernel_bounds_aligned [simp]:
  "PAGE_ALIGN (kernel_start k) = kernel_start k" "PAGE_ALIGN_DOWN (kernel_start k) = kernel_start k"
  "PAGE_ALIGN (kernel_end k) = kernel_end k" "PAGE_ALIGN_DOWN (kernel_end k) = kernel_end k"
  by (simp_all add: kernel_start_def kernel_end_def PAGE_ALIGN_id PAGE_ALIGN_DOWN_id PAGE_ALIGN_aligned)

lemma page_align_idem [simp]:
  "PAGE_ALIGN (PAGE_ALIGN a) = PAGE_ALIGN a" "PAGE_ALIGN_DOWN (PAGE_ALIGN_DOWN a) = PAGE_ALIGN_DOWN a"
  by (simp_all add: PAGE_ALIGN_id PAGE_ALIGN_DOWN_id PAGE_ALIGN_aligned PAGE_ALIGN_DOWN_aligned)

text \<open>The checks a request must pass before it is registered, in the order of the code.\<close>

definition add_rejected :: "kernel_image \<Rightarrow> u32 \<Rightarrow> u32 \<Rightarrow> u32 \<Rightarrow> bootmem \<Rightarrow> bool" where
  "add_rejected k start stop type s \<longleftrightarrow>
     region_count s = 16 \<or> (kernel_start k \<le> start \<and> stop < kernel_end k) \<or>
     (type \<noteq> MEM_REGION_RESERVED \<and> type \<noteq> MEM_REGION_AVAILABLE) \<or> start > stop \<or>
     start = stop \<or> stop - start < PAGE_SIZE"

text \<open>The bounds that are registered when the request does not surround the kernel.\<close>

definition clip_start :: "kernel_image \<Rightarrow> u32 \<Rightarrow> u32 \<Rightarrow> u32" where
  "clip_start k start stop =
     (if start < kernel_start k \<and> stop > kernel_start k then start
      else if start < kernel_end k \<and> stop > kernel_end k then kernel_end k else start)"

definition clip_stop :: "kernel_image \<Rightarrow> u32 \<Rightarrow> u32 \<Rightarrow> u32" where
  "clip_stop k start stop =
     (if start < kernel_start k \<and> stop > kernel_start k then kernel_start k else stop)"

lemma add_rejected_result:
  assumes "add_rejected k (PAGE_ALIGN a) (PAGE_ALIGN_DOWN b) type s"
  shows "bootmem_add_mem_region k a b type s = Some (E_ERROR, s)"
  using assms
  by (subst bootmem_add_mem_region.simps)
    (auto simp: add_rejected_def Let_def MAX_MEM_REGIONS_def kernel_start_def kernel_end_def)

lemma add_clipped_result:
  assumes "\<not> add_rejected k (PAGE_ALIGN a) (PAGE_ALIGN_DOWN b) type s"
    and "\<not> (PAGE_ALIGN a < kernel_start k \<and> PAGE_ALIGN_DOWN b > kernel_end k)"
  shows "bootmem_add_mem_region k a b type s =
    Some (add_region_record (clip_start k (PAGE_ALIGN a) (PAGE_ALIGN_DOWN b))
                            (clip_stop k (PAGE_ALIGN a) (PAGE_ALIGN_DOWN b)) type s)"
  using assms
  by (subst bootmem_add_mem_region.simps)
    (auto simp: add_rejected_def clip_start_def clip_stop_def Let_def MAX_MEM_REGIONS_def
      kernel_start_def kernel_end_def)

lemma add_surrounding_result:
  assumes "\<not> add_rejected k (PAGE_ALIGN a) (PAGE_ALIGN_DOWN b) type s"
    and "PAGE_ALIGN a < kernel_start k \<and> PAGE_ALIGN_DOWN b > kernel_end k"
  shows "bootmem_add_mem_region k a b type s = do {
     r1 \<leftarrow> bootmem_add_mem_region k (PAGE_ALIGN a) (kernel_start k) type s;
     r2 \<leftarrow> bootmem_add_mem_region k (kernel_end k) (PAGE_ALIGN_DOWN b) type (snd r1);
     Some (E_SUCCESS, snd r2) }"
  using assms
  by (subst bootmem_add_mem_region.simps)
    (auto simp: add_rejected_def Let_def MAX_MEM_REGIONS_def kernel_start_def kernel_end_def)

definition clear_of_kernel :: "kernel_image \<Rightarrow> u32 \<Rightarrow> u32 \<Rightarrow> bool" where
  "clear_of_kernel k x y \<longleftrightarrow> {unat x ..< unat y} \<inter> kernel_span k = {}"

text \<open>
  The requests on which the clipping fails: they start inside the image and end exactly at
  its end, which the check \<^verbatim>\<open>end_addr < kernel_end\<close> lets through.
\<close>

definition ends_with_kernel :: "kernel_image \<Rightarrow> u32 \<Rightarrow> u32 \<Rightarrow> bool" where
  "ends_with_kernel k start stop \<longleftrightarrow> kernel_start k \<le> start \<and> stop = kernel_end k"

lemma clip_clear:
  assumes "\<not> add_rejected k x y type s" and "\<not> (x < kernel_start k \<and> y > kernel_end k)"
  shows "\<not> ends_with_kernel k x y \<Longrightarrow> clear_of_kernel k (clip_start k x y) (clip_stop k x y)"
    and "clip_start k x y < clip_stop k x y"
  using assms
  by (auto simp: add_rejected_def clip_start_def clip_stop_def clear_of_kernel_def kernel_span_def
      ends_with_kernel_def word_less_nat_alt word_le_nat_alt word_unat_eq_iff)

text \<open>
  Whatever registering one region preserves, adding a request preserves; and the
  recursion of the function ends. The regions registered are clear of the kernel except on the requests above.
\<close>

lemma add_mem_region_preserves:
  assumes k: "kernel_ok k" and inv: "P s"
    and step: "\<And>s x y. P s \<Longrightarrow> region_count s \<noteq> 16 \<Longrightarrow> x < y \<Longrightarrow>
      clear_of_kernel k x y \<or> ends_with_kernel k (PAGE_ALIGN a) (PAGE_ALIGN_DOWN b) \<Longrightarrow>
      PAGE_ALIGN a \<le> x \<Longrightarrow> y \<le> PAGE_ALIGN_DOWN b \<Longrightarrow>
      P (snd (add_region_record x y type s))"
  shows "\<exists>r s'. bootmem_add_mem_region k a b type s = Some (r, s') \<and> P s'"
proof -
  let ?x = "PAGE_ALIGN a" and ?y = "PAGE_ALIGN_DOWN b"
  have flat: "\<exists>r s'. bootmem_add_mem_region k x y type s = Some (r, s') \<and> P s'"
    if "P s" "PAGE_ALIGN x = x'" "PAGE_ALIGN_DOWN y = y'" "?x \<le> x'" "y' \<le> ?y"
      "\<not> (x' < kernel_start k \<and> y' > kernel_end k)" "ends_with_kernel k x' y' \<longrightarrow> ends_with_kernel k ?x ?y" for x y x' y' s
  proof (cases "add_rejected k x' y' type s")
    case True
    with that show ?thesis by (simp add: add_rejected_result)
  next
    case False
    note c = clip_clear [OF False that(6)]
    have "?x \<le> clip_start k x' y'" "clip_stop k x' y' \<le> ?y" "region_count s \<noteq> 16"
      using that False by (auto simp: clip_start_def clip_stop_def add_rejected_def)
    then have "P (snd (add_region_record (clip_start k x' y') (clip_stop k x' y') type s))"
      using step [OF that(1) _ c(2)] c(1) that(7) by blast
    moreover have "bootmem_add_mem_region k x y type s =
        Some (add_region_record (clip_start k x' y') (clip_stop k x' y') type s)"
      using that(2,3,6) False add_clipped_result [of k x y type s] by simp
    ultimately show ?thesis
      by (cases "add_region_record (clip_start k x' y') (clip_stop k x' y') type s") simp
  qed
  show ?thesis
  proof (cases "\<not> add_rejected k ?x ?y type s \<and> ?x < kernel_start k \<and> ?y > kernel_end k")
    case False
    then show ?thesis using flat [OF inv refl refl] inv by (auto simp: add_rejected_result)
  next
    case True
    then have le: "kernel_start k \<le> ?y" "?x \<le> kernel_end k"
        "\<not> kernel_end k < kernel_start k" "\<not> kernel_start k \<le> ?x" "?y \<noteq> kernel_end k"
      using k by (auto simp: kernel_ok_def)
    from True le obtain r1 s1 where 1: "bootmem_add_mem_region k ?x (kernel_start k) type s = Some (r1, s1)" "P s1"
      using flat [OF inv, of ?x ?x "kernel_start k" "kernel_start k"]
      by (auto simp: ends_with_kernel_def)
    from True le obtain r2 s2 where 2: "bootmem_add_mem_region k (kernel_end k) ?y type s1 = Some (r2, s2)" "P s2"
      using flat [OF 1(2), of "kernel_end k" "kernel_end k" ?y ?y]
      by (auto simp: ends_with_kernel_def)
    with 1 True show ?thesis by (simp add: add_surrounding_result)
  qed
qed

lemma add_region_record_slot:
  fixes y :: u32
  assumes "slots_prefix s" and "region_count s \<noteq> 16"
  defines "s1 \<equiv> s\<lparr>highest_pfn := max (highest_pfn s) (PA_TO_PFN y)\<rparr>"
  shows "add_region_record x y type s =
    (E_SUCCESS, s1\<lparr>mem_regions := (mem_regions s)[unat (region_count s) :=
        \<lparr>start_addr = x, end_addr = y, orig_start_addr = x, region_type = type\<rparr>],
      region_count := region_count s + 1\<rparr>)"
    and "unat (region_count s) < 16" and "unat (region_count s + 1) = unat (region_count s) + 1"
proof -
  let ?c = "unat (region_count s)"
  have "?c \<noteq> unat (16 :: u32)" using assms(2) by (metis unat_eqI)
  then show c: "?c < 16" using assms(1) by (simp add: slots_prefix_def rotary_const)
  then show "unat (region_count s + 1) = ?c + 1" by (simp add: unat_word_ariths)
  have s1: "(if PA_TO_PFN y > highest_pfn s then s\<lparr>highest_pfn := PA_TO_PFN y\<rparr> else s) = s1"
    by (auto simp: s1_def max_def)
  have "\<forall>i<16. (start_addr (mem_regions s ! i) = 0) = (\<not> i < ?c)"
    using assms(1) by (auto simp: slots_prefix_def rotary_const)
  then have "find (\<lambda>i. start_addr (mem_regions s ! i) = 0) [0..<16] = Some ?c"
    using c by (auto simp: find_Some_iff intro!: exI [of _ ?c])
  then show "add_region_record x y type s =
    (E_SUCCESS, s1\<lparr>mem_regions := (mem_regions s)[?c :=
        \<lparr>start_addr = x, end_addr = y, orig_start_addr = x, region_type = type\<rparr>],
      region_count := region_count s + 1\<rparr>)"
    unfolding add_region_record_def Let_def s1 by (simp add: s1_def rotary_const)
qed

lemma add_record_slots_prefix:
  assumes "slots_prefix s" "region_count s \<noteq> 16" "x \<noteq> 0"
  shows "slots_prefix (snd (add_region_record x y type s))"
  using assms add_region_record_slot(2,3) [OF assms(1,2)]
    add_region_record_slot(1) [OF assms(1,2), where x = x and y = y and type = type]
  by (auto simp: slots_prefix_def rotary_const nth_list_update)

lemma add_record_pfn_bounded:
  assumes "slots_prefix s" "region_count s \<noteq> 16" "pfn_bounded s"
  shows "pfn_bounded (snd (add_region_record x y type s))"
  using assms add_region_record_slot(2,3) [OF assms(1,2)]
    add_region_record_slot(1) [OF assms(1,2), where x = x and y = y and type = type]
  by (auto simp: pfn_bounded_def dest!: subsetD [OF set_update_subset_insert] intro: order_trans)

lemma add_record_avoids_kernel:
  assumes "clear_of_kernel k x y" "avoids_kernel k s"
  shows "avoids_kernel k (snd (add_region_record x y type s))"
  using assms
  by (auto simp: add_region_record_def Let_def avoids_kernel_def clear_of_kernel_def region_span_def
      split: option.splits dest!: subsetD [OF set_update_subset_insert])

text \<open>What the boot code relies on between the calls that describe the memory map.\<close>

definition region_table_inv :: "kernel_image \<Rightarrow> bootmem \<Rightarrow> bool" where
  "region_table_inv k s \<longleftrightarrow> slots_prefix s \<and> pfn_bounded s \<and> avoids_kernel k s"

lemma region_table_inv_reset: "region_table_inv k (bootmem_reset s)"
  by (auto simp: region_table_inv_def slots_prefix_def pfn_bounded_def avoids_kernel_def
      bootmem_reset_def empty_region_def region_span_def rotary_const rotary_macro)

lemma add_mem_region_returns:
  assumes "kernel_ok k"
  shows "\<exists>r s'. bootmem_add_mem_region k a b type s = Some (r, s')"
  using add_mem_region_preserves [where P = "\<lambda>_. True", OF assms] by simp

lemma aligned_not_zero: "0 < PAGE_ALIGN a \<Longrightarrow> PAGE_ALIGN a \<le> x \<Longrightarrow> x \<noteq> 0"
  by (metis word_not_simps(1) order_less_le_trans)

lemma add_mem_region_slots:
  assumes "kernel_ok k" and "slots_prefix s" "pfn_bounded s" and "0 < PAGE_ALIGN a"
  shows "\<exists>r s'. bootmem_add_mem_region k a b type s = Some (r, s') \<and> slots_prefix s' \<and> pfn_bounded s'"
proof (rule add_mem_region_preserves [where P = "\<lambda>s. slots_prefix s \<and> pfn_bounded s", OF assms(1)])
  show "slots_prefix s \<and> pfn_bounded s" using assms(2,3) ..
qed (use aligned_not_zero [OF assms(4)] in \<open>simp add: add_record_slots_prefix add_record_pfn_bounded\<close>)

lemma add_mem_region_inv:
  assumes "kernel_ok k" and "region_table_inv k s" and "0 < PAGE_ALIGN a"
    and "\<not> ends_with_kernel k (PAGE_ALIGN a) (PAGE_ALIGN_DOWN b)"
  shows "\<exists>r s'. bootmem_add_mem_region k a b type s = Some (r, s') \<and> region_table_inv k s'"
proof (rule add_mem_region_preserves [where P = "region_table_inv k", OF assms(1,2)])
  fix t x y
  assume "region_table_inv k t" "region_count t \<noteq> 16" "x < y" "PAGE_ALIGN a \<le> x"
    and "clear_of_kernel k x y \<or> ends_with_kernel k (PAGE_ALIGN a) (PAGE_ALIGN_DOWN b)"
  moreover from this have "x \<noteq> 0" using aligned_not_zero [OF assms(3)] by blast
  ultimately show "region_table_inv k (snd (add_region_record x y type t))"
    using assms(4) by (simp add: region_table_inv_def add_record_slots_prefix add_record_pfn_bounded add_record_avoids_kernel)
qed

text \<open>On such a request, unless it is refused, the part of the image from its start on becomes a region.\<close>

lemma add_mem_region_edge:
  assumes "slots_prefix s" and "\<not> add_rejected k (PAGE_ALIGN a) (PAGE_ALIGN_DOWN b) type s"
    and "ends_with_kernel k (PAGE_ALIGN a) (PAGE_ALIGN_DOWN b)"
  shows "\<exists>s'. bootmem_add_mem_region k a b type s = Some (E_SUCCESS, s') \<and> \<not> avoids_kernel k s'"
proof -
  let ?x = "PAGE_ALIGN a" and ?y = "PAGE_ALIGN_DOWN b"
  have e: "kernel_start k \<le> ?x" "?y = kernel_end k" "?x < ?y" "region_count s \<noteq> 16"
    using assms(2,3) by (auto simp: ends_with_kernel_def add_rejected_def)
  have clip: "clip_start k ?x ?y = ?x" "clip_stop k ?x ?y = ?y" using e(1,2) by (auto simp: clip_start_def clip_stop_def)
  have "bootmem_add_mem_region k a b type s = Some (add_region_record ?x ?y type s)"
    using add_clipped_result [OF assms(2)] e(1) clip by (simp add: not_less)
  note R = add_region_record_slot(1) [OF assms(1) e(4), of ?x ?y type] and c = add_region_record_slot(2) [OF assms(1) e(4)]
  let ?r = "\<lparr>start_addr = ?x, end_addr = ?y, orig_start_addr = ?x, region_type = type\<rparr>"
  have "?r \<in> set (mem_regions (snd (add_region_record ?x ?y type s)))"
    using c assms(1) by (simp add: R slots_prefix_def rotary_const set_update_memI)
  moreover have "unat ?x \<in> region_span ?r" "unat ?x \<in> kernel_span k"
    using e by (simp_all add: region_span_def kernel_span_def word_less_nat_alt word_le_nat_alt)
  ultimately have "\<not> avoids_kernel k (snd (add_region_record ?x ?y type s))" unfolding avoids_kernel_def by blast
  then show ?thesis using \<open>bootmem_add_mem_region k a b type s = _\<close> by (simp add: R)
qed

section \<open>Properties\<close>

text \<open>A table with one region, for the witnesses.\<close>

definition one_region :: "u32 \<Rightarrow> u32 \<Rightarrow> bootmem" where
  "one_region x y =
     \<lparr>mem_regions = \<lparr>start_addr = x, end_addr = y, orig_start_addr = x, region_type = MEM_REGION_AVAILABLE\<rparr>
        # replicate 15 empty_region, highest_pfn = PA_TO_PFN y, region_count = 1\<rparr>"

lemma one_region_wf: "x \<le> y \<Longrightarrow> y \<le> LOWMEM_PLIMIT \<Longrightarrow> bootmem_wf (one_region x y)"
  by (auto simp: one_region_def bootmem_wf_def region_ok_def available_def empty_region_def
      rotary_const nth_Cons' split: if_splits)

text \<open>
  C9. Memory \<^verbatim>\<open>bootmem_alloc\<close> returns is memory it owned and never returns again: in a
  well-formed table, for a power-of-two alignment, a non-NULL result is the virtual address
  of an aligned physical range of the requested size inside the free space, the range is
  gone from the free space afterwards, nothing is added to it, and the table stays
  well-formed.
\<close>

theorem bootmem_alloc_fresh:
  assumes "bootmem_wf s" and "n < 32" and "bootmem_alloc sz (2 ^ n) s = (va, s')" and "va \<noteq> 0"
  shows "bootmem_wf s' \<and> 2 ^ n dvd unat (VIR_TO_PHY va) \<and>
    {unat (VIR_TO_PHY va) ..< unat (VIR_TO_PHY va) + unat sz} \<subseteq> free_space s \<and>
    free_space s' \<subseteq> free_space s - {unat (VIR_TO_PHY va) ..< unat (VIR_TO_PHY va) + unat sz}"
  using bootmem_alloc_spec [OF assms] by blast

theorem bootmem_alloc_fresh_witness:
  "fst (bootmem_alloc 0x3000 (2 ^ 12) (one_region 0x200800 0x400000)) = 0xC0201000 \<and>
   2 ^ 12 dvd unat (VIR_TO_PHY 0xC0201000)"
proof -
  have run: "bootmem_alloc 0x3000 (2 ^ 12) (one_region 0x200800 0x400000) =
      (0xC0201000, (one_region 0x200800 0x400000)\<lparr>mem_regions :=
        \<lparr>start_addr = 0x204000, end_addr = 0x400000, orig_start_addr = 0x200800, region_type = 1\<rparr>
        # replicate 15 empty_region\<rparr>)"
    by (simp add: bootmem_alloc_def one_region_def region_fits_def rotary_const rotary_macro upt_rec)
  have "bootmem_wf (one_region 0x200800 0x400000)"
    by (rule one_region_wf) (simp_all add: rotary_const)
  from bootmem_alloc_fresh [OF this _ run] run show ?thesis by simp
qed

text \<open>
  \<^verbatim>\<open>bootmem_alloc\<close> gives up only when it has to: it returns NULL exactly when no available
  region has an aligned position below its end with the requested number of bytes behind it.
\<close>

lemma bootmem_alloc_null_iff:
  assumes "bootmem_wf s" and "n < 32"
  shows "fst (bootmem_alloc sz (2 ^ n) s) = 0 \<longleftrightarrow>
    (\<forall>r \<in> set (mem_regions s). available r \<longrightarrow>
       \<not> (\<exists>b. 2 ^ n dvd b \<and> unat (start_addr r) \<le> b \<and> b < unat (end_addr r) \<and>
            b + unat sz \<le> unat (end_addr r)))"
  using assms by (rule bootmem_alloc_null)

theorem bootmem_alloc_null_iff_witness:
  "fst (bootmem_alloc 0x3000 (2 ^ 0) (one_region 0x200000 0x202000)) = 0 \<and>
   \<not> (\<exists>b. 2 ^ 0 dvd b \<and> 0x200000 \<le> b \<and> b < (0x202000 :: nat) \<and> b + 0x3000 \<le> 0x202000)"
proof -
  have wf: "bootmem_wf (one_region 0x200000 0x202000)"
    by (rule one_region_wf) (simp_all add: rotary_const)
  have run: "fst (bootmem_alloc 0x3000 (2 ^ 0) (one_region 0x200000 0x202000)) = 0"
    by (simp add: bootmem_alloc_def one_region_def region_fits_def empty_region_def rotary_const rotary_macro upt_rec)
  show ?thesis using run bootmem_alloc_null_iff [OF wf, of 0 "0x3000"]
    by (simp add: one_region_def available_def)
qed

text \<open>
  C10. Describing the memory map, for an image whose end does not precede its start: every request
  returns, and one that does not start at address 0 keeps the used slots the first
  \<^const>\<open>region_count\<close> ones and every region below the highest frame number. Afterwards no region
  overlaps the kernel image, with exactly one exception: a request that starts inside the image and ends
  exactly where the image ends is not recognised as one inside the kernel. Unless it is refused for another reason it is
  registered, and then the table does contain a region of the kernel image.
\<close>

theorem bootmem_add_mem_region_sound:
  assumes "kernel_ok k" and "region_table_inv k s" and "0 < PAGE_ALIGN a"
  shows "\<exists>r s'. bootmem_add_mem_region k a b type s = Some (r, s') \<and> slots_prefix s' \<and> pfn_bounded s' \<and>
    (avoids_kernel k s' \<longleftrightarrow>
       \<not> (ends_with_kernel k (PAGE_ALIGN a) (PAGE_ALIGN_DOWN b) \<and> \<not> add_rejected k (PAGE_ALIGN a) (PAGE_ALIGN_DOWN b) type s))"
proof -
  have inv: "slots_prefix s" "pfn_bounded s" "avoids_kernel k s" using assms(2) by (simp_all add: region_table_inv_def)
  obtain r s' where r: "bootmem_add_mem_region k a b type s = Some (r, s')" "slots_prefix s'" "pfn_bounded s'"
    using add_mem_region_slots [OF assms(1) inv(1,2) assms(3)] by blast
  show ?thesis
  proof (cases "ends_with_kernel k (PAGE_ALIGN a) (PAGE_ALIGN_DOWN b)")
    case True
    then show ?thesis using r inv(3) add_mem_region_edge [of s k a b type, OF inv(1) _ True] add_rejected_result [of k a b type s]
      by (cases "add_rejected k (PAGE_ALIGN a) (PAGE_ALIGN_DOWN b) type s") auto
  next
    case False
    then show ?thesis using r add_mem_region_inv [of k s a b type, OF assms False] by (auto simp: region_table_inv_def)
  qed
qed

definition sample_image :: kernel_image where
  "sample_image = \<lparr>KERNEL_PHYS_START = 0x100000, KERNEL_PHYS_END = 0x180000\<rparr>"

lemma sample_image_bounds [simp]: "kernel_start sample_image = 0x100000" "kernel_end sample_image = 0x180000"
  by (simp_all add: sample_image_def kernel_start_def kernel_end_def rotary_macro rotary_const)

text \<open>A request around the image, and one for the image itself.\<close>

theorem bootmem_add_mem_region_sound_witness:
  "(\<exists>r s'. bootmem_add_mem_region sample_image 0x1000 0x400000 MEM_REGION_AVAILABLE (bootmem_reset (one_region 0 0)) = Some (r, s') \<and>
     slots_prefix s' \<and> avoids_kernel sample_image s') \<and>
   (\<exists>r s'. bootmem_add_mem_region sample_image 0x100000 0x180000 MEM_REGION_AVAILABLE (bootmem_reset (one_region 0 0)) = Some (r, s') \<and>
     slots_prefix s' \<and> \<not> avoids_kernel sample_image s')"
proof -
  let ?s = "bootmem_reset (one_region 0 0)"
  have k: "kernel_ok sample_image" by (simp add: kernel_ok_def)
  have "0 < PAGE_ALIGN 0x1000" "0 < PAGE_ALIGN 0x100000" by (simp_all add: rotary_macro rotary_const)
  note t = bootmem_add_mem_region_sound [OF k region_table_inv_reset this(1), of "0x400000" MEM_REGION_AVAILABLE "one_region 0 0"]
    bootmem_add_mem_region_sound [OF k region_table_inv_reset this(2), of "0x180000" MEM_REGION_AVAILABLE "one_region 0 0"]
  have "\<not> ends_with_kernel sample_image (PAGE_ALIGN 0x1000) (PAGE_ALIGN_DOWN 0x400000)"
    "ends_with_kernel sample_image (PAGE_ALIGN 0x100000) (PAGE_ALIGN_DOWN 0x180000)"
    "\<not> add_rejected sample_image (PAGE_ALIGN 0x100000) (PAGE_ALIGN_DOWN 0x180000) MEM_REGION_AVAILABLE ?s"
    by (simp_all add: ends_with_kernel_def add_rejected_def bootmem_reset_def rotary_macro rotary_const)
  with t show ?thesis by (simp only: simp_thms) blast
qed

lemma replicate_16: "replicate 16 x = x # replicate 15 x"
  by (simp add: numeral_eq_Suc)

text \<open>
  A request inside the kernel image that ends exactly at the image's end is registered: the
  check for a region entirely in kernel memory compares the ends with \<^verbatim>\<open><\<close>, so the
  image itself is accepted as an available region.
\<close>

lemma bootmem_add_mem_region_kernel_edge:
  "\<exists>s'. bootmem_add_mem_region sample_image 0x100000 0x180000 MEM_REGION_AVAILABLE
      (bootmem_reset (one_region 0 0)) = Some (E_SUCCESS, s') \<and>
     free_space s' = kernel_span sample_image"
proof -
  let ?s = "bootmem_reset (one_region 0 0)"
  have "slots_prefix ?s" "region_count ?s \<noteq> 16"
    using region_table_inv_reset [of sample_image] by (auto simp: region_table_inv_def bootmem_reset_def)
  note R = add_region_record_slot(1) [OF this]
  have "bootmem_add_mem_region sample_image 0x100000 0x180000 MEM_REGION_AVAILABLE ?s =
      Some (add_region_record 0x100000 0x180000 MEM_REGION_AVAILABLE ?s)"
    using add_clipped_result [where k = sample_image and a = "0x100000" and b = "0x180000"
      and type = MEM_REGION_AVAILABLE and s = ?s]
    by (simp add: add_rejected_def clip_start_def clip_stop_def bootmem_reset_def rotary_macro rotary_const)
  moreover have "{r \<in> set (mem_regions (snd (add_region_record 0x100000 0x180000 MEM_REGION_AVAILABLE ?s))). available r} =
      {\<lparr>start_addr = 0x100000, end_addr = 0x180000, orig_start_addr = 0x100000, region_type = MEM_REGION_AVAILABLE\<rparr>}"
    unfolding R by (auto simp: bootmem_reset_def empty_region_def available_def rotary_const replicate_16)
  then have "free_space (snd (add_region_record 0x100000 0x180000 MEM_REGION_AVAILABLE ?s)) = kernel_span sample_image"
    by (simp only: free_space_def region_span_def kernel_span_def sample_image_bounds
        UN_insert UN_empty Un_empty_right mem_region.simps)
  ultimately show ?thesis by (auto simp: R)
qed

end
