(* ===== verification/Multiboot.thy ===== *)
theory Multiboot
  imports Bootmem KString_Props
begin

text \<open>
  The hand-over from the boot loader, \<^verbatim>\<open>arch/x86/kernel/multiboot.c\<close>: the memory map is read from
  word memory and the region that holds the end of the kernel is registered with the boot memory
  allocator. The 64-bit division the file brings along and the printing of 64-bit numbers are
  modelled too; the log messages are not.
\<close>

section \<open>64-bit division\<close>

text \<open>\<open>udivmod_loop n\<close> are the iterations for \<^verbatim>\<open>i = n - 1\<close> down to 0.\<close>

primrec udivmod_loop :: "nat \<Rightarrow> u64 \<Rightarrow> u64 \<Rightarrow> u64 \<Rightarrow> u64 \<Rightarrow> u64 \<times> u64" where
  "udivmod_loop 0 dividend divisor q r = (q, r)"
| "udivmod_loop (Suc i) dividend divisor q r =
     (let r1 = push_bit 1 r;
          r2 = r1 OR (drop_bit i dividend AND 1)
      in if r2 \<ge> divisor then udivmod_loop i dividend divisor (q OR push_bit i 1) (r2 - divisor)
         else udivmod_loop i dividend divisor q r2)"

definition udivmod64 :: "u64 \<Rightarrow> u64 \<Rightarrow> u64 \<times> u64" where
  "udivmod64 dividend divisor = udivmod_loop 64 dividend divisor 0 0"

text \<open>The characters of \<^verbatim>\<open>"0123456789abcdef"\<close>; index 16 is the terminating NUL.\<close>

definition digit_chars :: "u8 list" where
  "digit_chars = [48, 49, 50, 51, 52, 53, 54, 55, 56, 57, 97, 98, 99, 100, 101, 102, 0]"

partial_function (option) u64_digits :: "u64 \<Rightarrow> u64 \<Rightarrow> u32 \<Rightarrow> mem \<Rightarrow> (u32 \<times> mem) option" where
  "u64_digits v base ptr m = do {
     let qr = udivmod64 v base;
     (if unat (snd qr) \<ge> length digit_chars then None
      else do {
        let m1 = m(ptr := digit_chars ! unat (snd qr));
        (if fst qr \<noteq> 0 then u64_digits (fst qr) base (ptr + 1) m1 else Some (ptr + 1, m1))
      })
   }"

function swap_ends :: "u32 \<Rightarrow> u32 \<Rightarrow> mem \<Rightarrow> mem" where
  "swap_ends ptr1 ptr m =
     (if ptr1 < ptr
      then (let tmp = m ptr; m1 = m(ptr := m ptr1); m2 = m1(ptr1 := tmp) in swap_ends (ptr1 + 1) (ptr - 1) m2)
      else m)"
  by pat_completeness auto
termination
proof (relation "measure (\<lambda>(p, q, m). unat q - unat p)", goal_cases)
  case (2 p q m)
  then have "unat p < unat q" by (simp add: word_less_nat_alt)
  moreover have "unat (q - 1) = unat q - 1" using \<open>unat p < unat q\<close> by (subst unat_sub_small) auto
  moreover have "unat (p + 1) = unat p + 1" using \<open>unat p < unat q\<close> unat_u32_less [of q] by (subst unat_add_small) auto
  ultimately show ?case by simp
qed simp

declare swap_ends.simps [simp del]

text \<open>The base is an \<^verbatim>\<open>int\<close>, which the call of the division extends to 64 bits.\<close>

definition uint64_to_str :: "u64 \<Rightarrow> u32 \<Rightarrow> i32 \<Rightarrow> mem \<Rightarrow> mem option" where
  "uint64_to_str v str base m = do {
     (ptr, m1) \<leftarrow> u64_digits v (scast base) str m;
     Some (swap_ends str (ptr - 1) (m1(ptr := 0)))
   }"

section \<open>The memory map\<close>

record mmap_entry =
  me_size :: u32
  me_addr :: u64
  me_len :: u64
  me_type :: u32

definition MULTIBOOT_BOOTLOADER_MAGIC :: u32 where [rotary_const]: "MULTIBOOT_BOOTLOADER_MAGIC = 0x2BADB002"
definition MULTIBOOT_INFO_MEM_MAP :: u32 where [rotary_const]: "MULTIBOOT_INFO_MEM_MAP = 0x40"
definition MULTIBOOT_MEMORY_AVAILABLE :: u32 where [rotary_const]: "MULTIBOOT_MEMORY_AVAILABLE = 1"

definition read64 :: "(u32 \<Rightarrow> u32) \<Rightarrow> u32 \<Rightarrow> u64" where
  "read64 w a = push_bit 32 (ucast (w (a + 4))) OR ucast (w a)"

definition read_entry :: "(u32 \<Rightarrow> u32) \<Rightarrow> u32 \<Rightarrow> mmap_entry" where
  "read_entry w a = \<lparr>me_size = w a, me_addr = read64 w (a + 4), me_len = read64 w (a + 12), me_type = w (a + 20)\<rparr>"

text \<open>The body of the loop: the test, the truncation to 32 bits and the registration.\<close>

definition holds_kernel_end :: "kernel_image \<Rightarrow> mmap_entry \<Rightarrow> bool" where
  "holds_kernel_end k e \<longleftrightarrow> me_addr e \<le> ucast (KERNEL_PHYS_END k) \<and> me_addr e + me_len e \<ge> ucast (KERNEL_PHYS_END k) \<and>
     me_type e = MULTIBOOT_MEMORY_AVAILABLE"

definition visit_entry :: "kernel_image \<Rightarrow> mmap_entry \<Rightarrow> bootmem \<Rightarrow> bootmem option" where
  "visit_entry k e b =
     (if holds_kernel_end k e
      then do {
        let start = ucast (me_addr e);
        let stop = ucast (me_addr e + me_len e);
        let type = (if me_type e = MULTIBOOT_MEMORY_AVAILABLE then MEM_REGION_AVAILABLE else MEM_REGION_RESERVED);
        rb \<leftarrow> bootmem_add_mem_region k start stop type b;
        Some (snd rb)
      }
      else Some b)"

partial_function (option) mmap_loop :: "kernel_image \<Rightarrow> (u32 \<Rightarrow> u32) \<Rightarrow> u32 \<Rightarrow> u32 \<Rightarrow> bootmem \<Rightarrow> bootmem option" where
  "mmap_loop k w stop mmap b =
     (if mmap < stop
      then do {
        let e = read_entry w mmap;
        b1 \<leftarrow> visit_entry k e b;
        mmap_loop k w stop (mmap + me_size e + 4) b1
      }
      else Some b)"

record multiboot_info =
  mb_flags :: u32
  mmap_length :: u32
  mmap_addr :: u32

definition multiboot_parse :: "kernel_image \<Rightarrow> (u32 \<Rightarrow> u32) \<Rightarrow> u32 \<Rightarrow> multiboot_info \<Rightarrow> bootmem \<Rightarrow> (u32 \<times> bootmem) option" where
  "multiboot_parse k w mboot_magic info b =
     (if mboot_magic \<noteq> MULTIBOOT_BOOTLOADER_MAGIC then Some (0, b)
      else if mb_flags info AND MULTIBOOT_INFO_MEM_MAP \<noteq> 0
      then do {
        b1 \<leftarrow> mmap_loop k w (mmap_addr info + mmap_length info) (mmap_addr info) b;
        Some (1, b1)
      }
      else Some (1, b))"

section \<open>Division\<close>

lemma unat_u64_less: "unat (a :: u64) < 2 ^ 64"
  using unsigned_less [of a, where ?'a = nat] by simp

lemma unat_drop_one: "unat (drop_bit i (n :: u64) AND 1) = unat n div 2 ^ i mod 2"
proof -
  have "drop_bit i n AND 1 = take_bit 1 (drop_bit i n)" by (simp add: take_bit_eq_mask)
  then show ?thesis
    by (simp only: unsigned_take_bit_eq unat_drop_bit_eq) (simp only: take_bit_eq_mod drop_bit_eq_div power_one_right)
qed

lemma div_double: "n div 2 ^ i = 2 * (n div 2 ^ Suc i) + n div 2 ^ i mod (2 :: nat)"
proof -
  have "n div 2 ^ Suc i = n div 2 ^ i div 2" by (simp only: power_Suc2 div_mult2_eq)
  then show ?thesis by simp
qed

lemma quotient_unique:
  fixes n q d r :: nat
  assumes "n = q * d + r" "r < d"
  shows "n div d = q \<and> n mod d = r"
  using assms by simp

text \<open>One step of long division in base two.\<close>

lemma long_division_step:
  fixes m d b :: nat
  assumes b: "b < 2" and d: "0 < d" and n: "n = 2 * m + b" and r: "r = 2 * (m mod d) + b"
  shows "d \<le> r \<Longrightarrow> n div d = 2 * (m div d) + 1 \<and> n mod d = r - d"
    and "\<not> d \<le> r \<Longrightarrow> n div d = 2 * (m div d) \<and> n mod d = r"
proof -
  have md: "m mod d < d" using d by simp
  have rd: "r < 2 * d" unfolding r using md b by linarith
  have "n = 2 * (m div d * d + m mod d) + b" unfolding div_mult_mod_eq by (rule n)
  then have nr: "n = 2 * (m div d) * d + r" unfolding r by (simp only: algebra_simps)
  {
    assume le: "d \<le> r"
    have "n = (2 * (m div d) + 1) * d + (r - d)" unfolding nr using le by (simp add: algebra_simps)
    moreover have "r - d < d" using rd le by linarith
    ultimately show "n div d = 2 * (m div d) + 1 \<and> n mod d = r - d" by (rule quotient_unique)
  next
    assume "\<not> d \<le> r"
    then show "n div d = 2 * (m div d) \<and> n mod d = r" using nr by (intro quotient_unique) simp_all
  }
qed

text \<open>The two bit operations of an iteration as arithmetic.\<close>

lemma unat_shift_in:
  fixes r b :: u64
  assumes "unat r < 2 ^ 63" "unat b < 2"
  shows "unat (push_bit 1 r OR b) = 2 * unat r + unat b"
proof -
  have b: "b = 0 \<or> b = 1" using assms(2) by (auto simp: less_2_cases_iff word_unat_eq_iff)
  have "push_bit 1 r OR b = push_bit 1 r + b"
  proof (rule disjunctive_add_eq_or [symmetric], rule bit_eqI)
    fix j
    show "bit (push_bit 1 r AND b) j \<longleftrightarrow> bit (0 :: u64) j"
      using b unfolding bit_and_iff bit_push_bit_iff by (auto simp: bit_1_iff)
  qed
  moreover have "unat (push_bit 1 r) = 2 * unat r"
    using assms(1) by (simp add: push_bit_eq_mult unat_word_ariths)
  ultimately show ?thesis using assms by (simp add: unat_word_ariths)
qed

lemma unat_power2_u64: "n < 64 \<Longrightarrow> unat (2 ^ n :: u64) = 2 ^ n"
  by transfer simp

lemma unat_add_u64: "unat a + unat b < 2 ^ 64 \<Longrightarrow> unat (a + b :: u64) = unat a + unat b"
  by (simp add: unat_word_ariths)

lemma unat_set_bit_above:
  fixes q :: u64
  assumes "unat q = 2 * c * 2 ^ i" "i < 64"
  shows "unat (q OR push_bit i 1) = (2 * c + 1) * 2 ^ i"
proof -
  have "unat q div 2 ^ i = 2 * c" using assms(1) by simp
  then have "\<not> bit (unat q) i" by (simp add: bit_iff_odd)
  then have nb: "\<not> bit q i" by (simp add: bit_unsigned_iff)
  have "q OR push_bit i 1 = q + push_bit i 1"
  proof (rule disjunctive_add_eq_or [symmetric], rule bit_eqI)
    fix j
    show "bit (q AND push_bit i 1) j \<longleftrightarrow> bit (0 :: u64) j" using nb by (auto simp: bit_simps)
  qed
  moreover have one: "unat (push_bit i (1 :: u64)) = 2 ^ i" using assms(2) by (simp add: push_bit_eq_mult unat_power2_u64)
 moreover have "unat q + 2 ^ i < 2 ^ 64"
  proof -
    have p: "(2 :: nat) ^ 64 = 2 * 2 ^ (63 - i) * 2 ^ i"
      using assms(2) by (simp only: power_Suc [symmetric] power_add [symmetric]) simp
    have "2 * c * 2 ^ i < 2 * 2 ^ (63 - i) * 2 ^ i" using unat_u64_less [of q] unfolding assms(1) p .
    then have "2 * c + 1 < 2 * 2 ^ (63 - i)" by simp
    then have "(2 * c + 1) * 2 ^ i < 2 * 2 ^ (63 - i) * 2 ^ i" by (rule mult_strict_right_mono) simp
    then show ?thesis unfolding p assms(1) by (simp add: algebra_simps)
  qed
  ultimately have "unat (q OR push_bit i 1) = unat q + 2 ^ i" using unat_add_u64 [of q "push_bit i 1"] by simp
  then show ?thesis unfolding assms(1) by (simp only: distrib_right mult_1)
qed

lemma udivmod_loop_correct:
  fixes n d :: u64
  assumes d: "0 < d" and i: "i \<le> 64"
    and q: "unat q = unat n div 2 ^ i div unat d * 2 ^ i" and r: "unat r = unat n div 2 ^ i mod unat d"
  shows "udivmod_loop i n d q r = (n div d, n mod d)"
  using i q r
proof (induction i arbitrary: q r)
  case 0
  then show ?case by (simp add: word_unat_eq_iff unat_div unat_mod)
next
  case (Suc i)
  let ?N = "unat n div 2 ^ i" and ?M = "unat n div 2 ^ Suc i" and ?D = "unat d" and ?b = "drop_bit i n AND 1"
  let ?r2 = "push_bit 1 r OR ?b"
  have D: "0 < ?D" using d by (simp add: word_less_nat_alt)
  have b: "unat ?b = ?N mod 2" by (rule unat_drop_one)
  have "?M \<le> unat n div 2" by (intro div_le_mono2) simp_all
  moreover have "unat n div 2 < 2 ^ 63" using unat_u64_less [of n] by simp
  ultimately have "unat r < 2 ^ 63" using Suc.prems(3) mod_less_eq_dividend [of ?M ?D] by linarith
  then have r2: "unat ?r2 = 2 * (?M mod ?D) + unat ?b" using b Suc.prems(3) by (subst unat_shift_in) simp_all
  have N: "?N = 2 * ?M + unat ?b" unfolding b by (rule div_double)
  have b2: "unat ?b < 2" unfolding b by simp
  note division = long_division_step [OF b2 D N r2]
  have q: "unat q = 2 * (?M div ?D) * 2 ^ i" using Suc.prems(2) by simp
  have step: "udivmod_loop i n d q' r' = (n div d, n mod d)"
    if "unat q' = ?N div ?D * 2 ^ i" "unat r' = ?N mod ?D" for q' r'
    using Suc.IH [of q' r'] Suc.prems(1) that by simp
  show ?case
  proof (cases "d \<le> ?r2")
    case True
    then have le: "?D \<le> unat ?r2" by (simp add: word_le_nat_alt)
    have "udivmod_loop i n d (q OR push_bit i 1) (?r2 - d) = (n div d, n mod d)"
    proof (rule step)
      show "unat (q OR push_bit i 1) = ?N div ?D * 2 ^ i"
        using division(1) [OF le] unat_set_bit_above [OF q] Suc.prems(1) by simp
      show "unat (?r2 - d) = ?N mod ?D" using division(1) [OF le] True by (simp only: unat_sub)
    qed
    then show ?thesis using True by (simp add: Let_def)
  next
    case False
    then have "\<not> ?D \<le> unat ?r2" by (simp add: word_le_nat_alt)
    then have "udivmod_loop i n d q ?r2 = (n div d, n mod d)" using division(2) q by (intro step) simp_all
    then show ?thesis using False by (simp add: Let_def)
  qed
qed

lemma udivmod64_div: "d \<noteq> 0 \<Longrightarrow> udivmod64 n d = (n div d, n mod d)"
  unfolding udivmod64_def using unat_u64_less [of n]
  by (intro udivmod_loop_correct) (simp_all add: word_greater_zero_iff)

text \<open>
  The division the file brings along because the kernel has no 64-bit division routine,
  \<^verbatim>\<open>udivmod64\<close>, computes quotient and remainder of every dividend by every divisor but zero: the
  shifted remainder never loses a bit, although the divisor may use all 64.
\<close>

lemma udivmod64_correct: "d \<noteq> 0 \<Longrightarrow> udivmod64 n d = (n div d, n mod d)"
  by (rule udivmod64_div)

lemma udivmod64_correct_witness:
  "(0xFFFFFFFFFFFFFFFF :: u64) \<noteq> 0 \<and> udivmod64 0xFFFFFFFFFFFFFFFE 0xFFFFFFFFFFFFFFFF = (0, 0xFFFFFFFFFFFFFFFE)"
  using udivmod64_correct [of "0xFFFFFFFFFFFFFFFF" "0xFFFFFFFFFFFFFFFE"] by simp

section \<open>Printing 64-bit numbers\<close>

text \<open>The digits of a number, least significant first; zero has one digit.\<close>

definition number_digits :: "nat \<Rightarrow> nat \<Rightarrow> nat list" where
  "number_digits b n = (if n = 0 then [0] else rdigits b n)"

definition notation64 :: "nat \<Rightarrow> nat \<Rightarrow> u8 list" where
  "notation64 b n = map ((!) digit_chars) (rev (number_digits b n))"

lemma number_digits_step:
  "2 \<le> b \<Longrightarrow> number_digits b n = n mod b # (if n div b = 0 then [] else number_digits b (n div b))"
  by (cases "n = 0") (simp_all add: number_digits_def rdigits_pos)

lemma number_digits_length: "2 \<le> b \<Longrightarrow> n < 2 ^ 64 \<Longrightarrow> length (number_digits b n) \<le> 64"
proof -
  assume b: "2 \<le> b" and n: "n < 2 ^ 64"
  have "(2 :: nat) ^ 64 \<le> b ^ 64" using b by (rule power_mono) simp
  then show ?thesis using n rdigits_length [of n b 64] by (simp add: number_digits_def)
qed

lemma u64_digits_store:
  fixes v b :: u64
  assumes "2 \<le> unat b" "unat b \<le> 16" and "length xs + length (number_digits (unat b) (unat v)) \<le> 2 ^ 32"
  shows "u64_digits v b (p + of_nat (length xs)) (store m p xs) =
    (let ys = xs @ map ((!) digit_chars) (number_digits (unat b) (unat v)) in Some (p + of_nat (length ys), store m p ys))"
  using assms(3)
proof (induction "unat v" arbitrary: v xs rule: less_induct)
  case less
  let ?d = "unat v mod unat b" and ?q = "unat v div unat b"
  let ?ys = "xs @ [digit_chars ! ?d]"
  have b0: "b \<noteq> 0" using assms(1) by auto
  have uq: "unat (v div b) = ?q" "unat (v mod b) = ?d" by (simp_all add: unat_div unat_mod)
  have "?d < unat b" using assms(1) by simp
  then have d: "?d < length digit_chars" using assms(2) by (simp add: digit_chars_def)
  have nd: "number_digits (unat b) (unat v) = ?d # (if ?q = 0 then [] else number_digits (unat b) ?q)"
    by (rule number_digits_step [OF assms(1)])
  have w: "(store m p xs)(p + of_nat (length xs) := digit_chars ! ?d) = store m p ?ys"
    using less.prems nd by (intro store_snoc) simp
  have "u64_digits v b (p + of_nat (length xs)) (store m p xs) =
      (if ?q \<noteq> 0 then u64_digits (v div b) b (p + of_nat (length ?ys)) (store m p ?ys)
       else Some (p + of_nat (length ?ys), store m p ?ys))"
    using d by (subst u64_digits.simps)
      (simp add: udivmod64_div [OF b0] uq w Let_def ac_simps flip: unat_eq_zero [of "v div b"])
  moreover have "u64_digits (v div b) b (p + of_nat (length ?ys)) (store m p ?ys) =
      (let ys = ?ys @ map ((!) digit_chars) (number_digits (unat b) ?q) in Some (p + of_nat (length ys), store m p ys))"
    if "?q \<noteq> 0"
  proof -
    have "?q < unat v" using that assms(1) by (intro div_less_dividend) (auto intro: Nat.gr0I)
    then show ?thesis using less.hyps [of "v div b" ?ys] less.prems that unfolding uq nd by simp
  qed
  ultimately show ?case unfolding nd by (simp add: Let_def)
qed

lemma list_ends: "2 \<le> length xs \<Longrightarrow> \<exists>x ys y. xs = x # ys @ [y]"
  by (cases xs; cases "tl xs" rule: rev_cases) auto

lemma swap_ends_store:
  assumes "unat p + length (us @ xs @ vs) < 2 ^ 32" "us @ xs \<noteq> []"
  shows "swap_ends (p + of_nat (length us)) (p + of_nat (length us + length xs) - 1) (store m p (us @ xs @ vs)) =
    store m p (us @ rev xs @ vs)"
  using assms
proof (induction "length xs" arbitrary: us xs vs rule: less_induct)
  case less
  have at: "unat (p + of_nat i) = unat p + i" if "i \<le> length (us @ xs @ vs)" for i
    using that less.prems(1) by (subst unat_add_small) (simp_all add: unat_le_imp_of_nat)
  have last: "p + of_nat (length us + length xs) - 1 = p + of_nat (length us + length xs - 1)"
    using less.prems(2) by (cases "length us + length xs") simp_all
  show ?case
  proof (cases "length xs < 2")
    case True
    then have "rev xs = xs" by (cases xs; cases "tl xs") auto
    moreover have "\<not> p + of_nat (length us) < p + of_nat (length us + length xs - 1)"
    proof (cases "xs = []")
      case True
      then have "unat (p + of_nat (length us)) \<ge> unat (p + of_nat (length us - 1))" by (subst (1 2) at) simp_all
      then show ?thesis using True by (simp add: word_less_nat_alt)
    qed (use True in \<open>cases xs; simp\<close>)
    ultimately show ?thesis unfolding last by (subst swap_ends.simps) simp
  next
    case False
    then obtain x ys y where xs: "xs = x # ys @ [y]" using list_ends [of xs] by auto
    let ?a = "length us" and ?b = "length us + Suc (length ys)"
    let ?A = "p + of_nat ?a" and ?B = "p + of_nat ?b"
    have ra: "store m p (us @ xs @ vs) ?A = x" and rb: "store m p (us @ xs @ vs) ?B = y"
      using less.prems by (simp_all add: store_at xs nth_append del: of_nat_add of_nat_Suc)
    have w: "(store m p (us @ xs @ vs))(?B := x, ?A := y) = store m p ((us @ [y]) @ ys @ [x] @ vs)"
      using less.prems by (simp add: store_upd xs list_update_append nth_append del: of_nat_add of_nat_Suc)
    have lt: "?A < ?B" unfolding word_less_nat_alt by (subst (1 2) at) (simp_all add: xs)
    have "swap_ends ?A ?B (store m p (us @ xs @ vs)) =
        swap_ends (?A + 1) (?B - 1) (store m p ((us @ [y]) @ ys @ [x] @ vs))"
      unfolding swap_ends.simps [of ?A ?B] Let_def ra rb w by (simp only: lt if_True)
    moreover have "swap_ends (p + of_nat (length (us @ [y]))) (p + of_nat (length (us @ [y]) + length ys) - 1)
        (store m p ((us @ [y]) @ ys @ ([x] @ vs))) = store m p ((us @ [y]) @ rev ys @ ([x] @ vs))"
      using less.prems by (intro less.hyps) (auto simp: xs)
    moreover have "?A + 1 = p + of_nat (length (us @ [y]))" "?B = p + of_nat (length (us @ [y]) + length ys)"
      by simp_all
    ultimately show ?thesis unfolding last by (simp add: xs)
  qed
qed

lemma uint64_to_str_store:
  assumes "2 \<le> sint base" "sint base \<le> 16" and "unat str + 65 < 2 ^ 32"
  shows "uint64_to_str v str base m = Some (store m str (notation64 (unat base) (unat v) @ [0])) \<and>
    length (notation64 (unat base) (unat v)) \<le> 64 \<and>
    foldl (\<lambda>n d. n * unat base + d) 0 (rev (number_digits (unat base) (unat v))) = unat v"
proof -
  have ub: "int (unat base) = sint base" using assms(1,2) by (simp add: uint_sint take_bit_int_eq_self)
  then have "2 \<le> unat base" "unat base \<le> 16" using assms by linarith+
  have sc: "unat (scast base :: u64) = unat base"
  proof -
    have "(word_of_int (sint base) :: u64) = scast base" by (rule of_int_sint)
    then have "uint (scast base :: u64) = sint base mod 2 ^ 64" using uint_word_of_int [of "sint base", where ?'a = 64] by simp
    also have "\<dots> = int (unat base)" using assms(1,2) ub by simp
    finally have "uint (scast base :: u64) = int (unat base)" .
    then show ?thesis by (simp only: unat_eq_nat_uint nat_int)
  qed
  let ?b = "unat base" and ?ds = "map ((!) digit_chars) (number_digits (unat base) (unat v))"
  have len: "length ?ds \<le> 64" using number_digits_length [of ?b "unat v"] unat_u64_less [of v] \<open>2 \<le> ?b\<close> by simp
  have ne: "?ds \<noteq> []" using number_digits_step [OF \<open>2 \<le> ?b\<close>] by simp
  have "u64_digits v (scast base) str m = Some (str + of_nat (length ?ds), store m str ?ds)"
    using u64_digits_store [of "scast base" "[]" v str m] len \<open>2 \<le> ?b\<close> \<open>?b \<le> 16\<close> unfolding sc by (simp add: Let_def)
  moreover have "swap_ends str (str + of_nat (length ?ds) - 1) (store m str (?ds @ [0])) = store m str (rev ?ds @ [0])"
    using swap_ends_store [of str "[]" ?ds "[0]" m] len ne assms(3) by simp
  moreover have "(store m str ?ds)(str + of_nat (length ?ds) := 0) = store m str (?ds @ [0])"
    using len by (intro store_snoc) simp
  ultimately have "uint64_to_str v str base m = Some (store m str (rev ?ds @ [0]))"
    by (simp only: uint64_to_str_def bind.simps prod.case)
  then show ?thesis using len rdigits_value [OF \<open>2 \<le> ?b\<close>, of "unat v"]
    by (simp add: notation64_def rev_map number_digits_def)
qed

text \<open>
  C24: \<^verbatim>\<open>uint64_to_str\<close> returns for every 64-bit number and every base from 2 to 16: the digit loop and
  the reversal end, at most 64 digits and a NUL are written, the text is the notation of the
  number in the base (the digits, most significant first, are those of the number and give back
  its value), and no other byte changes. The buffer must not wrap around the address space,
  because the reversal compares addresses.
\<close>

theorem uint64_to_str_returns:
  assumes "2 \<le> sint base" "sint base \<le> 16" and "unat str + 65 < 2 ^ 32"
  shows "uint64_to_str v str base m = Some (store m str (notation64 (unat base) (unat v) @ [0])) \<and>
    length (notation64 (unat base) (unat v)) \<le> 64 \<and>
    foldl (\<lambda>n d. n * unat base + d) 0 (rev (number_digits (unat base) (unat v))) = unat v"
  using uint64_to_str_store [OF assms] .

theorem uint64_to_str_returns_witness:
  "uint64_to_str 0x123456789AB 0x1000 16 (\<lambda>a. 0) = Some (store (\<lambda>a. 0) 0x1000 (notation64 16 0x123456789AB @ [0])) \<and>
    notation64 16 0x123456789AB = [49, 50, 51, 52, 53, 54, 55, 56, 57, 97, 98]"
proof
  show "uint64_to_str 0x123456789AB 0x1000 16 (\<lambda>a. 0) = Some (store (\<lambda>a. 0) 0x1000 (notation64 16 0x123456789AB @ [0]))"
    using uint64_to_str_returns [of 16 "0x1000" "0x123456789AB" "\<lambda>a. 0"] by simp
  show "notation64 16 0x123456789AB = [49, 50, 51, 52, 53, 54, 55, 56, 57, 97, 98]"
    by (simp add: notation64_def number_digits_def rdigits.simps digit_chars_def)
qed

section \<open>Registering the memory map\<close>

text \<open>
  \<open>mmap_layout w a es stop\<close>: the entries \<open>es\<close> lie one after another from address \<open>a\<close> up to
  \<open>stop\<close>; the size field of an entry does not count itself.
\<close>

primrec mmap_layout :: "(u32 \<Rightarrow> u32) \<Rightarrow> u32 \<Rightarrow> mmap_entry list \<Rightarrow> u32 \<Rightarrow> bool" where
  "mmap_layout w a [] stop \<longleftrightarrow> a = stop"
| "mmap_layout w a (e # es) stop \<longleftrightarrow> a < stop \<and> read_entry w a = e \<and> mmap_layout w (a + me_size e + 4) es stop"

text \<open>
  The specification, in numbers: whether an entry is available memory that contains the end of the kernel image
  (the end of the entry is computed with 64 bits), and the registrations of a list of entries, in order, each cut to 32 bits.
\<close>

definition entry_end :: "mmap_entry \<Rightarrow> nat" where
  "entry_end e = (unat (me_addr e) + unat (me_len e)) mod 2 ^ 64"

definition contains_kernel_end :: "kernel_image \<Rightarrow> mmap_entry \<Rightarrow> bool" where
  "contains_kernel_end k e \<longleftrightarrow> me_type e = 1 \<and> unat (me_addr e) \<le> unat (KERNEL_PHYS_END k) \<and> unat (KERNEL_PHYS_END k) \<le> entry_end e"

definition entry_start :: "mmap_entry \<Rightarrow> u32" where
  "entry_start e = of_nat (unat (me_addr e))"

definition entry_stop :: "mmap_entry \<Rightarrow> u32" where
  "entry_stop e = of_nat (entry_end e)"

primrec register_regions :: "kernel_image \<Rightarrow> mmap_entry list \<Rightarrow> bootmem \<Rightarrow> bootmem option" where
  "register_regions k [] b = Some b"
| "register_regions k (e # es) b = do {
     rb \<leftarrow> bootmem_add_mem_region k (entry_start e) (entry_stop e) 1 b;
     register_regions k es (snd rb)
   }"

lemma unat_entry_end: "unat (me_addr e + me_len e) = entry_end e"
  by (simp add: entry_end_def unat_word_ariths)

lemma entry_words: "entry_start e = ucast (me_addr e)" "entry_stop e = ucast (me_addr e + me_len e)"
  unfolding entry_start_def entry_stop_def unat_entry_end [symmetric] by simp_all

lemma holds_kernel_end_iff: "holds_kernel_end k e \<longleftrightarrow> contains_kernel_end k e"
proof -
  have "unat (ucast (KERNEL_PHYS_END k) :: u64) = unat (KERNEL_PHYS_END k)"
    using unat_u32_less [of "KERNEL_PHYS_END k"] by (simp add: unsigned_ucast_eq take_bit_nat_eq_self)
  then show ?thesis
    by (auto simp: holds_kernel_end_def contains_kernel_end_def word_le_nat_alt unat_entry_end rotary_const)
qed

lemma visit_entry_eq:
  "visit_entry k e b = register_regions k (filter (contains_kernel_end k) [e]) b"
  using holds_kernel_end_iff [of k e]
  by (auto simp: visit_entry_def entry_words contains_kernel_end_def rotary_const)

lemma register_regions_append:
  "register_regions k (es @ fs) b = do { b1 \<leftarrow> register_regions k es b; register_regions k fs b1 }"
  by (induction es arbitrary: b) (simp_all add: bind_assoc)

lemma mmap_loop_eq:
  "mmap_layout w a es stop \<Longrightarrow> mmap_loop k w stop a b = register_regions k (filter (contains_kernel_end k) es) b"
proof (induction es arbitrary: a b)
  case Nil
  then show ?case by (subst mmap_loop.simps) simp
next
  case (Cons e es)
  have "mmap_loop k w stop a b = do {
      b1 \<leftarrow> register_regions k (filter (contains_kernel_end k) [e]) b;
      register_regions k (filter (contains_kernel_end k) es) b1 }"
    using Cons.prems Cons.IH by (subst mmap_loop.simps) (simp add: visit_entry_eq)
  also have "\<dots> = register_regions k (filter (contains_kernel_end k) (e # es)) b"
    by (simp flip: register_regions_append)
  finally show ?case .
qed

lemma register_regions_returns: "kernel_ok k \<Longrightarrow> \<exists>b'. register_regions k es b = Some b'"
proof (induction es arbitrary: b)
  case (Cons e es)
  then show ?case using add_mem_region_returns [of k "entry_start e" "entry_stop e" 1 b] by fastforce
qed simp

text \<open>The entries on which registration keeps the table sound, see \<^verbatim>\<open>bootmem_add_mem_region\<close>.\<close>

definition registrable :: "kernel_image \<Rightarrow> mmap_entry \<Rightarrow> bool" where
  "registrable k e \<longleftrightarrow> 0 < PAGE_ALIGN (entry_start e) \<and>
     \<not> ends_with_kernel k (PAGE_ALIGN (entry_start e)) (PAGE_ALIGN_DOWN (entry_stop e))"

lemma register_regions_inv:
  "kernel_ok k \<Longrightarrow> region_table_inv k b \<Longrightarrow> \<forall>e\<in>set es. registrable k e \<Longrightarrow>
    \<exists>b'. register_regions k es b = Some b' \<and> region_table_inv k b'"
proof (induction es arbitrary: b)
  case (Cons e es)
  then obtain r b1 where "bootmem_add_mem_region k (entry_start e) (entry_stop e) 1 b = Some (r, b1)"
    and "region_table_inv k b1"
    using add_mem_region_inv [of k b "entry_start e" "entry_stop e" 1] by (auto simp: registrable_def)
  then show ?case using Cons by simp
qed simp

text \<open>
  C21: \<^verbatim>\<open>multiboot_parse\<close> of a well-formed memory map returns 1, and does to the region table exactly
  the registrations, in the order of the map and cut to 32 bits, of the available entries from at most the end of the
  kernel image to at least that end, and of no other entry; with a map flag that is not set it returns 1 and registers nothing,
  and without the boot loader's magic number it returns 0 and registers nothing. A sound table stays sound if none of
  the entries registered starts at page 0 or starts inside the image and ends, cut to pages, exactly with it
  (those are the requests \<^verbatim>\<open>bootmem_add_mem_region\<close> does not treat correctly).
\<close>

theorem multiboot_parse_registers:
  assumes "mmap_layout w (mmap_addr info) es (mmap_addr info + mmap_length info)" and "kernel_ok k"
  shows "(\<exists>b'. multiboot_parse k w 0x2BADB002 info b = Some (1, b') \<and>
      (if bit (mb_flags info) 6
       then register_regions k (filter (contains_kernel_end k) es) b = Some b' \<and>
         (region_table_inv k b \<and> (\<forall>e\<in>set es. contains_kernel_end k e \<longrightarrow> registrable k e) \<longrightarrow> region_table_inv k b')
       else b' = b)) \<and>
    (magic \<noteq> 0x2BADB002 \<longrightarrow> multiboot_parse k w magic info b = Some (0, b))"
proof -
  obtain b' where b': "register_regions k (filter (contains_kernel_end k) es) b = Some b'"
    using register_regions_returns [OF assms(2)] by blast
  have "region_table_inv k b'" if "region_table_inv k b" "\<forall>e\<in>set es. contains_kernel_end k e \<longrightarrow> registrable k e"
    using register_regions_inv [of k b "filter (contains_kernel_end k) es"] assms(2) that b' by auto
  moreover have "(mb_flags info AND MULTIBOOT_INFO_MEM_MAP \<noteq> 0) = bit (mb_flags info) 6"
    using and_exp_eq_0_iff_not_bit [of "mb_flags info" 6] by (simp add: rotary_const)
  ultimately show ?thesis
    using b' mmap_loop_eq [OF assms(1), of k b] by (auto simp: multiboot_parse_def MULTIBOOT_BOOTLOADER_MAGIC_def)
qed

text \<open>A map of two entries: low memory, and the 127 MiB from 1 MiB on that hold the kernel.\<close>

definition sample_map :: "u32 \<Rightarrow> u32" where
  "sample_map = (\<lambda>a. 0)(0x9000 := 20, 0x900C := 0x9F000, 0x9014 := 1,
     0x9018 := 20, 0x901C := 0x100000, 0x9024 := 0x7EE0000, 0x902C := 1)"

definition sample_entries :: "mmap_entry list" where
  "sample_entries = [\<lparr>me_size = 20, me_addr = 0, me_len = 0x9F000, me_type = 1\<rparr>,
     \<lparr>me_size = 20, me_addr = 0x100000, me_len = 0x7EE0000, me_type = 1\<rparr>]"

definition sample_info :: multiboot_info where
  "sample_info = \<lparr>mb_flags = 0x4F, mmap_length = 48, mmap_addr = 0x9000\<rparr>"

theorem multiboot_parse_registers_witness:
  "(\<exists>b'. multiboot_parse sample_image sample_map 0x2BADB002 sample_info (bootmem_reset (one_region 0 0)) = Some (1, b') \<and>
      register_regions sample_image [sample_entries ! 1] (bootmem_reset (one_region 0 0)) = Some b' \<and>
      region_table_inv sample_image b') \<and>
    multiboot_parse sample_image sample_map 0 sample_info (bootmem_reset (one_region 0 0)) =
      Some (0, bootmem_reset (one_region 0 0))"
proof -
  have hold: "contains_kernel_end sample_image (sample_entries ! 1)" "\<not> contains_kernel_end sample_image (sample_entries ! 0)"
    by (simp_all add: contains_kernel_end_def entry_end_def sample_entries_def sample_image_def)
  have es: "sample_entries = [sample_entries ! 0, sample_entries ! 1]" by (simp add: sample_entries_def)
  have filt: "filter (contains_kernel_end sample_image) sample_entries = [sample_entries ! 1]"
    using hold by (subst es) simp
  have "mmap_layout sample_map (mmap_addr sample_info) sample_entries (mmap_addr sample_info + mmap_length sample_info)"
    by (simp add: sample_map_def sample_entries_def sample_info_def read_entry_def read64_def)
  moreover have "bit (mb_flags sample_info) 6" by (simp add: sample_info_def)
  moreover have "kernel_ok sample_image" by (simp add: kernel_ok_def)
  moreover have "\<forall>e\<in>set sample_entries. contains_kernel_end sample_image e \<longrightarrow> registrable sample_image e"
    using hold by (simp add: sample_entries_def registrable_def entry_words ends_with_kernel_def rotary_macro rotary_const)
  ultimately show ?thesis
    using multiboot_parse_registers [of sample_map sample_info sample_entries sample_image "bootmem_reset (one_region 0 0)" 0]
      region_table_inv_reset [of sample_image] unfolding filt by simp
qed

end
