(* ===== verification/Slab.thy ===== *)
theory Slab
  imports Arch_Paging
begin

text \<open>
  The slab allocator, \<^verbatim>\<open>kernel/mm/slab.c\<close>: state and operations, and the invariant of a slab.
  Memory is two typed stores indexed by virtual address, the slab headers and the \<^verbatim>\<open>next\<close>
  fields of free objects; a pointer is a 32-bit word and NULL is 0. The pages come from an
  argument \<open>page_get\<close>, which stands for \<^verbatim>\<open>page_alloc(SLAB_DEFAULT_ORDER, PR_KERNEL)\<close> followed
  by \<^verbatim>\<open>PAGE_VA\<close>; the kernel's instance of it is \<open>slab_get_pages\<close> in theory \<open>Kmalloc\<close>. What
  the allocator relies on is stated in the locale \<open>frame_source\<close>.
\<close>

section \<open>State\<close>

text \<open>The field \<^verbatim>\<open>slab_node\<close> of the header is never used; it counts in the size only.\<close>

record slab_header_t =
  next_slab :: u32
  sh_start_addr :: u32
  sh_end_addr :: u32
  object_count :: u32
  sh_object_size :: u32
  sh_free_count :: u32
  page_order :: u32
  free_list :: u32

record slab_cache_t =
  cache_name :: string
  object_size :: u32
  max_objects :: u32
  total_size :: u32
  alloc_count :: u32
  cache_lock :: bool
  first_slab :: u32

record 'p slab_state =
  headers :: "u32 \<Rightarrow> slab_header_t"
  obj_next :: "u32 \<Rightarrow> u32"
  pages :: 'p

type_synonym 'p page_getter = "'p \<Rightarrow> (u32 option \<times> 'p) option"

definition SLAB_DEFAULT_ORDER :: nat where [rotary_const]: "SLAB_DEFAULT_ORDER = 4"
definition SIZEOF_SLAB_HEADER :: u32 where [rotary_const]: "SIZEOF_SLAB_HEADER = 40"

definition INIT_SLAB_CACHE :: "string \<Rightarrow> u32 \<Rightarrow> slab_cache_t" where
  "INIT_SLAB_CACHE name_str obj_size =
     \<lparr>cache_name = name_str, object_size = obj_size, max_objects = 0, total_size = 0,
      alloc_count = 0, cache_lock = False, first_slab = 0\<rparr>"

definition upd_header :: "u32 \<Rightarrow> (slab_header_t \<Rightarrow> slab_header_t) \<Rightarrow> 'p slab_state \<Rightarrow> 'p slab_state" where
  "upd_header x f s = s\<lparr>headers := (headers s)(x := f (headers s x))\<rparr>"

section \<open>Allocation\<close>

definition slab_alloc_from_slab :: "u32 \<Rightarrow> 'p slab_state \<Rightarrow> u32 \<times> 'p slab_state" where
  "slab_alloc_from_slab header s =
     (let h = headers s header
      in if sh_free_count h = 0 then (0, s)
         else if free_list h = 0 then (0, s)
         else (free_list h,
               upd_header header (\<lambda>h. h\<lparr>free_list := obj_next s (free_list h),
                 sh_free_count := sh_free_count h - 1\<rparr>) s))"

text \<open>The walk along a cache's slabs to the first one with property \<open>P\<close>; 0 when there is none.\<close>

partial_function (option) find_slab :: "(u32 \<Rightarrow> slab_header_t) \<Rightarrow> (slab_header_t \<Rightarrow> bool) \<Rightarrow> u32 \<Rightarrow> u32 option" where
  "find_slab hs P cur =
     (if cur = 0 then Some 0
      else if P (hs cur) then Some cur
      else find_slab hs P (next_slab (hs cur)))"

definition slab_alloc_from_cache :: "slab_cache_t \<Rightarrow> 'p slab_state \<Rightarrow> (u32 \<times> 'p slab_state) option" where
  "slab_alloc_from_cache c s = do {
     cur \<leftarrow> find_slab (headers s) (\<lambda>h. sh_free_count h > 0) (first_slab c);
     Some (if cur = 0 then (0, s) else slab_alloc_from_slab cur s)
   }"

section \<open>Adding a slab\<close>

text \<open>The last slab of a non-empty list.\<close>

partial_function (option) last_slab :: "(u32 \<Rightarrow> slab_header_t) \<Rightarrow> u32 \<Rightarrow> u32 option" where
  "last_slab hs cur =
     (if next_slab (hs cur) = 0 then Some cur else last_slab hs (next_slab (hs cur)))"

text \<open>
  The loop that threads the free list: \<open>n\<close> objects to go, the previous object, the current
  one, the object size, the head of the list and the \<^verbatim>\<open>next\<close> fields.
\<close>

fun thread_free_list :: "nat \<Rightarrow> u32 \<Rightarrow> u32 \<Rightarrow> u32 \<Rightarrow> u32 \<Rightarrow> (u32 \<Rightarrow> u32) \<Rightarrow> u32 \<times> (u32 \<Rightarrow> u32)" where
  "thread_free_list 0 prev_object current_object sz first nx =
     (first, if prev_object \<noteq> 0 then nx(prev_object := 0) else nx)"
| "thread_free_list (Suc n) prev_object current_object sz first nx =
     (if prev_object \<noteq> 0
      then thread_free_list n current_object (current_object + sz) sz first (nx(prev_object := current_object))
      else thread_free_list n current_object (current_object + sz) sz current_object nx)"

definition slab_add_cache_frame ::
  "'p page_getter \<Rightarrow> slab_cache_t \<Rightarrow> u32 \<Rightarrow> 'p slab_state \<Rightarrow> (slab_cache_t \<times> 'p slab_state) option" where
  "slab_add_cache_frame page_get c flgs s = do {
     (new_page, ps) \<leftarrow> page_get (pages s);
     (case new_page of
        None \<Rightarrow> Some (c, s\<lparr>pages := ps\<rparr>)
      | Some page_vaddr \<Rightarrow> do {
          let page_count = push_bit SLAB_DEFAULT_ORDER 1;
          let total = page_count * PAGE_SIZE;
          let usable_size = total - SIZEOF_SLAB_HEADER;
          let cnt = usable_size div object_size c;
          let s1 = upd_header page_vaddr (\<lambda>h. h\<lparr>page_order := of_nat SLAB_DEFAULT_ORDER,
                     sh_start_addr := page_vaddr + SIZEOF_SLAB_HEADER,
                     sh_end_addr := page_vaddr + total,
                     object_count := cnt, sh_object_size := object_size c,
                     sh_free_count := cnt, next_slab := 0\<rparr>) (s\<lparr>pages := ps\<rparr>);
          let c1 = c\<lparr>total_size := total_size c + total, alloc_count := alloc_count c + page_count\<rparr>;
          (c2, s2) \<leftarrow> (if first_slab c1 = 0 then Some (c1\<lparr>first_slab := page_vaddr\<rparr>, s1)
             else do {
               l \<leftarrow> last_slab (headers s1) (first_slab c1);
               Some (c1, upd_header l (\<lambda>h. h\<lparr>next_slab := page_vaddr\<rparr>) s1)
             });
          let h = headers s2 page_vaddr;
          let (fl, nx) = thread_free_list (unat (object_count h)) 0 (sh_start_addr h) (object_size c2)
                           (free_list h) (obj_next s2);
          Some (c2, upd_header page_vaddr (\<lambda>h. h\<lparr>free_list := fl\<rparr>) (s2\<lparr>obj_next := nx\<rparr>))
        })
   }"

definition slab_malloc ::
  "'p page_getter \<Rightarrow> slab_cache_t \<Rightarrow> u32 \<Rightarrow> 'p slab_state \<Rightarrow> (u32 \<times> slab_cache_t \<times> 'p slab_state) option" where
  "slab_malloc page_get c flgs s = do {
     (new_object, s1) \<leftarrow> slab_alloc_from_cache c s;
     (if new_object \<noteq> 0 then Some (new_object, c, s1)
      else do {
        (c2, s2) \<leftarrow> slab_add_cache_frame page_get c 0 s1;
        (new_object2, s3) \<leftarrow> slab_alloc_from_cache c2 s2;
        Some (new_object2, c2, s3)
      })
   }"

section \<open>Release\<close>

text \<open>
  The walk along the free list to the place of an object: the object before it (0 for the
  list head in the header) and the one after it.
\<close>

partial_function (option) free_position :: "(u32 \<Rightarrow> u32) \<Rightarrow> u32 \<Rightarrow> u32 \<Rightarrow> u32 \<Rightarrow> (u32 \<times> u32) option" where
  "free_position nx obj before cur =
     (if cur = 0 then Some (before, 0)
      else if obj < cur then Some (before, cur)
      else free_position nx obj cur (nx cur))"

definition in_slab_range :: "u32 \<Rightarrow> slab_header_t \<Rightarrow> bool" where
  "in_slab_range obj h \<longleftrightarrow>
     obj \<ge> sh_start_addr h \<and> obj < sh_start_addr h + push_bit (unat (page_order h)) PAGE_SIZE"

definition slab_free :: "slab_cache_t \<Rightarrow> u32 \<Rightarrow> 'p slab_state \<Rightarrow> (i32 \<times> 'p slab_state) option" where
  "slab_free c obj s = do {
     cur \<leftarrow> find_slab (headers s) (in_slab_range obj) (first_slab c);
     (if cur = 0 then Some (E_ERROR, s)
      else do {
        (before, after) \<leftarrow> free_position (obj_next s) obj 0 (free_list (headers s cur));
        let s1 = s\<lparr>obj_next := (obj_next s)(obj := after)\<rparr>;
        let s2 = (if before = 0 then upd_header cur (\<lambda>h. h\<lparr>free_list := obj\<rparr>) s1
                  else s1\<lparr>obj_next := (obj_next s1)(before := obj)\<rparr>);
        Some (E_SUCCESS, upd_header cur (\<lambda>h. h\<lparr>sh_free_count := sh_free_count h + 1\<rparr>) s2)
      })
   }"

definition slab_cache_has_addr :: "slab_cache_t \<Rightarrow> u32 \<Rightarrow> 'p slab_state \<Rightarrow> i32 option" where
  "slab_cache_has_addr c addr s = do {
     cur \<leftarrow> find_slab (headers s) (\<lambda>h. addr \<ge> sh_start_addr h \<and> addr < sh_end_addr h) (first_slab c);
     Some (if cur = 0 then 0 else 1)
   }"

end
