(* ===== verification/Slab_Correct.thy ===== *)
theory Slab_Correct
  imports Slab
begin

text \<open>
  Correctness of the slab allocator. A slab is 64 KiB: a header of 40 bytes and as many
  objects as fit. The invariant says that the free list of every slab is a strictly
  ascending NULL-terminated chain of its objects whose length is the free count, and that
  the slabs do not overlap. The objects not on a free list are the live ones.
\<close>

section \<open>Chains of addresses\<close>

primrec npath :: "(u32 \<Rightarrow> u32) \<Rightarrow> u32 \<Rightarrow> u32 list \<Rightarrow> bool" where
  "npath f p [] \<longleftrightarrow> p = 0"
| "npath f p (x # xs) \<longleftrightarrow> p = x \<and> x \<noteq> 0 \<and> npath f (f x) xs"

lemma npath_cong: "(\<And>x. x \<in> set xs \<Longrightarrow> f x = g x) \<Longrightarrow> npath f p xs \<longleftrightarrow> npath g p xs"
  by (induction xs arbitrary: p) auto

lemma npath_nz: "npath f p xs \<Longrightarrow> 0 \<notin> set xs"
  by (induction xs arbitrary: p) auto

definition head0 :: "u32 list \<Rightarrow> u32" where
  "head0 xs = (case xs of [] \<Rightarrow> 0 | x # _ \<Rightarrow> x)"

lemma head0_simps [simp]: "head0 [] = 0" "head0 (x # xs) = x"
  by (simp_all add: head0_def)

lemma npath_head0: "npath f p xs \<Longrightarrow> p = head0 xs"
  by (cases xs) auto

text \<open>Inserting a new address behind the first part of a chain.\<close>

lemma npath_insert:
  assumes "npath f p (us @ vs)" and "distinct (us @ vs)" and "y \<notin> set (us @ vs)" and "y \<noteq> 0" and "us \<noteq> []"
  shows "npath (f(y := head0 vs, last us := y)) p (us @ y # vs)"
  using assms
proof (induction us arbitrary: p)
  case (Cons u us)
  show ?case
  proof (cases us)
    case Nil
    define g where "g = f(y := head0 vs, u := y)"
    have "npath f (f u) vs" using Cons.prems Nil by simp
    moreover have "npath g (head0 vs) vs = npath f (head0 vs) vs"
      using Cons.prems Nil by (intro npath_cong) (auto simp: g_def)
    moreover have "g u = y" "g y = head0 vs" using Cons.prems by (auto simp: g_def)
    ultimately have "npath g p ([u] @ y # vs)" using Cons.prems Nil npath_head0 [of f "f u" vs] by simp
    then show ?thesis unfolding g_def Nil last_ConsL [OF refl] append_Cons append_Nil .
  next
    case (Cons w ws)
    then have "last us \<in> set us" by simp
    with Cons.prems have "last us \<noteq> u" by auto
    with Cons.prems Cons.IH [of "f u"] \<open>us = w # ws\<close> show ?thesis by auto
  qed
qed simp

lemma npath_append_end:
  assumes "npath f p us" and "distinct us" and "y \<notin> set us" and "y \<noteq> 0" and "f y = 0"
  shows "npath (if us = [] then f else f(last us := y)) (if us = [] then y else p) (us @ [y])"
proof (cases us)
  case Nil
  with assms show ?thesis by simp
next
  case Cons
  have "npath (f(y := head0 [], last us := y)) p (us @ y # [])"
    using assms Cons by (intro npath_insert) auto
  moreover have "f(y := head0 []) = f" using assms(5) by auto
  ultimately have "npath (f(last us := y)) p (us @ [y])" by (simp only:)
  moreover have "us \<noteq> []" using Cons by simp
  ultimately show ?thesis by (simp only: if_False)
qed

section \<open>Walking the slabs of a cache\<close>

lemma find_slab_path:
  "npath (\<lambda>x. next_slab (hs x)) p xs \<Longrightarrow>
     find_slab hs P p = Some (case find (\<lambda>x. P (hs x)) xs of None \<Rightarrow> 0 | Some x \<Rightarrow> x)"
proof (induction xs arbitrary: p)
  case Nil
  then show ?case by (simp add: find_slab.simps)
next
  case (Cons x xs)
  then show ?case by (subst find_slab.simps) auto
qed

lemma last_slab_path:
  "npath (\<lambda>x. next_slab (hs x)) p xs \<Longrightarrow> xs \<noteq> [] \<Longrightarrow> last_slab hs p = Some (last xs)"
proof (induction xs arbitrary: p)
  case (Cons x xs)
  then show ?case by (subst last_slab.simps) (cases xs; auto)
qed simp

section \<open>Slabs\<close>

definition slab_bytes :: "u32 \<Rightarrow> nat set" where
  "slab_bytes x = {unat x..<unat x + 65536}"

definition slab_place :: "u32 \<Rightarrow> bool" where
  "slab_place x \<longleftrightarrow> x \<noteq> 0 \<and> unat x + 0x11000 \<le> 2 ^ 32"

definition slab_obj :: "u32 \<Rightarrow> u32 \<Rightarrow> nat \<Rightarrow> u32" where
  "slab_obj x sz i = x + 40 + of_nat i * sz"

definition slab_objs :: "u32 \<Rightarrow> u32 \<Rightarrow> u32 list" where
  "slab_objs x sz = map (slab_obj x sz) [0..<65496 div unat sz]"

definition size_ok :: "u32 \<Rightarrow> bool" where
  "size_ok sz \<longleftrightarrow> 4 \<le> unat sz \<and> unat sz \<le> 32768"

definition slab_ok :: "'p slab_state \<Rightarrow> u32 \<Rightarrow> u32 list \<Rightarrow> bool" where
  "slab_ok s x fs \<longleftrightarrow>
     slab_place x \<and> size_ok (sh_object_size (headers s x)) \<and>
     sh_start_addr (headers s x) = x + 40 \<and> sh_end_addr (headers s x) = x + 65536 \<and>
     page_order (headers s x) = 4 \<and>
     npath (obj_next s) (free_list (headers s x)) fs \<and> sorted_wrt (<) fs \<and>
     set fs \<subseteq> set (slab_objs x (sh_object_size (headers s x))) \<and>
     unat (sh_free_count (headers s x)) = length fs"

lemma slab_obj_less:
  assumes "i < 65496 div unat sz"
  shows "i * unat sz + unat sz \<le> 65496"
proof -
  have "Suc i * unat sz \<le> 65496 div unat sz * unat sz" using assms by (intro mult_le_mono1) simp
  also have "\<dots> \<le> 65496" by (rule div_times_less_eq_dividend)
  finally show ?thesis by simp
qed

lemma unat_slab_obj:
  assumes "slab_place x" and "i < 65496 div unat sz"
  shows "unat (slab_obj x sz i) = unat x + 40 + i * unat sz"
proof -
  have b: "i * unat sz \<le> 65496" "unat x + 0x11000 \<le> 2 ^ 32"
    using slab_obj_less [OF assms(2)] assms(1) by (simp_all add: slab_place_def)
  have "unat sz \<noteq> 0" using assms(2) by (cases "unat sz = 0") simp_all
  then have "i \<le> i * unat sz" by simp
  with b(1) have "i \<le> 65496" by linarith
  then have "i < 2 ^ 32" by simp
  then have "unat (of_nat i * sz) = i * unat sz"
    using b(1) by (simp add: unat_word_ariths unat_le_imp_of_nat)
  then show ?thesis using b by (simp add: slab_obj_def unat_word_ariths)
qed

lemma slab_obj_bytes:
  assumes "slab_place x" and "y \<in> set (slab_objs x sz)"
  shows "unat x + 40 \<le> unat y" and "unat y + unat sz \<le> unat x + 65536" and "unat y \<in> slab_bytes x" and "y \<noteq> 0"
proof -
  obtain i where i: "i < 65496 div unat sz" "y = slab_obj x sz i" using assms(2) by (auto simp: slab_objs_def)
  have u: "unat y = unat x + 40 + i * unat sz" using unat_slab_obj [OF assms(1) i(1)] i(2) by simp
  show "unat x + 40 \<le> unat y" using u by simp
  show "unat y + unat sz \<le> unat x + 65536" using u slab_obj_less [OF i(1)] by simp
  have "0 < unat sz" using i(1) by (cases "unat sz = 0") simp_all
  with u slab_obj_less [OF i(1)] show "unat y \<in> slab_bytes x" by (auto simp: slab_bytes_def)
  have "0 < unat y" using u by simp
  then show "y \<noteq> 0" by auto
qed

text \<open>Two different objects of a slab do not overlap.\<close>

lemma slab_objs_apart:
  assumes "slab_place x" and "y \<in> set (slab_objs x sz)" "z \<in> set (slab_objs x sz)" "y \<noteq> z"
  shows "{unat y..<unat y + unat sz} \<inter> {unat z..<unat z + unat sz} = {}"
proof -
  obtain i j where i: "i < 65496 div unat sz" "y = slab_obj x sz i"
    and j: "j < 65496 div unat sz" "z = slab_obj x sz j" using assms(2,3) by (auto simp: slab_objs_def)
  have "i \<noteq> j" using assms(4) i j by auto
  then have "Suc i \<le> j \<or> Suc j \<le> i" by linarith
  then have "Suc i * unat sz \<le> j * unat sz \<or> Suc j * unat sz \<le> i * unat sz" by (meson mult_le_mono1)
  then show ?thesis
    using unat_slab_obj [OF assms(1) i(1)] unat_slab_obj [OF assms(1) j(1)] i(2) j(2) by auto
qed

lemma slab_objs_sorted:
  assumes "slab_place x" and "0 < unat sz"
  shows "sorted_wrt (<) (slab_objs x sz)"
proof -
  have "slab_obj x sz i < slab_obj x sz j" if "i < j" "j < 65496 div unat sz" for i j
  proof -
    have "i * unat sz < j * unat sz" using that(1) assms(2) by simp
    then show ?thesis
      using unat_slab_obj [OF assms(1), of i sz] unat_slab_obj [OF assms(1), of j sz] that
      by (simp add: word_less_nat_alt)
  qed
  then show ?thesis by (simp add: slab_objs_def sorted_wrt_map sorted_wrt_iff_nth_less)
qed

lemma sorted_less_distinct: "sorted_wrt (<) (xs :: u32 list) \<Longrightarrow> distinct xs"
  by (induction xs) auto

section \<open>The heap of slabs\<close>

text \<open>
  \<open>S\<close> are all slabs of all caches, \<open>F\<close> gives the free objects of each. A cache owns the
  slabs \<open>hs\<close> in the order of its list.
\<close>

definition slabs_apart :: "u32 set \<Rightarrow> bool" where
  "slabs_apart S \<longleftrightarrow> (\<forall>x\<in>S. \<forall>y\<in>S. x \<noteq> y \<longrightarrow> slab_bytes x \<inter> slab_bytes y = {})"

definition heap_ok :: "u32 set \<Rightarrow> (u32 \<Rightarrow> u32 list) \<Rightarrow> 'p slab_state \<Rightarrow> bool" where
  "heap_ok S F s \<longleftrightarrow> slabs_apart S \<and> (\<forall>x\<in>S. slab_ok s x (F x))"

definition cache_ok :: "slab_cache_t \<Rightarrow> u32 list \<Rightarrow> u32 set \<Rightarrow> 'p slab_state \<Rightarrow> bool" where
  "cache_ok c hs S s \<longleftrightarrow>
     npath (\<lambda>x. next_slab (headers s x)) (first_slab c) hs \<and> distinct hs \<and> set hs \<subseteq> S \<and>
     size_ok (object_size c) \<and> (\<forall>x\<in>set hs. sh_object_size (headers s x) = object_size c)"

definition live :: "slab_cache_t \<Rightarrow> u32 list \<Rightarrow> (u32 \<Rightarrow> u32 list) \<Rightarrow> u32 set" where
  "live c hs F = (\<Union>x\<in>set hs. set (slab_objs x (object_size c)) - set (F x))"

lemma heap_okD: "heap_ok S F s \<Longrightarrow> x \<in> S \<Longrightarrow> slab_ok s x (F x)"
  by (simp add: heap_ok_def)

lemma slab_bytes_self: "unat x \<in> slab_bytes x"
  by (simp add: slab_bytes_def)

text \<open>Changing one slab: the others are untouched if their header and objects are.\<close>

lemma slab_ok_cong:
  assumes "headers s' x = headers s x" and "\<And>y. y \<in> set fs \<Longrightarrow> obj_next s' y = obj_next s y"
  shows "slab_ok s' x fs \<longleftrightarrow> slab_ok s x fs"
proof -
  have "npath (obj_next s') p fs \<longleftrightarrow> npath (obj_next s) p fs" for p using assms(2) by (rule npath_cong)
  with assms(1) show ?thesis by (simp add: slab_ok_def)
qed

lemma slab_ok_next:
  assumes "headers s' x = (headers s x)\<lparr>next_slab := v\<rparr>" and "\<And>y. y \<in> set fs \<Longrightarrow> obj_next s' y = obj_next s y"
  shows "slab_ok s' x fs \<longleftrightarrow> slab_ok s x fs"
proof -
  have "npath (obj_next s') p fs \<longleftrightarrow> npath (obj_next s) p fs" for p using assms(2) by (rule npath_cong)
  with assms(1) show ?thesis by (simp add: slab_ok_def)
qed

lemma slab_ok_objects:
  assumes "slab_ok s x fs" and "y \<in> set fs"
  shows "unat y \<in> slab_bytes x"
  using assms slab_obj_bytes(3) by (auto simp: slab_ok_def)

lemma heap_ok_update:
  assumes ok: "heap_ok S F s" and x: "slab_ok s' x fs" and xS: "x \<in> S"
    and hd: "\<And>y. y \<in> S \<Longrightarrow> y \<noteq> x \<Longrightarrow> headers s' y = headers s y"
    and nx: "\<And>a. unat a \<notin> slab_bytes x \<Longrightarrow> obj_next s' a = obj_next s a"
  shows "heap_ok S (F(x := fs)) s'"
  unfolding heap_ok_def
proof (intro conjI ballI)
  show "slabs_apart S" using ok by (simp add: heap_ok_def)
  fix y assume y: "y \<in> S"
  show "slab_ok s' y ((F(x := fs)) y)"
  proof (cases "y = x")
    case True
    with x show ?thesis by simp
  next
    case False
    have "slab_bytes y \<inter> slab_bytes x = {}" using ok y xS False by (auto simp: heap_ok_def slabs_apart_def)
    then have "obj_next s' a = obj_next s a" if "a \<in> set (F y)" for a
      using nx slab_ok_objects [OF heap_okD [OF ok y] that] by blast
    with slab_ok_cong [of s' y s "F y", OF hd [OF y False]] heap_okD [OF ok y] False
    show ?thesis by simp
  qed
qed

section \<open>Allocating from a slab\<close>

lemma slab_alloc_from_slab_ok:
  assumes ok: "heap_ok S F s" and x: "x \<in> S" and F: "F x = y # ys"
  obtains s' where "slab_alloc_from_slab x s = (y, s')" and "heap_ok S (F(x := ys)) s'"
    and "\<And>z. next_slab (headers s' z) = next_slab (headers s z)"
    and "\<And>z. sh_object_size (headers s' z) = sh_object_size (headers s z)"
    and "\<And>z. z \<noteq> x \<Longrightarrow> headers s' z = headers s z" and "pages s' = pages s"
proof -
  let ?h = "headers s x"
  let ?s' = "upd_header x (\<lambda>h. h\<lparr>free_list := obj_next s (free_list h), sh_free_count := sh_free_count h - 1\<rparr>) s"
  have so: "slab_ok s x (y # ys)" using heap_okD [OF ok x] F by simp
  then have fl: "free_list ?h = y" "y \<noteq> 0" "npath (obj_next s) (obj_next s y) ys"
    and fc: "unat (sh_free_count ?h) = Suc (length ys)" by (simp_all add: slab_ok_def)
  then have "sh_free_count ?h \<noteq> 0" by auto
  with fl have run: "slab_alloc_from_slab x s = (y, ?s')" by (simp add: slab_alloc_from_slab_def)
  have "unat (sh_free_count ?h - 1) = length ys" using fc by (simp add: unat_sub_small)
  with so fl have "slab_ok ?s' x ys" by (simp add: slab_ok_def upd_header_def)
  with heap_ok_update [OF ok this x] have "heap_ok S (F(x := ys)) ?s'" by (simp add: upd_header_def)
  with run show thesis by (rule that) (simp_all add: upd_header_def)
qed

lemma slab_alloc_from_cache_ok:
  assumes ok: "heap_ok S F s" and c: "cache_ok c hs S s"
  shows "case find (\<lambda>x. F x \<noteq> []) hs of
      None \<Rightarrow> slab_alloc_from_cache c s = Some (0, s)
    | Some x \<Rightarrow> slab_alloc_from_cache c s = Some (slab_alloc_from_slab x s) \<and> x \<in> set hs \<and> F x \<noteq> []"
proof -
  have "sh_free_count (headers s x) > 0 \<longleftrightarrow> F x \<noteq> []" if "x \<in> set hs" for x
  proof -
    have "x \<in> S" using c that by (auto simp: cache_ok_def)
    then have "unat (sh_free_count (headers s x)) = length (F x)"
      using heap_okD [OF ok] by (simp add: slab_ok_def)
    then show ?thesis by (simp add: word_less_nat_alt)
  qed
  then have eq: "find (\<lambda>x. sh_free_count (headers s x) > 0) hs = find (\<lambda>x. F x \<noteq> []) hs"
    by (intro find_cong) auto
  have nz: "0 \<notin> set hs" using c npath_nz by (auto simp: cache_ok_def)
  have p: "npath (\<lambda>x. next_slab (headers s x)) (first_slab c) hs" using c by (simp add: cache_ok_def)
  show ?thesis
  proof (cases "find (\<lambda>x. F x \<noteq> []) hs")
    case None
    then show ?thesis by (simp add: slab_alloc_from_cache_def find_slab_path [OF p] eq)
  next
    case (Some x)
    then have "x \<in> set hs" "F x \<noteq> []" by (auto simp: find_Some_iff)
    moreover from this(1) nz have "x \<noteq> 0" by auto
    ultimately show ?thesis using Some by (simp add: slab_alloc_from_cache_def find_slab_path [OF p] eq)
  qed
qed

section \<open>Adding a slab\<close>

lemma thread_free_list_run:
  assumes "prev \<noteq> 0" and "distinct (prev # map (\<lambda>j. cur + of_nat j * sz) [0..<n])"
    and "0 \<notin> set (map (\<lambda>j. cur + of_nat j * sz) [0..<n])"
  shows "\<exists>nx'. thread_free_list n prev cur sz first nx = (first, nx') \<and>
    npath nx' (nx' prev) (map (\<lambda>j. cur + of_nat j * sz) [0..<n]) \<and>
    (\<forall>a. a \<notin> insert prev (set (map (\<lambda>j. cur + of_nat j * sz) [0..<n])) \<longrightarrow> nx' a = nx a)"
  using assms
proof (induction n arbitrary: prev cur nx)
  case 0
  then show ?case by (intro exI [of _ "nx(prev := 0)"]) (simp add: fun_eq_iff)
next
  case (Suc n)
  let ?rest = "map (\<lambda>j. cur + sz + of_nat j * sz) [0..<n]"
  have split: "map (\<lambda>j. cur + of_nat j * sz) [0..<Suc n] = cur # ?rest"
    by (simp only: upt_conv_Cons [OF zero_less_Suc] list.map map_Suc_upt [symmetric] map_map)
      (simp add: comp_def algebra_simps)
  from Suc.prems have d: "distinct (cur # ?rest)" "cur \<noteq> 0" "0 \<notin> set ?rest" "prev \<notin> insert cur (set ?rest)"
    unfolding split by auto
  from Suc.IH [OF d(2,1,3), of "nx(prev := cur)"] obtain nx' where
    nx': "thread_free_list n cur (cur + sz) sz first (nx(prev := cur)) = (first, nx')"
      "npath nx' (nx' cur) ?rest" "\<forall>a. a \<notin> insert cur (set ?rest) \<longrightarrow> nx' a = (nx(prev := cur)) a" by blast
  have "nx' prev = cur" using nx'(3) d(4) by simp
  with nx' d(2) Suc.prems(1) show ?case unfolding split by (intro exI [of _ nx']) auto
qed

lemma thread_free_list_slab:
  assumes x: "slab_place x" and sz: "size_ok sz"
  obtains nx' where "thread_free_list (65496 div unat sz) 0 (x + 40) sz first nx = (head0 (slab_objs x sz), nx')"
    and "npath nx' (head0 (slab_objs x sz)) (slab_objs x sz)"
    and "\<And>a. unat a \<notin> slab_bytes x \<Longrightarrow> nx' a = nx a"
proof -
  obtain n where n: "65496 div unat sz = Suc n"
  proof (cases "65496 div unat sz")
    case 0
    with sz show ?thesis by (auto simp: size_ok_def div_eq_0_iff)
  qed
  let ?rest = "map (\<lambda>j. x + 40 + sz + of_nat j * sz) [0..<n]"
  have split: "slab_objs x sz = (x + 40) # ?rest"
    unfolding slab_objs_def n slab_obj_def
    by (simp only: upt_conv_Cons [OF zero_less_Suc] list.map map_Suc_upt [symmetric] map_map)
      (simp add: comp_def algebra_simps)
  have "distinct (slab_objs x sz)"
    using slab_objs_sorted [OF x, of sz] sz by (intro sorted_less_distinct) (simp add: size_ok_def)
  moreover have nz: "0 \<notin> set (slab_objs x sz)" using slab_obj_bytes(4) [OF x] by blast
  ultimately have "x + 40 \<noteq> 0" "distinct ((x + 40) # ?rest)" "0 \<notin> set ?rest" unfolding split by auto
  from thread_free_list_run [OF this, of "x + 40" nx] obtain nx' where
    nx': "thread_free_list n (x + 40) (x + 40 + sz) sz (x + 40) nx = (x + 40, nx')"
      "npath nx' (nx' (x + 40)) ?rest" "\<forall>a. a \<notin> insert (x + 40) (set ?rest) \<longrightarrow> nx' a = nx a" by blast
  have "a \<notin> set (slab_objs x sz)" if "unat a \<notin> slab_bytes x" for a
    using slab_obj_bytes(3) [OF x, of a sz] that by blast
  with nx'(3) have fr: "nx' a = nx a" if "unat a \<notin> slab_bytes x" for a using that unfolding split by simp
  have "thread_free_list (65496 div unat sz) 0 (x + 40) sz first nx = (head0 (slab_objs x sz), nx')"
    using nx'(1) unfolding n split by simp
  moreover have "npath nx' (head0 (slab_objs x sz)) (slab_objs x sz)"
    using nx'(2) \<open>x + 40 \<noteq> 0\<close> unfolding split by simp
  ultimately show thesis using that fr by blast
qed

lemma slab_count: "size_ok sz \<Longrightarrow> unat ((65536 - 40 :: u32) div sz) = 65496 div unat sz"
  by (simp add: unat_div)

lemma slab_add_cache_frame_ok:
  assumes ok: "heap_ok S F s" and c: "cache_ok c hs S s"
    and get: "page_get (pages s) = Some (Some v, ps)"
    and v: "slab_place v" and apart: "\<And>y. y \<in> S \<Longrightarrow> slab_bytes v \<inter> slab_bytes y = {}"
  obtains c' s' where "slab_add_cache_frame page_get c fg s = Some (c', s')"
    and "heap_ok (insert v S) (F(v := slab_objs v (object_size c))) s'"
    and "cache_ok c' (hs @ [v]) (insert v S) s'" and "object_size c' = object_size c" and "pages s' = ps"
    and "\<And>y. y \<notin> insert v (set hs) \<Longrightarrow> headers s' y = headers s y"
proof -
  let ?sz = "object_size c" and ?cnt = "(65536 - 40 :: u32) div object_size c"
  have vS: "v \<notin> S" using apart slab_bytes_self by blast
  have sz: "size_ok ?sz" and p: "npath (\<lambda>x. next_slab (headers s x)) (first_slab c) hs" and d: "distinct hs"
    and hsS: "set hs \<subseteq> S" and hsz: "\<forall>x\<in>set hs. sh_object_size (headers s x) = ?sz"
    using c by (auto simp: cache_ok_def)
  have vhs: "v \<notin> set hs" "v \<noteq> 0" using vS hsS v by (auto simp: slab_place_def)
  define h1 where "h1 = (headers s v)\<lparr>page_order := 4, sh_start_addr := v + 40, sh_end_addr := v + 65536,
    object_count := ?cnt, sh_object_size := ?sz, sh_free_count := ?cnt, next_slab := 0\<rparr>"
  define H1 where "H1 = (headers s)(v := h1)"
  define H2 where "H2 = (if hs = [] then H1 else H1(last hs := (H1 (last hs))\<lparr>next_slab := v\<rparr>))"
  obtain nx' where th: "thread_free_list (65496 div unat ?sz) 0 (v + 40) ?sz (free_list h1) (obj_next s) =
      (head0 (slab_objs v ?sz), nx')"
    and pth: "npath nx' (head0 (slab_objs v ?sz)) (slab_objs v ?sz)"
    and fr: "\<And>a. unat a \<notin> slab_bytes v \<Longrightarrow> nx' a = obj_next s a"
    using thread_free_list_slab [OF v sz] by blast
  let ?c1 = "c\<lparr>total_size := total_size c + 65536, alloc_count := alloc_count c + 16\<rparr>"
  define c' where "c' = (if hs = [] then ?c1\<lparr>first_slab := v\<rparr> else ?c1)"
  define s' where "s' = s\<lparr>pages := ps, obj_next := nx', headers := H2(v := h1\<lparr>free_list := head0 (slab_objs v ?sz)\<rparr>)\<rparr>"
  have p1: "npath (\<lambda>x. next_slab (H1 x)) (first_slab c) hs"
    using p vhs by (subst npath_cong [of hs _ "\<lambda>x. next_slab (headers s x)"]) (auto simp: H1_def)
  have last: "last hs \<noteq> v" "last hs \<in> set hs" if "hs \<noteq> []" using that vhs by (metis last_in_set)+
  have H2v: "H2 v = h1" using last by (auto simp: H2_def H1_def)
  have nil: "first_slab c = 0 \<longleftrightarrow> hs = []" using p npath_nz [OF p] by (cases hs) auto
  have cnt: "unat ?cnt = 65496 div unat ?sz" by (rule slab_count [OF sz])
  have run: "slab_add_cache_frame page_get c fg s = Some (c', s')"
  proof (cases "hs = []")
    case True
    then show ?thesis using get nil th H2v cnt
      by (simp add: slab_add_cache_frame_def upd_header_def rotary_const c'_def s'_def H2_def H1_def h1_def push_bit_eq_mult Let_def)
  next
    case False
    have "last_slab H1 (first_slab c) = Some (last hs)" using p1 False by (intro last_slab_path) simp_all
    with False show ?thesis using get nil th H2v cnt last
      by (simp add: slab_add_cache_frame_def upd_header_def rotary_const c'_def s'_def H2_def H1_def h1_def push_bit_eq_mult Let_def fun_upd_twist)
  qed
  have hd: "headers s' y = headers s y" if "y \<notin> insert v (set hs)" for y
    using that last(2) by (auto simp: s'_def H2_def H1_def)
  have hds: "\<exists>w. headers s' y = (headers s y)\<lparr>next_slab := w\<rparr>" if "y \<noteq> v" for y
  proof (cases "hs \<noteq> [] \<and> y = last hs")
    case True
    then show ?thesis using that by (auto simp: s'_def H2_def H1_def)
  next
    case False
    then have "headers s' y = headers s y" using that by (auto simp: s'_def H2_def H1_def)
    then show ?thesis by (metis slab_header_t.surjective slab_header_t.update_convs(1))
  qed
  have "slab_ok s' v (slab_objs v ?sz)"
    using v sz pth cnt slab_objs_sorted [OF v, of ?sz]
    by (simp add: slab_ok_def s'_def h1_def size_ok_def slab_objs_def)
  moreover have "slab_ok s' y (F y)" if y: "y \<in> S" for y
  proof -
    have "y \<noteq> v" using y vS by auto
    from hds [OF this] obtain w where w: "headers s' y = (headers s y)\<lparr>next_slab := w\<rparr>" by blast
    have "obj_next s' a = obj_next s a" if "a \<in> set (F y)" for a
      using fr [of a] slab_ok_objects [OF heap_okD [OF ok y] that] apart [OF y] by (auto simp: s'_def)
    from slab_ok_next [where fs = "F y", OF w this] heap_okD [OF ok y] show ?thesis by blast
  qed
  moreover have "slabs_apart (insert v S)"
    using ok apart unfolding heap_ok_def slabs_apart_def by (metis Int_commute insert_iff)
  ultimately have ok': "heap_ok (insert v S) (F(v := slab_objs v ?sz)) s'"
    using vS by (auto simp: heap_ok_def)
  have "npath (if hs = [] then (\<lambda>x. next_slab (H1 x)) else (\<lambda>x. next_slab (H1 x))(last hs := v))
      (if hs = [] then v else first_slab c) (hs @ [v])"
    using npath_append_end [OF p1 d vhs] by (simp add: H1_def h1_def)
  also have "(if hs = [] then v else first_slab c) = first_slab c'" by (simp add: c'_def)
  finally have "npath (\<lambda>x. next_slab (headers s' x)) (first_slab c') (hs @ [v])"
    by (subst npath_cong) (use last in \<open>auto simp: s'_def H2_def H1_def h1_def\<close>)
  moreover have "object_size c' = ?sz" by (simp add: c'_def)
  moreover have "sh_object_size (headers s' x) = ?sz" if "x \<in> set (hs @ [v])" for x
  proof (cases "x = v")
    case True
    then show ?thesis by (simp add: s'_def h1_def)
  next
    case False
    with hds [OF False] hsz that show ?thesis by auto
  qed
  ultimately have c': "cache_ok c' (hs @ [v]) (insert v S) s'" "object_size c' = object_size c"
    using d vhs hsS sz by (auto simp: cache_ok_def)
  have "pages s' = ps" by (simp add: s'_def)
  with run ok' c' hd show thesis using that by blast
qed

section \<open>Release\<close>

lemma free_position_run:
  "npath nx p (us @ vs) \<Longrightarrow> (\<And>u. u \<in> set us \<Longrightarrow> u \<le> obj) \<Longrightarrow> (vs \<noteq> [] \<Longrightarrow> obj < head0 vs) \<Longrightarrow>
     free_position nx obj before p = Some (last (before # us), head0 vs)"
proof (induction us arbitrary: p before)
  case Nil
  then have "p = head0 vs" "vs \<noteq> [] \<Longrightarrow> p \<noteq> 0" by (cases vs; auto)+
  with Nil show ?case by (subst free_position.simps) (cases vs; auto)
next
  case (Cons u us)
  then have p: "p = u" "u \<noteq> 0" "npath nx (nx u) (us @ vs)" by auto
  have "u \<le> obj" using Cons.prems(2) by simp
  then have "\<not> obj < u" by simp
  with p Cons.IH [OF p(3), of u] Cons.prems(2,3) show ?case by (subst free_position.simps) auto
qed

lemma free_split:
  assumes "sorted_wrt (<) (fs :: u32 list)" and "obj \<notin> set fs"
  obtains us vs where "fs = us @ vs" and "\<And>u. u \<in> set us \<Longrightarrow> u < obj" and "\<And>v. v \<in> set vs \<Longrightarrow> obj < v"
proof
  let ?us = "takeWhile (\<lambda>u. u < obj) fs" and ?vs = "dropWhile (\<lambda>u. u < obj) fs"
  show "fs = ?us @ ?vs" by simp
  show "\<And>u. u \<in> set ?us \<Longrightarrow> u < obj" by (metis set_takeWhileD)
  show "obj < v" if v: "v \<in> set ?vs" for v
  proof -
    obtain w ws where w: "?vs = w # ws" using v by (cases ?vs) auto
    then have "\<not> w < obj" by (metis dropWhile_eq_Cons_conv)
    moreover have "w \<in> set fs" using w by (metis list.set_intros(1) set_dropWhileD)
    ultimately have "obj < w" using assms(2) by (metis linorder_neqE)
    moreover have "sorted_wrt (<) ?vs" using assms(1) by (metis sorted_wrt_append takeWhile_dropWhile_id)
    ultimately show ?thesis using v unfolding w by auto
  qed
qed

lemma in_slab_range_iff:
  assumes "slab_ok s x fs"
  shows "in_slab_range a (headers s x) \<longleftrightarrow> unat x + 40 \<le> unat a \<and> unat a < unat x + 65576"
proof -
  have b: "unat x + 0x11000 \<le> 2 ^ 32" using assms by (simp add: slab_ok_def slab_place_def)
  then have "unat (x + 40) = unat x + 40" "unat (x + 40 + 65536) = unat x + 65576"
    by (simp_all add: unat_word_ariths)
  moreover have "push_bit (unat (4 :: u32)) PAGE_SIZE = 65536" by (simp add: rotary_const push_bit_eq_mult)
  ultimately show ?thesis
    using assms by (simp add: in_slab_range_def slab_ok_def word_le_nat_alt word_less_nat_alt)
qed

text \<open>The slab the release finds is the one that owns the object.\<close>

lemma find_owner:
  assumes ok: "heap_ok S F s" and c: "cache_ok c hs S s" and x: "x \<in> set hs"
    and obj: "obj \<in> set (slab_objs x (object_size c))"
  shows "find_slab (headers s) (in_slab_range obj) (first_slab c) = Some x"
proof -
  have xS: "x \<in> S" using c x by (auto simp: cache_ok_def)
  note sx = heap_okD [OF ok xS]
  then have px: "slab_place x" by (simp add: slab_ok_def)
  note ob = slab_obj_bytes [OF px obj]
  have sz: "4 \<le> unat (object_size c)" using c by (simp add: cache_ok_def size_ok_def)
  have "in_slab_range obj (headers s y) \<longleftrightarrow> y = x" if y: "y \<in> set hs" for y
  proof
    assume r: "in_slab_range obj (headers s y)"
    have yS: "y \<in> S" using c y by (auto simp: cache_ok_def)
    note iy = r [unfolded in_slab_range_iff [OF heap_okD [OF ok yS]]]
    show "y = x"
    proof (rule ccontr)
      assume "y \<noteq> x"
      then have "slab_bytes x \<inter> slab_bytes y = {}" using ok xS yS by (auto simp: heap_ok_def slabs_apart_def)
      then have "unat x + 65536 \<le> unat y \<or> unat y + 65536 \<le> unat x"
        using slab_bytes_self [of x] slab_bytes_self [of y] by (auto simp: slab_bytes_def disjoint_iff)
      with iy ob sz show False by linarith
    qed
  next
    assume "y = x"
    with in_slab_range_iff [OF sx, of obj] ob sz show "in_slab_range obj (headers s y)" by simp
  qed
  then have "find (\<lambda>y. in_slab_range obj (headers s y)) hs = find (\<lambda>y. y = x) hs" by (intro find_cong) auto
  also have "\<dots> = Some x" using x by (induction hs) auto
  finally show ?thesis
    using find_slab_path [of "headers s" "first_slab c" hs] c by (simp add: cache_ok_def)
qed

lemma slab_free_ok:
  assumes ok: "heap_ok S F s" and c: "cache_ok c hs S s" and obj: "obj \<in> live c hs F"
  obtains s' F' where "slab_free c obj s = Some (E_SUCCESS, s')" and "heap_ok S F' s'"
    and "cache_ok c hs S s'" and "live c hs F' = live c hs F - {obj}" and "pages s' = pages s"
    and "\<And>y. y \<notin> set hs \<Longrightarrow> F' y = F y \<and> headers s' y = headers s y"
proof -
  obtain x where x: "x \<in> set hs" and ox: "obj \<in> set (slab_objs x (object_size c))" "obj \<notin> set (F x)"
    using obj by (auto simp: live_def)
  have xS: "x \<in> S" using c x by (auto simp: cache_ok_def)
  note sx = heap_okD [OF ok xS]
  have hsz: "sh_object_size (headers s x) = object_size c" using c x by (simp add: cache_ok_def)
  have px: "slab_place x" and srt: "sorted_wrt (<) (F x)" and pth: "npath (obj_next s) (free_list (headers s x)) (F x)"
    and fc: "unat (sh_free_count (headers s x)) = length (F x)" using sx by (simp_all add: slab_ok_def)
  obtain us vs where F: "F x = us @ vs" and lt: "\<And>u. u \<in> set us \<Longrightarrow> u < obj" and gt: "\<And>v. v \<in> set vs \<Longrightarrow> obj < v"
    using free_split [OF srt ox(2)] by blast
  have d: "distinct (us @ vs)" "obj \<notin> set (us @ vs)" "obj \<noteq> 0" "0 \<notin> set (us @ vs)"
    using sorted_less_distinct [OF srt] ox(2) slab_obj_bytes(4) [OF px ox(1)] npath_nz [OF pth] unfolding F by simp_all
  define nx where "nx = (if us = [] then (obj_next s)(obj := head0 vs)
    else (obj_next s)(obj := head0 vs, last us := obj))"
  define h where "h = (headers s x)\<lparr>free_list := (if us = [] then obj else free_list (headers s x)),
    sh_free_count := sh_free_count (headers s x) + 1\<rparr>"
  define s' where "s' = s\<lparr>obj_next := nx, headers := (headers s)(x := h)\<rparr>"
  have "head0 vs \<in> set vs" if "vs \<noteq> []" using that by (cases vs) auto
  then have fp: "free_position (obj_next s) obj 0 (free_list (headers s x)) = Some (last (0 # us), head0 vs)"
    using free_position_run [OF pth [unfolded F]] lt gt by (meson less_imp_le)
  have x0: "x \<noteq> 0" using px by (simp add: slab_place_def)
  have run: "slab_free c obj s = Some (E_SUCCESS, s')"
  proof (cases "us = []")
    case True
    then show ?thesis using find_owner [OF ok c x ox(1)] x0 fp
      by (simp add: slab_free_def upd_header_def s'_def nx_def h_def)
  next
    case False
    then have "last us \<noteq> 0" using d(4) by (metis UnI1 last_in_set set_append)
    with False show ?thesis using find_owner [OF ok c x ox(1)] x0 fp
      by (simp add: slab_free_def upd_header_def s'_def nx_def h_def)
  qed
  have "npath nx (free_list h) (us @ obj # vs)"
  proof (cases "us = []")
    case True
    have "npath nx (head0 vs) vs = npath (obj_next s) (head0 vs) vs"
      using d True by (intro npath_cong) (auto simp: nx_def)
    with True d pth [unfolded F] npath_head0 [OF pth [unfolded F]] show ?thesis by (simp add: nx_def h_def)
  next
    case False
    with npath_insert [OF pth [unfolded F] d(1-3) False] show ?thesis by (simp add: nx_def h_def)
  qed
  moreover have "sorted_wrt (<) (us @ obj # vs)"
    using srt lt gt unfolding F by (auto simp: sorted_wrt_append)
  moreover have "length (F x) \<le> 65496"
  proof -
    have "length (F x) = card (set (F x))" using sorted_less_distinct [OF srt] by (simp add: distinct_card)
    also have "\<dots> \<le> length (slab_objs x (object_size c))"
      using sx hsz by (metis card_length card_mono finite_set order_trans slab_ok_def)
    finally show ?thesis by (simp add: slab_objs_def) (meson div_le_dividend order_trans)
  qed
  then have "unat (sh_free_count (headers s x) + 1) = length (us @ obj # vs)"
    using fc F by (simp add: unat_word_ariths)
  ultimately have sx': "slab_ok s' x (us @ obj # vs)"
    using sx ox(1) hsz F by (simp add: slab_ok_def s'_def h_def)
  have fr: "obj_next s' a = obj_next s a" if "unat a \<notin> slab_bytes x" for a
  proof -
    have "a \<noteq> obj" using slab_obj_bytes(3) [OF px ox(1)] that by auto
    moreover have "a \<noteq> last us" if "us \<noteq> []"
      using slab_ok_objects [OF sx, of "last us"] \<open>unat a \<notin> slab_bytes x\<close> that F by auto
    ultimately show ?thesis by (auto simp: s'_def nx_def)
  qed
  have ok': "heap_ok S (F(x := us @ obj # vs)) s'"
    using heap_ok_update [OF ok sx' xS _ fr] by (simp add: s'_def)
  have "(\<lambda>y. next_slab (headers s' y)) = (\<lambda>y. next_slab (headers s y))"
    by (auto simp: s'_def h_def)
  then have c': "cache_ok c hs S s'" using c by (auto simp: cache_ok_def s'_def h_def)
  have other: "obj \<notin> set (slab_objs z (object_size c))" if z: "z \<in> set hs" "z \<noteq> x" for z
  proof -
    have "z \<in> S" using c z by (auto simp: cache_ok_def)
    then have "slab_bytes z \<inter> slab_bytes x = {}" "slab_place z"
      using ok xS z(2) heap_okD [OF ok] by (auto simp: heap_ok_def slabs_apart_def slab_ok_def)
    then show ?thesis using slab_obj_bytes(3) [OF px ox(1)] slab_obj_bytes(3) by blast
  qed
  have "live c hs (F(x := us @ obj # vs)) = live c hs F - {obj}"
    using other x F by (auto simp: live_def split: if_splits)
  with run ok' c' x show thesis by (intro that [of s' "F(x := us @ obj # vs)"]) (auto simp: s'_def)
qed

section \<open>The contract of the page supply, and allocation\<close>

locale frame_source =
  fixes page_get :: "'p page_getter"
    and owns :: "u32 set \<Rightarrow> 'p \<Rightarrow> bool"
  assumes get_returns: "owns S p \<Longrightarrow> \<exists>r p'. page_get p = Some (r, p')"
    and get_none: "owns S p \<Longrightarrow> page_get p = Some (None, p') \<Longrightarrow> owns S p'"
    and get_some: "owns S p \<Longrightarrow> page_get p = Some (Some v, p') \<Longrightarrow>
      owns (insert v S) p' \<and> slab_place v \<and> (\<forall>y\<in>S. slab_bytes v \<inter> slab_bytes y = {})"

text \<open>What an allocation does to the slabs: which of them it changed, and the free objects afterwards.\<close>

definition alloc_effect ::
  "u32 \<Rightarrow> slab_cache_t \<Rightarrow> u32 list \<Rightarrow> u32 set \<Rightarrow> (u32 \<Rightarrow> u32 list) \<Rightarrow> 'p slab_state \<Rightarrow>
   slab_cache_t \<Rightarrow> u32 list \<Rightarrow> u32 set \<Rightarrow> (u32 \<Rightarrow> u32 list) \<Rightarrow> 'p slab_state \<Rightarrow> bool" where
  "alloc_effect r c hs S F s c' hs' S' F' s' \<longleftrightarrow>
     heap_ok S' F' s' \<and> cache_ok c' hs' S' s' \<and> object_size c' = object_size c \<and>
     r \<notin> live c hs F \<and> live c' hs' F' = insert r (live c hs F) \<and>
     S \<subseteq> S' \<and> set hs' \<inter> S = set hs \<and> S' - S \<subseteq> set hs' \<and>
     (\<forall>x. x \<notin> set hs' \<longrightarrow> F' x = F x \<and> headers s' x = headers s x)"

lemma alloc_first_free:
  assumes ok: "heap_ok S F s" and c: "cache_ok c hs S s" and x: "x \<in> set hs" "F x = y # ys"
  obtains s' where "slab_alloc_from_slab x s = (y, s')" and "y \<noteq> 0"
    and "alloc_effect y c hs S F s c hs S (F(x := ys)) s'" and "pages s' = pages s"
proof -
  have xS: "x \<in> S" using c x(1) by (auto simp: cache_ok_def)
  obtain s' where s': "slab_alloc_from_slab x s = (y, s')" "heap_ok S (F(x := ys)) s'"
    "\<And>z. next_slab (headers s' z) = next_slab (headers s z)"
    "\<And>z. sh_object_size (headers s' z) = sh_object_size (headers s z)"
    "\<And>z. z \<noteq> x \<Longrightarrow> headers s' z = headers s z" "pages s' = pages s"
    using slab_alloc_from_slab_ok [OF ok xS x(2)] by blast
  have so: "slab_ok s x (y # ys)" using heap_okD [OF ok xS] x(2) by simp
  have ysz: "y \<in> set (slab_objs x (object_size c))"
    using so c x(1) by (auto simp: slab_ok_def cache_ok_def)
  have y0: "y \<noteq> 0" "y \<notin> set ys" using so by (auto simp: slab_ok_def dest: sorted_less_distinct)
  have other: "y \<notin> set (slab_objs z (object_size c))" if z: "z \<in> set hs" "z \<noteq> x" for z
  proof -
    have "z \<in> S" using c z by (auto simp: cache_ok_def)
    then have "slab_bytes z \<inter> slab_bytes x = {}" "slab_place z" "slab_place x"
      using ok xS z(2) heap_okD [OF ok] by (auto simp: heap_ok_def slabs_apart_def slab_ok_def)
    then show ?thesis using slab_obj_bytes(3) ysz by blast
  qed
  have "cache_ok c hs S s'" using c s'(3,4) by (simp add: cache_ok_def)
  moreover have "y \<notin> live c hs F"
    using other x by (fastforce simp: live_def)
  moreover have "live c hs (F(x := ys)) = insert y (live c hs F)"
    using x ysz y0(2) by (auto simp: live_def split: if_splits)
  ultimately have "alloc_effect y c hs S F s c hs S (F(x := ys)) s'"
    using s' x(1) c by (auto simp: alloc_effect_def cache_ok_def)
  with s' y0 show thesis using that by blast
qed

context frame_source
begin

lemma slab_malloc_ok:
  assumes ok: "heap_ok S F s" and c: "cache_ok c hs S s" and own: "owns S (pages s)"
  shows "(\<exists>ps. slab_malloc page_get c fg s = Some (0, c, s\<lparr>pages := ps\<rparr>) \<and>
      page_get (pages s) = Some (None, ps) \<and> owns S ps) \<or>
    (\<exists>r c' s' hs' S' F'. slab_malloc page_get c fg s = Some (r, c', s') \<and> r \<noteq> 0 \<and>
      alloc_effect r c hs S F s c' hs' S' F' s' \<and> owns S' (pages s'))"
proof (cases "find (\<lambda>x. F x \<noteq> []) hs")
  case (Some x)
  then have fc: "slab_alloc_from_cache c s = Some (slab_alloc_from_slab x s)" and x: "x \<in> set hs" "F x \<noteq> []"
    using slab_alloc_from_cache_ok [OF ok c] by simp_all
  obtain y ys where "F x = y # ys" using x(2) by (cases "F x") auto
  from alloc_first_free [OF ok c x(1) this] obtain s' where
    s': "slab_alloc_from_slab x s = (y, s')" "y \<noteq> 0"
      "alloc_effect y c hs S F s c hs S (F(x := ys)) s'" "pages s' = pages s" by blast
  have "slab_malloc page_get c fg s = Some (y, c, s')" using fc s' by (simp add: slab_malloc_def)
  with s' own show ?thesis by metis
next
  case None
  then have fc: "slab_alloc_from_cache c s = Some (0, s)" using slab_alloc_from_cache_ok [OF ok c] by simp
  have empty: "\<forall>x\<in>set hs. F x = []" using None by (auto simp: find_None_iff)
  obtain pr ps where get: "page_get (pages s) = Some (pr, ps)" using get_returns [OF own] by blast
  show ?thesis
  proof (cases pr)
    case None
    with get have "slab_add_cache_frame page_get c 0 s = Some (c, s\<lparr>pages := ps\<rparr>)"
      by (simp add: slab_add_cache_frame_def)
    moreover have "slab_alloc_from_cache c (s\<lparr>pages := ps\<rparr>) = Some (0, s\<lparr>pages := ps\<rparr>)"
    proof -
      have "slab_ok (s\<lparr>pages := ps\<rparr>) x fs = slab_ok s x fs" for x fs by (simp add: slab_ok_def)
      then have "heap_ok S F (s\<lparr>pages := ps\<rparr>)" "cache_ok c hs S (s\<lparr>pages := ps\<rparr>)"
        using ok c by (simp_all add: heap_ok_def cache_ok_def)
      from slab_alloc_from_cache_ok [OF this] \<open>find (\<lambda>x. F x \<noteq> []) hs = None\<close> show ?thesis by simp
    qed
    ultimately have "slab_malloc page_get c fg s = Some (0, c, s\<lparr>pages := ps\<rparr>)"
      using fc by (simp add: slab_malloc_def)
    with get None get_none [OF own] show ?thesis by blast
  next
    case (Some v)
    note gs = get_some [OF own get [unfolded Some]]
    have vS: "v \<notin> S" using gs slab_bytes_self by blast
    obtain c1 s1 where a: "slab_add_cache_frame page_get c 0 s = Some (c1, s1)"
      "heap_ok (insert v S) (F(v := slab_objs v (object_size c))) s1"
      "cache_ok c1 (hs @ [v]) (insert v S) s1" "object_size c1 = object_size c" "pages s1 = ps"
      "\<And>y. y \<notin> insert v (set hs) \<Longrightarrow> headers s1 y = headers s y"
      using slab_add_cache_frame_ok [where page_get = page_get, OF ok c get [unfolded Some]] gs by blast
    let ?F1 = "F(v := slab_objs v (object_size c))"
    have vhs: "v \<notin> set hs" using vS c by (auto simp: cache_ok_def)
    have sz: "size_ok (object_size c)" using c by (simp add: cache_ok_def)
    then obtain y ys where ys: "slab_objs v (object_size c) = y # ys"
      by (cases "slab_objs v (object_size c)") (auto simp: slab_objs_def size_ok_def div_eq_0_iff)
    have "find (\<lambda>x. ?F1 x \<noteq> []) (hs @ [v]) = Some v" using empty vhs ys
      by (induction hs) auto
    then have fc1: "slab_alloc_from_cache c1 s1 = Some (slab_alloc_from_slab v s1)"
      using slab_alloc_from_cache_ok [OF a(2,3)] by simp
    have "v \<in> set (hs @ [v])" "?F1 v = y # ys" using ys by simp_all
    from alloc_first_free [OF a(2,3) this] obtain s2 where
      s2: "slab_alloc_from_slab v s1 = (y, s2)" "y \<noteq> 0"
        "alloc_effect y c1 (hs @ [v]) (insert v S) ?F1 s1 c1 (hs @ [v]) (insert v S) (?F1(v := ys)) s2"
        "pages s2 = pages s1" by blast
    have run: "slab_malloc page_get c fg s = Some (y, c1, s2)" using fc a(1) fc1 s2 by (simp add: slab_malloc_def)
    have l: "live c1 (hs @ [v]) ?F1 = live c hs F" using vhs a(4) by (auto simp: live_def split: if_splits)
    have hsS: "set hs \<subseteq> S" using c by (auto simp: cache_ok_def)
    have "alloc_effect y c hs S F s c1 (hs @ [v]) (insert v S) (?F1(v := ys)) s2"
      using s2(3) a(4,6) l hsS vS by (auto simp: alloc_effect_def)
    moreover have "owns (insert v S) (pages s2)" using gs s2(4) a(5) by simp
    ultimately show ?thesis using run s2(2) by blast
  qed
qed

end

end
