(* ===== verification/Rotary_List.thy ===== *)
theory Rotary_List
  imports Prelude
begin

text \<open>
  The intrusive doubly-linked lists of \<^verbatim>\<open>include/rotary/list.h\<close>, circular and linear.
  A node is a reference of some type \<open>'n\<close> (each client chooses the references of the
  structs that embed a \<^verbatim>\<open>list_node_t\<close>), a pointer is an \<open>'n option\<close> with
  \<^term>\<open>None\<close> for NULL, and the memory of all nodes is a function from references to
  nodes. The operations are the assignments of the C functions in order; what they do
  to the sequence of nodes is stated with the segment predicates \<open>chain\<close> and
  \<open>lchain\<close>, and both kinds of list are shown to meet one contract, \<open>node_sequence\<close>.
\<close>

section \<open>Nodes\<close>

record 'n list_node_t =
  next_node :: "'n option"
  prev_node :: "'n option"

type_synonym 'n list_heap = "'n \<Rightarrow> 'n list_node_t"

definition set_next :: "'n \<Rightarrow> 'n option \<Rightarrow> 'n list_heap \<Rightarrow> 'n list_heap" where
  "set_next p q h = h(p := (h p)\<lparr>next_node := q\<rparr>)"

definition set_prev :: "'n \<Rightarrow> 'n option \<Rightarrow> 'n list_heap \<Rightarrow> 'n list_heap" where
  "set_prev p q h = h(p := (h p)\<lparr>prev_node := q\<rparr>)"

lemma next_set_next [simp]: "next_node (set_next p q h r) = (if r = p then q else next_node (h r))"
  and prev_set_next [simp]: "prev_node (set_next p q h r) = prev_node (h r)"
  and next_set_prev [simp]: "next_node (set_prev p q h r) = next_node (h r)"
  and prev_set_prev [simp]: "prev_node (set_prev p q h r) = (if r = p then q else prev_node (h r))"
  by (simp_all add: set_next_def set_prev_def)

section \<open>Circular doubly-linked lists\<close>

definition clist_init :: "'n option \<Rightarrow> 'n list_heap \<Rightarrow> 'n list_heap" where
  "clist_init first_node h =
     (case first_node of None \<Rightarrow> h
      | Some n \<Rightarrow> set_prev n (Some n) (set_next n (Some n) h))"

definition clist_add :: "'n option \<Rightarrow> 'n option \<Rightarrow> 'n list_heap \<Rightarrow> 'n list_heap option" where
  "clist_add node_head node_new h = do {
     head \<leftarrow> node_head;
     let h1 = (case next_node (h head) of None \<Rightarrow> h | Some nx \<Rightarrow> set_prev nx node_new h);
     new \<leftarrow> node_new;
     let h2 = set_next new (next_node (h1 head)) h1;
     let h3 = set_prev new (Some head) h2;
     Some (set_next head (Some new) h3)
   }"

definition clist_add_before :: "'n option \<Rightarrow> 'n option \<Rightarrow> 'n list_heap \<Rightarrow> 'n list_heap option" where
  "clist_add_before node_ref node_new h =
     (case (node_ref, node_new) of
        (Some ref, Some new) \<Rightarrow> do {
          let h1 = set_next new (Some ref) h;
          let h2 = set_prev new (prev_node (h1 ref)) h1;
          let h3 = set_prev ref (Some new) h2;
          before \<leftarrow> prev_node (h3 new);
          Some (set_next before (Some new) h3)
        }
      | _ \<Rightarrow> Some h)"

definition clist_add_after :: "'n option \<Rightarrow> 'n option \<Rightarrow> 'n list_heap \<Rightarrow> 'n list_heap option" where
  "clist_add_after node_ref node_new h =
     (case (node_ref, node_new) of
        (Some ref, Some new) \<Rightarrow> do {
          let h1 = set_next new (next_node (h ref)) h;
          let h2 = set_prev new (Some ref) h1;
          let h3 = set_next ref (Some new) h2;
          after \<leftarrow> next_node (h3 new);
          Some (set_prev after (Some new) h3)
        }
      | _ \<Rightarrow> Some h)"

definition clist_delete_node :: "'n option \<Rightarrow> 'n list_heap \<Rightarrow> 'n list_heap option" where
  "clist_delete_node node h =
     (case node of None \<Rightarrow> Some h
      | Some n \<Rightarrow> do {
          before \<leftarrow> prev_node (h n);
          let h1 = set_next before (next_node (h n)) h;
          after \<leftarrow> next_node (h1 n);
          Some (set_prev after (prev_node (h1 n)) h1)
        })"

section \<open>Linear doubly-linked lists\<close>

definition llist_init :: "'n option \<Rightarrow> 'n list_heap \<Rightarrow> 'n list_heap" where
  "llist_init first_node h =
     (case first_node of None \<Rightarrow> h
      | Some n \<Rightarrow> set_prev n None (set_next n None h))"

definition llist_add :: "'n option \<Rightarrow> 'n option \<Rightarrow> 'n list_heap \<Rightarrow> 'n list_heap option" where
  "llist_add node_head node_new h = do {
     head \<leftarrow> node_head;
     let h1 = (case next_node (h head) of None \<Rightarrow> h | Some nx \<Rightarrow> set_prev nx node_new h);
     new \<leftarrow> node_new;
     let h2 = set_next new (next_node (h1 head)) h1;
     let h3 = set_prev new (Some head) h2;
     Some (set_next head (Some new) h3)
   }"

definition llist_add_before :: "'n option \<Rightarrow> 'n option \<Rightarrow> 'n list_heap \<Rightarrow> 'n list_heap" where
  "llist_add_before node_ref node_new h =
     (case (node_ref, node_new) of
        (Some ref, Some new) \<Rightarrow>
          (let h1 = set_next new (Some ref) h;
               h2 = set_prev new (prev_node (h1 ref)) h1;
               h3 = (case prev_node (h2 ref) of None \<Rightarrow> h2
                     | Some before \<Rightarrow> set_next before (Some new) h2)
           in set_prev ref (Some new) h3)
      | _ \<Rightarrow> h)"

definition llist_add_after :: "'n option \<Rightarrow> 'n option \<Rightarrow> 'n list_heap \<Rightarrow> 'n list_heap" where
  "llist_add_after node_ref node_new h =
     (case (node_ref, node_new) of
        (Some ref, Some new) \<Rightarrow>
          (let h1 = set_next new (next_node (h ref)) h;
               h2 = set_prev new (Some ref) h1;
               h3 = (case next_node (h2 ref) of None \<Rightarrow> h2
                     | Some after \<Rightarrow> set_prev after (Some new) h2)
           in set_next ref (Some new) h3)
      | _ \<Rightarrow> h)"

definition llist_delete_node :: "'n option \<Rightarrow> 'n list_heap \<Rightarrow> 'n list_heap" where
  "llist_delete_node node h =
     (case node of None \<Rightarrow> h
      | Some n \<Rightarrow>
          (let h1 = (case prev_node (h n) of None \<Rightarrow> h
                     | Some before \<Rightarrow> set_next before (next_node (h n)) h)
           in case next_node (h1 n) of None \<Rightarrow> h1
              | Some after \<Rightarrow> set_prev after (prev_node (h1 n)) h1))"

text \<open>The traversals are loops with no bound of their own: \<^term>\<open>None\<close> is a list that never ends.\<close>

partial_function (option) llist_length_loop ::
  "'n list_heap \<Rightarrow> 'n option \<Rightarrow> u32 \<Rightarrow> u32 option" where
  "llist_length_loop h current_node count =
     (case current_node of None \<Rightarrow> Some count
      | Some n \<Rightarrow> llist_length_loop h (next_node (h n)) (count + 1))"

definition llist_length :: "'n option \<Rightarrow> 'n list_heap \<Rightarrow> i32 option" where
  "llist_length start_node h = llist_length_loop h start_node 0"

text \<open>\<^verbatim>\<open>Inl E_ERROR\<close> is the pointer \<^verbatim>\<open>(list_node_t*)E_ERROR\<close> the code returns for NULL.\<close>

partial_function (option) llist_get_last ::
  "'n list_heap \<Rightarrow> 'n option \<Rightarrow> (i32 + 'n) option" where
  "llist_get_last h current_node =
     (case current_node of None \<Rightarrow> Some (Inl E_ERROR)
      | Some n \<Rightarrow>
          (if next_node (h n) = None then Some (Inr n)
           else llist_get_last h (next_node (h n))))"

definition llist_add_end :: "'n option \<Rightarrow> 'n option \<Rightarrow> 'n list_heap \<Rightarrow> 'n list_heap option" where
  "llist_add_end node_ref node_new h =
     (if node_new = None then Some h
      else if node_ref = None then Some (llist_init node_new h)
      else do {
        last_node \<leftarrow> llist_get_last h node_ref;
        Some (case last_node of Inl e \<Rightarrow> h | Inr l \<Rightarrow> llist_add_after (Some l) node_new h)
      })"

text \<open>
  The search loops the kernel writes with \<^verbatim>\<open>clist_for_each\<close> and \<^verbatim>\<open>list_for_each\<close>: visit the
  nodes from \<open>entry\<close> on and stop at the first one the loop body returns from. The
  circular macro ends at the head, the linear one at NULL.
\<close>

partial_function (option) clist_for_each ::
  "'n list_heap \<Rightarrow> 'n \<Rightarrow> ('n \<Rightarrow> bool) \<Rightarrow> 'n option \<Rightarrow> 'n option option" where
  "clist_for_each h head returns entry = do {
     n \<leftarrow> entry;
     (if n = head then Some None
      else if returns n then Some (Some n)
      else clist_for_each h head returns (next_node (h n)))
   }"

partial_function (option) list_for_each ::
  "'n list_heap \<Rightarrow> ('n \<Rightarrow> bool) \<Rightarrow> 'n option \<Rightarrow> 'n option option" where
  "list_for_each h returns entry =
     (case entry of None \<Rightarrow> Some None
      | Some n \<Rightarrow> if returns n then Some (Some n) else list_for_each h returns (next_node (h n)))"

section \<open>Segments\<close>

text \<open>
  \<open>chain h a xs b\<close>: following \<^const>\<open>next_node\<close> from \<open>a\<close> visits \<open>xs\<close> and arrives at
  \<open>b\<close>, and every link is answered by the \<^const>\<open>prev_node\<close> of its target. A circular
  list with head \<open>a\<close> is a chain from \<open>a\<close> back to \<open>a\<close>.
\<close>

primrec chain :: "'n list_heap \<Rightarrow> 'n \<Rightarrow> 'n list \<Rightarrow> 'n \<Rightarrow> bool" where
  "chain h a [] b \<longleftrightarrow> next_node (h a) = Some b \<and> prev_node (h b) = Some a"
| "chain h a (x # xs) b \<longleftrightarrow>
     next_node (h a) = Some x \<and> prev_node (h x) = Some a \<and> chain h x xs b"

definition clist :: "'n list_heap \<Rightarrow> 'n \<Rightarrow> 'n list \<Rightarrow> bool" where
  "clist h a xs \<longleftrightarrow> distinct (a # xs) \<and> chain h a xs a"

primrec lchain :: "'n list_heap \<Rightarrow> 'n \<Rightarrow> 'n list \<Rightarrow> bool" where
  "lchain h a [] \<longleftrightarrow> next_node (h a) = None"
| "lchain h a (x # xs) \<longleftrightarrow>
     next_node (h a) = Some x \<and> prev_node (h x) = Some a \<and> lchain h x xs"

definition llist :: "'n list_heap \<Rightarrow> 'n \<Rightarrow> 'n list \<Rightarrow> bool" where
  "llist h a xs \<longleftrightarrow> distinct (a # xs) \<and> lchain h a xs"

lemma chain_append: "chain h a (xs @ y # ys) b \<longleftrightarrow> chain h a xs y \<and> chain h y ys b"
  by (induction xs arbitrary: a) auto

lemma lchain_append: "lchain h a (xs @ y # ys) \<longleftrightarrow> chain h a xs y \<and> lchain h y ys"
  by (induction xs arbitrary: a) auto

lemma chain_cong:
  assumes "\<And>n. n \<in> insert a (set xs) \<Longrightarrow> next_node (h n) = next_node (h' n)"
    and "\<And>n. n \<in> insert b (set xs) \<Longrightarrow> prev_node (h n) = prev_node (h' n)"
  shows "chain h a xs b \<longleftrightarrow> chain h' a xs b"
  using assms by (induction xs arbitrary: a) auto

lemma lchain_cong:
  assumes "\<And>n. n \<in> insert a (set xs) \<Longrightarrow> next_node (h n) = next_node (h' n)"
    and "\<And>n. n \<in> set xs \<Longrightarrow> prev_node (h n) = prev_node (h' n)"
  shows "lchain h a xs \<longleftrightarrow> lchain h' a xs"
  using assms by (induction xs arbitrary: a) auto

lemma chain_last: "chain h a xs b \<Longrightarrow> prev_node (h b) = Some (last (a # xs))"
  by (induction xs arbitrary: a) auto

lemma chain_first: "chain h a xs b \<Longrightarrow> next_node (h a) = Some (hd (xs @ [b]))"
  by (cases xs) auto

text \<open>Joining two chains whose middle node is dropped: the last node of the first now links to the end of the second.\<close>

lemma chain_shortcut:
  assumes "chain h a ys x" and "chain h x zs b"
    and "distinct (a # ys @ x # zs)" and "b \<notin> set ys" "b \<noteq> x" "b \<notin> set zs"
  shows "chain (set_prev (hd (zs @ [b])) (Some (last (a # ys)))
            (set_next (last (a # ys)) (Some (hd (zs @ [b]))) h)) a (ys @ zs) b"
  using assms
proof (induction ys arbitrary: a)
  case Nil
  show ?case
  proof (cases zs)
    case Nil
    with Nil.prems show ?thesis by simp
  next
    case (Cons z zs')
    let ?h' = "set_prev z (Some a) (set_next a (Some z) h)"
    from Cons Nil.prems have "chain h z zs' b" by simp
    then have "chain ?h' z zs' b"
      using Cons Nil.prems by (subst chain_cong [of _ _ _ h]) auto
    with Cons show ?thesis by simp
  qed
next
  case (Cons y ys)
  then have "chain (set_prev (hd (zs @ [b])) (Some (last (y # ys)))
            (set_next (last (y # ys)) (Some (hd (zs @ [b]))) h)) y (ys @ zs) b"
    by simp
  moreover have "a \<noteq> last (y # ys)" "y \<noteq> hd (zs @ [b])"
    using Cons.prems by (auto simp: hd_append dest: last_in_set split: if_splits)
  ultimately show ?case using Cons.prems by simp
qed

section \<open>What the operations do\<close>

lemma clist_init_clist: "clist (clist_init (Some a) h) a []"
  by (simp add: clist_init_def clist_def)

lemma clist_add_correct:
  assumes "clist h a xs" and "x \<notin> insert a (set xs)"
  obtains h' where "clist_add (Some a) (Some x) h = Some h'" and "clist h' a (x # xs)"
    and "\<And>n. n \<notin> insert x (insert a (set xs)) \<Longrightarrow> h' n = h n"
proof -
  let ?y = "hd (xs @ [a])"
  let ?h' = "set_next a (Some x) (set_prev x (Some a) (set_next x (Some ?y) (set_prev ?y (Some x) h)))"
  have nx: "next_node (h a) = Some ?y"
    using assms(1) chain_first by (auto simp: clist_def)
  then have run: "clist_add (Some a) (Some x) h = Some ?h'"
    by (simp add: clist_add_def)
  have "clist ?h' a (x # xs)"
  proof (cases xs)
    case Nil
    with assms show ?thesis by (simp add: clist_def)
  next
    case (Cons y ys)
    with assms have "chain h y ys a" by (simp add: clist_def)
    then have "chain ?h' y ys a"
      using assms Cons by (subst chain_cong [of _ _ _ h]) (auto simp: clist_def)
    with assms Cons show ?thesis by (auto simp: clist_def)
  qed
  moreover have "?h' n = h n" if "n \<notin> insert x (insert a (set xs))" for n
    using that by (cases xs) (auto simp: set_next_def set_prev_def)
  ultimately show thesis using run that by blast
qed

lemma clist_delete_correct:
  assumes "clist h a (ys @ x # zs)"
  obtains h' where "clist_delete_node (Some x) h = Some h'" and "clist h' a (ys @ zs)"
    and "\<And>n. n \<notin> insert a (set ys \<union> set zs) \<Longrightarrow> h' n = h n"
proof -
  let ?l = "last (a # ys)" and ?y = "hd (zs @ [a])"
  let ?h' = "set_prev ?y (Some ?l) (set_next ?l (Some ?y) h)"
  have d: "distinct (a # ys @ x # zs)" and c1: "chain h a ys x" and c2: "chain h x zs a"
    using assms by (auto simp: clist_def chain_append)
  from chain_last [OF c1] chain_first [OF c2]
  have p: "prev_node (h x) = Some ?l" and n: "next_node (h x) = Some ?y" by auto
  have "x \<noteq> ?l" using d by (auto dest: last_in_set split: if_splits)
  with p n have run: "clist_delete_node (Some x) h = Some ?h'"
    by (simp add: clist_delete_node_def)
  have "chain ?h' a (ys @ zs) a"
    using chain_shortcut [OF c1 c2 d] d by simp
  then have "clist ?h' a (ys @ zs)" using d by (auto simp: clist_def)
  moreover have "?h' n = h n" if "n \<notin> insert a (set ys \<union> set zs)" for n
  proof -
    have "n \<noteq> ?l" "n \<noteq> ?y"
      using that by (auto simp: hd_append dest: last_in_set split: if_splits)
    then show ?thesis by (simp add: set_next_def set_prev_def)
  qed
  ultimately show thesis using run that by blast
qed

lemma clist_add_after_correct:
  assumes "clist h a (ys @ r # zs)" and "x \<notin> insert a (set (ys @ r # zs))"
  obtains h' where "clist_add_after (Some r) (Some x) h = Some h'"
    and "clist h' a (ys @ r # x # zs)"
proof -
  let ?y = "hd (zs @ [a])"
  let ?h' = "set_prev ?y (Some x) (set_next r (Some x) (set_prev x (Some r) (set_next x (Some ?y) h)))"
  have d: "distinct (a # ys @ r # zs)" and c1: "chain h a ys r" and c2: "chain h r zs a"
    using assms by (auto simp: clist_def chain_append)
  from chain_first [OF c2] have n: "next_node (h r) = Some ?y" .
  have "r \<noteq> x" using assms(2) by auto
  with n have run: "clist_add_after (Some r) (Some x) h = Some ?h'"
    by (simp add: clist_add_after_def)
  have "?y \<notin> insert r (set ys)" using d by (auto simp: hd_append split: if_splits)
  then have c1': "chain ?h' a ys r"
    using c1 d assms(2) by (subst chain_cong [of _ _ _ h]) auto
  have "chain ?h' x zs a"
  proof (cases zs)
    case (Cons z zs')
    with c2 have "chain h z zs' a" by simp
    then have "chain ?h' z zs' a"
      using Cons d assms(2) by (subst chain_cong [of _ _ _ h]) auto
    with Cons assms(2) show ?thesis by auto
  qed (use assms(2) in auto)
  with c1' d assms(2) have "clist ?h' a (ys @ r # x # zs)"
    by (auto simp: clist_def chain_append hd_append split: if_splits)
  with run that show thesis by blast
qed

lemma clist_add_before_head_correct:
  assumes "clist h a xs" and "x \<notin> insert a (set xs)"
  obtains h' where "clist_add_before (Some a) (Some x) h = Some h'" and "clist h' a (xs @ [x])"
proof -
  let ?l = "last (a # xs)"
  let ?h' = "set_next ?l (Some x) (set_prev a (Some x) (set_prev x (Some ?l) (set_next x (Some a) h)))"
  have c: "chain h a xs a" and d: "distinct (a # xs)" using assms by (auto simp: clist_def)
  from chain_last [OF c] have p: "prev_node (h a) = Some ?l" .
  have "x \<noteq> a" using assms(2) by auto
  with p have run: "clist_add_before (Some a) (Some x) h = Some ?h'"
    by (simp add: clist_add_before_def)
  have "clist ?h' a (xs @ [x])"
  proof (cases xs rule: rev_cases)
    case (snoc ys y)
    with c have "chain h a ys y" by (simp add: chain_append)
    then have "chain ?h' a ys y"
      using snoc d assms(2) by (subst chain_cong [of _ _ _ h]) auto
    with snoc d assms(2) show ?thesis by (auto simp: clist_def chain_append)
  qed (use assms(2) in \<open>auto simp: clist_def\<close>)
  with run that show thesis by blast
qed

lemma llist_init_llist: "llist (llist_init (Some a) h) a []"
  by (simp add: llist_init_def llist_def)

lemma llist_add_correct:
  assumes "llist h a xs" and "x \<notin> insert a (set xs)"
  obtains h' where "llist_add (Some a) (Some x) h = Some h'" and "llist h' a (x # xs)"
    and "\<And>n. n \<notin> insert x (insert a (set xs)) \<Longrightarrow> h' n = h n"
proof (cases xs)
  case Nil
  let ?h' = "set_next a (Some x) (set_prev x (Some a) (set_next x None h))"
  have run: "llist_add (Some a) (Some x) h = Some ?h'"
    using assms Nil by (simp add: llist_add_def llist_def)
  show thesis
    by (rule that [OF run]) (use assms Nil in \<open>auto simp: llist_def set_next_def set_prev_def\<close>)
next
  case (Cons y ys)
  let ?h' = "set_next a (Some x) (set_prev x (Some a) (set_next x (Some y) (set_prev y (Some x) h)))"
  have run: "llist_add (Some a) (Some x) h = Some ?h'"
    using assms Cons by (simp add: llist_add_def llist_def)
  from assms Cons have "lchain h y ys" by (simp add: llist_def)
  then have "lchain ?h' y ys"
    using assms Cons by (subst lchain_cong [of _ _ _ h]) (auto simp: llist_def)
  with assms Cons have "llist ?h' a (x # xs)" by (auto simp: llist_def)
  with run Cons that show thesis by (auto simp: set_next_def set_prev_def)
qed

lemma llist_delete_correct:
  assumes "llist h a (ys @ x # zs)"
  shows "llist (llist_delete_node (Some x) h) a (ys @ zs)"
    and "\<And>n. n \<notin> insert a (set ys \<union> set zs) \<Longrightarrow> llist_delete_node (Some x) h n = h n"
proof -
  let ?l = "last (a # ys)"
  have d: "distinct (a # ys @ x # zs)" and c1: "chain h a ys x" and c2: "lchain h x zs"
    using assms by (auto simp: llist_def lchain_append)
  have p: "prev_node (h x) = Some ?l" using chain_last [OF c1] .
  have l: "?l \<noteq> x" "?l \<in> insert a (set ys)" "?l \<notin> set zs"
    using d by (auto dest: last_in_set split: if_splits)
  have "llist (llist_delete_node (Some x) h) a (ys @ zs) \<and>
    (\<forall>n. n \<notin> insert a (set ys \<union> set zs) \<longrightarrow> llist_delete_node (Some x) h n = h n)"
  proof (cases zs)
    case Nil
    with c2 have n: "next_node (h x) = None" by simp
    have run: "llist_delete_node (Some x) h = set_next ?l None h"
      using p n l by (simp add: llist_delete_node_def)
    have "lchain (set_next ?l None h) a ys"
    proof (cases ys rule: rev_cases)
      case (snoc us u)
      with c1 have "chain h a us u" by (simp add: chain_append)
      then have "chain (set_next u None h) a us u"
        using snoc d by (subst chain_cong [of _ _ _ h]) auto
      with snoc show ?thesis by (simp add: lchain_append)
    qed simp
    with run d l Nil show ?thesis by (auto simp: llist_def set_next_def)
  next
    case (Cons z zs')
    with c2 have n: "next_node (h x) = Some z" and z: "prev_node (h z) = Some x" "lchain h z zs'"
      by auto
    let ?h' = "set_prev z (Some ?l) (set_next ?l (Some z) h)"
    have run: "llist_delete_node (Some x) h = ?h'"
      using p n l by (simp add: llist_delete_node_def)
    have "chain h x [] z" using n z by simp
    from chain_shortcut [OF c1 this] have "chain ?h' a ys z" using d Cons by auto
    moreover have "lchain ?h' z zs'"
      using z d l Cons by (subst lchain_cong [of _ _ _ h]) auto
    ultimately have "lchain ?h' a (ys @ z # zs')" by (simp add: lchain_append)
    moreover have "?h' n = h n" if "n \<notin> insert a (set ys \<union> set zs)" for n
      using that l Cons by (auto simp: set_next_def set_prev_def)
    ultimately show ?thesis using run d Cons by (auto simp: llist_def)
  qed
  then show "llist (llist_delete_node (Some x) h) a (ys @ zs)"
    and "\<And>n. n \<notin> insert a (set ys \<union> set zs) \<Longrightarrow> llist_delete_node (Some x) h n = h n"
    by auto
qed

lemma llist_add_after_correct:
  assumes "llist h a (ys @ [r])" and "x \<notin> insert a (set (ys @ [r]))"
  shows "llist (llist_add_after (Some r) (Some x) h) a (ys @ [r, x])"
proof -
  let ?h' = "set_next r (Some x) (set_prev x (Some r) (set_next x None h))"
  have c: "chain h a ys r" "next_node (h r) = None" and d: "distinct (a # ys @ [r])"
    using assms by (auto simp: llist_def lchain_append)
  have run: "llist_add_after (Some r) (Some x) h = ?h'"
    using c(2) assms(2) by (simp add: llist_add_after_def)
  have "chain ?h' a ys r"
    using c d assms(2) by (subst chain_cong [of _ _ _ h]) auto
  with assms(2) d show ?thesis unfolding run by (auto simp: llist_def lchain_append)
qed

section \<open>Traversals end\<close>

lemma llist_length_loop_correct:
  "lchain h a xs \<Longrightarrow> llist_length_loop h (next_node (h a)) c = Some (c + of_nat (length xs))"
proof (induction xs arbitrary: a c)
  case Nil
  then show ?case by (simp add: llist_length_loop.simps)
next
  case (Cons x xs)
  then have "llist_length_loop h (next_node (h x)) (c + 1) = Some (c + 1 + of_nat (length xs))"
    by auto
  with Cons.prems show ?case
    by (simp add: llist_length_loop.simps [of h "Some x"] algebra_simps)
qed

lemma llist_get_last_correct:
  "lchain h a xs \<Longrightarrow> llist_get_last h (Some a) = Some (Inr (last (a # xs)))"
proof (induction xs arbitrary: a)
  case Nil
  then show ?case by (simp add: llist_get_last.simps)
next
  case (Cons x xs)
  then show ?case by (subst llist_get_last.simps) auto
qed

lemma clist_for_each_chain:
  assumes "chain h a xs e" and "e \<notin> set xs"
  shows "clist_for_each h e P (next_node (h a)) = Some (find P xs)"
  using assms
proof (induction xs arbitrary: a)
  case Nil
  then show ?case by (simp add: clist_for_each.simps)
next
  case (Cons x xs)
  then have "clist_for_each h e P (next_node (h x)) = Some (find P xs)" by auto
  with Cons.prems show ?case by (subst clist_for_each.simps) auto
qed

lemma clist_for_each_correct:
  "clist h a xs \<Longrightarrow> clist_for_each h a P (next_node (h a)) = Some (find P xs)"
  by (rule clist_for_each_chain) (auto simp: clist_def)

lemma list_for_each_correct:
  "lchain h a xs \<Longrightarrow> list_for_each h P (next_node (h a)) = Some (find P xs)"
proof (induction xs arbitrary: a)
  case Nil
  then show ?case by (simp add: list_for_each.simps)
next
  case (Cons x xs)
  then have "list_for_each h P (next_node (h x)) = Some (find P xs)" by auto
  with Cons.prems show ?case by (subst list_for_each.simps) auto
qed

section \<open>The contract of a node sequence\<close>

text \<open>
  What the clients of \<^verbatim>\<open>list.h\<close> rely on: \<open>repr h a xs\<close> says that in memory \<open>h\<close> the list
  with head \<open>a\<close> holds the nodes \<open>xs\<close>; adding puts a node in front, deleting takes one
  out, and a list that shares no node with the one operated on is not touched.
\<close>

locale node_sequence =
  fixes repr :: "'h \<Rightarrow> 'n \<Rightarrow> 'n list \<Rightarrow> bool"
    and add :: "'n \<Rightarrow> 'n \<Rightarrow> 'h \<Rightarrow> 'h option"
    and del :: "'n \<Rightarrow> 'h \<Rightarrow> 'h option"
  assumes repr_distinct: "repr h a xs \<Longrightarrow> distinct (a # xs)"
    and add_repr: "repr h a xs \<Longrightarrow> x \<notin> insert a (set xs) \<Longrightarrow>
      \<exists>h'. add a x h = Some h' \<and> repr h' a (x # xs)"
    and del_repr: "repr h a (ys @ x # zs) \<Longrightarrow> \<exists>h'. del x h = Some h' \<and> repr h' a (ys @ zs)"
    and add_frame: "repr h a xs \<Longrightarrow> x \<notin> insert a (set xs) \<Longrightarrow> repr h b us \<Longrightarrow>
      insert b (set us) \<inter> insert x (insert a (set xs)) = {} \<Longrightarrow>
      add a x h = Some h' \<Longrightarrow> repr h' b us"
    and del_frame: "repr h a xs \<Longrightarrow> x \<in> set xs \<Longrightarrow> repr h b us \<Longrightarrow>
      insert b (set us) \<inter> insert a (set xs) = {} \<Longrightarrow>
      del x h = Some h' \<Longrightarrow> repr h' b us"

text \<open>
  Several lists in one memory: \<open>K\<close> names the lists, \<open>hd_of\<close> their heads, \<open>xs\<close> their
  contents. No two share a node.
\<close>

definition family ::
  "('h \<Rightarrow> 'n \<Rightarrow> 'n list \<Rightarrow> bool) \<Rightarrow> 'k set \<Rightarrow> ('k \<Rightarrow> 'n) \<Rightarrow> ('k \<Rightarrow> 'n list) \<Rightarrow> 'h \<Rightarrow> bool" where
  "family repr K hd_of xs h \<longleftrightarrow>
     (\<forall>k\<in>K. repr h (hd_of k) (xs k)) \<and>
     (\<forall>j\<in>K. \<forall>k\<in>K. j \<noteq> k \<longrightarrow>
        insert (hd_of j) (set (xs j)) \<inter> insert (hd_of k) (set (xs k)) = {})"

lemma familyD: "family repr K hd_of xs h \<Longrightarrow> k \<in> K \<Longrightarrow> repr h (hd_of k) (xs k)"
  by (simp add: family_def)

lemma family_fresh:
  assumes "family repr K hd_of xs h" and "j \<in> K" "k \<in> K" "j \<noteq> k" and "x \<in> set (xs j)"
  shows "x \<notin> insert (hd_of k) (set (xs k))"
  using assms unfolding family_def by blast

context node_sequence
begin

lemma del_remove1:
  assumes "repr h a xs" and "x \<in> set xs"
  shows "\<exists>h'. del x h = Some h' \<and> repr h' a (remove1 x xs)"
proof -
  from \<open>x \<in> set xs\<close> obtain ys zs where xs: "xs = ys @ x # zs" and "x \<notin> set ys"
    by (meson split_list_first)
  then have "remove1 x xs = ys @ zs" by (simp add: remove1_append)
  with assms(1) xs show ?thesis using del_repr by metis
qed

lemma add_then_del:
  assumes "repr h a xs" and "x \<notin> insert a (set xs)"
  shows "\<exists>h' h''. add a x h = Some h' \<and> del x h' = Some h'' \<and> repr h'' a xs"
proof -
  obtain h' where "add a x h = Some h'" and r: "repr h' a ([] @ x # xs)"
    using add_repr [OF assms] by auto
  with del_repr [OF r] show ?thesis by auto
qed

lemma family_add:
  assumes f: "family repr K hd_of xs h" and k: "k \<in> K"
    and fresh: "\<And>j. j \<in> K \<Longrightarrow> x \<notin> insert (hd_of j) (set (xs j))"
  shows "\<exists>h'. add (hd_of k) x h = Some h' \<and> family repr K hd_of (xs(k := x # xs k)) h'"
proof -
  obtain h' where h': "add (hd_of k) x h = Some h'" "repr h' (hd_of k) (x # xs k)"
    using add_repr [OF familyD [OF f k] fresh [OF k]] by auto
  have "repr h' (hd_of j) (xs j)" if "j \<in> K" "j \<noteq> k" for j
  proof (rule add_frame [OF familyD [OF f k] fresh [OF k] familyD [OF f \<open>j \<in> K\<close>] _ h'(1)])
    show "insert (hd_of j) (set (xs j)) \<inter> insert x (insert (hd_of k) (set (xs k))) = {}"
      using f k that fresh [OF \<open>j \<in> K\<close>] unfolding family_def by blast
  qed
  then have "\<forall>j\<in>K. repr h' (hd_of j) ((xs(k := x # xs k)) j)" using h'(2) by auto
  moreover have "insert (hd_of i) (set ((xs(k := x # xs k)) i)) \<inter>
      insert (hd_of j) (set ((xs(k := x # xs k)) j)) = {}" if "i \<in> K" "j \<in> K" "i \<noteq> j" for i j
  proof -
    have "insert (hd_of i) (set (xs i)) \<inter> insert (hd_of j) (set (xs j)) = {}"
      using f that unfolding family_def by blast
    with fresh [OF \<open>i \<in> K\<close>] fresh [OF \<open>j \<in> K\<close>] \<open>i \<noteq> j\<close> show ?thesis by auto
  qed
  ultimately show ?thesis using h'(1) unfolding family_def by blast
qed

lemma family_del:
  assumes f: "family repr K hd_of xs h" and k: "k \<in> K" and x: "x \<in> set (xs k)"
  shows "\<exists>h'. del x h = Some h' \<and> family repr K hd_of (xs(k := remove1 x (xs k))) h'"
proof -
  obtain h' where h': "del x h = Some h'" "repr h' (hd_of k) (remove1 x (xs k))"
    using del_remove1 [OF familyD [OF f k] x] by auto
  have "repr h' (hd_of j) (xs j)" if "j \<in> K" "j \<noteq> k" for j
  proof (rule del_frame [OF familyD [OF f k] x familyD [OF f \<open>j \<in> K\<close>] _ h'(1)])
    show "insert (hd_of j) (set (xs j)) \<inter> insert (hd_of k) (set (xs k)) = {}"
      using f k that unfolding family_def by blast
  qed
  then have "\<forall>j\<in>K. repr h' (hd_of j) ((xs(k := remove1 x (xs k))) j)" using h'(2) by auto
  moreover have "set (remove1 x (xs k)) \<subseteq> set (xs k)" by (rule set_remove1_subset)
  then have "insert (hd_of i) (set ((xs(k := remove1 x (xs k))) i)) \<inter>
      insert (hd_of j) (set ((xs(k := remove1 x (xs k))) j)) = {}"
    if "i \<in> K" "j \<in> K" "i \<noteq> j" for i j
  proof -
    have "insert (hd_of i) (set (xs i)) \<inter> insert (hd_of j) (set (xs j)) = {}"
      using f that unfolding family_def by blast
    with \<open>set (remove1 x (xs k)) \<subseteq> set (xs k)\<close> \<open>i \<noteq> j\<close> show ?thesis by auto
  qed
  ultimately show ?thesis using h'(1) unfolding family_def by blast
qed

end

lemma clist_frame:
  assumes "clist h b us" and "\<And>n. n \<notin> S \<Longrightarrow> h' n = h n" and "insert b (set us) \<inter> S = {}"
  shows "clist h' b us"
proof -
  have "\<And>n. n \<in> insert b (set us) \<Longrightarrow> h' n = h n" using assms(2,3) by blast
  with assms(1) chain_cong [of b us h h' b] show ?thesis by (auto simp: clist_def)
qed

lemma llist_frame:
  assumes "llist h b us" and "\<And>n. n \<notin> S \<Longrightarrow> h' n = h n" and "insert b (set us) \<inter> S = {}"
  shows "llist h' b us"
proof -
  have "\<And>n. n \<in> insert b (set us) \<Longrightarrow> h' n = h n" using assms(2,3) by blast
  with assms(1) lchain_cong [of b us h h'] show ?thesis by (auto simp: llist_def)
qed

interpretation circ: node_sequence clist
  "\<lambda>a x. clist_add (Some a) (Some x)" "\<lambda>x. clist_delete_node (Some x)"
proof (unfold_locales, goal_cases)
  case (1 h a xs)
  then show ?case by (simp add: clist_def)
next
  case (2 h a xs x)
  then show ?case by (metis clist_add_correct)
next
  case (3 h a ys x zs)
  then show ?case by (metis clist_delete_correct)
next
  case (4 h a xs x b us h')
  from clist_add_correct [OF 4(1,2)] 4(5)
  have "\<And>n. n \<notin> insert x (insert a (set xs)) \<Longrightarrow> h' n = h n" by (metis option.inject)
  then show ?case using 4(4) by (rule clist_frame [OF 4(3)])
next
  case (5 h a xs x b us h')
  from split_list [OF 5(2)] obtain ys zs where xs: "xs = ys @ x # zs" by auto
  from clist_delete_correct [OF 5(1) [unfolded xs]] 5(5)
  have "\<And>n. n \<notin> insert a (set ys \<union> set zs) \<Longrightarrow> h' n = h n" by (metis option.inject)
  moreover have "insert b (set us) \<inter> insert a (set ys \<union> set zs) = {}"
    using 5(4) xs by auto
  ultimately show ?case by (rule clist_frame [OF 5(3)])
qed

interpretation lin: node_sequence llist
  "\<lambda>a x. llist_add (Some a) (Some x)" "\<lambda>x h. Some (llist_delete_node (Some x) h)"
proof (unfold_locales, goal_cases)
  case (1 h a xs)
  then show ?case by (simp add: llist_def)
next
  case (2 h a xs x)
  then show ?case by (metis llist_add_correct)
next
  case (3 h a ys x zs)
  then show ?case by (simp add: llist_delete_correct)
next
  case (4 h a xs x b us h')
  from llist_add_correct [OF 4(1,2)] 4(5)
  have "\<And>n. n \<notin> insert x (insert a (set xs)) \<Longrightarrow> h' n = h n" by (metis option.inject)
  then show ?case using 4(4) by (rule llist_frame [OF 4(3)])
next
  case (5 h a xs x b us h')
  from split_list [OF 5(2)] obtain ys zs where xs: "xs = ys @ x # zs" by auto
  from llist_delete_correct(2) [OF 5(1) [unfolded xs]] 5(5)
  have "\<And>n. n \<notin> insert a (set ys \<union> set zs) \<Longrightarrow> h' n = h n" by simp
  moreover have "insert b (set us) \<inter> insert a (set ys \<union> set zs) = {}"
    using 5(4) xs by auto
  ultimately show ?case by (rule llist_frame [OF 5(3)])
qed

end
