(* ===== verification/Palloc.thy ===== *)
theory Palloc
  imports Rotary_List Bootmem
begin

text \<open>
  The buddy page allocator, \<^verbatim>\<open>kernel/mm/palloc.c\<close> and \<^verbatim>\<open>include/rotary/mm/palloc.h\<close>: state
  and operations. A \<^verbatim>\<open>struct page *\<close> into the page area is its index; the list nodes
  embedded in the pages and in the block lists live in one \<open>bnode list_heap\<close>. Every
  read or write through an index outside the page area or the block array is
  \<^term>\<open>None\<close>. An order is the value of the code's \<^verbatim>\<open>uint32_t\<close>; the one place where it
  would wrap (splitting order 0) is written out.
\<close>

section \<open>State\<close>

record page =
  pfn :: u32
  use_count :: u32
  flags :: u32
  order :: i32

record block_list =
  free_count :: u32
  used_count :: u32

datatype bnode = FreePages nat | BuddyNode nat

record buddy_allocator =
  page_area :: "page list"
  page_area_addr :: u32
  page_count :: u32
  blocks :: "block_list list"
  max_order :: u32
  buddy_lock :: bool
  nodes :: "bnode list_heap"
  low_pages :: u32
  high_pages :: u32

definition ORDER_USED :: i32 where [rotary_const]: "ORDER_USED = - 1"
definition ORDER_MAX :: nat where [rotary_const]: "ORDER_MAX = 6"
definition PF_INVALID :: u32 where [rotary_const]: "PF_INVALID = 0x01"
definition PF_ZONE_LOWMEM :: u32 where [rotary_const]: "PF_ZONE_LOWMEM = 0x02"
definition PF_ZONE_HIGHMEM :: u32 where [rotary_const]: "PF_ZONE_HIGHMEM = 0x04"
definition PF_KERNEL :: u32 where [rotary_const]: "PF_KERNEL = 0x08"
definition SIZEOF_PAGE :: u32 where [rotary_const]: "SIZEOF_PAGE = 24"

section \<open>Access to pages and block lists\<close>

definition page_at :: "nat \<Rightarrow> buddy_allocator \<Rightarrow> page option" where
  "page_at p s = (if p < length (page_area s) then Some (page_area s ! p) else None)"

definition upd_page :: "nat \<Rightarrow> (page \<Rightarrow> page) \<Rightarrow> buddy_allocator \<Rightarrow> buddy_allocator option" where
  "upd_page p f s =
     (if p < length (page_area s)
      then Some (s\<lparr>page_area := (page_area s)[p := f (page_area s ! p)]\<rparr>) else None)"

definition block_at :: "nat \<Rightarrow> buddy_allocator \<Rightarrow> block_list option" where
  "block_at k s = (if k < length (blocks s) then Some (blocks s ! k) else None)"

definition upd_block :: "nat \<Rightarrow> (block_list \<Rightarrow> block_list) \<Rightarrow> buddy_allocator \<Rightarrow> buddy_allocator option" where
  "upd_block k f s =
     (if k < length (blocks s)
      then Some (s\<lparr>blocks := (blocks s)[k := f (blocks s ! k)]\<rparr>) else None)"

definition page_from_pfn :: "u32 \<Rightarrow> nat" where
  "page_from_pfn n = unat n"

definition PAGE_PA :: "page \<Rightarrow> u32" where
  [rotary_macro]: "PAGE_PA pg = PFN_TO_PA (pfn pg)"

definition PAGE_VA :: "page \<Rightarrow> u32" where
  [rotary_macro]: "PAGE_VA pg = PHY_TO_VIR (PAGE_PA pg)"

definition VA_TO_PFN :: "u32 \<Rightarrow> u32" where
  [rotary_macro]: "VA_TO_PFN va = PA_TO_PFN (VIR_TO_PHY va)"

definition page_mark_invalid :: "nat \<Rightarrow> buddy_allocator \<Rightarrow> buddy_allocator option" where
  "page_mark_invalid p = upd_page p (\<lambda>pg. pg\<lparr>flags := flags pg OR PF_INVALID\<rparr>)"

section \<open>Blocks\<close>

definition buddy_get :: "nat \<Rightarrow> nat \<Rightarrow> buddy_allocator \<Rightarrow> nat option" where
  "buddy_get p k s = do {
     pg \<leftarrow> page_at p s;
     Some (page_from_pfn (pfn pg XOR push_bit k 1))
   }"

text \<open>\<^verbatim>\<open>container_of\<close> on the node of a list head would be a pointer outside the page area.\<close>

definition page_get_last :: "nat \<Rightarrow> buddy_allocator \<Rightarrow> nat option option" where
  "page_get_last k s = do {
     _ \<leftarrow> block_at k s;
     (case prev_node (nodes s (FreePages k)) of
        None \<Rightarrow> Some None
      | Some (BuddyNode p) \<Rightarrow> Some (Some p)
      | Some (FreePages _) \<Rightarrow> None)
   }"

definition buddy_remove_block :: "nat \<Rightarrow> buddy_allocator \<Rightarrow> buddy_allocator option" where
  "buddy_remove_block p s = do {
     pg \<leftarrow> page_at p s;
     h \<leftarrow> clist_delete_node (Some (BuddyNode p)) (nodes s);
     s1 \<leftarrow> upd_block (unat (order pg)) (\<lambda>b. b\<lparr>free_count := free_count b - 1\<rparr>) (s\<lparr>nodes := h\<rparr>);
     upd_page p (\<lambda>pg. pg\<lparr>order := ORDER_USED\<rparr>) s1
   }"

definition buddy_add_block :: "nat \<Rightarrow> nat \<Rightarrow> buddy_allocator \<Rightarrow> buddy_allocator option" where
  "buddy_add_block p k s = do {
     s1 \<leftarrow> upd_page p (\<lambda>pg. pg\<lparr>order := of_nat k\<rparr>) s;
     _ \<leftarrow> block_at k s1;
     h \<leftarrow> clist_add (Some (FreePages k)) (Some (BuddyNode p)) (nodes s1);
     upd_block k (\<lambda>b. b\<lparr>free_count := free_count b + 1\<rparr>) (s1\<lparr>nodes := h\<rparr>)
   }"

text \<open>
  Splitting. The order argument is decremented after the block is taken out; for order 0
  that would be a shift by \<^verbatim>\<open>UINT32_MAX\<close>.
\<close>

function buddy_split_block :: "nat \<Rightarrow> buddy_allocator \<Rightarrow> (i32 \<times> buddy_allocator) option" where
  "buddy_split_block k s =
     (if k > ORDER_MAX then Some (E_ERROR, s)
      else do {
        b \<leftarrow> block_at k s;
        s1 \<leftarrow> (if free_count b = 0 then map_option snd (buddy_split_block (Suc k) s) else Some s);
        b1 \<leftarrow> block_at k s1;
        (if free_count b1 = 0 then Some (E_ERROR, s1)
         else do {
           last_page \<leftarrow> page_get_last k s1;
           (case last_page of
              None \<Rightarrow> Some (E_ERROR, s1)
            | Some target \<Rightarrow> do {
                s2 \<leftarrow> buddy_remove_block target s1;
                (if k = 0 then None
                 else do {
                   buddy \<leftarrow> buddy_get target (k - 1) s2;
                   s3 \<leftarrow> buddy_add_block target (k - 1) s2;
                   s4 \<leftarrow> buddy_add_block buddy (k - 1) s3;
                   Some (E_SUCCESS, s4)
                 })
              })
         })
      })"
  by pat_completeness auto
termination
  by (relation "measure (\<lambda>(k, s). 7 - k)") (auto simp: ORDER_MAX_def)

declare buddy_split_block.simps [simp del]

text \<open>Merging: the loop of \<^verbatim>\<open>buddy_merge_block\<close>, then the final insertion.\<close>

function merge_loop :: "nat \<Rightarrow> nat \<Rightarrow> buddy_allocator \<Rightarrow> (nat \<times> nat \<times> buddy_allocator) option" where
  "merge_loop block_page k s =
     (if k < ORDER_MAX then do {
        buddy \<leftarrow> buddy_get block_page k s;
        bpg \<leftarrow> page_at buddy s;
        (if order bpg \<noteq> of_nat k then Some (block_page, k, s)
         else if TEST_BIT (flags bpg) PF_INVALID then Some (block_page, k, s)
         else do {
           h \<leftarrow> clist_delete_node (Some (BuddyNode buddy)) (nodes s);
           s1 \<leftarrow> upd_block k (\<lambda>b. b\<lparr>free_count := free_count b - 1\<rparr>) (s\<lparr>nodes := h\<rparr>);
           pg \<leftarrow> page_at block_page s1;
           let low = page_from_pfn (pfn pg AND (NOT (push_bit k 1)));
           p \<leftarrow> buddy_get low k s1;
           s2 \<leftarrow> upd_page p (\<lambda>pg. pg\<lparr>order := of_nat k\<rparr>) s1;
           merge_loop low (Suc k) s2
         })
      } else Some (block_page, k, s))"
  by pat_completeness auto
termination
  by (relation "measure (\<lambda>(p, k, s). 6 - k)") (auto simp: ORDER_MAX_def)

declare merge_loop.simps [simp del]

definition buddy_merge_block :: "nat \<Rightarrow> nat \<Rightarrow> buddy_allocator \<Rightarrow> (i32 \<times> buddy_allocator) option" where
  "buddy_merge_block block_page k s = do {
     r \<leftarrow> merge_loop block_page k s;
     s' \<leftarrow> buddy_add_block (fst r) (fst (snd r)) (snd (snd r));
     Some (E_SUCCESS, s')
   }"

section \<open>Allocating and freeing\<close>

definition page_alloc :: "u32 \<Rightarrow> u32 \<Rightarrow> buddy_allocator \<Rightarrow> (nat option \<times> buddy_allocator) option" where
  "page_alloc ord fl s =
     (if ord > of_nat ORDER_MAX then Some (None, s)
      else do {
        l \<leftarrow> lock (buddy_lock s);
        let k = unat ord;
        let s0 = s\<lparr>buddy_lock := l\<rparr>;
        b \<leftarrow> block_at k s0;
        s1 \<leftarrow> (if free_count b = 0 then map_option snd (buddy_split_block (Suc k) s0) else Some s0);
        b1 \<leftarrow> block_at k s1;
        (if free_count b1 = 0 then Some (None, s1\<lparr>buddy_lock := unlock (buddy_lock s1)\<rparr>)
         else do {
           last_page \<leftarrow> page_get_last k s1;
           (case last_page of
              None \<Rightarrow> Some (None, s1\<lparr>buddy_lock := unlock (buddy_lock s1)\<rparr>)
            | Some p \<Rightarrow> do {
                s2 \<leftarrow> buddy_remove_block p s1;
                s3 \<leftarrow> upd_page p (\<lambda>pg. pg\<lparr>use_count := use_count pg + 1\<rparr>) s2;
                Some (Some p, s3\<lparr>buddy_lock := unlock (buddy_lock s3)\<rparr>)
              })
         })
      })"

text \<open>The result of \<^verbatim>\<open>page_is_critical\<close> is used as a truth value: \<^const>\<open>E_ERROR\<close> is true.\<close>

definition page_is_critical :: "kernel_image \<Rightarrow> nat option \<Rightarrow> buddy_allocator \<Rightarrow> i32 option" where
  "page_is_critical img p s =
     (case p of None \<Rightarrow> Some E_ERROR
      | Some i \<Rightarrow> do {
          pg \<leftarrow> page_at i s;
          let page_phys_addr = PFN_TO_PA (pfn pg);
          Some (if page_phys_addr \<ge> KERNEL_PHYS_START img \<and> page_phys_addr < KERNEL_PHYS_END img
                then E_ERROR else E_SUCCESS)
        })"

definition page_free :: "kernel_image \<Rightarrow> nat option \<Rightarrow> i32 \<Rightarrow> buddy_allocator \<Rightarrow> (i32 \<times> buddy_allocator) option" where
  "page_free img current_page ord s =
     (case current_page of None \<Rightarrow> Some (E_ERROR, s)
      | Some p \<Rightarrow> do {
          critical \<leftarrow> page_is_critical img current_page s;
          (if critical \<noteq> 0 then Some (E_ERROR, s)
           else do {
             pg \<leftarrow> page_at p s;
             (if use_count pg > 1 then do {
                l \<leftarrow> lock (buddy_lock s);
                s1 \<leftarrow> upd_page p (\<lambda>pg. pg\<lparr>use_count := use_count pg - 1\<rparr>) (s\<lparr>buddy_lock := l\<rparr>);
                Some (E_SUCCESS, s1\<lparr>buddy_lock := unlock (buddy_lock s1)\<rparr>)
              }
              else do {
                l \<leftarrow> lock (buddy_lock s);
                s1 \<leftarrow> upd_page p (\<lambda>pg. pg\<lparr>order := ord\<rparr>) (s\<lparr>buddy_lock := l\<rparr>);
                r \<leftarrow> buddy_merge_block p (unat ord) s1;
                s2 \<leftarrow> upd_page p (\<lambda>pg. pg\<lparr>use_count := use_count pg - 1\<rparr>) (snd r);
                Some (E_SUCCESS, s2\<lparr>buddy_lock := unlock (buddy_lock s2)\<rparr>)
              })
           })
        })"

definition page_initial_free :: "nat \<Rightarrow> buddy_allocator \<Rightarrow> buddy_allocator option" where
  "page_initial_free p s = do {
     l \<leftarrow> lock (buddy_lock s);
     r \<leftarrow> buddy_merge_block p 0 (s\<lparr>buddy_lock := l\<rparr>);
     Some ((snd r)\<lparr>buddy_lock := unlock (buddy_lock (snd r))\<rparr>)
   }"

definition page_free_pa :: "kernel_image \<Rightarrow> u32 \<Rightarrow> i32 \<Rightarrow> buddy_allocator \<Rightarrow> (i32 \<times> buddy_allocator) option" where
  "page_free_pa img pa ord s = page_free img (Some (page_from_pfn (PA_TO_PFN pa))) ord s"

definition page_free_va :: "kernel_image \<Rightarrow> u32 \<Rightarrow> i32 \<Rightarrow> buddy_allocator \<Rightarrow> (i32 \<times> buddy_allocator) option" where
  "page_free_va img va ord s = page_free img (Some (page_from_pfn (VA_TO_PFN va))) ord s"

definition page_area_end :: "buddy_allocator \<Rightarrow> u32" where
  "page_area_end s = page_area_addr s + SIZEOF_PAGE * page_count s"

section \<open>Initialisation\<close>

text \<open>
  One iteration of the loop that fills the page area. \<open>area_end\<close> is the end of the page
  structs, which the code computes as a virtual address and compares with the physical
  address of the page.
\<close>

definition init_page :: "kernel_image \<Rightarrow> u32 \<Rightarrow> nat \<Rightarrow> page" where
  "init_page img area_end i =
     (let fl0 = SET_BIT 0 PF_INVALID;
          pa = PFN_TO_PA (of_nat i);
          fl1 = SET_BIT fl0 (if pa < LOWMEM_PLIMIT then PF_ZONE_LOWMEM else PF_ZONE_HIGHMEM);
          fl2 = (if pa \<ge> KERNEL_PHYS_START img \<and> pa < area_end then SET_BIT fl1 PF_KERNEL else fl1)
      in \<lparr>pfn = of_nat i, use_count = 0, flags = fl2, order = 0\<rparr>)"

definition is_low :: "nat \<Rightarrow> bool" where
  "is_low i \<longleftrightarrow> PFN_TO_PA (of_nat i) < LOWMEM_PLIMIT"

definition buddy_init ::
  "kernel_image \<Rightarrow> u32 \<Rightarrow> bootmem \<Rightarrow> buddy_allocator \<Rightarrow> (i32 \<times> bootmem \<times> buddy_allocator) outcome" where
  "buddy_init img highest bm s =
     (let count = highest;
          bytes_req = count * SIZEOF_PAGE;
          (area, bm') = bootmem_alloc bytes_req BM_NO_ALIGN bm
      in if area = 0 then Panic
         else
           (let area_end = area + SIZEOF_PAGE * count;
                n = unat count;
                h1 = fold (\<lambda>i. clist_init (Some (FreePages i))) [0..<ORDER_MAX + 1] (nodes s);
                h2 = fold (\<lambda>i. clist_init (Some (BuddyNode i))) [0..<n] h1
            in Returned (E_SUCCESS, bm',
                 s\<lparr>page_area := map (init_page img area_end) [0..<n],
                   page_area_addr := area, page_count := count,
                   blocks := replicate (ORDER_MAX + 1) \<lparr>free_count = 0, used_count = 0\<rparr>,
                   max_order := of_nat ORDER_MAX, buddy_lock := False, nodes := h2,
                   low_pages := low_pages s + of_nat (length (filter is_low [0..<n])),
                   high_pages := high_pages s + of_nat (length (filter (Not \<circ> is_low) [0..<n]))\<rparr>)))"

end
