(* ===== verification/Buddy_Spec.thy ===== *)
theory Buddy_Spec
  imports Prelude
begin

text \<open>
  What the buddy allocator of \<^verbatim>\<open>kernel/mm/palloc.c\<close> promises, stated on free lists of block
  numbers with no pages, counters or list nodes. A block \<open>(b, k)\<close> is the \<open>2 ^ k\<close> pages
  from page \<open>b\<close> on. The well-formedness of a configuration says that the free and the
  allocated blocks tile the usable pages exactly; taking a block (with the splits it
  needs) and giving one back (with the merges it allows) keep it.
\<close>

section \<open>Blocks and tilings\<close>

type_synonym block = "nat \<times> nat"
type_synonym free_lists = "nat \<Rightarrow> nat list"

definition span :: "block \<Rightarrow> nat set" where
  "span x = {fst x..<fst x + 2 ^ snd x}"

definition well_placed :: "nat \<Rightarrow> block \<Rightarrow> bool" where
  "well_placed n x \<longleftrightarrow> snd x \<le> 6 \<and> 2 ^ snd x dvd fst x \<and> fst x + 2 ^ snd x \<le> n"

definition tiling :: "nat \<Rightarrow> block set \<Rightarrow> bool" where
  "tiling n B \<longleftrightarrow>
     (\<forall>x\<in>B. well_placed n x) \<and> (\<forall>x\<in>B. \<forall>y\<in>B. x \<noteq> y \<longrightarrow> span x \<inter> span y = {})"

definition cover :: "block set \<Rightarrow> nat set" where
  "cover B = (\<Union>x\<in>B. span x)"

lemma span_simps [simp]: "span (b, k) = {b..<b + 2 ^ k}"
  by (simp add: span_def)

lemma start_in_span [simp]: "fst x \<in> span x"
  by (simp add: span_def)

lemma cover_simps [simp]: "cover {} = {}" "cover (insert x B) = span x \<union> cover B"
  "cover (B \<union> C) = cover B \<union> cover C"
  by (auto simp: cover_def)

lemma tiling_subset: "tiling n B \<Longrightarrow> C \<subseteq> B \<Longrightarrow> tiling n C"
  unfolding tiling_def by blast

lemma tiling_insert:
  "tiling n (insert x B) \<longleftrightarrow>
     well_placed n x \<and> tiling n B \<and> (\<forall>y\<in>B. y \<noteq> x \<longrightarrow> span x \<inter> span y = {})"
proof -
  have "(\<forall>y\<in>insert x B. \<forall>z\<in>insert x B. y \<noteq> z \<longrightarrow> P y z) \<longleftrightarrow>
      (\<forall>y\<in>B. \<forall>z\<in>B. y \<noteq> z \<longrightarrow> P y z) \<and> (\<forall>y\<in>B. y \<noteq> x \<longrightarrow> P x y)"
    if "\<And>y z. P y z \<Longrightarrow> P z y" for P
    using that by (intro iffI conjI ballI impI; (elim conjE)?; metis insert_iff)
  from this [of "\<lambda>y z. span y \<inter> span z = {}"] show ?thesis
    unfolding tiling_def by (simp add: Int_commute conj_ac)
qed

lemma tiling_meet: "tiling n B \<Longrightarrow> x \<in> B \<Longrightarrow> y \<in> B \<Longrightarrow> i \<in> span x \<Longrightarrow> i \<in> span y \<Longrightarrow> x = y"
  unfolding tiling_def by blast

section \<open>Buddies\<close>

definition buddy_of :: "nat \<Rightarrow> nat \<Rightarrow> nat" where
  "buddy_of b k = b XOR 2 ^ k"

lemma buddy_of_even: "2 ^ Suc k dvd b \<Longrightarrow> buddy_of b k = b + 2 ^ k"
  and buddy_of_odd: "2 ^ k dvd b \<Longrightarrow> \<not> 2 ^ Suc k dvd b \<Longrightarrow> buddy_of b k = b - 2 ^ k"
proof -
  have "buddy_of b k = 2 ^ k * (m + of_bool (even m) - of_bool (odd m))" if "b = 2 ^ k * m" for m
  proof -
    have "b = push_bit k m" "2 ^ k = push_bit k (1 :: nat)"
      using that by (simp_all add: push_bit_eq_mult mult.commute)
    then have "buddy_of b k = push_bit k (m XOR 1)" unfolding buddy_of_def by (metis push_bit_xor)
    then show ?thesis by (simp add: push_bit_eq_mult xor_Suc_0_eq mult.commute)
  qed
  note * = this
  show "buddy_of b k = b + 2 ^ k" if "2 ^ Suc k dvd b"
  proof -
    from that obtain m where "b = 2 ^ k * (2 * m)" by (auto elim!: dvdE)
    from * [OF this] this show ?thesis by (simp add: algebra_simps)
  qed
  show "buddy_of b k = b - 2 ^ k" if "2 ^ k dvd b" "\<not> 2 ^ Suc k dvd b"
  proof -
    from that(1) obtain m where m: "b = 2 ^ k * m" by (auto elim!: dvdE)
    with that(2) have "odd m" by (auto elim!: evenE)
    with * [OF m] m show ?thesis by (simp add: diff_mult_distrib2)
  qed
qed

lemma buddy_of_cases:
  assumes "2 ^ k dvd b"
  obtains (low) "2 ^ Suc k dvd b" "buddy_of b k = b + 2 ^ k"
  | (high) "2 ^ k \<le> b" "b - 2 ^ k < b" "2 ^ Suc k dvd b - 2 ^ k" "buddy_of b k = b - 2 ^ k"
proof (cases "2 ^ Suc k dvd b")
  case True
  then show thesis using buddy_of_even low by blast
next
  case False
  from assms obtain m where m: "b = 2 ^ k * m" by (auto elim!: dvdE)
  with False have "odd m" by (auto elim!: evenE)
  then obtain c where c: "m = 2 * c + 1" by (auto elim: oddE)
  then have "b - 2 ^ k = 2 ^ Suc k * c" "2 ^ k \<le> b" using m by (simp_all add: algebra_simps)
  moreover from this(2) have "b - 2 ^ k < b" using zero_less_power [of "2 :: nat" k] by linarith
  ultimately show thesis using buddy_of_odd [OF assms False] high by simp
qed

lemma buddy_of_neq: "2 ^ k dvd b \<Longrightarrow> buddy_of b k \<noteq> b"
  by (erule buddy_of_cases) (simp_all add: neq_iff)

lemma buddy_of_dvd: "2 ^ k dvd b \<Longrightarrow> 2 ^ k dvd buddy_of b k"
  using buddy_of_even [of k b] buddy_of_odd [of k b] by (cases "2 ^ Suc k dvd b") auto

text \<open>Both buddies lie in the block one order up that starts at the lower of the two.\<close>

definition low_of :: "nat \<Rightarrow> nat \<Rightarrow> nat" where
  "low_of b k = min b (buddy_of b k)"

lemma low_of_dvd: "2 ^ k dvd b \<Longrightarrow> 2 ^ Suc k dvd low_of b k"
  unfolding low_of_def by (erule buddy_of_cases) (auto simp: min_def)

lemma span_low: "2 ^ k dvd b \<Longrightarrow> span (low_of b k, Suc k) = span (b, k) \<union> span (buddy_of b k, k)"
  unfolding low_of_def by (erule buddy_of_cases) (auto simp: min_def)

lemma buddy_spans_disjoint: "2 ^ k dvd b \<Longrightarrow> span (b, k) \<inter> span (buddy_of b k, k) = {}"
  by (erule buddy_of_cases) auto

lemma low_of_le: "2 ^ k dvd b \<Longrightarrow> b + 2 ^ k \<le> n \<Longrightarrow> 2 ^ Suc k dvd n \<Longrightarrow> low_of b k + 2 ^ Suc k \<le> n"
proof -
  assume "2 ^ k dvd b" "b + 2 ^ k \<le> n" "2 ^ Suc k dvd n"
  define q :: nat where "q = 2 ^ Suc k"
  have "2 ^ k < q" by (simp add: q_def)
  have l: "q dvd low_of b k" using low_of_dvd [OF \<open>2 ^ k dvd b\<close>] by (simp only: q_def)
  have "low_of b k < n" using \<open>b + 2 ^ k \<le> n\<close>
    unfolding low_of_def by (auto simp: min_less_iff_disj intro: less_le_trans [of b "b + 2 ^ k"])
  moreover have "q dvd n" using \<open>2 ^ Suc k dvd n\<close> by (simp only: q_def)
  ultimately have "low_of b k + q \<le> n" using l
    by (metis dvd_imp_le dvd_minus_self le_add_diff_inverse less_imp_le_nat nat_add_left_cancel_le
      not_less zero_less_diff dvd_diff_nat)
  then show ?thesis by (simp only: q_def)
qed

lemma aligned_nested:
  assumes "2 ^ k dvd (b :: nat)" and "2 ^ j dvd c" and "j \<le> k"
    and "{c..<c + 2 ^ j} \<inter> {b..<b + 2 ^ k} \<noteq> {}"
  shows "b \<le> c \<and> c + 2 ^ j \<le> b + 2 ^ k"
proof -
  from assms(1) obtain m where m: "b = 2 ^ k * m" by (auto elim!: dvdE)
  obtain e where e: "(2 :: nat) ^ k = 2 ^ j * e"
    using assms(3) by (metis le_imp_power_dvd dvd_def)
  from assms(2) obtain d where d: "c = 2 ^ j * d" by (auto elim!: dvdE)
  define g :: nat where "g = 2 ^ j"
  have g: "0 < g" by (simp add: g_def)
  from assms(4) have "c < b + 2 ^ k" "b < c + 2 ^ j" by auto
  then have "g * d < g * (e * m + e)" "g * (e * m) < g * Suc d"
    unfolding m e d g_def [symmetric] by (simp_all add: algebra_simps)
  then have "d < e * m + e" "e * m < Suc d" using g by (simp_all only: nat_mult_less_cancel1)
  then have "e * m \<le> d" "d + 1 \<le> e * m + e" by simp_all
  then have "g * (e * m) \<le> g * d" "g * (d + 1) \<le> g * (e * m + e)"
    by (simp_all only: mult_le_mono2)
  then show ?thesis unfolding m e d g_def [symmetric] by (simp add: algebra_simps)
qed

text \<open>
  In a tiling that contains a block, a page that starts the buddy is itself the start of a
  tile, of the same order or a smaller one.
\<close>

lemma buddy_starts_tile:
  assumes t: "tiling n B" and x: "(b, k) \<in> B" and y: "y \<in> B" "buddy_of b k \<in> span y"
  shows "fst y = buddy_of b k \<and> snd y \<le> k"
proof -
  obtain c j where cj: "y = (c, j)" by (cases y)
  from t x y have wb: "2 ^ k dvd b" and wc: "2 ^ j dvd c"
    by (auto simp: tiling_def well_placed_def cj)
  note bd = buddy_of_dvd [OF wb]
  have "(b, k) \<noteq> y" using y(2) buddy_spans_disjoint [OF wb] by auto
  then have disj: "{b..<b + 2 ^ k} \<inter> {c..<c + 2 ^ j} = {}" using t x y unfolding tiling_def cj by fastforce
  have "j \<le> k"
  proof (rule ccontr)
    assume "\<not> j \<le> k"
    then have "Suc k \<le> j" by simp
    moreover have "buddy_of b k \<in> {low_of b k..<low_of b k + 2 ^ Suc k}"
      using span_low [OF wb] by auto
    then have "{low_of b k..<low_of b k + 2 ^ Suc k} \<inter> {c..<c + 2 ^ j} \<noteq> {}" using y(2) cj by auto
    ultimately have "c \<le> low_of b k \<and> low_of b k + 2 ^ Suc k \<le> c + 2 ^ j"
      using aligned_nested [OF wc low_of_dvd [OF wb]] by blast
    moreover have "b \<in> {low_of b k..<low_of b k + 2 ^ Suc k}" using span_low [OF wb] by auto
    ultimately have "b \<in> {c..<c + 2 ^ j}" by auto
    moreover have "b \<in> {b..<b + 2 ^ k}" by simp
    ultimately show False using disj by blast
  qed
  moreover have "{c..<c + 2 ^ j} \<inter> {buddy_of b k..<buddy_of b k + 2 ^ k} \<noteq> {}" using y(2) cj by auto
  ultimately have "buddy_of b k \<le> c" using aligned_nested [OF bd wc] by blast
  with y(2) cj \<open>j \<le> k\<close> show ?thesis by auto
qed

section \<open>Configurations\<close>

definition free_blocks :: "free_lists \<Rightarrow> block set" where
  "free_blocks fl = {(b, k). k \<le> 6 \<and> b \<in> set (fl k)}"

text \<open>
  \<open>n\<close> pages, usable pages \<open>V\<close>, allocated blocks \<open>A\<close>, free lists \<open>fl\<close>: every usable page
  is in exactly one block, free or allocated, and no other page is.
\<close>

definition buddy_wf :: "nat \<Rightarrow> nat set \<Rightarrow> block set \<Rightarrow> free_lists \<Rightarrow> bool" where
  "buddy_wf n V A fl \<longleftrightarrow>
     tiling n (free_blocks fl \<union> A) \<and> free_blocks fl \<inter> A = {} \<and>
     cover (free_blocks fl \<union> A) = V \<and> (\<forall>k\<le>6. distinct (fl k))"

text \<open>No two free blocks of the same order could still be merged.\<close>

definition coalesced :: "free_lists \<Rightarrow> bool" where
  "coalesced fl \<longleftrightarrow> (\<forall>k<6. \<forall>b\<in>set (fl k). buddy_of b k \<notin> set (fl k))"

lemma mem_free_blocks [simp]: "(b, k) \<in> free_blocks fl \<longleftrightarrow> k \<le> 6 \<and> b \<in> set (fl k)"
  by (simp add: free_blocks_def)

lemma free_blocks_add: "k \<le> 6 \<Longrightarrow> free_blocks (fl(k := b # fl k)) = insert (b, k) (free_blocks fl)"
  by (auto simp: free_blocks_def split: if_splits)

lemma free_blocks_remove:
  "distinct (fl k) \<Longrightarrow> free_blocks (fl(k := remove1 b (fl k))) = free_blocks fl - {(b, k)}"
  by (auto simp: free_blocks_def split: if_splits)

section \<open>The three moves\<close>

text \<open>A free block becomes allocated, an allocated one becomes free.\<close>

lemma buddy_wf_take:
  assumes "buddy_wf n V A fl" and "k \<le> 6" "b \<in> set (fl k)"
  shows "buddy_wf n V (insert (b, k) A) (fl(k := remove1 b (fl k)))" and "(b, k) \<notin> A"
proof -
  have d: "distinct (fl k)" and x: "(b, k) \<in> free_blocks fl" using assms by (auto simp: buddy_wf_def)
  have "free_blocks fl - {(b, k)} \<union> insert (b, k) A = free_blocks fl \<union> A" using x by blast
  then show "buddy_wf n V (insert (b, k) A) (fl(k := remove1 b (fl k)))"
    using assms(1) unfolding buddy_wf_def free_blocks_remove [of fl, OF d] by auto
  show "(b, k) \<notin> A" using assms(1) x unfolding buddy_wf_def by blast
qed

lemma buddy_wf_give:
  assumes "buddy_wf n V (insert (b, k) A) fl" and "(b, k) \<notin> A"
  shows "buddy_wf n V A (fl(k := b # fl k))"
proof -
  have k: "k \<le> 6" using assms(1) by (auto simp: buddy_wf_def tiling_def well_placed_def)
  have "(b, k) \<notin> free_blocks fl" using assms(1) unfolding buddy_wf_def by blast
  then have "b \<notin> set (fl k)" using k by simp
  moreover have "insert (b, k) (free_blocks fl) \<union> A = free_blocks fl \<union> insert (b, k) A" by blast
  ultimately show ?thesis
    using assms unfolding buddy_wf_def free_blocks_add [OF k] by (auto split: if_splits)
qed

text \<open>An allocated block with its free buddy is an allocated block one order up, and conversely.\<close>

lemma tiling_merge:
  assumes t: "tiling n (insert (b, k) (insert (buddy_of b k, k) B))"
    and fresh: "(b, k) \<notin> B" "(buddy_of b k, k) \<notin> B" and k: "k < 6" and n: "64 dvd n"
  shows "tiling n (insert (low_of b k, Suc k) B)" and "(low_of b k, Suc k) \<notin> B"
proof -
  from t have w: "2 ^ k dvd b" "b + 2 ^ k \<le> n" by (auto simp: tiling_def well_placed_def)
  have "2 ^ Suc k dvd (64 :: nat)" using k le_imp_power_dvd [of "Suc k" 6 "2 :: nat"] by simp
  then have n': "2 ^ Suc k dvd n" using n by (rule dvd_trans)
  have wp: "well_placed n (low_of b k, Suc k)"
    using low_of_dvd [OF w(1)] low_of_le [OF w n'] k by (simp add: well_placed_def)
  have disj: "span (low_of b k, Suc k) \<inter> span y = {}" if y: "y \<in> B" for y
  proof -
    have "y \<noteq> (b, k)" "y \<noteq> (buddy_of b k, k)" using fresh y by auto
    then have "span (b, k) \<inter> span y = {}" "span (buddy_of b k, k) \<inter> span y = {}"
      using t y unfolding tiling_def by (metis insert_iff)+
    then show ?thesis unfolding span_low [OF w(1)] by blast
  qed
  have "tiling n B" using t by (rule tiling_subset) blast
  with wp disj show "tiling n (insert (low_of b k, Suc k) B)" unfolding tiling_insert by blast
  have "fst (low_of b k, Suc k) \<in> span (low_of b k, Suc k)" by (rule start_in_span)
  with disj show "(low_of b k, Suc k) \<notin> B" by blast
qed

lemma tiling_split:
  assumes t: "tiling n (insert (b, Suc k) B)" and fresh: "(b, Suc k) \<notin> B"
  shows "tiling n (insert (b, k) (insert (b + 2 ^ k, k) B))"
    and "(b, k) \<notin> B" "(b + 2 ^ k, k) \<notin> B"
proof -
  from t have w: "2 ^ Suc k dvd b" "b + 2 ^ Suc k \<le> n" "k < 6"
    by (auto simp: tiling_def well_placed_def)
  have "2 ^ k dvd b" by (rule dvd_trans [OF _ w(1)]) simp
  then have wp: "well_placed n (b, k)" "well_placed n (b + 2 ^ k, k)"
    using w by (auto simp: well_placed_def)
  have disj: "span (b, k) \<inter> span y = {}" "span (b + 2 ^ k, k) \<inter> span y = {}" if "y \<in> B" for y
  proof -
    have "y \<noteq> (b, Suc k)" using fresh that by auto
    then have "span (b, Suc k) \<inter> span y = {}" using t that unfolding tiling_def by (metis insert_iff)
    moreover have "span (b, Suc k) = span (b, k) \<union> span (b + 2 ^ k, k)" by auto
    ultimately show "span (b, k) \<inter> span y = {}" "span (b + 2 ^ k, k) \<inter> span y = {}" by blast+
  qed
  have tB: "tiling n B" using t by (rule tiling_subset) blast
  have "span (b, k) \<inter> span (b + 2 ^ k, k) = {}" by auto
  with wp disj tB show "tiling n (insert (b, k) (insert (b + 2 ^ k, k) B))"
    unfolding tiling_insert by blast
  show "(b, k) \<notin> B" using disj(1) [of "(b, k)"] start_in_span [of "(b, k)"] by blast
  show "(b + 2 ^ k, k) \<notin> B"
    using disj(2) [of "(b + 2 ^ k, k)"] start_in_span [of "(b + 2 ^ k, k)"] by blast
qed

lemma buddy_wf_merge:
  assumes wf: "buddy_wf n V (insert (b, k) A) fl" and new: "(b, k) \<notin> A"
    and k: "k < 6" and bud: "buddy_of b k \<in> set (fl k)" and n: "64 dvd n"
  shows "buddy_wf n V (insert (low_of b k, Suc k) A) (fl(k := remove1 (buddy_of b k) (fl k)))"
    and "(low_of b k, Suc k) \<notin> A"
proof -
  let ?F = "free_blocks fl" and ?y = "(buddy_of b k, k)"
  let ?B = "(?F - {?y}) \<union> A"
  have d: "distinct (fl k)" and y: "?y \<in> ?F" using wf k bud unfolding buddy_wf_def by auto
  with wf have yA: "?y \<notin> insert (b, k) A" unfolding buddy_wf_def by blast
  have bF: "(b, k) \<notin> ?F" using wf unfolding buddy_wf_def by blast
  have eq: "insert (b, k) (insert ?y ?B) = ?F \<union> insert (b, k) A" using y by blast
  have t: "tiling n (insert (b, k) (insert ?y ?B))" unfolding eq using wf by (simp add: buddy_wf_def)
  have fresh: "(b, k) \<notin> ?B" "?y \<notin> ?B" using bF new yA by auto
  note m = tiling_merge [OF t fresh k n]
  have b: "2 ^ k dvd b" using t by (auto simp: tiling_def well_placed_def)
  have "cover (insert (low_of b k, Suc k) ?B) = cover (insert (b, k) (insert ?y ?B))"
    using span_low [OF b] by (auto simp del: span_simps)
  also have "\<dots> = V" unfolding eq using wf by (simp add: buddy_wf_def)
  finally have c: "cover (insert (low_of b k, Suc k) ?B) = V" .
  have ins: "(?F - {?y}) \<union> insert (low_of b k, Suc k) A = insert (low_of b k, Suc k) ?B" by blast
  show "(low_of b k, Suc k) \<notin> A" using m(2) by blast
  show "buddy_wf n V (insert (low_of b k, Suc k) A) (fl(k := remove1 (buddy_of b k) (fl k)))"
    unfolding buddy_wf_def free_blocks_remove [of fl, OF d] ins
    using m c wf by (auto simp: buddy_wf_def simp del: cover_simps)
qed

lemma buddy_wf_split:
  assumes wf: "buddy_wf n V (insert (b, Suc k) A) fl" and new: "(b, Suc k) \<notin> A"
  shows "buddy_wf n V (insert (b, k) A) (fl(k := (b + 2 ^ k) # fl k))" and "(b, k) \<notin> A"
proof -
  let ?F = "free_blocks fl" and ?y = "(b + 2 ^ k, k)"
  let ?B = "?F \<union> A"
  have eq: "?F \<union> insert (b, Suc k) A = insert (b, Suc k) ?B" by blast
  have t: "tiling n (insert (b, Suc k) ?B)" and c: "cover (insert (b, Suc k) ?B) = V"
    using wf unfolding buddy_wf_def eq by blast+
  have "(b, Suc k) \<notin> ?F" using wf unfolding buddy_wf_def by blast
  with new have "(b, Suc k) \<notin> ?B" by blast
  note s = tiling_split [OF t this]
  from t have k: "k \<le> 6" by (auto simp: tiling_def well_placed_def)
  have eq': "insert ?y ?F \<union> insert (b, k) A = insert (b, k) (insert ?y ?B)" by blast
  have c': "cover (insert (b, k) (insert ?y ?B)) = V" unfolding c [symmetric] by auto
  show "(b, k) \<notin> A" using s(2) by blast
  have "(b, k) \<noteq> ?y" by simp
  moreover have "b + 2 ^ k \<notin> set (fl k)" using s(3) k by auto
  ultimately show "buddy_wf n V (insert (b, k) A) (fl(k := (b + 2 ^ k) # fl k))"
    unfolding buddy_wf_def free_blocks_add [OF k] eq'
    using s wf c' by (auto simp: buddy_wf_def simp del: cover_simps)
qed

section \<open>Taking a block\<close>

text \<open>
  \<open>carve t k d fl\<close> cuts the block of order \<open>k + d\<close> at \<open>t\<close> down to order \<open>k\<close>: the upper halves
  become free blocks. \<open>take_block k\<close> uses the last block of the first non-empty list from
  order \<open>k\<close> on.
\<close>

primrec carve :: "nat \<Rightarrow> nat \<Rightarrow> nat \<Rightarrow> free_lists \<Rightarrow> free_lists" where
  "carve t k 0 fl = fl"
| "carve t k (Suc d) fl =
     (let fl' = carve t (Suc k) d fl in fl'(k := (t + 2 ^ k) # fl' k))"

definition first_order :: "nat \<Rightarrow> free_lists \<Rightarrow> nat option" where
  "first_order k fl = find (\<lambda>j. fl j \<noteq> []) [k..<7]"

definition take_block :: "nat \<Rightarrow> free_lists \<Rightarrow> (nat \<times> free_lists) option" where
  "take_block k fl =
     (case first_order k fl of None \<Rightarrow> None
      | Some j \<Rightarrow> (let t = last (fl j) in Some (t, carve t k (j - k) (fl(j := butlast (fl j))))))"

lemma first_order_Some:
  "first_order k fl = Some j \<longleftrightarrow> k \<le> j \<and> j \<le> 6 \<and> fl j \<noteq> [] \<and> (\<forall>i. k \<le> i \<and> i < j \<longrightarrow> fl i = [])"
proof -
  have "(\<exists>i<7 - k. j = k + i \<and> fl (k + i) \<noteq> [] \<and> (\<forall>l<i. fl (k + l) = [])) \<longleftrightarrow>
      k \<le> j \<and> j \<le> 6 \<and> fl j \<noteq> [] \<and> (\<forall>i. k \<le> i \<and> i < j \<longrightarrow> fl i = [])" (is "?L \<longleftrightarrow> ?R")
  proof
    assume ?L
    then show ?R by (auto dest: le_Suc_ex)
  next
    assume ?R
    then show ?L by (intro exI [of _ "j - k"]) auto
  qed
  then show ?thesis by (auto simp: first_order_def find_Some_iff)
qed

lemma first_order_None: "first_order k fl = None \<longleftrightarrow> (\<forall>j. k \<le> j \<and> j \<le> 6 \<longrightarrow> fl j = [])"
  by (auto simp: first_order_def find_None_iff)

lemma first_order_rec:
  "first_order k fl =
     (if k > 6 then None else if fl k \<noteq> [] then Some k else first_order (Suc k) fl)"
  by (auto simp: first_order_def upt_rec)

lemma carve_above: "i < k \<or> k + d \<le> i \<Longrightarrow> carve t k d fl i = fl i"
  by (induction d arbitrary: k) (auto simp: Let_def)

lemma butlast_remove1: "distinct xs \<Longrightarrow> xs \<noteq> [] \<Longrightarrow> butlast xs = remove1 (last xs) xs"
  by (induction xs rule: rev_induct) (auto simp: remove1_append)

lemma buddy_wf_carve:
  assumes "buddy_wf n V (insert (t, k + d) A) fl" and "(t, k + d) \<notin> A"
  shows "buddy_wf n V (insert (t, k) A) (carve t k d fl) \<and> (t, k) \<notin> A"
  using assms
proof (induction d arbitrary: k)
  case (Suc d)
  then have "buddy_wf n V (insert (t, Suc k) A) (carve t (Suc k) d fl)" "(t, Suc k) \<notin> A" by simp_all
  from buddy_wf_split [OF this] show ?case by (simp add: Let_def del: fun_upd_apply)
qed simp

lemma take_block_wf:
  assumes wf: "buddy_wf n V A fl" and run: "take_block k fl = Some (t, fl')"
  shows "buddy_wf n V (insert (t, k) A) fl' \<and> (t, k) \<notin> A"
proof -
  from run obtain j where j: "first_order k fl = Some j" and t: "t = last (fl j)"
    and fl': "fl' = carve t k (j - k) (fl(j := butlast (fl j)))"
    by (auto simp: take_block_def Let_def split: option.splits)
  from j have kj: "k \<le> j" "j \<le> 6" "fl j \<noteq> []" by (simp_all add: first_order_Some)
  then have "t \<in> set (fl j)" "distinct (fl j)" using wf by (simp_all add: t buddy_wf_def)
  with buddy_wf_take [OF wf kj(2)] kj
  have "buddy_wf n V (insert (t, k + (j - k)) A) (fl(j := butlast (fl j)))" "(t, k + (j - k)) \<notin> A"
    by (simp_all add: butlast_remove1 t)
  from buddy_wf_carve [OF this] show ?thesis by (simp add: fl')
qed

text \<open>Only the lists between the requested order and the one used change; the split halves are new.\<close>

lemma carve_lists:
  "k \<le> i \<Longrightarrow> i < k + d \<Longrightarrow> carve t k d fl i = (t + 2 ^ i) # fl i"
proof (induction d arbitrary: k)
  case (Suc d)
  then show ?case by (cases "i = k") (auto simp: Let_def carve_above)
qed simp

lemma coalesced_carve:
  assumes "coalesced fl" and "k \<le> j" "j \<le> 6" and empty: "\<And>i. k \<le> i \<Longrightarrow> i < j \<Longrightarrow> fl i = []"
    and "2 ^ j dvd t"
  shows "coalesced (carve t k (j - k) fl)"
  unfolding coalesced_def
proof (intro allI impI ballI)
  fix i b assume i: "i < 6" and b: "b \<in> set (carve t k (j - k) fl i)"
  show "buddy_of b i \<notin> set (carve t k (j - k) fl i)"
  proof (cases "k \<le> i \<and> i < j")
    case True
    then have "carve t k (j - k) fl i = [t + 2 ^ i]" using carve_lists [of k i "j - k"] empty by simp
    moreover have "2 ^ i dvd t" using True by (intro dvd_trans [OF le_imp_power_dvd assms(5)]) simp
    then have "2 ^ i dvd t + 2 ^ i" by simp
    ultimately show ?thesis using b buddy_of_neq by auto
  next
    case False
    then have "carve t k (j - k) fl i = fl i" using assms(2) by (auto intro: carve_above)
    with assms(1) i b show ?thesis by (simp add: coalesced_def)
  qed
qed

lemma take_block_coalesced:
  assumes wf: "buddy_wf n V A fl" and c: "coalesced fl" and run: "take_block k fl = Some (t, fl')"
  shows "coalesced fl'"
proof -
  from run obtain j where j: "first_order k fl = Some j" and t: "t = last (fl j)"
    and fl': "fl' = carve t k (j - k) (fl(j := butlast (fl j)))"
    by (auto simp: take_block_def Let_def split: option.splits)
  from j have kj: "k \<le> j" "j \<le> 6" "fl j \<noteq> []" "\<And>i. k \<le> i \<Longrightarrow> i < j \<Longrightarrow> fl i = []"
    by (auto simp: first_order_Some)
  have "(t, j) \<in> free_blocks fl" using kj by (simp add: t)
  then have "well_placed n (t, j)" using wf unfolding buddy_wf_def tiling_def by blast
  then have "2 ^ j dvd t" by (simp add: well_placed_def)
  moreover have "coalesced (fl(j := butlast (fl j)))"
    using c by (auto simp: coalesced_def dest: in_set_butlastD)
  ultimately show ?thesis unfolding fl' using kj by (intro coalesced_carve) auto
qed

text \<open>The recursion the splitting code follows.\<close>

lemma take_block_rec:
  "k \<le> 6 \<Longrightarrow> take_block k fl =
     (if fl k \<noteq> [] then Some (last (fl k), fl(k := butlast (fl k)))
      else map_option (\<lambda>(t, fl'). (t, fl'(k := (t + 2 ^ k) # fl' k))) (take_block (Suc k) fl))"
proof -
  assume k: "k \<le> 6"
  show ?thesis
  proof (cases "fl k \<noteq> []")
    case True
    with k show ?thesis by (simp add: take_block_def first_order_rec [of k])
  next
    case False
    with k have "first_order k fl = first_order (Suc k) fl" by (simp add: first_order_rec [of k])
    moreover have "j - k = Suc (j - Suc k)" if "first_order (Suc k) fl = Some j" for j
      using that unfolding first_order_Some by linarith
    ultimately show ?thesis
      using False by (auto simp: take_block_def Let_def split: option.splits)
  qed
qed

lemma take_block_below: "take_block (Suc k) fl = Some (t, fl') \<Longrightarrow> fl' k = fl k"
  by (auto simp: take_block_def Let_def carve_above first_order_Some split: option.splits)

section \<open>Pages of an allocated block\<close>

lemma wf_block_placed: "buddy_wf n V (insert x A) fl \<Longrightarrow> well_placed n x"
  unfolding buddy_wf_def tiling_def by blast

lemma wf_block_pages:
  assumes wf: "buddy_wf n V (insert x A) fl" and new: "x \<notin> A" and i: "i \<in> span x"
  shows "i < n" and "j \<le> 6 \<Longrightarrow> i \<notin> set (fl j)" and "i \<notin> cover A" and "i \<in> V"
proof -
  have t: "tiling n (free_blocks fl \<union> insert x A)" and d: "free_blocks fl \<inter> insert x A = {}"
    and c: "cover (free_blocks fl \<union> insert x A) = V"
    using wf by (auto simp: buddy_wf_def simp del: cover_simps)
  show "i < n" using wf_block_placed [OF wf] i by (auto simp: well_placed_def span_def)
  show "i \<notin> set (fl j)" if "j \<le> 6"
  proof
    assume "i \<in> set (fl j)"
    then have "(i, j) \<in> free_blocks fl" using that by simp
    moreover have "i \<in> span (i, j)" by simp
    ultimately show False using tiling_meet [OF t _ _ i] d by blast
  qed
  show "i \<notin> cover A"
  proof
    assume "i \<in> cover A"
    then obtain y where "y \<in> A" "i \<in> span y" by (auto simp: cover_def)
    then show False using tiling_meet [OF t _ _ i] new by blast
  qed
  show "i \<in> V" using i c unfolding cover_def by blast
qed

section \<open>Giving a block back\<close>

function give_block :: "nat \<Rightarrow> nat \<Rightarrow> free_lists \<Rightarrow> free_lists" where
  "give_block b k fl =
     (if k < 6 \<and> buddy_of b k \<in> set (fl k)
      then give_block (low_of b k) (Suc k) (fl(k := remove1 (buddy_of b k) (fl k)))
      else fl(k := b # fl k))"
  by pat_completeness auto
termination
  by (relation "measure (\<lambda>(b, k, fl). 6 - k)") auto

declare give_block.simps [simp del]

lemma give_block_wf:
  assumes "buddy_wf n V (insert (b, k) A) fl" and "(b, k) \<notin> A" and "64 dvd n"
  shows "buddy_wf n V A (give_block b k fl)"
  using assms
proof (induction b k fl rule: give_block.induct)
  case (1 b k fl)
  show ?case
  proof (cases "k < 6 \<and> buddy_of b k \<in> set (fl k)")
    case True
    with 1 buddy_wf_merge [OF 1(2,3)] show ?thesis
      by (simp add: give_block.simps [of b k] del: fun_upd_apply)
  next
    case False
    then have "give_block b k fl = fl(k := b # fl k)" by (subst give_block.simps) auto
    with buddy_wf_give [OF 1(2,3)] show ?thesis by (simp del: fun_upd_apply)
  qed
qed

lemma buddy_of_buddy: "buddy_of (buddy_of b k) k = b"
  by (simp add: buddy_of_def xor.assoc)

lemma give_block_coalesced:
  assumes "coalesced fl" and "\<forall>j\<le>6. distinct (fl j)" and "2 ^ k dvd b"
  shows "coalesced (give_block b k fl)"
  using assms
proof (induction b k fl rule: give_block.induct)
  case (1 b k fl)
  show ?case
  proof (cases "k < 6 \<and> buddy_of b k \<in> set (fl k)")
    case True
    have "coalesced (fl(k := remove1 (buddy_of b k) (fl k)))"
      using 1(2) by (auto simp: coalesced_def dest: notin_set_remove1)
    moreover have "\<forall>j\<le>6. distinct ((fl(k := remove1 (buddy_of b k) (fl k))) j)" using 1(3) by auto
    ultimately show ?thesis using 1(1) [OF True] True low_of_dvd [OF 1(4)]
      by (simp add: give_block.simps [of b k] del: fun_upd_apply)
  next
    case False
    with 1 buddy_of_neq [OF 1(4)] show ?thesis
      by (auto simp: give_block.simps [of b k] coalesced_def)
        (metis buddy_of_buddy)+
  qed
qed

section \<open>Fully merged configurations are unique\<close>

text \<open>
  In a configuration with nothing left to merge, every aligned block of pages that are not
  allocated lies inside one free block. So the free blocks are the maximal aligned blocks of
  the free pages, whatever the order in which they were taken and given back.
\<close>

lemma wf_free_cover:
  assumes "buddy_wf n V A fl"
  shows "cover (free_blocks fl) = V - cover A"
proof -
  have t: "tiling n (free_blocks fl \<union> A)" and d: "free_blocks fl \<inter> A = {}"
    and c: "cover (free_blocks fl) \<union> cover A = V"
    using assms by (auto simp: buddy_wf_def)
  have "cover (free_blocks fl) \<inter> cover A = {}"
  proof (rule ccontr)
    assume "cover (free_blocks fl) \<inter> cover A \<noteq> {}"
    then obtain i x y where "x \<in> free_blocks fl" "y \<in> A" "i \<in> span x" "i \<in> span y"
      unfolding cover_def by blast
    then show False using tiling_meet [OF t, of x y i] d by blast
  qed
  with c show ?thesis by blast
qed

lemma span_inject: "span x = span y \<Longrightarrow> x = y"
proof -
  assume eq: "span x = span y"
  have "card (span x) = 2 ^ snd x" "card (span y) = 2 ^ snd y" by (simp_all add: span_def)
  then have "snd x = snd y" using eq by (metis power_inject_exp one_less_numeral_iff semiring_norm(76))
  moreover have "fst x \<in> span y" "fst y \<in> span x" using eq start_in_span by blast+
  then have "fst x = fst y" by (simp add: span_def)
  ultimately show "x = y" by (simp add: prod_eq_iff)
qed

lemma merged_contains:
  assumes wf: "buddy_wf n V A fl" and co: "coalesced fl"
    and "k \<le> 6" "2 ^ k dvd b" "span (b, k) \<subseteq> V - cover A"
  shows "\<exists>y\<in>free_blocks fl. span (b, k) \<subseteq> span y"
  using assms(3-5)
proof (induction k arbitrary: b)
  case 0
  then have "b \<in> cover (free_blocks fl)" using wf_free_cover [OF wf] by auto
  then show ?case unfolding cover_def by auto
next
  case (Suc k)
  let ?c = "b + 2 ^ k"
  have bk: "2 ^ k dvd b" by (rule dvd_trans [OF _ Suc.prems(2)]) simp
  have halves: "span (b, Suc k) = span (b, k) \<union> span (?c, k)" by auto
  have "2 ^ k dvd ?c" using bk by simp
  then obtain x y where x: "x \<in> free_blocks fl" "span (b, k) \<subseteq> span x"
    and y: "y \<in> free_blocks fl" "span (?c, k) \<subseteq> span y"
    using Suc.IH [of b] Suc.IH [of ?c] bk Suc.prems(1,3) unfolding halves by auto
  have big: ?case if z: "z \<in> free_blocks fl" "Suc k \<le> snd z" "span z \<inter> span (b, Suc k) \<noteq> {}" for z
  proof -
    have "well_placed n z" using wf z(1) unfolding buddy_wf_def tiling_def by blast
    then have "2 ^ snd z dvd fst z" by (simp add: well_placed_def)
    from aligned_nested [OF this Suc.prems(2) z(2)] z(3)
    have "fst z \<le> b \<and> b + 2 ^ Suc k \<le> fst z + 2 ^ snd z" unfolding span_def by auto
    then show ?thesis using z(1) unfolding span_def by (intro bexI [of _ z]) auto
  qed
  have small: "w = (e, k)" if w: "w \<in> free_blocks fl" "span (e, k) \<subseteq> span w" "2 ^ k dvd e" "\<not> Suc k \<le> snd w" for w e
  proof -
    have "card (span (e, k)) \<le> card (span w)" using w(2) by (intro card_mono) (simp_all add: span_def)
    then have "(2 :: nat) ^ k \<le> 2 ^ snd w" by (simp add: span_def)
    then have "snd w = k" using w(4) by (simp add: power_increasing_iff)
    then have "span (e, k) = span w" using w(2) by (intro card_subset_eq) (simp_all add: span_def)
    then show ?thesis by (metis span_inject)
  qed
  show ?case
  proof (cases "Suc k \<le> snd x \<or> Suc k \<le> snd y")
    case True
    moreover have "span x \<inter> span (b, Suc k) \<noteq> {}" "span y \<inter> span (b, Suc k) \<noteq> {}"
      using x(2) y(2) start_in_span [of "(b, k)"] start_in_span [of "(?c, k)"] unfolding halves by blast+
    ultimately show ?thesis using big x(1) y(1) by blast
  next
    case False
    then have "x = (b, k)" "y = (?c, k)" using small x y bk by simp_all
    then have "b \<in> set (fl k)" "buddy_of b k \<in> set (fl k)"
      using x(1) y(1) buddy_of_even [OF Suc.prems(2)] by simp_all
    then show ?thesis using co Suc.prems(1) by (auto simp: coalesced_def)
  qed
qed

lemma merged_unique_subset:
  assumes "buddy_wf n V A fl" "coalesced fl" and wf': "buddy_wf n V A fl'" and co': "coalesced fl'"
  shows "free_blocks fl \<subseteq> free_blocks fl'"
proof
  fix x assume x: "x \<in> free_blocks fl"
  have inside: "\<exists>z\<in>free_blocks gl. span y \<subseteq> span z" if "y \<in> free_blocks hl" "buddy_wf n V A hl"
    and g: "buddy_wf n V A gl" "coalesced gl" for y gl hl
  proof -
    have "well_placed n y" using that(1,2) unfolding buddy_wf_def tiling_def by blast
    moreover have "span y \<subseteq> V - cover A" using wf_free_cover [OF that(2)] that(1) unfolding cover_def by blast
    ultimately show ?thesis using merged_contains [OF g, of "snd y" "fst y"] by (simp add: well_placed_def)
  qed
  obtain y where y: "y \<in> free_blocks fl'" "span x \<subseteq> span y" using inside [OF x assms(1) wf' co'] by blast
  obtain z where z: "z \<in> free_blocks fl" "span y \<subseteq> span z" using inside [OF y(1) wf' assms(1,2)] by blast
  have "tiling n (free_blocks fl \<union> A)" using assms(1) by (simp add: buddy_wf_def)
  then have "x = z"
    using tiling_meet [of n "free_blocks fl \<union> A" x z "fst x"] x y z start_in_span [of x] by blast
  then have eq: "span x = span y" using y(2) z(2) by blast
  then show "x \<in> free_blocks fl'" using y(1) span_inject by blast
qed

lemma merged_unique:
  assumes "buddy_wf n V A fl" "coalesced fl" "buddy_wf n V A fl'" "coalesced fl'"
  shows "free_blocks fl = free_blocks fl'"
  using merged_unique_subset [OF assms] merged_unique_subset [OF assms(3,4,1,2)] by blast

end
