(* ===== verification/Palloc_Refine.thy ===== *)
theory Palloc_Refine
  imports Palloc Buddy_Spec
begin

text \<open>
  The page allocator of \<^verbatim>\<open>palloc.c\<close> implements the block configurations of the
  specification: a representation relation between the page array, the counters and the
  linked lists on one side and free lists of block numbers on the other, and one lemma per
  operation. The relation survives every operation, so the C code never follows a bad
  pointer, and its results are those of \<open>take_block\<close> and \<open>give_block\<close>.
\<close>

section \<open>Representation\<close>

definition page_valid :: "buddy_allocator \<Rightarrow> nat \<Rightarrow> bool" where
  "page_valid s i \<longleftrightarrow> \<not> TEST_BIT (flags (page_area s ! i)) PF_INVALID"

definition valid_pages :: "buddy_allocator \<Rightarrow> nat set" where
  "valid_pages s = {i. i < length (page_area s) \<and> page_valid s i}"

abbreviation n_pages :: "buddy_allocator \<Rightarrow> nat" where
  "n_pages s \<equiv> length (page_area s)"

definition buddy_rep :: "free_lists \<Rightarrow> buddy_allocator \<Rightarrow> bool" where
  "buddy_rep fl s \<longleftrightarrow>
     length (blocks s) = 7 \<and> n_pages s \<le> 2 ^ 20 \<and>
     (\<forall>i<n_pages s. pfn (page_area s ! i) = of_nat i) \<and>
     family clist {..6} FreePages (\<lambda>k. map BuddyNode (fl k)) (nodes s) \<and>
     (\<forall>k\<le>6. free_count (blocks s ! k) = of_nat (length (fl k))) \<and>
     (\<forall>k\<le>6. \<forall>b\<in>set (fl k). b < n_pages s \<and> order (page_area s ! b) = of_nat k)"

definition used_rep :: "block set \<Rightarrow> buddy_allocator \<Rightarrow> bool" where
  "used_rep A s \<longleftrightarrow> (\<forall>x\<in>A. order (page_area s ! fst x) = ORDER_USED)"

text \<open>The full invariant of the allocator: \<open>A\<close> are the blocks handed out.\<close>

definition buddy_ok :: "block set \<Rightarrow> free_lists \<Rightarrow> buddy_allocator \<Rightarrow> bool" where
  "buddy_ok A fl s \<longleftrightarrow>
     buddy_rep fl s \<and> buddy_wf (n_pages s) (valid_pages s) A fl \<and> used_rep A s \<and>
     64 dvd n_pages s \<and> \<not> buddy_lock s"

text \<open>What an operation may change besides lists and counters: orders of pages outside \<open>K\<close>.\<close>

definition keeps :: "nat set \<Rightarrow> buddy_allocator \<Rightarrow> buddy_allocator \<Rightarrow> bool" where
  "keeps K s s' \<longleftrightarrow>
     n_pages s' = n_pages s \<and> buddy_lock s' = buddy_lock s \<and>
     page_area_addr s' = page_area_addr s \<and> page_count s' = page_count s \<and>
     (\<forall>i<n_pages s. pfn (page_area s' ! i) = pfn (page_area s ! i) \<and>
        use_count (page_area s' ! i) = use_count (page_area s ! i) \<and>
        flags (page_area s' ! i) = flags (page_area s ! i) \<and>
        (i \<in> K \<longrightarrow> order (page_area s' ! i) = order (page_area s ! i)))"

lemma keeps_refl [simp]: "keeps K s s"
  by (simp add: keeps_def)

lemma keeps_trans: "keeps K s1 s2 \<Longrightarrow> keeps K s2 s3 \<Longrightarrow> keeps K s1 s3"
  by (simp add: keeps_def)

lemma keeps_mono: "keeps K s s' \<Longrightarrow> L \<subseteq> K \<Longrightarrow> keeps L s s'"
  by (auto simp: keeps_def)

lemma keeps_valid: "keeps K s s' \<Longrightarrow> valid_pages s' = valid_pages s"
  by (auto simp: keeps_def valid_pages_def page_valid_def)

lemma keeps_used: "keeps K s s' \<Longrightarrow> used_rep A s \<Longrightarrow> \<forall>x\<in>A. fst x \<in> K \<and> fst x < n_pages s \<Longrightarrow> used_rep A s'"
  by (auto simp: keeps_def used_rep_def)

lemma buddy_repD:
  assumes "buddy_rep fl s" and "k \<le> 6"
  shows "block_at k s = Some (blocks s ! k)"
    and "free_count (blocks s ! k) = of_nat (length (fl k))"
    and "clist (nodes s) (FreePages k) (map BuddyNode (fl k))"
    and "distinct (fl k)"
    and "b \<in> set (fl k) \<Longrightarrow> b < n_pages s \<and> order (page_area s ! b) = of_nat k"
proof -
  show c: "clist (nodes s) (FreePages k) (map BuddyNode (fl k))"
    using assms familyD [of clist "{..6}" FreePages "\<lambda>k. map BuddyNode (fl k)" "nodes s" k]
    by (auto simp: buddy_rep_def)
  then show "distinct (fl k)" by (simp add: clist_def distinct_map)
qed (use assms in \<open>auto simp: buddy_rep_def block_at_def\<close>)

lemma buddy_rep_disjoint:
  assumes "buddy_rep fl s" and "j \<le> 6" "k \<le> 6" "j \<noteq> k" and "b \<in> set (fl j)"
  shows "b \<notin> set (fl k)"
  using family_fresh [of clist "{..6}" FreePages "\<lambda>k. map BuddyNode (fl k)" "nodes s" j k "BuddyNode b"] assms
  by (auto simp: buddy_rep_def)

lemma buddy_rep_length: "buddy_rep fl s \<Longrightarrow> k \<le> 6 \<Longrightarrow> length (fl k) \<le> 2 ^ 20"
proof -
  assume r: "buddy_rep fl s" and k: "k \<le> 6"
  from buddy_repD(5) [OF r k] have "set (fl k) \<subseteq> {..<n_pages s}" by auto
  then have "card (set (fl k)) \<le> n_pages s" by (metis card_lessThan card_mono finite_lessThan)
  with distinct_card [OF buddy_repD(4) [OF r k]] r show ?thesis by (simp add: buddy_rep_def)
qed

lemma free_count_zero: "buddy_rep fl s \<Longrightarrow> k \<le> 6 \<Longrightarrow> free_count (blocks s ! k) = 0 \<longleftrightarrow> fl k = []"
proof -
  assume r: "buddy_rep fl s" and k: "k \<le> 6"
  have "of_nat (length (fl k)) = (0 :: u32) \<longleftrightarrow> length (fl k) = 0"
    using buddy_rep_length [OF r k] by (simp add: word_unat_eq_iff unat_le_imp_of_nat)
  with buddy_repD(2) [OF r k] show ?thesis by simp
qed

section \<open>Buddy arithmetic on page frame numbers\<close>

lemma pfn_xor: "p < 2 ^ 32 \<Longrightarrow> k < 32 \<Longrightarrow> unat ((of_nat p :: u32) XOR 2 ^ k) = buddy_of p k"
  by (simp add: unat_xor unat_le_imp_of_nat push_bit_eq_mult unat_power2 buddy_of_def)

lemma bit_aligned: "2 ^ k dvd (p :: nat) \<Longrightarrow> bit p k \<longleftrightarrow> \<not> 2 ^ Suc k dvd p"
proof -
  assume "2 ^ k dvd p"
  then obtain m where "p = 2 ^ k * m" by (elim dvdE)
  then show ?thesis by (simp add: bit_iff_odd)
qed

lemma pfn_and_not:
  assumes "p < 2 ^ 32" and "k < 32" and "2 ^ k dvd p"
  shows "unat ((of_nat p :: u32) AND (NOT (2 ^ k))) = low_of p k"
proof -
  have "(of_nat p :: u32) AND (NOT (2 ^ k)) = of_nat p - of_bool (bit (of_nat p :: u32) k) * 2 ^ k"
    using unset_bit_eq [of k "of_nat p :: u32"] by (simp add: unset_bit_eq_and_not)
  also have "bit (of_nat p :: u32) k \<longleftrightarrow> bit p k"
    using bit_unsigned_iff [of "of_nat p :: u32" k, where ?'a = nat] assms(1)
    by (simp add: unat_le_imp_of_nat)
  finally have eq: "(of_nat p :: u32) AND (NOT (2 ^ k)) = of_nat p - of_bool (bit p k) * 2 ^ k" .
  from assms(3) show ?thesis
  proof (cases rule: buddy_of_cases)
    case low
    then show ?thesis unfolding eq
      using bit_aligned [OF assms(3)] assms(1) by (simp add: unat_le_imp_of_nat low_of_def)
  next
    case high
    have "\<not> 2 ^ Suc k dvd p" using high buddy_of_even [of k p] by auto
    then have "bit p k" using bit_aligned [OF assms(3)] by simp
    moreover have "unat (of_nat p - 2 ^ k :: u32) = p - 2 ^ k"
      using high assms by (simp add: unat_sub_small unat_le_imp_of_nat unat_power2)
    ultimately show ?thesis unfolding eq using high by (simp add: low_of_def min_def)
  qed
qed

lemma buddy_get_rep:
  assumes "buddy_rep fl s" and "p < n_pages s" and "k < 32"
  shows "buddy_get p k s = Some (buddy_of p k)"
  using assms by (simp add: buddy_get_def page_at_def page_from_pfn_def buddy_rep_def pfn_xor)

section \<open>Adding and removing blocks\<close>

lemma upd_page_Some [simp]:
  "p < n_pages s \<Longrightarrow> upd_page p f s = Some (s\<lparr>page_area := (page_area s)[p := f (page_area s ! p)]\<rparr>)"
  by (simp add: upd_page_def)

lemma upd_block_Some [simp]:
  "k < length (blocks s) \<Longrightarrow> upd_block k f s = Some (s\<lparr>blocks := (blocks s)[k := f (blocks s ! k)]\<rparr>)"
  by (simp add: upd_block_def)

lemma page_at_Some [simp]: "p < n_pages s \<Longrightarrow> page_at p s = Some (page_area s ! p)"
  by (simp add: page_at_def)

lemma unlink_rep:
  assumes "buddy_rep fl s" and "k \<le> 6" and "b \<in> set (fl k)"
  obtains h where "clist_delete_node (Some (BuddyNode b)) (nodes s) = Some h"
    and "family clist {..6} FreePages (\<lambda>j. map BuddyNode ((fl(k := remove1 b (fl k))) j)) h"
proof -
  have "family clist {..6} FreePages (\<lambda>k. map BuddyNode (fl k)) (nodes s)"
    using assms by (simp add: buddy_rep_def)
  from circ.family_del [OF this, of k "BuddyNode b"] assms obtain h
    where h: "clist_delete_node (Some (BuddyNode b)) (nodes s) = Some h"
      and f: "family clist {..6} FreePages
        ((\<lambda>k. map BuddyNode (fl k))(k := remove1 (BuddyNode b) (map BuddyNode (fl k)))) h"
    by auto
  have "remove1 (BuddyNode b) (map BuddyNode xs) = map BuddyNode (remove1 b xs)" for xs
    by (induction xs) auto
  then have "(\<lambda>k. map BuddyNode (fl k))(k := remove1 (BuddyNode b) (map BuddyNode (fl k))) =
      (\<lambda>j. map BuddyNode ((fl(k := remove1 b (fl k))) j))"
    by (intro ext) simp
  with f that [OF h] show thesis by simp
qed

lemma link_rep:
  assumes "buddy_rep fl s" and "k \<le> 6" and "\<And>j. j \<le> 6 \<Longrightarrow> b \<notin> set (fl j)"
  obtains h where "clist_add (Some (FreePages k)) (Some (BuddyNode b)) (nodes s) = Some h"
    and "family clist {..6} FreePages (\<lambda>j. map BuddyNode ((fl(k := b # fl k)) j)) h"
proof -
  have "family clist {..6} FreePages (\<lambda>k. map BuddyNode (fl k)) (nodes s)"
    using assms(1) by (simp add: buddy_rep_def)
  from circ.family_add [OF this, of k "BuddyNode b"] assms(2,3) obtain h
    where h: "clist_add (Some (FreePages k)) (Some (BuddyNode b)) (nodes s) = Some h"
      and f: "family clist {..6} FreePages
        ((\<lambda>k. map BuddyNode (fl k))(k := BuddyNode b # map BuddyNode (fl k))) h"
    by auto
  have "(\<lambda>k. map BuddyNode (fl k))(k := BuddyNode b # map BuddyNode (fl k)) =
      (\<lambda>j. map BuddyNode ((fl(k := b # fl k)) j))"
    by (intro ext) simp
  with f that [OF h] show thesis by simp
qed

lemma count_minus: "xs \<noteq> [] \<Longrightarrow> of_nat (length xs) - 1 = (of_nat (length xs - 1) :: u32)"
  by (cases xs) simp_all

text \<open>Changing lists and counters of one order together, and the order field of one page.\<close>

lemma buddy_rep_delete:
  assumes r: "buddy_rep fl s" and k: "k \<le> 6" and b: "b \<in> set (fl k)"
    and h: "family clist {..6} FreePages (\<lambda>j. map BuddyNode ((fl(k := remove1 b (fl k))) j)) h"
  shows "buddy_rep (fl(k := remove1 b (fl k)))
      (s\<lparr>nodes := h, blocks := (blocks s)[k := (blocks s ! k)\<lparr>free_count := free_count (blocks s ! k) - 1\<rparr>]\<rparr>)"
proof -
  have "fl k \<noteq> []" using b by auto
  then have "free_count (blocks s ! k) - 1 = of_nat (length (remove1 b (fl k)))"
    using buddy_repD(2) [OF r k] b by (simp add: count_minus length_remove1)
  with r k h show ?thesis
    unfolding buddy_rep_def by (auto simp: nth_list_update dest: subsetD [OF set_remove1_subset])
qed

lemma buddy_rep_order:
  assumes r: "buddy_rep fl s" and b: "\<And>j. j \<le> 6 \<Longrightarrow> b \<notin> set (fl j)"
  shows "buddy_rep fl (s\<lparr>page_area := (page_area s)[b := (page_area s ! b)\<lparr>order := v\<rparr>]\<rparr>)"
  using assms unfolding buddy_rep_def by (cases "b < n_pages s") (auto simp: nth_list_update not_less list_update_beyond)

lemma buddy_remove_block_rep:
  assumes r: "buddy_rep fl s" and k: "k \<le> 6" and b: "b \<in> set (fl k)"
  obtains s' where "buddy_remove_block b s = Some s'"
    and "buddy_rep (fl(k := remove1 b (fl k))) s'"
    and "order (page_area s' ! b) = ORDER_USED" and "keeps (- {b}) s s'"
proof -
  obtain h where h: "clist_delete_node (Some (BuddyNode b)) (nodes s) = Some h"
    and f: "family clist {..6} FreePages (\<lambda>j. map BuddyNode ((fl(k := remove1 b (fl k))) j)) h"
    using unlink_rep [OF r k b] .
  let ?s1 = "s\<lparr>nodes := h, blocks := (blocks s)[k := (blocks s ! k)\<lparr>free_count := free_count (blocks s ! k) - 1\<rparr>]\<rparr>"
  let ?s2 = "?s1\<lparr>page_area := (page_area s)[b := (page_area s ! b)\<lparr>order := ORDER_USED\<rparr>]\<rparr>"
  have ord: "b < n_pages s" "unat (order (page_area s ! b)) = k"
    using buddy_repD(5) [OF r k b] k by (simp_all add: unat_le_imp_of_nat)
  have len: "length (blocks s) = 7" using r by (simp add: buddy_rep_def)
  have run: "buddy_remove_block b s = Some ?s2"
    using h ord len k by (simp add: buddy_remove_block_def)
  have "b \<notin> set ((fl(k := remove1 b (fl k))) j)" if "j \<le> 6" for j
    using buddy_rep_disjoint [OF r k that _ b] buddy_repD(4) [OF r k] by auto
  from buddy_rep_order [OF buddy_rep_delete [OF r k b f] this]
  have "buddy_rep (fl(k := remove1 b (fl k))) ?s2" by (simp del: fun_upd_apply)
  moreover have "keeps (- {b}) s ?s2" "order (page_area ?s2 ! b) = ORDER_USED"
    using ord(1) by (auto simp: keeps_def nth_list_update)
  ultimately show thesis using run that by blast
qed

lemma buddy_add_block_rep:
  assumes r: "buddy_rep fl s" and k: "k \<le> 6" and b: "b < n_pages s"
    and fresh: "\<And>j. j \<le> 6 \<Longrightarrow> b \<notin> set (fl j)"
  obtains s' where "buddy_add_block b k s = Some s'"
    and "buddy_rep (fl(k := b # fl k)) s'" and "keeps (- {b}) s s'"
proof -
  obtain h where h: "clist_add (Some (FreePages k)) (Some (BuddyNode b)) (nodes s) = Some h"
    and f: "family clist {..6} FreePages (\<lambda>j. map BuddyNode ((fl(k := b # fl k)) j)) h"
    using link_rep [OF r k fresh] .
  let ?s' = "s\<lparr>page_area := (page_area s)[b := (page_area s ! b)\<lparr>order := of_nat k\<rparr>], nodes := h,
    blocks := (blocks s)[k := (blocks s ! k)\<lparr>free_count := free_count (blocks s ! k) + 1\<rparr>]\<rparr>"
  have len: "length (blocks s) = 7" using r by (simp add: buddy_rep_def)
  then have run: "buddy_add_block b k s = Some ?s'"
    using h k b by (simp add: buddy_add_block_def block_at_def)
  have "buddy_rep (fl(k := b # fl k)) ?s'"
    using r k b f fresh len unfolding buddy_rep_def
    by (auto simp: nth_list_update add.commute)
  moreover have "keeps (- {b}) s ?s'" using b by (auto simp: keeps_def nth_list_update)
  ultimately show thesis using run that by blast
qed

lemma page_get_last_rep:
  assumes "buddy_rep fl s" and "k \<le> 6" and "fl k \<noteq> []"
  shows "page_get_last k s = Some (Some (last (fl k)))"
proof -
  have "prev_node (nodes s (FreePages k)) = Some (last (FreePages k # map BuddyNode (fl k)))"
    using buddy_repD(3) [OF assms(1,2)] by (intro chain_last) (simp add: clist_def)
  also have "last (FreePages k # map BuddyNode (fl k)) = BuddyNode (last (fl k))"
    using assms(3) by (simp add: last_map)
  finally show ?thesis using buddy_repD(1) [OF assms(1,2)] by (simp add: page_get_last_def)
qed

section \<open>Splitting\<close>

lemma split_step:
  assumes r: "buddy_rep fl s" and k: "1 \<le> k" "k \<le> 6" and ne: "fl k \<noteq> []" and t: "t = last (fl k)"
    and wf: "buddy_wf (n_pages s) V (insert (t, k) A) (fl(k := remove1 t (fl k)))"
    and new: "(t, k) \<notin> A"
  obtains s2 s3 s4 where "buddy_remove_block t s = Some s2"
    and "buddy_get t (k - 1) s2 = Some (t + 2 ^ (k - 1))"
    and "buddy_add_block t (k - 1) s2 = Some s3"
    and "buddy_add_block (t + 2 ^ (k - 1)) (k - 1) s3 = Some s4"
    and "buddy_rep ((fl(k := remove1 t (fl k)))(k - 1 := (t + 2 ^ (k - 1)) # t # fl (k - 1))) s4"
    and "keeps (cover A) s s4"
proof -
  let ?flc = "fl(k := remove1 t (fl k))" and ?b = "t + 2 ^ (k - 1)"
  have inspan: "t \<in> span (t, k)" "?b \<in> span (t, k)"
    using k by (auto simp: less_imp_diff_less power_strict_increasing)
  have km: "k - 1 \<le> 6" using k by simp
  note tf = wf_block_pages [OF wf new inspan(1)] and bf = wf_block_pages [OF wf new inspan(2)]
  obtain s2 where s2: "buddy_remove_block t s = Some s2" "buddy_rep ?flc s2" "keeps (- {t}) s s2"
    using buddy_remove_block_rep [OF r k(2)] ne t by (metis last_in_set)
  then have n2: "n_pages s2 = n_pages s" by (simp add: keeps_def)
  obtain s3 where s3: "buddy_add_block t (k - 1) s2 = Some s3"
      "buddy_rep (?flc(k - 1 := t # ?flc (k - 1))) s3" "keeps (- {t}) s2 s3"
    using buddy_add_block_rep [OF s2(2) km, of t] tf(1,2) unfolding n2 by metis
  then have n3: "n_pages s3 = n_pages s" using n2 by (simp add: keeps_def)
  have "?b \<notin> set ((?flc(k - 1 := t # ?flc (k - 1))) j)" if "j \<le> 6" for j
    using bf(2) [OF that] by auto
  then obtain s4 where s4: "buddy_add_block ?b (k - 1) s3 = Some s4"
      "buddy_rep (?flc(k - 1 := ?b # t # ?flc (k - 1))) s4" "keeps (- {?b}) s3 s4"
    using buddy_add_block_rep [OF s3(2) km, of ?b] bf(1) unfolding n3 fun_upd_same fun_upd_upd by metis
  have "2 ^ Suc (k - 1) dvd t" using wf_block_placed [OF wf] k by (simp add: well_placed_def)
  from buddy_of_even [OF this] have bg: "buddy_get t (k - 1) s2 = Some ?b"
    using buddy_get_rep [OF s2(2), of t "k - 1"] tf(1) n2 k by simp
  have "cover A \<subseteq> - {t}" "cover A \<subseteq> - {?b}" using tf(3) bf(3) by auto
  then have "keeps (cover A) s s4" using s2(3) s3(3) s4(3) by (meson keeps_mono keeps_trans)
  moreover have "k - 1 \<noteq> k" using k by linarith
  then have "?flc (k - 1) = fl (k - 1)" by simp
  ultimately show thesis using that [OF s2(1) bg s3(1) s4(1)] s4(2) by simp
qed

lemma buddy_split_block_rep:
  assumes "buddy_rep fl s" and "buddy_wf (n_pages s) V A fl" and "1 \<le> k" "k \<le> 7"
  shows "case take_block k fl of
      None \<Rightarrow> buddy_split_block k s = Some (E_ERROR, s)
    | Some (t, fl') \<Rightarrow> \<exists>s'. buddy_split_block k s = Some (E_SUCCESS, s') \<and>
        buddy_rep (fl'(k - 1 := (t + 2 ^ (k - 1)) # t # fl' (k - 1))) s' \<and> keeps (cover A) s s'"
  using assms(3,4)
proof (induction "7 - k" arbitrary: k)
  case 0
  then have "k = 7" by simp
  then show ?case
    by (simp add: take_block_def first_order_def buddy_split_block.simps [of 7] ORDER_MAX_def)
next
  case (Suc d)
  have k: "1 \<le> k" "k \<le> 6" and d: "d = 7 - Suc k" using Suc.hyps(2) Suc.prems by linarith+
  then have IH: "case take_block (Suc k) fl of
      None \<Rightarrow> buddy_split_block (Suc k) s = Some (E_ERROR, s)
    | Some (t, fl') \<Rightarrow> \<exists>s'. buddy_split_block (Suc k) s = Some (E_SUCCESS, s') \<and>
        buddy_rep (fl'(k := (t + 2 ^ k) # t # fl' k)) s' \<and> keeps (cover A) s s'"
    using Suc.hyps(1) [of "Suc k"] unfolding diff_Suc_1 by simp
  note r = assms(1) and wf = assms(2)
  note at = buddy_repD(1) and z = free_count_zero
  show ?case
  proof (cases "take_block k fl")
    case None
    then have e: "fl k = []" and n: "take_block (Suc k) fl = None"
      using k take_block_rec [of k fl] by (auto split: if_splits)
    with IH have "buddy_split_block (Suc k) s = Some (E_ERROR, s)" by simp
    then have "buddy_split_block k s = Some (E_ERROR, s)"
      using k e by (simp add: buddy_split_block.simps [of k] ORDER_MAX_def at [OF r] z [OF r])
    with None show ?thesis by simp
  next
    case (Some tf)
    obtain t fl' where tf: "take_block k fl = Some (t, fl')" using Some by (cases tf) simp
    note wf' = take_block_wf [OF wf tf]
    have "\<exists>fl1 s1. (if fl k = [] then map_option snd (buddy_split_block (Suc k) s) else Some s) = Some s1 \<and>
        buddy_rep fl1 s1 \<and> keeps (cover A) s s1 \<and> fl1 k \<noteq> [] \<and> t = last (fl1 k) \<and>
        fl' = fl1(k := remove1 t (fl1 k)) \<and> fl1 (k - 1) = fl' (k - 1)"
    proof (cases "fl k = []")
      case False
      then have t: "t = last (fl k)" "fl' = fl(k := butlast (fl k))"
        using tf k take_block_rec [of k fl] by auto
      moreover have "butlast (fl k) = remove1 t (fl k)"
        using False buddy_repD(4) [OF r k(2)] by (simp add: butlast_remove1 t)
      moreover have "k - 1 \<noteq> k" using k by linarith
      ultimately show ?thesis using False r k by (intro exI [of _ fl] exI [of _ s]) simp
    next
      case True
      then obtain fl0 where fl0: "take_block (Suc k) fl = Some (t, fl0)"
        and fl': "fl' = fl0(k := (t + 2 ^ k) # fl0 k)"
        using tf k take_block_rec [of k fl] by auto
      have "fl0 k = []" using take_block_below [OF fl0] True by simp
      with fl' have fl': "fl' = fl0(k := [t + 2 ^ k])" by simp
      from IH fl0 \<open>fl0 k = []\<close> obtain s1 where s1: "buddy_split_block (Suc k) s = Some (E_SUCCESS, s1)"
        "buddy_rep (fl0(k := [t + 2 ^ k, t])) s1" "keeps (cover A) s s1" by auto
      then show ?thesis using True fl' k
        by (intro exI [of _ "fl0(k := [t + 2 ^ k, t])"] exI [of _ s1]) (auto simp: fun_eq_iff)
    qed
    then obtain fl1 s1 where run1: "(if fl k = [] then map_option snd (buddy_split_block (Suc k) s) else Some s) = Some s1"
      and r1: "buddy_rep fl1 s1" and k1: "keeps (cover A) s s1" and ne: "fl1 k \<noteq> []" and t: "t = last (fl1 k)"
      and fl': "fl' = fl1(k := remove1 t (fl1 k))" and low: "fl1 (k - 1) = fl' (k - 1)" by blast
    have n1: "n_pages s1 = n_pages s" using k1 by (simp add: keeps_def)
    from wf' have wf1: "buddy_wf (n_pages s1) V (insert (t, k) A) (fl1(k := remove1 t (fl1 k)))"
      and new: "(t, k) \<notin> A" by (simp_all add: n1 fl')
    obtain s2 s3 s4 where s: "buddy_remove_block t s1 = Some s2"
      "buddy_get t (k - 1) s2 = Some (t + 2 ^ (k - 1))" "buddy_add_block t (k - 1) s2 = Some s3"
      "buddy_add_block (t + 2 ^ (k - 1)) (k - 1) s3 = Some s4"
      and r4: "buddy_rep (fl'(k - 1 := (t + 2 ^ (k - 1)) # t # fl' (k - 1))) s4" and k4: "keeps (cover A) s1 s4"
      using split_step [OF r1 k ne t wf1 new] unfolding fl' [symmetric] low by metis
    have "buddy_split_block k s = Some (E_SUCCESS, s4)"
      using k s ne run1 page_get_last_rep [OF r1 k(2) ne] t
      by (simp add: buddy_split_block.simps [of k] ORDER_MAX_def at [OF r] z [OF r] at [OF r1] z [OF r1])
    with r4 keeps_trans [OF k1 k4] tf show ?thesis by auto
  qed
qed

section \<open>Allocating\<close>

lemma buddy_rep_ctl [simp]: "buddy_rep fl (s\<lparr>buddy_lock := l\<rparr>) = buddy_rep fl s"
  by (simp add: buddy_rep_def)

lemma keeps_lock: "keeps K (s\<lparr>buddy_lock := l\<rparr>) s' \<Longrightarrow> keeps K s (s'\<lparr>buddy_lock := buddy_lock s\<rparr>)"
  by (simp add: keeps_def)

lemma buddy_rep_use_count [simp]:
  "buddy_rep fl (s\<lparr>page_area := (page_area s)[b := (page_area s ! b)\<lparr>use_count := c\<rparr>]\<rparr>) = buddy_rep fl s"
  by (cases "b < n_pages s") (auto simp: buddy_rep_def nth_list_update list_update_beyond)

lemma heads_in_cover: "x \<in> A \<Longrightarrow> fst x \<in> cover A"
  using start_in_span [of x] unfolding cover_def by blast

lemma wf_heads_covered: "buddy_wf n V A fl \<Longrightarrow> x \<in> A \<Longrightarrow> fst x \<in> cover A \<and> fst x < n"
proof -
  assume wf: "buddy_wf n V A fl" and x: "x \<in> A"
  then have "well_placed n x" unfolding buddy_wf_def tiling_def by blast
  then have "fst x < n" using zero_less_power [of "2 :: nat" "snd x"] unfolding well_placed_def by linarith
  moreover have "fst x \<in> cover A" using x by (rule heads_in_cover)
  ultimately show ?thesis by blast
qed

lemma page_alloc_none:
  assumes ok: "buddy_ok A fl s" and k: "ord \<le> 6" and t: "take_block (unat ord) fl = None"
  shows "page_alloc ord fgs s = Some (None, s)"
proof -
  let ?k = "unat ord" and ?s = "s\<lparr>buddy_lock := True\<rparr>"
  have k6: "?k \<le> 6" using k by (simp add: word_le_nat_alt)
  have r: "buddy_rep fl ?s" and wf: "buddy_wf (n_pages ?s) (valid_pages s) A fl"
    using ok by (simp_all add: buddy_ok_def)
  have e: "fl ?k = []" "take_block (Suc ?k) fl = None"
    using t take_block_rec [OF k6, of fl] by (auto split: if_splits)
  have "buddy_split_block (Suc ?k) ?s = Some (E_ERROR, ?s)"
    using buddy_split_block_rep [OF r wf, of "Suc ?k"] e k6 by simp
  moreover have "\<not> of_nat ORDER_MAX < ord" using k by (simp add: ORDER_MAX_def not_less)
  ultimately show ?thesis
    using ok e k6 buddy_repD(1) [OF r k6] free_count_zero [OF r k6]
    by (simp add: page_alloc_def buddy_ok_def)
qed

lemma page_alloc_some:
  assumes ok: "buddy_ok A fl s" and k: "ord \<le> 6" and t: "take_block (unat ord) fl = Some (t, fl')"
  obtains s' where "page_alloc ord fgs s = Some (Some t, s')" and "buddy_ok (insert (t, unat ord) A) fl' s'"
    and "use_count (page_area s' ! t) = use_count (page_area s ! t) + 1"
    and "\<And>i. i < n_pages s \<Longrightarrow> i \<noteq> t \<Longrightarrow> use_count (page_area s' ! i) = use_count (page_area s ! i)"
    and "n_pages s' = n_pages s" and "valid_pages s' = valid_pages s"
proof -
  let ?k = "unat ord" and ?s = "s\<lparr>buddy_lock := True\<rparr>"
  have k6: "?k \<le> 6" and nk: "\<not> of_nat ORDER_MAX < ord"
    using k by (simp_all add: word_le_nat_alt ORDER_MAX_def not_less)
  have r: "buddy_rep fl ?s" and wf: "buddy_wf (n_pages ?s) (valid_pages s) A fl" and u: "\<not> buddy_lock s"
    using ok by (simp_all add: buddy_ok_def)
  have "\<exists>fl1 s1. (if fl ?k = [] then map_option snd (buddy_split_block (Suc ?k) ?s) else Some ?s) = Some s1 \<and>
      buddy_rep fl1 s1 \<and> keeps (cover A) ?s s1 \<and> fl1 ?k \<noteq> [] \<and> t = last (fl1 ?k) \<and>
      fl' = fl1(?k := remove1 t (fl1 ?k))"
  proof (cases "fl ?k = []")
    case False
    then have t: "t = last (fl ?k)" "fl' = fl(?k := butlast (fl ?k))"
      using t take_block_rec [OF k6, of fl] by auto
    moreover have "butlast (fl ?k) = remove1 t (fl ?k)"
      using False buddy_repD(4) [OF r k6] by (simp add: butlast_remove1 t)
    ultimately show ?thesis using False r by (intro exI [of _ fl] exI [of _ ?s]) simp
  next
    case True
    then obtain fl0 where fl0: "take_block (Suc ?k) fl = Some (t, fl0)"
      and fl': "fl' = fl0(?k := (t + 2 ^ ?k) # fl0 ?k)"
      using t take_block_rec [OF k6, of fl] by auto
    have e: "fl0 ?k = []" using take_block_below [OF fl0] True by simp
    from buddy_split_block_rep [OF r wf, of "Suc ?k"] fl0 e k6 obtain s1
      where s1: "buddy_split_block (Suc ?k) ?s = Some (E_SUCCESS, s1)"
      "buddy_rep (fl0(?k := [t + 2 ^ ?k, t])) s1" "keeps (cover A) ?s s1" by auto
    then show ?thesis using True fl' e
      by (intro exI [of _ "fl0(?k := [t + 2 ^ ?k, t])"] exI [of _ s1]) (auto simp: fun_eq_iff)
  qed
  then obtain fl1 s1 where run1: "(if fl ?k = [] then map_option snd (buddy_split_block (Suc ?k) ?s) else Some ?s) = Some s1"
    and r1: "buddy_rep fl1 s1" and k1: "keeps (cover A) ?s s1" and ne: "fl1 ?k \<noteq> []" and tl: "t = last (fl1 ?k)"
    and fl': "fl' = fl1(?k := remove1 t (fl1 ?k))" by blast
  obtain s2 where s2: "buddy_remove_block t s1 = Some s2" "buddy_rep fl' s2"
    "order (page_area s2 ! t) = ORDER_USED" "keeps (- {t}) s1 s2"
    using buddy_remove_block_rep [OF r1 k6, of t] ne tl unfolding fl' by (metis last_in_set)
  have tn: "t < n_pages s2" using buddy_repD(5) [OF r1 k6, of t] ne tl s2(4) by (simp add: keeps_def)
  note wf' = take_block_wf [OF wf t]
  have tA: "t \<notin> cover A" using wf_block_pages(3) [of _ _ "(t, ?k)" A fl' t] wf' by auto
  have k12: "keeps (cover A) ?s s2" using k1 s2(4) tA
    by (intro keeps_trans [OF k1] keeps_mono [OF s2(4)]) auto
  let ?s3 = "s2\<lparr>page_area := (page_area s2)[t := (page_area s2 ! t)\<lparr>use_count := use_count (page_area s2 ! t) + 1\<rparr>], buddy_lock := False\<rparr>"
  have run: "page_alloc ord fgs s = Some (Some t, ?s3)"
    using u nk k6 run1 ne s2(1) tn buddy_repD(1) [OF r k6] free_count_zero [OF r k6]
      buddy_repD(1) [OF r1 k6] free_count_zero [OF r1 k6] page_get_last_rep [OF r1 k6 ne] tl
    by (simp add: page_alloc_def Let_def)
  have n3: "n_pages ?s3 = n_pages s" using k12 by (simp add: keeps_def)
  have v3: "valid_pages ?s3 = valid_pages s"
    using k12 tn by (auto simp: keeps_def valid_pages_def page_valid_def nth_list_update)
  have "used_rep A s2" using ok keeps_used [OF k12, of A] wf_heads_covered [OF wf]
    by (auto simp: buddy_ok_def used_rep_def)
  then have "used_rep (insert (t, ?k) A) ?s3"
    using s2(3) tn wf_heads_covered [OF wf] tA by (auto simp: used_rep_def nth_list_update)
  moreover have "buddy_rep fl' ?s3" using s2(2) by simp
  ultimately have "buddy_ok (insert (t, ?k) A) fl' ?s3"
    using wf' n3 v3 ok by (auto simp: buddy_ok_def)
  moreover have "use_count (page_area ?s3 ! t) = use_count (page_area s ! t) + 1"
    and "\<And>i. i < n_pages s \<Longrightarrow> i \<noteq> t \<Longrightarrow> use_count (page_area ?s3 ! i) = use_count (page_area s ! i)"
    using k12 tn by (auto simp: keeps_def nth_list_update)
  ultimately show thesis using that [OF run] n3 v3 by blast
qed

text \<open>The same facts read backwards, from the result of a call.\<close>

lemma page_alloc_someD:
  assumes ok: "buddy_ok A fl s" and run: "page_alloc ord fgs s = Some (Some t, s')"
  obtains fl' where "take_block (unat ord) fl = Some (t, fl')" and "buddy_ok (insert (t, unat ord) A) fl' s'"
    and "use_count (page_area s' ! t) = use_count (page_area s ! t) + 1"
    and "\<And>i. i < n_pages s \<Longrightarrow> i \<noteq> t \<Longrightarrow> use_count (page_area s' ! i) = use_count (page_area s ! i)"
    and "n_pages s' = n_pages s" and "valid_pages s' = valid_pages s"
proof -
  have ord: "ord \<le> 6" using run by (auto simp: page_alloc_def ORDER_MAX_def not_less split: if_splits)
  obtain t1 fl' where t1: "take_block (unat ord) fl = Some (t1, fl')"
    using page_alloc_none [OF ok ord, of fgs] run by fastforce
  obtain s1 where s1: "page_alloc ord fgs s = Some (Some t1, s1)" "buddy_ok (insert (t1, unat ord) A) fl' s1"
    "use_count (page_area s1 ! t1) = use_count (page_area s ! t1) + 1"
    "\<And>i. i < n_pages s \<Longrightarrow> i \<noteq> t1 \<Longrightarrow> use_count (page_area s1 ! i) = use_count (page_area s ! i)"
    "n_pages s1 = n_pages s" "valid_pages s1 = valid_pages s"
    using page_alloc_some [OF ok ord t1, of fgs] by blast
  have "t1 = t" "s1 = s'" using s1(1) run by simp_all
  with t1 s1 show thesis using that by blast
qed

lemma page_alloc_noneD:
  assumes ok: "buddy_ok A fl s" and run: "page_alloc ord fgs s = Some (None, s')"
  shows "s' = s" and "ord \<le> 6 \<Longrightarrow> take_block (unat ord) fl = None"
proof -
  have none: "take_block (unat ord) fl = None" if ord: "ord \<le> 6"
  proof (rule ccontr)
    assume "take_block (unat ord) fl \<noteq> None"
    then obtain t fl' where "take_block (unat ord) fl = Some (t, fl')" by auto
    from page_alloc_some [OF ok ord this, of fgs] run show False by fastforce
  qed
  then show "ord \<le> 6 \<Longrightarrow> take_block (unat ord) fl = None" .
  show "s' = s"
  proof (cases "ord \<le> 6")
    case True
    with page_alloc_none [OF ok True none [OF True], of fgs] run show ?thesis by simp
  next
    case False
    with run show ?thesis by (simp add: page_alloc_def ORDER_MAX_def not_le)
  qed
qed

section \<open>Merging\<close>

text \<open>
  The test the loop makes on the buddy's page is exactly that the buddy is a free block of
  the same order.
\<close>

lemma merge_decision:
  assumes r: "buddy_rep fl s" and wf: "buddy_wf (n_pages s) (valid_pages s) (insert (b, k) A) fl"
    and used: "used_rep A s" and n: "64 dvd n_pages s" and k: "k < 6"
  shows "buddy_of b k < n_pages s"
    and "order (page_area s ! buddy_of b k) = of_nat k \<and> page_valid s (buddy_of b k) \<longleftrightarrow>
      buddy_of b k \<in> set (fl k)"
proof -
  let ?y = "buddy_of b k"
  have w: "2 ^ k dvd b" "b + 2 ^ k \<le> n_pages s"
    using wf_block_placed [OF wf] by (simp_all add: well_placed_def)
  have "2 ^ Suc k dvd (64 :: nat)" using k le_imp_power_dvd [of "Suc k" 6 "2 :: nat"] by simp
  then have n': "2 ^ Suc k dvd n_pages s" using n by (rule dvd_trans)
  have "?y \<in> span (low_of b k, Suc k)" using span_low [OF w(1)] by auto
  with low_of_le [OF w n'] show lt: "?y < n_pages s" by auto
  have t: "tiling (n_pages s) (free_blocks fl \<union> insert (b, k) A)"
    and c: "cover (free_blocks fl \<union> insert (b, k) A) = valid_pages s"
    using wf unfolding buddy_wf_def by blast+
  show "order (page_area s ! ?y) = of_nat k \<and> page_valid s ?y \<longleftrightarrow> ?y \<in> set (fl k)"
  proof
    assume free: "?y \<in> set (fl k)"
    then have "(?y, k) \<in> free_blocks fl" using k by simp
    then have "?y \<in> valid_pages s"
      using c start_in_span [of "(?y, k)"] heads_in_cover [of "(?y, k)"] by auto
    then show "order (page_area s ! ?y) = of_nat k \<and> page_valid s ?y"
      using buddy_repD(5) [OF r _ free] k by (simp add: valid_pages_def)
  next
    assume o: "order (page_area s ! ?y) = of_nat k \<and> page_valid s ?y"
    then have "?y \<in> cover (free_blocks fl \<union> insert (b, k) A)" using lt c by (simp add: valid_pages_def)
    then obtain y where y: "y \<in> free_blocks fl \<union> insert (b, k) A" "?y \<in> span y" unfolding cover_def by blast
    from buddy_starts_tile [OF t _ this] have fst_y: "fst y = ?y" and j: "snd y \<le> k" by simp_all
    have "y \<noteq> (b, k)" using fst_y buddy_of_neq [OF w(1)] by auto
    moreover have "y \<notin> A"
    proof
      assume "y \<in> A"
      then have "order (page_area s ! ?y) = - 1" using used fst_y by (auto simp: used_rep_def ORDER_USED_def)
      with o have "unat (of_nat k :: i32) = unat (- 1 :: i32)" by simp
      then show False using k by (simp add: unat_le_imp_of_nat unsigned_minus_1_eq_mask mask_eq_exp_minus_1)
    qed
    ultimately have "snd y \<le> 6" "?y \<in> set (fl (snd y))" using y(1) fst_y by (cases y; auto)+
    moreover from buddy_repD(5) [OF r this] o have "unat (of_nat (snd y) :: i32) = unat (of_nat k :: i32)" by simp
    then have "snd y = k" using j k by (simp add: unat_le_imp_of_nat)
    ultimately show "?y \<in> set (fl k)" by simp
  qed
qed

lemma merge_step:
  assumes r: "buddy_rep fl s" and wf: "buddy_wf (n_pages s) (valid_pages s) (insert (b, k) A) fl"
    and new: "(b, k) \<notin> A" and n: "64 dvd n_pages s" and k: "k < 6"
    and bud: "buddy_of b k \<in> set (fl k)"
  obtains h s1 p s2 where "clist_delete_node (Some (BuddyNode (buddy_of b k))) (nodes s) = Some h"
    and "upd_block k (\<lambda>b. b\<lparr>free_count := free_count b - 1\<rparr>) (s\<lparr>nodes := h\<rparr>) = Some s1"
    and "page_at b s1 = Some (page_area s ! b)"
    and "page_from_pfn (pfn (page_area s ! b) AND (NOT (push_bit k 1))) = low_of b k"
    and "buddy_get (low_of b k) k s1 = Some p"
    and "upd_page p (\<lambda>pg. pg\<lparr>order := of_nat k\<rparr>) s1 = Some s2"
    and "buddy_rep (fl(k := remove1 (buddy_of b k) (fl k))) s2" and "keeps (cover A) s s2"
proof -
  let ?fl' = "fl(k := remove1 (buddy_of b k) (fl k))" and ?p = "buddy_of (low_of b k) k"
  have k6: "k \<le> 6" using k by simp
  obtain h where h: "clist_delete_node (Some (BuddyNode (buddy_of b k))) (nodes s) = Some h"
    and f: "family clist {..6} FreePages (\<lambda>j. map BuddyNode (?fl' j)) h"
    using unlink_rep [OF r k6 bud] .
  let ?s1 = "s\<lparr>nodes := h, blocks := (blocks s)[k := (blocks s ! k)\<lparr>free_count := free_count (blocks s ! k) - 1\<rparr>]\<rparr>"
  let ?s2 = "?s1\<lparr>page_area := (page_area ?s1)[?p := (page_area ?s1 ! ?p)\<lparr>order := of_nat k\<rparr>]\<rparr>"
  have r1: "buddy_rep ?fl' ?s1" using buddy_rep_delete [OF r k6 bud f] .
  have wfm: "buddy_wf (n_pages s) (valid_pages s) (insert (low_of b k, Suc k) A) ?fl'" "(low_of b k, Suc k) \<notin> A"
    using buddy_wf_merge [OF wf new k bud n] by simp_all
  have b: "2 ^ k dvd b" using wf_block_placed [OF wf] by (simp add: well_placed_def)
  have bn: "b < n_pages s" "n_pages s \<le> 2 ^ 20"
    using wf_block_pages(1) [OF wf new, of b] r by (simp_all add: buddy_rep_def)
  have p: "?p = low_of b k + 2 ^ k" by (rule buddy_of_even [OF low_of_dvd [OF b]])
  then have "?p \<in> span (low_of b k, Suc k)" "low_of b k \<in> span (low_of b k, Suc k)" by auto
  note pp = wf_block_pages [OF wfm this(1)] and lp = wf_block_pages(1) [OF wfm this(2)]
  have "buddy_rep ?fl' ?s2" using buddy_rep_order [OF r1 pp(2)] .
  moreover have "keeps (cover A) s ?s2" using pp(1,3) by (auto simp: keeps_def nth_list_update)
  moreover have "page_from_pfn (pfn (page_area s ! b) AND (NOT (push_bit k 1))) = low_of b k"
    using r bn k pfn_and_not [of b k] b by (simp add: buddy_rep_def page_from_pfn_def)
  moreover have "buddy_get (low_of b k) k ?s1 = Some ?p"
    using buddy_get_rep [OF r1, of "low_of b k" k] lp k by simp
  moreover have "length (blocks s) = 7" using r by (simp add: buddy_rep_def)
  ultimately show thesis using bn(1) k pp(1) by (intro that [OF h, of ?s1 ?p ?s2]) simp_all
qed

lemma merge_loop_rep:
  assumes "buddy_rep fl s" and "buddy_wf (n_pages s) (valid_pages s) (insert (b, k) A) fl"
    and "(b, k) \<notin> A" and "used_rep A s" and "64 dvd n_pages s" and "k \<le> 6"
  shows "\<exists>b' k' fl' s'. merge_loop b k s = Some (b', k', s') \<and> buddy_rep fl' s' \<and>
      buddy_wf (n_pages s) (valid_pages s) (insert (b', k') A) fl' \<and> (b', k') \<notin> A \<and> k' \<le> 6 \<and>
      keeps (cover A) s s' \<and> give_block b k fl = fl'(k' := b' # fl' k')"
  using assms
proof (induction "6 - k" arbitrary: b k fl s)
  case 0
  then have "merge_loop b k s = Some (b, k, s)" "give_block b k fl = fl(k := b # fl k)"
    by (simp_all add: merge_loop.simps [of b 6] give_block.simps [of b 6] ORDER_MAX_def)
  with 0 show ?case using keeps_refl by blast
next
  case (Suc d)
  note r = Suc.prems(1) and wf = Suc.prems(2) and new = Suc.prems(3) and used = Suc.prems(4)
    and n = Suc.prems(5)
  have k: "k < 6" using Suc.hyps(2) by simp
  note dec = merge_decision [OF r wf used n k]
  have bn: "b < n_pages s" using wf_block_pages(1) [OF wf new, of b] by simp
  have bg: "buddy_get b k s = Some (buddy_of b k)" using buddy_get_rep [OF r bn] k by simp
  show ?case
  proof (cases "buddy_of b k \<in> set (fl k)")
    case False
    with dec(2) have "merge_loop b k s = Some (b, k, s)"
      using k bg dec(1) by (subst merge_loop.simps) (auto simp: ORDER_MAX_def page_valid_def)
    moreover have "give_block b k fl = fl(k := b # fl k)" using False by (subst give_block.simps) simp
    ultimately show ?thesis using r wf new k keeps_refl by (metis less_imp_le)
  next
    case True
    let ?fl' = "fl(k := remove1 (buddy_of b k) (fl k))"
    obtain h s1 p s2 where st: "clist_delete_node (Some (BuddyNode (buddy_of b k))) (nodes s) = Some h"
      "upd_block k (\<lambda>b. b\<lparr>free_count := free_count b - 1\<rparr>) (s\<lparr>nodes := h\<rparr>) = Some s1"
      "page_at b s1 = Some (page_area s ! b)"
      "page_from_pfn (pfn (page_area s ! b) AND (NOT (push_bit k 1))) = low_of b k"
      "buddy_get (low_of b k) k s1 = Some p"
      "upd_page p (\<lambda>pg. pg\<lparr>order := of_nat k\<rparr>) s1 = Some s2"
      and r2: "buddy_rep ?fl' s2" and k2: "keeps (cover A) s s2"
      using merge_step [OF r wf new n k True] .
    have run: "merge_loop b k s = merge_loop (low_of b k) (Suc k) s2"
      using dec True bg k st by (subst merge_loop.simps) (simp add: ORDER_MAX_def page_valid_def)
    have gb: "give_block b k fl = give_block (low_of b k) (Suc k) ?fl'"
      using k True by (subst give_block.simps) simp
    have n2: "n_pages s2 = n_pages s" and v2: "valid_pages s2 = valid_pages s"
      using k2 keeps_valid [OF k2] by (simp_all add: keeps_def)
    have u2: "used_rep A s2"
      using keeps_used [OF k2 used] heads_in_cover wf_heads_covered [OF wf] by blast
    have "\<exists>b' k' fl' s'. merge_loop (low_of b k) (Suc k) s2 = Some (b', k', s') \<and> buddy_rep fl' s' \<and>
        buddy_wf (n_pages s) (valid_pages s) (insert (b', k') A) fl' \<and> (b', k') \<notin> A \<and> k' \<le> 6 \<and>
        keeps (cover A) s2 s' \<and> give_block (low_of b k) (Suc k) ?fl' = fl'(k' := b' # fl' k')"
      using Suc.hyps(1) [of "Suc k" ?fl' s2 "low_of b k"] Suc.hyps(2) r2 u2 n k
        buddy_wf_merge [OF wf new k True n] unfolding n2 v2 by simp
    with k2 show ?thesis unfolding run gb by (metis keeps_trans)
  qed
qed

lemma buddy_merge_block_rep:
  assumes "buddy_rep fl s" and "buddy_wf (n_pages s) (valid_pages s) (insert (b, k) A) fl"
    and "(b, k) \<notin> A" and "used_rep A s" and "64 dvd n_pages s"
  obtains s' where "buddy_merge_block b k s = Some (E_SUCCESS, s')"
    and "buddy_rep (give_block b k fl) s'" and "keeps (cover A) s s'"
proof -
  have "k \<le> 6" using wf_block_placed [OF assms(2)] by (simp add: well_placed_def)
  from merge_loop_rep [OF assms this] obtain b' k' fl' s1
    where m: "merge_loop b k s = Some (b', k', s1)" and r: "buddy_rep fl' s1"
      and wf: "buddy_wf (n_pages s) (valid_pages s) (insert (b', k') A) fl'" and new: "(b', k') \<notin> A"
      and k': "k' \<le> 6" and kp: "keeps (cover A) s s1"
      and g: "give_block b k fl = fl'(k' := b' # fl' k')" by blast
  note b' = wf_block_pages [OF wf new, of b', simplified]
  have "b' < n_pages s1" using kp b'(1) by (simp add: keeps_def)
  from buddy_add_block_rep [OF r k' this b'(2)] obtain s'
    where s': "buddy_add_block b' k' s1 = Some s'" "buddy_rep (fl'(k' := b' # fl' k')) s'"
      "keeps (- {b'}) s1 s'" by metis
  have "keeps (cover A) s s'"
    using b'(3) by (intro keeps_trans [OF kp] keeps_mono [OF s'(3)]) auto
  with m s' g show thesis by (intro that [of s']) (simp_all add: buddy_merge_block_def)
qed

section \<open>Which orders merging changes\<close>

text \<open>
  Merging from order \<open>k\<close> on changes the orders of pages at multiples of \<open>2 ^ k\<close> in the same aligned group of 64 pages only.
\<close>

definition orders_kept :: "nat \<Rightarrow> nat \<Rightarrow> buddy_allocator \<Rightarrow> buddy_allocator \<Rightarrow> bool" where
  "orders_kept k b s s' \<longleftrightarrow> n_pages s' = n_pages s \<and>
     (\<forall>i<n_pages s. pfn (page_area s' ! i) = pfn (page_area s ! i) \<and>
        (2 ^ k dvd i \<and> i div 64 = b div 64 \<or> order (page_area s' ! i) = order (page_area s ! i)))"

lemma orders_kept_refl [simp]: "orders_kept k b s s"
  by (simp add: orders_kept_def)

lemma orders_kept_trans:
  assumes "orders_kept k b s s1" "orders_kept j c s1 s2" "k \<le> j" "c div 64 = b div 64"
  shows "orders_kept k b s s2"
proof -
  have "2 ^ k dvd i" if "2 ^ j dvd i" for i :: nat using that assms(3) le_imp_power_dvd dvd_trans by blast
  then show ?thesis using assms(1,2,4) unfolding orders_kept_def by metis
qed

lemma group_div: "2 ^ Suc k dvd (a :: nat) \<Longrightarrow> k < 6 \<Longrightarrow> (a + 2 ^ k) div 64 = a div 64"
proof -
  assume a: "2 ^ Suc k dvd a" "k < 6"
  have e: "(64 :: nat) = 2 ^ Suc k * 2 ^ (5 - k)" using a(2) by (simp flip: power_add)
  have "(a + 2 ^ k) div 2 ^ Suc k = a div 2 ^ Suc k" using a(1) by (elim dvdE) simp
  then show ?thesis unfolding e div_mult2_eq by simp
qed

lemma buddy_group:
  assumes "2 ^ k dvd b" "k < 6"
  shows "buddy_of b k div 64 = b div 64" "low_of b k div 64 = b div 64" "buddy_of (low_of b k) k div 64 = b div 64"
proof -
  show 1: "buddy_of b k div 64 = b div 64" using assms(1)
  proof (cases rule: buddy_of_cases)
    case low
    then show ?thesis using group_div [of k b] assms(2) by simp
  next
    case high
    then show ?thesis using group_div [of k "b - 2 ^ k"] assms(2) by simp
  qed
  then show 2: "low_of b k div 64 = b div 64" by (simp add: low_of_def min_def)
  show "buddy_of (low_of b k) k div 64 = b div 64"
    using group_div [OF low_of_dvd [OF assms(1)] assms(2)] buddy_of_even [OF low_of_dvd [OF assms(1)]] 2 by simp
qed

definition pfns_ok :: "buddy_allocator \<Rightarrow> bool" where
  "pfns_ok s \<longleftrightarrow> n_pages s \<le> 2 ^ 20 \<and> (\<forall>i<n_pages s. pfn (page_area s ! i) = of_nat i)"

lemma pfns_ok_rep: "buddy_rep fl s \<Longrightarrow> pfns_ok s"
  by (simp add: pfns_ok_def buddy_rep_def)

lemma pfns_ok_kept: "orders_kept k b s s' \<Longrightarrow> pfns_ok s \<Longrightarrow> pfns_ok s'"
  by (simp add: pfns_ok_def orders_kept_def)

lemma buddy_get_pfns: "pfns_ok s \<Longrightarrow> k < 32 \<Longrightarrow> buddy_get p k s = (if p < n_pages s then Some (buddy_of p k) else None)"
  by (simp add: buddy_get_def page_at_def page_from_pfn_def pfns_ok_def pfn_xor)

lemma upd_page_order:
  assumes "upd_page p (\<lambda>pg. pg\<lparr>order := x\<rparr>) s = Some s'" "2 ^ k dvd p" "p div 64 = b div 64"
  shows "orders_kept k b s s'"
  using assms by (auto simp: upd_page_def orders_kept_def nth_list_update split: if_splits)

lemma upd_block_pages: "upd_block k f s = Some s' \<Longrightarrow> page_area s' = page_area s"
  by (auto simp: upd_block_def split: if_splits)

lemma merge_loop_orders:
  assumes "merge_loop b k s = Some (b', k', s')" "pfns_ok s" "2 ^ k dvd b"
  shows "orders_kept k b s s' \<and> 2 ^ k dvd b' \<and> b' div 64 = b div 64"
  using assms
proof (induction b k s rule: merge_loop.induct)
  case (1 b k s)
  show ?case
  proof (cases "(b', k', s') = (b, k, s)")
    case True
    then show ?thesis using 1(4) by simp
  next
    case False
    note run = 1(2) [unfolded merge_loop.simps [of b k s]]
    have k: "k < 6" using run False by (auto simp: ORDER_MAX_def split: if_splits)
    have b: "b < n_pages s" using run k by (simp add: ORDER_MAX_def buddy_get_pfns [OF 1(3)] split: if_splits)
    then have bg: "buddy_get b k s = Some (buddy_of b k)" using k by (simp add: buddy_get_pfns [OF 1(3)])
    obtain bpg h s1 pg p s2 where st: "page_at (buddy_of b k) s = Some bpg" "order bpg = of_nat k" "\<not> TEST_BIT (flags bpg) PF_INVALID"
      "clist_delete_node (Some (BuddyNode (buddy_of b k))) (nodes s) = Some h"
      "upd_block k (\<lambda>b. b\<lparr>free_count := free_count b - 1\<rparr>) (s\<lparr>nodes := h\<rparr>) = Some s1" "page_at b s1 = Some pg"
      "buddy_get (page_from_pfn (pfn pg AND NOT (push_bit k 1))) k s1 = Some p"
      "upd_page p (\<lambda>pg. pg\<lparr>order := of_nat k\<rparr>) s1 = Some s2"
      "merge_loop (page_from_pfn (pfn pg AND NOT (push_bit k 1))) (Suc k) s2 = Some (b', k', s')"
      using run k bg False by (auto simp: ORDER_MAX_def Let_def elim!: bind_eq_SomeE split: if_splits)
    have s1: "page_area s1 = page_area s" using upd_block_pages [OF st(5)] by simp
    then have pg: "pg = page_area s ! b" using st(6) by (simp add: page_at_def split: if_splits)
    have low: "page_from_pfn (pfn pg AND NOT (push_bit k 1)) = low_of b k"
      using 1(3) b k pfn_and_not [OF _ _ 1(4)] by (simp add: pfns_ok_def page_from_pfn_def pg)
    have p: "p = buddy_of (low_of b k) k" using st(7) k 1(3) s1 unfolding low by (subst (asm) buddy_get_pfns) (auto simp: pfns_ok_def split: if_splits)
    have d: "2 ^ k dvd p" using buddy_of_dvd [of k "low_of b k"] low_of_dvd [OF 1(4)] unfolding p by (meson dvd_trans le_imp_power_dvd le_SucI order_refl)
    have "orders_kept k b s1 s2" using upd_page_order [OF st(8) d] buddy_group(3) [OF 1(4) k] unfolding p by simp
    then have k2: "orders_kept k b s s2" using s1 by (simp add: orders_kept_def)
    have "orders_kept (Suc k) (low_of b k) s2 s' \<and> 2 ^ Suc k dvd b' \<and> b' div 64 = low_of b k div 64"
      using 1(1) [of "buddy_of b k" bpg h s1 pg "low_of b k" p s2] k bg st low pfns_ok_kept [OF k2 1(3)] low_of_dvd [OF 1(4)]
      by (simp add: ORDER_MAX_def)
    then show ?thesis using orders_kept_trans [OF k2, of "Suc k" "low_of b k" s'] buddy_group(2) [OF 1(4) k] by (auto intro: dvd_trans [of "2 ^ k" "2 ^ Suc k"])
  qed
qed

lemma buddy_add_block_orders:
  assumes "buddy_add_block p k s = Some s'" "2 ^ j dvd p" "p div 64 = b div 64"
  shows "orders_kept j b s s'"
  using assms by (auto simp: buddy_add_block_def upd_page_def orders_kept_def nth_list_update dest!: upd_block_pages elim!: bind_eq_SomeE split: if_splits)

lemma buddy_merge_block_orders:
  assumes "buddy_merge_block b k s = Some (rv, s')" "pfns_ok s" "2 ^ k dvd b"
  shows "orders_kept k b s s'"
proof -
  obtain b' k' s1 where m: "merge_loop b k s = Some (b', k', s1)" "buddy_add_block b' k' s1 = Some s'"
    using assms(1) by (auto simp: buddy_merge_block_def elim!: bind_eq_SomeE)
  note o = merge_loop_orders [OF m(1) assms(2,3)]
  show ?thesis using orders_kept_trans [OF _ buddy_add_block_orders [OF m(2)], of k b s k b] o by blast
qed

lemma page_initial_free_orders:
  assumes "page_initial_free b s = Some s'" "pfns_ok s"
  shows "orders_kept 0 b s s'"
proof -
  obtain rv s1 where m: "buddy_merge_block b 0 (s\<lparr>buddy_lock := True\<rparr>) = Some (rv, s1)" "s' = s1\<lparr>buddy_lock := False\<rparr>"
    using assms(1) by (auto simp: page_initial_free_def lock_def unlock_def elim!: bind_eq_SomeE split: if_splits)
  have "pfns_ok (s\<lparr>buddy_lock := True\<rparr>)" using assms(2) by (simp add: pfns_ok_def)
  from buddy_merge_block_orders [OF m(1) this] m(2) show ?thesis by (simp add: orders_kept_def)
qed

section \<open>Freeing\<close>

definition critical_page :: "kernel_image \<Rightarrow> nat \<Rightarrow> bool" where
  "critical_page img b \<longleftrightarrow> KERNEL_PHYS_START img \<le> PFN_TO_PA (of_nat b) \<and> PFN_TO_PA (of_nat b) < KERNEL_PHYS_END img"

lemma page_is_critical_rep:
  "buddy_rep fl s \<Longrightarrow> b < n_pages s \<Longrightarrow>
     page_is_critical img (Some b) s = Some (if critical_page img b then E_ERROR else E_SUCCESS)"
  by (simp add: page_is_critical_def critical_page_def buddy_rep_def Let_def)

lemma buddy_ok_freed:
  assumes kp: "keeps (cover A) s s'" and r: "buddy_rep fl' s'"
    and wf: "buddy_wf (n_pages s) (valid_pages s) A fl'" and u: "used_rep A s"
    and n: "64 dvd n_pages s"
  shows "buddy_ok A fl' (s'\<lparr>buddy_lock := False\<rparr>)"
proof -
  have "used_rep A s'" using keeps_used [OF kp u] wf_heads_covered [OF wf] by blast
  moreover have "n_pages s' = n_pages s" using kp by (simp add: keeps_def)
  moreover have "valid_pages (s'\<lparr>buddy_lock := False\<rparr>) = valid_pages s"
    using keeps_valid [OF kp] by (simp add: valid_pages_def page_valid_def)
  ultimately show ?thesis using r wf n by (simp add: buddy_ok_def used_rep_def)
qed

lemma page_free_last:
  assumes ok: "buddy_ok (insert (b, k) A) fl s" and new: "(b, k) \<notin> A"
    and nc: "\<not> critical_page img b" and uc: "use_count (page_area s ! b) \<le> 1"
  obtains s' where "page_free img (Some b) (of_nat k) s = Some (E_SUCCESS, s')"
    and "buddy_ok A (give_block b k fl) s'"
    and "use_count (page_area s' ! b) = use_count (page_area s ! b) - 1"
    and "\<And>i. i < n_pages s \<Longrightarrow> i \<noteq> b \<Longrightarrow> use_count (page_area s' ! i) = use_count (page_area s ! i)"
    and "n_pages s' = n_pages s" and "valid_pages s' = valid_pages s"
proof -
  have r: "buddy_rep fl s" and wf: "buddy_wf (n_pages s) (valid_pages s) (insert (b, k) A) fl"
    and used: "used_rep A s" and n: "64 dvd n_pages s" and u: "\<not> buddy_lock s"
    using ok by (auto simp: buddy_ok_def used_rep_def)
  note bp = wf_block_pages [OF wf new, of b, simplified]
  have k6: "k \<le> 6" using wf_block_placed [OF wf] by (simp add: well_placed_def)
  let ?s0 = "s\<lparr>buddy_lock := True\<rparr>"
  let ?s1 = "?s0\<lparr>page_area := (page_area ?s0)[b := (page_area ?s0 ! b)\<lparr>order := of_nat k\<rparr>]\<rparr>"
  have r1: "buddy_rep fl ?s1" using buddy_rep_order [of fl ?s0 b] r bp(2) by simp
  have v1: "valid_pages ?s1 = valid_pages s"
    using bp(1) by (auto simp: valid_pages_def page_valid_def nth_list_update)
  have u1: "used_rep A ?s1"
    using used wf_heads_covered [OF wf] heads_in_cover bp(1,3) unfolding used_rep_def
    by (auto simp: nth_list_update)
  have n1: "n_pages ?s1 = n_pages s" by simp
  obtain s2 where s2: "buddy_merge_block b k ?s1 = Some (E_SUCCESS, s2)"
    "buddy_rep (give_block b k fl) s2" "keeps (cover A) ?s1 s2"
    using buddy_merge_block_rep [OF r1 _ new u1] wf n unfolding v1 n1 by metis
  have n2: "n_pages s2 = n_pages s" using s2(3) by (simp add: keeps_def)
  let ?s3 = "s2\<lparr>page_area := (page_area s2)[b := (page_area s2 ! b)\<lparr>use_count := use_count (page_area s2 ! b) - 1\<rparr>]\<rparr>"
  have run: "page_free img (Some b) (of_nat k) s = Some (E_SUCCESS, ?s3\<lparr>buddy_lock := False\<rparr>)"
    using page_is_critical_rep [OF r bp(1), of img] nc uc u bp(1) s2(1) n2 k6
    by (simp add: page_free_def E_SUCCESS_def unat_le_imp_of_nat)
  have ok2: "buddy_ok A (give_block b k fl) (s2\<lparr>buddy_lock := False\<rparr>)"
    using buddy_ok_freed [OF s2(3,2) _ u1] give_block_wf [OF wf new n] n unfolding v1 n1 by simp
  have v3: "valid_pages (?s3\<lparr>buddy_lock := False\<rparr>) = valid_pages (s2\<lparr>buddy_lock := False\<rparr>)"
    using bp(1) n2 by (auto simp: valid_pages_def page_valid_def nth_list_update)
  have u3: "used_rep A (?s3\<lparr>buddy_lock := False\<rparr>)"
    using ok2 bp(1) n2 wf_heads_covered [OF wf] by (auto simp: buddy_ok_def used_rep_def nth_list_update)
  have ok3: "buddy_ok A (give_block b k fl) (?s3\<lparr>buddy_lock := False\<rparr>)"
    using ok2 u3 unfolding buddy_ok_def v3 by simp
  show thesis
  proof (rule that [OF run ok3])
    show "valid_pages (?s3\<lparr>buddy_lock := False\<rparr>) = valid_pages s"
      using keeps_valid [OF s2(3)] v1 unfolding v3 by (simp add: valid_pages_def page_valid_def)
  qed (use s2(3) bp(1) n2 in \<open>auto simp: keeps_def nth_list_update\<close>)
qed

lemma page_initial_free_rep:
  assumes r: "buddy_rep fl s" and wf: "buddy_wf (n_pages s) (valid_pages s) (insert (b, 0) A) fl"
    and new: "(b, 0) \<notin> A" and used: "used_rep A s" and n: "64 dvd n_pages s" and u: "\<not> buddy_lock s"
  obtains s' where "page_initial_free b s = Some s'" and "buddy_ok A (give_block b 0 fl) s'"
    and "keeps (cover A) s s'"
proof -
  let ?s0 = "s\<lparr>buddy_lock := True\<rparr>"
  have v0: "valid_pages ?s0 = valid_pages s" and u0: "used_rep A ?s0" and r0: "buddy_rep fl ?s0"
    and n0: "n_pages ?s0 = n_pages s"
    using used r by (simp_all add: valid_pages_def page_valid_def used_rep_def)
  obtain s2 where s2: "buddy_merge_block b 0 ?s0 = Some (E_SUCCESS, s2)"
    "buddy_rep (give_block b 0 fl) s2" "keeps (cover A) ?s0 s2"
    using buddy_merge_block_rep [OF r0 _ new u0] wf n unfolding v0 n0 by metis
  have "buddy_ok A (give_block b 0 fl) (s2\<lparr>buddy_lock := False\<rparr>)"
    using buddy_ok_freed [OF s2(3,2) _ u0] give_block_wf [OF wf new n] n unfolding v0 n0 by simp
  moreover have "page_initial_free b s = Some (s2\<lparr>buddy_lock := False\<rparr>)"
    using s2(1) u by (simp add: page_initial_free_def)
  moreover have "keeps (cover A) s (s2\<lparr>buddy_lock := False\<rparr>)"
    using s2(3) u by (simp add: keeps_def)
  ultimately show thesis using that by blast
qed

end
