(* ===== verification/Palloc_Init.thy ===== *)
theory Palloc_Init
  imports Palloc_Refine
begin

text \<open>
  Bringing the page allocator up: \<^verbatim>\<open>buddy_init\<close> establishes the invariant with every page
  unusable, and \<^verbatim>\<open>bootmem_mark_free\<close> (\<^verbatim>\<open>kernel/mm/bootmem.c\<close>) hands it the pages of the boot
  memory regions one by one.
\<close>

section \<open>Handing over the boot memory: definitions\<close>

text \<open>The inner loop of \<^verbatim>\<open>bootmem_mark_free\<close>, over the pages of one region.\<close>

partial_function (option) free_region_pages ::
  "u32 \<Rightarrow> u32 \<Rightarrow> buddy_allocator \<Rightarrow> buddy_allocator option" where
  "free_region_pages first_page end_page s =
     (if first_page < end_page then do {
        let page = page_from_pfn (PA_TO_PFN first_page);
        s1 \<leftarrow> upd_page page (\<lambda>pg. pg\<lparr>flags := CLEAR_BIT (flags pg) PF_INVALID\<rparr>) s;
        s2 \<leftarrow> page_initial_free page s1;
        free_region_pages (first_page + PAGE_SIZE) end_page s2
      } else Some s)"

text \<open>The outer loop, over the registered regions; it does not look at their type.\<close>

primrec mark_free_regions :: "mem_region list \<Rightarrow> buddy_allocator \<Rightarrow> buddy_allocator option" where
  "mark_free_regions [] s = Some s"
| "mark_free_regions (r # rs) s =
     (if start_addr r = 0 then mark_free_regions rs s
      else do {
        s' \<leftarrow> free_region_pages (PAGE_ALIGN (start_addr r)) (PAGE_ALIGN_DOWN (end_addr r)) s;
        mark_free_regions rs s'
      })"

definition bootmem_mark_free :: "bootmem \<Rightarrow> buddy_allocator \<Rightarrow> (i32 \<times> buddy_allocator) outcome option" where
  "bootmem_mark_free bm s =
     (if region_count bm = 0 \<or> highest_pfn bm = 0 then Some Panic
      else if unat (region_count bm) > length (mem_regions bm) then None
      else do {
        s' \<leftarrow> mark_free_regions (take (unat (region_count bm)) (mem_regions bm)) s;
        Some (Returned (E_SUCCESS, s'))
      })"

section \<open>The initial configuration\<close>

lemma fold_clist_init:
  "(\<forall>n\<in>set ns. next_node (fold (\<lambda>n. clist_init (Some n)) ns h n) = Some n \<and>
      prev_node (fold (\<lambda>n. clist_init (Some n)) ns h n) = Some n) \<and>
   (\<forall>n. n \<notin> set ns \<longrightarrow> fold (\<lambda>n. clist_init (Some n)) ns h n = h n)"
proof (induction ns arbitrary: h)
  case (Cons a ns)
  let ?h = "clist_init (Some a) h"
  have "next_node (?h a) = Some a" "prev_node (?h a) = Some a"
    and "n \<noteq> a \<Longrightarrow> ?h n = h n" for n
    by (simp_all add: clist_init_def set_next_def set_prev_def)
  with Cons [of ?h] show ?case by (cases "a \<in> set ns") auto
qed simp

lemma fold_clist_init_map:
  "fold (\<lambda>i. clist_init (Some (f i))) is h = fold (\<lambda>n. clist_init (Some n)) (map f is) h"
  by (simp add: fold_map comp_def)

lemma free_blocks_Nil [simp]: "free_blocks (\<lambda>_. []) = {}"
  by (simp add: free_blocks_def)

lemma buddy_wf_empty: "buddy_wf n {} {} (\<lambda>_. [])"
  by (simp add: buddy_wf_def tiling_def)

lemma coalesced_empty: "coalesced (\<lambda>_. [])"
  by (simp add: coalesced_def)

lemma init_page_simps [simp]:
  "pfn (init_page img e i) = of_nat i" "use_count (init_page img e i) = 0"
  "TEST_BIT (flags (init_page img e i)) PF_INVALID"
  by (auto simp: init_page_def Let_def rotary_const rotary_macro)

lemma buddy_init_state:
  assumes n: "64 dvd unat count" "unat count \<le> 2 ^ 20"
    and a: "bootmem_alloc (count * SIZEOF_PAGE) BM_NO_ALIGN bm = (area, bm')" "area \<noteq> 0"
  obtains s' where "buddy_init img count bm s = Returned (E_SUCCESS, bm', s')"
    and "buddy_ok {} (\<lambda>_. []) s'" and "n_pages s' = unat count" and "valid_pages s' = {}"
    and "\<And>i. i < unat count \<Longrightarrow> use_count (page_area s' ! i) = 0"
    and "page_area_addr s' = area"
proof -
  let ?n = "unat count"
  let ?h1 = "fold (\<lambda>i. clist_init (Some (FreePages i))) [0..<ORDER_MAX + 1] (nodes s)"
  let ?h2 = "fold (\<lambda>i. clist_init (Some (BuddyNode i))) [0..<?n] ?h1"
  obtain s' where run: "buddy_init img count bm s = Returned (E_SUCCESS, bm', s')"
    and s': "page_area s' = map (init_page img (area + SIZEOF_PAGE * count)) [0..<?n]"
      "blocks s' = replicate 7 \<lparr>free_count = 0, used_count = 0\<rparr>" "nodes s' = ?h2" "\<not> buddy_lock s'"
      "page_area_addr s' = area"
    using a by (simp add: buddy_init_def Let_def ORDER_MAX_def eval_nat_numeral)
  have "next_node (?h1 (FreePages k)) = Some (FreePages k) \<and> prev_node (?h1 (FreePages k)) = Some (FreePages k)"
    if "k \<le> 6" for k
    using fold_clist_init [of "map FreePages [0..<ORDER_MAX + 1]" "nodes s"] that
    by (auto simp: ORDER_MAX_def fold_clist_init_map [of FreePages])
  moreover have "?h2 (FreePages k) = ?h1 (FreePages k)" for k
    using fold_clist_init [of "map BuddyNode [0..<?n]" ?h1] by (auto simp: fold_clist_init_map [of BuddyNode])
  ultimately have "family clist {..6} FreePages (\<lambda>k. map BuddyNode []) (nodes s')"
    unfolding family_def s'(3) by (simp add: clist_def)
  then have "buddy_rep (\<lambda>_. []) s'" using s' n by (simp add: buddy_rep_def)
  moreover have v: "valid_pages s' = {}" by (auto simp: valid_pages_def page_valid_def s')
  ultimately have "buddy_ok {} (\<lambda>_. []) s'"
    using n s' by (simp add: buddy_ok_def buddy_wf_empty used_rep_def)
  with v s' show thesis by (intro that [OF run]) simp_all
qed

section \<open>Freeing the pages of a region\<close>

lemma unat_PA_TO_PFN: "unat (PA_TO_PFN a) = unat a div 4096"
  unfolding PA_TO_PFN_def unat_drop_bit_eq by (simp add: drop_bit_eq_div)

lemma buddy_wf_new_page:
  assumes wf: "buddy_wf n V {} fl" and p: "p < n" "p \<notin> V"
  shows "buddy_wf n (insert p V) {(p, 0)} fl"
proof -
  have c: "cover (free_blocks fl) = V" and t: "tiling n (free_blocks fl)" using wf by (auto simp: buddy_wf_def)
  have far: "span (p, 0) \<inter> span y = {}" if "y \<in> free_blocks fl" for y
    using that p(2) c by (auto simp: cover_def)
  then have "tiling n (insert (p, 0) (free_blocks fl))"
    using t p(1) unfolding tiling_insert by (simp add: well_placed_def)
  moreover have "(p, 0) \<notin> free_blocks fl" using far [of "(p, 0)"] by auto
  ultimately show ?thesis using wf c by (auto simp: buddy_wf_def)
qed

lemma valid_after_clear:
  assumes "p < n_pages s"
  shows "valid_pages (s\<lparr>page_area := (page_area s)[p := (page_area s ! p)\<lparr>flags := CLEAR_BIT (flags (page_area s ! p)) PF_INVALID\<rparr>]\<rparr>)
    = insert p (valid_pages s)"
proof -
  have "\<not> TEST_BIT (CLEAR_BIT f PF_INVALID) PF_INVALID" for f
    by (simp add: rotary_macro and.assoc)
  then show ?thesis using assms by (auto simp: valid_pages_def page_valid_def nth_list_update)
qed

lemma free_one_page:
  assumes ok: "buddy_ok {} fl s" and p: "p < n_pages s" "p \<notin> valid_pages s"
  obtains s1 s2 where "upd_page p (\<lambda>pg. pg\<lparr>flags := CLEAR_BIT (flags pg) PF_INVALID\<rparr>) s = Some s1"
    and "page_initial_free p s1 = Some s2" and "buddy_ok {} (give_block p 0 fl) s2"
    and "valid_pages s2 = insert p (valid_pages s)" and "n_pages s2 = n_pages s"
    and "\<And>i. i < n_pages s \<Longrightarrow> use_count (page_area s2 ! i) = use_count (page_area s ! i)"
    and "\<And>i. i < n_pages s \<Longrightarrow> i div 64 \<noteq> p div 64 \<Longrightarrow> order (page_area s2 ! i) = order (page_area s ! i)"
proof -
  let ?s1 = "s\<lparr>page_area := (page_area s)[p := (page_area s ! p)\<lparr>flags := CLEAR_BIT (flags (page_area s ! p)) PF_INVALID\<rparr>]\<rparr>"
  have v1: "valid_pages ?s1 = insert p (valid_pages s)" by (rule valid_after_clear [OF p(1)])
  have r1: "buddy_rep fl ?s1"
    using ok p(1) by (auto simp: buddy_ok_def buddy_rep_def nth_list_update)
  have wf1: "buddy_wf (n_pages ?s1) (valid_pages ?s1) (insert (p, 0) {}) fl"
    using buddy_wf_new_page [of _ _ fl p] ok p unfolding v1 by (simp add: buddy_ok_def)
  have "used_rep {} ?s1" "64 dvd n_pages ?s1" "\<not> buddy_lock ?s1"
    using ok by (simp_all add: buddy_ok_def used_rep_def)
  from page_initial_free_rep [OF r1 wf1 _ this] obtain s2 where s2: "page_initial_free p ?s1 = Some s2"
    "buddy_ok {} (give_block p 0 fl) s2" "keeps (cover {}) ?s1 s2" by auto
  have "valid_pages s2 = insert p (valid_pages s)" using keeps_valid [OF s2(3)] v1 by simp
  moreover have "n_pages s2 = n_pages s"
    and "use_count (page_area s2 ! i) = use_count (page_area s ! i)" if "i < n_pages s" for i
    using s2(3) that p(1) by (auto simp: keeps_def nth_list_update)
  moreover have "n_pages s2 = n_pages s" using s2(3) by (simp add: keeps_def)
  moreover have "order (page_area s2 ! i) = order (page_area s ! i)" if "i < n_pages s" "i div 64 \<noteq> p div 64" for i
    using page_initial_free_orders [OF s2(1) pfns_ok_rep [OF r1]] that by (auto simp: orders_kept_def nth_list_update)
  ultimately show thesis using s2 p(1) by (intro that [of ?s1 s2]) simp_all
qed

text \<open>
  What the handover keeps while it runs: invariant, no mergeable pair, the pages made usable so far, and the orders of
  the pages in other aligned groups of 64.
\<close>

definition handover :: "nat set \<Rightarrow> buddy_allocator \<Rightarrow> buddy_allocator \<Rightarrow> bool" where
  "handover F s s' \<longleftrightarrow> n_pages s' = n_pages s \<and> valid_pages s' = valid_pages s \<union> F \<and>
     (\<exists>fl. buddy_ok {} fl s' \<and> coalesced fl) \<and>
     (\<forall>i<n_pages s. use_count (page_area s' ! i) = use_count (page_area s ! i) \<and>
        ((\<forall>j\<in>F. i div 64 \<noteq> j div 64) \<longrightarrow> order (page_area s' ! i) = order (page_area s ! i)))"

lemma handover_trans: "handover F s s1 \<Longrightarrow> handover G s1 s2 \<Longrightarrow> handover (F \<union> G) s s2"
  by (auto simp: handover_def)

lemma free_region_pages_run:
  assumes "buddy_ok {} fl s" and "coalesced fl" and "4096 * (a + m) < 2 ^ 32" and "a + m \<le> n_pages s"
    and "{a..<a + m} \<inter> valid_pages s = {}"
  shows "\<exists>s'. free_region_pages (of_nat (4096 * a)) (of_nat (4096 * (a + m))) s = Some s' \<and>
    handover {a..<a + m} s s'"
  using assms
proof (induction m arbitrary: a s fl)
  case 0
  then show ?case by (subst free_region_pages.simps) (auto simp: handover_def)
next
  case (Suc m)
  note ok = Suc.prems(1) and co = Suc.prems(2)
  have "4096 * a < 2 ^ 32" using Suc.prems(3) by simp
  then have lt: "(of_nat (4096 * a) :: u32) < of_nat (4096 * (a + Suc m))"
    unfolding word_less_nat_alt unat_le_imp_of_nat [OF Suc.prems(3)] by (simp add: unat_le_imp_of_nat del: of_nat_mult)
  have p: "page_from_pfn (PA_TO_PFN (of_nat (4096 * a))) = a"
    using \<open>4096 * a < 2 ^ 32\<close>
    by (simp add: page_from_pfn_def unat_PA_TO_PFN unat_le_imp_of_nat del: of_nat_mult)
  have a: "a < n_pages s" "a \<notin> valid_pages s"
    using Suc.prems(4,5) disjoint_iff [of "{a..<a + Suc m}" "valid_pages s"] by auto
  from free_one_page [OF ok a] obtain s1 s2
    where st: "upd_page a (\<lambda>pg. pg\<lparr>flags := CLEAR_BIT (flags pg) PF_INVALID\<rparr>) s = Some s1"
      "page_initial_free a s1 = Some s2" and ok2: "buddy_ok {} (give_block a 0 fl) s2"
      and v2: "valid_pages s2 = insert a (valid_pages s)" and n2: "n_pages s2 = n_pages s"
      and u2: "\<And>i. i < n_pages s \<Longrightarrow> use_count (page_area s2 ! i) = use_count (page_area s ! i)"
      and o2: "\<And>i. i < n_pages s \<Longrightarrow> i div 64 \<noteq> a div 64 \<Longrightarrow> order (page_area s2 ! i) = order (page_area s ! i)"
    by blast
  have "\<forall>j\<le>6. distinct (fl j)" using ok by (simp add: buddy_ok_def buddy_wf_def)
  then have co2: "coalesced (give_block a 0 fl)" using give_block_coalesced [OF co, of 0 a] by simp
  have step: "handover {a} s s2" using ok2 co2 v2 n2 u2 o2 by (auto simp: handover_def)
  have "{Suc a..<Suc a + m} \<inter> valid_pages s2 = {}"
    using Suc.prems(5) unfolding v2 disjoint_iff by auto
  from Suc.IH [OF ok2 co2 _ _ this] Suc.prems(3,4) n2 obtain s'
    where s': "free_region_pages (of_nat (4096 * Suc a)) (of_nat (4096 * (Suc a + m))) s2 = Some s'"
      "handover {Suc a..<Suc a + m} s2 s'" by auto
  have "(of_nat (4096 * a) :: u32) + PAGE_SIZE = of_nat (4096 * Suc a)" by (simp add: rotary_const)
  with s'(1) have "free_region_pages (of_nat (4096 * a) + PAGE_SIZE) (of_nat (4096 * (a + Suc m))) s2 = Some s'"
    by (simp only: add_Suc_right add_Suc)
  then have "free_region_pages (of_nat (4096 * a)) (of_nat (4096 * (a + Suc m))) s = Some s'"
    using lt st by (subst free_region_pages.simps) (simp add: p Let_def del: of_nat_mult)
  moreover have "{a} \<union> {Suc a..<Suc a + m} = {a..<a + Suc m}" by auto
  ultimately show ?case using handover_trans [OF step s'(2)] by auto
qed

section \<open>All regions\<close>

definition region_frames :: "mem_region \<Rightarrow> nat set" where
  "region_frames r =
     (if start_addr r = 0 then {}
      else {unat (PAGE_ALIGN (start_addr r)) div 4096..<unat (PAGE_ALIGN_DOWN (end_addr r)) div 4096})"

text \<open>The page frames of the regions lie in the page area, are not usable yet and are pairwise disjoint.\<close>

primrec frames_apart :: "nat set \<Rightarrow> nat \<Rightarrow> mem_region list \<Rightarrow> bool" where
  "frames_apart V n [] \<longleftrightarrow> True"
| "frames_apart V n (r # rs) \<longleftrightarrow>
     region_frames r \<subseteq> {..<n} \<and> region_frames r \<inter> V = {} \<and> frames_apart (V \<union> region_frames r) n rs"

lemma free_region_run:
  assumes ok: "buddy_ok {} fl s" "coalesced fl" and nz: "start_addr r \<noteq> 0"
    and f: "region_frames r \<subseteq> {..<n_pages s}" "region_frames r \<inter> valid_pages s = {}"
  shows "\<exists>s'. free_region_pages (PAGE_ALIGN (start_addr r)) (PAGE_ALIGN_DOWN (end_addr r)) s = Some s' \<and>
    handover (region_frames r) s s'"
proof -
  let ?x = "PAGE_ALIGN (start_addr r)" and ?y = "PAGE_ALIGN_DOWN (end_addr r)"
  obtain a where a: "unat ?x = 4096 * a" using PAGE_ALIGN_aligned [of "start_addr r"] by (elim dvdE)
  obtain b where b: "unat ?y = 4096 * b" using PAGE_ALIGN_DOWN_aligned [of "end_addr r"] by (elim dvdE)
  have fr: "region_frames r = {a..<b}" using nz by (simp add: region_frames_def a b)
  show ?thesis
  proof (cases "a < b")
    case True
    then obtain m where m: "b = a + m" by (metis less_imp_add_positive)
    have "?x = of_nat (4096 * a)" "?y = of_nat (4096 * (a + m))"
      unfolding a [symmetric] b [unfolded m, symmetric] by simp_all
    moreover have "4096 * (a + m) < 2 ^ 32" using unat_u32_less [of ?y] by (simp add: b m)
    moreover have "a + m \<le> n_pages s" using f(1) True unfolding fr m
      by (cases m) (auto simp: subset_iff dest!: spec [of _ "a + (m - 1)"])
    moreover have "{a..<a + m} \<inter> valid_pages s = {}" using f(2) unfolding fr m .
    ultimately show ?thesis using free_region_pages_run [OF ok, of a m] unfolding fr m by simp
  next
    case False
    then have "\<not> ?x < ?y" by (simp add: word_less_nat_alt a b)
    then have "free_region_pages ?x ?y s = Some s" by (subst free_region_pages.simps) simp
    moreover have "handover {} s s" using ok by (auto simp: handover_def)
    ultimately show ?thesis using False unfolding fr by auto
  qed
qed

lemma mark_free_regions_run:
  assumes "buddy_ok {} fl s" and "coalesced fl" and "frames_apart (valid_pages s) (n_pages s) rs"
  shows "\<exists>s'. mark_free_regions rs s = Some s' \<and> handover (\<Union>r\<in>set rs. region_frames r) s s'"
  using assms
proof (induction rs arbitrary: s fl)
  case Nil
  then show ?case by (auto simp: handover_def)
next
  case (Cons r rs)
  have "\<exists>s1. (if start_addr r = 0 then Some s
      else free_region_pages (PAGE_ALIGN (start_addr r)) (PAGE_ALIGN_DOWN (end_addr r)) s) = Some s1 \<and>
      handover (region_frames r) s s1"
  proof (cases "start_addr r = 0")
    case True
    then have "region_frames r = {}" by (simp add: region_frames_def)
    then show ?thesis using True Cons.prems by (auto simp: handover_def)
  next
    case False
    with free_region_run [OF Cons.prems(1,2) False] Cons.prems(3) show ?thesis by simp
  qed
  then obtain s1 where s1: "(if start_addr r = 0 then Some s
      else free_region_pages (PAGE_ALIGN (start_addr r)) (PAGE_ALIGN_DOWN (end_addr r)) s) = Some s1"
    and h: "handover (region_frames r) s s1" by blast
  from h obtain fl1 where "buddy_ok {} fl1 s1" "coalesced fl1" by (auto simp: handover_def)
  moreover have "frames_apart (valid_pages s1) (n_pages s1) rs"
    using h Cons.prems(3) by (simp add: handover_def)
  ultimately obtain s' where s': "mark_free_regions rs s1 = Some s'"
    "handover (\<Union>r\<in>set rs. region_frames r) s1 s'" using Cons.IH by blast
  from s1 s'(1) have "mark_free_regions (r # rs) s = Some s'" by (auto split: if_splits)
  moreover have "handover (\<Union>r\<in>set (r # rs). region_frames r) s s'" using handover_trans [OF h s'(2)] by simp
  ultimately show ?case by blast
qed

end
