(* ===== verification/Palloc_Props.thy ===== *)
theory Palloc_Props
  imports Palloc_Init
begin

text \<open>
  The properties of the page allocator: what each call does on every branch, and what
  holds after any sequence of calls. The sample states at the end of the first section are
  concrete allocators of 64 pages on which the hypotheses hold.
\<close>

section \<open>Sample states\<close>

definition sample_pages :: "i32 \<Rightarrow> u32 \<Rightarrow> page list" where
  "sample_pages ord uses = map (\<lambda>i. \<lparr>pfn = of_nat i, use_count = (if i = 0 then uses else 0),
     flags = PF_ZONE_LOWMEM, order = (if i = 0 then ord else 0)\<rparr>) [0..<64]"

definition sample_swap :: "bnode \<Rightarrow> bnode" where
  "sample_swap x = (if x = FreePages 6 then BuddyNode 0 else if x = BuddyNode 0 then FreePages 6 else x)"

text \<open>All 64 pages in one free block of order 6.\<close>

definition sample_free :: buddy_allocator where
  "sample_free = \<lparr>page_area = sample_pages 6 0, page_area_addr = 0xC0200000, page_count = 64,
     blocks = replicate 6 \<lparr>free_count = 0, used_count = 0\<rparr> @ [\<lparr>free_count = 1, used_count = 0\<rparr>],
     max_order = 6, buddy_lock = False,
     nodes = (\<lambda>x. \<lparr>next_node = Some (sample_swap x), prev_node = Some (sample_swap x)\<rparr>),
     low_pages = 64, high_pages = 0\<rparr>"

text \<open>The same block allocated, with one user or two.\<close>

definition sample_used :: "u32 \<Rightarrow> buddy_allocator" where
  "sample_used uses = \<lparr>page_area = sample_pages ORDER_USED uses, page_area_addr = 0xC0200000, page_count = 64,
     blocks = replicate 7 \<lparr>free_count = 0, used_count = 0\<rparr>, max_order = 6, buddy_lock = False,
     nodes = (\<lambda>x. \<lparr>next_node = Some x, prev_node = Some x\<rparr>), low_pages = 64, high_pages = 0\<rparr>"

abbreviation sample_lists :: free_lists where
  "sample_lists \<equiv> (\<lambda>_. [])(6 := [0])"

lemma sample_pages_simps [simp]:
  "length (sample_pages v u) = 64"
  "i < 64 \<Longrightarrow> sample_pages v u ! i = \<lparr>pfn = of_nat i, use_count = (if i = 0 then u else 0),
     flags = PF_ZONE_LOWMEM, order = (if i = 0 then v else 0)\<rparr>"
  "sample_pages v u \<noteq> []"
  by (simp_all add: sample_pages_def)

lemma sample_valid: "page_area s = sample_pages v u \<Longrightarrow> valid_pages s = {0..<64}"
  by (auto simp: valid_pages_def page_valid_def rotary_const rotary_macro)

lemma tiling_64: "tiling 64 {(0, 6)}"
  by (simp add: tiling_def well_placed_def)

lemma sample_free_blocks: "free_blocks sample_lists = {(0, 6)}"
  by (auto simp: free_blocks_def split: if_splits)

lemma sample_free_ok: "buddy_ok {} sample_lists sample_free"
proof -
  have "family clist {..6} FreePages (\<lambda>k. map BuddyNode (sample_lists k)) (nodes sample_free)"
    by (auto simp: family_def clist_def sample_free_def sample_swap_def)
  moreover have "free_count (blocks sample_free ! k) = of_nat (length (sample_lists k))" if "k \<le> 6" for k
    using that by (auto simp: sample_free_def nth_append)
  ultimately have "buddy_rep sample_lists sample_free"
    by (auto simp: buddy_rep_def) (simp_all add: sample_free_def)
  moreover have v: "valid_pages sample_free = {0..<64}" by (rule sample_valid) (simp add: sample_free_def)
  have "buddy_wf 64 {0..<64} {} sample_lists"
    by (simp add: buddy_wf_def sample_free_blocks tiling_64)
  ultimately show ?thesis
    by (simp add: buddy_ok_def v used_rep_def) (simp add: sample_free_def)
qed

lemma sample_used_ok: "buddy_ok {(0, 6)} (\<lambda>_. []) (sample_used u)"
proof -
  have "family clist {..6} FreePages (\<lambda>k. map BuddyNode []) (nodes (sample_used u))"
    by (auto simp: family_def clist_def sample_used_def)
  then have "buddy_rep (\<lambda>_. []) (sample_used u)" by (auto simp: buddy_rep_def) (simp_all add: sample_used_def)
  moreover have v: "valid_pages (sample_used u) = {0..<64}" by (rule sample_valid) (simp add: sample_used_def)
  have "buddy_wf 64 {0..<64} {(0, 6)} (\<lambda>_. [])" by (simp add: buddy_wf_def tiling_64)
  ultimately show ?thesis
    by (simp add: buddy_ok_def v used_rep_def) (simp add: sample_used_def)
qed

section \<open>Allocation\<close>

text \<open>
  C1. Allocation implements its specification: on an allocator that satisfies the invariant,
  for an order up to the maximum, \<^verbatim>\<open>page_alloc\<close> always returns; it returns NULL and changes
  nothing when \<^const>\<open>take_block\<close> finds no block, and otherwise returns the block that
  \<^const>\<open>take_block\<close> takes, splitting larger blocks as it does, and the invariant holds with
  that block added to the allocated ones (the lock is released on every path).
\<close>

theorem page_alloc_refines:
  assumes "buddy_ok A fl s" and "ord \<le> 6"
  shows "case take_block (unat ord) fl of
      None \<Rightarrow> page_alloc ord fgs s = Some (None, s)
    | Some (t, fl') \<Rightarrow> \<exists>s'. page_alloc ord fgs s = Some (Some t, s') \<and>
        buddy_ok (insert (t, unat ord) A) fl' s'"
proof (cases "take_block (unat ord) fl")
  case None
  with page_alloc_none [OF assms] show ?thesis by simp
next
  case (Some r)
  then obtain t fl' where r: "take_block (unat ord) fl = Some (t, fl')" by (cases r) simp
  with page_alloc_some [OF assms r] show ?thesis by simp blast
qed

lemma sample_take: "take_block 4 sample_lists = Some (0, (\<lambda>_. [])(5 := [32], 4 := [16]))"
proof -
  have "first_order 4 sample_lists = Some 6" by (simp add: first_order_Some)
  then show ?thesis by (simp add: take_block_def eval_nat_numeral fun_eq_iff)
qed

theorem page_alloc_refines_witness:
  "\<exists>s'. page_alloc 4 0 sample_free = Some (Some 0, s') \<and>
     buddy_ok {(0, 4)} ((\<lambda>_. [])(5 := [32], 4 := [16])) s'"
  using page_alloc_refines [OF sample_free_ok, of 4 0] sample_take by simp

text \<open>
  C4. What a caller of \<^verbatim>\<open>page_alloc\<close> gets: a block of \<open>2 ^ order\<close> pages that starts at a
  multiple of its size, lies in the page area, consists of usable pages only and overlaps no
  block handed out before; its use count goes up by one and no other page's use count changes.
\<close>

theorem page_alloc_fresh_block:
  assumes ok: "buddy_ok A fl s" and run: "page_alloc ord fgs s = Some (Some t, s')"
  shows "well_placed (n_pages s) (t, unat ord) \<and> span (t, unat ord) \<subseteq> valid_pages s \<and>
    span (t, unat ord) \<inter> cover A = {} \<and>
    use_count (page_area s' ! t) = use_count (page_area s ! t) + 1 \<and>
    (\<forall>i<n_pages s. i \<noteq> t \<longrightarrow> use_count (page_area s' ! i) = use_count (page_area s ! i))"
proof -
  obtain fl' where t: "take_block (unat ord) fl = Some (t, fl')"
    and s': "use_count (page_area s' ! t) = use_count (page_area s ! t) + 1"
    "\<And>i. i < n_pages s \<Longrightarrow> i \<noteq> t \<Longrightarrow> use_count (page_area s' ! i) = use_count (page_area s ! i)"
    using page_alloc_someD [OF ok run] by metis
  have wf: "buddy_wf (n_pages s) (valid_pages s) (insert (t, unat ord) A) fl'" "(t, unat ord) \<notin> A"
    using take_block_wf [OF _ t] ok by (auto simp: buddy_ok_def)
  have "well_placed (n_pages s) (t, unat ord)" by (rule wf_block_placed [OF wf(1)])
  moreover have "span (t, unat ord) \<subseteq> valid_pages s \<and> span (t, unat ord) \<inter> cover A = {}"
    using wf_block_pages(3,4) [OF wf] by blast
  ultimately show ?thesis using s' by blast
qed

theorem page_alloc_fresh_block_witness:
  "\<exists>s'. page_alloc 4 0 sample_free = Some (Some 0, s') \<and> span (0, 4) \<subseteq> valid_pages sample_free"
proof -
  obtain s' where s': "page_alloc 4 0 sample_free = Some (Some 0, s')"
    by (rule page_alloc_some [OF sample_free_ok, of 4 0 _ 0]) (simp_all add: sample_take)
  with page_alloc_fresh_block [OF sample_free_ok s'] show ?thesis by auto
qed

text \<open>
  \<^verbatim>\<open>page_alloc\<close> returns NULL exactly when the order is above the maximum or no free block of
  the requested or any larger order exists: it never fails while a larger block could be split.
\<close>

lemma page_alloc_null_iff:
  assumes "buddy_ok A fl s"
  shows "(\<exists>s'. page_alloc ord fgs s = Some (None, s')) \<longleftrightarrow>
    ord > 6 \<or> (\<forall>j. unat ord \<le> j \<and> j \<le> 6 \<longrightarrow> fl j = [])"
proof (cases "ord > 6")
  case True
  then show ?thesis by (simp add: page_alloc_def ORDER_MAX_def)
next
  case False
  then have ord: "ord \<le> 6" by simp
  have "take_block (unat ord) fl = None \<longleftrightarrow> (\<forall>j. unat ord \<le> j \<and> j \<le> 6 \<longrightarrow> fl j = [])"
    by (simp add: take_block_def first_order_None [symmetric] Let_def split: option.splits)
  moreover have "(\<exists>s'. page_alloc ord fgs s = Some (None, s')) \<longleftrightarrow> take_block (unat ord) fl = None"
    using page_alloc_none [OF assms ord, of fgs] page_alloc_noneD(2) [OF assms _ ord] by blast
  ultimately show ?thesis using False by simp
qed

lemma page_alloc_null_iff_witness:
  "(\<exists>s'. page_alloc 0 0 (sample_used 1) = Some (None, s'))"
  using page_alloc_null_iff [OF sample_used_ok, of 0 0 1] by simp

section \<open>Release\<close>

text \<open>
  \<^verbatim>\<open>page_free\<close> refuses a NULL page and a page of the kernel image: it returns the error code
  and changes nothing. On a page with more than one user it only drops one use.
\<close>

lemma page_free_guards:
  assumes "buddy_ok A fl s" and "b < n_pages s"
  shows "page_free img None ord s = Some (E_ERROR, s) \<and>
    (critical_page img b \<longrightarrow> page_free img (Some b) ord s = Some (E_ERROR, s)) \<and>
    (\<not> critical_page img b \<and> use_count (page_area s ! b) > 1 \<longrightarrow>
       page_free img (Some b) ord s = Some (E_SUCCESS, s\<lparr>page_area := (page_area s)[b :=
         (page_area s ! b)\<lparr>use_count := use_count (page_area s ! b) - 1\<rparr>]\<rparr>))"
proof -
  have r: "buddy_rep fl s" and u: "\<not> buddy_lock s" using assms(1) by (simp_all add: buddy_ok_def)
  have "s\<lparr>page_area := P, buddy_lock := False\<rparr> = s\<lparr>page_area := P\<rparr>" for P
    using u by (cases s) simp
  with page_is_critical_rep [OF r assms(2), of img] u assms(2) show ?thesis
    by (auto simp: page_free_def rotary_const)
qed

text \<open>The invariant does not depend on the use counts.\<close>

lemma buddy_ok_use_count:
  assumes "buddy_ok A fl s" and "b < n_pages s"
  shows "buddy_ok A fl (s\<lparr>page_area := (page_area s)[b := (page_area s ! b)\<lparr>use_count := c\<rparr>]\<rparr>)"
proof -
  let ?s = "s\<lparr>page_area := (page_area s)[b := (page_area s ! b)\<lparr>use_count := c\<rparr>]\<rparr>"
  have same: "order (page_area ?s ! i) = order (page_area s ! i)" "flags (page_area ?s ! i) = flags (page_area s ! i)" for i
    using assms(2) by (cases "i = b"; simp)+
  then have "valid_pages ?s = valid_pages s" by (simp add: valid_pages_def page_valid_def)
  moreover have "used_rep A ?s = used_rep A s" by (simp only: used_rep_def same)
  ultimately show ?thesis using assms(1) unfolding buddy_ok_def by simp
qed

text \<open>
  C2. Freeing an allocated block, on every branch. A block that starts in the kernel image is refused with the error
  code and no change. A block with several users only loses one of them. A block with one user is returned:
  the free lists become those of \<^const>\<open>give_block\<close> (the block is merged with its free buddy, the result with its
  own, and so on), the invariant holds without the block among the allocated ones, and its use count is 0. A block
  whose use count is already 0 is returned in the same way, and its count wraps around to the largest number; the
  comment of \<^verbatim>\<open>page_initial_free\<close> says that \<^verbatim>\<open>page_free\<close> raises a bugcheck then, which it does not.
\<close>

theorem page_free_refines:
  assumes "buddy_ok (insert (b, k) A) fl s" and "(b, k) \<notin> A"
  defines "uses \<equiv> use_count (page_area s ! b)"
  shows "\<exists>r s'. page_free img (Some b) (of_nat k) s = Some (r, s') \<and>
    (if critical_page img b then r = E_ERROR \<and> s' = s
     else r = E_SUCCESS \<and> use_count (page_area s' ! b) = uses - 1 \<and>
       (if uses > 1 then buddy_ok (insert (b, k) A) fl s' \<and> page_area s' = (page_area s)[b := (page_area s ! b)\<lparr>use_count := uses - 1\<rparr>]
        else buddy_ok A (give_block b k fl) s'))"
proof -
  have b: "b < n_pages s" using assms(1) wf_heads_covered [of "n_pages s" _ _ _ "(b, k)"] by (auto simp: buddy_ok_def)
  have r: "buddy_rep fl s" and u: "\<not> buddy_lock s" using assms(1) by (simp_all add: buddy_ok_def)
  show ?thesis
  proof (cases "\<not> critical_page img b \<and> uses \<le> 1")
    case True
    then have "\<not> critical_page img b" "use_count (page_area s ! b) \<le> 1" by (simp_all add: uses_def)
    from page_free_last [OF assms(1,2) this] obtain s' where "page_free img (Some b) (of_nat k) s = Some (E_SUCCESS, s')"
      "buddy_ok A (give_block b k fl) s'" "use_count (page_area s' ! b) = uses - 1" unfolding uses_def by blast
    moreover have "\<not> uses > 1" using True by (simp add: not_less)
    ultimately show ?thesis using True by simp
  next
    case False
    let ?s = "s\<lparr>page_area := (page_area s)[b := (page_area s ! b)\<lparr>use_count := uses - 1\<rparr>]\<rparr>"
    have run: "page_free img (Some b) (of_nat k) s = Some (if critical_page img b then (E_ERROR, s) else (E_SUCCESS, ?s))"
      using page_free_guards [OF assms(1) b, of img] False by (auto simp: uses_def not_le)
    show ?thesis using False run buddy_ok_use_count [OF assms(1) b, of "uses - 1"] b by (auto simp: not_le)
  qed
qed

lemma sample_not_critical: "\<not> critical_page sample_image 0"
  by (simp add: critical_page_def sample_image_def rotary_macro rotary_const)

text \<open>The block of 64 pages with one user, with two, and with none.\<close>

theorem page_free_refines_witness:
  "(\<exists>s'. page_free sample_image (Some 0) 6 (sample_used 1) = Some (E_SUCCESS, s') \<and>
     buddy_ok {} (give_block 0 6 (\<lambda>_. [])) s' \<and> use_count (page_area s' ! 0) = 0) \<and>
   (\<exists>s'. page_free sample_image (Some 0) 6 (sample_used 2) = Some (E_SUCCESS, s') \<and>
     buddy_ok {(0, 6)} (\<lambda>_. []) s' \<and> use_count (page_area s' ! 0) = 1) \<and>
   (\<exists>s'. page_free sample_image (Some 0) 6 (sample_used 0) = Some (E_SUCCESS, s') \<and> use_count (page_area s' ! 0) = - 1)"
proof -
  have "\<exists>s'. page_free sample_image (Some 0) 6 (sample_used c) = Some (E_SUCCESS, s') \<and> use_count (page_area s' ! 0) = c - 1 \<and>
      (if c > 1 then buddy_ok {(0, 6)} (\<lambda>_. []) s' else buddy_ok {} (give_block 0 6 (\<lambda>_. [])) s')" for c
    using page_free_refines [of 0 6 "{}" "\<lambda>_. []" "sample_used c" sample_image] sample_used_ok [of c] sample_not_critical
    by (auto simp: sample_used_def)
  from this [of 1] this [of 2] this [of 0] show ?thesis by auto
qed

lemma page_free_guards_witness:
  "page_free sample_image (Some 0) 6 (sample_used 2) = Some (E_SUCCESS, sample_used 1)"
proof -
  have "(sample_pages ORDER_USED 2)[0 := (sample_pages ORDER_USED 2 ! 0)\<lparr>use_count := 1\<rparr>] = sample_pages ORDER_USED 1"
    by (rule nth_equalityI) (auto simp: nth_list_update)
  then show ?thesis
    using page_free_guards [OF sample_used_ok, of 0 2 sample_image 6] sample_not_critical
    by (simp add: sample_used_def)
qed

section \<open>Sequences of calls\<close>

text \<open>
  The states after any sequence of \<^verbatim>\<open>page_alloc\<close> and \<^verbatim>\<open>page_free\<close> calls from \<open>s0\<close>, in which every
  freed block is one that was allocated and is freed with its own order; \<open>A\<close> are the blocks
  the callers hold.
\<close>

inductive calls :: "kernel_image \<Rightarrow> buddy_allocator \<Rightarrow> block set \<Rightarrow> buddy_allocator \<Rightarrow> bool"
  for img s0 where
  start: "calls img s0 {} s0"
| alloc: "calls img s0 A s \<Longrightarrow> page_alloc ord fgs s = Some (Some t, s') \<Longrightarrow>
    calls img s0 (insert (t, unat ord) A) s'"
| alloc_fails: "calls img s0 A s \<Longrightarrow> page_alloc ord fgs s = Some (None, s') \<Longrightarrow> calls img s0 A s'"
| free: "calls img s0 A s \<Longrightarrow> (b, k) \<in> A \<Longrightarrow>
    page_free img (Some b) (of_nat k) s = Some (E_SUCCESS, s') \<Longrightarrow> calls img s0 (A - {(b, k)}) s'"

text \<open>A freshly booted allocator: nothing handed out, nothing left to merge, no page in use.\<close>

definition fresh_allocator :: "free_lists \<Rightarrow> buddy_allocator \<Rightarrow> bool" where
  "fresh_allocator fl s \<longleftrightarrow> buddy_ok {} fl s \<and> coalesced fl \<and>
     (\<forall>i<n_pages s. use_count (page_area s ! i) = 0)"

definition no_kernel_pages :: "kernel_image \<Rightarrow> buddy_allocator \<Rightarrow> bool" where
  "no_kernel_pages img s \<longleftrightarrow> (\<forall>i\<in>valid_pages s. \<not> critical_page img i)"

definition heads :: "block set \<Rightarrow> nat set" where
  "heads A = fst ` A"

lemma heads_insert [simp]: "heads (insert x A) = insert (fst x) (heads A)"
  by (simp add: heads_def)

definition calls_inv :: "buddy_allocator \<Rightarrow> block set \<Rightarrow> free_lists \<Rightarrow> buddy_allocator \<Rightarrow> bool" where
  "calls_inv s0 A fl s \<longleftrightarrow> buddy_ok A fl s \<and> coalesced fl \<and>
     n_pages s = n_pages s0 \<and> valid_pages s = valid_pages s0 \<and>
     (\<forall>i<n_pages s. use_count (page_area s ! i) = (if i \<in> heads A then 1 else 0))"

lemma alloc_keeps_inv:
  assumes inv: "calls_inv s0 A fl s" and run: "page_alloc ord fgs s = Some (Some t, s')"
  shows "\<exists>fl'. take_block (unat ord) fl = Some (t, fl') \<and> calls_inv s0 (insert (t, unat ord) A) fl' s'"
proof -
  have ok: "buddy_ok A fl s" and co: "coalesced fl" using inv by (simp_all add: calls_inv_def)
  obtain fl' where t: "take_block (unat ord) fl = Some (t, fl')"
    and s': "buddy_ok (insert (t, unat ord) A) fl' s'"
    "use_count (page_area s' ! t) = use_count (page_area s ! t) + 1"
    "\<And>i. i < n_pages s \<Longrightarrow> i \<noteq> t \<Longrightarrow> use_count (page_area s' ! i) = use_count (page_area s ! i)"
    "n_pages s' = n_pages s" "valid_pages s' = valid_pages s"
    using page_alloc_someD [OF ok run] by blast
  have wf: "buddy_wf (n_pages s) (valid_pages s) A fl" using ok by (simp add: buddy_ok_def)
  note wf' = take_block_wf [OF wf t]
  have "t \<notin> cover A" and tn: "t < n_pages s"
    using wf_block_pages(1,3) [of _ _ "(t, unat ord)" A fl' t] wf' by auto
  then have "t \<notin> heads A" using heads_in_cover by (auto simp: heads_def)
  then have "\<forall>i<n_pages s'. use_count (page_area s' ! i) = (if i \<in> heads (insert (t, unat ord) A) then 1 else 0)"
    using s'(2-4) inv tn by (simp add: calls_inv_def) (metis \<open>t \<notin> heads A\<close>)
  with s' inv t take_block_coalesced [OF wf co t] show ?thesis by (auto simp: calls_inv_def)
qed

lemma free_keeps_inv:
  assumes inv: "calls_inv s0 A fl s" and b: "(b, k) \<in> A" and nc: "\<not> critical_page img b"
  obtains s' where "page_free img (Some b) (of_nat k) s = Some (E_SUCCESS, s')"
    and "calls_inv s0 (A - {(b, k)}) (give_block b k fl) s'"
proof -
  let ?A = "A - {(b, k)}"
  have ok: "buddy_ok (insert (b, k) ?A) fl s" and new: "(b, k) \<notin> ?A"
    using inv b by (simp_all add: calls_inv_def insert_absorb)
  have wf: "buddy_wf (n_pages s) (valid_pages s) (insert (b, k) ?A) fl" using ok by (simp add: buddy_ok_def)
  have bp: "b < n_pages s" "b \<notin> cover ?A" using wf_block_pages(1,3) [OF wf new, of b] by simp_all
  have bh: "b \<notin> heads ?A" using heads_in_cover [of _ ?A] bp(2) by (force simp: heads_def)
  have hA: "heads A = insert b (heads ?A)" using heads_insert [of "(b, k)" ?A] b by (simp add: insert_absorb)
  have uc: "use_count (page_area s ! b) \<le> 1" using inv bp(1) by (simp add: calls_inv_def)
  from page_free_last [OF ok new nc uc] obtain s' where
    s': "page_free img (Some b) (of_nat k) s = Some (E_SUCCESS, s')" "buddy_ok ?A (give_block b k fl) s'"
    "use_count (page_area s' ! b) = use_count (page_area s ! b) - 1"
    "\<And>i. i < n_pages s \<Longrightarrow> i \<noteq> b \<Longrightarrow> use_count (page_area s' ! i) = use_count (page_area s ! i)"
    "n_pages s' = n_pages s" "valid_pages s' = valid_pages s" by blast
  have "2 ^ k dvd b" using wf_block_placed [OF wf] by (simp add: well_placed_def)
  moreover have "\<forall>j\<le>6. distinct (fl j)" using wf by (simp add: buddy_wf_def)
  ultimately have "coalesced (give_block b k fl)"
    using give_block_coalesced inv by (simp add: calls_inv_def)
  moreover have "\<forall>i<n_pages s'. use_count (page_area s' ! i) = (if i \<in> heads ?A then 1 else 0)"
    using s'(3-5) inv bp(1) bh unfolding calls_inv_def hA by (metis cancel_comm_monoid_add_class.diff_cancel insertE insertI1 insertI2)
  ultimately show thesis using s' inv by (intro that [of s']) (auto simp: calls_inv_def)
qed

lemma calls_invariant:
  assumes "calls img s0 A s" and "fresh_allocator fl0 s0" and "no_kernel_pages img s0"
  shows "\<exists>fl. calls_inv s0 A fl s"
  using assms
proof (induction rule: calls.induct)
  case start
  then show ?case by (auto simp: calls_inv_def fresh_allocator_def heads_def)
next
  case (alloc A s ord fgs t s')
  then show ?case using alloc_keeps_inv by blast
next
  case (alloc_fails A s ord fgs s')
  then obtain fl where inv: "calls_inv s0 A fl s" by blast
  then have ok: "buddy_ok A fl s" by (simp add: calls_inv_def)
  have "s' = s" by (rule page_alloc_noneD [OF ok alloc_fails(2)])
  with inv show ?case by blast
next
  case (free A s b k s')
  then obtain fl where inv: "calls_inv s0 A fl s" by blast
  then have "b \<in> valid_pages s" using heads_in_cover [OF free(2)]
    by (auto simp: calls_inv_def buddy_ok_def buddy_wf_def)
  then have "\<not> critical_page img b" using free.prems(2) inv by (simp add: no_kernel_pages_def calls_inv_def)
  from free_keeps_inv [OF inv free(2) this] free(3) show ?case by (metis Pair_inject option.inject)
qed

text \<open>
  C3. After any sequence of allocations and releases of allocated blocks, on a freshly booted
  allocator without kernel pages, the invariant holds: the blocks the callers hold and the free
  blocks tile the usable pages, no two free buddies are left unmerged, exactly the first pages
  of held blocks have use count one, and every held block can be freed (\<^verbatim>\<open>page_free\<close> succeeds).
\<close>

theorem calls_safe:
  assumes "calls img s0 A s" and "fresh_allocator fl0 s0" and "no_kernel_pages img s0"
  shows "(\<exists>fl. calls_inv s0 A fl s) \<and>
    (\<forall>x\<in>A. \<exists>s'. page_free img (Some (fst x)) (of_nat (snd x)) s = Some (E_SUCCESS, s'))"
proof -
  from calls_invariant [OF assms] obtain fl where inv: "calls_inv s0 A fl s" by blast
  have "\<exists>s'. page_free img (Some (fst x)) (of_nat (snd x)) s = Some (E_SUCCESS, s')" if x: "x \<in> A" for x
  proof -
    have "fst x \<in> valid_pages s"
      using inv heads_in_cover [OF x] by (auto simp: calls_inv_def buddy_ok_def buddy_wf_def)
    then have "\<not> critical_page img (fst x)" using assms(3) inv by (simp add: no_kernel_pages_def calls_inv_def)
    from free_keeps_inv [OF inv _ this, of "snd x"] x show ?thesis by auto
  qed
  with inv show ?thesis by blast
qed

lemma sample_fresh: "fresh_allocator sample_lists sample_free"
  using sample_free_ok by (auto simp: fresh_allocator_def coalesced_def sample_free_def)

lemma sample_no_kernel: "no_kernel_pages sample_image sample_free"
proof -
  have "valid_pages sample_free = {0..<64}" by (rule sample_valid) (simp add: sample_free_def)
  moreover have "\<not> critical_page sample_image i" if "i < 64" for i
    using that by (simp add: critical_page_def sample_image_def rotary_macro rotary_const
      word_le_nat_alt word_less_nat_alt unat_word_ariths unat_le_imp_of_nat)
  ultimately show ?thesis by (simp add: no_kernel_pages_def)
qed

lemma sample_alloc_call: "\<exists>s'. calls sample_image sample_free {(0, 4)} s'"
proof -
  obtain s' where "page_alloc 4 0 sample_free = Some (Some 0, s')"
    by (rule page_alloc_some [OF sample_free_ok, of 4 0 _ 0]) (simp_all add: sample_take)
  from calls.alloc [OF calls.start this] show ?thesis by auto
qed

theorem calls_safe_witness:
  "\<exists>s s'. calls sample_image sample_free {(0, 4)} s \<and>
     page_free sample_image (Some 0) 4 s = Some (E_SUCCESS, s')"
proof -
  obtain s where s: "calls sample_image sample_free {(0, 4)} s" using sample_alloc_call by blast
  with calls_safe [OF s sample_fresh sample_no_kernel] show ?thesis by auto
qed

text \<open>
  C7. The free blocks depend only on what is allocated, not on the history: two sequences of
  calls from the same freshly booted allocator after which the callers hold the same blocks end
  with the same free blocks. In particular freeing everything restores the initial blocks, so
  fragmentation never accumulates.
\<close>

theorem calls_history_independent:
  assumes "calls img s0 A s1" and "calls img s0 A s2"
    and "fresh_allocator fl0 s0" and "no_kernel_pages img s0"
  shows "\<exists>fl1 fl2. buddy_ok A fl1 s1 \<and> buddy_ok A fl2 s2 \<and> free_blocks fl1 = free_blocks fl2 \<and>
    (A = {} \<longrightarrow> free_blocks fl1 = free_blocks fl0)"
proof -
  obtain fl1 where 1: "calls_inv s0 A fl1 s1" using calls_invariant [OF assms(1,3,4)] by blast
  obtain fl2 where 2: "calls_inv s0 A fl2 s2" using calls_invariant [OF assms(2,3,4)] by blast
  have wf: "buddy_wf (n_pages s0) (valid_pages s0) A fl" "coalesced fl" if "calls_inv s0 A fl s" for fl s
    using that by (auto simp: calls_inv_def buddy_ok_def)
  have "free_blocks fl1 = free_blocks fl2" using merged_unique [OF wf [OF 1] wf [OF 2]] .
  moreover have "free_blocks fl1 = free_blocks fl0" if "A = {}"
    using merged_unique [OF wf [OF 1]] assms(3) that by (auto simp: fresh_allocator_def buddy_ok_def)
  moreover have "buddy_ok A fl1 s1" "buddy_ok A fl2 s2" using 1 2 by (simp_all add: calls_inv_def)
  ultimately show ?thesis by blast
qed

theorem calls_history_independent_witness:
  "\<exists>fl. buddy_ok {} fl sample_free \<and> free_blocks fl = {(0, 6)}"
  using calls_history_independent [OF calls.start calls.start sample_fresh sample_no_kernel] sample_free_blocks
  by auto

section \<open>Start-up\<close>

text \<open>
  \<^verbatim>\<open>buddy_init\<close> establishes the invariant: when bootmem can provide the page structs for a
  number of pages that is a multiple of 64 (and at most \<open>2 ^ 20\<close>, a 32-bit address space), it
  succeeds, every page is unusable and unused, all free lists are empty and the lock is free.
\<close>

lemma buddy_init_establishes:
  assumes "64 dvd unat count" and "unat count \<le> 2 ^ 20"
    and "bootmem_alloc (count * SIZEOF_PAGE) BM_NO_ALIGN bm = (area, bm')" and "area \<noteq> 0"
  shows "\<exists>s'. buddy_init img count bm s = Returned (E_SUCCESS, bm', s') \<and>
    fresh_allocator (\<lambda>_. []) s' \<and> n_pages s' = unat count \<and> valid_pages s' = {} \<and> page_area_addr s' = area"
  by (rule buddy_init_state [OF assms, of img s]) (auto simp: fresh_allocator_def coalesced_empty)

lemma sample_area:
  "bootmem_alloc (64 * SIZEOF_PAGE) BM_NO_ALIGN (one_region 0x200000 0x400000) =
     (0xC0200000, (one_region 0x200000 0x400000)\<lparr>mem_regions :=
       \<lparr>start_addr = 0x200600, end_addr = 0x400000, orig_start_addr = 0x200000, region_type = 1\<rparr>
       # replicate 15 empty_region\<rparr>)"
  by (simp add: bootmem_alloc_def one_region_def region_fits_def rotary_const rotary_macro upt_rec)

lemma buddy_init_establishes_witness:
  "\<exists>bm' s'. buddy_init sample_image 64 (one_region 0x200000 0x400000) sample_free =
     Returned (E_SUCCESS, bm', s') \<and> fresh_allocator (\<lambda>_. []) s'"
  using buddy_init_establishes [OF _ _ sample_area, of sample_image sample_free] by auto

text \<open>
  C8. \<^verbatim>\<open>bootmem_mark_free\<close> hands over exactly the boot memory: if the page frames of the registered
  regions lie in the page area, are not usable yet and do not overlap, it returns success, the
  usable pages are the earlier ones and the frames of the regions (those \<^verbatim>\<open>bootmem_alloc\<close> took
  are no longer in a region), all of them are in fully merged free blocks, and no use count changed.
\<close>

theorem bootmem_mark_free_handover:
  assumes "fresh_allocator fl s" and "region_count bm \<noteq> 0" and "highest_pfn bm \<noteq> 0"
    and "unat (region_count bm) \<le> length (mem_regions bm)"
    and "frames_apart (valid_pages s) (n_pages s) (take (unat (region_count bm)) (mem_regions bm))"
  shows "\<exists>s' fl'. bootmem_mark_free bm s = Some (Returned (E_SUCCESS, s')) \<and> fresh_allocator fl' s' \<and>
    n_pages s' = n_pages s \<and>
    valid_pages s' = valid_pages s \<union>
      (\<Union>r\<in>set (take (unat (region_count bm)) (mem_regions bm)). region_frames r)"
proof -
  have "buddy_ok {} fl s" "coalesced fl" using assms(1) by (simp_all add: fresh_allocator_def)
  from mark_free_regions_run [OF this assms(5)] obtain s'
    where s': "mark_free_regions (take (unat (region_count bm)) (mem_regions bm)) s = Some s'"
      "handover (\<Union>r\<in>set (take (unat (region_count bm)) (mem_regions bm)). region_frames r) s s'" by blast
  have "bootmem_mark_free bm s = Some (Returned (E_SUCCESS, s'))"
    using s'(1) assms(2-4) by (simp add: bootmem_mark_free_def)
  with s'(2) assms(1) show ?thesis by (auto simp: handover_def fresh_allocator_def)
qed

lemma sample_unusable: "\<exists>s. fresh_allocator (\<lambda>_. []) s \<and> n_pages s = 64 \<and> valid_pages s = {}"
  by (rule buddy_init_state [OF _ _ sample_area, of sample_image sample_free])
    (auto simp: fresh_allocator_def coalesced_empty)

theorem bootmem_mark_free_handover_witness:
  "\<exists>s s'. fresh_allocator (\<lambda>_. []) s \<and>
     bootmem_mark_free (one_region 0x1800 0x20000) s = Some (Returned (E_SUCCESS, s')) \<and>
     valid_pages s' = {2..<32}"
proof -
  obtain s where s: "fresh_allocator (\<lambda>_. []) s" "n_pages s = 64" "valid_pages s = {}"
    using sample_unusable by blast
  have f: "(\<Union>r\<in>set (take 1 (mem_regions (one_region 0x1800 0x20000))). region_frames r) = {2..<32}"
    by (simp add: one_region_def region_frames_def rotary_macro rotary_const)
  have "\<exists>s' fl'. bootmem_mark_free (one_region 0x1800 0x20000) s = Some (Returned (E_SUCCESS, s')) \<and>
      fresh_allocator fl' s' \<and> n_pages s' = n_pages s \<and> valid_pages s' = valid_pages s \<union> {2..<32}"
    using bootmem_mark_free_handover [OF s(1), of "one_region 0x1800 0x20000"] s(2,3) f
      lessThan_atLeast0 ivl_subset
    by (simp add: one_region_def region_frames_def rotary_macro rotary_const)
  with s show ?thesis by auto
qed

end
