(* ===== verification/Kmalloc.thy ===== *)
theory Kmalloc
  imports Slab_Correct Palloc_Props
begin

text \<open>
  The kernel memory allocator, \<^verbatim>\<open>kernel/mm/kmalloc.c\<close>: thirteen slab caches for the sizes
  8 to 32768, on top of the slab allocator and the page allocator. The page supply of the
  slabs, \<^verbatim>\<open>page_alloc(SLAB_DEFAULT_ORDER, PR_KERNEL)\<close> and \<^verbatim>\<open>PAGE_VA\<close>, is shown to meet the
  contract \<open>frame_source\<close> when all pages lie in the linearly mapped low memory.
\<close>

section \<open>Definitions\<close>

definition PR_KERNEL :: u32 where [rotary_const]: "PR_KERNEL = 1"

definition slab_get_pages :: "buddy_allocator page_getter" where
  "slab_get_pages s = do {
     (p, s') \<leftarrow> page_alloc (of_nat SLAB_DEFAULT_ORDER) PR_KERNEL s;
     (case p of None \<Rightarrow> Some (None, s')
      | Some i \<Rightarrow> do {
          pg \<leftarrow> page_at i s';
          Some (Some (PAGE_VA pg), s')
        })
   }"

record kmalloc_state =
  slab_caches :: "slab_cache_t list"
  kmem :: "buddy_allocator slab_state"

definition kmalloc_caches :: "slab_cache_t list" where
  "kmalloc_caches =
     [INIT_SLAB_CACHE ''kmalloc-8'' 8,
      INIT_SLAB_CACHE ''kmalloc-16'' 16,
      INIT_SLAB_CACHE ''kmalloc-32'' 32,
      INIT_SLAB_CACHE ''kmalloc-64'' 64,
      INIT_SLAB_CACHE ''kmalloc-128'' 128,
      INIT_SLAB_CACHE ''kmalloc-256'' 256,
      INIT_SLAB_CACHE ''kmalloc-512'' 512,
      INIT_SLAB_CACHE ''kmalloc-1k'' 1024,
      INIT_SLAB_CACHE ''kmalloc-2k'' 2048,
      INIT_SLAB_CACHE ''kmalloc-4k'' 4096,
      INIT_SLAB_CACHE ''kmalloc-8k'' 8192,
      INIT_SLAB_CACHE ''kmalloc-16k'' 16384,
      INIT_SLAB_CACHE ''kmalloc-32k'' 32768]"

definition kmalloc :: "u32 \<Rightarrow> kmalloc_state \<Rightarrow> (u32 \<times> kmalloc_state) option" where
  "kmalloc sz s =
     (case find (\<lambda>i. sz \<le> object_size (slab_caches s ! i)) [0..<length (slab_caches s)] of
        None \<Rightarrow> Some (0, s)
      | Some i \<Rightarrow> do {
          (r, c', m') \<leftarrow> slab_malloc slab_get_pages (slab_caches s ! i) 0 (kmem s);
          Some (r, s\<lparr>slab_caches := (slab_caches s)[i := c'], kmem := m'\<rparr>)
        })"

text \<open>The loop of \<^verbatim>\<open>kfree\<close>; the bound 13 is written out in the code.\<close>

primrec kfree_loop :: "nat list \<Rightarrow> u32 \<Rightarrow> kmalloc_state \<Rightarrow> (i32 \<times> kmalloc_state) option" where
  "kfree_loop [] addr s = Some (E_ERROR, s)"
| "kfree_loop (i # is) addr s =
     (if i \<ge> length (slab_caches s) then None
      else do {
        has \<leftarrow> slab_cache_has_addr (slab_caches s ! i) addr (kmem s);
        (if has \<noteq> 0 then do {
           (_, m') \<leftarrow> slab_free (slab_caches s ! i) addr (kmem s);
           Some (E_SUCCESS, s\<lparr>kmem := m'\<rparr>)
         } else kfree_loop is addr s)
      })"

definition kfree :: "u32 \<Rightarrow> kmalloc_state \<Rightarrow> (i32 \<times> kmalloc_state) option" where
  "kfree addr s = kfree_loop [0..<13] addr s"

section \<open>Pages for slabs\<close>

definition slab_base :: "nat \<Rightarrow> u32" where
  "slab_base t = PHY_TO_VIR (PFN_TO_PA (of_nat t))"

definition palloc_owns :: "u32 set \<Rightarrow> buddy_allocator \<Rightarrow> bool" where
  "palloc_owns S p \<longleftrightarrow> (\<exists>A fl. buddy_ok A fl p \<and> n_pages p < 2 ^ 18 \<and> (\<forall>x\<in>S. \<exists>t. (t, 4) \<in> A \<and> x = slab_base t))"

lemma unat_slab_base: "t < 2 ^ 18 \<Longrightarrow> unat (slab_base t) = 0xC0000000 + 4096 * t"
  by (simp add: slab_base_def rotary_macro rotary_const unat_word_ariths unat_le_imp_of_nat)

lemma slab_get_pages_none:
  "slab_get_pages p = Some (None, p') \<Longrightarrow> page_alloc 4 PR_KERNEL p = Some (None, p')"
  by (auto simp: slab_get_pages_def SLAB_DEFAULT_ORDER_def elim!: bind_eq_SomeE split: option.splits)

lemma slab_get_pages_some:
  "slab_get_pages p = Some (Some v, p') \<Longrightarrow>
     \<exists>t. page_alloc 4 PR_KERNEL p = Some (Some t, p') \<and> t < n_pages p' \<and> v = PAGE_VA (page_area p' ! t)"
  by (auto simp: slab_get_pages_def SLAB_DEFAULT_ORDER_def page_at_def
      elim!: bind_eq_SomeE split: option.splits if_splits)

lemma unat_numeral_4: "unat (4 :: u32) = 4"
  by simp

lemma page_alloc_order4: "buddy_ok A fl p \<Longrightarrow> \<exists>r p'. page_alloc 4 fg p = Some (r, p')"
proof (cases "take_block 4 fl")
  case None
  assume "buddy_ok A fl p"
  from page_alloc_none [OF this, of 4 fg] None show ?thesis by auto
next
  case (Some x)
  assume ok: "buddy_ok A fl p"
  obtain t fl' where t: "take_block (unat (4 :: u32)) fl = Some (t, fl')" using Some by (cases x) auto
  have "(4 :: u32) \<le> 6" by simp
  then obtain s' where "page_alloc 4 fg p = Some (Some t, s')" by (rule page_alloc_some [OF ok _ t])
  then show ?thesis by blast
qed

interpretation kernel_pages: frame_source slab_get_pages palloc_owns
proof (unfold_locales, goal_cases)
  case (1 S p)
  then obtain A fl where ok: "buddy_ok A fl p" by (auto simp: palloc_owns_def)
  from page_alloc_order4 [OF ok] obtain r p' where run: "page_alloc 4 PR_KERNEL p = Some (r, p')" by blast
  show ?case
  proof (cases r)
    case None
    with run show ?thesis by (simp add: slab_get_pages_def SLAB_DEFAULT_ORDER_def)
  next
    case (Some t)
    obtain fl' where "buddy_ok (insert (t, unat (4 :: u32)) A) fl' p'"
      using page_alloc_someD [OF ok run [unfolded Some]] by blast
    then have "t < n_pages p'" using wf_heads_covered [of _ _ _ _ "(t, 4)"] by (auto simp: buddy_ok_def)
    with run Some show ?thesis by (simp add: slab_get_pages_def SLAB_DEFAULT_ORDER_def)
  qed
next
  case (2 S p p')
  then obtain A fl where ok: "buddy_ok A fl p" by (auto simp: palloc_owns_def)
  have "p' = p" using page_alloc_noneD(1) [OF ok slab_get_pages_none [OF 2(2)]] .
  with 2 show ?case by simp
next
  case (3 S p v p')
  then obtain A fl where ok: "buddy_ok A fl p" and n: "n_pages p < 2 ^ 18"
    and S: "\<And>x. x \<in> S \<Longrightarrow> \<exists>t. (t, 4) \<in> A \<and> x = slab_base t" by (auto simp: palloc_owns_def)
  obtain t where t: "page_alloc 4 PR_KERNEL p = Some (Some t, p')" "t < n_pages p'" "v = PAGE_VA (page_area p' ! t)"
    using slab_get_pages_some [OF 3(2)] by blast
  obtain fl' where tk: "take_block 4 fl = Some (t, fl')" and ok': "buddy_ok (insert (t, 4) A) fl' p'"
    and n': "n_pages p' = n_pages p"
    using page_alloc_someD [OF ok t(1)] unfolding unat_numeral_4 by blast
  have v: "v = slab_base t"
    using ok' t(2,3) by (simp add: slab_base_def PAGE_VA_def PAGE_PA_def buddy_ok_def buddy_rep_def)
  have wf: "buddy_wf (n_pages p) (valid_pages p) (insert (t, 4) A) fl'" "(t, 4) \<notin> A"
    using take_block_wf [OF _ tk] ok by (auto simp: buddy_ok_def)
  have tl: "t + 16 \<le> n_pages p" using wf_block_placed [OF wf(1)] by (simp add: well_placed_def)
  have place: "slab_place v"
    using tl n unat_slab_base [of t] v by (auto simp: slab_place_def)
  have "slab_bytes v \<inter> slab_bytes y = {}" if y: "y \<in> S" for y
  proof -
    obtain u where u: "(u, 4) \<in> A" "y = slab_base u" using S [OF y] by blast
    then have "(u, 4) \<noteq> (t, 4)" using wf(2) by auto
    have "tiling (n_pages p) (free_blocks fl' \<union> insert (t, 4) A)" using wf(1) unfolding buddy_wf_def by blast
    then have "tiling (n_pages p) (insert (t, 4) A)" by (rule tiling_subset) blast
    then have "span (u, 4) \<inter> span (t, 4) = {}" "well_placed (n_pages p) (u, 4)"
      using u(1) \<open>(u, 4) \<noteq> (t, 4)\<close> unfolding tiling_def by blast+
    then have "u + 16 \<le> t \<or> t + 16 \<le> u" "u + 16 \<le> n_pages p"
      by (auto simp: disjoint_iff well_placed_def)
    then show ?thesis using unat_slab_base [of t] unat_slab_base [of u] tl n v u(2)
      by (auto simp: slab_bytes_def)
  qed
  moreover have "palloc_owns (insert v S) p'"
    unfolding palloc_owns_def using ok' n n' S v
    by (intro exI [of _ "insert (t, 4) A"] exI [of _ fl']) auto
  ultimately show ?case using place by blast
qed

text \<open>
  The same with the whole of the page allocator in view. \<open>frames_exact A p\<close>: the blocks handed out are exactly \<open>A\<close>, each
  with one user. \<open>frames_held B S p\<close>: the heap holds the slabs \<open>S\<close>, and everyone else exactly the blocks \<open>B\<close>.
\<close>

definition frames_exact :: "block set \<Rightarrow> buddy_allocator \<Rightarrow> bool" where
  "frames_exact A p \<longleftrightarrow> n_pages p < 2 ^ 18 \<and> (\<exists>fl. calls_inv p A fl p)"

definition slab_blocks :: "u32 set \<Rightarrow> block set" where
  "slab_blocks S = {(t, 4) | t. t < 2 ^ 18 \<and> slab_base t \<in> S}"

definition frames_held :: "block set \<Rightarrow> u32 set \<Rightarrow> buddy_allocator \<Rightarrow> bool" where
  "frames_held B S p \<longleftrightarrow> frames_exact (B \<union> slab_blocks S) p \<and> B \<inter> slab_blocks S = {} \<and> S \<subseteq> slab_base ` {..<2 ^ 18}"

lemma slab_base_inject: "t < 2 ^ 18 \<Longrightarrow> u < 2 ^ 18 \<Longrightarrow> slab_base t = slab_base u \<longleftrightarrow> t = u"
proof -
  assume tu: "t < 2 ^ 18" "u < 2 ^ 18"
  have "unat (slab_base t) = unat (slab_base u) \<longleftrightarrow> t = u"
    unfolding unat_slab_base [OF tu(1)] unat_slab_base [OF tu(2)] by simp
  then show ?thesis by (simp add: word_unat_eq_iff)
qed

lemma slab_blocks_insert: "t < 2 ^ 18 \<Longrightarrow> slab_blocks (insert (slab_base t) S) = insert (t, 4) (slab_blocks S)"
  using slab_base_inject by (auto simp: slab_blocks_def)

lemma frames_exactD:
  assumes "frames_exact A p"
  obtains fl where "buddy_ok A fl p" "n_pages p < 2 ^ 18" "calls_inv p A fl p"
  using assms by (auto simp: frames_exact_def calls_inv_def)

lemma calls_inv_moved: "calls_inv p A fl p' \<Longrightarrow> n_pages p < 2 ^ 18 \<Longrightarrow> frames_exact A p'"
  by (auto simp: calls_inv_def frames_exact_def)

lemma frames_exact_alloc:
  assumes "frames_exact A p" and "page_alloc ord fg p = Some (Some t, p')"
  shows "frames_exact (insert (t, unat ord) A) p'" and "(t, unat ord) \<notin> A" and "span (t, unat ord) \<inter> cover A = {}"
    and "span (t, unat ord) \<subseteq> valid_pages p" and "n_pages p' = n_pages p" and "valid_pages p' = valid_pages p" and "t + 2 ^ unat ord \<le> n_pages p"
proof -
  obtain fl where fl: "buddy_ok A fl p" "n_pages p < 2 ^ 18" "calls_inv p A fl p" by (rule frames_exactD [OF assms(1)])
  obtain fl' where fl': "take_block (unat ord) fl = Some (t, fl')" "calls_inv p (insert (t, unat ord) A) fl' p'"
    using alloc_keeps_inv [OF fl(3) assms(2)] by blast
  have wf: "buddy_wf (n_pages p) (valid_pages p) (insert (t, unat ord) A) fl'" "(t, unat ord) \<notin> A"
    using take_block_wf [OF _ fl'(1)] fl(1) by (auto simp: buddy_ok_def)
  show "frames_exact (insert (t, unat ord) A) p'" using calls_inv_moved [OF fl'(2) fl(2)] .
  show "n_pages p' = n_pages p" "valid_pages p' = valid_pages p" using fl'(2) by (simp_all add: calls_inv_def)
  show "(t, unat ord) \<notin> A" by (rule wf(2))
  show "span (t, unat ord) \<inter> cover A = {}" "span (t, unat ord) \<subseteq> valid_pages p" using wf_block_pages(3,4) [OF wf] by blast+
  show "t + 2 ^ unat ord \<le> n_pages p" using wf_block_placed [OF wf(1)] by (simp add: well_placed_def)
qed

lemma frames_exact_none: "frames_exact A p \<Longrightarrow> page_alloc ord fg p = Some (None, p') \<Longrightarrow> p' = p"
  using page_alloc_noneD(1) by (metis frames_exactD)

lemma frames_exact_free:
  assumes "frames_exact A p" and "(b, k) \<in> A" and "\<not> critical_page img b"
  shows "\<exists>p'. page_free img (Some b) (of_nat k) p = Some (E_SUCCESS, p') \<and> frames_exact (A - {(b, k)}) p' \<and>
    n_pages p' = n_pages p \<and> valid_pages p' = valid_pages p"
proof -
  obtain fl where fl: "n_pages p < 2 ^ 18" "calls_inv p A fl p" by (rule frames_exactD [OF assms(1)])
  from free_keeps_inv [OF fl(2) assms(2,3)] obtain p' where p': "page_free img (Some b) (of_nat k) p = Some (E_SUCCESS, p')"
    "calls_inv p (A - {(b, k)}) (give_block b k fl) p'" by blast
  then show ?thesis using calls_inv_moved [OF p'(2) fl(1)] by (auto simp: calls_inv_def)
qed

lemma frames_exact_page: "frames_exact A p \<Longrightarrow> (t, k) \<in> A \<Longrightarrow> t < 2 ^ 18 \<and> t < n_pages p \<and> t \<in> valid_pages p"
proof -
  assume p: "frames_exact A p" and t: "(t, k) \<in> A"
  obtain fl where fl: "buddy_ok A fl p" "n_pages p < 2 ^ 18" by (rule frames_exactD [OF p])
  have wf: "buddy_wf (n_pages p) (valid_pages p) A fl" using fl(1) by (simp add: buddy_ok_def)
  then have "cover A \<subseteq> valid_pages p" unfolding buddy_wf_def by (auto simp: cover_def)
  then show ?thesis using wf_heads_covered [OF wf t] fl(2) by auto
qed

lemma frames_held_owns: "frames_held B S p \<Longrightarrow> palloc_owns S p"
proof -
  assume h: "frames_held B S p"
  obtain fl where fl: "buddy_ok (B \<union> slab_blocks S) fl p" "n_pages p < 2 ^ 18"
    using h frames_exactD unfolding frames_held_def by metis
  have "\<exists>t. (t, 4) \<in> B \<union> slab_blocks S \<and> x = slab_base t" if "x \<in> S" for x
    using h that unfolding frames_held_def slab_blocks_def by blast
  then show ?thesis using fl unfolding palloc_owns_def by blast
qed

interpretation held_pages: frame_source slab_get_pages "frames_held B" for B
proof (unfold_locales, goal_cases)
  case (1 S p)
  then show ?case using kernel_pages.get_returns frames_held_owns by blast
next
  case (2 S p p')
  have "p' = p" using frames_exact_none slab_get_pages_none [OF 2(2)] 2(1) unfolding frames_held_def by blast
  with 2 show ?case by simp
next
  case (3 S p v p')
  have ex: "frames_exact (B \<union> slab_blocks S) p" "B \<inter> slab_blocks S = {}" "S \<subseteq> slab_base ` {..<2 ^ 18}" using 3(1) by (auto simp: frames_held_def)
  obtain t where t: "page_alloc 4 PR_KERNEL p = Some (Some t, p')" "t < n_pages p'" "v = PAGE_VA (page_area p' ! t)"
    using slab_get_pages_some [OF 3(2)] by blast
  note al = frames_exact_alloc [OF ex(1) t(1), unfolded unat_numeral_4]
  obtain fl where fl: "buddy_ok (insert (t, 4) (B \<union> slab_blocks S)) fl p'" "n_pages p' < 2 ^ 18" by (rule frames_exactD [OF al(1)])
  have v: "v = slab_base t" using fl(1) t(2,3) by (simp add: slab_base_def PAGE_VA_def PAGE_PA_def buddy_ok_def buddy_rep_def)
  have t18: "t < 2 ^ 18" using t(2) fl(2) by simp
  have "B \<union> slab_blocks (insert v S) = insert (t, 4) (B \<union> slab_blocks S)" "B \<inter> slab_blocks (insert v S) = {}"
    unfolding v slab_blocks_insert [OF t18] using al(2) ex(2) by auto
  then have "frames_held B (insert v S) p'" using al(1) ex(3) t18 v by (auto simp: frames_held_def)
  then show ?case using kernel_pages.get_some [OF frames_held_owns [OF 3(1)] 3(2)] by blast
qed

section \<open>The invariant of the heap\<close>

text \<open>\<open>H i\<close> are the slabs of cache \<open>i\<close>, \<open>F\<close> the free objects of each slab, \<open>S\<close> all slabs.\<close>

definition kmalloc_ok :: "(nat \<Rightarrow> u32 list) \<Rightarrow> (u32 \<Rightarrow> u32 list) \<Rightarrow> u32 set \<Rightarrow> kmalloc_state \<Rightarrow> bool" where
  "kmalloc_ok H F S s \<longleftrightarrow>
     length (slab_caches s) = 13 \<and> (\<forall>i<13. object_size (slab_caches s ! i) = 2 ^ (i + 3)) \<and>
     heap_ok S F (kmem s) \<and> (\<forall>i<13. cache_ok (slab_caches s ! i) (H i) S (kmem s)) \<and>
     (\<forall>i<13. \<forall>j<13. i \<noteq> j \<longrightarrow> set (H i) \<inter> set (H j) = {}) \<and>
     palloc_owns S (pages (kmem s))"

text \<open>The live allocations: address and size of the object.\<close>

definition allocations :: "(nat \<Rightarrow> u32 list) \<Rightarrow> (u32 \<Rightarrow> u32 list) \<Rightarrow> kmalloc_state \<Rightarrow> (u32 \<times> nat) set" where
  "allocations H F s = {(r, 2 ^ (i + 3)) | r i. i < 13 \<and> r \<in> live (slab_caches s ! i) (H i) F}"

lemma allocations_iff:
  "j < 13 \<Longrightarrow> (q, 2 ^ (j + 3)) \<in> allocations H F s \<longleftrightarrow> q \<in> live (slab_caches s ! j) (H j) F"
  by (auto simp: allocations_def)

lemma allocations_eqI:
  assumes "\<And>j q. j < 13 \<Longrightarrow> q \<in> live (slab_caches s ! j) (H j) F \<longleftrightarrow> (q, 2 ^ (j + 3)) \<in> X"
    and "\<And>q n. (q, n) \<in> X \<Longrightarrow> \<exists>j<13. n = 2 ^ (j + 3)"
  shows "allocations H F s = X"
proof -
  have "(q, n) \<in> allocations H F s \<longleftrightarrow> (q, n) \<in> X" for q n
  proof (cases "\<exists>j<13. n = 2 ^ (j + 3)")
    case True
    then obtain j where j: "j < 13" "n = 2 ^ (j + 3)" by blast
    show ?thesis unfolding j(2) using allocations_iff [OF j(1), of q H F s] assms(1) [OF j(1), of q] by simp
  next
    case False
    then have "(q, n) \<notin> X" using assms(2) by blast
    moreover have "(q, n) \<notin> allocations H F s" using False by (auto simp: allocations_def)
    ultimately show ?thesis by simp
  qed
  then show ?thesis by auto
qed

definition bytes_of :: "u32 \<times> nat \<Rightarrow> nat set" where
  "bytes_of a = {unat (fst a)..<unat (fst a) + snd a}"

lemma unat_cache_size: "i < 13 \<Longrightarrow> unat (2 ^ (i + 3) :: u32) = 2 ^ (i + 3)"
  by (rule unat_power2) simp

lemma kmalloc_okD:
  assumes "kmalloc_ok H F S s" and "i < 13"
  shows "heap_ok S F (kmem s)" and "cache_ok (slab_caches s ! i) (H i) S (kmem s)"
    and "object_size (slab_caches s ! i) = 2 ^ (i + 3)" and "length (slab_caches s) = 13"
    and "palloc_owns S (pages (kmem s))"
  using assms by (simp_all add: kmalloc_ok_def)

lemma live_slab:
  assumes ok: "kmalloc_ok H F S s" and i: "i < 13" and r: "r \<in> live (slab_caches s ! i) (H i) F"
  obtains x where "x \<in> set (H i)" and "x \<in> S" and "slab_place x" and "r \<in> set (slab_objs x (2 ^ (i + 3)))"
    and "bytes_of (r, 2 ^ (i + 3)) \<subseteq> slab_bytes x"
proof -
  note k = kmalloc_okD [OF ok i]
  obtain x where x: "x \<in> set (H i)" "r \<in> set (slab_objs x (2 ^ (i + 3)))" using r k(3) by (auto simp: live_def)
  have xS: "x \<in> S" using k(2) x(1) by (auto simp: cache_ok_def)
  have px: "slab_place x" using heap_okD [OF k(1) xS] by (simp add: slab_ok_def)
  have "bytes_of (r, 2 ^ (i + 3)) \<subseteq> slab_bytes x"
    using slab_obj_bytes(1,2) [OF px x(2)] unat_cache_size [OF i] by (auto simp: bytes_of_def slab_bytes_def)
  with x xS px show thesis using that by blast
qed

text \<open>Two different live allocations never share a byte.\<close>

lemma allocations_disjoint:
  assumes ok: "kmalloc_ok H F S s" and a: "a \<in> allocations H F s" and b: "b \<in> allocations H F s" and ne: "a \<noteq> b"
  shows "bytes_of a \<inter> bytes_of b = {}"
proof -
  obtain i r where a': "a = (r, 2 ^ (i + 3))" "i < 13" "r \<in> live (slab_caches s ! i) (H i) F"
    using a by (auto simp: allocations_def)
  obtain j q where b': "b = (q, 2 ^ (j + 3))" "j < 13" "q \<in> live (slab_caches s ! j) (H j) F"
    using b by (auto simp: allocations_def)
  obtain x where x: "x \<in> set (H i)" "x \<in> S" "slab_place x" "r \<in> set (slab_objs x (2 ^ (i + 3)))" "bytes_of a \<subseteq> slab_bytes x"
    using live_slab [OF ok a'(2,3)] a'(1) by blast
  obtain y where y: "y \<in> set (H j)" "y \<in> S" "slab_place y" "q \<in> set (slab_objs y (2 ^ (j + 3)))" "bytes_of b \<subseteq> slab_bytes y"
    using live_slab [OF ok b'(2,3)] b'(1) by blast
  show ?thesis
  proof (cases "x = y")
    case False
    then have "slab_bytes x \<inter> slab_bytes y = {}"
      using kmalloc_okD(1) [OF ok a'(2)] x(2) y(2) by (simp add: heap_ok_def slabs_apart_def)
    with x(5) y(5) show ?thesis by blast
  next
    case True
    have ij: "i = j"
    proof (rule ccontr)
      assume "i \<noteq> j"
      then have "set (H i) \<inter> set (H j) = {}" using ok a'(2) b'(2) by (simp add: kmalloc_ok_def)
      with x(1) y(1) True show False by blast
    qed
    then have "r \<noteq> q" using ne a'(1) b'(1) by auto
    with slab_objs_apart [OF x(3) x(4), of q] y(4) True ij a'(1,2) b'(1) unat_cache_size [OF a'(2)]
    show ?thesis by (auto simp: bytes_of_def)
  qed
qed

section \<open>kmalloc\<close>

lemma kmalloc_cache:
  assumes ok: "kmalloc_ok H F S s"
  shows "find (\<lambda>i. sz \<le> object_size (slab_caches s ! i)) [0..<length (slab_caches s)] =
    find (\<lambda>i. unat sz \<le> 2 ^ (i + 3)) [0..<13]"
proof -
  have "sz \<le> object_size (slab_caches s ! i) \<longleftrightarrow> unat sz \<le> 2 ^ (i + 3)" if "i < 13" for i
    using kmalloc_okD(3) [OF ok that] unat_cache_size [OF that] by (simp add: word_le_nat_alt)
  then show ?thesis using ok by (intro find_cong) (auto simp: kmalloc_ok_def)
qed

lemma alloc_effect_kmalloc_ok:
  assumes ok: "kmalloc_ok H F S s" and i: "i < 13"
    and eff: "alloc_effect r (slab_caches s ! i) (H i) S F (kmem s) c' hs' S' F' m'"
    and own: "palloc_owns S' (pages m')"
    and s': "s' = s\<lparr>slab_caches := (slab_caches s)[i := c'], kmem := m'\<rparr>"
  shows "kmalloc_ok (H(i := hs')) F' S' s'"
    and "allocations (H(i := hs')) F' s' = insert (r, 2 ^ (i + 3)) (allocations H F s)"
    and "(r, 2 ^ (i + 3)) \<notin> allocations H F s"
proof -
  note k = kmalloc_okD [OF ok i]
  have e: "heap_ok S' F' m'" "cache_ok c' hs' S' m'" "object_size c' = object_size (slab_caches s ! i)"
    "r \<notin> live (slab_caches s ! i) (H i) F" "live c' hs' F' = insert r (live (slab_caches s ! i) (H i) F)"
    "S \<subseteq> S'" "set hs' \<inter> S = set (H i)"
    "\<And>x. x \<notin> set hs' \<Longrightarrow> F' x = F x \<and> headers m' x = headers (kmem s) x"
    using eff by (auto simp: alloc_effect_def)
  have HS: "set (H j) \<subseteq> S" if "j < 13" for j using kmalloc_okD(2) [OF ok that] by (simp add: cache_ok_def)
  have dj: "set (H j) \<inter> set hs' = {}" if j: "j < 13" "j \<noteq> i" for j
  proof -
    have "set (H j) \<inter> set (H i) = {}" using ok i j by (simp add: kmalloc_ok_def)
    then show ?thesis using HS [OF j(1)] e(7) by blast
  qed
  have other: "cache_ok (slab_caches s ! j) (H j) S' m'" if j: "j < 13" "j \<noteq> i" for j
  proof -
    have same: "headers m' x = headers (kmem s) x" if "x \<in> set (H j)" for x using e(8) dj [OF j] that by blast
    then have "npath (\<lambda>x. next_slab (headers m' x)) p (H j) = npath (\<lambda>x. next_slab (headers (kmem s) x)) p (H j)" for p
      by (intro npath_cong) simp
    then show ?thesis using kmalloc_okD(2) [OF ok j(1)] same e(6) by (auto simp: cache_ok_def)
  qed
  have len: "length (slab_caches s) = 13" by (rule k(4))
  show "kmalloc_ok (H(i := hs')) F' S' s'"
    unfolding s' using ok e(1,2,3) other own dj i len unfolding kmalloc_ok_def by (auto simp: nth_list_update Int_commute)
  have lo: "live (slab_caches s ! j) (H j) F' = live (slab_caches s ! j) (H j) F" if j: "j < 13" "j \<noteq> i" for j
  proof -
    have "F' x = F x" if "x \<in> set (H j)" for x using e(8) dj [OF j] that by blast
    then show ?thesis by (auto simp: live_def)
  qed
  show "allocations (H(i := hs')) F' s' = insert (r, 2 ^ (i + 3)) (allocations H F s)"
    unfolding s'
  proof (rule allocations_eqI)
    fix j q assume j: "j < (13 :: nat)"
    show "q \<in> live (slab_caches (s\<lparr>slab_caches := (slab_caches s)[i := c'], kmem := m'\<rparr>) ! j) ((H(i := hs')) j) F' \<longleftrightarrow>
        (q, 2 ^ (j + 3)) \<in> insert (r, 2 ^ (i + 3)) (allocations H F s)"
      using allocations_iff [OF j, of q H F s] e(5) lo [OF j] i len by (cases "j = i") auto
  qed (use i in \<open>auto simp: allocations_def\<close>)
  show "(r, 2 ^ (i + 3)) \<notin> allocations H F s"
    using e(4) i unfolding allocations_def by (auto dest: power_inject_exp)
qed

lemma kmalloc_run_source:
  assumes ok: "kmalloc_ok H F S s" and sz: "unat sz \<le> 32768"
    and src: "frame_source slab_get_pages owns" and own: "owns S (pages (kmem s))" and imp: "\<forall>S p. owns S p \<longrightarrow> palloc_owns S p"
  shows "\<exists>i. i < 13 \<and> find (\<lambda>i. unat sz \<le> 2 ^ (i + 3)) [0..<13] = Some i \<and>
    ((\<exists>ps. kmalloc sz s = Some (0, s\<lparr>kmem := (kmem s)\<lparr>pages := ps\<rparr>\<rparr>) \<and>
        slab_get_pages (pages (kmem s)) = Some (None, ps) \<and> owns S ps) \<or>
     (\<exists>r s' H' F' S'. kmalloc sz s = Some (r, s') \<and> r \<noteq> 0 \<and> kmalloc_ok H' F' S' s' \<and> owns S' (pages (kmem s')) \<and>
        allocations H' F' s' = insert (r, 2 ^ (i + 3)) (allocations H F s) \<and>
        (r, 2 ^ (i + 3)) \<notin> allocations H F s))"
proof -
  have "find (\<lambda>i. unat sz \<le> 2 ^ (i + 3)) [0..<13] \<noteq> None"
    unfolding find_upt_None using sz by (auto intro!: exI [of _ 12])
  then obtain i where f: "find (\<lambda>i. unat sz \<le> 2 ^ (i + 3)) [0..<13] = Some i" by blast
  then have i: "i < 13" using find_upt_SomeD [OF f] by simp
  note k = kmalloc_okD [OF ok i]
  have fc: "find (\<lambda>i. sz \<le> object_size (slab_caches s ! i)) [0..<length (slab_caches s)] = Some i"
    using kmalloc_cache [OF ok, of sz] f by simp
  from frame_source.slab_malloc_ok [OF src k(1,2) own, of 0] show ?thesis
  proof (elim disjE exE conjE)
    fix ps
    assume r: "slab_malloc slab_get_pages (slab_caches s ! i) 0 (kmem s) = Some (0, slab_caches s ! i, (kmem s)\<lparr>pages := ps\<rparr>)"
      and g: "slab_get_pages (pages (kmem s)) = Some (None, ps)" "owns S ps"
    have "kmalloc sz s = Some (0, s\<lparr>kmem := (kmem s)\<lparr>pages := ps\<rparr>\<rparr>)"
      using fc r by (simp add: kmalloc_def)
    with f i g show ?thesis by blast
  next
    fix r c' m' hs' S' F'
    assume r: "slab_malloc slab_get_pages (slab_caches s ! i) 0 (kmem s) = Some (r, c', m')" "r \<noteq> 0"
      and e: "alloc_effect r (slab_caches s ! i) (H i) S F (kmem s) c' hs' S' F' m'" "owns S' (pages m')"
    let ?s = "s\<lparr>slab_caches := (slab_caches s)[i := c'], kmem := m'\<rparr>"
    have run: "kmalloc sz s = Some (r, ?s)" using fc r by (simp add: kmalloc_def)
    moreover have "owns S' (pages (kmem ?s))" using e(2) by simp
    ultimately show ?thesis using f i r(2) alloc_effect_kmalloc_ok [OF ok i e(1) imp [rule_format, OF e(2)] refl] by blast
  qed
qed

lemma kmalloc_run:
  assumes ok: "kmalloc_ok H F S s" and sz: "unat sz \<le> 32768"
  shows "\<exists>i. i < 13 \<and> find (\<lambda>i. unat sz \<le> 2 ^ (i + 3)) [0..<13] = Some i \<and>
    ((\<exists>ps. kmalloc sz s = Some (0, s\<lparr>kmem := (kmem s)\<lparr>pages := ps\<rparr>\<rparr>) \<and>
        slab_get_pages (pages (kmem s)) = Some (None, ps) \<and> palloc_owns S ps) \<or>
     (\<exists>r s' H' F' S'. kmalloc sz s = Some (r, s') \<and> r \<noteq> 0 \<and> kmalloc_ok H' F' S' s' \<and>
        allocations H' F' s' = insert (r, 2 ^ (i + 3)) (allocations H F s) \<and>
        (r, 2 ^ (i + 3)) \<notin> allocations H F s))"
proof -
  have "palloc_owns S (pages (kmem s))" using ok by (simp add: kmalloc_ok_def)
  from kmalloc_run_source [OF ok sz kernel_pages.frame_source_axioms this] show ?thesis by fast
qed

text \<open>With the other blocks in view: \<^verbatim>\<open>kmalloc\<close> changes nothing when it fails, and leaves the blocks of everyone else alone.\<close>

lemma kmalloc_held:
  assumes ok: "kmalloc_ok H F S s" and sz: "unat sz \<le> 32768" and held: "frames_held B S (pages (kmem s))"
  shows "\<exists>i. i < 13 \<and> find (\<lambda>i. unat sz \<le> 2 ^ (i + 3)) [0..<13] = Some i \<and>
    (kmalloc sz s = Some (0, s) \<and> slab_get_pages (pages (kmem s)) = Some (None, pages (kmem s)) \<or>
     (\<exists>r s' H' F' S'. kmalloc sz s = Some (r, s') \<and> r \<noteq> 0 \<and> kmalloc_ok H' F' S' s' \<and> frames_held B S' (pages (kmem s')) \<and>
        allocations H' F' s' = insert (r, 2 ^ (i + 3)) (allocations H F s) \<and>
        (r, 2 ^ (i + 3)) \<notin> allocations H F s))"
proof -
  have none: "ps = pages (kmem s)" if "slab_get_pages (pages (kmem s)) = Some (None, ps)" for ps
    using frames_exact_none slab_get_pages_none [OF that] held unfolding frames_held_def by blast
  have same: "s\<lparr>kmem := (kmem s)\<lparr>pages := pages (kmem s)\<rparr>\<rparr> = s" by simp
  have "\<forall>S p. frames_held B S p \<longrightarrow> palloc_owns S p" using frames_held_owns by blast
  from kmalloc_run_source [OF ok sz held_pages.frame_source_axioms held this] show ?thesis
  proof (elim exE conjE disjE)
    fix i ps assume i: "i < 13" "find (\<lambda>i. unat sz \<le> 2 ^ (i + 3)) [0..<13] = Some i"
      and k: "kmalloc sz s = Some (0, s\<lparr>kmem := (kmem s)\<lparr>pages := ps\<rparr>\<rparr>)" "slab_get_pages (pages (kmem s)) = Some (None, ps)"
    from k [unfolded none [OF k(2)] same] i show ?thesis by blast
  qed blast
qed

section \<open>kfree\<close>

lemma slab_cache_has_addr_ok:
  assumes ok: "heap_ok S F s" and c: "cache_ok c hs S s"
  shows "slab_cache_has_addr c a s =
    Some (if \<exists>x\<in>set hs. unat x + 40 \<le> unat a \<and> unat a < unat x + 65536 then 1 else 0)"
proof -
  have p: "npath (\<lambda>x. next_slab (headers s x)) (first_slab c) hs" using c by (simp add: cache_ok_def)
  have "(a \<ge> sh_start_addr (headers s x) \<and> a < sh_end_addr (headers s x)) \<longleftrightarrow>
      unat x + 40 \<le> unat a \<and> unat a < unat x + 65536" if x: "x \<in> set hs" for x
  proof -
    have "slab_ok s x (F x)" using ok c x by (auto simp: heap_ok_def cache_ok_def)
    then have "unat (x + 40) = unat x + 40" "unat (x + 65536) = unat x + 65536"
      and "sh_start_addr (headers s x) = x + 40" "sh_end_addr (headers s x) = x + 65536"
      by (simp_all add: slab_ok_def slab_place_def unat_word_ariths)
    then show ?thesis by (simp add: word_le_nat_alt word_less_nat_alt)
  qed
  then have eq: "find (\<lambda>x. a \<ge> sh_start_addr (headers s x) \<and> a < sh_end_addr (headers s x)) hs =
      find (\<lambda>x. unat x + 40 \<le> unat a \<and> unat a < unat x + 65536) hs" (is "_ = ?f") by (intro find_cong) auto
  show ?thesis
  proof (cases ?f)
    case None
    then have "\<not> (\<exists>x\<in>set hs. unat x + 40 \<le> unat a \<and> unat a < unat x + 65536)" by (auto simp: find_None_iff)
    then show ?thesis
      unfolding slab_cache_has_addr_def find_slab_path [OF p] eq None by (simp only: if_False) simp
  next
    case (Some x)
    from find_SomeD [OF this] have x: "x \<in> set hs" "unat x + 40 \<le> unat a \<and> unat a < unat x + 65536" by simp_all
    then have "x \<noteq> 0" using npath_nz [OF p] by auto
    with x show ?thesis unfolding slab_cache_has_addr_def find_slab_path [OF p] eq Some by auto
  qed
qed

lemma kfree_loop_skip:
  assumes "\<And>j. j \<in> set js \<Longrightarrow> j < length (slab_caches s) \<and> slab_cache_has_addr (slab_caches s ! j) a (kmem s) = Some 0"
  shows "kfree_loop (js @ is) a s = kfree_loop is a s"
  using assms
proof (induction js)
  case (Cons j js)
  then have "j < length (slab_caches s)" "slab_cache_has_addr (slab_caches s ! j) a (kmem s) = Some 0" by simp_all
  moreover have "kfree_loop (js @ is) a s = kfree_loop is a s" using Cons by simp
  ultimately show ?case by simp
qed simp

text \<open>The address range of a slab decides which cache an address belongs to.\<close>

lemma owner_unique:
  assumes ok: "kmalloc_ok H F S s" and i: "i < 13" "j < 13" and x: "x \<in> set (H i)" "y \<in> set (H j)"
    and a: "a \<in> slab_bytes x" "a \<in> slab_bytes y"
  shows "i = j \<and> x = y"
proof -
  have "x \<in> S" "y \<in> S" using kmalloc_okD(2) [OF ok] i x by (auto simp: cache_ok_def)
  then have "x = y" using kmalloc_okD(1) [OF ok i(1)] a by (auto simp: heap_ok_def slabs_apart_def)
  moreover have "i = j"
  proof (rule ccontr)
    assume "i \<noteq> j"
    then have "set (H i) \<inter> set (H j) = {}" using ok i by (simp add: kmalloc_ok_def)
    with x \<open>x = y\<close> show False by blast
  qed
  ultimately show ?thesis by simp
qed

lemma kfree_run:
  assumes ok: "kmalloc_ok H F S s" and i: "i < 13" and r: "r \<in> live (slab_caches s ! i) (H i) F"
  obtains s' F' where "kfree r s = Some (E_SUCCESS, s')" and "kmalloc_ok H F' S s'"
    and "allocations H F' s' = allocations H F s - {(r, 2 ^ (i + 3))}"
proof -
  note k = kmalloc_okD [OF ok i]
  obtain x where x: "x \<in> set (H i)" "slab_place x" "r \<in> set (slab_objs x (2 ^ (i + 3)))"
    using live_slab [OF ok i r] by blast
  have rb: "unat x + 40 \<le> unat r" "unat r < unat x + 65536"
    using slab_obj_bytes(1,3) [OF x(2,3)] by (auto simp: slab_bytes_def)
  have no: "slab_cache_has_addr (slab_caches s ! j) r (kmem s) = Some 0" if j: "j < 13" "j < i" for j
  proof -
    have "\<not> (\<exists>y\<in>set (H j). unat y + 40 \<le> unat r \<and> unat r < unat y + 65536)"
      using owner_unique [OF ok i j(1) x(1)] rb j(2) by (fastforce simp: slab_bytes_def)
    then show ?thesis using slab_cache_has_addr_ok [OF kmalloc_okD(1,2) [OF ok j(1)], of r] by simp
  qed
  have yes: "slab_cache_has_addr (slab_caches s ! i) r (kmem s) = Some 1"
    using slab_cache_has_addr_ok [OF k(1,2), of r] x(1) rb by auto
  obtain m' F' where f: "slab_free (slab_caches s ! i) r (kmem s) = Some (E_SUCCESS, m')" "heap_ok S F' m'"
    "cache_ok (slab_caches s ! i) (H i) S m'" "live (slab_caches s ! i) (H i) F' = live (slab_caches s ! i) (H i) F - {r}"
    "pages m' = pages (kmem s)" "\<And>y. y \<notin> set (H i) \<Longrightarrow> F' y = F y \<and> headers m' y = headers (kmem s) y"
    using slab_free_ok [OF k(1,2) r] by blast
  let ?s' = "s\<lparr>kmem := m'\<rparr>"
  have "[0..<13] = [0..<i] @ [i..<13]" using upt_add_eq_append [of 0 i "13 - i"] i by simp
  then have "[0..<13] = [0..<i] @ i # [Suc i..<13]" using i by (simp add: upt_conv_Cons)
  then have run: "kfree r s = Some (E_SUCCESS, ?s')"
    unfolding kfree_def using kfree_loop_skip [of "[0..<i]" s r "i # [Suc i..<13]"] no i k(4) yes f(1) by auto
  have dj: "set (H j) \<inter> set (H i) = {}" if "j < 13" "j \<noteq> i" for j using ok i that by (simp add: kmalloc_ok_def)
  have "cache_ok (slab_caches s ! j) (H j) S m'" if j: "j < 13" "j \<noteq> i" for j
  proof -
    have same: "headers m' x = headers (kmem s) x" if "x \<in> set (H j)" for x using f(6) dj [OF j] that by blast
    then have "npath (\<lambda>x. next_slab (headers m' x)) p (H j) = npath (\<lambda>x. next_slab (headers (kmem s) x)) p (H j)" for p
      by (intro npath_cong) simp
    then show ?thesis using kmalloc_okD(2) [OF ok j(1)] same by (auto simp: cache_ok_def)
  qed
  then have "\<forall>j<13. cache_ok (slab_caches s ! j) (H j) S m'" using f(3) by metis
  then have ok': "kmalloc_ok H F' S ?s'" using ok f(2,5) by (simp add: kmalloc_ok_def)
  have lo: "live (slab_caches s ! j) (H j) F' = live (slab_caches s ! j) (H j) F" if j: "j < 13" "j \<noteq> i" for j
  proof -
    have "F' x = F x" if "x \<in> set (H j)" for x using f(6) dj [OF j] that by blast
    then show ?thesis by (auto simp: live_def)
  qed
  have "allocations H F' ?s' = allocations H F s - {(r, 2 ^ (i + 3))}"
  proof (rule allocations_eqI)
    fix j q assume j: "j < (13 :: nat)"
    show "q \<in> live (slab_caches ?s' ! j) (H j) F' \<longleftrightarrow> (q, 2 ^ (j + 3)) \<in> allocations H F s - {(r, 2 ^ (i + 3))}"
      using allocations_iff [OF j, of q H F s] f(4) lo [OF j] by (cases "j = i") auto
  qed (auto simp: allocations_def)
  with run ok' show thesis using that by blast
qed

text \<open>Every outcome of \<^verbatim>\<open>kmalloc\<close>, with the cache that serves the request.\<close>

lemma kmalloc_outcome:
  assumes ok: "kmalloc_ok H F S s" and sz: "unat sz \<le> 32768"
  shows "\<exists>i r s' H' F' S'. i < 13 \<and> find (\<lambda>i. unat sz \<le> 2 ^ (i + 3)) [0..<13] = Some i \<and>
    kmalloc sz s = Some (r, s') \<and> kmalloc_ok H' F' S' s' \<and>
    (if r = 0 then allocations H' F' s' = allocations H F s \<and>
       (\<exists>ps. slab_get_pages (pages (kmem s)) = Some (None, ps))
     else allocations H' F' s' = insert (r, 2 ^ (i + 3)) (allocations H F s) \<and>
       (\<forall>a\<in>allocations H F s. bytes_of (r, 2 ^ (i + 3)) \<inter> bytes_of a = {}))"
proof -
  from kmalloc_run [OF ok sz] obtain i where i: "i < 13"
    and f: "find (\<lambda>i. unat sz \<le> 2 ^ (i + 3)) [0..<13] = Some i"
    and res: "(\<exists>ps. kmalloc sz s = Some (0, s\<lparr>kmem := (kmem s)\<lparr>pages := ps\<rparr>\<rparr>) \<and>
        slab_get_pages (pages (kmem s)) = Some (None, ps) \<and> palloc_owns S ps) \<or>
     (\<exists>r s' H' F' S'. kmalloc sz s = Some (r, s') \<and> r \<noteq> 0 \<and> kmalloc_ok H' F' S' s' \<and>
        allocations H' F' s' = insert (r, 2 ^ (i + 3)) (allocations H F s) \<and>
        (r, 2 ^ (i + 3)) \<notin> allocations H F s)" by blast
  from res show ?thesis
  proof (elim disjE exE conjE)
    fix ps
    assume r: "kmalloc sz s = Some (0, s\<lparr>kmem := (kmem s)\<lparr>pages := ps\<rparr>\<rparr>)"
      "slab_get_pages (pages (kmem s)) = Some (None, ps)" "palloc_owns S ps"
    have "heap_ok S F ((kmem s)\<lparr>pages := ps\<rparr>) = heap_ok S F (kmem s)"
      and "cache_ok c hs S ((kmem s)\<lparr>pages := ps\<rparr>) = cache_ok c hs S (kmem s)" for c hs
      by (simp_all add: heap_ok_def slab_ok_def cache_ok_def)
    then have "kmalloc_ok H F S (s\<lparr>kmem := (kmem s)\<lparr>pages := ps\<rparr>\<rparr>)"
      using ok r(3) by (simp add: kmalloc_ok_def)
    moreover have "allocations H F (s\<lparr>kmem := (kmem s)\<lparr>pages := ps\<rparr>\<rparr>) = allocations H F s"
      by (simp add: allocations_def)
    ultimately show ?thesis using r i f by auto
  next
    fix r s' H' F' S'
    assume r: "kmalloc sz s = Some (r, s')" "r \<noteq> 0" "kmalloc_ok H' F' S' s'"
      "allocations H' F' s' = insert (r, 2 ^ (i + 3)) (allocations H F s)" "(r, 2 ^ (i + 3)) \<notin> allocations H F s"
    have "bytes_of (r, 2 ^ (i + 3)) \<inter> bytes_of a = {}" if a: "a \<in> allocations H F s" for a
      using allocations_disjoint [OF r(3), of "(r, 2 ^ (i + 3))" a] r(4,5) a by auto
    then have "\<forall>a\<in>allocations H F s. bytes_of (r, 2 ^ (i + 3)) \<inter> bytes_of a = {}" by blast
    then show ?thesis using r i f
      by (intro exI [of _ i] exI [of _ r] exI [of _ s'] exI [of _ H'] exI [of _ F'] exI [of _ S']) (simp only: if_False simp_thms)
  qed
qed

text \<open>A request for exactly the size of a cache.\<close>

lemma kmalloc_exact:
  assumes ok: "kmalloc_ok H F S s" and j: "unat sz = 2 ^ (j + 3)" "j < 13"
  shows "\<exists>r s' H' F' S'. kmalloc sz s = Some (r, s') \<and> kmalloc_ok H' F' S' s' \<and>
    (if r = 0 then allocations H' F' s' = allocations H F s \<and>
       (\<exists>ps. slab_get_pages (pages (kmem s)) = Some (None, ps))
     else allocations H' F' s' = insert (r, unat sz) (allocations H F s) \<and>
       (\<forall>a\<in>allocations H F s. bytes_of (r, unat sz) \<inter> bytes_of a = {}))"
proof -
  have "(2 :: nat) ^ (j + 3) \<le> 2 ^ 15" using j(2) by (intro power_increasing) simp_all
  then have "unat sz \<le> 32768" using j(1) by simp
  from kmalloc_outcome [OF ok this] obtain i r s' H' F' S' where
    i: "i < 13" "find (\<lambda>i. unat sz \<le> 2 ^ (i + 3)) [0..<13] = Some i" and
    res: "kmalloc sz s = Some (r, s')" "kmalloc_ok H' F' S' s'"
      "if r = 0 then allocations H' F' s' = allocations H F s \<and> (\<exists>ps. slab_get_pages (pages (kmem s)) = Some (None, ps))
       else allocations H' F' s' = insert (r, 2 ^ (i + 3)) (allocations H F s) \<and>
         (\<forall>a\<in>allocations H F s. bytes_of (r, 2 ^ (i + 3)) \<inter> bytes_of a = {})" by blast
  have "j \<le> i" using find_upt_SomeD [OF i(2)] j(1) by simp
  moreover have "\<not> j < i" using find_upt_SomeD [OF i(2)] j by auto
  ultimately have "2 ^ (i + 3) = unat sz" using j(1) by simp
  then show ?thesis using res by metis
qed

section \<open>The initial heap\<close>

definition kmalloc_init :: "buddy_allocator \<Rightarrow> kmalloc_state" where
  "kmalloc_init p = \<lparr>slab_caches = kmalloc_caches,
     kmem = \<lparr>headers = (\<lambda>_. \<lparr>next_slab = 0, sh_start_addr = 0, sh_end_addr = 0, object_count = 0,
        sh_object_size = 0, sh_free_count = 0, page_order = 0, free_list = 0\<rparr>),
        obj_next = (\<lambda>_. 0), pages = p\<rparr>\<rparr>"

lemma kmalloc_caches_nth:
  assumes "i < 13"
  shows "object_size (kmalloc_caches ! i) = 2 ^ (i + 3)" and "first_slab (kmalloc_caches ! i) = 0"
proof -
  have "i \<in> {0, 1, 2, 3, 4, 5, 6, 7, 8, 9, 10, 11, 12}"
    using assms unfolding insert_iff empty_iff by presburger
  then show "object_size (kmalloc_caches ! i) = 2 ^ (i + 3)" and "first_slab (kmalloc_caches ! i) = 0"
    by (auto simp: kmalloc_caches_def INIT_SLAB_CACHE_def)
qed

lemma kmalloc_init_ok:
  assumes "palloc_owns {} p"
  shows "kmalloc_ok (\<lambda>_. []) (\<lambda>_. []) {} (kmalloc_init p)"
proof -
  have "size_ok (2 ^ (i + 3))" if "i < 13" for i
  proof -
    have "(2 :: nat) ^ (i + 3) \<le> 2 ^ 15" "(2 :: nat) ^ 2 \<le> 2 ^ (i + 3)" using that by (intro power_increasing; simp)+
    then show ?thesis unfolding size_ok_def unat_cache_size [OF that] by simp
  qed
  then show ?thesis using assms kmalloc_caches_nth
    by (simp add: kmalloc_ok_def kmalloc_init_def heap_ok_def slabs_apart_def cache_ok_def kmalloc_caches_def)
qed

lemma allocations_init: "allocations (\<lambda>_. []) F s = {}"
  by (simp add: allocations_def live_def)

lemma sample_owns: "palloc_owns {} sample_free"
  unfolding palloc_owns_def using sample_free_ok by (intro exI [of _ "{}"] exI [of _ sample_lists]) (simp add: sample_free_def)

section \<open>Properties\<close>

text \<open>
  C5. Every request up to 32 KiB is answered: \<^verbatim>\<open>kmalloc\<close> returns either NULL, when the page
  allocator has no block for a new slab (then no allocation changes), or an object at least as
  large as the request and, above the smallest cache, less than twice as large, that shares no
  byte with any live allocation. The invariant of all caches, slabs and free lists is kept and
  the live allocations grow by exactly this object.
\<close>

theorem kmalloc_allocates:
  assumes ok: "kmalloc_ok H F S s" and sz: "unat sz \<le> 32768"
  shows "\<exists>r s' H' F' S'. kmalloc sz s = Some (r, s') \<and> kmalloc_ok H' F' S' s' \<and>
    (if r = 0 then allocations H' F' s' = allocations H F s \<and>
       (\<exists>ps. slab_get_pages (pages (kmem s)) = Some (None, ps))
     else \<exists>n. unat sz \<le> n \<and> (n = 8 \<or> n < 2 * unat sz) \<and>
       allocations H' F' s' = insert (r, n) (allocations H F s) \<and>
       (\<forall>a\<in>allocations H F s. bytes_of (r, n) \<inter> bytes_of a = {}))"
proof -
  from kmalloc_outcome [OF ok sz] obtain i r s' H' F' S' where
    f: "find (\<lambda>i. unat sz \<le> 2 ^ (i + 3)) [0..<13] = Some i" and
    res: "kmalloc sz s = Some (r, s')" "kmalloc_ok H' F' S' s'"
      "if r = 0 then allocations H' F' s' = allocations H F s \<and> (\<exists>ps. slab_get_pages (pages (kmem s)) = Some (None, ps))
       else allocations H' F' s' = insert (r, 2 ^ (i + 3)) (allocations H F s) \<and>
         (\<forall>a\<in>allocations H F s. bytes_of (r, 2 ^ (i + 3)) \<inter> bytes_of a = {})" by blast
  have fit: "unat sz \<le> 2 ^ (i + 3)" using find_upt_SomeD [OF f] by simp
  have "(2 :: nat) ^ (i + 3) = 8 \<or> 2 ^ (i + 3) < 2 * unat sz"
  proof (cases i)
    case (Suc j)
    then have "\<not> unat sz \<le> 2 ^ (j + 3)" using find_upt_SomeD [OF f] by simp
    moreover have "(2 :: nat) ^ (i + 3) = 2 * 2 ^ (j + 3)" by (simp only: Suc add_Suc power_Suc)
    ultimately show ?thesis by linarith
  qed simp
  with fit res show ?thesis
    by (intro exI [of _ r] exI [of _ s'] exI [of _ H'] exI [of _ F'] exI [of _ S'])
      (auto intro: exI [of _ "2 ^ (i + 3)"])
qed

lemma sample_pages_available: "\<not> slab_get_pages sample_free = Some (None, ps)"
proof
  assume "slab_get_pages sample_free = Some (None, ps)"
  from page_alloc_noneD(2) [OF sample_free_ok slab_get_pages_none [OF this]] sample_take show False by simp
qed

theorem kmalloc_allocates_witness:
  "\<exists>r s' H' F' S' n. kmalloc 60 (kmalloc_init sample_free) = Some (r, s') \<and> r \<noteq> 0 \<and>
     kmalloc_ok H' F' S' s' \<and> allocations H' F' s' = {(r, n)} \<and> 60 \<le> n \<and> n < 120"
proof -
  have u: "unat (60 :: u32) = 60" by simp
  have "unat (60 :: u32) \<le> 32768" by simp
  from kmalloc_allocates [OF kmalloc_init_ok [OF sample_owns] this, unfolded u] obtain r s' H' F' S'
    where r: "kmalloc 60 (kmalloc_init sample_free) = Some (r, s')" "kmalloc_ok H' F' S' s'"
      "if r = 0 then allocations H' F' s' = allocations (\<lambda>_. []) (\<lambda>_. []) (kmalloc_init sample_free) \<and>
         (\<exists>ps. slab_get_pages (pages (kmem (kmalloc_init sample_free))) = Some (None, ps))
       else \<exists>n. 60 \<le> n \<and> (n = 8 \<or> n < 2 * 60) \<and>
         allocations H' F' s' = insert (r, n) (allocations (\<lambda>_. []) (\<lambda>_. []) (kmalloc_init sample_free)) \<and>
         (\<forall>a\<in>allocations (\<lambda>_. []) (\<lambda>_. []) (kmalloc_init sample_free). bytes_of (r, n) \<inter> bytes_of a = {})"
    by blast
  have "r \<noteq> 0" using r(3) sample_pages_available by (auto simp: kmalloc_init_def)
  with r show ?thesis by (auto simp: allocations_init)
qed

text \<open>
  \<^verbatim>\<open>kfree\<close> undoes an allocation: for the address of any live allocation it returns success,
  the live allocations lose exactly that one, and the invariant is kept.
\<close>

lemma kfree_releases:
  assumes "kmalloc_ok H F S s" and "(r, n) \<in> allocations H F s"
  shows "\<exists>s' F'. kfree r s = Some (E_SUCCESS, s') \<and> kmalloc_ok H F' S s' \<and>
    allocations H F' s' = allocations H F s - {(r, n)}"
proof -
  obtain i where "n = 2 ^ (i + 3)" "i < 13" "r \<in> live (slab_caches s ! i) (H i) F"
    using assms(2) by (auto simp: allocations_def)
  with kfree_run [OF assms(1)] show ?thesis by metis
qed

lemma sample_allocated: "\<exists>r n s H F S. kmalloc_ok H F S s \<and> (r, n) \<in> allocations H F s"
proof -
  have "unat (60 :: u32) \<le> 32768" by simp
  from kmalloc_run [OF kmalloc_init_ok [OF sample_owns] this] show ?thesis
  proof (elim exE conjE disjE)
    fix ps assume "slab_get_pages (pages (kmem (kmalloc_init sample_free))) = Some (None, ps)"
    then show ?thesis using sample_pages_available by (simp add: kmalloc_init_def)
  qed blast
qed

lemma kfree_releases_witness:
  "\<exists>r s H F S s' F'. kmalloc_ok H F S s \<and> kfree r s = Some (E_SUCCESS, s') \<and> kmalloc_ok H F' S s'"
proof -
  obtain r n s H F S where a: "kmalloc_ok H F S s" "(r, n) \<in> allocations H F s" using sample_allocated by blast
  obtain s' F' where "kfree r s = Some (E_SUCCESS, s')" "kmalloc_ok H F' S s'"
    using kfree_releases [OF a] by (elim exE conjE)
  with a(1) show ?thesis by (intro exI conjI)
qed

text \<open>
  Requests and addresses outside the caches are refused without effect: \<^verbatim>\<open>kmalloc\<close> of more
  than 32 KiB returns NULL, and \<^verbatim>\<open>kfree\<close> of an address in no slab returns the error code.
\<close>

lemma kmalloc_kfree_refuse:
  assumes ok: "kmalloc_ok H F S s"
  shows "(unat sz > 32768 \<longrightarrow> kmalloc sz s = Some (0, s)) \<and>
    ((\<forall>x\<in>S. unat a \<notin> slab_bytes x) \<longrightarrow> kfree a s = Some (E_ERROR, s))"
proof (intro conjI impI)
  assume big: "unat sz > 32768"
  have "\<not> unat sz \<le> 2 ^ (i + 3)" if "i < 13" for i
  proof -
    have "(2 :: nat) ^ (i + 3) \<le> 2 ^ 15" using that by (intro power_increasing) auto
    with big show ?thesis by simp
  qed
  then have "find (\<lambda>i. unat sz \<le> 2 ^ (i + 3)) [0..<13] = None" unfolding find_upt_None by blast
  then show "kmalloc sz s = Some (0, s)" using kmalloc_cache [OF ok, of sz] by (simp add: kmalloc_def)
next
  assume out: "\<forall>x\<in>S. unat a \<notin> slab_bytes x"
  have "slab_cache_has_addr (slab_caches s ! j) a (kmem s) = Some 0" if j: "j < 13" for j
  proof -
    note k = kmalloc_okD [OF ok j]
    have "\<not> (\<exists>x\<in>set (H j). unat x + 40 \<le> unat a \<and> unat a < unat x + 65536)"
      using out k(2) by (fastforce simp: cache_ok_def slab_bytes_def)
    then show ?thesis using slab_cache_has_addr_ok [OF k(1,2), of a] by simp
  qed
  then show "kfree a s = Some (E_ERROR, s)"
    using kfree_loop_skip [of "[0..<13]" s a "[]"] ok by (simp add: kfree_def kmalloc_ok_def)
qed

lemma kmalloc_kfree_refuse_witness:
  "kmalloc 40000 (kmalloc_init sample_free) = Some (0, kmalloc_init sample_free) \<and>
   kfree 0xC0001000 (kmalloc_init sample_free) = Some (E_ERROR, kmalloc_init sample_free)"
  using kmalloc_kfree_refuse [OF kmalloc_init_ok [OF sample_owns], of 40000 "0xC0001000"] by simp

text \<open>
  A double free corrupts the slab: freeing an object that is already on the free list
  reports success and makes the object its own successor, so the list no longer ends.
\<close>

lemma slab_free_double_free_cycle:
  assumes ok: "heap_ok S F s" and c: "cache_ok c hs S s" and x: "x \<in> set hs" and obj: "obj \<in> set (F x)"
  shows "\<exists>s'. slab_free c obj s = Some (E_SUCCESS, s') \<and> obj_next s' obj = obj"
proof -
  have xS: "x \<in> S" using c x by (auto simp: cache_ok_def)
  note sx = heap_okD [OF ok xS]
  have hsz: "sh_object_size (headers s x) = object_size c" using c x by (simp add: cache_ok_def)
  have pth: "npath (obj_next s) (free_list (headers s x)) (F x)" and srt: "sorted_wrt (<) (F x)"
    and oo: "obj \<in> set (slab_objs x (object_size c))" and x0: "x \<noteq> 0"
    using sx obj hsz by (auto simp: slab_ok_def slab_place_def)
  obtain us vs where F: "F x = (us @ [obj]) @ vs" using obj by (auto dest: split_list)
  have le: "u \<le> obj" if "u \<in> set (us @ [obj])" for u
    using srt that unfolding F by (auto simp: sorted_wrt_append)
  have gt: "obj < head0 vs" if "vs \<noteq> []" using srt that unfolding F by (cases vs) (auto simp: sorted_wrt_append)
  have "free_position (obj_next s) obj 0 (free_list (headers s x)) = Some (obj, head0 vs)"
    using free_position_run [OF pth [unfolded F] le gt, of 0] by simp
  moreover have "obj \<noteq> 0" using npath_nz [OF pth] obj by auto
  ultimately show ?thesis
    using find_owner [OF ok c x oo] x0 by (simp add: slab_free_def upd_header_def)
qed

lemma slab_free_double_free_cycle_witness:
  "\<exists>c obj (s :: buddy_allocator slab_state) s'. slab_free c obj s = Some (E_SUCCESS, s') \<and> obj_next s' obj = obj"
proof -
  obtain r n s H F S where a: "kmalloc_ok H F S s" "(r, n) \<in> allocations H F s" using sample_allocated by blast
  obtain i where i: "i < 13" "r \<in> live (slab_caches s ! i) (H i) F" using a(2) by (auto simp: allocations_def)
  obtain x where x: "x \<in> set (H i)" "r \<in> set (slab_objs x (2 ^ (i + 3)))" using live_slab [OF a(1) i] by blast
  obtain s1 F1 where s1: "kmalloc_ok H F1 S s1" "allocations H F1 s1 = allocations H F s - {(r, 2 ^ (i + 3))}"
    using kfree_run [OF a(1) i] by blast
  note k = kmalloc_okD [OF s1(1) i(1)]
  have "r \<notin> live (slab_caches s1 ! i) (H i) F1" using s1(2) allocations_iff [OF i(1), of r H F1 s1] by simp
  then have "r \<in> set (F1 x)" using x k(3) by (auto simp: live_def)
  from slab_free_double_free_cycle [OF k(1,2) x(1) this] show ?thesis by blast
qed

end
