(* ===== verification/Ptable.thy ===== *)
theory Ptable
  imports Kmalloc
begin

text \<open>
  Page tables, \<^verbatim>\<open>kernel/mm/ptable.c\<close> with the x86 entry layout of
  \<^verbatim>\<open>arch/x86/include/arch/ptable.h\<close>. Memory is a store of 32-bit words by virtual address: the
  entry \<open>i\<close> of a table at address \<open>a\<close> is the word at \<open>a + 4 * i\<close>. Tables are reached through the
  kernel's linear mapping, so the physical address in an entry becomes \<^const>\<open>PHY_TO_VIR\<close> of
  it. A page that \<^verbatim>\<open>page_alloc\<close> could not give is dereferenced by the code, hence \<^term>\<open>None\<close>.
  The addresses given to \<^verbatim>\<open>invlpg\<close> are recorded.
\<close>

section \<open>State and entries\<close>

record ptable_state =
  words :: "u32 \<Rightarrow> u32"
  frames :: buddy_allocator
  invalidated :: "u32 list"

definition VM_MAP_WRITE :: u32 where [rotary_const]: "VM_MAP_WRITE = 0x02"
definition PTC_SHARE :: u32 where [rotary_const]: "PTC_SHARE = 0x01"
definition PTC_COPY :: u32 where [rotary_const]: "PTC_COPY = 0x02"

definition GET_PDE :: "u32 \<Rightarrow> u32 \<Rightarrow> u32" where
  [rotary_macro]: "GET_PDE pgd va = pgd + 4 * PAGE_DIRECTORY_INDEX va"

definition GET_PTE :: "u32 \<Rightarrow> u32 \<Rightarrow> u32" where
  [rotary_macro]: "GET_PTE pgt va = pgt + 4 * PAGE_TABLE_INDEX va"

definition PDE_TO_PGT :: "u32 \<Rightarrow> u32" where
  [rotary_macro]: "PDE_TO_PGT entry = PHY_TO_VIR (PAGE_FRAME entry)"

definition PTE_PA :: "u32 \<Rightarrow> u32" where
  [rotary_macro]: "PTE_PA entry = PAGE_FRAME entry"

definition PTE_VA :: "u32 \<Rightarrow> u32" where
  [rotary_macro]: "PTE_VA entry = PHY_TO_VIR (PAGE_FRAME entry)"

definition PDE_VA :: "u32 \<Rightarrow> u32" where
  [rotary_macro]: "PDE_VA entry = PHY_TO_VIR (PAGE_FRAME entry)"

definition PA_PAGE :: "u32 \<Rightarrow> nat" where
  [rotary_macro]: "PA_PAGE pa = page_from_pfn (PA_TO_PFN (PAGE_FRAME pa))"

definition PAGE_INC_USES :: "nat \<Rightarrow> buddy_allocator \<Rightarrow> buddy_allocator option" where
  "PAGE_INC_USES p = upd_page p (\<lambda>pg. pg\<lparr>use_count := use_count pg + 1\<rparr>)"

text \<open>Clearing and copying a page, word by word.\<close>

definition clear_page :: "u32 \<Rightarrow> (u32 \<Rightarrow> u32) \<Rightarrow> u32 \<Rightarrow> u32" where
  "clear_page va w = fold (\<lambda>i w. w(va + 4 * of_nat i := 0)) [0..<1024] w"

definition copy_page :: "u32 \<Rightarrow> u32 \<Rightarrow> (u32 \<Rightarrow> u32) \<Rightarrow> u32 \<Rightarrow> u32" where
  "copy_page dest src w = fold (\<lambda>i w. w(dest + 4 * of_nat i := w (src + 4 * of_nat i))) [0..<1024] w"

text \<open>\<^verbatim>\<open>page_alloc(0, PR_KERNEL)\<close> whose result is dereferenced.\<close>

definition alloc_frame :: "ptable_state \<Rightarrow> (page \<times> ptable_state) option" where
  "alloc_frame s = do {
     (p, fr) \<leftarrow> page_alloc 0 PR_KERNEL (frames s);
     i \<leftarrow> p;
     pg \<leftarrow> page_at i fr;
     Some (pg, s\<lparr>frames := fr\<rparr>)
   }"

definition page_alloc_va :: "ptable_state \<Rightarrow> (u32 \<times> ptable_state) option" where
  "page_alloc_va s = do { (pg, s') \<leftarrow> alloc_frame s; Some (PAGE_VA pg, s') }"

section \<open>Directories\<close>

text \<open>\<open>kpgd\<close> is the address of \<^verbatim>\<open>kernel_pgd\<close>, the result of \<^verbatim>\<open>paging_kernel_pgd\<close>.\<close>

definition ptable_pgd_new :: "u32 \<Rightarrow> ptable_state \<Rightarrow> (u32 \<times> ptable_state) option" where
  "ptable_pgd_new kpgd s = do {
     (pgd, s1) \<leftarrow> page_alloc_va s;
     (if pgd = 0 then Some (0, s1)
      else Some (pgd, s1\<lparr>words := copy_page pgd kpgd (clear_page pgd (words s1))\<rparr>))
   }"

primrec free_pages :: "kernel_image \<Rightarrow> u32 list \<Rightarrow> buddy_allocator \<Rightarrow> buddy_allocator option" where
  "free_pages img [] fr = Some fr"
| "free_pages img (va # vas) fr = do {
     (_, fr') \<leftarrow> page_free_va img va 0 fr;
     free_pages img vas fr'
   }"

text \<open>The page addresses the present entries of a table map.\<close>

definition table_pages :: "(u32 \<Rightarrow> u32) \<Rightarrow> u32 \<Rightarrow> u32 list" where
  "table_pages w pgt = map PTE_VA (filter PTE_EXISTS (map (\<lambda>i. w (pgt + 4 * of_nat i)) [0..<PAGE_TABLE_SIZE]))"

primrec free_tables :: "kernel_image \<Rightarrow> (u32 \<Rightarrow> u32) \<Rightarrow> u32 list \<Rightarrow> buddy_allocator \<Rightarrow> buddy_allocator option" where
  "free_tables img w [] fr = Some fr"
| "free_tables img w (pde # pdes) fr =
     (if \<not> PDE_EXISTS pde then free_tables img w pdes fr
      else do {
        fr1 \<leftarrow> (if PDE_IS_HUGE pde then Some fr else free_pages img (table_pages w (PDE_TO_PGT pde)) fr);
        (_, fr2) \<leftarrow> page_free_va img (PDE_VA pde) 0 fr1;
        free_tables img w pdes fr2
      })"

definition ptable_pgd_free :: "kernel_image \<Rightarrow> u32 \<Rightarrow> ptable_state \<Rightarrow> ptable_state option" where
  "ptable_pgd_free img pgd s = do {
     let pde_max = PAGE_DIRECTORY_INDEX KERNEL_START_VIRT;
     fr \<leftarrow> free_tables img (words s) (map (\<lambda>i. words s (pgd + 4 * of_nat i)) [0..<unat pde_max]) (frames s);
     (_, fr') \<leftarrow> page_free_va img pgd 0 fr;
     Some (s\<lparr>frames := fr'\<rparr>)
   }"

section \<open>Mappings\<close>

definition map_entry :: "u32 \<Rightarrow> u32 \<Rightarrow> u32" where
  "map_entry pa fl =
     (let entry = MAKE_PTE pa (PTE_PRESENT OR PTE_USER)
      in if TEST_BIT fl VM_MAP_WRITE then PTE_SET_WRITABLE entry else entry)"

definition ensure_table :: "u32 \<Rightarrow> ptable_state \<Rightarrow> ptable_state option" where
  "ensure_table pde s =
     (if \<not> PDE_EXISTS (words s pde) then do {
        (pg, s1) \<leftarrow> alloc_frame s;
        let w = clear_page (PAGE_VA pg) (words s1);
        Some (s1\<lparr>words := w(pde := MAKE_PDE (PAGE_PA pg) (PDE_PRESENT OR PDE_WRITABLE OR PDE_USER))\<rparr>)
      } else Some s)"

definition ptable_map :: "u32 \<Rightarrow> u32 \<Rightarrow> u32 \<Rightarrow> u32 \<Rightarrow> ptable_state \<Rightarrow> ptable_state option" where
  "ptable_map pgd virt_addr phys_addr fl s = do {
     let entry = map_entry phys_addr fl;
     let pde = GET_PDE pgd virt_addr;
     s1 \<leftarrow> ensure_table pde s;
     let pgt = PDE_TO_PGT (words s1 pde);
     let pte = GET_PTE pgt virt_addr;
     Some (s1\<lparr>words := (words s1)(pte := entry)\<rparr>)
   }"

primrec map_loop :: "u32 list \<Rightarrow> u32 \<Rightarrow> u32 \<Rightarrow> u32 \<Rightarrow> u32 \<Rightarrow> ptable_state \<Rightarrow> ptable_state option" where
  "map_loop [] pgd va pa fl s = Some s"
| "map_loop (i # is) pgd va pa fl s = do {
     s' \<leftarrow> ptable_map pgd (va + i * PAGE_SIZE) (pa + i * PAGE_SIZE) fl s;
     map_loop is pgd va pa fl s'
   }"

text \<open>The loop index is unsigned, so a negative \<open>count\<close> is a large number.\<close>

definition ptable_map_many :: "u32 \<Rightarrow> u32 \<Rightarrow> u32 \<Rightarrow> i32 \<Rightarrow> u32 \<Rightarrow> ptable_state \<Rightarrow> ptable_state option" where
  "ptable_map_many pgd va pa count fl s = map_loop (map of_nat [0..<unat count]) pgd va pa fl s"

definition ptable_unmap :: "kernel_image \<Rightarrow> u32 \<Rightarrow> u32 \<Rightarrow> bool \<Rightarrow> ptable_state \<Rightarrow> ptable_state option" where
  "ptable_unmap img pgd virt_addr free s =
     (let pde = words s (GET_PDE pgd virt_addr)
      in if \<not> PDE_EXISTS pde then Some s
         else do {
           let pte = GET_PTE (PDE_TO_PGT pde) virt_addr;
           let pte_pa = PTE_PA (words s pte);
           fr \<leftarrow> (if free then map_option snd (page_free img (Some (page_from_pfn (PA_TO_PFN pte_pa))) 0 (frames s))
                  else Some (frames s));
           let cleared = (words s pte AND 0xFFF) AND (NOT 1);
           Some (s\<lparr>words := (words s)(pte := cleared), frames := fr,
                   invalidated := virt_addr # invalidated s\<rparr>)
         })"

primrec unmap_loop :: "kernel_image \<Rightarrow> u32 list \<Rightarrow> u32 \<Rightarrow> u32 \<Rightarrow> bool \<Rightarrow> ptable_state \<Rightarrow> ptable_state option" where
  "unmap_loop img [] pgd va free s = Some s"
| "unmap_loop img (i # is) pgd va free s = do {
     s' \<leftarrow> ptable_unmap img pgd (va + i * PAGE_SIZE) free s;
     unmap_loop img is pgd va free s'
   }"

definition ptable_unmap_many :: "kernel_image \<Rightarrow> u32 \<Rightarrow> u32 \<Rightarrow> i32 \<Rightarrow> bool \<Rightarrow> ptable_state \<Rightarrow> ptable_state option" where
  "ptable_unmap_many img pgd va count free s =
     unmap_loop img (map of_nat [0..<nat (sint count)]) pgd va free s"

section \<open>Copying a range\<close>

text \<open>One present entry of the source table: shared or copied, according to the flags.\<close>

definition copy_entry :: "u32 \<Rightarrow> u32 \<Rightarrow> u32 \<Rightarrow> ptable_state \<Rightarrow> ptable_state option" where
  "copy_entry fl pte_old pte_new s =
     (if \<not> PTE_EXISTS (words s pte_old) then Some s
      else if TEST_BIT fl PTC_SHARE then do {
        fr \<leftarrow> PAGE_INC_USES (PA_PAGE (PTE_PA (words s pte_old))) (frames s);
        Some (s\<lparr>frames := fr, words := (words s)(pte_new := words s pte_old)\<rparr>)
      }
      else if TEST_BIT fl PTC_COPY then do {
        (copied_page, s1) \<leftarrow> page_alloc_va s;
        let w = copy_page copied_page (PTE_VA (words s1 pte_old)) (words s1);
        Some (s1\<lparr>words := w(pte_new := MAKE_PTE (VIR_TO_PHY copied_page) (PTE_PRESENT OR PTE_USER))\<rparr>)
      }
      else Some s)"

primrec copy_entries :: "u32 \<Rightarrow> u32 \<Rightarrow> u32 \<Rightarrow> nat list \<Rightarrow> ptable_state \<Rightarrow> ptable_state option" where
  "copy_entries fl pgt_old pgt_new [] s = Some s"
| "copy_entries fl pgt_old pgt_new (i # is) s = do {
     s' \<leftarrow> copy_entry fl (pgt_old + 4 * of_nat i) (pgt_new + 4 * of_nat i) s;
     copy_entries fl pgt_old pgt_new is s'
   }"

text \<open>The entries one table of the range covers.\<close>

definition entry_range :: "nat \<Rightarrow> nat \<Rightarrow> nat \<Rightarrow> nat \<Rightarrow> nat \<Rightarrow> nat list" where
  "entry_range start_pde end_pde start_pte end_pte pde =
     (if pde = start_pde then [start_pte..<PAGE_TABLE_SIZE]
      else if pde = end_pde then [0..<end_pte]
      else [0..<PAGE_TABLE_SIZE])"

text \<open>A missing table of the destination is allocated, but not cleared.\<close>

definition copy_table :: "u32 \<Rightarrow> u32 \<Rightarrow> u32 \<Rightarrow> nat list \<Rightarrow> nat \<Rightarrow> ptable_state \<Rightarrow> ptable_state option" where
  "copy_table fl source_pgd dest_pgd is pde s =
     (let pde_old = source_pgd + 4 * of_nat pde; pde_new = dest_pgd + 4 * of_nat pde
      in if \<not> PDE_EXISTS (words s pde_old) then Some s
         else do {
           s1 \<leftarrow> (if \<not> PDE_EXISTS (words s pde_new) then do {
                     (pg, s1) \<leftarrow> alloc_frame s;
                     Some (s1\<lparr>words := (words s1)(pde_new := MAKE_PDE (PAGE_PA pg) (PDE_PRESENT OR PDE_WRITABLE OR PDE_USER))\<rparr>)
                   } else Some s);
           copy_entries fl (PDE_TO_PGT (words s1 pde_old)) (PDE_TO_PGT (words s1 pde_new)) is s1
         })"

primrec copy_tables :: "u32 \<Rightarrow> u32 \<Rightarrow> u32 \<Rightarrow> (nat \<Rightarrow> nat list) \<Rightarrow> nat list \<Rightarrow> ptable_state \<Rightarrow> ptable_state option" where
  "copy_tables fl source_pgd dest_pgd rng [] s = Some s"
| "copy_tables fl source_pgd dest_pgd rng (pde # pdes) s = do {
     s' \<leftarrow> copy_table fl source_pgd dest_pgd (rng pde) pde s;
     copy_tables fl source_pgd dest_pgd rng pdes s'
   }"

definition ptable_copy_range :: "u32 \<Rightarrow> u32 \<Rightarrow> u32 \<Rightarrow> u32 \<Rightarrow> u32 \<Rightarrow> ptable_state \<Rightarrow> ptable_state option" where
  "ptable_copy_range source_pgd dest_pgd start_va end_va fl s =
     (let start_pde = unat (PAGE_DIRECTORY_INDEX start_va); end_pde = unat (PAGE_DIRECTORY_INDEX end_va);
          start_pte = unat (PAGE_TABLE_INDEX start_va); end_pte = unat (PAGE_TABLE_INDEX end_va)
      in copy_tables fl source_pgd dest_pgd (entry_range start_pde end_pde start_pte end_pte)
           [start_pde..<Suc end_pde] s)"

section \<open>Inspection\<close>

definition ptable_pgt_is_clear :: "(u32 \<Rightarrow> u32) \<Rightarrow> u32 \<Rightarrow> bool" where
  "ptable_pgt_is_clear w pgt \<longleftrightarrow>
     list_all (\<lambda>i. drop_bit 12 (w (pgt + 4 * of_nat i)) = 0 \<and> w (pgt + 4 * of_nat i) AND 1 = 0) [0..<PAGE_TABLE_SIZE]"

definition ptable_get_pte :: "(u32 \<Rightarrow> u32) \<Rightarrow> u32 \<Rightarrow> u32 \<Rightarrow> u32" where
  "ptable_get_pte w pgd virt_addr =
     (let pde = w (GET_PDE pgd virt_addr)
      in if \<not> PDE_EXISTS pde then 0 else GET_PTE (PDE_TO_PGT pde) virt_addr)"

end
