(* ===== verification/Ptable_Props.thy ===== *)
theory Ptable_Props
  imports Ptable
begin

text \<open>
  What the page-table operations do to address translation. \<open>walk w pgd va\<close> is the translation
  the processor performs; a directory is well formed (\<open>directory_ok\<close>) when its user half points
  to distinct table pages that the page allocator has handed out. Mapping, unmapping and
  creating a directory keep this and change exactly the translations they should.
\<close>

section \<open>The processor's walk\<close>

definition walk :: "(u32 \<Rightarrow> u32) \<Rightarrow> u32 \<Rightarrow> u32 \<Rightarrow> u32 option" where
  "walk w pgd va =
     (let e = w (GET_PDE pgd va)
      in if \<not> PDE_EXISTS e then None
         else if PDE_IS_HUGE e then Some ((e AND 0xFFC00000) OR (va AND 0x3FFFFF))
         else (let t = w (GET_PTE (PDE_TO_PGT e) va)
               in if PTE_EXISTS t then Some (PAGE_FRAME t OR (va AND 0xFFF)) else None))"

text \<open>
  The entries the translation of an address goes through: a directory entry and, unless that is a 4 MiB page, a
  table entry.
\<close>

definition walk_entries :: "(u32 \<Rightarrow> u32) \<Rightarrow> u32 \<Rightarrow> u32 \<Rightarrow> (u32 \<times> u32 option) option" where
  "walk_entries w pgd va =
     (let e = w (GET_PDE pgd va)
      in if \<not> PDE_EXISTS e then None
         else if PDE_IS_HUGE e then Some (e, None)
         else (let t = w (GET_PTE (PDE_TO_PGT e) va) in if PTE_EXISTS t then Some (e, Some t) else None))"

text \<open>
  The rights the processor grants at a translated address: bit 1 of an entry allows writing, bit 2 allows access by user code,
  and a right is granted only if every entry on the way grants it.
\<close>

definition all_bit :: "nat \<Rightarrow> u32 \<times> u32 option \<Rightarrow> bool" where
  "all_bit n et \<longleftrightarrow> bit (fst et) n \<and> (case snd et of None \<Rightarrow> True | Some t \<Rightarrow> bit t n)"

definition walk_writable :: "(u32 \<Rightarrow> u32) \<Rightarrow> u32 \<Rightarrow> u32 \<Rightarrow> bool" where
  "walk_writable w pgd va \<longleftrightarrow> (case walk_entries w pgd va of None \<Rightarrow> False | Some et \<Rightarrow> all_bit 1 et)"

definition walk_user :: "(u32 \<Rightarrow> u32) \<Rightarrow> u32 \<Rightarrow> u32 \<Rightarrow> bool" where
  "walk_user w pgd va \<longleftrightarrow> (case walk_entries w pgd va of None \<Rightarrow> False | Some et \<Rightarrow> all_bit 2 et)"

lemma walk_by_entries:
  "walk w pgd va = map_option (\<lambda>(e, t). case t of None \<Rightarrow> (e AND 0xFFC00000) OR (va AND 0x3FFFFF) | Some t \<Rightarrow> PAGE_FRAME t OR (va AND 0xFFF))
     (walk_entries w pgd va)"
  by (simp add: walk_def walk_entries_def Let_def)

text \<open>Translation and rights of an address are the same in two memories.\<close>

definition same_access :: "(u32 \<Rightarrow> u32) \<Rightarrow> u32 \<Rightarrow> (u32 \<Rightarrow> u32) \<Rightarrow> u32 \<Rightarrow> u32 \<Rightarrow> bool" where
  "same_access w pgd w' pgd' va \<longleftrightarrow> walk w pgd va = walk w' pgd' va \<and>
     walk_writable w pgd va = walk_writable w' pgd' va \<and> walk_user w pgd va = walk_user w' pgd' va"

lemma same_access_entries: "walk_entries w pgd va = walk_entries w' pgd' va \<Longrightarrow> same_access w pgd w' pgd' va"
  by (simp add: same_access_def walk_by_entries walk_writable_def walk_user_def)

lemma same_access_trans: "same_access w p w' p' va \<Longrightarrow> same_access w' p' w'' p'' va \<Longrightarrow> same_access w p w'' p'' va"
  by (simp add: same_access_def)

lemma same_access_walk: "same_access w p w' p' va \<Longrightarrow> walk w p va = walk w' p' va"
  by (simp add: same_access_def)

section \<open>Cells of table pages\<close>

definition cell :: "nat \<Rightarrow> nat \<Rightarrow> u32" where
  "cell t i = slab_base t + 4 * of_nat i"

lemma unat_cell: "t < 2 ^ 18 \<Longrightarrow> i < 1024 \<Longrightarrow> unat (cell t i) = 0xC0000000 + 4096 * t + 4 * i"
  unfolding cell_def using unat_slab_base [of t]
  by (subst unat_add_small) (simp_all add: unat_word_ariths unat_le_imp_of_nat)

lemma cell_inject:
  assumes "t < 2 ^ 18" "u < 2 ^ 18" "i < 1024" "j < 1024"
  shows "cell t i = cell u j \<longleftrightarrow> t = u \<and> i = j"
proof
  assume "cell t i = cell u j"
  then have eq: "4096 * t + 4 * i = 4096 * u + 4 * j"
    using unat_cell [OF assms(1,3)] unat_cell [OF assms(2,4)] by simp
  then have "(4096 * t + 4 * i) div 4096 = (4096 * u + 4 * j) div 4096" by simp
  then have "t = u" using assms(3,4) by (simp add: div_add1_eq)
  with eq show "t = u \<and> i = j" by simp
qed simp

lemma bits10: "unat (drop_bit n (a :: u32) AND 0x3FF) = unat a div 2 ^ n mod 1024"
proof -
  have "drop_bit n a AND 0x3FF = take_bit 10 (drop_bit n a)"
    unfolding take_bit_eq_mask by (simp add: mask_eq_exp_minus_1)
  then have "unat (drop_bit n a AND 0x3FF) = take_bit 10 (drop_bit n (unat a))"
    by (simp only: unsigned_take_bit_eq unsigned_drop_bit_eq)
      (simp add: take_bit_nat_eq_self [OF unat_u32_less [of a], simplified])
  then show ?thesis by (simp add: take_bit_eq_mod drop_bit_eq_div)
qed

definition pdi :: "u32 \<Rightarrow> nat" where "pdi va = unat va div 2 ^ 22 mod 1024"
definition pti :: "u32 \<Rightarrow> nat" where "pti va = unat va div 2 ^ 12 mod 1024"

lemma pdi_less [simp]: "pdi va < 1024" and pti_less [simp]: "pti va < 1024"
  by (simp_all add: pdi_def pti_def)

lemma index_words: "PAGE_DIRECTORY_INDEX va = of_nat (pdi va)" "PAGE_TABLE_INDEX va = of_nat (pti va)"
  unfolding PAGE_DIRECTORY_INDEX_def PAGE_TABLE_INDEX_def pdi_def pti_def bits10 [symmetric] by simp_all

lemma GET_cell: "GET_PDE (slab_base d) va = cell d (pdi va)" "GET_PTE (slab_base d) va = cell d (pti va)"
  by (simp_all add: GET_PDE_def GET_PTE_def index_words cell_def)

lemma pdi_user: "va < KERNEL_START_VIRT \<Longrightarrow> pdi va < 768"
proof -
  assume "va < KERNEL_START_VIRT"
  then have "unat va < 768 * 2 ^ 22" by (simp add: word_less_nat_alt rotary_const)
  then have "unat va div 2 ^ 22 < 768" by (simp add: less_mult_imp_div_less)
  then show ?thesis by (simp add: pdi_def)
qed

lemma frame_mask: "(0xFFFFF000 :: u32) = NOT (mask 12)" "(0xFFF :: u32) = mask 12"
  by code_simp+

lemma unat_PAGE_FRAME: "unat (PAGE_FRAME a) = unat a div 4096 * 4096"
proof -
  have "PAGE_FRAME a = push_bit 12 (drop_bit 12 a)" unfolding PAGE_FRAME_def frame_mask and_not_mask_eq ..
  then show ?thesis using unat_push_drop [of 12 a] by simp
qed

lemma same_page: "pdi a = pdi b \<and> pti a = pti b \<longleftrightarrow> PAGE_FRAME a = PAGE_FRAME b"
proof -
  have split: "unat x div 4096 = pdi x * 1024 + pti x" for x :: u32
  proof -
    have "unat x div 4096 < 1024 * 1024" using unat_u32_less [of x] by (simp add: less_mult_imp_div_less)
    then have "unat x div 4096 div 1024 mod 1024 = unat x div 4096 div 1024" by (simp add: less_mult_imp_div_less)
    moreover have "unat x div 2 ^ 22 = unat x div 4096 div 1024" by (simp add: div_mult2_eq [symmetric])
    ultimately show ?thesis using div_mult_mod_eq [of "unat x div 4096" 1024] by (simp add: pdi_def pti_def)
  qed
  have "PAGE_FRAME a = PAGE_FRAME b \<longleftrightarrow> unat a div 4096 = unat b div 4096"
    unfolding word_unat_eq_iff unat_PAGE_FRAME by simp
  also have "\<dots> \<longleftrightarrow> pdi a * 1024 + pti a = pdi b * 1024 + pti b" by (simp only: split)
  also have "\<dots> \<longleftrightarrow> pdi a = pdi b \<and> pti a = pti b"
  proof
    assume eq: "pdi a * 1024 + pti a = pdi b * 1024 + pti b"
    then have "(pdi a * 1024 + pti a) div 1024 = (pdi b * 1024 + pti b) div 1024" by simp
    then have "pdi a = pdi b" by simp
    with eq show "pdi a = pdi b \<and> pti a = pti b" by simp
  qed simp
  finally show ?thesis by blast
qed

section \<open>Entries\<close>

lemma PAGE_FRAME_make: "PAGE_FRAME (MAKE_PDE pa fl) = PAGE_FRAME pa" "PAGE_FRAME (MAKE_PTE pa fl) = PAGE_FRAME pa"
  unfolding PAGE_FRAME_def MAKE_PDE_def MAKE_PTE_def frame_mask by (rule bit_eqI; auto simp: bit_simps)+

lemma entry_flag:
  "n < 12 \<Longrightarrow> bit (MAKE_PDE pa fl) n \<longleftrightarrow> bit fl n" "n < 12 \<Longrightarrow> bit (MAKE_PTE pa fl) n \<longleftrightarrow> bit fl n"
  unfolding MAKE_PDE_def MAKE_PTE_def frame_mask by (auto simp: bit_simps)

lemma PDE_EXISTS_bit: "PDE_EXISTS e \<longleftrightarrow> bit e 0" and PTE_EXISTS_bit: "PTE_EXISTS e \<longleftrightarrow> bit e 0"
  and PDE_HUGE_bit: "PDE_IS_HUGE e \<longleftrightarrow> bit e 7"
  by (simp_all add: rotary_macro rotary_const bit_iff_odd_drop_bit and_one_eq mod_2_eq_odd)

lemma PTE_WRITABLE_bit: "e AND PTE_WRITABLE \<noteq> 0 \<longleftrightarrow> bit e 1"
  using and_exp_eq_0_iff_not_bit [of e 1] by (simp add: PTE_WRITABLE_def)

lemma PAGE_FRAME_aligned: "4096 dvd unat a \<Longrightarrow> PAGE_FRAME a = a"
  by (simp add: word_unat_eq_iff unat_PAGE_FRAME)

lemma unat_frame_addr: "t < 2 ^ 18 \<Longrightarrow> unat (PFN_TO_PA (of_nat t)) = 4096 * t"
  by (simp add: rotary_macro rotary_const unat_word_ariths unat_le_imp_of_nat)

lemma PDE_TO_PGT_make: "t < 2 ^ 18 \<Longrightarrow> PDE_TO_PGT (MAKE_PDE (PFN_TO_PA (of_nat t)) fl) = slab_base t"
  by (simp add: PDE_TO_PGT_def PAGE_FRAME_make PAGE_FRAME_aligned unat_frame_addr slab_base_def)

section \<open>Pages of words\<close>

lemma clear_loop:
  "fold (\<lambda>i w. w(va + 4 * of_nat i := 0)) xs w a =
     (if \<exists>i\<in>set xs. a = va + 4 * of_nat i then (0 :: u32) else w a)"
  by (induction xs arbitrary: w) auto

lemma clear_page_cell:
  assumes "t < 2 ^ 18" "u < 2 ^ 18" "i < 1024"
  shows "clear_page (slab_base t) w (cell u i) = (if u = t then 0 else w (cell u i))"
proof -
  have "(\<exists>j\<in>set [0..<1024]. cell u i = slab_base t + 4 * of_nat j) \<longleftrightarrow> u = t"
    using assms cell_inject [OF assms(2,1,3)] unfolding cell_def [symmetric] by auto
  then show ?thesis unfolding clear_page_def clear_loop by simp
qed

lemma copy_loop_other:
  "\<forall>i\<in>set xs. a \<noteq> dest + 4 * of_nat i \<Longrightarrow>
     fold (\<lambda>i w. w(dest + 4 * of_nat i := w (src + 4 * of_nat i))) xs w a = (w :: u32 \<Rightarrow> u32) a"
  by (induction xs arbitrary: w) auto

lemma copy_loop_at:
  fixes w :: "u32 \<Rightarrow> u32"
  assumes "distinct xs" and "i \<in> set xs"
    and "\<And>j k. j \<in> set xs \<Longrightarrow> k \<in> set xs \<Longrightarrow> dest + 4 * of_nat j \<noteq> src + 4 * of_nat k"
    and "\<And>j k. j \<in> set xs \<Longrightarrow> k \<in> set xs \<Longrightarrow> dest + 4 * of_nat j = dest + 4 * of_nat k \<Longrightarrow> j = k"
  shows "fold (\<lambda>i w. w(dest + 4 * of_nat i := w (src + 4 * of_nat i))) xs w (dest + 4 * of_nat i) = w (src + 4 * of_nat i)"
  using assms
proof (induction xs arbitrary: w)
  case (Cons x xs)
  let ?w = "w(dest + 4 * of_nat x := w (src + 4 * of_nat x))"
  show ?case
  proof (cases "i = x")
    case True
    have "\<forall>j\<in>set xs. dest + 4 * of_nat i \<noteq> dest + 4 * of_nat j"
      using Cons.prems(1) Cons.prems(4) [of i] True by (metis distinct.simps(2) list.set_intros)
    from copy_loop_other [OF this, of src ?w] True show ?thesis by (simp only: fold_simps fun_upd_same)
  next
    case False
    then have "i \<in> set xs" using Cons.prems(2) by simp
    then have "fold (\<lambda>i w. w(dest + 4 * of_nat i := w (src + 4 * of_nat i))) xs ?w (dest + 4 * of_nat i) = ?w (src + 4 * of_nat i)"
      using Cons.prems by (intro Cons.IH) auto
    moreover have "src + 4 * of_nat i \<noteq> dest + 4 * of_nat x" using Cons.prems(3) [of x i] Cons.prems(2) by auto
    ultimately show ?thesis by (simp only: fold_simps fun_upd_other not_False_eq_True)
  qed
qed simp

section \<open>Well-formed directories\<close>

definition directory_ok :: "block set \<Rightarrow> nat \<Rightarrow> (u32 \<Rightarrow> u32) \<Rightarrow> bool" where
  "directory_ok A d w \<longleftrightarrow> (d, 0) \<in> A \<and>
     (\<forall>i<768. PDE_EXISTS (w (cell d i)) \<longrightarrow> \<not> PDE_IS_HUGE (w (cell d i)) \<and> bit (w (cell d i)) 1 \<and> bit (w (cell d i)) 2 \<and>
        (\<exists>t. (t, 0) \<in> A \<and> t \<noteq> d \<and> PDE_TO_PGT (w (cell d i)) = slab_base t)) \<and>
     (\<forall>i<768. \<forall>j<768. PDE_EXISTS (w (cell d i)) \<longrightarrow> PDE_EXISTS (w (cell d j)) \<longrightarrow>
        PDE_TO_PGT (w (cell d i)) = PDE_TO_PGT (w (cell d j)) \<longrightarrow> i = j)"

definition frames_ok :: "block set \<Rightarrow> free_lists \<Rightarrow> buddy_allocator \<Rightarrow> bool" where
  "frames_ok A fl fr \<longleftrightarrow> buddy_ok A fl fr \<and> n_pages fr < 2 ^ 18"

lemma frames_ok_page: "frames_ok A fl fr \<Longrightarrow> (t, k) \<in> A \<Longrightarrow> t < 2 ^ 18"
  using wf_heads_covered [of "n_pages fr" "valid_pages fr" A fl "(t, k)"]
  unfolding frames_ok_def buddy_ok_def by simp

lemma alloc_frame_ok:
  assumes ok: "frames_ok A fl (frames s)" and t: "take_block 0 fl = Some (t, fl')"
  obtains pg s' where "alloc_frame s = Some (pg, s')" and "pfn pg = of_nat t"
    and "words s' = words s" and "invalidated s' = invalidated s"
    and "frames_ok (insert (t, 0) A) fl' (frames s')" and "(t, 0) \<notin> A" and "t < 2 ^ 18"
    and "t \<in> valid_pages (frames s)" and "valid_pages (frames s') = valid_pages (frames s)"
proof -
  have b: "buddy_ok A fl (frames s)" and n: "n_pages (frames s) < 2 ^ 18" using ok by (simp_all add: frames_ok_def)
  have "(0 :: u32) \<le> 6" by simp
  moreover have "take_block (unat (0 :: u32)) fl = Some (t, fl')" using t by simp
  ultimately obtain fr where "page_alloc 0 PR_KERNEL (frames s) = Some (Some t, fr)" "buddy_ok (insert (t, unat (0 :: u32)) A) fl' fr"
    "n_pages fr = n_pages (frames s)" "valid_pages fr = valid_pages (frames s)" by (rule page_alloc_some [OF b]) blast
  then have fr: "page_alloc 0 PR_KERNEL (frames s) = Some (Some t, fr)" "buddy_ok (insert (t, 0) A) fl' fr"
    "n_pages fr = n_pages (frames s)" "valid_pages fr = valid_pages (frames s)" by simp_all
  have "cover (free_blocks fl' \<union> insert (t, 0) A) = valid_pages (frames s)" using fr(2,4) by (simp add: buddy_ok_def buddy_wf_def)
  then have "t \<in> valid_pages (frames s)" by (auto simp: cover_def)
  moreover have ok': "frames_ok (insert (t, 0) A) fl' fr" using fr n by (simp add: frames_ok_def)
  have tn: "t < n_pages fr" using fr(2) wf_heads_covered [of _ _ _ _ "(t, 0)"] by (auto simp: buddy_ok_def)
  then have pg: "page_at t fr = Some (page_area fr ! t)" by (simp add: page_at_def)
  have "pfn (page_area fr ! t) = of_nat t" using fr(2) tn by (simp add: buddy_ok_def buddy_rep_def)
  moreover have "(t, 0) \<notin> A" using take_block_wf [OF _ t] b by (auto simp: buddy_ok_def)
  moreover have "t < 2 ^ 18" using tn fr(3) n by simp
  ultimately show thesis using that [of "page_area fr ! t" "s\<lparr>frames := fr\<rparr>"] fr(1,4) pg ok'
    by (simp add: alloc_frame_def)
qed

lemma directory_okD:
  assumes "directory_ok A d w" and "i < 768" and "PDE_EXISTS (w (cell d i))"
  obtains t where "(t, 0) \<in> A" "t \<noteq> d" "PDE_TO_PGT (w (cell d i)) = slab_base t" "\<not> PDE_IS_HUGE (w (cell d i))"
    "bit (w (cell d i)) 1" "bit (w (cell d i)) 2"
  using assms unfolding directory_ok_def by blast

lemma directory_ok_inj:
  assumes "directory_ok A d w" and "i < 768" "j < 768" and "PDE_EXISTS (w (cell d i))" "PDE_EXISTS (w (cell d j))"
    and "PDE_TO_PGT (w (cell d i)) = PDE_TO_PGT (w (cell d j))"
  shows "i = j"
  using assms unfolding directory_ok_def by blast

text \<open>A directory with its tables only depends on the words in its own pages.\<close>

lemma walk_entries_cell:
  assumes "directory_ok A d w" and "va < KERNEL_START_VIRT"
  shows "walk_entries w (slab_base d) va =
    (if PDE_EXISTS (w (cell d (pdi va)))
     then (let t = w (GET_PTE (PDE_TO_PGT (w (cell d (pdi va)))) va)
           in if PTE_EXISTS t then Some (w (cell d (pdi va)), Some t) else None)
     else None)"
proof -
  have "\<not> PDE_IS_HUGE (w (cell d (pdi va)))" if "PDE_EXISTS (w (cell d (pdi va)))"
    by (rule directory_okD [OF assms(1) pdi_user [OF assms(2)] that])
  then show ?thesis by (simp add: walk_entries_def GET_cell Let_def)
qed

lemma walk_cell:
  assumes "directory_ok A d w" and "va < KERNEL_START_VIRT"
  shows "walk w (slab_base d) va =
    (if PDE_EXISTS (w (cell d (pdi va)))
     then (let t = w (GET_PTE (PDE_TO_PGT (w (cell d (pdi va)))) va)
           in if PTE_EXISTS t then Some (PAGE_FRAME t OR (va AND 0xFFF)) else None)
     else None)"
  unfolding walk_by_entries walk_entries_cell [OF assms] by (simp add: Let_def)

lemma ensure_table_ok:
  assumes ok: "frames_ok A fl (frames s)" and d: "directory_ok A d (words s)" and i: "i < 768"
    and mem: "PDE_EXISTS (words s (cell d i)) \<or> take_block 0 fl \<noteq> None"
  shows "\<exists>A' fl' s'. ensure_table (cell d i) s = Some s' \<and> frames_ok A' fl' (frames s') \<and> A \<subseteq> A' \<and>
    directory_ok A' d (words s') \<and> PDE_EXISTS (words s' (cell d i)) \<and>
    (\<forall>va < KERNEL_START_VIRT. walk_entries (words s') (slab_base d) va = walk_entries (words s) (slab_base d) va)"
proof (cases "PDE_EXISTS (words s (cell d i))")
  case True
  then show ?thesis using ok d by (intro exI [of _ A] exI [of _ fl] exI [of _ s]) (simp add: ensure_table_def)
next
  case False
  with mem obtain t fl' where "take_block 0 fl = Some (t, fl')" by auto
  then obtain pg s1 where s1: "alloc_frame s = Some (pg, s1)" "pfn pg = of_nat t"
    "words s1 = words s" "frames_ok (insert (t, 0) A) fl' (frames s1)" "(t, 0) \<notin> A" "t < 2 ^ 18"
    by (rule alloc_frame_ok [OF ok]) blast
  let ?e = "MAKE_PDE (PFN_TO_PA (of_nat t)) (PDE_PRESENT OR PDE_WRITABLE OR PDE_USER)"
  let ?w = "(clear_page (slab_base t) (words s))(cell d i := ?e)"
  let ?s = "s1\<lparr>words := ?w\<rparr>"
  have run: "ensure_table (cell d i) s = Some ?s"
    using False s1(1,2,3) by (simp add: ensure_table_def PAGE_VA_def PAGE_PA_def slab_base_def)
  have dA: "(d, 0) \<in> A" using d by (simp add: directory_ok_def)
  then have dt: "d \<noteq> t" and d18: "d < 2 ^ 18" using s1(5) frames_ok_page [OF ok dA] by auto
  have e: "PDE_EXISTS ?e" "\<not> PDE_IS_HUGE ?e" "PDE_TO_PGT ?e = slab_base t"
    using PDE_TO_PGT_make [OF s1(6)] unfolding PDE_EXISTS_bit PDE_HUGE_bit by (simp_all add: entry_flag rotary_const bit_simps)
  have eb: "bit ?e 1" "bit ?e 2" by (simp_all add: entry_flag rotary_const)
  have old: "?w (cell d j) = (if j = i then ?e else words s (cell d j))" if "j < 1024" for j
    using that i dt d18 s1(6) cell_inject [OF d18 d18 that, of i] by (simp add: clear_page_cell)
  have wt: "?w (cell t j) = 0" if "j < 1024" for j
    using that i dt d18 s1(6) cell_inject [OF s1(6) d18 that, of i] by (simp add: clear_page_cell)
  have wu: "?w (cell u j) = words s (cell u j)" if "(u, 0) \<in> A" "u \<noteq> d" "j < 1024" for u j
  proof -
    have "u \<noteq> t" "u < 2 ^ 18" using that(1) s1(5) frames_ok_page [OF ok that(1)] by auto
    then show ?thesis using that(2,3) i d18 s1(6) cell_inject [OF _ d18 that(3), of u i] by (simp add: clear_page_cell)
  qed
  have tab: "PDE_TO_PGT (words s (cell d j)) \<noteq> slab_base t" if j: "j < 768" "PDE_EXISTS (words s (cell d j))" for j
  proof -
    obtain u where "(u, 0) \<in> A" "PDE_TO_PGT (words s (cell d j)) = slab_base u" by (rule directory_okD [OF d j])
    then show ?thesis using s1(5,6) frames_ok_page [OF ok, of u 0] by (auto simp: slab_base_inject)
  qed
  have d': "directory_ok (insert (t, 0) A) d ?w"
    unfolding directory_ok_def
  proof (intro conjI allI impI)
    show "(d, 0) \<in> insert (t, 0) A" using dA by simp
  next
    fix j assume j: "j < 768" "PDE_EXISTS (?w (cell d j))"
    show "\<not> PDE_IS_HUGE (?w (cell d j))"
      using j e(2) d old [of j] by (cases "j = i") (auto simp: directory_ok_def)
    show "bit (?w (cell d j)) 1" "bit (?w (cell d j)) 2"
      using j eb d old [of j] by (cases "j = i"; force simp: directory_ok_def)+
    show "\<exists>u. (u, 0) \<in> insert (t, 0) A \<and> u \<noteq> d \<and> PDE_TO_PGT (?w (cell d j)) = slab_base u"
      using j e(3) dt d old [of j] by (cases "j = i") (auto simp: directory_ok_def)
  next
    fix j k assume jk: "j < 768" "k < 768" "PDE_EXISTS (?w (cell d j))" "PDE_EXISTS (?w (cell d k))"
      "PDE_TO_PGT (?w (cell d j)) = PDE_TO_PGT (?w (cell d k))"
    show "j = k"
      using jk e(3) old [of j] old [of k] tab [of j] tab [of k] directory_ok_inj [OF d, of j k]
      by (cases "j = i"; cases "k = i") auto
  qed
  have wk: "walk_entries ?w (slab_base d) va = walk_entries (words s) (slab_base d) va" if va: "va < KERNEL_START_VIRT" for va
  proof (cases "pdi va = i")
    case True
    then show ?thesis
      using False e wt [of "pti va"] old [of i] i unfolding walk_entries_cell [OF d va] walk_entries_cell [OF d' va]
      by (simp add: GET_cell PTE_EXISTS_bit)
  next
    case ne: False
    show ?thesis
    proof (cases "PDE_EXISTS (words s (cell d (pdi va)))")
      case True
      obtain u where u: "(u, 0) \<in> A" "u \<noteq> d" "PDE_TO_PGT (words s (cell d (pdi va))) = slab_base u"
        by (rule directory_okD [OF d pdi_user [OF va] True])
      then show ?thesis using ne True old [of "pdi va"] wu [of u "pti va"]
        unfolding walk_entries_cell [OF d va] walk_entries_cell [OF d' va] by (simp add: GET_cell Let_def)
    next
      case False
      then show ?thesis using ne old [of "pdi va"] unfolding walk_entries_cell [OF d va] walk_entries_cell [OF d' va] by simp
    qed
  qed
  show ?thesis using run s1(4) d' wk e(1)
    by (intro exI [of _ "insert (t, 0) A"] exI [of _ fl'] exI [of _ ?s]) auto
qed

section \<open>Writing one entry\<close>

lemma write_entry:
  assumes ok: "frames_ok A fl fr" and d: "directory_ok A d w" and va: "va < KERNEL_START_VIRT"
    and ex: "PDE_EXISTS (w (cell d (pdi va)))"
  defines "pte \<equiv> GET_PTE (PDE_TO_PGT (w (cell d (pdi va)))) va"
  shows "directory_ok A d (w(pte := e))"
    and "walk (w(pte := e)) (slab_base d) va = (if PTE_EXISTS e then Some (PAGE_FRAME e OR (va AND 0xFFF)) else None)"
    and "walk_writable (w(pte := e)) (slab_base d) va \<longleftrightarrow> PTE_EXISTS e \<and> bit e 1"
    and "walk_user (w(pte := e)) (slab_base d) va \<longleftrightarrow> PTE_EXISTS e \<and> bit e 2"
    and "\<And>va'. va' < KERNEL_START_VIRT \<Longrightarrow> PAGE_FRAME va' \<noteq> PAGE_FRAME va \<Longrightarrow>
           walk_entries (w(pte := e)) (slab_base d) va' = walk_entries w (slab_base d) va'"
    and "\<exists>t. (t, 0) \<in> A \<and> t \<noteq> d \<and> pte = cell t (pti va)"
proof -
  obtain t where t: "(t, 0) \<in> A" "t \<noteq> d" "PDE_TO_PGT (w (cell d (pdi va))) = slab_base t"
    "bit (w (cell d (pdi va))) 1" "bit (w (cell d (pdi va))) 2"
    by (rule directory_okD [OF d pdi_user [OF va] ex])
  have dA: "(d, 0) \<in> A" using d by (simp add: directory_ok_def)
  have t18: "t < 2 ^ 18" and d18: "d < 2 ^ 18" using frames_ok_page [OF ok] t(1) dA by blast+
  have pte: "pte = cell t (pti va)" unfolding pte_def t(3) GET_cell ..
  then show "\<exists>t. (t, 0) \<in> A \<and> t \<noteq> d \<and> pte = cell t (pti va)" using t by blast
  let ?w = "w(pte := e)"
  have dir: "?w (cell d j) = w (cell d j)" if "j < 1024" for j
    using cell_inject [OF d18 t18 that, of "pti va"] t(2) by (simp add: pte)
  then show d': "directory_ok A d ?w" using d unfolding directory_ok_def by simp
  show "walk ?w (slab_base d) va = (if PTE_EXISTS e then Some (PAGE_FRAME e OR (va AND 0xFFF)) else None)"
    unfolding walk_cell [OF d' va] using dir [of "pdi va"] ex t(3) by (simp add: GET_cell pte Let_def)
  have ent: "walk_entries ?w (slab_base d) va = (if PTE_EXISTS e then Some (w (cell d (pdi va)), Some e) else None)"
    unfolding walk_entries_cell [OF d' va] using dir [of "pdi va"] ex t(3) by (simp add: GET_cell pte Let_def)
  show "walk_writable ?w (slab_base d) va \<longleftrightarrow> PTE_EXISTS e \<and> bit e 1" "walk_user ?w (slab_base d) va \<longleftrightarrow> PTE_EXISTS e \<and> bit e 2"
    unfolding walk_writable_def walk_user_def ent using t(4,5) by (simp_all add: all_bit_def)
  show "walk_entries ?w (slab_base d) va' = walk_entries w (slab_base d) va'"
    if va': "va' < KERNEL_START_VIRT" "PAGE_FRAME va' \<noteq> PAGE_FRAME va" for va'
  proof (cases "PDE_EXISTS (w (cell d (pdi va')))")
    case True
    obtain u where u: "(u, 0) \<in> A" "PDE_TO_PGT (w (cell d (pdi va'))) = slab_base u"
      by (rule directory_okD [OF d pdi_user [OF va'(1)] True])
    have "u \<noteq> t \<or> pti va' \<noteq> pti va"
      using directory_ok_inj [OF d pdi_user [OF va'(1)] pdi_user [OF va] True ex] u(2) t(3) va'(2) same_page [of va' va] by auto
    then have "?w (cell u (pti va')) = w (cell u (pti va'))"
      using cell_inject [OF frames_ok_page [OF ok u(1)] t18, of "pti va'" "pti va"] by (auto simp: pte)
    then show ?thesis unfolding walk_entries_cell [OF d va'(1)] walk_entries_cell [OF d' va'(1)]
      using dir [of "pdi va'"] u(2) by (simp add: GET_cell Let_def)
  next
    case False
    then show ?thesis unfolding walk_entries_cell [OF d va'(1)] walk_entries_cell [OF d' va'(1)] using dir [of "pdi va'"] by simp
  qed
qed

lemma map_entry_facts:
  "PTE_EXISTS (map_entry pa fl)" "PAGE_FRAME (map_entry pa fl) = PAGE_FRAME pa"
  "bit (map_entry pa fl) 1 \<longleftrightarrow> TEST_BIT fl VM_MAP_WRITE" "bit (map_entry pa fl) 2"
proof -
  have two: "(2 :: u32) = push_bit 1 1" "bit (2 :: u32) n \<longleftrightarrow> n = 1" for n
    using bit_exp_iff [of 1 n, where ?'a = u32] by auto
  show "PTE_EXISTS (map_entry pa fl)"
    by (simp add: map_entry_def PTE_EXISTS_bit PTE_SET_WRITABLE_def Let_def entry_flag rotary_const bit_simps)
  show "PAGE_FRAME (map_entry pa fl) = PAGE_FRAME pa"
  proof -
    have "PAGE_FRAME (PTE_SET_WRITABLE x) = PAGE_FRAME x" for x
      unfolding PAGE_FRAME_def PTE_SET_WRITABLE_def frame_mask by (rule bit_eqI) (auto simp: bit_simps two(2))
    then show ?thesis by (simp add: map_entry_def PAGE_FRAME_make Let_def)
  qed
  show "bit (map_entry pa fl) 1 \<longleftrightarrow> TEST_BIT fl VM_MAP_WRITE"
    by (simp add: map_entry_def PTE_SET_WRITABLE_def Let_def entry_flag bit_or_iff two(2) rotary_const bit_simps)
  show "bit (map_entry pa fl) 2"
    by (simp add: map_entry_def PTE_SET_WRITABLE_def Let_def entry_flag bit_or_iff two(2) rotary_const bit_simps)
qed

lemma ptable_map_ok:
  assumes ok: "frames_ok A fl (frames s)" and d: "directory_ok A d (words s)" and va: "va < KERNEL_START_VIRT"
    and mem: "PDE_EXISTS (words s (GET_PDE (slab_base d) va)) \<or> take_block 0 fl \<noteq> None"
  shows "\<exists>A' fl' s'. ptable_map (slab_base d) va pa fgs s = Some s' \<and> frames_ok A' fl' (frames s') \<and> A \<subseteq> A' \<and>
    directory_ok A' d (words s') \<and>
    walk (words s') (slab_base d) va = Some (PAGE_FRAME pa OR (va AND 0xFFF)) \<and>
    walk_user (words s') (slab_base d) va \<and> (walk_writable (words s') (slab_base d) va \<longleftrightarrow> TEST_BIT fgs VM_MAP_WRITE) \<and>
    (\<forall>va' < KERNEL_START_VIRT. PAGE_FRAME va' \<noteq> PAGE_FRAME va \<longrightarrow>
       same_access (words s') (slab_base d) (words s) (slab_base d) va')"
proof -
  obtain A' fl' s1 where s1: "ensure_table (cell d (pdi va)) s = Some s1" "frames_ok A' fl' (frames s1)" "A \<subseteq> A'"
    "directory_ok A' d (words s1)" "PDE_EXISTS (words s1 (cell d (pdi va)))"
    and wk: "\<forall>va < KERNEL_START_VIRT. walk_entries (words s1) (slab_base d) va = walk_entries (words s) (slab_base d) va"
    using ensure_table_ok [OF ok d pdi_user [OF va] mem [unfolded GET_cell]] by blast
  note we = write_entry(1-5) [OF s1(2,4) va s1(5), where e = "map_entry pa fgs"]
  let ?s = "s1\<lparr>words := (words s1)(GET_PTE (PDE_TO_PGT (words s1 (cell d (pdi va)))) va := map_entry pa fgs)\<rparr>"
  have "ptable_map (slab_base d) va pa fgs s = Some ?s" using s1(1) by (simp add: ptable_map_def GET_cell)
  then show ?thesis using s1(2,3) we wk
    by (intro exI [of _ A'] exI [of _ fl'] exI [of _ ?s]) (simp add: map_entry_facts map_entry_facts(3) [simplified] same_access_entries)
qed

section \<open>Unmapping\<close>

lemma cleared_entry: "\<not> PTE_EXISTS ((x AND 0xFFF) AND (NOT 1))"
  by (simp add: PTE_EXISTS_bit bit_simps)

text \<open>The part of \<^verbatim>\<open>ptable_unmap\<close> that touches the tables.\<close>

lemma ptable_unmap_tables:
  assumes ok: "frames_ok A fl (frames s)" and d: "directory_ok A d (words s)" and va: "va < KERNEL_START_VIRT"
    and run: "ptable_unmap img (slab_base d) va free s = Some s'"
  shows "directory_ok A d (words s') \<and> walk (words s') (slab_base d) va = None \<and>
    (\<forall>va' < KERNEL_START_VIRT. PAGE_FRAME va' \<noteq> PAGE_FRAME va \<longrightarrow>
       walk (words s') (slab_base d) va' = walk (words s) (slab_base d) va')"
proof (cases "PDE_EXISTS (words s (cell d (pdi va)))")
  case True
  let ?pte = "GET_PTE (PDE_TO_PGT (words s (cell d (pdi va)))) va"
  let ?e = "(words s ?pte AND 0xFFF) AND (NOT 1)"
  have "words s' = (words s)(?pte := ?e)"
    using run True unfolding ptable_unmap_def GET_cell by (auto simp: Let_def elim!: bind_eq_SomeE)
  then show ?thesis using write_entry(1,2,5) [OF ok d va True, where e = ?e] cleared_entry by (simp add: walk_by_entries)
next
  case False
  then have "s' = s" using run by (simp add: ptable_unmap_def GET_cell)
  then show ?thesis using d False walk_cell [OF d va] by simp
qed

lemma ptable_unmap_keep:
  "\<exists>s'. ptable_unmap img pgd va False s = Some s' \<and> frames s' = frames s"
  by (simp add: ptable_unmap_def Let_def)

text \<open>Giving back the frame of the mapping.\<close>

lemma PA_TO_PFN_frame: "p < 2 ^ 18 \<Longrightarrow> page_from_pfn (PA_TO_PFN (PFN_TO_PA (of_nat p))) = p"
  using unat_frame_addr [of p] by (simp add: page_from_pfn_def PA_TO_PFN_def unat_drop_bit_eq drop_bit_eq_div unat_div)

lemma directory_ok_subset:
  assumes "directory_ok A d w" and "B \<subseteq> A"
    and "(d, 0) \<in> B" and "\<And>i t. i < 768 \<Longrightarrow> PDE_EXISTS (w (cell d i)) \<Longrightarrow> PDE_TO_PGT (w (cell d i)) = slab_base t \<Longrightarrow> (t, 0) \<in> A \<Longrightarrow> (t, 0) \<in> B"
  shows "directory_ok B d w"
  using assms unfolding directory_ok_def by blast

lemma ptable_unmap_free:
  assumes ok: "frames_ok A fl (frames s)" and va: "PDE_EXISTS (words s (GET_PDE (slab_base d) va))"
    and pte: "PTE_PA (words s (ptable_get_pte (words s) (slab_base d) va)) = PFN_TO_PA (of_nat p)"
    and p: "(p, 0) \<in> A" and nc: "\<not> critical_page img p" and uc: "use_count (page_area (frames s) ! p) \<le> 1"
  shows "\<exists>s'. ptable_unmap img (slab_base d) va True s = Some s' \<and>
    frames_ok (A - {(p, 0)}) (give_block p 0 fl) (frames s')"
proof -
  have b: "buddy_ok (insert (p, 0) (A - {(p, 0)})) fl (frames s)"
    using ok p by (simp add: frames_ok_def insert_absorb)
  obtain fr where fr: "page_free img (Some p) (of_nat 0) (frames s) = Some (E_SUCCESS, fr)"
    "buddy_ok (A - {(p, 0)}) (give_block p 0 fl) fr" "n_pages fr = n_pages (frames s)"
    by (rule page_free_last [OF b _ nc uc]) auto
  have "page_from_pfn (PA_TO_PFN (PTE_PA (words s (ptable_get_pte (words s) (slab_base d) va)))) = p"
    unfolding pte by (rule PA_TO_PFN_frame [OF frames_ok_page [OF ok p]])
  then show ?thesis using va fr ok
    by (simp add: ptable_unmap_def ptable_get_pte_def Let_def frames_ok_def)
qed

section \<open>New directories\<close>

lemma copy_page_cell:
  assumes "t < 2 ^ 18" and "\<And>i j. i < 1024 \<Longrightarrow> j < 1024 \<Longrightarrow> cell t i \<noteq> src + 4 * of_nat j" and "i < 1024"
  shows "copy_page (slab_base t) src w (cell t i) = w (src + 4 * of_nat i)"
  unfolding copy_page_def cell_def
proof (rule copy_loop_at)
  fix j k assume "j \<in> set [0..<1024]" "k \<in> set [0..<(1024 :: nat)]"
  then have jk: "j < 1024" "k < 1024" by simp_all
  then show "slab_base t + 4 * of_nat j \<noteq> src + 4 * of_nat k" using assms(2) unfolding cell_def by blast
  show "slab_base t + 4 * of_nat j = slab_base t + 4 * of_nat k \<Longrightarrow> j = k"
    using cell_inject [OF assms(1,1) jk] unfolding cell_def by blast
qed (use assms(3) in simp_all)

lemma copy_page_other:
  assumes "\<And>i. i < 1024 \<Longrightarrow> a \<noteq> cell t i"
  shows "copy_page (slab_base t) src w a = w a"
  unfolding copy_page_def using assms by (intro copy_loop_other) (simp add: cell_def)

lemma clear_page_other:
  assumes "\<And>i. i < 1024 \<Longrightarrow> a \<noteq> cell t i"
  shows "clear_page (slab_base t) w a = w a"
  unfolding clear_page_def clear_loop using assms by (auto simp: cell_def)

text \<open>
  The kernel's directory lies in page \<open>k\<close>, outside the pages of the allocator, and so do its
  tables.
\<close>

definition kernel_directory :: "nat set \<Rightarrow> nat \<Rightarrow> (u32 \<Rightarrow> u32) \<Rightarrow> bool" where
  "kernel_directory V k w \<longleftrightarrow> k < 2 ^ 18 \<and> k \<notin> V \<and> (\<forall>i<768. \<not> PDE_EXISTS (w (cell k i))) \<and>
     (\<forall>i<1024. PDE_EXISTS (w (cell k i)) \<longrightarrow> \<not> PDE_IS_HUGE (w (cell k i)) \<longrightarrow>
        (\<exists>u<2 ^ 18. u \<notin> V \<and> PDE_TO_PGT (w (cell k i)) = slab_base u))"

lemma ptable_pgd_new_ok:
  assumes ok: "frames_ok A fl (frames s)" and t: "take_block 0 fl = Some (t, fl')"
    and k: "kernel_directory (valid_pages (frames s)) k (words s)"
  shows "\<exists>s'. ptable_pgd_new (slab_base k) s = Some (slab_base t, s') \<and> (t, 0) \<notin> A \<and>
    frames_ok (insert (t, 0) A) fl' (frames s') \<and> directory_ok (insert (t, 0) A) t (words s') \<and>
    (\<forall>va. walk (words s') (slab_base t) va = walk (words s) (slab_base k) va)"
proof -
  obtain pg s1 where s1: "alloc_frame s = Some (pg, s1)" "pfn pg = of_nat t" "words s1 = words s"
    "frames_ok (insert (t, 0) A) fl' (frames s1)" "(t, 0) \<notin> A" "t < 2 ^ 18" "t \<in> valid_pages (frames s)"
    by (rule alloc_frame_ok [OF ok t]) blast
  let ?w = "copy_page (slab_base t) (slab_base k) (clear_page (slab_base t) (words s))"
  have k18: "k < 2 ^ 18" and kt: "t \<noteq> k" using k s1(7) by (auto simp: kernel_directory_def)
  have "unat (slab_base t) \<noteq> 0" using unat_slab_base [OF s1(6)] by simp
  then have nz: "slab_base t \<noteq> 0" by auto
  have va: "PAGE_VA pg = slab_base t" using s1(2) by (simp add: PAGE_VA_def PAGE_PA_def slab_base_def)
  have run: "ptable_pgd_new (slab_base k) s = Some (slab_base t, s1\<lparr>words := ?w\<rparr>)"
    using s1(1,3) va nz by (simp add: ptable_pgd_new_def page_alloc_va_def)
  have apart: "cell t i \<noteq> slab_base k + 4 * of_nat j" if "i < 1024" "j < 1024" for i j
    using cell_inject [OF s1(6) k18 that] kt unfolding cell_def by blast
  have dir: "?w (cell t i) = words s (cell k i)" if "i < 1024" for i
    using copy_page_cell [OF s1(6) apart that] clear_page_cell [OF s1(6) k18 that] kt by (simp add: cell_def)
  have other: "?w (cell u i) = words s (cell u i)" if "u < 2 ^ 18" "u \<noteq> t" "i < 1024" for u i
    using cell_inject [OF that(1) s1(6) that(3)] that(2) by (simp add: copy_page_other clear_page_other)
  have "walk ?w (slab_base t) va = walk (words s) (slab_base k) va" for va
  proof -
    have "?w (GET_PTE (PDE_TO_PGT (words s (cell k (pdi va)))) va) = words s (GET_PTE (PDE_TO_PGT (words s (cell k (pdi va)))) va)"
      if e: "PDE_EXISTS (words s (cell k (pdi va)))" "\<not> PDE_IS_HUGE (words s (cell k (pdi va)))"
    proof -
      obtain u where "u < 2 ^ 18" "u \<notin> valid_pages (frames s)" "PDE_TO_PGT (words s (cell k (pdi va))) = slab_base u"
        using k e pdi_less unfolding kernel_directory_def by blast
      then show ?thesis using other [of u "pti va"] s1(7) by (auto simp: GET_cell)
    qed
    then show ?thesis unfolding walk_def GET_cell dir [OF pdi_less] by (simp add: Let_def)
  qed
  moreover have "directory_ok (insert (t, 0) A) t ?w"
    using k dir unfolding directory_ok_def kernel_directory_def by simp
  ultimately show ?thesis using run s1(4,5) by simp
qed

section \<open>A sample\<close>

text \<open>The free lists after one page of the sample allocator is taken.\<close>

abbreviation sample_lists1 :: free_lists where
  "sample_lists1 \<equiv> (\<lambda>_. [])(5 := [32], 4 := [16], 3 := [8], 2 := [4], 1 := [2], 0 := [1])"

lemma sample_take0: "take_block 0 sample_lists = Some (0, sample_lists1)"
proof -
  have "first_order 0 sample_lists = Some 6" by (simp add: first_order_Some)
  then show ?thesis by (simp add: take_block_def eval_nat_numeral fun_eq_iff)
qed

lemma sample_take1: "take_block 0 sample_lists1 \<noteq> None"
proof -
  have "first_order 0 sample_lists1 = Some 0" by (simp add: first_order_Some)
  then show ?thesis by (simp add: take_block_def)
qed

lemma sample_frames_ok: "frames_ok {} sample_lists sample_free"
  using sample_free_ok by (simp add: frames_ok_def sample_free_def)

definition sample_ptable :: "buddy_allocator \<Rightarrow> ptable_state" where
  "sample_ptable fr = \<lparr>words = (\<lambda>_. 0), frames = fr, invalidated = []\<rparr>"

lemma sample_alloc:
  obtains fr where "page_alloc 0 PR_KERNEL sample_free = Some (Some 0, fr)" "frames_ok {(0, 0)} sample_lists1 fr"
    "use_count (page_area fr ! 0) = 1"
proof -
  have "(0 :: u32) \<le> 6" by simp
  moreover have "take_block (unat (0 :: u32)) sample_lists = Some (0, sample_lists1)" using sample_take0 by simp
  ultimately obtain fr where fr: "page_alloc 0 PR_KERNEL sample_free = Some (Some 0, fr)"
    "buddy_ok (insert (0, unat (0 :: u32)) {}) sample_lists1 fr" "n_pages fr = n_pages sample_free"
    "use_count (page_area fr ! 0) = use_count (page_area sample_free ! 0) + 1"
    by (rule page_alloc_some [OF sample_free_ok]) blast
  then show thesis using that [of fr] by (simp add: frames_ok_def sample_free_def)
qed

lemma sample_directory: "directory_ok {(0, 0)} 0 (\<lambda>_. 0)"
  by (simp add: directory_ok_def PDE_EXISTS_bit)

section \<open>Properties\<close>

text \<open>
  C11: Mapping a page. On a well-formed directory, for a user address, and when the table
  exists or a page for it can be had, \<^verbatim>\<open>ptable_map\<close> returns; the processor then translates the
  address to the given frame, lets user code at it, and lets it be written exactly if that was
  asked (as the processor decides, from directory entry and table entry); translation and rights of every
  user address on another page are as before; directory and allocator stay well formed.
\<close>
theorem ptable_map_translates:
  assumes "frames_ok A fl (frames s)" and "directory_ok A d (words s)" and "va < KERNEL_START_VIRT"
    and "PDE_EXISTS (words s (GET_PDE (slab_base d) va)) \<or> take_block 0 fl \<noteq> None"
  shows "\<exists>A' fl' s'. ptable_map (slab_base d) va pa fgs s = Some s' \<and> frames_ok A' fl' (frames s') \<and> A \<subseteq> A' \<and>
    directory_ok A' d (words s') \<and>
    walk (words s') (slab_base d) va = Some (PAGE_FRAME pa OR (va AND 0xFFF)) \<and>
    walk_user (words s') (slab_base d) va \<and> (walk_writable (words s') (slab_base d) va \<longleftrightarrow> TEST_BIT fgs VM_MAP_WRITE) \<and>
    (\<forall>va' < KERNEL_START_VIRT. PAGE_FRAME va' \<noteq> PAGE_FRAME va \<longrightarrow>
       same_access (words s') (slab_base d) (words s) (slab_base d) va')"
  using assms by (rule ptable_map_ok)

text \<open>An empty directory in page 0.\<close>
theorem ptable_map_translates_witness:
  "\<exists>fr A' fl' s'. page_alloc 0 PR_KERNEL sample_free = Some (Some 0, fr) \<and>
     ptable_map (slab_base 0) 0x400123 0x5000 VM_MAP_WRITE (sample_ptable fr) = Some s' \<and>
     frames_ok A' fl' (frames s') \<and> directory_ok A' 0 (words s') \<and>
     walk (words s') (slab_base 0) 0x400123 = Some 0x5123 \<and>
     walk_user (words s') (slab_base 0) 0x400123 \<and> walk_writable (words s') (slab_base 0) 0x400123"
proof -
  obtain fr where fr: "page_alloc 0 PR_KERNEL sample_free = Some (Some 0, fr)" "frames_ok {(0, 0)} sample_lists1 fr"
    by (rule sample_alloc) blast
  have "PAGE_FRAME 0x5000 OR (0x400123 AND 0xFFF) = 0x5123" "TEST_BIT VM_MAP_WRITE VM_MAP_WRITE"
    "0x400123 < KERNEL_START_VIRT" by (simp_all add: rotary_macro rotary_const)
  with ptable_map_translates [of "{(0, 0)}" sample_lists1 "sample_ptable fr" 0 "0x400123" "0x5000" VM_MAP_WRITE]
    fr sample_directory sample_take1 show ?thesis by (simp add: sample_ptable_def) blast
qed

text \<open>
  Unmapping a page. \<^verbatim>\<open>ptable_unmap\<close> without freeing always returns and leaves the
  allocator alone; the address is not translated any more, and every address on another page
  as before.
\<close>
lemma ptable_unmap_clears:
  assumes "frames_ok A fl (frames s)" and "directory_ok A d (words s)" and "va < KERNEL_START_VIRT"
  shows "\<exists>s'. ptable_unmap img (slab_base d) va False s = Some s' \<and> frames s' = frames s \<and>
    directory_ok A d (words s') \<and> walk (words s') (slab_base d) va = None \<and>
    (\<forall>va' < KERNEL_START_VIRT. PAGE_FRAME va' \<noteq> PAGE_FRAME va \<longrightarrow>
       walk (words s') (slab_base d) va' = walk (words s) (slab_base d) va')"
proof -
  obtain s' where s': "ptable_unmap img (slab_base d) va False s = Some s'" "frames s' = frames s"
    using ptable_unmap_keep by blast
  with ptable_unmap_tables [OF assms s'(1)] show ?thesis by blast
qed

text \<open>An empty directory in page 0.\<close>
lemma ptable_unmap_clears_witness:
  "\<exists>fr s'. page_alloc 0 PR_KERNEL sample_free = Some (Some 0, fr) \<and>
     ptable_unmap sample_image (slab_base 0) 0x400123 False (sample_ptable fr) = Some s' \<and>
     walk (words s') (slab_base 0) 0x400123 = None"
proof -
  obtain fr where fr: "page_alloc 0 PR_KERNEL sample_free = Some (Some 0, fr)" "frames_ok {(0, 0)} sample_lists1 fr"
    by (rule sample_alloc) blast
  have "0x400123 < KERNEL_START_VIRT" by (simp add: rotary_const)
  with ptable_unmap_clears [of "{(0, 0)}" sample_lists1 "sample_ptable fr" 0 "0x400123" sample_image] fr sample_directory
  show ?thesis by (simp add: sample_ptable_def) blast
qed

text \<open>
  A new directory. When a page is free, \<^verbatim>\<open>ptable_pgd_new\<close> returns a page that was not in
  use before, whose every translation is that of the kernel's directory, with an empty user
  half that is well formed.
\<close>
lemma ptable_pgd_new_copies_kernel:
  assumes "frames_ok A fl (frames s)" and "take_block 0 fl = Some (t, fl')"
    and "kernel_directory (valid_pages (frames s)) k (words s)"
  shows "\<exists>s'. ptable_pgd_new (slab_base k) s = Some (slab_base t, s') \<and> (t, 0) \<notin> A \<and>
    frames_ok (insert (t, 0) A) fl' (frames s') \<and> directory_ok (insert (t, 0) A) t (words s') \<and>
    (\<forall>va. walk (words s') (slab_base t) va = walk (words s) (slab_base k) va)"
  using assms by (rule ptable_pgd_new_ok)

text \<open>The kernel's directory in page 100, beyond the 64 pages of the allocator.\<close>
lemma ptable_pgd_new_copies_kernel_witness:
  "\<exists>s'. ptable_pgd_new (slab_base 100) (sample_ptable sample_free) = Some (slab_base 0, s') \<and>
     frames_ok {(0, 0)} sample_lists1 (frames s') \<and> directory_ok {(0, 0)} 0 (words s')"
proof -
  have "kernel_directory (valid_pages sample_free) 100 (\<lambda>_. 0)"
    using sample_valid [of sample_free 6 0] by (simp add: kernel_directory_def PDE_EXISTS_bit sample_free_def)
  with ptable_pgd_new_copies_kernel [of "{}" sample_lists "sample_ptable sample_free" 0 sample_lists1 100]
    sample_frames_ok sample_take0 show ?thesis by (simp add: sample_ptable_def) blast
qed

text \<open>
  The end address of \<^verbatim>\<open>ptable_copy_range\<close> is ignored when it lies in the same table as the
  start: ranges with the same start and any two ends in that table have the same effect (all
  entries of the table from the start on are copied).
\<close>
lemma ptable_copy_range_ignores_end:
  assumes "PAGE_DIRECTORY_INDEX end_va = PAGE_DIRECTORY_INDEX start_va"
    and "PAGE_DIRECTORY_INDEX end_va' = PAGE_DIRECTORY_INDEX start_va"
  shows "ptable_copy_range src dst start_va end_va fl s = ptable_copy_range src dst start_va end_va' fl s"
proof -
  have "copy_tables fl src dst (entry_range d d p q) [d..<Suc d] s = copy_tables fl src dst (entry_range d d p q') [d..<Suc d] s"
    for d p q q' by (simp add: entry_range_def)
  then show ?thesis unfolding ptable_copy_range_def Let_def assms .
qed

text \<open>An empty range and one of a whole table.\<close>
theorem ptable_copy_range_ignores_end_witness:
  "ptable_copy_range 0xC0000000 0xC0001000 0x400000 0x400000 PTC_SHARE (sample_ptable sample_free) =
   ptable_copy_range 0xC0000000 0xC0001000 0x400000 0x7FF000 PTC_SHARE (sample_ptable sample_free)"
  by (rule ptable_copy_range_ignores_end) (simp_all add: rotary_macro)

text \<open>
  Unmapping with freeing returns the page of the mapping to the allocator: it implements
  \<^const>\<open>give_block\<close> on the free lists, provided the mapped frame is an allocated page with one user.
\<close>
lemma ptable_unmap_frees:
  assumes "frames_ok A fl (frames s)" and "PDE_EXISTS (words s (GET_PDE (slab_base d) va))"
    and "PTE_PA (words s (ptable_get_pte (words s) (slab_base d) va)) = PFN_TO_PA (of_nat p)"
    and "(p, 0) \<in> A" and "\<not> critical_page img p" and "use_count (page_area (frames s) ! p) \<le> 1"
  shows "\<exists>s'. ptable_unmap img (slab_base d) va True s = Some s' \<and>
    frames_ok (A - {(p, 0)}) (give_block p 0 fl) (frames s')"
  using assms by (rule ptable_unmap_free)

text \<open>
  Page 0 mapped by a table in page 101, which a directory in page 100 points to.
\<close>
lemma ptable_unmap_frees_witness:
  "\<exists>fr s'. page_alloc 0 PR_KERNEL sample_free = Some (Some 0, fr) \<and>
     ptable_unmap sample_image (slab_base 100) 0 True
       ((sample_ptable fr)\<lparr>words := (\<lambda>_. 0)(slab_base 100 := 0x65007, slab_base 101 := 7)\<rparr>) = Some s' \<and>
     frames_ok {} (give_block 0 0 sample_lists1) (frames s')"
proof -
  obtain fr where fr: "page_alloc 0 PR_KERNEL sample_free = Some (Some 0, fr)" "frames_ok {(0, 0)} sample_lists1 fr"
    "use_count (page_area fr ! 0) = 1" by (rule sample_alloc)
  let ?w = "(\<lambda>_. 0)(slab_base 100 := 0x65007, slab_base 101 := 7) :: u32 \<Rightarrow> u32"
  have b: "slab_base 100 = 0xC0064000" "slab_base 101 = 0xC0065000"
    by (simp_all add: slab_base_def rotary_macro rotary_const)
  have g: "GET_PDE (slab_base 100) 0 = slab_base 100" by (simp add: rotary_macro)
  have e: "PDE_EXISTS (?w (slab_base 100))" by (simp add: b rotary_macro rotary_const)
  have t: "ptable_get_pte ?w (slab_base 100) 0 = slab_base 101"
    using e by (simp add: ptable_get_pte_def g) (simp add: b rotary_macro rotary_const)
  have p: "PTE_PA (?w (slab_base 101)) = PFN_TO_PA (of_nat 0)" by (simp add: rotary_macro)
  show ?thesis
    using ptable_unmap_frees [of "{(0, 0)}" sample_lists1 "(sample_ptable fr)\<lparr>words := ?w\<rparr>" 100 0 0 sample_image]
      fr e t p g sample_not_critical by (simp add: sample_ptable_def)
qed

end
