(* ===== verification/Paging.thy ===== *)
theory Paging
  imports Ptable_Props
begin

text \<open>
  The kernel's own page directory, \<^verbatim>\<open>arch/x86/kernel/paging.c\<close>, with the processor features it asks
  for in \<^verbatim>\<open>arch/x86/kernel/cpuid.c\<close>. The results of the \<^verbatim>\<open>cpuid\<close> instruction and the register
  \<^verbatim>\<open>cr4\<close> are a record. The directory lies in the kernel image at address \<open>kpgd\<close>; page tables
  come from the boot memory allocator.
\<close>

section \<open>Processor features\<close>

record cpu_features =
  leaf1_edx :: u32
  cr4 :: u32

definition CPUID_FEAT_EDX_PSE :: u32 where [rotary_const]: "CPUID_FEAT_EDX_PSE = push_bit 3 1"
definition CPUID_FEAT_EDX_APIC :: u32 where [rotary_const]: "CPUID_FEAT_EDX_APIC = push_bit 9 1"
definition CPUID_FEAT_EDX_PGE :: u32 where [rotary_const]: "CPUID_FEAT_EDX_PGE = push_bit 13 1"
definition CPUID_FEAT_ECX_X2APIC :: u32 where [rotary_const]: "CPUID_FEAT_ECX_X2APIC = push_bit 21 1"

definition cpuid_check_pse :: "cpu_features \<Rightarrow> i32" where
  "cpuid_check_pse f = (if leaf1_edx f AND CPUID_FEAT_EDX_PSE \<noteq> 0 then 1 else 0)"

definition cpuid_check_pge :: "cpu_features \<Rightarrow> i32" where
  "cpuid_check_pge f = (if leaf1_edx f AND CPUID_FEAT_EDX_PGE \<noteq> 0 then 1 else 0)"

definition cpuid_check_apic :: "cpu_features \<Rightarrow> i32" where
  "cpuid_check_apic f = (if leaf1_edx f AND CPUID_FEAT_EDX_APIC \<noteq> 0 then 1 else 0)"

definition cpuid_check_x2apic :: "cpu_features \<Rightarrow> i32" where
  "cpuid_check_x2apic f = (if leaf1_edx f AND CPUID_FEAT_ECX_X2APIC \<noteq> 0 then 1 else 0)"

definition x86_paging_pse_enabled :: "cpu_features \<Rightarrow> i32" where
  "x86_paging_pse_enabled f = (if cpuid_check_pse f = 0 then 0 else if cr4 f AND 0x10 \<noteq> 0 then 1 else 0)"

definition x86_paging_pge_enabled :: "cpu_features \<Rightarrow> i32" where
  "x86_paging_pge_enabled f = (if cpuid_check_pge f = 0 then 0 else if cr4 f AND 0x80 \<noteq> 0 then 1 else 0)"

section \<open>Setting up the kernel directory\<close>

record paging_state =
  pg_words :: "u32 \<Rightarrow> u32"
  pg_boot :: bootmem
  pg_cr3 :: u32

definition paging_switch_pgd :: "u32 \<Rightarrow> paging_state \<Rightarrow> i32 \<times> paging_state" where
  "paging_switch_pgd pgd s =
     (if pgd = 0 \<or> \<not> IS_PAGE_ALIGNED pgd then (E_ERROR, s) else (E_SUCCESS, s\<lparr>pg_cr3 := pgd\<rparr>))"

text \<open>The loop with 4 MiB pages.\<close>

definition huge_entries :: "u32 \<Rightarrow> u32 \<Rightarrow> nat \<Rightarrow> nat list \<Rightarrow> (u32 \<Rightarrow> u32) \<Rightarrow> u32 \<Rightarrow> u32" where
  "huge_entries kpgd pde_global table_start cs w =
     fold (\<lambda>i w. w(kpgd + 4 * of_nat i := MAKE_PDE (PDE_IDX_TO_ADDR (of_nat (i - table_start)))
       (PDE_PRESENT OR PDE_WRITABLE OR PDE_PAGE_SIZE_4M OR pde_global))) cs w"

text \<open>Filling one page table of the kernel mapping.\<close>

definition fill_table :: "u32 \<Rightarrow> nat \<Rightarrow> nat \<Rightarrow> u32 \<Rightarrow> (u32 \<Rightarrow> u32) \<Rightarrow> u32 \<Rightarrow> u32" where
  "fill_table pte_global table_start i pte w =
     fold (\<lambda>j w. w(pte + 4 * of_nat j := MAKE_PTE (PDE_IDX_TO_ADDR (of_nat (i - table_start)) + PTE_IDX_TO_ADDR (of_nat j))
       (PTE_PRESENT OR PTE_WRITABLE OR pte_global))) [0..<PAGE_TABLE_SIZE] w"

text \<open>
  The loops that give a range of directory entries a page table each: allocate, fill, enter.
  \<open>fill\<close> is the body's way to fill the new table.
\<close>

primrec table_loop ::
  "(nat \<Rightarrow> u32 \<Rightarrow> (u32 \<Rightarrow> u32) \<Rightarrow> u32 \<Rightarrow> u32) \<Rightarrow> u32 \<Rightarrow> u32 \<Rightarrow> nat list \<Rightarrow> paging_state \<Rightarrow> paging_state outcome" where
  "table_loop fill kpgd pde_global [] s = Returned s"
| "table_loop fill kpgd pde_global (i # cs) s =
     (let (pte, bm) = bootmem_alloc PAGE_SIZE PAGE_SIZE (pg_boot s)
      in if pte = 0 then Panic
         else table_loop fill kpgd pde_global cs
           (s\<lparr>pg_boot := bm, pg_words := (fill i pte (pg_words s))(kpgd + 4 * of_nat i :=
              MAKE_PDE (VIR_TO_PHY pte) (PDE_PRESENT OR PDE_WRITABLE OR pde_global))\<rparr>))"

definition paging_setup_kernel_pgd :: "cpu_features \<Rightarrow> u32 \<Rightarrow> paging_state \<Rightarrow> paging_state outcome" where
  "paging_setup_kernel_pgd f kpgd s =
     (let table_start = unat (PAGE_DIRECTORY_INDEX KERNEL_START_VIRT);
          table_kmap = unat (PAGE_DIRECTORY_INDEX KMAP_START_VIRT);
          pde_global = (if x86_paging_pge_enabled f \<noteq> 0 then PDE_GLOBAL else 0);
          pte_global = (if x86_paging_pge_enabled f \<noteq> 0 then PTE_GLOBAL else 0);
          r = (if x86_paging_pse_enabled f \<noteq> 0
               then Returned (s\<lparr>pg_words := huge_entries kpgd pde_global table_start [table_start..<table_kmap] (pg_words s)\<rparr>)
               else table_loop (fill_table pte_global table_start) kpgd pde_global [table_start..<table_kmap] s)
      in case r of
           Panic \<Rightarrow> Panic
         | Returned s1 \<Rightarrow>
             (case table_loop (\<lambda>i. clear_page) kpgd pde_global [table_kmap..<PAGE_DIR_SIZE] s1 of
                Panic \<Rightarrow> Panic
              | Returned s2 \<Rightarrow> Returned (snd (paging_switch_pgd (VIR_TO_PHY kpgd) s2))))"

definition paging_init :: "cpu_features \<Rightarrow> u32 \<Rightarrow> paging_state \<Rightarrow> (i32 \<times> paging_state) outcome" where
  "paging_init f kpgd s =
     (case paging_setup_kernel_pgd f kpgd s of Panic \<Rightarrow> Panic | Returned s1 \<Rightarrow> Returned (E_SUCCESS, s1))"

definition paging_kernel_pgd :: "u32 \<Rightarrow> u32" where
  "paging_kernel_pgd kpgd = kpgd"

section \<open>Stores by index\<close>

lemma words_other:
  "\<forall>i\<in>set cs. a \<noteq> va + 4 * of_nat i \<Longrightarrow> fold (\<lambda>i w. w(va + 4 * of_nat i := g i)) cs (w :: u32 \<Rightarrow> u32) a = w a"
  by (induction cs arbitrary: w) auto

lemma words_at:
  fixes w :: "u32 \<Rightarrow> u32"
  assumes "i \<in> set cs" and "\<And>j. j \<in> set cs \<Longrightarrow> va + 4 * of_nat i = va + 4 * of_nat j \<Longrightarrow> i = j" and "distinct cs"
  shows "fold (\<lambda>i w. w(va + 4 * of_nat i := g i)) cs w (va + 4 * of_nat i) = g i"
  using assms
proof (induction cs arbitrary: w)
  case (Cons x xs)
  show ?case
  proof (cases "i \<in> set xs")
    case True
    then show ?thesis using Cons by (simp del: fun_upd_apply)
  next
    case False
    then have x: "i = x" using Cons.prems(1) by simp
    then have "\<forall>j\<in>set xs. va + 4 * of_nat i \<noteq> va + 4 * of_nat j" using Cons.prems(2) False by auto
    from words_other [OF this, of g "w(va + 4 * of_nat x := g x)"] x show ?thesis by (simp only: fold_simps fun_upd_same)
  qed
qed simp

lemma store_cell_at:
  assumes "t < 2 ^ 18" and "set cs \<subseteq> {..<1024}" and "distinct cs" and "i \<in> set cs"
  shows "fold (\<lambda>i w. w(slab_base t + 4 * of_nat i := g i)) cs (w :: u32 \<Rightarrow> u32) (cell t i) = g i"
  unfolding cell_def
proof (rule words_at [OF assms(4) _ assms(3)])
  fix j assume "j \<in> set cs" "slab_base t + 4 * of_nat i = slab_base t + 4 * of_nat j"
  then show "i = j" using cell_inject [OF assms(1,1), of i j] assms(2,4) by (auto simp: cell_def)
qed

lemma store_cell_other:
  "\<forall>i\<in>set cs. a \<noteq> cell t i \<Longrightarrow> fold (\<lambda>i w. w(slab_base t + 4 * of_nat i := g i)) cs (w :: u32 \<Rightarrow> u32) a = w a"
  unfolding cell_def by (rule words_other)

section \<open>Boot pages\<close>

text \<open>The bytes of page \<open>u\<close>, and the cells of pages that lie in free boot memory.\<close>

definition frame_span :: "nat \<Rightarrow> nat set" where
  "frame_span u = {4096 * u ..< 4096 * u + 4096}"

definition free_cell :: "bootmem \<Rightarrow> u32 \<Rightarrow> bool" where
  "free_cell b a \<longleftrightarrow> (\<exists>u<2 ^ 18. \<exists>j<1024. frame_span u \<subseteq> free_space b \<and> a = cell u j)"

lemma frame_span_ne [simp]: "4096 * u \<in> frame_span u"
  by (simp add: frame_span_def)

lemma free_cell_mono: "free_cell b a \<Longrightarrow> free_space b \<subseteq> free_space b' \<Longrightarrow> free_cell b' a"
  unfolding free_cell_def by blast

lemma boot_page:
  assumes wf: "bootmem_wf b" and run: "bootmem_alloc PAGE_SIZE PAGE_SIZE b = (pte, b')" and nz: "pte \<noteq> 0"
  shows "\<exists>u<2 ^ 18. pte = slab_base u \<and> bootmem_wf b' \<and> frame_span u \<subseteq> free_space b \<and> free_space b' \<subseteq> free_space b - frame_span u"
proof -
  note sp = bootmem_alloc_spec [OF wf _ run [unfolded PAGE_SIZE_power] nz, unfolded PAGE_SIZE_power [symmetric], simplified]
  let ?pa = "VIR_TO_PHY pte"
  have "4096 dvd unat ?pa" using sp(2) by simp
  then obtain u where u: "unat ?pa = 4096 * u" by (elim dvdE)
  have u18: "u < 2 ^ 18" using sp(8) u by simp
  have "unat (PFN_TO_PA (of_nat u)) = unat ?pa" using unat_frame_addr [OF u18] u by simp
  then have "?pa = PFN_TO_PA (of_nat u)" by (simp add: word_unat_eq_iff)
  then have "pte = slab_base u" by (metis slab_base_def vir_phy_inverse(2))
  moreover have "unat PAGE_SIZE = 4096" by (simp add: rotary_const)
  ultimately show ?thesis using sp(1,3,4) u u18 by (intro exI [of _ u]) (simp add: frame_span_def)
qed


section \<open>Giving directory entries their tables\<close>

text \<open>What the body's filling of a table must do: write the table's page and nothing else.\<close>

definition fills :: "(nat \<Rightarrow> u32 \<Rightarrow> (u32 \<Rightarrow> u32) \<Rightarrow> u32 \<Rightarrow> u32) \<Rightarrow> (nat \<Rightarrow> nat \<Rightarrow> u32) \<Rightarrow> bool" where
  "fills fill content \<longleftrightarrow> (\<forall>i u w. u < 2 ^ 18 \<longrightarrow>
     (\<forall>j<1024. fill i (slab_base u) w (cell u j) = content i j) \<and>
     (\<forall>a. (\<forall>j<1024. a \<noteq> cell u j) \<longrightarrow> fill i (slab_base u) w a = w a))"

text \<open>Table \<open>u\<close> holds \<open>content i\<close> and entry \<open>i\<close> of the directory in page \<open>k\<close> points to it.\<close>

definition has_table :: "(nat \<Rightarrow> nat \<Rightarrow> u32) \<Rightarrow> u32 \<Rightarrow> nat \<Rightarrow> (u32 \<Rightarrow> u32) \<Rightarrow> nat \<Rightarrow> nat \<Rightarrow> bool" where
  "has_table content fl k w i u \<longleftrightarrow> u < 2 ^ 18 \<and> w (cell k i) = MAKE_PDE (PFN_TO_PA (of_nat u)) fl \<and>
     (\<forall>j<1024. w (cell u j) = content i j)"

lemma VIR_TO_PHY_slab_base: "VIR_TO_PHY (slab_base u) = PFN_TO_PA (of_nat u)"
  by (simp add: slab_base_def)

lemma table_loop_ok:
  assumes "fills fill content" and "k < 2 ^ 18" and "distinct cs" and "set cs \<subseteq> {..<1024}"
    and "bootmem_wf (pg_boot s)" and "frame_span k \<inter> free_space (pg_boot s) = {}"
    and "table_loop fill (slab_base k) g cs s = Returned s'"
  shows "bootmem_wf (pg_boot s') \<and> free_space (pg_boot s') \<subseteq> free_space (pg_boot s) \<and> pg_cr3 s' = pg_cr3 s \<and>
    (\<exists>T. inj_on T (set cs) \<and> (\<forall>i\<in>set cs. has_table content (PDE_PRESENT OR PDE_WRITABLE OR g) k (pg_words s') i (T i) \<and>
       frame_span (T i) \<subseteq> free_space (pg_boot s) \<and> frame_span (T i) \<inter> free_space (pg_boot s') = {})) \<and>
    (\<forall>a. \<not> free_cell (pg_boot s) a \<longrightarrow> (\<forall>i\<in>set cs. a \<noteq> cell k i) \<longrightarrow> pg_words s' a = pg_words s a)"
  using assms(3-7)
proof (induction cs arbitrary: s)
  case Nil
  then show ?case by simp
next
  case (Cons i cs)
  obtain pte b where al: "bootmem_alloc PAGE_SIZE PAGE_SIZE (pg_boot s) = (pte, b)" by (cases "bootmem_alloc PAGE_SIZE PAGE_SIZE (pg_boot s)")
  have nz: "pte \<noteq> 0" using Cons.prems(5) al by (auto split: if_splits)
  obtain u where u: "u < 2 ^ 18" "pte = slab_base u" "bootmem_wf b" "frame_span u \<subseteq> free_space (pg_boot s)"
    "free_space b \<subseteq> free_space (pg_boot s) - frame_span u" using boot_page [OF Cons.prems(3) al nz] by blast
  define fl where "fl = PDE_PRESENT OR PDE_WRITABLE OR g"
  let ?w = "(fill i pte (pg_words s))(slab_base k + 4 * of_nat i := MAKE_PDE (VIR_TO_PHY pte) fl)"
  let ?s = "s\<lparr>pg_boot := b, pg_words := ?w\<rparr>"
  have run: "table_loop fill (slab_base k) g cs ?s = Returned s'"
    using Cons.prems(5) al nz by (simp add: fl_def)
  have i: "i < 1024" using Cons.prems(2) by simp
  have uk: "u \<noteq> k" using u(4) Cons.prems(4) frame_span_ne [of k] by blast
  have cu: "cell u j \<noteq> cell k i'" if "j < 1024" "i' < 1024" for j i' using cell_inject [OF u(1) assms(2) that] uk by simp
  have w: "?w = (fill i (slab_base u) (pg_words s))(cell k i := MAKE_PDE (PFN_TO_PA (of_nat u)) fl)"
    unfolding u(2) VIR_TO_PHY_slab_base cell_def [symmetric] ..
  have fu: "fill i (slab_base u) (pg_words s) (cell u j) = content i j" if "j < 1024" for j
    using assms(1) u(1) that unfolding fills_def by blast
  have fo: "fill i (slab_base u) (pg_words s) a = pg_words s a" if "\<forall>j<1024. a \<noteq> cell u j" for a
    using assms(1) u(1) that unfolding fills_def by blast
  have tab: "has_table content fl k ?w i u"
    unfolding w has_table_def using u(1) fu cu i by simp
  have ihp: "distinct cs" "set cs \<subseteq> {..<1024}" "bootmem_wf (pg_boot ?s)" "frame_span k \<inter> free_space (pg_boot ?s) = {}"
    using Cons.prems u(3,5) by auto
  note IH = Cons.IH [OF ihp run]
  have keep: "pg_words s' a = ?w a" if "\<not> free_cell b a" "\<forall>i\<in>set cs. a \<noteq> cell k i" for a using IH that by simp
  have nfree: "\<not> free_cell b (cell u j)" if "j < 1024" for j
  proof
    assume "free_cell b (cell u j)"
    then obtain v j' where v: "v < 2 ^ 18" "j' < 1024" "frame_span v \<subseteq> free_space b" "cell u j = cell v j'"
      by (auto simp: free_cell_def)
    then have "u = v" using cell_inject [OF u(1) v(1) that v(2)] by simp
    then show False using v(3) u(5) frame_span_ne [of u] by blast
  qed
  have nfreek: "\<not> free_cell b (cell k j)" if "j < 1024" for j
  proof
    assume "free_cell b (cell k j)"
    then obtain v j' where v: "v < 2 ^ 18" "j' < 1024" "frame_span v \<subseteq> free_space b" "cell k j = cell v j'"
      by (auto simp: free_cell_def)
    then have "k = v" using cell_inject [OF assms(2) v(1) that v(2)] by simp
    moreover have "frame_span k \<inter> free_space b = {}" using ihp(4) by simp
    ultimately show False using v(3) frame_span_ne [of k] by blast
  qed
  have notin: "\<forall>i'\<in>set cs. cell k i \<noteq> cell k i'"
    using cell_inject [OF assms(2,2) i] Cons.prems(1,2) by auto
  have "pg_words s' (cell u j) = ?w (cell u j)" if "j < 1024" for j
  proof (rule keep [OF nfree [OF that]])
    show "\<forall>i'\<in>set cs. cell u j \<noteq> cell k i'" using cu [OF that] Cons.prems(2) by auto
  qed
  moreover have "pg_words s' (cell k i) = ?w (cell k i)" by (rule keep [OF nfreek [OF i] notin])
  ultimately have "has_table content fl k (pg_words s') i u"
    using tab unfolding has_table_def by (simp del: fun_upd_apply)
  moreover have "frame_span u \<inter> free_space (pg_boot s') = {}" using IH u(5) by auto
  moreover have "pg_words s' a = pg_words s a" if a: "\<not> free_cell (pg_boot s) a" "\<forall>i'\<in>set (i # cs). a \<noteq> cell k i'" for a
  proof -
    have "\<not> free_cell b a" using a(1) free_cell_mono [of b a "pg_boot s"] u(5) by blast
    then have "pg_words s' a = ?w a" using keep a(2) by simp
    moreover have "a \<noteq> cell k i" using a(2) by simp
    moreover have "\<forall>j<1024. a \<noteq> cell u j" using a(1) u(1,4) unfolding free_cell_def by blast
    ultimately show ?thesis unfolding w by (simp add: fo)
  qed
  moreover obtain T where T: "inj_on T (set cs)" "\<forall>i'\<in>set cs. has_table content fl k (pg_words s') i' (T i') \<and>
      frame_span (T i') \<subseteq> free_space b \<and> frame_span (T i') \<inter> free_space (pg_boot s') = {}"
    using IH unfolding fl_def by auto
  have "T i' \<noteq> u" if "i' \<in> set cs" for i' using T(2) that u(5) frame_span_ne [of u] by blast
  then have inj: "inj_on (T(i := u)) (set (i # cs))" using T(1) Cons.prems(1) by (auto simp: inj_on_def)
  have "\<forall>i'\<in>set cs. frame_span (T i') \<subseteq> free_space (pg_boot s)" using T(2) u(5) by blast
  moreover have "bootmem_wf (pg_boot s')" "free_space (pg_boot s') \<subseteq> free_space (pg_boot s)" "pg_cr3 s' = pg_cr3 s"
    using IH u(5) by auto
  ultimately show ?case using u(4) T(2) unfolding fl_def [symmetric]
    by (intro conjI exI [of _ "T(i := u)"] inj) auto
qed


section \<open>Enough boot memory\<close>

text \<open>Some available region still has \<open>n\<close> whole pages in a row.\<close>

definition boot_room :: "nat \<Rightarrow> bootmem \<Rightarrow> bool" where
  "boot_room n b \<longleftrightarrow> (\<exists>i<16. available (mem_regions b ! i) \<and>
     (\<exists>p. 4096 dvd p \<and> unat (start_addr (mem_regions b ! i)) \<le> p \<and> p + 4096 * n \<le> unat (end_addr (mem_regions b ! i))))"

lemma boot_room_mono: "boot_room n b \<Longrightarrow> m \<le> n \<Longrightarrow> boot_room m b"
  unfolding boot_room_def by (meson add_left_mono le_trans mult_le_mono2)

lemma boot_room_alloc:
  assumes wf: "bootmem_wf b" and room: "boot_room (Suc n) b"
  shows "\<exists>pte b'. bootmem_alloc PAGE_SIZE PAGE_SIZE b = (pte, b') \<and> pte \<noteq> 0 \<and> boot_room n b'"
proof -
  obtain i p where i: "i < 16" "available (mem_regions b ! i)" and p: "4096 dvd p" "unat (start_addr (mem_regions b ! i)) \<le> p"
    "p + 4096 * Suc n \<le> unat (end_addr (mem_regions b ! i))" using room by (auto simp: boot_room_def)
  have sz: "unat PAGE_SIZE = 4096" by (simp add: rotary_const)
  have "i < length (mem_regions b)" using i(1) bootmem_wfD(1) [OF wf] by simp
  then have mem: "mem_regions b ! i \<in> set (mem_regions b)" by simp
  have "p < unat (end_addr (mem_regions b ! i))" "p + unat PAGE_SIZE \<le> unat (end_addr (mem_regions b ! i))" using p(3) sz by auto
  moreover have n12: "12 < (32 :: nat)" by simp
  moreover have "2 ^ 12 dvd p" using p(1) by simp
  ultimately have nz: "fst (bootmem_alloc PAGE_SIZE (2 ^ 12) b) \<noteq> 0"
    using bootmem_alloc_null [OF wf n12, of PAGE_SIZE] mem i(2) p(2) by blast
  have eq: "bootmem_alloc PAGE_SIZE PAGE_SIZE b = bootmem_alloc PAGE_SIZE (2 ^ 12) b" by (simp add: PAGE_SIZE_power)
  have "\<exists>pte b'. bootmem_alloc PAGE_SIZE (2 ^ 12) b = (pte, b') \<and> pte \<noteq> 0 \<and> boot_room n b'"
    using wf n12
  proof (cases rule: bootmem_alloc_cases [where sz = PAGE_SIZE])
    case null
    with nz show ?thesis by simp
  next
    case (issued j a)
    let ?b = "b\<lparr>mem_regions := (mem_regions b)[j := (mem_regions b ! j)\<lparr>start_addr := a + PAGE_SIZE\<rparr>]\<rparr>"
    have "boot_room n ?b"
    proof (cases "j = i")
      case False
      then have r: "mem_regions ?b ! i = mem_regions b ! i" by simp
      have "boot_room (Suc n) ?b" unfolding boot_room_def
        by (intro exI [of _ i] exI [of _ p] conjI) (simp_all only: r i p)
      then show ?thesis by (rule boot_room_mono) simp
    next
      case True
      note F = region_fits_iff [OF bootmem_wfD(2) [OF wf i(1)] i(2), of 12, folded issued(2) [unfolded True]]
      have ap: "unat a \<le> p" using F(4) [of p] p by simp
      have "unat (a + PAGE_SIZE) = unat a + 4096"
        using ap p(3) sz unat_u32_less [of "end_addr (mem_regions b ! i)"] by (subst unat_add_small) auto
      moreover have "4096 dvd p + 4096" using p(1) by simp
      moreover have r: "mem_regions ?b ! i = (mem_regions b ! i)\<lparr>start_addr := a + PAGE_SIZE\<rparr>"
        using True i(1) bootmem_wfD(1) [OF wf] by simp
      moreover have "p + 4096 + 4096 * n \<le> unat (end_addr (mem_regions b ! i))" using p(3) by simp
      ultimately show ?thesis using i ap unfolding boot_room_def
        by (intro exI [of _ i] exI [of _ "p + 4096"] conjI) (simp_all only: r, simp_all add: available_def)
    qed
    with issued(5) nz show ?thesis by auto
  qed
  then show ?thesis unfolding eq .
qed

lemma table_loop_returns:
  assumes "bootmem_wf (pg_boot s)" and "boot_room (length cs + n) (pg_boot s)"
  shows "\<exists>s'. table_loop fill kpgd g cs s = Returned s' \<and> boot_room n (pg_boot s')"
  using assms
proof (induction cs arbitrary: s)
  case Nil
  then show ?case by simp
next
  case (Cons i cs)
  obtain pte b where b: "bootmem_alloc PAGE_SIZE PAGE_SIZE (pg_boot s) = (pte, b)" "pte \<noteq> 0" "boot_room (length cs + n) b"
    using boot_room_alloc [OF Cons.prems(1), of "length cs + n"] Cons.prems(2) by auto
  have "bootmem_wf b" using boot_page [OF Cons.prems(1) b(1,2)] by blast
  with Cons.IH [of "s\<lparr>pg_boot := b, pg_words := (fill i pte (pg_words s))(kpgd + 4 * of_nat i :=
      MAKE_PDE (VIR_TO_PHY pte) (PDE_PRESENT OR PDE_WRITABLE OR g))\<rparr>"] b show ?case by simp
qed

section \<open>Translation of the kernel's addresses\<close>

lemma fills_clear: "fills (\<lambda>i. clear_page) (\<lambda>i j. 0)"
  unfolding fills_def using clear_page_cell clear_page_other by auto

definition kernel_pte :: "u32 \<Rightarrow> nat \<Rightarrow> nat \<Rightarrow> u32" where
  "kernel_pte g i j = MAKE_PTE (PDE_IDX_TO_ADDR (of_nat (i - 768)) + PTE_IDX_TO_ADDR (of_nat j)) (PTE_PRESENT OR PTE_WRITABLE OR g)"

lemma fills_kernel: "fills (fill_table g 768) (kernel_pte g)"
  unfolding fills_def fill_table_def kernel_pte_def PAGE_TABLE_SIZE_def
  by (auto intro!: store_cell_at store_cell_other)

lemma directory_range: "unat (PAGE_DIRECTORY_INDEX KERNEL_START_VIRT) = 768" "unat (PAGE_DIRECTORY_INDEX KMAP_START_VIRT) = 960"
  by (simp_all add: rotary_macro rotary_const)

lemma pdi_div: "pdi va = unat va div 2 ^ 22"
proof -
  have "unat va div 2 ^ 22 < 1024" using unat_u32_less [of va] by (simp add: less_mult_imp_div_less)
  then show ?thesis by (simp add: pdi_def)
qed

lemma pdi_kernel:
  "KERNEL_START_VIRT \<le> va \<longleftrightarrow> 768 \<le> pdi va" "va < KMAP_START_VIRT \<longleftrightarrow> pdi va < 960"
  unfolding pdi_div KERNEL_START_VIRT_def KMAP_START_VIRT_def word_le_nat_alt word_less_nat_alt by (simp, linarith)+

lemma VIR_TO_PHY_kernel: "KERNEL_START_VIRT \<le> va \<Longrightarrow> VIR_TO_PHY va = take_bit 30 va"
proof -
  assume k: "KERNEL_START_VIRT \<le> va"
  have "unat va < 4 * 2 ^ 30" using unat_u32_less [of va] by simp
  moreover have "3 * 2 ^ 30 \<le> unat va" using k by (simp add: word_le_nat_alt rotary_const)
  ultimately have "unat va mod 2 ^ 30 = unat va - 3 * 2 ^ 30" by (simp add: mod_if [of "unat va"] le_mod_geq)
  moreover have "unat (VIR_TO_PHY va) = unat va - 3 * 2 ^ 30"
    using k by (simp add: VIR_TO_PHY_def unat_sub_small word_le_nat_alt rotary_const)
  moreover have "unat (take_bit 30 va) = unat va mod 2 ^ 30" by (simp only: unsigned_take_bit_eq) (simp only: take_bit_eq_mod)
  ultimately show ?thesis by (simp add: word_unat_eq_iff)
qed

lemma pdi_offset: "768 \<le> pdi va \<Longrightarrow> (of_nat (pdi va - 768) :: u32) = drop_bit 22 (take_bit 30 va)"
proof -
  assume k: "768 \<le> pdi va"
  then have v: "take_bit 30 va = va - KERNEL_START_VIRT" using VIR_TO_PHY_kernel pdi_kernel(1) by (metis VIR_TO_PHY_def)
  have "unat (take_bit 30 va) = unat va - 768 * 2 ^ 22"
    unfolding v using k pdi_kernel(1) [of va] by (simp add: unat_sub_small word_le_nat_alt rotary_const)
  then have "unat (drop_bit 22 (take_bit 30 va)) = (unat va - 768 * 2 ^ 22) div 2 ^ 22"
    by (simp only: unat_drop_bit_eq) (simp only: drop_bit_eq_div)
  also have "\<dots> = pdi va - 768"
  proof -
    have "768 * 2 ^ 22 \<le> unat va" using k pdi_kernel(1) [of va] by (simp add: word_le_nat_alt rotary_const)
    then obtain y where "unat va = y + 768 * 2 ^ 22" by (metis add.commute le_Suc_ex)
    then show ?thesis unfolding pdi_div by simp
  qed
  finally have e: "unat (drop_bit 22 (take_bit 30 va)) = pdi va - 768" .
  show ?thesis unfolding e [symmetric] by (simp only: of_nat_unat ucast_id)
qed


lemma pti_frame: "push_bit 22 (drop_bit 22 (take_bit 30 va)) + push_bit 12 (of_nat (pti va)) = push_bit 12 (drop_bit 12 (take_bit 30 va :: u32))"
proof -
  let ?p = "take_bit 30 va"
  have p: "unat ?p = unat va mod 2 ^ 30" by (simp only: unsigned_take_bit_eq) (simp only: take_bit_eq_mod)
  have pt: "pti va = unat ?p div 2 ^ 12 mod 1024"
  proof -
    have "unat va mod (2 ^ 12 * 2 ^ 18) = 2 ^ 12 * (unat va div 2 ^ 12 mod 2 ^ 18) + unat va mod 2 ^ 12" by (rule mod_mult2_eq)
    then have "unat va mod 2 ^ 30 div 2 ^ 12 = unat va div 2 ^ 12 mod 2 ^ 18" by simp
    moreover have "unat va div 2 ^ 12 mod 2 ^ 18 mod 1024 = unat va div 2 ^ 12 mod 1024" by (rule mod_mod_cancel) simp
    ultimately show ?thesis unfolding pti_def p by simp
  qed
  have "unat (push_bit 12 (of_nat (pti va) :: u32)) = pti va * 2 ^ 12"
  proof -
    have "unat (of_nat (pti va) :: u32) = pti va" by (rule unat_le_imp_of_nat) (rule less_trans [OF pti_less], simp)
    moreover have "pti va * 4096 < 4294967296" using mult_strict_right_mono [OF pti_less [of va], of 4096] by linarith
    ultimately show ?thesis by (simp add: push_bit_eq_mult unat_word_ariths)
  qed
  moreover have "unat ?p div 2 ^ 22 * 2 ^ 22 + pti va * 2 ^ 12 = unat ?p div 2 ^ 12 * 2 ^ 12"
  proof -
    have "unat ?p div 2 ^ 22 = unat ?p div 2 ^ 12 div 1024" by (simp add: div_mult2_eq [symmetric])
    then have "unat ?p div 2 ^ 22 * 1024 + pti va = unat ?p div 2 ^ 12" unfolding pt by simp
    then have "(unat ?p div 2 ^ 22 * 1024 + pti va) * 2 ^ 12 = unat ?p div 2 ^ 12 * 2 ^ 12" by simp
    then show ?thesis by (simp add: algebra_simps)
  qed
  moreover have "unat ?p div 2 ^ 12 * 2 ^ 12 < 2 ^ 32"
    using unat_u32_less [of ?p] div_times_less_eq_dividend [of "unat ?p" "2 ^ 12"] by linarith
  ultimately show ?thesis
    unfolding word_unat_eq_iff using unat_add_small [of "push_bit 22 (drop_bit 22 ?p)" "push_bit 12 (of_nat (pti va))"]
    by (simp only: unat_push_drop)
qed

lemma walk_huge_entry:
  assumes "768 \<le> pdi va" and "w (cell k (pdi va)) = MAKE_PDE (PDE_IDX_TO_ADDR (of_nat (pdi va - 768))) fl" and "bit fl 0" "bit fl 7"
  shows "walk w (slab_base k) va = Some (VIR_TO_PHY va)" and "walk_entries w (slab_base k) va = Some (w (cell k (pdi va)), None)"
proof -
  have m: "(0xFFC00000 :: u32) = NOT (mask 22)" "(0x3FFFFF :: u32) = mask 22" by code_simp+
  have p: "VIR_TO_PHY va = take_bit 30 va" using VIR_TO_PHY_kernel pdi_kernel(1) assms(1) by blast
  let ?e = "MAKE_PDE (push_bit 22 (drop_bit 22 (take_bit 30 va))) fl"
  have e: "w (cell k (pdi va)) = ?e" unfolding assms(2) PDE_IDX_TO_ADDR_def pdi_offset [OF assms(1)] ..
  have "PDE_EXISTS ?e" "PDE_IS_HUGE ?e"
    unfolding PDE_EXISTS_bit PDE_HUGE_bit using assms(3,4) by (simp_all add: entry_flag)
  moreover have "(?e AND 0xFFC00000) OR (va AND 0x3FFFFF) = take_bit 30 va"
    unfolding m MAKE_PDE_def frame_mask by (rule bit_eqI) (auto simp: bit_simps)
  ultimately show "walk w (slab_base k) va = Some (VIR_TO_PHY va)" "walk_entries w (slab_base k) va = Some (w (cell k (pdi va)), None)"
    unfolding walk_def walk_entries_def GET_cell e p by simp_all
qed

lemma walk_table_entry:
  assumes "has_table content fl k w (pdi va) u" and "bit fl 0" and "\<not> bit fl 7"
  shows "walk w (slab_base k) va = (let t = content (pdi va) (pti va) in if PTE_EXISTS t then Some (PAGE_FRAME t OR (va AND 0xFFF)) else None)"
    and "walk_entries w (slab_base k) va = (let t = content (pdi va) (pti va) in if PTE_EXISTS t then Some (w (cell k (pdi va)), Some t) else None)"
proof -
  have t: "u < 2 ^ 18" "w (cell k (pdi va)) = MAKE_PDE (PFN_TO_PA (of_nat u)) fl" "w (cell u (pti va)) = content (pdi va) (pti va)"
    using assms(1) by (simp_all add: has_table_def)
  have "PDE_EXISTS (MAKE_PDE (PFN_TO_PA (of_nat u)) fl)" "\<not> PDE_IS_HUGE (MAKE_PDE (PFN_TO_PA (of_nat u)) fl)"
    unfolding PDE_EXISTS_bit PDE_HUGE_bit using assms(2,3) by (simp_all add: entry_flag)
  with t show "walk w (slab_base k) va = (let t = content (pdi va) (pti va) in if PTE_EXISTS t then Some (PAGE_FRAME t OR (va AND 0xFFF)) else None)"
    "walk_entries w (slab_base k) va = (let t = content (pdi va) (pti va) in if PTE_EXISTS t then Some (w (cell k (pdi va)), Some t) else None)"
    by (simp_all add: walk_def walk_entries_def GET_cell PDE_TO_PGT_make Let_def)
qed

lemma walk_kernel_pte:
  assumes "768 \<le> pdi va" and "t = kernel_pte g (pdi va) (pti va)"
  shows "PTE_EXISTS t" and "PAGE_FRAME t OR (va AND 0xFFF) = VIR_TO_PHY va"
proof -
  have p: "VIR_TO_PHY va = take_bit 30 va" using VIR_TO_PHY_kernel pdi_kernel(1) assms(1) by blast
  have t: "t = MAKE_PTE (push_bit 12 (drop_bit 12 (take_bit 30 va))) (PTE_PRESENT OR PTE_WRITABLE OR g)"
    unfolding assms(2) kernel_pte_def PDE_IDX_TO_ADDR_def PTE_IDX_TO_ADDR_def pdi_offset [OF assms(1)] pti_frame ..
  show "PTE_EXISTS t" unfolding PTE_EXISTS_bit t by (simp add: entry_flag bit_or_iff PTE_PRESENT_def)
  show "PAGE_FRAME t OR (va AND 0xFFF) = VIR_TO_PHY va"
    unfolding p t PAGE_FRAME_make unfolding PAGE_FRAME_def frame_mask by (rule bit_eqI) (auto simp: bit_simps)
qed


section \<open>The whole set-up\<close>

definition global_flag :: "cpu_features \<Rightarrow> u32" where
  "global_flag f = (if x86_paging_pge_enabled f \<noteq> 0 then 0x100 else 0)"

lemma table_flags: "bit (PDE_PRESENT OR PDE_WRITABLE OR global_flag f) 0" "\<not> bit (PDE_PRESENT OR PDE_WRITABLE OR global_flag f) 7"
  "bit (PDE_PRESENT OR PDE_WRITABLE OR PDE_PAGE_SIZE_4M OR global_flag f) 0"
  "bit (PDE_PRESENT OR PDE_WRITABLE OR PDE_PAGE_SIZE_4M OR global_flag f) 7"
  by (simp_all add: global_flag_def rotary_const)

lemma rights_flags: "bit (PDE_PRESENT OR PDE_WRITABLE OR global_flag f) 1" "\<not> bit (PDE_PRESENT OR PDE_WRITABLE OR global_flag f) 2"
  "bit (PDE_PRESENT OR PDE_WRITABLE OR PDE_PAGE_SIZE_4M OR global_flag f) 1"
  "\<not> bit (PDE_PRESENT OR PDE_WRITABLE OR PDE_PAGE_SIZE_4M OR global_flag f) 2"
  "bit (PTE_PRESENT OR PTE_WRITABLE OR global_flag f) 1"
  by (simp_all add: global_flag_def rotary_const)

text \<open>
  A kernel address is translated to itself minus 0xC0000000, may be written and is closed to user code. Between the two
  loops the entries 768 to 959 translate so, and only they and fresh pages changed.
\<close>

definition kernel_access :: "(u32 \<Rightarrow> u32) \<Rightarrow> nat \<Rightarrow> u32 \<Rightarrow> bool" where
  "kernel_access w k va \<longleftrightarrow> walk w (slab_base k) va = Some (VIR_TO_PHY va) \<and> walk_writable w (slab_base k) va \<and> \<not> walk_user w (slab_base k) va"

definition linear_done :: "nat \<Rightarrow> paging_state \<Rightarrow> paging_state \<Rightarrow> bool" where
  "linear_done k s s1 \<longleftrightarrow> bootmem_wf (pg_boot s1) \<and> free_space (pg_boot s1) \<subseteq> free_space (pg_boot s) \<and> pg_cr3 s1 = pg_cr3 s \<and>
     (\<forall>va. 768 \<le> pdi va \<longrightarrow> pdi va < 960 \<longrightarrow> kernel_access (pg_words s1) k va) \<and>
     (\<forall>i<1024. i < 768 \<or> 960 \<le> i \<longrightarrow> pg_words s1 (cell k i) = pg_words s (cell k i)) \<and>
     (\<forall>i. 768 \<le> i \<longrightarrow> i < 960 \<longrightarrow> \<not> PDE_IS_HUGE (pg_words s1 (cell k i)) \<longrightarrow>
        (\<exists>u<2 ^ 18. u \<noteq> k \<and> PDE_TO_PGT (pg_words s1 (cell k i)) = slab_base u \<and> frame_span u \<inter> free_space (pg_boot s1) = {}))"


lemma linear_huge:
  assumes "k < 2 ^ 18" and "bootmem_wf (pg_boot s)" and cs: "set cs = {768..<960}" "distinct cs"
  shows "linear_done k s (s\<lparr>pg_words := huge_entries (slab_base k) (global_flag f) 768 cs (pg_words s)\<rparr>)"
proof -
  let ?w = "huge_entries (slab_base k) (global_flag f) 768 cs (pg_words s)"
  let ?fl = "PDE_PRESENT OR PDE_WRITABLE OR PDE_PAGE_SIZE_4M OR global_flag f"
  have e: "?w (cell k i) = MAKE_PDE (PDE_IDX_TO_ADDR (of_nat (i - 768))) ?fl" if "768 \<le> i" "i < 960" for i
    unfolding huge_entries_def using that cs by (intro store_cell_at [OF assms(1)]) auto
  have o: "?w (cell k i) = pg_words s (cell k i)" if "i < 1024" "i < 768 \<or> 960 \<le> i" for i
    unfolding huge_entries_def using that cell_inject [OF assms(1,1) that(1)] cs by (intro store_cell_other) auto
  have "kernel_access ?w k va" if "768 \<le> pdi va" "pdi va < 960" for va
    using walk_huge_entry [where w = ?w and k = k, OF that(1) e [OF that]] table_flags(3,4) [of f] rights_flags(3,4) [of f] e [OF that]
    by (simp add: kernel_access_def walk_writable_def walk_user_def all_bit_def entry_flag)
  moreover have "PDE_IS_HUGE (?w (cell k i))" if "768 \<le> i" "i < 960" for i
    unfolding e [OF that] PDE_HUGE_bit using table_flags(4) by (simp add: entry_flag)
  ultimately show ?thesis using o assms(2) unfolding linear_done_def by simp
qed

lemma linear_tables:
  assumes k: "k < 2 ^ 18" and wf: "bootmem_wf (pg_boot s)" and fr: "frame_span k \<inter> free_space (pg_boot s) = {}"
    and cs: "set cs = {768..<960}" "distinct cs"
    and run: "table_loop (fill_table (global_flag f) 768) (slab_base k) (global_flag f) cs s = Returned s1"
  shows "linear_done k s s1"
proof -
  let ?fl = "PDE_PRESENT OR PDE_WRITABLE OR global_flag f"
  have "set cs \<subseteq> {..<1024}" using cs by auto
  note L = table_loop_ok [OF fills_kernel k cs(2) this wf fr run, unfolded cs]
  have tab: "\<exists>u. has_table (kernel_pte (global_flag f)) ?fl k (pg_words s1) i u \<and> frame_span u \<subseteq> free_space (pg_boot s) \<and>
      frame_span u \<inter> free_space (pg_boot s1) = {}"
    if "768 \<le> i" "i < 960" for i using L that by (meson atLeastLessThan_iff)
  have "kernel_access (pg_words s1) k va" if va: "768 \<le> pdi va" "pdi va < 960" for va
  proof -
    obtain u where u: "has_table (kernel_pte (global_flag f)) ?fl k (pg_words s1) (pdi va) u" using tab [OF va] by blast
    then have "pg_words s1 (cell k (pdi va)) = MAKE_PDE (PFN_TO_PA (of_nat u)) ?fl" by (simp add: has_table_def)
    with walk_table_entry [OF u table_flags(1,2)] walk_kernel_pte [OF va(1) refl, of "global_flag f"] rights_flags [of f]
    show ?thesis by (simp add: kernel_access_def walk_writable_def walk_user_def all_bit_def entry_flag Let_def) (simp add: kernel_pte_def entry_flag)
  qed
  moreover have "\<not> free_cell (pg_boot s) (cell k i)" if "i < 1024" for i
  proof
    assume "free_cell (pg_boot s) (cell k i)"
    then obtain v j where v: "v < 2 ^ 18" "j < 1024" "frame_span v \<subseteq> free_space (pg_boot s)" "cell k i = cell v j"
      by (auto simp: free_cell_def)
    then have "k = v" using cell_inject [OF k v(1) that v(2)] by simp
    then show False using v(3) fr frame_span_ne [of k] by blast
  qed
  then have "pg_words s1 (cell k i) = pg_words s (cell k i)" if "i < 1024" "i < 768 \<or> 960 \<le> i" for i
    using L that cell_inject [OF k k that(1)] by auto
  moreover have "\<exists>u<2 ^ 18. u \<noteq> k \<and> PDE_TO_PGT (pg_words s1 (cell k i)) = slab_base u \<and> frame_span u \<inter> free_space (pg_boot s1) = {}"
    if "768 \<le> i" "i < 960" for i
  proof -
    obtain u where u: "has_table (kernel_pte (global_flag f)) ?fl k (pg_words s1) i u" "frame_span u \<subseteq> free_space (pg_boot s)"
      "frame_span u \<inter> free_space (pg_boot s1) = {}" using tab [OF \<open>768 \<le> i\<close> \<open>i < 960\<close>] by blast
    then have "u \<noteq> k" using fr frame_span_ne [of k] by blast
    with u show ?thesis by (auto simp: has_table_def PDE_TO_PGT_make)
  qed
  ultimately show ?thesis using L unfolding linear_done_def by blast
qed


lemma not_free_cell:
  assumes "u < 2 ^ 18" "j < 1024" "frame_span u \<inter> free_space b = {}"
  shows "\<not> free_cell b (cell u j)"
proof
  assume "free_cell b (cell u j)"
  then obtain v j' where v: "v < 2 ^ 18" "j' < 1024" "frame_span v \<subseteq> free_space b" "cell u j = cell v j'"
    by (auto simp: free_cell_def)
  then have "u = v" using cell_inject [OF assms(1) v(1) assms(2) v(2)] by simp
  then show False using v(3) assms(3) frame_span_ne [of u] by blast
qed

text \<open>
  The kmap range: each of the directory entries from 960 on points to a page table of its own, writable and closed to user
  code, that maps no page yet and lies outside free boot memory.
\<close>

definition kmap_tables :: "nat \<Rightarrow> paging_state \<Rightarrow> bool" where
  "kmap_tables k s \<longleftrightarrow> (\<exists>T. inj_on T {960..<1024} \<and> (\<forall>i\<in>{960..<1024}. let e = pg_words s (cell k i) in
     PDE_EXISTS e \<and> \<not> PDE_IS_HUGE e \<and> bit e 1 \<and> \<not> bit e 2 \<and> PDE_TO_PGT e = slab_base (T i) \<and> T i < 2 ^ 18 \<and>
     (\<forall>j<1024. pg_words s (cell (T i) j) = 0) \<and> frame_span (T i) \<inter> free_space (pg_boot s) = {}))"

text \<open>What the set-up promises: the linear mapping, the kmap tables, and a directory new address spaces can be copied from.\<close>

definition kernel_mapped :: "nat \<Rightarrow> paging_state \<Rightarrow> bool" where
  "kernel_mapped k s \<longleftrightarrow>
     (\<forall>va. walk (pg_words s) (slab_base k) va = (if KERNEL_START_VIRT \<le> va \<and> va < KMAP_START_VIRT then Some (VIR_TO_PHY va) else None)) \<and>
     (\<forall>va. KERNEL_START_VIRT \<le> va \<and> va < KMAP_START_VIRT \<longrightarrow> walk_writable (pg_words s) (slab_base k) va \<and> \<not> walk_user (pg_words s) (slab_base k) va) \<and>
     kmap_tables k s \<and>
     (\<forall>V. (\<forall>v\<in>V. frame_span v \<subseteq> free_space (pg_boot s)) \<longrightarrow> kernel_directory V k (pg_words s))"

lemma kernel_mapped_mono:
  assumes "kernel_mapped k s" and "pg_words s' = pg_words s" and "free_space (pg_boot s') \<subseteq> free_space (pg_boot s)"
  shows "kernel_mapped k s'"
proof -
  have "frame_span u \<inter> free_space (pg_boot s') = {}" if "frame_span u \<inter> free_space (pg_boot s) = {}" for u using that assms(3) by blast
  then have "kmap_tables k s'" using assms(1,2) unfolding kernel_mapped_def kmap_tables_def Let_def by metis
  moreover have "frame_span v \<subseteq> free_space (pg_boot s)" if "frame_span v \<subseteq> free_space (pg_boot s')" for v using that assms(3) by blast
  ultimately show ?thesis using assms(1,2) unfolding kernel_mapped_def by simp
qed

lemma kmap_done:
  assumes k: "k < 2 ^ 18" and fr: "frame_span k \<inter> free_space (pg_boot s) = {}" and lin: "linear_done k s s1"
    and empty: "\<forall>i<768. \<not> PDE_EXISTS (pg_words s (cell k i))" and cs: "set cs = {960..<1024}" "distinct cs"
    and run: "table_loop (\<lambda>i. clear_page) (slab_base k) (global_flag f) cs s1 = Returned s2"
  shows "kernel_mapped k s2 \<and> bootmem_wf (pg_boot s2)"
proof -
  let ?fl = "PDE_PRESENT OR PDE_WRITABLE OR global_flag f"
  note D = lin [unfolded linear_done_def]
  have wf1: "bootmem_wf (pg_boot s1)" and fr1: "frame_span k \<inter> free_space (pg_boot s1) = {}" using D fr by auto
  have "set cs \<subseteq> {..<1024}" using cs by auto
  note L = table_loop_ok [OF fills_clear k cs(2) this wf1 fr1 run, unfolded cs]
  have keep: "pg_words s2 a = pg_words s1 a" if "\<not> free_cell (pg_boot s1) a" "\<forall>i\<in>{960..<1024}. a \<noteq> cell k i" for a using L that by blast
  have dir: "pg_words s2 (cell k i) = pg_words s1 (cell k i)" if "i < 960" for i
  proof (rule keep)
    have i: "i < 1024" using that by simp
    show "\<not> free_cell (pg_boot s1) (cell k i)" by (rule not_free_cell [OF k i fr1])
    show "\<forall>i'\<in>{960..<1024}. cell k i \<noteq> cell k i'" using cell_inject [OF k k i] that by auto
  qed
  have low: "\<not> PDE_EXISTS (pg_words s2 (cell k i))" if "i < 768" for i
    using dir [of i] D empty that by auto
  obtain T where T: "inj_on T {960..<1024}" "\<forall>i\<in>{960..<1024}. has_table (\<lambda>i j. 0) ?fl k (pg_words s2) i (T i) \<and>
      frame_span (T i) \<inter> free_space (pg_boot s2) = {}" using L by blast
  have tabs: "kmap_tables k s2" unfolding kmap_tables_def
  proof (intro exI [of _ T] conjI ballI T(1))
    fix i assume "i \<in> {960..<1024 :: nat}"
    then have "has_table (\<lambda>i j. 0) ?fl k (pg_words s2) i (T i)" "frame_span (T i) \<inter> free_space (pg_boot s2) = {}" using T(2) by blast+
    then show "let e = pg_words s2 (cell k i) in PDE_EXISTS e \<and> \<not> PDE_IS_HUGE e \<and> bit e 1 \<and> \<not> bit e 2 \<and> PDE_TO_PGT e = slab_base (T i) \<and> T i < 2 ^ 18 \<and>
      (\<forall>j<1024. pg_words s2 (cell (T i) j) = 0) \<and> frame_span (T i) \<inter> free_space (pg_boot s2) = {}"
      using table_flags(1,2) [of f] rights_flags(1,2) [of f]
      by (simp add: has_table_def Let_def PDE_EXISTS_bit PDE_HUGE_bit entry_flag PDE_TO_PGT_make)
  qed
  have kmap: "\<exists>u. has_table (\<lambda>i j. 0) ?fl k (pg_words s2) i u \<and> frame_span u \<inter> free_space (pg_boot s2) = {}"
    if "960 \<le> i" "i < 1024" for i using T(2) that by (meson atLeastLessThan_iff)
  have mid: "kernel_access (pg_words s2) k va" if va: "768 \<le> pdi va" "pdi va < 960" for va
  proof -
    have e: "pg_words s2 (cell k (pdi va)) = pg_words s1 (cell k (pdi va))" using dir va(2) by blast
    have "pg_words s2 (GET_PTE (PDE_TO_PGT (pg_words s1 (cell k (pdi va)))) va) = pg_words s1 (GET_PTE (PDE_TO_PGT (pg_words s1 (cell k (pdi va)))) va)"
      if nh: "\<not> PDE_IS_HUGE (pg_words s1 (cell k (pdi va)))"
    proof -
      obtain u where u: "u < 2 ^ 18" "u \<noteq> k" "PDE_TO_PGT (pg_words s1 (cell k (pdi va))) = slab_base u"
        "frame_span u \<inter> free_space (pg_boot s1) = {}" using D va nh by blast
      have "\<forall>i'\<in>{960..<1024}. cell u (pti va) \<noteq> cell k i'" using cell_inject [OF u(1) k pti_less] u(2) by auto
      then show ?thesis unfolding u(3) GET_cell using keep [OF not_free_cell [OF u(1) pti_less u(4)]] by blast
    qed
    then have "walk_entries (pg_words s2) (slab_base k) va = walk_entries (pg_words s1) (slab_base k) va"
      unfolding walk_entries_def GET_cell e Let_def by auto
    moreover have "kernel_access (pg_words s1) k va" using D va by blast
    ultimately show ?thesis by (simp add: kernel_access_def walk_by_entries walk_writable_def walk_user_def)
  qed
  have high: "walk (pg_words s2) (slab_base k) va = None" if va: "960 \<le> pdi va" for va
  proof -
    obtain u where "has_table (\<lambda>i j. 0) ?fl k (pg_words s2) (pdi va) u" using kmap [OF va pdi_less] by blast
    from walk_table_entry [OF this table_flags(1,2)] show ?thesis by (simp add: PTE_EXISTS_bit)
  qed
  have none: "walk (pg_words s2) (slab_base k) va = None" if "pdi va < 768" for va
    using low [OF that] by (simp add: walk_def GET_cell)
  have "walk (pg_words s2) (slab_base k) va = (if KERNEL_START_VIRT \<le> va \<and> va < KMAP_START_VIRT then Some (VIR_TO_PHY va) else None)" for va
    unfolding pdi_kernel using mid [of va, unfolded kernel_access_def] high [of va] none [of va] by (auto simp: not_le not_less)
  moreover have "walk_writable (pg_words s2) (slab_base k) va \<and> \<not> walk_user (pg_words s2) (slab_base k) va"
    if "KERNEL_START_VIRT \<le> va \<and> va < KMAP_START_VIRT" for va
    using that mid [of va, unfolded kernel_access_def] unfolding pdi_kernel by blast
  moreover have "kernel_directory V k (pg_words s2)" if V: "\<forall>v\<in>V. frame_span v \<subseteq> free_space (pg_boot s2)" for V
  proof -
    have out: "u \<notin> V" if "frame_span u \<inter> free_space (pg_boot s2) = {}" for u using V that frame_span_ne [of u] by blast
    have sub: "free_space (pg_boot s2) \<subseteq> free_space (pg_boot s1)" using L by blast
    have "\<exists>u<2 ^ 18. u \<notin> V \<and> PDE_TO_PGT (pg_words s2 (cell k i)) = slab_base u"
      if i: "i < 1024" "PDE_EXISTS (pg_words s2 (cell k i))" "\<not> PDE_IS_HUGE (pg_words s2 (cell k i))" for i
    proof (cases "i < 960")
      case True
      have "768 \<le> i" using low [of i] i(2) by linarith
      moreover have "\<not> PDE_IS_HUGE (pg_words s1 (cell k i))" using i(3) dir [OF True] by simp
      ultimately obtain u where "u < 2 ^ 18" "PDE_TO_PGT (pg_words s1 (cell k i)) = slab_base u"
        "frame_span u \<inter> free_space (pg_boot s1) = {}" using D True by blast
      then show ?thesis using out [of u] sub dir [OF True] by (intro exI [of _ u]) auto
    next
      case False
      then obtain u where "has_table (\<lambda>i j. 0) ?fl k (pg_words s2) i u" "frame_span u \<inter> free_space (pg_boot s2) = {}"
        using kmap [of i] i(1) by (meson not_less)
      then show ?thesis using out [of u] by (auto simp: has_table_def PDE_TO_PGT_make)
    qed
    moreover have "k \<notin> V" using out [of k] fr1 sub by blast
    ultimately show ?thesis using k low unfolding kernel_directory_def by blast
  qed
  ultimately show ?thesis using L tabs unfolding kernel_mapped_def by blast
qed


lemma switch_kernel:
  assumes "k < 2 ^ 18" "0 < k"
  shows "paging_switch_pgd (VIR_TO_PHY (slab_base k)) s = (E_SUCCESS, s\<lparr>pg_cr3 := PFN_TO_PA (of_nat k)\<rparr>)"
proof -
  have u: "unat (PFN_TO_PA (of_nat k)) = 4096 * k" by (rule unat_frame_addr [OF assms(1)])
  then have "unat (PFN_TO_PA (of_nat k)) \<noteq> 0" using assms(2) by simp
  then have "PFN_TO_PA (of_nat k) \<noteq> 0" by auto
  moreover have "IS_PAGE_ALIGNED (PFN_TO_PA (of_nat k))"
  proof -
    have m: "PAGE_SIZE - 1 = mask 12" by (simp add: rotary_const mask_eq_exp_minus_1)
    have "unat (PFN_TO_PA (of_nat k) AND (PAGE_SIZE - 1)) = unat (PFN_TO_PA (of_nat k)) mod 2 ^ 12"
      unfolding m take_bit_eq_mask [symmetric] by (simp only: unsigned_take_bit_eq) (simp only: take_bit_eq_mod)
    also have "\<dots> = 0" unfolding u by simp
    finally show ?thesis unfolding IS_PAGE_ALIGNED_def by (simp add: unat_eq_0)
  qed
  ultimately show ?thesis by (simp add: paging_switch_pgd_def VIR_TO_PHY_slab_base)
qed

lemma paging_setup_run:
  assumes "k < 2 ^ 18" "0 < k" and "bootmem_wf (pg_boot s)" and "frame_span k \<inter> free_space (pg_boot s) = {}"
    and "\<forall>i<768. \<not> PDE_EXISTS (pg_words s (cell k i))" and "boot_room (256 + n) (pg_boot s)"
  shows "\<exists>s'. paging_setup_kernel_pgd f (slab_base k) s = Returned s' \<and> pg_cr3 s' = PFN_TO_PA (of_nat k) \<and> bootmem_wf (pg_boot s') \<and>
    kernel_mapped k s' \<and> boot_room n (pg_boot s')"
proof -
  let ?g = "global_flag f"
  let ?r = "if x86_paging_pse_enabled f \<noteq> 0
    then Returned (s\<lparr>pg_words := huge_entries (slab_base k) ?g 768 [768..<960] (pg_words s)\<rparr>)
    else table_loop (fill_table ?g 768) (slab_base k) ?g [768..<960] s"
  have l: "length [768..<960] = (192 :: nat)" "length [960..<1024] = (64 :: nat)" by (simp_all only: length_upt)
  have cs: "set [768..<960] = {768..<960 :: nat}" "distinct [768..<960 :: nat]" "set [960..<1024] = {960..<1024 :: nat}" "distinct [960..<1024 :: nat]"
    by (rule set_upt distinct_upt)+
  have "\<exists>s1. ?r = Returned s1 \<and> linear_done k s s1 \<and> boot_room (64 + n) (pg_boot s1)"
  proof (cases "x86_paging_pse_enabled f \<noteq> 0")
    case True
    then show ?thesis using linear_huge [OF assms(1,3) cs(1,2)] boot_room_mono [OF assms(6), of "64 + n"] by simp
  next
    case False
    have "boot_room (length [768..<960] + (64 + n)) (pg_boot s)" unfolding l using assms(6) by simp
    from table_loop_returns [OF assms(3) this, of "fill_table ?g 768" "slab_base k" ?g] obtain s1 where
      s1: "table_loop (fill_table ?g 768) (slab_base k) ?g [768..<960] s = Returned s1" "boot_room (64 + n) (pg_boot s1)" by blast
    show ?thesis using linear_tables [OF assms(1,3,4) cs(1,2) s1(1)] s1 False by (simp only: if_False) blast
  qed
  then obtain s1 where s1: "?r = Returned s1" "linear_done k s s1" "boot_room (64 + n) (pg_boot s1)" by blast
  have "boot_room (length [960..<1024] + n) (pg_boot s1)" unfolding l using s1(3) by simp
  moreover have "bootmem_wf (pg_boot s1)" using s1(2) by (simp add: linear_done_def)
  ultimately obtain s2 where s2: "table_loop (\<lambda>i. clear_page) (slab_base k) ?g [960..<1024] s1 = Returned s2" "boot_room n (pg_boot s2)"
    using table_loop_returns by blast
  have g: "(if x86_paging_pge_enabled f \<noteq> 0 then PDE_GLOBAL else 0) = ?g" "(if x86_paging_pge_enabled f \<noteq> 0 then PTE_GLOBAL else 0) = ?g"
    by (simp_all add: global_flag_def rotary_const)
  have "paging_setup_kernel_pgd f (slab_base k) s = Returned (s2\<lparr>pg_cr3 := PFN_TO_PA (of_nat k)\<rparr>)"
    unfolding paging_setup_kernel_pgd_def directory_range g Let_def s1(1) PAGE_DIR_SIZE_def outcome.case s2(1)
    by (simp only: switch_kernel [OF assms(1,2)] snd_conv)
  moreover have "kernel_mapped k s2 \<and> bootmem_wf (pg_boot s2)" by (rule kmap_done [OF assms(1,4) s1(2) assms(5) cs(3,4) s2(1)])
  ultimately show ?thesis using s2(2) by (intro exI [of _ "s2\<lparr>pg_cr3 := PFN_TO_PA (of_nat k)\<rparr>"]) (simp add: kernel_mapped_def kmap_tables_def)
qed

section \<open>Property\<close>

text \<open>
  C18: The kernel's mapping. With the page directory inside the kernel image, its user half empty,
  and 256 whole pages in some region of boot memory, \<^verbatim>\<open>paging_setup_kernel_pgd\<close> completes, in both
  modes (4 MiB pages or page tables) and with or without global pages. Afterwards the processor
  translates every address from 0xC0000000 up to 0xF0000000 to the address minus 0xC0000000 and
  no other address; these addresses may be written and are closed to user code, by the rights of both levels of entries;
  the entries from 960 on, the kmap range, each have a cleared page table of their own, writable and closed to user code,
  in a page that boot memory no longer owns; the directory is loaded; and it is one that new address spaces can be
  copied from, for every allocator of pages that boot memory still owns.
\<close>
theorem paging_setup_maps_kernel:
  assumes "k < 2 ^ 18" "0 < k" and "bootmem_wf (pg_boot s)" and "frame_span k \<inter> free_space (pg_boot s) = {}"
    and "\<forall>i<768. \<not> PDE_EXISTS (pg_words s (cell k i))" and "boot_room 256 (pg_boot s)"
  shows "\<exists>s'. paging_setup_kernel_pgd f (slab_base k) s = Returned s' \<and> pg_cr3 s' = PFN_TO_PA (of_nat k) \<and> bootmem_wf (pg_boot s') \<and>
    (\<forall>va. walk (pg_words s') (slab_base k) va = (if KERNEL_START_VIRT \<le> va \<and> va < KMAP_START_VIRT then Some (VIR_TO_PHY va) else None)) \<and>
    (\<forall>va. KERNEL_START_VIRT \<le> va \<and> va < KMAP_START_VIRT \<longrightarrow> walk_writable (pg_words s') (slab_base k) va \<and> \<not> walk_user (pg_words s') (slab_base k) va) \<and>
    kmap_tables k s' \<and>
    (\<forall>V. (\<forall>v\<in>V. frame_span v \<subseteq> free_space (pg_boot s')) \<longrightarrow> kernel_directory V k (pg_words s'))"
  using paging_setup_run [OF assms(1-5), of 0 f, unfolded add_0_right, OF assms(6)] unfolding kernel_mapped_def by blast


text \<open>A processor without 4 MiB pages, the directory at 1 MiB, boot memory from 2 to 4 MiB.\<close>

definition sample_paging :: paging_state where
  "sample_paging = \<lparr>pg_words = (\<lambda>_. 0), pg_boot = one_region 0x200000 0x400000, pg_cr3 = 0\<rparr>"

lemma sample_paging_space: "x \<in> free_space (pg_boot sample_paging) \<Longrightarrow> 0x200000 \<le> x"
  by (auto simp: sample_paging_def free_space_def one_region_def region_span_def available_def empty_region_def rotary_const)

lemma sample_paging_room: "boot_room 256 (pg_boot sample_paging)"
  unfolding boot_room_def
  by (rule exI [of _ 0], simp add: sample_paging_def one_region_def available_def rotary_const)
    (rule exI [of _ "0x200000"], simp)

theorem paging_setup_maps_kernel_witness:
  "\<exists>s'. paging_setup_kernel_pgd \<lparr>leaf1_edx = 0, cr4 = 0\<rparr> (slab_base 256) sample_paging = Returned s' \<and>
     walk (pg_words s') (slab_base 256) 0xC0100123 = Some 0x100123 \<and> walk (pg_words s') (slab_base 256) 0x1000 = None \<and>
     walk_writable (pg_words s') (slab_base 256) 0xC0100123 \<and> \<not> walk_user (pg_words s') (slab_base 256) 0xC0100123 \<and> kmap_tables 256 s'"
proof -
  have "bootmem_wf (pg_boot sample_paging)" unfolding sample_paging_def using one_region_wf [of "0x200000" "0x400000"] by (simp add: rotary_const)
  moreover have "frame_span 256 \<inter> free_space (pg_boot sample_paging) = {}" using sample_paging_space by (fastforce simp: frame_span_def)
  moreover have "\<forall>i<768. \<not> PDE_EXISTS (pg_words sample_paging (cell 256 i))" by (simp add: sample_paging_def PDE_EXISTS_bit)
  ultimately obtain s' where "paging_setup_kernel_pgd \<lparr>leaf1_edx = 0, cr4 = 0\<rparr> (slab_base 256) sample_paging = Returned s'"
    "\<forall>va. walk (pg_words s') (slab_base 256) va = (if KERNEL_START_VIRT \<le> va \<and> va < KMAP_START_VIRT then Some (VIR_TO_PHY va) else None)"
    "\<forall>va. KERNEL_START_VIRT \<le> va \<and> va < KMAP_START_VIRT \<longrightarrow> walk_writable (pg_words s') (slab_base 256) va \<and> \<not> walk_user (pg_words s') (slab_base 256) va"
    "kmap_tables 256 s'"
    using paging_setup_maps_kernel [of 256 sample_paging "\<lparr>leaf1_edx = 0, cr4 = 0\<rparr>"] sample_paging_room by auto
  then show ?thesis by (simp add: rotary_const VIR_TO_PHY_def)
qed

end
