(* ===== verification/Boot.thy ===== *)
theory Boot
  imports Multiboot Paging Kmalloc
begin

text \<open>
  Bringing memory up, the middle part of \<^verbatim>\<open>arch_init\<close> (\<^verbatim>\<open>arch/x86/kernel/init.c\<close>): the boot loader's memory map is
  registered, the kernel's page directory is built from boot memory, the page allocator takes its
  page structs from boot memory, and the pages that are left are handed to it. Here the
  components of the earlier theories meet; the theorem at the end says that what each of them
  needs is what the one before it leaves.
\<close>

section \<open>The sequence\<close>

text \<open>
  \<open>w\<close> is the memory the boot loader's structures are read from, \<open>f\<close> what \<^verbatim>\<open>cpuid_init\<close> finds, and \<open>kpgd\<close>
  the address of the kernel's page directory.
\<close>

definition init_memory ::
  "kernel_image \<Rightarrow> cpu_features \<Rightarrow> (u32 \<Rightarrow> u32) \<Rightarrow> u32 \<Rightarrow> u32 \<Rightarrow> multiboot_info \<Rightarrow> paging_state \<Rightarrow> buddy_allocator \<Rightarrow>
   (i32 \<times> paging_state \<times> buddy_allocator) outcome option" where
  "init_memory img f w kpgd magic info s fr = do {
     (r, b) \<leftarrow> multiboot_parse img w magic info (pg_boot s);
     let s1 = s\<lparr>pg_boot := b\<rparr>;
     (if r = 0 then Some (Returned (E_ERROR, s1, fr))
      else (case paging_init f kpgd s1 of
          Panic \<Rightarrow> Some Panic
        | Returned (r1, s2) \<Rightarrow>
            if \<not> SUCCESS r1 then Some (Returned (E_ERROR, s2, fr))
            else (case buddy_init img (bootmem_highest_pfn (pg_boot s2)) (pg_boot s2) fr of
                Panic \<Rightarrow> Some Panic
              | Returned (r2, b2, fr2) \<Rightarrow>
                  let s3 = s2\<lparr>pg_boot := b2\<rparr>
                  in if \<not> SUCCESS r2 then Some (Returned (E_ERROR, s3, fr2))
                     else do {
                       res \<leftarrow> bootmem_mark_free (pg_boot s3) fr2;
                       Some (case res of
                           Panic \<Rightarrow> Panic
                         | Returned (r3, fr3) \<Rightarrow> Returned (if \<not> SUCCESS r3 then E_ERROR else E_SUCCESS, s3, fr3))
                     })))
   }"

section \<open>Boot memory shrinks\<close>

text \<open>Allocations move the start of a region and nothing else.\<close>

definition shrinks :: "bootmem \<Rightarrow> bootmem \<Rightarrow> bool" where
  "shrinks b b' \<longleftrightarrow> highest_pfn b' = highest_pfn b \<and> region_count b' = region_count b \<and>
     (\<forall>i<16. end_addr (mem_regions b' ! i) = end_addr (mem_regions b ! i) \<and>
        region_type (mem_regions b' ! i) = region_type (mem_regions b ! i) \<and>
        start_addr (mem_regions b ! i) \<le> start_addr (mem_regions b' ! i))"

lemma shrinks_refl [simp]: "shrinks b b"
  by (simp add: shrinks_def)

lemma shrinks_trans: "shrinks b b1 \<Longrightarrow> shrinks b1 b2 \<Longrightarrow> shrinks b b2"
  by (auto simp: shrinks_def intro: order_trans)

lemma alloc_shrinks:
  assumes "bootmem_wf b" "n < 32" "bootmem_alloc sz (2 ^ n) b = (va, b')"
  shows "shrinks b b'"
  using assms(1,2)
proof (cases rule: bootmem_alloc_cases [where sz = sz])
  case null
  then show ?thesis using assms(3) by simp
next
  case (issued i a)
  note F = region_fits_iff [OF bootmem_wfD(2) [OF assms(1) issued(1)] issued(3) assms(2), folded issued(2)]
  have "unat (start_addr (mem_regions b ! i)) \<le> unat a" "unat a + unat sz \<le> unat (end_addr (mem_regions b ! i))"
    using F(1) [of sz] F(3) issued(2,4) by simp_all
  moreover from this have "unat (a + sz) = unat a + unat sz"
    using unat_u32_less [of "end_addr (mem_regions b ! i)"] by (intro unat_add_small) simp
  ultimately have "start_addr (mem_regions b ! i) \<le> a + sz" by (simp add: word_le_nat_alt)
  moreover have "b' = b\<lparr>mem_regions := (mem_regions b)[i := (mem_regions b ! i)\<lparr>start_addr := a + sz\<rparr>]\<rparr>"
    using issued(5) assms(3) by simp
  ultimately show ?thesis using issued(1) bootmem_wfD(1) [OF assms(1)] by (auto simp: shrinks_def nth_list_update)
qed

lemma table_loop_shrinks:
  "table_loop fill kpgd g cs s = Returned s' \<Longrightarrow> bootmem_wf (pg_boot s) \<Longrightarrow> shrinks (pg_boot s) (pg_boot s') \<and> bootmem_wf (pg_boot s')"
proof (induction cs arbitrary: s)
  case (Cons i cs)
  obtain pte b where b: "bootmem_alloc PAGE_SIZE PAGE_SIZE (pg_boot s) = (pte, b)" by fastforce
  then have nz: "pte \<noteq> 0" using Cons.prems(1) by (auto split: if_splits)
  have wf: "bootmem_wf b" using boot_page [OF Cons.prems(2) b nz] by blast
  have "bootmem_alloc PAGE_SIZE (2 ^ 12) (pg_boot s) = (pte, b)" using b by (simp add: PAGE_SIZE_power)
  then have "shrinks (pg_boot s) b" using alloc_shrinks [OF Cons.prems(2), of 12] by simp
  moreover have "shrinks b (pg_boot s') \<and> bootmem_wf (pg_boot s')"
    using Cons.IH [of "s\<lparr>pg_boot := b, pg_words := (fill i pte (pg_words s))(kpgd + 4 * of_nat i :=
      MAKE_PDE (VIR_TO_PHY pte) (PDE_PRESENT OR PDE_WRITABLE OR g))\<rparr>"] Cons.prems(1) b nz wf by simp
  ultimately show ?case using shrinks_trans by blast
qed simp

lemma paging_setup_shrinks:
  assumes "paging_setup_kernel_pgd f kpgd s = Returned s'" "bootmem_wf (pg_boot s)"
  shows "shrinks (pg_boot s) (pg_boot s')"
proof -
  let ?d = "if x86_paging_pge_enabled f \<noteq> 0 then PDE_GLOBAL else 0" and ?t = "if x86_paging_pge_enabled f \<noteq> 0 then PTE_GLOBAL else 0"
  let ?a = "unat (PAGE_DIRECTORY_INDEX KERNEL_START_VIRT)" and ?k = "unat (PAGE_DIRECTORY_INDEX KMAP_START_VIRT)"
  let ?r = "if x86_paging_pse_enabled f \<noteq> 0 then Returned (s\<lparr>pg_words := huge_entries kpgd ?d ?a [?a..<?k] (pg_words s)\<rparr>)
    else table_loop (fill_table ?t ?a) kpgd ?d [?a..<?k] s"
  obtain s1 where s1: "?r = Returned s1" using assms(1) by (cases ?r) (simp_all only: paging_setup_kernel_pgd_def Let_def outcome.simps)
  obtain s2 where s2: "table_loop (\<lambda>i. clear_page) kpgd ?d [?k..<PAGE_DIR_SIZE] s1 = Returned s2" "s' = snd (paging_switch_pgd (VIR_TO_PHY kpgd) s2)"
    using assms(1) unfolding paging_setup_kernel_pgd_def Let_def s1 by (simp split: outcome.splits)
  have f: "shrinks (pg_boot s) (pg_boot s1) \<and> bootmem_wf (pg_boot s1)"
  proof (cases "x86_paging_pse_enabled f \<noteq> 0")
    case True
    then show ?thesis using s1 assms(2) by auto
  next
    case False
    then show ?thesis using s1 table_loop_shrinks [OF _ assms(2)] by simp
  qed
  moreover have "pg_boot s' = pg_boot s2" using s2(2) by (simp add: paging_switch_pgd_def)
  ultimately show ?thesis using table_loop_shrinks [OF s2(1)] shrinks_trans by auto
qed

section \<open>The pages that are left\<close>

definition boot_table_ok :: "kernel_image \<Rightarrow> bootmem \<Rightarrow> bool" where
  "boot_table_ok img b \<longleftrightarrow> bootmem_wf b \<and> region_table_inv img b \<and> region_count b \<noteq> 0 \<and>
     (\<forall>i<unat (region_count b). available (mem_regions b ! i))"

lemma shrinks_free_space:
  assumes "shrinks b b'" "bootmem_wf b" "bootmem_wf b'"
  shows "free_space b' \<subseteq> free_space b"
proof
  fix a assume "a \<in> free_space b'"
  then obtain i where i: "i < 16" "available (mem_regions b' ! i)" "a \<in> region_span (mem_regions b' ! i)"
    using bootmem_wfD(1) [OF assms(3)] by (auto simp: free_space_def in_set_conv_nth)
  then have "available (mem_regions b ! i)" "a \<in> region_span (mem_regions b ! i)"
    using assms(1) by (auto simp: shrinks_def available_def region_span_def word_le_nat_alt)
  then show "a \<in> free_space b" using i(1) bootmem_wfD(1) [OF assms(2)] by (auto simp: free_space_def in_set_conv_nth)
qed

lemma frame_in_region:
  assumes "region_ok r" "available r" "v \<in> region_frames r"
  shows "frame_span v \<subseteq> region_span r"
proof -
  have e: "start_addr r \<le> end_addr r" "end_addr r \<le> LOWMEM_PLIMIT" using assms(1,2) by (auto simp: region_ok_def)
  then have "unat (start_addr r) + 4095 < 2 ^ 32"
    using word_le_nat_alt [of "start_addr r" LOWMEM_PLIMIT] by (auto simp: rotary_const)
  note a = unat_PAGE_ALIGN [OF this] and d = unat_PAGE_ALIGN_DOWN [of "end_addr r"]
  have v: "(unat (start_addr r) + 4095) div 4096 \<le> v" "v < unat (end_addr r) div 4096"
    using assms(3) unfolding region_frames_def by (auto simp: a d split: if_splits)
  have "unat (start_addr r) \<le> 4096 * v" using v(1) by linarith
  moreover have "4096 * v + 4096 \<le> unat (end_addr r)" using v(2) by linarith
  ultimately show ?thesis by (auto simp: frame_span_def region_span_def)
qed

lemma region_frames_bound:
  assumes "PA_TO_PFN (end_addr r) \<le> n" shows "region_frames r \<subseteq> {..<unat n}"
  using assms unfolding region_frames_def word_le_nat_alt unat_PA_TO_PFN by (auto simp: unat_PAGE_ALIGN_DOWN)

lemma frames_apart_table:
  assumes "bootmem_wf b" "pfn_bounded b" and n: "n \<le> 16" "\<forall>i<n. available (mem_regions b ! i)"
  shows "frames_apart {} (unat (highest_pfn b)) (take n (mem_regions b))"
proof -
  have len: "length (mem_regions b) = 16" by (rule bootmem_wfD(1) [OF assms(1)])
  have dj: "region_frames (mem_regions b ! i) \<inter> region_frames (mem_regions b ! j) = {}" if ij: "i < n" "j < n" "i \<noteq> j" for i j
  proof (rule ccontr)
    assume "region_frames (mem_regions b ! i) \<inter> region_frames (mem_regions b ! j) \<noteq> {}"
    then obtain v where "v \<in> region_frames (mem_regions b ! i)" "v \<in> region_frames (mem_regions b ! j)" by blast
    then have "frame_span v \<subseteq> region_span (mem_regions b ! i) \<inter> region_span (mem_regions b ! j)"
      using frame_in_region bootmem_wfD(2) [OF assms(1)] ij n by simp
    then show False using bootmem_wfD(3) [OF assms(1), of i j] ij n frame_span_ne [of v] by auto
  qed
  have "frames_apart V (unat (highest_pfn b)) (map ((!) (mem_regions b)) [k..<n])"
    if "k \<le> n" "\<forall>j. k \<le> j \<longrightarrow> j < n \<longrightarrow> region_frames (mem_regions b ! j) \<inter> V = {}" for k V
    using that
  proof (induction "n - k" arbitrary: k V)
    case (Suc d)
    then have k: "k < n" by linarith
    have "mem_regions b ! k \<in> set (mem_regions b)" using k n(1) len by simp
    then have "region_frames (mem_regions b ! k) \<subseteq> {..<unat (highest_pfn b)}"
      using assms(2) by (intro region_frames_bound) (simp add: pfn_bounded_def)
    moreover have "\<forall>j. Suc k \<le> j \<longrightarrow> j < n \<longrightarrow> region_frames (mem_regions b ! j) \<inter> (V \<union> region_frames (mem_regions b ! k)) = {}"
      using Suc.prems(2) dj k by (auto simp: Int_Un_distrib)
    with Suc.hyps(2) k have "frames_apart (V \<union> region_frames (mem_regions b ! k)) (unat (highest_pfn b)) (map ((!) (mem_regions b)) [Suc k..<n])"
      by (intro Suc.hyps(1)) auto
    ultimately show ?case using Suc.prems(2) k by (simp add: upt_conv_Cons)
  qed simp
  moreover have "map ((!) (mem_regions b)) [0..<n] = take n (mem_regions b)" using n(1) len by (intro nth_equalityI) simp_all
  ultimately show ?thesis by (metis Int_empty_right le0)
qed

lemma boot_room_area:
  assumes wf: "bootmem_wf b" and room: "boot_room m b" and n: "24 * unat n \<le> 4096 * m" "0 < unat n" "unat n < 2 ^ 18"
  shows "\<exists>area b'. bootmem_alloc (n * SIZEOF_PAGE) BM_NO_ALIGN b = (area, b') \<and> area \<noteq> 0 \<and> bootmem_wf b' \<and> shrinks b b'"
proof -
  obtain i q where i: "i < 16" "available (mem_regions b ! i)" "unat (start_addr (mem_regions b ! i)) \<le> q"
    "q + 4096 * m \<le> unat (end_addr (mem_regions b ! i))" using room by (auto simp: boot_room_def)
  have sz: "unat (n * SIZEOF_PAGE) = 24 * unat n" using n(3) by (simp add: rotary_const unat_word_ariths)
  have al: "BM_NO_ALIGN = 2 ^ 0" by (simp add: rotary_const)
  have "mem_regions b ! i \<in> set (mem_regions b)" using i(1) bootmem_wfD(1) [OF wf] by simp
  moreover have "2 ^ 0 dvd q" "q < unat (end_addr (mem_regions b ! i))" "q + unat (n * SIZEOF_PAGE) \<le> unat (end_addr (mem_regions b ! i))"
    using i(4) n sz by simp_all
  ultimately have nz: "fst (bootmem_alloc (n * SIZEOF_PAGE) (2 ^ 0) b) \<noteq> 0"
    using bootmem_alloc_null [OF wf, of 0 "n * SIZEOF_PAGE"] i(2,3) by auto
  obtain area b' where a: "bootmem_alloc (n * SIZEOF_PAGE) (2 ^ 0) b = (area, b')" by fastforce
  then have "bootmem_wf b'" "shrinks b b'" using bootmem_alloc_spec(1) [OF wf _ a] alloc_shrinks [OF wf _ a] nz by simp_all
  then show ?thesis using a nz unfolding al by auto
qed

lemma shrinks_pfn_bounded: "shrinks b b' \<Longrightarrow> bootmem_wf b \<Longrightarrow> bootmem_wf b' \<Longrightarrow> pfn_bounded b \<Longrightarrow> pfn_bounded b'"
  using bootmem_wfD(1) [of b] bootmem_wfD(1) [of b'] by (fastforce simp: shrinks_def pfn_bounded_def in_set_conv_nth)

lemma table_frames:
  assumes "bootmem_wf b" "n \<le> 16" "\<forall>i<n. available (mem_regions b ! i)" "v \<in> (\<Union>r\<in>set (take n (mem_regions b)). region_frames r)"
  shows "frame_span v \<subseteq> free_space b"
proof -
  have len: "length (mem_regions b) = 16" by (rule bootmem_wfD(1) [OF assms(1)])
  obtain i where i: "i < n" "v \<in> region_frames (mem_regions b ! i)" using assms(2,4) len by (auto simp: in_set_conv_nth)
  then have "frame_span v \<subseteq> region_span (mem_regions b ! i)" "available (mem_regions b ! i)"
    using assms(2,3) by (auto intro!: frame_in_region [THEN subsetD] bootmem_wfD(2) [OF assms(1)])
  moreover have "mem_regions b ! i \<in> set (mem_regions b)" using i(1) assms(2) len by simp
  ultimately show ?thesis by (auto simp: free_space_def)
qed

text \<open>From boot memory to the page allocator: page structs, then the remaining pages.\<close>

definition pages_left :: "bootmem \<Rightarrow> nat set" where
  "pages_left b = (\<Union>r\<in>set (take (unat (region_count b)) (mem_regions b)). region_frames r)"

lemma pages_handed_over:
  assumes wf: "bootmem_wf b" and tab: "pfn_bounded b" "region_count b \<noteq> 0" "unat (region_count b) \<le> 16"
      "\<forall>i<unat (region_count b). available (mem_regions b ! i)"
    and room: "boot_room m b" "24 * unat (highest_pfn b) \<le> 4096 * m"
    and n: "64 dvd unat (highest_pfn b)" "0 < unat (highest_pfn b)" "unat (highest_pfn b) < 2 ^ 18"
  shows "\<exists>b' fr1 fr2 fl. buddy_init img (highest_pfn b) b fr = Returned (E_SUCCESS, b', fr1) \<and>
    bootmem_mark_free b' fr1 = Some (Returned (E_SUCCESS, fr2)) \<and> bootmem_wf b' \<and> shrinks b b' \<and> fresh_allocator fl fr2 \<and>
    n_pages fr2 = unat (highest_pfn b) \<and> valid_pages fr2 = pages_left b' \<and> (\<forall>v\<in>pages_left b'. frame_span v \<subseteq> free_space b')"
proof -
  let ?n = "highest_pfn b"
  obtain area b' where b': "bootmem_alloc (?n * SIZEOF_PAGE) BM_NO_ALIGN b = (area, b')" "area \<noteq> 0" "bootmem_wf b'" "shrinks b b'"
    using boot_room_area [OF wf room n(2,3)] by blast
  obtain fr1 where fr1: "buddy_init img ?n b fr = Returned (E_SUCCESS, b', fr1)" "buddy_ok {} (\<lambda>_. []) fr1" "n_pages fr1 = unat ?n"
    "valid_pages fr1 = {}" "\<And>i. i < unat ?n \<Longrightarrow> use_count (page_area fr1 ! i) = 0"
    using buddy_init_state [OF n(1) _ b'(1,2), of img fr] n(3) by auto
  let ?rs = "take (unat (region_count b')) (mem_regions b')"
  have same: "highest_pfn b' = ?n" "region_count b' = region_count b" using b'(4) by (simp_all add: shrinks_def)
  have av: "\<forall>i<unat (region_count b'). available (mem_regions b' ! i)" "unat (region_count b') \<le> 16"
    using tab(3,4) b'(4) same by (simp_all add: shrinks_def available_def)
  have "frames_apart (valid_pages fr1) (n_pages fr1) ?rs"
    using frames_apart_table [OF b'(3) shrinks_pfn_bounded [OF b'(4) wf b'(3) tab(1)] av(2,1)] unfolding same(1) fr1(3,4) .
  then obtain fr2 where fr2: "mark_free_regions ?rs fr1 = Some fr2" "handover (pages_left b') fr1 fr2"
    using mark_free_regions_run [OF fr1(2) coalesced_empty] unfolding pages_left_def by blast
  have "bootmem_mark_free b' fr1 = Some (Returned (E_SUCCESS, fr2))"
    using fr2(1) tab(2) n(2) av(2) same bootmem_wfD(1) [OF b'(3)] by (auto simp: bootmem_mark_free_def)
  moreover obtain fl where "fresh_allocator fl fr2" "n_pages fr2 = unat ?n" "valid_pages fr2 = pages_left b'"
    using fr2(2) fr1(3-5) by (auto simp: handover_def fresh_allocator_def)
  moreover have "\<forall>v\<in>pages_left b'. frame_span v \<subseteq> free_space b'"
    using table_frames [OF b'(3) av(2,1)] unfolding pages_left_def by blast
  ultimately show ?thesis using fr1(1) b'(3,4) by blast
qed

section \<open>Start-up\<close>

text \<open>
  What the sequence needs: a memory map that registers as a sound table \<open>b\<close> of available regions with
  room for 256 page tables and the page structs, and the kernel's directory at frame \<open>k\<close> outside
  these regions with an empty user half.
\<close>

definition memory_input ::
  "kernel_image \<Rightarrow> (u32 \<Rightarrow> u32) \<Rightarrow> multiboot_info \<Rightarrow> nat \<Rightarrow> paging_state \<Rightarrow> bootmem \<Rightarrow> bool" where
  "memory_input img w info k s b \<longleftrightarrow>
     multiboot_parse img w MULTIBOOT_BOOTLOADER_MAGIC info (pg_boot s) = Some (1, b) \<and> boot_table_ok img b \<and>
     k < 2 ^ 18 \<and> 0 < k \<and> frame_span k \<inter> free_space b = {} \<and> (\<forall>i<768. \<not> PDE_EXISTS (pg_words s (cell k i))) \<and>
     (\<exists>m. boot_room (256 + m) b \<and> 24 * unat (highest_pfn b) \<le> 4096 * m) \<and>
     64 dvd unat (highest_pfn b) \<and> 0 < unat (highest_pfn b) \<and> unat (highest_pfn b) < 2 ^ 18"

text \<open>What it leaves.\<close>

definition memory_ready :: "kernel_image \<Rightarrow> nat \<Rightarrow> bootmem \<Rightarrow> paging_state \<Rightarrow> buddy_allocator \<Rightarrow> bool" where
  "memory_ready img k b s fr \<longleftrightarrow> kernel_mapped k s \<and> pg_cr3 s = PFN_TO_PA (of_nat k) \<and>
     (\<exists>fl. fresh_allocator fl fr) \<and> n_pages fr = unat (highest_pfn b) \<and> valid_pages fr = pages_left (pg_boot s) \<and>
     (\<forall>v\<in>valid_pages fr. frame_span v \<subseteq> free_space b - kernel_span img) \<and>
     kernel_directory (valid_pages fr) k (pg_words s) \<and> kmalloc_ok (\<lambda>_. []) (\<lambda>_. []) {} (kmalloc_init fr)"

lemma init_memory_run:
  assumes "memory_input img w info k s b"
  shows "\<exists>s' fr'. init_memory img f w (slab_base k) MULTIBOOT_BOOTLOADER_MAGIC info s fr = Some (Returned (E_SUCCESS, s', fr')) \<and>
    memory_ready img k b s' fr'"
proof -
  have parse: "multiboot_parse img w MULTIBOOT_BOOTLOADER_MAGIC info (pg_boot s) = Some (1, b)" and tab: "boot_table_ok img b"
    and k: "k < 2 ^ 18" "0 < k" "frame_span k \<inter> free_space b = {}" "\<forall>i<768. \<not> PDE_EXISTS (pg_words s (cell k i))"
    and n: "64 dvd unat (highest_pfn b)" "0 < unat (highest_pfn b)" "unat (highest_pfn b) < 2 ^ 18"
    using assms by (auto simp: memory_input_def)
  obtain m where room: "boot_room (256 + m) b" "24 * unat (highest_pfn b) \<le> 4096 * m" using assms by (auto simp: memory_input_def)
  let ?s1 = "s\<lparr>pg_boot := b\<rparr>"
  have wf: "bootmem_wf b" and av: "\<forall>i<unat (region_count b). available (mem_regions b ! i)"
    and rc: "region_count b \<noteq> 0" "unat (region_count b) \<le> 16" "pfn_bounded b" "avoids_kernel img b"
    using tab by (auto simp: boot_table_ok_def region_table_inv_def slots_prefix_def rotary_const)
  obtain s2 where s2: "paging_setup_kernel_pgd f (slab_base k) ?s1 = Returned s2" "pg_cr3 s2 = PFN_TO_PA (of_nat k)" "bootmem_wf (pg_boot s2)"
    "kernel_mapped k s2" "boot_room m (pg_boot s2)"
    using paging_setup_run [of k ?s1 m f] k wf room(1) by auto
  have sh2: "shrinks b (pg_boot s2)" using paging_setup_shrinks [OF s2(1)] wf by simp
  then have same: "highest_pfn (pg_boot s2) = highest_pfn b" "region_count (pg_boot s2) = region_count b"
    "\<forall>i<unat (region_count b). available (mem_regions (pg_boot s2) ! i)"
    using av rc(2) by (simp_all add: shrinks_def available_def)
  obtain b3 fr2 fr3 fl where h: "buddy_init img (highest_pfn b) (pg_boot s2) fr = Returned (E_SUCCESS, b3, fr2)"
    "bootmem_mark_free b3 fr2 = Some (Returned (E_SUCCESS, fr3))" "bootmem_wf b3" "shrinks (pg_boot s2) b3" "fresh_allocator fl fr3"
    "n_pages fr3 = unat (highest_pfn b)" "valid_pages fr3 = pages_left b3" "\<forall>v\<in>pages_left b3. frame_span v \<subseteq> free_space b3"
    using pages_handed_over [OF s2(3) shrinks_pfn_bounded [OF sh2 wf s2(3) rc(3)], of m img fr] s2(5) same rc room(2) n by auto
  let ?s3 = "s2\<lparr>pg_boot := b3\<rparr>"
  have run: "init_memory img f w (slab_base k) MULTIBOOT_BOOTLOADER_MAGIC info s fr = Some (Returned (E_SUCCESS, ?s3, fr3))"
    using parse s2(1) h(1,2) same(1) by (simp add: init_memory_def paging_init_def bootmem_highest_pfn_def)
  have f2: "free_space b3 \<subseteq> free_space (pg_boot s2)" "free_space (pg_boot s2) \<subseteq> free_space b"
    using shrinks_free_space [OF h(4) s2(3) h(3)] shrinks_free_space [OF sh2 wf s2(3)] by auto
  have "free_space b \<inter> kernel_span img = {}" using rc(4) by (auto simp: avoids_kernel_def free_space_def)
  then have "\<forall>v\<in>valid_pages fr3. frame_span v \<subseteq> free_space b - kernel_span img" using h(7,8) f2 by blast
  moreover have km: "kernel_mapped k ?s3" by (rule kernel_mapped_mono [OF s2(4)]) (use f2(1) in simp_all)
  moreover have "kernel_directory (valid_pages fr3) k (pg_words ?s3)" using km h(7,8) unfolding kernel_mapped_def by simp
  moreover have "palloc_owns {} fr3" using h(5,6) n(3) by (auto simp: palloc_owns_def fresh_allocator_def)
  then have "kmalloc_ok (\<lambda>_. []) (\<lambda>_. []) {} (kmalloc_init fr3)" by (rule kmalloc_init_ok)
  ultimately show ?thesis using run s2(2) h(5-7) by (auto simp: memory_ready_def)
qed

section \<open>Property\<close>

text \<open>
  Memory at start-up. After the memory map has been registered in a sound table of available regions
  with room for 256 page tables and the page structs, the sequence succeeds: the kernel's
  directory is loaded and translates the linear range; the usable pages are exactly the whole
  pages of what is left of the regions, apart from the kernel image and from the tables of its
  directory, in fully merged free blocks with no use; and the kernel heap on top of them is in
  order. With another magic number it stops with an error and leaves everything alone.
\<close>

lemma init_memory_ready:
  assumes "memory_input img w info k s b"
  shows "(\<exists>s' fr'. init_memory img f w (slab_base k) MULTIBOOT_BOOTLOADER_MAGIC info s fr = Some (Returned (E_SUCCESS, s', fr')) \<and>
      memory_ready img k b s' fr') \<and>
    (magic \<noteq> MULTIBOOT_BOOTLOADER_MAGIC \<longrightarrow> init_memory img f w kpgd magic info s fr = Some (Returned (E_ERROR, s, fr)))"
  using init_memory_run [OF assms] by (simp add: init_memory_def multiboot_parse_def)

text \<open>
  A memory map with one region of 3 MiB from the start of the kernel image on: after registration the table has the one region behind
  the kernel image. The kernel's directory lies in the image, at frame 256.
\<close>

lemma sample_registered:
  "bootmem_add_mem_region sample_image 0x100000 0x400000 MEM_REGION_AVAILABLE (bootmem_reset (one_region 0 0)) =
     Some (E_SUCCESS, one_region 0x180000 0x400000)"
proof -
  let ?s = "bootmem_reset (one_region 0 0)"
  have "slots_prefix ?s" "region_count ?s \<noteq> 16"
    using region_table_inv_reset [of sample_image] by (auto simp: region_table_inv_def bootmem_reset_def)
  note R = add_region_record_slot(1) [OF this]
  have "bootmem_add_mem_region sample_image 0x100000 0x400000 MEM_REGION_AVAILABLE ?s =
      Some (add_region_record 0x180000 0x400000 MEM_REGION_AVAILABLE ?s)"
    using add_clipped_result [where k = sample_image and a = "0x100000" and b = "0x400000" and type = MEM_REGION_AVAILABLE and s = ?s]
    by (simp add: add_rejected_def clip_start_def clip_stop_def bootmem_reset_def rotary_macro rotary_const)
  then show ?thesis unfolding R by (simp add: one_region_def bootmem_reset_def replicate_16 rotary_const rotary_macro)
qed

definition boot_map :: "u32 \<Rightarrow> u32" where
  "boot_map = (\<lambda>a. 0)(0x9000 := 20, 0x9004 := 0x100000, 0x900C := 0x300000, 0x9014 := 1)"

definition boot_info :: multiboot_info where
  "boot_info = \<lparr>mb_flags = 0x40, mmap_length = 24, mmap_addr = 0x9000\<rparr>"

lemma boot_parse:
  "multiboot_parse sample_image boot_map MULTIBOOT_BOOTLOADER_MAGIC boot_info (bootmem_reset (one_region 0 0)) = Some (1, one_region 0x180000 0x400000)"
proof -
  let ?e = "\<lparr>me_size = 20, me_addr = 0x100000, me_len = 0x300000, me_type = 1\<rparr>"
  have "mmap_layout boot_map 0x9000 [?e] (0x9000 + 24)"
    by (simp add: boot_map_def read_entry_def read64_def)
  moreover have "contains_kernel_end sample_image ?e" by (simp add: contains_kernel_end_def entry_end_def sample_image_def)
  ultimately show ?thesis
    using mmap_loop_eq [of boot_map "0x9000" "[?e]" "0x9000 + 24" sample_image "bootmem_reset (one_region 0 0)"] sample_registered
    by (simp add: multiboot_parse_def boot_info_def entry_words rotary_const)
qed

lemma boot_sample_ok: "boot_table_ok sample_image (one_region 0x180000 0x400000)"
proof -
  have "region_table_inv sample_image (snd (E_SUCCESS, one_region 0x180000 0x400000))"
    using add_mem_region_inv [of sample_image "bootmem_reset (one_region 0 0)" "0x100000" "0x400000" MEM_REGION_AVAILABLE] sample_registered
      region_table_inv_reset [of sample_image] by (simp add: kernel_ok_def ends_with_kernel_def rotary_macro rotary_const)
  moreover have "bootmem_wf (one_region 0x180000 0x400000)" by (rule one_region_wf) (simp_all add: rotary_const)
  ultimately show ?thesis by (simp add: boot_table_ok_def one_region_def available_def)
qed

lemma boot_sample_room: "boot_room (256 + 6) (one_region 0x180000 0x400000)"
  unfolding boot_room_def
  by (rule exI [of _ 0], simp add: one_region_def available_def rotary_const) (rule exI [of _ "0x180000"], simp)

lemma boot_sample_space: "x \<in> free_space (one_region 0x180000 0x400000) \<Longrightarrow> 0x180000 \<le> x"
  by (auto simp: free_space_def one_region_def region_span_def available_def empty_region_def rotary_const)

definition boot_state :: paging_state where
  "boot_state = \<lparr>pg_words = (\<lambda>a. 0), pg_boot = bootmem_reset (one_region 0 0), pg_cr3 = 0\<rparr>"

lemma boot_sample_input: "memory_input sample_image boot_map boot_info 256 boot_state (one_region 0x180000 0x400000)"
proof -
  let ?b = "one_region 0x180000 0x400000"
  have n: "unat (highest_pfn ?b) = 1024" by (simp add: one_region_def rotary_macro rotary_const)
  have "frame_span 256 \<inter> free_space ?b = {}" using boot_sample_space by (fastforce simp: frame_span_def)
  moreover have "boot_room (256 + 6) ?b \<and> 24 * unat (highest_pfn ?b) \<le> 4096 * 6" unfolding n using boot_sample_room by simp
  then have "\<exists>m. boot_room (256 + m) ?b \<and> 24 * unat (highest_pfn ?b) \<le> 4096 * m" by blast
  ultimately show ?thesis
    unfolding memory_input_def n using boot_parse boot_sample_ok by (simp add: boot_state_def PDE_EXISTS_bit)
qed

lemma init_memory_ready_witness:
  "(\<exists>s' fr'. init_memory sample_image \<lparr>leaf1_edx = 0, cr4 = 0\<rparr> boot_map (slab_base 256) MULTIBOOT_BOOTLOADER_MAGIC boot_info
      boot_state sample_free = Some (Returned (E_SUCCESS, s', fr')) \<and> memory_ready sample_image 256 (one_region 0x180000 0x400000) s' fr') \<and>
    init_memory sample_image \<lparr>leaf1_edx = 0, cr4 = 0\<rparr> boot_map (slab_base 256) 0 boot_info boot_state sample_free =
      Some (Returned (E_ERROR, boot_state, sample_free))"
  using init_memory_ready [OF boot_sample_input, of "\<lparr>leaf1_edx = 0, cr4 = 0\<rparr>" sample_free 0 "slab_base 256"] by (simp add: rotary_const)

end
