(* ===== verification/Vm.thy ===== *)
theory Vm
  imports Ptable_Props
begin

text \<open>
  Virtual address spaces, \<^verbatim>\<open>kernel/mm/vm.c\<close>: the list of mappings of a space, the lazy page-fault
  handler, and creation and destruction on top of \<^verbatim>\<open>kmalloc\<close> and the page tables. The structs
  live in typed stores by address; the list nodes embedded in them are references of type
  \<open>vnode\<close>. The allocator of page frames is the one inside the kmalloc state.
\<close>

section \<open>State\<close>

record vm_space =
  sp_pgd :: u32
  sp_users :: u32

record vm_map =
  map_space :: u32
  map_start :: u32
  map_end :: u32
  map_flags :: u32

datatype vnode = Mappings u32 | MapNode u32

record vm_state =
  heap :: kmalloc_state
  vm_words :: "u32 \<Rightarrow> u32"
  vm_invalidated :: "u32 list"
  spaces :: "u32 \<Rightarrow> vm_space"
  maps :: "u32 \<Rightarrow> vm_map"
  vnodes :: "vnode list_heap"

definition SIZEOF_VM_SPACE :: u32 where [rotary_const]: "SIZEOF_VM_SPACE = 16"
definition SIZEOF_VM_MAP :: u32 where [rotary_const]: "SIZEOF_VM_MAP = 24"

text \<open>The page-table view of the state.\<close>

definition vm_ptable :: "vm_state \<Rightarrow> ptable_state" where
  "vm_ptable s = \<lparr>words = vm_words s, frames = pages (kmem (heap s)), invalidated = vm_invalidated s\<rparr>"

definition set_frames :: "buddy_allocator \<Rightarrow> kmalloc_state \<Rightarrow> kmalloc_state" where
  "set_frames fr h = h\<lparr>kmem := (kmem h)\<lparr>pages := fr\<rparr>\<rparr>"

definition put_ptable :: "ptable_state \<Rightarrow> vm_state \<Rightarrow> vm_state" where
  "put_ptable p s = s\<lparr>heap := set_frames (frames p) (heap s), vm_words := words p, vm_invalidated := invalidated p\<rparr>"

section \<open>Address spaces\<close>

definition vm_space_new :: "u32 \<Rightarrow> vm_state \<Rightarrow> (u32 \<times> vm_state) option" where
  "vm_space_new kpgd s = do {
     (vms, h) \<leftarrow> kmalloc SIZEOF_VM_SPACE (heap s);
     let s1 = s\<lparr>heap := h\<rparr>;
     (if vms = 0 then Some (0, s1)
      else do {
        let s2 = s1\<lparr>vnodes := llist_init (Some (Mappings vms)) (vnodes s1)\<rparr>;
        (pgd, p) \<leftarrow> ptable_pgd_new kpgd (vm_ptable s2);
        let s3 = put_ptable p s2;
        Some (vms, s3\<lparr>spaces := (spaces s3)(vms := (spaces s3 vms)\<lparr>sp_pgd := VIR_TO_PHY pgd\<rparr>)\<rparr>)
      })
   }"

definition vm_space_destroy :: "kernel_image \<Rightarrow> u32 \<Rightarrow> vm_state \<Rightarrow> vm_state option" where
  "vm_space_destroy img space s =
     (if space = 0 then None
      else do {
        p \<leftarrow> ptable_pgd_free img (PHY_TO_VIR (sp_pgd (spaces s space))) (vm_ptable s);
        let s1 = put_ptable p s;
        (_, h) \<leftarrow> kfree space (heap s1);
        Some (s1\<lparr>heap := h\<rparr>)
      })"

definition vm_space_add_map :: "u32 \<Rightarrow> u32 \<Rightarrow> vm_state \<Rightarrow> vm_state option" where
  "vm_space_add_map space m s =
     (if space = 0 then None
      else do {
        ns \<leftarrow> llist_add (Some (Mappings space)) (if m = 0 then None else Some (MapNode m)) (vnodes s);
        Some (s\<lparr>vnodes := ns\<rparr>)
      })"

text \<open>The list node is the first member of the struct, so the node of a NULL mapping is NULL.\<close>

definition vm_space_delete_map :: "u32 \<Rightarrow> u32 \<Rightarrow> vm_state \<Rightarrow> vm_state" where
  "vm_space_delete_map space m s =
     s\<lparr>vnodes := llist_delete_node (if m = 0 then None else Some (MapNode m)) (vnodes s)\<rparr>"

definition vm_space_map_page :: "u32 \<Rightarrow> u32 \<Rightarrow> vm_state \<Rightarrow> (i32 \<times> vm_state) option" where
  "vm_space_map_page space addr s = do {
     (new_page, fr) \<leftarrow> page_alloc 0 PR_KERNEL (pages (kmem (heap s)));
     let s1 = s\<lparr>heap := set_frames fr (heap s)\<rparr>;
     (case new_page of
        None \<Rightarrow> Some (E_ERROR, s1)
      | Some i \<Rightarrow> do {
          pg \<leftarrow> page_at i fr;
          p \<leftarrow> ptable_map (PHY_TO_VIR (sp_pgd (spaces s1 space))) addr (PAGE_PA pg) 0 (vm_ptable s1);
          Some (E_SUCCESS, put_ptable p s1)
        })
   }"

definition map_contains :: "(u32 \<Rightarrow> vm_map) \<Rightarrow> u32 \<Rightarrow> vnode \<Rightarrow> bool" where
  "map_contains ms fault_addr n =
     (case n of MapNode m \<Rightarrow> fault_addr \<ge> map_start (ms m) \<and> fault_addr < map_end (ms m) | Mappings _ \<Rightarrow> False)"

definition vm_space_page_fault :: "u32 \<Rightarrow> u32 \<Rightarrow> vm_state \<Rightarrow> (i32 \<times> vm_state) option" where
  "vm_space_page_fault space fault_addr s =
     (if space = 0 then None
      else do {
        found \<leftarrow> list_for_each (vnodes s) (map_contains (maps s) fault_addr) (next_node (vnodes s (Mappings space)));
        (case found of
           None \<Rightarrow> Some (E_ERROR, s)
         | Some _ \<Rightarrow> vm_space_map_page space fault_addr s)
      })"

section \<open>Mappings\<close>

definition vm_map_new :: "vm_state \<Rightarrow> (u32 \<times> vm_state) option" where
  "vm_map_new s = do {
     (m, h) \<leftarrow> kmalloc SIZEOF_VM_MAP (heap s);
     (if m = 0 then None
      else Some (m, s\<lparr>heap := h,
        maps := (maps s)(m := \<lparr>map_space = 0, map_start = 0, map_end = 0, map_flags = 0\<rparr>),
        vnodes := llist_init (Some (MapNode m)) (vnodes s)\<rparr>))
   }"

definition vm_map_destroy :: "u32 \<Rightarrow> vm_state \<Rightarrow> vm_state option" where
  "vm_map_destroy m s = do {
     (_, h) \<leftarrow> kfree m (heap s);
     Some (s\<lparr>heap := h\<rparr>)
   }"

section \<open>Page faults\<close>

text \<open>What a space needs to be in order: its page directory and its list of mappings.\<close>

definition space_ok :: "block set \<Rightarrow> nat \<Rightarrow> u32 \<Rightarrow> u32 list \<Rightarrow> vm_state \<Rightarrow> bool" where
  "space_ok A d space ms s \<longleftrightarrow> space \<noteq> 0 \<and> sp_pgd (spaces s space) = VIR_TO_PHY (slab_base d) \<and>
     directory_ok A d (vm_words s) \<and> llist (vnodes s) (Mappings space) (map MapNode ms)"

definition covered :: "vm_state \<Rightarrow> u32 list \<Rightarrow> u32 \<Rightarrow> bool" where
  "covered s ms a \<longleftrightarrow> (\<exists>m\<in>set ms. map_start (maps s m) \<le> a \<and> a < map_end (maps s m))"

lemma fault_search:
  assumes "space_ok A d space ms s"
  shows "\<exists>r. list_for_each (vnodes s) (map_contains (maps s) a) (next_node (vnodes s (Mappings space))) = Some r \<and>
    (r \<noteq> None \<longleftrightarrow> covered s ms a)"
proof -
  have "lchain (vnodes s) (Mappings space) (map MapNode ms)" using assms by (simp add: space_ok_def llist_def)
  note list_for_each_correct [OF this, of "map_contains (maps s) a"]
  moreover have "find (map_contains (maps s) a) (map MapNode ms) \<noteq> None \<longleftrightarrow> covered s ms a"
    by (auto simp: find_None_iff covered_def map_contains_def)
  ultimately show ?thesis by blast
qed

lemma PAGE_FRAME_PA: "frames_ok A fl fr \<Longrightarrow> (t, k) \<in> A \<Longrightarrow> PAGE_FRAME (PFN_TO_PA (of_nat t)) = PFN_TO_PA (of_nat t)"
  using frames_ok_page [of A fl fr t k] by (simp add: PAGE_FRAME_aligned unat_frame_addr)

lemma map_page_ok:
  assumes sp: "space_ok A d space ms s" and ok: "frames_ok A fl (pages (kmem (heap s)))"
    and va: "a < KERNEL_START_VIRT" and t: "take_block 0 fl = Some (t, fl1)"
    and mem: "PDE_EXISTS (vm_words s (GET_PDE (slab_base d) a)) \<or> take_block 0 fl1 \<noteq> None"
  shows "\<exists>A' fl' s'. vm_space_map_page space a s = Some (E_SUCCESS, s') \<and> (t, 0) \<notin> A \<and> insert (t, 0) A \<subseteq> A' \<and>
    frames_ok A' fl' (pages (kmem (heap s'))) \<and> space_ok A' d space ms s' \<and>
    walk (vm_words s') (slab_base d) a = Some (PFN_TO_PA (of_nat t) OR (a AND 0xFFF)) \<and>
    walk_user (vm_words s') (slab_base d) a \<and> \<not> walk_writable (vm_words s') (slab_base d) a \<and>
    (\<forall>a' < KERNEL_START_VIRT. PAGE_FRAME a' \<noteq> PAGE_FRAME a \<longrightarrow>
       same_access (vm_words s') (slab_base d) (vm_words s) (slab_base d) a')"
proof -
  have d: "directory_ok A d (vm_words s)" and pgd: "sp_pgd (spaces s space) = VIR_TO_PHY (slab_base d)"
    using sp by (simp_all add: space_ok_def)
  obtain pg p1 where p1: "alloc_frame (vm_ptable s) = Some (pg, p1)" "pfn pg = of_nat t" "words p1 = vm_words s"
    "invalidated p1 = vm_invalidated s" "frames_ok (insert (t, 0) A) fl1 (frames p1)" "(t, 0) \<notin> A"
    by (rule alloc_frame_ok [of A fl "vm_ptable s" t fl1]) (simp_all add: vm_ptable_def ok t)
  let ?s1 = "s\<lparr>heap := set_frames (frames p1) (heap s)\<rparr>"
  obtain i where i: "page_alloc 0 PR_KERNEL (pages (kmem (heap s))) = Some (Some i, frames p1)" "page_at i (frames p1) = Some pg"
    using p1(1) by (auto simp: alloc_frame_def vm_ptable_def elim!: bind_eq_SomeE)
  have view: "vm_ptable ?s1 = p1" using p1(3,4) by (simp add: vm_ptable_def set_frames_def)
  have d1: "directory_ok (insert (t, 0) A) d (words p1)"
    using d unfolding p1(3) directory_ok_def by blast
  have "PDE_EXISTS (words p1 (GET_PDE (slab_base d) a)) \<or> take_block 0 fl1 \<noteq> None" using mem p1(3) by simp
  from ptable_map_ok [OF p1(5) d1 va this, of "PAGE_PA pg" 0] obtain A' fl' p2 where
    p2: "ptable_map (slab_base d) a (PAGE_PA pg) 0 p1 = Some p2" "frames_ok A' fl' (frames p2)" "insert (t, 0) A \<subseteq> A'"
    "directory_ok A' d (words p2)" "walk (words p2) (slab_base d) a = Some (PAGE_FRAME (PAGE_PA pg) OR (a AND 0xFFF))"
    "walk_user (words p2) (slab_base d) a" "walk_writable (words p2) (slab_base d) a \<longleftrightarrow> TEST_BIT 0 VM_MAP_WRITE"
    "\<forall>a' < KERNEL_START_VIRT. PAGE_FRAME a' \<noteq> PAGE_FRAME a \<longrightarrow> same_access (words p2) (slab_base d) (words p1) (slab_base d) a'"
    by blast
  have run: "vm_space_map_page space a s = Some (E_SUCCESS, put_ptable p2 ?s1)"
    using i p2(1) view pgd by (simp add: vm_space_map_page_def)
  have "PAGE_FRAME (PAGE_PA pg) = PFN_TO_PA (of_nat t)"
    using PAGE_FRAME_PA [OF p1(5), of t 0] p1(2) by (simp add: PAGE_PA_def)
  moreover have "\<not> TEST_BIT 0 VM_MAP_WRITE" by (simp add: rotary_macro)
  moreover have "space_ok A' d space ms (put_ptable p2 ?s1)"
    using sp p2(4) by (simp add: space_ok_def put_ptable_def)
  ultimately show ?thesis using run p1(3,6) p2
    by (intro exI [of _ A'] exI [of _ fl'] exI [of _ "put_ptable p2 ?s1"]) (simp add: put_ptable_def set_frames_def)
qed

lemma page_fault_ok:
  assumes "space_ok A d space ms s" and "covered s ms a" and "a < KERNEL_START_VIRT"
    and "frames_ok A fl (pages (kmem (heap s)))" and "take_block 0 fl = Some (t, fl1)"
    and "PDE_EXISTS (vm_words s (GET_PDE (slab_base d) a)) \<or> take_block 0 fl1 \<noteq> None"
  shows "\<exists>A' fl' s'. vm_space_page_fault space a s = Some (E_SUCCESS, s') \<and> (t, 0) \<notin> A \<and> insert (t, 0) A \<subseteq> A' \<and>
    frames_ok A' fl' (pages (kmem (heap s'))) \<and> space_ok A' d space ms s' \<and>
    walk (vm_words s') (slab_base d) a = Some (PFN_TO_PA (of_nat t) OR (a AND 0xFFF)) \<and>
    walk_user (vm_words s') (slab_base d) a \<and> \<not> walk_writable (vm_words s') (slab_base d) a \<and>
    (\<forall>a' < KERNEL_START_VIRT. PAGE_FRAME a' \<noteq> PAGE_FRAME a \<longrightarrow>
       same_access (vm_words s') (slab_base d) (vm_words s) (slab_base d) a')"
proof -
  obtain x where "list_for_each (vnodes s) (map_contains (maps s) a) (next_node (vnodes s (Mappings space))) = Some (Some x)"
    using fault_search [OF assms(1), of a] assms(2) by auto
  then have "vm_space_page_fault space a s = vm_space_map_page space a s"
    using assms(1) by (simp add: vm_space_page_fault_def space_ok_def)
  with map_page_ok [OF assms(1,4,3,5,6)] show ?thesis by simp
qed

section \<open>New address spaces\<close>

text \<open>What kmalloc does to the page frames: at most one request for slab pages.\<close>

lemma slab_alloc_from_cache_pages: "slab_alloc_from_cache c m = Some (r, m') \<Longrightarrow> pages m' = pages m"
  by (auto simp: slab_alloc_from_cache_def slab_alloc_from_slab_def upd_header_def Let_def
      elim!: bind_eq_SomeE split: if_splits)

lemma slab_add_cache_frame_pages:
  "slab_add_cache_frame pget c f m = Some (c', m') \<Longrightarrow> \<exists>p. pget (pages m) = Some (p, pages m')"
  by (auto simp: slab_add_cache_frame_def upd_header_def Let_def
      elim!: bind_eq_SomeE split: option.splits prod.splits if_splits)

lemma kmalloc_pages:
  assumes "kmalloc sz s = Some (r, s')"
  shows "pages (kmem s') = pages (kmem s) \<or> (\<exists>p. slab_get_pages (pages (kmem s)) = Some (p, pages (kmem s')))"
  using assms unfolding kmalloc_def slab_malloc_def
  by (auto elim!: bind_eq_SomeE split: option.splits if_splits prod.splits
      dest!: slab_alloc_from_cache_pages slab_add_cache_frame_pages)

lemma kmalloc_valid_pages:
  assumes "palloc_owns S (pages (kmem s))" and "kmalloc sz s = Some (r, s')"
  shows "valid_pages (pages (kmem s')) = valid_pages (pages (kmem s))"
proof -
  obtain A fl where ok: "buddy_ok A fl (pages (kmem s))" using assms(1) by (auto simp: palloc_owns_def)
  have "valid_pages q = valid_pages (pages (kmem s))" if g: "slab_get_pages (pages (kmem s)) = Some (p, q)" for p q
  proof (cases p)
    case None
    show ?thesis using page_alloc_noneD(1) [OF ok slab_get_pages_none [OF g [unfolded None]]] by simp
  next
    case (Some v)
    obtain t where t: "page_alloc 4 PR_KERNEL (pages (kmem s)) = Some (Some t, q)"
      using slab_get_pages_some [OF g [unfolded Some]] by blast
    show ?thesis by (rule page_alloc_someD [OF ok t])
  qed
  with kmalloc_pages [OF assms(2)] show ?thesis by auto
qed

lemma heap_ok_pages [simp]: "heap_ok S F (m\<lparr>pages := q\<rparr>) = heap_ok S F m"
  by (simp add: heap_ok_def slab_ok_def)

lemma cache_ok_pages [simp]: "cache_ok c hs S (m\<lparr>pages := q\<rparr>) = cache_ok c hs S m"
  by (simp add: cache_ok_def)

lemma kmalloc_ok_set_frames:
  "kmalloc_ok H F S h \<Longrightarrow> palloc_owns S fr \<Longrightarrow> kmalloc_ok H F S (set_frames fr h)"
  by (simp add: kmalloc_ok_def set_frames_def)

lemma allocations_set_frames: "allocations H F (set_frames fr h) = allocations H F h"
  by (simp add: allocations_def set_frames_def)

lemma cache_of_16: "find (\<lambda>i. unat SIZEOF_VM_SPACE \<le> 2 ^ (i + 3)) [0..<13] = Some 1"
  by (simp add: SIZEOF_VM_SPACE_def find_Some_iff) (auto intro!: exI [of _ 1])

lemma llist_init_space: "llist (llist_init (Some (Mappings r)) h) (Mappings r) []"
  by (rule llist_init_llist)

text \<open>The second half of \<^verbatim>\<open>vm_space_new\<close>, once the struct is allocated.\<close>

lemma vm_space_new_directory:
  assumes km: "kmalloc SIZEOF_VM_SPACE (heap s) = Some (r, h)" "r \<noteq> 0" and ok: "kmalloc_ok H F S h"
    and k: "kernel_directory (valid_pages (pages (kmem h))) k (vm_words s)"
    and fr: "frames_ok A fl (pages (kmem h))" "\<forall>x\<in>S. \<exists>t. (t, 4) \<in> A \<and> x = slab_base t"
    and t: "take_block 0 fl = Some (t, fl')"
  shows "\<exists>s'. vm_space_new (slab_base k) s = Some (r, s') \<and> kmalloc_ok H F S (heap s') \<and>
    allocations H F (heap s') = allocations H F h \<and>
    frames_ok (insert (t, 0) A) fl' (pages (kmem (heap s'))) \<and> space_ok (insert (t, 0) A) t r [] s' \<and>
    (\<forall>va. walk (vm_words s') (slab_base t) va = walk (vm_words s) (slab_base k) va)"
proof -
  let ?s = "s\<lparr>heap := h, vnodes := llist_init (Some (Mappings r)) (vnodes s)\<rparr>"
  have "frames_ok A fl (frames (vm_ptable ?s))" "kernel_directory (valid_pages (frames (vm_ptable ?s))) k (words (vm_ptable ?s))"
    using fr k by (simp_all add: vm_ptable_def)
  from ptable_pgd_new_ok [OF this(1) t this(2)] obtain p where
    p: "ptable_pgd_new (slab_base k) (vm_ptable ?s) = Some (slab_base t, p)"
    "frames_ok (insert (t, 0) A) fl' (frames p)" "directory_ok (insert (t, 0) A) t (words p)"
    "\<forall>va. walk (words p) (slab_base t) va = walk (vm_words s) (slab_base k) va" by (auto simp: vm_ptable_def)
  let ?s1 = "put_ptable p ?s"
  let ?s2 = "?s1\<lparr>spaces := (spaces ?s1)(r := (spaces ?s1 r)\<lparr>sp_pgd := VIR_TO_PHY (slab_base t)\<rparr>)\<rparr>"
  have run: "vm_space_new (slab_base k) s = Some (r, ?s2)" using km p(1) by (simp add: vm_space_new_def Let_def)
  have "palloc_owns S (frames p)"
    unfolding palloc_owns_def using p(2) fr(2) by (intro exI [of _ "insert (t, 0) A"] exI [of _ fl']) (auto simp: frames_ok_def)
  with ok have "kmalloc_ok H F S (heap ?s2)" by (simp add: put_ptable_def kmalloc_ok_set_frames)
  moreover have "space_ok (insert (t, 0) A) t r [] ?s2"
    using km(2) p(3) llist_init_space by (simp add: space_ok_def put_ptable_def)
  moreover have "frames_ok (insert (t, 0) A) fl' (pages (kmem (heap ?s2)))" using p(2) by (simp add: put_ptable_def set_frames_def)
  moreover have "allocations H F (heap ?s2) = allocations H F h" by (simp add: put_ptable_def allocations_set_frames)
  ultimately show ?thesis using run p(4) by (intro exI [of _ ?s2]) (simp add: put_ptable_def)
qed

lemma vm_space_new_crash:
  assumes "kmalloc SIZEOF_VM_SPACE (heap s) = Some (r, h)" "r \<noteq> 0" and "frames_ok A fl (pages (kmem h))"
    and "take_block 0 fl = None"
  shows "vm_space_new kpgd s = None"
proof -
  have "(0 :: u32) \<le> 6" by simp
  moreover have "take_block (unat (0 :: u32)) fl = None" using assms(4) by simp
  ultimately have "page_alloc 0 PR_KERNEL (pages (kmem h)) = Some (None, pages (kmem h))"
    using page_alloc_none [of A fl "pages (kmem h)"] assms(3) by (simp add: frames_ok_def)
  then show ?thesis using assms(1,2)
    by (simp add: vm_space_new_def ptable_pgd_new_def page_alloc_va_def alloc_frame_def vm_ptable_def)
qed

section \<open>Properties\<close>

text \<open>
  C12: A page fault at an address inside a mapping of the space is resolved: with a free page
  (and one for a page table, if that is missing), \<^verbatim>\<open>vm_space_page_fault\<close> returns success and the
  address is then translated to a page that no one held before and that user code may read; no other page of the
  space changes its translation or rights. The new page is mapped read-only whatever the flags of the mapping say.
\<close>
theorem vm_space_page_fault_resolves:
  assumes "space_ok A d space ms s" and "covered s ms a" and "a < KERNEL_START_VIRT"
    and "frames_ok A fl (pages (kmem (heap s)))" and "take_block 0 fl = Some (t, fl1)"
    and "PDE_EXISTS (vm_words s (GET_PDE (slab_base d) a)) \<or> take_block 0 fl1 \<noteq> None"
  shows "\<exists>A' fl' s'. vm_space_page_fault space a s = Some (E_SUCCESS, s') \<and> (t, 0) \<notin> A \<and> insert (t, 0) A \<subseteq> A' \<and>
    frames_ok A' fl' (pages (kmem (heap s'))) \<and> space_ok A' d space ms s' \<and>
    walk (vm_words s') (slab_base d) a = Some (PFN_TO_PA (of_nat t) OR (a AND 0xFFF)) \<and>
    walk_user (vm_words s') (slab_base d) a \<and> \<not> walk_writable (vm_words s') (slab_base d) a \<and>
    (\<forall>a' < KERNEL_START_VIRT. PAGE_FRAME a' \<noteq> PAGE_FRAME a \<longrightarrow>
       same_access (vm_words s') (slab_base d) (vm_words s) (slab_base d) a')"
  using assms by (rule page_fault_ok)

text \<open>
  A page fault outside every mapping, or inside one when no page is free, is refused: the
  error code is returned and nothing changes.
\<close>
lemma vm_space_page_fault_refuses:
  assumes "space_ok A d space ms s" and "frames_ok A fl (pages (kmem (heap s)))"
    and "\<not> covered s ms a \<or> take_block 0 fl = None"
  shows "vm_space_page_fault space a s = Some (E_ERROR, s)"
proof -
  obtain r where r: "list_for_each (vnodes s) (map_contains (maps s) a) (next_node (vnodes s (Mappings space))) = Some r"
    "r \<noteq> None \<longleftrightarrow> covered s ms a" using fault_search [OF assms(1)] by blast
  have n: "space \<noteq> 0" using assms(1) by (simp add: space_ok_def)
  have "vm_space_map_page space a s = Some (E_ERROR, s)" if t: "take_block 0 fl = None"
  proof -
    have "(0 :: u32) \<le> 6" by simp
    with page_alloc_none [of A fl "pages (kmem (heap s))" 0 PR_KERNEL] t assms(2)
    show ?thesis by (simp add: frames_ok_def vm_space_map_page_def set_frames_def)
  qed
  with r n assms(3) show ?thesis by (cases r) (auto simp: vm_space_page_fault_def)
qed

text \<open>
  Creating an address space, on every outcome. On a heap in order, \<^verbatim>\<open>vm_space_new\<close> returns
  NULL when kmalloc does, with no change in the live allocations; otherwise it returns a newly
  allocated struct with no mappings and a fresh directory that translates as the kernel's
  does, and the heap stays in order. Only when the struct was allocated but no page is left
  for the directory does it not return: a NULL page is dereferenced.
\<close>
lemma vm_space_new_outcomes:
  assumes "kmalloc_ok H F S (heap s)" and "kernel_directory (valid_pages (pages (kmem (heap s)))) k (vm_words s)"
  shows "case vm_space_new (slab_base k) s of
      None \<Rightarrow> \<exists>r h A fl. kmalloc SIZEOF_VM_SPACE (heap s) = Some (r, h) \<and> r \<noteq> 0 \<and>
        frames_ok A fl (pages (kmem h)) \<and> take_block 0 fl = None
    | Some (r, s') \<Rightarrow> \<exists>H' F' S'. kmalloc_ok H' F' S' (heap s') \<and>
        (if r = 0 then allocations H' F' (heap s') = allocations H F (heap s)
         else (r, 16) \<notin> allocations H F (heap s) \<and> allocations H' F' (heap s') = insert (r, 16) (allocations H F (heap s)) \<and>
           (\<exists>A fl d. frames_ok A fl (pages (kmem (heap s'))) \<and> space_ok A d r [] s' \<and>
             (\<forall>va. walk (vm_words s') (slab_base d) va = walk (vm_words s) (slab_base k) va)))"
proof -
  have own: "palloc_owns S (pages (kmem (heap s)))" using assms(1) by (simp add: kmalloc_ok_def)
  have "unat SIZEOF_VM_SPACE \<le> 32768" by (simp add: SIZEOF_VM_SPACE_def)
  from kmalloc_run [OF assms(1) this] show ?thesis
    unfolding cache_of_16
  proof (elim exE conjE disjE)
    fix i ps assume km: "kmalloc SIZEOF_VM_SPACE (heap s) = Some (0, (heap s)\<lparr>kmem := (kmem (heap s))\<lparr>pages := ps\<rparr>\<rparr>)" "palloc_owns S ps"
    then have "kmalloc_ok H F S (set_frames ps (heap s))" using assms(1) by (intro kmalloc_ok_set_frames)
    then show ?thesis using km(1) allocations_set_frames [of H F ps "heap s"]
      by (auto simp: vm_space_new_def set_frames_def)
  next
    fix i r h H' F' S'
    assume i: "Some (1 :: nat) = Some i" and km: "kmalloc SIZEOF_VM_SPACE (heap s) = Some (r, h)" "r \<noteq> 0"
      and ok: "kmalloc_ok H' F' S' h"
      and al: "allocations H' F' h = insert (r, 2 ^ (i + 3)) (allocations H F (heap s))" "(r, 2 ^ (i + 3)) \<notin> allocations H F (heap s)"
    have k: "kernel_directory (valid_pages (pages (kmem h))) k (vm_words s)"
      using assms(2) kmalloc_valid_pages [OF own km(1)] by simp
    obtain A fl where fr: "frames_ok A fl (pages (kmem h))" "\<forall>x\<in>S'. \<exists>t. (t, 4) \<in> A \<and> x = slab_base t"
      using ok by (auto simp: kmalloc_ok_def palloc_owns_def frames_ok_def)
    show ?thesis
    proof (cases "take_block 0 fl")
      case None
      then show ?thesis using vm_space_new_crash [OF km fr(1)] km fr(1) by auto
    next
      case (Some x)
      then obtain t fl' where "take_block 0 fl = Some (t, fl')" by (cases x) simp
      from vm_space_new_directory [OF km ok k fr this] obtain s' where s':
        "vm_space_new (slab_base k) s = Some (r, s')" "kmalloc_ok H' F' S' (heap s')"
        "allocations H' F' (heap s') = allocations H' F' h"
        "frames_ok (insert (t, 0) A) fl' (pages (kmem (heap s')))" "space_ok (insert (t, 0) A) t r [] s'"
        "\<forall>va. walk (vm_words s') (slab_base t) va = walk (vm_words s) (slab_base k) va" by blast
      have "\<exists>A fl d. frames_ok A fl (pages (kmem (heap s'))) \<and> space_ok A d r [] s' \<and>
          (\<forall>va. walk (vm_words s') (slab_base d) va = walk (vm_words s) (slab_base k) va)" using s'(4-6) by blast
      moreover have "(2 :: nat) ^ (i + 3) = 16" using i by auto
      ultimately show ?thesis unfolding s'(1) option.case prod.case
        by (intro exI [of _ H'] exI [of _ F'] exI [of _ S']) (use s'(2,3) km(2) al in simp)
    qed
  qed
qed

text \<open>
  The mappings of a space: \<^verbatim>\<open>vm_space_add_map\<close> puts a mapping in front of the others, and
  \<^verbatim>\<open>vm_space_delete_map\<close> takes out exactly the one it is given.
\<close>
lemma vm_space_map_list:
  assumes "llist (vnodes s) (Mappings space) (map MapNode ms)" and "space \<noteq> 0" and "m \<noteq> 0"
  shows "(m \<notin> set ms \<longrightarrow> (\<exists>s'. vm_space_add_map space m s = Some s' \<and>
      llist (vnodes s') (Mappings space) (map MapNode (m # ms)))) \<and>
    (m \<in> set ms \<longrightarrow> llist (vnodes (vm_space_delete_map space m s)) (Mappings space) (map MapNode (remove1 m ms)))"
proof (intro conjI impI)
  assume "m \<notin> set ms"
  then have "MapNode m \<notin> insert (Mappings space) (set (map MapNode ms))" by auto
  from lin.add_repr [OF assms(1) this] show "\<exists>s'. vm_space_add_map space m s = Some s' \<and>
      llist (vnodes s') (Mappings space) (map MapNode (m # ms))"
    using assms(2,3) by (auto simp: vm_space_add_map_def)
next
  assume "m \<in> set ms"
  then obtain us vs where ms: "ms = us @ m # vs" "m \<notin> set us" using split_list_first by fastforce
  then have "llist (vnodes s) (Mappings space) (map MapNode us @ MapNode m # map MapNode vs)" using assms(1) by simp
  from lin.del_repr [OF this] show "llist (vnodes (vm_space_delete_map space m s)) (Mappings space) (map MapNode (remove1 m ms))"
    using assms(3) ms by (simp add: vm_space_delete_map_def remove1_append)
qed

section \<open>Witnesses\<close>

definition sample_vm :: "buddy_allocator \<Rightarrow> vm_state" where
  "sample_vm fr = \<lparr>heap = kmalloc_init fr, vm_words = (\<lambda>_. 0), vm_invalidated = [],
     spaces = (\<lambda>_. \<lparr>sp_pgd = VIR_TO_PHY (slab_base 0), sp_users = 0\<rparr>),
     maps = (\<lambda>_. \<lparr>map_space = 0x1000, map_start = 0x400000, map_end = 0x800000, map_flags = 2\<rparr>),
     vnodes = (\<lambda>n. if n = Mappings 0x1000 then \<lparr>next_node = Some (MapNode 0x2000), prev_node = None\<rparr>
                   else \<lparr>next_node = None, prev_node = Some (Mappings 0x1000)\<rparr>)\<rparr>"

lemma sample_space: "space_ok {(0, 0)} 0 0x1000 [0x2000] (sample_vm fr)"
  using sample_directory by (simp add: space_ok_def sample_vm_def llist_def)

lemma sample_vm_frames: "pages (kmem (heap (sample_vm fr))) = fr"
  by (simp add: sample_vm_def kmalloc_init_def)

lemma sample_take1': "take_block 0 sample_lists1 = Some (1, sample_lists1(0 := []))"
proof -
  have "first_order 0 sample_lists1 = Some 0" by (simp add: first_order_Some)
  then show ?thesis by (simp add: take_block_def)
qed

lemma sample_take2: "take_block 0 (sample_lists1(0 := [])) \<noteq> None"
proof -
  have "first_order 0 (sample_lists1(0 := [])) = Some 1" by (simp add: first_order_Some)
  then show ?thesis by (simp add: take_block_def)
qed

text \<open>A fault at 0x400123 in a space with one mapping.\<close>
theorem vm_space_page_fault_resolves_witness:
  "\<exists>fr s'. page_alloc 0 PR_KERNEL sample_free = Some (Some 0, fr) \<and>
     vm_space_page_fault 0x1000 0x400123 (sample_vm fr) = Some (E_SUCCESS, s') \<and>
     walk (vm_words s') (slab_base 0) 0x400123 = Some 0x1123"
proof -
  obtain fr where fr: "page_alloc 0 PR_KERNEL sample_free = Some (Some 0, fr)" "frames_ok {(0, 0)} sample_lists1 fr"
    by (rule sample_alloc) blast
  have "covered (sample_vm fr) [0x2000] 0x400123" by (simp add: covered_def sample_vm_def)
  moreover have "0x400123 < KERNEL_START_VIRT" by (simp add: rotary_const)
  moreover have "PFN_TO_PA (of_nat 1) OR (0x400123 AND 0xFFF) = 0x1123" by (simp add: rotary_macro rotary_const)
  ultimately show ?thesis
    using vm_space_page_fault_resolves [OF sample_space [of fr], of "0x400123" sample_lists1 1 "sample_lists1(0 := [])"]
      fr sample_take1' sample_take2 unfolding sample_vm_frames by auto
qed

text \<open>A fault at 0x900000, outside the mapping.\<close>
lemma vm_space_page_fault_refuses_witness:
  "\<exists>fr. page_alloc 0 PR_KERNEL sample_free = Some (Some 0, fr) \<and>
     vm_space_page_fault 0x1000 0x900000 (sample_vm fr) = Some (E_ERROR, sample_vm fr)"
proof -
  obtain fr where fr: "page_alloc 0 PR_KERNEL sample_free = Some (Some 0, fr)" "frames_ok {(0, 0)} sample_lists1 fr"
    by (rule sample_alloc) blast
  have "\<not> covered (sample_vm fr) [0x2000] 0x900000" by (simp add: covered_def sample_vm_def)
  with vm_space_page_fault_refuses [OF sample_space [of fr], of sample_lists1 "0x900000"] fr show ?thesis
    unfolding sample_vm_frames by blast
qed

text \<open>The kernel's directory in page 100, beyond the 64 pages of the allocator.\<close>
lemma vm_space_new_outcomes_witness:
  "case vm_space_new (slab_base 100) (sample_vm sample_free) of
      None \<Rightarrow> \<exists>r h A fl. kmalloc SIZEOF_VM_SPACE (kmalloc_init sample_free) = Some (r, h) \<and> r \<noteq> 0 \<and>
        frames_ok A fl (pages (kmem h)) \<and> take_block 0 fl = None
    | Some (r, s') \<Rightarrow> \<exists>H' F' S'. kmalloc_ok H' F' S' (heap s')"
proof -
  have "kernel_directory (valid_pages (pages (kmem (heap (sample_vm sample_free))))) 100 (vm_words (sample_vm sample_free))"
    using sample_valid [of sample_free 6 0] unfolding sample_vm_frames
    by (simp add: kernel_directory_def PDE_EXISTS_bit sample_vm_def sample_free_def)
  moreover have h: "heap (sample_vm sample_free) = kmalloc_init sample_free" by (simp add: sample_vm_def)
  ultimately show ?thesis
    using vm_space_new_outcomes [of "\<lambda>_. []" "\<lambda>_. []" "{}" "sample_vm sample_free" 100] kmalloc_init_ok [OF sample_owns]
    unfolding h by (auto split: option.splits)
qed

text \<open>Adding mapping 0x3000 to, and deleting 0x2000 from, a space with one mapping.\<close>
lemma vm_space_map_list_witness:
  "(\<exists>s'. vm_space_add_map 0x1000 0x3000 (sample_vm sample_free) = Some s' \<and>
      llist (vnodes s') (Mappings 0x1000) [MapNode 0x3000, MapNode 0x2000]) \<and>
   llist (vnodes (vm_space_delete_map 0x1000 0x2000 (sample_vm sample_free))) (Mappings 0x1000) []"
proof -
  have "llist (vnodes (sample_vm sample_free)) (Mappings 0x1000) (map MapNode [0x2000])"
    using sample_space [of sample_free] by (simp add: space_ok_def)
  from vm_space_map_list [OF this, of "0x3000"] vm_space_map_list [OF this, of "0x2000"] show ?thesis by simp
qed

end
