(* ===== verification/Task.thy ===== *)
theory Task
  imports Vm KString
begin

text \<open>
  Tasks and the scheduler, \<^verbatim>\<open>kernel/sched/task.c\<close>, with the x86 part of \<^verbatim>\<open>arch/x86/kernel/task.c\<close>
  and the context switch of \<^verbatim>\<open>context-switch.asm\<close>. A task struct is a record in a partial store by
  address: an access to a struct that was freed or never allocated is \<^term>\<open>None\<close>. Its embedded
  list node is a reference of type \<open>tnode\<close>; its name lives in byte memory at offset 48, the
  kernel stacks in the word memory of the page tables. The log messages are not modelled.
\<close>

section \<open>Constants\<close>

definition TASK_STATE_INVALID :: u32 where [rotary_const]: "TASK_STATE_INVALID = 0"
definition TASK_STATE_RUNNING :: u32 where [rotary_const]: "TASK_STATE_RUNNING = 1"
definition TASK_STATE_WAITING :: u32 where [rotary_const]: "TASK_STATE_WAITING = 2"
definition TASK_STATE_PAUSED :: u32 where [rotary_const]: "TASK_STATE_PAUSED = 3"
definition TASK_STATE_KILLED :: u32 where [rotary_const]: "TASK_STATE_KILLED = 4"

definition TASK_NAME_LENGTH_MAX :: u32 where [rotary_const]: "TASK_NAME_LENGTH_MAX = 16"
definition TASK_KERNEL :: u32 where [rotary_const]: "TASK_KERNEL = 0"
definition TASK_USERMODE :: u32 where [rotary_const]: "TASK_USERMODE = 1"
definition TASK_PRIORITY_MIN :: u32 where [rotary_const]: "TASK_PRIORITY_MIN = 1"
definition TASK_PRIORITY_MAX :: u32 where [rotary_const]: "TASK_PRIORITY_MAX = 5"
definition TASK_KERNEL_STACK_ORDER :: u32 where [rotary_const]: "TASK_KERNEL_STACK_ORDER = 4"

definition GDT_KERNEL_CODE_OFFSET :: u32 where [rotary_const]: "GDT_KERNEL_CODE_OFFSET = 0x08"
definition GDT_KERNEL_DATA_OFFSET :: u32 where [rotary_const]: "GDT_KERNEL_DATA_OFFSET = 0x10"
definition GDT_USER_CODE_OFFSET :: u32 where [rotary_const]: "GDT_USER_CODE_OFFSET = 0x18"
definition GDT_USER_DATA_OFFSET :: u32 where [rotary_const]: "GDT_USER_DATA_OFFSET = 0x20"
definition RPL_KERNELMODE :: u32 where [rotary_const]: "RPL_KERNELMODE = 0"
definition RPL_USERMODE :: u32 where [rotary_const]: "RPL_USERMODE = 3"
definition EFLAGS_INTERRUPTS_ON :: u32 where [rotary_const]: "EFLAGS_INTERRUPTS_ON = 0x200"
definition EFLAGS_IOPL_KERNELMODE :: u32 where [rotary_const]: "EFLAGS_IOPL_KERNELMODE = 0"
definition EFLAGS_IOPL_USERMODE :: u32 where [rotary_const]: "EFLAGS_IOPL_USERMODE = 0x3000"

section \<open>State\<close>

record task =
  t_id :: u32
  t_type :: u32
  t_state :: u32
  t_priority :: u32
  t_ticks :: u32
  kstack_top :: u32
  kstack_bot :: u32
  kstack_size :: u32
  t_vm_space :: u32
  t_start_addr :: u32

text \<open>Offset of the name, and the size of the struct.\<close>

definition TASK_NAME_OFFSET :: u32 where [rotary_const]: "TASK_NAME_OFFSET = 48"
definition SIZEOF_TASK :: u32 where [rotary_const]: "SIZEOF_TASK = 68"

definition zero_task :: task where
  "zero_task = \<lparr>t_id = 0, t_type = 0, t_state = 0, t_priority = 0, t_ticks = 0, kstack_top = 0, kstack_bot = 0,
     kstack_size = 0, t_vm_space = 0, t_start_addr = 0\<rparr>"

datatype tnode = TaskHead | TaskNode u32

text \<open>The registers a context switch saves and loads.\<close>

record cpu_regs =
  r_edi :: u32
  r_esi :: u32
  r_ebx :: u32
  r_ebp :: u32
  r_esp :: u32
  r_eip :: u32
  r_cr3 :: u32

record sched_state =
  vm :: vm_state
  bytes :: mem
  tasks :: "u32 \<Rightarrow> task option"
  task_head :: task
  tnodes :: "tnode list_heap"
  task_lock :: bool
  last_task_id :: u32
  current_task :: tnode
  sched_enabled :: bool
  esp0 :: u32
  regs :: cpu_regs

definition task_at :: "sched_state \<Rightarrow> tnode \<Rightarrow> task option" where
  "task_at s n = (case n of TaskHead \<Rightarrow> Some (task_head s) | TaskNode a \<Rightarrow> tasks s a)"

definition upd_task :: "tnode \<Rightarrow> (task \<Rightarrow> task) \<Rightarrow> sched_state \<Rightarrow> sched_state option" where
  "upd_task n f s = do {
     t \<leftarrow> task_at s n;
     Some (case n of TaskHead \<Rightarrow> s\<lparr>task_head := f t\<rparr> | TaskNode a \<Rightarrow> s\<lparr>tasks := (tasks s)(a \<mapsto> f t)\<rparr>)
   }"

text \<open>\<^verbatim>\<open>memset(va, 0, 4 * n)\<close> on the word memory.\<close>

definition clear_words :: "u32 \<Rightarrow> nat \<Rightarrow> (u32 \<Rightarrow> u32) \<Rightarrow> u32 \<Rightarrow> u32" where
  "clear_words va n w = fold (\<lambda>i w. w(va + 4 * of_nat i := 0)) [0..<n] w"

definition acquire :: "sched_state \<Rightarrow> sched_state option" where
  "acquire s = do { l \<leftarrow> lock (task_lock s); Some (s\<lparr>task_lock := l\<rparr>) }"

definition release :: "sched_state \<Rightarrow> sched_state" where
  "release s = s\<lparr>task_lock := unlock (task_lock s)\<rparr>"

section \<open>Architecture: first stack frame and context switch\<close>

text \<open>The frame of \<^verbatim>\<open>struct isr_registers\<close>: 16 words; offsets of the members that are set.\<close>

definition SIZEOF_ISR_REGISTERS :: u32 where [rotary_const]: "SIZEOF_ISR_REGISTERS = 64"
definition REG_DS :: u32 where [rotary_const]: "REG_DS = 0"
definition REG_EIP :: u32 where [rotary_const]: "REG_EIP = 44"
definition REG_CS :: u32 where [rotary_const]: "REG_CS = 48"
definition REG_EFLAGS :: u32 where [rotary_const]: "REG_EFLAGS = 52"
definition REG_USER_ESP :: u32 where [rotary_const]: "REG_USER_ESP = 56"
definition REG_USER_SS :: u32 where [rotary_const]: "REG_USER_SS = 60"

text \<open>The frame of \<^verbatim>\<open>struct task_context\<close>: edi, esi, ebx, ebp, eip.\<close>

definition SIZEOF_TASK_CONTEXT :: u32 where [rotary_const]: "SIZEOF_TASK_CONTEXT = 20"

definition arch_task_init :: "tnode \<Rightarrow> i32" where
  "arch_task_init init_task = E_SUCCESS"

text \<open>\<open>isr_exit\<close> is the address of the assembly routine of that name.\<close>

definition arch_task_create :: "u32 \<Rightarrow> u32 \<Rightarrow> sched_state \<Rightarrow> (i32 \<times> sched_state) option" where
  "arch_task_create isr_exit new_task s = do {
     s1 \<leftarrow> upd_task (TaskNode new_task) (\<lambda>t. t\<lparr>kstack_top := kstack_top t - SIZEOF_ISR_REGISTERS\<rparr>) s;
     t1 \<leftarrow> tasks s1 new_task;
     let registers = kstack_top t1;
     let w1 = (clear_words registers 16 (vm_words (vm s1)))(registers + REG_EIP := t_start_addr t1);
     let w2 = (if t_type t1 = TASK_KERNEL
               then w1(registers + REG_CS := GDT_KERNEL_CODE_OFFSET OR RPL_KERNELMODE,
                       registers + REG_DS := GDT_KERNEL_DATA_OFFSET OR RPL_KERNELMODE,
                       registers + REG_EFLAGS := EFLAGS_INTERRUPTS_ON OR EFLAGS_IOPL_KERNELMODE,
                       registers + REG_USER_SS := GDT_KERNEL_DATA_OFFSET OR RPL_KERNELMODE)
               else w1(registers + REG_CS := GDT_USER_CODE_OFFSET OR RPL_USERMODE,
                       registers + REG_DS := GDT_USER_DATA_OFFSET OR RPL_USERMODE,
                       registers + REG_EFLAGS := EFLAGS_INTERRUPTS_ON OR EFLAGS_IOPL_USERMODE,
                       registers + REG_USER_SS := GDT_USER_DATA_OFFSET OR RPL_USERMODE,
                       registers + REG_USER_ESP := 0x440000));
     s2 \<leftarrow> upd_task (TaskNode new_task) (\<lambda>t. t\<lparr>kstack_top := kstack_top t - SIZEOF_TASK_CONTEXT\<rparr>) s1;
     t2 \<leftarrow> tasks s2 new_task;
     let ctx = kstack_top t2;
     let w3 = clear_words ctx 5 w2;
     let w4 = w3(ctx := 0, ctx + 4 := 0, ctx + 8 := 0, ctx + 12 := 0, ctx + 16 := isr_exit);
     Some (E_SUCCESS, s2\<lparr>vm := (vm s2)\<lparr>vm_words := w4\<rparr>\<rparr>)
   }"

text \<open>
  The assembly routine: on entry \<^verbatim>\<open>esp\<close> points to the return address. The callee-saved
  registers are pushed, the stack pointer is kept in the struct of the current task, the next
  task's is loaded, \<^verbatim>\<open>cr3\<close> is changed when the directories differ (the directory is the first
  member of the address space), the registers are popped and \<^verbatim>\<open>ret\<close> jumps.
\<close>

definition task_context_switch :: "tnode \<Rightarrow> tnode \<Rightarrow> sched_state \<Rightarrow> sched_state option" where
  "task_context_switch curr_t next_t s = do {
     let r = regs s;
     let sp = r_esp r;
     let w = (vm_words (vm s))(sp - 4 := r_ebp r, sp - 8 := r_ebx r, sp - 12 := r_esi r, sp - 16 := r_edi r);
     s1 \<leftarrow> upd_task curr_t (\<lambda>t. t\<lparr>kstack_top := sp - 16\<rparr>) s;
     nt \<leftarrow> task_at s1 next_t;
     let sp1 = kstack_top nt;
     (if t_vm_space nt = 0 then None
      else do {
        let pgd = sp_pgd (spaces (vm s1) (t_vm_space nt));
        let cr3 = (if r_cr3 r = pgd then r_cr3 r else pgd);
        Some (s1\<lparr>vm := (vm s1)\<lparr>vm_words := w\<rparr>,
          regs := \<lparr>r_edi = w sp1, r_esi = w (sp1 + 4), r_ebx = w (sp1 + 8), r_ebp = w (sp1 + 12),
                   r_esp = sp1 + 20, r_eip = w (sp1 + 16), r_cr3 = cr3\<rparr>\<rparr>)
      })
   }"

text \<open>The registers are those at the entry of the assembly routine, after the call.\<close>

definition arch_task_switch :: "tnode \<Rightarrow> tnode \<Rightarrow> sched_state \<Rightarrow> (i32 \<times> sched_state) option" where
  "arch_task_switch curr_t next_t s = do {
     nt \<leftarrow> task_at s next_t;
     s1 \<leftarrow> task_context_switch curr_t next_t (s\<lparr>esp0 := kstack_bot nt\<rparr>);
     Some (E_SUCCESS, s1)
   }"

section \<open>Creation\<close>

definition task_create_vm_space :: "u32 \<Rightarrow> u32 \<Rightarrow> sched_state \<Rightarrow> (i32 \<times> sched_state) option" where
  "task_create_vm_space kpgd task s = do {
     (space, v) \<leftarrow> vm_space_new kpgd (vm s);
     s1 \<leftarrow> upd_task (TaskNode task) (\<lambda>t. t\<lparr>t_vm_space := space\<rparr>) (s\<lparr>vm := v\<rparr>);
     Some (if space = 0 then (E_ERROR, s1) else (E_SUCCESS, s1))
   }"

definition task_destroy_vm_space :: "kernel_image \<Rightarrow> u32 \<Rightarrow> sched_state \<Rightarrow> sched_state option" where
  "task_destroy_vm_space img task s =
     (if task = 0 then Some s
      else do {
        t \<leftarrow> tasks s task;
        (if t_vm_space t = 0 then Some s
         else do {
           v \<leftarrow> vm_space_destroy img (t_vm_space t) (vm s);
           Some (s\<lparr>vm := v\<rparr>)
         })
      })"

definition sched_frames :: "sched_state \<Rightarrow> buddy_allocator" where
  "sched_frames s = pages (kmem (heap (vm s)))"

definition put_frames :: "buddy_allocator \<Rightarrow> sched_state \<Rightarrow> sched_state" where
  "put_frames fr s = s\<lparr>vm := (vm s)\<lparr>heap := set_frames fr (heap (vm s))\<rparr>\<rparr>"

definition task_create_kernel_stack :: "u32 \<Rightarrow> sched_state \<Rightarrow> (i32 \<times> sched_state) option" where
  "task_create_kernel_stack task s = do {
     (p, fr) \<leftarrow> page_alloc TASK_KERNEL_STACK_ORDER 0 (sched_frames s);
     let s1 = put_frames fr s;
     (case p of
        None \<Rightarrow> Some (E_ERROR, s1)
      | Some i \<Rightarrow> do {
          pg \<leftarrow> page_at i fr;
          let sz = push_bit (unat TASK_KERNEL_STACK_ORDER) 1 * PAGE_SIZE;
          s2 \<leftarrow> upd_task (TaskNode task)
            (\<lambda>t. t\<lparr>kstack_size := sz, kstack_bot := PAGE_VA pg + sz, kstack_top := PAGE_VA pg + sz\<rparr>) s1;
          Some (E_SUCCESS, s2\<lparr>vm := (vm s2)\<lparr>vm_words := clear_words (PAGE_VA pg) (unat sz div 4) (vm_words (vm s2))\<rparr>\<rparr>)
        })
   }"

definition task_destroy_kernel_stack :: "kernel_image \<Rightarrow> u32 \<Rightarrow> sched_state \<Rightarrow> sched_state option" where
  "task_destroy_kernel_stack img task s =
     (if task = 0 then Some s
      else do {
        t \<leftarrow> tasks s task;
        (if kstack_bot t = 0 then Some s
         else do {
           (_, fr) \<leftarrow> page_free_va img (kstack_bot t - kstack_size t) TASK_KERNEL_STACK_ORDER (sched_frames s);
           Some (put_frames fr s)
         })
      })"

text \<open>\<^verbatim>\<open>kmalloc\<close> and \<^verbatim>\<open>kfree\<close> of a task struct; \<open>junk\<close> is what the memory held before.\<close>

definition alloc_task :: "task \<Rightarrow> sched_state \<Rightarrow> (u32 \<times> sched_state) option" where
  "alloc_task junk s = do {
     (a, h) \<leftarrow> kmalloc SIZEOF_TASK (heap (vm s));
     let s1 = s\<lparr>vm := (vm s)\<lparr>heap := h\<rparr>\<rparr>;
     Some (a, if a = 0 then s1 else s1\<lparr>tasks := (tasks s1)(a \<mapsto> junk)\<rparr>)
   }"

definition free_task :: "u32 \<Rightarrow> sched_state \<Rightarrow> sched_state option" where
  "free_task a s = do {
     (_, h) \<leftarrow> kfree a (heap (vm s));
     Some (s\<lparr>vm := (vm s)\<lparr>heap := h\<rparr>, tasks := (tasks s)(a := None)\<rparr>)
   }"

text \<open>The struct is cleared, so what it held before does not matter.\<close>

definition task_alloc_struct ::
  "u32 \<Rightarrow> u32 \<Rightarrow> u32 \<Rightarrow> u32 \<Rightarrow> u32 \<Rightarrow> sched_state \<Rightarrow> (u32 \<times> sched_state) option" where
  "task_alloc_struct name type start priority state s = do {
     let task_id = last_task_id s;
     (new_task, s1) \<leftarrow> alloc_task zero_task s;
     (if new_task = 0 then Some (0, s1)
      else do {
        let nm = new_task + TASK_NAME_OFFSET;
        let b1 = memset_loop (unat TASK_NAME_LENGTH_MAX) nm 0 (bytes s1);
        s2 \<leftarrow> upd_task (TaskNode new_task)
          (\<lambda>t. t\<lparr>t_id := task_id, t_type := type, t_start_addr := start, t_priority := priority, t_state := state\<rparr>) s1;
        let ns = clist_init (Some (TaskNode new_task)) (tnodes s2);
        let b2 = snd (strncpy nm name TASK_NAME_LENGTH_MAX b1);
        let b3 = b2(nm + (TASK_NAME_LENGTH_MAX - 1) := 0);
        Some (new_task, s2\<lparr>tnodes := ns, last_task_id := last_task_id s2 + 1, bytes := b3\<rparr>)
      })
   }"

definition task_create_cleanup :: "kernel_image \<Rightarrow> u32 \<Rightarrow> sched_state \<Rightarrow> (u32 \<times> sched_state) option" where
  "task_create_cleanup img new_task s = do {
     s1 \<leftarrow> task_destroy_vm_space img new_task s;
     s2 \<leftarrow> task_destroy_kernel_stack img new_task s1;
     s3 \<leftarrow> free_task new_task s2;
     Some (0, release s3)
   }"

definition task_create ::
  "kernel_image \<Rightarrow> u32 \<Rightarrow> u32 \<Rightarrow> u32 \<Rightarrow> u32 \<Rightarrow> u32 \<Rightarrow> u32 \<Rightarrow> u32 \<Rightarrow> sched_state \<Rightarrow> (u32 \<times> sched_state) option" where
  "task_create img kpgd isr_exit name type start priority state s =
     (if state \<noteq> TASK_STATE_PAUSED \<and> state \<noteq> TASK_STATE_WAITING then Some (0, s)
      else if priority < TASK_PRIORITY_MIN \<or> priority > TASK_PRIORITY_MAX then Some (0, s)
      else do {
        s1 \<leftarrow> acquire s;
        (new_task, s2) \<leftarrow> task_alloc_struct name type start priority state s1;
        (if new_task = 0 then task_create_cleanup img new_task s2
         else do {
           (r1, s3) \<leftarrow> task_create_kernel_stack new_task s2;
           (if \<not> SUCCESS r1 then task_create_cleanup img new_task s3
            else do {
              (r2, s4) \<leftarrow> task_create_vm_space kpgd new_task s3;
              (if \<not> SUCCESS r2 then task_create_cleanup img new_task s4
               else do {
                 (r3, s5) \<leftarrow> arch_task_create isr_exit new_task s4;
                 (if \<not> SUCCESS r3 then Some (0, release s5)
                  else do {
                    ns \<leftarrow> clist_add (Some TaskHead) (Some (TaskNode new_task)) (tnodes s5);
                    Some (new_task, release (s5\<lparr>tnodes := ns\<rparr>))
                  })
               })
            })
         })
      })"

definition task_add_to_scheduler :: "u32 \<Rightarrow> sched_state \<Rightarrow> sched_state option" where
  "task_add_to_scheduler new_task s = do {
     ns \<leftarrow> clist_add (Some TaskHead) (Some (TaskNode new_task)) (tnodes s);
     Some (s\<lparr>tnodes := ns\<rparr>)
   }"

definition task_enable_scheduler :: "sched_state \<Rightarrow> sched_state" where
  "task_enable_scheduler s = s\<lparr>sched_enabled := True\<rparr>"

definition task_disable_scheduler :: "sched_state \<Rightarrow> sched_state" where
  "task_disable_scheduler s = s\<lparr>sched_enabled := False\<rparr>"

text \<open>
  The struct of the initial task is not cleared: \<open>junk\<close> is what its memory held. \<open>stack_bottom\<close>
  is the address of the boot stack, \<open>idle_name\<close> that of the string literal.
\<close>

definition task_init ::
  "u32 \<Rightarrow> u32 \<Rightarrow> u32 \<Rightarrow> task \<Rightarrow> sched_state \<Rightarrow> (i32 \<times> sched_state) outcome option" where
  "task_init kpgd stack_bottom idle_name junk s = do {
     let s1 = s\<lparr>task_head := zero_task, tnodes := clist_init (Some TaskHead) (tnodes s)\<rparr>;
     (idle, s2) \<leftarrow> alloc_task junk s1;
     (if idle = 0 then Some Panic
      else do {
        s3 \<leftarrow> upd_task (TaskNode idle)
          (\<lambda>t. t\<lparr>t_state := TASK_STATE_RUNNING, t_id := 0, kstack_bot := PHY_TO_VIR stack_bottom\<rparr>) s2;
        (space, v) \<leftarrow> vm_space_new kpgd (vm s3);
        s4 \<leftarrow> upd_task (TaskNode idle) (\<lambda>t. t\<lparr>t_vm_space := space\<rparr>) (s3\<lparr>vm := v\<rparr>);
        let b = snd (strncpy (idle + TASK_NAME_OFFSET) idle_name TASK_NAME_LENGTH_MAX (bytes s4));
        s5 \<leftarrow> task_add_to_scheduler idle (s4\<lparr>bytes := b, current_task := TaskNode idle\<rparr>);
        let ignored = arch_task_init (current_task s5);
        Some (Returned (E_SUCCESS, task_enable_scheduler s5))
      })
   }"

section \<open>Look-up and termination of tasks\<close>

partial_function (option) find_task :: "sched_state \<Rightarrow> u32 \<Rightarrow> tnode option \<Rightarrow> tnode option option" where
  "find_task s task_id entry = do {
     n \<leftarrow> entry;
     (if n = TaskHead then Some None
      else do {
        t \<leftarrow> task_at s n;
        (if t_id t = task_id then Some (Some n) else find_task s task_id (next_node (tnodes s n)))
      })
   }"

definition task_get_from_id :: "u32 \<Rightarrow> sched_state \<Rightarrow> (tnode option \<times> sched_state) option" where
  "task_get_from_id task_id s = do {
     s1 \<leftarrow> acquire s;
     r \<leftarrow> find_task s1 task_id (next_node (tnodes s1 TaskHead));
     Some (r, release s1)
   }"

definition task_get_current :: "sched_state \<Rightarrow> tnode" where
  "task_get_current s = current_task s"

definition task_kill :: "u32 \<Rightarrow> sched_state \<Rightarrow> (i32 \<times> sched_state) option" where
  "task_kill task_id s =
     (if task_id = 0 then Some (E_ERROR, s)
      else do {
        (r, s1) \<leftarrow> task_get_from_id task_id s;
        (case r of
           None \<Rightarrow> Some (E_ERROR, s1)
         | Some n \<Rightarrow> do {
             t \<leftarrow> task_at s1 n;
             (if t_state t = TASK_STATE_INVALID then Some (E_ERROR, s1)
              else if t_state t \<noteq> TASK_STATE_RUNNING \<and> t_state t \<noteq> TASK_STATE_WAITING \<and> t_state t \<noteq> TASK_STATE_PAUSED
              then Some (E_ERROR, s1)
              else do {
                s2 \<leftarrow> acquire s1;
                s3 \<leftarrow> upd_task n (\<lambda>t. t\<lparr>t_state := TASK_STATE_KILLED\<rparr>) s2;
                Some (E_SUCCESS, release s3)
              })
           })
      })"

definition task_exit_current :: "sched_state \<Rightarrow> (i32 \<times> sched_state) option" where
  "task_exit_current s = do {
     s1 \<leftarrow> acquire s;
     s2 \<leftarrow> upd_task (current_task s1) (\<lambda>t. t\<lparr>t_state := TASK_STATE_KILLED\<rparr>) s1;
     Some (E_SUCCESS, release s2)
   }"

text \<open>
  The task found is never the list head, since the search ends there; the head's address
  would not be one \<^verbatim>\<open>kmalloc\<close> gave out.
\<close>

definition task_purge :: "kernel_image \<Rightarrow> u32 \<Rightarrow> sched_state \<Rightarrow> (i32 \<times> sched_state) option" where
  "task_purge img task_id s =
     (if task_id = 0 then Some (E_ERROR, s)
      else do {
        (r, s1) \<leftarrow> task_get_from_id task_id s;
        (case r of
           None \<Rightarrow> Some (E_ERROR, s1)
         | Some TaskHead \<Rightarrow> None
         | Some (TaskNode a) \<Rightarrow> do {
             t \<leftarrow> tasks s1 a;
             (if t_state t \<noteq> TASK_STATE_KILLED then Some (E_ERROR, s1)
              else do {
                s2 \<leftarrow> acquire s1;
                ns \<leftarrow> clist_delete_node (Some (TaskNode a)) (tnodes s2);
                s3 \<leftarrow> task_destroy_vm_space img a (s2\<lparr>tnodes := ns\<rparr>);
                s4 \<leftarrow> task_destroy_kernel_stack img a s3;
                s5 \<leftarrow> free_task a s4;
                Some (E_SUCCESS, release s5)
              })
           })
      })"

section \<open>The scheduler\<close>

text \<open>\<^verbatim>\<open>clist_for_each_safe\<close>: the successor is read before the body runs.\<close>

partial_function (option) purge_loop :: "kernel_image \<Rightarrow> tnode option \<Rightarrow> sched_state \<Rightarrow> sched_state option" where
  "purge_loop img entry s = do {
     n \<leftarrow> entry;
     let tmp = next_node (tnodes s n);
     (if n = TaskHead then Some s
      else do {
        t \<leftarrow> task_at s n;
        (if t_state t = TASK_STATE_KILLED
         then do {
           rs \<leftarrow> task_purge img (t_id t) s;
           purge_loop img tmp (snd rs)
         }
         else purge_loop img tmp s)
      })
   }"

definition task_purge_killed_tasks :: "kernel_image \<Rightarrow> sched_state \<Rightarrow> sched_state option" where
  "task_purge_killed_tasks img s = purge_loop img (next_node (tnodes s TaskHead)) s"

definition runnable :: "task \<Rightarrow> bool" where
  "runnable t \<longleftrightarrow> t_state t = TASK_STATE_WAITING \<or> t_state t = TASK_STATE_RUNNING"

partial_function (option) find_runnable :: "sched_state \<Rightarrow> tnode option \<Rightarrow> tnode option" where
  "find_runnable s next_nd = do {
     let n = (case next_nd of None \<Rightarrow> TaskHead | Some n \<Rightarrow> n);
     t \<leftarrow> task_at s n;
     (if runnable t then Some n else find_runnable s (next_node (tnodes s n)))
   }"

definition task_schedule :: "kernel_image \<Rightarrow> sched_state \<Rightarrow> sched_state option" where
  "task_schedule img s =
     (if \<not> sched_enabled s then Some s
      else do {
        s1 \<leftarrow> upd_task (current_task s) (\<lambda>t. t\<lparr>t_ticks := t_ticks t + 1\<rparr>) s;
        s2 \<leftarrow> task_purge_killed_tasks img s1;
        let prev = current_task s2;
        _ \<leftarrow> task_at s2 prev;
        nxt \<leftarrow> find_runnable s2 (next_node (tnodes s2 prev));
        let s3 = s2\<lparr>current_task := nxt\<rparr>;
        s4 \<leftarrow> upd_task prev
          (\<lambda>t. if t_state t = TASK_STATE_RUNNING then t\<lparr>t_state := TASK_STATE_WAITING\<rparr> else t) s3;
        s5 \<leftarrow> upd_task nxt (\<lambda>t. t\<lparr>t_state := TASK_STATE_RUNNING\<rparr>) s4;
        (_, s6) \<leftarrow> arch_task_switch prev nxt s5;
        Some s6
      })"

end
