(* ===== verification/Interrupts.thy ===== *)
theory Interrupts
  imports Task
begin

text \<open>
  Interrupts and the devices behind them: the descriptor table and the dispatch of
  \<^verbatim>\<open>arch/x86/kernel/interrupts.c\<close>, the interrupt controller (\<^verbatim>\<open>pic8259.c\<close>), the timer
  (\<^verbatim>\<open>timer.c\<close>), the keyboard (\<^verbatim>\<open>kernel/drivers/input/keyboard/keyboard.c\<close> and its x86 part) and the page
  fault entry of \<^verbatim>\<open>paging.c\<close>. Writes to I/O ports are a log; what is read from a port and from
  \<^verbatim>\<open>cr2\<close> is an argument. A function pointer in a table is a constructor of \<open>handler\<close> for the two
  functions the kernel registers, and an address for keyboard handlers, whose calls are recorded. The calls of the
  registered functions are recorded too (\<open>handler_calls\<close>), each with the port writes made before it.
\<close>

section \<open>State\<close>

datatype handler = Timer_Tick | X86_Driver_Keyboard_Isr

record idt_gate_t =
  low_offset :: u16
  segment_selector :: u16
  gate_reserved :: u8
  gate_type :: "4 word"
  gate_s :: "1 word"
  gate_dpl :: "2 word"
  gate_present :: "1 word"
  high_offset :: u16

record machine =
  sched :: sched_state
  port_log :: "(u16 \<times> u8) list"
  interrupt_handlers :: "handler option list"
  idt :: "idt_gate_t list"
  idt_base :: u32
  idt_limit :: u16
  interrupts_on :: bool
  timer_count :: u64
  keyboard_event_handlers :: "u32 list"
  key_calls :: "(u32 \<times> u8) list"
  handler_calls :: "(handler \<times> (u16 \<times> u8) list) list"

definition MAX_INTERRUPT_HANDLERS :: nat where [rotary_const]: "MAX_INTERRUPT_HANDLERS = 256"
definition INT_PAGE_FAULT :: u32 where [rotary_const]: "INT_PAGE_FAULT = 14"
definition INT_PIT :: u32 where [rotary_const]: "INT_PIT = 32"
definition INT_KEYBOARD :: u32 where [rotary_const]: "INT_KEYBOARD = 33"
definition IDT_TYPE_32_INT :: u8 where [rotary_const]: "IDT_TYPE_32_INT = 0x0E"
definition IDT_DPL_KERNEL :: u32 where [rotary_const]: "IDT_DPL_KERNEL = 0"
definition IDT_DPL_USER :: u32 where [rotary_const]: "IDT_DPL_USER = 3"

section \<open>Ports and the interrupt controller\<close>

definition IO_PORT_PIC1_CMD :: u16 where [rotary_const]: "IO_PORT_PIC1_CMD = 0x20"
definition IO_PORT_PIC1_DATA :: u16 where [rotary_const]: "IO_PORT_PIC1_DATA = 0x21"
definition IO_PORT_PIC2_CMD :: u16 where [rotary_const]: "IO_PORT_PIC2_CMD = 0xA0"
definition IO_PORT_PIC2_DATA :: u16 where [rotary_const]: "IO_PORT_PIC2_DATA = 0xA1"
definition IO_PORT_PIT_CHAN_0 :: u16 where [rotary_const]: "IO_PORT_PIT_CHAN_0 = 0x40"
definition IO_PORT_PIT_CMD :: u16 where [rotary_const]: "IO_PORT_PIT_CMD = 0x43"
definition IO_PORT_PS2_KEYBOARD :: u16 where [rotary_const]: "IO_PORT_PS2_KEYBOARD = 0x60"
definition IO_CMD_PIC_EOI :: u8 where [rotary_const]: "IO_CMD_PIC_EOI = 0x20"
definition IO_CMD_PIC_ICW1_ICW4 :: u8 where [rotary_const]: "IO_CMD_PIC_ICW1_ICW4 = 0x01"
definition IO_CMD_PIC_ICW1_INIT :: u8 where [rotary_const]: "IO_CMD_PIC_ICW1_INIT = 0x10"
definition IO_CMD_PIC_ICW3_MASTER :: u8 where [rotary_const]: "IO_CMD_PIC_ICW3_MASTER = 0x04"
definition IO_CMD_PIC_ICW3_SLAVE :: u8 where [rotary_const]: "IO_CMD_PIC_ICW3_SLAVE = 0x02"
definition IO_CMD_PIC_ICW4_8086_MODE :: u8 where [rotary_const]: "IO_CMD_PIC_ICW4_8086_MODE = 0x01"

definition io_port_out :: "u16 \<Rightarrow> u8 \<Rightarrow> machine \<Rightarrow> machine" where
  "io_port_out port_num data m = m\<lparr>port_log := port_log m @ [(port_num, data)]\<rparr>"

definition pic_send_eoi :: "u8 \<Rightarrow> machine \<Rightarrow> machine" where
  "pic_send_eoi irq m =
     (let m1 = (if irq \<ge> 8 then io_port_out IO_PORT_PIC2_CMD IO_CMD_PIC_EOI m else m)
      in io_port_out IO_PORT_PIC1_CMD IO_CMD_PIC_EOI m1)"

definition pic_init :: "u8 \<Rightarrow> u8 \<Rightarrow> machine \<Rightarrow> i32 \<times> machine" where
  "pic_init master_offset slave_offset m =
     (let m1 = io_port_out IO_PORT_PIC1_CMD (IO_CMD_PIC_ICW1_INIT OR IO_CMD_PIC_ICW1_ICW4) m;
          m2 = io_port_out IO_PORT_PIC2_CMD (IO_CMD_PIC_ICW1_INIT OR IO_CMD_PIC_ICW1_ICW4) m1;
          m3 = io_port_out IO_PORT_PIC1_DATA master_offset m2;
          m4 = io_port_out IO_PORT_PIC2_DATA slave_offset m3;
          m5 = io_port_out IO_PORT_PIC1_DATA IO_CMD_PIC_ICW3_MASTER m4;
          m6 = io_port_out IO_PORT_PIC2_DATA IO_CMD_PIC_ICW3_SLAVE m5;
          m7 = io_port_out IO_PORT_PIC1_DATA IO_CMD_PIC_ICW4_8086_MODE m6;
          m8 = io_port_out IO_PORT_PIC2_DATA IO_CMD_PIC_ICW4_8086_MODE m7;
          m9 = io_port_out IO_PORT_PIC1_DATA 0 m8
      in (E_SUCCESS, io_port_out IO_PORT_PIC2_DATA 0 m9))"

section \<open>The interrupt descriptor table\<close>

definition enable_hardware_interrupts :: "machine \<Rightarrow> machine" where
  "enable_hardware_interrupts m = m\<lparr>interrupts_on := True\<rparr>"

definition disable_hardware_interrupts :: "machine \<Rightarrow> machine" where
  "disable_hardware_interrupts m = m\<lparr>interrupts_on := False\<rparr>"

definition register_interrupt_handler :: "u32 \<Rightarrow> handler \<Rightarrow> machine \<Rightarrow> machine option" where
  "register_interrupt_handler int_num handler_addr m =
     (if unat int_num < length (interrupt_handlers m)
      then Some (m\<lparr>interrupt_handlers := (interrupt_handlers m)[unat int_num := Some handler_addr]\<rparr>) else None)"

definition LOW_16 :: "u32 \<Rightarrow> u16" where [rotary_macro]: "LOW_16 address = ucast (address AND 0xFFFF)"
definition HIGH_16 :: "u32 \<Rightarrow> u16" where [rotary_macro]: "HIGH_16 address = ucast (drop_bit 16 address AND 0xFFFF)"

definition set_idt_gate :: "u32 \<Rightarrow> u32 \<Rightarrow> u32 \<Rightarrow> machine \<Rightarrow> machine option" where
  "set_idt_gate int_num handle_addr dpl m =
     (if unat int_num < length (idt m)
      then Some (m\<lparr>idt := (idt m)[unat int_num :=
        \<lparr>low_offset = LOW_16 handle_addr, segment_selector = ucast GDT_KERNEL_CODE_OFFSET, gate_reserved = 0,
         gate_type = ucast IDT_TYPE_32_INT, gate_s = 0, gate_dpl = ucast dpl, gate_present = 1,
         high_offset = HIGH_16 handle_addr\<rparr>]\<rparr>)
      else None)"

definition idt_load :: "u32 \<Rightarrow> machine \<Rightarrow> i32 \<times> machine" where
  "idt_load idt_addr m = (E_SUCCESS, m\<lparr>idt_base := idt_addr, idt_limit := 256 * 8 - 1\<rparr>)"

text \<open>\<open>isr n\<close> is the address of the stub \<^verbatim>\<open>isr<n>\<close>; the calls of \<^verbatim>\<open>idt_init\<close> in order.\<close>

primrec set_gates :: "(u32 \<Rightarrow> u32) \<Rightarrow> (u32 \<times> u32) list \<Rightarrow> machine \<Rightarrow> machine option" where
  "set_gates isr [] m = Some m"
| "set_gates isr (g # gs) m = do {
     m1 \<leftarrow> set_idt_gate (fst g) (isr (fst g)) (snd g) m;
     set_gates isr gs m1
   }"

definition idt_init :: "(u32 \<Rightarrow> u32) \<Rightarrow> machine \<Rightarrow> (i32 \<times> machine) option" where
  "idt_init isr m = do {
     m1 \<leftarrow> set_gates isr (map (\<lambda>i. (of_nat i, IDT_DPL_KERNEL)) [0..<48]) m;
     m2 \<leftarrow> set_gates isr [(64, IDT_DPL_USER)] m1;
     Some (E_SUCCESS, m2)
   }"

section \<open>Keyboard\<close>

definition keyboard_translate_scan_code :: "u8 \<Rightarrow> u8" where
  "keyboard_translate_scan_code scan_code =
     (let table = [0x00, 0x02, 50, 51, 52, 53, 54, 55, 56, 57, 48, 45, 61, 0x0E, 0x0F,
                   113, 119, 101, 114, 116, 121, 117, 105, 111, 112, 91, 93, 0x1C, 0x1D,
                   97, 115, 100, 102, 103, 104, 106, 107, 108, 59, 39, 96, 0x2A, 92,
                   122, 120, 99, 118, 98, 110, 109, 44, 46, 47, 0x36, 42, 0x38, 32, 0x3A, 0x3B, 0x3C]
      in if 1 \<le> scan_code \<and> scan_code \<le> 0x3C then table ! (unat scan_code - 1) else 0x00)"

definition keyboard_register_handler :: "u32 \<Rightarrow> machine \<Rightarrow> i32 \<times> machine" where
  "keyboard_register_handler handler_addr m =
     (case find (\<lambda>i. keyboard_event_handlers m ! i = 0) [0..<MAX_INTERRUPT_HANDLERS] of
        None \<Rightarrow> (E_SUCCESS, m)
      | Some i \<Rightarrow> (E_SUCCESS, m\<lparr>keyboard_event_handlers := (keyboard_event_handlers m)[i := handler_addr]\<rparr>))"

definition keyboard_handle_input :: "u8 \<Rightarrow> machine \<Rightarrow> i32 \<times> machine" where
  "keyboard_handle_input keypress m =
     (let key = keyboard_translate_scan_code keypress
      in (E_SUCCESS, fold (\<lambda>i m. if keyboard_event_handlers m ! i \<noteq> 0
                                 then m\<lparr>key_calls := key_calls m @ [(keyboard_event_handlers m ! i, key)]\<rparr> else m)
            [0..<MAX_INTERRUPT_HANDLERS] m))"

definition arch_keyboard_init :: "machine \<Rightarrow> (i32 \<times> machine) option" where
  "arch_keyboard_init m = do {
     m1 \<leftarrow> register_interrupt_handler INT_KEYBOARD X86_Driver_Keyboard_Isr m;
     Some (E_SUCCESS, m1)
   }"

definition keyboard_init :: "machine \<Rightarrow> (i32 \<times> machine) option" where
  "keyboard_init m = do { (_, m1) \<leftarrow> arch_keyboard_init m; Some (E_SUCCESS, m1) }"

text \<open>\<open>inp\<close> gives the byte read from a port.\<close>

definition x86_driver_keyboard_isr :: "(u16 \<Rightarrow> u8) \<Rightarrow> machine \<Rightarrow> machine" where
  "x86_driver_keyboard_isr inp m = snd (keyboard_handle_input (inp IO_PORT_PS2_KEYBOARD) m)"

section \<open>Timer\<close>

definition timer_init :: "machine \<Rightarrow> (i32 \<times> machine) option" where
  "timer_init m = do {
     let divisor = (1193180 div 1 :: u32);
     let m1 = io_port_out IO_PORT_PIT_CMD 0x36 m;
     let l = ucast (divisor AND 0xFF);
     let h = ucast (drop_bit 8 divisor AND 0xFF);
     let m2 = io_port_out IO_PORT_PIT_CHAN_0 l m1;
     let m3 = io_port_out IO_PORT_PIT_CHAN_0 h m2;
     m4 \<leftarrow> register_interrupt_handler INT_PIT Timer_Tick m3;
     Some (E_SUCCESS, m4)
   }"

definition timer_tick :: "kernel_image \<Rightarrow> machine \<Rightarrow> (i32 \<times> machine) option" where
  "timer_tick img m = do {
     let m1 = m\<lparr>timer_count := timer_count m + 1\<rparr>;
     s \<leftarrow> task_schedule img (sched m1);
     Some (E_SUCCESS, m1\<lparr>sched := s\<rparr>)
   }"

section \<open>Page faults\<close>

definition paging_handle_page_fault :: "u32 \<Rightarrow> machine \<Rightarrow> machine option" where
  "paging_handle_page_fault cr2 m = do {
     let s = sched m;
     t \<leftarrow> task_at s (current_task s);
     (r, v) \<leftarrow> vm_space_page_fault (t_vm_space t) cr2 (vm s);
     Some (m\<lparr>sched := s\<lparr>vm := v\<rparr>\<rparr>)
   }"

section \<open>Dispatch\<close>

text \<open>
  The handler up to and including the call of the registered function, and the rest. When the timer's
  function switches tasks, what follows is executed by the task that is resumed, on its own stack: it returns from its own
  call of \<^verbatim>\<open>arch_task_switch\<close> and runs the rest of the handler of the timer interrupt that preempted it. A task that has not run
  before has no such call; its first frame makes it continue at \<^verbatim>\<open>isr_exit\<close> (\<^verbatim>\<open>arch/x86/kernel/task.c\<close>), behind the handler,
  and the rest is not run. The messages for processor exceptions are not modelled here.
\<close>

definition call_handler :: "kernel_image \<Rightarrow> (u16 \<Rightarrow> u8) \<Rightarrow> handler \<Rightarrow> machine \<Rightarrow> machine option" where
  "call_handler img inp h m =
     (let m0 = m\<lparr>handler_calls := handler_calls m @ [(h, port_log m)]\<rparr>
      in case h of
           Timer_Tick \<Rightarrow> do { (_, m1) \<leftarrow> timer_tick img m0; Some m1 }
         | X86_Driver_Keyboard_Isr \<Rightarrow> Some (x86_driver_keyboard_isr inp m0))"

definition isr_handler_first :: "kernel_image \<Rightarrow> (u16 \<Rightarrow> u8) \<Rightarrow> u32 \<Rightarrow> machine \<Rightarrow> machine option" where
  "isr_handler_first img inp int_num m =
     (let m1 = (if int_num = INT_PIT then pic_send_eoi (ucast int_num) m else m)
      in if unat int_num < length (interrupt_handlers m1)
         then (case interrupt_handlers m1 ! unat int_num of
                 None \<Rightarrow> Some m1
               | Some h \<Rightarrow> call_handler img inp h m1)
         else None)"

definition isr_handler_rest :: "u32 \<Rightarrow> u32 \<Rightarrow> machine \<Rightarrow> machine option" where
  "isr_handler_rest cr2 int_num m =
     (if int_num \<ge> 0 \<and> int_num < 32 \<and> int_num = INT_PAGE_FAULT
      then do { m1 \<leftarrow> paging_handle_page_fault cr2 m; Some (pic_send_eoi (ucast int_num) m1) }
      else Some (pic_send_eoi (ucast int_num) m))"

text \<open>The registered function is the one that switches tasks, and the scheduler is enabled.\<close>

definition isr_switches :: "u32 \<Rightarrow> machine \<Rightarrow> bool" where
  "isr_switches int_num m \<longleftrightarrow> unat int_num < length (interrupt_handlers m) \<and>
     interrupt_handlers m ! unat int_num = Some Timer_Tick \<and> sched_enabled (sched m)"

definition isr_handler :: "kernel_image \<Rightarrow> u32 \<Rightarrow> (u16 \<Rightarrow> u8) \<Rightarrow> u32 \<Rightarrow> u32 \<Rightarrow> machine \<Rightarrow> machine option" where
  "isr_handler img isr_exit inp cr2 int_num m = do {
     m1 \<leftarrow> isr_handler_first img inp int_num m;
     (if isr_switches int_num m \<and> r_eip (regs (sched m1)) = isr_exit then Some m1
      else isr_handler_rest cr2 int_num m1)
   }"

end
