(* ===== verification/Task_Props.thy ===== *)
theory Task_Props
  imports Task
begin

text \<open>
  Correctness of the scheduler: without killed tasks it is a round robin over the circular list of tasks, keeps
  exactly one task running and lets every runnable task run within one round, and a context switch
  that comes back restores the registers of the task it left. Killed tasks are in \<open>Task_Purge\<close>.
\<close>

section \<open>Accessing tasks\<close>

lemma task_at_simps [simp]:
  "task_at s TaskHead = Some (task_head s)" "task_at s (TaskNode a) = tasks s a"
  by (simp_all add: task_at_def)

lemma upd_task_node [simp]:
  "upd_task (TaskNode a) f s = map_option (\<lambda>t. s\<lparr>tasks := (tasks s)(a \<mapsto> f t)\<rparr>) (tasks s a)"
  by (cases "tasks s a") (simp_all add: upd_task_def)

abbreviation tsk :: "sched_state \<Rightarrow> u32 \<Rightarrow> task" where
  "tsk s x \<equiv> the (tasks s x)"

section \<open>The list of tasks\<close>

text \<open>\<open>xs\<close> are the addresses of the tasks in the order of the list.\<close>

definition tasks_ok :: "u32 list \<Rightarrow> sched_state \<Rightarrow> bool" where
  "tasks_ok xs s \<longleftrightarrow> clist (tnodes s) TaskHead (map TaskNode xs) \<and> (\<forall>x\<in>set xs. tasks s x \<noteq> None) \<and>
     \<not> task_lock s \<and> t_state (task_head s) = TASK_STATE_INVALID"

lemma tasks_ok_distinct: "tasks_ok xs s \<Longrightarrow> distinct xs"
  by (auto simp: tasks_ok_def clist_def distinct_map)

lemma find_runnable_chain:
  assumes "chain (tnodes s) a (map TaskNode ys) e" and "\<forall>y\<in>set ys. tasks s y \<noteq> None"
  shows "find_runnable s (next_node (tnodes s a)) =
    (case find (\<lambda>y. runnable (tsk s y)) ys of Some y \<Rightarrow> Some (TaskNode y) | None \<Rightarrow> find_runnable s (Some e))"
  using assms
proof (induction ys arbitrary: a)
  case Nil
  then show ?case by simp
next
  case (Cons y ys)
  then have "next_node (tnodes s a) = Some (TaskNode y)" by simp
  with Cons show ?case by (subst find_runnable.simps) auto
qed

text \<open>The tasks after \<open>c\<close> in circular order, \<open>c\<close> itself last.\<close>

definition round_from :: "u32 list \<Rightarrow> u32 \<Rightarrow> u32 list" where
  "round_from xs c = tl (dropWhile (\<lambda>x. x \<noteq> c) xs) @ takeWhile (\<lambda>x. x \<noteq> c) xs @ [c]"

lemma round_from_split: "c \<notin> set us \<Longrightarrow> round_from (us @ c # vs) c = vs @ us @ [c]"
  by (simp add: round_from_def dropWhile_append takeWhile_append)

lemma split_at: "distinct xs \<Longrightarrow> c \<in> set xs \<Longrightarrow> \<exists>us vs. xs = us @ c # vs \<and> c \<notin> set us \<and> c \<notin> set vs"
  by (drule split_list) fastforce

lemma round_from_set: "distinct xs \<Longrightarrow> c \<in> set xs \<Longrightarrow> set (round_from xs c) = set xs \<and> distinct (round_from xs c) \<and> length (round_from xs c) = length xs"
  using split_at [of xs c] by (auto simp: round_from_split)

lemma round_from_turn:
  assumes d: "distinct xs" "c \<in> set xs" and r: "round_from xs c = p @ n # q"
  shows "round_from xs n = q @ p @ [n]"
proof -
  obtain us vs where xs: "xs = us @ c # vs" "c \<notin> set us" "c \<notin> set vs" using split_at [OF d] by blast
  then have r': "p @ n # q = vs @ us @ [c]" using r by (simp add: round_from_split)
  have "n \<in> set (round_from xs c)" using r by simp
  then have "n \<in> set xs" using round_from_set [OF d] by simp
  have dd: "distinct (p @ n # q)" using round_from_set [OF d] r by simp
  have uniq: "p' = p \<and> q' = q" if "p' @ n # q' = p @ n # q" for p' q'
    using that dd append_Cons_eq_iff [of n p q p' q'] by auto
  consider "n = c" | "n \<in> set us" | "n \<in> set vs" using \<open>n \<in> set xs\<close> xs by auto
  then show ?thesis
  proof cases
    case 1
    then have "p = vs @ us \<and> q = []" using uniq [of "vs @ us" "[]"] r' by simp
    with 1 xs show ?thesis by (simp add: round_from_split)
  next
    case 2
    then obtain u v where u: "us = u @ n # v" by (auto dest!: split_list)
    then have "p = vs @ u \<and> q = v @ [c]" using uniq [of "vs @ u" "v @ [c]"] r' by simp
    with u xs d show ?thesis using round_from_split [of n u "v @ c # vs"] by simp
  next
    case 3
    then obtain u v where u: "vs = u @ n # v" by (auto dest!: split_list)
    then have "p = u \<and> q = v @ us @ [c]" using uniq [of "u" "v @ us @ [c]"] r' by simp
    with u xs d show ?thesis using round_from_split [of n "us @ c # u" "v"] by fastforce
  qed
qed

lemma find_append: "find P (xs @ ys) = (case find P xs of None \<Rightarrow> find P ys | Some x \<Rightarrow> Some x)"
  by (induction xs) auto

text \<open>The search from the current task: the first runnable one in circular order.\<close>

lemma find_runnable_round:
  assumes ok: "tasks_ok xs s" and c: "c \<in> set xs" "runnable (tsk s c)"
  shows "\<exists>n. find (\<lambda>y. runnable (tsk s y)) (round_from xs c) = Some n \<and>
    find_runnable s (next_node (tnodes s (TaskNode c))) = Some (TaskNode n)"
proof -
  obtain us vs where xs: "xs = us @ c # vs" "c \<notin> set us" using split_at [OF tasks_ok_distinct [OF ok] c(1)] by blast
  have ch: "chain (tnodes s) TaskHead (map TaskNode us) (TaskNode c)" "chain (tnodes s) (TaskNode c) (map TaskNode vs) TaskHead"
    using ok by (auto simp: tasks_ok_def clist_def xs(1) chain_append)
  have t: "\<forall>y\<in>set us. tasks s y \<noteq> None" "\<forall>y\<in>set vs. tasks s y \<noteq> None" "tasks s c \<noteq> None"
    using ok by (auto simp: tasks_ok_def xs(1))
  have "\<not> runnable (task_head s)" using ok by (simp add: tasks_ok_def runnable_def rotary_const)
  then have hd: "find_runnable s (Some TaskHead) = find_runnable s (next_node (tnodes s TaskHead))"
    by (subst find_runnable.simps) simp
  have "find_runnable s (Some (TaskNode c)) = Some (TaskNode c)"
    using t(3) c(2) by (subst find_runnable.simps) auto
  with find_runnable_chain [OF ch(1) t(1)] find_runnable_chain [OF ch(2) t(2)] hd c(2)
  show ?thesis by (auto simp: xs round_from_split find_append split: option.splits)
qed

lemma purge_loop_idle:
  assumes "chain (tnodes s) a (map TaskNode ys) TaskHead"
    and "\<forall>y\<in>set ys. tasks s y \<noteq> None \<and> t_state (tsk s y) \<noteq> TASK_STATE_KILLED"
  shows "purge_loop img (next_node (tnodes s a)) s = Some s"
  using assms
proof (induction ys arbitrary: a)
  case Nil
  then show ?case by (simp add: purge_loop.simps)
next
  case (Cons y ys)
  then have "next_node (tnodes s a) = Some (TaskNode y)" by simp
  with Cons show ?case by (subst purge_loop.simps) auto
qed

section \<open>The invariant of the scheduler\<close>

text \<open>Exactly the current task is in state RUNNING, no task is killed, every task has an address space.\<close>

definition sched_ok :: "u32 list \<Rightarrow> u32 \<Rightarrow> sched_state \<Rightarrow> bool" where
  "sched_ok xs c s \<longleftrightarrow> tasks_ok xs s \<and> sched_enabled s \<and> c \<in> set xs \<and> current_task s = TaskNode c \<and>
     (\<forall>x\<in>set xs. (t_state (tsk s x) = TASK_STATE_RUNNING \<longleftrightarrow> x = c) \<and> t_state (tsk s x) \<noteq> TASK_STATE_KILLED \<and>
        t_vm_space (tsk s x) \<noteq> 0)"

text \<open>What a turn does to a task: \<open>c\<close> runs, \<open>n\<close> runs next, \<open>sp\<close> is the stack pointer saved.\<close>

definition turn :: "u32 \<Rightarrow> u32 \<Rightarrow> u32 \<Rightarrow> u32 \<Rightarrow> task \<Rightarrow> task" where
  "turn c n sp x t =
     t\<lparr>t_state := (if x = n then TASK_STATE_RUNNING else if x = c then TASK_STATE_WAITING else t_state t),
       t_ticks := (if x = c then t_ticks t + 1 else t_ticks t),
       kstack_top := (if x = c then sp else kstack_top t)\<rparr>"

text \<open>
  The memory after the switch away from registers \<open>r\<close>, and the address at which \<open>n\<close> goes on after it: the word above the four
  saved registers on its stack.
\<close>

definition saved_words :: "cpu_regs \<Rightarrow> (u32 \<Rightarrow> u32) \<Rightarrow> u32 \<Rightarrow> u32" where
  "saved_words r w = w(r_esp r - 4 := r_ebp r, r_esp r - 8 := r_ebx r, r_esp r - 12 := r_esi r, r_esp r - 16 := r_edi r)"

definition resumes_at :: "u32 \<Rightarrow> u32 \<Rightarrow> sched_state \<Rightarrow> u32" where
  "resumes_at c n s = saved_words (regs s) (vm_words (vm s)) ((if n = c then r_esp (regs s) - 16 else kstack_top (tsk s n)) + 16)"

lemma task_schedule_turn:
  assumes ok: "sched_ok xs c s"
  shows "\<exists>n s'. find (\<lambda>y. runnable (tsk s y)) (round_from xs c) = Some n \<and> task_schedule img s = Some s' \<and>
    current_task s' = TaskNode n \<and> tnodes s' = tnodes s \<and> task_head s' = task_head s \<and> \<not> task_lock s' \<and> sched_enabled s' \<and>
    (\<forall>x\<in>set xs. tasks s' x = Some (turn c n (r_esp (regs s) - 16) x (tsk s x))) \<and>
    esp0 s' = kstack_bot (tsk s n) \<and> r_cr3 (regs s') = sp_pgd (spaces (vm s) (t_vm_space (tsk s n))) \<and>
    heap (vm s') = heap (vm s) \<and> (\<forall>x. x \<notin> set xs \<longrightarrow> tasks s' x = tasks s x) \<and> r_eip (regs s') = resumes_at c n s"
proof -
  have ok0: "tasks_ok xs s" and c: "c \<in> set xs" "current_task s = TaskNode c" and en: "sched_enabled s"
    and st: "t_state (tsk s c) = TASK_STATE_RUNNING" using ok by (auto simp: sched_ok_def)
  have al: "\<forall>x\<in>set xs. tasks s x \<noteq> None" using ok0 by (simp add: tasks_ok_def)
  then obtain t where t: "tasks s c = Some t" using c by auto
  let ?s1 = "s\<lparr>tasks := (tasks s)(c \<mapsto> t\<lparr>t_ticks := t_ticks t + 1\<rparr>)\<rparr>"
  have ok1: "tasks_ok xs ?s1" using ok0 by (auto simp: tasks_ok_def)
  have "\<forall>y\<in>set xs. tasks ?s1 y \<noteq> None \<and> t_state (tsk ?s1 y) \<noteq> TASK_STATE_KILLED"
    using ok al t by (auto simp: sched_ok_def)
  then have pg: "task_purge_killed_tasks img ?s1 = Some ?s1"
    unfolding task_purge_killed_tasks_def using ok1 by (intro purge_loop_idle) (auto simp: tasks_ok_def clist_def)
  have "runnable (tsk ?s1 c)" using st t by (simp add: runnable_def)
  from find_runnable_round [OF ok1 c(1) this] obtain n where
    n: "find (\<lambda>y. runnable (tsk ?s1 y)) (round_from xs c) = Some n"
    "find_runnable ?s1 (next_node (tnodes ?s1 (TaskNode c))) = Some (TaskNode n)" by blast
  have "(\<lambda>y. runnable (tsk ?s1 y)) = (\<lambda>y. runnable (tsk s y))" using t by (auto simp: runnable_def)
  with n(1) have n1: "find (\<lambda>y. runnable (tsk s y)) (round_from xs c) = Some n" by simp
  then have nx: "n \<in> set xs" using round_from_set [OF tasks_ok_distinct [OF ok0] c(1)] by (auto dest: find_SomeD)
  then obtain tn where tn: "tasks s n = Some tn" using al by auto
  have vs: "t_vm_space tn \<noteq> 0" using ok nx tn by (auto simp: sched_ok_def)
  have run: "\<exists>s'. task_schedule img s = Some s' \<and> current_task s' = TaskNode n \<and> tnodes s' = tnodes s \<and>
    task_head s' = task_head s \<and> task_lock s' = task_lock s \<and> sched_enabled s' \<and>
    (\<forall>x\<in>set xs. tasks s' x = Some (turn c n (r_esp (regs s) - 16) x (tsk s x))) \<and>
    esp0 s' = kstack_bot (tsk s n) \<and> r_cr3 (regs s') = sp_pgd (spaces (vm s) (t_vm_space (tsk s n))) \<and>
    heap (vm s') = heap (vm s) \<and> (\<forall>x. x \<notin> set xs \<longrightarrow> tasks s' x = tasks s x) \<and> r_eip (regs s') = resumes_at c n s"
    using en c t pg n(2) st tn vs al nx
    by (cases "n = c")
      (auto simp: task_schedule_def arch_task_switch_def task_context_switch_def Let_def turn_def resumes_at_def saved_words_def)
  with n1 ok0 show ?thesis unfolding tasks_ok_def by blast
qed

lemma sched_ok_turn:
  assumes ok: "sched_ok xs c s" and n: "n \<in> set xs" "runnable (tsk s n)"
    and "current_task s' = TaskNode n" "tnodes s' = tnodes s" "task_head s' = task_head s" "\<not> task_lock s'" "sched_enabled s'"
    and t: "\<forall>x\<in>set xs. tasks s' x = Some (turn c n sp x (tsk s x))"
  shows "sched_ok xs n s'"
  using assms by (auto simp: sched_ok_def tasks_ok_def turn_def rotary_const)

lemma runnable_turn: "runnable (tsk s x) \<Longrightarrow> runnable (turn c n sp x (tsk s x))"
  by (auto simp: runnable_def turn_def)


section \<open>Sequences of timer ticks\<close>

text \<open>
  Between two ticks the running task changes registers and memory as it likes; each element of
  the list is the registers and the memory at a tick.
\<close>

definition task_runs :: "cpu_regs \<Rightarrow> (u32 \<Rightarrow> u32) \<Rightarrow> sched_state \<Rightarrow> sched_state" where
  "task_runs r w s = s\<lparr>regs := r, vm := (vm s)\<lparr>vm_words := w\<rparr>\<rparr>"

primrec timer_ticks :: "kernel_image \<Rightarrow> (cpu_regs \<times> (u32 \<Rightarrow> u32)) list \<Rightarrow> sched_state \<Rightarrow> sched_state option" where
  "timer_ticks img [] s = Some s"
| "timer_ticks img (e # es) s = do {
     s1 \<leftarrow> task_schedule img (task_runs (fst e) (snd e) s);
     timer_ticks img es s1
   }"

lemma task_runs_simps [simp]:
  "tasks (task_runs r w s) = tasks s" "tnodes (task_runs r w s) = tnodes s" "task_lock (task_runs r w s) = task_lock s"
  "task_head (task_runs r w s) = task_head s" "current_task (task_runs r w s) = current_task s"
  "sched_enabled (task_runs r w s) = sched_enabled s"
  by (simp_all add: task_runs_def)

lemma sched_ok_task_runs [simp]: "sched_ok xs c (task_runs r w s) = sched_ok xs c s"
  by (simp add: sched_ok_def tasks_ok_def)

lemma turn_step:
  assumes ok: "sched_ok xs c s"
  shows "\<exists>n s'. find (\<lambda>y. runnable (tsk s y)) (round_from xs c) = Some n \<and> task_schedule img (task_runs r w s) = Some s' \<and>
    sched_ok xs n s' \<and> (\<forall>x\<in>set xs. runnable (tsk s x) \<longrightarrow> runnable (tsk s' x)) \<and> r_eip (regs s') = resumes_at c n (task_runs r w s)"
proof -
  have "sched_ok xs c (task_runs r w s)" using ok by simp
  from task_schedule_turn [OF this, of img] obtain n s' where
    n: "find (\<lambda>y. runnable (tsk s y)) (round_from xs c) = Some n" and s': "task_schedule img (task_runs r w s) = Some s'"
    "current_task s' = TaskNode n" "tnodes s' = tnodes s" "task_head s' = task_head s" "\<not> task_lock s'" "sched_enabled s'"
    "\<forall>x\<in>set xs. tasks s' x = Some (turn c n (r_esp (regs (task_runs r w s)) - 16) x (tsk s x))"
    "r_eip (regs s') = resumes_at c n (task_runs r w s)" by auto
  have "c \<in> set xs" "distinct xs" using ok tasks_ok_distinct by (auto simp: sched_ok_def)
  then have "n \<in> set xs" "runnable (tsk s n)" using n round_from_set by (auto dest: find_SomeD)
  from sched_ok_turn [OF ok this s'(2-7)] s' n show ?thesis by (auto intro: runnable_turn)
qed

lemma find_hit:
  assumes "find P (p @ x # q) = Some n" and "P x" and "n \<noteq> x"
  shows "\<exists>p1 p2. p = p1 @ n # p2"
  using assms by (auto simp: find_append split: option.splits if_splits dest!: find_SomeD split_list)

lemma ticks_reach:
  assumes "sched_ok xs c s" and "round_from xs c = p @ x # q" and "runnable (tsk s x)" and "length p < length es"
  shows "\<exists>k s'. 0 < k \<and> k \<le> Suc (length p) \<and> timer_ticks img (take k es) s = Some s' \<and> sched_ok xs x s'"
  using assms
proof (induction "length p" arbitrary: p q c s es rule: less_induct)
  case less
  obtain e es' where es: "es = e # es'" using less.prems(4) by (cases es) auto
  from turn_step [OF less.prems(1), of img "fst e" "snd e"] obtain n s1 where
    n: "find (\<lambda>y. runnable (tsk s y)) (round_from xs c) = Some n"
    and s1: "task_schedule img (task_runs (fst e) (snd e) s) = Some s1" "sched_ok xs n s1"
    "\<forall>y\<in>set xs. runnable (tsk s y) \<longrightarrow> runnable (tsk s1 y)" by blast
  show ?case
  proof (cases "n = x")
    case True
    then show ?thesis using s1 es by (intro exI [of _ "Suc 0"] exI [of _ s1]) simp
  next
    case False
    from find_hit [OF n [unfolded less.prems(2)] less.prems(3) False] obtain p1 p2 where p: "p = p1 @ n # p2" by blast
    have d: "distinct xs" "c \<in> set xs" using less.prems(1) tasks_ok_distinct by (auto simp: sched_ok_def)
    have "round_from xs c = p1 @ n # (p2 @ x # q)" using less.prems(2) p by simp
    from round_from_turn [OF d this] have r: "round_from xs n = p2 @ x # (q @ p1 @ [n])" by simp
    have "x \<in> set xs" using less.prems(2) round_from_set [OF d] by auto
    then have rx: "runnable (tsk s1 x)" using s1(3) less.prems(3) by blast
    have "length p2 < length p" "length p2 < length es'" using p less.prems(4) es by auto
    from less.hyps [OF this(1) s1(2) r rx this(2)] obtain k s' where
      "0 < k" "k \<le> Suc (length p2)" "timer_ticks img (take k es') s1 = Some s'" "sched_ok xs x s'" by blast
    then show ?thesis using s1(1) es p by (intro exI [of _ "Suc k"] exI [of _ s']) simp
  qed
qed

section \<open>Looking up tasks\<close>

lemma acquire_free [simp]: "\<not> task_lock s \<Longrightarrow> acquire s = Some (s\<lparr>task_lock := True\<rparr>)"
  by (simp add: acquire_def)

lemma find_task_chain:
  assumes "chain (tnodes s) a (map TaskNode ys) TaskHead" and "\<forall>y\<in>set ys. tasks s y \<noteq> None"
  shows "find_task s i (next_node (tnodes s a)) = Some (map_option TaskNode (find (\<lambda>y. t_id (tsk s y) = i) ys))"
  using assms
proof (induction ys arbitrary: a)
  case Nil
  then show ?case by (simp add: find_task.simps)
next
  case (Cons y ys)
  then have "next_node (tnodes s a) = Some (TaskNode y)" by simp
  with Cons show ?case by (subst find_task.simps) auto
qed

lemma task_get_from_id_ok:
  assumes "tasks_ok xs s"
  shows "task_get_from_id i s = Some (map_option TaskNode (find (\<lambda>y. t_id (tsk s y) = i) xs), s)"
proof -
  have "find_task (s\<lparr>task_lock := True\<rparr>) i (next_node (tnodes s TaskHead)) = Some (map_option TaskNode (find (\<lambda>y. t_id (tsk s y) = i) xs))"
    using find_task_chain [of "s\<lparr>task_lock := True\<rparr>" TaskHead xs i] assms by (simp add: tasks_ok_def clist_def)
  then show ?thesis using assms by (simp add: task_get_from_id_def tasks_ok_def release_def)
qed

section \<open>Stack frames\<close>

lemma clear_words_at: "clear_words va n w a = (if \<exists>i<n. a = va + 4 * of_nat i then 0 else w a)"
  unfolding clear_words_def by (induction n) (auto simp: less_Suc_eq)

definition frame_words :: "(u32 \<Rightarrow> u32) \<Rightarrow> u32 \<Rightarrow> nat \<Rightarrow> u32 list" where
  "frame_words w sp n = map (\<lambda>i. w (sp + 4 * of_nat i)) [0..<n]"

text \<open>The frame a task starts with: the context (edi, esi, ebx, ebp, eip), then the registers for \<^verbatim>\<open>iret\<close>.\<close>

definition first_frame :: "u32 \<Rightarrow> task \<Rightarrow> u32 list" where
  "first_frame isr_exit t =
     [0, 0, 0, 0, isr_exit] @
     (if t_type t = TASK_KERNEL then [0x10, 0, 0, 0, 0, 0, 0, 0, 0, 0, 0, t_start_addr t, 0x08, 0x200, 0, 0x10]
      else [0x23, 0, 0, 0, 0, 0, 0, 0, 0, 0, 0, t_start_addr t, 0x1B, 0x3200, 0x440000, 0x23])"

lemma upt_21: "[0..<21] = [0, 1, 2, 3, 4, 5, 6, 7, 8, 9, 10, 11, 12, 13, 14, 15, 16, 17, 18, 19, 20 :: nat]"
  by (simp add: upt_rec)

lemma ex_less_16: "(\<exists>i<16. P i) \<longleftrightarrow> P 0 \<or> P 1 \<or> P 2 \<or> P 3 \<or> P 4 \<or> P 5 \<or> P 6 \<or> P 7 \<or> P 8 \<or> P 9 \<or> P 10 \<or> P 11 \<or>
    P 12 \<or> P 13 \<or> P 14 \<or> P (15 :: nat)"
proof -
  have "{i. i < 16} = set [0, 1, 2, 3, 4, 5, 6, 7, 8, 9, 10, 11, 12, 13, 14, 15 :: nat]" by (auto; presburger)
  then have "(\<exists>i\<in>{i. i < 16}. P i) \<longleftrightarrow> (\<exists>i\<in>set [0, 1, 2, 3, 4, 5, 6, 7, 8, 9, 10, 11, 12, 13, 14, 15 :: nat]. P i)" by simp
  then show ?thesis by simp
qed

lemma ex_less_5: "(\<exists>i<5. P i) \<longleftrightarrow> P 0 \<or> P 1 \<or> P 2 \<or> P 3 \<or> P (4 :: nat)"
proof -
  have "{i. i < 5} = set [0, 1, 2, 3, 4 :: nat]" by (auto; presburger)
  then have "(\<exists>i\<in>{i. i < 5}. P i) \<longleftrightarrow> (\<exists>i\<in>set [0, 1, 2, 3, 4 :: nat]. P i)" by simp
  then show ?thesis by simp
qed

definition frame_store :: "u32 \<Rightarrow> task \<Rightarrow> u32 \<Rightarrow> (u32 \<Rightarrow> u32) \<Rightarrow> u32 \<Rightarrow> u32" where
  "frame_store isr_exit t f w =
     (let w1 = (clear_words (f + 20) 16 w)(f + 64 := t_start_addr t);
          w2 = (if t_type t = TASK_KERNEL
                then w1(f + 68 := 0x08, f + 20 := 0x10, f + 72 := 0x200, f + 80 := 0x10)
                else w1(f + 68 := 0x1B, f + 20 := 0x23, f + 72 := 0x3200, f + 80 := 0x23, f + 76 := 0x440000))
      in (clear_words f 5 w2)(f := 0, f + 4 := 0, f + 8 := 0, f + 12 := 0, f + 16 := isr_exit))"

lemma add_num: "(f :: u32) + numeral m + numeral n = f + numeral (m + n)"
  by (simp add: add.assoc)

lemma frame_store_words: "frame_words (frame_store isr_exit t f w) f 21 = first_frame isr_exit t"
  unfolding frame_words_def upt_21 frame_store_def Let_def first_frame_def clear_words_at ex_less_16 ex_less_5 fun_upd_def
  by (simp add: add_num)

lemma arch_task_create_frame:
  assumes t: "tasks s a = Some t" and f: "kstack_top t = f + 84"
  shows "arch_task_create isr_exit a s = Some (E_SUCCESS,
    s\<lparr>tasks := (tasks s)(a \<mapsto> t\<lparr>kstack_top := f\<rparr>), vm := (vm s)\<lparr>vm_words := frame_store isr_exit t f (vm_words (vm s))\<rparr>\<rparr>)"
proof -
  have r: "kstack_top t - SIZEOF_ISR_REGISTERS = f + 20" "f + 20 - SIZEOF_TASK_CONTEXT = f"
    using f by (simp_all add: rotary_const)
  have o: "f + 20 + REG_EIP = f + 64" "f + 20 + REG_CS = f + 68" "f + 20 + REG_DS = f + 20" "f + 20 + REG_EFLAGS = f + 72"
    "f + 20 + REG_USER_SS = f + 80" "f + 20 + REG_USER_ESP = f + 76"
    by (simp_all add: rotary_const)
  show ?thesis
    using t by (simp add: arch_task_create_def frame_store_def Let_def r o) (simp add: rotary_const)
qed


lemma frame_words_cong:
  "\<forall>i<n. w (f + 4 * of_nat i) = w' (f + 4 * of_nat i) \<Longrightarrow> frame_words w f n = frame_words w' f n"
  by (simp add: frame_words_def)

text \<open>The words pushed below the stack pointer \<open>sp + 16\<close>.\<close>

definition push_regs :: "u32 \<Rightarrow> cpu_regs \<Rightarrow> (u32 \<Rightarrow> u32) \<Rightarrow> u32 \<Rightarrow> u32" where
  "push_regs sp r w = w(sp + 12 := r_ebp r, sp + 8 := r_ebx r, sp + 4 := r_esi r, sp := r_edi r)"

lemma push_regs_other: "\<forall>j<4. sp + 4 * of_nat j \<noteq> a \<Longrightarrow> push_regs sp r w a = w a"
proof -
  assume "\<forall>j<4. sp + 4 * of_nat j \<noteq> a"
  then have "sp + 4 * of_nat j \<noteq> a" if "j < 4" for j using that by blast
  from this [of 0] this [of 1] this [of 2] this [of 3] show ?thesis by (auto simp: push_regs_def)
qed

lemma push_regs_at: "push_regs sp r w sp = r_edi r" "push_regs sp r w (sp + 4) = r_esi r"
  "push_regs sp r w (sp + 8) = r_ebx r" "push_regs sp r w (sp + 12) = r_ebp r" "push_regs sp r w (sp + 16) = w (sp + 16)"
  by (simp_all add: push_regs_def)

lemma task_context_switch_nodes:
  assumes "tasks s a = Some ta" "tasks s b = Some tb" "a \<noteq> b" and "r_esp (regs s) = sp + 16"
  shows "task_context_switch (TaskNode a) (TaskNode b) s =
    (let w = push_regs sp (regs s) (vm_words (vm s)) in
     if t_vm_space tb = 0 then None
     else Some (s\<lparr>tasks := (tasks s)(a \<mapsto> ta\<lparr>kstack_top := sp\<rparr>), vm := (vm s)\<lparr>vm_words := w\<rparr>,
       regs := \<lparr>r_edi = w (kstack_top tb), r_esi = w (kstack_top tb + 4), r_ebx = w (kstack_top tb + 8), r_ebp = w (kstack_top tb + 12),
         r_esp = kstack_top tb + 20, r_eip = w (kstack_top tb + 16), r_cr3 = sp_pgd (spaces (vm s) (t_vm_space tb))\<rparr>\<rparr>))"
proof -
  have sp: "r_esp (regs s) - 16 = sp" "r_esp (regs s) - 12 = sp + 4" "r_esp (regs s) - 8 = sp + 8" "r_esp (regs s) - 4 = sp + 12"
    using assms(4) by simp_all
  have b: "((tasks s)(a \<mapsto> x)) b = Some tb" for x using assms(2,3) by simp
  show ?thesis using assms(1)
    by (simp add: task_context_switch_def Let_def sp b push_regs_def [symmetric] del: fun_upd_apply)
qed

lemma all_less_5: "(\<forall>j<5. Q j) \<longleftrightarrow> Q 0 \<and> Q 1 \<and> Q 2 \<and> Q 3 \<and> Q (4 :: nat)"
  using ex_less_5 [of "\<lambda>j. \<not> Q j"] by blast

lemma task_kill_ok:
  assumes ok: "tasks_ok xs s"
  shows "task_kill i s =
    Some (case find (\<lambda>y. t_id (tsk s y) = i) xs of
       None \<Rightarrow> (E_ERROR, s)
     | Some x \<Rightarrow> if i \<noteq> 0 \<and> t_state (tsk s x) \<in> {TASK_STATE_RUNNING, TASK_STATE_WAITING, TASK_STATE_PAUSED}
         then (E_SUCCESS, s\<lparr>tasks := (tasks s)(x \<mapsto> (tsk s x)\<lparr>t_state := TASK_STATE_KILLED\<rparr>)\<rparr>) else (E_ERROR, s))"
proof (cases "find (\<lambda>y. t_id (tsk s y) = i) xs")
  case None
  then show ?thesis using task_get_from_id_ok [OF ok, of i] by (simp add: task_kill_def)
next
  case (Some x)
  then have "x \<in> set xs" by (auto dest: find_SomeD)
  then obtain t where "tasks s x = Some t" using ok by (auto simp: tasks_ok_def)
  moreover have "\<not> task_lock s" using ok by (simp add: tasks_ok_def)
  ultimately show ?thesis using task_get_from_id_ok [OF ok, of i] Some
    by (simp add: task_kill_def release_def rotary_const)
qed

section \<open>Properties\<close>

text \<open>
  C14: No runnable task starves: whatever the tasks do to registers and memory between the ticks,
  every runnable task is the current one after at most as many ticks as there are tasks.
\<close>
theorem task_schedule_fair:
  assumes "sched_ok xs c s" and "x \<in> set xs" and "runnable (tsk s x)" and "length es = length xs"
  shows "\<exists>k s'. 0 < k \<and> k \<le> length xs \<and> timer_ticks img (take k es) s = Some s' \<and> sched_ok xs x s'"
proof -
  have d: "distinct xs" "c \<in> set xs" using assms(1) tasks_ok_distinct by (auto simp: sched_ok_def)
  then obtain p q where p: "round_from xs c = p @ x # q" using assms(2) round_from_set [OF d] by (metis split_list)
  have "Suc (length p) \<le> length xs" using arg_cong [OF p, of length] round_from_set [OF d] by simp
  with ticks_reach [OF assms(1) p assms(3), of es img] assms(4) show ?thesis by fastforce
qed

text \<open>
  C16: A context switch is undone by the switch back: when a task that was switched away from is
  switched to again, with its struct and the words of its stack frame as they were left, its
  callee-saved registers are restored, it continues at the return address on its stack, and the
  page directory of its address space is loaded.
\<close>
theorem task_context_switch_roundtrip:
  assumes "a \<noteq> b" and "task_context_switch (TaskNode a) (TaskNode b) s = Some s1" and "r_esp (regs s) = sp + 16"
    and "tasks s2 a = tasks s1 a" and "\<forall>i<5. vm_words (vm s2) (sp + 4 * of_nat i) = vm_words (vm s1) (sp + 4 * of_nat i)"
    and "tasks s2 b \<noteq> None" and "\<forall>i<5. \<forall>j<4. r_esp (regs s2) - 16 + 4 * of_nat j \<noteq> sp + 4 * of_nat i"
    and "t_vm_space (tsk s a) \<noteq> 0"
  shows "\<exists>s3. task_context_switch (TaskNode b) (TaskNode a) s2 = Some s3 \<and>
    regs s3 = \<lparr>r_edi = r_edi (regs s), r_esi = r_esi (regs s), r_ebx = r_ebx (regs s), r_ebp = r_ebp (regs s),
      r_esp = r_esp (regs s) + 4, r_eip = vm_words (vm s) (r_esp (regs s)),
      r_cr3 = sp_pgd (spaces (vm s2) (t_vm_space (tsk s a)))\<rparr>"
proof -
  obtain ta tb0 where ta: "tasks s a = Some ta" "tasks s b = Some tb0"
    using assms(1,2) by (auto simp: task_context_switch_def Let_def elim!: bind_eq_SomeE)
  obtain tb where tb: "tasks s2 b = Some tb" using assms(6) by auto
  have s1: "vm_words (vm s1) = push_regs sp (regs s) (vm_words (vm s))" "tasks s1 a = Some (ta\<lparr>kstack_top := sp\<rparr>)"
    using assms(2) unfolding task_context_switch_nodes [OF ta assms(1,3)] Let_def by (auto split: if_splits)
  have a2: "tasks s2 a = Some (ta\<lparr>kstack_top := sp\<rparr>)" using s1(2) assms(4) by simp
  define r where "r = r_esp (regs s2) - 16"
  have r: "r_esp (regs s2) = r + 16" by (simp add: r_def)
  let ?w = "push_regs r (regs s2) (vm_words (vm s2))"
  have "?w (sp + 4 * of_nat i) = push_regs sp (regs s) (vm_words (vm s)) (sp + 4 * of_nat i)" if "i < 5" for i
    using assms(5,7) that push_regs_other [of r "sp + 4 * of_nat i"] unfolding s1 r by simp
  then have "\<forall>i<5. ?w (sp + 4 * of_nat i) = push_regs sp (regs s) (vm_words (vm s)) (sp + 4 * of_nat i)" by blast
  then have w: "?w sp = r_edi (regs s)" "?w (sp + 4) = r_esi (regs s)" "?w (sp + 8) = r_ebx (regs s)"
    "?w (sp + 12) = r_ebp (regs s)" "?w (sp + 16) = vm_words (vm s) (sp + 16)"
    unfolding all_less_5 by (simp_all add: push_regs_at)
  show ?thesis
    unfolding task_context_switch_nodes [OF tb a2 assms(1) [symmetric] r] Let_def
    using assms(3,8) ta by (simp add: w)
qed

text \<open>
  C17: The first switch to a new task: \<^verbatim>\<open>arch_task_create\<close> succeeds and leaves a frame on the
  task's stack such that a switch to the task, from any other one and at any later time, ends in
  \<^verbatim>\<open>isr_exit\<close> with the stack pointer at the registers it will restore: the entry point of the
  task, interrupts enabled, and the segment selectors of its privilege level.
\<close>
theorem new_task_first_switch:
  assumes "tasks s a = Some t" and "kstack_top t = f + 84" and "a \<noteq> b" and "tasks s2 b \<noteq> None"
    and "tasks s2 a = Some (t\<lparr>kstack_top := f, t_state := st\<rparr>)" and "t_vm_space t \<noteq> 0"
    and "\<forall>i<21. vm_words (vm s2) (f + 4 * of_nat i) = vm_words (vm (snd (the (arch_task_create isr_exit a s)))) (f + 4 * of_nat i)"
    and "\<forall>i<21. \<forall>j<4. r_esp (regs s2) - 16 + 4 * of_nat j \<noteq> f + 4 * of_nat i"
  shows "\<exists>s1 s3. arch_task_create isr_exit a s = Some (E_SUCCESS, s1) \<and> tasks s1 a = Some (t\<lparr>kstack_top := f\<rparr>) \<and>
    task_context_switch (TaskNode b) (TaskNode a) s2 = Some s3 \<and> r_eip (regs s3) = isr_exit \<and> r_esp (regs s3) = f + 20 \<and>
    frame_words (vm_words (vm s3)) (f + 20) 16 = drop 5 (first_frame isr_exit t)"
proof -
  note run = arch_task_create_frame [OF assms(1,2), of isr_exit]
  have fr: "frame_words (vm_words (vm s2)) f 21 = first_frame isr_exit t"
    using frame_words_cong [OF assms(7)] frame_store_words [of isr_exit t f "vm_words (vm s)"] by (simp add: run)
  obtain tb where tb: "tasks s2 b = Some tb" using assms(4) by auto
  define r where "r = r_esp (regs s2) - 16"
  have r: "r_esp (regs s2) = r + 16" by (simp add: r_def)
  let ?w = "push_regs r (regs s2) (vm_words (vm s2))"
  have fr3: "frame_words ?w f 21 = first_frame isr_exit t"
    using assms(8) push_regs_other [of r] unfolding fr [symmetric] r by (intro frame_words_cong) simp
  have "frame_words ?w (f + 20) 16 = drop 5 (frame_words ?w f 21)"
    unfolding frame_words_def drop_map by (simp add: upt_21 upt_rec add_num)
  moreover have "?w (f + 16) = frame_words ?w f 21 ! 4" unfolding frame_words_def by simp
  then have "?w (f + 16) = isr_exit" unfolding fr3 by (simp add: first_frame_def)
  ultimately show ?thesis
    unfolding task_context_switch_nodes [OF tb assms(5) assms(3) [symmetric] r] Let_def
    using run fr3 assms(6) by simp
qed


text \<open>
  C25: \<^verbatim>\<open>task_kill\<close> succeeds exactly for a listed task other than the idle one that is running,
  waiting or paused: it marks the first task with that id as killed and changes nothing else; in
  every other case the error code is returned and nothing changes.
\<close>
theorem task_kill_outcomes:
  assumes "tasks_ok xs s"
  shows "task_kill i s =
    Some (case find (\<lambda>y. t_id (tsk s y) = i) xs of
       None \<Rightarrow> (E_ERROR, s)
     | Some x \<Rightarrow> if i \<noteq> 0 \<and> t_state (tsk s x) \<in> {TASK_STATE_RUNNING, TASK_STATE_WAITING, TASK_STATE_PAUSED}
         then (E_SUCCESS, s\<lparr>tasks := (tasks s)(x \<mapsto> (tsk s x)\<lparr>t_state := TASK_STATE_KILLED\<rparr>)\<rparr>) else (E_ERROR, s))"
  using assms by (rule task_kill_ok)

text \<open>
  \<^verbatim>\<open>task_create\<close> refuses a starting state other than paused or waiting, and a priority outside
  1 to 5: it returns NULL and changes nothing, not even the next task id.
\<close>
lemma task_create_refuses:
  assumes "state \<notin> {TASK_STATE_PAUSED, TASK_STATE_WAITING} \<or> priority \<notin> {1..5}"
  shows "task_create img kpgd isr_exit name type start priority state s = Some (0, s)"
  using assms by (auto simp: task_create_def rotary_const not_le)


section \<open>Witnesses\<close>

text \<open>Two tasks, at 0x2000 (id 1) and 0x1000 (the idle task); \<open>c\<close> is the one that runs.\<close>

definition sample_task :: "u32 \<Rightarrow> u32 \<Rightarrow> u32 \<Rightarrow> task" where
  "sample_task i sp st = zero_task\<lparr>t_id := i, t_state := st, t_vm_space := 0x3000, kstack_top := sp, kstack_bot := 0xC0120000\<rparr>"

definition sample_regs :: cpu_regs where
  "sample_regs = \<lparr>r_edi = 1, r_esi = 2, r_ebx = 3, r_ebp = 4, r_esp = 0xC0100000, r_eip = 5, r_cr3 = 6\<rparr>"

definition sample_state :: "u32 \<Rightarrow> u32 \<Rightarrow> u32" where
  "sample_state c x = (if x = c then TASK_STATE_RUNNING else TASK_STATE_WAITING)"

definition sample_sched :: "u32 \<Rightarrow> sched_state" where
  "sample_sched c = \<lparr>vm = sample_vm sample_free, bytes = (\<lambda>_. 0),
     tasks = [0x1000 \<mapsto> sample_task 0 0xC0110000 (sample_state c 0x1000), 0x2000 \<mapsto> sample_task 1 0xC0120000 (sample_state c 0x2000)],
     task_head = zero_task,
     tnodes = (\<lambda>n. if n = TaskHead then \<lparr>next_node = Some (TaskNode 0x2000), prev_node = Some (TaskNode 0x1000)\<rparr>
       else if n = TaskNode 0x2000 then \<lparr>next_node = Some (TaskNode 0x1000), prev_node = Some TaskHead\<rparr>
       else \<lparr>next_node = Some TaskHead, prev_node = Some (TaskNode 0x2000)\<rparr>),
     task_lock = False, last_task_id = 2, current_task = TaskNode c, sched_enabled = True, esp0 = 0, regs = sample_regs\<rparr>"

lemma sample_sched_tasks [simp]:
  "tasks (sample_sched c) 0x1000 = Some (sample_task 0 0xC0110000 (sample_state c 0x1000))"
  "tasks (sample_sched c) 0x2000 = Some (sample_task 1 0xC0120000 (sample_state c 0x2000))"
  by (simp_all add: sample_sched_def)

lemma sample_task_simps [simp]:
  "t_id (sample_task i sp st) = i" "t_state (sample_task i sp st) = st" "t_vm_space (sample_task i sp st) = 0x3000"
  "kstack_top (sample_task i sp st) = sp"
  by (simp_all add: sample_task_def)

lemma sample_tasks_ok: "tasks_ok [0x2000, 0x1000] (sample_sched c)"
  by (simp add: tasks_ok_def clist_def) (simp add: sample_sched_def zero_task_def rotary_const)

lemma sample_sched_ok: "c \<in> {0x2000, 0x1000} \<Longrightarrow> sched_ok [0x2000, 0x1000] c (sample_sched c)"
  using sample_tasks_ok [of c]
  by (auto simp: sched_ok_def sample_state_def rotary_const) (simp_all add: sample_sched_def)

lemma sample_round: "round_from [0x2000, 0x1000] 0x1000 = [0x2000, 0x1000]"
  by (simp add: round_from_def)

lemma sample_regs_sched [simp]: "regs (sample_sched c) = sample_regs"
  by (simp add: sample_sched_def)

text \<open>The waiting task is reached within two ticks.\<close>
theorem task_schedule_fair_witness:
  "\<exists>k s'. 0 < k \<and> k \<le> 2 \<and> timer_ticks sample_image (take k [(sample_regs, \<lambda>_. 0), (sample_regs, \<lambda>_. 7)]) (sample_sched 0x1000) = Some s' \<and>
     sched_ok [0x2000, 0x1000] 0x2000 s'"
  using task_schedule_fair [OF sample_sched_ok [of "0x1000"], of "0x2000" "[(sample_regs, \<lambda>_. 0), (sample_regs, \<lambda>_. 7)]" sample_image]
  by (simp add: runnable_def sample_state_def numeral_2_eq_2)

text \<open>Killing task 1.\<close>
theorem task_kill_outcomes_witness:
  "task_kill 1 (sample_sched 0x1000) =
     Some (E_SUCCESS, (sample_sched 0x1000)\<lparr>tasks := (tasks (sample_sched 0x1000))(0x2000 \<mapsto> sample_task 1 0xC0120000 TASK_STATE_KILLED)\<rparr>)"
  using task_kill_outcomes [OF sample_tasks_ok [of "0x1000"], of 1]
  by (simp add: sample_state_def) (simp add: sample_task_def zero_task_def)

text \<open>A task that is to start in state RUNNING.\<close>
lemma task_create_refuses_witness:
  "task_create sample_image 0 0 0 0 0 3 TASK_STATE_RUNNING (sample_sched 0x1000) = Some (0, sample_sched 0x1000)"
  using task_create_refuses [of TASK_STATE_RUNNING 3 sample_image 0 0 0 0 0 "sample_sched 0x1000"] by (simp add: rotary_const)

lemma words_apart:
  assumes "unat x + 256 \<le> unat y" "unat y < 2 ^ 32 - 256" "i < 32" "j < 32"
  shows "(x :: u32) + 4 * of_nat j \<noteq> y + 4 * of_nat i"
proof
  assume "x + 4 * of_nat j = y + 4 * of_nat i"
  moreover have "unat (x + 4 * of_nat j) = unat x + 4 * j" "unat (y + 4 * of_nat i) = unat y + 4 * i"
    using assms by (simp_all add: unat_word_ariths unat_of_nat)
  ultimately show False using assms by simp
qed

text \<open>From the idle task to task 1 and straight back.\<close>
theorem task_context_switch_roundtrip_witness:
  "\<exists>s1 s3. task_context_switch (TaskNode 0x1000) (TaskNode 0x2000) (sample_sched 0x1000) = Some s1 \<and>
     task_context_switch (TaskNode 0x2000) (TaskNode 0x1000) s1 = Some s3 \<and> r_ebp (regs s3) = 4 \<and> r_esp (regs s3) = 0xC0100004"
proof -
  let ?s = "sample_sched 0x1000"
  have esp: "r_esp (regs ?s) = 0xC00FFFF0 + 16" by (simp add: sample_regs_def)
  note run = task_context_switch_nodes [OF sample_sched_tasks(1,2) _ esp]
  obtain s1 where s1: "task_context_switch (TaskNode 0x1000) (TaskNode 0x2000) ?s = Some s1"
    "tasks s1 0x2000 \<noteq> None" "r_esp (regs s1) = 0xC0120014" using run by (simp add: Let_def)
  have "r_esp (regs s1) - 16 + 4 * of_nat j \<noteq> 0xC00FFFF0 + 4 * of_nat i" if "i < 5" "j < 4" for i j :: nat
    using words_apart [of "0xC00FFFF0" "0xC0120004" j i] that unfolding s1(3) by (auto dest: not_sym)
  with task_context_switch_roundtrip [OF _ s1(1) esp, of s1] s1(1,2) show ?thesis by (auto simp: sample_regs_def)
qed

text \<open>Task 1 made ready, and switched to from the idle task.\<close>
theorem new_task_first_switch_witness:
  "\<exists>s1 s3. arch_task_create 0xC0001234 0x2000 (sample_sched 0x1000) = Some (E_SUCCESS, s1) \<and>
     task_context_switch (TaskNode 0x1000) (TaskNode 0x2000) s1 = Some s3 \<and> r_eip (regs s3) = 0xC0001234"
proof -
  let ?s = "sample_sched 0x1000" and ?t = "sample_task 1 0xC0120000 (sample_state 0x1000 0x2000)"
  have top: "kstack_top ?t = 0xC011FFAC + 84" by simp
  note run = arch_task_create_frame [OF sample_sched_tasks(2) top, of "0xC0001234"]
  let ?s1 = "snd (the (arch_task_create 0xC0001234 0x2000 ?s))"
  have st: "?t\<lparr>kstack_top := 0xC011FFAC\<rparr> = ?t\<lparr>kstack_top := 0xC011FFAC, t_state := t_state ?t\<rparr>" by simp
  have s1: "tasks ?s1 0x1000 \<noteq> None" "tasks ?s1 0x2000 = Some (?t\<lparr>kstack_top := 0xC011FFAC, t_state := t_state ?t\<rparr>)"
    "r_esp (regs ?s1) = 0xC0100000" using run by (simp_all add: sample_regs_def)
  have "r_esp (regs ?s1) - 16 + 4 * of_nat j \<noteq> 0xC011FFAC + 4 * of_nat i" if "i < 21" "j < 4" for i j :: nat
    using words_apart [of "0xC00FFFF0" "0xC011FFAC" i j] that unfolding s1(3) by auto
  with new_task_first_switch [OF sample_sched_tasks(2) top _ s1(1,2), of "0xC0001234"] run show ?thesis by auto
qed

end
