(* ===== verification/Interrupts_Props.thy ===== *)
theory Interrupts_Props
  imports Interrupts Task_Props
begin

text \<open>
  What interrupts do: the descriptor table leads to the right stubs, a page fault of a task is
  resolved by its address space, a timer interrupt runs the scheduler, and a key press reaches
  every registered handler in the order of registration.
\<close>

section \<open>Gates\<close>

text \<open>The handler address the processor reads from a gate.\<close>

definition gate_offset :: "idt_gate_t \<Rightarrow> u32" where
  "gate_offset g = push_bit 16 (ucast (high_offset g)) OR ucast (low_offset g)"

lemma split_address: "push_bit 16 (ucast (HIGH_16 a)) OR ucast (LOW_16 a) = a"
proof -
  have m: "(0xFFFF :: u32) = mask 16" by code_simp
  show ?thesis
    unfolding HIGH_16_def LOW_16_def m
    by (rule bit_word_eqI) (auto simp: bit_or_iff bit_push_bit_iff bit_unsigned_iff bit_and_iff bit_mask_iff bit_drop_bit_eq)
qed

definition gate_for :: "u32 \<Rightarrow> u32 \<Rightarrow> idt_gate_t \<Rightarrow> bool" where
  "gate_for addr dpl g \<longleftrightarrow> gate_offset g = addr \<and> segment_selector g = 8 \<and> gate_type g = 0xE \<and> gate_s g = 0 \<and>
     gate_dpl g = ucast dpl \<and> gate_present g = 1"

lemma set_idt_gate_ok:
  assumes "unat i < length (idt m)"
  shows "\<exists>g. set_idt_gate i addr d m = Some (m\<lparr>idt := (idt m)[unat i := g]\<rparr>) \<and> gate_for addr d g"
  using assms
  by (intro exI [of _ "\<lparr>low_offset = LOW_16 addr, segment_selector = ucast GDT_KERNEL_CODE_OFFSET, gate_reserved = 0,
      gate_type = ucast IDT_TYPE_32_INT, gate_s = 0, gate_dpl = ucast d, gate_present = 1, high_offset = HIGH_16 addr\<rparr>"])
    (simp add: set_idt_gate_def gate_for_def gate_offset_def split_address rotary_const)

lemma set_gates_ok:
  assumes "\<forall>g\<in>set gs. unat (fst g) < length (idt m)" and "distinct (map fst gs)"
  shows "\<exists>t. set_gates isr gs m = Some (m\<lparr>idt := t\<rparr>) \<and> length t = length (idt m) \<and>
    (\<forall>g\<in>set gs. gate_for (isr (fst g)) (snd g) (t ! unat (fst g))) \<and>
    (\<forall>i. i \<notin> (unat \<circ> fst) ` set gs \<longrightarrow> t ! i = idt m ! i)"
  using assms
proof (induction gs arbitrary: m)
  case Nil
  then show ?case by (intro exI [of _ "idt m"]) simp
next
  case (Cons g gs)
  obtain x where x: "set_idt_gate (fst g) (isr (fst g)) (snd g) m = Some (m\<lparr>idt := (idt m)[unat (fst g) := x]\<rparr>)"
    "gate_for (isr (fst g)) (snd g) x" using set_idt_gate_ok [of "fst g" m "isr (fst g)" "snd g"] Cons.prems(1) by auto
  let ?m = "m\<lparr>idt := (idt m)[unat (fst g) := x]\<rparr>"
  obtain t where t: "set_gates isr gs ?m = Some (?m\<lparr>idt := t\<rparr>)" "length t = length (idt m)"
    "\<forall>g\<in>set gs. gate_for (isr (fst g)) (snd g) (t ! unat (fst g))"
    "\<forall>i. i \<notin> (unat \<circ> fst) ` set gs \<longrightarrow> t ! i = (idt m)[unat (fst g) := x] ! i"
    using Cons.IH [of ?m] Cons.prems by auto
  have "unat (fst g) \<notin> (unat \<circ> fst) ` set gs"
  proof
    assume "unat (fst g) \<in> (unat \<circ> fst) ` set gs"
    then obtain x where "x \<in> set gs" "fst x = fst g" by (auto simp: word_unat_eq_iff)
    then show False using Cons.prems(2) by (auto simp: image_iff dest: sym)
  qed
  then have "t ! unat (fst g) = x" using t(4) Cons.prems(1) by simp
  then show ?case using x t by (intro exI [of _ t]) auto
qed

section \<open>Keyboard\<close>

lemma key_fold:
  "fold (\<lambda>i m. if keyboard_event_handlers m ! i \<noteq> 0
               then m\<lparr>key_calls := key_calls m @ [(keyboard_event_handlers m ! i, key)]\<rparr> else m) is m =
   m\<lparr>key_calls := key_calls m @ map (\<lambda>h. (h, key)) (filter (\<lambda>h. h \<noteq> 0) (map (\<lambda>i. keyboard_event_handlers m ! i) is))\<rparr>"
  by (induction "is" arbitrary: m) auto

lemma keyboard_handle_input_calls:
  assumes "length (keyboard_event_handlers m) = 256"
  shows "keyboard_handle_input k m = (E_SUCCESS,
    m\<lparr>key_calls := key_calls m @ map (\<lambda>h. (h, keyboard_translate_scan_code k)) (filter (\<lambda>h. h \<noteq> 0) (keyboard_event_handlers m))\<rparr>)"
proof -
  have "map (\<lambda>i. keyboard_event_handlers m ! i) [0..<256] = keyboard_event_handlers m"
    using assms by (metis map_nth)
  then show ?thesis by (simp add: keyboard_handle_input_def key_fold MAX_INTERRUPT_HANDLERS_def Let_def)
qed

text \<open>The table after the handlers \<open>hs\<close> were registered.\<close>

definition key_table :: "u32 list \<Rightarrow> u32 list" where
  "key_table hs = hs @ replicate (256 - length hs) 0"

primrec register_all :: "u32 list \<Rightarrow> machine \<Rightarrow> machine" where
  "register_all [] m = m"
| "register_all (h # hs) m = register_all hs (snd (keyboard_register_handler h m))"

lemma keyboard_register_step:
  assumes "keyboard_event_handlers m = key_table hs" and "0 \<notin> set hs" and "length hs < 256"
  shows "keyboard_register_handler h m = (E_SUCCESS, m\<lparr>keyboard_event_handlers := key_table (hs @ [h])\<rparr>)"
proof -
  have nz: "key_table hs ! j \<noteq> 0" if "j < length hs" for j
    using assms(2) that by (metis key_table_def nth_append nth_mem)
  have z: "key_table hs ! length hs = 0" using assms(3) by (simp add: key_table_def nth_append)
  have "find (\<lambda>i. key_table hs ! i = 0) [0..<256] = Some (length hs)"
    unfolding find_Some_iff using nz z assms(3) by (auto intro!: exI [of _ "length hs"])
  moreover have "(key_table hs)[length hs := h] = key_table (hs @ [h])"
  proof -
    obtain n where n: "256 - length hs = Suc n" using assms(3) by (metis Suc_diff_Suc)
    then have "256 - length (hs @ [h]) = n" by simp
    with n show ?thesis by (simp add: key_table_def list_update_append)
  qed
  ultimately show ?thesis using assms(1) by (simp add: keyboard_register_handler_def MAX_INTERRUPT_HANDLERS_def)
qed

lemma register_all_table:
  assumes "keyboard_event_handlers m = key_table gs" and "0 \<notin> set (gs @ hs)" and "length (gs @ hs) \<le> 256"
  shows "register_all hs m = m\<lparr>keyboard_event_handlers := key_table (gs @ hs)\<rparr>"
  using assms
proof (induction hs arbitrary: gs m)
  case Nil
  then show ?case by simp
next
  case (Cons h hs)
  have "keyboard_register_handler h m = (E_SUCCESS, m\<lparr>keyboard_event_handlers := key_table (gs @ [h])\<rparr>)"
    using Cons.prems by (intro keyboard_register_step) auto
  with Cons.IH [of "m\<lparr>keyboard_event_handlers := key_table (gs @ [h])\<rparr>" "gs @ [h]"] Cons.prems show ?case by simp
qed

section \<open>Properties\<close>

lemma idt_init_run:
  assumes "length (idt m) = 256"
  shows "\<exists>t. idt_init isr m = Some (E_SUCCESS, m\<lparr>idt := t\<rparr>) \<and> length t = 256 \<and>
    (\<forall>i<256. if i < 48 \<or> i = 64 then gate_for (isr (of_nat i)) (if i = 64 then 3 else 0) (t ! i) else t ! i = idt m ! i)"
proof -
  let ?gs = "map (\<lambda>i. (of_nat i :: u32, IDT_DPL_KERNEL)) [0..<48]"
  have un: "unat (of_nat i :: u32) = i" if "i < 48" for i using that by (simp add: unat_of_nat)
  have "inj_on (of_nat :: nat \<Rightarrow> u32) {0..<48}" by (rule inj_onI) (metis un atLeastLessThan_iff)
  then have "distinct (map fst ?gs)" by (simp add: o_def distinct_map)
  moreover have "\<forall>g\<in>set ?gs. unat (fst g) < length (idt m)" using assms un by auto
  ultimately obtain t where t: "set_gates isr ?gs m = Some (m\<lparr>idt := t\<rparr>)" "length t = 256"
    "\<forall>g\<in>set ?gs. gate_for (isr (fst g)) (snd g) (t ! unat (fst g))"
    "\<forall>i. i \<notin> (unat \<circ> fst) ` set ?gs \<longrightarrow> t ! i = idt m ! i"
    using set_gates_ok [of ?gs m isr] assms by auto
  have im: "(unat \<circ> fst) ` set ?gs = {0..<48}" using un by (auto simp: image_iff)
  have low: "gate_for (isr (of_nat i)) 0 (t ! i)" if "i < 48" for i
    using t(3) that un by (auto simp: IDT_DPL_KERNEL_def)
  have "\<forall>g\<in>set [(64 :: u32, IDT_DPL_USER)]. unat (fst g) < length (idt (m\<lparr>idt := t\<rparr>))" using t(2) by simp
  from set_gates_ok [OF this] obtain u where u: "set_gates isr [(64, IDT_DPL_USER)] (m\<lparr>idt := t\<rparr>) = Some (m\<lparr>idt := u\<rparr>)"
    "length u = 256" "gate_for (isr 64) IDT_DPL_USER (u ! 64)" "\<forall>i. i \<noteq> 64 \<longrightarrow> u ! i = t ! i"
    using t(2) by auto
  have "if i < 48 \<or> i = 64 then gate_for (isr (of_nat i)) (if i = 64 then 3 else 0) (u ! i) else u ! i = idt m ! i" for i
    using u(3,4) low t(4) unfolding im IDT_DPL_USER_def by auto
  then show ?thesis using t(1) u(1,2) by (intro exI [of _ u]) (simp add: idt_init_def)
qed

text \<open>
  C22: \<^verbatim>\<open>idt_init\<close> fills the table: for the 48 processor exceptions and hardware interrupts and for
  the system call vector, the gate leads to the stub of its number, in the kernel code segment,
  as a present 32-bit interrupt gate, which user code may invoke only for the system call; no other
  gate changes.
\<close>
theorem idt_init_gates:
  assumes "length (idt m) = 256"
  shows "\<exists>t. idt_init isr m = Some (E_SUCCESS, m\<lparr>idt := t\<rparr>) \<and> length t = 256 \<and>
    (\<forall>i<256. if i < 48 \<or> i = 64 then gate_for (isr (of_nat i)) (if i = 64 then 3 else 0) (t ! i) else t ! i = idt m ! i)"
  using assms by (rule idt_init_run)

text \<open>
  C19: A page-fault interrupt of a task is handled by its address space: when the faulting address
  lies in a mapping of the current task's space and pages are free, the interrupt completes, the
  address is then translated to a page no one held before, no other user page of the space changes
  its translation or its rights, the scheduler's state is as before, and the end of the interrupt is signalled.
\<close>
theorem isr_page_fault_resolves:
  assumes "current_task (sched m) = TaskNode c" and "tasks (sched m) c = Some t"
    and "length (interrupt_handlers m) = 256" and "interrupt_handlers m ! 14 = None"
    and "space_ok A d (t_vm_space t) ms (vm (sched m))" and "covered (vm (sched m)) ms cr2" and "cr2 < KERNEL_START_VIRT"
    and "frames_ok A fl (pages (kmem (heap (vm (sched m)))))" and "take_block 0 fl = Some (p, fl1)"
    and "PDE_EXISTS (vm_words (vm (sched m)) (GET_PDE (slab_base d) cr2)) \<or> take_block 0 fl1 \<noteq> None"
  shows "\<exists>A' fl' v. isr_handler img isr_exit inp cr2 14 m =
      Some (m\<lparr>sched := (sched m)\<lparr>vm := v\<rparr>, port_log := port_log m @ [(0xA0, 0x20), (0x20, 0x20)]\<rparr>) \<and>
    (p, 0) \<notin> A \<and> insert (p, 0) A \<subseteq> A' \<and> frames_ok A' fl' (pages (kmem (heap v))) \<and> space_ok A' d (t_vm_space t) ms v \<and>
    walk (vm_words v) (slab_base d) cr2 = Some (PFN_TO_PA (of_nat p) OR (cr2 AND 0xFFF)) \<and>
    (\<forall>a' < KERNEL_START_VIRT. PAGE_FRAME a' \<noteq> PAGE_FRAME cr2 \<longrightarrow>
       same_access (vm_words v) (slab_base d) (vm_words (vm (sched m))) (slab_base d) a')"
proof -
  from page_fault_ok [OF assms(5-10)] obtain A' fl' v where
    v: "vm_space_page_fault (t_vm_space t) cr2 (vm (sched m)) = Some (E_SUCCESS, v)" "(p, 0) \<notin> A" "insert (p, 0) A \<subseteq> A'"
    "frames_ok A' fl' (pages (kmem (heap v)))" "space_ok A' d (t_vm_space t) ms v"
    "walk (vm_words v) (slab_base d) cr2 = Some (PFN_TO_PA (of_nat p) OR (cr2 AND 0xFFF))"
    "\<forall>a' < KERNEL_START_VIRT. PAGE_FRAME a' \<noteq> PAGE_FRAME cr2 \<longrightarrow>
       same_access (vm_words v) (slab_base d) (vm_words (vm (sched m))) (slab_base d) a'" by blast
  have "isr_handler img isr_exit inp cr2 14 m =
      Some (m\<lparr>sched := (sched m)\<lparr>vm := v\<rparr>, port_log := port_log m @ [(0xA0, 0x20), (0x20, 0x20)]\<rparr>)"
    using assms(1-4) v(1)
    by (simp add: isr_handler_def isr_handler_first_def isr_handler_rest_def isr_switches_def paging_handle_page_fault_def
        pic_send_eoi_def io_port_out_def Let_def rotary_const)
  with v show ?thesis by blast
qed

text \<open>
  C20: A timer interrupt preempts: with the timer's handler registered and the scheduler in order, the
  interrupt is acknowledged, then the handler is called (the acknowledgement is in the log of the ports by then), the tick is counted, and
  the next runnable task in circular order becomes the running one and goes on at the address saved on its
  stack. Unless that is \<^verbatim>\<open>isr_exit\<close>, as for a task that runs for the first time, the interrupt is acknowledged a second time.
\<close>
theorem isr_timer_preempts:
  assumes "sched_ok xs c (sched m)" and "length (interrupt_handlers m) = 256"
    and "interrupt_handlers m ! 32 = Some Timer_Tick"
  shows "\<exists>n s. find (\<lambda>y. runnable (tsk (sched m) y)) (round_from xs c) = Some n \<and> sched_ok xs n s \<and>
    r_eip (regs s) = resumes_at c n (sched m) \<and>
    isr_handler img isr_exit inp cr2 32 m = Some (m\<lparr>sched := s, timer_count := timer_count m + 1,
      handler_calls := handler_calls m @ [(Timer_Tick, port_log m @ [(0xA0, 0x20), (0x20, 0x20)])],
      port_log := port_log m @ [(0xA0, 0x20), (0x20, 0x20)] @
        (if resumes_at c n (sched m) = isr_exit then [] else [(0xA0, 0x20), (0x20, 0x20)])\<rparr>)"
proof -
  from turn_step [OF assms(1), of img "regs (sched m)" "vm_words (vm (sched m))"] obtain n s where
    n: "find (\<lambda>y. runnable (tsk (sched m) y)) (round_from xs c) = Some n"
    and s: "task_schedule img (sched m) = Some s" "sched_ok xs n s" "r_eip (regs s) = resumes_at c n (sched m)" by (auto simp: task_runs_def)
  have "sched_enabled (sched m)" using assms(1) by (simp add: sched_ok_def)
  then have "isr_handler img isr_exit inp cr2 32 m = Some (m\<lparr>sched := s, timer_count := timer_count m + 1,
      handler_calls := handler_calls m @ [(Timer_Tick, port_log m @ [(0xA0, 0x20), (0x20, 0x20)])],
      port_log := port_log m @ [(0xA0, 0x20), (0x20, 0x20)] @
        (if resumes_at c n (sched m) = isr_exit then [] else [(0xA0, 0x20), (0x20, 0x20)])\<rparr>)"
    using assms(2,3) s(1,3)
    by (simp add: isr_handler_def isr_handler_first_def isr_handler_rest_def isr_switches_def call_handler_def timer_tick_def
        pic_send_eoi_def io_port_out_def Let_def rotary_const)
  with n s show ?thesis by blast
qed

text \<open>
  A key press reaches every handler: after any sequence of at most 256 registrations on an empty
  table, a keyboard interrupt calls exactly the registered handlers, once each and in the order of
  registration, with the translated key, and is acknowledged.
\<close>
lemma isr_keyboard_calls:
  assumes "keyboard_event_handlers m = replicate 256 0" and "0 \<notin> set hs" and "length hs \<le> 256"
    and "length (interrupt_handlers m) = 256" and "interrupt_handlers m ! 33 = Some X86_Driver_Keyboard_Isr"
  shows "isr_handler img isr_exit inp cr2 33 (register_all hs m) = Some ((register_all hs m)
    \<lparr>key_calls := key_calls m @ map (\<lambda>h. (h, keyboard_translate_scan_code (inp 0x60))) hs,
     handler_calls := handler_calls m @ [(X86_Driver_Keyboard_Isr, port_log m)],
     port_log := port_log m @ [(0xA0, 0x20), (0x20, 0x20)]\<rparr>)"
proof -
  have r: "register_all hs m = m\<lparr>keyboard_event_handlers := key_table hs\<rparr>"
    using register_all_table [of m "[]" hs] assms(1-3) by (simp add: key_table_def)
  have l: "length (key_table hs) = 256" using assms(3) by (simp add: key_table_def)
  have "filter (\<lambda>h. h \<noteq> 0) hs = hs" using assms(2) by (auto simp: filter_id_conv)
  then have f: "filter (\<lambda>h. h \<noteq> 0) (key_table hs) = hs" by (simp add: key_table_def)
  show ?thesis
    using assms(4,5) keyboard_handle_input_calls [of "m\<lparr>keyboard_event_handlers := key_table hs,
        handler_calls := handler_calls m @ [(X86_Driver_Keyboard_Isr, port_log m)]\<rparr>" "inp 0x60"] l f
    by (simp add: r isr_handler_def isr_handler_first_def isr_handler_rest_def isr_switches_def call_handler_def x86_driver_keyboard_isr_def
        pic_send_eoi_def io_port_out_def Let_def rotary_const)
qed


section \<open>Witnesses\<close>

definition sample_machine :: "sched_state \<Rightarrow> machine" where
  "sample_machine s = \<lparr>sched = s, port_log = [],
     interrupt_handlers = (replicate 256 None)[32 := Some Timer_Tick, 33 := Some X86_Driver_Keyboard_Isr],
     idt = replicate 256 \<lparr>low_offset = 0, segment_selector = 0, gate_reserved = 0, gate_type = 0, gate_s = 0, gate_dpl = 0,
       gate_present = 0, high_offset = 0\<rparr>,
     idt_base = 0, idt_limit = 0, interrupts_on = True, timer_count = 0,
     keyboard_event_handlers = replicate 256 0, key_calls = [], handler_calls = []\<rparr>"

lemma sample_machine_handlers:
  "length (interrupt_handlers (sample_machine s)) = 256" "interrupt_handlers (sample_machine s) ! 14 = None"
  "interrupt_handlers (sample_machine s) ! 32 = Some Timer_Tick"
  "interrupt_handlers (sample_machine s) ! 33 = Some X86_Driver_Keyboard_Isr"
  by (simp_all add: sample_machine_def)

text \<open>The stub of vector \<open>n\<close> at 0xC0100000 + 16 * n.\<close>
theorem idt_init_gates_witness:
  "\<exists>t. idt_init (\<lambda>n. 0xC0100000 + 16 * n) (sample_machine (sample_sched 0x1000)) =
      Some (E_SUCCESS, (sample_machine (sample_sched 0x1000))\<lparr>idt := t\<rparr>) \<and> gate_for 0xC0100400 3 (t ! 64)"
proof -
  have "length (idt (sample_machine (sample_sched 0x1000))) = 256" by (simp add: sample_machine_def)
  from idt_init_gates [OF this, of "\<lambda>n. 0xC0100000 + 16 * n"] obtain t where
    "idt_init (\<lambda>n. 0xC0100000 + 16 * n) (sample_machine (sample_sched 0x1000)) =
      Some (E_SUCCESS, (sample_machine (sample_sched 0x1000))\<lparr>idt := t\<rparr>)"
    and t: "\<forall>i<256. if i < 48 \<or> i = 64 then gate_for (0xC0100000 + 16 * of_nat i) (if i = 64 then 3 else 0) (t ! i)
      else t ! i = idt (sample_machine (sample_sched 0x1000)) ! i" by blast
  moreover have "gate_for (0xC0100000 + 16 * of_nat 64) 3 (t ! 64)" using t [rule_format, of 64] by simp
  ultimately show ?thesis by (intro exI [of _ t]) simp
qed

text \<open>The idle task, with the address space of the sample, faults at 0x400123.\<close>
theorem isr_page_fault_resolves_witness:
  "\<exists>fr m'. page_alloc 0 PR_KERNEL sample_free = Some (Some 0, fr) \<and>
     isr_handler sample_image 0xC0101000 (\<lambda>_. 0) 0x400123 14 (sample_machine ((sample_sched 0x1000)\<lparr>vm := sample_vm fr,
       tasks := [0x1000 \<mapsto> (sample_task 0 0 1)\<lparr>t_vm_space := 0x1000\<rparr>]\<rparr>)) = Some m' \<and>
     walk (vm_words (vm (sched m'))) (slab_base 0) 0x400123 = Some 0x1123"
proof -
  obtain fr where fr: "page_alloc 0 PR_KERNEL sample_free = Some (Some 0, fr)" "frames_ok {(0, 0)} sample_lists1 fr"
    by (rule sample_alloc) blast
  let ?t = "(sample_task 0 0 1)\<lparr>t_vm_space := 0x1000\<rparr>"
  let ?s = "(sample_sched 0x1000)\<lparr>vm := sample_vm fr, tasks := [0x1000 \<mapsto> ?t]\<rparr>"
  have s: "sched (sample_machine ?s) = ?s" by (simp add: sample_machine_def)
  have cur: "current_task (sched (sample_machine ?s)) = TaskNode 0x1000" "tasks (sched (sample_machine ?s)) 0x1000 = Some ?t"
    unfolding s by (simp_all add: sample_sched_def)
  have sp: "space_ok {(0, 0)} 0 (t_vm_space ?t) [0x2000] (vm (sched (sample_machine ?s)))"
    unfolding s using sample_space [of fr] by simp
  have cov: "covered (vm (sched (sample_machine ?s))) [0x2000] 0x400123" unfolding s by (simp add: covered_def sample_vm_def)
  have lt: "0x400123 < KERNEL_START_VIRT" by (simp add: rotary_const)
  have pa: "PFN_TO_PA (of_nat 1) OR (0x400123 AND 0xFFF) = 0x1123" by (simp add: rotary_macro rotary_const)
  have "frames_ok {(0, 0)} sample_lists1 (pages (kmem (heap (vm (sched (sample_machine ?s))))))"
    unfolding s using fr(2) sample_vm_frames [of fr] by simp
  from isr_page_fault_resolves [OF cur sample_machine_handlers(1,2) sp cov lt this sample_take1', of sample_image "0xC0101000" "\<lambda>_. 0"]
    sample_take2 obtain v where "isr_handler sample_image 0xC0101000 (\<lambda>_. 0) 0x400123 14 (sample_machine ?s) = Some ((sample_machine ?s)
      \<lparr>sched := (sched (sample_machine ?s))\<lparr>vm := v\<rparr>, port_log := port_log (sample_machine ?s) @ [(0xA0, 0x20), (0x20, 0x20)]\<rparr>)"
    "walk (vm_words v) (slab_base 0) 0x400123 = Some 0x1123" unfolding pa by blast
  then show ?thesis using fr(1) by (intro exI [of _ fr]) simp
qed

text \<open>
  A timer interrupt while the idle task runs. The word saved for the other task, 0, is not \<^verbatim>\<open>isr_exit\<close> in the first machine: it
  is acknowledged twice. In the second it is.
\<close>
theorem isr_timer_preempts_witness:
  "(\<exists>m'. isr_handler sample_image 0xC0101000 (\<lambda>_. 0) 0 32 (sample_machine (sample_sched 0x1000)) = Some m' \<and>
     current_task (sched m') = TaskNode 0x2000 \<and> timer_count m' = 1 \<and> handler_calls m' = [(Timer_Tick, [(0xA0, 0x20), (0x20, 0x20)])] \<and>
     port_log m' = [(0xA0, 0x20), (0x20, 0x20), (0xA0, 0x20), (0x20, 0x20)]) \<and>
   (\<exists>m'. isr_handler sample_image 0 (\<lambda>_. 0) 0 32 (sample_machine (sample_sched 0x1000)) = Some m' \<and>
     current_task (sched m') = TaskNode 0x2000 \<and> port_log m' = [(0xA0, 0x20), (0x20, 0x20)])"
proof -
  let ?m = "sample_machine (sample_sched 0x1000)"
  have s: "sched ?m = sample_sched 0x1000" "timer_count ?m = 0" "port_log ?m = []" "handler_calls ?m = []" by (simp_all add: sample_machine_def)
  have ok: "sched_ok [0x2000, 0x1000] 0x1000 (sched ?m)" unfolding s using sample_sched_ok [of "0x1000"] by simp
  have n: "find (\<lambda>y. runnable (tsk (sample_sched 0x1000) y)) (round_from [0x2000, 0x1000] 0x1000) = Some 0x2000"
    by (simp add: sample_round runnable_def sample_state_def)
  have r: "resumes_at 0x1000 0x2000 (sample_sched 0x1000) = 0"
    by (simp add: resumes_at_def saved_words_def sample_regs_def) (simp add: sample_sched_def sample_vm_def)
  note t = isr_timer_preempts [OF ok sample_machine_handlers(1,3), of sample_image _ "\<lambda>_. 0" 0, unfolded s n]
  show ?thesis using t [of "0xC0101000"] t [of 0] r by (auto simp: sched_ok_def)
qed

text \<open>Two handlers, and the key Q (scan code 0x10).\<close>
lemma isr_keyboard_calls_witness:
  "\<exists>m'. isr_handler sample_image 0xC0101000 (\<lambda>_. 0x10) 0 33 (register_all [0xC0100010, 0xC0100020] (sample_machine (sample_sched 0x1000))) = Some m' \<and>
     key_calls m' = [(0xC0100010, 113), (0xC0100020, 113)]"
proof -
  let ?m = "sample_machine (sample_sched 0x1000)"
  have k: "keyboard_event_handlers ?m = replicate 256 0" "key_calls ?m = []" by (simp_all add: sample_machine_def)
  have q: "keyboard_translate_scan_code 0x10 = 113" by (simp add: keyboard_translate_scan_code_def)
  show ?thesis
    using isr_keyboard_calls [OF k(1) _ _ sample_machine_handlers(1,4), of "[0xC0100010, 0xC0100020]" sample_image "0xC0101000" "\<lambda>_. 0x10" 0] k(2) q
    by simp
qed

end
