(* ===== verification/Gdt.thy ===== *)
theory Gdt
  imports Prelude
begin

text \<open>
  Segment descriptors: \<^verbatim>\<open>arch/x86/kernel/gdt.c\<close> and the descriptor table that
  \<^verbatim>\<open>arch/x86/kernel/cpu.c\<close> builds. The addresses of the CPU structure's members and its size are
  arguments. \<open>segment_base\<close>, \<open>segment_limit\<close> and \<open>descriptor_privilege\<close> are what the
  processor reads from a descriptor.
\<close>

section \<open>Descriptors\<close>

record gdt_entry_t =
  limit_low :: u16
  base_low :: u16
  base_middle :: u8
  access_flags :: u8
  granularity :: u8
  base_high :: u8

record gdt_descriptor_t =
  gdt_size :: u16
  gdt_address :: u32

definition gdt_encode_entry :: "u32 \<Rightarrow> u32 \<Rightarrow> u8 \<Rightarrow> u8 \<Rightarrow> gdt_entry_t" where
  "gdt_encode_entry base limit fl access =
     (let lim = (if fl AND 0x80 \<noteq> 0 then drop_bit 12 limit else limit);
          gran = ucast (drop_bit 16 lim) AND 0x0F;
          gran1 = gran OR (fl AND 0xF0);
          gran2 = gran1 OR (fl AND 0xF0)
      in \<lparr>limit_low = ucast (lim AND 0xFFFF), base_low = ucast (base AND 0xFFFF),
          base_middle = ucast (drop_bit 16 base AND 0xFF), access_flags = access,
          granularity = gran2, base_high = ucast (drop_bit 24 base AND 0xFF)\<rparr>)"

section \<open>The table of the boot processor\<close>

definition GDT_ENTRY_COUNT :: nat where [rotary_const]: "GDT_ENTRY_COUNT = 7"
definition GDT_ENTRY_KERNEL_CODE :: nat where [rotary_const]: "GDT_ENTRY_KERNEL_CODE = 1"
definition GDT_ENTRY_KERNEL_DATA :: nat where [rotary_const]: "GDT_ENTRY_KERNEL_DATA = 2"
definition GDT_ENTRY_USER_CODE :: nat where [rotary_const]: "GDT_ENTRY_USER_CODE = 3"
definition GDT_ENTRY_USER_DATA :: nat where [rotary_const]: "GDT_ENTRY_USER_DATA = 4"
definition GDT_ENTRY_TSS :: nat where [rotary_const]: "GDT_ENTRY_TSS = 5"
definition GDT_ENTRY_CPU_INFO :: nat where [rotary_const]: "GDT_ENTRY_CPU_INFO = 6"

definition GDT_ACCESS_TYPE_SEGMENT :: u8 where [rotary_const]: "GDT_ACCESS_TYPE_SEGMENT = 0x10"
definition GDT_ACCESS_PRESENT :: u8 where [rotary_const]: "GDT_ACCESS_PRESENT = 0x80"
definition GDT_ACCESS_PRIV_KERNEL :: u8 where [rotary_const]: "GDT_ACCESS_PRIV_KERNEL = 0x00"
definition GDT_ACCESS_PRIV_USER :: u8 where [rotary_const]: "GDT_ACCESS_PRIV_USER = 0x60"
definition GDT_ACCESS_EXECUTABLE :: u8 where [rotary_const]: "GDT_ACCESS_EXECUTABLE = 0x08"
definition GDT_ACCESS_DATA :: u8 where [rotary_const]: "GDT_ACCESS_DATA = 0x00"
definition GDT_ACCESS_DIRECTION_UP :: u8 where [rotary_const]: "GDT_ACCESS_DIRECTION_UP = 0x00"
definition GDT_ACCESS_NONCONFORMING :: u8 where [rotary_const]: "GDT_ACCESS_NONCONFORMING = 0x00"
definition GDT_ACCESS_READABLE :: u8 where [rotary_const]: "GDT_ACCESS_READABLE = 0x02"
definition GDT_ACCESS_WRITABLE :: u8 where [rotary_const]: "GDT_ACCESS_WRITABLE = 0x02"

text \<open>Sizes of \<^verbatim>\<open>struct tss\<close> (packed) and \<^verbatim>\<open>struct cpu_info\<close> (with its members aligned to 8).\<close>

definition SIZEOF_TSS :: u32 where [rotary_const]: "SIZEOF_TSS = 104"
definition SIZEOF_CPU_INFO :: u32 where [rotary_const]: "SIZEOF_CPU_INFO = 192"

text \<open>
  \<^verbatim>\<open>struct cpu_info\<close>, without the members the scheduler uses (\<^verbatim>\<open>current_task\<close>, \<^verbatim>\<open>sched_enabled\<close> and \<^verbatim>\<open>tss.esp0\<close> are fields of its state, and
  are zero in the image), and the registers of the processor that concern segments: the one of the table, the
  selectors (\<open>data_selector\<close> is that of \<^verbatim>\<open>ds\<close>, \<^verbatim>\<open>es\<close>, \<^verbatim>\<open>fs\<close> and \<^verbatim>\<open>ss\<close>) and the task register.
\<close>

record cpu_info =
  cpu_id :: u16
  cpu_self :: u32
  tss_ss0 :: u16
  gdt_desc :: gdt_descriptor_t
  gdt_entries :: "gdt_entry_t list"
  loaded_gdtr :: gdt_descriptor_t
  gs_selector :: u16
  cs_selector :: u16
  data_selector :: u16
  task_register :: u16

definition zero_entry :: gdt_entry_t where
  "zero_entry = \<lparr>limit_low = 0, base_low = 0, base_middle = 0, access_flags = 0, granularity = 0, base_high = 0\<rparr>"

definition cpu_load_gdtr :: "gdt_descriptor_t \<Rightarrow> cpu_info \<Rightarrow> cpu_info" where
  "cpu_load_gdtr gdtr cpu = cpu\<lparr>loaded_gdtr := gdtr\<rparr>"

definition cpu_set_gs :: "u16 \<Rightarrow> cpu_info \<Rightarrow> cpu_info" where
  "cpu_set_gs value cpu = cpu\<lparr>gs_selector := value\<rparr>"

text \<open>The two routines of \<^verbatim>\<open>reload-segments.asm\<close>.\<close>

definition gdt_flush :: "cpu_info \<Rightarrow> cpu_info" where
  "gdt_flush cpu = cpu\<lparr>cs_selector := 0x08, data_selector := 0x10\<rparr>"

definition tss_flush :: "cpu_info \<Rightarrow> cpu_info" where
  "tss_flush cpu = cpu\<lparr>task_register := 0x28\<rparr>"

text \<open>\<open>tss_addr\<close>, \<open>self_addr\<close> and \<open>entries_addr\<close> are the addresses of the members of \<^verbatim>\<open>cpu\<close>.\<close>

definition cpu_init_gdt :: "u32 \<Rightarrow> u32 \<Rightarrow> u32 \<Rightarrow> cpu_info \<Rightarrow> cpu_info" where
  "cpu_init_gdt tss_addr self_addr entries_addr cpu =
     (let desc = \<lparr>gdt_size = of_nat (8 * GDT_ENTRY_COUNT) - 1, gdt_address = entries_addr\<rparr>;
          e0 = gdt_entries cpu;
          e1 = e0[GDT_ENTRY_KERNEL_CODE := gdt_encode_entry 0 0xFFFFFFFF 0xCF
                 (GDT_ACCESS_TYPE_SEGMENT OR GDT_ACCESS_PRESENT OR GDT_ACCESS_PRIV_KERNEL OR
                  GDT_ACCESS_EXECUTABLE OR GDT_ACCESS_NONCONFORMING OR GDT_ACCESS_READABLE)];
          e2 = e1[GDT_ENTRY_KERNEL_DATA := gdt_encode_entry 0 0xFFFFFFFF 0xCF
                 (GDT_ACCESS_TYPE_SEGMENT OR GDT_ACCESS_PRESENT OR GDT_ACCESS_PRIV_KERNEL OR
                  GDT_ACCESS_DATA OR GDT_ACCESS_DIRECTION_UP OR GDT_ACCESS_WRITABLE)];
          e3 = e2[GDT_ENTRY_USER_CODE := gdt_encode_entry 0 0xFFFFFFFF 0xCF
                 (GDT_ACCESS_TYPE_SEGMENT OR GDT_ACCESS_PRESENT OR GDT_ACCESS_PRIV_USER OR
                  GDT_ACCESS_EXECUTABLE OR GDT_ACCESS_NONCONFORMING OR GDT_ACCESS_READABLE)];
          e4 = e3[GDT_ENTRY_USER_DATA := gdt_encode_entry 0 0xFFFFFFFF 0xCF
                 (GDT_ACCESS_TYPE_SEGMENT OR GDT_ACCESS_PRESENT OR GDT_ACCESS_PRIV_USER OR
                  GDT_ACCESS_DATA OR GDT_ACCESS_DIRECTION_UP OR GDT_ACCESS_WRITABLE)];
          e5 = e4[GDT_ENTRY_TSS := gdt_encode_entry tss_addr SIZEOF_TSS 0x40 0x89];
          e6 = e5[GDT_ENTRY_CPU_INFO := gdt_encode_entry self_addr (SIZEOF_CPU_INFO - 1) 0x4F
                 (GDT_ACCESS_TYPE_SEGMENT OR GDT_ACCESS_PRESENT OR GDT_ACCESS_PRIV_KERNEL OR
                  GDT_ACCESS_DATA OR GDT_ACCESS_DIRECTION_UP OR GDT_ACCESS_WRITABLE)];
          cpu1 = cpu\<lparr>gdt_desc := desc, gdt_entries := e6, tss_ss0 := 0x10\<rparr>;
          cpu2 = cpu_load_gdtr (gdt_desc cpu1) cpu1;
          cpu3 = cpu_set_gs (push_bit 3 (of_nat GDT_ENTRY_CPU_INFO)) cpu2
      in tss_flush (gdt_flush cpu3))"

text \<open>The structure is cleared first, the registers are not; \<open>cpu0_addr\<close> is its address.\<close>

definition cpu_init :: "u32 \<Rightarrow> u32 \<Rightarrow> u32 \<Rightarrow> u32 \<Rightarrow> cpu_info \<Rightarrow> i32 \<times> cpu_info" where
  "cpu_init cpu0_addr tss_addr self_addr entries_addr cpu =
     (E_SUCCESS, cpu_init_gdt tss_addr self_addr entries_addr
        (cpu\<lparr>cpu_id := 0, cpu_self := cpu0_addr, tss_ss0 := 0, gdt_desc := \<lparr>gdt_size = 0, gdt_address = 0\<rparr>,
           gdt_entries := replicate GDT_ENTRY_COUNT zero_entry\<rparr>))"

section \<open>What the processor reads\<close>

definition segment_base :: "gdt_entry_t \<Rightarrow> u32" where
  "segment_base e = push_bit 24 (ucast (base_high e)) OR push_bit 16 (ucast (base_middle e)) OR ucast (base_low e)"

definition page_granular :: "gdt_entry_t \<Rightarrow> bool" where
  "page_granular e = bit (granularity e) 7"

definition segment_limit :: "gdt_entry_t \<Rightarrow> u32" where
  "segment_limit e =
     (let l = push_bit 16 (ucast (granularity e AND 0x0F)) OR ucast (limit_low e)
      in if page_granular e then push_bit 12 l OR 0xFFF else l)"

definition descriptor_privilege :: "gdt_entry_t \<Rightarrow> u8" where
  "descriptor_privilege e = drop_bit 5 (access_flags e) AND 3"

lemma u8_mask: "(0x0F :: u8) = mask 4" "(0xF0 :: u8) = push_bit 4 (mask 4)" "(0x80 :: u8) = 2 ^ 7"
  and u32_mask: "(0xFFFF :: u32) = mask 16" "(0xFF :: u32) = mask 8" "(0xFFF :: u32) = mask 12" "(0xFFFFF :: u32) = mask 20"
  by code_simp+

lemma and_bit7: "(fl AND 0x80 \<noteq> (0 :: u8)) \<longleftrightarrow> bit fl 7"
  unfolding u8_mask(3) and_exp_eq_0_iff_not_bit by blast

lemmas bit_descriptor = bit_or_iff bit_and_iff bit_push_bit_iff bit_drop_bit_eq bit_unsigned_iff bit_mask_iff

lemma base_roundtrip: "segment_base (gdt_encode_entry base limit fl access) = base"
proof (rule bit_word_eqI)
  fix n assume "n < LENGTH(32)"
  then consider "n < 16" | "16 \<le> n" "n < 24" | "24 \<le> n" "n < 32" by force
  then show "bit (segment_base (gdt_encode_entry base limit fl access)) n = bit base n"
    unfolding segment_base_def gdt_encode_entry_def Let_def u32_mask
    by cases (auto simp: bit_descriptor)
qed

lemma encode_granularity:
  "granularity (gdt_encode_entry base limit fl access) AND 0x0F =
     ucast (drop_bit 16 (if bit fl 7 then drop_bit 12 limit else limit)) AND 0x0F"
  "granularity (gdt_encode_entry base limit fl access) AND 0xF0 = fl AND 0xF0"
  unfolding gdt_encode_entry_def Let_def and_bit7 u8_mask(1,2)
  by (rule bit_word_eqI; auto simp: bit_descriptor)+

lemma encode_granular: "page_granular (gdt_encode_entry base limit fl access) = bit fl 7"
  unfolding page_granular_def gdt_encode_entry_def Let_def u8_mask(1,2)
  by (auto simp: bit_descriptor)

lemma limit_roundtrip:
  "segment_limit (gdt_encode_entry base limit fl access) =
     (if bit fl 7 then limit OR 0xFFF else limit AND 0xFFFFF)"
proof (rule bit_word_eqI)
  fix n assume "n < LENGTH(32)"
  then consider "n < 12" | "12 \<le> n" "n < 16" | "16 \<le> n" "n < 20" | "20 \<le> n" "n < 28" | "28 \<le> n" "n < 32" by force
  then show "bit (segment_limit (gdt_encode_entry base limit fl access)) n =
      bit (if bit fl 7 then limit OR 0xFFF else limit AND 0xFFFFF) n"
    unfolding segment_limit_def encode_granularity encode_granular Let_def
    unfolding gdt_encode_entry_def Let_def and_bit7 u32_mask u8_mask(1,2)
    by cases (auto simp: bit_descriptor)
qed

text \<open>
  C23: A segment descriptor says what it was built from: for every base, limit, flag byte and access
  byte, the processor reads back the base and the access byte exactly; the limit is exact up to
  the unit of the segment (rounded up to the end of its 4 KiB page when the granularity flag is
  set, its lower 20 bits otherwise); the flags are the upper half of the flag byte.
\<close>
theorem gdt_encode_entry_roundtrip:
  "segment_base (gdt_encode_entry base limit fl access) = base \<and>
   segment_limit (gdt_encode_entry base limit fl access) = (if bit fl 7 then limit OR 0xFFF else limit AND 0xFFFFF) \<and>
   access_flags (gdt_encode_entry base limit fl access) = access \<and>
   granularity (gdt_encode_entry base limit fl access) AND 0xF0 = fl AND 0xF0"
  using base_roundtrip [of base limit fl access] limit_roundtrip [of base limit fl access]
    encode_granularity(2) [of base limit fl access]
  by (simp add: gdt_encode_entry_def Let_def)

text \<open>
  The processor after \<^verbatim>\<open>cpu_init\<close>: the code and data segments of both privilege levels cover all
  4 GiB from address 0, the user segments have privilege 3 and the kernel segments 0, all are present with the rights of code
  and data, the task segment starts at the TSS, the last segment at the CPU structure; the register of the table
  has its address and size, the selectors are those of the kernel's segments, \<^verbatim>\<open>gs\<close> that of the CPU structure, the task register that of the
  task segment, and the TSS has the kernel's stack segment. (The limit of the task segment is the size of the TSS, one more than
  its last byte.)
\<close>

definition cpu_ready :: "u32 \<Rightarrow> u32 \<Rightarrow> u32 \<Rightarrow> u32 \<Rightarrow> cpu_info \<Rightarrow> bool" where
  "cpu_ready cpu0_addr tss_addr self_addr entries_addr cpu \<longleftrightarrow>
     cpu_id cpu = 0 \<and> cpu_self cpu = cpu0_addr \<and> tss_ss0 cpu = 0x10 \<and>
     map segment_base (gdt_entries cpu) = [0, 0, 0, 0, 0, tss_addr, self_addr] \<and>
     map segment_limit (gdt_entries cpu) = [0, 0xFFFFFFFF, 0xFFFFFFFF, 0xFFFFFFFF, 0xFFFFFFFF, 104, 191] \<and>
     map descriptor_privilege (gdt_entries cpu) = [0, 0, 0, 3, 3, 0, 0] \<and>
     map access_flags (gdt_entries cpu) = [0, 0x9A, 0x92, 0xFA, 0xF2, 0x89, 0x92] \<and>
     loaded_gdtr cpu = \<lparr>gdt_size = 55, gdt_address = entries_addr\<rparr> \<and>
     cs_selector cpu = 8 \<and> data_selector cpu = 0x10 \<and> gs_selector cpu = 0x30 \<and> task_register cpu = 0x28"

lemma cpu_init_ready:
  "\<exists>cpu'. cpu_init cpu0 tss_addr self_addr entries_addr cpu = (E_SUCCESS, cpu') \<and> cpu_ready cpu0 tss_addr self_addr entries_addr cpu'"
proof -
  have z: "segment_base zero_entry = 0" "segment_limit zero_entry = 0" "access_flags zero_entry = 0"
    by (simp_all add: zero_entry_def segment_base_def segment_limit_def page_granular_def)
  have a: "access_flags (gdt_encode_entry base limit fl access) = access" for base limit fl access
    by (simp add: gdt_encode_entry_def Let_def)
  have r: "replicate 7 zero_entry = [zero_entry, zero_entry, zero_entry, zero_entry, zero_entry, zero_entry, zero_entry]"
    by (simp add: numeral_eq_Suc)
  show ?thesis
    by (simp add: cpu_init_def cpu_ready_def r cpu_init_gdt_def cpu_load_gdtr_def cpu_set_gs_def gdt_flush_def tss_flush_def
        Let_def rotary_const base_roundtrip limit_roundtrip descriptor_privilege_def a z)
qed

end
