(* ===== verification/Object_Heap.thy ===== *)
theory Object_Heap
  imports Kmalloc
begin

text \<open>
  What the clients of the kernel heap rely on, as an interface: an allocation gives NULL or a new object apart
  from all live ones, and releasing a live object takes it away. Sequences of requests are treated
  once, for any such heap; \<^verbatim>\<open>kmalloc\<close> and \<^verbatim>\<open>kfree\<close> are shown to be one.
\<close>

section \<open>Sequences of requests\<close>

primrec allocate :: "(u32 \<Rightarrow> 's \<Rightarrow> (u32 \<times> 's) option) \<Rightarrow> u32 list \<Rightarrow> 's \<Rightarrow> (u32 list \<times> 's) option" where
  "allocate alloc [] s = Some ([], s)"
| "allocate alloc (n # ns) s = do {
     (r, s1) \<leftarrow> alloc n s;
     (rs, s2) \<leftarrow> allocate alloc ns s1;
     Some (r # rs, s2)
   }"

text \<open>The return codes of the releases are collected.\<close>

primrec release_all :: "(u32 \<Rightarrow> 's \<Rightarrow> (i32 \<times> 's) option) \<Rightarrow> u32 list \<Rightarrow> 's \<Rightarrow> (i32 list \<times> 's) option" where
  "release_all free [] s = Some ([], s)"
| "release_all free (r # rs) s = do {
     (c, s1) \<leftarrow> free r s;
     (cs, s2) \<leftarrow> release_all free rs s1;
     Some (c # cs, s2)
   }"

text \<open>The objects that requests \<open>ns\<close> got, with their sizes; a refused request has the address 0.\<close>

definition objects :: "(u32 \<Rightarrow> nat) \<Rightarrow> u32 list \<Rightarrow> u32 list \<Rightarrow> (u32 \<times> nat) list" where
  "objects granted rs ns = filter (\<lambda>a. fst a \<noteq> 0) (zip rs (map granted ns))"

lemma objects_all: "0 \<notin> set rs \<Longrightarrow> objects granted rs ns = zip rs (map granted ns)"
  unfolding objects_def by (rule filter_True) (auto dest: set_zip_leftD)

lemma objects_fst: "length rs = length ns \<Longrightarrow> map fst (objects granted rs ns) = filter (\<lambda>r. r \<noteq> 0) rs"
  unfolding objects_def by (induction rs ns rule: list_induct2) auto

text \<open>New allocations, each apart from all earlier ones.\<close>

primrec adds :: "(u32 \<times> nat) list \<Rightarrow> (u32 \<times> nat) set \<Rightarrow> (u32 \<times> nat) set \<Rightarrow> bool" where
  "adds [] A A' \<longleftrightarrow> A' = A"
| "adds (a # as) A A' \<longleftrightarrow> (\<forall>b\<in>A. bytes_of a \<inter> bytes_of b = {}) \<and> adds as (insert a A) A'"

lemma adds_set: "adds as A A' \<Longrightarrow> A' = set as \<union> A"
  by (induction as arbitrary: A) auto

lemma bytes_of_eq: "0 < n \<Longrightarrow> bytes_of (r, n) \<inter> bytes_of (r, k) = {} \<Longrightarrow> k = 0"
  by (auto simp: bytes_of_def)

lemma adds_fresh: "adds as A A' \<Longrightarrow> \<forall>a\<in>set as. 0 < snd a \<Longrightarrow> set as \<inter> A = {} \<and> distinct as"
proof (induction as arbitrary: A)
  case (Cons a as)
  have "bytes_of a \<noteq> {}" using Cons.prems(2) by (cases a) (auto simp: bytes_of_def)
  then have "a \<notin> A" using Cons.prems(1) by auto
  moreover have "set as \<inter> insert a A = {} \<and> distinct as" using Cons.IH [of "insert a A"] Cons.prems by auto
  ultimately show ?case by auto
qed simp

lemma adds_apart: "adds as A A' \<Longrightarrow> \<forall>a\<in>set as. \<forall>b\<in>A. bytes_of a \<inter> bytes_of b = {}"
  by (induction as arbitrary: A) auto

lemma adds_pairwise: "adds as A A' \<Longrightarrow> sorted_wrt (\<lambda>a b. bytes_of a \<inter> bytes_of b = {}) as"
proof (induction as arbitrary: A)
  case (Cons a as)
  then show ?case using adds_apart [of as "insert a A" A'] by (auto simp: Int_commute)
qed simp

section \<open>The interface\<close>

locale object_heap =
  fixes alloc :: "u32 \<Rightarrow> 's \<Rightarrow> (u32 \<times> 's) option" and free :: "u32 \<Rightarrow> 's \<Rightarrow> (i32 \<times> 's) option"
    and ok :: "'g \<Rightarrow> 's \<Rightarrow> bool" and held :: "'g \<Rightarrow> 's \<Rightarrow> (u32 \<times> nat) set" and granted :: "u32 \<Rightarrow> nat" and limit :: nat
  assumes alloc_law: "ok g s \<Longrightarrow> unat n \<le> limit \<Longrightarrow> \<exists>r s' g'. alloc n s = Some (r, s') \<and> ok g' s' \<and>
      (if r = 0 then held g' s' = held g s
       else held g' s' = insert (r, granted n) (held g s) \<and> (\<forall>a\<in>held g s. bytes_of (r, granted n) \<inter> bytes_of a = {}))"
    and free_law: "ok g s \<Longrightarrow> (r, k) \<in> held g s \<Longrightarrow> \<exists>s' g'. free r s = Some (E_SUCCESS, s') \<and> ok g' s' \<and> held g' s' = held g s - {(r, k)}"
    and granted_enough: "unat n \<le> limit \<Longrightarrow> unat n \<le> granted n \<and> 0 < granted n"
begin

lemma allocate_many:
  assumes "ok g s" and "\<forall>n\<in>set ns. unat n \<le> limit"
  shows "\<exists>rs s' g'. allocate alloc ns s = Some (rs, s') \<and> length rs = length ns \<and> ok g' s' \<and>
    adds (objects granted rs ns) (held g s) (held g' s')"
  using assms
proof (induction ns arbitrary: g s)
  case Nil
  then show ?case by (auto simp: objects_def)
next
  case (Cons n ns)
  have "unat n \<le> limit" using Cons.prems(2) by simp
  from alloc_law [OF Cons.prems(1) this] obtain r s1 g1 where r: "alloc n s = Some (r, s1)" "ok g1 s1"
    "if r = 0 then held g1 s1 = held g s
     else held g1 s1 = insert (r, granted n) (held g s) \<and> (\<forall>a\<in>held g s. bytes_of (r, granted n) \<inter> bytes_of a = {})" by blast
  obtain rs s' g' where rs: "allocate alloc ns s1 = Some (rs, s')" "length rs = length ns" "ok g' s'"
    "adds (objects granted rs ns) (held g1 s1) (held g' s')"
    using Cons.IH [OF r(2)] Cons.prems(2) by (meson list.set_intros(2))
  have "allocate alloc (n # ns) s = Some (r # rs, s')" using r(1) rs(1) by simp
  moreover have "adds (objects granted (r # rs) (n # ns)) (held g s) (held g' s')"
    using r(3) rs(4) by (cases "r = 0") (simp_all add: objects_def)
  ultimately show ?case using rs(2,3) by (metis length_Cons)
qed

lemma release_many:
  assumes "ok g s" and "set as \<subseteq> held g s" and "distinct as"
  shows "\<exists>s' g'. release_all free (map fst as) s = Some (replicate (length as) E_SUCCESS, s') \<and> ok g' s' \<and> held g' s' = held g s - set as"
  using assms
proof (induction as arbitrary: g s)
  case (Cons a as)
  have "(fst a, snd a) \<in> held g s" using Cons.prems(2) by simp
  from free_law [OF Cons.prems(1) this] obtain s1 g1 where s1: "free (fst a) s = Some (E_SUCCESS, s1)" "ok g1 s1" "held g1 s1 = held g s - {a}"
    by auto
  have "set as \<subseteq> held g1 s1" using Cons.prems(2,3) s1(3) by auto
  from Cons.IH [OF s1(2) this] Cons.prems(3) obtain s' g' where "release_all free (map fst as) s1 = Some (replicate (length as) E_SUCCESS, s')" "ok g' s'"
    "held g' s' = held g1 s1 - set as" by auto
  then show ?case using s1 by auto
qed auto

text \<open>What a sequence of requests gave, and that releasing it restores the live objects.\<close>

lemma allocate_release:
  assumes "ok g s" and "\<forall>n\<in>set ns. unat n \<le> limit"
  shows "\<exists>rs s1 g1. allocate alloc ns s = Some (rs, s1) \<and> length rs = length ns \<and> ok g1 s1 \<and>
    held g1 s1 = held g s \<union> set (objects granted rs ns) \<and>
    (\<forall>a\<in>set (objects granted rs ns). \<forall>b\<in>held g s. bytes_of a \<inter> bytes_of b = {}) \<and>
    sorted_wrt (\<lambda>a b. bytes_of a \<inter> bytes_of b = {}) (objects granted rs ns) \<and>
    (\<exists>cs s2 g2. release_all free (filter (\<lambda>r. r \<noteq> 0) rs) s1 = Some (cs, s2) \<and> set cs \<subseteq> {E_SUCCESS} \<and>
       ok g2 s2 \<and> held g2 s2 = held g s)"
proof -
  obtain rs s1 g1 where rs: "allocate alloc ns s = Some (rs, s1)" "length rs = length ns" "ok g1 s1"
    "adds (objects granted rs ns) (held g s) (held g1 s1)" using allocate_many [OF assms] by blast
  let ?as = "objects granted rs ns"
  have "\<forall>a\<in>set ?as. 0 < snd a" using granted_enough assms(2) by (auto simp: objects_def dest!: set_zip_rightD)
  note f = adds_fresh [OF rs(4) this] and e = adds_set [OF rs(4)]
  from release_many [OF rs(3), of ?as] f e obtain s2 g2 where
    "release_all free (map fst ?as) s1 = Some (replicate (length ?as) E_SUCCESS, s2)" "ok g2 s2" "held g2 s2 = held g1 s1 - set ?as" by auto
  moreover from this have "held g2 s2 = held g s" using f e by auto
  ultimately have "\<exists>cs s2 g2. release_all free (filter (\<lambda>r. r \<noteq> 0) rs) s1 = Some (cs, s2) \<and> set cs \<subseteq> {E_SUCCESS} \<and>
      ok g2 s2 \<and> held g2 s2 = held g s"
    unfolding objects_fst [OF rs(2)]
    by (intro exI [of _ "replicate (length ?as) E_SUCCESS"] exI [of _ s2] exI [of _ g2]) (simp add: set_replicate_conv_if)
  then show ?thesis using rs(1-3) e adds_apart [OF rs(4)] adds_pairwise [OF rs(4)]
    by (intro exI [of _ rs] exI [of _ s1] exI [of _ g1]) (simp add: Un_commute)
qed

end

section \<open>The kernel heap\<close>

text \<open>The size of the cache that serves a request.\<close>

definition rounded :: "u32 \<Rightarrow> nat" where
  "rounded n = (case find (\<lambda>i. unat n \<le> 2 ^ (i + 3)) [0..<13] of None \<Rightarrow> 0 | Some i \<Rightarrow> 2 ^ (i + 3))"

lemma rounded_bound:
  assumes "find (\<lambda>i. unat n \<le> 2 ^ (i + 3)) [0..<13] = Some i"
  shows "rounded n = 2 ^ (i + 3)" "unat n \<le> rounded n"
  using assms find_upt_SomeD [OF assms] by (simp_all add: rounded_def)

lemma rounded_values: "rounded 32 = 32" "rounded 4096 = 4096"
  by (simp_all add: rounded_def upt_rec)

lemma rounded_exists: "unat n \<le> 32768 \<Longrightarrow> \<exists>i. find (\<lambda>i. unat n \<le> 2 ^ (i + 3)) [0..<13] = Some i"
  using find_upt_None [of "\<lambda>i. unat n \<le> 2 ^ (i + 3)" 13] by (cases "find (\<lambda>i. unat n \<le> 2 ^ (i + 3)) [0..<13]") (auto dest!: spec [of _ 12])

lemma kfree_allocation:
  assumes "kmalloc_ok H F S h" and "(r, n) \<in> allocations H F h"
  shows "\<exists>h' F'. kfree r h = Some (E_SUCCESS, h') \<and> kmalloc_ok H F' S h' \<and> allocations H F' h' = allocations H F h - {(r, n)}"
proof -
  from assms(2) obtain i where i: "i < 13" "r \<in> live (slab_caches h ! i) (H i) F" "n = 2 ^ (i + 3)" by (auto simp: allocations_def)
  from kfree_run [OF assms(1) i(1,2)] i(3) show ?thesis by metis
qed

text \<open>The slabs of the caches, their free objects and all slabs, which the invariant speaks about.\<close>

type_synonym heap_ghost = "(nat \<Rightarrow> u32 list) \<times> (u32 \<Rightarrow> u32 list) \<times> u32 set"

definition ghost_ok :: "heap_ghost \<Rightarrow> kmalloc_state \<Rightarrow> bool" where
  "ghost_ok g = (\<lambda>s. case g of (H, F, S) \<Rightarrow> kmalloc_ok H F S s)"

definition ghost_held :: "heap_ghost \<Rightarrow> kmalloc_state \<Rightarrow> (u32 \<times> nat) set" where
  "ghost_held g = (\<lambda>s. case g of (H, F, S) \<Rightarrow> allocations H F s)"

interpretation kernel_heap: object_heap kmalloc kfree ghost_ok ghost_held rounded 32768
proof
  fix g s and n :: u32
  assume g: "ghost_ok g s" and n: "unat n \<le> 32768"
  obtain H F S where e: "g = (H, F, S)" by (cases g)
  from kmalloc_outcome [of H F S s n] g n obtain i r s' H' F' S' where
    r: "find (\<lambda>i. unat n \<le> 2 ^ (i + 3)) [0..<13] = Some i" "kmalloc n s = Some (r, s')" "kmalloc_ok H' F' S' s'"
    "if r = 0 then allocations H' F' s' = allocations H F s \<and> (\<exists>ps. slab_get_pages (pages (kmem s)) = Some (None, ps))
     else allocations H' F' s' = insert (r, 2 ^ (i + 3)) (allocations H F s) \<and> (\<forall>a\<in>allocations H F s. bytes_of (r, 2 ^ (i + 3)) \<inter> bytes_of a = {})"
    by (auto simp: e ghost_ok_def)
  then show "\<exists>r s' g'. kmalloc n s = Some (r, s') \<and> ghost_ok g' s' \<and> (if r = 0 then ghost_held g' s' = ghost_held g s
      else ghost_held g' s' = insert (r, rounded n) (ghost_held g s) \<and> (\<forall>a\<in>ghost_held g s. bytes_of (r, rounded n) \<inter> bytes_of a = {}))"
    using rounded_bound(1) [OF r(1)]
    by (intro exI [of _ r] exI [of _ s'] exI [of _ "(H', F', S')"]) (simp add: e ghost_ok_def ghost_held_def split: if_splits)
next
  fix g s r k
  assume g: "ghost_ok g s" "(r, k) \<in> ghost_held g s"
  obtain H F S where e: "g = (H, F, S)" by (cases g)
  from kfree_allocation [of H F S s r k] g obtain s' F' where
    "kfree r s = Some (E_SUCCESS, s')" "kmalloc_ok H F' S s'" "allocations H F' s' = allocations H F s - {(r, k)}"
    by (auto simp: e ghost_ok_def ghost_held_def)
  then show "\<exists>s' g'. kfree r s = Some (E_SUCCESS, s') \<and> ghost_ok g' s' \<and> ghost_held g' s' = ghost_held g s - {(r, k)}"
    by (intro exI [of _ s'] exI [of _ "(H, F', S)"]) (simp add: e ghost_ok_def ghost_held_def)
next
  fix n :: u32
  assume "unat n \<le> 32768"
  then show "unat n \<le> rounded n \<and> 0 < rounded n" using rounded_exists [of n] rounded_bound [of n] by auto
qed

text \<open>The two client lemmas, written out for the kernel heap.\<close>

lemma kmallocs_run:
  assumes "kmalloc_ok H F S h" and "\<forall>n\<in>set ns. unat n \<le> 32768"
  shows "\<exists>rs h' H' F' S'. allocate kmalloc ns h = Some (rs, h') \<and> length rs = length ns \<and> kmalloc_ok H' F' S' h' \<and>
    (0 \<notin> set rs \<longrightarrow> adds (zip rs (map rounded ns)) (allocations H F h) (allocations H' F' h'))"
  using kernel_heap.allocate_many [of "(H, F, S)" h ns] assms by (fastforce simp: ghost_ok_def ghost_held_def objects_all)

lemma kmalloc_first_object:
  assumes "unat n \<le> 32768" "allocate kmalloc (n # ns) (kmalloc_init sample_free) = Some (rs, h)"
  shows "rs ! 0 \<noteq> 0"
proof -
  obtain r s where r: "kmalloc n (kmalloc_init sample_free) = Some (r, s)" "rs ! 0 = r"
    using assms(2) by (auto elim!: bind_eq_SomeE)
  with kmalloc_outcome [OF kmalloc_init_ok [OF sample_owns] assms(1)] sample_pages_available show ?thesis
    by (auto simp: kmalloc_init_def)
qed

text \<open>
  C6: Using the heap and giving everything back. For every sequence of requests of at most 32 KiB the calls of
  \<^verbatim>\<open>kmalloc\<close> return and leave the heap in order. The objects they gave (a refused request gives NULL) are at least as large as
  requested, pairwise disjoint, and disjoint from every allocation there was before; exactly they are added to the
  allocations. Then \<^verbatim>\<open>kfree\<close> of those objects one after the other returns success each time, the heap is in order, and
  the allocations are exactly those from before.
\<close>

theorem kmalloc_kfree_roundtrip:
  assumes "kmalloc_ok H F S h" and "\<forall>n\<in>set ns. unat n \<le> 32768"
  shows "(\<forall>n\<in>set ns. unat n \<le> rounded n) \<and>
    (\<exists>rs h1 H1 F1 S1. allocate kmalloc ns h = Some (rs, h1) \<and> length rs = length ns \<and> kmalloc_ok H1 F1 S1 h1 \<and>
      allocations H1 F1 h1 = allocations H F h \<union> set (objects rounded rs ns) \<and>
      (\<forall>a\<in>set (objects rounded rs ns). \<forall>b\<in>allocations H F h. bytes_of a \<inter> bytes_of b = {}) \<and>
      sorted_wrt (\<lambda>a b. bytes_of a \<inter> bytes_of b = {}) (objects rounded rs ns) \<and>
      (\<exists>cs h2 H2 F2 S2. release_all kfree (filter (\<lambda>r. r \<noteq> 0) rs) h1 = Some (cs, h2) \<and> set cs \<subseteq> {E_SUCCESS} \<and>
        kmalloc_ok H2 F2 S2 h2 \<and> allocations H2 F2 h2 = allocations H F h))"
  using kernel_heap.allocate_release [of "(H, F, S)" h ns] kernel_heap.granted_enough assms
  by (simp add: ghost_ok_def ghost_held_def)

text \<open>Three requests on a fresh heap of 64 pages; the first is not refused.\<close>

theorem kmalloc_kfree_roundtrip_witness:
  "\<exists>r rs h1 cs h2 H2 F2 S2. allocate kmalloc [60, 4096, 0] (kmalloc_init sample_free) = Some (r # rs, h1) \<and> r \<noteq> 0 \<and>
    sorted_wrt (\<lambda>a b. bytes_of a \<inter> bytes_of b = {}) (objects rounded (r # rs) [60, 4096, 0]) \<and>
    release_all kfree (r # filter (\<lambda>r. r \<noteq> 0) rs) h1 = Some (cs, h2) \<and> set cs \<subseteq> {E_SUCCESS} \<and>
    kmalloc_ok H2 F2 S2 h2 \<and> allocations H2 F2 h2 = {}"
proof -
  have "\<forall>n\<in>set [60, 4096, 0 :: u32]. unat n \<le> 32768" by simp
  from kmalloc_kfree_roundtrip [OF kmalloc_init_ok [OF sample_owns] this] obtain rs h1 cs h2 H2 F2 S2 where
    run: "allocate kmalloc [60, 4096, 0] (kmalloc_init sample_free) = Some (rs, h1)" "length rs = 3"
    "sorted_wrt (\<lambda>a b. bytes_of a \<inter> bytes_of b = {}) (objects rounded rs [60, 4096, 0])"
    "release_all kfree (filter (\<lambda>r. r \<noteq> 0) rs) h1 = Some (cs, h2)" "set cs \<subseteq> {E_SUCCESS}" "kmalloc_ok H2 F2 S2 h2" "allocations H2 F2 h2 = {}"
    unfolding allocations_init by auto
  obtain r rs' where rs: "rs = r # rs'" using run(2) by (cases rs) auto
  have "r \<noteq> 0" using kmalloc_first_object [OF _ run(1)] rs by simp
  with run show ?thesis unfolding rs by auto
qed

end
