(* ===== verification/Tty.thy ===== *)
theory Tty
  imports Object_Heap KString_Props
begin

text \<open>
  Terminals, \<^verbatim>\<open>kernel/drivers/tty/tty.c\<close>: TTY objects with their two buffers on the kernel heap, linked in a
  list. The structs are in a typed store by address, the buffers in byte memory. The test
  \<^verbatim>\<open>SUCCESS(pointer)\<close> compares an address with 0 by \<^verbatim>\<open>>=\<close> and always holds, so that a NULL pointer
  is used: a store through it is undefined (\<^term>\<open>None\<close>).
\<close>

section \<open>State and operations\<close>

definition TTY_ID_DEFAULT :: u32 where [rotary_const]: "TTY_ID_DEFAULT = 1"
definition TTY_ID_INVALID :: u32 where [rotary_const]: "TTY_ID_INVALID = 9999"
definition TTY_DEFAULT_BUFFER_SIZE :: u32 where [rotary_const]: "TTY_DEFAULT_BUFFER_SIZE = 4096"
definition SIZEOF_TTY :: u32 where [rotary_const]: "SIZEOF_TTY = 32"

record tty =
  tty_id :: u32
  input_buffer :: u32
  input_buffer_bytes :: u32
  output_buffer :: u32
  output_buffer_bytes :: u32
  buffer_size :: u32

datatype ttynode = TtyHead | TtyNode u32

record tty_state =
  ttys :: "u32 \<Rightarrow> tty"
  tty_list_head :: tty
  tty_nodes :: "ttynode list_heap"
  tty_heap :: kmalloc_state
  tty_mem :: mem

definition zero_tty :: tty where
  "zero_tty = \<lparr>tty_id = 0, input_buffer = 0, input_buffer_bytes = 0, output_buffer = 0, output_buffer_bytes = 0, buffer_size = 0\<rparr>"

definition PTR_SUCCESS_TEST :: "u32 \<Rightarrow> bool" where
  "PTR_SUCCESS_TEST p \<longleftrightarrow> p \<ge> 0"

definition tty_create :: "u32 \<Rightarrow> u32 \<Rightarrow> u32 \<Rightarrow> tty_state \<Rightarrow> (u32 \<times> tty_state) option" where
  "tty_create ident type buf_size s = do {
     (new_tty, h1) \<leftarrow> kmalloc SIZEOF_TTY (tty_heap s);
     (if \<not> PTR_SUCCESS_TEST new_tty then Some (E_ERROR, s\<lparr>tty_heap := h1\<rparr>)
      else if new_tty = 0 then None
      else do {
        let s1 = s\<lparr>tty_heap := h1, ttys := (ttys s)(new_tty := zero_tty\<lparr>tty_id := ident, buffer_size := buf_size\<rparr>),
                   tty_nodes := llist_init (Some (TtyNode new_tty)) (tty_nodes s)\<rparr>;
        (inp, h2) \<leftarrow> kmalloc (buffer_size (ttys s1 new_tty)) (tty_heap s1);
        let s2 = s1\<lparr>tty_heap := h2, ttys := (ttys s1)(new_tty := (ttys s1 new_tty)\<lparr>input_buffer := inp\<rparr>)\<rparr>;
        (out, h3) \<leftarrow> kmalloc (buffer_size (ttys s2 new_tty)) (tty_heap s2);
        let s3 = s2\<lparr>tty_heap := h3, ttys := (ttys s2)(new_tty := (ttys s2 new_tty)\<lparr>output_buffer := out\<rparr>)\<rparr>;
        (if \<not> PTR_SUCCESS_TEST inp \<or> \<not> PTR_SUCCESS_TEST out then Some (E_ERROR, s3)
         else if inp = 0 \<or> out = 0 then None
         else do {
           let m1 = snd (memset inp 0 (buffer_size (ttys s3 new_tty)) (tty_mem s3));
           let m2 = snd (memset out 0 (buffer_size (ttys s3 new_tty)) m1);
           Some (new_tty, s3\<lparr>tty_mem := m2,
             tty_nodes := llist_add_after (Some TtyHead) (Some (TtyNode new_tty)) (tty_nodes s3)\<rparr>)
         })
      })
   }"

definition tty_init :: "tty_state \<Rightarrow> (i32 \<times> tty_state) option" where
  "tty_init s = do {
     let s1 = s\<lparr>tty_nodes := llist_init (Some TtyHead) (tty_nodes s),
                tty_list_head := (tty_list_head s)\<lparr>tty_id := TTY_ID_INVALID\<rparr>\<rparr>;
     (default_tty, s2) \<leftarrow> tty_create TTY_ID_DEFAULT 0 TTY_DEFAULT_BUFFER_SIZE s1;
     Some (if \<not> PTR_SUCCESS_TEST default_tty then E_ERROR else E_SUCCESS, s2)
   }"

text \<open>
  \<^verbatim>\<open>memset\<close> of the object after \<^verbatim>\<open>kfree\<close> clears the first word of the memory, which is the link of the
  free list.
\<close>

definition tty_destroy :: "u32 \<Rightarrow> tty_state \<Rightarrow> (i32 \<times> tty_state) option" where
  "tty_destroy target s =
     (if target = 0 then None
      else do {
        let s1 = s\<lparr>tty_nodes := llist_delete_node (Some (TtyNode target)) (tty_nodes s)\<rparr>;
        (_, h1) \<leftarrow> kfree (input_buffer (ttys s1 target)) (tty_heap s1);
        (_, h2) \<leftarrow> kfree (output_buffer (ttys s1 target)) h1;
        (_, h3) \<leftarrow> kfree target h2;
        let h4 = h3\<lparr>kmem := (kmem h3)\<lparr>obj_next := (obj_next (kmem h3))(target := 0)\<rparr>\<rparr>;
        Some (E_SUCCESS, s1\<lparr>tty_heap := h4, ttys := (ttys s1)(target := zero_tty),
          tty_nodes := llist_init (Some (TtyNode target)) (tty_nodes s1)\<rparr>)
      })"

definition tty_write :: "u32 \<Rightarrow> u32 \<Rightarrow> u32 \<Rightarrow> tty_state \<Rightarrow> i32 \<times> tty_state" where
  "tty_write target buffer count s = (E_SUCCESS, s)"

definition tty_flush :: "u32 \<Rightarrow> tty_state \<Rightarrow> i32 \<times> tty_state" where
  "tty_flush target s = (E_SUCCESS, s)"

definition tty_get_default :: "tty_state \<Rightarrow> u32" where
  "tty_get_default s = 0"

lemma PTR_SUCCESS_TEST_always [simp]: "PTR_SUCCESS_TEST p"
  by (simp add: PTR_SUCCESS_TEST_def)

section \<open>The list of terminals\<close>

lemma llist_add_after_head:
  assumes "llist h a xs" and "x \<notin> insert a (set xs)"
  shows "llist (llist_add_after (Some a) (Some x) h) a (x # xs)"
proof -
  obtain h' where h': "llist_add (Some a) (Some x) h = Some h'" "llist h' a (x # xs)"
    using llist_add_correct [OF assms] by blast
  have "next_node (h a) \<noteq> Some x" using assms by (cases xs) (auto simp: llist_def)
  then have "llist_add_after (Some a) (Some x) h = h'"
    using h'(1) assms(2) fun_upd_twist [of x "the (next_node (h a))" h]
    by (auto simp: llist_add_def llist_add_after_def set_next_def set_prev_def split: option.splits)
  then show ?thesis using h'(2) by simp
qed

lemma llist_init_other:
  assumes "llist h a xs" and "x \<notin> insert a (set xs)"
  shows "llist (llist_init (Some x) h) a xs"
  using assms(2) by (intro llist_frame [OF assms(1), of "{x}"]) (auto simp: llist_init_def set_next_def set_prev_def)

section \<open>What the heap holds\<close>

definition tty_ok :: "(nat \<Rightarrow> u32 list) \<Rightarrow> (u32 \<Rightarrow> u32 list) \<Rightarrow> u32 set \<Rightarrow> u32 list \<Rightarrow> tty_state \<Rightarrow> bool" where
  "tty_ok H F S ts s \<longleftrightarrow> kmalloc_ok H F S (tty_heap s) \<and> llist (tty_nodes s) TtyHead (map TtyNode ts) \<and>
     (\<forall>t\<in>set ts. (t, 32) \<in> allocations H F (tty_heap s))"

section \<open>A cut free list\<close>

lemma npath_unique: "npath f p xs \<Longrightarrow> npath f p ys \<Longrightarrow> xs = ys"
proof (induction xs arbitrary: p ys)
  case Nil
  then show ?case by (cases ys) auto
next
  case (Cons x xs)
  then show ?case by (cases ys) auto
qed

lemma npath_cut: "npath f p (us @ t # vs) \<Longrightarrow> t \<notin> set us \<Longrightarrow> npath (f(t := 0)) p (us @ [t])"
  by (induction us arbitrary: p) auto

text \<open>Freeing keeps the slabs of the caches and their free objects.\<close>

lemma free_object:
  assumes "kmalloc_ok H F S h" "x \<in> set (H 2)" "r \<in> set (slab_objs x 32)"
  shows "r \<in> set (F x) \<longleftrightarrow> (r, 32) \<notin> allocations H F h"
proof -
  have sz: "object_size (slab_caches h ! 2) = 32" using kmalloc_okD(3) [OF assms(1), of 2] by simp
  have "r \<in> live (slab_caches h ! 2) (H 2) F \<longleftrightarrow> r \<notin> set (F x)"
  proof
    assume "r \<in> live (slab_caches h ! 2) (H 2) F"
    then obtain z where z: "z \<in> set (H 2)" "r \<in> set (slab_objs z 32)" "r \<notin> set (F z)" by (auto simp: live_def sz)
    have "slab_place x" "slab_place z" using kmalloc_okD(1,2) [OF assms(1), of 2] assms(2) z(1)
      by (auto simp: cache_ok_def heap_ok_def slab_ok_def)
    then have "unat r \<in> slab_bytes x" "unat r \<in> slab_bytes z"
      using slab_obj_bytes(1,3) [of x r 32] slab_obj_bytes(1,3) [of z r 32] assms(3) z(2) by auto
    then have "x = z" using owner_unique [OF assms(1), of 2 2 x z] assms(2) z(1) by simp
    then show "r \<notin> set (F x)" using z(3) by simp
  qed (use assms(2,3) in \<open>auto simp: live_def sz\<close>)
  then show ?thesis using allocations_iff [of 2 r H F h] by simp
qed

lemma slab_free_objects: "kmalloc_ok H F S h \<Longrightarrow> x \<in> set (H 2) \<Longrightarrow> y \<in> set (F x) \<Longrightarrow> y \<in> set (slab_objs x 32)"
  using kmalloc_okD(1,2,3) [of H F S h 2] by (fastforce simp: cache_ok_def heap_ok_def slab_ok_def)

lemma cut_free_list:
  assumes ok: "kmalloc_ok H F S h" and x: "x \<in> set (H 2)" and ty: "t \<in> set (F x)" "y \<in> set (F x)" "t < y"
  shows "\<not> kmalloc_ok H' F' S' (h\<lparr>kmem := (kmem h)\<lparr>obj_next := (obj_next (kmem h))(t := 0)\<rparr>\<rparr>)"
proof
  let ?h = "h\<lparr>kmem := (kmem h)\<lparr>obj_next := (obj_next (kmem h))(t := 0)\<rparr>\<rparr>"
  assume ok': "kmalloc_ok H' F' S' ?h"
  have two: "(2 :: nat) < 13" by simp
  note c = kmalloc_okD(1,2) [OF ok two] and c' = kmalloc_okD(1,2) [OF ok' two]
  have "H' 2 = H 2" using c(2) c'(2) by (auto simp: cache_ok_def intro: npath_unique)
  then have sl: "slab_ok (kmem h) x (F x)" "slab_ok (kmem ?h) x (F' x)"
    using c c' x by (auto simp: cache_ok_def heap_ok_def)
  obtain us vs where us: "F x = us @ t # vs" using split_list [OF ty(1)] by blast
  have so: "sorted_wrt (<) (us @ t # vs)" using sl(1) us by (simp add: slab_ok_def)
  then have "t \<notin> set us" by (auto simp: sorted_wrt_append)
  moreover have "npath (obj_next (kmem h)) (free_list (headers (kmem h) x)) (us @ t # vs)" using sl(1) us by (simp add: slab_ok_def)
  ultimately have "npath ((obj_next (kmem h))(t := 0)) (free_list (headers (kmem h) x)) (us @ [t])" by (intro npath_cut)
  moreover have "npath ((obj_next (kmem h))(t := 0)) (free_list (headers (kmem h) x)) (F' x)" using sl(2) by (simp add: slab_ok_def)
  ultimately have "F' x = us @ [t]" using npath_unique by blast
  moreover have "length (F' x) = length (F x)" using sl by (simp add: slab_ok_def)
  ultimately have "vs = []" using us by simp
  then show False using so us ty(2,3) by (auto simp: sorted_wrt_append)
qed

section \<open>Properties\<close>

text \<open>
  C33: Creating a terminal: when the heap has memory for the object and the two buffers, \<^verbatim>\<open>tty_create\<close>
  returns a new object at the front of the list with the given number and size and two cleared
  buffers that are large enough and, like the object, apart from everything allocated before.
  When one of the three requests is answered with NULL, the call has no defined outcome: the tests
  of the results never fail.
\<close>

theorem tty_create_outcomes:
  assumes "tty_ok H F S ts s" and "unat n \<le> 32768"
  shows "\<exists>rs h. allocate kmalloc [SIZEOF_TTY, n, n] (tty_heap s) = Some (rs, h) \<and>
    (if 0 \<in> set rs then tty_create ident type n s = None
     else \<exists>t i out s' H' F' S'. rs = [t, i, out] \<and> tty_create ident type n s = Some (t, s') \<and> tty_ok H' F' S' (t # ts) s' \<and>
       adds [(t, 32), (i, rounded n), (out, rounded n)] (allocations H F (tty_heap s)) (allocations H' F' (tty_heap s')) \<and>
       ttys s' t = \<lparr>tty_id = ident, input_buffer = i, input_buffer_bytes = 0, output_buffer = out, output_buffer_bytes = 0, buffer_size = n\<rparr> \<and>
       (\<forall>k<unat n. tty_mem s' (i + of_nat k) = 0 \<and> tty_mem s' (out + of_nat k) = 0))"
proof -
  have k: "kmalloc_ok H F S (tty_heap s)" and l: "llist (tty_nodes s) TtyHead (map TtyNode ts)"
    and a: "\<forall>t\<in>set ts. (t, 32) \<in> allocations H F (tty_heap s)" using assms(1) by (auto simp: tty_ok_def)
  have small: "\<forall>m\<in>set [SIZEOF_TTY, n, n]. unat m \<le> 32768" using assms(2) by (simp add: rotary_const)
  obtain rs h H' F' S' where rs: "allocate kmalloc [SIZEOF_TTY, n, n] (tty_heap s) = Some (rs, h)" "length rs = 3" "kmalloc_ok H' F' S' h"
    "0 \<notin> set rs \<Longrightarrow> adds (zip rs (map rounded [SIZEOF_TTY, n, n])) (allocations H F (tty_heap s)) (allocations H' F' h)"
    using kmallocs_run [OF k small] by (metis One_nat_def Suc_eq_plus1 list.size(3,4) numeral_3_eq_3 plus_1_eq_Suc)
  obtain t i out where t: "rs = [t, i, out]" using rs(2) by (auto simp: numeral_3_eq_3 length_Suc_conv)
  obtain h1 h2 where h: "kmalloc SIZEOF_TTY (tty_heap s) = Some (t, h1)" "kmalloc n h1 = Some (i, h2)" "kmalloc n h2 = Some (out, h)"
    using rs(1) unfolding t by (auto split: option.splits prod.splits Option.bind_splits)
  show ?thesis
  proof (cases "0 \<in> set rs")
    case True
    then have "tty_create ident type n s = None" using h unfolding t by (auto simp: tty_create_def Let_def)
    then show ?thesis using rs(1) True by auto
  next
    case False
    then have nz: "t \<noteq> 0" "i \<noteq> 0" "out \<noteq> 0" by (auto simp: t)
    have ad: "adds [(t, 32), (i, rounded n), (out, rounded n)] (allocations H F (tty_heap s)) (allocations H' F' h)"
      using rs(4) [OF False] by (simp add: t rotary_const rounded_values)
    have "t \<notin> set ts"
    proof
      assume "t \<in> set ts"
      then have "bytes_of (t, 32) \<inter> bytes_of (t, 32) = {}" using a ad by auto
      then show False by (simp add: bytes_of_def)
    qed
    then have fr: "TtyNode t \<notin> insert TtyHead (set (map TtyNode ts))" by auto
    let ?ns = "llist_add_after (Some TtyHead) (Some (TtyNode t)) (llist_init (Some (TtyNode t)) (tty_nodes s))"
    have ns: "llist ?ns TtyHead (map TtyNode (t # ts))"
      using llist_add_after_head [OF llist_init_other [OF l fr] fr] by simp
    let ?m = "store (store (tty_mem s) i (replicate (unat n) 0)) out (replicate (unat n) 0)"
    obtain s' where s': "tty_create ident type n s = Some (t, s')" "tty_heap s' = h" "tty_nodes s' = ?ns" "tty_mem s' = ?m"
      "ttys s' t = \<lparr>tty_id = ident, input_buffer = i, input_buffer_bytes = 0, output_buffer = out, output_buffer_bytes = 0, buffer_size = n\<rparr>"
      using h nz by (simp add: tty_create_def Let_def memset_store zero_tty_def)
    have "\<forall>x\<in>set (t # ts). (x, 32) \<in> allocations H' F' h" using ad a by auto
    then have "tty_ok H' F' S' (t # ts) s'" using rs(3) ns s'(2,3) by (simp add: tty_ok_def)
    moreover have "tty_mem s' (i + of_nat k) = 0 \<and> tty_mem s' (out + of_nat k) = 0" if "k < unat n" for k
    proof -
      have "unat (of_nat k :: u32) = k" using less_trans [OF that unat_u32_less [of n]] by (rule unat_le_imp_of_nat)
      then show ?thesis using that by (simp add: s'(4) store_def)
    qed
    ultimately show ?thesis using rs(1) False t s'(1,2,5) ad by auto
  qed
qed

lemma sample_tty_heap: "kmalloc_ok (\<lambda>_. []) (\<lambda>_. []) {} (kmalloc_init sample_free)"
  by (rule kmalloc_init_ok [OF sample_owns])

definition sample_ttys :: tty_state where
  "sample_ttys = \<lparr>ttys = (\<lambda>a. zero_tty), tty_list_head = zero_tty, tty_nodes = llist_init (Some TtyHead) (\<lambda>n. \<lparr>next_node = None, prev_node = None\<rparr>),
     tty_heap = kmalloc_init sample_free, tty_mem = (\<lambda>a. 7)\<rparr>"

lemma sample_ttys_ok: "tty_ok (\<lambda>_. []) (\<lambda>_. []) {} [] sample_ttys"
  by (simp add: tty_ok_def sample_ttys_def llist_init_llist sample_tty_heap)

theorem tty_create_outcomes_witness:
  "\<exists>rs h. allocate kmalloc [SIZEOF_TTY, 4096, 4096] (tty_heap sample_ttys) = Some (rs, h) \<and>
    (if 0 \<in> set rs then tty_create 1 0 4096 sample_ttys = None
     else \<exists>t i out s' H' F' S'. rs = [t, i, out] \<and> tty_create 1 0 4096 sample_ttys = Some (t, s') \<and> tty_ok H' F' S' [t] s' \<and>
       adds [(t, 32), (i, rounded 4096), (out, rounded 4096)] (allocations (\<lambda>_. []) (\<lambda>_. []) (tty_heap sample_ttys)) (allocations H' F' (tty_heap s')) \<and>
       ttys s' t = \<lparr>tty_id = 1, input_buffer = i, input_buffer_bytes = 0, output_buffer = out, output_buffer_bytes = 0, buffer_size = 4096\<rparr> \<and>
       (\<forall>k<unat (4096 :: u32). tty_mem s' (i + of_nat k) = 0 \<and> tty_mem s' (out + of_nat k) = 0))"
  by (rule tty_create_outcomes [OF sample_ttys_ok]) simp

text \<open>
  C34: Destroying a terminal damages the heap. \<^verbatim>\<open>tty_destroy\<close> reports success, but it clears the object
  after \<^verbatim>\<open>kfree\<close> has linked it into the free list of its slab: if that slab has a free object
  behind it, no state of the allocator's invariant describes the heap any more, because the
  objects behind it are lost while they are still counted as free.
\<close>

theorem tty_destroy_breaks_heap:
  assumes "kmalloc_ok H F S (tty_heap s)" and "ttys s t = d" and "t \<noteq> 0"
    and "{(t, 32), (input_buffer d, n), (output_buffer d, n)} \<subseteq> allocations H F (tty_heap s)"
    and "distinct [t, input_buffer d, output_buffer d]"
    and "x \<in> set (H 2)" "t \<in> set (slab_objs x 32)" "y \<in> set (F x)" "t < y"
  shows "\<exists>s'. tty_destroy t s = Some (E_SUCCESS, s') \<and> (\<forall>H F S. \<not> kmalloc_ok H F S (tty_heap s'))"
proof -
  let ?A = "allocations H F (tty_heap s)" and ?i = "input_buffer d" and ?o = "output_buffer d"
  obtain h1 F1 where h1: "kfree ?i (tty_heap s) = Some (E_SUCCESS, h1)" "kmalloc_ok H F1 S h1" "allocations H F1 h1 = ?A - {(?i, n)}"
    using kfree_allocation [OF assms(1), of ?i n] assms(4) by blast
  obtain h2 F2 where h2: "kfree ?o h1 = Some (E_SUCCESS, h2)" "kmalloc_ok H F2 S h2" "allocations H F2 h2 = ?A - {(?i, n)} - {(?o, n)}"
    using kfree_allocation [OF h1(2), of ?o n] assms(4,5) h1(3) by auto
  obtain h3 F3 where h3: "kfree t h2 = Some (E_SUCCESS, h3)" "kmalloc_ok H F3 S h3" "allocations H F3 h3 = ?A - {(?i, n)} - {(?o, n)} - {(t, 32)}"
    using kfree_allocation [OF h2(2), of t 32] assms(4,5) h2(3) by auto
  let ?h4 = "h3\<lparr>kmem := (kmem h3)\<lparr>obj_next := (obj_next (kmem h3))(t := 0)\<rparr>\<rparr>"
  have y: "y \<in> set (slab_objs x 32)" using slab_free_objects [OF assms(1,6,8)] .
  have fr: "t \<in> set (F3 x)" "y \<in> set (F3 x)"
    using free_object [OF h3(2) assms(6,7)] free_object [OF h3(2) assms(6) y] free_object [OF assms(1,6) y] assms(8) h3(3) by auto
  have "\<not> kmalloc_ok H' F' S' ?h4" for H' F' S'
    by (rule cut_free_list [OF h3(2) assms(6) fr assms(9)])
  moreover obtain s' where "tty_destroy t s = Some (E_SUCCESS, s')" "tty_heap s' = ?h4"
    using h1(1) h2(1) h3(1) assms(2,3) by (simp add: tty_destroy_def)
  ultimately show ?thesis by auto
qed

text \<open>A heap with one slab of 32-byte objects, the first three of them allocated.\<close>

lemma map_upt_4: "4 \<le> n \<Longrightarrow> \<exists>y ys. map f [0..<n] = f 0 # f 1 # f 2 # y # ys"
  by (auto simp: upt_conv_Cons numeral_2_eq_2)

lemma slab_objs_32: "\<exists>o0 o1 o2 y ys. slab_objs v 32 = o0 # o1 # o2 # y # ys"
proof -
  have "4 \<le> 65496 div unat (32 :: u32)" by simp
  from map_upt_4 [OF this, of "slab_obj v 32"] obtain y ys
    where "map (slab_obj v 32) [0..<65496 div unat (32 :: u32)] = slab_obj v 32 0 # slab_obj v 32 1 # slab_obj v 32 2 # y # ys"
    by (elim exE)
  then show ?thesis unfolding slab_objs_def by (intro exI)
qed

lemma sample_slab:
  "\<exists>H F S h x o0 o1 o2 y. kmalloc_ok H F S h \<and> x \<in> set (H 2) \<and> {(o0, 32), (o1, 32), (o2, 32)} \<subseteq> allocations H F h \<and>
     distinct [o0, o1, o2] \<and> o0 \<noteq> 0 \<and> o0 \<in> set (slab_objs x 32) \<and> y \<in> set (F x) \<and> o0 < y"
proof -
  let ?h = "kmalloc_init sample_free" and ?c = "slab_caches (kmalloc_init sample_free) ! 2"
  have two: "(2 :: nat) < 13" by simp
  note k = kmalloc_okD [OF sample_tty_heap two]
  obtain v ps where g: "slab_get_pages sample_free = Some (Some v, ps)"
    using kernel_pages.get_returns [OF sample_owns] sample_pages_available by (metis option.exhaust)
  note own = kernel_pages.get_some [OF sample_owns g]
  have pg: "pages (kmem ?h) = sample_free" by (simp add: kmalloc_init_def)
  then have pre: "slab_get_pages (pages (kmem ?h)) = Some (Some v, ps)" using g by simp
  have sz: "object_size ?c = 32" using k(3) by simp
  obtain c s1 where s1: "heap_ok {v} ((\<lambda>_. [])(v := slab_objs v 32)) s1" "cache_ok c ([] @ [v]) {v} s1"
    "object_size c = 32" "pages s1 = ps"
  proof (rule slab_add_cache_frame_ok [where page_get = slab_get_pages and fg = 0, OF k(1,2) pre])
    fix c' s' assume "heap_ok (insert v {}) ((\<lambda>_. [])(v := slab_objs v (object_size ?c))) s'" "cache_ok c' ([] @ [v]) (insert v {}) s'"
      "object_size c' = object_size ?c" "pages s' = ps"
    then show thesis using that [of s' c'] sz by simp
  qed (use own in simp_all)
  obtain o0 o1 o2 y ys where ob: "slab_objs v 32 = o0 # o1 # o2 # y # ys" using slab_objs_32 by blast
  let ?F = "\<lambda>fs. (\<lambda>_. [])(v := fs)"
  have step: "\<exists>s'. heap_ok {v} (?F fs) s' \<and> cache_ok c [v] {v} s' \<and> pages s' = ps"
    if p: "heap_ok {v} (?F (a # fs)) s" "cache_ok c [v] {v} s" "pages s = ps" for a fs s
  proof -
    obtain s' where "heap_ok {v} ((?F (a # fs))(v := fs)) s'" "\<And>z. next_slab (headers s' z) = next_slab (headers s z)"
      "\<And>z. sh_object_size (headers s' z) = sh_object_size (headers s z)" "pages s' = pages s"
      by (rule slab_alloc_from_slab_ok [OF p(1), of v a fs]) simp_all
    then show ?thesis using p(2,3) by (intro exI [of _ s']) (simp add: cache_ok_def)
  qed
  obtain s2 where s2: "heap_ok {v} (?F (y # ys)) s2" "cache_ok c [v] {v} s2" "pages s2 = ps"
  proof -
    have "heap_ok {v} (?F (o0 # o1 # o2 # y # ys)) s1" "cache_ok c [v] {v} s1" using s1(1,2) unfolding ob by simp_all
    from step [OF this s1(4)] obtain sa where "heap_ok {v} (?F (o1 # o2 # y # ys)) sa \<and> cache_ok c [v] {v} sa \<and> pages sa = ps" ..
    then obtain sb where "heap_ok {v} (?F (o2 # y # ys)) sb \<and> cache_ok c [v] {v} sb \<and> pages sb = ps" using step by blast
    then show thesis using step that by blast
  qed
  let ?h2 = "?h\<lparr>slab_caches := (slab_caches ?h)[2 := c], kmem := s2\<rparr>" and ?H = "(\<lambda>_. [])(2 := [v])"
  have "cache_ok (slab_caches ?h2 ! j) (?H j) {v} s2" if "j < 13" for j
    using kmalloc_okD(2,4) [OF sample_tty_heap that] s2(2) kmalloc_okD(4) [OF sample_tty_heap two]
    by (cases "j = 2") (auto simp: cache_ok_def)
  moreover have "object_size (slab_caches ?h2 ! j) = 2 ^ (j + 3)" if "j < 13" for j
    using kmalloc_okD(3,4) [OF sample_tty_heap that] s1(3) by (cases "j = 2") auto
  ultimately have ok: "kmalloc_ok ?H (?F (y # ys)) {v} ?h2"
    using s2 own k(4) unfolding kmalloc_ok_def by auto
  have "slab_place v" "0 < unat (32 :: u32)" using own by simp_all
  from slab_objs_sorted [OF this] have so: "sorted_wrt (<) (o0 # o1 # o2 # y # ys)" unfolding ob .
  have "o0 \<noteq> 0" using slab_obj_bytes(4) [of v o0 32] own ob by simp
  have dj: "o0 \<notin> set (y # ys)" "o1 \<notin> set (y # ys)" "o2 \<notin> set (y # ys)" using sorted_less_distinct [OF so] by auto
  have "(r, 32) \<in> allocations ?H (?F (y # ys)) ?h2" if "r \<in> {o0, o1, o2}" for r
    using free_object [OF ok, of v r] that dj ob by auto
  then have al: "{(o0, 32), (o1, 32), (o2, 32)} \<subseteq> allocations ?H (?F (y # ys)) ?h2" by blast
  have "distinct [o0, o1, o2]" "o0 \<in> set (slab_objs v 32)" "o0 < y" using sorted_less_distinct [OF so] so ob by auto
  moreover have "v \<in> set (?H 2)" "y \<in> set (?F (y # ys) v)" by simp_all
  ultimately show ?thesis using ok al \<open>o0 \<noteq> 0\<close> by (intro exI conjI)
qed

theorem tty_destroy_breaks_heap_witness:
  "\<exists>s t s'. tty_destroy t s = Some (E_SUCCESS, s') \<and> (\<forall>H F S. \<not> kmalloc_ok H F S (tty_heap s'))"
proof -
  obtain H F S h x t i out y where
    w: "kmalloc_ok H F S h \<and> x \<in> set (H 2) \<and> {(t, 32), (i, 32), (out, 32)} \<subseteq> allocations H F h \<and>
     distinct [t, i, out] \<and> t \<noteq> 0 \<and> t \<in> set (slab_objs x 32) \<and> y \<in> set (F x) \<and> t < y"
    using sample_slab by (elim exE)
  let ?d = "zero_tty\<lparr>input_buffer := i, output_buffer := out\<rparr>"
  let ?s = "sample_ttys\<lparr>tty_heap := h, ttys := (\<lambda>a. ?d)\<rparr>"
  have "\<exists>s'. tty_destroy t ?s = Some (E_SUCCESS, s') \<and> (\<forall>H F S. \<not> kmalloc_ok H F S (tty_heap s'))"
    by (rule tty_destroy_breaks_heap [where d = ?d and n = 32 and x = x and y = y and H = H and F = F and S = S]) (use w in simp_all)
  then show ?thesis by blast
qed

end
