(* ===== verification/Vfs.thy ===== *)
theory Vfs
  imports Kmalloc KString_Props
begin

text \<open>
  The virtual file system as far as the source has it: the registry of file system types
  (\<^verbatim>\<open>kernel/fs/vfs/fs_type.c\<close>), super blocks (\<^verbatim>\<open>super.c\<close>), the test file system
  (\<^verbatim>\<open>kernel/fs/testfs/super.c\<close>) and the mounting of the root (\<^verbatim>\<open>root.c\<close>). Structs live in typed
  stores by address, names in byte memory. The function pointer \<^verbatim>\<open>super_alloc\<close> is a constructor: the
  only function ever stored there, or NULL. \<^verbatim>\<open>super_dealloc\<close> is never called and is a plain pointer.
\<close>

section \<open>State\<close>

datatype alloc_fn = Null_Fn | Testfs_Super_Alloc

record file_system_type =
  fs_name :: u32
  fs_flags :: u32
  fs_super_alloc :: alloc_fn
  fs_super_dealloc :: u32

record inode =
  i_mode :: u32
  i_ops :: u32
  i_sb :: u32

record super_block =
  sb_flags :: u32
  sb_root_inode :: inode
  sb_fs_type :: u32
  sb_ops :: u32

text \<open>The list nodes: the two heads, and the node embedded in the struct at an address.\<close>

datatype fsnode = FsHead | FsEntry u32
datatype sbnode = SbHead | SbNode u32

record vfs_state =
  fs_nodes :: "fsnode list_heap"
  fs_list_lock :: bool
  fs_types :: "u32 \<Rightarrow> file_system_type"
  sb_nodes :: "sbnode list_heap"
  super_blocks :: "u32 \<Rightarrow> super_block"
  root_sb :: u32
  vfs_heap :: kmalloc_state
  vfs_mem :: mem

definition SIZEOF_SUPER_BLOCK :: u32 where [rotary_const]: "SIZEOF_SUPER_BLOCK = 32"

section \<open>File system types\<close>

definition file_system_type_register :: "u32 \<Rightarrow> vfs_state \<Rightarrow> vfs_state option" where
  "file_system_type_register fs_type s = do {
     l \<leftarrow> lock (fs_list_lock s);
     h \<leftarrow> clist_add (Some FsHead) (Some (FsEntry fs_type)) (fs_nodes s);
     Some (s\<lparr>fs_nodes := h, fs_list_lock := unlock l\<rparr>)
   }"

partial_function (option) fs_unlink :: "u32 \<Rightarrow> fsnode option \<Rightarrow> vfs_state \<Rightarrow> vfs_state option" where
  "fs_unlink fs_type entry s = do {
     n \<leftarrow> entry;
     (case n of
        FsHead \<Rightarrow> Some s
      | FsEntry curr_entry \<Rightarrow> do {
          r \<leftarrow> strcmp (vfs_mem s) (fs_name (fs_types s curr_entry)) (fs_name (fs_types s fs_type));
          s1 \<leftarrow> (if r = 0 then do {
                   h \<leftarrow> clist_delete_node (Some n) (fs_nodes s);
                   Some (s\<lparr>fs_nodes := h\<rparr>)
                 } else Some s);
          fs_unlink fs_type (next_node (fs_nodes s1 n)) s1
        })
   }"

definition file_system_type_unregister :: "u32 \<Rightarrow> vfs_state \<Rightarrow> vfs_state option" where
  "file_system_type_unregister fs_type s = do {
     l \<leftarrow> lock (fs_list_lock s);
     s1 \<leftarrow> fs_unlink fs_type (next_node (fs_nodes s FsHead)) (s\<lparr>fs_list_lock := l\<rparr>);
     Some (s1\<lparr>fs_list_lock := unlock (fs_list_lock s1)\<rparr>)
   }"

partial_function (option) fs_find :: "u32 \<Rightarrow> fsnode option \<Rightarrow> vfs_state \<Rightarrow> u32 option" where
  "fs_find name entry s = do {
     n \<leftarrow> entry;
     (case n of
        FsHead \<Rightarrow> Some 0
      | FsEntry curr_entry \<Rightarrow> do {
          r \<leftarrow> strcmp (vfs_mem s) (fs_name (fs_types s curr_entry)) name;
          (if r = 0 then Some curr_entry else fs_find name (next_node (fs_nodes s n)) s)
        })
   }"

definition file_system_type_get :: "u32 \<Rightarrow> vfs_state \<Rightarrow> (u32 \<times> vfs_state) option" where
  "file_system_type_get name s = do {
     l \<leftarrow> lock (fs_list_lock s);
     let s1 = s\<lparr>fs_list_lock := l\<rparr>;
     r \<leftarrow> fs_find name (next_node (fs_nodes s1 FsHead)) s1;
     Some (r, s1\<lparr>fs_list_lock := unlock l\<rparr>)
   }"

section \<open>Super blocks\<close>

definition super_block_init :: "u32 \<Rightarrow> vfs_state \<Rightarrow> vfs_state" where
  "super_block_init sb s =
     s\<lparr>super_blocks := (super_blocks s)(sb := \<lparr>sb_flags = 0, sb_root_inode = \<lparr>i_mode = 0, i_ops = 0, i_sb = 0\<rparr>,
         sb_fs_type = 0, sb_ops = 0\<rparr>),
       sb_nodes := llist_init (Some (SbNode sb)) (sb_nodes s)\<rparr>"

definition super_block_alloc :: "u32 \<Rightarrow> vfs_state \<Rightarrow> (u32 \<times> vfs_state) option" where
  "super_block_alloc fs s = do {
     (sb, h) \<leftarrow> kmalloc SIZEOF_SUPER_BLOCK (vfs_heap s);
     let s1 = s\<lparr>vfs_heap := h\<rparr>;
     (if sb = 0 then Some (0, s1)
      else do {
        let s2 = super_block_init sb s1;
        Some (sb, s2\<lparr>super_blocks := (super_blocks s2)(sb := (super_blocks s2 sb)\<lparr>sb_fs_type := fs\<rparr>)\<rparr>)
      })
   }"

definition super_block_register :: "u32 \<Rightarrow> vfs_state \<Rightarrow> vfs_state option" where
  "super_block_register sb s = do {
     h \<leftarrow> llist_add (Some SbHead) (Some (SbNode sb)) (sb_nodes s);
     Some (s\<lparr>sb_nodes := h\<rparr>)
   }"

section \<open>The test file system and the root\<close>

text \<open>\<open>testfs_type\<close> is the address of the static struct of that name.\<close>

definition testfs_init :: "u32 \<Rightarrow> vfs_state \<Rightarrow> vfs_state option" where
  "testfs_init testfs_type s = file_system_type_register testfs_type s"

definition testfs_super_alloc :: "u32 \<Rightarrow> vfs_state \<Rightarrow> (u32 \<times> vfs_state) option" where
  "testfs_super_alloc testfs_type s = super_block_alloc testfs_type s"

definition call_super_alloc :: "u32 \<Rightarrow> alloc_fn \<Rightarrow> vfs_state \<Rightarrow> (u32 \<times> vfs_state) option" where
  "call_super_alloc testfs_type f s =
     (case f of Null_Fn \<Rightarrow> None | Testfs_Super_Alloc \<Rightarrow> testfs_super_alloc testfs_type s)"

text \<open>\<open>name\<close> is the address of the string literal \<^verbatim>\<open>"testfs"\<close> in \<^verbatim>\<open>root.c\<close>.\<close>

definition mount_root_testing :: "u32 \<Rightarrow> u32 \<Rightarrow> vfs_state \<Rightarrow> vfs_state outcome option" where
  "mount_root_testing testfs_type name s = do {
     s1 \<leftarrow> testfs_init testfs_type s;
     (fs, s2) \<leftarrow> file_system_type_get name s1;
     (if fs = 0 then Some Panic
      else do {
        (sb, s3) \<leftarrow> call_super_alloc testfs_type (fs_super_alloc (fs_types s2 fs)) s2;
        (if sb = 0 then Some Panic else Some (Returned (s3\<lparr>root_sb := sb\<rparr>)))
      })
   }"

section \<open>The registry as a list\<close>

text \<open>
  \<open>registry s xs names\<close>: the registered types are those at the addresses \<open>xs\<close>, in order, with the
  names \<open>names\<close>, and the lock is free.
\<close>

definition registry :: "vfs_state \<Rightarrow> u32 list \<Rightarrow> (u32 \<Rightarrow> u8 list) \<Rightarrow> bool" where
  "registry s xs names \<longleftrightarrow> clist (fs_nodes s) FsHead (map FsEntry xs) \<and> \<not> fs_list_lock s \<and> 0 \<notin> set xs \<and>
     (\<forall>x\<in>set xs. cstr (vfs_mem s) (fs_name (fs_types s x)) (names x))"

lemma fs_find_chain:
  assumes "chain (fs_nodes s) a (map FsEntry xs) FsHead"
    and "\<forall>x\<in>set xs. cstr (vfs_mem s) (fs_name (fs_types s x)) (names x)" and "cstr (vfs_mem s) name nm"
  shows "fs_find name (next_node (fs_nodes s a)) s = Some (case find (\<lambda>x. names x = nm) xs of None \<Rightarrow> 0 | Some x \<Rightarrow> x)"
  using assms(1,2)
proof (induction xs arbitrary: a)
  case Nil
  then show ?case by (subst fs_find.simps) simp
next
  case (Cons x xs)
  have "cstr (vfs_mem s) (fs_name (fs_types s x)) (names x)" using Cons.prems(2) by simp
  from strcmp_run [OF this assms(3)] obtain r where
    r: "strcmp (vfs_mem s) (fs_name (fs_types s x)) name = Some r" "r = 0 \<longleftrightarrow> names x = nm" by blast
  have "fs_find name (next_node (fs_nodes s (FsEntry x))) s = Some (case find (\<lambda>x. names x = nm) xs of None \<Rightarrow> 0 | Some x \<Rightarrow> x)"
    using Cons.prems by (intro Cons.IH) auto
  then show ?case using Cons.prems(1) r by (subst fs_find.simps) simp
qed

lemma file_system_type_get_run:
  assumes "registry s xs names" and "cstr (vfs_mem s) name nm"
  shows "file_system_type_get name s = Some (case find (\<lambda>x. names x = nm) xs of None \<Rightarrow> 0 | Some x \<Rightarrow> x, s)"
proof -
  have "fs_find name (next_node (fs_nodes s FsHead)) (s\<lparr>fs_list_lock := True\<rparr>) =
      Some (case find (\<lambda>x. names x = nm) xs of None \<Rightarrow> 0 | Some x \<Rightarrow> x)"
    using fs_find_chain [of "s\<lparr>fs_list_lock := True\<rparr>" FsHead xs names name nm] assms by (simp add: registry_def clist_def)
  moreover have "s\<lparr>fs_list_lock := False\<rparr> = s" using assms(1) by (simp add: registry_def)
  ultimately show ?thesis using assms(1) by (simp add: file_system_type_get_def registry_def lock_def unlock_def)
qed

lemma register_run:
  assumes "registry s xs names" and "x \<notin> set xs" "x \<noteq> 0" and "cstr (vfs_mem s) (fs_name (fs_types s x)) (names x)"
  shows "\<exists>h. file_system_type_register x s = Some (s\<lparr>fs_nodes := h\<rparr>) \<and> registry (s\<lparr>fs_nodes := h\<rparr>) (x # xs) names"
proof -
  have c: "clist (fs_nodes s) FsHead (map FsEntry xs)" and l: "fs_list_lock s = False"
    using assms(1) by (simp_all add: registry_def)
  have "FsEntry x \<notin> insert FsHead (set (map FsEntry xs))" using assms(2) by auto
  from clist_add_correct [OF c this] obtain h where
    h: "clist_add (Some FsHead) (Some (FsEntry x)) (fs_nodes s) = Some h" "clist h FsHead (map FsEntry (x # xs))"
    by (metis list.simps(9))
  have "s\<lparr>fs_nodes := h, fs_list_lock := False\<rparr> = s\<lparr>fs_nodes := h\<rparr>" using l by simp
  then have "file_system_type_register x s = Some (s\<lparr>fs_nodes := h\<rparr>)"
    using l h(1) by (simp add: file_system_type_register_def)
  moreover have "registry (s\<lparr>fs_nodes := h\<rparr>) (x # xs) names" using assms h(2) by (simp add: registry_def)
  ultimately show ?thesis by blast
qed

text \<open>The loop of \<^verbatim>\<open>file_system_type_unregister\<close>, with \<open>ys\<close> visited and kept and \<open>xs\<close> to come.\<close>

lemma fs_unlink_run:
  assumes "clist (fs_nodes s) FsHead (map FsEntry (ys @ xs))"
    and "\<forall>x\<in>set xs. cstr (vfs_mem s) (fs_name (fs_types s x)) (names x)" and "cstr (vfs_mem s) (fs_name (fs_types s a)) nm"
    and "entry = Some (hd (map FsEntry xs @ [FsHead]))"
  shows "\<exists>h. fs_unlink a entry s = Some (s\<lparr>fs_nodes := h\<rparr>) \<and>
    clist h FsHead (map FsEntry (ys @ filter (\<lambda>x. names x \<noteq> nm) xs))"
  using assms
proof (induction xs arbitrary: ys s entry)
  case Nil
  then show ?case by (subst fs_unlink.simps) (auto intro: exI [of _ "fs_nodes s"])
next
  case (Cons x xs)
  have "cstr (vfs_mem s) (fs_name (fs_types s x)) (names x)" using Cons.prems(2) by simp
  from strcmp_run [OF this Cons.prems(3)] obtain r where
    r: "strcmp (vfs_mem s) (fs_name (fs_types s x)) (fs_name (fs_types s a)) = Some r" "r = 0 \<longleftrightarrow> names x = nm" by blast
  have c: "clist (fs_nodes s) FsHead (map FsEntry ys @ FsEntry x # map FsEntry xs)" using Cons.prems(1) by simp
  then have "chain (fs_nodes s) (FsEntry x) (map FsEntry xs) FsHead" by (simp add: clist_def chain_append)
  note nx = chain_first [OF this]
  show ?case
  proof (cases "names x = nm")
    case True
    from clist_delete_correct [OF c] obtain h where
      h: "clist_delete_node (Some (FsEntry x)) (fs_nodes s) = Some h" "clist h FsHead (map FsEntry ys @ map FsEntry xs)"
      "\<And>n. n \<notin> insert FsHead (set (map FsEntry ys) \<union> set (map FsEntry xs)) \<Longrightarrow> h n = fs_nodes s n" by blast
    have "FsEntry x \<notin> insert FsHead (set (map FsEntry ys) \<union> set (map FsEntry xs))" using c by (auto simp: clist_def)
    from h(3) [OF this] nx have "next_node (h (FsEntry x)) = Some (hd (map FsEntry xs @ [FsHead]))" by simp
    from Cons.IH [of "s\<lparr>fs_nodes := h\<rparr>" ys, OF _ _ _ this] Cons.prems h(2) obtain h' where
      "fs_unlink a (next_node (h (FsEntry x))) (s\<lparr>fs_nodes := h\<rparr>) = Some (s\<lparr>fs_nodes := h'\<rparr>)"
      "clist h' FsHead (map FsEntry (ys @ filter (\<lambda>x. names x \<noteq> nm) xs))" by auto
    then show ?thesis using Cons.prems(4) r h(1) True by (subst fs_unlink.simps) auto
  next
    case False
    from Cons.IH [of s "ys @ [x]", OF _ _ _ nx] Cons.prems obtain h' where
      "fs_unlink a (next_node (fs_nodes s (FsEntry x))) s = Some (s\<lparr>fs_nodes := h'\<rparr>)"
      "clist h' FsHead (map FsEntry ((ys @ [x]) @ filter (\<lambda>x. names x \<noteq> nm) xs))" by auto
    then show ?thesis using Cons.prems(4) r False by (subst fs_unlink.simps) auto
  qed
qed

lemma unregister_run:
  assumes "registry s xs names" and "cstr (vfs_mem s) (fs_name (fs_types s a)) nm"
  shows "\<exists>h. file_system_type_unregister a s = Some (s\<lparr>fs_nodes := h\<rparr>) \<and>
    registry (s\<lparr>fs_nodes := h\<rparr>) (filter (\<lambda>x. names x \<noteq> nm) xs) names"
proof -
  let ?s = "s\<lparr>fs_list_lock := True\<rparr>"
  have c: "clist (fs_nodes s) FsHead (map FsEntry xs)" and l: "fs_list_lock s = False"
    using assms(1) by (simp_all add: registry_def)
  have "next_node (fs_nodes s FsHead) = Some (hd (map FsEntry xs @ [FsHead]))"
    using c by (intro chain_first) (simp add: clist_def)
  from fs_unlink_run [of ?s "[]" xs names a nm, OF _ _ _ this] obtain h where
    h: "fs_unlink a (next_node (fs_nodes s FsHead)) ?s = Some (?s\<lparr>fs_nodes := h\<rparr>)"
    "clist h FsHead (map FsEntry (filter (\<lambda>x. names x \<noteq> nm) xs))"
    using assms c by (auto simp: registry_def)
  have "s\<lparr>fs_nodes := h, fs_list_lock := False\<rparr> = s\<lparr>fs_nodes := h\<rparr>" using l by simp
  then have "file_system_type_unregister a s = Some (s\<lparr>fs_nodes := h\<rparr>)"
    using l h(1) by (simp add: file_system_type_unregister_def)
  moreover have "registry (s\<lparr>fs_nodes := h\<rparr>) (filter (\<lambda>x. names x \<noteq> nm) xs) names"
    using assms(1) h(2) by (auto simp: registry_def)
  ultimately show ?thesis by blast
qed

section \<open>The contract of a registry\<close>

text \<open>
  What clients rely on: a registry is a list of entries with names; registering puts an entry in
  front, unregistering takes out every entry of the same name, and a look-up finds the first
  entry of a name or gives \<open>none\<close>.
\<close>

locale name_registry =
  fixes entries :: "'s \<Rightarrow> 'a list \<Rightarrow> bool"
    and known :: "'a set"
    and name_of :: "'a \<Rightarrow> 'n"
    and denotes :: "'s \<Rightarrow> 'k \<Rightarrow> 'n \<Rightarrow> bool"
    and none :: 'a
    and add :: "'a \<Rightarrow> 's \<Rightarrow> 's option"
    and remove :: "'a \<Rightarrow> 's \<Rightarrow> 's option"
    and get :: "'k \<Rightarrow> 's \<Rightarrow> ('a \<times> 's) option"
  assumes add_law: "entries s xs \<Longrightarrow> a \<in> known \<Longrightarrow> a \<notin> set xs \<Longrightarrow>
      \<exists>s'. add a s = Some s' \<and> entries s' (a # xs) \<and> (\<forall>k n. denotes s' k n \<longleftrightarrow> denotes s k n)"
    and remove_law: "entries s xs \<Longrightarrow> a \<in> known \<Longrightarrow>
      \<exists>s'. remove a s = Some s' \<and> entries s' (filter (\<lambda>x. name_of x \<noteq> name_of a) xs) \<and> (\<forall>k n. denotes s' k n \<longleftrightarrow> denotes s k n)"
    and get_law: "entries s xs \<Longrightarrow> denotes s k n \<Longrightarrow>
      get k s = Some (case find (\<lambda>x. name_of x = n) xs of None \<Rightarrow> none | Some x \<Rightarrow> x, s)"
begin

lemma get_after_add:
  assumes "entries s xs" "a \<in> known" "a \<notin> set xs" "denotes s k n"
  shows "\<exists>s'. add a s = Some s' \<and> entries s' (a # xs) \<and>
    get k s' = (if n = name_of a then Some (a, s') else map_option (\<lambda>(x, _). (x, s')) (get k s))"
  using add_law [OF assms(1-3)] get_law [OF assms(1,4)] get_law assms(4) by fastforce

lemma find_filter_other: "n \<noteq> name_of a \<Longrightarrow> find (\<lambda>x. name_of x = n) (filter (\<lambda>x. name_of x \<noteq> name_of a) xs) = find (\<lambda>x. name_of x = n) xs"
  by (induction xs) auto

lemma find_filter_same: "find (\<lambda>x. name_of x = name_of a) (filter (\<lambda>x. name_of x \<noteq> name_of a) xs) = None"
  by (induction xs) auto

lemma get_after_remove:
  assumes "entries s xs" "a \<in> known" "denotes s k n"
  shows "\<exists>s'. remove a s = Some s' \<and> entries s' (filter (\<lambda>x. name_of x \<noteq> name_of a) xs) \<and>
    get k s' = (if n = name_of a then Some (none, s') else map_option (\<lambda>(x, _). (x, s')) (get k s))"
proof -
  from remove_law [OF assms(1,2)] obtain s' where s': "remove a s = Some s'"
    "entries s' (filter (\<lambda>x. name_of x \<noteq> name_of a) xs)" "denotes s' k n" using assms(3) by auto
  then show ?thesis using get_law [OF s'(2,3)] get_law [OF assms(1,3)]
    by (cases "n = name_of a") (auto simp: find_filter_other find_filter_same)
qed

end

text \<open>The kernel's registry meets the contract, for every set of structs with names in memory.\<close>

definition fs_entries :: "u32 set \<Rightarrow> (u32 \<Rightarrow> u8 list) \<Rightarrow> vfs_state \<Rightarrow> u32 list \<Rightarrow> bool" where
  "fs_entries known names s xs \<longleftrightarrow> registry s xs names \<and> 0 \<notin> known \<and>
     (\<forall>x\<in>known. cstr (vfs_mem s) (fs_name (fs_types s x)) (names x))"

interpretation fs: name_registry "fs_entries known names" known names "\<lambda>s. cstr (vfs_mem s)" 0
  file_system_type_register file_system_type_unregister file_system_type_get
  for known names
proof (unfold_locales, goal_cases)
  case (1 s xs a)
  then show ?case using register_run [of s xs names a] by (fastforce simp: fs_entries_def)
next
  case (2 s xs a)
  then show ?case using unregister_run [of s xs names a "names a"] by (fastforce simp: fs_entries_def)
next
  case (3 s xs k n)
  then show ?case using file_system_type_get_run [of s xs names k n] by (simp add: fs_entries_def)
qed

section \<open>Properties\<close>

text \<open>
  Registering a file system type and looking names up: afterwards the name of the type is found, and
  gives this type, even when another of that name was registered before; every other name is
  answered as before, and the registry stays well formed with its lock free.
\<close>

lemma file_system_type_register_found:
  assumes "fs_entries known names s xs" "a \<in> known" "a \<notin> set xs" "cstr (vfs_mem s) k n"
  shows "\<exists>s'. file_system_type_register a s = Some s' \<and> fs_entries known names s' (a # xs) \<and>
    file_system_type_get k s' = (if n = names a then Some (a, s') else map_option (\<lambda>(x, _). (x, s')) (file_system_type_get k s))"
  by (rule fs.get_after_add [OF assms])

text \<open>
  Unregistering a file system type takes every type of its name out of the registry, although the
  loop deletes nodes while it walks the list: the name is no longer found, every other name
  is answered as before, and the registry stays well formed with its lock free.
\<close>

lemma file_system_type_unregister_gone:
  assumes "fs_entries known names s xs" "a \<in> known" "cstr (vfs_mem s) k n"
  shows "\<exists>s'. file_system_type_unregister a s = Some s' \<and>
    fs_entries known names s' (filter (\<lambda>x. names x \<noteq> names a) xs) \<and>
    file_system_type_get k s' = (if n = names a then Some (0, s') else map_option (\<lambda>(x, _). (x, s')) (file_system_type_get k s))"
  by (rule fs.get_after_remove [OF assms])

text \<open>A registry with one type, and memory with its name and another.\<close>

definition sample_vfs :: vfs_state where
  "sample_vfs = \<lparr>fs_nodes = clist_init (Some FsHead) (\<lambda>n. \<lparr>next_node = None, prev_node = None\<rparr>), fs_list_lock = False,
     fs_types = (\<lambda>a. \<lparr>fs_name = 0x1000, fs_flags = 0, fs_super_alloc = Testfs_Super_Alloc, fs_super_dealloc = 0\<rparr>),
     sb_nodes = clist_init (Some SbHead) (\<lambda>n. \<lparr>next_node = None, prev_node = None\<rparr>),
     super_blocks = (\<lambda>a. \<lparr>sb_flags = 0, sb_root_inode = \<lparr>i_mode = 0, i_ops = 0, i_sb = 0\<rparr>, sb_fs_type = 0, sb_ops = 0\<rparr>),
     root_sb = 0, vfs_heap = kmalloc_init sample_free,
     vfs_mem = store (\<lambda>a. 0) 0x1000 [116, 101, 115, 116, 102, 115, 0]\<rparr>"

definition testfs_name :: "u8 list" where
  "testfs_name = [116, 101, 115, 116, 102, 115]"

lemma sample_vfs_name: "cstr (vfs_mem sample_vfs) 0x1000 testfs_name"
  using cstr_store [of testfs_name "\<lambda>a. 0" "0x1000"] by (simp add: sample_vfs_def testfs_name_def)

lemma sample_vfs_entries: "fs_entries {0x5000} (\<lambda>x. testfs_name) sample_vfs []"
  using sample_vfs_name clist_init_clist by (auto simp: fs_entries_def registry_def) (simp_all add: sample_vfs_def clist_init_clist)

lemma file_system_type_register_found_witness:
  "\<exists>s'. file_system_type_register 0x5000 sample_vfs = Some s' \<and> file_system_type_get 0x1000 s' = Some (0x5000, s')"
  using file_system_type_register_found [OF sample_vfs_entries _ _ sample_vfs_name, of "0x5000"] by auto

lemma file_system_type_unregister_gone_witness:
  "\<exists>s'. file_system_type_unregister 0x5000 sample_vfs = Some s' \<and> file_system_type_get 0x1000 s' = Some (0, s')"
  using file_system_type_unregister_gone [OF sample_vfs_entries _ sample_vfs_name, of "0x5000"] by auto

text \<open>
  Mounting the root: with the test file system not yet registered and its name not taken,
  \<^verbatim>\<open>mount_root_testing\<close> either ends in a panic because the page allocator has no pages for a slab
  (and nothing was allocated), or sets the root to a new super block of the test file system, a live
  allocation of 32 bytes that overlaps no other.
\<close>

lemma mount_root_testing_outcomes:
  assumes "fs_entries known names s xs" "tf \<in> known" "tf \<notin> set xs" "cstr (vfs_mem s) name (names tf)"
    and "fs_super_alloc (fs_types s tf) = Testfs_Super_Alloc" and "kmalloc_ok H F S (vfs_heap s)"
  shows "(mount_root_testing tf name s = Some Panic \<and> (\<exists>ps. slab_get_pages (pages (kmem (vfs_heap s))) = Some (None, ps))) \<or>
    (\<exists>s' H' F' S'. mount_root_testing tf name s = Some (Returned s') \<and> fs_entries known names s' (tf # xs) \<and>
       sb_fs_type (super_blocks s' (root_sb s')) = tf \<and> kmalloc_ok H' F' S' (vfs_heap s') \<and> root_sb s' \<noteq> 0 \<and>
       allocations H' F' (vfs_heap s') = insert (root_sb s', 32) (allocations H F (vfs_heap s)) \<and>
       (\<forall>a\<in>allocations H F (vfs_heap s). bytes_of (root_sb s', 32) \<inter> bytes_of a = {}))"
proof -
  have "cstr (vfs_mem s) (fs_name (fs_types s tf)) (names tf)" and "registry s xs names" and "tf \<noteq> 0"
    using assms(1,2) by (auto simp: fs_entries_def)
  from register_run [OF this(2) assms(3) this(3) this(1)] obtain h where
    h: "file_system_type_register tf s = Some (s\<lparr>fs_nodes := h\<rparr>)" "registry (s\<lparr>fs_nodes := h\<rparr>) (tf # xs) names" by blast
  let ?s = "s\<lparr>fs_nodes := h\<rparr>"
  have get: "file_system_type_get name ?s = Some (tf, ?s)"
    using file_system_type_get_run [OF h(2), of name "names tf"] assms(4) by simp
  have sz: "unat SIZEOF_SUPER_BLOCK = 2 ^ (2 + 3)" "unat SIZEOF_SUPER_BLOCK = 32" by (simp_all add: rotary_const)
  from kmalloc_exact [OF assms(6) sz(1)] obtain r k H' F' S' where
    k: "kmalloc SIZEOF_SUPER_BLOCK (vfs_heap s) = Some (r, k)" "kmalloc_ok H' F' S' k" and
    res: "if r = 0 then allocations H' F' k = allocations H F (vfs_heap s) \<and>
         (\<exists>ps. slab_get_pages (pages (kmem (vfs_heap s))) = Some (None, ps))
       else allocations H' F' k = insert (r, 32) (allocations H F (vfs_heap s)) \<and>
         (\<forall>a\<in>allocations H F (vfs_heap s). bytes_of (r, 32) \<inter> bytes_of a = {})" unfolding sz(2) by auto
  show ?thesis
  proof (cases "r = 0")
    case True
    then have "mount_root_testing tf name s = Some Panic"
      using h(1) get k(1) assms(5) \<open>tf \<noteq> 0\<close>
      by (simp add: mount_root_testing_def testfs_init_def call_super_alloc_def testfs_super_alloc_def super_block_alloc_def)
    then show ?thesis using res True by simp
  next
    case False
    let ?t = "super_block_init r (?s\<lparr>vfs_heap := k\<rparr>)"
    let ?u = "?t\<lparr>super_blocks := (super_blocks ?t)(r := (super_blocks ?t r)\<lparr>sb_fs_type := tf\<rparr>), root_sb := r\<rparr>"
    have "mount_root_testing tf name s = Some (Returned ?u)"
      using h(1) get k(1) assms(5) \<open>tf \<noteq> 0\<close> False
      by (simp add: mount_root_testing_def testfs_init_def call_super_alloc_def testfs_super_alloc_def super_block_alloc_def Let_def)
    moreover have "fs_entries known names ?u (tf # xs)"
      using h(2) assms(1) by (simp add: fs_entries_def registry_def super_block_init_def)
    moreover have "vfs_heap ?u = k" "root_sb ?u = r" "sb_fs_type (super_blocks ?u (root_sb ?u)) = tf"
      by (simp_all add: super_block_init_def)
    ultimately show ?thesis using res False k(2) by (intro disjI2 exI [of _ ?u] exI [of _ H'] exI [of _ F'] exI [of _ S']) simp
  qed
qed

lemma mount_root_testing_outcomes_witness:
  "\<exists>s'. mount_root_testing 0x5000 0x1000 sample_vfs = Some (Returned s') \<and> sb_fs_type (super_blocks s' (root_sb s')) = 0x5000"
proof -
  have "kmalloc_ok (\<lambda>_. []) (\<lambda>_. []) {} (vfs_heap sample_vfs)" using kmalloc_init_ok [OF sample_owns] by (simp add: sample_vfs_def)
  moreover have "fs_super_alloc (fs_types sample_vfs 0x5000) = Testfs_Super_Alloc" by (simp add: sample_vfs_def)
  moreover have "\<nexists>ps. slab_get_pages (pages (kmem (vfs_heap sample_vfs))) = Some (None, ps)"
    using sample_pages_available by (simp add: sample_vfs_def kmalloc_init_def)
  ultimately show ?thesis
    using mount_root_testing_outcomes [OF sample_vfs_entries, of "0x5000" "0x1000" "\<lambda>_. []" "\<lambda>_. []" "{}"] sample_vfs_name
    by auto
qed

end
