(* ===== verification/Init.thy ===== *)
theory Init
  imports Boot Interrupts_Props Gdt Tty Vfs Vga Serial
begin

text \<open>
  The start-up of the kernel, \<^verbatim>\<open>arch_init\<close> of \<^verbatim>\<open>arch/x86/kernel/init.c\<close>: screen and serial port, memory (\<^theory_text>\<open>Boot\<close>),
  descriptor tables, interrupt controller, timer and keyboard, then the scheduler, the terminals,
  the root file system and the shell task. Each component keeps its state in its own record; the
  heap is handed from one to the next in the order of the calls. Progress messages are not
  modelled. Addresses fixed by the linker are a record.
\<close>

section \<open>State\<close>

record kernel_layout =
  l_image :: kernel_image
  l_kernel_pgd :: u32
  l_cpu0 :: u32
  l_tss :: u32
  l_cpu_self :: u32
  l_gdt_entries :: u32
  l_idt :: u32
  l_isr :: "u32 \<Rightarrow> u32"
  l_isr_exit :: u32
  l_stack_bottom :: u32
  l_idle_name :: u32
  l_testfs_type :: u32
  l_testfs_name :: u32
  l_shell_name :: u32
  l_shell_init :: u32
  l_banner :: u32

record kernel =
  k_vga :: vga_state_t
  k_serial :: serial_state
  k_paging :: paging_state
  k_cpu :: cpu_info
  k_machine :: machine
  k_ttys :: tty_state
  k_vfs :: vfs_state

definition PIC_MASTER_OFFSET :: u8 where [rotary_const]: "PIC_MASTER_OFFSET = 32"
definition PIC_SLAVE_OFFSET :: u8 where [rotary_const]: "PIC_SLAVE_OFFSET = 40"

definition k_sched :: "kernel \<Rightarrow> sched_state" where
  "k_sched K = sched (k_machine K)"

definition put_sched :: "sched_state \<Rightarrow> kernel \<Rightarrow> kernel" where
  "put_sched s K = K\<lparr>k_machine := (k_machine K)\<lparr>sched := s\<rparr>\<rparr>"

text \<open>The heap and the word memory are those of the address spaces.\<close>

definition k_heap :: "kernel \<Rightarrow> kmalloc_state" where
  "k_heap K = heap (vm (k_sched K))"

definition put_heap :: "kmalloc_state \<Rightarrow> kernel \<Rightarrow> kernel" where
  "put_heap h K = put_sched ((k_sched K)\<lparr>vm := (vm (k_sched K))\<lparr>heap := h\<rparr>\<rparr>) K"

definition put_memory :: "paging_state \<Rightarrow> buddy_allocator \<Rightarrow> kernel \<Rightarrow> kernel" where
  "put_memory pg fr K =
     (let s = k_sched K
      in put_sched (s\<lparr>vm := (vm s)\<lparr>heap := set_frames fr (heap (vm s)), vm_words := pg_words pg\<rparr>,
           regs := (regs s)\<lparr>r_cr3 := pg_cr3 pg\<rparr>\<rparr>) (K\<lparr>k_paging := pg\<rparr>))"

section \<open>The sequence\<close>

definition init_output :: "kernel_layout \<Rightarrow> (nat \<Rightarrow> u16 \<Rightarrow> u8) \<Rightarrow> kernel \<Rightarrow> (i32 \<times> kernel) option" where
  "init_output L dev K = do {
     let v = vga_set_cursor 0 23 (vga_clear_screen VGA_COLOUR_BLACK (k_vga K));
     let (r, se) = serial_init dev (k_serial K);
     let K1 = K\<lparr>k_vga := v, k_serial := se\<rparr>;
     (if \<not> SUCCESS r then Some (E_ERROR, K1)
      else do {
        (_, se1) \<leftarrow> serial_write_line dev (vmem v) (serial_get_debug_port se) (l_banner L) se;
        Some (E_SUCCESS, K1\<lparr>k_serial := se1\<rparr>)
      })
   }"

definition init_devices :: "kernel_layout \<Rightarrow> kernel \<Rightarrow> (i32 \<times> kernel) option" where
  "init_devices L K = do {
     let (r1, cpu) = cpu_init (l_cpu0 L) (l_tss L) (l_cpu_self L) (l_gdt_entries L) (k_cpu K);
     let K1 = K\<lparr>k_cpu := cpu\<rparr>;
     (if \<not> SUCCESS r1 then Some (E_ERROR, K1)
      else do {
        (r2, m2) \<leftarrow> idt_init (l_isr L) (k_machine K1);
        (if \<not> SUCCESS r2 then Some (E_ERROR, K1\<lparr>k_machine := m2\<rparr>)
         else do {
           let (r3, m3) = idt_load (l_idt L) m2;
           (if \<not> SUCCESS r3 then Some (E_ERROR, K1\<lparr>k_machine := m3\<rparr>)
            else do {
              let (r4, m4) = pic_init PIC_MASTER_OFFSET PIC_SLAVE_OFFSET m3;
              (if \<not> SUCCESS r4 then Some (E_ERROR, K1\<lparr>k_machine := m4\<rparr>)
               else do {
                 (r5, m5) \<leftarrow> timer_init m4;
                 (if \<not> SUCCESS r5 then Some (E_ERROR, K1\<lparr>k_machine := m5\<rparr>)
                  else do {
                    (r6, m6) \<leftarrow> keyboard_init m5;
                    (if \<not> SUCCESS r6 then Some (E_ERROR, K1\<lparr>k_machine := m6\<rparr>)
                     else Some (E_SUCCESS, K1\<lparr>k_machine := enable_hardware_interrupts m6\<rparr>))
                  })
               })
            })
         })
      })
   }"

text \<open>\<open>junk\<close> is what the memory of the idle task's struct held; the result of \<^verbatim>\<open>task_create\<close> is dropped.\<close>

definition init_services :: "kernel_layout \<Rightarrow> task \<Rightarrow> kernel \<Rightarrow> (i32 \<times> kernel) outcome option" where
  "init_services L junk K = do {
     res \<leftarrow> task_init (l_kernel_pgd L) (l_stack_bottom L) (l_idle_name L) junk (k_sched K);
     (case res of
        Panic \<Rightarrow> Some Panic
      | Returned (r1, s1) \<Rightarrow>
          let K1 = put_sched s1 K
          in if \<not> SUCCESS r1 then Some (Returned (E_ERROR, K1))
             else do {
               (r2, ts) \<leftarrow> tty_init ((k_ttys K1)\<lparr>tty_heap := k_heap K1\<rparr>);
               let K2 = put_heap (tty_heap ts) (K1\<lparr>k_ttys := ts\<rparr>);
               (if \<not> SUCCESS r2 then Some (Returned (E_ERROR, K2))
                else do {
                  res2 \<leftarrow> mount_root_testing (l_testfs_type L) (l_testfs_name L) ((k_vfs K2)\<lparr>vfs_heap := k_heap K2\<rparr>);
                  (case res2 of
                     Panic \<Rightarrow> Some Panic
                   | Returned vs \<Rightarrow> do {
                       let K3 = put_heap (vfs_heap vs) (K2\<lparr>k_vfs := vs\<rparr>);
                       (_, s3) \<leftarrow> task_create (l_image L) (l_kernel_pgd L) (l_isr_exit L) (l_shell_name L) TASK_KERNEL (l_shell_init L)
                         TASK_PRIORITY_MIN TASK_STATE_WAITING (k_sched K3);
                       Some (Returned (0, put_sched s3 K3))
                     })
                })
             })
   }"

text \<open>Everything up to the enabling of interrupts, and the whole.\<close>

definition init_hardware ::
  "kernel_layout \<Rightarrow> (nat \<Rightarrow> u16 \<Rightarrow> u8) \<Rightarrow> cpu_features \<Rightarrow> (u32 \<Rightarrow> u32) \<Rightarrow> u32 \<Rightarrow> multiboot_info \<Rightarrow> kernel \<Rightarrow> (i32 \<times> kernel) outcome option" where
  "init_hardware L dev f w magic info K = do {
     (r1, K1) \<leftarrow> init_output L dev K;
     (if \<not> SUCCESS r1 then Some (Returned (E_ERROR, K1))
      else do {
        res \<leftarrow> init_memory (l_image L) f w (l_kernel_pgd L) magic info (k_paging K1) (pages (kmem (k_heap K1)));
        (case res of
           Panic \<Rightarrow> Some Panic
         | Returned (r2, pg, fr) \<Rightarrow>
             let K2 = put_memory pg fr K1
             in if \<not> SUCCESS r2 then Some (Returned (E_ERROR, K2))
                else do {
                  rK \<leftarrow> init_devices L K2;
                  Some (Returned rK)
                })
      })
   }"

definition arch_init ::
  "kernel_layout \<Rightarrow> (nat \<Rightarrow> u16 \<Rightarrow> u8) \<Rightarrow> cpu_features \<Rightarrow> (u32 \<Rightarrow> u32) \<Rightarrow> task \<Rightarrow> u32 \<Rightarrow> multiboot_info \<Rightarrow> kernel \<Rightarrow> (i32 \<times> kernel) outcome option" where
  "arch_init L dev f w junk magic info K = do {
     res \<leftarrow> init_hardware L dev f w magic info K;
     (case res of
        Panic \<Rightarrow> Some Panic
      | Returned (r, K1) \<Rightarrow> if \<not> SUCCESS r then Some (Returned (E_ERROR, K1)) else init_services L junk K1)
   }"

section \<open>Stages\<close>

lemma success_simps [simp]: "SUCCESS E_SUCCESS" "\<not> SUCCESS E_ERROR" "SUCCESS 0"
  by (simp_all add: SUCCESS_def rotary_const)

text \<open>Clearing the screen changes the text buffer only.\<close>

lemma clear_screen_screen: "screen_only s (vga_clear_screen colour s)"
  unfolding vga_clear_screen_def by (intro screen_only_fold) (simp add: set_character_screen)

lemma cstr_same_bytes:
  assumes "cstr m p t" "\<And>i. i \<le> length t \<Longrightarrow> m' (p + of_nat i) = m (p + of_nat i)" shows "cstr m' p t"
  using assms by (simp add: cstr_def)

lemma cstr_cleared:
  assumes "cstr (vmem v) p t" "\<forall>i\<le>length t. p + of_nat i \<notin> screen_region"
  shows "cstr (vmem (vga_set_cursor x y (vga_clear_screen colour v))) p t"
  using assms(1) clear_screen_screen [of v colour] assms(2)
  by (intro cstr_same_bytes [OF assms(1)]) (simp add: vga_set_cursor_def Let_def screen_only_def)

lemma init_output_run:
  assumes "responsive dev 0x2F8" "cstr (vmem (k_vga K)) (l_banner L) t" "\<forall>i\<le>length t. l_banner L + of_nat i \<notin> screen_region"
  shows "\<exists>v se es es'. init_output L dev K = Some (E_SUCCESS, K\<lparr>k_vga := v, k_serial := se\<rparr>) \<and> serial_initialised se = 1 \<and>
    port_events se = es @ es' \<and> sent 0x2F8 t es'"
proof -
  let ?v = "vga_set_cursor 0 23 (vga_clear_screen VGA_COLOUR_BLACK (k_vga K))"
  obtain se where se: "serial_init dev (k_serial K) = (E_SUCCESS, se)" "serial_initialised se = 1" "serial_debug_port se = 0x2F8"
    using serial_init_run [of dev "k_serial K"] by blast
  obtain es se1 where se1: "arch_serial_write_line dev (vmem ?v) 0x2F8 (l_banner L) se = Some (E_SUCCESS, se1)"
    "sent 0x2F8 t es" "accessed es se se1" using write_line_sends [OF assms(1) cstr_cleared [OF assms(2,3)]] by blast
  have "serial_initialised se1 = 1" using se(2) se1(3) by (auto simp: accessed_def)
  moreover have "init_output L dev K = Some (E_SUCCESS, K\<lparr>k_vga := ?v, k_serial := se1\<rparr>)"
    using se se1(1) by (simp add: init_output_def serial_get_debug_port_def serial_write_line_def)
  ultimately show ?thesis using accessed_events [OF se1(3)] se1(2) by blast
qed

text \<open>
  The writes that set up the two interrupt controllers (vectors 32 and 40, slave on line 2, nothing masked) and the timer, by
  port and byte.
\<close>

definition device_writes :: "(u16 \<times> u8) list" where
  "device_writes = [(0x20, 0x11), (0xA0, 0x11), (0x21, 32), (0xA1, 40), (0x21, 4), (0xA1, 2), (0x21, 1), (0xA1, 1), (0x21, 0), (0xA1, 0),
     (0x43, 0x36), (0x40, 0xDC), (0x40, 0x34)]"

text \<open>
  \<open>machine_ready\<close>: the interrupt table has its gates and is loaded, the controllers and the timer are set up, the handlers of the timer and the keyboard are
  in place beside those that were there, none of them has been called, and interrupts are enabled.
\<close>

definition machine_ready :: "kernel_layout \<Rightarrow> machine \<Rightarrow> machine \<Rightarrow> bool" where
  "machine_ready L m m' \<longleftrightarrow> sched m' = sched m \<and> interrupts_on m' \<and> idt_base m' = l_idt L \<and> idt_limit m' = 2047 \<and>
     (\<forall>i<48. gate_for (l_isr L (of_nat i)) 0 (idt m' ! i)) \<and> gate_for (l_isr L 64) 3 (idt m' ! 64) \<and>
     (\<forall>i<256. 48 \<le> i \<and> i \<noteq> 64 \<longrightarrow> idt m' ! i = idt m ! i) \<and> port_log m' = port_log m @ device_writes \<and>
     key_calls m' = key_calls m \<and> handler_calls m' = handler_calls m \<and>
     interrupt_handlers m' = (interrupt_handlers m)[32 := Some Timer_Tick, 33 := Some X86_Driver_Keyboard_Isr] \<and>
     keyboard_event_handlers m' = keyboard_event_handlers m \<and> timer_count m' = timer_count m"

lemmas device_const = PIC_MASTER_OFFSET_def PIC_SLAVE_OFFSET_def IO_PORT_PIC1_CMD_def IO_PORT_PIC1_DATA_def IO_PORT_PIC2_CMD_def IO_PORT_PIC2_DATA_def
  IO_PORT_PIT_CHAN_0_def IO_PORT_PIT_CMD_def IO_CMD_PIC_ICW1_ICW4_def IO_CMD_PIC_ICW1_INIT_def IO_CMD_PIC_ICW3_MASTER_def
  IO_CMD_PIC_ICW3_SLAVE_def IO_CMD_PIC_ICW4_8086_MODE_def

lemma init_devices_run:
  assumes "length (idt (k_machine K)) = 256" "length (interrupt_handlers (k_machine K)) = 256"
  shows "\<exists>m cpu. init_devices L K = Some (E_SUCCESS, K\<lparr>k_cpu := cpu, k_machine := m\<rparr>) \<and> machine_ready L (k_machine K) m \<and>
    cpu_ready (l_cpu0 L) (l_tss L) (l_cpu_self L) (l_gdt_entries L) cpu"
proof -
  let ?m = "k_machine K"
  obtain cpu where cpu: "cpu_init (l_cpu0 L) (l_tss L) (l_cpu_self L) (l_gdt_entries L) (k_cpu K) = (E_SUCCESS, cpu)"
    "cpu_ready (l_cpu0 L) (l_tss L) (l_cpu_self L) (l_gdt_entries L) cpu" using cpu_init_ready by blast
  obtain t where t: "idt_init (l_isr L) ?m = Some (E_SUCCESS, ?m\<lparr>idt := t\<rparr>)"
    "\<forall>i<256. if i < 48 \<or> i = 64 then gate_for (l_isr L (of_nat i)) (if i = 64 then 3 else 0) (t ! i) else t ! i = idt ?m ! i"
    using idt_init_run [OF assms(1), of "l_isr L"] by blast
  have g: "\<forall>i<48. gate_for (l_isr L (of_nat i)) 0 (t ! i)"
  proof (intro allI impI)
    fix i :: nat assume "i < 48"
    then show "gate_for (l_isr L (of_nat i)) 0 (t ! i)" using spec [OF t(2), of i] by simp
  qed
  have g64: "gate_for (l_isr L 64) 3 (t ! 64)" using spec [OF t(2), of 64] by simp
  have other: "\<forall>i<256. 48 \<le> i \<and> i \<noteq> 64 \<longrightarrow> t ! i = idt ?m ! i" using t(2) by (auto dest: spec)
  obtain m where "init_devices L K = Some (E_SUCCESS, K\<lparr>k_cpu := cpu, k_machine := m\<rparr>)" "machine_ready L ?m m"
    using cpu(1) t(1) g g64 other assms(2)
    by (simp add: init_devices_def device_writes_def device_const idt_load_def pic_init_def timer_init_def keyboard_init_def arch_keyboard_init_def
        register_interrupt_handler_def io_port_out_def enable_hardware_interrupts_def Let_def INT_PIT_def INT_KEYBOARD_def
        machine_ready_def)
  then show ?thesis using cpu(2) by (intro exI conjI)
qed

text \<open>What start-up needs beyond \<^term>\<open>memory_input\<close>: statics as the image has them, one word memory and
  paging register for all components, and a banner outside the text buffer.\<close>

definition boot_input ::
  "kernel_layout \<Rightarrow> (u32 \<Rightarrow> u32) \<Rightarrow> multiboot_info \<Rightarrow> nat \<Rightarrow> bootmem \<Rightarrow> u8 list \<Rightarrow> kernel \<Rightarrow> bool" where
  "boot_input L w info k b t K \<longleftrightarrow> memory_input (l_image L) w info k (k_paging K) b \<and> l_kernel_pgd L = slab_base k \<and>
     cstr (vmem (k_vga K)) (l_banner L) t \<and> (\<forall>i\<le>length t. l_banner L + of_nat i \<notin> screen_region) \<and>
     length (idt (k_machine K)) = 256 \<and> length (interrupt_handlers (k_machine K)) = 256 \<and>
     (\<exists>fr. k_heap K = kmalloc_init fr) \<and> \<not> sched_enabled (k_sched K) \<and>
     vm_words (vm (k_sched K)) = pg_words (k_paging K) \<and> r_cr3 (regs (k_sched K)) = pg_cr3 (k_paging K)"

definition hardware_ready :: "kernel_layout \<Rightarrow> nat \<Rightarrow> bootmem \<Rightarrow> u8 list \<Rightarrow> kernel \<Rightarrow> kernel \<Rightarrow> bool" where
  "hardware_ready L k b t K K' \<longleftrightarrow>
     memory_ready (l_image L) k b (k_paging K') (pages (kmem (k_heap K'))) \<and>
     k_heap K' = kmalloc_init (pages (kmem (k_heap K'))) \<and> vm_words (vm (k_sched K')) = pg_words (k_paging K') \<and>
     r_cr3 (regs (k_sched K')) = PFN_TO_PA (of_nat k) \<and> sched_enabled (k_sched K') = sched_enabled (k_sched K) \<and>
     machine_ready L (k_machine K\<lparr>sched := k_sched K'\<rparr>) (k_machine K') \<and>
     cpu_ready (l_cpu0 L) (l_tss L) (l_cpu_self L) (l_gdt_entries L) (k_cpu K') \<and>
     serial_initialised (k_serial K') = 1 \<and> (\<exists>es es'. port_events (k_serial K') = es @ es' \<and> sent 0x2F8 t es') \<and>
     k_ttys K' = k_ttys K \<and> k_vfs K' = k_vfs K"

lemma set_frames_init: "set_frames fr (kmalloc_init fr0) = kmalloc_init fr"
  by (simp add: set_frames_def kmalloc_init_def)

lemmas kernel_plumbing = k_heap_def k_sched_def put_memory_def put_sched_def Let_def

lemma init_hardware_run:
  assumes "boot_input L w info k b t K" "responsive dev 0x2F8"
  shows "\<exists>K'. init_hardware L dev f w MULTIBOOT_BOOTLOADER_MAGIC info K = Some (Returned (E_SUCCESS, K')) \<and> hardware_ready L k b t K K'"
proof -
  have mi: "memory_input (l_image L) w info k (k_paging K) b" and pgd: "l_kernel_pgd L = slab_base k"
    and ban: "cstr (vmem (k_vga K)) (l_banner L) t" "\<forall>i\<le>length t. l_banner L + of_nat i \<notin> screen_region"
    and len: "length (idt (k_machine K)) = 256" "length (interrupt_handlers (k_machine K)) = 256"
    using assms(1) by (simp_all add: boot_input_def)
  obtain fr0 where fr0: "k_heap K = kmalloc_init fr0" using assms(1) by (auto simp: boot_input_def)
  obtain v se es es' where out: "init_output L dev K = Some (E_SUCCESS, K\<lparr>k_vga := v, k_serial := se\<rparr>)" "serial_initialised se = 1"
    "port_events se = es @ es'" "sent 0x2F8 t es'" using init_output_run [OF assms(2) ban] by blast
  let ?K1 = "K\<lparr>k_vga := v, k_serial := se\<rparr>"
  obtain s' fr' where mem: "init_memory (l_image L) f w (slab_base k) MULTIBOOT_BOOTLOADER_MAGIC info (k_paging K) (pages (kmem (k_heap K))) =
      Some (Returned (E_SUCCESS, s', fr'))" "memory_ready (l_image L) k b s' fr'"
    using init_memory_run [OF mi] by blast
  let ?K2 = "put_memory s' fr' ?K1"
  obtain m cpu where dv: "init_devices L ?K2 = Some (E_SUCCESS, ?K2\<lparr>k_cpu := cpu, k_machine := m\<rparr>)" "machine_ready L (k_machine ?K2) m"
    "cpu_ready (l_cpu0 L) (l_tss L) (l_cpu_self L) (l_gdt_entries L) cpu"
    using init_devices_run [of ?K2 L] len by (auto simp: kernel_plumbing)
  let ?K' = "?K2\<lparr>k_cpu := cpu, k_machine := m\<rparr>"
  have sm: "sched m = sched (k_machine ?K2)" using dv(2) by (simp add: machine_ready_def)
  have "init_hardware L dev f w MULTIBOOT_BOOTLOADER_MAGIC info K = Some (Returned (E_SUCCESS, ?K'))"
    using out(1) mem(1) dv(1) pgd by (simp add: init_hardware_def Let_def k_heap_def k_sched_def)
  moreover have h: "k_heap ?K' = kmalloc_init fr'" "pages (kmem (kmalloc_init fr')) = fr'"
    using sm fr0 set_frames_init [of fr' fr0] by (simp_all add: kernel_plumbing kmalloc_init_def)
  moreover have "pg_cr3 s' = PFN_TO_PA (of_nat k)" using mem(2) by (simp add: memory_ready_def)
  then have "hardware_ready L k b t K ?K'"
    using out(2-4) mem(2) dv(2,3) sm unfolding hardware_ready_def h by (auto simp: kernel_plumbing)
  ultimately show ?thesis by blast
qed

lemma early_tick:
  assumes "boot_input L w info k b t K" "hardware_ready L k b t K K'"
  shows "isr_handler img isr_exit inp cr2 32 (k_machine K') = Some ((k_machine K')\<lparr>timer_count := timer_count (k_machine K') + 1,
    handler_calls := handler_calls (k_machine K') @ [(Timer_Tick, port_log (k_machine K') @ [(0xA0, 0x20), (0x20, 0x20)])],
    port_log := port_log (k_machine K') @ [(0xA0, 0x20), (0x20, 0x20), (0xA0, 0x20), (0x20, 0x20)]\<rparr>)"
proof -
  have "length (interrupt_handlers (k_machine K')) = 256" "interrupt_handlers (k_machine K') ! 32 = Some Timer_Tick"
    and off: "\<not> sched_enabled (sched (k_machine K'))"
    using assms by (auto simp: hardware_ready_def machine_ready_def boot_input_def k_sched_def)
  then show ?thesis
    by (simp add: isr_handler_def isr_handler_first_def isr_handler_rest_def isr_switches_def call_handler_def timer_tick_def task_schedule_def
        pic_send_eoi_def io_port_out_def Let_def INT_PIT_def INT_PAGE_FAULT_def IO_PORT_PIC2_CMD_def IO_PORT_PIC1_CMD_def IO_CMD_PIC_EOI_def)
qed

lemma arch_init_bad_magic:
  assumes "boot_input L w info k b t K" "responsive dev 0x2F8" "magic \<noteq> MULTIBOOT_BOOTLOADER_MAGIC"
  shows "\<exists>v se. arch_init L dev f w junk magic info K = Some (Returned (E_ERROR, K\<lparr>k_vga := v, k_serial := se\<rparr>))"
proof -
  obtain v se where out: "init_output L dev K = Some (E_SUCCESS, K\<lparr>k_vga := v, k_serial := se\<rparr>)"
    using init_output_run [OF assms(2), of K L t] assms(1) by (auto simp: boot_input_def)
  have words: "vm_words (vm (k_sched K)) = pg_words (k_paging K)" "r_cr3 (regs (k_sched K)) = pg_cr3 (k_paging K)"
    using assms(1) by (simp_all add: boot_input_def)
  let ?K1 = "K\<lparr>k_vga := v, k_serial := se\<rparr>"
  have "put_memory (k_paging ?K1) (pages (kmem (k_heap ?K1))) ?K1 = ?K1"
    using words by (simp add: kernel_plumbing set_frames_def)
  then show ?thesis using out assms(3) by (auto simp: arch_init_def init_hardware_def init_memory_def multiboot_parse_def Let_def)
qed

section \<open>Properties\<close>

text \<open>
  C30: The machine after start-up of the hardware. Given the boot loader's magic number, a usable memory map
  and a serial device whose transmitter keeps becoming empty, \<^verbatim>\<open>arch_init\<close> gets as far as enabling interrupts and at that point the banner has been sent,
  memory is ready (the kernel's directory is loaded, the free pages are known, the heap is in
  order and nothing is allocated), the segment table is filled, loaded and in use (its register, the selectors, the CPU structure's \<^verbatim>\<open>gs\<close>, the task
  register and the stack segment of the TSS), every exception, interrupt and system call
  vector leads to its stub in the loaded table, the interrupt controllers and the timer are programmed, and the timer and keyboard have their handlers. A timer interrupt that
  arrives from then on, before the scheduler is enabled, counts a tick and changes no task.
  With another magic number \<^verbatim>\<open>arch_init\<close> returns an error and touches nothing but screen and serial port.
\<close>

theorem arch_init_hardware_ready:
  assumes "boot_input L w info k b t K" and "responsive dev 0x2F8"
  shows "(\<exists>K'. init_hardware L dev f w MULTIBOOT_BOOTLOADER_MAGIC info K = Some (Returned (E_SUCCESS, K')) \<and> hardware_ready L k b t K K' \<and>
      arch_init L dev f w junk MULTIBOOT_BOOTLOADER_MAGIC info K = init_services L junk K' \<and>
      isr_handler (l_image L) (l_isr_exit L) inp cr2 32 (k_machine K') = Some ((k_machine K')\<lparr>timer_count := timer_count (k_machine K') + 1,
        handler_calls := handler_calls (k_machine K') @ [(Timer_Tick, port_log (k_machine K') @ [(0xA0, 0x20), (0x20, 0x20)])],
        port_log := port_log (k_machine K') @ [(0xA0, 0x20), (0x20, 0x20), (0xA0, 0x20), (0x20, 0x20)]\<rparr>)) \<and>
    (magic \<noteq> MULTIBOOT_BOOTLOADER_MAGIC \<longrightarrow> (\<exists>v se. arch_init L dev f w junk magic info K = Some (Returned (E_ERROR, K\<lparr>k_vga := v, k_serial := se\<rparr>))))"
proof (intro conjI impI)
  obtain K' where K': "init_hardware L dev f w MULTIBOOT_BOOTLOADER_MAGIC info K = Some (Returned (E_SUCCESS, K'))" "hardware_ready L k b t K K'"
    using init_hardware_run [OF assms] by blast
  then have "arch_init L dev f w junk MULTIBOOT_BOOTLOADER_MAGIC info K = init_services L junk K'" by (simp add: arch_init_def)
  with K' early_tick [OF assms(1) K'(2)] show "\<exists>K'. init_hardware L dev f w MULTIBOOT_BOOTLOADER_MAGIC info K = Some (Returned (E_SUCCESS, K')) \<and> hardware_ready L k b t K K' \<and>
      arch_init L dev f w junk MULTIBOOT_BOOTLOADER_MAGIC info K = init_services L junk K' \<and>
      isr_handler (l_image L) (l_isr_exit L) inp cr2 32 (k_machine K') = Some ((k_machine K')\<lparr>timer_count := timer_count (k_machine K') + 1,
        handler_calls := handler_calls (k_machine K') @ [(Timer_Tick, port_log (k_machine K') @ [(0xA0, 0x20), (0x20, 0x20)])],
        port_log := port_log (k_machine K') @ [(0xA0, 0x20), (0x20, 0x20), (0xA0, 0x20), (0x20, 0x20)]\<rparr>)" by blast
next
  assume "magic \<noteq> MULTIBOOT_BOOTLOADER_MAGIC"
  then show "\<exists>v se. arch_init L dev f w junk magic info K = Some (Returned (E_ERROR, K\<lparr>k_vga := v, k_serial := se\<rparr>))"
    by (rule arch_init_bad_magic [OF assms])
qed

definition boot_layout :: kernel_layout where
  "boot_layout = \<lparr>l_image = sample_image, l_kernel_pgd = slab_base 256, l_cpu0 = 0xC0110000, l_tss = 0xC0110004, l_cpu_self = 0xC0110000,
     l_gdt_entries = 0xC0110080, l_idt = 0xC0111000, l_isr = (\<lambda>n. 0xC0112000 + 16 * n), l_isr_exit = 0xC0113000, l_stack_bottom = 0x114000,
     l_idle_name = 0xC0115000, l_testfs_type = 0xC0116000, l_testfs_name = 0xC0117000, l_shell_name = 0xC0118000, l_shell_init = 0xC0119000,
     l_banner = 0x1000\<rparr>"

definition boot_sched :: sched_state where
  "boot_sched = (sample_sched 0x1000)\<lparr>vm := (sample_vm sample_free)\<lparr>heap := kmalloc_init sample_free, vm_words := (\<lambda>a. 0)\<rparr>,
     regs := sample_regs\<lparr>r_cr3 := 0\<rparr>, tasks := Map.empty, sched_enabled := False\<rparr>"

definition boot_kernel :: kernel where
  "boot_kernel = \<lparr>k_vga = sample_console, k_serial = \<lparr>serial_initialised = 0, serial_debug_port = 0, port_events = [], port_reads = 0\<rparr>,
     k_paging = boot_state,
     k_cpu = \<lparr>cpu_id = 0, cpu_self = 0, tss_ss0 = 0, gdt_desc = \<lparr>gdt_size = 0, gdt_address = 0\<rparr>, gdt_entries = [],
       loaded_gdtr = \<lparr>gdt_size = 0, gdt_address = 0\<rparr>, gs_selector = 0, cs_selector = 0, data_selector = 0, task_register = 0\<rparr>,
     k_machine = (sample_machine boot_sched)\<lparr>interrupt_handlers := replicate 256 None, interrupts_on := False\<rparr>,
     k_ttys = sample_ttys, k_vfs = sample_vfs\<rparr>"

lemma boot_sample_start: "boot_input boot_layout boot_map boot_info 256 (one_region 0x180000 0x400000) [82, 111, 116, 97, 114, 121] boot_kernel"
proof -
  have "cstr (vmem sample_console) 0x1000 [82, 111, 116, 97, 114, 121]"
    using cstr_store [of "[82, 111, 116, 97, 114, 121]" "\<lambda>a. 0" "0x1000"] by (simp add: sample_console_def)
  moreover have "\<forall>i\<le>6. 0x1000 + of_nat i \<notin> screen_region"
  proof (intro allI impI)
    fix i :: nat assume "i \<le> 6"
    then have "i \<in> {0, 1, 2, 3, 4, 5, 6}" by auto
    then show "0x1000 + of_nat i \<notin> screen_region" by (auto simp: screen_region_def region_def rotary_const)
  qed
  moreover have "\<exists>fr. kmalloc_init sample_free = kmalloc_init fr" by blast
  ultimately show ?thesis using boot_sample_input
    by (simp add: boot_input_def boot_layout_def boot_kernel_def sample_machine_def boot_sched_def k_sched_def k_heap_def boot_state_def)
qed

theorem arch_init_hardware_ready_witness:
  "(\<exists>K'. init_hardware boot_layout slow_device \<lparr>leaf1_edx = 0, cr4 = 0\<rparr> boot_map MULTIBOOT_BOOTLOADER_MAGIC boot_info boot_kernel =
      Some (Returned (E_SUCCESS, K')) \<and> interrupts_on (k_machine K') \<and> port_log (k_machine K') = device_writes \<and>
      loaded_gdtr (k_cpu K') = \<lparr>gdt_size = 55, gdt_address = 0xC0110080\<rparr> \<and> task_register (k_cpu K') = 0x28) \<and>
    (\<exists>v se. arch_init boot_layout slow_device \<lparr>leaf1_edx = 0, cr4 = 0\<rparr> boot_map zero_task 0 boot_info boot_kernel =
      Some (Returned (E_ERROR, boot_kernel\<lparr>k_vga := v, k_serial := se\<rparr>)))"
proof -
  have "(0 :: u32) \<noteq> MULTIBOOT_BOOTLOADER_MAGIC" by (simp add: rotary_const)
  with arch_init_hardware_ready [OF boot_sample_start slow_device_responsive, of "\<lparr>leaf1_edx = 0, cr4 = 0\<rparr>" zero_task "\<lambda>_. 0" 0 0]
  obtain K' where K': "init_hardware boot_layout slow_device \<lparr>leaf1_edx = 0, cr4 = 0\<rparr> boot_map MULTIBOOT_BOOTLOADER_MAGIC boot_info boot_kernel =
      Some (Returned (E_SUCCESS, K'))" "hardware_ready boot_layout 256 (one_region 0x180000 0x400000) [82, 111, 116, 97, 114, 121] boot_kernel K'"
    and no: "\<exists>v se. arch_init boot_layout slow_device \<lparr>leaf1_edx = 0, cr4 = 0\<rparr> boot_map zero_task 0 boot_info boot_kernel =
      Some (Returned (E_ERROR, boot_kernel\<lparr>k_vga := v, k_serial := se\<rparr>))" by blast
  have "machine_ready boot_layout (k_machine boot_kernel\<lparr>sched := k_sched K'\<rparr>) (k_machine K')"
    "cpu_ready (l_cpu0 boot_layout) (l_tss boot_layout) (l_cpu_self boot_layout) (l_gdt_entries boot_layout) (k_cpu K')"
    using K'(2) by (simp_all add: hardware_ready_def)
  then have "interrupts_on (k_machine K') \<and> port_log (k_machine K') = device_writes \<and>
      loaded_gdtr (k_cpu K') = \<lparr>gdt_size = 55, gdt_address = 0xC0110080\<rparr> \<and> task_register (k_cpu K') = 0x28"
    by (simp add: machine_ready_def cpu_ready_def boot_kernel_def boot_layout_def sample_machine_def)
  with K'(1) no show ?thesis by blast
qed

end
