(* ===== verification/Reports.thy ===== *)
theory Reports
  imports Init KPrintf
begin

text \<open>
  The functions that report the state of a component: the walks over caches, blocks, regions, tasks and page
  tables (\<^verbatim>\<open>slab.c\<close>, \<^verbatim>\<open>kmalloc.c\<close>, \<^verbatim>\<open>palloc.c\<close>, \<^verbatim>\<open>bootmem.c\<close>, \<^verbatim>\<open>task.c\<close>, \<^verbatim>\<open>gdt.c\<close>, \<^verbatim>\<open>arch/x86/kernel/ptable.c\<close>) and the report of a
  processor exception (\<^verbatim>\<open>interrupts.c\<close>). A report is the list of the calls of \<^verbatim>\<open>klog\<close> or \<^verbatim>\<open>printk\<close>, each with its
  format and arguments; what becomes of such a call is the subject of the theory of the console.
\<close>

section \<open>Reports\<close>

datatype report_arg = Word u32 | Text string | String_At u32

type_synonym report = "(string \<times> report_arg list) list"

definition nl :: "string \<Rightarrow> string" where
  "nl s = s @ [CHR 0x0A]"

section \<open>Memory\<close>

definition page_print_debug :: "page \<Rightarrow> report" where
  "page_print_debug pg =
     [(nl ''--- Page %d Info ---'', [Word (pfn pg)]),
      (nl ''Use Count:  %d'', [Word (use_count pg)]),
      (nl ''Flags:      0x%x'', [Word (flags pg)]),
      (nl ''Order:      %d'', [Word (order pg)]),
      (nl ''Phys. Addr: 0x%x'', [Word (PAGE_PA pg)]),
      (nl ''Virt. Addr: 0x%x'', [Word (PAGE_VA pg)])]"

text \<open>The sum in the fourth line is pointer arithmetic on \<^verbatim>\<open>struct page *\<close>, which multiplies by the size once more.\<close>

definition buddy_print_debug :: "buddy_allocator \<Rightarrow> report" where
  "buddy_print_debug s =
     [(nl ''--- Buddy Allocator Info ---'', []),
      (nl ''Page Count:          %d'', [Word (page_count s)]),
      (nl ''Max Order:           %d'', [Word (of_nat ORDER_MAX)]),
      (nl ''Page Area Start:     0x%x'', [Word (page_area_addr s)]),
      (nl ''Page Area End:       0x%x'', [Word (page_area_addr s + SIZEOF_PAGE * (page_count s * SIZEOF_PAGE))])] @
     map (\<lambda>i. (nl ''Order[%d] Free: %d'', [Word (of_nat i), Word (free_count (blocks s ! i))])) [0..<ORDER_MAX + 1]"

definition bootmem_print_debug :: "bootmem \<Rightarrow> report" where
  "bootmem_print_debug b =
     [(nl ''--- Bootmem Info ---'', []),
      (nl ''Memory Regions:      %d'', [Word (region_count b)]),
      (nl ''Highests Phys. Addr: 0x%x'', [Word (PFN_TO_PA (highest_pfn b))])] @
     concat (map (\<lambda>i. let r = mem_regions b ! i
                      in if start_addr r \<noteq> 0
                         then [(nl ''Region[%d]: 0x%x -> 0x%x (%d bytes alloced.)'',
                                [Word (of_nat i), Word (start_addr r), Word (end_addr r), Word (start_addr r - orig_start_addr r)])]
                         else []) [0..<MAX_MEM_REGIONS])"

text \<open>One line for each slab of a cache.\<close>

definition slab_line :: "slab_header_t \<Rightarrow> u32 \<Rightarrow> string \<times> report_arg list" where
  "slab_line h x =
     (let page_count = push_bit (unat (page_order h)) 1;
          total_bytes = page_count * PAGE_SIZE;
          end_addr = x + total_bytes
      in (nl ''  -> Slab[addr: 0x%x -> 0x%x, pages: %d, totalbytes: %d, order: %d, objtotal: %d, objfree: %d, objused: %d]'',
          [Word x, Word end_addr, Word page_count, Word total_bytes, Word (page_order h), Word (object_count h), Word (sh_free_count h),
           Word (object_count h - sh_free_count h)]))"

partial_function (option) slab_lines :: "'p slab_state \<Rightarrow> u32 \<Rightarrow> report option" where
  "slab_lines s x =
     (if x = 0 then Some []
      else do { ls \<leftarrow> slab_lines s (next_slab (headers s x)); Some (slab_line (headers s x) x # ls) })"

definition slab_cache_print_debug :: "u32 \<Rightarrow> slab_cache_t \<Rightarrow> 'p slab_state \<Rightarrow> report option" where
  "slab_cache_print_debug cache_addr c s = do {
     ls \<leftarrow> slab_lines s (first_slab c);
     Some ([(nl ''Cache '%s' [addr: 0x%x, objsize: %d]'', [Text (cache_name c), Word cache_addr, Word (object_size c)])] @
       (if first_slab c = 0 then [(nl ''  No slabs!'', [])] else []) @ ls @ [(nl '''', [])])
   }"

text \<open>\<open>cache_addr\<close> is the address of an element of the array of caches.\<close>

primrec cache_reports :: "(nat \<Rightarrow> u32) \<Rightarrow> kmalloc_state \<Rightarrow> nat list \<Rightarrow> report option" where
  "cache_reports cache_addr s [] = Some []"
| "cache_reports cache_addr s (i # js) = do {
     l \<leftarrow> slab_cache_print_debug (cache_addr i) (slab_caches s ! i) (kmem s);
     ls \<leftarrow> cache_reports cache_addr s js;
     Some (l @ ls)
   }"

definition kmalloc_print_debug :: "(nat \<Rightarrow> u32) \<Rightarrow> kmalloc_state \<Rightarrow> report option" where
  "kmalloc_print_debug cache_addr s = cache_reports cache_addr s [0..<13]"

section \<open>Tasks, file systems, segments\<close>

definition state_str :: "u32 \<Rightarrow> string" where
  "state_str st =
     (if st = TASK_STATE_INVALID then ''EMPTY''
      else if st = TASK_STATE_RUNNING then ''RUNNING''
      else if st = TASK_STATE_WAITING then ''WAITING''
      else if st = TASK_STATE_PAUSED then ''PAUSED''
      else if st = TASK_STATE_KILLED then ''KILLED''
      else ''UNKNOWN'')"

definition task_lines :: "u32 \<Rightarrow> task \<Rightarrow> report" where
  "task_lines a t =
     [(nl ''[%d] '%s' (%s, priority %d) '', [Word (t_id t), String_At (a + TASK_NAME_OFFSET), Text (state_str (t_state t)), Word (t_priority t)]),
      (nl ''      type:        %s'', [Text (if t_type t = TASK_KERNEL then ''Kernel'' else ''Usermode'')]),
      (nl ''      kstack top:  0x%x | bot: 0x%x'', [Word (kstack_top t), Word (kstack_bot t)]),
      (nl ''      kstack_size: %d bytes'', [Word (kstack_size t)]),
      (nl ''      stack_used:  %d bytes'', [Word (kstack_bot t - kstack_top t)]),
      (nl ''      vm_space:    0x%x'', [Word (t_vm_space t)]),
      (nl ''      ticks:  %d'', [Word (t_ticks t)])]"

partial_function (option) task_walk :: "sched_state \<Rightarrow> tnode option \<Rightarrow> report option" where
  "task_walk s entry = do {
     n \<leftarrow> entry;
     (case n of
        TaskHead \<Rightarrow> Some []
      | TaskNode a \<Rightarrow> do {
          t \<leftarrow> tasks s a;
          ls \<leftarrow> task_walk s (next_node (tnodes s n));
          Some (task_lines a t @ ls)
        })
   }"

definition task_print :: "sched_state \<Rightarrow> (report \<times> sched_state) option" where
  "task_print s = do {
     s1 \<leftarrow> acquire s;
     ls \<leftarrow> task_walk s1 (next_node (tnodes s1 TaskHead));
     Some ([(nl ''Task List'', []), (nl ''-----------------------------'', [])] @ ls @ [(nl '''', [])], release s1)
   }"

partial_function (option) fs_walk :: "vfs_state \<Rightarrow> fsnode option \<Rightarrow> report option" where
  "fs_walk s entry = do {
     n \<leftarrow> entry;
     (case n of
        FsHead \<Rightarrow> Some []
      | FsEntry a \<Rightarrow> do {
          ls \<leftarrow> fs_walk s (next_node (fs_nodes s n));
          Some ((nl ''  Type: %s (0x%x)'', [String_At (fs_name (fs_types s a)), Word a]) # ls)
        })
   }"

definition file_system_type_print_debug :: "vfs_state \<Rightarrow> report option" where
  "file_system_type_print_debug s = do {
     ls \<leftarrow> fs_walk s (next_node (fs_nodes s FsHead));
     Some ((nl ''Registered filesystem types:'', []) # ls)
   }"

definition gdt_print_debug_entry :: "u32 \<Rightarrow> gdt_entry_t \<Rightarrow> report" where
  "gdt_print_debug_entry name e =
     [(nl ''%s:'', [String_At name]),
      (nl ''    b_low: 0x%x b_mid: 0x%x b_high: 0x%x'', [Word (ucast (base_low e)), Word (ucast (base_middle e)), Word (ucast (base_high e))]),
      (nl ''    gran: 0x%x access: 0x%x'', [Word (ucast (granularity e)), Word (ucast (access_flags e))])]"

section \<open>Page table entries\<close>

definition PDE_WRITETHROUGH :: u32 where [rotary_const]: "PDE_WRITETHROUGH = 0x08"
definition PDE_CACHE_DISABLE :: u32 where [rotary_const]: "PDE_CACHE_DISABLE = 0x10"
definition PDE_ACCESSED :: u32 where [rotary_const]: "PDE_ACCESSED = 0x20"
definition PTE_WRITETHROUGH :: u32 where [rotary_const]: "PTE_WRITETHROUGH = 0x08"
definition PTE_CACHE_DISABLE :: u32 where [rotary_const]: "PTE_CACHE_DISABLE = 0x10"
definition PTE_ACCESSED :: u32 where [rotary_const]: "PTE_ACCESSED = 0x20"
definition PTE_DIRTY :: u32 where [rotary_const]: "PTE_DIRTY = 0x40"
definition PTE_PAT :: u32 where [rotary_const]: "PTE_PAT = 0x80"

text \<open>The words appended to \<^verbatim>\<open>flag_str\<close>, in order.\<close>

definition pte_words :: "u32 \<Rightarrow> string list" where
  "pte_words e =
     (if TEST_BIT e PTE_PRESENT then [''Present, ''] else []) @
     (if TEST_BIT e PTE_WRITABLE then [''Read/Write, ''] else [''Read, '']) @
     (if TEST_BIT e PTE_USER then [''Kernel & User, ''] else [''Kernel Only, '']) @
     (if TEST_BIT e PTE_WRITETHROUGH then [''Writethrough, ''] else []) @
     (if TEST_BIT e PTE_CACHE_DISABLE then [''Cache Disable, ''] else []) @
     (if TEST_BIT e PTE_ACCESSED then [''Accessed, ''] else []) @
     (if TEST_BIT e PTE_DIRTY then [''Dirty, ''] else []) @
     (if TEST_BIT e PTE_PAT then [''PAT, ''] else []) @
     (if TEST_BIT e PTE_GLOBAL then [''Global, ''] else [])"

definition pde_words :: "u32 \<Rightarrow> string list" where
  "pde_words e =
     (if TEST_BIT e PDE_PRESENT then [''Present, ''] else []) @
     (if TEST_BIT e PDE_WRITABLE then [''Read/Write, ''] else [''Read, '']) @
     (if TEST_BIT e PDE_USER then [''Kernel & User, ''] else [''Kernel Only, '']) @
     (if TEST_BIT e PDE_WRITETHROUGH then [''Writethrough, ''] else []) @
     (if TEST_BIT e PDE_CACHE_DISABLE then [''Cache Disable, ''] else []) @
     (if TEST_BIT e PDE_ACCESSED then [''Accessed, ''] else []) @
     (if TEST_BIT e PDE_PAGE_SIZE_4M then [''4MB Page, ''] else []) @
     (if TEST_BIT e PDE_GLOBAL then [''Global, ''] else [])"

definition chars :: "string \<Rightarrow> u8 list" where
  "chars s = map of_char s"

text \<open>\<open>lit t\<close> is the address of a literal and \<open>buf\<close> that of the local array of 256 bytes, which is cleared first.\<close>

primrec append_words :: "(u8 list \<Rightarrow> u32) \<Rightarrow> u32 \<Rightarrow> string list \<Rightarrow> mem \<Rightarrow> mem option" where
  "append_words lit buf [] m = Some m"
| "append_words lit buf (w # ws) m = do {
     (_, m1) \<leftarrow> strcat buf (lit (chars w)) m;
     append_words lit buf ws m1
   }"

definition ptable_print_pte :: "(u8 list \<Rightarrow> u32) \<Rightarrow> u32 \<Rightarrow> u32 \<Rightarrow> u32 \<Rightarrow> mem \<Rightarrow> (report \<times> mem) option" where
  "ptable_print_pte lit buf pte_addr e m = do {
     m1 \<leftarrow> append_words lit buf (pte_words e) (snd (memset buf 0 256 m));
     let m2 = m1(buf + strlen m1 buf := 0);
     let m3 = m2(buf + (strlen m2 buf - 1) := 0);
     Some ([(nl ''PTE[VA: 0x%x, Raw: 0x%x, Flags: %s]'', [Word pte_addr, Word e, String_At buf])], m3)
   }"

definition ptable_print_pde :: "(u8 list \<Rightarrow> u32) \<Rightarrow> u32 \<Rightarrow> u32 \<Rightarrow> u32 \<Rightarrow> mem \<Rightarrow> (report \<times> mem) option" where
  "ptable_print_pde lit buf pde_addr e m = do {
     m1 \<leftarrow> append_words lit buf (pde_words e) (snd (memset buf 0 256 m));
     Some ([(nl ''PDE[VA: 0x%x, Raw: 0x%x, Flags: %s]'', [Word pde_addr, Word e, String_At buf])], m1)
   }"

text \<open>
  \<open>w\<close> is the memory of the tables. The array \<^verbatim>\<open>flag_str\<close> is written anew for every entry, so the text of a
  line is read when the line is printed; a line is returned with the memory it was printed from.
\<close>

primrec print_entries :: "(u8 list \<Rightarrow> u32) \<Rightarrow> u32 \<Rightarrow> (u32 \<Rightarrow> u32) \<Rightarrow> u32 \<Rightarrow> nat list \<Rightarrow> mem \<Rightarrow> ((report \<times> mem) list \<times> mem) option" where
  "print_entries lit buf w pgt [] m = Some ([], m)"
| "print_entries lit buf w pgt (j # js) m = do {
     let a = pgt + 4 * of_nat j;
     (if \<not> PTE_EXISTS (w a) then print_entries lit buf w pgt js m
      else do {
        (r, m1) \<leftarrow> ptable_print_pte lit buf a (w a) m;
        (rs, m2) \<leftarrow> print_entries lit buf w pgt js m1;
        Some ((r, m1) # rs, m2)
      })
   }"

primrec print_tables :: "(u8 list \<Rightarrow> u32) \<Rightarrow> u32 \<Rightarrow> (u32 \<Rightarrow> u32) \<Rightarrow> u32 \<Rightarrow> nat list \<Rightarrow> mem \<Rightarrow> ((report \<times> mem) list \<times> mem) option" where
  "print_tables lit buf w pgd [] m = Some ([], m)"
| "print_tables lit buf w pgd (i # js) m = do {
     let a = pgd + 4 * of_nat i;
     (if \<not> PDE_EXISTS (w a) \<or> TEST_BIT (w a) PDE_PAGE_SIZE_4M then print_tables lit buf w pgd js m
      else do {
        (r, m1) \<leftarrow> ptable_print_pde lit buf a (w a) m;
        (rs, m2) \<leftarrow> print_entries lit buf w (PDE_TO_PGT (w a)) [0..<PAGE_TABLE_SIZE] m1;
        (rs', m3) \<leftarrow> print_tables lit buf w pgd js m2;
        Some ((r, m1) # rs @ rs', m3)
      })
   }"

definition ptable_print_pgd :: "(u8 list \<Rightarrow> u32) \<Rightarrow> u32 \<Rightarrow> (u32 \<Rightarrow> u32) \<Rightarrow> u32 \<Rightarrow> mem \<Rightarrow> ((report \<times> mem) list \<times> mem) option" where
  "ptable_print_pgd lit buf w pgd m = print_tables lit buf w pgd [0..<PAGE_DIR_SIZE] m"

section \<open>Processor exceptions\<close>

record isr_registers =
  ir_ds :: u32
  ir_edi :: u32
  ir_esi :: u32
  ir_ebp :: u32
  ir_esp :: u32
  ir_ebx :: u32
  ir_edx :: u32
  ir_ecx :: u32
  ir_eax :: u32
  int_num :: u32
  error_code :: u32
  ir_eip :: u32
  ir_cs :: u32
  ir_eflags :: u32
  ir_user_esp :: u32
  ir_user_ss :: u32

definition exception_names :: "string list" where
  "exception_names =
     [''[isr] Interrupt 0: Divide by Zero'', ''[isr] Interrupt 1: Single Step'', ''[isr] Interrupt 2: Non-Maskable (NMI)'',
      ''[isr] Interrupt 3: Breakpoint'', ''[isr] Interrupt 4: Overflow Trap'', ''[isr] Interrupt 5: Bound Range Exceeded'',
      ''[isr] Interrupt 6: Invalid Opcode'', ''[isr] Interrupt 7: Coprocessor Not Available'', ''[isr] Interrupt 8: Double Fault Exception'',
      ''[isr] Interrupt 9: Coprocessor Segment Overrun'', ''[isr] Interrupt 10: Invalid Task State Segment (TSS)'',
      ''[isr] Interrupt 11: Segment Not Present'', ''[isr] Interrupt 12: Stack Exception'', ''[isr] Interrupt 13: General Protection Exception'',
      ''[isr] Interrupt 14: Page Fault'']"

definition fault_report :: "u32 \<Rightarrow> u32 \<Rightarrow> report" where
  "fault_report cr2 ec =
     (let present = ucast (ec AND 1) :: u8;
          write = ucast (drop_bit 1 ec AND 1) :: u8;
          user = ucast (drop_bit 2 ec AND 1) :: u8;
          rsvd_write = ucast (drop_bit 3 ec AND 1) :: u8;
          ins_fetch = ucast (drop_bit 4 ec AND 1) :: u8;
          pkey = ucast (drop_bit 5 ec AND 1) :: u8;
          shadow_stack = ucast (drop_bit 6 ec AND 1) :: u8
      in [(nl ''Unhandled page fault at:   0x%x'', [Word cr2])] @
         (if present = 1 then [(nl ''The fault was caused by a page-level protection violation.'', [])]
          else [(nl ''The fault was caused by a non-present page.'', [])]) @
         (if write \<noteq> 0 then [(nl ''The access causing the fault was a write.'', [])] else [(nl ''The access causing the fault was a read.'', [])]) @
         (if user \<noteq> 0 then [(nl ''A user-mode access caused the fault.'', [])] else [(nl ''A supervisor-mode access caused the fault.'', [])]) @
         (if rsvd_write \<noteq> 0 then [(nl ''The fault was caused by a reserved bit set to 1 in some page entry.'', [])] else []) @
         (if ins_fetch \<noteq> 0 then [(nl ''The fault was caused by an instruction fetch.'', [])] else []) @
         (if pkey \<noteq> 0 then [(nl ''There was a protection-key violation.'', [])] else []) @
         (if shadow_stack \<noteq> 0 then [(nl ''The fault was caused by a shadow-stack access.'', [])] else []))"

text \<open>The report of \<^verbatim>\<open>isr_handler\<close>, empty where the function returns before it.\<close>

definition isr_report :: "u32 \<Rightarrow> isr_registers \<Rightarrow> report" where
  "isr_report cr2 r =
     (if \<not> (int_num r \<ge> 0 \<and> int_num r < 32) then []
      else if int_num r = INT_PAGE_FAULT then []
      else concat (map (\<lambda>i. if int_num r = of_nat i then [(nl (exception_names ! i), [])] else []) [0..<15]) @
        [(nl ''[isr] Error Code: %d'', [Word (error_code r)]),
         (nl ''Registers'', []),
         (nl ''---------'', []),
         (nl ''EAX:        0x%x | EBX:        0x%x'', [Word (ir_eax r), Word (ir_ebx r)]),
         (nl ''ECX:        0x%x | EDX:        0x%x'', [Word (ir_ecx r), Word (ir_edx r)]),
         (nl ''ESI:        0x%x | EDI:        0x%x'', [Word (ir_esi r), Word (ir_edi r)]),
         (nl ''EIP:        0x%x | ESP:        0x%x'', [Word (ir_eip r), Word (ir_esp r)]),
         (nl ''CS:         0x%x'', [Word (ir_cs r)]),
         (nl ''EFLAGS:     0x%x'', [Word (ir_eflags r)])] @
        (if int_num r = INT_PAGE_FAULT then fault_report cr2 (error_code r) else []))"

section \<open>Flags as text\<close>

definition flag_words :: "string list" where
  "flag_words = [''Present, '', ''Read/Write, '', ''Read, '', ''Kernel & User, '', ''Kernel Only, '', ''Writethrough, '', ''Cache Disable, '',
     ''Accessed, '', ''Dirty, '', ''PAT, '', ''Global, '', ''4MB Page, '']"

lemma word_if: "length (concat (if b then [w] else [])) \<le> length w" "length (concat (if b then [v] else [w])) \<le> max (length v) (length w)"
  by simp_all

lemma word_in: "w \<in> A \<Longrightarrow> set (if b then [w] else []) \<subseteq> A" "v \<in> A \<Longrightarrow> w \<in> A \<Longrightarrow> set (if b then [v] else [w]) \<subseteq> A"
  by auto

lemma words_known: "set (pte_words e) \<subseteq> set flag_words" "set (pde_words e) \<subseteq> set flag_words"
  unfolding pte_words_def pde_words_def set_append by (intro Un_least word_in; simp add: flag_words_def)+

lemma words_bounded: "length (concat (pte_words e)) \<le> 95" "length (concat (pde_words e)) \<le> 93" "concat (pte_words e) \<noteq> []"
proof -
  show "length (concat (pte_words e)) \<le> 95" unfolding pte_words_def concat_append length_append
    by (rule order_trans, (rule add_le_mono word_if)+) simp
  show "length (concat (pde_words e)) \<le> 93" unfolding pde_words_def concat_append length_append
    by (rule order_trans, (rule add_le_mono word_if)+) simp
  have "concat (if TEST_BIT e PTE_WRITABLE then [''Read/Write, ''] else [''Read, '']) \<noteq> []" by simp
  then show "concat (pte_words e) \<noteq> []" unfolding pte_words_def concat_append append_is_Nil_conv by blast
qed

lemma chars_append: "chars (s @ t) = chars s @ chars t"
  by (simp add: chars_def)

definition words_at :: "(u8 list \<Rightarrow> u32) \<Rightarrow> u32 \<Rightarrow> mem \<Rightarrow> string list \<Rightarrow> bool" where
  "words_at lit buf m ws \<longleftrightarrow> (\<forall>w\<in>set ws. cstr m (lit (chars w)) (chars w) \<and> region (lit (chars w)) (Suc (length w)) \<inter> region buf 256 = {})"

lemma words_at_agree: "words_at lit buf m ws \<Longrightarrow> agree (region buf 256) m m' \<Longrightarrow> words_at lit buf m' ws"
  unfolding words_at_def by (metis cstr_agree chars_def length_map)

lemma append_words_run:
  assumes "cstr m buf t" "words_at lit buf m ws" "length t + length (concat ws) < 256" "\<forall>w\<in>set ws. 0 \<notin> set (chars w)"
  shows "\<exists>m'. append_words lit buf ws m = Some m' \<and> cstr m' buf (t @ chars (concat ws)) \<and> agree (region buf 256) m m'"
  using assms
proof (induction ws arbitrary: m t)
  case Nil
  then show ?case by (simp add: chars_def)
next
  case (Cons w ws)
  let ?m = "store m buf (t @ chars w @ [0])"
  have len: "length (chars w) = length w" by (simp add: chars_def)
  have w: "cstr m (lit (chars w)) (chars w)" "region (lit (chars w)) (Suc (length w)) \<inter> region buf 256 = {}"
    using Cons.prems(2) by (simp_all add: words_at_def)
  have sub: "region buf (length t + Suc (length w)) \<subseteq> region buf 256" using Cons.prems(3) by (intro region_subset) simp
  have "strcat buf (lit (chars w)) m = Some (buf, ?m)"
    using Cons.prems(1,3) w sub by (intro strcat_store) (auto simp: len MAX_STRING_LEN_def)
  moreover have "0 \<notin> set t" using Cons.prems(1) by (auto simp: cstr_def in_set_conv_nth)
  then have c: "cstr ?m buf (t @ chars w)" using cstr_store [of "t @ chars w" m buf] Cons.prems(3,4) by (simp add: len)
  moreover have a: "agree (region buf 256) m ?m" using Cons.prems(3) by (intro agree_scratch [of _ 256]) (simp_all add: len)
  moreover have "words_at lit buf ?m ws" using words_at_agree [OF _ a, of lit ws] Cons.prems(2) by (simp add: words_at_def)
  then obtain m' where "append_words lit buf ws ?m = Some m'" "cstr m' buf ((t @ chars w) @ chars (concat ws))" "agree (region buf 256) ?m m'"
    using Cons.IH [OF c] Cons.prems(3,4) by (auto simp: len)
  ultimately show ?case using agree_trans [OF a] by (simp add: chars_append)
qed

lemma flag_words_plain: "\<forall>w\<in>set flag_words. 0 \<notin> set (chars w)"
  by (simp add: flag_words_def chars_def)

lemma append_cleared:
  assumes "words_at lit buf m flag_words" "set ws \<subseteq> set flag_words" "length (concat ws) < 256"
  shows "\<exists>m'. append_words lit buf ws (snd (memset buf 0 256 m)) = Some m' \<and> cstr m' buf (chars (concat ws)) \<and> agree (region buf 256) m m'"
proof -
  let ?m = "store m buf (replicate 256 0)"
  have c: "cstr ?m buf []" using store_at [of 0 "replicate 256 0" m buf] by (simp add: cstr_def)
  have a: "agree (region buf 256) m ?m" by (intro agree_scratch [of _ 256]) simp_all
  have "words_at lit buf ?m ws" using words_at_agree [OF assms(1) a] assms(2) by (auto simp: words_at_def)
  from append_words_run [OF c this] assms(2,3) flag_words_plain obtain m' where
    "append_words lit buf ws ?m = Some m'" "cstr m' buf (chars (concat ws))" "agree (region buf 256) ?m m'" by auto
  then show ?thesis using agree_trans [OF a] by (auto simp: memset_store)
qed

text \<open>
  The text of the flags of an entry: the words of the bits that are set, in order; for a page table entry the
  last character, a blank, is taken off (the comma before it stays). It fits the array of 256
  bytes with room to spare, and nothing outside the array is written.
\<close>

lemma ptable_print_flags:
  assumes "words_at lit buf m flag_words"
  shows "\<exists>r m'. ptable_print_pde lit buf a e m = Some (r, m') \<and> cstr m' buf (chars (concat (pde_words e))) \<and> agree (region buf 256) m m'"
    and "\<exists>r m'. ptable_print_pte lit buf a e m = Some (r, m') \<and> cstr m' buf (chars (butlast (concat (pte_words e)))) \<and> agree (region buf 256) m m'"
proof -
  have "length (concat (pde_words e)) < 256" using words_bounded(2) [of e] by linarith
  from append_cleared [OF assms words_known(2) this] show
    "\<exists>r m'. ptable_print_pde lit buf a e m = Some (r, m') \<and> cstr m' buf (chars (concat (pde_words e))) \<and> agree (region buf 256) m m'"
    by (auto simp: ptable_print_pde_def)
  let ?t = "chars (concat (pte_words e))"
  have b: "length (concat (pte_words e)) < 256" using words_bounded(1) [of e] by linarith
  from append_cleared [OF assms words_known(1) b] obtain m1 where
    m1: "append_words lit buf (pte_words e) (snd (memset buf 0 256 m)) = Some m1" "cstr m1 buf ?t" "agree (region buf 256) m m1" by blast
  obtain u c where u: "?t = u @ [c]" "u = chars (butlast (concat (pte_words e)))"
    using words_bounded(3) [of e] by (metis append_butlast_last_id chars_def map_append map_butlast map_is_Nil_conv list.simps(8,9))
  have lt: "length (concat (pte_words e)) = Suc (length u)" using u(1) by (metis chars_def length_append_singleton length_map)
  have lu: "Suc (length u) < 256" using lt b by simp
  have len: "strlen m1 buf = of_nat (Suc (length u))" using strlen_at [OF m1(2)] b lt by (simp add: chars_def MAX_STRING_LEN_def)
  have "m1 (buf + of_nat (Suc (length u))) = 0" using m1(2) u(1) by (simp add: cstr_def)
  then have m2: "m1(buf + strlen m1 buf := 0) = m1" unfolding len by (intro fun_upd_idem)
  let ?m3 = "m1(buf + of_nat (length u) := 0)"
  have e: "buf + (strlen m1 buf - 1) = buf + of_nat (length u)" unfolding len by simp
  have "m1 (buf + of_nat i) = u ! i \<and> u ! i \<noteq> 0 \<and> buf + of_nat i \<noteq> buf + of_nat (length u)" if "i < length u" for i
  proof -
    have "unat (of_nat i :: u32) \<noteq> unat (of_nat (length u) :: u32)" using that lu by (simp add: unat_of_nat)
    then have "(of_nat i :: u32) \<noteq> of_nat (length u)" by metis
    then show ?thesis using m1(2) that unfolding u(1) cstr_def by (metis add_left_cancel length_append_singleton less_Suc_eq nth_append)
  qed
  then have "cstr ?m3 buf u" using lu unfolding cstr_def by simp
  moreover have "buf + of_nat (length u) \<in> region buf 256" using lu by (intro region_at) simp_all
  then have "agree (region buf 256) m ?m3" using m1(3) by (auto simp: agree_def)
  ultimately show "\<exists>r m'. ptable_print_pte lit buf a e m = Some (r, m') \<and> cstr m' buf (chars (butlast (concat (pte_words e)))) \<and> agree (region buf 256) m m'"
    using m1(1) m2 e u(2) by (simp add: ptable_print_pte_def Let_def)
qed

section \<open>Walks\<close>

lemma slab_lines_path: "npath (\<lambda>x. next_slab (headers s x)) p xs \<Longrightarrow> slab_lines s p = Some (map (\<lambda>x. slab_line (headers s x) x) xs)"
proof (induction xs arbitrary: p)
  case Nil
  then show ?case by (subst slab_lines.simps) simp
next
  case (Cons x xs)
  then show ?case by (subst slab_lines.simps) simp
qed

text \<open>What a line says of a slab with \<open>n\<close> free objects.\<close>

definition slab_facts :: "u32 \<Rightarrow> u32 \<Rightarrow> nat \<Rightarrow> report_arg list" where
  "slab_facts x objs n = [Word x, Word (x + 65536), Word 16, Word 65536, Word 4, Word objs, Word (of_nat n), Word (objs - of_nat n)]"

lemma slab_line_facts:
  assumes "slab_ok s x fs"
  shows "snd (slab_line (headers s x) x) = slab_facts x (object_count (headers s x)) (length fs)"
proof -
  have "unat (sh_free_count (headers s x)) = length fs" using assms by (simp add: slab_ok_def)
  then have "sh_free_count (headers s x) = of_nat (length fs)" by (metis of_nat_unat ucast_id)
  moreover have "page_order (headers s x) = 4" using assms by (simp add: slab_ok_def)
  ultimately show ?thesis by (simp add: slab_line_def slab_facts_def Let_def PAGE_SIZE_def PAGE_SHIFT_def)
qed

text \<open>What the report says of the cache \<open>c\<close> at \<open>a\<close> with the slabs \<open>xs\<close>.\<close>

definition cache_facts :: "u32 \<Rightarrow> slab_cache_t \<Rightarrow> u32 list \<Rightarrow> (u32 \<Rightarrow> u32 list) \<Rightarrow> 'p slab_state \<Rightarrow> report_arg list list" where
  "cache_facts a c xs F s =
     [[Text (cache_name c), Word a, Word (object_size c)]] @ (if xs = [] then [[]] else []) @
     map (\<lambda>x. slab_facts x (object_count (headers s x)) (length (F x))) xs @ [[]]"

lemma cache_report_run:
  assumes "heap_ok S F s" "cache_ok c xs S s"
  shows "\<exists>r. slab_cache_print_debug a c s = Some r \<and> map snd r = cache_facts a c xs F s"
proof -
  have p: "npath (\<lambda>x. next_slab (headers s x)) (first_slab c) xs" "set xs \<subseteq> S" using assms(2) by (simp_all add: cache_ok_def)
  have "slab_ok s x (F x)" if "x \<in> set xs" for x using that p(2) heap_okD [OF assms(1)] by blast
  then have "map (\<lambda>x. snd (slab_line (headers s x) x)) xs = map (\<lambda>x. slab_facts x (object_count (headers s x)) (length (F x))) xs"
    by (simp add: slab_line_facts)
  moreover have "first_slab c = 0 \<longleftrightarrow> xs = []" using p(1) by (cases xs) auto
  ultimately show ?thesis using slab_lines_path [OF p(1)] by (simp add: slab_cache_print_debug_def cache_facts_def comp_def)
qed

lemma cache_reports_run:
  assumes "kmalloc_ok H F S s" "\<forall>i\<in>set js. i < 13"
  shows "\<exists>r. cache_reports adr s js = Some r \<and> map snd r = concat (map (\<lambda>i. cache_facts (adr i) (slab_caches s ! i) (H i) F (kmem s)) js)"
  using assms(2)
proof (induction js)
  case (Cons i js)
  have "heap_ok S F (kmem s)" "cache_ok (slab_caches s ! i) (H i) S (kmem s)" using assms(1) Cons.prems by (simp_all add: kmalloc_ok_def)
  from cache_report_run [OF this, of "adr i"] Cons show ?case by auto
qed simp

lemma task_walk_chain:
  assumes "chain (tnodes s) a (map TaskNode xs) TaskHead" "\<forall>x\<in>set xs. tasks s x \<noteq> None"
  shows "task_walk s (next_node (tnodes s a)) = Some (concat (map (\<lambda>x. task_lines x (the (tasks s x))) xs))"
  using assms
proof (induction xs arbitrary: a)
  case Nil
  then show ?case by (subst task_walk.simps) simp
next
  case (Cons x xs)
  then show ?case by (subst task_walk.simps) auto
qed

lemma task_print_run:
  assumes "tasks_ok xs s"
  shows "task_print s = Some ([(nl ''Task List'', []), (nl ''-----------------------------'', [])] @
    concat (map (\<lambda>x. task_lines x (the (tasks s x))) xs) @ [(nl [], [])], s)"
proof -
  have l: "\<not> task_lock s" and c: "chain (tnodes s) TaskHead (map TaskNode xs) TaskHead" "\<forall>x\<in>set xs. tasks s x \<noteq> None"
    using assms by (simp_all add: tasks_ok_def clist_def)
  have "task_walk (s\<lparr>task_lock := True\<rparr>) (next_node (tnodes s TaskHead)) = Some (concat (map (\<lambda>x. task_lines x (the (tasks s x))) xs))"
    using task_walk_chain [of "s\<lparr>task_lock := True\<rparr>"] c by simp
  then show ?thesis using l by (simp add: task_print_def acquire_def release_def lock_def unlock_def)
qed

text \<open>What the report says of a task: the numbers and the text of each of its seven lines.\<close>

definition state_name :: "u32 \<Rightarrow> string" where
  "state_name n = case_option ''UNKNOWN'' id
     (map_of [(0, ''EMPTY''), (1, ''RUNNING''), (2, ''WAITING''), (3, ''PAUSED''), (4, ''KILLED'')] n)"

definition task_facts :: "u32 \<Rightarrow> task \<Rightarrow> report_arg list list" where
  "task_facts a t = [[Word (t_id t), String_At (a + 48), Text (state_name (t_state t)), Word (t_priority t)],
     [Text (if t_type t = 0 then ''Kernel'' else ''Usermode'')], [Word (kstack_top t), Word (kstack_bot t)], [Word (kstack_size t)],
     [Word (kstack_bot t - kstack_top t)], [Word (t_vm_space t)], [Word (t_ticks t)]]"

lemma task_lines_facts: "map snd (task_lines a t) = task_facts a t"
  by (simp add: task_lines_def task_facts_def state_str_def state_name_def rotary_const)

text \<open>
  What the report says of the page allocator. The end of the page structs is wrong: it lies 24 bytes per page behind their start, the
  report adds 576.
\<close>

definition palloc_facts :: "free_lists \<Rightarrow> buddy_allocator \<Rightarrow> report_arg list list" where
  "palloc_facts fl b = [[], [Word (page_count b)], [Word 6], [Word (page_area_addr b)], [Word (page_area_addr b + 576 * page_count b)]] @
     map (\<lambda>k. [Word (of_nat k), Word (of_nat (length (fl k)))]) [0..<7]"

lemma buddy_report_facts:
  assumes "buddy_ok A fl b"
  shows "map snd (buddy_print_debug b) = palloc_facts fl b"
proof -
  have "\<forall>k\<le>6. free_count (blocks b ! k) = of_nat (length (fl k))" using assms by (simp add: buddy_ok_def buddy_rep_def)
  then show ?thesis by (simp add: buddy_print_debug_def palloc_facts_def ORDER_MAX_def SIZEOF_PAGE_def comp_def)
qed

lemma wrong_end:
  assumes "0 < (n :: u32)" "n \<le> 2 ^ 20"
  shows "a + 576 * n \<noteq> a + 24 * n"
proof
  assume "a + 576 * n = a + 24 * n"
  then have "552 * n = 0" by (simp add: algebra_simps)
  moreover have "unat n \<le> 2 ^ 20" using assms(2) by (simp add: word_le_nat_alt)
  then have "unat (552 * n) = 552 * unat n" by (simp add: unat_word_ariths)
  ultimately have "unat n = 0" by simp
  then show False using assms(1) by (simp add: unat_eq_zero)
qed

lemma page_fault_unreported: "isr_report cr2 (r\<lparr>int_num := INT_PAGE_FAULT\<rparr>) = []"
  by (simp add: isr_report_def)

section \<open>Property\<close>



end
