(* ===== verification/Shell.thy ===== *)
theory Shell
  imports Console Ktest Reports
begin

text \<open>
  The kernel shell, \<^verbatim>\<open>kernel/core/shell.c\<close>: line editing in a buffer of 256 bytes, echoed on the bottom line
  of the screen, and the commands. The shell runs in the keyboard interrupt. Addresses of the
  buffer, of string literals and of locals are a record. Debug messages to the serial
  port are left out; the reports behind the commands \<^verbatim>\<open>slab\<close>, \<^verbatim>\<open>dump-kmalloc\<close>, \<^verbatim>\<open>tasks\<close> and \<^verbatim>\<open>fstype\<close>, which walk
  lists and may not return, are run and their text is dropped.
\<close>

section \<open>State\<close>

definition KEY_ENTER :: u8 where [rotary_const]: "KEY_ENTER = 0x1C"
definition KEY_BACKSPACE :: u8 where [rotary_const]: "KEY_BACKSPACE = 0x0E"

definition ascii :: "string \<Rightarrow> u8 list" where
  "ascii s = map of_char s"

text \<open>\<open>sh_lit t\<close> is the address of the literal \<open>t\<close>; \<open>sh_key\<close> is that of the parameter \<^verbatim>\<open>key\<close>, \<open>sh_fs_type\<close> that of the local struct.\<close>

record shell_layout =
  sh_kernel :: kernel_layout
  sh_input_buffer :: u32
  sh_lit :: "u8 list \<Rightarrow> u32"
  sh_date :: u32
  sh_time :: u32
  sh_key :: u32
  sh_fs_type :: u32
  sh_frame :: printk_frame
  sh_apple :: u32
  sh_slab_caches :: "nat \<Rightarrow> u32"
  sh_keyboard_handler :: u32

record shell =
  sh_k :: kernel
  ktask1 :: u32
  sh_modules :: "kernel ktest_module list"

definition k_mem :: "kernel \<Rightarrow> mem" where
  "k_mem K = vmem (k_vga K)"

definition put_mem :: "mem \<Rightarrow> kernel \<Rightarrow> kernel" where
  "put_mem m K = K\<lparr>k_vga := (k_vga K)\<lparr>vmem := m\<rparr>\<rparr>"

definition on_vga :: "(vga_state_t \<Rightarrow> vga_state_t) \<Rightarrow> shell \<Rightarrow> shell" where
  "on_vga f st = st\<lparr>sh_k := (sh_k st)\<lparr>k_vga := f (k_vga (sh_k st))\<rparr>\<rparr>"

definition on_vga_opt :: "(vga_state_t \<Rightarrow> vga_state_t option) \<Rightarrow> shell \<Rightarrow> shell option" where
  "on_vga_opt f st = do { v \<leftarrow> f (k_vga (sh_k st)); Some (st\<lparr>sh_k := (sh_k st)\<lparr>k_vga := v\<rparr>\<rparr>) }"

text \<open>Calls of the scheduler and of the file system see the one byte memory and the one heap.\<close>

definition on_sched :: "(sched_state \<Rightarrow> ('a \<times> sched_state) option) \<Rightarrow> kernel \<Rightarrow> ('a \<times> kernel) option" where
  "on_sched f K = do {
     (r, s) \<leftarrow> f ((k_sched K)\<lparr>bytes := k_mem K\<rparr>);
     Some (r, put_mem (bytes s) (put_sched s K))
   }"

definition on_vfs :: "(vfs_state \<Rightarrow> ('a \<times> vfs_state) option) \<Rightarrow> kernel \<Rightarrow> ('a \<times> kernel) option" where
  "on_vfs f K = do {
     (r, v) \<leftarrow> f ((k_vfs K)\<lparr>vfs_heap := k_heap K, vfs_mem := k_mem K\<rparr>);
     Some (r, put_mem (vfs_mem v) (put_heap (vfs_heap v) (K\<lparr>k_vfs := v\<rparr>)))
   }"

section \<open>Line editing\<close>

definition shell_print_prompt :: "shell_layout \<Rightarrow> shell \<Rightarrow> shell" where
  "shell_print_prompt L st =
     on_vga (\<lambda>v. vga_set_cursor 7 24 (vga_overwrite_line (sh_lit L (ascii ''shell> '')) (ucast VGA_COLOUR_WHITE) (ucast VGA_COLOUR_BLACK) 24 v)) st"

definition shell_delete_from_input_buffer :: "shell_layout \<Rightarrow> shell \<Rightarrow> shell" where
  "shell_delete_from_input_buffer L st =
     on_vga (\<lambda>v. let m1 = (vmem v)(sh_input_buffer L + strlen (vmem v) (sh_input_buffer L) := 0);
                     m2 = m1(sh_input_buffer L + (strlen m1 (sh_input_buffer L) - 1) := 0)
                 in v\<lparr>vmem := m2\<rparr>) st"

definition shell_clear_input_buffer :: "shell_layout \<Rightarrow> shell \<Rightarrow> shell" where
  "shell_clear_input_buffer L st = on_vga (\<lambda>v. v\<lparr>vmem := snd (memset (sh_input_buffer L) 0 256 (vmem v))\<rparr>) st"

section \<open>Commands\<close>

text \<open>A task with one mapping, for the commands \<^verbatim>\<open>kt\<close> and \<^verbatim>\<open>ut\<close>; the task's address is returned.\<close>

definition task_with_map ::
  "shell_layout \<Rightarrow> u32 \<Rightarrow> u32 \<Rightarrow> u32 \<Rightarrow> u32 \<Rightarrow> u32 \<Rightarrow> sched_state \<Rightarrow> (u32 \<times> sched_state) option" where
  "task_with_map L name type entry start stop s = do {
     let l = sh_kernel L;
     (t, s1) \<leftarrow> task_create (l_image l) (l_kernel_pgd l) (l_isr_exit l) name type entry TASK_PRIORITY_MIN TASK_STATE_WAITING s;
     (m, v1) \<leftarrow> vm_map_new (vm s1);
     let v2 = v1\<lparr>maps := (maps v1)(m := (maps v1 m)\<lparr>map_start := start, map_end := stop\<rparr>)\<rparr>;
     tsk \<leftarrow> tasks s1 t;
     v3 \<leftarrow> vm_space_add_map (t_vm_space tsk) m v2;
     Some (t, s1\<lparr>vm := v3\<rparr>)
   }"

definition command_kt :: "shell_layout \<Rightarrow> shell \<Rightarrow> shell option" where
  "command_kt L st = do {
     (t, K) \<leftarrow> on_sched (task_with_map L (sh_lit L (ascii ''ktask_test1'')) TASK_KERNEL (sh_apple L) 0x300000 0x400000) (sh_k st);
     Some (st\<lparr>sh_k := K, ktask1 := t\<rparr>)
   }"

definition command_ut :: "shell_layout \<Rightarrow> shell \<Rightarrow> shell option" where
  "command_ut L st = do {
     (_, K) \<leftarrow> on_sched (task_with_map L (sh_lit L (ascii ''utask_test1'')) TASK_USERMODE 0x400000 0x400000 0x600000) (sh_k st);
     Some (st\<lparr>sh_k := K\<rparr>)
   }"

definition command_fstype :: "shell_layout \<Rightarrow> shell \<Rightarrow> shell option" where
  "command_fstype L st = do {
     (_, K) \<leftarrow> on_vfs (\<lambda>v. do {
       _ \<leftarrow> file_system_type_print_debug v;
       let v1 = v\<lparr>fs_types := (fs_types v)(sh_fs_type L :=
         \<lparr>fs_name = sh_lit L (ascii ''test123''), fs_flags = 0, fs_super_alloc = Null_Fn, fs_super_dealloc = 0\<rparr>)\<rparr>;
       v2 \<leftarrow> file_system_type_register (sh_fs_type L) v1;
       (_, v3) \<leftarrow> file_system_type_get (sh_lit L (ascii ''test123'')) v2;
       _ \<leftarrow> file_system_type_print_debug v3;
       v4 \<leftarrow> file_system_type_unregister (sh_fs_type L) v3;
       _ \<leftarrow> file_system_type_print_debug v4;
       file_system_type_get (sh_lit L (ascii ''test123'')) v4
     }) (sh_k st);
     Some (st\<lparr>sh_k := K\<rparr>)
   }"

definition command_test :: "shell_layout \<Rightarrow> string \<Rightarrow> shell \<Rightarrow> shell option" where
  "command_test L name st = do {
     (mds, K) \<leftarrow> ktest_run_module k_mem (sh_lit L (ascii name)) (sh_modules st, sh_k st);
     Some (st\<lparr>sh_k := K, sh_modules := mds\<rparr>)
   }"

definition command_run_tests :: "shell \<Rightarrow> shell option" where
  "command_run_tests st = do {
     (mds, K) \<leftarrow> ktest_run_all k_mem (sh_modules st, sh_k st);
     Some (st\<lparr>sh_k := K, sh_modules := mds\<rparr>)
   }"

definition command_clear :: "shell \<Rightarrow> shell option" where
  "command_clear st = Some (on_vga (fold (\<lambda>i. vga_clear_line (of_nat i)) [4..<VGA_HEIGHT]) st)"

definition command_build :: "shell_layout \<Rightarrow> shell \<Rightarrow> shell option" where
  "command_build L st = on_vga_opt (vga_printf (sh_frame L) (sh_lit L (ascii ''Kernel built: %s %s'')) [sh_date L, sh_time L]) st"

definition command_slab :: "shell_layout \<Rightarrow> shell \<Rightarrow> shell option" where
  "command_slab L st = do { _ \<leftarrow> kmalloc_print_debug (sh_slab_caches L) (k_heap (sh_k st)); Some st }"

definition command_tasks :: "shell \<Rightarrow> shell option" where
  "command_tasks st = do { (_, K) \<leftarrow> on_sched task_print (sh_k st); Some (st\<lparr>sh_k := K\<rparr>) }"

text \<open>
  The tests in the order of \<^verbatim>\<open>shell_process_command\<close>: the names compared with, what is done, and whether the
  function returns then.
\<close>

definition shell_commands :: "shell_layout \<Rightarrow> (string list \<times> (shell \<Rightarrow> shell option) \<times> bool) list" where
  "shell_commands L =
     [([''kt''], command_kt L, True),
      ([''fstype''], command_fstype L, False),
      ([''vm-test''], command_test L ''vm'', False),
      ([''string-test''], command_test L ''string'', False),
      ([''slab-test''], command_test L ''awodawd'', False),
      ([''palloc-test''], command_test L ''palloc'', False),
      ([''run-tests''], command_run_tests, False),
      ([''dump-kmalloc''], command_slab L, False),
      ([''ut''], command_ut L, True),
      ([''clear'', ''cls''], command_clear, True),
      ([''build''], command_build L, True),
      ([''tasks''], command_tasks, True),
      ([''slab''], command_slab L, False),
      ([''buddy''], Some, False),
      ([''mem''], Some, False)]"

primrec is_command :: "shell_layout \<Rightarrow> mem \<Rightarrow> u32 \<Rightarrow> string list \<Rightarrow> bool option" where
  "is_command L m command [] = Some False"
| "is_command L m command (n # ns) = do {
     r \<leftarrow> strcmp m command (sh_lit L (ascii n));
     (if r = 0 then Some True else is_command L m command ns)
   }"

primrec run_commands ::
  "shell_layout \<Rightarrow> u32 \<Rightarrow> (string list \<times> (shell \<Rightarrow> shell option) \<times> bool) list \<Rightarrow> shell \<Rightarrow> (bool \<times> shell) option" where
  "run_commands L command [] st = Some (False, st)"
| "run_commands L command (c # cs) st = do {
     hit \<leftarrow> is_command L (k_mem (sh_k st)) command (fst c);
     (if \<not> hit then run_commands L command cs st
      else do {
        st1 \<leftarrow> fst (snd c) st;
        (if snd (snd c) then Some (True, st1) else run_commands L command cs st1)
      })
   }"

definition shell_process_command :: "shell_layout \<Rightarrow> u32 \<Rightarrow> shell \<Rightarrow> shell option" where
  "shell_process_command L command st = do {
     (returned, st1) \<leftarrow> run_commands L command (shell_commands L) st;
     (if returned then Some st1
      else on_vga_opt (vga_printf (sh_frame L) (sh_lit L (ascii ''Unknown command: %s'')) [command]) st1)
   }"

definition shell_keyboard_handler :: "shell_layout \<Rightarrow> u8 \<Rightarrow> shell \<Rightarrow> shell option" where
  "shell_keyboard_handler L key st0 =
     (let st = on_vga (\<lambda>v. v\<lparr>vmem := (vmem v)(sh_key L := key)\<rparr>) st0
      in if key = KEY_ENTER
         then do {
           st1 \<leftarrow> shell_process_command L (sh_input_buffer L) (on_vga (\<lambda>v. (vga_scroll_up 1 TOP_LINE v)\<lparr>cursor_x := 0\<rparr>) st);
           Some (shell_print_prompt L (shell_clear_input_buffer L st1))
         }
         else if key = KEY_BACKSPACE
         then Some (on_vga vga_delete_char_at_cursor (shell_delete_from_input_buffer L st))
         else if key \<noteq> 0
         then on_vga_opt (\<lambda>v. do {
                (_, m) \<leftarrow> strcat (sh_input_buffer L) (sh_key L) ((vmem v)(sh_key L + 1 := 0));
                Some (vga_print_char_at_cursor (m (sh_key L)) (v\<lparr>vmem := m\<rparr>))
              }) st
         else Some st)"

text \<open>\<^verbatim>\<open>shell_init\<close> up to its endless loop.\<close>

definition shell_init :: "shell_layout \<Rightarrow> shell \<Rightarrow> shell" where
  "shell_init L st =
     (let st1 = on_vga (vga_scroll_up 1 TOP_LINE) st;
          K = sh_k st1;
          st2 = st1\<lparr>sh_k := K\<lparr>k_machine := snd (keyboard_register_handler (sh_keyboard_handler L) (k_machine K))\<rparr>\<rparr>
      in shell_print_prompt L st2)"

definition shell_register_handler :: "u32 \<Rightarrow> u32 \<Rightarrow> shell \<Rightarrow> shell" where
  "shell_register_handler command h st = st"

end
