(* ===== verification/Shell_Props.thy ===== *)
theory Shell_Props
  imports Shell
begin

text \<open>
  Properties of the shell. The abstract line editor works on a list of characters; the lemmas relate it to
  buffer, screen and cursor, key by key, and the theorems lift that to sequences of keys, to the
  Enter key and to the two ends of the buffer.
\<close>

section \<open>The abstract editor\<close>

definition prompt :: "u8 list" where
  "prompt = ascii ''shell> ''"

lemma prompt_eq: "prompt = [115, 104, 101, 108, 108, 62, 32]"
  by (simp add: prompt_def ascii_def)

lemma prompt_len [simp]: "length prompt = 7"
  by (simp add: prompt_eq)

definition type_key :: "u8 \<Rightarrow> u8 list \<Rightarrow> u8 list" where
  "type_key k line = (if k = KEY_BACKSPACE then butlast line else if k = 0 then line else line @ [k])"

text \<open>Keys the editor handles without leaving the line: text that fits, and deletion of what is there.\<close>

definition editing :: "u8 list \<Rightarrow> u8 \<Rightarrow> bool" where
  "editing line k \<longleftrightarrow> k \<notin> {KEY_ENTER, 10, 11, 12, 13} \<and> (k = KEY_BACKSPACE \<longrightarrow> line \<noteq> []) \<and> length (type_key k line) \<le> 73"

abbreviation editable :: "u8 list \<Rightarrow> bool" where
  "editable ks \<equiv> allowed editing type_key [] ks"

abbreviation shell_keys :: "shell_layout \<Rightarrow> u8 list \<Rightarrow> shell \<Rightarrow> shell option" where
  "shell_keys L \<equiv> run_ops (shell_keyboard_handler L)"

section \<open>Layout\<close>

definition shell_bytes :: "shell_layout \<Rightarrow> u32 set" where
  "shell_bytes L = region (sh_input_buffer L) 256 \<union> region (sh_key L) 2 \<union> screen_region"

definition buffers_ok :: "shell_layout \<Rightarrow> bool" where
  "buffers_ok L \<longleftrightarrow> region (sh_input_buffer L) 256 \<inter> screen_region = {} \<and> region (sh_key L) 2 \<inter> screen_region = {} \<and>
     region (sh_key L) 2 \<inter> region (sh_input_buffer L) 256 = {}"

text \<open>The bottom line shows the prompt, the edited line and blanks, with the cursor behind the line.\<close>

definition line_shown :: "shell_layout \<Rightarrow> u8 list \<Rightarrow> vga_state_t \<Rightarrow> bool" where
  "line_shown L line v \<longleftrightarrow> cstr (vmem v) (sh_input_buffer L) line \<and> length line \<le> 73 \<and>
     cursor_x v = of_nat (7 + length line) \<and> cursor_y v = of_nat 24 \<and>
     (\<forall>x<80. glyph v x 24 = (if x < 7 then (prompt ! x, colour_byte 7 0)
        else if x < 7 + length line then (line ! (x - 7), colour_byte (ucast (current_fg_colour v)) 0) else blank))"

lemma region_key: "a \<in> region p 2 \<longleftrightarrow> a = p \<or> a = p + 1"
proof
  assume "a \<in> region p 2"
  then have "unat (a - p) = 0 \<or> unat (a - p) = 1" by (auto simp: region_def)
  then have "a - p = 0 \<or> a - p = 1" using unat_eqI [of "a - p" 0] unat_eqI [of "a - p" 1] by auto
  then show "a = p \<or> a = p + 1" by (auto simp: algebra_simps eq_diff_eq)
qed (auto simp: region_def)

text \<open>The stored key is a string of one character.\<close>

lemma key_string:
  assumes "k \<noteq> 0" shows "cstr (m(p := k, p + 1 := 0)) p [k]"
  using assms by (simp add: cstr_def)

lemma key_agree: "agree (region p 2) m (m(p := k))" "agree (region p 2) m (m(p := k, p + 1 := 0))"
  by (auto simp: agree_def region_key)

lemma glyph_same: "agree S (vmem v) m \<Longrightarrow> S \<inter> screen_region = {} \<Longrightarrow> x < 80 \<Longrightarrow> y < 25 \<Longrightarrow> glyph (v\<lparr>vmem := m\<rparr>) x y = glyph v x y"
  by (rule glyph_agree)

section \<open>One key\<close>

lemma append_key:
  assumes "cstr m (sh_input_buffer L) line" "k \<noteq> 0" "length line < n" "n \<le> 512"
    and "region (sh_key L) 2 \<inter> region (sh_input_buffer L) (Suc n) = {}"
  shows "\<exists>m'. strcat (sh_input_buffer L) (sh_key L) (m(sh_key L := k, sh_key L + 1 := 0)) = Some (sh_input_buffer L, m') \<and>
    cstr m' (sh_input_buffer L) (line @ [k]) \<and> m' (sh_key L) = k \<and> agree (region (sh_input_buffer L) (Suc n) \<union> region (sh_key L) 2) m m'"
proof -
  let ?b = "sh_input_buffer L" and ?p = "sh_key L"
  let ?m1 = "m(?p := k, ?p + 1 := 0)"
  let ?m' = "store ?m1 ?b (line @ [k] @ [0])"
  have sub: "region ?b (length line + Suc (length [k])) \<subseteq> region ?b (Suc n)" using assms(3) by (intro region_subset) simp
  have "region ?b (Suc (length line)) \<subseteq> region ?b (Suc n)" using assms(3) by (intro region_subset) simp
  then have "cstr ?m1 ?b line" using assms(5) by (intro cstr_agree [OF assms(1) key_agree(2)]) blast
  moreover have "length line \<le> MAX_STRING_LEN" using assms(3,4) by (simp add: MAX_STRING_LEN_def)
  moreover have "region ?p (Suc (length [k])) \<inter> region ?b (length line + Suc (length [k])) = {}"
    using assms(5) sub by (auto simp: numeral_2_eq_2)
  ultimately have "strcat ?b ?p ?m1 = Some (?b, ?m')"
    using key_string [OF assms(2), of m ?p] by (intro strcat_store) simp_all
  moreover have "cstr ?m' ?b (line @ [k])"
    using assms(1-4) cstr_store [of "line @ [k]" ?m1 ?b] by (auto simp: cstr_def in_set_conv_nth)
  moreover have "?p \<notin> region ?b (length (line @ [k] @ [0]))" using assms(5) sub region_key [of ?p ?p] by auto
  then have "?m' ?p = k" by (simp add: store_outside)
  moreover have "agree (region ?b (Suc n)) ?m1 ?m'" using assms(3) by (intro agree_scratch [of _ "Suc n"]) simp_all
  from agree_trans [OF agree_mono [OF key_agree(2)] agree_mono [OF this]]
  have "agree (region ?b (Suc n) \<union> region ?p 2) m ?m'" by blast
  ultimately show ?thesis by blast
qed

lemma append_shown:
  assumes ok: "buffers_ok L" and line: "line_shown L line v" and k: "k \<noteq> 0" "k \<notin> {10, 11, 12, 13}" "length line < 73"
  shows "\<exists>m. strcat (sh_input_buffer L) (sh_key L) ((vmem v)(sh_key L := k, sh_key L + 1 := 0)) = Some (sh_input_buffer L, m) \<and> m (sh_key L) = k \<and>
    line_shown L (line @ [k]) (vga_print_char_at_cursor k (v\<lparr>vmem := m\<rparr>)) \<and>
    agree (shell_bytes L) (vmem v) (vmem (vga_print_char_at_cursor k (v\<lparr>vmem := m\<rparr>)))"
proof -
  let ?b = "sh_input_buffer L" and ?p = "sh_key L"
  have v: "cstr (vmem v) ?b line" "cursor_x v = of_nat (7 + length line)" "cursor_y v = of_nat 24"
    "\<And>x. x < 80 \<Longrightarrow> glyph v x 24 = (if x < 7 then (prompt ! x, colour_byte 7 0)
        else if x < 7 + length line then (line ! (x - 7), colour_byte (ucast (current_fg_colour v)) 0) else blank)"
    using line by (simp_all add: line_shown_def)
  obtain m where m: "strcat ?b ?p ((vmem v)(?p := k, ?p + 1 := 0)) = Some (?b, m)" "cstr m ?b (line @ [k])" "m ?p = k"
    "agree (region ?b 256 \<union> region ?p 2) (vmem v) m"
    using append_key [OF v(1) k(1), of 255] k(3) ok by (auto simp: buffers_ok_def)
  let ?v = "v\<lparr>vmem := m\<rparr>" let ?w = "vga_print_char_at_cursor k ?v"
  have g: "glyph ?v x 24 = glyph v x 24" if "x < 80" for x
    using that ok by (intro glyph_same [OF m(4)]) (auto simp: buffers_ok_def)
  have c: "cursor_x ?v = of_nat (7 + length line)" "7 + length line < 80" "cursor_y ?v = of_nat 24" using v(2,3) k(3) by simp_all
  note q = print_char_plain [OF k(2) c]
  have cur: "cursor_ok ?v" using v(2,3) k(3) by (simp add: cursor_ok_def unat_word_ariths unat_of_nat)
  have a: "agree screen_region m (vmem ?w)" using print_char_prints [OF cur, of k] by (simp add: prints_to_def agree_def)
  have "region ?b (Suc (length (line @ [k]))) \<subseteq> region ?b 256" using k(3) by (intro region_subset) simp
  then have "cstr (vmem ?w) ?b (line @ [k])" using ok by (intro cstr_agree [OF m(2) a]) (auto simp: buffers_ok_def)
  moreover have "glyph ?w x 24 = (if x < 7 then (prompt ! x, colour_byte 7 0)
      else if x < 7 + length (line @ [k]) then ((line @ [k]) ! (x - 7), colour_byte (ucast (current_fg_colour ?w)) 0) else blank)" if "x < 80" for x
    using q(1) [of x 24] q(4) [of x 24] g [OF that] v(4) [OF that] that by (auto simp: nth_append)
  ultimately have "line_shown L (line @ [k]) ?w" using q(2-3) [of 0 0] k(3) by (simp add: line_shown_def)
  moreover have "agree (shell_bytes L) (vmem v) (vmem ?w)"
    using m(4) a by (auto simp: agree_def shell_bytes_def)
  ultimately show ?thesis using m(1,3) by blast
qed

lemma delete_shown:
  fixes k :: u8
  assumes ok: "buffers_ok L" and line: "line_shown L (line @ [c]) v"
  defines "m \<equiv> (vmem v)(sh_key L := k)"
  shows "let m1 = m(sh_input_buffer L + strlen m (sh_input_buffer L) := 0);
             w = vga_delete_char_at_cursor (v\<lparr>vmem := m1(sh_input_buffer L + (strlen m1 (sh_input_buffer L) - 1) := 0)\<rparr>)
         in line_shown L line w \<and> agree (shell_bytes L) (vmem v) (vmem w)"
proof -
  let ?b = "sh_input_buffer L" and ?p = "sh_key L" let ?n = "length line"
  have v: "cstr (vmem v) ?b (line @ [c])" "?n < 73" "cursor_x v = of_nat (8 + ?n)" "cursor_y v = of_nat 24"
    "\<And>x. x < 80 \<Longrightarrow> glyph v x 24 = (if x < 7 then (prompt ! x, colour_byte 7 0)
        else if x < 8 + ?n then ((line @ [c]) ! (x - 7), colour_byte (ucast (current_fg_colour v)) 0) else blank)"
    using line by (simp_all add: line_shown_def)
  have "region ?b (Suc (length (line @ [c]))) \<subseteq> region ?b 256" using v(2) by (intro region_subset) simp
  then have cm: "cstr m ?b (line @ [c])" unfolding m_def
    using ok by (intro cstr_agree [OF v(1) key_agree(1)]) (auto simp: buffers_ok_def)
  have len: "strlen m ?b = of_nat (Suc ?n)" using strlen_at [OF cm] v(2) by (simp add: MAX_STRING_LEN_def)
  have at: "m (?b + of_nat (Suc ?n)) = 0" using cm by (simp add: cstr_def)
  have m1: "m(?b + strlen m ?b := 0) = m" unfolding len using at by (intro fun_upd_idem)
  have e: "?b + (strlen m ?b - 1) = ?b + of_nat ?n" unfolding len by simp
  let ?m2 = "m(?b + of_nat ?n := 0)"
  let ?v = "v\<lparr>vmem := ?m2\<rparr>" let ?w = "vga_delete_char_at_cursor ?v"
  have ne: "?b + of_nat i \<noteq> ?b + of_nat ?n" if "i < ?n" for i :: nat
  proof
    assume "?b + of_nat i = ?b + of_nat ?n"
    then have "unat (of_nat i :: u32) = unat (of_nat ?n :: u32)" by simp
    then show False using that v(2) by (simp add: unat_of_nat)
  qed
  have "m (?b + of_nat i) = line ! i \<and> line ! i \<noteq> 0" if "i < ?n" for i
    using cm that unfolding cstr_def by (metis length_append_singleton less_Suc_eq nth_append)
  then have c2: "cstr ?m2 ?b line" using ne v(2) unfolding cstr_def by simp
  have "?b + of_nat ?n \<in> region ?b 256" using v(2) by (intro region_at) simp_all
  then have a2: "agree (region ?b 256 \<union> region ?p 2) (vmem v) ?m2"
    using key_agree(1) [of ?p "vmem v" k] by (auto simp: agree_def m_def)
  have x: "cursor_x ?v = of_nat (8 + ?n)" "cursor_x ?v \<noteq> 0" "cursor_x ?v - 1 = of_nat (7 + ?n)" "cursor_y ?v = of_nat 24"
    using v(2,3,4) by (simp_all add: unat_eq_zero [symmetric] unat_word_ariths unat_of_nat)
  let ?u = "vga_set_character 32 0 0 (of_nat (7 + ?n)) (of_nat 24) ?v"
  have w: "?w = ?u\<lparr>cursor_x := cursor_x ?u - 1\<rparr>" unfolding vga_delete_char_at_cursor_def x(3,4) Let_def using x(2) by (simp add: VGA_COLOUR_BLACK_def)
  have so: "screen_only ?v ?u" using v(2) by (intro set_character_screen) simp_all
  note f = screen_only_fields [OF so]
  have fg: "current_fg_colour ?w = current_fg_colour v" unfolding w using f(4) by simp
  have aw: "agree screen_region ?m2 (vmem ?w)" unfolding w using f(5) by (simp add: agree_def)
  have g: "glyph ?w x' 24 = (if x' < 7 then (prompt ! x', colour_byte 7 0)
      else if x' < 7 + ?n then (line ! (x' - 7), colour_byte (ucast (current_fg_colour ?w)) 0) else blank)" if "x' < 80" for x'
  proof -
    have "glyph ?w x' 24 = glyph ?u x' 24" unfolding w glyph_def by simp
    also have "\<dots> = (if 7 + ?n = x' then (32, colour_byte 0 0) else glyph ?v x' 24)"
      using glyph_set_character [of "7 + ?n" 24 x' 24 32 0 0 ?v] v(2) that by simp
    also have "glyph ?v x' 24 = glyph v x' 24" using that ok by (intro glyph_same [OF a2]) (auto simp: buffers_ok_def)
    finally have "glyph ?w x' 24 = (if 7 + ?n = x' then (32, colour_byte 0 0) else glyph v x' 24)" .
    then show ?thesis unfolding fg using v(5) [OF that] by (auto simp: nth_append blank_def colour_byte_def)
  qed
  have "region ?b (Suc ?n) \<subseteq> region ?b 256" using v(2) by (intro region_subset) simp
  then have "cstr (vmem ?w) ?b line" using ok by (intro cstr_agree [OF c2 aw]) (auto simp: buffers_ok_def)
  moreover have "cursor_x ?w = of_nat (7 + ?n)" "cursor_y ?w = of_nat 24" unfolding w using f(1,2) x by simp_all
  ultimately have "line_shown L line ?w" using g v(2) by (simp add: line_shown_def)
  moreover have "agree (shell_bytes L) (vmem v) (vmem ?w)" using a2 aw by (auto simp: agree_def shell_bytes_def)
  ultimately show ?thesis by (simp add: m1 e)
qed

lemma ignored_shown:
  assumes ok: "buffers_ok L" and line: "line_shown L line v"
  shows "line_shown L line (v\<lparr>vmem := (vmem v)(sh_key L := k)\<rparr>)"
proof -
  have "region (sh_input_buffer L) (Suc (length line)) \<subseteq> region (sh_input_buffer L) 256"
    using line by (intro region_subset) (simp add: line_shown_def)
  then have "cstr ((vmem v)(sh_key L := k)) (sh_input_buffer L) line"
    using ok line by (intro cstr_agree [OF _ key_agree(1)]) (auto simp: buffers_ok_def line_shown_def)
  moreover have "glyph (v\<lparr>vmem := (vmem v)(sh_key L := k)\<rparr>) x 24 = glyph v x 24" if "x < 80" for x
    using that ok by (intro glyph_same [OF key_agree(1)]) (auto simp: buffers_ok_def)
  ultimately show ?thesis using line by (simp add: line_shown_def)
qed

text \<open>The state of the shell with another screen.\<close>

definition with_vga :: "shell \<Rightarrow> vga_state_t \<Rightarrow> shell" where
  "with_vga st v = st\<lparr>sh_k := (sh_k st)\<lparr>k_vga := v\<rparr>\<rparr>"

lemma with_vga_simps [simp]:
  "k_vga (sh_k (with_vga st v)) = v" "with_vga (with_vga st v) w = with_vga st w" "with_vga st (k_vga (sh_k st)) = st"
  by (simp_all add: with_vga_def)

lemma on_vga_with: "on_vga f st = with_vga st (f (k_vga (sh_k st)))"
  by (simp add: on_vga_def with_vga_def)

lemma on_vga_opt_with: "on_vga_opt f st = map_option (with_vga st) (f (k_vga (sh_k st)))"
  by (cases "f (k_vga (sh_k st))") (simp_all add: on_vga_opt_def with_vga_def)

lemma key_step:
  assumes ok: "buffers_ok L" and line: "line_shown L line (k_vga (sh_k st))"
    and k: "k \<notin> {KEY_ENTER, 10, 11, 12, 13}" "k = KEY_BACKSPACE \<longrightarrow> line \<noteq> []" "length (type_key k line) \<le> 73"
  shows "\<exists>v. shell_keyboard_handler L k st = Some (with_vga st v) \<and> line_shown L (type_key k line) v \<and>
    agree (shell_bytes L) (vmem (k_vga (sh_k st))) (vmem v)"
proof -
  let ?v = "k_vga (sh_k st)"
  consider "k = KEY_BACKSPACE" | "k = 0" | "k \<noteq> KEY_BACKSPACE" "k \<noteq> 0" by blast
  then show ?thesis
  proof cases
    case 1
    then obtain l c where l: "line = l @ [c]" using k(2) by (cases line rule: rev_cases) auto
    then have "type_key k line = l" using 1 by (simp add: type_key_def)
    moreover define m m1 where "m = (vmem ?v)(sh_key L := k)" and "m1 = m(sh_input_buffer L + strlen m (sh_input_buffer L) := 0)"
    define w where "w = vga_delete_char_at_cursor (?v\<lparr>vmem := m1(sh_input_buffer L + (strlen m1 (sh_input_buffer L) - 1) := 0)\<rparr>)"
    have "line_shown L l w \<and> agree (shell_bytes L) (vmem ?v) (vmem w)"
      using delete_shown [OF ok line [unfolded l], of k] unfolding Let_def w_def m1_def m_def .
    moreover have "shell_keyboard_handler L k st = Some (with_vga st w)"
      using 1 k(1) by (simp add: shell_keyboard_handler_def shell_delete_from_input_buffer_def on_vga_with Let_def w_def m1_def m_def)
    ultimately show ?thesis by auto
  next
    case 2
    then have "type_key k line = line" "k \<noteq> KEY_ENTER" "k \<noteq> KEY_BACKSPACE" by (simp_all add: type_key_def rotary_const)
    moreover have "agree (shell_bytes L) (vmem ?v) ((vmem ?v)(sh_key L := k))"
      by (rule agree_mono [OF key_agree(1)]) (auto simp: shell_bytes_def)
    moreover from calculation have "shell_keyboard_handler L k st = Some (with_vga st (?v\<lparr>vmem := (vmem ?v)(sh_key L := k)\<rparr>))"
      using 2 by (simp add: shell_keyboard_handler_def on_vga_with)
    ultimately show ?thesis
      using ignored_shown [OF ok line, of k] by (intro exI [of _ "?v\<lparr>vmem := (vmem ?v)(sh_key L := k)\<rparr>"]) simp
  next
    case 3
    then have t: "type_key k line = line @ [k]" by (simp add: type_key_def)
    then have "length line < 73" using k(3) by simp
    then obtain m where m: "strcat (sh_input_buffer L) (sh_key L) ((vmem ?v)(sh_key L := k, sh_key L + 1 := 0)) = Some (sh_input_buffer L, m)"
      "m (sh_key L) = k" "line_shown L (line @ [k]) (vga_print_char_at_cursor k (?v\<lparr>vmem := m\<rparr>))"
      "agree (shell_bytes L) (vmem ?v) (vmem (vga_print_char_at_cursor k (?v\<lparr>vmem := m\<rparr>)))"
      using append_shown [OF ok line 3(2)] k(1) by blast
    have "shell_keyboard_handler L k st = Some (with_vga st (vga_print_char_at_cursor k (?v\<lparr>vmem := m\<rparr>)))"
      using 3 k(1) m(1,2) by (simp add: shell_keyboard_handler_def on_vga_with on_vga_opt_with Let_def)
    then show ?thesis using m(3,4) t by auto
  qed
qed

text \<open>
  The editor simulates the abstract one: \<open>edits L st0 line st\<close> says that buffer and screen show \<open>line\<close> and that
  nothing but the bytes of the shell has changed since \<open>st0\<close>.
\<close>

definition edits :: "shell_layout \<Rightarrow> shell \<Rightarrow> u8 list \<Rightarrow> shell \<Rightarrow> bool" where
  "edits L st0 line st \<longleftrightarrow> buffers_ok L \<and> line_shown L line (k_vga (sh_k st)) \<and> st = with_vga st0 (k_vga (sh_k st)) \<and>
     agree (shell_bytes L) (vmem (k_vga (sh_k st0))) (vmem (k_vga (sh_k st)))"

interpretation keys: simulation "shell_keyboard_handler L" type_key editing "edits L st0" for L st0
proof
  fix line st k
  assume R: "edits L st0 line st" and k: "editing line k"
  then obtain v where v: "shell_keyboard_handler L k st = Some (with_vga st v)" "line_shown L (type_key k line) v"
    "agree (shell_bytes L) (vmem (k_vga (sh_k st))) (vmem v)" using key_step [of L line st k] unfolding edits_def editing_def by blast
  have "st = with_vga st0 (k_vga (sh_k st))" using R by (simp add: edits_def)
  then have "with_vga st v = with_vga st0 v" by (metis with_vga_simps(2))
  then have "edits L st0 (type_key k line) (with_vga st v)" using R v(2) agree_trans [OF _ v(3)] by (auto simp: edits_def)
  then show "\<exists>st'. shell_keyboard_handler L k st = Some st' \<and> edits L st0 (type_key k line) st'" using v(1) by blast
qed

section \<open>The prompt\<close>

lemma overwrite_cells:
  assumes "n \<le> 80" "y < 25" "\<forall>i<n. vmem s (str + of_nat i) = t ! i \<and> str + of_nat i \<notin> screen_region"
  shows "screen_only s (fold (\<lambda>i s. vga_set_character (vmem s (str + of_nat i)) fg bg (of_nat i) (of_nat y) s) [0..<n] s)"
    and "x' < 80 \<Longrightarrow> y' < 25 \<Longrightarrow> glyph (fold (\<lambda>i s. vga_set_character (vmem s (str + of_nat i)) fg bg (of_nat i) (of_nat y) s) [0..<n] s) x' y' =
      (if y' = y \<and> x' < n then (t ! x', colour_byte fg bg) else glyph s x' y')"
  using assms(1,3)
proof (induction n)
  case (Suc n)
  let ?s = "fold (\<lambda>i s. vga_set_character (vmem s (str + of_nat i)) fg bg (of_nat i) (of_nat y) s) [0..<n] s"
  case 1
  have "screen_only s ?s" using Suc.IH(1) 1 by simp
  then show ?case using set_character_screen [of n y ?s] 1 assms(2) by (auto intro: screen_only_trans)
next
  case (Suc n)
  let ?s = "fold (\<lambda>i s. vga_set_character (vmem s (str + of_nat i)) fg bg (of_nat i) (of_nat y) s) [0..<n] s"
  case 2
  have so: "screen_only s ?s" using Suc.IH(1) 2 by simp
  then have "vmem ?s (str + of_nat n) = t ! n" using 2(4) by (simp add: screen_only_def)
  then show ?case using glyph_set_character [of n y x' y' "t ! n" fg bg ?s] Suc.IH(2) 2 assms(2) by (auto simp: less_Suc_eq)
qed simp_all

lemma overwrite_line_shows:
  assumes "cstr (vmem s) str t" "\<And>i. i \<le> length t \<Longrightarrow> str + of_nat i \<notin> screen_region" "length t \<le> 80" "y < 25"
  shows "screen_only s (vga_overwrite_line str fg bg (of_nat y) s)"
    and "x' < 80 \<Longrightarrow> y' < 25 \<Longrightarrow> glyph (vga_overwrite_line str fg bg (of_nat y) s) x' y' =
      (if y' \<noteq> y then glyph s x' y' else if x' < length t then (t ! x', colour_byte fg bg) else blank)"
proof -
  let ?s = "vga_clear_line (of_nat y) s"
  have so: "screen_only s ?s" by (rule clear_line_screen [OF assms(4)])
  have c: "cstr (vmem ?s) str t"
    using assms(2) so by (intro cstr_same_bytes [OF assms(1)]) (simp add: screen_only_def)
  then have len: "unat (strlen (vmem ?s) str) = length t"
    using strlen_at [OF c] assms(3) by (simp add: MAX_STRING_LEN_def unat_of_nat)
  have at: "\<forall>i<length t. vmem ?s (str + of_nat i) = t ! i \<and> str + of_nat i \<notin> screen_region"
    using c assms(2) by (simp add: cstr_def)
  note o = overwrite_cells [OF assms(3,4), of ?s str t, OF at]
  have eq: "vga_overwrite_line str fg bg (of_nat y) s =
      fold (\<lambda>i s. vga_set_character (vmem s (str + of_nat i)) fg bg (of_nat i) (of_nat y) s) [0..<length t] ?s"
    unfolding vga_overwrite_line_def Let_def len by simp
  show "screen_only s (vga_overwrite_line str fg bg (of_nat y) s)"
    unfolding eq by (rule screen_only_trans [OF so o(1)])
  show "glyph (vga_overwrite_line str fg bg (of_nat y) s) x' y' =
      (if y' \<noteq> y then glyph s x' y' else if x' < length t then (t ! x', colour_byte fg bg) else blank)" if "x' < 80" "y' < 25"
    using o(2) [OF that] glyph_clear_line [OF assms(4) that] unfolding eq by auto
qed

text \<open>Literals lie apart from everything the shell writes.\<close>

definition literal_ok :: "shell_layout \<Rightarrow> mem \<Rightarrow> u8 list \<Rightarrow> bool" where
  "literal_ok L m t \<longleftrightarrow> untouched (sh_frame L) m (sh_lit L t) t \<and> region (sh_lit L t) (Suc (length t)) \<inter> shell_bytes L = {}"

lemma literal_agree:
  "literal_ok L m t \<Longrightarrow> agree (shell_bytes L) m m' \<Longrightarrow> literal_ok L m' t"
  by (auto simp: literal_ok_def untouched_def intro: cstr_agree)

lemma prompt_shown:
  assumes ok: "buffers_ok L" "literal_ok L (vmem v) prompt" and buf: "cstr (vmem v) (sh_input_buffer L) []"
  defines "w \<equiv> vga_set_cursor 7 24 (vga_overwrite_line (sh_lit L prompt) 7 0 24 v)"
  shows "line_shown L [] w" "\<And>x y. x < 80 \<Longrightarrow> y < 24 \<Longrightarrow> glyph w x y = glyph v x y" "agree screen_region (vmem v) (vmem w)"
proof -
  let ?p = "sh_lit L prompt"
  have c: "cstr (vmem v) ?p prompt" and dj: "region ?p (Suc (length prompt)) \<inter> shell_bytes L = {}"
    using ok(2) by (auto simp: literal_ok_def untouched_def)
  have out: "?p + of_nat i \<notin> screen_region" if "i \<le> length prompt" for i
    using region_at [of i "Suc (length prompt)" ?p] dj that by (auto simp: shell_bytes_def)
  note o = overwrite_line_shows [OF c out, where y = 24 and fg = 7 and bg = 0]
  have w: "w = (vga_overwrite_line ?p 7 0 24 v)\<lparr>cursor_x := 7, cursor_y := 24, crtc_log := crtc_log w\<rparr>"
    unfolding w_def vga_set_cursor_def Let_def by simp
  have g: "glyph w x y = glyph (vga_overwrite_line ?p 7 0 24 v) x y" for x y by (subst w) (simp add: glyph_def)
  have m: "vmem w = vmem (vga_overwrite_line ?p 7 0 24 v)" by (subst w) simp
  show a: "agree screen_region (vmem v) (vmem w)" using o(1) unfolding m by (simp add: screen_only_def agree_def)
  show "glyph w x y = glyph v x y" if "x < 80" "y < 24" for x y using o(2) [where x' = x and y' = y] that by (simp add: g)
  have "region (sh_input_buffer L) (Suc 0) \<subseteq> region (sh_input_buffer L) 256" by (intro region_subset) simp
  then have "cstr (vmem w) (sh_input_buffer L) []" using ok(1) by (intro cstr_agree [OF buf a]) (auto simp: buffers_ok_def)
  moreover have "cursor_x w = 7" "cursor_y w = 24" by (subst w, simp)+
  moreover have "glyph w x 24 = (if x < 7 then (prompt ! x, colour_byte 7 0) else blank)" if "x < 80" for x
    using o(2) [where x' = x and y' = 24] that by (simp add: g)
  ultimately show "line_shown L [] w" by (simp add: line_shown_def)
qed

lemma print_prompt_with:
  "shell_print_prompt L st = with_vga st (vga_set_cursor 7 24 (vga_overwrite_line (sh_lit L prompt) 7 0 24 (k_vga (sh_k st))))"
  by (simp add: shell_print_prompt_def on_vga_with prompt_def VGA_COLOUR_WHITE_def VGA_COLOUR_BLACK_def)

lemma scroll_top: "screen_only s (vga_scroll_up 1 TOP_LINE s)"
  using scroll_up_screen [of 3 s 1] by (simp add: TOP_LINE_def)

section \<open>Commands\<close>

definition command_names :: "string list" where
  "command_names = [''kt'', ''fstype'', ''vm-test'', ''string-test'', ''slab-test'', ''palloc-test'', ''run-tests'', ''dump-kmalloc'',
     ''ut'', ''clear'', ''cls'', ''build'', ''tasks'', ''slab'', ''buddy'', ''mem'']"

definition unknown_format :: "u8 list" where
  "unknown_format = ascii ''Unknown command: %s''"

definition unknown_text :: "u8 list \<Rightarrow> u8 list" where
  "unknown_text line = ascii ''Unknown command: '' @ line"

definition shell_ok :: "shell_layout \<Rightarrow> mem \<Rightarrow> bool" where
  "shell_ok L m \<longleftrightarrow> buffers_ok L \<and> frame_ok (sh_frame L) \<and>
     (\<forall>(q, k)\<in>set (printk_buffers (sh_frame L)). region (sh_input_buffer L) 256 \<inter> region q k = {}) \<and>
     literal_ok L m prompt \<and> literal_ok L m unknown_format \<and> (\<forall>n\<in>set command_names. literal_ok L m (ascii n))"

lemma command_names_in: "c \<in> set (shell_commands L) \<Longrightarrow> set (fst c) \<subseteq> set command_names"
  by (auto simp: shell_commands_def command_names_def)

lemma is_command_none:
  assumes "cstr m p line" "\<forall>n\<in>set ns. cstr m (sh_lit L (ascii n)) (ascii n) \<and> ascii n \<noteq> line"
  shows "is_command L m p ns = Some False"
  using assms(2)
proof (induction ns)
  case (Cons n ns)
  then obtain r where "strcmp m p (sh_lit L (ascii n)) = Some r" "r \<noteq> 0" using strcmp_run [OF assms(1)] by fastforce
  then show ?case using Cons by simp
qed simp

lemma run_commands_none:
  assumes "cstr (k_mem (sh_k st)) p line" "\<forall>c\<in>set cs. \<forall>n\<in>set (fst c). cstr (k_mem (sh_k st)) (sh_lit L (ascii n)) (ascii n) \<and> ascii n \<noteq> line"
  shows "run_commands L p cs st = Some (False, st)"
  using assms(2) by (induction cs) (simp_all add: is_command_none [OF assms(1)])

lemma render_unknown: "render unknown_format [Str a line] = Some (unknown_text line)"
  by (simp add: unknown_format_def unknown_text_def ascii_def conversion_def is_digit_def padding_of_def pad_def)

lemma unknown_text_facts:
  "length (unknown_text line) = 17 + length line" "0 \<notin> set (unknown_text line) \<longleftrightarrow> 0 \<notin> set line"
  "set (unknown_text line) \<inter> {10, 11, 12, 13} = {} \<longleftrightarrow> set line \<inter> {10, 11, 12, 13} = {}"
  by (auto simp: unknown_text_def ascii_def)

lemma unknown_printed:
  assumes ok: "shell_ok L (vmem v)" and line: "cstr (vmem v) (sh_input_buffer L) line" "length line \<le> 63" "set line \<inter> {10, 11, 12, 13} = {}"
    and cur: "cursor_x v = 0" "cursor_y v = 24"
  shows "\<exists>w. vga_printf (sh_frame L) (sh_lit L unknown_format) [sh_input_buffer L] v = Some w \<and> shows_text (unknown_text line) 0 24 v w \<and>
    agree (region (vga_tmp (sh_frame L)) 512 \<union> scratch (fmt_num (sh_frame L)) (fmt_temp (sh_frame L)) \<union> screen_region) (vmem v) (vmem w)"
proof -
  let ?fr = "sh_frame L" and ?b = "sh_input_buffer L"
  have fr: "frame_ok ?fr" and lit: "untouched ?fr (vmem v) (sh_lit L unknown_format) unknown_format"
    and apart: "\<forall>(q, k)\<in>set (printk_buffers ?fr). region ?b 256 \<inter> region q k = {}"
    using ok by (simp_all add: shell_ok_def literal_ok_def)
  have "layout (vmem v) (fmt_num ?fr) (fmt_temp ?fr) (vga_tmp ?fr) (sh_lit L unknown_format) unknown_format 512"
    using untouchedD(1,3) [OF lit] untouchedD(2) [OF lit, of "vga_tmp ?fr"] frame_okD(1) [OF fr] frame_okD(2) [OF fr, of "vga_tmp ?fr"]
    unfolding layout_def by auto
  moreover have "region ?b (Suc (length line)) \<subseteq> region ?b 256" using line(2) by (intro region_subset) simp
  then have "args_at (vmem v) (fmt_num ?fr) (fmt_temp ?fr) (vga_tmp ?fr) 512 [Str ?b line]"
    using line(1,2) apart unfolding args_at_def printk_buffers_def scratch_def by (auto simp: MAX_STRING_LEN_def)
  moreover have "0 \<notin> set line" using line(1) by (auto simp: cstr_def in_set_conv_nth)
  then have "0 \<notin> set (unknown_text line)" using unknown_text_facts(2) by blast
  moreover have "fits (unknown_text line) 0 24 v" using line(2) cur unknown_text_facts(1,3) [of line] line(3) unfolding fits_def by simp
  ultimately show ?thesis using vga_printf_shows [OF fr render_unknown] by fastforce
qed

text \<open>The screen after Enter, before the command runs.\<close>

definition entered :: "shell_layout \<Rightarrow> vga_state_t \<Rightarrow> vga_state_t" where
  "entered L v = (vga_scroll_up 1 TOP_LINE (v\<lparr>vmem := (vmem v)(sh_key L := KEY_ENTER)\<rparr>))\<lparr>cursor_x := 0\<rparr>"

lemma entered_facts:
  assumes ok: "shell_ok L (vmem v)" and line: "line_shown L line v"
  shows "shell_ok L (vmem (entered L v))" "cstr (vmem (entered L v)) (sh_input_buffer L) line"
    "cursor_x (entered L v) = 0" "cursor_y (entered L v) = 24"
    "x < 80 \<Longrightarrow> y < 24 \<Longrightarrow> glyph (entered L v) x y = glyph v x (if y < 2 then y else Suc y)"
proof -
  let ?b = "sh_input_buffer L" and ?p = "sh_key L"
  define v0 where "v0 = v\<lparr>vmem := (vmem v)(?p := KEY_ENTER)\<rparr>"
  define v1 where "v1 = (vga_scroll_up 1 TOP_LINE v0)\<lparr>cursor_x := 0\<rparr>"
  have e: "entered L v = v1" by (simp add: entered_def v1_def v0_def)
  have bok: "buffers_ok L" using ok by (simp add: shell_ok_def)
  note f = screen_only_fields [OF scroll_top [of v0]]
  have sub: "region ?b (Suc (length line)) \<subseteq> region ?b 256" using line by (intro region_subset) (simp add: line_shown_def)
  have a1: "agree (region ?p 2 \<union> screen_region) (vmem v) (vmem v1)"
    using f(5) key_agree(1) [of ?p "vmem v" KEY_ENTER] by (auto simp: agree_def v1_def v0_def)
  then have a: "agree (shell_bytes L) (vmem v) (vmem v1)" by (rule agree_mono) (auto simp: shell_bytes_def)
  show "cstr (vmem (entered L v)) ?b line" unfolding e
    using line sub bok by (intro cstr_agree [OF _ a1]) (auto simp: line_shown_def buffers_ok_def)
  show "shell_ok L (vmem (entered L v))" unfolding e using ok literal_agree [OF _ a] by (auto simp: shell_ok_def)
  show "cursor_x (entered L v) = 0" "cursor_y (entered L v) = 24" unfolding e
    using f(2) line by (simp_all add: v1_def v0_def line_shown_def)
  show "glyph (entered L v) x y = glyph v x (if y < 2 then y else Suc y)" if "x < 80" "y < 24"
  proof -
    have "glyph v1 x y = glyph (vga_scroll_up 1 TOP_LINE v0) x y" by (simp add: v1_def glyph_def)
    also have "\<dots> = glyph v0 x (if y < 2 then y else Suc y)"
      using glyph_scroll_up [of 3 x y v0] that by (auto simp: TOP_LINE_def)
    also have "\<dots> = glyph v x (if y < 2 then y else Suc y)"
      unfolding v0_def using bok that by (intro glyph_same [OF key_agree(1)]) (auto simp: buffers_ok_def)
    finally show ?thesis unfolding e .
  qed
qed

lemma enter_unknown:
  assumes ok: "shell_ok L (vmem (k_vga (sh_k st)))" and line: "line_shown L line (k_vga (sh_k st))" "line \<notin> ascii ` set command_names"
    "length line \<le> 63" "set line \<inter> {10, 11, 12, 13} = {}"
  shows "\<exists>w. shell_keyboard_handler L KEY_ENTER st = Some (with_vga st w) \<and> line_shown L [] w \<and>
    (\<forall>x<80. \<forall>y<24. glyph w x y = glyph (k_vga (sh_k st)) x (if y < 2 then y else Suc y))"
proof -
  let ?v = "k_vga (sh_k st)" and ?b = "sh_input_buffer L" and ?p = "sh_key L" and ?fr = "sh_frame L"
  define v1 where "v1 = entered L ?v"
  note e = entered_facts [OF ok line(1), folded v1_def]
  note ok1 = e(1) and c1 = e(2) and cur = e(3,4) and g1 = e(5)
  have bok: "buffers_ok L" using ok by (simp add: shell_ok_def)
  obtain v2 where v2: "vga_printf ?fr (sh_lit L unknown_format) [?b] v1 = Some v2" "shows_text (unknown_text line) 0 24 v1 v2"
    "agree (region (vga_tmp ?fr) 512 \<union> scratch (fmt_num ?fr) (fmt_temp ?fr) \<union> screen_region) (vmem v1) (vmem v2)"
    using unknown_printed [OF ok1 c1 line(3,4) cur] by blast
  define v3 where "v3 = v2\<lparr>vmem := store (vmem v2) ?b (replicate 256 0)\<rparr>"
  have g3: "glyph v3 x y = glyph v1 x y" if "x < 80" "y < 24" for x y
  proof -
    have "glyph v3 x y = glyph v2 x y" unfolding v3_def
      using bok that by (intro glyph_same [of "region ?b 256"]) (auto simp: agree_def store_outside buffers_ok_def)
    then show ?thesis using v2(2) that by (simp add: shows_text_def)
  qed
  have lit: "cstr (vmem v1) (sh_lit L prompt) prompt" "untouched ?fr (vmem v1) (sh_lit L prompt) prompt"
    and dj: "region (sh_lit L prompt) (Suc (length prompt)) \<inter> shell_bytes L = {}"
    using ok1 by (auto simp: shell_ok_def literal_ok_def untouched_def)
  have "cstr (vmem v2) (sh_lit L prompt) prompt"
    using untouchedD(3) [OF lit(2)] untouchedD(2) [OF lit(2), of "vga_tmp ?fr"] dj
    by (intro cstr_agree [OF lit(1) v2(3)]) (auto simp: shell_bytes_def)
  then have "cstr (vmem v3) (sh_lit L prompt) prompt"
    unfolding v3_def using dj by (auto simp: shell_bytes_def intro!: cstr_frame)
  then have lit3: "literal_ok L (vmem v3) prompt" using lit(2) dj by (simp add: literal_ok_def untouched_def)
  have "cstr (vmem v3) ?b []" using store_at [of 0 "replicate 256 0" "vmem v2" ?b] by (simp add: cstr_def v3_def)
  note w = prompt_shown [OF bok lit3 this]
  have "run_commands L ?b (shell_commands L) (with_vga st v1) = Some (False, with_vga st v1)"
  proof (rule run_commands_none)
    show "cstr (k_mem (sh_k (with_vga st v1))) ?b line" using c1 by (simp add: k_mem_def)
    show "\<forall>c\<in>set (shell_commands L). \<forall>n\<in>set (fst c). cstr (k_mem (sh_k (with_vga st v1))) (sh_lit L (ascii n)) (ascii n) \<and> ascii n \<noteq> line"
      using command_names_in [of _ L] ok1 line(2) by (fastforce simp: k_mem_def shell_ok_def literal_ok_def untouched_def)
  qed
  moreover have "on_vga (\<lambda>v. (vga_scroll_up 1 TOP_LINE v)\<lparr>cursor_x := 0\<rparr>) (with_vga st (?v\<lparr>vmem := (vmem ?v)(?p := KEY_ENTER)\<rparr>)) = with_vga st v1"
    by (simp add: on_vga_with v1_def entered_def)
  ultimately have "shell_keyboard_handler L KEY_ENTER st =
      Some (with_vga st (vga_set_cursor 7 24 (vga_overwrite_line (sh_lit L prompt) 7 0 24 v3)))"
    using v2(1) by (simp add: shell_keyboard_handler_def shell_process_command_def shell_clear_input_buffer_def on_vga_with [of "\<lambda>v. v\<lparr>vmem := _ v\<rparr>"]
        on_vga_opt_with print_prompt_with unknown_format_def v3_def memset_store Let_def)
  then show ?thesis using w(1,2) g3 g1 by auto
qed

lemma init_shown:
  assumes "buffers_ok L" "literal_ok L (vmem (k_vga (sh_k st))) prompt" "cstr (vmem (k_vga (sh_k st))) (sh_input_buffer L) []"
  shows "line_shown L [] (k_vga (sh_k (shell_init L st)))"
    "agree (shell_bytes L) (vmem (k_vga (sh_k st))) (vmem (k_vga (sh_k (shell_init L st))))"
    "k_machine (sh_k (shell_init L st)) = snd (keyboard_register_handler (sh_keyboard_handler L) (k_machine (sh_k st)))"
proof -
  let ?v = "k_vga (sh_k st)" let ?v1 = "vga_scroll_up 1 TOP_LINE ?v" and ?b = "sh_input_buffer L"
  have a: "agree screen_region (vmem ?v) (vmem ?v1)" using scroll_top [of ?v] by (simp add: screen_only_def agree_def)
  then have a': "agree (shell_bytes L) (vmem ?v) (vmem ?v1)" by (rule agree_mono) (auto simp: shell_bytes_def)
  have "region ?b (Suc 0) \<subseteq> region ?b 256" by (intro region_subset) simp
  then have "cstr (vmem ?v1) ?b []" using assms(1) by (intro cstr_agree [OF assms(3) a]) (auto simp: buffers_ok_def)
  note p = prompt_shown [OF assms(1) literal_agree [OF assms(2) a'] this]
  have v: "k_vga (sh_k (shell_init L st)) = vga_set_cursor 7 24 (vga_overwrite_line (sh_lit L prompt) 7 0 24 ?v1)"
    by (simp add: shell_init_def print_prompt_with on_vga_def with_vga_def Let_def)
  show "line_shown L [] (k_vga (sh_k (shell_init L st)))" unfolding v by (rule p(1))
  show "agree (shell_bytes L) (vmem ?v) (vmem (k_vga (sh_k (shell_init L st))))" unfolding v
    by (rule agree_trans [OF a' agree_mono [OF p(3)]]) (auto simp: shell_bytes_def)
  show "k_machine (sh_k (shell_init L st)) = snd (keyboard_register_handler (sh_keyboard_handler L) (k_machine (sh_k st)))"
    by (simp add: shell_init_def print_prompt_with on_vga_def with_vga_def Let_def)
qed

section \<open>Properties\<close>

text \<open>
  C35: Line editing. The shell starts with its handler registered and the prompt on the bottom line. After any
  sequence of key presses that stays within the line and deletes only what was typed, the input
  buffer holds exactly the edited line as a string, the bottom line of the screen shows prompt,
  edited line and blanks, and the cursor is behind the line: what is seen is what Enter will submit.
  No byte outside the buffer, the parameter of the handler and the screen changes.
\<close>

theorem shell_editing_refines:
  assumes "buffers_ok L" and "literal_ok L (vmem (k_vga (sh_k st))) prompt"
    and "cstr (vmem (k_vga (sh_k st))) (sh_input_buffer L) []" and "editable ks"
  shows "\<exists>st'. shell_keys L ks (shell_init L st) = Some st' \<and> line_shown L (fold type_key ks []) (k_vga (sh_k st')) \<and>
    agree (shell_bytes L) (vmem (k_vga (sh_k st))) (vmem (k_vga (sh_k st'))) \<and>
    k_machine (sh_k st') = snd (keyboard_register_handler (sh_keyboard_handler L) (k_machine (sh_k st)))"
proof -
  note i = init_shown [OF assms(1-3)]
  have "edits L (shell_init L st) [] (shell_init L st)" using assms(1) i(1) by (simp add: edits_def)
  from keys.run_simulates [OF this assms(4)] obtain st' where
    st': "shell_keys L ks (shell_init L st) = Some st'" "edits L (shell_init L st) (fold type_key ks []) st'" by blast
  have "k_machine (sh_k st') = k_machine (sh_k (shell_init L st))"
    using st'(2) unfolding edits_def with_vga_def by (metis kernel.select_convs(5) kernel.surjective kernel.update_convs(1) shell.select_convs(1) shell.surjective shell.update_convs(1))
  then show ?thesis using st' i(3) agree_trans [OF i(2)] by (simp add: edits_def)
qed

text \<open>
  An unknown command leaves no trace: on Enter the line moves up by one, the message is written to the bottom
  line, and the prompt overwrites it at once. The screen ends up as it was, scrolled by one line below
  the top two, with an empty prompt at the bottom, and the buffer is empty.
\<close>

lemma shell_unknown_command_lost:
  assumes "shell_ok L (vmem (k_vga (sh_k st)))" and "line_shown L line (k_vga (sh_k st))"
    and "line \<notin> ascii ` set command_names" and "length line \<le> 63" and "set line \<inter> {10, 11, 12, 13} = {}"
  shows "\<exists>st'. shell_keyboard_handler L KEY_ENTER st = Some st' \<and> line_shown L [] (k_vga (sh_k st')) \<and>
    (\<forall>x<80. \<forall>y<24. glyph (k_vga (sh_k st')) x y = glyph (k_vga (sh_k st)) x (if y < 2 then y else Suc y))"
  using enter_unknown [OF assms] by auto

text \<open>
  C36: The buffer has no guards. A key typed when 255 characters are in the buffer is stored in its last byte and
  the terminator behind its end; Backspace on an empty line clears the byte in front of the
  buffer.
\<close>

theorem shell_buffer_unguarded:
  assumes "cstr (vmem (k_vga (sh_k st))) (sh_input_buffer L) line" and "cursor_ok (k_vga (sh_k st))"
    and "region (sh_key L) 2 \<inter> region (sh_input_buffer L) 257 = {}" and "region (sh_input_buffer L) 257 \<inter> screen_region = {}"
    and "sh_input_buffer L - 1 \<notin> screen_region" and "k \<notin> {0, KEY_ENTER, KEY_BACKSPACE}"
  shows "(length line = 255 \<longrightarrow> (\<exists>st'. shell_keyboard_handler L k st = Some st' \<and>
      vmem (k_vga (sh_k st')) (sh_input_buffer L + 255) = k \<and> vmem (k_vga (sh_k st')) (sh_input_buffer L + 256) = 0)) \<and>
    (line = [] \<longrightarrow> (\<exists>st'. shell_keyboard_handler L KEY_BACKSPACE st = Some st' \<and> vmem (k_vga (sh_k st')) (sh_input_buffer L - 1) = 0))"
proof (intro conjI impI)
  let ?v = "k_vga (sh_k st)" and ?b = "sh_input_buffer L" and ?p = "sh_key L"
  assume l: "length line = 255"
  obtain m where m: "strcat ?b ?p ((vmem ?v)(?p := k, ?p + 1 := 0)) = Some (?b, m)" "cstr m ?b (line @ [k])" "m ?p = k"
    using append_key [OF assms(1), of k 256] l assms(3,6) by auto
  let ?w = "vga_print_char_at_cursor k (?v\<lparr>vmem := m\<rparr>)"
  have "cursor_ok (?v\<lparr>vmem := m\<rparr>)" using assms(2) by (simp add: cursor_ok_def)
  then have "agree screen_region m (vmem ?w)" using print_char_prints by (simp add: prints_to_def agree_def)
  then have "cstr (vmem ?w) ?b (line @ [k])" using assms(4) l by (intro cstr_agree [OF m(2)]) simp_all
  then have "vmem ?w (?b + of_nat 255) = k" "vmem ?w (?b + of_nat 256) = 0"
    using l unfolding cstr_def by (auto simp: nth_append dest: spec [of _ 255])
  moreover have "shell_keyboard_handler L k st = Some (with_vga st ?w)"
    using m(1,3) assms(6) by (simp add: shell_keyboard_handler_def on_vga_with on_vga_opt_with Let_def)
  ultimately show "\<exists>st'. shell_keyboard_handler L k st = Some st' \<and> vmem (k_vga (sh_k st')) (?b + 255) = k \<and> vmem (k_vga (sh_k st')) (?b + 256) = 0"
    by simp
next
  let ?v = "k_vga (sh_k st)" and ?b = "sh_input_buffer L" and ?p = "sh_key L"
  assume l: "line = []"
  define m m1 where "m = (vmem ?v)(?p := KEY_BACKSPACE)" and "m1 = m(?b + strlen m ?b := 0)"
  have "?p \<notin> region ?b 257" using assms(3) region_key [of ?p ?p] by auto
  then have "m ?b = 0" using assms(1) region_at [of 0 257 ?b] unfolding l cstr_def m_def by auto
  then have "cstr m ?b []" by (simp add: cstr_def)
  then have "strlen m ?b = 0" using strlen_at by fastforce
  moreover from this have "m1 = m" using \<open>m ?b = 0\<close> by (auto simp: m1_def)
  ultimately have e: "?b + (strlen m1 ?b - 1) = ?b - 1" by simp
  let ?w = "vga_delete_char_at_cursor (?v\<lparr>vmem := m1(?b + (strlen m1 ?b - 1) := 0)\<rparr>)"
  have "cursor_ok (?v\<lparr>vmem := m1(?b - 1 := 0)\<rparr>)" using assms(2) by (simp add: cursor_ok_def)
  then have "vmem ?w (?b - 1) = 0" using delete_char_prints assms(5) unfolding e by (fastforce simp: prints_to_def)
  moreover have "shell_keyboard_handler L KEY_BACKSPACE st = Some (with_vga st ?w)"
    by (simp add: shell_keyboard_handler_def shell_delete_from_input_buffer_def on_vga_with Let_def m1_def m_def rotary_const)
  ultimately show "\<exists>st'. shell_keyboard_handler L KEY_BACKSPACE st = Some st' \<and> vmem (k_vga (sh_k st')) (?b - 1) = 0" by simp
qed

section \<open>Witnesses\<close>

text \<open>All literals in slots of 64 bytes from address 0x100 on.\<close>

definition shell_literals :: "u8 list list" where
  "shell_literals = prompt # unknown_format # map ascii command_names"

definition literal_slot :: "u8 list \<Rightarrow> nat" where
  "literal_slot t = length (takeWhile (\<lambda>u. u \<noteq> t) shell_literals)"

definition literal_memory :: mem where
  "literal_memory a = (let n = unat (a - 0x100)
     in if n div 64 < 18 \<and> n mod 64 < length (shell_literals ! (n div 64)) then shell_literals ! (n div 64) ! (n mod 64) else 0)"

lemma shell_literals_ok: "length shell_literals = 18" "\<forall>t\<in>set shell_literals. length t < 64 \<and> 0 \<notin> set t"
  by (simp_all add: shell_literals_def prompt_def unknown_format_def command_names_def ascii_def)

lemma literal_slot_nth:
  assumes "t \<in> set shell_literals" shows "literal_slot t < 18" "shell_literals ! literal_slot t = t"
proof -
  have "literal_slot t < length shell_literals"
    using assms unfolding literal_slot_def by (metis (mono_tags, lifting) length_takeWhile_le le_neq_implies_less takeWhile_eq_all_conv takeWhile_eq_take take_all_iff nat_le_linear)
  then show "literal_slot t < 18" "shell_literals ! literal_slot t = t"
    using nth_length_takeWhile [of "\<lambda>u. u \<noteq> t" shell_literals] shell_literals_ok(1) by (simp_all add: literal_slot_def)
qed

lemma literal_memory_cstr:
  assumes "t \<in> set shell_literals" shows "cstr literal_memory (0x100 + of_nat (64 * literal_slot t)) t"
proof -
  let ?j = "literal_slot t"
  note j = literal_slot_nth [OF assms] and l = shell_literals_ok(2) [rule_format, OF assms]
  have "literal_memory (0x100 + of_nat (64 * ?j) + of_nat i) = (if i < length t then t ! i else 0)" if "i \<le> length t" for i
  proof -
    have "unat (of_nat (64 * ?j + i) :: u32) = 64 * ?j + i" using j(1) l that by (intro unat_le_imp_of_nat) simp
    moreover have "0x100 + of_nat (64 * ?j) + of_nat i - 0x100 = (of_nat (64 * ?j + i) :: u32)" by simp
    moreover have "(64 * ?j + i) div 64 = ?j" "(64 * ?j + i) mod 64 = i" using l that by simp_all
    ultimately show ?thesis using j by (simp only: literal_memory_def Let_def) simp
  qed
  then show ?thesis using l unfolding cstr_def by (auto simp: in_set_conv_nth)
qed

definition sample_layout :: shell_layout where
  "sample_layout = \<lparr>sh_kernel = boot_layout, sh_input_buffer = 0x1000, sh_lit = (\<lambda>t. 0x100 + of_nat (64 * literal_slot t)), sh_date = 0x1800, sh_time = 0x1810,
     sh_key = 0x1200, sh_fs_type = 0x1300, sh_frame = sample_frame, sh_apple = 0xC0120000, sh_slab_caches = (\<lambda>i. 0xC0130000 + 16 * of_nat i), sh_keyboard_handler = 0xC0121000\<rparr>"

definition sample_shell :: shell where
  "sample_shell = \<lparr>sh_k = boot_kernel\<lparr>k_vga := sample_console\<lparr>vmem := literal_memory\<rparr>\<rparr>, ktask1 = 0, sh_modules = []\<rparr>"

lemma sample_placed:
  assumes "cstr m p t" "unat p + Suc (length t) \<le> 0x1000"
  shows "untouched sample_frame m p t" "region p (Suc (length t)) \<inter> shell_bytes sample_layout = {}"
  using assms unfolding untouched_def shell_bytes_def printk_buffers_def sample_frame_def screen_region_def VGA_BUFFER_def sample_layout_def
  by (simp_all add: region_apart Int_Un_distrib)

lemma sample_buffers: "buffers_ok sample_layout" "\<forall>(q, k)\<in>set (printk_buffers sample_frame). region 0x1000 256 \<inter> region q k = {}"
proof -
  have "region 0x1200 2 \<inter> region 0x1000 256 = {}" using region_apart [of "0x1000" 256 "0x1200" 2] by auto
  then show "buffers_ok sample_layout" unfolding buffers_ok_def sample_layout_def screen_region_def VGA_BUFFER_def by (simp add: region_apart)
  show "\<forall>(q, k)\<in>set (printk_buffers sample_frame). region 0x1000 256 \<inter> region q k = {}"
    unfolding printk_buffers_def sample_frame_def VGA_BUFFER_def by (simp add: region_apart)
qed

lemma sample_layout_ok: "shell_ok sample_layout literal_memory"
proof -
  have "literal_ok sample_layout literal_memory t" if t: "t \<in> set shell_literals" for t
  proof -
    note j = literal_slot_nth(1) [OF t]
    have "unat (of_nat (64 * literal_slot t) :: u32) = 64 * literal_slot t" using j by (intro unat_le_imp_of_nat) simp
    then have "unat (0x100 + of_nat (64 * literal_slot t) :: u32) = 256 + 64 * literal_slot t" using j by (subst unat_add_small) simp_all
    moreover have "length t < 64" using shell_literals_ok(2) t by blast
    ultimately have "unat (0x100 + of_nat (64 * literal_slot t) :: u32) + Suc (length t) \<le> 0x1000" using j by linarith
    note q = sample_placed [OF literal_memory_cstr [OF t] this]
    show ?thesis unfolding literal_ok_def using q by (simp add: sample_layout_def)
  qed
  then show ?thesis using sample_frame_ok sample_buffers unfolding shell_ok_def shell_literals_def by (auto simp: sample_layout_def)
qed

lemma sample_buffer_empty: "cstr literal_memory 0x1000 []"
  by (simp add: cstr_def literal_memory_def)

lemma sample_start:
  "buffers_ok sample_layout" "literal_ok sample_layout (vmem (k_vga (sh_k sample_shell))) prompt"
  "cstr (vmem (k_vga (sh_k sample_shell))) (sh_input_buffer sample_layout) []"
  using sample_layout_ok sample_buffer_empty by (simp_all add: shell_ok_def sample_shell_def sample_layout_def)

text \<open>The keys \<^verbatim>\<open>c l x\<close>, Backspace, \<^verbatim>\<open>s\<close>.\<close>

theorem shell_editing_refines_witness:
  "\<exists>st'. shell_keys sample_layout [99, 108, 120, 14, 115] (shell_init sample_layout sample_shell) = Some st' \<and>
    line_shown sample_layout (ascii ''cls'') (k_vga (sh_k st'))"
proof -
  have "editable [99, 108, 120, 14, 115]" by (simp add: editing_def type_key_def rotary_const)
  moreover have "fold type_key [99, 108, 120, 14, 115] [] = ascii ''cls''" by (simp add: type_key_def rotary_const ascii_def)
  ultimately show ?thesis using shell_editing_refines [OF sample_start] by metis
qed

lemma shell_unknown_command_lost_witness:
  "\<exists>st'. shell_keyboard_handler sample_layout KEY_ENTER (shell_init sample_layout sample_shell) = Some st' \<and>
    line_shown sample_layout [] (k_vga (sh_k st'))"
proof -
  note i = init_shown [OF sample_start]
  have "shell_ok sample_layout (vmem (k_vga (sh_k (shell_init sample_layout sample_shell))))"
    using sample_layout_ok literal_agree [OF _ i(2)] unfolding shell_ok_def by (auto simp: sample_shell_def)
  moreover have "[] \<notin> ascii ` set command_names" by (simp add: command_names_def ascii_def)
  ultimately show ?thesis using shell_unknown_command_lost [OF _ i(1)] by auto
qed

theorem shell_buffer_unguarded_witness:
  "\<exists>st'. shell_keyboard_handler sample_layout KEY_BACKSPACE sample_shell = Some st' \<and> vmem (k_vga (sh_k st')) 0xFFF = 0"
proof -
  have "region 0x1200 2 \<inter> region 0x1000 257 = {}" using region_apart [of "0x1000" 257 "0x1200" 2] by auto
  moreover have "region 0x1000 257 \<inter> screen_region = {}" unfolding screen_region_def VGA_BUFFER_def by (simp add: region_apart)
  moreover have "(0xFFF :: u32) \<notin> screen_region" by (simp add: screen_region_def region_def VGA_BUFFER_def)
  moreover have "cursor_ok (k_vga (sh_k sample_shell))" by (simp add: sample_shell_def sample_console_def cursor_ok_def)
  ultimately show ?thesis
    using shell_buffer_unguarded [OF sample_start(3), of 97] by (simp add: sample_layout_def rotary_const)
qed

end
