(* ===== verification/Cpuid.thy ===== *)
theory Cpuid
  imports Paging KPrintf
begin

text \<open>
  Processor identification, \<^verbatim>\<open>arch/x86/kernel/cpuid.c\<close>. The instruction is a parameter: \<open>cpuid n\<close> are the registers for
  leaf \<open>n\<close>, or nothing when the processor has no such leaf; then the compiler's \<^verbatim>\<open>__get_cpuid\<close> leaves the variables alone. The tests
  of the saved feature bits are in the theory of the kernel's page directory, which they serve.
\<close>

section \<open>Model\<close>

record cpuid_regs =
  c_eax :: u32
  c_ebx :: u32
  c_ecx :: u32
  c_edx :: u32

record cpuid_state =
  leaf0 :: cpuid_regs
  leaf1 :: cpuid_regs
  leaf2 :: cpuid_regs
  leaf3 :: cpuid_regs

definition get_cpuid :: "(u32 \<Rightarrow> cpuid_regs option) \<Rightarrow> u32 \<Rightarrow> cpuid_regs \<Rightarrow> cpuid_regs" where
  "get_cpuid cpuid n old = (case cpuid n of None \<Rightarrow> old | Some r \<Rightarrow> r)"

definition name_format :: "u8 list" where
  "name_format = concat (replicate 12 [37, 99])"

text \<open>
  \<open>old\<close> are the local variables before the call, \<open>num\<close> and \<open>temp\<close> the arrays of \<^verbatim>\<open>sprintf\<close> and \<open>fs\<close> the address of the
  format. The right shifts bind tighter than the masks.
\<close>

definition name_bytes :: "cpuid_regs \<Rightarrow> u32 list" where
  "name_bytes r =
     [c_ebx r AND 0xFF, drop_bit 8 (c_ebx r) AND 0xFF, drop_bit 16 (c_ebx r) AND 0xFF, drop_bit 24 (c_ebx r) AND 0xFF,
      c_edx r AND 0xFF, drop_bit 8 (c_edx r) AND 0xFF, drop_bit 16 (c_edx r) AND 0xFF, drop_bit 24 (c_edx r) AND 0xFF,
      c_ecx r AND 0xFF, drop_bit 8 (c_ecx r) AND 0xFF, drop_bit 16 (c_ecx r) AND 0xFF, drop_bit 24 (c_ecx r) AND 0xFF]"

definition cpuid_get_cpu_name ::
  "(u32 \<Rightarrow> cpuid_regs option) \<Rightarrow> cpuid_regs \<Rightarrow> u32 \<Rightarrow> u32 \<Rightarrow> u32 \<Rightarrow> u32 \<Rightarrow> mem \<Rightarrow> (i32 \<times> mem) option" where
  "cpuid_get_cpu_name cpuid old num temp fs dest_buf m = do {
     (_, m1) \<leftarrow> sprintf num temp dest_buf fs (name_bytes (get_cpuid cpuid 0 old)) m;
     Some (E_SUCCESS, m1)
   }"

definition cpuid_init ::
  "(u32 \<Rightarrow> cpuid_regs option) \<Rightarrow> cpuid_regs \<Rightarrow> u32 \<Rightarrow> u32 \<Rightarrow> u32 \<Rightarrow> u32 \<Rightarrow> cpuid_state \<times> mem \<Rightarrow> (i32 \<times> cpuid_state \<times> mem) option" where
  "cpuid_init cpuid old num temp fs cpu_name sm = do {
     let s = fst sm;
     let s1 = \<lparr>leaf0 = get_cpuid cpuid 0 (leaf0 s), leaf1 = get_cpuid cpuid 1 (leaf1 s),
               leaf2 = get_cpuid cpuid 2 (leaf2 s), leaf3 = get_cpuid cpuid 3 (leaf3 s)\<rparr>;
     (_, m1) \<leftarrow> cpuid_get_cpu_name cpuid old num temp fs cpu_name (snd sm);
     Some (E_SUCCESS, s1, m1)
   }"

text \<open>What the tests of features read.\<close>

definition cpuid_features :: "cpuid_state \<Rightarrow> u32 \<Rightarrow> cpu_features" where
  "cpuid_features s c4 = \<lparr>leaf1_edx = c_edx (leaf1 s), cr4 = c4\<rparr>"

section \<open>The name of the processor\<close>

definition word_bytes :: "u32 \<Rightarrow> u8 list" where
  "word_bytes w = [ucast w, ucast (drop_bit 8 w), ucast (drop_bit 16 w), ucast (drop_bit 24 w)]"

text \<open>The twelve bytes as the processor gives them: EBX, EDX, ECX, lowest byte first.\<close>

definition vendor :: "cpuid_regs \<Rightarrow> u8 list" where
  "vendor r = word_bytes (c_ebx r) @ word_bytes (c_edx r) @ word_bytes (c_ecx r)"

lemma vendor_bytes: "map (\<lambda>v. ucast v :: u8) (name_bytes r) = vendor r"
proof -
  have "ucast (w AND 0xFF) = (ucast w :: u8)" for w :: u32
  proof -
    have "(0xFF :: u32) = mask 8" by (simp add: mask_eq_exp_minus_1)
    show ?thesis unfolding \<open>0xFF = mask 8\<close> by (rule bit_word_eqI) (auto simp: bit_simps)
  qed
  then show ?thesis by (simp add: name_bytes_def vendor_def word_bytes_def)
qed

lemma render_chars: "render (concat (replicate (length vs) [37, 99])) (map Num vs) = Some (map ucast vs)"
proof (induction vs)
  case (Cons v vs)
  have "\<not> is_digit 99" by (simp add: is_digit_def)
  with Cons show ?case by (simp add: conversion_def padding_of_def pad_def)
qed simp

text \<open>
  The name is put together in order and closed with a NUL; thirteen bytes suffice, and \<^verbatim>\<open>cpuid_init\<close> has room for 24. The features
  tested later are those of leaf 1.
\<close>

lemma cpuid_init_outcome:
  assumes "cpuid 0 = Some r" and "cpuid 1 = Some r1"
    and "layout m num temp cpu_name fs name_format 13"
  shows "\<exists>s' m'. cpuid_init cpuid old num temp fs cpu_name (s, m) = Some (E_SUCCESS, s', m') \<and>
    (\<forall>i\<le>12. m' (cpu_name + of_nat i) = (vendor r @ [0]) ! i) \<and>
    leaf1_edx (cpuid_features s' c4) = c_edx r1 \<and>
    (\<forall>a. a \<notin> region cpu_name 13 \<union> region num 32 \<union> region temp 9 \<longrightarrow> m' a = m a)"
proof -
  have len: "length (vendor r) = 12" "length (name_bytes r) = 12" by (simp_all add: vendor_def word_bytes_def name_bytes_def)
  have "render name_format (map Num (name_bytes r)) = Some (vendor r)"
    using render_chars [of "name_bytes r"] by (simp only: name_format_def vendor_bytes len)
  moreover have "args_at m num temp cpu_name (Suc (length (vendor r))) (map Num (name_bytes r))" by (auto simp: args_at_def)
  moreover have "map raw (map Num vs) = vs" for vs by (induction vs) simp_all
  ultimately obtain m' where "sprintf num temp cpu_name fs (name_bytes r) m = Some (of_nat (length (vendor r)), m')"
    "\<forall>i\<le>length (vendor r). m' (cpu_name + of_nat i) = (vendor r @ [0]) ! i"
    "\<forall>a. a \<notin> region cpu_name (Suc (length (vendor r))) \<union> region num 32 \<union> region temp 9 \<longrightarrow> m' a = m a"
    using sprintf_run [of name_format "map Num (name_bytes r)" "vendor r" m num temp cpu_name fs] assms(3) by (auto simp: len)
  then show ?thesis using assms(1,2)
    by (simp add: cpuid_init_def cpuid_get_cpu_name_def get_cpuid_def cpuid_features_def len)
qed

end
