(* ===== verification/Syscall.thy ===== *)
theory Syscall
  imports Reports
begin

text \<open>
  System calls, \<^verbatim>\<open>arch/x86/kernel/syscall.c\<close> and \<^verbatim>\<open>kernel/syscalls/write.c\<close>: the dispatcher, and the one call it knows, which so far reports its
  arguments only. The result is the list of debug messages; nothing else changes.
\<close>

record syscall_regs =
  sr_ebx :: u32
  sr_ecx :: u32
  sr_edx :: u32
  sr_esi :: u32
  sr_edi :: u32
  sr_ebp :: u32
  sr_ds :: u32
  sr_es :: u32
  sr_fs :: u32
  sr_gs :: u32
  syscall_no :: u32

definition SYSCALL_READ :: u32 where [rotary_const]: "SYSCALL_READ = 0x00"
definition SYSCALL_WRITE :: u32 where [rotary_const]: "SYSCALL_WRITE = 0x01"
definition SYSCALL_OPEN :: u32 where [rotary_const]: "SYSCALL_OPEN = 0x02"
definition SYSCALL_CLOSE :: u32 where [rotary_const]: "SYSCALL_CLOSE = 0x03"
definition SYSCALL_EXIT :: u32 where [rotary_const]: "SYSCALL_EXIT = 0x04"

definition syscall_write :: "u32 \<Rightarrow> u32 \<Rightarrow> u32 \<Rightarrow> report" where
  "syscall_write descriptor_id src_buffer size_arg =
     [(nl ''Syscall: write'', []),
      (nl ''File Descriptor: %d'', [Word descriptor_id]),
      (nl ''Data Buffer:     0x%x'', [Word src_buffer]),
      (nl ''Byte Count:      %d'', [Word size_arg])]"

text \<open>The struct of the current task is read; the list head has a struct too.\<close>

definition current_name_id :: "u32 \<Rightarrow> sched_state \<Rightarrow> (u32 \<times> u32) option" where
  "current_name_id head_addr s =
     (case task_get_current s of
        TaskHead \<Rightarrow> Some (head_addr + TASK_NAME_OFFSET, t_id (task_head s))
      | TaskNode a \<Rightarrow> do { t \<leftarrow> tasks s a; Some (a + TASK_NAME_OFFSET, t_id t) })"

definition syscall_handler :: "u32 \<Rightarrow> syscall_regs \<Rightarrow> sched_state \<Rightarrow> report option" where
  "syscall_handler head_addr r s = do {
     (name, tid) \<leftarrow> current_name_id head_addr s;
     Some ((nl ''Syscall from task ('%s' | ID: %d)'', [String_At name, Word tid]) #
       (if syscall_no r = SYSCALL_WRITE then syscall_write (sr_edi r) (sr_esi r) (sr_edx r)
        else [(nl ''Invalid syscall: %d'', [Word (syscall_no r)])]))
   }"

text \<open>
  For a task of the scheduler a call is always answered, under the name and number of that task. The numbers of the
  header other than that of \<^verbatim>\<open>write\<close> are refused like any other number.
\<close>

lemma syscall_handler_answers:
  assumes "sched_ok xs c s"
  shows "\<exists>t ls. tasks s c = Some t \<and>
    syscall_handler h r s = Some ((nl ''Syscall from task ('%s' | ID: %d)'', [String_At (c + TASK_NAME_OFFSET), Word (t_id t)]) # ls) \<and>
    (syscall_no r \<in> {SYSCALL_READ, SYSCALL_OPEN, SYSCALL_CLOSE, SYSCALL_EXIT} \<longrightarrow> ls = [(nl ''Invalid syscall: %d'', [Word (syscall_no r)])])"
proof -
  have "current_task s = TaskNode c" "tasks s c \<noteq> None" using assms by (auto simp: sched_ok_def tasks_ok_def)
  then show ?thesis by (auto simp: syscall_handler_def current_name_id_def task_get_current_def rotary_const)
qed

end
