(* ===== verification/Bootmem_Tests.thy ===== *)
theory Bootmem_Tests
  imports Bootmem Ktest
begin

text \<open>
  The kernel's own unit tests of the boot memory allocator, \<^verbatim>\<open>test/bootmem.c\<close>, run on the model: the test functions with
  their assertions, the module that registers them, and the theorem that all of them pass wherever
  the kernel image lies. A test takes the counters of its unit and the allocator.
\<close>

section \<open>The tests\<close>

type_synonym bootmem_test = "ktest_counts \<Rightarrow> bootmem \<Rightarrow> (ktest_counts \<times> bootmem) option"

definition bootmem_pre_test :: "bootmem \<Rightarrow> bootmem option" where
  "bootmem_pre_test s = Some (s\<lparr>mem_regions := replicate MAX_MEM_REGIONS empty_region, highest_pfn := 0, region_count := 0\<rparr>)"

definition assert_table :: "u32 \<Rightarrow> u32 \<Rightarrow> bootmem \<Rightarrow> ktest_counts \<Rightarrow> ktest_counts" where
  "assert_table n pfn s c = assert_equal_uint (highest_pfn s) pfn (assert_equal_uint (region_count s) n c)"

text \<open>The body of the loop of the first two tests; \<open>i\<close> is the loop variable.\<close>

definition add_page_region :: "kernel_image \<Rightarrow> nat \<Rightarrow> bootmem \<Rightarrow> (i32 \<times> bootmem) option" where
  "add_page_region k i s = bootmem_add_mem_region k (0x10000 + of_nat i * PAGE_SIZE) (0x11000 + of_nat i * PAGE_SIZE) MEM_REGION_AVAILABLE s"

primrec add_all_loop :: "kernel_image \<Rightarrow> nat list \<Rightarrow> bootmem_test" where
  "add_all_loop k [] c s = Some (c, s)"
| "add_all_loop k (i # js) c s = do {
     (rv, s1) \<leftarrow> add_page_region k i s;
     let end_addr = 0x11000 + of_nat i * PAGE_SIZE;
     add_all_loop k js (assert_table (of_nat i + 1) (end_addr div PAGE_SIZE) s1 (assert_equal_int rv E_SUCCESS c)) s1
   }"

definition bootmem_test_add_all_regions :: "kernel_image \<Rightarrow> bootmem_test" where
  "bootmem_test_add_all_regions k = add_all_loop k [0..<MAX_MEM_REGIONS]"

primrec excess_loop :: "kernel_image \<Rightarrow> nat list \<Rightarrow> bootmem_test" where
  "excess_loop k [] c s = Some (c, s)"
| "excess_loop k (i # js) c s = do {
     (rv, s1) \<leftarrow> add_page_region k i s;
     let end_addr = 0x11000 + of_nat i * PAGE_SIZE;
     excess_loop k js
       (if i = MAX_MEM_REGIONS
        then assert_table (of_nat i) ((end_addr - PAGE_SIZE) div PAGE_SIZE) s1 (assert_equal_int rv E_ERROR c)
        else assert_table (of_nat i + 1) (end_addr div PAGE_SIZE) s1 (assert_equal_int rv E_SUCCESS c)) s1
   }"

definition bootmem_test_excess_regions :: "kernel_image \<Rightarrow> bootmem_test" where
  "bootmem_test_excess_regions k = excess_loop k [0..<MAX_MEM_REGIONS + 1]"

definition bootmem_test_kernel_region :: "kernel_image \<Rightarrow> bootmem_test" where
  "bootmem_test_kernel_region k c s = do {
     let kernel_start = PAGE_ALIGN (KERNEL_PHYS_START k);
     let kernel_end = PAGE_ALIGN (KERNEL_PHYS_END k) - PAGE_SIZE;
     (rv, s1) \<leftarrow> bootmem_add_mem_region k kernel_start kernel_end MEM_REGION_AVAILABLE s;
     Some (assert_table 0 0 s1 (assert_equal_int rv E_ERROR c), s1)
   }"

definition bootmem_test_invalid_type :: "kernel_image \<Rightarrow> bootmem_test" where
  "bootmem_test_invalid_type k c s = do {
     (rv, s1) \<leftarrow> bootmem_add_mem_region k 0x10000 0x11000 MEM_REGION_AVAILABLE s;
     let c1 = assert_table 1 (0x11000 div PAGE_SIZE) s1 (assert_equal_int rv E_SUCCESS c);
     (rv, s2) \<leftarrow> bootmem_add_mem_region k 0x20000 0x21000 MEM_REGION_RESERVED s1;
     let c2 = assert_table 2 (0x21000 div PAGE_SIZE) s2 (assert_equal_int rv E_SUCCESS c1);
     (rv, s3) \<leftarrow> bootmem_add_mem_region k 0x30000 0x31000 2 s2;
     Some (assert_table 2 (0x21000 div PAGE_SIZE) s3 (assert_equal_int rv E_ERROR c2), s3)
   }"

definition bootmem_test_highest_pfn :: "kernel_image \<Rightarrow> bootmem_test" where
  "bootmem_test_highest_pfn k c s = do {
     (rv, s1) \<leftarrow> bootmem_add_mem_region k 0x10000 0x11000 MEM_REGION_AVAILABLE s;
     Some (assert_table 1 (0x11000 div PAGE_SIZE) s1 (assert_equal_int rv E_SUCCESS c), s1)
   }"

definition assert_region :: "nat \<Rightarrow> u32 \<Rightarrow> u32 \<Rightarrow> bootmem \<Rightarrow> ktest_counts \<Rightarrow> ktest_counts" where
  "assert_region i start stop s c =
     assert_equal_uint (end_addr (mem_regions s ! i)) stop (assert_equal_uint (start_addr (mem_regions s ! i)) start c)"

definition bootmem_test_koverlap_low :: "kernel_image \<Rightarrow> bootmem_test" where
  "bootmem_test_koverlap_low k c s = do {
     let kernel_start = PAGE_ALIGN (KERNEL_PHYS_START k);
     let start = kernel_start - PAGE_SIZE;
     let stop = kernel_start + PAGE_SIZE;
     (_, s1) \<leftarrow> bootmem_add_mem_region k start stop MEM_REGION_AVAILABLE s;
     Some (assert_region 0 start kernel_start s1 (assert_table 1 (kernel_start div PAGE_SIZE) s1 c), s1)
   }"

definition bootmem_test_koverlap_high :: "kernel_image \<Rightarrow> bootmem_test" where
  "bootmem_test_koverlap_high k c s = do {
     let kernel_end = PAGE_ALIGN (KERNEL_PHYS_END k);
     let start = kernel_end - PAGE_SIZE;
     let stop = kernel_end + PAGE_SIZE;
     (_, s1) \<leftarrow> bootmem_add_mem_region k start stop MEM_REGION_AVAILABLE s;
     Some (assert_region 0 kernel_end stop s1 (assert_table 1 (stop div PAGE_SIZE) s1 c), s1)
   }"

definition bootmem_test_koverlap_all :: "kernel_image \<Rightarrow> bootmem_test" where
  "bootmem_test_koverlap_all k c s = do {
     let kernel_start = PAGE_ALIGN (KERNEL_PHYS_START k);
     let kernel_end = PAGE_ALIGN (KERNEL_PHYS_END k);
     let start = kernel_start - PAGE_SIZE;
     let stop = kernel_end + PAGE_SIZE;
     (_, s1) \<leftarrow> bootmem_add_mem_region k start stop MEM_REGION_AVAILABLE s;
     Some (assert_region 1 kernel_end stop s1 (assert_region 0 start kernel_start s1 (assert_table 2 (stop div PAGE_SIZE) s1 c)), s1)
   }"

definition bootmem_test_alloc_ok_partial :: "kernel_image \<Rightarrow> bootmem_test" where
  "bootmem_test_alloc_ok_partial k c s = do {
     (_, s1) \<leftarrow> bootmem_add_mem_region k 0x10000 (0x10000 + PAGE_SIZE * 4) MEM_REGION_AVAILABLE s;
     let (rv, s2) = bootmem_alloc PAGE_SIZE BM_NO_ALIGN s1;
     Some (assert_equal_ptr rv (PHY_TO_VIR 0x10000) (assert_not_equal_ptr rv 0 c), s2)
   }"

definition bootmem_test_alloc_ok_all :: "kernel_image \<Rightarrow> bootmem_test" where
  "bootmem_test_alloc_ok_all k c s = do {
     (_, s1) \<leftarrow> bootmem_add_mem_region k 0x10000 (0x10000 + PAGE_SIZE * 4) MEM_REGION_AVAILABLE s;
     let (rv, s2) = bootmem_alloc (PAGE_SIZE * 4) BM_NO_ALIGN s1;
     Some (assert_equal_ptr rv (PHY_TO_VIR 0x10000) (assert_not_equal_ptr rv 0 c), s2)
   }"

definition bootmem_test_alloc_bad_exceed :: "kernel_image \<Rightarrow> bootmem_test" where
  "bootmem_test_alloc_bad_exceed k c s = do {
     (_, s1) \<leftarrow> bootmem_add_mem_region k 0x10000 (0x10000 + PAGE_SIZE * 4) MEM_REGION_AVAILABLE s;
     let (rv, s2) = bootmem_alloc (PAGE_SIZE * 5) BM_NO_ALIGN s1;
     Some (assert_equal_ptr rv 0 c, s2)
   }"

definition bootmem_test_alloc_bad_no_regions :: bootmem_test where
  "bootmem_test_alloc_bad_no_regions c s =
     (let (rv, s1) = bootmem_alloc PAGE_SIZE BM_NO_ALIGN s in Some (assert_equal_ptr rv 0 c, s1))"

definition bootmem_test_alloc_multiple_regions :: "kernel_image \<Rightarrow> bootmem_test" where
  "bootmem_test_alloc_multiple_regions k c s = do {
     (_, s1) \<leftarrow> bootmem_add_mem_region k 0x10000 (0x10000 + PAGE_SIZE * 2) MEM_REGION_AVAILABLE s;
     (_, s2) \<leftarrow> bootmem_add_mem_region k 0x20000 (0x20000 + PAGE_SIZE * 2) MEM_REGION_AVAILABLE s1;
     let (rv, s3) = bootmem_alloc (PAGE_SIZE * 2) BM_NO_ALIGN s2;
     let c1 = assert_equal_ptr rv (PHY_TO_VIR 0x10000) c;
     let (rv, s4) = bootmem_alloc (PAGE_SIZE * 2) BM_NO_ALIGN s3;
     let c2 = assert_equal_ptr rv (PHY_TO_VIR 0x20000) c1;
     let (rv, s5) = bootmem_alloc PAGE_SIZE BM_NO_ALIGN s4;
     Some (assert_equal_ptr rv 0 c2, s5)
   }"

definition bootmem_test_zero_length_region :: "kernel_image \<Rightarrow> bootmem_test" where
  "bootmem_test_zero_length_region k c s = do {
     (rv, s1) \<leftarrow> bootmem_add_mem_region k 0x10000 0x10000 MEM_REGION_AVAILABLE s;
     Some (assert_table 0 0 s1 (assert_equal_int rv E_ERROR c), s1)
   }"

definition bootmem_test_invalid_region_bounds :: "kernel_image \<Rightarrow> bootmem_test" where
  "bootmem_test_invalid_region_bounds k c s = do {
     (rv, s1) \<leftarrow> bootmem_add_mem_region k 0x11000 0x10000 MEM_REGION_AVAILABLE s;
     Some (assert_table 0 0 s1 (assert_equal_int rv E_ERROR c), s1)
   }"

text \<open>The table is all zero bytes exactly when every region is; like \<^verbatim>\<open>_assert_filled\<close> this counts a pass in any case.\<close>

definition assert_regions_clear :: "bootmem \<Rightarrow> ktest_counts \<Rightarrow> ktest_counts" where
  "assert_regions_clear s c = ktest_pass (if list_all (\<lambda>r. r = empty_region) (mem_regions s) then c else ktest_fail c)"

definition bootmem_test_reset :: "kernel_image \<Rightarrow> bootmem_test" where
  "bootmem_test_reset k c s = do {
     (_, s1) \<leftarrow> bootmem_add_mem_region k 0x10000 0x11000 MEM_REGION_AVAILABLE s;
     let s2 = bootmem_reset s1;
     Some (assert_table 0 0 s2 (assert_regions_clear s2 c), s2)
   }"

text \<open>The units in the order of registration; \<open>nm i\<close> is the address of the name of unit \<open>i\<close>.\<close>

definition bootmem_tests :: "kernel_image \<Rightarrow> bootmem_test list" where
  "bootmem_tests k =
     [bootmem_test_add_all_regions k, bootmem_test_excess_regions k, bootmem_test_kernel_region k, bootmem_test_invalid_type k,
      bootmem_test_highest_pfn k, bootmem_test_koverlap_low k, bootmem_test_koverlap_high k, bootmem_test_koverlap_all k,
      bootmem_test_alloc_ok_partial k, bootmem_test_alloc_ok_all k, bootmem_test_alloc_bad_exceed k, bootmem_test_reset k,
      bootmem_test_alloc_bad_no_regions, bootmem_test_alloc_multiple_regions k, bootmem_test_zero_length_region k,
      bootmem_test_invalid_region_bounds k]"

definition bootmem_module :: "u32 \<Rightarrow> (nat \<Rightarrow> u32) \<Rightarrow> kernel_image \<Rightarrow> bootmem ktest_module" where
  "bootmem_module name nm k =
     \<lparr>mod_name = name, module_pre = Some Some, module_post = Some Some, test_pre = Some bootmem_pre_test, test_post = Some Some,
      tests = map (\<lambda>i. \<lparr>unit_name = nm i, unit_counts = \<lparr>pass_count = 0, fail_count = 0\<rparr>, test_func = bootmem_tests k ! i\<rparr>) [0..<16]\<rparr>"

section \<open>Tables with the first regions in use\<close>

definition tab :: "mem_region list \<Rightarrow> u32 \<Rightarrow> bootmem" where
  "tab rs h = \<lparr>mem_regions = rs @ replicate (16 - length rs) empty_region, highest_pfn = h, region_count = of_nat (length rs)\<rparr>"

definition avail :: "u32 \<Rightarrow> u32 \<Rightarrow> mem_region" where
  "avail x y = \<lparr>start_addr = x, end_addr = y, orig_start_addr = x, region_type = MEM_REGION_AVAILABLE\<rparr>"

lemma pre_test_tab: "bootmem_pre_test s = Some (tab [] 0)"
  by (cases s) (simp add: bootmem_pre_test_def tab_def rotary_const)

lemma of_nat_not_16: "n < 16 \<Longrightarrow> of_nat n \<noteq> (16 :: u32)"
proof
  assume n: "n < 16" "of_nat n = (16 :: u32)"
  have "unat (of_nat n :: u32) = n" using n(1) by (simp add: unat_of_nat)
  then show False using n by simp
qed

lemma tab_record:
  assumes "length rs < 16" "\<forall>r\<in>set rs. start_addr r \<noteq> 0"
  shows "add_region_record x y type (tab rs h) =
    (E_SUCCESS, tab (rs @ [\<lparr>start_addr = x, end_addr = y, orig_start_addr = x, region_type = type\<rparr>]) (max h (PA_TO_PFN y)))"
proof -
  let ?r = "\<lparr>start_addr = x, end_addr = y, orig_start_addr = x, region_type = type\<rparr>"
  have n: "unat (of_nat (length rs) :: u32) = length rs" using assms(1) by (simp add: unat_of_nat)
  have "slots_prefix (tab rs h)" unfolding slots_prefix_def
    using assms by (auto simp: tab_def n rotary_const nth_append empty_region_def)
  moreover have "region_count (tab rs h) \<noteq> 16" using n assms(1) by (auto simp: tab_def)
  moreover have "replicate (16 - length rs) empty_region = empty_region # replicate (16 - Suc (length rs)) empty_region"
    using assms(1) by (metis Suc_diff_Suc replicate_Suc)
  then have "(rs @ replicate (16 - length rs) empty_region)[length rs := ?r] = (rs @ [?r]) @ replicate (16 - length (rs @ [?r])) empty_region"
    by simp
  ultimately show ?thesis using add_region_record_slot(1) [of "tab rs h" x y type] by (simp add: tab_def n add.commute)
qed

text \<open>Where the image may lie for the tests to make sense.\<close>

definition image_testable :: "kernel_image \<Rightarrow> bool" where
  "image_testable k \<longleftrightarrow> 0x40000 \<le> unat (kernel_start k) \<and> unat (kernel_start k) + 4096 \<le> unat (kernel_end k) \<and> unat (kernel_end k) + 4096 < 2 ^ 32"

lemma not_rejected:
  assumes "region_count s \<noteq> 16" "unat x + 4096 \<le> unat y" "unat x < unat (kernel_start k) \<or> unat (kernel_end k) \<le> unat y"
    "type = MEM_REGION_RESERVED \<or> type = MEM_REGION_AVAILABLE"
  shows "\<not> add_rejected k x y type s"
proof -
  have "\<not> y - x < PAGE_SIZE" "x \<noteq> y" using assms(2) by (auto simp: word_less_nat_alt unat_sub word_le_nat_alt rotary_const)
  then show ?thesis using assms by (auto simp: add_rejected_def word_less_nat_alt word_le_nat_alt)
qed

text \<open>A request of whole pages beside the image.\<close>

lemma tab_add:
  assumes "length rs < 16" "\<forall>r\<in>set rs. start_addr r \<noteq> 0" "4096 dvd unat x" "4096 dvd unat y" "x < y"
    and "unat y \<le> unat (kernel_start k) \<or> unat (kernel_end k) \<le> unat x" "kernel_start k \<le> kernel_end k"
    and "type = MEM_REGION_RESERVED \<or> type = MEM_REGION_AVAILABLE"
  shows "bootmem_add_mem_region k x y type (tab rs h) =
    Some (E_SUCCESS, tab (rs @ [\<lparr>start_addr = x, end_addr = y, orig_start_addr = x, region_type = type\<rparr>]) (max h (PA_TO_PFN y)))"
proof -
  have a: "PAGE_ALIGN x = x" "PAGE_ALIGN_DOWN y = y" using assms(3,4) by (simp_all add: PAGE_ALIGN_id PAGE_ALIGN_DOWN_id)
  have n: "of_nat (length rs) \<noteq> (16 :: u32)" using assms(1) by (rule of_nat_not_16)
  have lt: "unat x < unat y" using assms(5) by (simp add: word_less_nat_alt)
  have "4096 dvd unat y - unat x" using assms(3,4) by (simp add: dvd_diff_nat)
  then have "4096 \<le> unat y - unat x" using lt by (intro dvd_imp_le) auto
  then have r: "\<not> add_rejected k x y type (tab rs h)" using n lt assms(6-8) by (intro not_rejected) (auto simp: tab_def word_le_nat_alt)
  have "\<not> (x < kernel_start k \<and> kernel_end k < y)" "clip_start k x y = x" "clip_stop k x y = y"
    using assms(6,7) lt by (auto simp: clip_start_def clip_stop_def word_less_nat_alt word_le_nat_alt)
  then show ?thesis using add_clipped_result [of k x y type "tab rs h"] r tab_record [OF assms(1,2)] by (simp add: a)
qed

lemma fits_avail: "region_fits sz 1 (avail x y) \<longleftrightarrow> x < y \<and> sz \<le> y - x"
  by (simp add: region_fits_def avail_def ALIGN_def Let_def not_le)

lemma not_fits_empty: "\<not> region_fits sz al empty_region"
  by (simp add: region_fits_def empty_region_def rotary_const)

text \<open>Allocation from such a table: the first region with room.\<close>

lemma tab_alloc_none:
  assumes "\<forall>r\<in>set rs. \<not> region_fits sz 1 r" "length rs \<le> 16"
  shows "bootmem_alloc sz BM_NO_ALIGN (tab rs h) = (0, tab rs h)"
proof -
  have "\<not> region_fits sz 1 (mem_regions (tab rs h) ! i)" if "i < 16" for i
    using that assms not_fits_empty by (auto simp: tab_def nth_append)
  then have "find (\<lambda>i. region_fits sz 1 (mem_regions (tab rs h) ! i)) [0..<16] = None" by (auto simp: find_None_iff)
  then show ?thesis by (simp add: bootmem_alloc_def rotary_const)
qed

lemma tab_alloc_some:
  assumes "\<forall>r\<in>set rs. \<not> region_fits sz 1 r" "region_fits sz 1 r" "length rs < 16"
  shows "bootmem_alloc sz BM_NO_ALIGN (tab (rs @ r # qs) h) =
    (PHY_TO_VIR (start_addr r), tab (rs @ r\<lparr>start_addr := start_addr r + sz\<rparr> # qs) h)"
proof -
  let ?m = "mem_regions (tab (rs @ r # qs) h)"
  have m: "?m ! length rs = r" by (simp add: tab_def)
  have "?m ! i = rs ! i" if "i < length rs" for i using that by (simp add: tab_def nth_append)
  then have "find (\<lambda>i. region_fits sz 1 (?m ! i)) [0..<16] = Some (length rs)"
    using assms m by (auto simp: find_Some_iff intro!: exI [of _ "length rs"])
  moreover have "ALIGN (start_addr r) 1 = start_addr r" by (simp add: ALIGN_def)
  ultimately show ?thesis using m by (simp add: bootmem_alloc_def rotary_const tab_def list_update_append Let_def)
qed

section \<open>Each test passes\<close>

text \<open>\<open>passes t n\<close>: from a cleared table the test makes \<open>n\<close> assertions, all of which hold.\<close>

definition passes :: "bootmem_test \<Rightarrow> nat \<Rightarrow> bool" where
  "passes t n \<longleftrightarrow> (\<forall>c. \<exists>s'. t c (tab [] 0) = Some (c\<lparr>pass_count := pass_count c + of_nat n\<rparr>, s'))"

lemma counts_eq: "p = q \<Longrightarrow> c\<lparr>pass_count := p\<rparr> = c\<lparr>pass_count := q\<rparr>"
  by simp

lemmas assert_simps = assert_table_def assert_region_def assert_equal_int_def assert_equal_uint_def assert_equal_ptr_def
  assert_not_equal_ptr_def ktest_pass_def

lemma pages_dvd: "4096 dvd unat (0x10000 + 0x1000 * of_nat i :: u32)" if "i \<le> 32"
proof -
  have "unat (0x10000 + 0x1000 * of_nat i :: u32) = 4096 * (16 + i)" using that by (simp add: unat_word_ariths unat_of_nat)
  then show ?thesis by simp
qed

text \<open>A request below the image.\<close>

lemma low_add:
  assumes "image_testable k" "length rs < 16" "\<forall>r\<in>set rs. start_addr r \<noteq> 0" "4096 dvd unat x" "4096 dvd unat y" "x < y" "unat y \<le> 0x40000"
    "type = MEM_REGION_RESERVED \<or> type = MEM_REGION_AVAILABLE"
  shows "bootmem_add_mem_region k x y type (tab rs h) =
    Some (E_SUCCESS, tab (rs @ [\<lparr>start_addr = x, end_addr = y, orig_start_addr = x, region_type = type\<rparr>]) (max h (PA_TO_PFN y)))"
  using assms by (intro tab_add) (auto simp: image_testable_def word_le_nat_alt)

lemma low_add_avail:
  assumes "image_testable k" "4096 dvd unat x" "4096 dvd unat y" "x < y" "unat y \<le> 0x40000"
  shows "bootmem_add_mem_region k x y MEM_REGION_AVAILABLE (tab [] 0) = Some (E_SUCCESS, tab [avail x y] (PA_TO_PFN y))"
  using low_add [of k "[]" x y MEM_REGION_AVAILABLE 0] assms by (simp add: avail_def)

lemma passes_few:
  assumes "image_testable k"
  shows "passes (bootmem_test_highest_pfn k) 3" "passes (bootmem_test_alloc_ok_partial k) 2" "passes (bootmem_test_alloc_ok_all k) 2"
    "passes (bootmem_test_alloc_bad_exceed k) 1" "passes (bootmem_test_reset k) 3" "passes bootmem_test_alloc_bad_no_regions 1"
proof -
  have a: "bootmem_add_mem_region k 0x10000 0x11000 MEM_REGION_AVAILABLE (tab [] 0) = Some (E_SUCCESS, tab [avail 0x10000 0x11000] 0x11)"
    using low_add_avail [OF assms, of "0x10000" "0x11000"] by (simp add: PA_TO_PFN_def)
  have b: "bootmem_add_mem_region k 0x10000 (0x10000 + PAGE_SIZE * 4) MEM_REGION_AVAILABLE (tab [] 0) = Some (E_SUCCESS, tab [avail 0x10000 0x14000] 0x14)"
    using low_add_avail [OF assms, of "0x10000" "0x14000"] by (simp add: PA_TO_PFN_def rotary_const)
  show "passes (bootmem_test_highest_pfn k) 3"
    by (simp add: passes_def bootmem_test_highest_pfn_def a assert_simps) (simp add: tab_def rotary_const ktest_pass_def)
  show "passes (bootmem_test_reset k) 3"
    by (simp add: passes_def bootmem_test_reset_def a assert_simps assert_regions_clear_def)
      (simp add: bootmem_reset_def list_all_iff ktest_pass_def)
  note al = tab_alloc_some [where rs = "[]", simplified] tab_alloc_none
  have f: "region_fits 0x1000 1 (avail 0x10000 0x14000)" "region_fits 0x4000 1 (avail 0x10000 0x14000)" "\<not> region_fits 0x5000 1 (avail 0x10000 0x14000)"
    by (simp_all add: fits_avail)
  show "passes (bootmem_test_alloc_ok_partial k) 2"
    using al(1) [OF f(1), of "[]" "0x14"] f by (simp add: passes_def bootmem_test_alloc_ok_partial_def b assert_simps) (simp add: rotary_const avail_def rotary_macro ktest_pass_def)
  show "passes (bootmem_test_alloc_ok_all k) 2"
    using al(1) [OF f(2), of "[]" "0x14"] f by (simp add: passes_def bootmem_test_alloc_ok_all_def b assert_simps) (simp add: rotary_const avail_def rotary_macro ktest_pass_def)
  show "passes (bootmem_test_alloc_bad_exceed k) 1"
    using al(2) [of "[avail 0x10000 0x14000]" "0x5000" "0x14"] f(3) by (simp add: passes_def bootmem_test_alloc_bad_exceed_def b assert_simps) (simp add: rotary_const ktest_pass_def)
  show "passes bootmem_test_alloc_bad_no_regions 1"
    using al(2) [of "[]" PAGE_SIZE 0] by (simp add: passes_def bootmem_test_alloc_bad_no_regions_def assert_simps)
qed

lemma passes_more:
  assumes "image_testable k"
  shows "passes (bootmem_test_zero_length_region k) 3" "passes (bootmem_test_invalid_region_bounds k) 3" "passes (bootmem_test_invalid_type k) 9"
    "passes (bootmem_test_alloc_multiple_regions k) 3"
proof -
  have pa: "PAGE_ALIGN 0x10000 = 0x10000" "PAGE_ALIGN_DOWN 0x10000 = 0x10000" "PAGE_ALIGN 0x11000 = 0x11000" by (simp_all add: PAGE_ALIGN_id PAGE_ALIGN_DOWN_id)
  have "bootmem_add_mem_region k 0x10000 0x10000 MEM_REGION_AVAILABLE (tab [] 0) = Some (E_ERROR, tab [] 0)"
    by (rule add_rejected_result) (simp add: add_rejected_def pa)
  then show "passes (bootmem_test_zero_length_region k) 3"
    by (simp add: passes_def bootmem_test_zero_length_region_def assert_simps) (simp add: tab_def ktest_pass_def)
  have "bootmem_add_mem_region k 0x11000 0x10000 MEM_REGION_AVAILABLE (tab [] 0) = Some (E_ERROR, tab [] 0)"
    by (rule add_rejected_result) (simp add: add_rejected_def pa)
  then show "passes (bootmem_test_invalid_region_bounds k) 3"
    by (simp add: passes_def bootmem_test_invalid_region_bounds_def assert_simps) (simp add: tab_def ktest_pass_def)
  let ?r = "\<lparr>start_addr = 0x20000, end_addr = 0x21000, orig_start_addr = 0x20000, region_type = MEM_REGION_RESERVED\<rparr>"
  have a: "bootmem_add_mem_region k 0x10000 0x11000 MEM_REGION_AVAILABLE (tab [] 0) = Some (E_SUCCESS, tab [avail 0x10000 0x11000] 0x11)"
    using low_add_avail [OF assms, of "0x10000" "0x11000"] by (simp add: PA_TO_PFN_def)
  have b: "bootmem_add_mem_region k 0x20000 0x21000 MEM_REGION_RESERVED (tab [avail 0x10000 0x11000] 0x11) = Some (E_SUCCESS, tab [avail 0x10000 0x11000, ?r] 0x21)"
    using low_add [OF assms, of "[avail 0x10000 0x11000]" "0x20000" "0x21000" MEM_REGION_RESERVED "0x11"] by (simp add: PA_TO_PFN_def avail_def max_def)
  have "bootmem_add_mem_region k 0x30000 0x31000 2 (tab [avail 0x10000 0x11000, ?r] 0x21) = Some (E_ERROR, tab [avail 0x10000 0x11000, ?r] 0x21)"
    by (rule add_rejected_result) (simp add: add_rejected_def rotary_const)
  with a b show "passes (bootmem_test_invalid_type k) 9"
    by (simp add: passes_def bootmem_test_invalid_type_def assert_simps) (simp add: tab_def rotary_const ktest_pass_def)
  let ?r1 = "avail 0x10000 0x12000" and ?r2 = "avail 0x20000 0x22000"
  have c: "bootmem_add_mem_region k 0x10000 (0x10000 + PAGE_SIZE * 2) MEM_REGION_AVAILABLE (tab [] 0) = Some (E_SUCCESS, tab [?r1] 0x12)"
    using low_add_avail [OF assms, of "0x10000" "0x12000"] by (simp add: PA_TO_PFN_def rotary_const)
  have d: "bootmem_add_mem_region k 0x20000 (0x20000 + PAGE_SIZE * 2) MEM_REGION_AVAILABLE (tab [?r1] 0x12) = Some (E_SUCCESS, tab [?r1, ?r2] 0x22)"
    using low_add [OF assms, of "[?r1]" "0x20000" "0x22000" MEM_REGION_AVAILABLE "0x12"] by (simp add: PA_TO_PFN_def avail_def max_def rotary_const)
  let ?q1 = "?r1\<lparr>start_addr := 0x12000\<rparr>" and ?q2 = "?r2\<lparr>start_addr := 0x22000\<rparr>"
  have f: "region_fits 0x2000 1 ?r1" "\<not> region_fits 0x2000 1 ?q1" "region_fits 0x2000 1 ?r2" "\<not> region_fits 0x1000 1 ?q1" "\<not> region_fits 0x1000 1 ?q2"
    by (simp_all add: fits_avail) (simp_all add: region_fits_def avail_def ALIGN_def)
  have "bootmem_alloc (PAGE_SIZE * 2) BM_NO_ALIGN (tab [?r1, ?r2] 0x22) = (PHY_TO_VIR 0x10000, tab [?q1, ?r2] 0x22)"
    using tab_alloc_some [of "[]" "0x2000" ?r1 "[?r2]" "0x22"] f(1) by (simp add: rotary_const avail_def)
  moreover have "bootmem_alloc (PAGE_SIZE * 2) BM_NO_ALIGN (tab [?q1, ?r2] 0x22) = (PHY_TO_VIR 0x20000, tab [?q1, ?q2] 0x22)"
    using tab_alloc_some [of "[?q1]" "0x2000" ?r2 "[]" "0x22"] f(2,3) by (simp add: rotary_const avail_def)
  moreover have "bootmem_alloc PAGE_SIZE BM_NO_ALIGN (tab [?q1, ?q2] 0x22) = (0, tab [?q1, ?q2] 0x22)"
    using tab_alloc_none [of "[?q1, ?q2]" "0x1000" "0x22"] f(4,5) by (simp add: rotary_const)
  ultimately show "passes (bootmem_test_alloc_multiple_regions k) 3"
    by (simp add: passes_def bootmem_test_alloc_multiple_regions_def c d assert_simps)
qed

text \<open>Around the image: the bounds of the image are whole pages, and a page on either side exists.\<close>

lemma image_facts:
  assumes "image_testable k"
  defines "ks \<equiv> kernel_start k" and "ke \<equiv> kernel_end k"
  shows "unat (ks - PAGE_SIZE) = unat ks - 4096" "unat (ks + PAGE_SIZE) = unat ks + 4096" "unat (ke - PAGE_SIZE) = unat ke - 4096" "unat (ke + PAGE_SIZE) = unat ke + 4096"
    and "4096 dvd unat ks" "4096 dvd unat ke" "PAGE_ALIGN (KERNEL_PHYS_START k) = ks" "PAGE_ALIGN (KERNEL_PHYS_END k) = ke"
    and "0x40000 \<le> unat ks" "unat ks + 4096 \<le> unat ke"
proof -
  have b: "0x40000 \<le> unat ks" "unat ks + 4096 \<le> unat ke" "unat ke + 4096 < 2 ^ 32" using assms(1) by (simp_all add: image_testable_def ks_def ke_def)
  then show "0x40000 \<le> unat ks" "unat ks + 4096 \<le> unat ke" by simp_all
  have p: "unat PAGE_SIZE = 4096" by (simp add: rotary_const)
  show "unat (ks - PAGE_SIZE) = unat ks - 4096" "unat (ke - PAGE_SIZE) = unat ke - 4096" using b p by (simp_all add: unat_sub word_le_nat_alt)
  show "unat (ks + PAGE_SIZE) = unat ks + 4096" "unat (ke + PAGE_SIZE) = unat ke + 4096" using b p by (simp_all add: unat_word_ariths)
  show "4096 dvd unat ks" "4096 dvd unat ke" "PAGE_ALIGN (KERNEL_PHYS_START k) = ks" "PAGE_ALIGN (KERNEL_PHYS_END k) = ke"
    unfolding ks_def ke_def kernel_start_def kernel_end_def by (simp_all add: PAGE_ALIGN_aligned)
qed

lemma pfn_div: "PA_TO_PFN y = y div PAGE_SIZE"
  by (simp add: PA_TO_PFN_def rotary_const drop_bit_eq_div)

lemma passes_image:
  assumes "image_testable k"
  shows "passes (bootmem_test_kernel_region k) 3" "passes (bootmem_test_koverlap_low k) 4" "passes (bootmem_test_koverlap_high k) 4"
    "passes (bootmem_test_koverlap_all k) 6"
proof -
  let ?ks = "kernel_start k" and ?ke = "kernel_end k"
  note I = image_facts [OF assms]
  have d: "4096 dvd unat (?ks - PAGE_SIZE)" "4096 dvd unat (?ks + PAGE_SIZE)" "4096 dvd unat (?ke - PAGE_SIZE)" "4096 dvd unat (?ke + PAGE_SIZE)"
    using I by (simp_all add: dvd_diff_nat)
  have al: "PAGE_ALIGN a = a" "PAGE_ALIGN_DOWN a = a" if "4096 dvd unat a" for a using that by (simp_all add: PAGE_ALIGN_id PAGE_ALIGN_DOWN_id)
  have c0: "region_count (tab [] 0) \<noteq> 16" by (simp add: tab_def)
  have "add_rejected k (PAGE_ALIGN ?ks) (PAGE_ALIGN_DOWN (?ke - PAGE_SIZE)) MEM_REGION_AVAILABLE (tab [] 0)"
    using I d by (simp add: al add_rejected_def word_less_nat_alt)
  from add_rejected_result [OF this] show "passes (bootmem_test_kernel_region k) 3"
    by (simp add: passes_def bootmem_test_kernel_region_def I(7,8) assert_simps) (simp add: tab_def ktest_pass_def)
  let ?a = "?ks - PAGE_SIZE" and ?b = "?ks + PAGE_SIZE"
  have "\<not> add_rejected k ?a ?b MEM_REGION_AVAILABLE (tab [] 0)" using I by (intro not_rejected c0) auto
  moreover have "\<not> (?a < ?ks \<and> ?ke < ?b)" "clip_start k ?a ?b = ?a" "clip_stop k ?a ?b = ?ks"
    using I by (auto simp: clip_start_def clip_stop_def word_less_nat_alt)
  ultimately have "bootmem_add_mem_region k ?a ?b MEM_REGION_AVAILABLE (tab [] 0) = Some (E_SUCCESS, tab [avail ?a ?ks] (?ks div PAGE_SIZE))"
    using add_clipped_result [of k ?a ?b MEM_REGION_AVAILABLE "tab [] 0"] d tab_record [of "[]"] by (simp add: al avail_def pfn_div)
  then show "passes (bootmem_test_koverlap_low k) 4"
    by (simp add: passes_def bootmem_test_koverlap_low_def I(7) assert_simps) (simp add: tab_def avail_def ktest_pass_def Let_def add.commute)
  let ?x = "?ke - PAGE_SIZE" and ?y = "?ke + PAGE_SIZE"
  have "\<not> add_rejected k ?x ?y MEM_REGION_AVAILABLE (tab [] 0)" using I by (intro not_rejected c0) auto
  moreover have "\<not> (?x < ?ks \<and> ?ke < ?y)" "clip_start k ?x ?y = ?ke" "clip_stop k ?x ?y = ?y"
    using I by (auto simp: clip_start_def clip_stop_def word_less_nat_alt)
  ultimately have "bootmem_add_mem_region k ?x ?y MEM_REGION_AVAILABLE (tab [] 0) = Some (E_SUCCESS, tab [avail ?ke ?y] (?y div PAGE_SIZE))"
    using add_clipped_result [of k ?x ?y MEM_REGION_AVAILABLE "tab [] 0"] d tab_record [of "[]"] by (simp add: al avail_def pfn_div)
  then show "passes (bootmem_test_koverlap_high k) 4"
    by (simp add: passes_def bootmem_test_koverlap_high_def I(8) assert_simps) (simp add: tab_def avail_def ktest_pass_def Let_def add.commute)
  have ord: "?ks \<le> ?ke" "?a < ?ks" "?ke < ?y" "?a \<noteq> 0" using I by (auto simp: word_le_nat_alt word_less_nat_alt word_unat_eq_iff)
  have m: "max (?ks div PAGE_SIZE) (?y div PAGE_SIZE) = ?y div PAGE_SIZE"
    using I by (intro max_absorb2) (simp add: word_le_nat_alt unat_div rotary_const div_le_mono)
  have "bootmem_add_mem_region k ?a ?ks MEM_REGION_AVAILABLE (tab [] 0) = Some (E_SUCCESS, tab [avail ?a ?ks] (?ks div PAGE_SIZE))"
    using tab_add [of "[]" ?a ?ks k MEM_REGION_AVAILABLE 0] d(1) I(5) ord by (simp add: avail_def pfn_div)
  moreover have "bootmem_add_mem_region k ?ke ?y MEM_REGION_AVAILABLE (tab [avail ?a ?ks] (?ks div PAGE_SIZE)) = Some (E_SUCCESS, tab [avail ?a ?ks, avail ?ke ?y] (?y div PAGE_SIZE))"
    using tab_add [of "[avail ?a ?ks]" ?ke ?y k MEM_REGION_AVAILABLE] d(4) I(6) ord m by (simp add: avail_def pfn_div)
  moreover have "\<not> add_rejected k ?a ?y MEM_REGION_AVAILABLE (tab [] 0)" using I by (intro not_rejected c0) auto
  ultimately have "bootmem_add_mem_region k ?a ?y MEM_REGION_AVAILABLE (tab [] 0) = Some (E_SUCCESS, tab [avail ?a ?ks, avail ?ke ?y] (?y div PAGE_SIZE))"
    using add_surrounding_result [of k ?a ?y MEM_REGION_AVAILABLE "tab [] 0"] d ord by (simp add: al)
  then show "passes (bootmem_test_koverlap_all k) 6"
    by (simp add: passes_def bootmem_test_koverlap_all_def I(7,8) assert_simps) (simp add: tab_def avail_def ktest_pass_def Let_def add.commute)
qed

text \<open>The loops: \<open>pages_tab i\<close> is the table after \<open>i\<close> rounds.\<close>

definition pages_tab :: "nat \<Rightarrow> bootmem" where
  "pages_tab i = tab (map (\<lambda>j. avail (0x10000 + of_nat j * PAGE_SIZE) (0x11000 + of_nat j * PAGE_SIZE)) [0..<i]) (if i = 0 then 0 else 0x10 + of_nat i)"

lemma page_addr:
  assumes "i < 32"
  shows "unat (0x10000 + of_nat i * PAGE_SIZE) = 0x10000 + 4096 * i" "unat (0x11000 + of_nat i * PAGE_SIZE) = 0x11000 + 4096 * i"
    "(0x11000 + of_nat i * PAGE_SIZE) div PAGE_SIZE = 0x11 + of_nat i"
proof -
  have n: "unat (of_nat i :: u32) = i" using assms by (simp add: unat_of_nat)
  show "unat (0x10000 + of_nat i * PAGE_SIZE) = 0x10000 + 4096 * i" "unat (0x11000 + of_nat i * PAGE_SIZE) = 0x11000 + 4096 * i"
    using assms n by (simp_all add: unat_word_ariths rotary_const)
  then show "(0x11000 + of_nat i * PAGE_SIZE) div PAGE_SIZE = 0x11 + of_nat i"
    using assms n by (intro unat_eqI) (simp add: unat_div unat_word_ariths rotary_const)
qed

lemma pages_tab_add:
  assumes "image_testable k" "i < 16"
  shows "add_page_region k i (pages_tab i) = Some (E_SUCCESS, pages_tab (Suc i))"
proof -
  let ?x = "\<lambda>j. 0x10000 + of_nat j * PAGE_SIZE" and ?y = "\<lambda>j. 0x11000 + of_nat j * PAGE_SIZE"
  have "unat (?x j) \<noteq> 0" if "j < i" for j using page_addr(1) [of j] that assms(2) by simp
  then have nz: "?x j \<noteq> 0" if "j < i" for j using that by (metis unat_0)
  have u: "unat (?x i) = 4096 * (16 + i)" "unat (?y i) = 4096 * (17 + i)" using page_addr [of i] assms(2) by simp_all
  have "max (if i = 0 then 0 else 0x10 + of_nat i :: u32) (0x11 + of_nat i) = 0x11 + of_nat i"
    using assms(2) by (intro max_absorb2) (simp add: word_le_nat_alt unat_word_ariths unat_of_nat)
  moreover have "PA_TO_PFN (?y i) = 0x11 + of_nat i" using page_addr(3) [of i] assms(2) by (simp add: pfn_div)
  ultimately show ?thesis
    using low_add [OF assms(1), of "map (\<lambda>j. avail (?x j) (?y j)) [0..<i]" "?x i" "?y i" MEM_REGION_AVAILABLE] u nz assms(2)
    by (simp add: add_page_region_def pages_tab_def avail_def word_less_nat_alt add.assoc)
qed

lemma round_asserts:
  assumes "i < 16"
  shows "assert_table (of_nat i + 1) ((0x11000 + of_nat i * PAGE_SIZE) div PAGE_SIZE) (pages_tab (Suc i)) (assert_equal_int E_SUCCESS E_SUCCESS c) =
    c\<lparr>pass_count := pass_count c + 3\<rparr>"
  using page_addr(3) [of i] assms by (simp add: assert_simps) (simp add: pages_tab_def tab_def)

lemma add_all_run:
  assumes "image_testable k"
  shows "i + n \<le> 16 \<Longrightarrow> add_all_loop k [i..<i + n] c (pages_tab i) = Some (c\<lparr>pass_count := pass_count c + of_nat (3 * n)\<rparr>, pages_tab (i + n))"
proof (induction n arbitrary: i c)
  case (Suc n)
  have u: "[i..<i + Suc n] = i # [Suc i..<Suc i + n]" by (simp add: upt_conv_Cons)
  show ?case unfolding u using round_asserts [of i c] pages_tab_add [OF assms, of i] Suc.IH [of "Suc i"] Suc.prems by (simp add: Let_def algebra_simps)
qed simp

lemma excess_run:
  assumes "image_testable k"
  shows "i + n \<le> 16 \<Longrightarrow> excess_loop k ([i..<i + n] @ js) c (pages_tab i) =
    excess_loop k js (c\<lparr>pass_count := pass_count c + of_nat (3 * n)\<rparr>) (pages_tab (i + n))"
proof (induction n arbitrary: i c)
  case (Suc n)
  have u: "[i..<i + Suc n] = i # [Suc i..<Suc i + n]" by (simp add: upt_conv_Cons)
  show ?case unfolding u using round_asserts [of i c] pages_tab_add [OF assms, of i] Suc.IH [of "Suc i"] Suc.prems
    by (simp add: Let_def algebra_simps MAX_MEM_REGIONS_def)
qed simp

lemma passes_loops:
  assumes "image_testable k"
  shows "passes (bootmem_test_add_all_regions k) 48" "passes (bootmem_test_excess_regions k) 51"
proof -
  have z: "tab [] 0 = pages_tab 0" by (simp add: pages_tab_def)
  show "passes (bootmem_test_add_all_regions k) 48"
    using add_all_run [OF assms, of 0 16] by (simp add: passes_def bootmem_test_add_all_regions_def z MAX_MEM_REGIONS_def)
  have full: "region_count (pages_tab 16) = 16" "highest_pfn (pages_tab 16) = 0x20" by (simp_all add: pages_tab_def tab_def)
  have "add_page_region k 16 (pages_tab 16) = Some (E_ERROR, pages_tab 16)"
    unfolding add_page_region_def by (rule add_rejected_result) (simp add: add_rejected_def full)
  moreover have "[0..<MAX_MEM_REGIONS + 1] = [0..<0 + 16] @ [16]" by (simp add: MAX_MEM_REGIONS_def upt_rec)
  ultimately show "passes (bootmem_test_excess_regions k) 51"
    using excess_run [OF assms, of 0 16 "[16]"]
    by (simp add: passes_def bootmem_test_excess_regions_def z assert_simps full MAX_MEM_REGIONS_def rotary_const)
qed

section \<open>The module\<close>

text \<open>The number of assertions of each unit.\<close>

definition unit_assertions :: "nat list" where
  "unit_assertions = [48, 51, 3, 9, 3, 4, 4, 6, 2, 2, 1, 3, 1, 3, 3, 3]"

lemma units_pass:
  assumes "image_testable k"
  shows "list_all2 passes (bootmem_tests k) unit_assertions"
  using passes_few [OF assms] passes_more [OF assms] passes_image [OF assms] passes_loops [OF assms]
  by (simp add: bootmem_tests_def unit_assertions_def)

lemma passes_unit: "passes t n \<Longrightarrow> unit_passes bootmem_pre_test t n"
  by (simp add: passes_def unit_passes_def pre_test_tab)

lemma module_units_pass:
  assumes "image_testable k"
  shows "list_all2 (\<lambda>u. unit_passes bootmem_pre_test (test_func u)) (tests (bootmem_module name nm k)) unit_assertions"
proof -
  have "length (bootmem_tests k) = 16" by (simp add: bootmem_tests_def)
  then show ?thesis using units_pass [OF assms] passes_unit by (simp add: bootmem_module_def list_all2_conv_all_nth)
qed

section \<open>Property\<close>

text \<open>
  C39: The kernel's tests of the boot memory allocator pass, wherever the kernel image lies (above the addresses
  the tests use, at least a page long and a page below the end of memory): when the module is run by its name, all
  of its 16 units run to the end, none of the 146 assertions fails, and each unit makes the
  number of assertions its text has.
\<close>

theorem bootmem_tests_pass:
  assumes "image_testable k" and "cstr m name t"
  shows "\<exists>us s'. ktest_run_module (\<lambda>_. m) name ([bootmem_module name nm k], s) = Some ([(bootmem_module name nm k)\<lparr>tests := us\<rparr>], s') \<and>
    map (\<lambda>u. fail_count (unit_counts u)) us = replicate 16 0 \<and>
    map (\<lambda>u. pass_count (unit_counts u)) us = [48, 51, 3, 9, 3, 4, 4, 6, 2, 2, 1, 3, 1, 3, 3, 3]"
proof -
  let ?md = "bootmem_module name nm k"
  obtain s' where "ktest_run_module (\<lambda>_. m) name ([?md], s) = Some ([?md\<lparr>tests := map2 passed (tests ?md) unit_assertions\<rparr>], s')"
    using run_module_pass [of ?md bootmem_pre_test unit_assertions m t s] module_units_pass [OF assms(1)] assms(2)
    by (auto simp: bootmem_module_def)
  moreover have "map (\<lambda>u. fail_count (unit_counts u)) (map2 passed (tests ?md) unit_assertions) = replicate 16 0"
    "map (\<lambda>u. pass_count (unit_counts u)) (map2 passed (tests ?md) unit_assertions) = [48, 51, 3, 9, 3, 4, 4, 6, 2, 2, 1, 3, 1, 3, 3, 3]"
    by (simp_all add: bootmem_module_def unit_assertions_def upt_rec passed_def numeral_eq_Suc)
  ultimately show ?thesis by (intro exI conjI)
qed

text \<open>With an image from 1 MiB on, and \<^verbatim>\<open>bootmem\<close> at address 100.\<close>

theorem bootmem_tests_pass_witness:
  "\<exists>us s'. ktest_run_module (\<lambda>_. store (\<lambda>_. 7) 100 (map of_char ''bootmem'' @ [0])) 100 ([bootmem_module 100 (\<lambda>_. 0) sample_image], one_region 0 0) =
      Some ([(bootmem_module 100 (\<lambda>_. 0) sample_image)\<lparr>tests := us\<rparr>], s') \<and>
    map (\<lambda>u. fail_count (unit_counts u)) us = replicate 16 0 \<and>
    map (\<lambda>u. pass_count (unit_counts u)) us = [48, 51, 3, 9, 3, 4, 4, 6, 2, 2, 1, 3, 1, 3, 3, 3]"
proof (rule bootmem_tests_pass)
  show "image_testable sample_image" by (simp add: image_testable_def)
  show "cstr (store (\<lambda>_. 7) 100 (map of_char ''bootmem'' @ [0])) 100 (map of_char ''bootmem'')" by (rule cstr_store) simp_all
qed

end
