(* ===== verification/Palloc_Tests.thy ===== *)
theory Palloc_Tests
  imports Palloc_Props Bootmem_Tests
begin

text \<open>
  The kernel's own unit tests of the page allocator, \<^verbatim>\<open>test/palloc.c\<close>, run on the model: the test functions with their
  assertions, the module that registers them, and the theorem that all of them pass. A test takes the counters of its
  unit, the boot memory allocator and the page allocator; a panic ends it, which is \<^term>\<open>None\<close> like undefined behaviour.
\<close>

section \<open>The tests\<close>

type_synonym allocators = "bootmem \<times> buddy_allocator"
type_synonym palloc_test = "ktest_counts \<Rightarrow> allocators \<Rightarrow> (ktest_counts \<times> allocators) option"

text \<open>
  Clearing the allocator leaves it without page area and block lists; the second \<^verbatim>\<open>memset\<close> has the size of one
  block list and clears the first only, so the list heads of the others stay as they were.
\<close>

definition palloc_pre_test :: "allocators \<Rightarrow> allocators option" where
  "palloc_pre_test = (\<lambda>(bm, s). Some (bootmem_reset bm,
     s\<lparr>page_area := [], page_area_addr := 0, page_count := 0, blocks := [], max_order := 0, buddy_lock := False,
       nodes := (nodes s)(FreePages 0 := \<lparr>next_node = None, prev_node = None\<rparr>), low_pages := 0, high_pages := 0\<rparr>))"

definition palloc_test_configure_memory :: "kernel_image \<Rightarrow> u32 \<Rightarrow> u32 \<Rightarrow> allocators \<Rightarrow> allocators option" where
  "palloc_test_configure_memory k start stop = (\<lambda>(bm, s). do {
     let count = stop div PAGE_SIZE;
     let pool_start = 0x200000;
     let pool_end = pool_start + SIZEOF_PAGE * count;
     (_, bm1) \<leftarrow> bootmem_add_mem_region k pool_start pool_end MEM_REGION_AVAILABLE bm;
     (case buddy_init k count bm1 s of
        Panic \<Rightarrow> None
      | Returned (_, bm2, s1) \<Rightarrow> do {
          (_, bm3) \<leftarrow> bootmem_add_mem_region k start stop MEM_REGION_AVAILABLE (bootmem_reset bm2);
          out \<leftarrow> bootmem_mark_free bm3 s1;
          (case out of Panic \<Rightarrow> None | Returned (_, s2) \<Rightarrow> Some (bm3, s2))
        })
   })"

definition counts_free :: "nat \<Rightarrow> buddy_allocator \<Rightarrow> u32 option" where
  "counts_free i s = map_option free_count (block_at i s)"

text \<open>The assertions on the counters of the block lists: one list, and a loop over several.\<close>

definition assert_free :: "nat \<Rightarrow> u32 \<Rightarrow> buddy_allocator \<Rightarrow> ktest_counts \<Rightarrow> ktest_counts option" where
  "assert_free i n s c = do { x \<leftarrow> counts_free i s; Some (assert_equal_uint x n c) }"

primrec assert_free_loop :: "nat list \<Rightarrow> u32 \<Rightarrow> buddy_allocator \<Rightarrow> ktest_counts \<Rightarrow> ktest_counts option" where
  "assert_free_loop [] n s c = Some c"
| "assert_free_loop (i # js) n s c = do { c1 \<leftarrow> assert_free i n s c; assert_free_loop js n s c1 }"

text \<open>The assertions on pages: pointers into the page area are equal when the indices are, and not \<^verbatim>\<open>NULL\<close>.\<close>

definition assert_page_null :: "nat option \<Rightarrow> ktest_counts \<Rightarrow> ktest_counts" where
  "assert_page_null p c = (if p \<noteq> None then ktest_fail c else ktest_pass c)"

definition assert_page_not_null :: "nat option \<Rightarrow> ktest_counts \<Rightarrow> ktest_counts" where
  "assert_page_not_null p c = (if p = None then ktest_fail c else ktest_pass c)"

definition assert_order :: "nat option \<Rightarrow> i32 \<Rightarrow> buddy_allocator \<Rightarrow> ktest_counts \<Rightarrow> ktest_counts option" where
  "assert_order p n s c = do { i \<leftarrow> p; pg \<leftarrow> page_at i s; Some (assert_equal_int (order pg) n c) }"

subsection \<open>Initialisation\<close>

text \<open>The loop over the page structs, with the numbers of pages expected in either zone.\<close>

primrec init_page_loop :: "nat list \<Rightarrow> buddy_allocator \<Rightarrow> ktest_counts \<Rightarrow> u32 \<Rightarrow> u32 \<Rightarrow> (ktest_counts \<times> u32 \<times> u32) option" where
  "init_page_loop [] s c high low = Some (c, high, low)"
| "init_page_loop (i # js) s c high low = do {
     pg \<leftarrow> page_at i s;
     let c1 = assert_bit_set (flags pg) PF_INVALID (assert_equal_int (order pg) 0 (assert_equal_uint (pfn pg) (of_nat i) c));
     (if PFN_TO_PA (pfn pg) < LOWMEM_PLIMIT
      then init_page_loop js s (assert_bit_set (flags pg) PF_ZONE_LOWMEM c1) high (low + 1)
      else init_page_loop js s (assert_bit_set (flags pg) PF_ZONE_HIGHMEM c1) (high + 1) low)
   }"

primrec init_block_loop :: "nat list \<Rightarrow> buddy_allocator \<Rightarrow> ktest_counts \<Rightarrow> ktest_counts option" where
  "init_block_loop [] s c = Some c"
| "init_block_loop (i # js) s c = do {
     b \<leftarrow> block_at i s;
     init_block_loop js s (assert_equal_uint (used_count b) 0 (assert_equal_uint (free_count b) 0 c))
   }"

text \<open>
  The assertions before the loops. The global page count and the one of the allocator are one field of
  the model, and the array of block lists is part of it: that the allocator points to the array holds by construction.
\<close>

definition SIZEOF_BLOCK_LIST :: u32 where [rotary_const]: "SIZEOF_BLOCK_LIST = 16"

definition assert_init_state :: "i32 \<Rightarrow> u32 \<Rightarrow> u32 \<Rightarrow> buddy_allocator \<Rightarrow> ktest_counts \<Rightarrow> ktest_counts" where
  "assert_init_state rv start stop s c =
     (let c1 = assert_equal_int rv E_SUCCESS c;
          c2 = assert_equal_uint (page_count s) (stop div PAGE_SIZE) c1;
          c3 = assert_equal_uint (max_order s) (of_nat ORDER_MAX) c2;
          c4 = assert_equal_ptr (page_area_addr s) (PHY_TO_VIR start) c3;
          c5 = assert_equal_uint (page_count s) (stop div PAGE_SIZE) c4;
          c6 = ktest_pass c5
      in assert_equal_uint (of_nat (length (blocks s)) * SIZEOF_BLOCK_LIST) ((of_nat ORDER_MAX + 1) * SIZEOF_BLOCK_LIST) c6)"

definition palloc_test_buddy_init :: "kernel_image \<Rightarrow> palloc_test" where
  "palloc_test_buddy_init k c = (\<lambda>(bm, s). do {
     let start = 0x200000;
     let stop = 0x8200000;
     (_, bm1) \<leftarrow> bootmem_add_mem_region k start stop MEM_REGION_AVAILABLE bm;
     (case buddy_init k (bootmem_highest_pfn bm1) bm1 s of
        Panic \<Rightarrow> None
      | Returned (rv, bm2, s1) \<Rightarrow> do {
          c1 \<leftarrow> init_block_loop [0..<ORDER_MAX + 1] s1 (assert_init_state rv start stop s1 c);
          (c2, expected_high, expected_low) \<leftarrow> init_page_loop [0..<unat (stop div PAGE_SIZE)] s1 c1 0 0;
          Some (assert_equal_uint (low_pages s1) expected_low (assert_equal_uint (high_pages s1) expected_high c2), bm2, s1)
        })
   })"

subsection \<open>Allocation\<close>

definition palloc_test_alloc_min_order :: "kernel_image \<Rightarrow> palloc_test" where
  "palloc_test_alloc_min_order k c st = do {
     (bm, s) \<leftarrow> palloc_test_configure_memory k 0x400000 0x8400000 st;
     max_blocks \<leftarrow> counts_free ORDER_MAX s;
     (p, s1) \<leftarrow> page_alloc 0 0 s;
     let c1 = assert_page_not_null p c;
     (if p = None then Some (c1, bm, s1)
      else do {
        c2 \<leftarrow> assert_free ORDER_MAX (max_blocks - 1) s1 c1;
        c3 \<leftarrow> assert_order p ORDER_USED s1 c2;
        c4 \<leftarrow> assert_free_loop [0..<ORDER_MAX] 1 s1 c3;
        (rv, s2) \<leftarrow> page_free k p 0 s1;
        c5 \<leftarrow> assert_free ORDER_MAX max_blocks s2 (assert_equal_int rv E_SUCCESS c4);
        c6 \<leftarrow> assert_free_loop [0..<ORDER_MAX] 0 s2 c5;
        Some (c6, bm, s2)
      })
   }"

definition palloc_test_alloc_max_order :: "kernel_image \<Rightarrow> palloc_test" where
  "palloc_test_alloc_max_order k c st = do {
     (bm, s) \<leftarrow> palloc_test_configure_memory k 0x400000 0x8400000 st;
     max_blocks \<leftarrow> counts_free ORDER_MAX s;
     (p, s1) \<leftarrow> page_alloc (of_nat ORDER_MAX) 0 s;
     c1 \<leftarrow> assert_free ORDER_MAX (max_blocks - 1) s1 (assert_page_not_null p c);
     c2 \<leftarrow> assert_order p ORDER_USED s1 c1;
     c3 \<leftarrow> assert_free_loop [0..<ORDER_MAX] 0 s1 c2;
     (rv, s2) \<leftarrow> page_free k p (of_nat ORDER_MAX) s1;
     c4 \<leftarrow> assert_free ORDER_MAX max_blocks s2 (assert_equal_int rv E_SUCCESS c3);
     c5 \<leftarrow> assert_free_loop [0..<ORDER_MAX] 0 s2 c4;
     Some (c5, bm, s2)
   }"

primrec exhaust_loop :: "nat \<Rightarrow> ktest_counts \<Rightarrow> buddy_allocator \<Rightarrow> (ktest_counts \<times> buddy_allocator) option" where
  "exhaust_loop 0 c s = Some (c, s)"
| "exhaust_loop (Suc n) c s = do {
     (p, s1) \<leftarrow> page_alloc (of_nat ORDER_MAX) 0 s;
     exhaust_loop n (assert_page_not_null p c) s1
   }"

primrec refused_loop :: "nat list \<Rightarrow> ktest_counts \<Rightarrow> buddy_allocator \<Rightarrow> (ktest_counts \<times> buddy_allocator) option" where
  "refused_loop [] c s = Some (c, s)"
| "refused_loop (i # js) c s = do {
     orig_count \<leftarrow> counts_free i s;
     (p, s1) \<leftarrow> page_alloc (of_nat i) 0 s;
     c1 \<leftarrow> assert_free i orig_count s1 (assert_page_null p c);
     refused_loop js c1 s1
   }"

definition palloc_test_alloc_exhaust_all :: "kernel_image \<Rightarrow> palloc_test" where
  "palloc_test_alloc_exhaust_all k c st = do {
     (bm, s) \<leftarrow> palloc_test_configure_memory k 0x400000 0x8400000 st;
     max_count \<leftarrow> counts_free ORDER_MAX s;
     (c1, s1) \<leftarrow> exhaust_loop (unat max_count) c s;
     (c2, s2) \<leftarrow> refused_loop [0..<ORDER_MAX + 1] c1 s1;
     Some (c2, bm, s2)
   }"

definition palloc_test_alloc_split_and_free :: "kernel_image \<Rightarrow> palloc_test" where
  "palloc_test_alloc_split_and_free k c st = do {
     (bm, s) \<leftarrow> palloc_test_configure_memory k 0x400000 0x8400000 st;
     orig_max_count \<leftarrow> counts_free ORDER_MAX s;
     (page1, s1) \<leftarrow> page_alloc (of_nat ORDER_MAX - 1) 0 s;
     c1 \<leftarrow> assert_free ORDER_MAX (orig_max_count - 1) s1 (assert_page_not_null page1 c);
     c2 \<leftarrow> assert_free (ORDER_MAX - 1) 1 s1 c1;
     (page2, s2) \<leftarrow> page_alloc (of_nat ORDER_MAX - 2) 0 s1;
     c3 \<leftarrow> assert_free (ORDER_MAX - 1) 0 s2 (assert_page_not_null page2 c2);
     c4 \<leftarrow> assert_free (ORDER_MAX - 2) 1 s2 c3;
     (rv, s3) \<leftarrow> page_free k page1 (of_nat ORDER_MAX - 1) s2;
     c5 \<leftarrow> assert_free (ORDER_MAX - 1) 1 s3 (assert_equal_int rv E_SUCCESS c4);
     (rv, s4) \<leftarrow> page_free k page2 (of_nat ORDER_MAX - 2) s3;
     c6 \<leftarrow> assert_free (ORDER_MAX - 2) 0 s4 (assert_equal_int rv E_SUCCESS c5);
     c7 \<leftarrow> assert_free (ORDER_MAX - 1) 0 s4 c6;
     c8 \<leftarrow> assert_free ORDER_MAX orig_max_count s4 c7;
     Some (c8, bm, s4)
   }"

subsection \<open>Freeing\<close>

definition palloc_test_free_null :: "kernel_image \<Rightarrow> palloc_test" where
  "palloc_test_free_null k c st = do {
     (bm, s) \<leftarrow> palloc_test_configure_memory k 0x400000 0x8400000 st;
     (rv, s1) \<leftarrow> page_free k None 0 s;
     Some (assert_equal_int rv E_ERROR c, bm, s1)
   }"

definition palloc_test_free_critical :: "kernel_image \<Rightarrow> palloc_test" where
  "palloc_test_free_critical k c st = do {
     (bm, s) \<leftarrow> palloc_test_configure_memory k 0x400000 0x8400000 st;
     let page = page_from_pfn (PA_TO_PFN (KERNEL_PHYS_START k));
     let c1 = assert_page_not_null (Some page) c;
     pg \<leftarrow> page_at page s;
     count_pre \<leftarrow> counts_free (unat (order pg)) s;
     (rv, s1) \<leftarrow> page_free k (Some page) (order pg) s;
     pg1 \<leftarrow> page_at page s1;
     c2 \<leftarrow> assert_free (unat (order pg1)) count_pre s1 (assert_equal_int rv E_ERROR c1);
     Some (c2, bm, s1)
   }"

definition palloc_test_is_critical :: "kernel_image \<Rightarrow> palloc_test" where
  "palloc_test_is_critical k c st = do {
     (bm, s) \<leftarrow> palloc_test_configure_memory k 0x400000 0x8400000 st;
     let page = page_from_pfn (PA_TO_PFN (KERNEL_PHYS_START k));
     let c1 = assert_page_not_null (Some page) c;
     rv \<leftarrow> page_is_critical k (Some page) s;
     Some (assert_equal_int rv E_ERROR c1, bm, s)
   }"

primrec assert_split_loop :: "nat list \<Rightarrow> buddy_allocator \<Rightarrow> ktest_counts \<Rightarrow> ktest_counts option" where
  "assert_split_loop [] s c = Some c"
| "assert_split_loop (i # js) s c = do { c1 \<leftarrow> assert_free (ORDER_MAX - i) 1 s c; assert_split_loop js s c1 }"

definition palloc_test_partial_block_free :: "kernel_image \<Rightarrow> palloc_test" where
  "palloc_test_partial_block_free k c st = do {
     (bm, s) \<leftarrow> palloc_test_configure_memory k 0x400000 0x8400000 st;
     (page1, s1) \<leftarrow> page_alloc 0 0 s;
     (page2, s2) \<leftarrow> page_alloc 0 0 s1;
     c1 \<leftarrow> assert_free ORDER_MAX 511 s2 c;
     c2 \<leftarrow> assert_split_loop [1..<6] s2 c1;
     c3 \<leftarrow> assert_free (ORDER_MAX - 6) 0 s2 c2;
     let c4 = assert_page_not_null page2 (assert_page_not_null page1 c3);
     (if page1 = None \<or> page2 = None then Some (c4, bm, s2)
      else do {
        c5 \<leftarrow> assert_order page1 ORDER_USED s2 c4;
        c6 \<leftarrow> assert_order page2 ORDER_USED s2 c5;
        (rv1, s3) \<leftarrow> page_free k page1 0 s2;
        c7 \<leftarrow> assert_order page1 0 s3 (assert_equal_int rv1 E_SUCCESS c6);
        c8 \<leftarrow> assert_order page2 ORDER_USED s3 c7;
        (rv2, s4) \<leftarrow> page_free k page2 0 s3;
        c9 \<leftarrow> assert_order page2 0 s4 (assert_equal_int rv2 E_SUCCESS c8);
        Some (c9, bm, s4)
      })
   }"

text \<open>The units in the order of registration.\<close>

definition palloc_tests :: "kernel_image \<Rightarrow> palloc_test list" where
  "palloc_tests k =
     [palloc_test_buddy_init k, palloc_test_alloc_min_order k, palloc_test_alloc_max_order k, palloc_test_alloc_exhaust_all k,
      palloc_test_alloc_split_and_free k, palloc_test_free_null k, palloc_test_free_critical k, palloc_test_is_critical k,
      palloc_test_partial_block_free k]"

definition palloc_module :: "u32 \<Rightarrow> (nat \<Rightarrow> u32) \<Rightarrow> kernel_image \<Rightarrow> allocators ktest_module" where
  "palloc_module name nm k =
     \<lparr>mod_name = name, module_pre = Some Some, module_post = Some Some, test_pre = Some palloc_pre_test, test_post = Some Some,
      tests = map (\<lambda>i. \<lparr>unit_name = nm i, unit_counts = \<lparr>pass_count = 0, fail_count = 0\<rparr>, test_func = palloc_tests k ! i\<rparr>) [0..<9]\<rparr>"

section \<open>Memory for the tests\<close>

text \<open>The image lies below the addresses the tests use and starts at a page.\<close>

definition image_low :: "kernel_image \<Rightarrow> bool" where
  "image_low k \<longleftrightarrow> 4096 dvd unat (KERNEL_PHYS_START k) \<and> KERNEL_PHYS_START k < KERNEL_PHYS_END k \<and> unat (KERNEL_PHYS_END k) \<le> 0x200000"

lemma image_low_bounds:
  assumes "image_low k"
  shows "kernel_start k \<le> kernel_end k" "unat (kernel_end k) \<le> 0x200000"
proof -
  let ?n = "unat (KERNEL_PHYS_END k)"
  have n: "?n \<le> 0x200000" using assms by (simp add: image_low_def)
  have up: "unat (PAGE_ALIGN a) = (unat a + 4095) div 4096 * 4096" if "unat a \<le> 0x200000" for a
    using unat_PAGE_ALIGN [of a] that by simp
  have s: "unat (KERNEL_PHYS_START k) \<le> ?n" using assms by (simp add: image_low_def word_less_nat_alt)
  then have "(unat (KERNEL_PHYS_START k) + 4095) div 4096 \<le> (?n + 4095) div 4096" by (simp add: div_le_mono)
  then show "kernel_start k \<le> kernel_end k" using up n s by (simp add: kernel_start_def kernel_end_def word_le_nat_alt)
  have "(?n + 4095) div 4096 \<le> (0x200000 + 4095) div 4096" using n by (intro div_le_mono) simp
  then show "unat (kernel_end k) \<le> 0x200000" using up [OF n] by (simp add: kernel_end_def)
qed

lemma high_add:
  assumes "image_low k" "4096 dvd unat x" "4096 dvd unat y" "x < y" "0x200000 \<le> unat x"
  shows "bootmem_add_mem_region k x y MEM_REGION_AVAILABLE (tab [] 0) = Some (E_SUCCESS, tab [avail x y] (PA_TO_PFN y))"
  using tab_add [of "[]" x y k MEM_REGION_AVAILABLE 0] image_low_bounds [OF assms(1)] assms(2-) by (simp add: avail_def)

lemma reset_tab: "bootmem_reset bm = tab [] 0"
  by (cases bm) (simp add: bootmem_reset_def tab_def rotary_const)

text \<open>After the configuration: 512 blocks of the highest order, nothing in use, no order set outside the region.\<close>

definition configured :: "free_lists \<Rightarrow> buddy_allocator \<Rightarrow> bool" where
  "configured fl s \<longleftrightarrow> fresh_allocator fl s \<and> n_pages s = 33792 \<and> valid_pages s = {1024..<33792} \<and>
     (\<forall>i<1024. order (page_area s ! i) = 0)"

lemma pool_alloc:
  "bootmem_alloc (0x8400 * SIZEOF_PAGE) BM_NO_ALIGN (tab [avail 0x200000 0x2C6000] 0x2C6) =
     (0xC0200000, tab [(avail 0x200000 0x2C6000)\<lparr>start_addr := 0x2C6000\<rparr>] 0x2C6)"
proof -
  have "region_fits 0xC6000 1 (avail 0x200000 0x2C6000)" by (simp add: fits_avail)
  from tab_alloc_some [OF _ this, of "[]" "[]" "0x2C6"] show ?thesis by (simp add: rotary_const) (simp add: avail_def rotary_macro rotary_const)
qed

lemma test_region_frames: "region_frames (avail 0x400000 0x8400000) = {1024..<33792}"
  by (simp add: region_frames_def avail_def PAGE_ALIGN_id PAGE_ALIGN_DOWN_id)

lemma configure_memory:
  assumes "image_low k"
  shows "\<exists>bm' s' fl. palloc_test_configure_memory k 0x400000 0x8400000 (tab [] 0, s) = Some (bm', s') \<and> configured fl s'"
proof -
  have pool: "bootmem_add_mem_region k 0x200000 0x2C6000 MEM_REGION_AVAILABLE (tab [] 0) = Some (E_SUCCESS, tab [avail 0x200000 0x2C6000] 0x2C6)"
    using high_add [OF assms, of "0x200000" "0x2C6000"] by (simp add: PA_TO_PFN_def)
  have region: "bootmem_add_mem_region k 0x400000 0x8400000 MEM_REGION_AVAILABLE (tab [] 0) = Some (E_SUCCESS, tab [avail 0x400000 0x8400000] 0x8400)"
    using high_add [OF assms, of "0x400000" "0x8400000"] by (simp add: PA_TO_PFN_def)
  obtain s1 where s1: "buddy_init k 0x8400 (tab [avail 0x200000 0x2C6000] 0x2C6) s =
      Returned (E_SUCCESS, tab [(avail 0x200000 0x2C6000)\<lparr>start_addr := 0x2C6000\<rparr>] 0x2C6, s1)"
    and ok: "buddy_ok {} (\<lambda>_. []) s1" "n_pages s1 = 33792" "valid_pages s1 = {}"
      "\<And>i. i < 33792 \<Longrightarrow> use_count (page_area s1 ! i) = 0"
    by (rule buddy_init_state [OF _ _ pool_alloc, of k s]) simp_all
  have o: "order (page_area s1 ! i) = 0" if "i < 33792" for i
    using s1 that by (auto simp: buddy_init_def pool_alloc init_page_def Let_def)
  let ?bm = "tab [avail 0x400000 0x8400000] 0x8400"
  have "frames_apart (valid_pages s1) (n_pages s1) [avail 0x400000 0x8400000]" using ok(2,3) by (simp add: test_region_frames subset_iff)
  from mark_free_regions_run [OF ok(1) coalesced_empty this] obtain s2 where
    s2: "mark_free_regions [avail 0x400000 0x8400000] s1 = Some s2" "handover {1024..<33792} s1 s2" by (auto simp: test_region_frames)
  have "bootmem_mark_free ?bm s1 = Some (Returned (E_SUCCESS, s2))" using s2(1) by (simp add: bootmem_mark_free_def tab_def)
  then have run: "palloc_test_configure_memory k 0x400000 0x8400000 (tab [] 0, s) = Some (?bm, s2)"
    using pool region s1 by (simp add: palloc_test_configure_memory_def reset_tab rotary_const)
  obtain fl where fl: "buddy_ok {} fl s2" "coalesced fl" using s2(2) by (auto simp: handover_def)
  have "i div 64 \<noteq> j div 64" if "i < 1024" "1024 \<le> j" for i j :: nat
    using div_le_mono [of i 1023 64] div_le_mono [of 1024 j 64] that by simp
  then have "configured fl s2" using fl s2(2) ok o by (auto simp: configured_def fresh_allocator_def handover_def)
  with run show ?thesis by blast
qed

section \<open>The free lists the tests see\<close>

definition top_only :: "nat list \<Rightarrow> free_lists \<Rightarrow> bool" where
  "top_only ys fl \<longleftrightarrow> fl 6 = ys \<and> (\<forall>k<6. fl k = [])"

definition top_blocks :: "nat \<Rightarrow> nat \<Rightarrow> free_lists" where
  "top_blocks a b = (\<lambda>_. [])(6 := map (\<lambda>i. 64 * i) [a..<b])"

lemma top_blocks_free: "free_blocks (top_blocks a b) = (\<lambda>i. (64 * i, 6)) ` {a..<b}"
  by (auto simp: free_blocks_def top_blocks_def split: if_splits)

lemma top_blocks_wf: "buddy_wf (64 * b) {64 * a..<64 * b} {} (top_blocks a b)" "coalesced (top_blocks a b)"
proof -
  have "x = y" if "x \<in> (\<lambda>i. (64 * i, 6)) ` {a..<b}" "y \<in> (\<lambda>i. (64 * i, 6)) ` {a..<b}" "span x \<inter> span y \<noteq> {}" for x y :: block
    using that by auto
  then have t: "tiling (64 * b) (free_blocks (top_blocks a b))" unfolding top_blocks_free tiling_def well_placed_def by auto
  have "j \<in> cover (free_blocks (top_blocks a b))" if "64 * a \<le> j" "j < 64 * b" for j
  proof -
    have "j div 64 \<in> {a..<b}" using that div_le_mono [of "64 * a" j 64] by (simp add: less_mult_imp_div_less mult.commute)
    moreover have "j \<in> span (64 * (j div 64), 6)" by (simp add: mult.commute dividend_less_div_times)
    ultimately show ?thesis unfolding cover_def top_blocks_free by blast
  qed
  moreover have "cover (free_blocks (top_blocks a b)) \<subseteq> {64 * a..<64 * b}" unfolding cover_def top_blocks_free by auto
  ultimately have "cover (free_blocks (top_blocks a b)) = {64 * a..<64 * b}" by auto
  with t show "buddy_wf (64 * b) {64 * a..<64 * b} {} (top_blocks a b)" by (simp add: buddy_wf_def top_blocks_def distinct_map inj_on_def)
  show "coalesced (top_blocks a b)" by (simp add: coalesced_def top_blocks_def)
qed

lemma top_lists:
  assumes "buddy_wf (64 * b) {64 * a..<64 * b} {} fl" "coalesced fl"
  shows "\<exists>ys. top_only ys fl \<and> length ys = b - a \<and> (\<forall>t\<in>set ys. 64 dvd t)"
proof -
  have "free_blocks fl = free_blocks (top_blocks a b)" by (rule merged_unique [OF assms top_blocks_wf])
  then have e: "k \<le> 6 \<Longrightarrow> set (fl k) = set (top_blocks a b k)" for k by (auto simp: set_eq_iff free_blocks_def)
  have "distinct (fl 6)" "distinct (top_blocks a b 6)" using assms(1) top_blocks_wf(1) by (simp_all add: buddy_wf_def)
  then have "length (fl 6) = length (top_blocks a b 6)" using e [of 6] by (metis distinct_card order_refl)
  then have "length (fl 6) = b - a" by (simp add: top_blocks_def)
  moreover have "fl k = []" if "k < 6" for k using e [of k] that by (simp add: top_blocks_def)
  moreover have "\<forall>t\<in>set (fl 6). 64 dvd t" using e [of 6] by (auto simp: top_blocks_def)
  ultimately show ?thesis by (simp add: top_only_def)
qed

lemma configured_lists:
  assumes "configured fl s"
  shows "\<exists>ys t. top_only (ys @ [t]) fl \<and> length ys = 511 \<and> 64 dvd t"
proof -
  have "buddy_wf (64 * 528) {64 * 16..<64 * 528} {} fl" "coalesced fl" using assms by (auto simp: configured_def fresh_allocator_def buddy_ok_def)
  from top_lists [OF this] obtain ys where ys: "top_only ys fl" "length ys = 512" "\<forall>t\<in>set ys. 64 dvd t" by auto
  then have "ys = butlast ys @ [last ys]" "length (butlast ys) = 511" "64 dvd last ys" by (cases ys rule: rev_cases; simp)+
  with ys(1) show ?thesis by metis
qed

text \<open>Taking a block out of the last one, and giving it back while its upper halves are free.\<close>

definition halves :: "nat \<Rightarrow> nat list \<Rightarrow> nat \<Rightarrow> free_lists \<Rightarrow> free_lists" where
  "halves t ys m fl = (\<lambda>k. if k = 6 then ys else if m \<le> k \<and> k < 6 then [t + 2 ^ k] else fl k)"

lemma take_top:
  assumes "top_only (ys @ [t]) fl" "m \<le> 6"
  shows "take_block m fl = Some (t, halves t ys m fl)"
proof -
  have f: "fl 6 = ys @ [t]" "\<And>k. k < 6 \<Longrightarrow> fl k = []" using assms(1) by (simp_all add: top_only_def)
  have "first_order m fl = Some 6" using assms(2) f by (simp add: first_order_Some)
  moreover have "carve t m (6 - m) (fl(6 := ys)) k = halves t ys m fl k" for k
    using carve_lists [of m k "6 - m" t "fl(6 := ys)"] carve_above [of k m "6 - m" t "fl(6 := ys)"] assms(2) f(2) [of k]
    by (cases "m \<le> k \<and> k < 6") (auto simp: halves_def)
  ultimately show ?thesis using f(1) by (simp add: take_block_def fun_eq_iff)
qed

lemma give_merging:
  assumes "64 dvd t" "k \<le> 6" "\<And>j. k \<le> j \<Longrightarrow> j < 6 \<Longrightarrow> fl j = [t + 2 ^ j]"
  shows "give_block t k fl = (\<lambda>j. if j = 6 then t # fl 6 else if k \<le> j \<and> j < 6 then [] else fl j)"
  using assms(2,3)
proof (induction "6 - k" arbitrary: k fl)
  case 0
  then have "k = 6" by simp
  then show ?case by (simp add: give_block.simps [of t 6] fun_eq_iff)
next
  case (Suc d)
  then have k: "k < 6" by simp
  have "(2 :: nat) ^ Suc k dvd 2 ^ 6" using k by (intro le_imp_power_dvd) simp
  then have b: "2 ^ Suc k dvd t" using assms(1) dvd_trans [of "2 ^ Suc k" 64 t] by simp
  then have bud: "buddy_of t k = t + 2 ^ k" "low_of t k = t" using buddy_of_even [of k t] by (simp_all add: low_of_def)
  have "give_block t k fl = give_block t (Suc k) (fl(k := []))"
    using k Suc.prems(2) [of k] bud by (subst give_block.simps) simp
  also have "\<dots> = (\<lambda>j. if j = 6 then t # fl 6 else if k \<le> j \<and> j < 6 then [] else fl j)"
    using Suc.hyps(1) [of "Suc k" "fl(k := [])"] Suc.hyps(2) Suc.prems k by (auto simp: fun_eq_iff)
  finally show ?case .
qed

section \<open>Calls in a test\<close>

lemma image_low_pages:
  assumes "image_low k" "configured fl s"
  shows "no_kernel_pages k s"
proof -
  have "unat (PFN_TO_PA (of_nat i)) = 4096 * i" if "i < 33792" for i using that by (simp add: rotary_macro rotary_const unat_word_ariths unat_le_imp_of_nat)
  then show ?thesis using assms by (auto simp: no_kernel_pages_def critical_page_def configured_def image_low_def word_less_nat_alt word_le_nat_alt)
qed

lemma configured_inv: "configured fl s \<Longrightarrow> calls_inv s {} fl s"
  by (simp add: configured_def fresh_allocator_def calls_inv_def heads_def)

lemma test_alloc:
  assumes "calls_inv s0 A fl s" "take_block m fl = Some (t, fl')" "ord = of_nat m" "m \<le> 6"
  shows "\<exists>s'. page_alloc ord 0 s = Some (Some t, s') \<and> calls_inv s0 (insert (t, m) A) fl' s'"
proof -
  have m: "unat ord = m" "ord \<le> 6" using assms(3,4) by (simp_all add: unat_of_nat word_le_nat_alt)
  have ok: "buddy_ok A fl s" using assms(1) by (simp add: calls_inv_def)
  obtain s' where s': "page_alloc ord 0 s = Some (Some t, s')" using page_alloc_some [OF ok m(2)] assms(2) unfolding m(1) by blast
  from alloc_keeps_inv [OF assms(1) s'] s' assms(2) show ?thesis unfolding m(1) by auto
qed

lemma test_alloc_none:
  assumes "calls_inv s0 A fl s" "\<forall>j\<le>6. fl j = []" "m \<le> 6"
  shows "page_alloc (of_nat m) 0 s = Some (None, s)"
proof -
  have "first_order (unat (of_nat m :: u32)) fl = None" using assms(2) by (auto simp: first_order_None)
  then have "take_block (unat (of_nat m :: u32)) fl = None" by (simp add: take_block_def)
  moreover have "buddy_ok A fl s" using assms(1) by (simp add: calls_inv_def)
  ultimately show ?thesis using page_alloc_none [of A fl s "of_nat m" 0] assms(3) by (simp add: word_le_nat_alt unat_of_nat)
qed

lemma test_free:
  assumes "calls_inv s0 A fl s" "(t, m) \<in> A" "no_kernel_pages k s0" "ord = of_nat m"
  shows "\<exists>s'. page_free k (Some t) ord s = Some (E_SUCCESS, s') \<and> calls_inv s0 (A - {(t, m)}) (give_block t m fl) s'"
proof -
  have "buddy_wf (n_pages s) (valid_pages s) A fl" using assms(1) unfolding calls_inv_def buddy_ok_def by blast
  then have "t \<in> valid_pages s" using assms(2) unfolding buddy_wf_def cover_def by force
  then have "\<not> critical_page k t" using assms(1,3) by (simp add: no_kernel_pages_def calls_inv_def)
  from free_keeps_inv [OF assms(1,2) this] show ?thesis unfolding assms(4) by blast
qed

lemma test_counts: "calls_inv s0 A fl s \<Longrightarrow> j \<le> 6 \<Longrightarrow> counts_free j s = Some (of_nat (length (fl j)))"
  unfolding calls_inv_def buddy_ok_def buddy_rep_def by (auto simp: counts_free_def block_at_def)

lemma test_order_used:
  assumes "calls_inv s0 A fl s" "(t, m) \<in> A"
  shows "t < n_pages s \<and> order (page_area s ! t) = ORDER_USED"
proof -
  have "buddy_wf (n_pages s) (valid_pages s) A fl" "used_rep A s" using assms(1) unfolding calls_inv_def buddy_ok_def by blast+
  with wf_heads_covered [OF this(1) assms(2)] assms(2) show ?thesis by (force simp: used_rep_def)
qed

lemma test_order_free: "calls_inv s0 A fl s \<Longrightarrow> j \<le> 6 \<Longrightarrow> t \<in> set (fl j) \<Longrightarrow> t < n_pages s \<and> order (page_area s ! t) = of_nat j"
  unfolding calls_inv_def buddy_ok_def buddy_rep_def by blast

section \<open>Each test passes\<close>

definition plus_passes :: "nat \<Rightarrow> ktest_counts \<Rightarrow> ktest_counts" where
  "plus_passes n c = c\<lparr>pass_count := pass_count c + of_nat n\<rparr>"

lemma plus_passes_simps: "ktest_pass c = plus_passes 1 c" "plus_passes m (plus_passes n c) = plus_passes (n + m) c"
  by (simp_all add: plus_passes_def ktest_pass_def add_ac)

lemma assert_free_pass: "counts_free i s = Some n \<Longrightarrow> assert_free i n s c = Some (plus_passes 1 c)"
  by (simp add: assert_free_def assert_equal_uint_def plus_passes_simps)

lemma assert_free_loop_pass: "\<forall>i\<in>set js. counts_free i s = Some n \<Longrightarrow> assert_free_loop js n s c = Some (plus_passes (length js) c)"
  by (induction js arbitrary: c) (simp_all add: assert_free_pass plus_passes_simps, simp add: plus_passes_def)

lemma assert_order_pass:
  "i < n_pages s \<and> order (page_area s ! i) = n \<Longrightarrow> assert_order (Some i) n s c = Some (plus_passes 1 c)"
  by (simp add: assert_order_def assert_equal_int_def plus_passes_simps)

lemma assert_passes:
  "assert_page_not_null (Some p) c = plus_passes 1 c" "assert_page_null None c = plus_passes 1 c" "assert_equal_int x x c = plus_passes 1 c"
  "assert_equal_uint y y c = plus_passes 1 c"
  by (simp_all add: assert_page_not_null_def assert_page_null_def assert_equal_int_def assert_equal_uint_def plus_passes_simps)

lemmas pass_simps = assert_free_pass assert_free_loop_pass assert_order_pass assert_passes plus_passes_simps(2)

lemma passes_configured:
  assumes "image_low k"
    and "\<And>c st bm s fl ys t. palloc_test_configure_memory k 0x400000 0x8400000 st = Some (bm, s) \<Longrightarrow> configured fl s \<Longrightarrow>
      no_kernel_pages k s \<Longrightarrow> calls_inv s {} fl s \<Longrightarrow> top_only (ys @ [t]) fl \<Longrightarrow> length ys = 511 \<Longrightarrow> 64 dvd t \<Longrightarrow>
      \<exists>st'. test c st = Some (plus_passes n c, st')"
  shows "unit_passes palloc_pre_test test n"
  unfolding unit_passes_def
proof (intro allI)
  fix st c
  obtain st1 where st1: "palloc_pre_test st = Some (tab [] 0, st1)" by (cases st) (simp add: palloc_pre_test_def reset_tab)
  obtain bm s fl where s: "palloc_test_configure_memory k 0x400000 0x8400000 (tab [] 0, st1) = Some (bm, s)" "configured fl s"
    using configure_memory [OF assms(1)] by blast
  obtain ys t where "top_only (ys @ [t]) fl" "length ys = 511" "64 dvd t" using configured_lists [OF s(2)] by blast
  from assms(2) [OF s image_low_pages [OF assms(1) s(2)] configured_inv [OF s(2)] this, of c] st1
  show "\<exists>k1 k2. palloc_pre_test st = Some k1 \<and> test c k1 = Some (c\<lparr>pass_count := pass_count c + of_nat n\<rparr>, k2)"
    by (auto simp: plus_passes_def)
qed

lemma passes_min_order:
  assumes "image_low k"
  shows "unit_passes palloc_pre_test (palloc_test_alloc_min_order k) 17"
proof (rule passes_configured [OF assms])
  fix c st bm s fl ys t
  assume cf: "palloc_test_configure_memory k 0x400000 0x8400000 st = Some (bm, s)" and nk: "no_kernel_pages k s"
    and inv: "calls_inv s {} fl s" and fl: "top_only (ys @ [t]) fl" "length ys = 511" "64 dvd t"
  obtain s1 where s1: "page_alloc 0 0 s = Some (Some t, s1)" "calls_inv s {(t, 0)} (halves t ys 0 fl) s1"
    using test_alloc [OF inv take_top [OF fl(1), of 0], of 0] by auto
  obtain s2 where s2: "page_free k (Some t) 0 s1 = Some (E_SUCCESS, s2)" "calls_inv s {} (give_block t 0 (halves t ys 0 fl)) s2"
    using test_free [OF s1(2) _ nk, of t 0 0] by auto
  have g: "give_block t 0 (halves t ys 0 fl) = (\<lambda>j. if j = 6 then t # ys else if j < 6 then [] else fl j)"
    using give_merging [OF fl(3), of 0 "halves t ys 0 fl"] by (auto simp: halves_def)
  note n = test_counts [OF inv] test_counts [OF s1(2)] test_counts [OF s2(2), unfolded g]
  have "counts_free 6 s = Some 512" "counts_free 6 s1 = Some 511" "counts_free 6 s2 = Some 512"
    "\<forall>i\<in>set [0..<6]. counts_free i s1 = Some 1" "\<forall>i\<in>set [0..<6]. counts_free i s2 = Some 0"
    using n fl by (simp_all add: halves_def top_only_def)
  moreover have "t < n_pages s1 \<and> order (page_area s1 ! t) = ORDER_USED" using test_order_used [OF s1(2)] by simp
  ultimately show "\<exists>st'. palloc_test_alloc_min_order k c st = Some (plus_passes 17 c, st')"
    using cf s1(1) s2(1) by (simp add: palloc_test_alloc_min_order_def ORDER_MAX_def pass_simps)
qed

lemma passes_max_order:
  assumes "image_low k"
  shows "unit_passes palloc_pre_test (palloc_test_alloc_max_order k) 17"
proof (rule passes_configured [OF assms])
  fix c st bm s fl ys t
  assume cf: "palloc_test_configure_memory k 0x400000 0x8400000 st = Some (bm, s)" and nk: "no_kernel_pages k s"
    and inv: "calls_inv s {} fl s" and fl: "top_only (ys @ [t]) fl" "length ys = 511" "64 dvd t"
  obtain s1 where s1: "page_alloc 6 0 s = Some (Some t, s1)" "calls_inv s {(t, 6)} (halves t ys 6 fl) s1"
    using test_alloc [OF inv take_top [OF fl(1), of 6], of 6] by auto
  obtain s2 where s2: "page_free k (Some t) 6 s1 = Some (E_SUCCESS, s2)" "calls_inv s {} (give_block t 6 (halves t ys 6 fl)) s2"
    using test_free [OF s1(2) _ nk, of t 6 6] by auto
  have g: "give_block t 6 (halves t ys 6 fl) = (\<lambda>j. if j = 6 then t # ys else fl j)"
    by (subst give_block.simps) (auto simp: halves_def)
  note n = test_counts [OF inv] test_counts [OF s1(2)] test_counts [OF s2(2), unfolded g]
  have "counts_free 6 s = Some 512" "counts_free 6 s1 = Some 511" "counts_free 6 s2 = Some 512"
    "\<forall>i\<in>set [0..<6]. counts_free i s1 = Some 0" "\<forall>i\<in>set [0..<6]. counts_free i s2 = Some 0"
    using n fl by (simp_all add: halves_def top_only_def)
  moreover have "t < n_pages s1 \<and> order (page_area s1 ! t) = ORDER_USED" using test_order_used [OF s1(2)] by simp
  ultimately show "\<exists>st'. palloc_test_alloc_max_order k c st = Some (plus_passes 17 c, st')"
    using cf s1(1) s2(1) by (simp add: palloc_test_alloc_max_order_def ORDER_MAX_def pass_simps)
qed

lemma passes_split_and_free:
  assumes "image_low k"
  shows "unit_passes palloc_pre_test (palloc_test_alloc_split_and_free k) 12"
proof (rule passes_configured [OF assms])
  fix c st bm s fl ys t
  assume cf: "palloc_test_configure_memory k 0x400000 0x8400000 st = Some (bm, s)" and nk: "no_kernel_pages k s"
    and inv: "calls_inv s {} fl s" and fl: "top_only (ys @ [t]) fl" "length ys = 511" "64 dvd t"
  have low: "fl j = []" if "j < 6" for j using fl(1) that by (simp add: top_only_def)
  obtain s1 where s1: "page_alloc 5 0 s = Some (Some t, s1)" "calls_inv s {(t, 5)} (halves t ys 5 fl) s1"
    using test_alloc [OF inv take_top [OF fl(1), of 5], of 5] by auto
  let ?f2 = "(halves t ys 5 fl)(5 := [], 4 := [t + 48])"
  have "first_order 4 (halves t ys 5 fl) = Some 5" by (simp add: first_order_Some halves_def low)
  then have "take_block 4 (halves t ys 5 fl) = Some (t + 32, ?f2)"
    by (simp add: take_block_def numeral_eq_Suc [of "num.One"] eval_nat_numeral(2,3) Let_def) (simp add: halves_def low fun_eq_iff)
  from test_alloc [OF s1(2) this, of 4] obtain s2 where
    s2: "page_alloc 4 0 s1 = Some (Some (t + 32), s2)" "calls_inv s {(t + 32, 4), (t, 5)} ?f2 s2" by auto
  let ?f3 = "?f2(5 := [t])"
  have "give_block t 5 ?f2 = ?f3" by (subst give_block.simps) simp
  then obtain s3 where s3: "page_free k (Some t) 5 s2 = Some (E_SUCCESS, s3)" "calls_inv s {(t + 32, 4)} ?f3 s3"
    using test_free [OF s2(2) _ nk, of t 5 5] by (auto simp: insert_Diff_if)
  have d: "32 dvd t" "16 dvd t" using fl(3) by (auto intro: dvd_trans [of _ 64])
  have b4: "buddy_of (t + 32) 4 = t + 48" using buddy_of_even [of 4 "t + 32"] d(1) by simp
  have b5: "buddy_of (t + 32) 5 = t" using buddy_of_buddy [of t 5] buddy_of_even [of 5 t] fl(3) by simp
  have "give_block (t + 32) 4 ?f3 = give_block (t + 32) 5 (?f3(4 := []))" using b4 by (subst give_block.simps) (simp add: low_of_def)
  also have "\<dots> = give_block t 6 (?f3(4 := [], 5 := []))" using b5 by (subst give_block.simps) (simp add: low_of_def fun_upd_twist)
  also have "\<dots> = (halves t ys 5 fl)(4 := [], 5 := [], 6 := t # ys)" by (subst give_block.simps) (simp add: halves_def fun_eq_iff)
  finally obtain s4 where s4: "page_free k (Some (t + 32)) 4 s3 = Some (E_SUCCESS, s4)" "calls_inv s {} ((halves t ys 5 fl)(4 := [], 5 := [], 6 := t # ys)) s4"
    using test_free [OF s3(2) _ nk, of "t + 32" 4 4] by auto
  note n = test_counts [OF inv] test_counts [OF s1(2)] test_counts [OF s2(2)] test_counts [OF s3(2)] test_counts [OF s4(2)]
  have "counts_free 6 s = Some 512" "counts_free 6 s1 = Some 511" "counts_free 5 s1 = Some 1" "counts_free 5 s2 = Some 0" "counts_free 4 s2 = Some 1"
    "counts_free 5 s3 = Some 1" "counts_free 4 s4 = Some 0" "counts_free 5 s4 = Some 0" "counts_free 6 s4 = Some 512"
    using n fl by (simp_all add: halves_def top_only_def)
  then show "\<exists>st'. palloc_test_alloc_split_and_free k c st = Some (plus_passes 12 c, st')"
    using cf s1(1) s2(1) s3(1) s4(1) by (simp add: palloc_test_alloc_split_and_free_def ORDER_MAX_def pass_simps) (simp add: numeral_eq_Suc)
qed

lemma exhaust_run:
  assumes "calls_inv s0 A fl s" "top_only ys fl"
  shows "\<exists>s' A' fl'. exhaust_loop (length ys) c s = Some (plus_passes (length ys) c, s') \<and> calls_inv s0 A' fl' s' \<and> top_only [] fl'"
  using assms
proof (induction ys arbitrary: A fl s c rule: rev_induct)
  case Nil
  then show ?case by (auto simp: plus_passes_def)
next
  case (snoc t ys)
  obtain s1 where s1: "page_alloc 6 0 s = Some (Some t, s1)" "calls_inv s0 (insert (t, 6) A) (halves t ys 6 fl) s1"
    using test_alloc [OF snoc.prems(1) take_top [OF snoc.prems(2), of 6], of 6] by auto
  have "top_only ys (halves t ys 6 fl)" using snoc.prems(2) by (simp add: top_only_def halves_def)
  from snoc.IH [OF s1(2) this, of "plus_passes 1 c"] s1(1) show ?case by (auto simp: pass_simps ORDER_MAX_def)
qed

lemma refused_run:
  assumes "calls_inv s0 A fl s" "top_only [] fl" "\<forall>i\<in>set js. i \<le> 6"
  shows "refused_loop js c s = Some (plus_passes (2 * length js) c, s)"
  using assms(3)
proof (induction js arbitrary: c)
  case (Cons i js)
  have e: "\<forall>j\<le>6. fl j = []" using assms(2) by (auto simp: top_only_def le_less)
  have "page_alloc (of_nat i) 0 s = Some (None, s)" using test_alloc_none [OF assms(1) e] Cons.prems by simp
  moreover have "counts_free i s = Some 0" using test_counts [OF assms(1), of i] e Cons.prems by simp
  ultimately show ?case using Cons by (simp add: pass_simps)
qed (simp add: plus_passes_def)

lemma passes_exhaust_all:
  assumes "image_low k"
  shows "unit_passes palloc_pre_test (palloc_test_alloc_exhaust_all k) 526"
proof (rule passes_configured [OF assms])
  fix c st bm s fl ys t
  assume cf: "palloc_test_configure_memory k 0x400000 0x8400000 st = Some (bm, s)"
    and inv: "calls_inv s {} fl s" and fl: "top_only (ys @ [t]) fl" "length ys = 511"
  have n: "counts_free 6 s = Some 512" using test_counts [OF inv] fl by (simp add: top_only_def)
  obtain s1 A fl' where s1: "exhaust_loop 512 c s = Some (plus_passes 512 c, s1)" "calls_inv s A fl' s1" "top_only [] fl'"
    using exhaust_run [OF inv fl(1), of c] fl(2) by auto
  have "\<forall>i\<in>set [0..<ORDER_MAX + 1]. i \<le> 6" by (auto simp: ORDER_MAX_def)
  note r = refused_run [OF s1(2,3) this, of "plus_passes 512 c"]
  have "palloc_test_alloc_exhaust_all k c st = Some (plus_passes (2 * length [0..<ORDER_MAX + 1]) (plus_passes 512 c), bm, s1)"
    unfolding palloc_test_alloc_exhaust_all_def cf using n s1(1) r by (simp add: ORDER_MAX_def [symmetric] del: upt_Suc)
  then show "\<exists>st'. palloc_test_alloc_exhaust_all k c st = Some (plus_passes 526 c, st')" by (simp add: pass_simps ORDER_MAX_def)
qed

text \<open>The first page of the image is outside the usable pages and has order 0.\<close>

lemma kernel_page:
  assumes "image_low k" "configured fl s"
  defines "p \<equiv> page_from_pfn (PA_TO_PFN (KERNEL_PHYS_START k))"
  shows "p < n_pages s" "order (page_area s ! p) = 0" "page_is_critical k (Some p) s = Some E_ERROR"
proof -
  have ks: "4096 dvd unat (KERNEL_PHYS_START k)" "unat (KERNEL_PHYS_START k) < 0x200000" "KERNEL_PHYS_START k < KERNEL_PHYS_END k"
    using assms(1) by (simp_all add: image_low_def word_less_nat_alt)
  have p: "p = unat (KERNEL_PHYS_START k) div 4096" by (simp add: p_def page_from_pfn_def unat_PA_TO_PFN)
  have lt: "p < 512" using ks(2) by (simp add: p less_mult_imp_div_less)
  have "unat (PFN_TO_PA (of_nat p)) = 4096 * p" using lt by (simp add: rotary_macro rotary_const unat_word_ariths unat_le_imp_of_nat)
  then have "PFN_TO_PA (of_nat p) = KERNEL_PHYS_START k" using ks(1) by (simp add: word_unat_eq_iff p)
  then have cr: "critical_page k p" using ks(3) by (simp add: critical_page_def)
  have "buddy_rep fl s" "n_pages s = 33792" using assms(2) by (simp_all add: configured_def fresh_allocator_def buddy_ok_def)
  then show "p < n_pages s" "page_is_critical k (Some p) s = Some E_ERROR" using page_is_critical_rep [of fl s p k] cr lt by simp_all
  show "order (page_area s ! p) = 0" using assms(2) lt by (simp add: configured_def)
qed

lemma passes_refused:
  assumes "image_low k"
  shows "unit_passes palloc_pre_test (palloc_test_free_null k) 1" "unit_passes palloc_pre_test (palloc_test_free_critical k) 3"
    "unit_passes palloc_pre_test (palloc_test_is_critical k) 2"
proof -
  show "unit_passes palloc_pre_test (palloc_test_free_null k) 1"
    by (rule passes_configured [OF assms]) (simp add: palloc_test_free_null_def page_free_def pass_simps)
  show "unit_passes palloc_pre_test (palloc_test_is_critical k) 2"
    by (rule passes_configured [OF assms]) (simp add: palloc_test_is_critical_def kernel_page [OF assms] pass_simps numeral_2_eq_2)
  show "unit_passes palloc_pre_test (palloc_test_free_critical k) 3"
  proof (rule passes_configured [OF assms])
    fix c st bm s fl
    assume cf: "palloc_test_configure_memory k 0x400000 0x8400000 st = Some (bm, s)" "configured fl s" and inv: "calls_inv s {} fl s"
    let ?p = "page_from_pfn (PA_TO_PFN (KERNEL_PHYS_START k))"
    note p = kernel_page [OF assms cf(2)]
    have "page_free k (Some ?p) 0 s = Some (E_ERROR, s)" using p(3) by (simp add: page_free_def E_ERROR_def)
    then show "\<exists>st'. palloc_test_free_critical k c st = Some (plus_passes 3 c, st')"
      using cf(1) p test_counts [OF inv, of 0] by (simp add: palloc_test_free_critical_def Let_def pass_simps numeral_3_eq_3)
  qed
qed

text \<open>The upper page of a pair keeps order 0 when it is freed and merged with the lower one.\<close>

lemma merge_odd_order:
  assumes "buddy_merge_block b 0 s = Some (rv, s')" "pfns_ok s" "odd b" "b < n_pages s"
  shows "order (page_area s' ! b) = 0"
proof -
  obtain b' k' s1 where m: "merge_loop b 0 s = Some (b', k', s1)" "buddy_add_block b' k' s1 = Some s'"
    using assms(1) by (auto simp: buddy_merge_block_def elim!: bind_eq_SomeE)
  have bud: "low_of b 0 = b - 1" "buddy_of (b - 1) 0 = b"
    using buddy_of_odd [of 0 b] buddy_of_even [of 0 "b - 1"] assms(3) by (simp_all add: low_of_def odd_pos)
  have bg: "buddy_get b 0 s = Some (buddy_of b 0)" using assms(2,4) by (simp add: buddy_get_pfns)
  note run = m(1) [unfolded merge_loop.simps [of b 0 s]]
  show ?thesis
  proof (cases "(b', k', s1) = (b, 0, s)")
    case True
    then have "buddy_add_block b 0 s = Some s'" using m(2) by simp
    then show ?thesis using assms(4) by (auto simp: buddy_add_block_def dest!: upd_block_pages elim!: bind_eq_SomeE)
  next
    case False
    obtain h t1 pg p t2 where st: "upd_block 0 (\<lambda>b. b\<lparr>free_count := free_count b - 1\<rparr>) (s\<lparr>nodes := h\<rparr>) = Some t1" "page_at b t1 = Some pg"
      "buddy_get (page_from_pfn (pfn pg AND NOT (push_bit 0 1))) 0 t1 = Some p" "upd_page p (\<lambda>pg. pg\<lparr>order := of_nat 0\<rparr>) t1 = Some t2"
      "merge_loop (page_from_pfn (pfn pg AND NOT (push_bit 0 1))) (Suc 0) t2 = Some (b', k', s1)"
      using run bg False by (auto simp: ORDER_MAX_def Let_def elim!: bind_eq_SomeE split: if_splits)
    have t1: "page_area t1 = page_area s" using upd_block_pages [OF st(1)] by simp
    then have pf: "pfns_ok t1" "pg = page_area s ! b" using assms(2) st(2) by (simp_all add: pfns_ok_def page_at_def split: if_splits)
    have low: "page_from_pfn (pfn pg AND NOT (push_bit 0 1)) = b - 1"
      using assms(2,4) pfn_and_not [of b 0] bud(1) by (simp add: pfns_ok_def page_from_pfn_def pf(2))
    have p: "p = b" using st(3) bud(2) unfolding low by (simp add: buddy_get_pfns [OF pf(1)] split: if_splits)
    have b2: "order (page_area t2 ! b) = 0" "n_pages t2 = n_pages s" using st(4) assms(4) t1 by (auto simp: p)
    have "orders_kept 0 b t1 t2" using upd_page_order [OF st(4), of 0 b] by (simp add: p)
    then have pf2: "pfns_ok t2" using pfns_ok_kept pf(1) by blast
    have o: "orders_kept 1 (b - 1) t2 s1" "2 dvd b'" using merge_loop_orders [OF st(5) pf2] assms(3) unfolding low by simp_all
    then have "orders_kept 1 b' s1 s'" using buddy_add_block_orders [OF m(2), of 1 b'] by simp
    then have "order (page_area s' ! b) = order (page_area s1 ! b)" "order (page_area s1 ! b) = order (page_area t2 ! b)"
      using o(1) b2(2) assms(3,4) by (auto simp: orders_kept_def)
    then show ?thesis using b2(1) by simp
  qed
qed

lemma page_free_odd_order:
  assumes "page_free img (Some b) 0 s = Some (E_SUCCESS, s')" "pfns_ok s" "odd b" "b < n_pages s" "use_count (page_area s ! b) = 1"
  shows "order (page_area s' ! b) = 0"
proof -
  let ?s1 = "s\<lparr>buddy_lock := True, page_area := (page_area s)[b := (page_area s ! b)\<lparr>order := 0\<rparr>]\<rparr>"
  obtain rv s2 s3 where m: "buddy_merge_block b 0 ?s1 = Some (rv, s2)"
    and s3: "upd_page b (\<lambda>pg. pg\<lparr>use_count := use_count pg - 1\<rparr>) s2 = Some s3" "s' = s3\<lparr>buddy_lock := False\<rparr>"
    using assms(1,4,5) by (auto simp: page_free_def lock_def unlock_def E_ERROR_def E_SUCCESS_def elim!: bind_eq_SomeE split: if_splits)
  have "pfns_ok ?s1" using assms(2,4) by (auto simp: pfns_ok_def nth_list_update)
  from merge_odd_order [OF m this assms(3)] assms(4) have "order (page_area s2 ! b) = 0" by simp
  then show ?thesis using s3 by (auto simp: upd_page_def split: if_splits)
qed

lemma passes_partial_block_free:
  assumes "image_low k"
  shows "unit_passes palloc_pre_test (palloc_test_partial_block_free k) 16"
proof (rule passes_configured [OF assms])
  fix c st bm s fl ys t
  assume cf: "palloc_test_configure_memory k 0x400000 0x8400000 st = Some (bm, s)" and nk: "no_kernel_pages k s"
    and inv: "calls_inv s {} fl s" and fl: "top_only (ys @ [t]) fl" "length ys = 511" "64 dvd t"
  have ev: "even t" using fl(3) by (auto intro: dvd_trans [of _ 64])
  obtain s1 where s1: "page_alloc 0 0 s = Some (Some t, s1)" "calls_inv s {(t, 0)} (halves t ys 0 fl) s1"
    using test_alloc [OF inv take_top [OF fl(1), of 0], of 0] by auto
  let ?f2 = "(halves t ys 0 fl)(0 := [])"
  have "first_order 0 (halves t ys 0 fl) = Some 0" by (simp add: first_order_Some halves_def)
  then have "take_block 0 (halves t ys 0 fl) = Some (t + 1, ?f2)" by (simp add: take_block_def halves_def)
  from test_alloc [OF s1(2) this, of 0] obtain s2 where
    s2: "page_alloc 0 0 s1 = Some (Some (t + 1), s2)" "calls_inv s {(t + 1, 0), (t, 0)} ?f2 s2" by auto
  let ?f3 = "?f2(0 := [t])"
  have "give_block t 0 ?f2 = ?f3" by (subst give_block.simps) simp
  then obtain s3 where s3: "page_free k (Some t) 0 s2 = Some (E_SUCCESS, s3)" "calls_inv s {(t + 1, 0)} ?f3 s3"
    using test_free [OF s2(2) _ nk, of t 0 0] by (auto simp: insert_Diff_if)
  obtain s4 f4 where s4: "page_free k (Some (t + 1)) 0 s3 = Some (E_SUCCESS, s4)" "calls_inv s {} f4 s4"
    using test_free [OF s3(2) _ nk, of "t + 1" 0 0] by auto
  have u: "t + 1 < n_pages s3" "order (page_area s3 ! (t + 1)) = ORDER_USED" using test_order_used [OF s3(2), of "t + 1" 0] by simp_all
  have "pfns_ok s3" using s3(2) pfns_ok_rep unfolding calls_inv_def buddy_ok_def by blast
  moreover have "use_count (page_area s3 ! (t + 1)) = 1" using s3(2) u(1) by (simp add: calls_inv_def heads_def)
  ultimately have "order (page_area s4 ! (t + 1)) = 0" using page_free_odd_order [OF s4(1)] ev u(1) by simp
  moreover have "n_pages s4 = n_pages s3" using s3(2) s4(2) by (simp add: calls_inv_def)
  moreover note test_order_used [OF s2(2), of t 0] test_order_used [OF s2(2), of "t + 1" 0] test_order_free [OF s3(2), of 0 t]
  ultimately have o: "assert_order (Some t) ORDER_USED s2 x = Some (plus_passes 1 x)" "assert_order (Some (t + 1)) ORDER_USED s2 x = Some (plus_passes 1 x)"
    "assert_order (Some t) 0 s3 x = Some (plus_passes 1 x)" "assert_order (Some (t + 1)) ORDER_USED s3 x = Some (plus_passes 1 x)"
    "assert_order (Some (t + 1)) 0 s4 x = Some (plus_passes 1 x)" for x
    using u by (simp_all add: assert_order_pass)
  have n: "counts_free j s2 = Some (of_nat (length (?f2 j)))" if "j \<le> 6" for j using test_counts [OF s2(2) that] .
  have "counts_free 6 s2 = Some 511" "counts_free 0 s2 = Some 0" "\<And>j. 0 < j \<Longrightarrow> j < 6 \<Longrightarrow> counts_free j s2 = Some 1"
    using n [of 6] n [of 0] n fl(2) by (simp_all add: halves_def)
  moreover have "assert_split_loop [1..<6] s2 x = Some (plus_passes 5 x)" for x
    using calculation by (simp add: upt_rec ORDER_MAX_def pass_simps) (simp add: numeral_eq_Suc)
  ultimately show "\<exists>st'. palloc_test_partial_block_free k c st = Some (plus_passes 16 c, st')"
    using cf s1(1) s2(1) s3(1) s4(1) o by (simp add: palloc_test_partial_block_free_def ORDER_MAX_def pass_simps del: upt_rec_numeral)
qed

subsection \<open>Initialisation\<close>

lemma init_page_zone:
  "TEST_BIT (flags (init_page img e i)) (if is_low i then PF_ZONE_LOWMEM else PF_ZONE_HIGHMEM)" "order (init_page img e i) = 0"
  by (auto simp: init_page_def is_low_def Let_def rotary_const rotary_macro)

lemma init_page_loop_run:
  assumes "\<forall>i\<in>set js. i < n_pages s \<and> page_area s ! i = init_page img e i"
  shows "init_page_loop js s c high low = Some (plus_passes (4 * length js) c,
    high + of_nat (length (filter (Not \<circ> is_low) js)), low + of_nat (length (filter is_low js)))"
  using assms
proof (induction js arbitrary: c high low)
  case (Cons i js)
  have p: "page_at i s = Some (init_page img e i)" using Cons.prems by simp
  have z: "PFN_TO_PA (of_nat i) < LOWMEM_PLIMIT \<longleftrightarrow> is_low i" by (simp add: is_low_def)
  show ?case using Cons p init_page_zone [of img e i]
    by (simp add: z pass_simps assert_bit_set_def plus_passes_simps split: if_splits) (simp_all add: eval_nat_numeral)
qed (simp add: plus_passes_def)

lemma init_block_loop_run:
  assumes "\<forall>i\<in>set js. block_at i s = Some \<lparr>free_count = 0, used_count = 0\<rparr>"
  shows "init_block_loop js s c = Some (plus_passes (2 * length js) c)"
  using assms by (induction js arbitrary: c) (simp_all add: pass_simps, simp add: plus_passes_def)

lemma buddy_init_fields:
  assumes "bootmem_alloc (count * SIZEOF_PAGE) BM_NO_ALIGN bm = (area, bm')" "area \<noteq> 0"
  shows "\<exists>s' e. buddy_init img count bm s = Returned (E_SUCCESS, bm', s') \<and> page_count s' = count \<and> max_order s' = of_nat ORDER_MAX \<and>
    page_area_addr s' = area \<and> blocks s' = replicate (ORDER_MAX + 1) \<lparr>free_count = 0, used_count = 0\<rparr> \<and> n_pages s' = unat count \<and>
    (\<forall>i<unat count. page_area s' ! i = init_page img e i) \<and> low_pages s' = low_pages s + of_nat (length (filter is_low [0..<unat count])) \<and>
    high_pages s' = high_pages s + of_nat (length (filter (Not \<circ> is_low) [0..<unat count]))"
  using assms by (simp add: buddy_init_def Let_def) blast

lemma init_pool_alloc:
  "bootmem_alloc ((0x8200000 div PAGE_SIZE) * SIZEOF_PAGE) BM_NO_ALIGN (tab [avail 0x200000 0x8200000] h) =
     (PHY_TO_VIR 0x200000, tab [(avail 0x200000 0x8200000)\<lparr>start_addr := 0x2C3000\<rparr>] h)"
proof -
  have "region_fits 0xC3000 1 (avail 0x200000 0x8200000)" by (simp add: fits_avail)
  from tab_alloc_some [OF _ this, of "[]" "[]" h] show ?thesis by (simp add: rotary_const) (simp add: avail_def)
qed

lemma passes_buddy_init:
  assumes "image_low k"
  shows "unit_passes palloc_pre_test (palloc_test_buddy_init k) 133143"
  unfolding unit_passes_def
proof (intro allI)
  fix st c
  obtain s where s: "palloc_pre_test st = Some (tab [] 0, s)" "low_pages s = 0" "high_pages s = 0"
    by (cases st) (simp add: palloc_pre_test_def reset_tab)
  let ?n = "0x8200000 div PAGE_SIZE" and ?bm = "tab [avail 0x200000 0x8200000] (0x8200000 div PAGE_SIZE)"
  have add: "bootmem_add_mem_region k 0x200000 0x8200000 MEM_REGION_AVAILABLE (tab [] 0) = Some (E_SUCCESS, ?bm)"
    using high_add [OF assms, of "0x200000" "0x8200000"] by (simp add: pfn_div)
  have hp: "bootmem_highest_pfn ?bm = ?n" by (simp add: bootmem_highest_pfn_def tab_def)
  have "PHY_TO_VIR 0x200000 \<noteq> 0" by (simp add: rotary_macro rotary_const)
  from buddy_init_fields [OF init_pool_alloc this, of k "0x8200000 div PAGE_SIZE" s] obtain bm' s1 e where
    s1: "buddy_init k ?n ?bm s = Returned (E_SUCCESS, bm', s1)" "page_count s1 = ?n" "max_order s1 = of_nat ORDER_MAX"
      "page_area_addr s1 = PHY_TO_VIR 0x200000" "blocks s1 = replicate (ORDER_MAX + 1) \<lparr>free_count = 0, used_count = 0\<rparr>" "n_pages s1 = unat ?n"
      "\<forall>i<unat ?n. page_area s1 ! i = init_page k e i" "low_pages s1 = of_nat (length (filter is_low [0..<unat ?n]))"
      "high_pages s1 = of_nat (length (filter (Not \<circ> is_low) [0..<unat ?n]))" using s(2,3) by auto
  have a: "assert_init_state E_SUCCESS 0x200000 0x8200000 s1 c = plus_passes 7 c"
    using s1(2-5) by (simp add: assert_init_state_def Let_def pass_simps assert_equal_ptr_def plus_passes_simps(1) add.commute) (simp add: numeral_eq_Suc)
  have b: "init_block_loop [0..<ORDER_MAX + 1] s1 x = Some (plus_passes 14 x)" for x
    using init_block_loop_run [of "[0..<ORDER_MAX + 1]" s1 x] s1(5) by (auto simp: block_at_def ORDER_MAX_def simp del: replicate.simps upt_Suc)
  have l: "init_page_loop [0..<unat ?n] s1 x 0 0 = Some (plus_passes (4 * unat ?n) x, high_pages s1, low_pages s1)" for x
    using init_page_loop_run [of "[0..<unat ?n]" s1 k e x 0 0] s1(6-9) by simp
  have "palloc_test_buddy_init k c (tab [] 0, s) = Some (plus_passes 2 (plus_passes (4 * unat ?n) (plus_passes 14 (plus_passes 7 c))), bm', s1)"
    unfolding palloc_test_buddy_init_def Let_def using add hp s1(1) a b l by (simp add: pass_simps numeral_2_eq_2)
  moreover have "unat ?n = 33280" by (simp add: rotary_const)
  ultimately have "palloc_test_buddy_init k c (tab [] 0, s) = Some (plus_passes 133143 c, bm', s1)" by (simp add: plus_passes_simps(2))
  then show "\<exists>k1 k2. palloc_pre_test st = Some k1 \<and> palloc_test_buddy_init k c k1 = Some (c\<lparr>pass_count := pass_count c + of_nat 133143\<rparr>, k2)"
    using s(1) by (simp add: plus_passes_def)
qed

section \<open>Property\<close>

definition palloc_assertions :: "nat list" where
  "palloc_assertions = [133143, 17, 17, 526, 12, 1, 3, 2, 16]"

lemma palloc_units_pass:
  assumes "image_low k"
  shows "list_all2 (\<lambda>u. unit_passes palloc_pre_test (test_func u)) (tests (palloc_module name nm k)) palloc_assertions"
  using passes_buddy_init [OF assms] passes_min_order [OF assms] passes_max_order [OF assms] passes_exhaust_all [OF assms]
    passes_split_and_free [OF assms] passes_refused [OF assms] passes_partial_block_free [OF assms]
  by (simp add: palloc_module_def palloc_tests_def palloc_assertions_def upt_rec)

text \<open>
  C37: The kernel's tests of the page allocator pass, wherever the kernel image lies below 2 MiB (the address where the tests
  put the page structs) if it starts at a page: when the module is run by its name, whatever state the allocators are in, all of
  its nine units run to the end, no assertion fails, and each unit makes the number of assertions its text has, 133143 for
  the initialisation (four for each of the 33280 pages) and 526 for the one that allocates all 512 blocks.
\<close>

theorem palloc_tests_pass:
  assumes "image_low k" and "cstr m name t"
  shows "\<exists>us st'. ktest_run_module (\<lambda>_. m) name ([palloc_module name nm k], st) = Some ([(palloc_module name nm k)\<lparr>tests := us\<rparr>], st') \<and>
    map (\<lambda>u. fail_count (unit_counts u)) us = replicate 9 0 \<and>
    map (\<lambda>u. pass_count (unit_counts u)) us = [133143, 17, 17, 526, 12, 1, 3, 2, 16]"
proof -
  let ?md = "palloc_module name nm k"
  have nine: "replicate 9 (0 :: u32) = [0, 0, 0, 0, 0, 0, 0, 0, 0]" by (simp add: numeral_eq_Suc)
  obtain st' where "ktest_run_module (\<lambda>_. m) name ([?md], st) = Some ([?md\<lparr>tests := map2 passed (tests ?md) palloc_assertions\<rparr>], st')"
    using run_module_pass [of ?md palloc_pre_test palloc_assertions m t st] palloc_units_pass [OF assms(1)] assms(2)
    by (auto simp: palloc_module_def)
  moreover have "map (\<lambda>u. fail_count (unit_counts u)) (map2 passed (tests ?md) palloc_assertions) = replicate 9 0"
    "map (\<lambda>u. pass_count (unit_counts u)) (map2 passed (tests ?md) palloc_assertions) = [133143, 17, 17, 526, 12, 1, 3, 2, 16]"
    by (simp_all add: palloc_module_def palloc_assertions_def upt_rec passed_def nine)
  ultimately show ?thesis by (intro exI conjI)
qed

text \<open>With an image from 1 MiB to 1.5 MiB, and \<^verbatim>\<open>palloc\<close> at address 100.\<close>

theorem palloc_tests_pass_witness:
  "\<exists>us st'. ktest_run_module (\<lambda>_. store (\<lambda>_. 7) 100 (map of_char ''palloc'' @ [0])) 100 ([palloc_module 100 (\<lambda>_. 0) sample_image], one_region 0 0, sample_free) =
      Some ([(palloc_module 100 (\<lambda>_. 0) sample_image)\<lparr>tests := us\<rparr>], st') \<and>
    map (\<lambda>u. fail_count (unit_counts u)) us = replicate 9 0 \<and>
    map (\<lambda>u. pass_count (unit_counts u)) us = [133143, 17, 17, 526, 12, 1, 3, 2, 16]"
proof (rule palloc_tests_pass)
  show "image_low sample_image" by (simp add: image_low_def sample_image_def)
  show "cstr (store (\<lambda>_. 7) 100 (map of_char ''palloc'' @ [0])) 100 (map of_char ''palloc'')" by (rule cstr_store) simp_all
qed

end
