(* ===== verification/String_Tests.thy ===== *)
theory String_Tests
  imports Reports Ktest
begin

text \<open>
  The kernel's own unit tests of strings and formatted output, \<^verbatim>\<open>test/string.c\<close>, run on the model. The local arrays of a
  test lie at addresses the compiler chooses, and so do the literals and the local arrays of the functions
  called; they are collected in a layout. What the tests find is stated in the last section: two assertions
  contradict the code, one reads memory that was never written, and all others hold.
\<close>

section \<open>The tests\<close>

record string_layout =
  st_a :: u32
  st_b :: u32
  st_c :: u32
  st_num :: u32
  st_temp :: u32
  st_lit :: "u8 list \<Rightarrow> u32"

type_synonym string_test = "ktest_counts \<Rightarrow> mem \<Rightarrow> (ktest_counts \<times> mem) option"

definition lit :: "string_layout \<Rightarrow> string \<Rightarrow> u32" where
  "lit L x = st_lit L (chars x)"

text \<open>An initialised local array: the bytes of its initialiser, and zeros up to its size.\<close>

definition init_array :: "u32 \<Rightarrow> nat \<Rightarrow> u8 list \<Rightarrow> mem \<Rightarrow> mem" where
  "init_array p n xs m = store m p (xs @ replicate (n - length xs) 0)"

definition assert_true :: "bool \<Rightarrow> ktest_counts \<Rightarrow> ktest_counts" where
  "assert_true b c = (if \<not> b then ktest_fail c else ktest_pass c)"

definition assert_text :: "string_layout \<Rightarrow> string \<Rightarrow> mem \<Rightarrow> ktest_counts \<Rightarrow> ktest_counts option" where
  "assert_text L x m c = assert_equal_str m (st_a L) (lit L x) c"

definition string_test_memset :: "string_layout \<Rightarrow> string_test" where
  "string_test_memset L c m =
     (let buffer = st_a L;
          m1 = snd (memset buffer 0 64 m);
          c1 = assert_filled m1 buffer 64 0 c;
          m2 = snd (memset buffer 0xFF 64 m1);
          c2 = assert_filled m2 buffer 64 0xFF c1;
          m3 = snd (memset buffer 0xFF (64 div 2) m2);
          c3 = assert_filled m3 buffer (64 div 2) 0xFF c2
      in Some (assert_filled m3 (buffer + 64 div 2) (64 div 2) 0 c3, m3))"

definition string_test_memcpy :: "string_layout \<Rightarrow> string_test" where
  "string_test_memcpy L c m =
     (let src = st_a L; dst = st_b L;
          m1 = snd (memset dst 0 128 (snd (memset src 65 128 m)));
          m2 = snd (memcpy dst src 128 m1);
          c1 = assert_filled m2 dst 128 65 c;
          m3 = snd (memset src 66 128 m2);
          m4 = snd (memcpy dst src (128 div 2) m3);
          c2 = assert_filled m4 dst (128 div 2) 66 c1
      in Some (assert_filled m4 (dst + 128 div 2) (128 div 2) 65 c2, m4))"

definition string_test_int_to_str :: "string_layout \<Rightarrow> string_test" where
  "string_test_int_to_str L c m = do {
     let m1 = int_to_str 12345 (st_a L) m;
     c1 \<leftarrow> assert_text L ''12345'' m1 c;
     let m2 = int_to_str 0 (st_a L) m1;
     c2 \<leftarrow> assert_text L ''0'' m2 c1;
     let m3 = int_to_str (- 6789) (st_a L) m2;
     c3 \<leftarrow> assert_text L ''-6789'' m3 c2;
     Some (c3, m3)
   }"

definition string_test_uint_to_str :: "string_layout \<Rightarrow> string_test" where
  "string_test_uint_to_str L c m = do {
     let m1 = uint_to_str 0 (st_a L) m;
     c1 \<leftarrow> assert_text L ''0'' m1 c;
     let m2 = uint_to_str 123456 (st_a L) m1;
     c2 \<leftarrow> assert_text L ''123456'' m2 c1;
     let m3 = uint_to_str 4294967295 (st_a L) m2;
     c3 \<leftarrow> assert_text L ''4294967295'' m3 c2;
     Some (c3, m3)
   }"

definition string_test_int_to_hex_str :: "string_layout \<Rightarrow> string_test" where
  "string_test_int_to_hex_str L c m = do {
     m1 \<leftarrow> int_to_hex_str (st_temp L) 0 (st_a L) m;
     c1 \<leftarrow> assert_text L ''00000000'' m1 c;
     m2 \<leftarrow> int_to_hex_str (st_temp L) 0x1234ABCD (st_a L) m1;
     c2 \<leftarrow> assert_text L ''1234abcd'' m2 c1;
     m3 \<leftarrow> int_to_hex_str (st_temp L) 0xFFFFFFFF (st_a L) m2;
     c3 \<leftarrow> assert_text L ''ffffffff'' m3 c2;
     Some (c3, m3)
   }"

definition string_test_fill_buffer :: "string_layout \<Rightarrow> string_test" where
  "string_test_fill_buffer L c m =
     (let buffer = st_a L;
          (index, m1) = fill_buffer buffer 0 88 10 (init_array buffer 20 [] m);
          c1 = assert_equal_uint index 10 c;
          c2 = fold (\<lambda>i. assert_equal_int (scast (m1 (buffer + of_nat i))) 88) [0..<10] c1
      in Some (fold (\<lambda>i. assert_equal_int (scast (m1 (buffer + of_nat i))) 0) [10..<20] c2, m1))"

text \<open>The calls of \<^verbatim>\<open>sprintf\<close>: format, arguments and expected text.\<close>

definition sprintf_step :: "string_layout \<Rightarrow> string \<Rightarrow> u32 list \<Rightarrow> string \<Rightarrow> string_test" where
  "sprintf_step L f args x c m = do {
     (_, m1) \<leftarrow> sprintf (st_num L) (st_temp L) (st_a L) (lit L f) args m;
     c1 \<leftarrow> assert_text L x m1 c;
     Some (c1, m1)
   }"

definition string_test_sprintf :: "string_layout \<Rightarrow> string_test" where
  "string_test_sprintf L c m = do {
     (c, m) \<leftarrow> sprintf_step L ''Hello World'' [] ''Hello World'' c m;
     (c, m) \<leftarrow> sprintf_step L ''String: %s'' [lit L ''Test''] ''String: Test'' c m;
     (c, m) \<leftarrow> sprintf_step L ''Number: %5d'' [42] ''Number: 00042'' c m;
     (c, m) \<leftarrow> sprintf_step L ''Unsigned: %4u'' [7] ''Unsigned: 0007'' c m;
     (c, m) \<leftarrow> sprintf_step L ''Hex: %8x'' [0xABCD] ''Hex: 0000abcd'' c m;
     (c, m) \<leftarrow> sprintf_step L ''Char: %3c'' [90] ''Char: 00Z'' c m;
     sprintf_step L ''%s %d %u %x %c'' [lit L ''Mix'', - 5, 123, 0xF, 81] ''Mix -5 123 f Q'' c m
   }"

definition string_test_strcmp :: "string_layout \<Rightarrow> string_test" where
  "string_test_strcmp L c m = do {
     rv \<leftarrow> strcmp m (lit L ''EQUAL'') (lit L ''EQUAL'');
     let c1 = assert_equal_int rv 0 c;
     rv \<leftarrow> strcmp m (lit L ''ABC'') (lit L ''ABD'');
     let c2 = assert_true (rv <s 0) c1;
     rv \<leftarrow> strcmp m (lit L ''XYZ'') (lit L ''XYA'');
     let c3 = assert_true (0 <s rv) c2;
     rv \<leftarrow> strcmp m (lit L '''') (lit L '''');
     Some (assert_equal_int rv 0 c3, m)
   }"

definition string_test_strcpy :: "string_layout \<Rightarrow> string_test" where
  "string_test_strcpy L c m = do {
     let src = st_b L;
     let m1 = init_array (st_a L) 64 [] (init_array src 17 (chars ''Copy this string'') m);
     (_, m2) \<leftarrow> strcpy (st_a L) src m1;
     c1 \<leftarrow> assert_equal_str m2 (st_a L) src c;
     Some (c1, m2)
   }"

definition string_test_strncpy :: "string_layout \<Rightarrow> string_test" where
  "string_test_strncpy L c m = do {
     let src = st_b L;
     let m1 = snd (strncpy (st_a L) src 10 (init_array src 7 (chars ''Source'') m));
     c1 \<leftarrow> assert_text L ''Source'' m1 c;
     let dest2 = st_c L;
     let m2 = snd (strncpy dest2 src 3 m1);
     c2 \<leftarrow> assert_equal_str m2 dest2 (lit L ''Sou'') c1;
     Some (c2, m2)
   }"

definition string_test_strcat :: "string_layout \<Rightarrow> string_test" where
  "string_test_strcat L c m = do {
     (_, m1) \<leftarrow> strcat (st_a L) (lit L '' World'') (init_array (st_a L) 64 (chars ''Hello'') m);
     c1 \<leftarrow> assert_text L ''Hello World'' m1 c;
     Some (c1, m1)
   }"

definition string_test_strlen :: "string_layout \<Rightarrow> string_test" where
  "string_test_strlen L c m =
     Some (assert_equal_int (strlen m (lit L '''')) 0 (assert_equal_int (strlen m (lit L ''Test string'')) 11 c), m)"

definition string_test_reverse :: "string_layout \<Rightarrow> string_test" where
  "string_test_reverse L c m = do {
     let m1 = reverse (st_a L) 6 (init_array (st_a L) 7 (chars ''abcdef'') m);
     c1 \<leftarrow> assert_text L ''fedcba'' m1 c;
     let str2 = st_b L;
     let m2 = reverse str2 1 (init_array str2 2 (chars ''a'') m1);
     c2 \<leftarrow> assert_equal_str m2 str2 (lit L ''a'') c1;
     Some (c2, m2)
   }"

definition string_test_itoa :: "string_layout \<Rightarrow> string_test" where
  "string_test_itoa L c m = do {
     let m1 = itoa 0 (st_a L) m;
     c1 \<leftarrow> assert_text L ''0'' m1 c;
     let m2 = itoa 123456 (st_a L) m1;
     c2 \<leftarrow> assert_text L ''123456'' m2 c1;
     let m3 = itoa 987654321 (st_a L) m2;
     c3 \<leftarrow> assert_text L ''987654321'' m3 c2;
     Some (c3, m3)
   }"

definition string_test_atoi :: "string_layout \<Rightarrow> string_test" where
  "string_test_atoi L c m = do {
     value \<leftarrow> atoi m (lit L ''12345'');
     let c1 = assert_equal_int value 12345 c;
     value \<leftarrow> atoi m (lit L ''-6789'');
     let c2 = assert_equal_int value (- 6789) c1;
     value \<leftarrow> atoi m (lit L ''+42'');
     let c3 = assert_equal_int value 42 c2;
     value \<leftarrow> atoi m (lit L ''0'');
     Some (assert_equal_int value 0 c3, m)
   }"

definition suffixes :: "string_layout \<Rightarrow> u32 list" where
  "suffixes L = [lit L ''B'', lit L ''KB'', lit L ''MB'', lit L ''GB'', lit L ''TB'']"

definition string_test_format_size :: "string_layout \<Rightarrow> string_test" where
  "string_test_format_size L c m = do {
     m1 \<leftarrow> format_size (suffixes L) 512 (st_a L) m;
     c1 \<leftarrow> assert_text L ''512B'' m1 c;
     m2 \<leftarrow> format_size (suffixes L) 2048 (st_a L) m1;
     c2 \<leftarrow> assert_text L ''2KB'' m2 c1;
     m3 \<leftarrow> format_size (suffixes L) 3145728 (st_a L) m2;
     c3 \<leftarrow> assert_text L ''3MB'' m3 c2;
     Some (c3, m3)
   }"

definition string_tests :: "string_layout \<Rightarrow> string_test list" where
  "string_tests L =
     [string_test_memset L, string_test_memcpy L, string_test_int_to_str L, string_test_uint_to_str L, string_test_int_to_hex_str L,
      string_test_fill_buffer L, string_test_sprintf L, string_test_strcmp L, string_test_strcpy L, string_test_strncpy L,
      string_test_strcat L, string_test_strlen L, string_test_reverse L, string_test_itoa L, string_test_atoi L,
      string_test_format_size L]"

section \<open>Memory of the tests\<close>

definition test_literals :: "string list" where
  "test_literals = [''12345'', ''0'', ''-6789'', ''123456'', ''4294967295'', ''00000000'', ''1234abcd'', ''ffffffff'', ''Hello World'', ''String: %s'',
     ''Test'', ''String: Test'', ''Number: %5d'', ''Number: 00042'', ''Unsigned: %4u'', ''Unsigned: 0007'', ''Hex: %8x'', ''Hex: 0000abcd'',
     ''Char: %3c'', ''Char: 00Z'', ''%s %d %u %x %c'', ''Mix'', ''Mix -5 123 f Q'', ''EQUAL'', ''ABC'', ''ABD'', ''XYZ'', ''XYA'', '''', ''Source'', ''Sou'',
     '' World'', ''Test string'', ''fedcba'', ''a'', ''987654321'', ''+42'', ''B'', ''KB'', ''MB'', ''GB'', ''TB'', ''512B'', ''2KB'', ''3MB'']"

text \<open>The arrays lie apart from each other, and the literals apart from the arrays.\<close>

definition st_area :: "string_layout \<Rightarrow> u32 set" where
  "st_area L = region (st_a L) 128 \<union> region (st_b L) 128 \<union> region (st_c L) 16 \<union> scratch (st_num L) (st_temp L)"

definition st_apart :: "string_layout \<Rightarrow> bool" where
  "st_apart L \<longleftrightarrow> region (st_a L) 128 \<inter> region (st_b L) 128 = {} \<and> region (st_a L) 128 \<inter> scratch (st_num L) (st_temp L) = {} \<and>
     region (st_temp L) 9 \<inter> region (st_num L) 32 = {} \<and> region (st_c L) 16 \<inter> (region (st_a L) 128 \<union> region (st_b L) 128) = {}"

definition literals_at :: "string_layout \<Rightarrow> mem \<Rightarrow> bool" where
  "literals_at L m \<longleftrightarrow> (\<forall>x\<in>set test_literals. cstr m (lit L x) (chars x) \<and> region (lit L x) (Suc (length (chars x))) \<inter> st_area L = {})"

lemma literals_agree: "literals_at L m \<Longrightarrow> agree (st_area L) m m' \<Longrightarrow> literals_at L m'"
  unfolding literals_at_def by (meson cstr_agree)

lemma literal:
  assumes "literals_at L m" "agree (st_area L) m m'" "x \<in> set test_literals"
  shows "cstr m' (lit L x) (chars x)" "region (lit L x) (Suc (length (chars x))) \<inter> st_area L = {}"
  using literals_agree [OF assms(1,2)] assms(3) by (simp_all add: literals_at_def)

lemma area_arrays: "n \<le> 128 \<Longrightarrow> region (st_a L) n \<subseteq> st_area L" "n \<le> 128 \<Longrightarrow> region (st_b L) n \<subseteq> st_area L"
  "n \<le> 16 \<Longrightarrow> region (st_c L) n \<subseteq> st_area L" "scratch (st_num L) (st_temp L) \<subseteq> st_area L"
  using region_subset [of n 128] region_subset [of n 16] by (auto simp: st_area_def)

lemma agree_arrays:
  "length xs \<le> 128 \<Longrightarrow> agree (st_area L) m (store m (st_a L) xs)" "length xs \<le> 128 \<Longrightarrow> agree (st_area L) m (store m (st_b L) xs)"
  "length xs \<le> 16 \<Longrightarrow> agree (st_area L) m (store m (st_c L) xs)" "length xs \<le> 9 \<Longrightarrow> agree (st_area L) m (store m (st_temp L) xs)"
  by (rule agree_scratch [of xs _ _ "st_area L"], simp_all add: area_arrays, (simp add: st_area_def scratch_def subset_iff))+

text \<open>\<open>held L s m m'\<close>: the first array holds the text \<open>s\<close>, and nothing outside the arrays has changed.\<close>

definition held :: "string_layout \<Rightarrow> u8 list \<Rightarrow> mem \<Rightarrow> mem \<Rightarrow> bool" where
  "held L s m m' \<longleftrightarrow> cstr m' (st_a L) s \<and> agree (st_area L) m m'"

lemma held_store: "agree (st_area L) m m1 \<Longrightarrow> 0 \<notin> set s \<Longrightarrow> length s < 128 \<Longrightarrow> held L s m (store m1 (st_a L) (s @ [0]))"
  unfolding held_def using agree_trans agree_arrays(1) [of "s @ [0]" L m1] cstr_store [of s m1 "st_a L"] by auto

lemma held_text:
  assumes "literals_at L m" "held L s m m'" "x \<in> set test_literals"
  shows "assert_text L x m' c = Some (assert_true (s = chars x) c)"
proof -
  have "cstr m' (st_a L) s" "cstr m' (lit L x) (chars x)" using assms literal(1) by (auto simp: held_def)
  from strcmp_run [OF this] show ?thesis by (auto simp: assert_text_def assert_equal_str_def assert_true_def)
qed

lemma held_agree: "held L s m m' \<Longrightarrow> agree (st_area L) m m'"
  by (simp add: held_def)

lemma decimal_values:
  "decimal 12345 = chars ''12345''" "decimal 0 = chars ''0''" "decimal (- 6789) = chars ''-6789''" "decimal 123456 = chars ''123456''"
  "decimal 4294967295 = chars ''4294967295''" "decimal 987654321 = chars ''987654321''" "decimal 512 = chars ''512''" "decimal 2 = chars ''2''"
  "decimal 3 = chars ''3''" "hexadecimal 0x1234ABCD = chars ''1234abcd''" "hexadecimal 0xFFFFFFFF = chars ''ffffffff''"
  by (simp_all add: decimal_def hexadecimal_def rdigits.simps chars_def digit_char_def hex_digits_def)

lemma literal_bytes: "x \<in> set test_literals \<Longrightarrow> 0 \<notin> set (chars x) \<and> length (chars x) < 16"
proof -
  have "list_all (\<lambda>x. 0 \<notin> set (chars x) \<and> length (chars x) < 16) test_literals" by code_simp
  then show "x \<in> set test_literals \<Longrightarrow> 0 \<notin> set (chars x) \<and> length (chars x) < 16" by (simp add: list_all_iff)
qed

section \<open>Outcomes\<close>

text \<open>\<open>outcome L t n f\<close>: from any memory with this layout the test counts \<open>n\<close> passes and \<open>f\<close> failures and keeps the layout.\<close>

definition plus_counts :: "nat \<Rightarrow> nat \<Rightarrow> ktest_counts \<Rightarrow> ktest_counts" where
  "plus_counts n f c = \<lparr>pass_count = pass_count c + of_nat n, fail_count = fail_count c + of_nat f\<rparr>"

definition outcome :: "string_layout \<Rightarrow> mem \<Rightarrow> string_test \<Rightarrow> nat \<Rightarrow> nat \<Rightarrow> bool" where
  "outcome L m t n f \<longleftrightarrow> (\<forall>c. \<exists>m'. t c m = Some (plus_counts n f c, m') \<and> agree (st_area L) m m')"

lemma count_simps:
  "ktest_pass c = plus_counts 1 0 c" "ktest_fail c = plus_counts 0 1 c" "plus_counts n f (plus_counts n' f' c) = plus_counts (n' + n) (f' + f) c"
  by (simp_all add: plus_counts_def ktest_pass_def ktest_fail_def add_ac)

lemma assert_counts:
  "assert_true b c = plus_counts (of_bool b) (of_bool (\<not> b)) c" "assert_equal_int x y c = plus_counts (of_bool (x = y)) (of_bool (x \<noteq> y)) c"
  "assert_equal_uint u v c = plus_counts (of_bool (u = v)) (of_bool (u \<noteq> v)) c"
  by (simp_all add: assert_true_def assert_equal_int_def assert_equal_uint_def count_simps)

lemma held_literal:
  "x \<in> set test_literals \<Longrightarrow> agree (st_area L) m m1 \<Longrightarrow> held L (chars x) m (store m1 (st_a L) (chars x @ [0]))"
  using held_store [of L m m1 "chars x"] literal_bytes [of x] by simp

lemma outcome_three:
  assumes "literals_at L m" "x \<in> set test_literals" "y \<in> set test_literals" "z \<in> set test_literals"
    and "\<And>m1. f m1 = store m1 (st_a L) (chars x @ [0])" "\<And>m1. g m1 = store m1 (st_a L) (chars y @ [0])"
      "\<And>m1. h m1 = store m1 (st_a L) (chars z @ [0])"
  shows "outcome L m (\<lambda>c m. do { c1 \<leftarrow> assert_text L x (f m) c; c2 \<leftarrow> assert_text L y (g (f m)) c1;
    c3 \<leftarrow> assert_text L z (h (g (f m))) c2; Some (c3, h (g (f m))) }) 3 0"
proof -
  have 1: "held L (chars x) m (f m)" using held_literal [OF assms(2), of L m m] assms(5) by simp
  have 2: "held L (chars y) m (g (f m))" using held_literal [OF assms(3) held_agree [OF 1]] assms(6) by simp
  have 3: "held L (chars z) m (h (g (f m)))" using held_literal [OF assms(4) held_agree [OF 2]] assms(7) by simp
  show ?thesis unfolding outcome_def
    using held_text [OF assms(1) 1 assms(2)] held_text [OF assms(1) 2 assms(3)] held_text [OF assms(1) 3 assms(4)] held_agree [OF 3]
    by (simp add: assert_counts count_simps numeral_3_eq_3)
qed

lemma outcome_numbers:
  assumes "literals_at L m"
  shows "outcome L m (string_test_int_to_str L) 3 0" "outcome L m (string_test_uint_to_str L) 3 0" "outcome L m (string_test_itoa L) 3 0"
proof -
  have l: "''12345'' \<in> set test_literals" "''0'' \<in> set test_literals" "''-6789'' \<in> set test_literals" "''123456'' \<in> set test_literals"
    "''4294967295'' \<in> set test_literals" "''987654321'' \<in> set test_literals" by (simp_all add: test_literals_def)
  note t = outcome_three [OF assms]
  show "outcome L m (string_test_int_to_str L) 3 0"
    using t [of "''12345''" "''0''" "''-6789''" "int_to_str 12345 (st_a L)" "int_to_str 0 (st_a L)" "int_to_str (- 6789) (st_a L)"] l
    by (simp add: string_test_int_to_str_def [abs_def] Let_def int_to_str_store decimal_values)
  show "outcome L m (string_test_uint_to_str L) 3 0"
    using t [of "''0''" "''123456''" "''4294967295''" "uint_to_str 0 (st_a L)" "uint_to_str 123456 (st_a L)" "uint_to_str 4294967295 (st_a L)"] l
    by (simp add: string_test_uint_to_str_def [abs_def] Let_def uint_to_str_store decimal_values)
  show "outcome L m (string_test_itoa L) 3 0"
    using t [of "''0''" "''123456''" "''987654321''" "itoa 0 (st_a L)" "itoa 123456 (st_a L)" "itoa 987654321 (st_a L)"] l
    by (simp add: string_test_itoa_def [abs_def] Let_def itoa_store decimal_values)
qed

text \<open>The first assertion on hexadecimal numbers expects eight digits; the function writes one.\<close>

lemma outcome_hex:
  assumes "literals_at L m" "st_apart L"
  shows "outcome L m (string_test_int_to_hex_str L) 2 1"
proof -
  let ?a = "st_a L" and ?t = "st_temp L"
  have ap: "region ?t 9 \<inter> region ?a 9 = {}" using assms(2) region_subset [of 9 128 ?a] by (auto simp: st_apart_def scratch_def)
  have "int_to_hex_str ?t 0 ?a m = Some (store m ?a (chars ''0'' @ [0]))" by (simp add: int_to_hex_str_def store_two chars_def)
  moreover have 1: "held L (chars ''0'') m (store m ?a (chars ''0'' @ [0]))" by (rule held_literal) (simp_all add: test_literals_def)
  moreover have h: "\<exists>m2. int_to_hex_str ?t n ?a m1 = Some m2 \<and> held L (chars x) m m2"
    if "agree (st_area L) m m1" "x \<in> set test_literals" "n \<noteq> 0" "hexadecimal (unat n) = chars x" for n m1 x
  proof -
    have "length (chars x @ [0]) \<le> 9" using hexadecimal_props(1) [of n] that(4) by simp
    then have "agree (st_area L) m (store m1 ?t (chars x @ [0]))" using agree_trans [OF that(1) agree_arrays(4)] by blast
    from held_literal [OF that(2) this] show ?thesis using int_to_hex_str_store [OF that(3) ap, of m1] that(4) by auto
  qed
  obtain m2 where m2: "int_to_hex_str ?t 0x1234ABCD ?a (store m ?a (chars ''0'' @ [0])) = Some m2" "held L (chars ''1234abcd'') m m2"
    using h [OF held_agree [OF 1], of "''1234abcd''" "0x1234ABCD"] by (auto simp: decimal_values test_literals_def)
  obtain m3 where m3: "int_to_hex_str ?t 0xFFFFFFFF ?a m2 = Some m3" "held L (chars ''ffffffff'') m m3"
    using h [OF held_agree [OF m2(2)], of "''ffffffff''" "0xFFFFFFFF"] by (auto simp: decimal_values test_literals_def)
  have "chars ''0'' \<noteq> chars ''00000000''" by (simp add: chars_def)
  ultimately show ?thesis unfolding outcome_def
    using m2(1) m3(1) held_agree [OF m3(2)] held_text [OF assms(1) 1] held_text [OF assms(1) m2(2)] held_text [OF assms(1) m3(2)]
    by (simp add: string_test_int_to_hex_str_def test_literals_def assert_counts count_simps numeral_2_eq_2)
qed

subsection \<open>Filling and copying\<close>

lemma store_nth: "i < 2 ^ 32 \<Longrightarrow> store m p xs (p + of_nat i) = (if i < length xs then xs ! i else m (p + of_nat i))"
  by (simp add: store_def unat_le_imp_of_nat)

lemma filled_pass: "\<forall>i<unat n. m (p + of_nat i) = b \<Longrightarrow> assert_filled m p n b c = plus_counts 1 0 c"
  by (simp add: assert_filled_counts count_simps)

lemma filled_fail: "i < unat n \<Longrightarrow> m (p + of_nat i) \<noteq> b \<Longrightarrow> assert_filled m p n b c = plus_counts 1 1 c"
  by (auto simp: assert_filled_counts count_simps)

lemma filled_store: "n \<le> k \<Longrightarrow> k \<le> 2 ^ 31 \<Longrightarrow> \<forall>i<n. store m p (replicate k v) (p + of_nat i) = v"
  by (simp add: store_nth)

lemma outcome_memset:
  shows "outcome L m (string_test_memset L) 4 1"
proof -
  let ?a = "st_a L"
  let ?m1 = "store m ?a (replicate 64 0)" and ?m2 = "\<lambda>m. store m ?a (replicate 64 0xFF)"
  let ?m3 = "store (?m2 ?m1) ?a (replicate 32 0xFF)"
  have f: "\<forall>i<64. ?m1 (?a + of_nat i) = 0" "\<forall>i<64. ?m2 ?m1 (?a + of_nat i) = 0xFF" "\<forall>i<32. ?m3 (?a + of_nat i) = 0xFF"
    by (rule filled_store; simp)+
  have "?m3 (?a + of_nat 32) = 0xFF" using f(2) [rule_format, of 32] by (subst store_nth) (simp_all del: replicate.simps)
  then have "assert_filled ?m3 (?a + 32) 32 0 c = plus_counts 1 1 c" for c by (intro filled_fail [of 0]) simp_all
  moreover have "agree (st_area L) m ?m3"
    by (rule agree_trans [OF agree_trans [OF agree_arrays(1) agree_arrays(1)] agree_arrays(1)]) simp_all
  moreover have "assert_filled ?m1 ?a 64 0 c = plus_counts 1 0 c" "assert_filled (?m2 ?m1) ?a 64 0xFF c = plus_counts 1 0 c"
    "assert_filled ?m3 ?a 32 0xFF c = plus_counts 1 0 c" for c using f by (simp_all add: filled_pass del: replicate.simps)
  ultimately show ?thesis unfolding outcome_def
    by (simp add: string_test_memset_def Let_def memset_store count_simps del: replicate.simps) (simp add: numeral_eq_Suc)
qed

lemma memcpy_filled:
  assumes "\<forall>i<unat n. m (q + of_nat i) = v" "region q (unat n) \<inter> region p (unat n) = {}"
  shows "memcpy p q n m = (p, store m p (replicate (unat n) v))"
proof -
  have "q + of_nat i \<notin> region p (unat n)" if "i < unat n" for i
    using assms(2) region_at [of i "unat n" q] that unat_u32_less [of n] by auto
  then have "memcpy_loop (unat n) p q m = store m p (map (\<lambda>i. m (q + of_nat i)) [0..<unat n])"
    using memcpy_loop_store [of "[]" "unat n" q p m] unat_u32_less [of n] by simp
  moreover have "map (\<lambda>i. m (q + of_nat i)) [0..<unat n] = replicate (unat n) v" using assms(1) by (simp add: list_eq_iff_nth_eq)
  ultimately show ?thesis by (simp add: memcpy_def)
qed

lemma outcome_memcpy:
  assumes "st_apart L"
  shows "outcome L m (string_test_memcpy L) 3 0"
proof -
  let ?a = "st_a L" and ?b = "st_b L"
  have ap: "region ?a n \<inter> region ?b k = {}" if "n \<le> 128" "k \<le> 128" for n k
    using assms region_subset [OF that(1), of ?a] region_subset [OF that(2), of ?b] by (auto simp: st_apart_def)
  define m1 where "m1 = store (store m ?a (replicate 128 65)) ?b (replicate 128 0)"
  define m2 where "m2 = store m1 ?b (replicate 128 65)"
  define m3 where "m3 = store m2 ?a (replicate 128 66)"
  define m4 where "m4 = store m3 ?b (replicate 64 66)"
  have out: "store s ?b xs (?a + of_nat i) = s (?a + of_nat i)" if "i < 128" "length xs \<le> 128" for s xs i
    using region_at [of i 128 ?a] ap [of 128 "length xs"] that by (intro store_outside) auto
  have out': "store s ?a xs (?b + of_nat i) = s (?b + of_nat i)" if "i < 128" "length xs \<le> 128" for s xs i
    using region_at [of i 128 ?b] ap [of "length xs" 128] that by (intro store_outside) auto
  have "m1 (?a + of_nat i) = 65" if "i < 128" for i using out [OF that, of "replicate 128 0"] that by (simp add: m1_def store_nth)
  then have c1: "snd (memcpy ?b ?a 128 m1) = m2" using ap [of 128 128] by (subst memcpy_filled [of _ _ _ 65]) (simp_all add: m2_def)
  have "m3 (?a + of_nat i) = 66" if "i < 64" for i using that by (simp add: m3_def store_nth)
  then have c2: "snd (memcpy ?b ?a 64 m3) = m4" using ap [of 64 64] by (subst memcpy_filled [of _ _ _ 66]) (simp_all add: m4_def)
  have f2: "\<forall>i<128. m2 (?b + of_nat i) = 65" "\<forall>i<64. m4 (?b + of_nat i) = 66" by (simp_all add: m2_def m4_def store_nth)
  have f4: "m4 (?b + 64 + of_nat i) = 65" if "i < 64" for i
  proof -
    have e: "?b + 64 + of_nat i = ?b + of_nat (64 + i)" by (simp add: add.assoc)
    have "m4 (?b + of_nat (64 + i)) = m3 (?b + of_nat (64 + i))" using that by (simp add: m4_def store_nth del: of_nat_add)
    also have "\<dots> = m2 (?b + of_nat (64 + i))" using out' [of "64 + i" "replicate 128 66" m2] that by (simp add: m3_def del: of_nat_add)
    also have "\<dots> = 65" using f2(1) [rule_format, of "64 + i"] that by (simp del: of_nat_add)
    finally show ?thesis by (simp only: e)
  qed
  have "agree (st_area L) m m1" unfolding m1_def by (rule agree_trans [OF agree_arrays(1) agree_arrays(2)]) simp_all
  then have "agree (st_area L) m m2" unfolding m2_def by (rule agree_trans [OF _ agree_arrays(2)]) simp
  then have "agree (st_area L) m m3" unfolding m3_def by (rule agree_trans [OF _ agree_arrays(1)]) simp
  then have "agree (st_area L) m m4" unfolding m4_def by (rule agree_trans [OF _ agree_arrays(2)]) simp
  moreover have "assert_filled m2 ?b 128 65 c = plus_counts 1 0 c" "assert_filled m4 ?b 64 66 c = plus_counts 1 0 c"
    "assert_filled m4 (?b + 64) 64 65 c = plus_counts 1 0 c" for c using f2 f4 by (simp_all add: filled_pass)
  then have "string_test_memcpy L c m = Some (plus_counts 3 0 c, m4)" for c
    using c1 c2 by (simp add: string_test_memcpy_def Let_def memset_store m1_def [symmetric] m3_def [symmetric] count_simps
      numeral_3_eq_3 del: replicate.simps)
  ultimately show ?thesis by (simp add: outcome_def)
qed

lemma fold_equal:
  assumes "\<forall>i\<in>set js. f i = v"
  shows "fold (\<lambda>i. assert_equal_int (f i) v) js c = plus_counts (length js) 0 c"
  using assms by (induction js arbitrary: c) (simp_all add: assert_counts count_simps, simp add: plus_counts_def)

lemma outcome_fill_buffer:
  shows "outcome L m (string_test_fill_buffer L) 21 0"
proof -
  let ?a = "st_a L"
  define m1 where "m1 = store (store m ?a (replicate 20 0)) ?a (replicate 10 88)"
  have run: "fill_buffer ?a 0 88 10 (init_array ?a 20 [] m) = (10, m1)"
    by (simp add: fill_buffer_def fill_loop_store init_array_def m1_def del: replicate.simps)
  have n: "m1 (?a + of_nat i) = (if i < 10 then 88 else 0)" if "i < 20" for i
    using that by (simp add: m1_def store_nth del: replicate.simps)
  have "\<forall>i\<in>set [0..<10]. (scast (m1 (?a + of_nat i)) :: i32) = 88" "\<forall>i\<in>set [10..<20]. (scast (m1 (?a + of_nat i)) :: i32) = 0"
    using n unfolding set_upt by auto
  note f = fold_equal [OF this(1)] fold_equal [OF this(2)]
  have "agree (st_area L) m m1" unfolding m1_def by (rule agree_trans [OF agree_arrays(1) agree_arrays(1)]) simp_all
  moreover have "string_test_fill_buffer L c m = Some (plus_counts 21 0 c, m1)" for c
    unfolding string_test_fill_buffer_def Let_def run prod.case f by (simp add: assert_counts count_simps)
  ultimately show ?thesis by (simp add: outcome_def)
qed

subsection \<open>Formatted output\<close>

lemma sprintf_step_run:
  assumes "literals_at L m" "st_apart L" "agree (st_area L) m m1" "f \<in> set test_literals" "x \<in> set test_literals"
    and "render (chars f) args = Some (chars x)" "\<And>a s. Str a s \<in> set args \<Longrightarrow> \<exists>y\<in>set test_literals. a = lit L y \<and> s = chars y"
  shows "\<exists>m2. sprintf_step L f (map raw args) x c m1 = Some (plus_counts 1 0 c, m2) \<and> agree (st_area L) m m2"
proof -
  let ?a = "st_a L" and ?n = "st_num L" and ?t = "st_temp L"
  have sub: "scratch ?n ?t \<union> region ?a 128 \<subseteq> st_area L" by (auto simp: st_area_def)
  note l = literal [OF assms(1,3)]
  have "layout m1 ?n ?t ?a (lit L f) (chars f) 128"
    using assms(2) l [OF assms(4)] sub by (auto simp: layout_def st_apart_def)
  moreover have "args_at m1 ?n ?t ?a 128 args" unfolding args_at_def
  proof (intro allI impI)
    fix a s assume "Str a s \<in> set args"
    then obtain y where y: "y \<in> set test_literals" "a = lit L y" "s = chars y" using assms(7) by blast
    show "cstr m1 a s \<and> length s \<le> MAX_STRING_LEN \<and> region a (Suc (length s)) \<inter> (scratch ?n ?t \<union> region ?a 128) = {}"
      using l [OF y(1)] literal_bytes [OF y(1)] sub by (auto simp: y MAX_STRING_LEN_def)
  qed
  ultimately obtain m2 where m2: "sprintf ?n ?t ?a (lit L f) (map raw args) m1 = Some (of_nat (length (chars x)), m2)" "cstr m2 ?a (chars x)"
    "agree (region ?a 128 \<union> scratch ?n ?t) m1 m2"
    using sprintf_buffer [OF assms(6), of 128 m1 ?n ?t ?a "lit L f"] literal_bytes [OF assms(5)] by auto
  have h: "held L (chars x) m m2" unfolding held_def using m2(2) agree_trans [OF assms(3) agree_mono [OF m2(3)]] sub by auto
  then show ?thesis using m2(1) held_text [OF assms(1) h assms(5)] held_agree [OF h]
    by (simp add: sprintf_step_def assert_counts)
qed

lemma argument_values: "decimal (- 5) = chars ''-5''" "decimal 123 = chars ''123''" "hexadecimal 15 = chars ''f''" "hexadecimal 0xABCD = chars ''abcd''"
  by (simp_all add: decimal_def hexadecimal_def rdigits.simps chars_def digit_char_def hex_digits_def)

lemma renderings:
  "render (chars ''Hello World'') [] = Some (chars ''Hello World'')"
  "render (chars ''String: %s'') [Str p (chars ''Test'')] = Some (chars ''String: Test'')"
  "render (chars ''Number: %5d'') [Num 42] = Some (chars ''Number: 00042'')"
  "render (chars ''Unsigned: %4u'') [Num 7] = Some (chars ''Unsigned: 0007'')"
  "render (chars ''Hex: %8x'') [Num 0xABCD] = Some (chars ''Hex: 0000abcd'')"
  "render (chars ''Char: %3c'') [Num 90] = Some (chars ''Char: 00Z'')"
  "render (chars ''%s %d %u %x %c'') [Str q (chars ''Mix''), Num (- 5), Num 123, Num 0xF, Num 81] = Some (chars ''Mix -5 123 f Q'')"
proof -
  note d = chars_def is_digit_def conversion_def pad_def padding_of_def
  show "render (chars ''Hello World'') [] = Some (chars ''Hello World'')" by code_simp
  show "render (chars ''String: %s'') [Str p (chars ''Test'')] = Some (chars ''String: Test'')" by (simp add: d)
  show "render (chars ''Number: %5d'') [Num 42] = Some (chars ''Number: 00042'')" by code_simp
  show "render (chars ''Unsigned: %4u'') [Num 7] = Some (chars ''Unsigned: 0007'')" by code_simp
  show "render (chars ''Char: %3c'') [Num 90] = Some (chars ''Char: 00Z'')" by code_simp
  show "render (chars ''Hex: %8x'') [Num 0xABCD] = Some (chars ''Hex: 0000abcd'')"
    using argument_values(4) by (simp add: d) (simp add: numeral_eq_Suc)
  show "render (chars ''%s %d %u %x %c'') [Str q (chars ''Mix''), Num (- 5), Num 123, Num 0xF, Num 81] = Some (chars ''Mix -5 123 f Q'')"
    using argument_values(1-3) by (simp add: d)
qed

lemma outcome_sprintf:
  assumes "literals_at L m" "st_apart L"
  shows "outcome L m (string_test_sprintf L) 7 0"
  unfolding outcome_def
proof
  fix c
  have l: "list_all (\<lambda>x. x \<in> set test_literals) [''Hello World'', ''String: %s'', ''Test'', ''String: Test'', ''Number: %5d'', ''Number: 00042'', ''Unsigned: %4u'',
      ''Unsigned: 0007'', ''Hex: %8x'', ''Hex: 0000abcd'', ''Char: %3c'', ''Char: 00Z'', ''%s %d %u %x %c'', ''Mix'', ''Mix -5 123 f Q'']"
    by (simp add: test_literals_def)
  have step: "\<exists>m2. sprintf_step L f (map raw args) x (plus_counts n 0 c) m1 = Some (plus_counts (Suc n) 0 c, m2) \<and> agree (st_area L) m m2"
    if "agree (st_area L) m m1" "f \<in> set test_literals" "x \<in> set test_literals" "render (chars f) args = Some (chars x)"
      "\<forall>a s. Str a s \<in> set args \<longrightarrow> (\<exists>y\<in>set test_literals. a = lit L y \<and> s = chars y)" for f args x n m1
    using sprintf_step_run [OF assms that(1-4), of "plus_counts n 0 c"] that(5) by (simp add: count_simps)
  have z: "plus_counts 0 0 c = c" by (simp add: plus_counts_def)
  obtain m1 where 1: "sprintf_step L ''Hello World'' [] ''Hello World'' c m = Some (plus_counts 1 0 c, m1)" "agree (st_area L) m m1"
    using step [OF agree_refl _ _ renderings(1), of 0] l z by auto
  obtain m2 where 2: "sprintf_step L ''String: %s'' [lit L ''Test''] ''String: Test'' (plus_counts 1 0 c) m1 = Some (plus_counts 2 0 c, m2)" "agree (st_area L) m m2"
    using step [OF 1(2) _ _ renderings(2) [of "lit L ''Test''"], of 1] l by (auto simp: numeral_2_eq_2)
  obtain m3 where 3: "sprintf_step L ''Number: %5d'' [42] ''Number: 00042'' (plus_counts 2 0 c) m2 = Some (plus_counts 3 0 c, m3)" "agree (st_area L) m m3"
    using step [OF 2(2) _ _ renderings(3), of 2] l by auto
  obtain m4 where 4: "sprintf_step L ''Unsigned: %4u'' [7] ''Unsigned: 0007'' (plus_counts 3 0 c) m3 = Some (plus_counts 4 0 c, m4)" "agree (st_area L) m m4"
    using step [OF 3(2) _ _ renderings(4), of 3] l by auto
  obtain m5 where 5: "sprintf_step L ''Hex: %8x'' [0xABCD] ''Hex: 0000abcd'' (plus_counts 4 0 c) m4 = Some (plus_counts 5 0 c, m5)" "agree (st_area L) m m5"
    using step [OF 4(2) _ _ renderings(5), of 4] l by auto
  obtain m6 where 6: "sprintf_step L ''Char: %3c'' [90] ''Char: 00Z'' (plus_counts 5 0 c) m5 = Some (plus_counts 6 0 c, m6)" "agree (st_area L) m m6"
    using step [OF 5(2) _ _ renderings(6), of 5] l by auto
  obtain m7 where 7: "sprintf_step L ''%s %d %u %x %c'' [lit L ''Mix'', - 5, 123, 0xF, 81] ''Mix -5 123 f Q'' (plus_counts 6 0 c) m6 = Some (plus_counts 7 0 c, m7)"
    "agree (st_area L) m m7"
    using step [OF 6(2) _ _ renderings(7) [of "lit L ''Mix''"], of 6] l by auto
  show "\<exists>m'. string_test_sprintf L c m = Some (plus_counts 7 0 c, m') \<and> agree (st_area L) m m'"
    using 1 2 3 4 5 6 7 by (simp add: string_test_sprintf_def)
qed

subsection \<open>Comparing, copying, reading\<close>

lemma strcmp_differ:
  assumes "cstr m p (s @ x # u)" "cstr m q (s @ y # v)" "x \<noteq> y"
  shows "strcmp m p q = Some (ucast x - ucast y)"
  using assms(1,2)
proof (induction s arbitrary: p q)
  case Nil
  then show ?case using cstr_Cons(1) [of m p x u] cstr_Cons(1) [of m q y v] assms(3) by (subst strcmp.simps) simp
next
  case (Cons z s)
  note p = cstr_Cons [of m p z "s @ x # u"] and q = cstr_Cons [of m q z "s @ y # v"]
  show ?case using Cons.IH [of "p + 1" "q + 1"] Cons.prems p q by (subst strcmp.simps) simp
qed

lemma outcome_reading:
  assumes "literals_at L m"
  shows "outcome L m (string_test_strcmp L) 4 0" "outcome L m (string_test_strlen L) 2 0" "outcome L m (string_test_atoi L) 4 0"
proof -
  have l: "cstr m (lit L x) (chars x)" if "x \<in> set test_literals" for x using literal(1) [OF assms agree_refl that] .
  have "strcmp m (lit L ''EQUAL'') (lit L ''EQUAL'') = Some 0" "strcmp m (lit L '''') (lit L '''') = Some 0"
    using strcmp_run [OF l l, of "''EQUAL''" "''EQUAL''"] strcmp_run [OF l l, of "''''" "''''"] by (auto simp: test_literals_def)
  moreover have "strcmp m (lit L ''ABC'') (lit L ''ABD'') = Some (- 1)"
    using strcmp_differ [of m _ "[65, 66]" 67 "[]" _ 68 "[]"] l [of "''ABC''"] l [of "''ABD''"] by (simp add: test_literals_def chars_def)
  moreover have "strcmp m (lit L ''XYZ'') (lit L ''XYA'') = Some 25"
    using strcmp_differ [of m _ "[88, 89]" 90 "[]" _ 65 "[]"] l [of "''XYZ''"] l [of "''XYA''"] by (simp add: test_literals_def chars_def)
  moreover have "(- 1 :: i32) <s 0" "(0 :: i32) <s 25" by (simp_all add: word_sless_alt)
  ultimately show "outcome L m (string_test_strcmp L) 4 0" unfolding outcome_def
    by (simp add: string_test_strcmp_def assert_counts count_simps) (simp add: numeral_eq_Suc)
  have "strlen m (lit L ''Test string'') = 11" "strlen m (lit L '''') = 0"
    using strlen_at [OF l [of "''Test string''"]] strlen_at [OF l [of "''''"]] by (simp_all add: test_literals_def chars_def MAX_STRING_LEN_def)
  then show "outcome L m (string_test_strlen L) 2 0" unfolding outcome_def
    by (simp add: string_test_strlen_def assert_counts count_simps numeral_2_eq_2)
  have a: "atoi m (lit L ''12345'') = Some 12345" "atoi m (lit L ''-6789'') = Some (- 6789)" "atoi m (lit L ''0'') = Some 0"
    using atoi_decimal [of m _ 12345] atoi_decimal [of m _ "- 6789"] atoi_decimal [of m _ 0] l [of "''12345''"] l [of "''-6789''"] l [of "''0''"]
    by (simp_all add: test_literals_def decimal_values)
  have "cstr m (lit L ''+42'') (43 # chars ''42'')" using l [of "''+42''"] by (simp add: test_literals_def chars_def)
  from cstr_Cons [OF this] have p: "m (lit L ''+42'') = 43" "cstr m (lit L ''+42'' + 1) (chars ''42'')" by simp_all
  have "chars ''42'' = map digit_char (rev (rdigits 10 42))" by (simp add: rdigits.simps chars_def digit_char_def)
  then have "atoi m (lit L ''+42'') = Some 42" using atoi_digits [of m "lit L ''+42'' + 1" 42] p by (simp add: atoi_def)
  with a show "outcome L m (string_test_atoi L) 4 0" unfolding outcome_def
    by (simp add: string_test_atoi_def assert_counts count_simps) (simp add: numeral_eq_Suc)
qed

lemma cstr_store_rest: "length (s @ 0 # zs) < 2 ^ 32 \<Longrightarrow> 0 \<notin> set s \<Longrightarrow> cstr (store m p (s @ 0 # zs)) p s"
  by (auto simp: cstr_def store_nth nth_append dest: nth_mem)

lemma init_array_cstr:
  assumes "length s < n" "n < 2 ^ 31" "0 \<notin> set s"
  shows "cstr (init_array p n s m) p s"
proof -
  obtain k where "n - length s = Suc k" using assms(1) by (metis Suc_diff_Suc)
  then show ?thesis using cstr_store_rest [of s "replicate k 0" m p] assms by (simp add: init_array_def)
qed

lemma init_array_agree:
  "length s \<le> n \<Longrightarrow> n \<le> 128 \<Longrightarrow> agree (st_area L) m (init_array (st_a L) n s m)" "length s \<le> n \<Longrightarrow> n \<le> 128 \<Longrightarrow> agree (st_area L) m (init_array (st_b L) n s m)"
  by (simp_all add: init_array_def agree_arrays)

lemma arrays_apart:
  assumes "st_apart L" "n \<le> 128" "k \<le> 128"
  shows "region (st_a L) n \<inter> region (st_b L) k = {}" "region (st_b L) k \<inter> region (st_a L) n = {}"
  using assms region_subset [OF assms(2), of "st_a L"] region_subset [OF assms(3), of "st_b L"] by (auto simp: st_apart_def)

lemma outcome_strcpy:
  assumes "st_apart L"
  shows "outcome L m (string_test_strcpy L) 1 0"
proof -
  let ?a = "st_a L" and ?b = "st_b L" and ?s = "chars ''Copy this string''"
  let ?m0 = "init_array ?b 17 ?s m"
  let ?m1 = "init_array ?a 64 [] ?m0"
  have s: "length ?s = 16" "0 \<notin> set ?s" by (simp_all add: chars_def)
  have "cstr ?m0 ?b ?s" using s by (intro init_array_cstr) simp_all
  then have b: "cstr ?m1 ?b ?s" unfolding init_array_def [of ?a] using s arrays_apart(2) [OF assms, of 64 17] by (intro cstr_frame) simp_all
  have d: "region ?b (Suc (length ?s)) \<inter> region ?a (Suc (length ?s)) = {}" using s arrays_apart(2) [OF assms] by simp
  obtain m2 where m2: "strcpy ?a ?b ?m1 = Some (?a, m2)" "m2 = store ?m1 ?a (?s @ [0])" using strcpy_store [OF b d] by simp
  have "cstr m2 ?b ?s" "cstr m2 ?a ?s" using b d s cstr_frame [OF b, of ?a "?s @ [0]"] cstr_store [of ?s ?m1 ?a] by (simp_all add: m2(2))
  from strcmp_run [OF this(2,1)] have "assert_equal_str m2 ?a ?b c = Some (plus_counts 1 0 c)" for c
    by (auto simp: assert_equal_str_def count_simps)
  moreover have "agree (st_area L) m ?m0" "agree (st_area L) ?m0 ?m1" "agree (st_area L) ?m1 m2"
    unfolding m2(2) using s init_array_agree [of _ _ L] agree_arrays(1) [of "?s @ [0]" L ?m1] by simp_all
  then have "agree (st_area L) m m2" by (meson agree_trans)
  ultimately show ?thesis using m2(1) by (simp add: outcome_def string_test_strcpy_def)
qed

lemma outcome_strcat:
  assumes "literals_at L m"
  shows "outcome L m (string_test_strcat L) 1 0"
proof -
  let ?a = "st_a L" and ?s = "chars ''Hello''" and ?t = "chars '' World''"
  let ?m1 = "init_array ?a 64 ?s m"
  have s: "length ?s = 5" "0 \<notin> set ?s" "length ?t = 6" by (simp_all add: chars_def)
  have ag: "agree (st_area L) m ?m1" using s by (intro init_array_agree) simp_all
  have w: "'' World'' \<in> set test_literals" "''Hello World'' \<in> set test_literals" by (simp_all add: test_literals_def)
  note t = literal [OF assms ag w(1)]
  have "region (lit L '' World'') (Suc (length ?t)) \<inter> region ?a (length ?s + Suc (length ?t)) = {}"
    using t(2) area_arrays(1) [of "length ?s + Suc (length ?t)" L] s by auto
  moreover have "cstr ?m1 ?a ?s" using s by (intro init_array_cstr) simp_all
  ultimately have "strcat ?a (lit L '' World'') ?m1 = Some (?a, store ?m1 ?a (?s @ ?t @ [0]))"
    using s by (intro strcat_store t(1)) (simp_all add: MAX_STRING_LEN_def)
  moreover have "?s @ ?t @ [0] = chars ''Hello World'' @ [0]" by (simp add: chars_def)
  ultimately have "strcat ?a (lit L '' World'') ?m1 = Some (?a, store ?m1 ?a (chars ''Hello World'' @ [0]))" by (simp only:)
  moreover note h = held_literal [OF w(2) ag]
  ultimately show ?thesis using held_text [OF assms h w(2)] held_agree [OF h] unfolding outcome_def
    by (simp add: string_test_strcat_def assert_counts)
qed

lemma outcome_format_size:
  assumes "literals_at L m"
  shows "outcome L m (string_test_format_size L) 3 0"
proof -
  let ?a = "st_a L"
  have run: "format_size (suffixes L) n ?a m1 = Some (store m1 ?a (chars x @ [0])) \<and> held L (chars x) m (store m1 ?a (chars x @ [0]))"
    if "agree (st_area L) m m1" "x \<in> set test_literals" "y \<in> set test_literals" "suffixes L ! size_unit (unat n) = lit L y" "length (chars y) \<le> 2"
      "decimal (uint (n div 1024 ^ size_unit (unat n))) @ chars y = chars x" for n x y m1
  proof -
    note y = literal [OF assms that(1,3)]
    have "region (lit L y) (Suc (length (chars y))) \<inter> region ?a 16 = {}" using y(2) area_arrays(1) [of 16 L] by auto
    then have "format_size (suffixes L) n ?a m1 = Some (store m1 ?a (decimal (uint (n div 1024 ^ size_unit (unat n))) @ chars y @ [0]))"
      using y(1) that(4,5) by (intro format_size_whole) (simp_all add: suffixes_def)
    then show ?thesis using that(6) held_literal [OF that(2,1)] by (metis append.assoc)
  qed
  have l: "''512B'' \<in> set test_literals" "''2KB'' \<in> set test_literals" "''3MB'' \<in> set test_literals" "''B'' \<in> set test_literals"
    "''KB'' \<in> set test_literals" "''MB'' \<in> set test_literals" by (simp_all add: test_literals_def)
  let ?m1 = "store m ?a (chars ''512B'' @ [0])"
  let ?m2 = "store ?m1 ?a (chars ''2KB'' @ [0])"
  have 1: "format_size (suffixes L) 512 ?a m = Some ?m1" "held L (chars ''512B'') m ?m1"
    using run [OF agree_refl l(1,4), of 512] by (simp_all add: size_unit_def decimal_values suffixes_def) (simp_all add: chars_def)
  have 2: "format_size (suffixes L) 2048 ?a ?m1 = Some ?m2" "held L (chars ''2KB'') m ?m2"
    using run [OF held_agree [OF 1(2)] l(2,5), of 2048] by (simp_all add: size_unit_def decimal_values suffixes_def) (simp_all add: chars_def)
  let ?m3 = "store ?m2 ?a (chars ''3MB'' @ [0])"
  have 3: "format_size (suffixes L) 3145728 ?a ?m2 = Some ?m3" "held L (chars ''3MB'') m ?m3"
    using run [OF held_agree [OF 2(2)] l(3,6), of 3145728] by (simp_all add: size_unit_def decimal_values suffixes_def) (simp_all add: chars_def)
  show ?thesis unfolding outcome_def
    using 1(1) 2(1) 3(1) held_text [OF assms 1(2) l(1)] held_text [OF assms 2(2) l(2)] held_text [OF assms 3(2) l(3)] held_agree [OF 3(2)]
    by (simp add: string_test_format_size_def assert_counts count_simps numeral_3_eq_3)
qed


lemma strcmp_step: "m p = x \<Longrightarrow> m q = x \<Longrightarrow> x \<noteq> 0 \<Longrightarrow> strcmp m p q = strcmp m (p + 1) (q + 1)"
  by (subst strcmp.simps) simp

lemma strcmp_stop: "m p = 0 \<or> m q = 0 \<Longrightarrow> strcmp m p q = Some (ucast (m p) - ucast (m q))"
  by (subst strcmp.simps) auto

text \<open>
  Three bytes of six are copied without a terminator, so the second comparison ends at a byte of the array that was never
  written: the assertion holds if that byte happens to be zero.
\<close>

lemma outcome_strncpy:
  assumes "literals_at L m" "st_apart L"
  shows "if m (st_c L + 3) = 0 then outcome L m (string_test_strncpy L) 2 0 else outcome L m (string_test_strncpy L) 1 1"
proof -
  let ?a = "st_a L" and ?b = "st_b L" and ?c = "st_c L" and ?s = "chars ''Source''"
  let ?m0 = "init_array ?b 7 ?s m"
  let ?m1 = "store ?m0 ?a (?s @ replicate 4 0)"
  let ?m2 = "store ?m1 ?c (chars ''Sou'')"
  have s: "length ?s = 6" "0 \<notin> set ?s" "take 3 ?s = chars ''Sou''" "length (chars ''Sou'') = 3" by (simp_all add: chars_def)
  have w: "''Source'' \<in> set test_literals" "''Sou'' \<in> set test_literals" by (simp_all add: test_literals_def)
  have cb: "region ?b 7 \<inter> region ?c 3 = {}"
    using assms(2) region_subset [of 7 128 ?b] region_subset [of 3 16 ?c] by (auto simp: st_apart_def)
  have b0: "cstr ?m0 ?b ?s" using s by (intro init_array_cstr) simp_all
  then have b1: "cstr ?m1 ?b ?s" using s arrays_apart(2) [OF assms(2)] by (intro cstr_frame) simp_all
  have 1: "strncpy ?a ?b 10 ?m0 = (?a, ?m1)" using strncpy_store [OF b0, of ?a 10] s arrays_apart(2) [OF assms(2)] by simp
  have 2: "strncpy ?c ?b 3 ?m1 = (?c, ?m2)" using strncpy_store [OF b1, of ?c 3] s cb by simp
  have "replicate 4 (0 :: u8) = 0 # replicate 3 0" by (simp add: numeral_eq_Suc)
  then have "cstr ?m1 ?a ?s" using cstr_store_rest [of ?s "replicate 3 0" ?m0 ?a] s(1,2) by (simp del: replicate.simps)
  then have h: "agree (st_area L) m ?m1 \<Longrightarrow> held L ?s m ?m1" by (simp only: held_def)
  have g: "agree (st_area L) m ?m0" "agree (st_area L) ?m0 ?m1" "agree (st_area L) ?m1 ?m2"
    using s agree_arrays(1) [of "?s @ replicate 4 0" L] agree_arrays(3) [of "chars ''Sou''" L] init_array_agree(2) [of ?s 7 L m] by simp_all
  have g1: "agree (st_area L) m ?m1" using agree_trans [OF g(1,2)] .
  have g2: "agree (st_area L) m ?m2" using agree_trans [OF g1 g(3)] .
  have t1: "assert_text L ''Source'' ?m1 c = Some (plus_counts 1 0 c)" for c using held_text [OF assms(1) h [OF g1] w(1)] by (simp add: assert_counts)
  have "cstr ?m2 (lit L ''Sou'') [83, 111, 117]" using literal(1) [OF assms(1) g2 w(2)] by (simp add: chars_def)
  note q = cstr_Cons [OF this] and q1 = cstr_Cons [OF cstr_Cons(3) [OF this]] and q2 = cstr_Cons [OF cstr_Cons(3) [OF cstr_Cons(3) [OF this]]]
  note q3 = cstr_Nil [OF q2(3)]
  have p: "?m2 (?c + of_nat i) = [83, 111, 117] ! i" if "i < 3" for i using store_nth [of i ?m1 ?c "chars ''Sou''"] that s(4) by (simp add: chars_def)
  have "?c + 3 \<in> region ?c 16" using region_at [of 3 16 ?c] by simp
  then have "?c + 3 \<notin> region ?a 10" "?c + 3 \<notin> region ?b 7"
    using assms(2) region_subset [of 10 128 ?a] region_subset [of 7 128 ?b] by (auto simp: st_apart_def)
  then have "?m1 (?c + 3) = m (?c + 3)" using s(1) by (simp add: init_array_def store_outside)
  then have p3: "?m2 (?c + 3) = m (?c + 3)" using store_nth [of 3 ?m1 ?c "chars ''Sou''"] s(4) by simp
  have "strcmp ?m2 ?c (lit L ''Sou'') = strcmp ?m2 (?c + 3) (lit L ''Sou'' + 1 + 1 + 1)"
    using strcmp_step [of ?m2 ?c 83 "lit L ''Sou''"] strcmp_step [of ?m2 "?c + 1" 111 "lit L ''Sou'' + 1"]
      strcmp_step [of ?m2 "?c + 2" 117 "lit L ''Sou'' + 1 + 1"] q(1) q1(1) q2(1) p [of 0] p [of 1] p [of 2] by (simp add: add.assoc)
  also have "\<dots> = Some (ucast (m (?c + 3)))" using strcmp_stop [of ?m2 "?c + 3"] q3 p3 by simp
  finally have "assert_equal_str ?m2 ?c (lit L ''Sou'') c =
      Some (plus_counts (of_bool (m (?c + 3) = 0)) (of_bool (m (?c + 3) \<noteq> 0)) c)" for c
    by (simp add: assert_equal_str_def count_simps)
  with 1 2 t1 g2 show ?thesis unfolding outcome_def
    by (simp add: string_test_strncpy_def count_simps numeral_2_eq_2)
qed

lemma outcome_reverse:
  assumes "literals_at L m" "st_apart L"
  shows "outcome L m (string_test_reverse L) 2 0"
proof -
  let ?a = "st_a L" and ?b = "st_b L"
  let ?m1 = "store m ?a (chars ''fedcba'' @ [0])"
  let ?m2 = "store ?m1 ?b (chars ''a'' @ [0])"
  have w: "''fedcba'' \<in> set test_literals" "''a'' \<in> set test_literals" by (simp_all add: test_literals_def)
  have 1: "reverse ?a 6 (init_array ?a 7 (chars ''abcdef'') m) = ?m1"
    using reverse_all [of "chars ''abcdef''" "[0]" ?a m] by (simp add: reverse_def init_array_def chars_def)
  have 2: "reverse ?b 1 (init_array ?b 2 (chars ''a'') ?m1) = ?m2"
    using reverse_all [of "chars ''a''" "[0]" ?b ?m1] by (simp add: reverse_def init_array_def chars_def)
  have h: "held L (chars ''fedcba'') m ?m1" using w by (intro held_literal) simp_all
  have "agree (st_area L) ?m1 ?m2" by (rule agree_arrays) (simp add: chars_def)
  then have g: "agree (st_area L) m ?m2" using held_agree [OF h] agree_trans by blast
  have "cstr ?m2 ?b (chars ''a'')" by (rule cstr_store) (simp_all add: chars_def)
  from strcmp_run [OF this literal(1) [OF assms(1) g w(2)]]
  have "assert_equal_str ?m2 ?b (lit L ''a'') c = Some (plus_counts 1 0 c)" for c by (auto simp: assert_equal_str_def count_simps)
  then show ?thesis unfolding outcome_def using 1 2 held_text [OF assms(1) h w(1)] g
    by (simp add: string_test_reverse_def assert_counts count_simps numeral_2_eq_2)
qed

section \<open>The module\<close>

text \<open>The set-up and clean-up functions return at once. Every test has a frame of its own, so a layout of its own.\<close>

definition string_module :: "u32 \<Rightarrow> (nat \<Rightarrow> u32) \<Rightarrow> (nat \<Rightarrow> string_layout) \<Rightarrow> mem ktest_module" where
  "string_module name nm L =
     \<lparr>mod_name = name, module_pre = Some Some, module_post = Some Some, test_pre = Some Some, test_post = Some Some,
      tests = map (\<lambda>i. \<lparr>unit_name = nm i, unit_counts = \<lparr>pass_count = 0, fail_count = 0\<rparr>, test_func = string_tests (L i) ! i\<rparr>) [0..<16]\<rparr>"

text \<open>The list of the modules, as \<^verbatim>\<open>kernel/test/ktest.c\<close> prints it.\<close>

definition ktest_list_modules :: "'k ktest_module list \<Rightarrow> report" where
  "ktest_list_modules mds =
     (nl ''Kernel Test Modules Available:'', []) # map (\<lambda>md. (nl ''Module: %s'', [String_At (mod_name md)])) mds"

definition layouts_area :: "(nat \<Rightarrow> string_layout) \<Rightarrow> u32 set" where
  "layouts_area L = (\<Union>i<16. st_area (L i))"

definition layouts_ok :: "(nat \<Rightarrow> string_layout) \<Rightarrow> mem \<Rightarrow> bool" where
  "layouts_ok L m \<longleftrightarrow> (\<forall>i<16. st_apart (L i) \<and> (\<forall>x\<in>set test_literals.
     cstr m (lit (L i) x) (chars x) \<and> region (lit (L i) x) (Suc (length (chars x))) \<inter> layouts_area L = {}))"

text \<open>Passes and failures of the tests, in the order of the module; for \<^verbatim>\<open>strncpy\<close> both results are possible.\<close>

definition string_counts :: "(nat \<times> nat) set list" where
  "string_counts = [{(4, 1)}, {(3, 0)}, {(3, 0)}, {(3, 0)}, {(2, 1)}, {(21, 0)}, {(7, 0)}, {(4, 0)}, {(1, 0)}, {(2, 0), (1, 1)}, {(1, 0)},
     {(2, 0)}, {(2, 0)}, {(3, 0)}, {(4, 0)}, {(3, 0)}]"

lemma string_tests_outcome:
  assumes "literals_at L m" "st_apart L"
  shows "list_all2 (\<lambda>t S. \<exists>(n, f)\<in>S. outcome L m t n f) (string_tests L) string_counts"
  using outcome_memset [of L m] outcome_memcpy [OF assms(2), of m] outcome_numbers [OF assms(1)] outcome_hex [OF assms] outcome_fill_buffer [of L m]
    outcome_sprintf [OF assms] outcome_reading [OF assms(1)] outcome_strcpy [OF assms(2), of m] outcome_strncpy [OF assms]
    outcome_strcat [OF assms(1)] outcome_reverse [OF assms] outcome_format_size [OF assms(1)]
  by (simp add: string_tests_def string_counts_def split: if_splits)

lemma layouts_ok_agree: "layouts_ok L m \<Longrightarrow> agree (layouts_area L) m m' \<Longrightarrow> layouts_ok L m'"
  unfolding layouts_ok_def by (meson cstr_agree)

lemma layout_nth:
  assumes "layouts_ok L m" "i < 16"
  shows "literals_at (L i) m" "st_apart (L i)" "st_area (L i) \<subseteq> layouts_area L"
proof -
  show a: "st_area (L i) \<subseteq> layouts_area L" using assms(2) by (auto simp: layouts_area_def)
  show "literals_at (L i) m" using assms a unfolding layouts_ok_def literals_at_def by blast
  show "st_apart (L i)" using assms by (simp add: layouts_ok_def)
qed

definition counted :: "'k ktest_unit \<Rightarrow> (nat \<times> nat) set \<Rightarrow> bool" where
  "counted u S \<longleftrightarrow> (\<exists>(n, f)\<in>S. pass_count (unit_counts u) = of_nat n \<and> fail_count (unit_counts u) = of_nat f)"

lemma run_units_counted:
  assumes "test_pre md = Some Some" "test_post md = Some Some"
    and "list_all2 (\<lambda>u S. unit_counts u = \<lparr>pass_count = 0, fail_count = 0\<rparr> \<and> (\<forall>m1. agree A m m1 \<longrightarrow>
      (\<exists>(n, f)\<in>S. \<forall>c. \<exists>m2. test_func u c m1 = Some (plus_counts n f c, m2) \<and> agree A m1 m2))) us Ss"
    and "agree A m m1"
  shows "\<exists>us' m'. run_units md us m1 = Some (us', m') \<and> list_all2 counted us' Ss \<and> agree A m m'"
  using assms(3,4)
proof (induction us Ss arbitrary: m1 rule: list_all2_induct)
  case Nil
  then show ?case by simp
next
  case (Cons u us S Ss)
  obtain n f m2 where u: "(n, f) \<in> S" "test_func u (unit_counts u) m1 = Some (plus_counts n f (unit_counts u), m2)" "agree A m1 m2"
    using Cons.hyps(1) Cons.prems by blast
  obtain us' m' where us: "run_units md us m2 = Some (us', m')" "list_all2 counted us' Ss" "agree A m m'"
    using Cons.IH agree_trans [OF Cons.prems u(3)] by blast
  moreover have "counted (u\<lparr>unit_counts := plus_counts n f (unit_counts u)\<rparr>) S"
    using u(1) Cons.hyps(1) by (auto simp: counted_def plus_counts_def)
  ultimately show ?case using u(2) by (simp add: assms(1,2) call_hook_def)
qed

lemma string_units_counted:
  assumes "layouts_ok L m"
  shows "\<exists>us m'. run_units (string_module name nm L) (tests (string_module name nm L)) m = Some (us, m') \<and>
    list_all2 counted us string_counts \<and> agree (layouts_area L) m m'"
proof (rule run_units_counted [OF _ _ _ agree_refl])
  let ?u = "\<lambda>i. \<lparr>unit_name = nm i, unit_counts = \<lparr>pass_count = 0, fail_count = 0\<rparr>, test_func = string_tests (L i) ! i\<rparr>"
  have len: "length string_counts = 16" "length (string_tests l) = 16" for l by (simp_all add: string_counts_def string_tests_def)
  have "\<exists>(n, f)\<in>string_counts ! i. \<forall>c. \<exists>m2. (string_tests (L i) ! i) c m1 = Some (plus_counts n f c, m2) \<and> agree (layouts_area L) m1 m2"
    if "agree (layouts_area L) m m1" "i < 16" for m1 i
  proof -
    have i: "i < length (string_tests (L i))" using that(2) len(2) by simp
    note ok = layout_nth [OF layouts_ok_agree [OF assms that(1)] that(2)]
    obtain n f where "(n, f) \<in> string_counts ! i" "outcome (L i) m1 (string_tests (L i) ! i) n f"
      using list_all2_nthD [OF string_tests_outcome [OF ok(1,2)] i] by auto
    then show ?thesis unfolding outcome_def using agree_mono [OF _ ok(3)] by blast
  qed
  then show "list_all2 (\<lambda>u S. unit_counts u = \<lparr>pass_count = 0, fail_count = 0\<rparr> \<and> (\<forall>m1. agree (layouts_area L) m m1 \<longrightarrow>
      (\<exists>(n, f)\<in>S. \<forall>c. \<exists>m2. test_func u c m1 = Some (plus_counts n f c, m2) \<and> agree (layouts_area L) m1 m2)))
      (tests (string_module name nm L)) string_counts"
    unfolding string_module_def by (auto simp: list_all2_conv_all_nth len simp del: upt_rec_numeral)
qed (simp_all add: string_module_def)

text \<open>
  C38: The kernel's tests of strings and formatted output, run by name on a memory that has the literals apart from the local
  arrays: all sixteen run to the end, and change only those arrays. Each counts exactly the passes and failures listed:
  the last check of \<^verbatim>\<open>memset\<close> (it expects zeros where the test has just written 0xFF) and the first of
  \<^verbatim>\<open>int_to_hex_str\<close> (it expects eight zeros, the function writes one) fail, the second check of \<^verbatim>\<open>strncpy\<close> reads a byte that was
  never written and may fail, and every other check holds.
\<close>

theorem string_tests_counts:
  assumes "layouts_ok L m" and "cstr m name t"
  shows "\<exists>us m'. ktest_run_module id name ([string_module name nm L], m) = Some ([(string_module name nm L)\<lparr>tests := us\<rparr>], m') \<and>
    list_all2 counted us string_counts \<and> agree (layouts_area L) m m'"
proof -
  have "strcmp m name name = Some 0" using strcmp_run [OF assms(2,2)] by auto
  then have "ktest_get_module m name [string_module name nm L] = Some (Some 0)" by (simp add: ktest_get_module_def string_module_def)
  moreover have "module_pre (string_module name nm L) = Some Some" "module_post (string_module name nm L) = Some Some"
    by (simp_all add: string_module_def)
  moreover obtain us m' where "run_units (string_module name nm L) (tests (string_module name nm L)) m = Some (us, m')"
    "list_all2 counted us string_counts" "agree (layouts_area L) m m'" using string_units_counted [OF assms(1)] by blast
  ultimately show ?thesis by (intro exI [of _ us] exI [of _ m']) (simp add: ktest_run_module_def call_hook_def)
qed

text \<open>A memory with the literals one after the other, 16 bytes each, from address 0x10000, and the arrays below.\<close>

definition sample_literals :: "u8 list list" where
  "sample_literals = map chars test_literals"

definition sample_layout :: string_layout where
  "sample_layout = \<lparr>st_a = 0x1000, st_b = 0x2000, st_c = 0x3000, st_num = 0x4000, st_temp = 0x5000,
     st_lit = (\<lambda>s. 0x10000 + of_nat (16 * length (takeWhile ((\<noteq>) s) sample_literals)))\<rparr>"

definition sample_strings :: mem where
  "sample_strings a =
     (let n = unat (a - 0x10000); i = n div 16; j = n mod 16
      in if i < length sample_literals \<and> j < length (sample_literals ! i) then sample_literals ! i ! j else 0)"

lemma sample_lit:
  assumes "x \<in> set test_literals"
  shows "\<exists>i<45. sample_literals ! i = chars x \<and> lit sample_layout x = 0x10000 + of_nat (16 * i)"
proof -
  have d: "distinct sample_literals" "length sample_literals = 45" by code_simp+
  have "chars x \<in> set sample_literals" using assms by (simp add: sample_literals_def)
  then obtain i where i: "i < 45" "sample_literals ! i = chars x" using d(2) by (metis in_set_conv_nth)
  then have "takeWhile ((\<noteq>) (chars x)) sample_literals = take i sample_literals"
    using d nth_eq_iff_index_eq [of sample_literals] by (intro takeWhile_eq_take_P_nth) auto
  then show ?thesis using i d(2) by (auto simp: lit_def sample_layout_def)
qed

lemma sample_cstr:
  assumes "x \<in> set test_literals"
  shows "cstr sample_strings (lit sample_layout x) (chars x)"
proof -
  obtain i where i: "i < 45" "sample_literals ! i = chars x" "lit sample_layout x = 0x10000 + of_nat (16 * i)" using sample_lit [OF assms] by blast
  have l: "length sample_literals = 45" by code_simp
  note b = literal_bytes [OF assms]
  have "sample_strings (lit sample_layout x + of_nat j) = (if j < length (chars x) then chars x ! j else 0)" if "j < 16" for j
  proof -
    have "(of_nat (16 * i) + of_nat j :: u32) = of_nat (16 * i + j)" by simp
    moreover have "unat (of_nat (16 * i + j) :: u32) = 16 * i + j" using i(1) that by (subst unat_of_nat) simp
    ultimately have "unat (lit sample_layout x + of_nat j - 0x10000) = 16 * i + j" using i(3) by (simp only: add_diff_cancel_left' add.assoc)
    then show ?thesis using i(1,2) l that by (simp add: sample_strings_def Let_def)
  qed
  then show ?thesis using b by (auto simp: cstr_def dest: nth_mem)
qed

lemma region_span_of: "unat p + n \<le> 2 ^ 32 \<Longrightarrow> a \<in> region p n \<Longrightarrow> unat p \<le> unat a \<and> unat a < unat p + n"
proof -
  assume "unat p + n \<le> 2 ^ 32" "a \<in> region p n"
  then have n: "unat p + unat (a - p) < 2 ^ 32" "unat (a - p) < n" by (simp_all add: region_def)
  have "unat (p + (a - p)) = unat p + unat (a - p)" using n(1) by (subst unat_plus_if') simp
  then show ?thesis using n(2) by simp
qed

lemma region_disjoint: "unat p + n \<le> unat q \<Longrightarrow> unat q + k \<le> 2 ^ 32 \<Longrightarrow> region q k \<inter> region p n = {} \<and> region p n \<inter> region q k = {}"
  using region_apart [of p n q k] by (simp add: Int_commute)

lemma sample_layout_area: "a \<in> st_area sample_layout \<Longrightarrow> unat a < 0x10000"
  using region_span_of [of "0x1000" 128 a] region_span_of [of "0x2000" 128 a] region_span_of [of "0x3000" 16 a]
    region_span_of [of "0x4000" 32 a] region_span_of [of "0x5000" 9 a] by (auto simp: st_area_def scratch_def sample_layout_def)

lemma sample_apart: "st_apart sample_layout"
  using region_disjoint [of "0x1000" 128 "0x2000" 128] region_disjoint [of "0x1000" 128 "0x4000" 32] region_disjoint [of "0x1000" 128 "0x5000" 9]
    region_disjoint [of "0x4000" 32 "0x5000" 9] region_disjoint [of "0x1000" 128 "0x3000" 16] region_disjoint [of "0x2000" 128 "0x3000" 16]
  by (simp add: st_apart_def scratch_def sample_layout_def Int_Un_distrib)

lemma sample_layouts_ok: "layouts_ok (\<lambda>_. sample_layout) sample_strings"
proof -
  have "region (lit sample_layout x) (Suc (length (chars x))) \<inter> st_area sample_layout = {}" if "x \<in> set test_literals" for x
  proof -
    obtain i where i: "i < 45" "lit sample_layout x = 0x10000 + of_nat (16 * i)" using sample_lit [of x] \<open>x \<in> set test_literals\<close> by blast
    then have "unat (lit sample_layout x) = 0x10000 + 16 * i" by (simp add: unat_word_ariths unat_of_nat)
    then show ?thesis using region_span_of [of "lit sample_layout x" "Suc (length (chars x))"] literal_bytes [OF that] sample_layout_area i(1) by fastforce
  qed
  then show ?thesis using sample_apart sample_cstr by (simp add: layouts_ok_def layouts_area_def)
qed

text \<open>The module under the name \<^verbatim>\<open>Test\<close>, one of the literals.\<close>

theorem string_tests_counts_witness:
  "\<exists>us m'. ktest_run_module id (lit sample_layout ''Test'') ([string_module (lit sample_layout ''Test'') of_nat (\<lambda>_. sample_layout)], sample_strings) =
      Some ([(string_module (lit sample_layout ''Test'') of_nat (\<lambda>_. sample_layout))\<lparr>tests := us\<rparr>], m') \<and>
    list_all2 counted us string_counts \<and> agree (layouts_area (\<lambda>_. sample_layout)) sample_strings m'"
  by (rule string_tests_counts [OF sample_layouts_ok sample_cstr]) (simp add: test_literals_def)

end
