(* ===== verification/Vm_Tests.thy ===== *)
theory Vm_Tests
  imports Vm Ktest
begin

text \<open>
  The kernel's own unit tests of address spaces, \<^verbatim>\<open>test/vm.c\<close>. Five of the six are empty. The sixth creates a space and
  reads its directory without a look at what \<^verbatim>\<open>vm_space_new\<close> returned, so it has no defined result when that was NULL.
\<close>

section \<open>The tests\<close>

definition vm_test_space_new :: "u32 \<Rightarrow> ktest_counts \<Rightarrow> vm_state \<Rightarrow> (ktest_counts \<times> vm_state) option" where
  "vm_test_space_new kpgd c s = do {
     (space, s1) \<leftarrow> vm_space_new kpgd s;
     let c1 = assert_not_equal_ptr space 0 c;
     (if space = 0 then None else Some (assert_not_equal_ptr (sp_pgd (spaces s1 space)) 0 c1, s1))
   }"

definition vm_test_empty :: "ktest_counts \<Rightarrow> vm_state \<Rightarrow> (ktest_counts \<times> vm_state) option" where
  "vm_test_empty c s = Some (c, s)"

definition vm_tests :: "u32 \<Rightarrow> (ktest_counts \<Rightarrow> vm_state \<Rightarrow> (ktest_counts \<times> vm_state) option) list" where
  "vm_tests kpgd = [vm_test_space_new kpgd, vm_test_empty, vm_test_empty, vm_test_empty, vm_test_empty, vm_test_empty]"

definition vm_unit :: "u32 \<Rightarrow> (ktest_counts \<Rightarrow> vm_state \<Rightarrow> (ktest_counts \<times> vm_state) option) \<Rightarrow> vm_state ktest_unit" where
  "vm_unit n f = \<lparr>unit_name = n, unit_counts = \<lparr>pass_count = 0, fail_count = 0\<rparr>, test_func = f\<rparr>"

definition vm_module :: "u32 \<Rightarrow> (nat \<Rightarrow> u32) \<Rightarrow> u32 \<Rightarrow> vm_state ktest_module" where
  "vm_module name nm kpgd =
     \<lparr>mod_name = name, module_pre = Some Some, module_post = Some Some, test_pre = Some Some, test_post = Some Some,
      tests = map (\<lambda>i. vm_unit (nm i) (vm_tests kpgd ! i)) [0, 1, 2, 3, 4, 5]\<rparr>"

section \<open>What they find\<close>

lemma directory_zero:
  assumes "frames_ok A fl fr" "(d, 0) \<in> A"
  shows "VIR_TO_PHY (slab_base d) = 0 \<longleftrightarrow> d = 0"
proof -
  have "slab_base d = slab_base 0 \<longleftrightarrow> d = 0" using frames_ok_page [OF assms] by (intro slab_base_inject) simp_all
  moreover have "VIR_TO_PHY (slab_base d) = 0 \<longleftrightarrow> slab_base d = slab_base 0" by (simp add: slab_base_def rotary_macro algebra_simps)
  ultimately show ?thesis by simp
qed

text \<open>
  The outcome of the module on a heap in order: it has no result exactly if the space cannot be created, and otherwise the
  space passes both checks, unless its directory is page 0, which the second check takes for a missing one.
\<close>

lemma vm_tests_outcomes:
  assumes "kmalloc_ok H F S (heap s)" and "kernel_directory (valid_pages (pages (kmem (heap s)))) k (vm_words s)" and "cstr m name t"
  shows "case vm_space_new (slab_base k) s of
      None \<Rightarrow> ktest_run_module (\<lambda>_. m) name ([vm_module name nm (slab_base k)], s) = None
    | Some (r, s') \<Rightarrow>
        if r = 0 then ktest_run_module (\<lambda>_. m) name ([vm_module name nm (slab_base k)], s) = None
        else \<exists>us A fl d. ktest_run_module (\<lambda>_. m) name ([vm_module name nm (slab_base k)], s) =
            Some ([(vm_module name nm (slab_base k))\<lparr>tests := us\<rparr>], s') \<and>
          frames_ok A fl (pages (kmem (heap s'))) \<and> space_ok A d r [] s' \<and>
          map (\<lambda>u. pass_count (unit_counts u)) us = [if d = 0 then 1 else 2, 0, 0, 0, 0, 0] \<and>
          map (\<lambda>u. fail_count (unit_counts u)) us = [if d = 0 then 1 else 0, 0, 0, 0, 0, 0]"
proof -
  let ?md = "vm_module name nm (slab_base k)"
  have "strcmp m name name = Some 0" using strcmp_run [OF assms(3,3)] by auto
  then have run: "ktest_run_module (\<lambda>_. m) name ([?md], s) =
      map_option (\<lambda>(us, s'). ([?md\<lparr>tests := us\<rparr>], s')) (run_units ?md (tests ?md) s)"
    by (auto simp: ktest_run_module_def ktest_get_module_def vm_module_def call_hook_def split: option.splits bind_splits)
  have units: "run_units ?md (tests ?md) s = map_option (\<lambda>(c, s'). (vm_unit (nm 0) (vm_test_space_new (slab_base k))\<lparr>unit_counts := c\<rparr> #
      map (\<lambda>i. vm_unit (nm i) vm_test_empty) [1, 2, 3, 4, 5], s')) (vm_test_space_new (slab_base k) \<lparr>pass_count = 0, fail_count = 0\<rparr> s)"
    by (auto simp: vm_module_def vm_unit_def vm_tests_def vm_test_empty_def call_hook_def split: bind_splits)
  show ?thesis
  proof (cases "vm_space_new (slab_base k) s")
    case None
    then show ?thesis by (simp add: run units vm_test_space_new_def)
  next
    case (Some x)
    then obtain r s' where new: "vm_space_new (slab_base k) s = Some (r, s')" by (cases x) simp
    show ?thesis
    proof (cases "r = 0")
      case True
      then show ?thesis by (simp add: run units new vm_test_space_new_def)
    next
      case False
      obtain A fl d where sp: "frames_ok A fl (pages (kmem (heap s')))" "space_ok A d r [] s'"
        using vm_space_new_outcomes [OF assms(1,2)] False by (auto simp: new)
      then have "sp_pgd (spaces s' r) = 0 \<longleftrightarrow> d = 0" using directory_zero [of A fl _ d] by (auto simp: space_ok_def directory_ok_def)
      then show ?thesis using False sp unfolding new option.case prod.case if_not_P [OF False]
        by (intro exI conjI) (auto simp: run units new vm_test_space_new_def assert_not_equal_ptr_def ktest_pass_def ktest_fail_def vm_unit_def)
    qed
  qed
qed

end
