(* ===== verification/Vm_Space.thy ===== *)
theory Vm_Space
  imports Vm Object_Heap
begin

text \<open>
  Address spaces with the whole of the page allocator in view: \<^verbatim>\<open>vm_space_new\<close> and \<^verbatim>\<open>vm_space_destroy\<close> of
  \<^verbatim>\<open>kernel/mm/vm.c\<close> and \<^verbatim>\<open>ptable_pgd_free\<close> of \<^verbatim>\<open>arch/x86/kernel/ptable.c\<close>, which take and give back exactly the pages they
  should. \<open>frames_held B S p\<close> says that the heap holds the slabs \<open>S\<close> and everyone else exactly the blocks \<open>B\<close>.
\<close>

section \<open>Taking and giving back blocks\<close>

lemma frames_held_alloc:
  assumes "frames_held B S p" and "page_alloc ord fg p = Some (Some t, p')"
  shows "frames_held (insert (t, unat ord) B) S p'" and "(t, unat ord) \<notin> B" and "span (t, unat ord) \<subseteq> valid_pages p"
    and "span (t, unat ord) \<inter> cover B = {}" and "valid_pages p' = valid_pages p" and "t + 2 ^ unat ord \<le> n_pages p'" and "n_pages p' < 2 ^ 18"
    and "PAGE_VA (page_area p' ! t) = slab_base t"
proof -
  have h: "frames_exact (B \<union> slab_blocks S) p" "B \<inter> slab_blocks S = {}" "S \<subseteq> slab_base ` {..<2 ^ 18}" using assms(1) by (auto simp: frames_held_def)
  note al = frames_exact_alloc [OF h(1) assms(2)]
  show "frames_held (insert (t, unat ord) B) S p'" using al(1,2) h(2,3) by (auto simp: frames_held_def)
  show "(t, unat ord) \<notin> B" using al(2) by simp
  show "span (t, unat ord) \<subseteq> valid_pages p" "valid_pages p' = valid_pages p" "t + 2 ^ unat ord \<le> n_pages p'" using al by simp_all
  show "span (t, unat ord) \<inter> cover B = {}" using al(3) by (auto simp: cover_def)
  obtain fl where fl: "buddy_ok (insert (t, unat ord) (B \<union> slab_blocks S)) fl p'" "n_pages p' < 2 ^ 18" by (rule frames_exactD [OF al(1)])
  then show "n_pages p' < 2 ^ 18" by simp
  have "t < n_pages p'" using frames_exact_page [OF al(1)] by blast
  then show "PAGE_VA (page_area p' ! t) = slab_base t"
    using fl(1) by (simp add: slab_base_def PAGE_VA_def PAGE_PA_def buddy_ok_def buddy_rep_def)
qed

lemma frames_held_page: "frames_held B S p \<Longrightarrow> (t, k) \<in> B \<Longrightarrow> t < 2 ^ 18 \<and> t \<in> valid_pages p"
  using frames_exact_page [of "B \<union> slab_blocks S" p t k] by (auto simp: frames_held_def)

lemma frames_held_free:
  assumes "frames_held B S p" and "no_kernel_pages img p" and "(b, k) \<in> B"
  shows "\<exists>p'. page_free img (Some b) (of_nat k) p = Some (E_SUCCESS, p') \<and> frames_held (B - {(b, k)}) S p' \<and>
    no_kernel_pages img p' \<and> valid_pages p' = valid_pages p"
proof -
  have h: "frames_exact (B \<union> slab_blocks S) p" "B \<inter> slab_blocks S = {}" "S \<subseteq> slab_base ` {..<2 ^ 18}" using assms(1) by (auto simp: frames_held_def)
  have "\<not> critical_page img b" using assms(2) frames_held_page [OF assms(1,3)] by (simp add: no_kernel_pages_def)
  from frames_exact_free [OF h(1) _ this, of k] assms(3) obtain p' where
    p': "page_free img (Some b) (of_nat k) p = Some (E_SUCCESS, p')" "frames_exact (B \<union> slab_blocks S - {(b, k)}) p'"
    "valid_pages p' = valid_pages p" by auto
  have "B \<union> slab_blocks S - {(b, k)} = (B - {(b, k)}) \<union> slab_blocks S" using assms(3) h(2) by auto
  then have "frames_held (B - {(b, k)}) S p'" using p'(2) h(2,3) by (auto simp: frames_held_def)
  then show ?thesis using p' assms(2) by (auto simp: no_kernel_pages_def)
qed

text \<open>The number of the page at an address.\<close>

definition page_of :: "u32 \<Rightarrow> nat" where
  "page_of va = page_from_pfn (VA_TO_PFN va)"

lemma page_of_slab_base: "t < 2 ^ 18 \<Longrightarrow> page_of (slab_base t) = t"
proof -
  assume t: "t < 2 ^ 18"
  have "VIR_TO_PHY (slab_base t) = PFN_TO_PA (of_nat t)" by (simp add: slab_base_def rotary_macro)
  then show ?thesis using unat_frame_addr [OF t] by (simp add: page_of_def page_from_pfn_def VA_TO_PFN_def PA_TO_PFN_def drop_bit_eq_div unat_div)
qed

lemma page_free_va_page: "page_free_va img va ord p = page_free img (Some (page_of va)) ord p"
  by (simp add: page_free_va_def page_of_def)

lemma free_pages_held:
  assumes "frames_held B S p" and "no_kernel_pages img p" and "distinct (map page_of vas)" and "\<forall>va\<in>set vas. (page_of va, 0) \<in> B"
  shows "\<exists>p'. free_pages img vas p = Some p' \<and> frames_held (B - (\<lambda>va. (page_of va, 0)) ` set vas) S p' \<and>
    no_kernel_pages img p' \<and> valid_pages p' = valid_pages p"
  using assms
proof (induction vas arbitrary: B p)
  case Nil
  then show ?case by simp
next
  case (Cons va vas)
  have "(page_of va, 0) \<in> B" using Cons.prems(4) by simp
  from frames_held_free [OF Cons.prems(1,2) this] obtain p1 where
    p1: "page_free img (Some (page_of va)) 0 p = Some (E_SUCCESS, p1)" "frames_held (B - {(page_of va, 0)}) S p1" "no_kernel_pages img p1"
    "valid_pages p1 = valid_pages p" by auto
  have "\<forall>v\<in>set vas. (page_of v, 0) \<in> B - {(page_of va, 0)}" using Cons.prems(3,4) by (auto simp: rev_image_eqI)
  from Cons.IH [OF p1(2,3) _ this] Cons.prems(3) obtain p' where
    p': "free_pages img vas p1 = Some p'" "frames_held (B - {(page_of va, 0)} - (\<lambda>va. (page_of va, 0)) ` set vas) S p'"
    "no_kernel_pages img p'" "valid_pages p' = valid_pages p1" by auto
  have "B - {(page_of va, 0)} - (\<lambda>va. (page_of va, 0)) ` set vas = B - (\<lambda>va. (page_of va, 0)) ` set (va # vas)" by auto
  with p1 p' show ?case by (simp add: page_free_va_page)
qed

section \<open>The pages of an address space\<close>

text \<open>
  The addresses of the pages \<^verbatim>\<open>ptable_pgd_free\<close> gives back, in its order: for each present entry of the user half
  the pages its table maps and the page of the table, and the directory last.
\<close>

definition entry_pages :: "(u32 \<Rightarrow> u32) \<Rightarrow> u32 \<Rightarrow> u32 list" where
  "entry_pages w pde =
     (if \<not> PDE_EXISTS pde then []
      else (if PDE_IS_HUGE pde then [] else table_pages w (PDE_TO_PGT pde)) @ [PDE_VA pde])"

definition space_pages :: "(u32 \<Rightarrow> u32) \<Rightarrow> u32 \<Rightarrow> u32 list" where
  "space_pages w pgd = concat (map (\<lambda>i. entry_pages w (w (pgd + 4 * of_nat i))) [0..<768]) @ [pgd]"

lemma free_pages_append: "free_pages img (xs @ ys) p = Option.bind (free_pages img xs p) (free_pages img ys)"
  by (induction xs arbitrary: p) (simp_all add: case_prod_beta split: Option.bind_splits)

lemma free_tables_pages: "free_tables img w es p = free_pages img (concat (map (entry_pages w) es)) p"
proof (induction es arbitrary: p)
  case Nil
  then show ?case by simp
next
  case (Cons e es)
  then show ?case by (auto simp: entry_pages_def free_pages_append case_prod_beta split: Option.bind_splits)
qed

lemma ptable_pgd_free_pages:
  "ptable_pgd_free img pgd s = map_option (\<lambda>fr. s\<lparr>frames := fr\<rparr>) (free_pages img (space_pages (words s) pgd) (frames s))"
proof -
  have "unat (PAGE_DIRECTORY_INDEX KERNEL_START_VIRT) = 768" by (simp add: rotary_macro rotary_const)
  then show ?thesis
    by (simp add: ptable_pgd_free_def free_tables_pages space_pages_def free_pages_append o_def case_prod_beta map_option_case
        split: Option.bind_splits option.splits)
qed

section \<open>Destruction\<close>

lemma kfree_pages: "kfree r h = Some (c, h') \<Longrightarrow> pages (kmem h') = pages (kmem h)"
proof -
  have free: "pages m' = pages m" if "slab_free ch r m = Some (c, m')" for ch m m' and c :: i32
    using that by (auto simp: slab_free_def upd_header_def Let_def elim!: bind_eq_SomeE split: if_splits prod.splits)
  have "pages (kmem h') = pages (kmem h)" if "kfree_loop is r h = Some (c, h')" for "is"
    using that by (induction "is") (auto elim!: bind_eq_SomeE split: if_splits dest!: free)
  then show "kfree r h = Some (c, h') \<Longrightarrow> ?thesis" by (auto simp: kfree_def)
qed

lemma kfree_held:
  assumes "kmalloc_ok H F S h" and "frames_held B S (pages (kmem h))" and "(r, n) \<in> allocations H F h"
  shows "\<exists>h' F'. kfree r h = Some (E_SUCCESS, h') \<and> kmalloc_ok H F' S h' \<and> allocations H F' h' = allocations H F h - {(r, n)} \<and>
    pages (kmem h') = pages (kmem h)"
  using kfree_allocation [OF assms(1,3)] kfree_pages by metis

definition space_blocks :: "vm_state \<Rightarrow> u32 \<Rightarrow> block list" where
  "space_blocks s v = map (\<lambda>va. (page_of va, 0)) (space_pages (vm_words s) (PHY_TO_VIR (sp_pgd (spaces s v))))"

lemma vm_space_destroy_held:
  assumes ok: "kmalloc_ok H F S (heap s)" and held: "frames_held B S (pages (kmem (heap s)))" and img: "no_kernel_pages img (pages (kmem (heap s)))"
    and v: "v \<noteq> 0" "(v, 16) \<in> allocations H F (heap s)" and bl: "distinct (space_blocks s v)" "set (space_blocks s v) \<subseteq> B"
  shows "\<exists>h F'. vm_space_destroy img v s = Some (s\<lparr>heap := h\<rparr>) \<and> kmalloc_ok H F' S h \<and>
    allocations H F' h = allocations H F (heap s) - {(v, 16)} \<and> frames_held (B - set (space_blocks s v)) S (pages (kmem h)) \<and>
    no_kernel_pages img (pages (kmem h)) \<and> valid_pages (pages (kmem h)) = valid_pages (pages (kmem (heap s)))"
proof -
  let ?ps = "space_pages (vm_words s) (PHY_TO_VIR (sp_pgd (spaces s v)))"
  have "distinct (map page_of ?ps)" using bl(1) by (simp add: space_blocks_def distinct_map inj_on_def)
  moreover have "\<forall>va\<in>set ?ps. (page_of va, 0) \<in> B" using bl(2) by (auto simp: space_blocks_def)
  ultimately obtain p where p: "free_pages img ?ps (pages (kmem (heap s))) = Some p" "frames_held (B - set (space_blocks s v)) S p"
    "no_kernel_pages img p" "valid_pages p = valid_pages (pages (kmem (heap s)))"
    using free_pages_held [OF held img, of ?ps] by (auto simp: space_blocks_def)
  let ?h = "set_frames p (heap s)"
  have ok': "kmalloc_ok H F S ?h" by (rule kmalloc_ok_set_frames [OF ok frames_held_owns [OF p(2)]])
  have hp: "pages (kmem ?h) = p" by (simp add: set_frames_def)
  obtain h F' where h: "kfree v ?h = Some (E_SUCCESS, h)" "kmalloc_ok H F' S h" "allocations H F' h = allocations H F ?h - {(v, 16)}"
    "pages (kmem h) = p" using kfree_held [OF ok', of _ v 16] p(2) v(2) hp by (metis allocations_set_frames)
  have "ptable_pgd_free img (PHY_TO_VIR (sp_pgd (spaces s v))) (vm_ptable s) = Some ((vm_ptable s)\<lparr>frames := p\<rparr>)"
    using p(1) by (simp add: ptable_pgd_free_pages vm_ptable_def)
  moreover have "put_ptable ((vm_ptable s)\<lparr>frames := p\<rparr>) s = s\<lparr>heap := ?h\<rparr>" by (simp add: put_ptable_def vm_ptable_def)
  ultimately have "vm_space_destroy img v s = Some (s\<lparr>heap := h\<rparr>)" using v(1) h(1) by (simp add: vm_space_destroy_def)
  then show ?thesis using h(2-4) p(2-4) by (intro exI [of _ h] exI [of _ F']) (simp add: allocations_set_frames)
qed

section \<open>Creation\<close>

lemma alloc_frame_held:
  assumes "frames_held B S (frames s)"
  shows "(alloc_frame s = None \<and> page_alloc 0 PR_KERNEL (frames s) = Some (None, frames s)) \<or>
    (\<exists>t pg s'. alloc_frame s = Some (pg, s') \<and> PAGE_VA pg = slab_base t \<and> s' = s\<lparr>frames := frames s'\<rparr> \<and>
       frames_held (insert (t, 0) B) S (frames s') \<and> (t, 0) \<notin> B \<and> t < 2 ^ 18 \<and> t \<in> valid_pages (frames s) \<and> t \<notin> cover B \<and>
       valid_pages (frames s') = valid_pages (frames s))"
proof -
  obtain A fl where ok: "buddy_ok A fl (frames s)" using frames_held_owns [OF assms] by (auto simp: palloc_owns_def)
  have "\<exists>r p. page_alloc 0 PR_KERNEL (frames s) = Some (r, p)"
  proof (cases "take_block (unat (0 :: u32)) fl")
    case None
    then show ?thesis using page_alloc_none [OF ok _ None] by simp
  next
    case (Some x)
    then obtain t fl' where t: "take_block (unat (0 :: u32)) fl = Some (t, fl')" by (cases x) simp
    have "(0 :: u32) \<le> 6" by simp
    then obtain p where "page_alloc 0 PR_KERNEL (frames s) = Some (Some t, p)" by (rule page_alloc_some [OF ok _ t]) blast
    then show ?thesis by blast
  qed
  then obtain r p where run: "page_alloc 0 PR_KERNEL (frames s) = Some (r, p)" by blast
  show ?thesis
  proof (cases r)
    case None
    have "p = frames s" by (rule page_alloc_noneD(1) [OF ok run [unfolded None]])
    with run None show ?thesis by (simp add: alloc_frame_def)
  next
    case (Some t)
    note al = frames_held_alloc [OF assms run [unfolded Some], unfolded unat_0]
    have "t < n_pages p" "t < 2 ^ 18" using al(6,7) by simp_all
    moreover have "t \<in> span (t, 0)" by simp
    then have "t \<in> valid_pages (frames s)" "t \<notin> cover B" using al(3,4) by blast+
    ultimately show ?thesis using run Some al
      by (intro disjI2 exI [of _ t] exI [of _ "page_area p ! t"] exI [of _ "s\<lparr>frames := p\<rparr>"]) (simp add: alloc_frame_def page_at_def)
  qed
qed

lemma ptable_pgd_new_held:
  assumes held: "frames_held B S (frames s)" and k: "k < 2 ^ 18" "k \<notin> valid_pages (frames s)"
  shows "(ptable_pgd_new (slab_base k) s = None \<and> page_alloc 0 PR_KERNEL (frames s) = Some (None, frames s)) \<or>
    (\<exists>d s'. ptable_pgd_new (slab_base k) s = Some (slab_base d, s') \<and> invalidated s' = invalidated s \<and>
       frames_held (insert (d, 0) B) S (frames s') \<and> (d, 0) \<notin> B \<and> d < 2 ^ 18 \<and> d \<in> valid_pages (frames s) \<and> d \<notin> cover B \<and>
       valid_pages (frames s') = valid_pages (frames s) \<and>
       (\<forall>i<1024. words s' (cell d i) = words s (cell k i)) \<and> (\<forall>a. (\<forall>i<1024. a \<noteq> cell d i) \<longrightarrow> words s' a = words s a))"
  using alloc_frame_held [OF held]
proof (elim disjE exE conjE)
  fix d pg s1
  assume a: "alloc_frame s = Some (pg, s1)" "PAGE_VA pg = slab_base d" "s1 = s\<lparr>frames := frames s1\<rparr>"
    "frames_held (insert (d, 0) B) S (frames s1)" "(d, 0) \<notin> B" "d < 2 ^ 18" "d \<in> valid_pages (frames s)" "d \<notin> cover B"
    "valid_pages (frames s1) = valid_pages (frames s)"
  have w: "words s1 = words s" "invalidated s1 = invalidated s" by (subst a(3), simp)+
  let ?w = "copy_page (slab_base d) (slab_base k) (clear_page (slab_base d) (words s))"
  have kd: "d \<noteq> k" using a(7) k(2) by blast
  have "unat (slab_base d) \<noteq> 0" using unat_slab_base [OF a(6)] by simp
  then have "slab_base d \<noteq> 0" by auto
  then have run: "ptable_pgd_new (slab_base k) s = Some (slab_base d, s1\<lparr>words := ?w\<rparr>)"
    using a(1,2) w(1) by (simp add: ptable_pgd_new_def page_alloc_va_def)
  have apart: "cell d i \<noteq> slab_base k + 4 * of_nat j" if "i < 1024" "j < 1024" for i j
    using cell_inject [OF a(6) k(1) that] kd unfolding cell_def by blast
  have "?w (cell d i) = words s (cell k i)" if "i < 1024" for i
    using copy_page_cell [OF a(6) apart that] clear_page_cell [OF a(6) k(1) that] kd by (simp add: cell_def)
  moreover have "?w a = words s a" if "\<forall>i<1024. a \<noteq> cell d i" for a using that by (simp add: copy_page_other clear_page_other)
  ultimately show ?thesis using run a w(2) by (intro disjI2 exI [of _ d] exI [of _ "s1\<lparr>words := ?w\<rparr>"]) simp
qed (auto simp: ptable_pgd_new_def page_alloc_va_def)

text \<open>Every outcome of \<^verbatim>\<open>vm_space_new\<close>: NULL and no change; a new struct with a page for its directory, which is a copy of the kernel's; undefined.\<close>

lemma vm_space_new_held:
  assumes ok: "kmalloc_ok H F S (heap s)" and held: "frames_held B S (pages (kmem (heap s)))"
    and k: "k < 2 ^ 18" "k \<notin> valid_pages (pages (kmem (heap s)))"
  shows "vm_space_new (slab_base k) s = Some (0, s) \<or>
    (vm_space_new (slab_base k) s = None \<and> (\<exists>v h. kmalloc SIZEOF_VM_SPACE (heap s) = Some (v, h) \<and> v \<noteq> 0 \<and>
       page_alloc 0 PR_KERNEL (pages (kmem h)) = Some (None, pages (kmem h)))) \<or>
    (\<exists>v s' H' F' S' d. vm_space_new (slab_base k) s = Some (v, s') \<and> v \<noteq> 0 \<and> kmalloc_ok H' F' S' (heap s') \<and>
       frames_held (insert (d, 0) B) S' (pages (kmem (heap s'))) \<and> (d, 0) \<notin> B \<and> d < 2 ^ 18 \<and> d \<notin> cover B \<and>
       allocations H' F' (heap s') = insert (v, 16) (allocations H F (heap s)) \<and> (v, 16) \<notin> allocations H F (heap s) \<and>
       valid_pages (pages (kmem (heap s'))) = valid_pages (pages (kmem (heap s))) \<and> sp_pgd (spaces s' v) = VIR_TO_PHY (slab_base d) \<and>
       (\<forall>i<1024. vm_words s' (cell d i) = vm_words s (cell k i)) \<and> (\<forall>a. (\<forall>i<1024. a \<noteq> cell d i) \<longrightarrow> vm_words s' a = vm_words s a) \<and>
       (\<forall>x. x \<noteq> v \<longrightarrow> spaces s' x = spaces s x))"
proof -
  have "unat SIZEOF_VM_SPACE \<le> 32768" by (simp add: SIZEOF_VM_SPACE_def)
  from kmalloc_held [OF ok this held] show ?thesis
    unfolding cache_of_16
  proof (elim exE conjE disjE)
    assume "kmalloc SIZEOF_VM_SPACE (heap s) = Some (0, heap s)"
    then show ?thesis by (simp add: vm_space_new_def)
  next
    fix i v h H' F' S'
    assume i: "Some (1 :: nat) = Some i" and km: "kmalloc SIZEOF_VM_SPACE (heap s) = Some (v, h)" "v \<noteq> 0"
      and ok': "kmalloc_ok H' F' S' h" and held': "frames_held B S' (pages (kmem h))"
      and al: "allocations H' F' h = insert (v, 2 ^ (i + 3)) (allocations H F (heap s))" "(v, 2 ^ (i + 3)) \<notin> allocations H F (heap s)"
    have sz: "(2 :: nat) ^ (i + 3) = 16" using i by auto
    have vp: "valid_pages (pages (kmem h)) = valid_pages (pages (kmem (heap s)))"
      using kmalloc_valid_pages [OF _ km(1)] ok by (auto simp: kmalloc_ok_def)
    let ?s = "s\<lparr>heap := h, vnodes := llist_init (Some (Mappings v)) (vnodes s)\<rparr>"
    have fr: "frames (vm_ptable ?s) = pages (kmem h)" "words (vm_ptable ?s) = vm_words s" by (simp_all add: vm_ptable_def)
    from ptable_pgd_new_held [of B S' "vm_ptable ?s" k, unfolded fr, OF held' k(1) k(2) [folded vp]] show ?thesis
    proof (elim disjE exE conjE)
      assume "ptable_pgd_new (slab_base k) (vm_ptable ?s) = None" "page_alloc 0 PR_KERNEL (pages (kmem h)) = Some (None, pages (kmem h))"
      then show ?thesis using km by (simp add: vm_space_new_def)
    next
      fix d p
      assume p: "ptable_pgd_new (slab_base k) (vm_ptable ?s) = Some (slab_base d, p)" "frames_held (insert (d, 0) B) S' (frames p)"
        "(d, 0) \<notin> B" "d < 2 ^ 18" "d \<notin> cover B" "valid_pages (frames p) = valid_pages (pages (kmem h))"
        "\<forall>i<1024. words p (cell d i) = vm_words s (cell k i)" "\<forall>a. (\<forall>i<1024. a \<noteq> cell d i) \<longrightarrow> words p a = vm_words s a"
      let ?s1 = "put_ptable p ?s"
      let ?s2 = "?s1\<lparr>spaces := (spaces ?s1)(v := (spaces ?s1 v)\<lparr>sp_pgd := VIR_TO_PHY (slab_base d)\<rparr>)\<rparr>"
      have run: "vm_space_new (slab_base k) s = Some (v, ?s2)" using km p(1) by (simp add: vm_space_new_def Let_def)
      have "kmalloc_ok H' F' S' (heap ?s2)"
        using kmalloc_ok_set_frames [OF ok' frames_held_owns [OF p(2)]] by (simp add: put_ptable_def)
      moreover have "pages (kmem (heap ?s2)) = frames p" by (simp add: put_ptable_def set_frames_def)
      moreover have "allocations H' F' (heap ?s2) = insert (v, 16) (allocations H F (heap s))"
        using al(1) by (simp add: put_ptable_def allocations_set_frames sz)
      ultimately show ?thesis using run km(2) p(2-8) al(2) vp unfolding sz
        by (intro disjI2 exI [of _ v] exI [of _ ?s2] exI [of _ H'] exI [of _ F'] exI [of _ S'] exI [of _ d]) (simp add: put_ptable_def)
    qed
  qed
qed

end
