(* ===== verification/Task_Create.thy ===== *)
theory Task_Create
  imports Task_Props Vm_Space
begin

text \<open>
  Creation of tasks, \<^verbatim>\<open>task_create\<close> of \<^verbatim>\<open>kernel/sched/task.c\<close>, on every outcome: the struct, the kernel stack and the
  address space come from three allocators in turn, and each failure undoes what was done before it. The blocks
  of the page allocator are followed exactly (\<open>frames_held\<close>), so that nothing is lost on the way.
\<close>

section \<open>The struct\<close>

lemma kmalloc_ok_owns: "kmalloc_ok H F S h \<Longrightarrow> palloc_owns S (pages (kmem h))"
  by (simp add: kmalloc_ok_def)

lemma cache_of_task: "find (\<lambda>i. unat SIZEOF_TASK \<le> 2 ^ (i + 3)) [0..<13] = Some 4"
  by (simp add: SIZEOF_TASK_def find_Some_iff) (rule exI [of _ 4], auto simp: less_Suc_eq numeral_eq_Suc)

lemma kmalloc_task:
  assumes "kmalloc_ok H F S h" and "frames_held B S (pages (kmem h))"
  shows "kmalloc SIZEOF_TASK h = Some (0, h) \<or>
    (\<exists>r h' H' F' S'. kmalloc SIZEOF_TASK h = Some (r, h') \<and> r \<noteq> 0 \<and> kmalloc_ok H' F' S' h' \<and> frames_held B S' (pages (kmem h')) \<and>
       allocations H' F' h' = insert (r, 128) (allocations H F h) \<and> (r, 128) \<notin> allocations H F h)"
proof -
  have sz: "unat SIZEOF_TASK \<le> 32768" by (simp add: rotary_const)
  from kmalloc_held [OF assms(1) sz assms(2)] show ?thesis by (auto simp: cache_of_task)
qed

lemma kfree_null:
  assumes "kmalloc_ok H F S h"
  shows "kfree 0 h = Some (E_ERROR, h)"
proof -
  obtain A fl where own: "buddy_ok A fl (pages (kmem h))" "n_pages (pages (kmem h)) < 2 ^ 18" "\<forall>x\<in>S. \<exists>t. (t, 4) \<in> A \<and> x = slab_base t"
    using kmalloc_ok_owns [OF assms] unfolding palloc_owns_def by blast
  have "unat (0 :: u32) \<notin> slab_bytes x" if xS: "x \<in> S" for x
  proof -
    obtain t where t: "(t, 4) \<in> A" "x = slab_base t" using own(3) xS by blast
    have "t < 2 ^ 18" using frames_ok_page [of A fl "pages (kmem h)" t 4] own(1,2) t(1) by (simp add: frames_ok_def)
    then show ?thesis using unat_slab_base [of t] unfolding t(2) slab_bytes_def by simp
  qed
  then show ?thesis using kmalloc_kfree_refuse [OF assms, of 0 0] by simp
qed

definition new_struct :: "u32 \<Rightarrow> u32 \<Rightarrow> u32 \<Rightarrow> u32 \<Rightarrow> u32 \<Rightarrow> task" where
  "new_struct ident type start priority state =
     zero_task\<lparr>t_id := ident, t_type := type, t_start_addr := start, t_priority := priority, t_state := state\<rparr>"

lemma alloc_struct_cases:
  assumes "kmalloc_ok H F S (heap (vm s))" and "frames_held B S (sched_frames s)"
  shows "task_alloc_struct name type start priority state s = Some (0, s) \<or>
    (\<exists>r h H' F' S' b. task_alloc_struct name type start priority state s = Some (r, s\<lparr>vm := (vm s)\<lparr>heap := h\<rparr>, bytes := b,
         tasks := (tasks s)(r \<mapsto> new_struct (last_task_id s) type start priority state),
         tnodes := clist_init (Some (TaskNode r)) (tnodes s), last_task_id := last_task_id s + 1\<rparr>) \<and>
       r \<noteq> 0 \<and> kmalloc_ok H' F' S' h \<and> frames_held B S' (pages (kmem h)) \<and> allocations H' F' h = insert (r, 128) (allocations H F (heap (vm s))) \<and>
       (r, 128) \<notin> allocations H F (heap (vm s)) \<and> valid_pages (pages (kmem h)) = valid_pages (sched_frames s))"
  using kmalloc_task [OF assms(1) assms(2) [unfolded sched_frames_def]]
proof (elim disjE exE conjE)
  assume "kmalloc SIZEOF_TASK (heap (vm s)) = Some (0, heap (vm s))"
  then show ?thesis by (simp add: task_alloc_struct_def alloc_task_def)
next
  fix r h H' F' S'
  assume k: "kmalloc SIZEOF_TASK (heap (vm s)) = Some (r, h)" "r \<noteq> 0" and ok: "kmalloc_ok H' F' S' h" "frames_held B S' (pages (kmem h))"
    and al: "allocations H' F' h = insert (r, 128) (allocations H F (heap (vm s)))" "(r, 128) \<notin> allocations H F (heap (vm s))"
  have v: "valid_pages (pages (kmem h)) = valid_pages (sched_frames s)"
    using kmalloc_valid_pages [OF kmalloc_ok_owns [OF assms(1)] k(1)] by (simp add: sched_frames_def)
  show ?thesis
  proof (rule disjI2, intro exI conjI)
    show "task_alloc_struct name type start priority state s = Some (r, s\<lparr>vm := (vm s)\<lparr>heap := h\<rparr>,
        bytes := (snd (strncpy (r + TASK_NAME_OFFSET) name TASK_NAME_LENGTH_MAX
          (memset_loop (unat TASK_NAME_LENGTH_MAX) (r + TASK_NAME_OFFSET) 0 (bytes s))))(r + TASK_NAME_OFFSET + (TASK_NAME_LENGTH_MAX - 1) := 0),
        tasks := (tasks s)(r \<mapsto> new_struct (last_task_id s) type start priority state),
        tnodes := clist_init (Some (TaskNode r)) (tnodes s), last_task_id := last_task_id s + 1\<rparr>)"
      using k by (simp add: task_alloc_struct_def alloc_task_def upd_task_def task_at_def new_struct_def Let_def)
  qed (use k ok al v in simp_all)
qed

section \<open>The kernel stack\<close>

text \<open>The words of the sixteen pages from \<open>t\<close> on.\<close>

lemma stack_word_cell: "slab_base t + 4 * of_nat j = cell (t + j div 1024) (j mod 1024)"
proof -
  have "of_nat j = (of_nat (1024 * (j div 1024) + j mod 1024) :: u32)" by simp
  then have "4 * of_nat j = (4096 * of_nat (j div 1024) + 4 * of_nat (j mod 1024) :: u32)"
    by (simp only: of_nat_add of_nat_mult distrib_left) simp
  then show ?thesis unfolding cell_def slab_base_def by (simp add: rotary_macro rotary_const algebra_simps)
qed

lemma stack_word_other:
  assumes "u < 2 ^ 18" "i < 1024" "j < 16384" "t + 16 < 2 ^ 18" "u \<notin> span (t, 4)"
  shows "cell u i \<noteq> slab_base t + 4 * of_nat j"
proof -
  have d: "j div 1024 < 16" "j mod 1024 < 1024" using assms(3) by (simp_all add: less_mult_imp_div_less)
  then have "u \<noteq> t + j div 1024" "t + j div 1024 < 2 ^ 18" using assms(4,5) by auto
  then show ?thesis using cell_inject [OF assms(1) _ assms(2) d(2), of "t + j div 1024"] unfolding stack_word_cell by simp
qed

lemma clear_words_other:
  assumes "\<And>i. i < n \<Longrightarrow> a \<noteq> va + 4 * of_nat i"
  shows "clear_words va n w a = w a"
  using assms unfolding clear_words_def by (induction n) auto

definition with_stack :: "nat \<Rightarrow> task \<Rightarrow> task" where
  "with_stack t x = x\<lparr>kstack_size := 65536, kstack_bot := slab_base t + 65536, kstack_top := slab_base t + 65536\<rparr>"

lemma kernel_stack_cases:
  assumes ok: "kmalloc_ok H F S (heap (vm s))" and held: "frames_held B S (sched_frames s)" and r: "tasks s r = Some x"
  shows "(task_create_kernel_stack r s = Some (E_ERROR, s) \<and> page_alloc 4 0 (sched_frames s) = Some (None, sched_frames s)) \<or>
    (\<exists>t fr. page_alloc 4 0 (sched_frames s) = Some (Some t, fr) \<and>
       task_create_kernel_stack r s = Some (E_SUCCESS, s\<lparr>vm := (vm s)\<lparr>heap := set_frames fr (heap (vm s)),
         vm_words := clear_words (slab_base t) 16384 (vm_words (vm s))\<rparr>, tasks := (tasks s)(r \<mapsto> with_stack t x)\<rparr>) \<and>
       kmalloc_ok H F S (set_frames fr (heap (vm s))) \<and> frames_held (insert (t, 4) B) S fr \<and> (t, 4) \<notin> B \<and> t + 16 < 2 ^ 18 \<and>
       span (t, 4) \<subseteq> valid_pages (sched_frames s) \<and> valid_pages fr = valid_pages (sched_frames s))"
proof -
  obtain A fl where b: "buddy_ok A fl (sched_frames s)" using frames_held_owns [OF held] by (auto simp: palloc_owns_def)
  obtain q fr where run: "page_alloc 4 0 (sched_frames s) = Some (q, fr)" using page_alloc_order4 [OF b] by blast
  have o: "TASK_KERNEL_STACK_ORDER = 4" "unat TASK_KERNEL_STACK_ORDER = 4" by (simp_all add: rotary_const)
  have sz: "push_bit (unat TASK_KERNEL_STACK_ORDER) 1 * PAGE_SIZE = 65536" by (simp add: rotary_const push_bit_eq_mult)
  show ?thesis
  proof (cases q)
    case None
    have "fr = sched_frames s" by (rule page_alloc_noneD(1) [OF b run [unfolded None]])
    moreover have "put_frames (sched_frames s) s = s" by (simp add: put_frames_def sched_frames_def set_frames_def)
    ultimately show ?thesis using run None by (simp add: task_create_kernel_stack_def o)
  next
    case (Some t)
    note al = frames_held_alloc [OF held run [unfolded Some], unfolded unat_numeral_4]
    have "page_at t fr = Some (page_area fr ! t)" using al(6) by (simp add: page_at_def)
    then have "task_create_kernel_stack r s = Some (E_SUCCESS, s\<lparr>vm := (vm s)\<lparr>heap := set_frames fr (heap (vm s)),
        vm_words := clear_words (slab_base t) 16384 (vm_words (vm s))\<rparr>, tasks := (tasks s)(r \<mapsto> with_stack t x)\<rparr>)"
      using run Some al(8) r unfolding task_create_kernel_stack_def sz
      by (simp add: upd_task_def task_at_def put_frames_def with_stack_def Let_def o(1))
    moreover have "t + 16 < 2 ^ 18" using al(6,7) by simp
    ultimately show ?thesis using run Some al(1-5) kmalloc_ok_set_frames [OF ok frames_held_owns [OF al(1)]]
      by (intro disjI2 exI [of _ t] exI [of _ fr]) simp
  qed
qed

text \<open>Giving the stack back.\<close>

lemma stack_free:
  assumes "frames_held B S (sched_frames s)" and "no_kernel_pages img (sched_frames s)" and "r \<noteq> 0" "tasks s r = Some x"
    and "kstack_bot x \<noteq> 0" "(page_of (kstack_bot x - kstack_size x), 4) \<in> B"
  shows "\<exists>fr. task_destroy_kernel_stack img r s = Some (put_frames fr s) \<and> frames_held (B - {(page_of (kstack_bot x - kstack_size x), 4)}) S fr \<and>
    no_kernel_pages img fr \<and> valid_pages fr = valid_pages (sched_frames s)"
proof -
  have "TASK_KERNEL_STACK_ORDER = 4" by (simp add: rotary_const)
  then show ?thesis using frames_held_free [OF assms(1,2,6)] assms(3-5)
    by (auto simp: task_destroy_kernel_stack_def page_free_va_page)
qed

section \<open>Cleaning up\<close>

lemma cleanup_null:
  assumes "kmalloc_ok H F S (heap (vm s))"
  shows "task_create_cleanup img 0 s = Some (0, release (s\<lparr>tasks := (tasks s)(0 := None)\<rparr>))"
  using kfree_null [OF assms] by (simp add: task_create_cleanup_def task_destroy_vm_space_def task_destroy_kernel_stack_def free_task_def)

text \<open>The struct is freed last.\<close>

lemma free_task_held:
  assumes "kmalloc_ok H F S (heap (vm s))" "frames_held B S (sched_frames s)" "(r, 128) \<in> allocations H F (heap (vm s))"
  shows "\<exists>h F'. free_task r s = Some (s\<lparr>vm := (vm s)\<lparr>heap := h\<rparr>, tasks := (tasks s)(r := None)\<rparr>) \<and> kmalloc_ok H F' S h \<and>
    allocations H F' h = allocations H F (heap (vm s)) - {(r, 128)} \<and> pages (kmem h) = sched_frames s"
  using kfree_held [OF assms(1) assms(2) [unfolded sched_frames_def] assms(3)] by (auto simp: free_task_def sched_frames_def)

text \<open>The address space of the struct is NULL; there is a stack or not.\<close>

definition stack_block :: "task \<Rightarrow> block set" where
  "stack_block x = (if kstack_bot x = 0 then {} else {(page_of (kstack_bot x - kstack_size x), 4)})"

lemma cleanup_struct:
  assumes "kmalloc_ok H F S (heap (vm s))" "frames_held B S (sched_frames s)" "no_kernel_pages img (sched_frames s)"
    and "(r, 128) \<in> allocations H F (heap (vm s))" "r \<noteq> 0" "tasks s r = Some x" "t_vm_space x = 0" "stack_block x \<subseteq> B"
  shows "\<exists>h F'. task_create_cleanup img r s = Some (0, release (s\<lparr>vm := (vm s)\<lparr>heap := h\<rparr>, tasks := (tasks s)(r := None)\<rparr>)) \<and>
    kmalloc_ok H F' S h \<and> allocations H F' h = allocations H F (heap (vm s)) - {(r, 128)} \<and> frames_held (B - stack_block x) S (pages (kmem h))"
proof -
  have "\<exists>fr. task_destroy_kernel_stack img r s = Some (put_frames fr s) \<and> frames_held (B - stack_block x) S fr"
  proof (cases "kstack_bot x = 0")
    case True
    moreover have "put_frames (sched_frames s) s = s" by (simp add: put_frames_def sched_frames_def set_frames_def)
    ultimately show ?thesis using assms(2,5,6)
      by (intro exI [of _ "sched_frames s"]) (simp add: task_destroy_kernel_stack_def stack_block_def)
  next
    case False
    then show ?thesis using stack_free [OF assms(2,3,5,6)] assms(8) by (auto simp: stack_block_def)
  qed
  then obtain fr where fr: "task_destroy_kernel_stack img r s = Some (put_frames fr s)" "frames_held (B - stack_block x) S fr" by blast
  let ?s = "put_frames fr s"
  have p: "sched_frames ?s = fr" "heap (vm ?s) = set_frames fr (heap (vm s))" by (simp_all add: sched_frames_def put_frames_def set_frames_def)
  have "kmalloc_ok H F S (heap (vm ?s))" unfolding p by (rule kmalloc_ok_set_frames [OF assms(1) frames_held_owns [OF fr(2)]])
  from free_task_held [OF this, of "B - stack_block x" r] fr(2) assms(4) obtain h F' where
    h: "free_task r ?s = Some (?s\<lparr>vm := (vm ?s)\<lparr>heap := h\<rparr>, tasks := (tasks ?s)(r := None)\<rparr>)" "kmalloc_ok H F' S h"
    "allocations H F' h = allocations H F (heap (vm s)) - {(r, 128)}" "pages (kmem h) = fr"
    unfolding p by (auto simp: allocations_set_frames)
  have "task_destroy_vm_space img r s = Some s" using assms(5-7) by (simp add: task_destroy_vm_space_def)
  then have "task_create_cleanup img r s = Some (0, release (s\<lparr>vm := (vm s)\<lparr>heap := h\<rparr>, tasks := (tasks s)(r := None)\<rparr>))"
    using fr(1) h(1) by (simp add: task_create_cleanup_def put_frames_def)
  then show ?thesis using h(2-4) fr(2) by blast
qed

section \<open>The first frame\<close>

lemma frame_store_other:
  assumes "\<And>i. i < 21 \<Longrightarrow> a \<noteq> f + 4 * of_nat i"
  shows "frame_store isr_exit x f w a = w a"
proof -
  have n: "a \<noteq> f + 4 * of_nat i" if "i \<in> set [0, 1, 2, 3, 4, 5, 6, 7, 8, 9, 10, 11, 12, 13, 14, 15, 16, 17, 18, 19, 20 :: nat]" for i
    using assms [of i] that by auto
  have c: "clear_words (f + 20) 16 w a = w a" for w
  proof (rule clear_words_other)
    fix i :: nat assume "i < 16"
    then show "a \<noteq> f + 20 + 4 * of_nat i" using assms [of "i + 5"] by (simp add: algebra_simps)
  qed
  have c5: "clear_words f 5 w a = w a" for w using assms by (intro clear_words_other) simp
  have "a \<noteq> f" "a \<noteq> f + 4" "a \<noteq> f + 8" "a \<noteq> f + 12" "a \<noteq> f + 16" "a \<noteq> f + 20" "a \<noteq> f + 64" "a \<noteq> f + 68" "a \<noteq> f + 72" "a \<noteq> f + 76" "a \<noteq> f + 80"
    using n [of 0] n [of 1] n [of 2] n [of 3] n [of 4] n [of 5] n [of 16] n [of 17] n [of 18] n [of 19] n [of 20] by simp_all
  then show ?thesis unfolding frame_store_def Let_def by (simp add: c5) (simp add: c)
qed

lemma arch_task_create_run:
  assumes "tasks s r = Some x" "kstack_top x = slab_base t + 65536"
  shows "\<exists>w. arch_task_create isr_exit r s =
      Some (E_SUCCESS, s\<lparr>tasks := (tasks s)(r \<mapsto> x\<lparr>kstack_top := slab_base t + 65536 - 84\<rparr>), vm := (vm s)\<lparr>vm_words := w\<rparr>\<rparr>) \<and>
    frame_words w (slab_base t + 65536 - 84) 21 = first_frame isr_exit x \<and>
    (\<forall>a. (\<forall>j<16384. a \<noteq> slab_base t + 4 * of_nat j) \<longrightarrow> w a = vm_words (vm s) a)"
proof -
  let ?f = "slab_base t + 65536 - 84"
  have f: "kstack_top x = ?f + 84" using assms(2) by simp
  have "frame_store isr_exit x ?f (vm_words (vm s)) a = vm_words (vm s) a" if a: "\<forall>j<16384. a \<noteq> slab_base t + 4 * of_nat j" for a
  proof (rule frame_store_other)
    fix i :: nat assume "i < 21"
    then have "16363 + i < 16384" by simp
    then have "a \<noteq> slab_base t + 4 * of_nat (16363 + i)" using a by blast
    moreover have "slab_base t + 4 * of_nat (16363 + i) = ?f + 4 * of_nat i" by (simp add: algebra_simps)
    ultimately show "a \<noteq> ?f + 4 * of_nat i" by argo
  qed
  then show ?thesis using arch_task_create_frame [OF assms(1) f, of isr_exit] frame_store_words [of isr_exit x ?f] by blast
qed

section \<open>The whole\<close>

lemma tasks_ok_state:
  assumes "tasks_ok xs s" "\<forall>x\<in>set xs. tasks s' x \<noteq> None" "\<forall>n\<in>insert TaskHead (TaskNode ` set xs). tnodes s' n = tnodes s n"
    "\<not> task_lock s'" "task_head s' = task_head s"
  shows "tasks_ok xs s'"
proof -
  have "clist (tnodes s') TaskHead (map TaskNode xs) = clist (tnodes s) TaskHead (map TaskNode xs)"
    unfolding clist_def using assms(3) by (intro conj_cong refl chain_cong) auto
  then show ?thesis using assms by (simp add: tasks_ok_def)
qed

text \<open>
  What creation needs: sound lists and heap, the structs of the listed tasks on the heap, exactly the blocks \<open>B\<close> in
  use beside the slabs, no page of the kernel image among the usable ones, and the kernel's directory in page \<open>k\<close>.
\<close>

definition creation_ok :: "kernel_image \<Rightarrow> block set \<Rightarrow> (nat \<Rightarrow> u32 list) \<Rightarrow> (u32 \<Rightarrow> u32 list) \<Rightarrow> u32 set \<Rightarrow> nat \<Rightarrow> u32 list \<Rightarrow> sched_state \<Rightarrow> bool" where
  "creation_ok img B H F S k xs s \<longleftrightarrow> tasks_ok xs s \<and> kmalloc_ok H F S (heap (vm s)) \<and>
     (\<forall>x\<in>set xs. (x, 128) \<in> allocations H F (heap (vm s)) \<and> x \<noteq> 0) \<and>
     frames_held B S (sched_frames s) \<and> no_kernel_pages img (sched_frames s) \<and> k < 2 ^ 18 \<and> k \<notin> valid_pages (sched_frames s)"

text \<open>
  Failure: list, listed structs and heap allocations are as before, and so are the blocks of pages in use beside the
  slabs; only the number of the task may be used up.
\<close>

definition not_created :: "block set \<Rightarrow> u32 list \<Rightarrow> (u32 \<times> nat) set \<Rightarrow> sched_state \<Rightarrow> sched_state \<Rightarrow> bool" where
  "not_created B xs P s s' \<longleftrightarrow> tasks_ok xs s' \<and>
     (\<exists>H F S. kmalloc_ok H F S (heap (vm s')) \<and> allocations H F (heap (vm s')) = P \<and> frames_held B S (sched_frames s')) \<and>
     (\<forall>x\<in>set xs. tasks s' x = tasks s x) \<and> current_task s' = current_task s \<and> last_task_id s' \<in> {last_task_id s, last_task_id s + 1}"

text \<open>
  Success: the new task is first in the list, with its struct, a stack of 64 KiB in sixteen pages \<open>t\<close> of its own, the first
  frame on top of the stack, and an address space \<open>v\<close> of its own whose directory is a copy of the kernel's in a new page \<open>d\<close>.
\<close>

definition created :: "u32 \<Rightarrow> nat \<Rightarrow> block set \<Rightarrow> u32 list \<Rightarrow> (u32 \<times> nat) set \<Rightarrow> u32 \<Rightarrow> task \<Rightarrow> sched_state \<Rightarrow> sched_state \<Rightarrow> bool" where
  "created isr_exit k B xs P r x s s' \<longleftrightarrow> tasks_ok (r # xs) s' \<and> r \<notin> set xs \<and> last_task_id s' = last_task_id s + 1 \<and>
     (\<forall>y\<in>set xs. tasks s' y = tasks s y) \<and> current_task s' = current_task s \<and> valid_pages (sched_frames s') = valid_pages (sched_frames s) \<and>
     (\<exists>H F S v t d. kmalloc_ok H F S (heap (vm s')) \<and> allocations H F (heap (vm s')) = P \<union> {(r, 128), (v, 16)} \<and> v \<noteq> 0 \<and>
        (r, 128) \<notin> P \<and> (v, 16) \<notin> P \<and> frames_held (B \<union> {(t, 4), (d, 0)}) S (sched_frames s') \<and> (t, 4) \<notin> B \<and> (d, 0) \<notin> B \<and>
        tasks s' r = Some (x\<lparr>kstack_size := 65536, kstack_bot := slab_base t + 65536, kstack_top := slab_base t + 65536 - 84, t_vm_space := v\<rparr>) \<and>
        frame_words (vm_words (vm s')) (slab_base t + 65536 - 84) 21 = first_frame isr_exit x \<and>
        sp_pgd (spaces (vm s') v) = VIR_TO_PHY (slab_base d) \<and> (\<forall>i<1024. vm_words (vm s') (cell d i) = vm_words (vm s) (cell k i)))"

text \<open>The state after each of the steps that succeed.\<close>

definition struct_added :: "u32 \<Rightarrow> task \<Rightarrow> sched_state \<Rightarrow> sched_state \<Rightarrow> bool" where
  "struct_added r x s s' \<longleftrightarrow> tasks s' = (tasks s)(r \<mapsto> x) \<and> tnodes s' = clist_init (Some (TaskNode r)) (tnodes s) \<and>
     last_task_id s' = last_task_id s + 1 \<and> task_lock s' \<and> task_head s' = task_head s \<and> current_task s' = current_task s"

lemma struct_added_cleaned:
  assumes "tasks_ok xs s" "struct_added r x s s'" "r \<notin> set xs" "tasks s'' = (tasks s')(r := None)" "tnodes s'' = tnodes s'"
    "\<not> task_lock s''" "task_head s'' = task_head s'" "current_task s'' = current_task s'" "last_task_id s'' = last_task_id s'"
    "kmalloc_ok H F S (heap (vm s''))" "allocations H F (heap (vm s'')) = P" "frames_held B S (sched_frames s'')"
  shows "not_created B xs P s s''"
proof -
  have n: "tnodes s'' n = tnodes s n" if "n \<in> insert TaskHead (TaskNode ` set xs)" for n
    using assms(2,3,5) that by (auto simp: struct_added_def clist_init_def set_prev_def set_next_def)
  have t: "tasks s'' y = tasks s y" if "y \<in> set xs" for y using assms(2-4) that by (auto simp: struct_added_def)
  have "tasks_ok xs s''" using assms n t by (intro tasks_ok_state [OF assms(1)]) (auto simp: struct_added_def tasks_ok_def)
  then show ?thesis using assms t by (auto simp: not_created_def struct_added_def)
qed

lemma struct_added_listed:
  assumes "tasks_ok xs s" "struct_added r x s s'" "r \<notin> set xs"
  shows "\<exists>h. clist_add (Some TaskHead) (Some (TaskNode r)) (tnodes s') = Some h \<and> tasks_ok (r # xs) (release (s'\<lparr>tnodes := h\<rparr>))"
proof -
  have "clist (tnodes s') TaskHead (map TaskNode xs) = clist (tnodes s) TaskHead (map TaskNode xs)"
    unfolding clist_def using assms(2,3)
    by (intro conj_cong refl chain_cong) (auto simp: struct_added_def clist_init_def set_prev_def set_next_def)
  then have "clist (tnodes s') TaskHead (map TaskNode xs)" using assms(1) by (simp add: tasks_ok_def)
  then obtain h where "clist_add (Some TaskHead) (Some (TaskNode r)) (tnodes s') = Some h" "clist h TaskHead (TaskNode r # map TaskNode xs)"
    using clist_add_correct [of "tnodes s'" TaskHead "map TaskNode xs" "TaskNode r"] assms(3) by auto
  then show ?thesis using assms(1,2) by (auto simp: tasks_ok_def release_def unlock_def struct_added_def)
qed

text \<open>The steps of the call up to the address space; \<open>s3\<close> is the state then.\<close>

definition directory_missing :: "u32 \<Rightarrow> u32 \<Rightarrow> u32 \<Rightarrow> u32 \<Rightarrow> u32 \<Rightarrow> sched_state \<Rightarrow> bool" where
  "directory_missing name type start priority state s \<longleftrightarrow>
     (\<exists>r s2 s3 v h. task_alloc_struct name type start priority state (s\<lparr>task_lock := True\<rparr>) = Some (r, s2) \<and>
        task_create_kernel_stack r s2 = Some (E_SUCCESS, s3) \<and> kmalloc SIZEOF_VM_SPACE (heap (vm s3)) = Some (v, h) \<and> v \<noteq> 0 \<and>
        page_alloc 0 PR_KERNEL (pages (kmem h)) = Some (None, pages (kmem h)))"

text \<open>The rest of the call once the task has its stack.\<close>

definition finish_create :: "kernel_image \<Rightarrow> u32 \<Rightarrow> u32 \<Rightarrow> u32 \<Rightarrow> sched_state \<Rightarrow> (u32 \<times> sched_state) option" where
  "finish_create img kpgd isr_exit r s = do {
     (r2, s4) \<leftarrow> task_create_vm_space kpgd r s;
     (if \<not> SUCCESS r2 then task_create_cleanup img r s4
      else do {
        (r3, s5) \<leftarrow> arch_task_create isr_exit r s4;
        (if \<not> SUCCESS r3 then Some (0, release s5)
         else do {
           ns \<leftarrow> clist_add (Some TaskHead) (Some (TaskNode r)) (tnodes s5);
           Some (r, release (s5\<lparr>tnodes := ns\<rparr>))
         })
      })
   }"

lemma vm_space_step:
  assumes "tasks s r = Some y" "vm_space_new kpgd (vm s) = Some (v, vm')"
  shows "task_create_vm_space kpgd r s = Some (if v = 0 then E_ERROR else E_SUCCESS, s\<lparr>vm := vm', tasks := (tasks s)(r \<mapsto> y\<lparr>t_vm_space := v\<rparr>)\<rparr>)"
  using assms by (simp add: task_create_vm_space_def upd_task_def task_at_def)

text \<open>What holds at that point: \<open>P\<close> are the allocations before the call.\<close>

definition stack_stage :: "kernel_image \<Rightarrow> block set \<Rightarrow> u32 list \<Rightarrow> (u32 \<times> nat) set \<Rightarrow> nat \<Rightarrow> u32 \<Rightarrow> nat \<Rightarrow> task \<Rightarrow> sched_state \<Rightarrow>
    (nat \<Rightarrow> u32 list) \<Rightarrow> (u32 \<Rightarrow> u32 list) \<Rightarrow> u32 set \<Rightarrow> sched_state \<Rightarrow> bool" where
  "stack_stage img B xs P k r t x s H F S s3 \<longleftrightarrow> tasks_ok xs s \<and> struct_added r (with_stack t x) s s3 \<and> r \<notin> set xs \<and> r \<noteq> 0 \<and>
     t_vm_space x = 0 \<and> kmalloc_ok H F S (heap (vm s3)) \<and> frames_held (insert (t, 4) B) S (sched_frames s3) \<and> (t, 4) \<notin> B \<and>
     t + 16 < 2 ^ 18 \<and> span (t, 4) \<subseteq> valid_pages (sched_frames s3) \<and> no_kernel_pages img (sched_frames s3) \<and>
     allocations H F (heap (vm s3)) = insert (r, 128) P \<and> (r, 128) \<notin> P \<and> k < 2 ^ 18 \<and> k \<notin> valid_pages (sched_frames s3) \<and>
     valid_pages (sched_frames s) = valid_pages (sched_frames s3) \<and>
     (\<forall>i<1024. vm_words (vm s3) (cell k i) = vm_words (vm s) (cell k i))"

lemma with_stack_block:
  assumes "t + 16 < 2 ^ 18"
  shows "stack_block (with_stack t x) = {(t, 4)}"
proof -
  have t: "t < 2 ^ 18" using assms by simp
  have "unat (slab_base t + 65536) = 0xC0000000 + 4096 * t + 65536"
    using unat_slab_base [OF t] assms by (subst unat_add_small) simp_all
  then have "slab_base t + 65536 \<noteq> 0" by auto
  then show ?thesis using page_of_slab_base [OF t] by (simp add: stack_block_def with_stack_def)
qed

lemma finish_without_space:
  assumes st: "stack_stage img B xs P k r t x s H F S s3" and v: "vm_space_new kpgd (vm s3) = Some (0, vm s3)"
  shows "\<exists>s'. finish_create img kpgd isr_exit r s3 = Some (0, s') \<and> not_created B xs P s s'"
proof -
  let ?y = "with_stack t x"
  have xs: "tasks_ok xs s" "r \<notin> set xs" "r \<noteq> 0" and add: "struct_added r ?y s s3" and x: "t_vm_space ?y = 0" and ok: "kmalloc_ok H F S (heap (vm s3))"
    and hs: "frames_held (insert (t, 4) B) S (sched_frames s3)" "(t, 4) \<notin> B" "t + 16 < 2 ^ 18" "no_kernel_pages img (sched_frames s3)"
    and al: "allocations H F (heap (vm s3)) = insert (r, 128) P" "(r, 128) \<notin> P"
    using st by (simp_all add: stack_stage_def with_stack_def)
  have y: "tasks s3 r = Some ?y" using add by (simp add: struct_added_def)
  have "?y\<lparr>t_vm_space := 0\<rparr> = ?y" using x by simp
  then have s4: "s3\<lparr>vm := vm s3, tasks := (tasks s3)(r \<mapsto> ?y\<lparr>t_vm_space := 0\<rparr>)\<rparr> = s3"
    using y by (cases s3) (simp add: map_upd_triv)
  have bl: "stack_block ?y = {(t, 4)}" "stack_block ?y \<subseteq> insert (t, 4) B" "insert (t, 4) B - stack_block ?y = B"
    using with_stack_block [OF hs(3), of x] hs(2) by auto
  from cleanup_struct [OF ok hs(1,4) _ xs(3) y x bl(2)] al obtain h G where
    c: "task_create_cleanup img r s3 = Some (0, release (s3\<lparr>vm := (vm s3)\<lparr>heap := h\<rparr>, tasks := (tasks s3)(r := None)\<rparr>))"
    "kmalloc_ok H G S h" "allocations H G h = P" "frames_held B S (pages (kmem h))" unfolding bl(3) by (auto simp: insert_Diff_if)
  let ?s' = "release (s3\<lparr>vm := (vm s3)\<lparr>heap := h\<rparr>, tasks := (tasks s3)(r := None)\<rparr>)"
  have "finish_create img kpgd isr_exit r s3 = Some (0, ?s')"
    unfolding finish_create_def vm_space_step [OF y v] using s4 c(1) by (simp add: SUCCESS_def rotary_const)
  moreover have "not_created B xs P s ?s'"
    by (rule struct_added_cleaned [OF xs(1) add xs(2)]) (use c in \<open>simp_all add: release_def unlock_def sched_frames_def\<close>)
  ultimately show ?thesis by blast
qed

lemma finish_with_space:
  assumes st: "stack_stage img B xs P k r t x s H F S s3" and v: "vm_space_new kpgd (vm s3) = Some (v, vm')" "v \<noteq> 0"
    and ok: "kmalloc_ok H' F' S' (heap vm')" "allocations H' F' (heap vm') = insert (v, 16) (insert (r, 128) P)" "(v, 16) \<notin> P"
    and d: "frames_held (insert (d, 0) (insert (t, 4) B)) S' (pages (kmem (heap vm')))" "(d, 0) \<notin> B" "d < 2 ^ 18" "d \<notin> cover (insert (t, 4) B)"
      "sp_pgd (spaces vm' v) = VIR_TO_PHY (slab_base d)" "\<forall>i<1024. vm_words vm' (cell d i) = vm_words (vm s3) (cell k i)"
      "valid_pages (pages (kmem (heap vm'))) = valid_pages (sched_frames s3)"
  shows "\<exists>s'. finish_create img kpgd isr_exit r s3 = Some (r, s') \<and> created isr_exit k B xs P r x s s'"
proof -
  let ?y = "with_stack t x" and ?s4 = "s3\<lparr>vm := vm', tasks := (tasks s3)(r \<mapsto> (with_stack t x)\<lparr>t_vm_space := v\<rparr>)\<rparr>"
  have xs: "tasks_ok xs s" "r \<notin> set xs" and add: "struct_added r ?y s s3" and P: "(r, 128) \<notin> P" and B: "(t, 4) \<notin> B" and t: "t + 16 < 2 ^ 18"
    and k: "\<forall>i<1024. vm_words (vm s3) (cell k i) = vm_words (vm s) (cell k i)" and vp: "valid_pages (sched_frames s) = valid_pages (sched_frames s3)" using st by (simp_all add: stack_stage_def)
  have y: "tasks s3 r = Some ?y" using add by (simp add: struct_added_def)
  let ?f = "slab_base t + 65536 - 84"
  let ?z = "?y\<lparr>t_vm_space := v, kstack_top := ?f\<rparr>"
  have top: "kstack_top (?y\<lparr>t_vm_space := v\<rparr>) = slab_base t + 65536" by (simp add: with_stack_def)
  have t4: "tasks ?s4 r = Some (?y\<lparr>t_vm_space := v\<rparr>)" by simp
  obtain w where w: "arch_task_create isr_exit r ?s4 = Some (E_SUCCESS, ?s4\<lparr>tasks := (tasks ?s4)(r \<mapsto> ?z), vm := (vm ?s4)\<lparr>vm_words := w\<rparr>\<rparr>)"
    "frame_words w ?f 21 = first_frame isr_exit (?y\<lparr>t_vm_space := v\<rparr>)" "\<forall>a. (\<forall>j<16384. a \<noteq> slab_base t + 4 * of_nat j) \<longrightarrow> w a = vm_words vm' a"
    using arch_task_create_run [OF t4 top, of isr_exit] by auto
  have ff: "first_frame isr_exit (?y\<lparr>t_vm_space := v\<rparr>) = first_frame isr_exit x" by (simp add: first_frame_def with_stack_def)
  have "d \<notin> span (t, 4)" using d(4) by (auto simp: cover_def)
  then have dw: "w (cell d i) = vm_words (vm s) (cell k i)" if "i < 1024" for i
    using w(3) stack_word_other [OF d(3) that _ t] d(6) k that by simp
  let ?s5 = "?s4\<lparr>tasks := (tasks ?s4)(r \<mapsto> ?z), vm := (vm ?s4)\<lparr>vm_words := w\<rparr>\<rparr>"
  have add5: "struct_added r ?z s ?s5" using add by (simp add: struct_added_def)
  obtain ns where ns: "clist_add (Some TaskHead) (Some (TaskNode r)) (tnodes ?s5) = Some ns" "tasks_ok (r # xs) (release (?s5\<lparr>tnodes := ns\<rparr>))"
    using struct_added_listed [OF xs(1) add5 xs(2)] by blast
  let ?s' = "release (?s5\<lparr>tnodes := ns\<rparr>)"
  have "finish_create img kpgd isr_exit r s3 = Some (r, ?s')"
    unfolding finish_create_def vm_space_step [OF y v(1)] using v(2) w(1) ns(1) by (simp add: SUCCESS_def rotary_const)
  moreover have "created isr_exit k B xs P r x s ?s'" unfolding created_def
  proof (intro conjI exI)
    show "tasks ?s' r = Some (x\<lparr>kstack_size := 65536, kstack_bot := slab_base t + 65536, kstack_top := ?f, t_vm_space := v\<rparr>)"
      by (simp add: release_def with_stack_def)
    show "kmalloc_ok H' F' S' (heap (vm ?s'))" using ok(1) by (simp add: release_def)
    show "allocations H' F' (heap (vm ?s')) = P \<union> {(r, 128), (v, 16)}" using ok(2) by (auto simp: release_def)
    have "B \<union> {(t, 4), (d, 0)} = insert (d, 0) (insert (t, 4) B)" by auto
    then show "frames_held (B \<union> {(t, 4), (d, 0)}) S' (sched_frames ?s')" using d(1) by (simp add: release_def sched_frames_def)
    show "frame_words (vm_words (vm ?s')) ?f 21 = first_frame isr_exit x" using w(2) ff by (simp add: release_def)
    show "sp_pgd (spaces (vm ?s') v) = VIR_TO_PHY (slab_base d)" using d(5) by (simp add: release_def)
    show "\<forall>i<1024. vm_words (vm ?s') (cell d i) = vm_words (vm s) (cell k i)" using dw by (simp add: release_def)
    show "valid_pages (sched_frames ?s') = valid_pages (sched_frames s)" using d(7) vp by (simp add: release_def sched_frames_def)
  qed (use ns(2) xs(2) add P B d(2) ok(3) v(2) in \<open>auto simp: struct_added_def release_def\<close>)
  ultimately show ?thesis by blast
qed

lemma finish_outcomes:
  assumes st: "stack_stage img B xs P k r t x s H F S s3"
  shows "case finish_create img (slab_base k) isr_exit r s3 of
      None \<Rightarrow> \<exists>v h. kmalloc SIZEOF_VM_SPACE (heap (vm s3)) = Some (v, h) \<and> v \<noteq> 0 \<and> page_alloc 0 PR_KERNEL (pages (kmem h)) = Some (None, pages (kmem h))
    | Some (r', s') \<Rightarrow> if r' = 0 then not_created B xs P s s' \<and> vm_space_new (slab_base k) (vm s3) = Some (0, vm s3)
        else r' = r \<and> created isr_exit k B xs P r' x s s'"
proof -
  have ok: "kmalloc_ok H F S (heap (vm s3))" and al: "allocations H F (heap (vm s3)) = insert (r, 128) P" and r: "r \<noteq> 0"
    and held: "frames_held (insert (t, 4) B) S (pages (kmem (heap (vm s3))))" and k: "k < 2 ^ 18" "k \<notin> valid_pages (pages (kmem (heap (vm s3))))"
    using st by (simp_all add: stack_stage_def sched_frames_def)
  from vm_space_new_held [OF ok held k] show ?thesis
  proof (elim disjE exE conjE)
    assume "vm_space_new (slab_base k) (vm s3) = Some (0, vm s3)"
    with finish_without_space [OF st this, of isr_exit] show ?thesis by auto
  next
    fix v h
    assume n: "vm_space_new (slab_base k) (vm s3) = None" and e: "kmalloc SIZEOF_VM_SPACE (heap (vm s3)) = Some (v, h)" "v \<noteq> 0"
      "page_alloc 0 PR_KERNEL (pages (kmem h)) = Some (None, pages (kmem h))"
    have "finish_create img (slab_base k) isr_exit r s3 = None" using n by (simp add: finish_create_def task_create_vm_space_def)
    then show ?thesis using e by simp
  next
    fix v vm' H' F' S' d
    assume v: "vm_space_new (slab_base k) (vm s3) = Some (v, vm')" "v \<noteq> 0" and ok': "kmalloc_ok H' F' S' (heap vm')"
      and d: "frames_held (insert (d, 0) (insert (t, 4) B)) S' (pages (kmem (heap vm')))" "(d, 0) \<notin> insert (t, 4) B" "d < 2 ^ 18"
        "d \<notin> cover (insert (t, 4) B)" "sp_pgd (spaces vm' v) = VIR_TO_PHY (slab_base d)" "\<forall>i<1024. vm_words vm' (cell d i) = vm_words (vm s3) (cell k i)"
      and vp: "valid_pages (pages (kmem (heap vm'))) = valid_pages (pages (kmem (heap (vm s3))))"
      and a: "allocations H' F' (heap vm') = insert (v, 16) (allocations H F (heap (vm s3)))" "(v, 16) \<notin> allocations H F (heap (vm s3))"
    have "(d, 0) \<notin> B" "(v, 16) \<notin> P" using d(2) a(2) al by auto
    from finish_with_space [OF st v ok' a(1) [unfolded al] this(2) d(1) this(1) d(3-6) vp [folded sched_frames_def], of isr_exit] r show ?thesis by auto
  qed
qed

text \<open>The start of the call, and the ways it can end before the task has a stack.\<close>

definition struct_stage :: "kernel_image \<Rightarrow> block set \<Rightarrow> u32 list \<Rightarrow> (u32 \<times> nat) set \<Rightarrow> nat \<Rightarrow> u32 \<Rightarrow> task \<Rightarrow> sched_state \<Rightarrow>
    (nat \<Rightarrow> u32 list) \<Rightarrow> (u32 \<Rightarrow> u32 list) \<Rightarrow> u32 set \<Rightarrow> sched_state \<Rightarrow> bool" where
  "struct_stage img B xs P k r x s H F S s2 \<longleftrightarrow> tasks_ok xs s \<and> struct_added r x s s2 \<and> r \<notin> set xs \<and> r \<noteq> 0 \<and>
     t_vm_space x = 0 \<and> kstack_bot x = 0 \<and> kmalloc_ok H F S (heap (vm s2)) \<and> frames_held B S (sched_frames s2) \<and> no_kernel_pages img (sched_frames s2) \<and>
     allocations H F (heap (vm s2)) = insert (r, 128) P \<and> (r, 128) \<notin> P \<and> k < 2 ^ 18 \<and> k \<notin> valid_pages (sched_frames s2) \<and>
     valid_pages (sched_frames s) = valid_pages (sched_frames s2) \<and> vm_words (vm s2) = vm_words (vm s)"

lemma struct_stage_reached:
  assumes ok: "creation_ok img B H F S k xs s"
    and no: "task_alloc_struct name type start priority state (s\<lparr>task_lock := True\<rparr>) \<noteq> Some (0, s\<lparr>task_lock := True\<rparr>)"
  shows "\<exists>r s2 H' F' S'. task_alloc_struct name type start priority state (s\<lparr>task_lock := True\<rparr>) = Some (r, s2) \<and>
    struct_stage img B xs (allocations H F (heap (vm s))) k r (new_struct (last_task_id s) type start priority state) s H' F' S' s2"
proof -
  let ?s1 = "s\<lparr>task_lock := True\<rparr>" and ?x = "new_struct (last_task_id s) type start priority state"
  have ko: "kmalloc_ok H F S (heap (vm ?s1))" and hx: "\<forall>y\<in>set xs. (y, 128) \<in> allocations H F (heap (vm s))" and ts: "tasks_ok xs s"
    and fr: "frames_held B S (sched_frames ?s1)" "no_kernel_pages img (sched_frames s)" "k < 2 ^ 18" "k \<notin> valid_pages (sched_frames s)"
    using ok by (auto simp: creation_ok_def sched_frames_def)
  from alloc_struct_cases [OF ko fr(1), of name type start priority state] no obtain r h H' F' S' b where
    a: "task_alloc_struct name type start priority state ?s1 = Some (r, ?s1\<lparr>vm := (vm s)\<lparr>heap := h\<rparr>, bytes := b,
        tasks := (tasks s)(r \<mapsto> ?x), tnodes := clist_init (Some (TaskNode r)) (tnodes s), last_task_id := last_task_id s + 1\<rparr>)"
      (is "_ = Some (r, ?s2)") "r \<noteq> 0" "kmalloc_ok H' F' S' h" "frames_held B S' (pages (kmem h))"
      "allocations H' F' h = insert (r, 128) (allocations H F (heap (vm s)))" "(r, 128) \<notin> allocations H F (heap (vm s))"
      "valid_pages (pages (kmem h)) = valid_pages (sched_frames s)"
    by (auto simp: sched_frames_def)
  have "struct_stage img B xs (allocations H F (heap (vm s))) k r ?x s H' F' S' ?s2"
    using ts hx fr a(2-7) by (auto simp: struct_stage_def struct_added_def sched_frames_def new_struct_def zero_task_def no_kernel_pages_def)
  then show ?thesis using a(1) by blast
qed

lemma stage_without_stack:
  assumes "struct_stage img B xs P k r x s H F S s2"
  shows "\<exists>s'. task_create_cleanup img r s2 = Some (0, s') \<and> not_created B xs P s s'"
proof -
  have xs: "tasks_ok xs s" "r \<notin> set xs" "r \<noteq> 0" and add: "struct_added r x s s2" and x: "t_vm_space x = 0" "stack_block x = {}"
    and ok: "kmalloc_ok H F S (heap (vm s2))" "frames_held B S (sched_frames s2)" "no_kernel_pages img (sched_frames s2)"
    and al: "allocations H F (heap (vm s2)) = insert (r, 128) P" "(r, 128) \<notin> P"
    and y: "tasks s2 r = Some x" using assms by (simp_all add: struct_stage_def struct_added_def stack_block_def)
  obtain h G where c: "task_create_cleanup img r s2 = Some (0, release (s2\<lparr>vm := (vm s2)\<lparr>heap := h\<rparr>, tasks := (tasks s2)(r := None)\<rparr>))"
    "kmalloc_ok H G S h" "allocations H G h = P" "frames_held B S (pages (kmem h))"
    using cleanup_struct [OF ok _ xs(3) y x(1)] x(2) al by (auto simp: insert_Diff_if)
  have "not_created B xs P s (release (s2\<lparr>vm := (vm s2)\<lparr>heap := h\<rparr>, tasks := (tasks s2)(r := None)\<rparr>))"
    by (rule struct_added_cleaned [OF xs(1) add xs(2)]) (use c in \<open>simp_all add: release_def unlock_def sched_frames_def\<close>)
  then show ?thesis using c(1) by blast
qed

lemma stack_stage_reached:
  assumes "struct_stage img B xs P k r x s H F S s2" "page_alloc 4 0 (sched_frames s2) \<noteq> Some (None, sched_frames s2)"
  shows "\<exists>t s3. task_create_kernel_stack r s2 = Some (E_SUCCESS, s3) \<and> stack_stage img B xs P k r t x s H F S s3 \<and>
    page_alloc 4 0 (sched_frames s2) = Some (Some t, sched_frames s3)"
proof -
  have st: "tasks_ok xs s" "struct_added r x s s2" "r \<notin> set xs" "r \<noteq> 0" "t_vm_space x = 0" "(r, 128) \<notin> P"
    and ok: "kmalloc_ok H F S (heap (vm s2))" and al: "allocations H F (heap (vm s2)) = insert (r, 128) P"
    and held: "frames_held B S (sched_frames s2)" "no_kernel_pages img (sched_frames s2)" and y: "tasks s2 r = Some x"
    and k: "k < 2 ^ 18" "k \<notin> valid_pages (sched_frames s2)" "vm_words (vm s2) = vm_words (vm s)" "valid_pages (sched_frames s) = valid_pages (sched_frames s2)"
    using assms(1) by (simp_all add: struct_stage_def struct_added_def)
  from kernel_stack_cases [OF ok held(1) y] assms(2) obtain t fr where
    e: "task_create_kernel_stack r s2 = Some (E_SUCCESS, s2\<lparr>vm := (vm s2)\<lparr>heap := set_frames fr (heap (vm s2)),
        vm_words := clear_words (slab_base t) 16384 (vm_words (vm s2))\<rparr>, tasks := (tasks s2)(r \<mapsto> with_stack t x)\<rparr>)" (is "_ = Some (_, ?s3)")
      "kmalloc_ok H F S (set_frames fr (heap (vm s2)))" "frames_held (insert (t, 4) B) S fr" "(t, 4) \<notin> B" "t + 16 < 2 ^ 18"
      "span (t, 4) \<subseteq> valid_pages (sched_frames s2)" "valid_pages fr = valid_pages (sched_frames s2)"
      "page_alloc 4 0 (sched_frames s2) = Some (Some t, fr)" by auto
  have fr: "sched_frames ?s3 = fr" by (simp add: sched_frames_def set_frames_def)
  have "k \<notin> span (t, 4)" using e(6) k(2) by blast
  then have "clear_words (slab_base t) 16384 (vm_words (vm s2)) (cell k i) = vm_words (vm s2) (cell k i)" if "i < 1024" for i
    using stack_word_other [OF k(1) that _ e(5)] by (intro clear_words_other) blast
  then have "stack_stage img B xs P k r t x s H F S ?s3" unfolding stack_stage_def fr
    using st al held(2) e(2-7) k by (simp add: struct_added_def allocations_set_frames no_kernel_pages_def)
  then show ?thesis using e(1,8) fr by (intro exI [of _ t] exI [of _ ?s3]) simp
qed

lemma stack_missing:
  assumes "struct_stage img B xs P k r x s H F S s2" "page_alloc 4 0 (sched_frames s2) = Some (None, sched_frames s2)"
  shows "task_create_kernel_stack r s2 = Some (E_ERROR, s2)"
proof -
  have "kmalloc_ok H F S (heap (vm s2))" "frames_held B S (sched_frames s2)" "tasks s2 r = Some x"
    using assms(1) by (simp_all add: struct_stage_def struct_added_def)
  from kernel_stack_cases [OF this] assms(2) show ?thesis by auto
qed

lemma task_create_steps:
  assumes "\<not> task_lock s" "state = TASK_STATE_PAUSED \<or> state = TASK_STATE_WAITING" "TASK_PRIORITY_MIN \<le> priority" "priority \<le> TASK_PRIORITY_MAX"
  shows "task_create img kpgd isr_exit name type start priority state s =
    do { (new_task, s2) \<leftarrow> task_alloc_struct name type start priority state (s\<lparr>task_lock := True\<rparr>);
      (if new_task = 0 then task_create_cleanup img new_task s2
       else do { (r1, s3) \<leftarrow> task_create_kernel_stack new_task s2;
         (if \<not> SUCCESS r1 then task_create_cleanup img new_task s3 else finish_create img kpgd isr_exit new_task s3) }) }"
  unfolding finish_create_def using assms by (auto simp: task_create_def acquire_def lock_def not_less)

lemma task_create_without_struct:
  assumes ok: "creation_ok img B H F S k xs s"
  shows "\<exists>s'. task_create_cleanup img 0 (s\<lparr>task_lock := True\<rparr>) = Some (0, s') \<and> not_created B xs (allocations H F (heap (vm s))) s s'"
proof -
  let ?s1 = "s\<lparr>task_lock := True\<rparr>"
  let ?s' = "release (?s1\<lparr>tasks := (tasks ?s1)(0 := None)\<rparr>)"
  have ts: "tasks_ok xs s" and ko: "kmalloc_ok H F S (heap (vm ?s1))" "frames_held B S (sched_frames s)" and hx: "\<forall>y\<in>set xs. y \<noteq> 0"
    using ok by (auto simp: creation_ok_def)
  have "tasks_ok xs ?s'" using ts hx by (intro tasks_ok_state [OF ts]) (auto simp: release_def unlock_def tasks_ok_def)
  then have "not_created B xs (allocations H F (heap (vm s))) s ?s'" using ko hx by (auto simp: not_created_def release_def sched_frames_def)
  then show ?thesis using cleanup_null [OF ko(1), of img] by blast
qed

section \<open>Every outcome\<close>

lemma task_create_run:
  assumes ok: "creation_ok img B H F S k xs s"
    and arg: "state = TASK_STATE_PAUSED \<or> state = TASK_STATE_WAITING" "TASK_PRIORITY_MIN \<le> priority" "priority \<le> TASK_PRIORITY_MAX"
  shows "case task_create img (slab_base k) isr_exit name type start priority state s of
      None \<Rightarrow> directory_missing name type start priority state s
    | Some (r, s') \<Rightarrow> if r = 0 then not_created B xs (allocations H F (heap (vm s))) s s'
        else created isr_exit k B xs (allocations H F (heap (vm s))) r (new_struct (last_task_id s) type start priority state) s s'"
proof (cases "task_alloc_struct name type start priority state (s\<lparr>task_lock := True\<rparr>) = Some (0, s\<lparr>task_lock := True\<rparr>)")
  have l: "\<not> task_lock s" using ok by (simp add: creation_ok_def tasks_ok_def)
  note steps = task_create_steps [OF l arg, of img "slab_base k" isr_exit name type start]
  {
    case True
    then show ?thesis using task_create_without_struct [OF ok] by (auto simp: steps)
  next
    case False
    from struct_stage_reached [OF ok False] obtain r s2 H' F' S' where
      a: "task_alloc_struct name type start priority state (s\<lparr>task_lock := True\<rparr>) = Some (r, s2)"
      "struct_stage img B xs (allocations H F (heap (vm s))) k r (new_struct (last_task_id s) type start priority state) s H' F' S' s2" by blast
    then have r: "r \<noteq> 0" by (simp add: struct_stage_def)
    show ?thesis
    proof (cases "page_alloc 4 0 (sched_frames s2) = Some (None, sched_frames s2)")
      case True
      then show ?thesis using stage_without_stack [OF a(2)] stack_missing [OF a(2)] a(1) r by (auto simp: steps SUCCESS_def rotary_const)
    next
      case False
      from stack_stage_reached [OF a(2) False] obtain t s3 where
        b: "task_create_kernel_stack r s2 = Some (E_SUCCESS, s3)"
        "stack_stage img B xs (allocations H F (heap (vm s))) k r t (new_struct (last_task_id s) type start priority state) s H' F' S' s3" by blast
      have "task_create img (slab_base k) isr_exit name type start priority state s = finish_create img (slab_base k) isr_exit r s3"
        using a(1) r b(1) by (simp add: steps SUCCESS_def rotary_const)
      then show ?thesis using finish_outcomes [OF b(2), of isr_exit] a(1) b(1)
        by (fastforce simp: directory_missing_def split: option.splits)
    qed
  }
qed


section \<open>A sample\<close>

text \<open>
  64 free pages are enough for a first task: the free lists after each of the three requests for sixteen pages, and
  that they never fail.
\<close>

definition sample_room :: "nat \<Rightarrow> free_lists" where
  "sample_room n = (if n = 0 then sample_lists else if n = 1 then (\<lambda>_. [])(5 := [32], 4 := [16])
     else if n = 2 then (\<lambda>_. [])(5 := [32]) else (\<lambda>_. [])(4 := [48]))"

lemma sample_room_take: "n < 3 \<Longrightarrow> \<exists>t. take_block 4 (sample_room n) = Some (t, sample_room (Suc n))"
proof -
  have "first_order 4 (sample_room 1) = Some 4" "first_order 4 (sample_room 2) = Some 5" by (simp_all add: first_order_Some sample_room_def less_Suc_eq numeral_eq_Suc)
  then have "take_block 4 (sample_room 1) = Some (16, sample_room (Suc 1))" "take_block 4 (sample_room 2) = Some (32, sample_room (Suc 2))"
    by (simp_all add: take_block_def sample_room_def eval_nat_numeral fun_eq_iff)
  moreover have "take_block 4 (sample_room 0) = Some (0, sample_room (Suc 0))" using sample_take by (simp add: sample_room_def)
  moreover assume "n < 3"
  then have "n = 0 \<or> n = 1 \<or> n = 2" by auto
  ultimately show ?thesis by metis
qed

lemma sample_room_page: "take_block 0 (sample_room n) \<noteq> None"
proof -
  have "\<exists>j\<le>6. sample_room n j \<noteq> []" unfolding sample_room_def by (cases "n = 0"; cases "n = 1"; cases "n = 2") (auto intro: exI [of _ 6] exI [of _ 5] exI [of _ 4])
  then have "first_order 0 (sample_room n) \<noteq> None" unfolding first_order_None by blast
  then show ?thesis by (auto simp: take_block_def Let_def)
qed

definition roomy :: "nat \<Rightarrow> buddy_allocator \<Rightarrow> bool" where
  "roomy n p \<longleftrightarrow> (\<exists>m\<le>n. \<exists>A. buddy_ok A (sample_room m) p)"

lemma roomy_alloc:
  assumes "roomy n p" "n < 3"
  shows "\<exists>t p'. page_alloc 4 fg p = Some (Some t, p') \<and> roomy (Suc n) p'"
proof -
  obtain m A where m: "m \<le> n" "buddy_ok A (sample_room m) p" using assms(1) by (auto simp: roomy_def)
  then have "m < 3" using assms(2) by simp
  then obtain t where t: "take_block (unat (4 :: u32)) (sample_room m) = Some (t, sample_room (Suc m))" using sample_room_take by auto
  have "(4 :: u32) \<le> 6" by simp
  then obtain p' where "page_alloc 4 fg p = Some (Some t, p')" "buddy_ok (insert (t, unat (4 :: u32)) A) (sample_room (Suc m)) p'"
    by (rule page_alloc_some [OF m(2) _ t]) blast
  moreover have "Suc m \<le> Suc n" using m(1) by simp
  ultimately show ?thesis unfolding roomy_def by blast
qed

lemma roomy_kmalloc:
  assumes "kmalloc_ok H F S h" "frames_held B S (pages (kmem h))" "roomy n (pages (kmem h))" "n < 3" "unat sz \<le> 32768"
    and "kmalloc sz h = Some (r, h')"
  shows "r \<noteq> 0" and "roomy (Suc n) (pages (kmem h'))"
proof -
  obtain t p' where t: "page_alloc 4 PR_KERNEL (pages (kmem h)) = Some (Some t, p')" "roomy (Suc n) p'" using roomy_alloc [OF assms(3,4)] by blast
  have g: "slab_get_pages (pages (kmem h)) = Some (q, p'') \<Longrightarrow> q \<noteq> None \<and> p'' = p'" for q p''
    using t(1) slab_get_pages_none slab_get_pages_some by (cases q) fastforce+
  then show "r \<noteq> 0" using kmalloc_held [OF assms(1,5,2)] assms(6) by auto
  have "roomy (Suc n) (pages (kmem h))" using assms(3) unfolding roomy_def by (meson le_SucI)
  then show "roomy (Suc n) (pages (kmem h'))" using kmalloc_pages [OF assms(6)] g t(2) by auto
qed

text \<open>No task yet, a fresh heap over 64 free pages, and the directory of the kernel in page 100.\<close>

definition sample_no_tasks :: sched_state where
  "sample_no_tasks = (sample_sched 0)\<lparr>tasks := Map.empty, tnodes := \<lambda>n. \<lparr>next_node = Some TaskHead, prev_node = Some TaskHead\<rparr>,
     current_task := TaskHead, last_task_id := 1\<rparr>"

lemma sample_vm_no_tasks: "vm sample_no_tasks = sample_vm sample_free"
  by (simp add: sample_no_tasks_def sample_sched_def)

lemma sample_frames_no_tasks: "sched_frames sample_no_tasks = sample_free"
  unfolding sched_frames_def sample_vm_no_tasks by (rule sample_vm_frames)

lemma sample_frames_held: "frames_held {} {} sample_free"
proof -
  have "calls_inv sample_free {} sample_lists sample_free" unfolding calls_inv_def
    using sample_free_ok by (simp add: heads_def coalesced_def) (simp add: sample_free_def)
  then show ?thesis by (auto simp: frames_held_def frames_exact_def slab_blocks_def) (simp add: sample_free_def)
qed

lemma sample_creation_ok: "creation_ok sample_image {} (\<lambda>_. []) (\<lambda>_. []) {} 100 [] sample_no_tasks"
proof -
  have "kmalloc_ok (\<lambda>_. []) (\<lambda>_. []) {} (heap (vm sample_no_tasks))"
    using kmalloc_init_ok [OF sample_owns] unfolding sample_vm_no_tasks by (simp add: sample_vm_def)
  moreover have "tasks_ok [] sample_no_tasks" by (simp add: tasks_ok_def clist_def sample_no_tasks_def sample_sched_def zero_task_def rotary_const)
  moreover have "valid_pages sample_free = {0..<64}" by (rule sample_valid) (simp add: sample_free_def)
  moreover have "no_kernel_pages sample_image sample_free" by (rule sample_no_kernel)
  ultimately show ?thesis unfolding creation_ok_def sample_frames_no_tasks using sample_frames_held by simp
qed

lemma sample_creates:
  assumes "state = TASK_STATE_PAUSED \<or> state = TASK_STATE_WAITING" "TASK_PRIORITY_MIN \<le> priority" "priority \<le> TASK_PRIORITY_MAX"
  shows "\<exists>r s'. task_create sample_image (slab_base 100) isr_exit name type start priority state sample_no_tasks = Some (r, s') \<and> r \<noteq> 0"
proof -
  let ?s = "sample_no_tasks\<lparr>task_lock := True\<rparr>" and ?x = "new_struct (last_task_id sample_no_tasks) type start priority state"
  have l: "\<not> task_lock sample_no_tasks" by (simp add: sample_no_tasks_def sample_sched_def)
  have ok: "kmalloc_ok (\<lambda>_. []) (\<lambda>_. []) {} (heap (vm ?s))" "frames_held {} {} (pages (kmem (heap (vm ?s))))"
    using sample_creation_ok by (simp_all add: creation_ok_def sched_frames_def)
  have "roomy 0 (pages (kmem (heap (vm ?s))))" using sample_free_ok sample_frames_no_tasks by (auto simp: roomy_def sample_room_def sched_frames_def)
  note k1 = roomy_kmalloc [OF ok this, of SIZEOF_TASK, simplified SIZEOF_TASK_def, simplified, folded SIZEOF_TASK_def]
  have "task_alloc_struct name type start priority state ?s \<noteq> Some (0, ?s)"
  proof
    assume "task_alloc_struct name type start priority state ?s = Some (0, ?s)"
    then obtain h where "kmalloc SIZEOF_TASK (heap (vm ?s)) = Some (0, h)"
      by (auto simp: task_alloc_struct_def alloc_task_def Let_def elim!: bind_eq_SomeE split: if_splits)
    then show False using k1(1) by simp
  qed
  from struct_stage_reached [OF sample_creation_ok this] obtain r s2 H F S where
    a: "task_alloc_struct name type start priority state ?s = Some (r, s2)" "struct_stage sample_image {} [] {} 100 r ?x sample_no_tasks H F S s2"
    unfolding sample_vm_no_tasks by (auto simp: allocations_init)
  have r: "r \<noteq> 0" using a(2) by (simp add: struct_stage_def)
  obtain h where "kmalloc SIZEOF_TASK (heap (vm ?s)) = Some (r, h)" "sched_frames s2 = pages (kmem h)"
    using a(1) r by (auto simp: task_alloc_struct_def alloc_task_def Let_def sched_frames_def upd_task_def task_at_def elim!: bind_eq_SomeE split: if_splits)
  then have "roomy 1 (sched_frames s2)" using k1(2) by simp
  then obtain t p where p: "page_alloc 4 0 (sched_frames s2) = Some (Some t, p)" "roomy 2 p" using roomy_alloc [of 1 "sched_frames s2" 0] by (auto simp: numeral_2_eq_2)
  then obtain s3 where b: "task_create_kernel_stack r s2 = Some (E_SUCCESS, s3)" "stack_stage sample_image {} [] {} 100 r t ?x sample_no_tasks H F S s3"
    "sched_frames s3 = p" using stack_stage_reached [OF a(2)] by auto
  have "frames_held {(t, 4)} S (pages (kmem (heap (vm s3))))" "kmalloc_ok H F S (heap (vm s3))" using b(2) by (simp_all add: stack_stage_def sched_frames_def)
  note k3 = roomy_kmalloc [OF this(2,1) p(2) [folded b(3), unfolded sched_frames_def], of SIZEOF_VM_SPACE, simplified SIZEOF_VM_SPACE_def, simplified, folded SIZEOF_VM_SPACE_def]
  have nn: "vm_space_new kpgd (vm s3) \<noteq> Some (0, vm s3)" for kpgd
  proof
    assume "vm_space_new kpgd (vm s3) = Some (0, vm s3)"
    then obtain v h where "kmalloc SIZEOF_VM_SPACE (heap (vm s3)) = Some (v, h)" "v = 0"
      by (auto simp: vm_space_new_def Let_def elim!: bind_eq_SomeE split: if_splits)
    then show False using k3(1) by blast
  qed
  have nd: "page_alloc 0 PR_KERNEL (pages (kmem h)) \<noteq> Some (None, pages (kmem h))" if km: "kmalloc SIZEOF_VM_SPACE (heap (vm s3)) = Some (v, h)" for v h
  proof -
    obtain m A where "buddy_ok A (sample_room m) (pages (kmem h))" using k3(2) [OF km] by (auto simp: roomy_def)
    from page_alloc_noneD(2) [OF this, of 0 PR_KERNEL] sample_room_page [of m] show ?thesis by auto
  qed
  have "task_create sample_image (slab_base 100) isr_exit name type start priority state sample_no_tasks =
      finish_create sample_image (slab_base 100) isr_exit r s3"
    unfolding task_create_steps [OF l assms] using a(1) r b(1) by (simp add: SUCCESS_def rotary_const)
  then show ?thesis using finish_outcomes [OF b(2), of isr_exit] nn nd by (fastforce split: option.splits if_splits)
qed


end
