(* ===== verification/Task_Purge.thy ===== *)
theory Task_Purge
  imports Task_Create
begin

text \<open>
  Killed tasks: \<^verbatim>\<open>task_purge\<close> and \<^verbatim>\<open>task_purge_killed_tasks\<close> of \<^verbatim>\<open>kernel/sched/task.c\<close>, which give back the address space, the
  stack and the struct of every killed task, and what the scheduler does when there are some. As long as the current task is not
  one of them the round robin goes on over the others; when it is, its struct is read after it was freed.
\<close>

section \<open>What a task holds\<close>

definition killed :: "sched_state \<Rightarrow> u32 \<Rightarrow> bool" where
  "killed s x \<longleftrightarrow> t_state (tsk s x) = TASK_STATE_KILLED"

text \<open>The blocks of pages of a task: those of its address space, the directory last, and its stack. Its objects on the heap.\<close>

definition task_blocks :: "sched_state \<Rightarrow> u32 \<Rightarrow> block list" where
  "task_blocks s x = space_blocks (vm s) (t_vm_space (tsk s x)) @ [(page_of (kstack_bot (tsk s x) - kstack_size (tsk s x)), 4)]"

definition task_objects :: "sched_state \<Rightarrow> u32 \<Rightarrow> (u32 \<times> nat) set" where
  "task_objects s x = {(x, 128), (t_vm_space (tsk s x), 16)}"

text \<open>
  The tasks \<open>K\<close> can be released: heap and page allocator are in order, no task has the number of the idle task, and what the
  tasks hold is allocated, and to each of them alone.
\<close>

definition releasable :: "kernel_image \<Rightarrow> block set \<Rightarrow> (nat \<Rightarrow> u32 list) \<Rightarrow> (u32 \<Rightarrow> u32 list) \<Rightarrow> u32 set \<Rightarrow> u32 list \<Rightarrow> sched_state \<Rightarrow> bool" where
  "releasable img B H F S K s \<longleftrightarrow> kmalloc_ok H F S (heap (vm s)) \<and> frames_held B S (sched_frames s) \<and> no_kernel_pages img (sched_frames s) \<and>
     distinct (concat (map (task_blocks s) K)) \<and> (\<forall>x\<in>set K. set (task_blocks s x) \<subseteq> B) \<and> distinct (map (\<lambda>x. t_vm_space (tsk s x)) K) \<and>
     (\<forall>x\<in>set K. x \<noteq> 0 \<and> t_id (tsk s x) \<noteq> 0 \<and> kstack_bot (tsk s x) \<noteq> 0 \<and> t_vm_space (tsk s x) \<noteq> 0 \<and>
        task_objects s x \<subseteq> allocations H F (heap (vm s)))"

text \<open>They are released: structs, objects and blocks are given back, all of them and nothing else.\<close>

definition released :: "block set \<Rightarrow> (nat \<Rightarrow> u32 list) \<Rightarrow> (u32 \<Rightarrow> u32 list) \<Rightarrow> u32 set \<Rightarrow> u32 list \<Rightarrow> sched_state \<Rightarrow> sched_state \<Rightarrow> bool" where
  "released B H F S K s s' \<longleftrightarrow> tasks s' = (\<lambda>x. if x \<in> set K then None else tasks s x) \<and>
     (\<exists>F'. kmalloc_ok H F' S (heap (vm s')) \<and>
        allocations H F' (heap (vm s')) = allocations H F (heap (vm s)) - (\<Union>x\<in>set K. task_objects s x)) \<and>
     frames_held (B - (\<Union>x\<in>set K. set (task_blocks s x))) S (sched_frames s')"

section \<open>Releasing one task\<close>

definition release_task :: "kernel_image \<Rightarrow> u32 \<Rightarrow> sched_state \<Rightarrow> sched_state option" where
  "release_task img a s = do {
     s3 \<leftarrow> task_destroy_vm_space img a s;
     s4 \<leftarrow> task_destroy_kernel_stack img a s3;
     free_task a s4
   }"

lemma release_task_run:
  assumes rel: "releasable img B H F S (x # K) s" and x: "tasks s x = Some t" "x \<notin> set K"
  shows "\<exists>h F'. release_task img x s = Some (s\<lparr>vm := (vm s)\<lparr>heap := h\<rparr>, tasks := (tasks s)(x := None)\<rparr>) \<and>
    kmalloc_ok H F' S h \<and> allocations H F' h = allocations H F (heap (vm s)) - task_objects s x \<and>
    frames_held (B - set (task_blocks s x)) S (pages (kmem h)) \<and> no_kernel_pages img (pages (kmem h))"
proof -
  let ?v = "t_vm_space t" and ?b = "(page_of (kstack_bot t - kstack_size t), 4 :: nat)"
  have ok: "kmalloc_ok H F S (heap (vm s))" and held: "frames_held B S (pages (kmem (heap (vm s))))" "no_kernel_pages img (pages (kmem (heap (vm s))))"
    and nz: "x \<noteq> 0" "kstack_bot t \<noteq> 0" "?v \<noteq> 0" and al: "(x, 128) \<in> allocations H F (heap (vm s))" "(?v, 16) \<in> allocations H F (heap (vm s))"
    and bl: "distinct (space_blocks (vm s) ?v @ [?b])" "set (space_blocks (vm s) ?v) \<subseteq> B" "?b \<in> B"
    using rel x(1) by (simp_all add: releasable_def sched_frames_def task_objects_def task_blocks_def)
  from vm_space_destroy_held [OF ok held nz(3) al(2) _ bl(2)] bl(1) obtain h1 F1 where
    h1: "vm_space_destroy img ?v (vm s) = Some ((vm s)\<lparr>heap := h1\<rparr>)" "kmalloc_ok H F1 S h1"
    "allocations H F1 h1 = allocations H F (heap (vm s)) - {(?v, 16)}" "frames_held (B - set (space_blocks (vm s) ?v)) S (pages (kmem h1))"
    "no_kernel_pages img (pages (kmem h1))" by auto
  let ?s1 = "s\<lparr>vm := (vm s)\<lparr>heap := h1\<rparr>\<rparr>"
  have d1: "task_destroy_vm_space img x s = Some ?s1" using nz x(1) h1(1) by (simp add: task_destroy_vm_space_def)
  have "?b \<in> B - set (space_blocks (vm s) ?v)" using bl by auto
  moreover have "frames_held (B - set (space_blocks (vm s) ?v)) S (sched_frames ?s1)" "no_kernel_pages img (sched_frames ?s1)" "tasks ?s1 x = Some t"
    using h1(4,5) x(1) by (simp_all add: sched_frames_def)
  ultimately obtain fr where
    fr: "task_destroy_kernel_stack img x ?s1 = Some (put_frames fr ?s1)" "frames_held (B - set (space_blocks (vm s) ?v) - {?b}) S fr" "no_kernel_pages img fr"
    using stack_free [OF _ _ nz(1) _ nz(2)] by blast
  let ?s2 = "put_frames fr ?s1"
  have p: "sched_frames ?s2 = fr" "heap (vm ?s2) = set_frames fr h1" by (simp_all add: sched_frames_def put_frames_def set_frames_def)
  have ok2: "kmalloc_ok H F1 S (heap (vm ?s2))" unfolding p by (rule kmalloc_ok_set_frames [OF h1(2) frames_held_owns [OF fr(2)]])
  have "(x, 128) \<in> allocations H F1 (heap (vm ?s2))" using al(1) h1(3) by (simp add: p allocations_set_frames)
  moreover have "frames_held (B - set (space_blocks (vm s) ?v) - {?b}) S (sched_frames ?s2)" unfolding p by (rule fr(2))
  ultimately obtain h F' where
    h: "free_task x ?s2 = Some (?s2\<lparr>vm := (vm ?s2)\<lparr>heap := h\<rparr>, tasks := (tasks ?s2)(x := None)\<rparr>)" "kmalloc_ok H F' S h"
    "allocations H F' h = allocations H F1 h1 - {(x, 128)}" "pages (kmem h) = fr" using free_task_held [OF ok2] unfolding p allocations_set_frames by metis
  have "release_task img x s = Some (s\<lparr>vm := (vm s)\<lparr>heap := h\<rparr>, tasks := (tasks s)(x := None)\<rparr>)"
    using d1 fr(1) h(1) by (simp add: release_task_def put_frames_def)
  moreover have "allocations H F' h = allocations H F (heap (vm s)) - task_objects s x" using h(3) h1(3) x(1) by (auto simp: task_objects_def)
  moreover have "B - set (space_blocks (vm s) ?v) - {?b} = B - set (task_blocks s x)" using x(1) by (auto simp: task_blocks_def)
  ultimately show ?thesis using h(2,4) fr(2,3) by auto
qed

text \<open>What the other tasks hold does not change.\<close>

lemma task_holds_cong:
  assumes "tsk s' y = tsk s y" "vm_words (vm s') = vm_words (vm s)" "spaces (vm s') = spaces (vm s)"
  shows "task_blocks s' y = task_blocks s y" "task_objects s' y = task_objects s y"
  using assms by (simp_all add: task_blocks_def task_objects_def space_blocks_def)

lemma releasable_rest:
  assumes rel: "releasable img B H F S (x # K) s" and x: "x \<notin> set K"
    and s': "\<forall>y. y \<noteq> x \<longrightarrow> tasks s' y = tasks s y" "vm_words (vm s') = vm_words (vm s)" "spaces (vm s') = spaces (vm s)"
    and h: "kmalloc_ok H F' S (heap (vm s'))" "allocations H F' (heap (vm s')) = allocations H F (heap (vm s)) - task_objects s x"
      "frames_held (B - set (task_blocks s x)) S (sched_frames s')" "no_kernel_pages img (sched_frames s')"
  shows "releasable img (B - set (task_blocks s x)) H F' S K s'"
proof -
  have t: "tsk s' y = tsk s y" if "y \<in> set K" for y using s'(1) that x by metis
  have hold: "task_blocks s' y = task_blocks s y" "task_objects s' y = task_objects s y" if "y \<in> set K" for y
    using task_holds_cong [OF t [OF that] s'(2,3)] by blast+
  have eq: "map (task_blocks s') K = map (task_blocks s) K" "map (\<lambda>x. t_vm_space (tsk s' x)) K = map (\<lambda>x. t_vm_space (tsk s x)) K"
    using hold(1) t by simp_all
  have "task_objects s y \<subseteq> allocations H F' (heap (vm s'))" if y: "y \<in> set K" for y
  proof -
    have "y \<noteq> x" "t_vm_space (tsk s y) \<noteq> t_vm_space (tsk s x)" using rel x y by (auto simp: releasable_def image_iff)
    moreover have "task_objects s y \<subseteq> allocations H F (heap (vm s))" using rel y by (simp add: releasable_def)
    ultimately show ?thesis unfolding h(2) by (auto simp: task_objects_def)
  qed
  moreover have "set (task_blocks s y) \<subseteq> B - set (task_blocks s x)" if "y \<in> set K" for y
    using rel that by (auto simp: releasable_def)
  ultimately show ?thesis unfolding releasable_def eq using rel h(1,3,4) hold t by (auto simp: releasable_def)
qed

section \<open>Purging\<close>

lemma task_purge_run:
  assumes ok: "tasks_ok (us @ x # vs) s" and k: "killed s x" and ids: "inj_on (\<lambda>y. t_id (tsk s y)) (set (us @ x # vs))"
    and rel: "releasable img B H F S (x # K) s" and xK: "x \<notin> set K"
  shows "\<exists>s' F'. task_purge img (t_id (tsk s x)) s = Some (E_SUCCESS, s') \<and> tasks_ok (us @ vs) s' \<and>
    s' = s\<lparr>tnodes := tnodes s', vm := (vm s)\<lparr>heap := heap (vm s')\<rparr>, tasks := (tasks s)(x := None)\<rparr> \<and>
    kmalloc_ok H F' S (heap (vm s')) \<and> allocations H F' (heap (vm s')) = allocations H F (heap (vm s)) - task_objects s x \<and>
    frames_held (B - set (task_blocks s x)) S (sched_frames s') \<and> no_kernel_pages img (sched_frames s')"
proof -
  obtain t where t: "tasks s x = Some t" using ok by (auto simp: tasks_ok_def)
  have xs: "distinct (us @ x # vs)" by (rule tasks_ok_distinct [OF ok])
  have "find (\<lambda>y. t_id (tsk s y) = t_id (tsk s x)) (us @ x # vs) \<noteq> None" by (auto simp: find_None_iff)
  then obtain y where y: "find (\<lambda>y. t_id (tsk s y) = t_id (tsk s x)) (us @ x # vs) = Some y" by blast
  then have "t_id (tsk s y) = t_id (tsk s x)" "y \<in> set (us @ x # vs)" "x \<in> set (us @ x # vs)" by (auto dest!: find_SomeD)
  then have "y = x" by (rule inj_onD [OF ids])
  then have g: "task_get_from_id (t_id (tsk s x)) s = Some (Some (TaskNode x), s)" using task_get_from_id_ok [OF ok] y by simp
  have "clist (tnodes s) TaskHead (map TaskNode us @ TaskNode x # map TaskNode vs)" using ok by (simp add: tasks_ok_def)
  then obtain ns where ns: "clist_delete_node (Some (TaskNode x)) (tnodes s) = Some ns" "clist ns TaskHead (map TaskNode us @ map TaskNode vs)"
    by (rule clist_delete_correct) blast
  let ?s = "s\<lparr>task_lock := True, tnodes := ns\<rparr>"
  have same: "task_blocks ?s = task_blocks s" "task_objects ?s = task_objects s" by (simp_all add: fun_eq_iff task_blocks_def task_objects_def)
  have "releasable img B H F S (x # K) ?s" using rel by (simp add: releasable_def same sched_frames_def)
  from release_task_run [OF this _ xK] t obtain h F' where
    h: "release_task img x ?s = Some (?s\<lparr>vm := (vm s)\<lparr>heap := h\<rparr>, tasks := (tasks s)(x := None)\<rparr>)" "kmalloc_ok H F' S h"
    "allocations H F' h = allocations H F (heap (vm s)) - task_objects s x" "frames_held (B - set (task_blocks s x)) S (pages (kmem h))"
    "no_kernel_pages img (pages (kmem h))" unfolding same by auto
  let ?s' = "s\<lparr>tnodes := ns, vm := (vm s)\<lparr>heap := h\<rparr>, tasks := (tasks s)(x := None)\<rparr>"
  obtain s3 s4 where r: "task_destroy_vm_space img x ?s = Some s3" "task_destroy_kernel_stack img x s3 = Some s4"
    "free_task x s4 = Some (?s\<lparr>vm := (vm s)\<lparr>heap := h\<rparr>, tasks := (tasks s)(x := None)\<rparr>)"
    using h(1) unfolding release_task_def by (auto elim!: bind_eq_SomeE)
  have l: "\<not> task_lock s" using ok by (simp add: tasks_ok_def)
  have "release (?s\<lparr>vm := (vm s)\<lparr>heap := h\<rparr>, tasks := (tasks s)(x := None)\<rparr>) = ?s'" using l by (cases s) (simp add: release_def unlock_def)
  moreover have "t_id (tsk s x) \<noteq> 0" using rel by (simp add: releasable_def)
  ultimately have "task_purge img (t_id (tsk s x)) s = Some (E_SUCCESS, ?s')"
    using g t k l ns(1) r by (simp add: task_purge_def killed_def)
  moreover have "tasks_ok (us @ vs) ?s'" using ok ns(2) xs by (auto simp: tasks_ok_def)
  ultimately show ?thesis using h(2-5) by (intro exI [of _ ?s'] exI [of _ F']) (simp add: sched_frames_def)
qed

text \<open>The loop over the list of tasks, with \<open>us\<close> already visited: exactly the killed tasks are released, and only they leave the list.\<close>

definition only_released :: "sched_state \<Rightarrow> sched_state \<Rightarrow> bool" where
  "only_released s s' \<longleftrightarrow> (\<exists>ns h ts. s' = s\<lparr>tnodes := ns, vm := (vm s)\<lparr>heap := h\<rparr>, tasks := ts\<rparr>)"

lemma only_released_trans: "only_released s s1 \<Longrightarrow> only_released s1 s2 \<Longrightarrow> only_released s s2"
  by (force simp: only_released_def)

lemma only_released_refl: "only_released s s"
proof -
  have "s = s\<lparr>tnodes := tnodes s, vm := (vm s)\<lparr>heap := heap (vm s)\<rparr>, tasks := tasks s\<rparr>" by simp
  then show ?thesis unfolding only_released_def by blast
qed

lemma releasedI:
  assumes "releasable img B H F S (x # K) s" "x \<notin> set K"
    and s1: "tasks s1 = (tasks s)(x := None)" "vm_words (vm s1) = vm_words (vm s)" "spaces (vm s1) = spaces (vm s)"
      "allocations H F1 (heap (vm s1)) = allocations H F (heap (vm s)) - task_objects s x"
    and s2: "released (B - set (task_blocks s x)) H F1 S K s1 s2"
  shows "released B H F S (x # K) s s2"
proof -
  have "tsk s1 y = tsk s y" if "y \<in> set K" for y using s1(1) that assms(2) by auto
  from task_holds_cong [OF this s1(2,3)] have hold: "task_blocks s1 y = task_blocks s y" "task_objects s1 y = task_objects s y" if "y \<in> set K" for y
    using that by blast+
  then have u: "(\<Union>y\<in>set K. task_objects s1 y) = (\<Union>y\<in>set K. task_objects s y)" "(\<Union>y\<in>set K. set (task_blocks s1 y)) = (\<Union>y\<in>set K. set (task_blocks s y))"
    by simp_all
  show ?thesis using s2 s1(1) unfolding released_def u s1(4) by (auto simp: fun_eq_iff Diff_eq Int_assoc)
qed

lemma purge_loop_all:
  assumes "tasks_ok (us @ ys) s" and "inj_on (\<lambda>y. t_id (tsk s y)) (set (us @ ys))" and "releasable img B H F S (filter (killed s) ys) s"
  shows "\<exists>s'. purge_loop img (Some (hd (map TaskNode ys @ [TaskHead]))) s = Some s' \<and> tasks_ok (us @ filter (\<lambda>x. \<not> killed s x) ys) s' \<and>
    released B H F S (filter (killed s) ys) s s' \<and> only_released s s'"
  using assms
proof (induction ys arbitrary: us s B F)
  case Nil
  then show ?case using only_released_refl by (simp add: purge_loop.simps released_def releasable_def) blast
next
  case (Cons y ys)
  have d: "distinct (us @ y # ys)" by (rule tasks_ok_distinct [OF Cons.prems(1)])
  have "chain (tnodes s) (TaskNode y) (map TaskNode ys) TaskHead" using Cons.prems(1) by (simp add: tasks_ok_def clist_def chain_append)
  then have nx: "next_node (tnodes s (TaskNode y)) = Some (hd (map TaskNode ys @ [TaskHead]))" by (cases ys) simp_all
  obtain t where t: "tasks s y = Some t" using Cons.prems(1) by (auto simp: tasks_ok_def)
  show ?case
  proof (cases "killed s y")
    case False
    then have step: "purge_loop img (Some (hd (map TaskNode (y # ys) @ [TaskHead]))) s = purge_loop img (Some (hd (map TaskNode ys @ [TaskHead]))) s"
      using t nx by (subst purge_loop.simps) (simp add: killed_def)
    show ?thesis unfolding step using Cons.IH [of "us @ [y]" s B F] Cons.prems False by simp
  next
    case True
    let ?K = "filter (killed s) ys"
    have rel: "releasable img B H F S (y # ?K) s" and yK: "y \<notin> set ?K" using Cons.prems(3) True d by simp_all
    from task_purge_run [OF Cons.prems(1) True Cons.prems(2) rel yK] obtain s1 F1 where
      s1: "task_purge img (t_id (tsk s y)) s = Some (E_SUCCESS, s1)" "tasks_ok (us @ ys) s1"
      "s1 = s\<lparr>tnodes := tnodes s1, vm := (vm s)\<lparr>heap := heap (vm s1)\<rparr>, tasks := (tasks s)(y := None)\<rparr>"
      "kmalloc_ok H F1 S (heap (vm s1))" "allocations H F1 (heap (vm s1)) = allocations H F (heap (vm s)) - task_objects s y"
      "frames_held (B - set (task_blocks s y)) S (sched_frames s1)" "no_kernel_pages img (sched_frames s1)" by blast
    have f1: "tasks s1 = (tasks s)(y := None)" "vm_words (vm s1) = vm_words (vm s)" "spaces (vm s1) = spaces (vm s)" by (subst s1(3), simp)+
    have only: "only_released s s1" using s1(3) unfolding only_released_def by blast
    have k1: "killed s1 z = killed s z" "tsk s1 z = tsk s z" if "z \<in> set us \<union> set ys" for z using d that f1(1) by (auto simp: killed_def)
    have K1: "filter (killed s1) ys = ?K" "filter (\<lambda>x. \<not> killed s1 x) ys = filter (\<lambda>x. \<not> killed s x) ys" using k1(1) by (auto intro: filter_cong)
    have "releasable img (B - set (task_blocks s y)) H F1 S ?K s1" using releasable_rest [OF rel yK _ f1(2,3) s1(4-7)] f1(1) by simp
    moreover have "inj_on (\<lambda>z. t_id (tsk s1 z)) (set (us @ ys))"
      using inj_on_subset [OF Cons.prems(2), of "set (us @ ys)"] k1(2) by (auto simp: inj_on_def)
    ultimately obtain s' where s': "purge_loop img (Some (hd (map TaskNode ys @ [TaskHead]))) s1 = Some s'"
      "tasks_ok (us @ filter (\<lambda>x. \<not> killed s x) ys) s'" "released (B - set (task_blocks s y)) H F1 S ?K s1 s'" "only_released s1 s'"
      using Cons.IH [OF s1(2), of "B - set (task_blocks s y)" F1] unfolding K1 by blast
    have "purge_loop img (Some (hd (map TaskNode (y # ys) @ [TaskHead]))) s = Some s'"
      using t nx s1(1) s'(1) True by (subst purge_loop.simps) (simp add: killed_def)
    moreover have "released B H F S (y # ?K) s s'" by (rule releasedI [OF rel yK f1 s1(5) s'(3)])
    ultimately show ?thesis using s'(2) only_released_trans [OF only s'(4)] True by auto
  qed
qed

lemma purge_killed:
  assumes "tasks_ok xs s" and "inj_on (\<lambda>y. t_id (tsk s y)) (set xs)" and "releasable img B H F S (filter (killed s) xs) s"
  shows "\<exists>s'. task_purge_killed_tasks img s = Some s' \<and> tasks_ok (filter (\<lambda>x. \<not> killed s x) xs) s' \<and>
    released B H F S (filter (killed s) xs) s s' \<and> only_released s s'"
proof -
  have "next_node (tnodes s TaskHead) = Some (hd (map TaskNode xs @ [TaskHead]))"
    using assms(1) by (cases xs) (simp_all add: tasks_ok_def clist_def)
  then show ?thesis using purge_loop_all [of "[]" xs s img B H F S] assms by (simp add: task_purge_killed_tasks_def)
qed

section \<open>The scheduler with killed tasks\<close>

text \<open>The scheduler in order, killed tasks allowed: exactly the current task is in state RUNNING, every task has an address space.\<close>

definition sched_ready :: "u32 list \<Rightarrow> u32 \<Rightarrow> sched_state \<Rightarrow> bool" where
  "sched_ready xs c s \<longleftrightarrow> tasks_ok xs s \<and> sched_enabled s \<and> c \<in> set xs \<and> current_task s = TaskNode c \<and>
     (\<forall>x\<in>set xs. (t_state (tsk s x) = TASK_STATE_RUNNING \<longleftrightarrow> x = c) \<and> t_vm_space (tsk s x) \<noteq> 0)"

lemma releasable_cong:
  assumes "\<forall>x\<in>set K. tsk s' x = tsk s x" and "vm s' = vm s"
  shows "releasable img B H F S K s' = releasable img B H F S K s"
proof -
  have h: "task_blocks s' x = task_blocks s x" "task_objects s' x = task_objects s x" if "x \<in> set K" for x
    using task_holds_cong [of s' x s] assms that by simp_all
  then have eq: "map (task_blocks s') K = map (task_blocks s) K" "map (\<lambda>x. t_vm_space (tsk s' x)) K = map (\<lambda>x. t_vm_space (tsk s x)) K"
    using assms(1) by simp_all
  show ?thesis unfolding releasable_def sched_frames_def eq using h assms by simp
qed

lemma releasable_single:
  assumes "tsk s' x = (tsk s x)\<lparr>t_state := st\<rparr>" and "vm s' = vm s"
  shows "releasable img B H F S [x] s' = releasable img B H F S [x] s"
  unfolding releasable_def task_blocks_def task_objects_def sched_frames_def using assms by simp

text \<open>A tick first releases the killed tasks and then goes on as if they had never been there.\<close>

lemma schedule_after_purge:
  assumes rd: "sched_ready xs c s" and ids: "inj_on (\<lambda>y. t_id (tsk s y)) (set xs)" and rel: "releasable img B H F S (filter (killed s) xs) s"
  shows "\<exists>s2. task_schedule img s = task_schedule img s2 \<and> sched_ok (filter (\<lambda>x. \<not> killed s x) xs) c s2 \<and>
    released B H F S (filter (killed s) xs) s s2 \<and> spaces (vm s2) = spaces (vm s)"
proof -
  let ?K = "filter (killed s) xs" and ?ys = "filter (\<lambda>x. \<not> killed s x) xs"
  have ok: "tasks_ok xs s" and c: "c \<in> set xs" "current_task s = TaskNode c" and en: "sched_enabled s"
    and st: "t_state (tsk s c) = TASK_STATE_RUNNING" using rd by (auto simp: sched_ready_def)
  obtain t where t: "tasks s c = Some t" using ok c by (auto simp: tasks_ok_def)
  let ?s1 = "s\<lparr>tasks := (tasks s)(c \<mapsto> t\<lparr>t_ticks := t_ticks t + 1\<rparr>)\<rparr>"
  have cK: "\<not> killed s c" using st by (simp add: killed_def rotary_const)
  have k1: "killed ?s1 = killed s" by (rule ext) (simp add: killed_def t)
  have ids1: "(\<lambda>y. t_id (tsk ?s1 y)) = (\<lambda>y. t_id (tsk s y))" by (rule ext) (simp add: t)
  have same: "\<forall>x\<in>set ?K. tsk ?s1 x = tsk s x" using cK by auto
  have "releasable img B H F S ?K ?s1" using releasable_cong [OF same, of img B H F S] rel by simp
  moreover have "tasks_ok xs ?s1" using ok by (auto simp: tasks_ok_def)
  ultimately obtain s2 where s2: "task_purge_killed_tasks img ?s1 = Some s2" "tasks_ok ?ys s2" "released B H F S ?K ?s1 s2" "only_released ?s1 s2"
    using purge_killed [of xs ?s1 img B H F S] ids unfolding k1 ids1 by blast
  let ?s = "s2\<lparr>tasks := (tasks s2)(c \<mapsto> t)\<rparr>"
  have tk: "tasks s2 = (\<lambda>x. if x \<in> set ?K then None else tasks ?s1 x)" using s2(3) by (simp add: released_def)
  then have ts: "tasks ?s = (\<lambda>x. if x \<in> set ?K then None else tasks s x)" using t cK by (auto simp: fun_eq_iff)
  have rest: "sched_enabled s2 = sched_enabled s" "current_task s2 = current_task s" "spaces (vm s2) = spaces (vm s)" "task_lock s2 = task_lock s"
    "task_head s2 = task_head s" using s2(4) by (auto simp: only_released_def)
  have "tasks_ok ?ys ?s" using s2(2) t by (auto simp: tasks_ok_def)
  moreover have "tsk ?s x = tsk s x" if "x \<in> set ?ys" for x using that unfolding ts by simp
  ultimately have okn: "sched_ok ?ys c ?s" using rd cK rest unfolding sched_ok_def sched_ready_def by (auto simp: killed_def)
  have c2: "tasks s2 c = Some (t\<lparr>t_ticks := t_ticks t + 1\<rparr>)" unfolding tk using cK by simp
  have undo: "?s\<lparr>tasks := (tasks ?s)(c \<mapsto> t\<lparr>t_ticks := t_ticks t + 1\<rparr>)\<rparr> = s2" using c2 by (cases s2) (simp add: map_upd_triv)
  have "\<forall>y\<in>set ?ys. tasks s2 y \<noteq> None \<and> t_state (tsk s2 y) \<noteq> TASK_STATE_KILLED"
  proof
    fix y assume y: "y \<in> set ?ys"
    then have "tasks s2 y = tasks ?s1 y" unfolding tk by simp
    then have "t_state (tsk s2 y) = t_state (tsk s y)" using t by simp
    then show "tasks s2 y \<noteq> None \<and> t_state (tsk s2 y) \<noteq> TASK_STATE_KILLED" using y s2(2) by (auto simp: killed_def tasks_ok_def)
  qed
  then have idle: "task_purge_killed_tasks img s2 = Some s2"
    unfolding task_purge_killed_tasks_def using s2(2) by (intro purge_loop_idle) (auto simp: tasks_ok_def clist_def)
  have "task_schedule img s = task_schedule img ?s"
    unfolding task_schedule_def using en c(2) t s2(1) rest(1,2) undo idle by simp
  moreover have "released B H F S ?K s ?s"
  proof -
    have "task_objects ?s1 x = task_objects s x" "task_blocks ?s1 x = task_blocks s x" if "x \<in> set ?K" for x
      using task_holds_cong [of ?s1 x s] same that by simp_all
    then have "(\<Union>x\<in>set ?K. task_objects ?s1 x) = (\<Union>x\<in>set ?K. task_objects s x)"
      "(\<Union>x\<in>set ?K. set (task_blocks ?s1 x)) = (\<Union>x\<in>set ?K. set (task_blocks s x))" by simp_all
    then show ?thesis using s2(3) ts unfolding released_def by (simp add: sched_frames_def)
  qed
  ultimately show ?thesis using okn rest(3) by (intro exI [of _ ?s]) simp
qed


text \<open>
  C26: A task cannot leave. After \<^verbatim>\<open>task_exit_current\<close> of a task other than the idle one, the next timer tick counts the tick
  and purges: the struct of the current task is freed (it is no longer an allocation of the heap) while the
  current task is still that struct. The scheduler then reads the freed struct to find the next task, so the tick has no defined outcome.
\<close>
theorem task_exit_then_schedule_undefined:
  assumes "sched_ok xs c s" and "inj_on (\<lambda>y. t_id (tsk s y)) (set xs)" and "releasable img B H F S [c] s"
  shows "\<exists>s1 s2 s3 F'. task_exit_current s = Some (E_SUCCESS, s1) \<and>
    upd_task (current_task s1) (\<lambda>t. t\<lparr>t_ticks := t_ticks t + 1\<rparr>) s1 = Some s2 \<and> task_purge_killed_tasks img s2 = Some s3 \<and>
    kmalloc_ok H F' S (heap (vm s3)) \<and> (c, 128) \<in> allocations H F (heap (vm s2)) \<and> (c, 128) \<notin> allocations H F' (heap (vm s3)) \<and>
    current_task s3 = TaskNode c \<and> task_at s3 (current_task s3) = None \<and> task_schedule img s1 = None"
proof -
  have ok0: "tasks_ok xs s" and c: "c \<in> set xs" "current_task s = TaskNode c" and en: "sched_enabled s"
    and nk: "\<forall>x\<in>set xs. t_state (tsk s x) \<noteq> TASK_STATE_KILLED" using assms(1) by (auto simp: sched_ok_def)
  obtain t where t: "tasks s c = Some t" using ok0 c by (auto simp: tasks_ok_def)
  let ?s1 = "s\<lparr>tasks := (tasks s)(c \<mapsto> t\<lparr>t_state := TASK_STATE_KILLED\<rparr>), task_lock := False\<rparr>"
  let ?s2 = "?s1\<lparr>tasks := (tasks s)(c \<mapsto> t\<lparr>t_state := TASK_STATE_KILLED, t_ticks := t_ticks t + 1\<rparr>)\<rparr>"
  have exit: "task_exit_current s = Some (E_SUCCESS, ?s1)" using ok0 c t by (simp add: task_exit_current_def tasks_ok_def release_def)
  have tick: "upd_task (current_task ?s1) (\<lambda>t. t\<lparr>t_ticks := t_ticks t + 1\<rparr>) ?s1 = Some ?s2" using c(2) by simp
  have ok2: "tasks_ok xs ?s2" using ok0 by (auto simp: tasks_ok_def)
  have K: "filter (killed ?s2) xs = [c]"
  proof -
    have "killed ?s2 x \<longleftrightarrow> x = c" if "x \<in> set xs" for x using nk that by (simp add: killed_def)
    then have e: "filter (killed ?s2) xs = filter (\<lambda>x. x = c) xs" by (rule filter_cong [OF refl])
    obtain us vs where xs: "xs = us @ c # vs" "c \<notin> set us" "c \<notin> set vs" using split_at [OF tasks_ok_distinct [OF ok0] c(1)] by blast
    then have "filter (\<lambda>x. x = c) us = []" "filter (\<lambda>x. x = c) vs = []" by (auto simp: filter_empty_conv)
    then have "filter (\<lambda>x. x = c) xs = [c]" unfolding xs(1) by simp
    then show ?thesis by (simp only: e)
  qed
  have ids: "(\<lambda>y. t_id (tsk ?s2 y)) = (\<lambda>y. t_id (tsk s y))" by (rule ext) (simp add: t)
  have rel: "releasable img B H F S [c] ?s2" using assms(3) t
    by (simp add: releasable_def task_blocks_def task_objects_def sched_frames_def)
  from purge_killed [OF ok2, unfolded ids K, OF assms(2) rel] obtain s3 where
    s3: "task_purge_killed_tasks img ?s2 = Some s3" "released B H F S [c] ?s2 s3" "only_released ?s2 s3" by blast
  have f: "tasks s3 c = None" "current_task s3 = TaskNode c" using s3(2,3) c(2) by (auto simp: released_def only_released_def)
  obtain F' where F': "kmalloc_ok H F' S (heap (vm s3))" "(c, 128) \<notin> allocations H F' (heap (vm s3))"
    using s3(2) by (auto simp: released_def task_objects_def)
  have "(c, 128) \<in> allocations H F (heap (vm ?s2))" using rel by (simp add: releasable_def task_objects_def)
  moreover have "task_schedule img ?s1 = None" using en tick s3(1) f by (simp add: task_schedule_def)
  ultimately show ?thesis using exit tick s3(1) f F' by (intro exI [of _ ?s1] exI [of _ ?s2] exI [of _ s3] exI [of _ F']) simp
qed

section \<open>A sample\<close>

text \<open>The task created on the 64 free pages can be released: it holds its stack, its directory, its struct and its space, and nothing else.\<close>

lemma sample_space_pages:
  assumes "\<forall>i<1024. w (cell d i) = 0"
  shows "space_pages w (slab_base d) = [slab_base d]"
proof -
  have "entry_pages w (w (slab_base d + 4 * of_nat i)) = []" if "i < 768" for i
    using assms that by (simp add: entry_pages_def PDE_EXISTS_def flip: cell_def)
  then show ?thesis by (simp add: space_pages_def)
qed

lemma sample_task_releasable:
  "\<exists>r s t d H F S. tasks_ok [r] s \<and> t_id (tsk s r) = 1 \<and> releasable sample_image {(t, 4), (d, 0)} H F S [r] s \<and>
     allocations H F (heap (vm s)) = task_objects s r \<and> set (task_blocks s r) = {(t, 4), (d, 0)} \<and> t_vm_space (tsk s r) \<noteq> 0"
proof -
  have arg: "TASK_STATE_WAITING = TASK_STATE_PAUSED \<or> TASK_STATE_WAITING = TASK_STATE_WAITING" "TASK_PRIORITY_MIN \<le> 5" "5 \<le> TASK_PRIORITY_MAX"
    by (simp_all add: rotary_const)
  obtain r s where r: "task_create sample_image (slab_base 100) 0xC0101000 0x5000 1 0xC0102000 5 TASK_STATE_WAITING sample_no_tasks = Some (r, s)" "r \<noteq> 0"
    using sample_creates [OF arg] by blast
  have al0: "allocations (\<lambda>_. []) (\<lambda>_. []) (heap (vm sample_no_tasks)) = {}" unfolding sample_vm_no_tasks by (simp add: allocations_init)
  have "created 0xC0101000 100 {} [] {} r (new_struct 1 1 0xC0102000 5 TASK_STATE_WAITING) sample_no_tasks s"
    using task_create_run [OF sample_creation_ok arg, where isr_exit = "0xC0101000" and name = "0x5000" and type = 1 and start = "0xC0102000"] r
    unfolding al0 by (simp add: sample_no_tasks_def)
  then obtain H F S v t d where ok: "tasks_ok [r] s" and vp: "valid_pages (sched_frames s) = valid_pages sample_free"
    and h: "kmalloc_ok H F S (heap (vm s))" "allocations H F (heap (vm s)) = {(r, 128), (v, 16)}" "v \<noteq> 0"
    and fr: "frames_held {(t, 4), (d, 0)} S (sched_frames s)"
    and x: "tasks s r = Some ((new_struct 1 1 0xC0102000 5 TASK_STATE_WAITING)\<lparr>kstack_size := 65536, kstack_bot := slab_base t + 65536,
      kstack_top := slab_base t + 65536 - 84, t_vm_space := v\<rparr>)"
    and pgd: "sp_pgd (spaces (vm s) v) = VIR_TO_PHY (slab_base d)" and w: "\<forall>i<1024. vm_words (vm s) (cell d i) = 0"
    unfolding created_def sample_frames_no_tasks sample_vm_no_tasks by (auto simp: sample_vm_def)
  have "valid_pages sample_free = {0..<64}" by (rule sample_valid) (simp add: sample_free_def)
  then have "t + 16 < 2 ^ 18" "d < 2 ^ 18" using frames_held_page [OF fr, of t 4] frames_held_page [OF fr, of d 0] vp by simp_all
  then have p: "page_of (slab_base t) = t" "page_of (slab_base d) = d" "slab_base t + 65536 \<noteq> 0"
    using page_of_slab_base with_stack_block [of t zero_task] by (auto simp: stack_block_def with_stack_def split: if_splits)
  have sp: "space_blocks (vm s) v = [(d, 0)]" using sample_space_pages [OF w] by (simp add: space_blocks_def pgd p(2))
  have b: "task_blocks s r = [(d, 0), (t, 4)]" and o: "task_objects s r = {(r, 128), (v, 16)}"
    using x sp p(1) by (simp_all add: task_blocks_def task_objects_def)
  have "no_kernel_pages sample_image (sched_frames s)" using sample_no_kernel vp by (simp add: no_kernel_pages_def)
  then have "releasable sample_image {(t, 4), (d, 0)} H F S [r] s" unfolding releasable_def
    using h fr r(2) x p(3) b o by (simp add: new_struct_def)
  then show ?thesis using ok x h b o by (intro exI [of _ r] exI [of _ s] exI [of _ t] exI [of _ d] exI [of _ H] exI [of _ F] exI [of _ S])
    (auto simp: new_struct_def)
qed


text \<open>The created task runs, leaves, and is freed under the scheduler.\<close>
theorem task_exit_then_schedule_undefined_witness:
  "\<exists>r s H F S. sched_ok [r] r s \<and> (\<exists>s1 s2 s3 F'. task_exit_current s = Some (E_SUCCESS, s1) \<and>
     upd_task (current_task s1) (\<lambda>t. t\<lparr>t_ticks := t_ticks t + 1\<rparr>) s1 = Some s2 \<and> task_purge_killed_tasks sample_image s2 = Some s3 \<and>
     kmalloc_ok H F' S (heap (vm s3)) \<and> (r, 128) \<in> allocations H F (heap (vm s2)) \<and> (r, 128) \<notin> allocations H F' (heap (vm s3)) \<and>
     current_task s3 = TaskNode r \<and> task_at s3 (current_task s3) = None \<and> task_schedule sample_image s1 = None)"
proof -
  obtain r s t d H F S where r: "tasks_ok [r] s" "releasable sample_image {(t, 4), (d, 0)} H F S [r] s" "t_vm_space (tsk s r) \<noteq> 0"
    using sample_task_releasable by blast
  let ?s = "s\<lparr>sched_enabled := True, current_task := TaskNode r, tasks := (tasks s)(r \<mapsto> (tsk s r)\<lparr>t_state := TASK_STATE_RUNNING\<rparr>)\<rparr>"
  have ok: "sched_ok [r] r ?s" using r(1,3) by (simp add: sched_ok_def tasks_ok_def rotary_const)
  have tr: "tsk ?s r = (tsk s r)\<lparr>t_state := TASK_STATE_RUNNING\<rparr>" by simp
  have "releasable sample_image {(t, 4), (d, 0)} H F S [r] ?s"
    using releasable_single [OF tr, of sample_image "{(t, 4), (d, 0)}" H F S] r(2) by simp
  moreover have "inj_on (\<lambda>y. t_id (tsk ?s y)) (set [r])" by simp
  ultimately show ?thesis
    by (intro exI [of _ r] exI [of _ ?s] exI [of _ H] exI [of _ F] exI [of _ S] conjI ok task_exit_then_schedule_undefined [OF ok])
qed

end
