(* ===== verification/Multiboot_Report.thy ===== *)
theory Multiboot_Report
  imports Reports
begin

text \<open>
  What \<^verbatim>\<open>multiboot_parse\<close> (\<^verbatim>\<open>arch/x86/kernel/multiboot.c\<close>) reports about the information of the boot loader while it
  registers the memory map (theory \<open>Multiboot\<close>): the flags decide which parts are printed. A line is returned with
  the memory it was printed from, because the two arrays for the bounds of a region are written anew for every region.
\<close>

section \<open>The information\<close>

record multiboot_details = multiboot_info +
  mem_lower :: u32
  mem_upper :: u32
  boot_device :: u32
  mb_cmdline :: u32
  mods_count :: u32
  mods_addr :: u32
  boot_loader_name :: u32

record multiboot_module =
  mod_start :: u32
  mod_end :: u32
  mod_cmdline :: u32

definition MULTIBOOT_INFO_MEMORY :: u32 where [rotary_const]: "MULTIBOOT_INFO_MEMORY = 0x01"
definition MULTIBOOT_INFO_BOOTDEV :: u32 where [rotary_const]: "MULTIBOOT_INFO_BOOTDEV = 0x02"
definition MULTIBOOT_INFO_CMDLINE :: u32 where [rotary_const]: "MULTIBOOT_INFO_CMDLINE = 0x04"
definition MULTIBOOT_INFO_MODS :: u32 where [rotary_const]: "MULTIBOOT_INFO_MODS = 0x08"
definition MULTIBOOT_INFO_BOOT_LOADER_NAME :: u32 where [rotary_const]: "MULTIBOOT_INFO_BOOT_LOADER_NAME = 0x200"

definition read_module :: "(u32 \<Rightarrow> u32) \<Rightarrow> u32 \<Rightarrow> multiboot_module" where
  "read_module w a = \<lparr>mod_start = w a, mod_end = w (a + 4), mod_cmdline = w (a + 8)\<rparr>"

section \<open>The lines\<close>

text \<open>\<open>param\<close> is the address of the parameter \<^verbatim>\<open>info\<close> on the stack, which the second line prints as that of the struct.\<close>

definition header_lines :: "u32 \<Rightarrow> multiboot_details \<Rightarrow> report" where
  "header_lines param info =
     [(nl ''--- Multiboot Info ---'', []),
      (nl ''Struct@:  0x%x'', [Word param]),
      (nl ''Flags:    0x%x'', [Word (mb_flags info)]),
      (nl ''MemLow:   0x%x'', [Word (mem_lower info)]),
      (nl ''MemUpp:   0x%x'', [Word (mem_upper info)]),
      (nl ''MmapLen:  %d'', [Word (mmap_length info)]),
      (nl ''MmapAddr: 0x%x'', [Word (mmap_addr info)])] @
     (if mb_flags info AND MULTIBOOT_INFO_MEMORY \<noteq> 0
      then [(nl ''Lower memory: %dKB'', [Word (mem_lower info)]), (nl ''Upper memory: %dKB'', [Word (mem_upper info)])] else []) @
     (if mb_flags info AND MULTIBOOT_INFO_BOOTDEV \<noteq> 0 then [(nl ''Boot device: 0x%x'', [Word (boot_device info)])] else []) @
     (if mb_flags info AND MULTIBOOT_INFO_CMDLINE \<noteq> 0
      then [(nl ''Command line (at 0x%x): %s'', [Word (mb_cmdline info), String_At (mb_cmdline info)])] else [])"

definition module_lines :: "(u32 \<Rightarrow> u32) \<Rightarrow> multiboot_details \<Rightarrow> nat \<Rightarrow> report" where
  "module_lines w info i =
     (let md = read_module w (mods_addr info + of_nat i * 16)
      in [(nl ''Module %d start: 0x%x'', [Word (of_nat i), Word (mod_start md)]),
          (nl ''Module %d end: 0x%x'', [Word (of_nat i), Word (mod_end md)]),
          (nl ''Module %d command line: %s'', [Word (of_nat i), String_At (mod_cmdline md)])])"

definition modules_report :: "(u32 \<Rightarrow> u32) \<Rightarrow> multiboot_details \<Rightarrow> report" where
  "modules_report w info =
     (if mb_flags info AND MULTIBOOT_INFO_MODS \<noteq> 0
      then (nl ''Modules count: %d'', [Word (mods_count info)]) # concat (map (module_lines w info) [0..<unat (mods_count info)])
      else [])"

text \<open>
  A 64-bit argument takes two words of the argument list, low half first. \<open>sb\<close> and \<open>eb\<close> are the addresses of the
  two local arrays.
\<close>

definition word_pair :: "u64 \<Rightarrow> report_arg list" where
  "word_pair v = [Word (ucast v), Word (ucast (drop_bit 32 v))]"

definition found_line :: "mmap_entry \<Rightarrow> string \<times> report_arg list" where
  "found_line e = (nl ''Found appropriate mem. region, start: 0x%x, end: 0x%x'', word_pair (me_addr e) @ word_pair (me_addr e + me_len e))"

definition region_lines :: "kernel_image \<Rightarrow> u32 \<Rightarrow> u32 \<Rightarrow> mmap_entry \<Rightarrow> mem \<Rightarrow> ((report \<times> mem) list \<times> mem) option" where
  "region_lines k sb eb e m = do {
     m1 \<leftarrow> uint64_to_str (me_addr e) sb 16 m;
     m2 \<leftarrow> uint64_to_str (me_addr e + me_len e) eb 16 m1;
     let type = (if me_type e = MULTIBOOT_MEMORY_AVAILABLE then ''Available'' else ''Reserved'');
     Some ([([(nl ''Memory region: 0x%s -> 0x%s (%s)'', [String_At sb, String_At eb, Text type])], m2)] @
       (if holds_kernel_end k e then [([found_line e], m2)] else []), m2)
   }"

partial_function (option) mmap_report ::
  "kernel_image \<Rightarrow> (u32 \<Rightarrow> u32) \<Rightarrow> u32 \<Rightarrow> u32 \<Rightarrow> u32 \<Rightarrow> u32 \<Rightarrow> mem \<Rightarrow> ((report \<times> mem) list \<times> mem) option" where
  "mmap_report k w sb eb stop mmap m =
     (if mmap < stop
      then do {
        let e = read_entry w mmap;
        (ls, m1) \<leftarrow> region_lines k sb eb e m;
        (rs, m2) \<leftarrow> mmap_report k w sb eb stop (mmap + me_size e + 4) m1;
        Some (ls @ rs, m2)
      }
      else Some ([], m))"

definition multiboot_report ::
  "kernel_image \<Rightarrow> (u32 \<Rightarrow> u32) \<Rightarrow> u32 \<Rightarrow> u32 \<Rightarrow> u32 \<Rightarrow> u32 \<Rightarrow> multiboot_details \<Rightarrow> mem \<Rightarrow> ((report \<times> mem) list \<times> mem) option" where
  "multiboot_report k w sb eb param mboot_magic info m =
     (if mboot_magic \<noteq> MULTIBOOT_BOOTLOADER_MAGIC
      then Some ([([(nl ''Invalid Multiboot magic bytes! Got 0x%x, expected 0x%x'', [Word mboot_magic, Word MULTIBOOT_BOOTLOADER_MAGIC])], m)], m)
      else do {
        (rs, m1) \<leftarrow> (if mb_flags info AND MULTIBOOT_INFO_MEM_MAP \<noteq> 0
                    then mmap_report k w sb eb (mmap_addr info + mmap_length info) (mmap_addr info) m else Some ([], m));
        Some ([(header_lines param info @ modules_report w info, m)] @ rs @
          (if mb_flags info AND MULTIBOOT_INFO_BOOT_LOADER_NAME \<noteq> 0
           then [([(nl ''Boot loader name: %s'', [String_At (boot_loader_name info)])], m1)] else []), m1)
      })"

section \<open>The report ends and its regions are legible\<close>

text \<open>The line of a region, and the memory it was printed from: the arrays hold the bounds in base 16.\<close>

definition region_legible :: "u32 \<Rightarrow> u32 \<Rightarrow> mmap_entry \<Rightarrow> mem \<Rightarrow> bool" where
  "region_legible sb eb e m \<longleftrightarrow> cstr m sb (notation64 16 (unat (me_addr e))) \<and> cstr m eb (notation64 16 (unat (me_addr e + me_len e)))"

lemma notation64_nonzero: "0 \<notin> set (notation64 16 n)"
proof -
  have "\<forall>d\<in>set [0..<16]. digit_chars ! d \<noteq> 0" by code_simp
  then have "digit_chars ! d \<noteq> 0" if "d < 16" for d using that by simp
  moreover have "\<forall>d\<in>set (number_digits 16 n). d < 16" by (auto simp: number_digits_def dest: rdigits_bound)
  ultimately show ?thesis by (auto simp: notation64_def)
qed

lemma notation64_length: "length (notation64 16 (unat (v :: u64))) \<le> 16"
  using rdigits_length [of "unat v" 16 16] unat_u64_less [of v] by (simp add: notation64_def number_digits_def)

definition entry_lines :: "kernel_image \<Rightarrow> u32 \<Rightarrow> u32 \<Rightarrow> mmap_entry \<Rightarrow> mem \<Rightarrow> (report \<times> mem) list" where
  "entry_lines k sb eb e m =
     [([(nl ''Memory region: 0x%s -> 0x%s (%s)'', [String_At sb, String_At eb,
          Text (if me_type e = MULTIBOOT_MEMORY_AVAILABLE then ''Available'' else ''Reserved'')])], m)] @
     (if holds_kernel_end k e then [([found_line e], m)] else [])"

lemma region_lines_run:
  assumes "unat sb + 65 < 2 ^ 32" "unat eb + 65 < 2 ^ 32" "region sb 32 \<inter> region eb 32 = {}"
  shows "\<exists>m'. region_lines k sb eb e m = Some (entry_lines k sb eb e m', m') \<and> region_legible sb eb e m'"
proof -
  let ?s = "notation64 16 (unat (me_addr e))" and ?t = "notation64 16 (unat (me_addr e + me_len e))"
  let ?m1 = "store m sb (?s @ [0])" and ?m2 = "store (store m sb (?s @ [0])) eb (?t @ [0])"
  have run: "uint64_to_str (me_addr e) sb 16 m = Some ?m1" "uint64_to_str (me_addr e + me_len e) eb 16 ?m1 = Some ?m2"
    using uint64_to_str_store [of 16 sb "me_addr e" m] uint64_to_str_store [of 16 eb "me_addr e + me_len e" ?m1] assms(1,2) by simp_all
  have l: "length ?s \<le> 16" "length ?t \<le> 16" by (rule notation64_length)+
  have "region sb (Suc (length ?s)) \<inter> region eb (length (?t @ [0])) = {}"
    using assms(3) l region_mono [of _ sb "Suc (length ?s)" 32] region_mono [of _ eb "Suc (length ?t)" 32] by (auto simp: disjoint_iff)
  moreover have "cstr ?m1 sb ?s" using l by (intro cstr_store notation64_nonzero) simp
  ultimately have "cstr ?m2 sb ?s" using cstr_frame by blast
  moreover have "cstr ?m2 eb ?t" using l by (intro cstr_store notation64_nonzero) simp
  ultimately show ?thesis using run by (intro exI [of _ ?m2]) (simp add: region_lines_def entry_lines_def region_legible_def)
qed

text \<open>The report of a well-formed map ends, with the lines of its entries in order, each legible when it is printed.\<close>

lemma mmap_report_run:
  assumes "unat sb + 65 < 2 ^ 32" "unat eb + 65 < 2 ^ 32" "region sb 32 \<inter> region eb 32 = {}" and "mmap_layout w a es stop"
  shows "\<exists>ms m'. mmap_report k w sb eb stop a m = Some (concat (map2 (entry_lines k sb eb) es ms), m') \<and>
    list_all2 (region_legible sb eb) es ms"
  using assms(4)
proof (induction es arbitrary: a m)
  case Nil
  then show ?case by (subst mmap_report.simps) auto
next
  case (Cons e es)
  obtain m1 where m1: "region_lines k sb eb e m = Some (entry_lines k sb eb e m1, m1)" "region_legible sb eb e m1"
    using region_lines_run [OF assms(1-3)] by blast
  obtain ms m' where ms: "mmap_report k w sb eb stop (a + me_size e + 4) m1 = Some (concat (map2 (entry_lines k sb eb) es ms), m')"
    "list_all2 (region_legible sb eb) es ms" using Cons.IH [of "a + me_size e + 4" m1] Cons.prems by auto
  have "mmap_report k w sb eb stop a m = Some (concat (map2 (entry_lines k sb eb) (e # es) (m1 # ms)), m')"
    using Cons.prems m1(1) ms(1) by (subst mmap_report.simps) simp
  then show ?case using m1(2) ms(2) by (metis list_all2_Cons)
qed

text \<open>
  The line about the region that holds the kernel passes 64-bit numbers to \<^verbatim>\<open>%x\<close>, which takes 32 bits: below 4 GiB
  what it prints as the end of the region is the upper half of its start, which is 0.
\<close>

lemma found_line_end_zero:
  assumes "unat (me_addr e) < 2 ^ 32"
  shows "snd (found_line e) ! 1 = Word 0"
proof -
  have "unat (drop_bit 32 (me_addr e)) = 0" unfolding unat_drop_bit_eq using assms by (simp add: drop_bit_eq_div)
  then have "drop_bit 32 (me_addr e) = 0" by (simp add: word_unat_eq_iff)
  then show ?thesis by (simp add: found_line_def word_pair_def)
qed

lemma multiboot_report_ends:
  assumes "unat sb + 65 < 2 ^ 32" "unat eb + 65 < 2 ^ 32" "region sb 32 \<inter> region eb 32 = {}"
    and "mmap_layout w (mmap_addr info) es (mmap_addr info + mmap_length info)"
  shows "\<exists>rs m'. multiboot_report k w sb eb param magic info m = Some (rs, m')"
  using mmap_report_run [OF assms, of k m] by (auto simp: multiboot_report_def)

end
