(* ===== verification/Spec2Isabelle.thy ===== *)
theory Spec2Isabelle
  imports Shell_Props Cpuid Syscall Bootmem_Tests Palloc_Tests String_Tests Vm_Tests Task_Purge Multiboot_Report
begin

text \<open>
  A verification library for the Rotary kernel, a small operating system kernel for 32-bit x86 written in C. Paths are
  those of the repository; a definition has the name of the C function, type or constant it models
  wherever that is possible.

  \<^bold>\<open>The program and the order of its parts\<close>

  The boot loader enters \<^verbatim>\<open>kernel_main\<close>, which calls \<^verbatim>\<open>arch_init\<close>. It prepares screen and serial port, registers the boot loader's
  memory map with the boot memory allocator (\<^verbatim>\<open>bootmem\<close>), builds and loads the kernel's page directory out of boot
  memory, hands the remaining pages to the buddy allocator (\<^verbatim>\<open>palloc\<close>), and sets up segments, interrupts, timer and
  keyboard; then it creates the idle task, the terminals and the root file system and starts the shell. On
  the pages of the buddy allocator stand the slab caches of \<^verbatim>\<open>kmalloc\<close> and the page tables of address spaces (\<^verbatim>\<open>vm\<close>). Timer
  interrupts run the round-robin scheduler, page faults are resolved by the address space of the
  current task, and key presses go to the shell. Messages are formatted by \<^verbatim>\<open>sprintf\<close> and end on the screen or on the
  serial port.

  \<^bold>\<open>Modelling conventions\<close>

  \<^item> C integers are words of their width, with wrap-around; pointers are 32-bit words and NULL is 0. Structs are
    records. Globals are the fields of a state record that every operation takes and returns.
  \<^item> Byte memory (strings, buffers, the screen) is a function from addresses to bytes; page tables are words in a
    function from addresses to words; structs that are allocated dynamically are in typed stores by address, and
    the nodes of intrusive lists in a heap of their own (\<open>Rotary_List\<close>).
  \<^item> \<open>None\<close> is an execution without a defined result: reading a freed struct, a NULL dereference, an index out of
    bounds, taking a lock that is held, a loop that does not end. Loops that the code does not bound are partial
    functions in the option monad, so a theorem that gives \<open>Some\<close> also says that the loop ends. Loops with a bound are
    recursions on a list or number with that bound, and all other recursions have a measure; no fuel is
    used anywhere. \<^verbatim>\<open>PANIC\<close> is the value \<open>Panic\<close> of the type \<open>outcome\<close>. Error codes are
    returned as in C.
  \<^item> Addresses the linker or compiler chooses (the kernel image, literals, local arrays, handlers) are arguments. So
    are the devices: the \<open>n\<close>-th read of a port gives a value of a function \<open>dev n port\<close>, port writes are recorded,
    and \<open>cpuid\<close> gives the registers of the instruction.

  \<^bold>\<open>Theories, sources and what is shown\<close>

  \<^item> \<open>Prelude\<close>: return codes and bit macros of \<^verbatim>\<open>include/rotary/core.h\<close>, the spinlock of \<^verbatim>\<open>arch/x86/kernel/sync.c\<close>, the shared types and lemma
    collections. \<open>Simulation\<close>: a locale for sequences of fallible operations that follow an abstract machine; its
    instances are the debug messages (\<open>Console\<close>) and the line editor of the shell (\<open>Shell_Props\<close>).
  \<^item> \<open>Rotary_List\<close>: \<^verbatim>\<open>include/rotary/list.h\<close>. Circular and linear lists represent sequences; one locale gives both the
    laws the clients use.
  \<^item> \<open>Arch_Paging\<close>: address and page macros of \<^verbatim>\<open>arch/x86/include/arch\<close>, with alignment.
  \<^item> \<open>Bootmem\<close> (\<^verbatim>\<open>kernel/mm/bootmem.c\<close>): the region table stays sound, with the one request exactly described for which it does not, and allocations are fresh. \<open>Bootmem_Tests\<close>: the kernel's own
    tests (\<^verbatim>\<open>test/bootmem.c\<close>), all of which pass for every position of the image. \<open>Palloc_Tests\<close>: those
    of the page allocator (\<^verbatim>\<open>test/palloc.c\<close>), with the boot memory they set up.
  \<^item> \<open>Buddy_Spec\<close>, \<open>Palloc\<close>, \<open>Palloc_Refine\<close>, \<open>Palloc_Init\<close>, \<open>Palloc_Props\<close> (\<^verbatim>\<open>kernel/mm/palloc.c\<close>): an abstract buddy system on free lists of blocks; the code with its
    doubly linked lists implements it; after any sequence of calls held and free blocks tile the usable pages, and
    what is free depends only on what is held. The hand-over of boot memory gives exactly the registered pages.
  \<^item> \<open>Slab\<close>, \<open>Slab_Correct\<close>, \<open>Kmalloc\<close>, \<open>Object_Heap\<close> (\<^verbatim>\<open>kernel/mm/slab.c\<close>, \<^verbatim>\<open>kernel/mm/kmalloc.c\<close>): the slab allocator over any source of page frames (a
    locale, instantiated with the page allocator), the kernel heap over thirteen caches, and the interface its clients rely on
    (a locale, instantiated with \<^verbatim>\<open>kmalloc\<close> and \<^verbatim>\<open>kfree\<close>): objects are large enough and pairwise
    disjoint, and what was allocated can be released again. The blocks of pages in use beside the slabs are followed exactly (\<open>frames_held\<close>).
  \<^item> \<open>KString\<close>, \<open>KString_Props\<close>, \<open>KPrintf\<close> (\<^verbatim>\<open>kernel/core/string.c\<close>, \<^verbatim>\<open>kernel/util/math.c\<close>): the exact effect of every string function on memory; \<^verbatim>\<open>sprintf\<close> writes the meaning of its
    format. \<open>String_Tests\<close>: the kernel's own tests (\<^verbatim>\<open>test/string.c\<close>); two of their assertions contradict the code, one depends on
    a byte that was never written, all others hold.
  \<^item> \<open>Ptable\<close>, \<open>Ptable_Props\<close>, \<open>Paging\<close> (\<^verbatim>\<open>kernel/mm/ptable.c\<close>, \<^verbatim>\<open>arch/x86/kernel/paging.c\<close>): the operations in terms of the address translation of the processor and of
    the rights it takes from both levels of entries; the kernel's directory maps the linear range, writable and closed to user code.
  \<^item> \<open>Vm\<close>, \<open>Vm_Space\<close> (\<^verbatim>\<open>kernel/mm/vm.c\<close>): a page fault in a mapping is resolved with a fresh page; the pages of an address space, and that creating and
    destroying one takes and gives back exactly these. \<open>Vm_Tests\<close>: the tests of
    \<^verbatim>\<open>test/vm.c\<close>, of which one has a body.
  \<^item> \<open>Task\<close>, \<open>Task_Props\<close>, \<open>Task_Create\<close>, \<open>Task_Purge\<close> (\<^verbatim>\<open>kernel/sched/task.c\<close>, \<^verbatim>\<open>arch/x86/kernel/task.c\<close>, \<^verbatim>\<open>context-switch.asm\<close>): round robin, also with killed tasks, which are released with all they
    hold; fairness, the context switch as a round trip, creation
    on every outcome of the allocators it calls, killing; and the use of a freed task after \<^verbatim>\<open>task_exit_current\<close>.
  \<^item> \<open>Gdt\<close>, \<open>Interrupts\<close>, \<open>Interrupts_Props\<close>, \<open>Cpuid\<close>, \<open>Syscall\<close> (\<^verbatim>\<open>gdt.c\<close>, \<^verbatim>\<open>cpu.c\<close>, \<^verbatim>\<open>interrupts.c\<close>, \<^verbatim>\<open>pic8259.c\<close>, \<^verbatim>\<open>timer.c\<close>, \<^verbatim>\<open>keyboard.c\<close>, \<^verbatim>\<open>cpuid.c\<close>, \<^verbatim>\<open>syscall.c\<close>, \<^verbatim>\<open>write.c\<close>): descriptors and gates
    decode to what was meant; the dispatch of page faults, timer and keys (a task that runs for the first time continues behind the
    handler, at \<^verbatim>\<open>isr_exit\<close>); identification of the processor; system calls.
  \<^item> \<open>Multiboot\<close>, \<open>Multiboot_Report\<close>, \<open>Boot\<close>, \<open>Init\<close> (\<^verbatim>\<open>multiboot.c\<close>, \<^verbatim>\<open>init.c\<close>): which regions are registered, 64-bit division and printing, the report on the
    boot loader's information; memory at start-up; the whole start-up sequence.
  \<^item> \<open>Vga\<close>, \<open>Serial\<close>, \<open>Console\<close>, \<open>Tty\<close> (\<^verbatim>\<open>vga.c\<close>, \<^verbatim>\<open>serial.c\<close>, \<^verbatim>\<open>logging.c\<close>, \<^verbatim>\<open>panic.c\<close>, \<^verbatim>\<open>tty.c\<close>): output stays in the screen; debug messages arrive complete and in
    order on a port that becomes ready again and again; where messages end up; terminals on the heap.
  \<^item> \<open>Vfs\<close> (\<^verbatim>\<open>kernel/fs\<close>): the registry of file system types (a locale, instantiated with the list of the code) and the
    mounting of the test root.
  \<^item> \<open>Ktest\<close>, \<open>Reports\<close>, \<open>Shell\<close>, \<open>Shell_Props\<close> (\<^verbatim>\<open>kernel/test/ktest.c\<close>, the debug output of all components, \<^verbatim>\<open>kernel/core/shell.c\<close>): the test framework; the reports end, and what they say (with one wrong line); the shell's line editor implements editing of a list of characters, and its bounds.

  \<^bold>\<open>Bounds\<close>

  The heap theorems take fewer than \<open>2 ^ 18\<close> pages (1 GiB, the memory that is mapped linearly), beyond which \<^verbatim>\<open>PHY_TO_VIR\<close>
  wraps; the page allocator needs a number of pages that is a multiple of 64, without which the code reads page
  structs behind the page area. Text on the screen is stated for lines that fit where the code does not guard them.

  \<^bold>\<open>Not modelled\<close>

  Debug messages of operations are left out of the operations and treated in the console's theory, except where a
  function does nothing else (\<open>Reports\<close>, \<open>Syscall\<close>) or most of it (\<open>Multiboot_Report\<close>). The boot assembly and the interrupt stubs, the endless loops at
  the end of \<^verbatim>\<open>kernel_main\<close>, \<^verbatim>\<open>shell_init\<close> and of the two demonstration tasks, and \<^verbatim>\<open>capture_registers\<close> (inline assembly without a caller) are
  machine code or do not return. Interrupts are handled between, not within, the modelled
  operations. \<^verbatim>\<open>descriptor.c\<close>, \<^verbatim>\<open>elf.c\<close>, \<^verbatim>\<open>ata.c\<close>, \<^verbatim>\<open>mount.c\<close> and \<^verbatim>\<open>namei.c\<close> have no code, and the ARM port is unfinished.
\<close>

end
